(* ===== verification/Prelude.thy ===== *)
theory Prelude
  imports Main "HOL-Library.Word"
begin

unbundle bit_operations_syntax

text \<open>
  Shared vocabulary of the development: the fixed-width integer types of the C
  code, byte strings, the "first slot that satisfies a test" scan that every
  fixed-size table of the service uses, and the generic lemmas about them. The
  collections declared here are filled by the component theories:
  \<open>wire_defs\<close> unfolds the protocol constants, \<open>codec_simps\<close> holds the
  encode/decode round trips.
\<close>

named_theorems wire_defs \<open>protocol constants, unfolded to numerals\<close>
named_theorems codec_simps \<open>round trips of the little-endian codec\<close>

type_synonym u8 = "8 word"
type_synonym u16 = "16 word"
type_synonym u32 = "32 word"
type_synonym u64 = "64 word"
type_synonym i32 = "32 word"
type_synonym bytes = "u8 list"

section \<open>C strings and byte literals\<close>

text \<open>A C string literal as its bytes, without the terminating zero.\<close>

definition ascii :: "string \<Rightarrow> bytes" where
  "ascii s = map of_char s"

lemma length_ascii [simp]: "length (ascii s) = length s"
  by (simp add: ascii_def)

lemma ascii_append: "ascii (s @ t) = ascii s @ ascii t"
  by (simp add: ascii_def)

text \<open>\<open>strlen\<close> on a buffer that may carry bytes after the terminator.\<close>

fun cstring :: "bytes \<Rightarrow> bytes" where
  "cstring [] = []"
| "cstring (b # bs) = (if b = 0 then [] else b # cstring bs)"

lemma cstring_no_nul [simp]: "0 \<notin> set (cstring bs)"
  by (induction bs) auto

lemma cstring_id: "0 \<notin> set bs \<Longrightarrow> cstring bs = bs"
  by (induction bs) auto

lemma scan_to [simp]:
  "x \<notin> set w \<Longrightarrow> takeWhile (\<lambda>b. b \<noteq> x) (w @ x # r) = w"
  "x \<notin> set w \<Longrightarrow> dropWhile (\<lambda>b. b \<noteq> x) (w @ x # r) = x # r"
  "x \<notin> set w \<Longrightarrow> takeWhile (\<lambda>b. b \<noteq> x) w = w"
  "x \<notin> set w \<Longrightarrow> dropWhile (\<lambda>b. b \<noteq> x) w = []"
  by (induction w) auto

lemma scan_unique:
  assumes "x \<notin> set v" "x \<notin> set w"
  shows "v @ x # t = w @ x # r \<longleftrightarrow> v = w \<and> t = r"
proof
  assume eq: "v @ x # t = w @ x # r"
  have "v = takeWhile (\<lambda>b. b \<noteq> x) (v @ x # t)" using assms(1) by simp
  also have "\<dots> = w" unfolding eq using assms(2) by simp
  finally show "v = w \<and> t = r" using eq by simp
qed simp

lemma scan_to_cases:
  obtains (none) "x \<notin> set s" | (found) w r where "s = w @ x # r" "x \<notin> set w"
  by (metis split_list_first)

section \<open>Scanning a table for its first matching slot\<close>

fun first_index :: "('a \<Rightarrow> bool) \<Rightarrow> 'a list \<Rightarrow> nat option" where
  "first_index P [] = None"
| "first_index P (x # xs) = (if P x then Some 0 else map_option Suc (first_index P xs))"

lemma first_index_None: "first_index P xs = None \<longleftrightarrow> (\<forall>x\<in>set xs. \<not> P x)"
  by (induction xs) auto

lemma first_index_Some:
  "first_index P xs = Some i \<longleftrightarrow> i < length xs \<and> P (xs ! i) \<and> (\<forall>j<i. \<not> P (xs ! j))"
proof (induction xs arbitrary: i)
  case Nil
  then show ?case by simp
next
  case (Cons x xs)
  show ?case
    by (cases i) (auto simp: Cons.IH All_less_Suc2)
qed

lemma first_index_SomeD:
  assumes "first_index P xs = Some i"
  shows "i < length xs" and "P (xs ! i)" and "\<And>j. j < i \<Longrightarrow> \<not> P (xs ! j)"
  using assms by (auto simp: first_index_Some)

lemma first_index_exists: "x \<in> set xs \<Longrightarrow> P x \<Longrightarrow> \<exists>i. first_index P xs = Some i"
  by (cases "first_index P xs") (auto simp: first_index_None)

lemma first_index_cong:
  "(\<And>x. x \<in> set xs \<Longrightarrow> P x = Q x) \<Longrightarrow> first_index P xs = first_index Q xs"
  by (induction xs) auto

section \<open>Counting over an updated table\<close>

text \<open>
  Every bounded table of the service is an array whose slots are rewritten one at
  a time. How a rewrite changes the number of slots with a property is the
  arithmetic behind all of its budgets.
\<close>

lemma length_filter_update:
  assumes "i < length xs"
  shows "length (filter P (xs[i := y])) + of_bool (P (xs ! i)) =
         length (filter P xs) + of_bool (P y)"
  using assms
proof (induction xs arbitrary: i)
  case Nil
  then show ?case by simp
next
  case (Cons x xs)
  then show ?case by (cases i) auto
qed

lemma sum_list_map_update:
  fixes f :: "'a \<Rightarrow> nat"
  assumes "i < length xs"
  shows "sum_list (map f (xs[i := y])) + f (xs ! i) = sum_list (map f xs) + f y"
  using assms
proof (induction xs arbitrary: i)
  case Nil
  then show ?case by simp
next
  case (Cons x xs)
  then show ?case by (cases i) auto
qed

lemma member_le_sum_map:
  fixes f :: "'a \<Rightarrow> nat"
  shows "x \<in> set xs \<Longrightarrow> f x \<le> sum_list (map f xs)"
  by (induction xs) auto

lemma nth_update_cases:
  "i < length xs \<Longrightarrow> xs[i := y] ! j = (if j = i then y else xs ! j)"
  by simp

lemma distinct_filter_update:
  assumes "distinct (filter P xs)" "i < length xs" "P y \<Longrightarrow> y = xs ! i \<or> y \<notin> set xs"
  shows "distinct (filter P (xs[i := y]))"
  using assms
proof (induction xs arbitrary: i)
  case Nil
  then show ?case by simp
next
  case (Cons x xs)
  show ?case
  proof (cases i)
    case 0
    then show ?thesis using Cons.prems by (auto split: if_splits)
  next
    case (Suc j)
    have "x \<notin> set (xs[j := y])" if "P x" "x \<notin> set xs" "P y \<Longrightarrow> y \<noteq> x"
      using that set_update_subset_insert [of xs j y] by auto
    moreover have "P y \<Longrightarrow> y = x \<Longrightarrow> x \<in> set xs"
      using Cons.prems(2,3) Suc by (auto simp: nth_Cons)
    ultimately show ?thesis
      using Cons.IH [of j] Cons.prems Suc by (auto split: if_splits)
  qed
qed

lemma distinct_filter_nth:
  "distinct (filter P xs) \<Longrightarrow> i < length xs \<Longrightarrow> j < length xs \<Longrightarrow> i \<noteq> j \<Longrightarrow> P (xs ! i) \<Longrightarrow> xs ! i \<noteq> xs ! j"
proof (induction xs arbitrary: i j)
  case Nil
  then show ?case by simp
next
  case (Cons x xs)
  show ?case
    using Cons.prems Cons.IH [of "i - 1" "j - 1"]
    by (cases i; cases j) (auto simp: in_set_conv_nth split: if_splits)
qed

section \<open>Words\<close>

lemma unat_le_mono: "unat (a::'a::len word) \<le> unat b \<longleftrightarrow> a \<le> b"
  by (simp add: word_le_nat_alt)

lemma of_bool_word_eq [simp]: "(of_bool P :: 'a::len word) = 0 \<longleftrightarrow> \<not> P"
  by simp

lemma and_mask_zero_iff:
  fixes x m :: "'a::len word"
  shows "x AND NOT m = 0 \<longleftrightarrow> x AND m = x"
proof
  assume *: "x AND NOT m = 0"
  have "x = x AND (m OR NOT m)" by simp
  also have "\<dots> = (x AND m) OR (x AND NOT m)" by (simp only: bit.conj_disj_distrib)
  finally show "x AND m = x" using * by simp
next
  assume "x AND m = x"
  then have "x AND NOT m = (x AND m) AND NOT m" by simp
  also have "\<dots> = 0" by (simp add: and.assoc)
  finally show "x AND NOT m = 0" .
qed

lemma unat_lt: "unat (w :: 'a::len word) < 2 ^ LENGTH('a)"
  by simp

lemma unat_ucast_up:
  assumes "LENGTH('a) \<le> LENGTH('b)"
  shows "unat (ucast (w :: 'a::len word) :: 'b::len word) = unat w"
proof -
  have "unat w < 2 ^ LENGTH('b)"
    using assms by (meson order_less_le_trans one_le_numeral power_increasing unat_lt)
  then show ?thesis by (simp add: unsigned_ucast_eq take_bit_nat_eq_self)
qed

lemma unat_of_nat_small: "n < 2 ^ LENGTH('a) \<Longrightarrow> unat (of_nat n :: 'a::len word) = n"
  by (simp add: unsigned_of_nat take_bit_nat_eq_self)

lemma less_next: "x + 1 \<noteq> (0 :: u64) \<Longrightarrow> t < x \<Longrightarrow> t < x + 1" "x + 1 \<noteq> (0 :: u64) \<Longrightarrow> x < x + 1"
proof -
  assume "x + 1 \<noteq> 0"
  then have "unat (x + 1) = unat x + 1" by (simp add: unatSuc add.commute)
  then show "x < x + 1" and "t < x \<Longrightarrow> t < x + 1" by (simp_all add: word_less_nat_alt)
qed

end
