(* ===== verification/Protocol.thy ===== *)
theory Protocol
  imports Prelude
begin

text \<open>
  The constants of the private client protocol (src/src/protocol.h) and of the
  public header (src/include/keysharp_desktop/client.h): frame layout, opcodes,
  limits, statuses, permission scopes, backends and operation bits. Byte counts
  and offsets are natural numbers, wire values are words of the width the code
  gives them. The scope values of the permission library are those client.c
  pins with its static assertions.
\<close>

subsection \<open>Frame layout and header flags (protocol.h)\<close>

definition KSD_PROTOCOL_MAJOR :: u16 where
  [wire_defs]: "KSD_PROTOCOL_MAJOR = 3"

definition KSD_PROTOCOL_MINOR :: u16 where
  [wire_defs]: "KSD_PROTOCOL_MINOR = 0"

definition KSD_FLAG_RESPONSE :: u16 where
  [wire_defs]: "KSD_FLAG_RESPONSE = 0x1"

definition KSD_FLAG_EVENT :: u16 where
  [wire_defs]: "KSD_FLAG_EVENT = 0x2"

definition KSD_FLAG_MORE :: u16 where
  [wire_defs]: "KSD_FLAG_MORE = 0x4"

definition KSD_FLAG_ALL :: u16 where
  [wire_defs]: "KSD_FLAG_ALL = KSD_FLAG_RESPONSE OR KSD_FLAG_EVENT OR KSD_FLAG_MORE"

definition KSD_FRAME_HEADER_SIZE :: nat where
  [wire_defs]: "KSD_FRAME_HEADER_SIZE = 24"

definition KSD_FRAME_MAGIC_OFFSET :: nat where
  [wire_defs]: "KSD_FRAME_MAGIC_OFFSET = 0"

definition KSD_FRAME_MAJOR_OFFSET :: nat where
  [wire_defs]: "KSD_FRAME_MAJOR_OFFSET = 4"

definition KSD_FRAME_MINOR_OFFSET :: nat where
  [wire_defs]: "KSD_FRAME_MINOR_OFFSET = 6"

definition KSD_FRAME_OPCODE_OFFSET :: nat where
  [wire_defs]: "KSD_FRAME_OPCODE_OFFSET = 8"

definition KSD_FRAME_FLAGS_OFFSET :: nat where
  [wire_defs]: "KSD_FRAME_FLAGS_OFFSET = 10"

definition KSD_FRAME_PAYLOAD_LENGTH_OFFSET :: nat where
  [wire_defs]: "KSD_FRAME_PAYLOAD_LENGTH_OFFSET = 12"

definition KSD_FRAME_REQUEST_ID_OFFSET :: nat where
  [wire_defs]: "KSD_FRAME_REQUEST_ID_OFFSET = 16"

definition KSD_FRAME_MAGIC_0 :: u8 where
  [wire_defs]: "KSD_FRAME_MAGIC_0 = 75"

definition KSD_FRAME_MAGIC_1 :: u8 where
  [wire_defs]: "KSD_FRAME_MAGIC_1 = 83"

definition KSD_FRAME_MAGIC_2 :: u8 where
  [wire_defs]: "KSD_FRAME_MAGIC_2 = 68"

definition KSD_FRAME_MAGIC_3 :: u8 where
  [wire_defs]: "KSD_FRAME_MAGIC_3 = 80"

subsection \<open>Opcodes (protocol.h)\<close>

definition KSD_OP_HELLO :: u16 where
  [wire_defs]: "KSD_OP_HELLO = 0x1"

definition KSD_OP_AUTHORIZE :: u16 where
  [wire_defs]: "KSD_OP_AUTHORIZE = 0x2"

definition KSD_OP_PING :: u16 where
  [wire_defs]: "KSD_OP_PING = 0x3"

definition KSD_OP_PERMISSIONS_LIST :: u16 where
  [wire_defs]: "KSD_OP_PERMISSIONS_LIST = 0x4"

definition KSD_OP_PERMISSIONS_REVOKE :: u16 where
  [wire_defs]: "KSD_OP_PERMISSIONS_REVOKE = 0x5"

definition KSD_OP_SESSION_REVOKED :: u16 where
  [wire_defs]: "KSD_OP_SESSION_REVOKED = 0x6"

definition KSD_OP_STATE_SUBSCRIBE :: u16 where
  [wire_defs]: "KSD_OP_STATE_SUBSCRIBE = 0x7"

definition KSD_OP_STATE_EVENT :: u16 where
  [wire_defs]: "KSD_OP_STATE_EVENT = 0x8"

definition KSD_OP_CAPTURE_AREA :: u16 where
  [wire_defs]: "KSD_OP_CAPTURE_AREA = 0x2000"

definition KSD_OP_CAPTURE_WINDOW :: u16 where
  [wire_defs]: "KSD_OP_CAPTURE_WINDOW = 0x2001"

definition KSD_OP_CAPTURE_DESKTOP :: u16 where
  [wire_defs]: "KSD_OP_CAPTURE_DESKTOP = 0x2002"

definition KSD_OP_WINDOW_LIST :: u16 where
  [wire_defs]: "KSD_OP_WINDOW_LIST = 0x2010"

definition KSD_OP_WINDOW_ACTIVE :: u16 where
  [wire_defs]: "KSD_OP_WINDOW_ACTIVE = 0x2011"

definition KSD_OP_WINDOW_WATCH :: u16 where
  [wire_defs]: "KSD_OP_WINDOW_WATCH = 0x2012"

definition KSD_OP_WINDOW_HANDLES :: u16 where
  [wire_defs]: "KSD_OP_WINDOW_HANDLES = 0x2013"

definition KSD_OP_WINDOW_FOCUS :: u16 where
  [wire_defs]: "KSD_OP_WINDOW_FOCUS = 0x2020"

definition KSD_OP_WINDOW_RAISE :: u16 where
  [wire_defs]: "KSD_OP_WINDOW_RAISE = 0x2021"

definition KSD_OP_WINDOW_LOWER :: u16 where
  [wire_defs]: "KSD_OP_WINDOW_LOWER = 0x2022"

definition KSD_OP_WINDOW_CLOSE :: u16 where
  [wire_defs]: "KSD_OP_WINDOW_CLOSE = 0x2023"

definition KSD_OP_WINDOW_KILL :: u16 where
  [wire_defs]: "KSD_OP_WINDOW_KILL = 0x2024"

definition KSD_OP_WINDOW_MOVE_RESIZE :: u16 where
  [wire_defs]: "KSD_OP_WINDOW_MOVE_RESIZE = 0x2025"

definition KSD_OP_WINDOW_MOVE_RESIZE_XID :: u16 where
  [wire_defs]: "KSD_OP_WINDOW_MOVE_RESIZE_XID = 0x2026"

definition KSD_OP_WINDOW_SET_STATE :: u16 where
  [wire_defs]: "KSD_OP_WINDOW_SET_STATE = 0x2027"

definition KSD_OP_WINDOW_SET_OPACITY :: u16 where
  [wire_defs]: "KSD_OP_WINDOW_SET_OPACITY = 0x2028"

definition KSD_OP_WINDOW_SET_ABOVE :: u16 where
  [wire_defs]: "KSD_OP_WINDOW_SET_ABOVE = 0x2029"

definition KSD_OP_WINDOW_SET_DECORATED :: u16 where
  [wire_defs]: "KSD_OP_WINDOW_SET_DECORATED = 0x202A"

definition KSD_OP_WINDOW_RESERVE :: u16 where
  [wire_defs]: "KSD_OP_WINDOW_RESERVE = 0x202B"

definition KSD_OP_WINDOW_GET_RESERVED :: u16 where
  [wire_defs]: "KSD_OP_WINDOW_GET_RESERVED = 0x202C"

definition KSD_OP_WINDOW_SET_SKIP_TASKBAR :: u16 where
  [wire_defs]: "KSD_OP_WINDOW_SET_SKIP_TASKBAR = 0x202D"

definition KSD_OP_CLIPBOARD_MIMETYPES :: u16 where
  [wire_defs]: "KSD_OP_CLIPBOARD_MIMETYPES = 0x2030"

definition KSD_OP_CLIPBOARD_CONTENT :: u16 where
  [wire_defs]: "KSD_OP_CLIPBOARD_CONTENT = 0x2031"

definition KSD_OP_CLIPBOARD_TEXT :: u16 where
  [wire_defs]: "KSD_OP_CLIPBOARD_TEXT = 0x2032"

definition KSD_OP_CLIPBOARD_WATCH :: u16 where
  [wire_defs]: "KSD_OP_CLIPBOARD_WATCH = 0x2033"

definition KSD_OP_MOUSE_MOVE_ABSOLUTE :: u16 where
  [wire_defs]: "KSD_OP_MOUSE_MOVE_ABSOLUTE = 0x2040"

definition KSD_OP_MOUSE_MOVE_RELATIVE :: u16 where
  [wire_defs]: "KSD_OP_MOUSE_MOVE_RELATIVE = 0x2041"

definition KSD_OP_MOUSE_BUTTON :: u16 where
  [wire_defs]: "KSD_OP_MOUSE_BUTTON = 0x2042"

definition KSD_OP_MOUSE_SCROLL :: u16 where
  [wire_defs]: "KSD_OP_MOUSE_SCROLL = 0x2043"

definition KSD_OP_CURSOR_POSITION :: u16 where
  [wire_defs]: "KSD_OP_CURSOR_POSITION = 0x2050"

definition KSD_OP_WORK_AREA :: u16 where
  [wire_defs]: "KSD_OP_WORK_AREA = 0x2051"

definition KSD_OP_CLIPBOARD_SET_CONTENT :: u16 where
  [wire_defs]: "KSD_OP_CLIPBOARD_SET_CONTENT = 0x2060"

definition KSD_OP_WINDOW_QUERY :: u16 where
  [wire_defs]: "KSD_OP_WINDOW_QUERY = 0x2014"

definition KSD_OP_WINDOW_CHILDREN :: u16 where
  [wire_defs]: "KSD_OP_WINDOW_CHILDREN = 0x2015"

definition KSD_OP_WINDOW_AT_POINT :: u16 where
  [wire_defs]: "KSD_OP_WINDOW_AT_POINT = 0x2016"

definition KSD_OP_DISPLAY_LIST :: u16 where
  [wire_defs]: "KSD_OP_DISPLAY_LIST = 0x2052"

definition KSD_OP_KEYBOARD_STATE :: u16 where
  [wire_defs]: "KSD_OP_KEYBOARD_STATE = 0x2053"

definition KSD_OP_WINDOW_SET_TITLE :: u16 where
  [wire_defs]: "KSD_OP_WINDOW_SET_TITLE = 0x2070"

definition KSD_OP_WINDOW_SET_VISIBLE :: u16 where
  [wire_defs]: "KSD_OP_WINDOW_SET_VISIBLE = 0x2071"

definition KSD_OP_WINDOW_REDRAW :: u16 where
  [wire_defs]: "KSD_OP_WINDOW_REDRAW = 0x2072"

definition KSD_OP_WINDOW_CLICK :: u16 where
  [wire_defs]: "KSD_OP_WINDOW_CLICK = 0x2073"

definition KSD_OP_WINDOW_BUTTON :: u16 where
  [wire_defs]: "KSD_OP_WINDOW_BUTTON = 0x2074"

definition KSD_OP_WINDOW_FOCUS_CHILD :: u16 where
  [wire_defs]: "KSD_OP_WINDOW_FOCUS_CHILD = 0x2075"

definition KSD_OP_WINDOW_EVENT :: u16 where
  [wire_defs]: "KSD_OP_WINDOW_EVENT = 0x2110"

definition KSD_OP_CLIPBOARD_EVENT :: u16 where
  [wire_defs]: "KSD_OP_CLIPBOARD_EVENT = 0x2130"

subsection \<open>Limits (protocol.h)\<close>

definition KSD_MAX_REQUEST_PAYLOAD :: nat where
  [wire_defs]: "KSD_MAX_REQUEST_PAYLOAD = 4 * 1024"

definition KSD_MAX_REQUEST_TOTAL_PAYLOAD :: nat where
  [wire_defs]: "KSD_MAX_REQUEST_TOTAL_PAYLOAD = 4 * 1024 * 1024"

definition KSD_MAX_TEXT_BYTES :: nat where
  [wire_defs]: "KSD_MAX_TEXT_BYTES = 4 * 1024 * 1024"

definition KSD_MAX_CAPTURE_BYTES :: nat where
  [wire_defs]: "KSD_MAX_CAPTURE_BYTES = 256 * 1024 * 1024"

definition KSD_MAX_CAPTURE_TAIL :: nat where
  [wire_defs]: "KSD_MAX_CAPTURE_TAIL = KSD_MAX_CAPTURE_BYTES + 20"

definition KSD_MAX_CAPTURE_DIMENSION :: nat where
  [wire_defs]: "KSD_MAX_CAPTURE_DIMENSION = 32768"

definition KSD_MAX_CAPTURE_PIXELS :: nat where
  [wire_defs]: "KSD_MAX_CAPTURE_PIXELS = 64 * 1024 * 1024"

definition KSD_MAX_MIMETYPE_BYTES :: nat where
  [wire_defs]: "KSD_MAX_MIMETYPE_BYTES = 1024"

definition KSD_MAX_MIMETYPES :: nat where
  [wire_defs]: "KSD_MAX_MIMETYPES = 4096"

definition KSD_MAX_CLIPBOARD_WRITE_BYTES :: nat where
  [wire_defs]: "KSD_MAX_CLIPBOARD_WRITE_BYTES = KSD_MAX_REQUEST_TOTAL_PAYLOAD - KSD_MAX_MIMETYPE_BYTES - 8"

subsection \<open>Statuses, scopes, backends and operation bits (client.h)\<close>

definition KSD_STATUS_OK :: u32 where
  [wire_defs]: "KSD_STATUS_OK = 0"

definition KSD_STATUS_DENIED :: u32 where
  [wire_defs]: "KSD_STATUS_DENIED = 1"

definition KSD_STATUS_UNSUPPORTED :: u32 where
  [wire_defs]: "KSD_STATUS_UNSUPPORTED = 2"

definition KSD_STATUS_INVALID_REQUEST :: u32 where
  [wire_defs]: "KSD_STATUS_INVALID_REQUEST = 3"

definition KSD_STATUS_UNAVAILABLE :: u32 where
  [wire_defs]: "KSD_STATUS_UNAVAILABLE = 4"

definition KSD_STATUS_BUSY :: u32 where
  [wire_defs]: "KSD_STATUS_BUSY = 5"

definition KSD_STATUS_NOT_FOUND :: u32 where
  [wire_defs]: "KSD_STATUS_NOT_FOUND = 6"

definition KSD_STATUS_RESOURCE_EXHAUSTED :: u32 where
  [wire_defs]: "KSD_STATUS_RESOURCE_EXHAUSTED = 7"

definition KSD_STATUS_TIMEOUT :: u32 where
  [wire_defs]: "KSD_STATUS_TIMEOUT = 8"

definition KSD_STATUS_CANCELLED :: u32 where
  [wire_defs]: "KSD_STATUS_CANCELLED = 9"

definition KSD_STATUS_REVOKED :: u32 where
  [wire_defs]: "KSD_STATUS_REVOKED = 10"

definition KSD_STATUS_INTERNAL :: u32 where
  [wire_defs]: "KSD_STATUS_INTERNAL = 255"

definition KSD_SCOPE_INPUT_MONITORING :: u32 where
  [wire_defs]: "KSD_SCOPE_INPUT_MONITORING = 0x1"

definition KSD_SCOPE_INPUT_CONTROL :: u32 where
  [wire_defs]: "KSD_SCOPE_INPUT_CONTROL = 0x2"

definition KSD_SCOPE_WINDOW_MONITORING :: u32 where
  [wire_defs]: "KSD_SCOPE_WINDOW_MONITORING = 0x4"

definition KSD_SCOPE_WINDOW_CONTROL :: u32 where
  [wire_defs]: "KSD_SCOPE_WINDOW_CONTROL = 0x8"

definition KSD_SCOPE_SCREEN_CAPTURE :: u32 where
  [wire_defs]: "KSD_SCOPE_SCREEN_CAPTURE = 0x10"

definition KSD_SCOPE_AUDIO_CAPTURE :: u32 where
  [wire_defs]: "KSD_SCOPE_AUDIO_CAPTURE = 0x20"

definition KSD_SCOPE_CAMERA_CAPTURE :: u32 where
  [wire_defs]: "KSD_SCOPE_CAMERA_CAPTURE = 0x40"

definition KSD_SCOPE_CLIPBOARD_MONITORING :: u32 where
  [wire_defs]: "KSD_SCOPE_CLIPBOARD_MONITORING = 0x80"

definition KSD_SCOPE_ALL :: u32 where
  [wire_defs]: "KSD_SCOPE_ALL = 0xFF"

definition KSD_BACKEND_NONE :: u32 where
  [wire_defs]: "KSD_BACKEND_NONE = 0"

definition KSD_BACKEND_KWIN :: u32 where
  [wire_defs]: "KSD_BACKEND_KWIN = 1"

definition KSD_BACKEND_GNOME :: u32 where
  [wire_defs]: "KSD_BACKEND_GNOME = 2"

definition KSD_BACKEND_CINNAMON :: u32 where
  [wire_defs]: "KSD_BACKEND_CINNAMON = 3"

definition KSD_BACKEND_GENERIC :: u32 where
  [wire_defs]: "KSD_BACKEND_GENERIC = 4"

definition KSD_BACKEND_X11 :: u32 where
  [wire_defs]: "KSD_BACKEND_X11 = 5"

definition KSD_OPERATION_CAPTURE_AREA :: u64 where
  [wire_defs]: "KSD_OPERATION_CAPTURE_AREA = 0x1"

definition KSD_OPERATION_CAPTURE_WINDOW :: u64 where
  [wire_defs]: "KSD_OPERATION_CAPTURE_WINDOW = 0x2"

definition KSD_OPERATION_WINDOW_LIST :: u64 where
  [wire_defs]: "KSD_OPERATION_WINDOW_LIST = 0x4"

definition KSD_OPERATION_WINDOW_ACTIVE :: u64 where
  [wire_defs]: "KSD_OPERATION_WINDOW_ACTIVE = 0x8"

definition KSD_OPERATION_WINDOW_WATCH :: u64 where
  [wire_defs]: "KSD_OPERATION_WINDOW_WATCH = 0x10"

definition KSD_OPERATION_WINDOW_FOCUS :: u64 where
  [wire_defs]: "KSD_OPERATION_WINDOW_FOCUS = 0x20"

definition KSD_OPERATION_WINDOW_RAISE :: u64 where
  [wire_defs]: "KSD_OPERATION_WINDOW_RAISE = 0x40"

definition KSD_OPERATION_WINDOW_LOWER :: u64 where
  [wire_defs]: "KSD_OPERATION_WINDOW_LOWER = 0x80"

definition KSD_OPERATION_WINDOW_CLOSE :: u64 where
  [wire_defs]: "KSD_OPERATION_WINDOW_CLOSE = 0x100"

definition KSD_OPERATION_WINDOW_KILL :: u64 where
  [wire_defs]: "KSD_OPERATION_WINDOW_KILL = 0x200"

definition KSD_OPERATION_WINDOW_MOVE_RESIZE :: u64 where
  [wire_defs]: "KSD_OPERATION_WINDOW_MOVE_RESIZE = 0x400"

definition KSD_OPERATION_WINDOW_MOVE_RESIZE_XID :: u64 where
  [wire_defs]: "KSD_OPERATION_WINDOW_MOVE_RESIZE_XID = 0x800"

definition KSD_OPERATION_WINDOW_SET_STATE :: u64 where
  [wire_defs]: "KSD_OPERATION_WINDOW_SET_STATE = 0x1000"

definition KSD_OPERATION_WINDOW_SET_OPACITY :: u64 where
  [wire_defs]: "KSD_OPERATION_WINDOW_SET_OPACITY = 0x2000"

definition KSD_OPERATION_WINDOW_SET_ABOVE :: u64 where
  [wire_defs]: "KSD_OPERATION_WINDOW_SET_ABOVE = 0x4000"

definition KSD_OPERATION_WINDOW_SET_DECORATED :: u64 where
  [wire_defs]: "KSD_OPERATION_WINDOW_SET_DECORATED = 0x8000"

definition KSD_OPERATION_WINDOW_RESERVE :: u64 where
  [wire_defs]: "KSD_OPERATION_WINDOW_RESERVE = 0x10000"

definition KSD_OPERATION_WINDOW_GET_RESERVED :: u64 where
  [wire_defs]: "KSD_OPERATION_WINDOW_GET_RESERVED = 0x20000"

definition KSD_OPERATION_CLIPBOARD_MIMETYPES :: u64 where
  [wire_defs]: "KSD_OPERATION_CLIPBOARD_MIMETYPES = 0x40000"

definition KSD_OPERATION_CLIPBOARD_CONTENT :: u64 where
  [wire_defs]: "KSD_OPERATION_CLIPBOARD_CONTENT = 0x80000"

definition KSD_OPERATION_CLIPBOARD_TEXT :: u64 where
  [wire_defs]: "KSD_OPERATION_CLIPBOARD_TEXT = 0x100000"

definition KSD_OPERATION_CLIPBOARD_WATCH :: u64 where
  [wire_defs]: "KSD_OPERATION_CLIPBOARD_WATCH = 0x200000"

definition KSD_OPERATION_MOUSE_MOVE_ABSOLUTE :: u64 where
  [wire_defs]: "KSD_OPERATION_MOUSE_MOVE_ABSOLUTE = 0x400000"

definition KSD_OPERATION_MOUSE_MOVE_RELATIVE :: u64 where
  [wire_defs]: "KSD_OPERATION_MOUSE_MOVE_RELATIVE = 0x800000"

definition KSD_OPERATION_MOUSE_BUTTON :: u64 where
  [wire_defs]: "KSD_OPERATION_MOUSE_BUTTON = 0x1000000"

definition KSD_OPERATION_MOUSE_SCROLL :: u64 where
  [wire_defs]: "KSD_OPERATION_MOUSE_SCROLL = 0x2000000"

definition KSD_OPERATION_CURSOR_POSITION :: u64 where
  [wire_defs]: "KSD_OPERATION_CURSOR_POSITION = 0x4000000"

definition KSD_OPERATION_WORK_AREA :: u64 where
  [wire_defs]: "KSD_OPERATION_WORK_AREA = 0x8000000"

definition KSD_OPERATION_CLIPBOARD_SET_CONTENT :: u64 where
  [wire_defs]: "KSD_OPERATION_CLIPBOARD_SET_CONTENT = 0x10000000"

definition KSD_OPERATION_WINDOW_HANDLES :: u64 where
  [wire_defs]: "KSD_OPERATION_WINDOW_HANDLES = 0x20000000"

definition KSD_OPERATION_WINDOW_SET_SKIP_TASKBAR :: u64 where
  [wire_defs]: "KSD_OPERATION_WINDOW_SET_SKIP_TASKBAR = 0x40000000"

definition KSD_OPERATION_CAPTURE_DESKTOP :: u64 where
  [wire_defs]: "KSD_OPERATION_CAPTURE_DESKTOP = 0x80000000"

definition KSD_OPERATION_WINDOW_QUERY :: u64 where
  [wire_defs]: "KSD_OPERATION_WINDOW_QUERY = 0x100000000"

definition KSD_OPERATION_WINDOW_CHILDREN :: u64 where
  [wire_defs]: "KSD_OPERATION_WINDOW_CHILDREN = 0x200000000"

definition KSD_OPERATION_WINDOW_AT_POINT :: u64 where
  [wire_defs]: "KSD_OPERATION_WINDOW_AT_POINT = 0x400000000"

definition KSD_OPERATION_DISPLAY_LIST :: u64 where
  [wire_defs]: "KSD_OPERATION_DISPLAY_LIST = 0x800000000"

definition KSD_OPERATION_KEYBOARD_STATE :: u64 where
  [wire_defs]: "KSD_OPERATION_KEYBOARD_STATE = 0x1000000000"

definition KSD_OPERATION_WINDOW_SET_TITLE :: u64 where
  [wire_defs]: "KSD_OPERATION_WINDOW_SET_TITLE = 0x2000000000"

definition KSD_OPERATION_WINDOW_SET_VISIBLE :: u64 where
  [wire_defs]: "KSD_OPERATION_WINDOW_SET_VISIBLE = 0x4000000000"

definition KSD_OPERATION_WINDOW_REDRAW :: u64 where
  [wire_defs]: "KSD_OPERATION_WINDOW_REDRAW = 0x8000000000"

definition KSD_OPERATION_WINDOW_CLICK :: u64 where
  [wire_defs]: "KSD_OPERATION_WINDOW_CLICK = 0x10000000000"

definition KSD_OPERATION_WINDOW_BUTTON :: u64 where
  [wire_defs]: "KSD_OPERATION_WINDOW_BUTTON = 0x20000000000"

definition KSD_OPERATION_WINDOW_FOCUS_CHILD :: u64 where
  [wire_defs]: "KSD_OPERATION_WINDOW_FOCUS_CHILD = 0x40000000000"

subsection \<open>Scopes this authority manages (permission_domain.h)\<close>

definition KSD_DESKTOP_MANAGED_SCOPES :: u32 where
  [wire_defs]: "KSD_DESKTOP_MANAGED_SCOPES =
     KSD_SCOPE_INPUT_CONTROL OR KSD_SCOPE_WINDOW_MONITORING
     OR KSD_SCOPE_WINDOW_CONTROL OR KSD_SCOPE_SCREEN_CAPTURE
     OR KSD_SCOPE_AUDIO_CAPTURE OR KSD_SCOPE_CAMERA_CAPTURE
     OR KSD_SCOPE_CLIPBOARD_MONITORING"

definition KSD_DESKTOP_ACCEPTED_SCOPES :: u32 where
  [wire_defs]: "KSD_DESKTOP_ACCEPTED_SCOPES = KSD_DESKTOP_MANAGED_SCOPES"

end
