(* ===== verification/Operation_Scope.thy ===== *)
theory Operation_Scope
  imports Protocol
begin

text \<open>
  Classification of desktop opcodes (src/src/operation_scope.c): the permission
  scope an opcode needs, the opcodes that need none, the backend operation an
  opcode drives, and which requests may arrive in chunks. A \<open>switch\<close> with
  distinct labels is an association list.
\<close>

definition ksd_operation_scope :: "u16 \<Rightarrow> u32" where
  "ksd_operation_scope opcode =
    (if opcode = KSD_OP_CAPTURE_AREA \<or> opcode = KSD_OP_CAPTURE_WINDOW
        \<or> opcode = KSD_OP_CAPTURE_DESKTOP
     then KSD_SCOPE_SCREEN_CAPTURE
     else if opcode = KSD_OP_WINDOW_LIST \<or> opcode = KSD_OP_WINDOW_ACTIVE
        \<or> opcode = KSD_OP_WINDOW_WATCH \<or> opcode = KSD_OP_WINDOW_QUERY
        \<or> opcode = KSD_OP_WINDOW_CHILDREN \<or> opcode = KSD_OP_WINDOW_AT_POINT
     then KSD_SCOPE_WINDOW_MONITORING
     else if (KSD_OP_WINDOW_FOCUS \<le> opcode \<and> opcode \<le> KSD_OP_WINDOW_SET_SKIP_TASKBAR)
        \<or> opcode = KSD_OP_WINDOW_SET_TITLE \<or> opcode = KSD_OP_WINDOW_SET_VISIBLE
        \<or> opcode = KSD_OP_WINDOW_REDRAW \<or> opcode = KSD_OP_WINDOW_CLICK
        \<or> opcode = KSD_OP_WINDOW_BUTTON \<or> opcode = KSD_OP_WINDOW_FOCUS_CHILD
     then KSD_SCOPE_WINDOW_CONTROL
     else if KSD_OP_CLIPBOARD_MIMETYPES \<le> opcode \<and> opcode \<le> KSD_OP_CLIPBOARD_WATCH
     then KSD_SCOPE_CLIPBOARD_MONITORING
     else if KSD_OP_MOUSE_MOVE_ABSOLUTE \<le> opcode \<and> opcode \<le> KSD_OP_MOUSE_SCROLL
     then KSD_SCOPE_INPUT_CONTROL
     else 0)"

definition ksd_operation_scope_free :: "u16 \<Rightarrow> bool" where
  "ksd_operation_scope_free opcode \<longleftrightarrow>
     opcode = KSD_OP_CURSOR_POSITION \<or> opcode = KSD_OP_WORK_AREA
     \<or> opcode = KSD_OP_CLIPBOARD_SET_CONTENT \<or> opcode = KSD_OP_WINDOW_HANDLES
     \<or> opcode = KSD_OP_DISPLAY_LIST \<or> opcode = KSD_OP_KEYBOARD_STATE"

definition ksd_operation_chunkable :: "u16 \<Rightarrow> bool" where
  "ksd_operation_chunkable opcode \<longleftrightarrow> opcode = KSD_OP_CLIPBOARD_SET_CONTENT"

definition ksd_request_chunk_admissible :: "u16 \<Rightarrow> u16 \<Rightarrow> u64 \<Rightarrow> bool" where
  "ksd_request_chunk_admissible opcode flags request_id \<longleftrightarrow>
     request_id \<noteq> 0
     \<and> flags AND (KSD_FLAG_RESPONSE OR KSD_FLAG_EVENT) = 0
     \<and> ksd_operation_chunkable opcode"

definition operation_bit_table :: "(u16 \<times> u64) list" where
  "operation_bit_table =
    [(KSD_OP_CAPTURE_AREA, KSD_OPERATION_CAPTURE_AREA),
     (KSD_OP_CAPTURE_WINDOW, KSD_OPERATION_CAPTURE_WINDOW),
     (KSD_OP_CAPTURE_DESKTOP, KSD_OPERATION_CAPTURE_DESKTOP),
     (KSD_OP_WINDOW_LIST, KSD_OPERATION_WINDOW_LIST),
     (KSD_OP_WINDOW_HANDLES, KSD_OPERATION_WINDOW_HANDLES),
     (KSD_OP_WINDOW_ACTIVE, KSD_OPERATION_WINDOW_ACTIVE),
     (KSD_OP_WINDOW_WATCH, KSD_OPERATION_WINDOW_WATCH),
     (KSD_OP_WINDOW_FOCUS, KSD_OPERATION_WINDOW_FOCUS),
     (KSD_OP_WINDOW_RAISE, KSD_OPERATION_WINDOW_RAISE),
     (KSD_OP_WINDOW_LOWER, KSD_OPERATION_WINDOW_LOWER),
     (KSD_OP_WINDOW_CLOSE, KSD_OPERATION_WINDOW_CLOSE),
     (KSD_OP_WINDOW_KILL, KSD_OPERATION_WINDOW_KILL),
     (KSD_OP_WINDOW_MOVE_RESIZE, KSD_OPERATION_WINDOW_MOVE_RESIZE),
     (KSD_OP_WINDOW_MOVE_RESIZE_XID, KSD_OPERATION_WINDOW_MOVE_RESIZE_XID),
     (KSD_OP_WINDOW_SET_STATE, KSD_OPERATION_WINDOW_SET_STATE),
     (KSD_OP_WINDOW_SET_OPACITY, KSD_OPERATION_WINDOW_SET_OPACITY),
     (KSD_OP_WINDOW_SET_ABOVE, KSD_OPERATION_WINDOW_SET_ABOVE),
     (KSD_OP_WINDOW_SET_DECORATED, KSD_OPERATION_WINDOW_SET_DECORATED),
     (KSD_OP_WINDOW_RESERVE, KSD_OPERATION_WINDOW_RESERVE),
     (KSD_OP_WINDOW_GET_RESERVED, KSD_OPERATION_WINDOW_GET_RESERVED),
     (KSD_OP_WINDOW_SET_SKIP_TASKBAR, KSD_OPERATION_WINDOW_SET_SKIP_TASKBAR),
     (KSD_OP_CLIPBOARD_MIMETYPES, KSD_OPERATION_CLIPBOARD_MIMETYPES),
     (KSD_OP_CLIPBOARD_CONTENT, KSD_OPERATION_CLIPBOARD_CONTENT),
     (KSD_OP_CLIPBOARD_TEXT, KSD_OPERATION_CLIPBOARD_TEXT),
     (KSD_OP_CLIPBOARD_WATCH, KSD_OPERATION_CLIPBOARD_WATCH),
     (KSD_OP_CLIPBOARD_SET_CONTENT, KSD_OPERATION_CLIPBOARD_SET_CONTENT),
     (KSD_OP_MOUSE_MOVE_ABSOLUTE, KSD_OPERATION_MOUSE_MOVE_ABSOLUTE),
     (KSD_OP_MOUSE_MOVE_RELATIVE, KSD_OPERATION_MOUSE_MOVE_RELATIVE),
     (KSD_OP_MOUSE_BUTTON, KSD_OPERATION_MOUSE_BUTTON),
     (KSD_OP_MOUSE_SCROLL, KSD_OPERATION_MOUSE_SCROLL),
     (KSD_OP_CURSOR_POSITION, KSD_OPERATION_CURSOR_POSITION),
     (KSD_OP_WORK_AREA, KSD_OPERATION_WORK_AREA),
     (KSD_OP_WINDOW_QUERY, KSD_OPERATION_WINDOW_QUERY),
     (KSD_OP_WINDOW_CHILDREN, KSD_OPERATION_WINDOW_CHILDREN),
     (KSD_OP_WINDOW_AT_POINT, KSD_OPERATION_WINDOW_AT_POINT),
     (KSD_OP_DISPLAY_LIST, KSD_OPERATION_DISPLAY_LIST),
     (KSD_OP_KEYBOARD_STATE, KSD_OPERATION_KEYBOARD_STATE),
     (KSD_OP_WINDOW_SET_TITLE, KSD_OPERATION_WINDOW_SET_TITLE),
     (KSD_OP_WINDOW_SET_VISIBLE, KSD_OPERATION_WINDOW_SET_VISIBLE),
     (KSD_OP_WINDOW_REDRAW, KSD_OPERATION_WINDOW_REDRAW),
     (KSD_OP_WINDOW_CLICK, KSD_OPERATION_WINDOW_CLICK),
     (KSD_OP_WINDOW_BUTTON, KSD_OPERATION_WINDOW_BUTTON),
     (KSD_OP_WINDOW_FOCUS_CHILD, KSD_OPERATION_WINDOW_FOCUS_CHILD)]"

definition ksd_operation_bit :: "u16 \<Rightarrow> u64" where
  "ksd_operation_bit opcode =
     (case map_of operation_bit_table opcode of None \<Rightarrow> 0 | Some b \<Rightarrow> b)"

section \<open>The classification is complete and unambiguous\<close>

lemma operation_bit_zero_iff:
  "ksd_operation_bit opcode = 0 \<longleftrightarrow> opcode \<notin> fst ` set operation_bit_table"
proof -
  have nz: "\<forall>p\<in>set operation_bit_table. snd p \<noteq> 0"
    by (simp add: operation_bit_table_def wire_defs)
  show ?thesis
  proof (cases "map_of operation_bit_table opcode")
    case None
    then have "opcode \<notin> fst ` set operation_bit_table" by (simp add: map_of_eq_None_iff)
    with None show ?thesis by (simp add: ksd_operation_bit_def)
  next
    case (Some b)
    then have m: "(opcode, b) \<in> set operation_bit_table" by (rule map_of_SomeD)
    with nz have "b \<noteq> 0" by fastforce
    with Some m show ?thesis by (force simp: ksd_operation_bit_def)
  qed
qed

lemma operation_scope_zero_iff:
  "ksd_operation_scope opcode = 0 \<longleftrightarrow>
     \<not> (opcode \<in> {0x2000, 0x2001, 0x2002, 0x2010, 0x2011, 0x2012, 0x2014, 0x2015, 0x2016,
         0x2070, 0x2071, 0x2072, 0x2073, 0x2074, 0x2075}
       \<or> 0x2020 \<le> opcode \<and> opcode \<le> 0x202D \<or> 0x2030 \<le> opcode \<and> opcode \<le> 0x2033
       \<or> 0x2040 \<le> opcode \<and> opcode \<le> 0x2043)"
  by (simp add: ksd_operation_scope_def wire_defs)

text \<open>The three opcode ranges, enumerated.\<close>

lemma window_control_range:
  "(0x2020 :: u16) \<le> opcode \<and> opcode \<le> 0x202D \<longleftrightarrow>
     opcode \<in> {0x2020, 0x2021, 0x2022, 0x2023, 0x2024, 0x2025, 0x2026, 0x2027, 0x2028, 0x2029,
       0x202A, 0x202B, 0x202C, 0x202D}"
  unfolding insert_iff empty_iff word_unat_eq_iff word_le_nat_alt by simp presburger

lemma clipboard_range:
  "(0x2030 :: u16) \<le> opcode \<and> opcode \<le> 0x2033 \<longleftrightarrow>
     opcode \<in> {0x2030, 0x2031, 0x2032, 0x2033}"
  unfolding insert_iff empty_iff word_unat_eq_iff word_le_nat_alt by simp presburger

lemma mouse_range:
  "(0x2040 :: u16) \<le> opcode \<and> opcode \<le> 0x2043 \<longleftrightarrow>
     opcode \<in> {0x2040, 0x2041, 0x2042, 0x2043}"
  unfolding insert_iff empty_iff word_unat_eq_iff word_le_nat_alt by simp presburger

lemmas opcode_ranges = window_control_range clipboard_range mouse_range

text \<open>
  The opcode classification is complete and unambiguous. Over the whole opcode
  space, an opcode drives a backend operation exactly when it has a permission
  scope or is on the scope-free list, and never both: no implemented operation is
  left unclassified, and no scope-free operation also names a grant.
\<close>

theorem operation_classified:
  "(ksd_operation_bit opcode = 0 \<longleftrightarrow>
      ksd_operation_scope opcode = 0 \<and> \<not> ksd_operation_scope_free opcode)
   \<and> \<not> (ksd_operation_scope opcode \<noteq> 0 \<and> ksd_operation_scope_free opcode)"
proof
  have "opcode \<in> fst ` set operation_bit_table \<longleftrightarrow>
      ksd_operation_scope opcode \<noteq> 0 \<or> ksd_operation_scope_free opcode"
    unfolding operation_scope_zero_iff opcode_ranges ksd_operation_scope_free_def
      operation_bit_table_def wire_defs
    by (simp del: disj_not1) blast
  then show "ksd_operation_bit opcode = 0 \<longleftrightarrow>
      ksd_operation_scope opcode = 0 \<and> \<not> ksd_operation_scope_free opcode"
    by (simp add: operation_bit_zero_iff)
next
  show "\<not> (ksd_operation_scope opcode \<noteq> 0 \<and> ksd_operation_scope_free opcode)"
    by (auto simp: ksd_operation_scope_free_def operation_scope_zero_iff wire_defs)
qed

section \<open>Operation bits are a set representation\<close>

text \<open>
  An operation mask is a set of operations: every opcode that drives one has a bit
  of its own, so testing a mask for one operation never answers for another.
\<close>

lemma operation_bit_single:
  assumes "ksd_operation_bit opcode \<noteq> 0"
  shows "\<exists>k<64. ksd_operation_bit opcode = 2 ^ k"
proof -
  have all: "\<forall>p\<in>set operation_bit_table. \<exists>k<64. snd p = 2 ^ k"
  proof -
    have "\<forall>p\<in>set operation_bit_table. snd p \<in> (\<lambda>k. 2 ^ k) ` set [0..<43]"
      by (simp add: operation_bit_table_def wire_defs upt_rec)
    then have "\<forall>p\<in>set operation_bit_table. \<exists>k<43. snd p = 2 ^ k"
      by (auto simp: image_iff Bex_def)
    moreover have "k < 64" if "k < 43" for k :: nat
      using that by simp
    ultimately show ?thesis by blast
  qed
  from assms obtain b where "map_of operation_bit_table opcode = Some b"
    and "ksd_operation_bit opcode = b"
    by (auto simp: ksd_operation_bit_def split: option.splits)
  with all show ?thesis by (metis map_of_SomeD snd_conv)
qed

lemma distinct_operation_bits: "distinct (map snd operation_bit_table)"
  by (simp add: operation_bit_table_def wire_defs)

lemma operation_bit_inject:
  assumes "ksd_operation_bit a = ksd_operation_bit b" "ksd_operation_bit a \<noteq> 0"
  shows "a = b"
proof -
  from assms obtain v where "map_of operation_bit_table a = Some v"
      "map_of operation_bit_table b = Some v"
    by (auto simp: ksd_operation_bit_def split: option.splits)
  then have "(a, v) \<in> set operation_bit_table" "(b, v) \<in> set operation_bit_table"
    by (auto dest: map_of_SomeD)
  with distinct_operation_bits show ?thesis
    by (metis (no_types, lifting) distinct_map fst_conv inj_on_def snd_conv)
qed

lemma single_bit_and:
  assumes "j < LENGTH('a)" "k < LENGTH('a)"
  shows "(2 ^ j :: 'a::len word) AND 2 ^ k = (if j = k then 2 ^ j else 0)"
  by (rule bit_word_eqI) (use assms in \<open>auto simp: bit_simps\<close>)

text \<open>
  an operation mask distinguishes every operation. For two opcodes that both
  drive an operation, their bits overlap exactly when the opcodes are equal.
\<close>

theorem operation_bits_disjoint:
  assumes "ksd_operation_bit a \<noteq> 0" "ksd_operation_bit b \<noteq> 0"
  shows "ksd_operation_bit a AND ksd_operation_bit b \<noteq> 0 \<longleftrightarrow> a = b"
proof -
  obtain j k where jk: "j < 64" "ksd_operation_bit a = 2 ^ j" "k < 64" "ksd_operation_bit b = 2 ^ k"
    using assms operation_bit_single by metis
  then have "ksd_operation_bit a AND ksd_operation_bit b = (if j = k then 2 ^ j else 0)"
    by (simp add: single_bit_and)
  moreover have "j = k \<longleftrightarrow> ksd_operation_bit a = ksd_operation_bit b"
    using jk assms single_bit_and [where ?'a = 64, of j k] by (auto split: if_splits)
  ultimately show ?thesis
    using assms jk operation_bit_inject by (auto split: if_splits)
qed

theorem operation_bits_disjoint_witness:
  "ksd_operation_bit KSD_OP_WINDOW_LIST AND ksd_operation_bit KSD_OP_WINDOW_HANDLES \<noteq> 0
     \<longleftrightarrow> KSD_OP_WINDOW_LIST = KSD_OP_WINDOW_HANDLES"
  by (rule operation_bits_disjoint)
     (simp_all add: ksd_operation_bit_def operation_bit_table_def wire_defs)

end
