(* ===== verification/Byte_Codec.thy ===== *)
theory Byte_Codec
  imports Protocol
begin

text \<open>
  The byte-level half of src/src/protocol_io.c: little-endian integers, the read
  cursor and the growable output buffer, with the contract that ties writer and
  reader together (\<open>wire_codec\<close>).

  A byte range \<open>(pointer, length)\<close> is the list of its bytes; a pointer that may
  be NULL is an option. The buffer's storage is the list of the \<open>length\<close> bytes
  in use together with its capacity; its pointer is NULL exactly while the
  capacity is 0. Memory is a parameter: \<open>alloc n\<close> says whether an allocation
  of \<open>n\<close> bytes succeeds. A C function that returns \<open>bool\<close> and updates a
  buffer in place returns the flag with the buffer as it leaves it, also on
  failure. Receiver objects (cursor, buffer, frame, assembly) are values, so the
  NULL tests on them have no counterpart.
\<close>

section \<open>Little-endian integers\<close>

definition ksd_decode_u16 :: "bytes \<Rightarrow> u16" where
  "ksd_decode_u16 d = ucast (d ! 0) OR push_bit 8 (ucast (d ! 1))"

definition ksd_decode_u32 :: "bytes \<Rightarrow> u32" where
  "ksd_decode_u32 d = ucast (d ! 0) OR push_bit 8 (ucast (d ! 1))
     OR push_bit 16 (ucast (d ! 2)) OR push_bit 24 (ucast (d ! 3))"

definition ksd_decode_u64 :: "bytes \<Rightarrow> u64" where
  "ksd_decode_u64 d = ucast (ksd_decode_u32 d) OR push_bit 32 (ucast (ksd_decode_u32 (drop 4 d)))"

definition ksd_encode_u16 :: "u16 \<Rightarrow> bytes" where
  "ksd_encode_u16 v = [ucast v, ucast (drop_bit 8 v)]"

definition ksd_encode_u32 :: "u32 \<Rightarrow> bytes" where
  "ksd_encode_u32 v =
     [ucast v, ucast (drop_bit 8 v), ucast (drop_bit 16 v), ucast (drop_bit 24 v)]"

definition ksd_encode_u64 :: "u64 \<Rightarrow> bytes" where
  "ksd_encode_u64 v = ksd_encode_u32 (ucast v) @ ksd_encode_u32 (ucast (drop_bit 32 v))"

lemma length_encode [simp]:
  "length (ksd_encode_u16 a) = 2" "length (ksd_encode_u32 b) = 4" "length (ksd_encode_u64 c) = 8"
  by (simp_all add: ksd_encode_u16_def ksd_encode_u32_def ksd_encode_u64_def)

lemma decode_encode_u16 [simp, codec_simps]: "ksd_decode_u16 (ksd_encode_u16 v @ r) = v"
  unfolding ksd_decode_u16_def ksd_encode_u16_def
  by (rule bit_word_eqI) (auto simp: bit_simps)

lemma decode_encode_u32 [simp, codec_simps]: "ksd_decode_u32 (ksd_encode_u32 v @ r) = v"
proof (rule bit_word_eqI)
  fix n assume n: "n < LENGTH(32)"
  then consider "n < 8" | "8 \<le> n" "n < 16" | "16 \<le> n" "n < 24" | "24 \<le> n" "n < 32"
    by fastforce
  then show "bit (ksd_decode_u32 (ksd_encode_u32 v @ r)) n = bit v n"
    by cases (auto simp: ksd_decode_u32_def ksd_encode_u32_def bit_simps)
qed

lemma decode_encode_u64 [simp, codec_simps]: "ksd_decode_u64 (ksd_encode_u64 v @ r) = v"
proof -
  have "ksd_decode_u64 (ksd_encode_u64 v @ r)
      = ucast (ucast v :: u32) OR push_bit 32 (ucast (ucast (drop_bit 32 v) :: u32))"
    by (simp add: ksd_decode_u64_def ksd_encode_u64_def)
  also have "\<dots> = v"
    by (rule bit_word_eqI) (auto simp: bit_simps)
  finally show ?thesis .
qed

lemmas decode_encode_exact [simp, codec_simps] =
  decode_encode_u16 [where r = "[]", simplified]
  decode_encode_u32 [where r = "[]", simplified]
  decode_encode_u64 [where r = "[]", simplified]

lemma bit_beyond: "LENGTH('a) \<le> n \<Longrightarrow> \<not> bit (w :: 'a::len word) n"
  by (meson bit_imp_le_length not_le)

lemma length_2_conv: "length d = 2 \<longleftrightarrow> (\<exists>a b. d = [a, b])"
  by (auto simp: length_Suc_conv numeral_2_eq_2)

lemma length_4_conv: "length d = 4 \<longleftrightarrow> (\<exists>a b c e. d = [a, b, c, e])"
  by (auto simp: length_Suc_conv eval_nat_numeral)

lemma encode_decode_u16 [codec_simps]:
  assumes "length d = 2" shows "ksd_encode_u16 (ksd_decode_u16 d) = d"
proof -
  from assms obtain a b where [simp]: "d = [a, b]" by (auto simp: length_2_conv)
  have "ucast (ucast a OR push_bit 8 (ucast b) :: u16) = a"
    by (rule bit_word_eqI) (auto simp: bit_simps bit_beyond)
  moreover have "ucast (drop_bit 8 (ucast a OR push_bit 8 (ucast b) :: u16)) = b"
    by (rule bit_word_eqI) (auto simp: bit_simps bit_beyond)
  ultimately show ?thesis by (simp add: ksd_decode_u16_def ksd_encode_u16_def)
qed

lemma encode_decode_u32 [codec_simps]:
  assumes "length d = 4" shows "ksd_encode_u32 (ksd_decode_u32 d) = d"
proof -
  from assms obtain a b c e where d: "d = [a, b, c, e]" by (auto simp: length_4_conv)
  let ?v = "ucast a OR push_bit 8 (ucast b) OR push_bit 16 (ucast c) OR push_bit 24 (ucast e) :: u32"
  have "ucast ?v = a" "ucast (drop_bit 8 ?v) = b" "ucast (drop_bit 16 ?v) = c"
    "ucast (drop_bit 24 ?v) = e"
    by (rule bit_word_eqI, auto simp: bit_simps bit_beyond)+
  then show ?thesis by (simp add: d ksd_decode_u32_def ksd_encode_u32_def)
qed

lemma encode_decode_u64 [codec_simps]:
  assumes "length d = 8" shows "ksd_encode_u64 (ksd_decode_u64 d) = d"
proof -
  let ?lo = "ksd_decode_u32 d" and ?hi = "ksd_decode_u32 (drop 4 d)"
  have lo: "ucast (ksd_decode_u64 d) = ?lo" and hi: "ucast (drop_bit 32 (ksd_decode_u64 d)) = ?hi"
    unfolding ksd_decode_u64_def
    by (rule bit_word_eqI, auto simp: bit_simps bit_beyond)+
  have "ksd_decode_u32 d = ksd_decode_u32 (take 4 d)"
    using assms by (simp add: ksd_decode_u32_def)
  then have "ksd_encode_u32 ?lo = take 4 d" "ksd_encode_u32 ?hi = drop 4 d"
    using assms by (simp_all add: encode_decode_u32)
  then show ?thesis by (simp add: ksd_encode_u64_def lo hi)
qed

section \<open>The read cursor\<close>

record ksd_cursor =
  cur_data :: bytes
  cur_offset :: nat

definition ksd_cursor_init :: "bytes \<Rightarrow> ksd_cursor" where
  "ksd_cursor_init data = \<lparr>cur_data = data, cur_offset = 0\<rparr>"

definition ksd_cursor_bytes :: "nat \<Rightarrow> ksd_cursor \<Rightarrow> (bytes \<times> ksd_cursor) option" where
  "ksd_cursor_bytes n c =
     (if n > length (cur_data c) \<or> cur_offset c > length (cur_data c) - n then None
      else Some (take n (drop (cur_offset c) (cur_data c)),
                 c\<lparr>cur_offset := cur_offset c + n\<rparr>))"

definition ksd_cursor_u16 :: "ksd_cursor \<Rightarrow> (u16 \<times> ksd_cursor) option" where
  "ksd_cursor_u16 c = map_option (\<lambda>(d, c'). (ksd_decode_u16 d, c')) (ksd_cursor_bytes 2 c)"

definition ksd_cursor_u32 :: "ksd_cursor \<Rightarrow> (u32 \<times> ksd_cursor) option" where
  "ksd_cursor_u32 c = map_option (\<lambda>(d, c'). (ksd_decode_u32 d, c')) (ksd_cursor_bytes 4 c)"

text \<open>\<open>int32_t\<close> shares the representation of \<open>uint32_t\<close>; \<open>sint\<close> reads it.\<close>

definition ksd_cursor_i32 :: "ksd_cursor \<Rightarrow> (i32 \<times> ksd_cursor) option" where
  "ksd_cursor_i32 c = ksd_cursor_u32 c"

definition ksd_cursor_u64 :: "ksd_cursor \<Rightarrow> (u64 \<times> ksd_cursor) option" where
  "ksd_cursor_u64 c = map_option (\<lambda>(d, c'). (ksd_decode_u64 d, c')) (ksd_cursor_bytes 8 c)"

definition ksd_cursor_finished :: "ksd_cursor \<Rightarrow> bool" where
  "ksd_cursor_finished c \<longleftrightarrow> cur_offset c = length (cur_data c)"

definition cursor_wf :: "ksd_cursor \<Rightarrow> bool" where
  "cursor_wf c \<longleftrightarrow> cur_offset c \<le> length (cur_data c)"

definition cur_rest :: "ksd_cursor \<Rightarrow> bytes" where
  "cur_rest c = drop (cur_offset c) (cur_data c)"

lemma cursor_init [simp]:
  "cursor_wf (ksd_cursor_init d)" "cur_rest (ksd_cursor_init d) = d"
  by (simp_all add: cursor_wf_def cur_rest_def ksd_cursor_init_def)

lemma cursor_finished_rest: "cursor_wf c \<Longrightarrow> ksd_cursor_finished c \<longleftrightarrow> cur_rest c = []"
  by (auto simp: ksd_cursor_finished_def cur_rest_def cursor_wf_def)

lemma cursor_bytes_wf:
  "ksd_cursor_bytes n c = Some (d, c') \<Longrightarrow> cursor_wf c'"
  by (auto simp: ksd_cursor_bytes_def cursor_wf_def split: if_splits)

lemma cursor_bytes_Some:
  "ksd_cursor_bytes n c = Some (d, c') \<Longrightarrow> cur_rest c = d @ cur_rest c' \<and> length d = n"
  by (auto simp: ksd_cursor_bytes_def cur_rest_def add.commute simp flip: drop_drop split: if_splits)

lemma cursor_bytes_append:
  assumes "cursor_wf c" "cur_rest c = d @ r"
  shows "\<exists>c'. ksd_cursor_bytes (length d) c = Some (d, c') \<and> cursor_wf c' \<and> cur_rest c' = r"
proof -
  have len: "length (cur_data c) - cur_offset c = length d + length r"
    using assms(2) by (metis cur_rest_def length_append length_drop)
  let ?c = "c\<lparr>cur_offset := cur_offset c + length d\<rparr>"
  have "cur_rest ?c = drop (length d) (cur_rest c)"
    by (simp add: cur_rest_def add.commute)
  then have "cur_rest ?c = r" using assms(2) by simp
  moreover have "take (length d) (cur_rest c) = d" using assms(2) by simp
  moreover have "cursor_wf ?c" using assms(1) len by (simp add: cursor_wf_def)
  ultimately show ?thesis
    using assms(1) len by (auto simp: ksd_cursor_bytes_def cur_rest_def cursor_wf_def)
qed

section \<open>The output buffer\<close>

definition SIZE_MAX :: nat where
  "SIZE_MAX = 2 ^ 64 - 1"

record ksd_buffer =
  buf_data :: bytes
  buf_capacity :: nat
  buf_maximum :: nat

definition ksd_buffer_init :: "nat \<Rightarrow> ksd_buffer" where
  "ksd_buffer_init maximum = \<lparr>buf_data = [], buf_capacity = 0, buf_maximum = maximum\<rparr>"

definition ksd_buffer_clear :: "ksd_buffer \<Rightarrow> ksd_buffer" where
  "ksd_buffer_clear b = \<lparr>buf_data = [], buf_capacity = 0, buf_maximum = 0\<rparr>"

text \<open>
  The doubling loop of \<open>buffer_reserve\<close>. It starts at a nonzero capacity (64
  for an empty buffer); the test against 0 only makes the recursion total.
\<close>

function grow_capacity :: "nat \<Rightarrow> nat \<Rightarrow> nat \<Rightarrow> nat" where
  "grow_capacity capacity needed maximum =
     (if capacity < needed \<and> capacity \<noteq> 0 then
        if capacity > maximum div 2 then maximum
        else grow_capacity (capacity * 2) needed maximum
      else capacity)"
  by pat_completeness auto
termination
  by (relation "measure (\<lambda>(capacity, needed, maximum). needed - capacity)") auto

declare grow_capacity.simps [simp del]

definition buffer_reserve :: "(nat \<Rightarrow> bool) \<Rightarrow> ksd_buffer \<Rightarrow> nat \<Rightarrow> bool \<times> ksd_buffer" where
  "buffer_reserve alloc b extra =
     (if extra > buf_maximum b \<or> length (buf_data b) > buf_maximum b - extra then (False, b)
      else let needed = length (buf_data b) + extra in
        if needed \<le> buf_capacity b then (True, b)
        else let capacity = grow_capacity (if buf_capacity b = 0 then 64 else buf_capacity b)
                              needed (buf_maximum b) in
          if alloc capacity then (True, b\<lparr>buf_capacity := capacity\<rparr>) else (False, b))"

definition ksd_buffer_bytes :: "(nat \<Rightarrow> bool) \<Rightarrow> bytes \<Rightarrow> ksd_buffer \<Rightarrow> bool \<times> ksd_buffer" where
  "ksd_buffer_bytes alloc data b =
     (case buffer_reserve alloc b (length data) of
        (False, b') \<Rightarrow> (False, b')
      | (True, b') \<Rightarrow> (True, b'\<lparr>buf_data := buf_data b' @ data\<rparr>))"

definition ksd_buffer_u16 :: "(nat \<Rightarrow> bool) \<Rightarrow> u16 \<Rightarrow> ksd_buffer \<Rightarrow> bool \<times> ksd_buffer" where
  "ksd_buffer_u16 alloc v b = ksd_buffer_bytes alloc (ksd_encode_u16 v) b"

definition ksd_buffer_u32 :: "(nat \<Rightarrow> bool) \<Rightarrow> u32 \<Rightarrow> ksd_buffer \<Rightarrow> bool \<times> ksd_buffer" where
  "ksd_buffer_u32 alloc v b = ksd_buffer_bytes alloc (ksd_encode_u32 v) b"

definition ksd_buffer_u64 :: "(nat \<Rightarrow> bool) \<Rightarrow> u64 \<Rightarrow> ksd_buffer \<Rightarrow> bool \<times> ksd_buffer" where
  "ksd_buffer_u64 alloc v b = ksd_buffer_bytes alloc (ksd_encode_u64 v) b"

text \<open>The \<open>&&\<close> chain of buffer writes: stop at the first that fails.\<close>

definition and_then :: "bool \<times> 'b \<Rightarrow> ('b \<Rightarrow> bool \<times> 'b) \<Rightarrow> bool \<times> 'b" where
  "and_then r f = (if fst r then f (snd r) else r)"

lemma and_then_simps [simp]:
  "and_then (True, b) f = f b" "and_then (False, b) f = (False, b)"
  by (simp_all add: and_then_def)

definition buffer_wf :: "ksd_buffer \<Rightarrow> bool" where
  "buffer_wf b \<longleftrightarrow> length (buf_data b) \<le> buf_capacity b \<and> length (buf_data b) \<le> buf_maximum b
     \<and> buf_capacity b \<le> max 64 (buf_maximum b)"

lemma grow_capacity_ge:
  "needed \<le> maximum \<Longrightarrow> capacity \<noteq> 0 \<Longrightarrow> needed \<le> grow_capacity capacity needed maximum"
proof (induction capacity needed maximum rule: grow_capacity.induct)
  case (1 capacity needed maximum)
  then show ?case by (auto simp: grow_capacity.simps [of capacity needed maximum])
qed

lemma grow_capacity_le:
  "capacity \<le> max 64 maximum \<Longrightarrow> grow_capacity capacity needed maximum \<le> max 64 maximum"
proof (induction capacity needed maximum rule: grow_capacity.induct)
  case (1 capacity needed maximum)
  then show ?case by (auto simp: grow_capacity.simps [of capacity needed maximum])
qed

lemma buffer_reserve_cases:
  assumes "buffer_wf b"
  obtains
    (fail) "fst (buffer_reserve alloc b extra) = False" "snd (buffer_reserve alloc b extra) = b"
      "length (buf_data b) + extra > buf_maximum b \<or> (\<exists>n. \<not> alloc n)"
  | (ok) c where "buffer_reserve alloc b extra = (True, b\<lparr>buf_capacity := c\<rparr>)"
      "length (buf_data b) + extra \<le> c" "c \<le> max 64 (buf_maximum b)"
      "length (buf_data b) + extra \<le> buf_maximum b"
proof (cases "extra > buf_maximum b \<or> length (buf_data b) > buf_maximum b - extra")
  case True
  then show thesis by (intro fail) (auto simp: buffer_reserve_def)
next
  case False
  then have fits: "length (buf_data b) + extra \<le> buf_maximum b" by auto
  let ?cap = "grow_capacity (if buf_capacity b = 0 then 64 else buf_capacity b)
    (length (buf_data b) + extra) (buf_maximum b)"
  have grown: "length (buf_data b) + extra \<le> ?cap \<and> ?cap \<le> max 64 (buf_maximum b)"
    using fits assms
    by (intro conjI grow_capacity_ge grow_capacity_le) (auto simp: buffer_wf_def)
  have same: "b = b\<lparr>buf_capacity := buf_capacity b\<rparr>" by simp
  show thesis
  proof (cases "length (buf_data b) + extra \<le> buf_capacity b")
    case True
    with False assms fits same show thesis
      by (intro ok [of "buf_capacity b"]) (auto simp: buffer_reserve_def buffer_wf_def)
  next
    case room: False
    show thesis
    proof (cases "alloc ?cap")
      case True
      with False room grown fits show thesis
        by (intro ok [of ?cap]) (auto simp: buffer_reserve_def Let_def)
    next
      case no: False
      with False room show thesis
        by (intro fail) (auto simp: buffer_reserve_def Let_def)
    qed
  qed
qed

text \<open>
  The whole behaviour of an append: all or nothing, and it can only fail when the
  bytes do not fit under the maximum or memory runs out.
\<close>

lemma buffer_bytes_cases:
  assumes "buffer_wf b"
  obtains
    (fail) "ksd_buffer_bytes alloc data b = (False, b)"
      "length (buf_data b) + length data > buf_maximum b \<or> (\<exists>n. \<not> alloc n)"
  | (ok) b' where "ksd_buffer_bytes alloc data b = (True, b')" "buffer_wf b'"
      "buf_data b' = buf_data b @ data" "buf_maximum b' = buf_maximum b"
proof (cases rule: buffer_reserve_cases [OF assms, of alloc "length data"])
  case 1
  then show thesis
    by (intro fail) (auto simp: ksd_buffer_bytes_def split: prod.splits bool.splits)
next
  case (2 c)
  let ?b = "b\<lparr>buf_capacity := c, buf_data := buf_data b @ data\<rparr>"
  show thesis
    using 2 by (intro ok [of ?b]) (auto simp: ksd_buffer_bytes_def buffer_wf_def)
qed

lemma buffer_room:
  assumes "buffer_wf b" "length (buf_data b) + length data \<le> buf_maximum b"
  obtains b' where "ksd_buffer_bytes (\<lambda>_. True) data b = (True, b')" "buffer_wf b'"
    "buf_data b' = buf_data b @ data" "buf_maximum b' = buf_maximum b"
  using assms(2) by (cases rule: buffer_bytes_cases [OF assms(1), of "\<lambda>_. True" data]) auto

section \<open>Chains of appends\<close>

text \<open>
  A buffer action writes a text when it appends exactly that text or fails, keeps
  the buffer well-formed either way, and fails only for want of room or memory.
\<close>

definition writes :: "(nat \<Rightarrow> bool) \<Rightarrow> (ksd_buffer \<Rightarrow> bool \<times> ksd_buffer) \<Rightarrow> bytes \<Rightarrow> bool" where
  "writes alloc act s \<longleftrightarrow> (\<forall>b. buffer_wf b \<longrightarrow>
     buffer_wf (snd (act b)) \<and> buf_maximum (snd (act b)) = buf_maximum b
   \<and> (fst (act b) \<longrightarrow> buf_data (snd (act b)) = buf_data b @ s)
   \<and> ((\<forall>n. alloc n) \<and> length (buf_data b) + length s \<le> buf_maximum b \<longrightarrow> fst (act b)))"

lemma writes_bytes: "writes alloc (ksd_buffer_bytes alloc s) s"
  unfolding writes_def
proof (intro allI impI)
  fix b
  assume wf: "buffer_wf b"
  show "buffer_wf (snd (ksd_buffer_bytes alloc s b)) \<and> buf_maximum (snd (ksd_buffer_bytes alloc s b)) = buf_maximum b
      \<and> (fst (ksd_buffer_bytes alloc s b) \<longrightarrow> buf_data (snd (ksd_buffer_bytes alloc s b)) = buf_data b @ s)
      \<and> ((\<forall>n. alloc n) \<and> length (buf_data b) + length s \<le> buf_maximum b \<longrightarrow> fst (ksd_buffer_bytes alloc s b))"
    by (rule buffer_bytes_cases [OF wf, of alloc s]) (auto simp: wf)
qed

lemma writes_and_then:
  assumes "writes alloc f s" "writes alloc g t"
  shows "writes alloc (\<lambda>b. and_then (f b) g) (s @ t)"
  unfolding writes_def
proof (intro allI impI)
  fix b
  assume "buffer_wf b"
  with assms(1) have f: "buffer_wf (snd (f b))" "buf_maximum (snd (f b)) = buf_maximum b"
      "fst (f b) \<Longrightarrow> buf_data (snd (f b)) = buf_data b @ s"
      "(\<forall>n. alloc n) \<and> length (buf_data b) + length s \<le> buf_maximum b \<Longrightarrow> fst (f b)"
    by (simp_all add: writes_def)
  with assms(2) show "buffer_wf (snd (and_then (f b) g)) \<and> buf_maximum (snd (and_then (f b) g)) = buf_maximum b
      \<and> (fst (and_then (f b) g) \<longrightarrow> buf_data (snd (and_then (f b) g)) = buf_data b @ (s @ t))
      \<and> ((\<forall>n. alloc n) \<and> length (buf_data b) + length (s @ t) \<le> buf_maximum b \<longrightarrow> fst (and_then (f b) g))"
    by (cases "fst (f b)") (auto simp: writes_def and_then_def)
qed

section \<open>The contract between writers and readers\<close>

text \<open>Writing and reading a fixed-size run of values, as the geometry block of a
  state event does.\<close>

fun put_all :: "((nat \<Rightarrow> bool) \<Rightarrow> 'a \<Rightarrow> ksd_buffer \<Rightarrow> bool \<times> ksd_buffer) \<Rightarrow>
    (nat \<Rightarrow> bool) \<Rightarrow> 'a list \<Rightarrow> ksd_buffer \<Rightarrow> bool \<times> ksd_buffer" where
  "put_all put alloc [] b = (True, b)"
| "put_all put alloc (x # xs) b = and_then (put alloc x b) (put_all put alloc xs)"

fun get_all :: "(ksd_cursor \<Rightarrow> ('a \<times> ksd_cursor) option) \<Rightarrow>
    nat \<Rightarrow> ksd_cursor \<Rightarrow> ('a list \<times> ksd_cursor) option" where
  "get_all get 0 c = Some ([], c)"
| "get_all get (Suc n) c =
     (case get c of None \<Rightarrow> None
      | Some (x, c') \<Rightarrow> map_option (\<lambda>(xs, c''). (x # xs, c'')) (get_all get n c'))"

text \<open>
  A wire codec is a buffer writer, a cursor reader and the byte string between
  them. The writer appends exactly the encoding or leaves the buffer alone; the
  reader undoes it and accepts nothing but encodings of valid values, so no value
  has two spellings on the wire.
\<close>

locale wire_codec =
  fixes put :: "(nat \<Rightarrow> bool) \<Rightarrow> 'a \<Rightarrow> ksd_buffer \<Rightarrow> bool \<times> ksd_buffer"
    and enc :: "'a \<Rightarrow> bytes"
    and get :: "ksd_cursor \<Rightarrow> ('a \<times> ksd_cursor) option"
    and valid :: "'a \<Rightarrow> bool"
  assumes put_ok: "buffer_wf b \<Longrightarrow> put alloc x b = (True, b') \<Longrightarrow>
      buffer_wf b' \<and> buf_data b' = buf_data b @ enc x \<and> buf_maximum b' = buf_maximum b"
    and put_wf: "buffer_wf b \<Longrightarrow> buffer_wf (snd (put alloc x b))"
    and put_room: "buffer_wf b \<Longrightarrow> valid x \<Longrightarrow> (\<And>n. alloc n) \<Longrightarrow>
      length (buf_data b) + length (enc x) \<le> buf_maximum b \<Longrightarrow> fst (put alloc x b)"
    and get_enc: "cursor_wf c \<Longrightarrow> valid x \<Longrightarrow> cur_rest c = enc x @ r \<Longrightarrow>
      \<exists>c'. get c = Some (x, c') \<and> cursor_wf c' \<and> cur_rest c' = r"
    and get_Some: "get c = Some (x, c') \<Longrightarrow>
      valid x \<and> cursor_wf c' \<and> cur_rest c = enc x @ cur_rest c'"
begin

lemma put_all_ok:
  "buffer_wf b \<Longrightarrow> put_all put alloc xs b = (True, b') \<Longrightarrow>
     buffer_wf b' \<and> buf_data b' = buf_data b @ concat (map enc xs) \<and> buf_maximum b' = buf_maximum b"
proof (induction xs arbitrary: b)
  case (Cons x xs)
  from Cons.prems(2) obtain m where m: "put alloc x b = (True, m)" "put_all put alloc xs m = (True, b')"
    by (cases "put alloc x b") (auto simp: and_then_def split: if_splits)
  from put_ok [OF Cons.prems(1) m(1)] Cons.IH [OF _ m(2)] show ?case by simp
qed simp

lemma put_all_wf: "buffer_wf b \<Longrightarrow> buffer_wf (snd (put_all put alloc xs b))"
proof (induction xs arbitrary: b)
  case (Cons x xs)
  then show ?case using put_wf [OF Cons.prems, of alloc x] by (simp add: and_then_def)
qed simp

lemma put_all_room:
  assumes "\<And>n. alloc n"
  shows "buffer_wf b \<Longrightarrow> (\<forall>x\<in>set xs. valid x) \<Longrightarrow>
     length (buf_data b) + length (concat (map enc xs)) \<le> buf_maximum b \<Longrightarrow> fst (put_all put alloc xs b)"
proof (induction xs arbitrary: b)
  case (Cons x xs)
  have first: "fst (put alloc x b)"
    using Cons.prems by (intro put_room assms) auto
  then obtain m where m: "put alloc x b = (True, m)" by (metis prod.collapse)
  from put_ok [OF Cons.prems(1) m] have "fst (put_all put alloc xs m)"
    using Cons.prems by (intro Cons.IH) auto
  then show ?case by (simp add: m)
qed simp

lemma get_all_enc:
  "cursor_wf c \<Longrightarrow> (\<forall>x\<in>set xs. valid x) \<Longrightarrow> cur_rest c = concat (map enc xs) @ r \<Longrightarrow>
     \<exists>c'. get_all get (length xs) c = Some (xs, c') \<and> cursor_wf c' \<and> cur_rest c' = r"
proof (induction xs arbitrary: c)
  case (Cons x xs)
  from Cons.prems obtain d where d: "get c = Some (x, d)" "cursor_wf d"
      "cur_rest d = concat (map enc xs) @ r"
    using get_enc [of c x "concat (map enc xs) @ r"] by auto
  from Cons.IH [OF d(2) _ d(3)] Cons.prems(2) d(1) show ?case by auto
qed simp

lemma get_all_Some:
  "cursor_wf c \<Longrightarrow> get_all get n c = Some (xs, c') \<Longrightarrow>
     length xs = n \<and> cursor_wf c' \<and> cur_rest c = concat (map enc xs) @ cur_rest c'"
proof (induction n arbitrary: c xs)
  case (Suc n)
  from Suc.prems(2) obtain x d ys where x: "get c = Some (x, d)" "get_all get n d = Some (ys, c')"
      "xs = x # ys"
    by (auto split: option.splits)
  from get_Some [OF x(1)] Suc.IH [OF _ x(2)] x(3) show ?case by simp
qed simp

end

text \<open>Any fixed-width integer whose encoding and decoding are inverse is a codec.\<close>

lemma fixed_width_codec:
  assumes put: "\<And>alloc x b. put alloc x b = ksd_buffer_bytes alloc (enc x) b"
    and get: "\<And>c. get c = map_option (\<lambda>(d, c'). (dec d, c')) (ksd_cursor_bytes w c)"
    and len: "\<And>x. length (enc x) = w"
    and dec_enc: "\<And>x. dec (enc x) = x"
    and enc_dec: "\<And>d. length d = w \<Longrightarrow> enc (dec d) = d"
  shows "wire_codec put enc get (\<lambda>_. True)"
proof
  fix b b' :: ksd_buffer and alloc x
  assume "buffer_wf b" "put alloc x b = (True, b')"
  then show "buffer_wf b' \<and> buf_data b' = buf_data b @ enc x \<and> buf_maximum b' = buf_maximum b"
    by (cases rule: buffer_bytes_cases [of b alloc "enc x"]) (auto simp: put)
next
  fix b alloc x
  assume wf: "buffer_wf b"
  then show "buffer_wf (snd (put alloc x b))"
    by (cases rule: buffer_bytes_cases [of b alloc "enc x"]) (auto simp: put wf)
next
  fix b :: ksd_buffer and alloc :: "nat \<Rightarrow> bool" and x
  assume "buffer_wf b" "\<And>n. alloc n" "length (buf_data b) + length (enc x) \<le> buf_maximum b"
  then show "fst (put alloc x b)"
    by (cases rule: buffer_bytes_cases [of b alloc "enc x"]) (auto simp: put)
next
  fix c x r
  assume "cursor_wf c" "cur_rest c = enc x @ r"
  then show "\<exists>c'. get c = Some (x, c') \<and> cursor_wf c' \<and> cur_rest c' = r"
    using cursor_bytes_append [of c "enc x" r] by (auto simp: get len dec_enc)
next
  fix c x c'
  assume "get c = Some (x, c')"
  then obtain d where d: "ksd_cursor_bytes w c = Some (d, c')" "x = dec d"
    by (auto simp: get)
  then show "True \<and> cursor_wf c' \<and> cur_rest c = enc x @ cur_rest c'"
    using cursor_bytes_wf [OF d(1)] cursor_bytes_Some [OF d(1)] by (simp add: enc_dec)
qed

interpretation u16: wire_codec ksd_buffer_u16 ksd_encode_u16 ksd_cursor_u16 "\<lambda>_. True"
  by (rule fixed_width_codec [where w = 2 and dec = ksd_decode_u16])
     (simp_all add: ksd_buffer_u16_def ksd_cursor_u16_def encode_decode_u16)

interpretation u32: wire_codec ksd_buffer_u32 ksd_encode_u32 ksd_cursor_u32 "\<lambda>_. True"
  by (rule fixed_width_codec [where w = 4 and dec = ksd_decode_u32])
     (simp_all add: ksd_buffer_u32_def ksd_cursor_u32_def encode_decode_u32)

interpretation u64: wire_codec ksd_buffer_u64 ksd_encode_u64 ksd_cursor_u64 "\<lambda>_. True"
  by (rule fixed_width_codec [where w = 8 and dec = ksd_decode_u64])
     (simp_all add: ksd_buffer_u64_def ksd_cursor_u64_def encode_decode_u64)

end
