(* ===== verification/Utf8.thy ===== *)
theory Utf8
  imports Byte_Codec
begin

text \<open>
  \<open>ksd_utf8_valid\<close> of src/src/protocol_io.c, the gate every text that crosses
  the protocol goes through, against the definition of UTF-8: a byte string is
  accepted exactly when it is the encoding of a sequence of Unicode scalar values.
  The encoder is the one src/src/state_wire.c uses for \<open>\u\<close> escapes.
\<close>

section \<open>The validator\<close>

text \<open>The lead byte: initial value bits, number of continuation bytes, least value.\<close>

definition utf8_lead :: "u8 \<Rightarrow> (u32 \<times> nat \<times> u32) option" where
  "utf8_lead first =
     (if 0xC2 \<le> first \<and> first \<le> 0xDF then Some (ucast (first AND 0x1F), 1, 0x80)
      else if 0xE0 \<le> first \<and> first \<le> 0xEF then Some (ucast (first AND 0x0F), 2, 0x800)
      else if 0xF0 \<le> first \<and> first \<le> 0xF4 then Some (ucast (first AND 0x07), 3, 0x10000)
      else None)"

text \<open>The loop over the continuation bytes.\<close>

fun utf8_continue :: "nat \<Rightarrow> u32 \<Rightarrow> bytes \<Rightarrow> (u32 \<times> bytes) option" where
  "utf8_continue 0 v bs = Some (v, bs)"
| "utf8_continue (Suc n) v [] = None"
| "utf8_continue (Suc n) v (b # bs) =
     (if b AND 0xC0 \<noteq> 0x80 then None
      else utf8_continue n (push_bit 6 v OR ucast (b AND 0x3F)) bs)"

lemma utf8_continue_length:
  "utf8_continue n v bs = Some (v', bs') \<Longrightarrow> length bs = n + length bs'"
  by (induction n v bs rule: utf8_continue.induct) (auto split: if_splits)

function ksd_utf8_valid :: "bytes \<Rightarrow> bool \<Rightarrow> bool" where
  "ksd_utf8_valid [] allow_nul = True"
| "ksd_utf8_valid (first # rest) allow_nul =
     (if first < 0x80 then
        if first = 0 \<and> \<not> allow_nul then False else ksd_utf8_valid rest allow_nul
      else case utf8_lead first of
        None \<Rightarrow> False
      | Some (value, continuation, minimum) \<Rightarrow>
          if continuation > length rest then False
          else case utf8_continue continuation value rest of
            None \<Rightarrow> False
          | Some (value', rest') \<Rightarrow>
              if value' < minimum \<or> value' > 0x10FFFF \<or> (0xD800 \<le> value' \<and> value' \<le> 0xDFFF)
              then False else ksd_utf8_valid rest' allow_nul)"
  by pat_completeness auto
termination
  by (relation "measure (length \<circ> fst)") (auto dest: utf8_continue_length)

section \<open>The encoding\<close>

definition utf8_encode :: "u32 \<Rightarrow> bytes" where
  "utf8_encode code =
     (if code < 0x80 then [ucast code]
      else if code < 0x800 then
        [ucast (0xC0 OR drop_bit 6 code), ucast (0x80 OR (code AND 63))]
      else if code < 0x10000 then
        [ucast (0xE0 OR drop_bit 12 code), ucast (0x80 OR (drop_bit 6 code AND 63)),
         ucast (0x80 OR (code AND 63))]
      else
        [ucast (0xF0 OR drop_bit 18 code), ucast (0x80 OR (drop_bit 12 code AND 63)),
         ucast (0x80 OR (drop_bit 6 code AND 63)), ucast (0x80 OR (code AND 63))])"

definition scalar_value :: "u32 \<Rightarrow> bool" where
  "scalar_value code \<longleftrightarrow> code \<le> 0x10FFFF \<and> \<not> (0xD800 \<le> code \<and> code \<le> 0xDFFF)"

section \<open>Bits of lead and continuation bytes\<close>

lemma u8_forall:
  assumes "\<forall>n\<in>set [0..<256]. P (of_nat n :: u8)"
  shows "P x"
proof -
  have "unat x \<in> set [0..<256]" using unat_lt [of x] by simp
  with assms have "P (of_nat (unat x))" by blast
  then show ?thesis by simp
qed

lemma mask_take_bit:
  "x AND 0x3F = take_bit 6 x" "x AND 0x1F = take_bit 5 x"
  "x AND 0x0F = take_bit 4 x" "x AND 0x07 = take_bit 3 x" for x :: "'a::len word"
  by (simp_all add: take_bit_eq_mask mask_eq_exp_minus_1)

lemma continuation_byte: "x AND 0xC0 = 0x80 \<longleftrightarrow> x = 0x80 OR take_bit 6 (x :: u8)"
  by (rule u8_forall) code_simp

lemma lead_byte:
  "(0xC2 \<le> x \<and> x \<le> 0xDF \<longrightarrow> x = 0xC0 OR take_bit 5 x) \<and>
   (0xE0 \<le> x \<and> x \<le> 0xEF \<longrightarrow> x = 0xE0 OR take_bit 4 x) \<and>
   (0xF0 \<le> x \<and> x \<le> 0xF4 \<longrightarrow> x = 0xF0 OR take_bit 3 (x :: u8))"
  by (rule u8_forall) code_simp

lemma unat_less_if_high_bits_zero:
  assumes "\<And>i. k \<le> i \<Longrightarrow> \<not> bit (v :: 'a::len word) i"
  shows "unat v < 2 ^ k"
proof -
  have "take_bit k v = v"
    by (rule bit_word_eqI) (use assms in \<open>auto simp: bit_simps intro: leI\<close>)
  then have "unat v = take_bit k (unat v)" by (metis unsigned_take_bit_eq)
  then show ?thesis by (metis take_bit_nat_less_exp)
qed

lemma high_bits_zero_if_less:
  assumes "unat (v :: 'a::len word) < 2 ^ k" "k \<le> i"
  shows "\<not> bit v i"
proof
  assume "bit v i"
  then have "bit (unat v) i" by (simp add: bit_unsigned_iff bit_imp_le_length)
  then have "2 ^ i \<le> unat v" by (metis bit_iff_odd div_less even_zero not_less)
  moreover have "(2 :: nat) ^ k \<le> 2 ^ i" using assms(2) by simp
  ultimately show False using assms(1) by linarith
qed

text \<open>The same facts in the other direction, for bytes the encoder builds.\<close>

lemma lead_byte_encode:
  "(2 \<le> y \<and> y < 0x20 \<longrightarrow> 0xC2 \<le> 0xC0 OR y \<and> 0xC0 OR y \<le> 0xDF \<and> take_bit 5 (0xC0 OR y) = y) \<and>
   (y < 0x10 \<longrightarrow> 0xE0 \<le> 0xE0 OR y \<and> 0xE0 OR y \<le> 0xEF \<and> take_bit 4 (0xE0 OR y) = y) \<and>
   (y \<le> 4 \<longrightarrow> 0xF0 \<le> 0xF0 OR y \<and> 0xF0 OR y \<le> 0xF4 \<and> take_bit 3 (0xF0 OR y) = (y :: u8))"
  by (rule u8_forall) code_simp

lemma continuation_byte_encode:
  "(0x80 OR take_bit 6 y) AND 0xC0 = 0x80 \<and> take_bit 6 (0x80 OR take_bit 6 y) = take_bit 6 (y :: u8)"
  by (rule u8_forall) code_simp

lemma ucast_or_numerals:
  "(ucast (0x80 OR x) :: u8) = 0x80 OR ucast (x :: u32)"
  "(ucast (0xC0 OR x) :: u8) = 0xC0 OR ucast (x :: u32)"
  "(ucast (0xE0 OR x) :: u8) = 0xE0 OR ucast (x :: u32)"
  "(ucast (0xF0 OR x) :: u8) = 0xF0 OR ucast (x :: u32)"
  by (simp_all add: unsigned_or_eq)

lemma ucast_up_down: "(ucast (ucast (x :: u8) :: u32) :: u8) = x"
  by (rule bit_word_eqI) (auto simp: bit_simps)

lemma ucast_take_bit_6: "(ucast (take_bit 6 (x :: u32)) :: u8) = take_bit 6 (ucast x)"
  by (rule bit_word_eqI) (auto simp: bit_simps)

lemma utf8_lead_ranges:
  "0xC2 \<le> f \<Longrightarrow> f \<le> 0xDF \<Longrightarrow> utf8_lead f = Some (ucast (f AND 0x1F), 1, 0x80) \<and> \<not> f < 0x80"
  "0xE0 \<le> f \<Longrightarrow> f \<le> 0xEF \<Longrightarrow> utf8_lead f = Some (ucast (f AND 0x0F), 2, 0x800) \<and> \<not> f < 0x80"
  "0xF0 \<le> f \<Longrightarrow> f \<le> 0xF4 \<Longrightarrow> utf8_lead f = Some (ucast (f AND 0x07), 3, 0x10000) \<and> \<not> f < 0x80"
  unfolding utf8_lead_def by (auto simp: word_le_nat_alt word_less_nat_alt)

section \<open>One encoded character\<close>

lemma decode_is_encode_2:
  assumes "0xC2 \<le> f" "f \<le> 0xDF" "b AND 0xC0 = 0x80"
    and v: "v = push_bit 6 (ucast (f AND 0x1F)) OR ucast (b AND 0x3F)" and "\<not> v < 0x80"
  shows "utf8_encode v = [f, b]"
proof -
  have "unat v < 2 ^ 11"
    by (rule unat_less_if_high_bits_zero) (auto simp: v mask_take_bit bit_simps)
  then have "v < 0x800" by (simp add: word_less_nat_alt)
  moreover have "drop_bit 6 v = ucast (take_bit 5 f)" "take_bit 6 v = ucast (take_bit 6 b)"
    by (rule bit_word_eqI, auto simp: v mask_take_bit bit_simps)+
  moreover have "0xC0 OR take_bit 5 f = f" "0x80 OR take_bit 6 b = b"
    using assms lead_byte [of f] by (auto simp: continuation_byte)
  ultimately show ?thesis
    using assms(5) by (simp add: utf8_encode_def mask_take_bit ucast_or_numerals ucast_up_down)
qed

lemma decode_is_encode_3:
  assumes "0xE0 \<le> f" "f \<le> 0xEF" "b AND 0xC0 = 0x80" "c AND 0xC0 = 0x80"
    and v: "v = push_bit 6 (push_bit 6 (ucast (f AND 0x0F)) OR ucast (b AND 0x3F))
        OR ucast (c AND 0x3F)" and "\<not> v < 0x800"
  shows "utf8_encode v = [f, b, c]"
proof -
  have "unat v < 2 ^ 16"
    by (rule unat_less_if_high_bits_zero) (auto simp: v mask_take_bit bit_simps)
  then have "v < 0x10000" by (simp add: word_less_nat_alt)
  moreover have "\<not> v < 0x80" using assms(6) by (auto simp: word_less_nat_alt)
  moreover have "drop_bit 12 v = ucast (take_bit 4 f)"
    "take_bit 6 (drop_bit 6 v) = ucast (take_bit 6 b)" "take_bit 6 v = ucast (take_bit 6 c)"
    by (rule bit_word_eqI, auto simp: v mask_take_bit bit_simps)+
  moreover have "0xE0 OR take_bit 4 f = f" "0x80 OR take_bit 6 b = b" "0x80 OR take_bit 6 c = c"
    using assms lead_byte [of f] by (auto simp: continuation_byte)
  ultimately show ?thesis
    using assms(6) by (simp add: utf8_encode_def mask_take_bit ucast_or_numerals ucast_up_down)
qed

lemma decode_is_encode_4:
  assumes "0xF0 \<le> f" "f \<le> 0xF4" "b AND 0xC0 = 0x80" "c AND 0xC0 = 0x80" "d AND 0xC0 = 0x80"
    and v: "v = push_bit 6 (push_bit 6 (push_bit 6 (ucast (f AND 0x07)) OR ucast (b AND 0x3F))
        OR ucast (c AND 0x3F)) OR ucast (d AND 0x3F)" and "\<not> v < 0x10000"
  shows "utf8_encode v = [f, b, c, d]"
proof -
  have "\<not> v < 0x80" "\<not> v < 0x800" using assms(7) by (auto simp: word_less_nat_alt)
  moreover have "drop_bit 18 v = ucast (take_bit 3 f)"
    "take_bit 6 (drop_bit 12 v) = ucast (take_bit 6 b)"
    "take_bit 6 (drop_bit 6 v) = ucast (take_bit 6 c)" "take_bit 6 v = ucast (take_bit 6 d)"
    by (rule bit_word_eqI, auto simp: v mask_take_bit bit_simps)+
  moreover have "0xF0 OR take_bit 3 f = f" "0x80 OR take_bit 6 b = b" "0x80 OR take_bit 6 c = c"
    "0x80 OR take_bit 6 d = d"
    using assms lead_byte [of f] by (auto simp: continuation_byte)
  ultimately show ?thesis
    using assms(7) by (simp add: utf8_encode_def mask_take_bit ucast_or_numerals ucast_up_down)
qed

text \<open>What one round of the validator consumes is the encoding of the value it checked.\<close>

lemma utf8_step_sound:
  assumes "utf8_lead f = Some (v, n, m)" "utf8_continue n v rest = Some (v', rest')" "\<not> v' < m"
  shows "f # rest = utf8_encode v' @ rest' \<and> v' \<noteq> 0"
proof -
  from assms(1) consider (two) "0xC2 \<le> f" "f \<le> 0xDF" "v = ucast (f AND 0x1F)" "n = 1" "m = 0x80"
    | (three) "0xE0 \<le> f" "f \<le> 0xEF" "v = ucast (f AND 0x0F)" "n = 2" "m = 0x800"
    | (four) "0xF0 \<le> f" "f \<le> 0xF4" "v = ucast (f AND 0x07)" "n = 3" "m = 0x10000"
    by (auto simp: utf8_lead_def split: if_splits)
  then show ?thesis
  proof cases
    case two
    with assms(2) obtain b where "rest = b # rest'" "b AND 0xC0 = 0x80"
      "v' = push_bit 6 v OR ucast (b AND 0x3F)"
      by (cases rest) (auto split: if_splits)
    with two assms(3) show ?thesis using decode_is_encode_2 [of f b v'] by auto
  next
    case three
    with assms(2) obtain b c where "rest = b # c # rest'" "b AND 0xC0 = 0x80" "c AND 0xC0 = 0x80"
      "v' = push_bit 6 (push_bit 6 v OR ucast (b AND 0x3F)) OR ucast (c AND 0x3F)"
      by (cases rest; cases "tl rest") (auto simp: numeral_2_eq_2 split: if_splits)
    with three assms(3) show ?thesis using decode_is_encode_3 [of f b c v'] by auto
  next
    case four
    with assms(2) obtain b c d where "rest = b # c # d # rest'" "b AND 0xC0 = 0x80"
      "c AND 0xC0 = 0x80" "d AND 0xC0 = 0x80"
      "v' = push_bit 6 (push_bit 6 (push_bit 6 v OR ucast (b AND 0x3F)) OR ucast (c AND 0x3F))
        OR ucast (d AND 0x3F)"
      by (cases rest; cases "tl rest"; cases "tl (tl rest)")
         (auto simp: numeral_3_eq_3 split: if_splits)
    with four assms(3) show ?thesis using decode_is_encode_4 [of f b c d v'] by auto
  qed
qed

lemma utf8_continue_numerals:
  "utf8_continue 2 v (b # c # r) = (if b AND 0xC0 \<noteq> 0x80 \<or> c AND 0xC0 \<noteq> 0x80 then None
     else Some (push_bit 6 (push_bit 6 v OR ucast (b AND 0x3F)) OR ucast (c AND 0x3F), r))"
  "utf8_continue 3 v (b # c # d # r) =
     (if b AND 0xC0 \<noteq> 0x80 \<or> c AND 0xC0 \<noteq> 0x80 \<or> d AND 0xC0 \<noteq> 0x80 then None
      else Some (push_bit 6 (push_bit 6 (push_bit 6 v OR ucast (b AND 0x3F))
        OR ucast (c AND 0x3F)) OR ucast (d AND 0x3F), r))"
  by (simp_all add: numeral_2_eq_2 numeral_3_eq_3)

lemma unat_ucast_drop_bit:
  assumes "unat (c :: u32) < 2 ^ (k + 8)"
  shows "unat (ucast (drop_bit k c) :: u8) = unat c div 2 ^ k"
proof -
  have d: "unat (drop_bit k c) = unat c div 2 ^ k"
    by (rule trans [OF unat_drop_bit_eq drop_bit_eq_div])
  have "unat c div 2 ^ k < 2 ^ 8"
    using assms by (simp add: less_mult_imp_div_less power_add mult.commute)
  then show ?thesis by (simp add: unsigned_ucast_eq d take_bit_nat_eq_self del: drop_bit_eq_div)
qed

lemma utf8_step_complete:
  assumes "scalar_value c" "\<not> c < 0x80"
  shows "\<exists>f rest v n m. utf8_encode c = f # rest \<and> \<not> f < 0x80 \<and> utf8_lead f = Some (v, n, m)
     \<and> n = length rest \<and> (\<forall>r. utf8_continue n v (rest @ r) = Some (c, r)) \<and> \<not> c < m"
proof -
  note enc = utf8_encode_def mask_take_bit ucast_or_numerals ucast_take_bit_6 continuation_byte_encode
  consider (two) "c < 0x800" | (three) "\<not> c < 0x800" "c < 0x10000" | (four) "\<not> c < 0x10000"
    by blast
  then show ?thesis
  proof cases
    case two
    have hz: "i < 11" if "bit c i" for i
      using two that high_bits_zero_if_less [of c 11 i]
      by (cases "i < 11") (simp_all add: word_less_nat_alt)
    let ?y = "ucast (drop_bit 6 c) :: u8"
    have "unat ?y = unat c div 64"
      using two unat_ucast_drop_bit [of c 6]
      by (simp add: word_less_nat_alt word_le_nat_alt scalar_value_def)
    then have "2 \<le> ?y \<and> ?y < 0x20"
      using two assms by (auto simp: word_less_nat_alt word_le_nat_alt)
    with lead_byte_encode [of ?y] have y: "0xC2 \<le> 0xC0 OR ?y" "0xC0 OR ?y \<le> 0xDF"
      "take_bit 5 (0xC0 OR ?y) = ?y" by blast+
    have "push_bit 6 (ucast ?y) OR ucast (take_bit 6 (ucast c :: u8)) = c"
      by (rule bit_word_eqI) (auto simp: bit_simps dest: hz)
    with y two assms show ?thesis
      using utf8_lead_ranges(1) [OF y(1,2)] by (auto simp: enc utf8_continue_numerals)
  next
    case three
    have hz: "i < 16" if "bit c i" for i
      using three that high_bits_zero_if_less [of c 16 i]
      by (cases "i < 16") (simp_all add: word_less_nat_alt)
    let ?y = "ucast (drop_bit 12 c) :: u8"
    have "unat ?y = unat c div 4096"
      using three unat_ucast_drop_bit [of c 12]
      by (simp add: word_less_nat_alt word_le_nat_alt scalar_value_def)
    then have "?y < 0x10" using three by (auto simp: word_less_nat_alt)
    with lead_byte_encode [of ?y] have y: "0xE0 \<le> 0xE0 OR ?y" "0xE0 OR ?y \<le> 0xEF"
      "take_bit 4 (0xE0 OR ?y) = ?y" by blast+
    have "push_bit 6 (push_bit 6 (ucast ?y) OR ucast (take_bit 6 (ucast (drop_bit 6 c) :: u8)))
        OR ucast (take_bit 6 (ucast c :: u8)) = c" (is "?v = c")
    proof (rule bit_word_eqI)
      fix n :: nat
      consider "n < 6" | "6 \<le> n" "n < 12" | "12 \<le> n" by linarith
      then show "bit ?v n = bit c n" by cases (auto simp: bit_simps dest: hz)
    qed
    with y three assms show ?thesis
      using utf8_lead_ranges(2) [OF y(1,2)] by (auto simp: enc utf8_continue_numerals)
  next
    case four
    have hz: "i < 21" if "bit c i" for i
      using assms that high_bits_zero_if_less [of c 21 i]
      by (cases "i < 21") (simp_all add: scalar_value_def word_le_nat_alt)
    let ?y = "ucast (drop_bit 18 c) :: u8"
    have "unat ?y = unat c div 262144"
      using assms unat_ucast_drop_bit [of c 18]
      by (simp add: word_less_nat_alt word_le_nat_alt scalar_value_def)
    then have "?y \<le> 4" using assms by (auto simp: word_le_nat_alt scalar_value_def)
    with lead_byte_encode [of ?y] have y: "0xF0 \<le> 0xF0 OR ?y" "0xF0 OR ?y \<le> 0xF4"
      "take_bit 3 (0xF0 OR ?y) = ?y" by blast+
    have "push_bit 6 (push_bit 6 (push_bit 6 (ucast ?y) OR
          ucast (take_bit 6 (ucast (drop_bit 12 c) :: u8))) OR
          ucast (take_bit 6 (ucast (drop_bit 6 c) :: u8))) OR ucast (take_bit 6 (ucast c :: u8)) = c"
      (is "?v = c")
    proof (rule bit_word_eqI)
      fix n :: nat
      consider "n < 6" | "6 \<le> n" "n < 12" | "12 \<le> n" "n < 18" | "18 \<le> n" by linarith
      then show "bit ?v n = bit c n" by cases (auto simp: bit_simps dest: hz)
    qed
    moreover have "\<not> c < 0x800" using four by (auto simp: word_less_nat_alt)
    ultimately show ?thesis
      using y four assms utf8_lead_ranges(3) [OF y(1,2)] by (auto simp: enc utf8_continue_numerals)
  qed
qed

section \<open>The validator decides UTF-8\<close>

lemma utf8_encode_ascii: "c < 0x80 \<Longrightarrow> utf8_encode c = [ucast c]"
  by (simp add: utf8_encode_def)

lemma utf8_valid_encode:
  assumes "scalar_value c"
  shows "ksd_utf8_valid (utf8_encode c @ r) allow_nul \<longleftrightarrow>
     (allow_nul \<or> c \<noteq> 0) \<and> ksd_utf8_valid r allow_nul"
proof (cases "c < 0x80")
  case True
  have "unat c < 128" using True by (simp add: word_less_nat_alt)
  then have "unat (ucast c :: u8) = unat c"
    by (simp add: unsigned_ucast_eq take_bit_nat_eq_self)
  then have "(ucast c :: u8) < 0x80" "(ucast c :: u8) = 0 \<longleftrightarrow> c = 0"
    using \<open>unat c < 128\<close> by (simp_all add: word_less_nat_alt word_unat_eq_iff)
  with True show ?thesis by (auto simp: utf8_encode_ascii)
next
  case False
  with assms obtain f rest v n m where step: "utf8_encode c = f # rest" "\<not> f < 0x80"
      "utf8_lead f = Some (v, n, m)" "n = length rest"
      "\<And>r. utf8_continue n v (rest @ r) = Some (c, r)" "\<not> c < m"
    using utf8_step_complete by metis
  then show ?thesis
    using assms False by (auto simp: scalar_value_def not_less)
qed

lemma utf8_valid_sound:
  "ksd_utf8_valid bs allow_nul \<Longrightarrow>
     \<exists>cps. (\<forall>c\<in>set cps. scalar_value c \<and> (allow_nul \<or> c \<noteq> 0)) \<and> bs = concat (map utf8_encode cps)"
proof (induction bs allow_nul rule: ksd_utf8_valid.induct)
  case (1 allow_nul)
  then show ?case by (intro exI [of _ "[]"]) simp
next
  case (2 f rest allow_nul)
  show ?case
  proof (cases "f < 0x80")
    case True
    with "2.prems" have ok: "allow_nul \<or> f \<noteq> 0" "ksd_utf8_valid rest allow_nul"
      by (auto split: if_splits)
    with "2.IH"(1) True obtain cps where cps: "\<forall>c\<in>set cps. scalar_value c \<and> (allow_nul \<or> c \<noteq> 0)"
        "rest = concat (map utf8_encode cps)" by auto
    have f: "unat (ucast f :: u32) = unat f" by (rule unat_ucast_up) simp
    have "scalar_value (ucast f)" "utf8_encode (ucast f) = [f]" "ucast f = (0 :: u32) \<longleftrightarrow> f = 0"
      using True f
      by (auto simp: scalar_value_def utf8_encode_def ucast_up_down word_less_nat_alt
          word_le_nat_alt word_unat_eq_iff)
    with ok cps show ?thesis by (intro exI [of _ "ucast f # cps"]) auto
  next
    case False
    with "2.prems" obtain v n m where lead: "utf8_lead f = Some (v, n, m)" "\<not> n > length rest"
      by (cases "utf8_lead f") (auto split: if_splits)
    moreover from this False "2.prems" obtain v' rest' where
        "utf8_continue n v rest = Some (v', rest')"
      by (cases "utf8_continue n v rest") auto
    moreover from this lead False "2.prems" have
        "\<not> v' < m" "scalar_value v'" "ksd_utf8_valid rest' allow_nul"
      by (auto simp: scalar_value_def not_less split: if_splits)
    ultimately obtain v n m v' rest' where step: "utf8_lead f = Some (v, n, m)"
        "\<not> n > length rest" "utf8_continue n v rest = Some (v', rest')" "\<not> v' < m"
        "scalar_value v'" "ksd_utf8_valid rest' allow_nul" by blast
    then obtain cps where cps: "\<forall>c\<in>set cps. scalar_value c \<and> (allow_nul \<or> c \<noteq> 0)"
        "rest' = concat (map utf8_encode cps)"
      using "2.IH"(2) [OF False step(1) refl refl step(2,3) refl]
      by (auto simp: scalar_value_def not_less)
    from utf8_step_sound [OF step(1,3,4)] step(5) cps show ?thesis
      by (intro exI [of _ "v' # cps"]) auto
  qed
qed

lemma utf8_valid_append:
  "(\<forall>c\<in>set cps. scalar_value c) \<Longrightarrow>
     ksd_utf8_valid (concat (map utf8_encode cps) @ r) allow_nul \<longleftrightarrow>
       (\<forall>c\<in>set cps. allow_nul \<or> c \<noteq> 0) \<and> ksd_utf8_valid r allow_nul"
  by (induction cps) (auto simp: utf8_valid_encode)

text \<open>
  C33: the text validator accepts exactly UTF-8. A byte string passes
  \<open>ksd_utf8_valid\<close> if and only if it is the concatenation of the encodings of
  Unicode scalar values (no surrogates, nothing above U+10FFFF, no overlong form),
  with U+0000 among them only when the caller allows it.
\<close>

theorem utf8_valid_iff:
  "ksd_utf8_valid bs allow_nul \<longleftrightarrow>
     (\<exists>cps. (\<forall>c\<in>set cps. scalar_value c \<and> (allow_nul \<or> c \<noteq> 0))
        \<and> bs = concat (map utf8_encode cps))"
proof
  assume "ksd_utf8_valid bs allow_nul"
  then show "\<exists>cps. (\<forall>c\<in>set cps. scalar_value c \<and> (allow_nul \<or> c \<noteq> 0))
        \<and> bs = concat (map utf8_encode cps)" by (rule utf8_valid_sound)
next
  assume "\<exists>cps. (\<forall>c\<in>set cps. scalar_value c \<and> (allow_nul \<or> c \<noteq> 0))
        \<and> bs = concat (map utf8_encode cps)"
  then obtain cps where "\<forall>c\<in>set cps. scalar_value c \<and> (allow_nul \<or> c \<noteq> 0)"
      "bs = concat (map utf8_encode cps)" by blast
  then show "ksd_utf8_valid bs allow_nul"
    using utf8_valid_append [of cps "[]" allow_nul] by auto
qed

theorem utf8_valid_iff_witness: "ksd_utf8_valid [0xE2, 0x82, 0xAC] False"
proof -
  have "[0xE2, 0x82, 0xAC] = concat (map utf8_encode [0x20AC])"
    by (simp add: utf8_encode_def)
  moreover have "\<forall>c\<in>set [0x20AC]. scalar_value c \<and> (False \<or> c \<noteq> 0)"
    by (simp add: scalar_value_def)
  ultimately show ?thesis
    using utf8_valid_iff [of "[0xE2, 0x82, 0xAC]" False] by blast
qed

end
