(* ===== verification/Frame.thy ===== *)
theory Frame
  imports Utf8 Operation_Scope
begin

text \<open>
  Frames of the client protocol (src/src/protocol_io.c): the 24-byte header, its
  acceptance rules, packing to and unpacking from one byte string, text framing,
  and the reassembly of a chunked request, together with the chunking the client
  library does on the other end (\<open>write_request\<close> of src/src/client.c).
\<close>

section \<open>Frames\<close>

record ksd_frame =
  fr_magic :: bytes
  fr_major :: u16
  fr_minor :: u16
  fr_opcode :: u16
  fr_flags :: u16
  fr_payload_length :: u32
  fr_request_id :: u64
  fr_payload :: "bytes option"

text \<open>The all-zero frame \<open>memset\<close> leaves, which is also what clearing does.\<close>

definition frame_zero :: ksd_frame where
  "frame_zero = \<lparr>fr_magic = replicate 4 0, fr_major = 0, fr_minor = 0, fr_opcode = 0, fr_flags = 0,
     fr_payload_length = 0, fr_request_id = 0, fr_payload = None\<rparr>"

definition ksd_frame_clear :: "ksd_frame \<Rightarrow> ksd_frame" where
  "ksd_frame_clear frame = frame_zero"

definition ksd_frame_is_request :: "ksd_frame \<Rightarrow> bool" where
  "ksd_frame_is_request frame \<longleftrightarrow> fr_flags frame AND (KSD_FLAG_RESPONSE OR KSD_FLAG_EVENT) = 0"

definition valid_public_header :: "ksd_frame \<Rightarrow> bool" where
  "valid_public_header frame =
     (let response = fr_flags frame AND KSD_FLAG_RESPONSE \<noteq> 0;
          event = fr_flags frame AND KSD_FLAG_EVENT \<noteq> 0;
          more = fr_flags frame AND KSD_FLAG_MORE \<noteq> 0
      in if fr_flags frame AND NOT KSD_FLAG_ALL \<noteq> 0 \<or> (response \<and> event) \<or> (more \<and> event)
         then False
         else if event then fr_request_id frame = 0
         else if response then fr_request_id frame \<noteq> 0
         else fr_request_id frame \<noteq> 0
           \<or> (fr_opcode frame = KSD_OP_PING \<and> fr_flags frame = 0))"

text \<open>\<open>memcpy\<close> of \<open>bs\<close> to offset \<open>off\<close> of a fixed-size array.\<close>

definition put_at :: "nat \<Rightarrow> bytes \<Rightarrow> bytes \<Rightarrow> bytes" where
  "put_at off bs buf = take off buf @ bs @ drop (off + length bs) buf"

definition slice :: "nat \<Rightarrow> nat \<Rightarrow> bytes \<Rightarrow> bytes" where
  "slice off n buf = take n (drop off buf)"

definition encode_frame_header :: "ksd_frame \<Rightarrow> bytes" where
  "encode_frame_header frame =
     (let header = replicate KSD_FRAME_HEADER_SIZE 0;
          header = put_at KSD_FRAME_MAGIC_OFFSET (fr_magic frame) header;
          header = put_at KSD_FRAME_MAJOR_OFFSET (ksd_encode_u16 (fr_major frame)) header;
          header = put_at KSD_FRAME_MINOR_OFFSET (ksd_encode_u16 (fr_minor frame)) header;
          header = put_at KSD_FRAME_OPCODE_OFFSET (ksd_encode_u16 (fr_opcode frame)) header;
          header = put_at KSD_FRAME_FLAGS_OFFSET (ksd_encode_u16 (fr_flags frame)) header;
          header = put_at KSD_FRAME_PAYLOAD_LENGTH_OFFSET
                     (ksd_encode_u32 (fr_payload_length frame)) header
      in put_at KSD_FRAME_REQUEST_ID_OFFSET (ksd_encode_u64 (fr_request_id frame)) header)"

definition decode_frame_header :: "bytes \<Rightarrow> ksd_frame" where
  "decode_frame_header header =
     \<lparr>fr_magic = slice KSD_FRAME_MAGIC_OFFSET 4 header,
      fr_major = ksd_decode_u16 (drop KSD_FRAME_MAJOR_OFFSET header),
      fr_minor = ksd_decode_u16 (drop KSD_FRAME_MINOR_OFFSET header),
      fr_opcode = ksd_decode_u16 (drop KSD_FRAME_OPCODE_OFFSET header),
      fr_flags = ksd_decode_u16 (drop KSD_FRAME_FLAGS_OFFSET header),
      fr_payload_length = ksd_decode_u32 (drop KSD_FRAME_PAYLOAD_LENGTH_OFFSET header),
      fr_request_id = ksd_decode_u64 (drop KSD_FRAME_REQUEST_ID_OFFSET header),
      fr_payload = None\<rparr>"

definition frame_header_acceptable ::
  "ksd_frame \<Rightarrow> bytes \<Rightarrow> u16 \<Rightarrow> u16 \<Rightarrow> u32 \<Rightarrow> bool \<Rightarrow> bool" where
  "frame_header_acceptable frame magic major minor maximum_payload public_rules \<longleftrightarrow>
     fr_magic frame = magic \<and> fr_major frame = major \<and> fr_minor frame = minor
     \<and> fr_payload_length frame \<le> maximum_payload
     \<and> (\<not> public_rules \<or> valid_public_header frame)"

text \<open>
  The payload bytes \<open>payload_length\<close> counts; the two agree in every frame the
  code builds (\<open>frame_wf\<close> below).
\<close>

definition payload_bytes :: "ksd_frame \<Rightarrow> bytes" where
  "payload_bytes frame =
     (case fr_payload frame of None \<Rightarrow> [] | Some p \<Rightarrow> take (unat (fr_payload_length frame)) p)"

definition ksd_frame_pack :: "(nat \<Rightarrow> bool) \<Rightarrow> ksd_frame \<Rightarrow> ksd_buffer \<Rightarrow> bool \<times> ksd_buffer" where
  "ksd_frame_pack alloc frame buffer =
     (if fr_payload_length frame \<noteq> 0 \<and> fr_payload frame = None then (False, buffer)
      else and_then (ksd_buffer_bytes alloc (encode_frame_header frame) buffer)
             (ksd_buffer_bytes alloc (payload_bytes frame)))"

definition ksd_frame_unpack ::
  "(nat \<Rightarrow> bool) \<Rightarrow> bytes \<Rightarrow> bytes \<Rightarrow> u16 \<Rightarrow> u16 \<Rightarrow> u32 \<Rightarrow> bool \<Rightarrow> ksd_frame option" where
  "ksd_frame_unpack alloc data magic major minor maximum_payload public_rules =
     (if length data < KSD_FRAME_HEADER_SIZE then None
      else let frame = decode_frame_header data; n = unat (fr_payload_length frame) in
        if fr_magic frame \<noteq> magic \<or> fr_major frame \<noteq> major \<or> fr_minor frame \<noteq> minor
           \<or> fr_payload_length frame > maximum_payload
           \<or> length data \<noteq> KSD_FRAME_HEADER_SIZE + n
           \<or> (public_rules \<and> \<not> valid_public_header frame)
        then None
        else if fr_payload_length frame = 0 then Some frame
        else if \<not> alloc n then None
        else Some (frame\<lparr>fr_payload := Some (slice KSD_FRAME_HEADER_SIZE n data)\<rparr>))"

section \<open>Header and frame round trips\<close>

definition frame_wf :: "ksd_frame \<Rightarrow> bool" where
  "frame_wf frame \<longleftrightarrow> length (fr_magic frame) = 4
     \<and> (case fr_payload frame of None \<Rightarrow> fr_payload_length frame = 0
        | Some p \<Rightarrow> p \<noteq> [] \<and> length p = unat (fr_payload_length frame))"

lemma put_at_append:
  "length a = off \<Longrightarrow> length bs \<le> n \<Longrightarrow>
     put_at off bs (a @ replicate n 0) = (a @ bs) @ replicate (n - length bs) 0"
  by (simp add: put_at_def)

lemma encode_frame_header_eq:
  assumes "length (fr_magic frame) = 4"
  shows "encode_frame_header frame =
     fr_magic frame @ ksd_encode_u16 (fr_major frame) @ ksd_encode_u16 (fr_minor frame)
     @ ksd_encode_u16 (fr_opcode frame) @ ksd_encode_u16 (fr_flags frame)
     @ ksd_encode_u32 (fr_payload_length frame) @ ksd_encode_u64 (fr_request_id frame)"
  using assms put_at_append [of "[]" 0 "fr_magic frame" 24]
  by (simp add: encode_frame_header_def wire_defs Let_def put_at_append del: append_assoc)

lemma length_encode_frame_header [simp]:
  "length (fr_magic frame) = 4 \<Longrightarrow> length (encode_frame_header frame) = 24"
  by (simp add: encode_frame_header_eq)

lemma decode_encode_header:
  assumes "length (fr_magic frame) = 4"
  shows "decode_frame_header (encode_frame_header frame @ rest) = frame\<lparr>fr_payload := None\<rparr>"
  using assms by (simp add: encode_frame_header_eq decode_frame_header_def slice_def wire_defs)

lemma encode_decode_prefix:
  "2 \<le> length d \<Longrightarrow> ksd_encode_u16 (ksd_decode_u16 d) = take 2 d"
  "4 \<le> length d \<Longrightarrow> ksd_encode_u32 (ksd_decode_u32 d) = take 4 d"
  "8 \<le> length d \<Longrightarrow> ksd_encode_u64 (ksd_decode_u64 d) = take 8 d"
proof -
  assume "2 \<le> length d"
  moreover have "ksd_decode_u16 d = ksd_decode_u16 (take 2 d)" by (simp add: ksd_decode_u16_def)
  ultimately show "ksd_encode_u16 (ksd_decode_u16 d) = take 2 d" by (simp add: codec_simps)
next
  assume "4 \<le> length d"
  moreover have "ksd_decode_u32 d = ksd_decode_u32 (take 4 d)" by (simp add: ksd_decode_u32_def)
  ultimately show "ksd_encode_u32 (ksd_decode_u32 d) = take 4 d" by (simp add: codec_simps)
next
  assume "8 \<le> length d"
  moreover from this have "ksd_decode_u64 d = ksd_decode_u64 (take 8 d)"
    by (simp add: ksd_decode_u64_def ksd_decode_u32_def)
  ultimately show "ksd_encode_u64 (ksd_decode_u64 d) = take 8 d" by (simp add: codec_simps)
qed

lemma take_drop_join: "take n (drop m h) @ take k (drop (m + n) h) = take (n + k) (drop m h)"
  using take_add [of n k "drop m h"] by (simp add: add.commute)

lemma encode_decode_header:
  assumes "24 \<le> length h"
  shows "encode_frame_header (decode_frame_header h) = take 24 h"
proof -
  have "encode_frame_header (decode_frame_header h) =
      take 4 (drop 0 h) @ take 2 (drop 4 h) @ take 2 (drop 6 h) @ take 2 (drop 8 h)
      @ take 2 (drop 10 h) @ take 4 (drop 12 h) @ take 8 (drop 16 h)"
    using assms
    by (simp add: encode_frame_header_eq decode_frame_header_def slice_def wire_defs
        encode_decode_prefix)
  also have "\<dots> = take 24 h"
    using take_drop_join [of 4 12 h 8] take_drop_join [of 2 10 h 12] take_drop_join [of 2 8 h 14]
      take_drop_join [of 2 6 h 16] take_drop_join [of 2 4 h 18] take_drop_join [of 4 0 h 20]
    by simp
  finally show ?thesis .
qed

lemma payload_bytes_wf: "frame_wf frame \<Longrightarrow> payload_bytes frame =
     (case fr_payload frame of None \<Rightarrow> [] | Some p \<Rightarrow> p)"
  by (auto simp: payload_bytes_def frame_wf_def split: option.splits)

lemma length_payload_bytes: "frame_wf frame \<Longrightarrow> length (payload_bytes frame) = unat (fr_payload_length frame)"
  by (auto simp: payload_bytes_wf frame_wf_def split: option.splits)

lemma frame_pack_ok:
  assumes "buffer_wf b" "ksd_frame_pack alloc frame b = (True, b')"
  shows "buf_data b' = buf_data b @ encode_frame_header frame @ payload_bytes frame \<and> buffer_wf b'"
proof -
  from assms(2) obtain m where m: "ksd_buffer_bytes alloc (encode_frame_header frame) b = (True, m)"
      "ksd_buffer_bytes alloc (payload_bytes frame) m = (True, b')"
    by (cases "ksd_buffer_bytes alloc (encode_frame_header frame) b")
       (auto simp: ksd_frame_pack_def and_then_def split: if_splits)
  have first: "buf_data m = buf_data b @ encode_frame_header frame \<and> buffer_wf m"
    using m(1) by (cases rule: buffer_bytes_cases [OF assms(1), of alloc "encode_frame_header frame"]) auto
  then have wf: "buffer_wf m" by simp
  show ?thesis
    using m(2) first
    by (cases rule: buffer_bytes_cases [OF wf, of alloc "payload_bytes frame"]) auto
qed

lemma valid_public_header_payload [simp]:
  "valid_public_header (frame\<lparr>fr_payload := p\<rparr>) = valid_public_header frame"
  by (simp add: valid_public_header_def)

lemma unpack_packed:
  assumes "frame_wf frame"
    and "frame_header_acceptable frame magic major minor maximum_payload public_rules"
    and "ksd_frame_pack alloc frame (ksd_buffer_init maximum) = (True, b)"
    and "alloc' (unat (fr_payload_length frame))"
  shows "ksd_frame_unpack alloc' (buf_data b) magic major minor maximum_payload public_rules = Some frame"
proof -
  have wf: "buffer_wf (ksd_buffer_init maximum)"
    by (simp add: buffer_wf_def ksd_buffer_init_def)
  have data: "buf_data b = encode_frame_header frame @ payload_bytes frame"
    using frame_pack_ok [OF wf assms(3)] by (simp add: ksd_buffer_init_def)
  have magic: "length (fr_magic frame) = 4" using assms(1) by (simp add: frame_wf_def)
  then have header: "decode_frame_header (buf_data b) = frame\<lparr>fr_payload := None\<rparr>"
    by (simp add: data decode_encode_header)
  have len: "length (buf_data b) = 24 + unat (fr_payload_length frame)"
    using magic length_payload_bytes [OF assms(1)] by (simp add: data)
  have payload: "slice 24 (unat (fr_payload_length frame)) (buf_data b) = payload_bytes frame"
    using magic length_payload_bytes [OF assms(1)] by (simp add: data slice_def)
  show ?thesis
  proof (cases "fr_payload frame")
    case None
    then show ?thesis
      using assms(1,2) header len
      by (auto simp: ksd_frame_unpack_def frame_wf_def frame_header_acceptable_def wire_defs Let_def
          not_less)
  next
    case (Some p)
    then have "fr_payload_length frame \<noteq> 0" "payload_bytes frame = p"
      using assms(1) by (auto simp: frame_wf_def payload_bytes_wf)
    with Some show ?thesis
      using assms(2,4) header len payload
      by (auto simp: ksd_frame_unpack_def frame_header_acceptable_def wire_defs Let_def not_less)
  qed
qed

text \<open>
  A frame survives packing. When a well-formed frame that meets the reader's
  header rules is packed into an empty buffer, unpacking the bytes returns the
  same frame, payload included (given memory for the payload).
\<close>

theorem frame_pack_unpack:
  assumes "frame_wf frame"
    and "frame_header_acceptable frame magic major minor maximum_payload public_rules"
    and "ksd_frame_pack alloc frame (ksd_buffer_init maximum) = (True, b)"
    and "alloc' (unat (fr_payload_length frame))"
  shows "ksd_frame_unpack alloc' (buf_data b) magic major minor maximum_payload public_rules = Some frame"
  using assms by (rule unpack_packed)

lemma frame_pack_unpack_witness_frame:
  fixes f :: ksd_frame
  defines "f \<equiv> \<lparr>fr_magic = [75, 83, 68, 80], fr_major = 3, fr_minor = 0, fr_opcode = 0x2020,
     fr_flags = 0, fr_payload_length = 2, fr_request_id = 7, fr_payload = Some [1, 2]\<rparr>"
  shows "frame_wf f" "frame_header_acceptable f [75, 83, 68, 80] 3 0 4096 True"
    "ksd_frame_pack (\<lambda>_. True) f (ksd_buffer_init 64) = (True, \<lparr>buf_data =
       [75, 83, 68, 80, 3, 0, 0, 0, 0x20, 0x20, 0, 0, 2, 0, 0, 0, 7, 0, 0, 0, 0, 0, 0, 0, 1, 2],
       buf_capacity = 64, buf_maximum = 64\<rparr>)"
  by (simp_all add: f_def frame_wf_def frame_header_acceptable_def valid_public_header_def wire_defs
      ksd_frame_pack_def ksd_buffer_bytes_def buffer_reserve_def ksd_buffer_init_def
      encode_frame_header_eq payload_bytes_def ksd_encode_u16_def ksd_encode_u32_def
      ksd_encode_u64_def grow_capacity.simps Let_def)

theorem frame_pack_unpack_witness:
  "ksd_frame_unpack (\<lambda>_. True)
     [75, 83, 68, 80, 3, 0, 0, 0, 0x20, 0x20, 0, 0, 2, 0, 0, 0, 7, 0, 0, 0, 0, 0, 0, 0, 1, 2]
     [75, 83, 68, 80] 3 0 4096 True =
   Some \<lparr>fr_magic = [75, 83, 68, 80], fr_major = 3, fr_minor = 0, fr_opcode = 0x2020,
     fr_flags = 0, fr_payload_length = 2, fr_request_id = 7, fr_payload = Some [1, 2]\<rparr>"
  using frame_pack_unpack [OF frame_pack_unpack_witness_frame, of "\<lambda>_. True"] by simp

text \<open>
  one spelling per frame. Unpacking accepts a byte string only when it is
  exactly the packing of the frame it returns, and that frame is well formed and
  within the reader's limits; truncated input, trailing bytes and a declared
  length that disagrees with the data are refused.
\<close>

theorem frame_unpack_canonical:
  assumes "ksd_frame_unpack alloc data magic major minor maximum_payload public_rules = Some frame"
    and "length magic = 4"
  shows "data = encode_frame_header frame @ payload_bytes frame \<and> frame_wf frame
    \<and> frame_header_acceptable frame magic major minor maximum_payload public_rules"
proof -
  let ?h = "decode_frame_header data"
  let ?n = "unat (fr_payload_length ?h)"
  from assms(1) have len: "length data = 24 + ?n" and acc: "fr_magic ?h = magic"
      "fr_major ?h = major" "fr_minor ?h = minor" "fr_payload_length ?h \<le> maximum_payload"
      "\<not> public_rules \<or> valid_public_header ?h"
    and frame: "frame = (if fr_payload_length ?h = 0 then ?h
        else ?h\<lparr>fr_payload := Some (slice 24 ?n data)\<rparr>)"
    by (auto simp: ksd_frame_unpack_def wire_defs Let_def not_less split: if_splits)
  have hp: "fr_payload ?h = None" by (simp add: decode_frame_header_def)
  have zero: "?n = 0 \<longleftrightarrow> fr_payload_length ?h = 0" by (simp add: unat_0_iff)
  have "encode_frame_header frame = encode_frame_header ?h"
    by (simp add: frame encode_frame_header_def)
  then have head: "encode_frame_header frame = take 24 data"
    using len by (simp add: encode_decode_header)
  have tail: "payload_bytes frame = drop 24 data"
    using len hp zero by (auto simp: frame payload_bytes_def slice_def)
  have "frame_wf frame"
    using acc(1) assms(2) len hp zero by (auto simp: frame frame_wf_def slice_def)
  moreover have "frame_header_acceptable frame magic major minor maximum_payload public_rules"
    using acc by (auto simp: frame frame_header_acceptable_def)
  ultimately show ?thesis by (simp add: head tail)
qed

theorem frame_unpack_canonical_witness:
  "length [75, 83, 68, 80 :: u8] = 4 \<and>
   frame_wf \<lparr>fr_magic = [75, 83, 68, 80], fr_major = 3, fr_minor = 0, fr_opcode = 0x2020,
     fr_flags = 0, fr_payload_length = 2, fr_request_id = 7, fr_payload = Some [1, 2]\<rparr>"
proof -
  have unpack: "ksd_frame_unpack (\<lambda>_. True)
     [75, 83, 68, 80, 3, 0, 0, 0, 0x20, 0x20, 0, 0, 2, 0, 0, 0, 7, 0, 0, 0, 0, 0, 0, 0, 1, 2]
     [75, 83, 68, 80] 3 0 4096 True =
   Some \<lparr>fr_magic = [75, 83, 68, 80], fr_major = 3, fr_minor = 0, fr_opcode = 0x2020,
     fr_flags = 0, fr_payload_length = 2, fr_request_id = 7, fr_payload = Some [1, 2]\<rparr>"
    by (simp add: ksd_frame_unpack_def decode_frame_header_def slice_def valid_public_header_def
        wire_defs ksd_decode_u16_def ksd_decode_u32_def ksd_decode_u64_def Let_def)
  show ?thesis using frame_unpack_canonical [OF unpack] by simp
qed

section \<open>Text with a length prefix\<close>

definition ksd_buffer_frame_text :: "(nat \<Rightarrow> bool) \<Rightarrow> nat \<Rightarrow> ksd_buffer \<Rightarrow> bool \<times> ksd_buffer" where
  "ksd_buffer_frame_text alloc maximum_payload b =
     (if length (buf_data b) > maximum_payload \<or> length (buf_data b) > 2 ^ 32 - 1
         \<or> maximum_payload > SIZE_MAX - 4 then (False, b)
      else let n = length (buf_data b);
               b = b\<lparr>buf_maximum := maximum_payload + 4\<rparr>
           in case buffer_reserve alloc b 4 of
                (False, b') \<Rightarrow> (False, b')
              | (True, b') \<Rightarrow>
                  (True, b'\<lparr>buf_data := ksd_encode_u32 (of_nat n) @ buf_data b'\<rparr>))"

lemma buffer_frame_text_ok:
  assumes wf: "length (buf_data b) \<le> buf_capacity b"
    and "ksd_buffer_frame_text alloc maximum_payload b = (True, b')"
  shows "buf_data b' = ksd_encode_u32 (of_nat (length (buf_data b))) @ buf_data b
    \<and> length (buf_data b') \<le> buf_capacity b' \<and> length (buf_data b) \<le> maximum_payload
    \<and> length (buf_data b) < 2 ^ 32"
  using assms grow_capacity_ge [of "length (buf_data b) + 4" "maximum_payload + 4"]
  by (auto simp: ksd_buffer_frame_text_def buffer_reserve_def Let_def add.commute
      split: if_splits prod.splits bool.splits)

section \<open>Reassembly of a chunked request\<close>

datatype ksd_assembly_result = KSD_ASSEMBLY_INVALID | KSD_ASSEMBLY_PENDING | KSD_ASSEMBLY_COMPLETE

record ksd_request_assembly =
  as_payload :: ksd_buffer
  as_request_id :: u64
  as_opcode :: u16
  as_active :: bool
  as_complete :: bool

definition ksd_request_assembly_init :: ksd_request_assembly where
  "ksd_request_assembly_init = \<lparr>as_payload = ksd_buffer_init KSD_MAX_REQUEST_TOTAL_PAYLOAD,
     as_request_id = 0, as_opcode = 0, as_active = False, as_complete = False\<rparr>"

definition ksd_request_assembly_clear :: "ksd_request_assembly \<Rightarrow> ksd_request_assembly" where
  "ksd_request_assembly_clear assembly = ksd_request_assembly_init"

definition ksd_request_assembly_active :: "ksd_request_assembly \<Rightarrow> bool" where
  "ksd_request_assembly_active assembly \<longleftrightarrow> as_active assembly"

definition ksd_request_assembly_accept ::
  "(nat \<Rightarrow> bool) \<Rightarrow> ksd_request_assembly \<Rightarrow> ksd_frame \<Rightarrow> ksd_assembly_result \<times> ksd_request_assembly" where
  "ksd_request_assembly_accept alloc assembly frame =
     (if \<not> ksd_frame_is_request frame \<or> fr_request_id frame = 0 \<or> fr_payload frame = None
         \<or> fr_payload_length frame = 0
         \<or> unat (fr_payload_length frame) > KSD_MAX_REQUEST_PAYLOAD
      then (KSD_ASSEMBLY_INVALID, assembly)
      else let more = fr_flags frame AND KSD_FLAG_MORE \<noteq> 0 in
        if fr_flags frame \<noteq> (if more then KSD_FLAG_MORE else 0)
           \<or> (more \<and> unat (fr_payload_length frame) \<noteq> KSD_MAX_REQUEST_PAYLOAD)
        then (KSD_ASSEMBLY_INVALID, assembly)
        else if \<not> as_active assembly then
          if \<not> more then (KSD_ASSEMBLY_INVALID, assembly)
          else case ksd_buffer_bytes alloc (payload_bytes frame) (as_payload assembly) of
              (False, b) \<Rightarrow> (KSD_ASSEMBLY_INVALID, assembly\<lparr>as_payload := b\<rparr>)
            | (True, b) \<Rightarrow> (KSD_ASSEMBLY_PENDING,
                assembly\<lparr>as_payload := b, as_opcode := fr_opcode frame,
                  as_request_id := fr_request_id frame, as_active := True, as_complete := False\<rparr>)
        else if fr_opcode frame \<noteq> as_opcode assembly
                \<or> fr_request_id frame \<noteq> as_request_id assembly
        then (KSD_ASSEMBLY_INVALID, assembly)
        else case ksd_buffer_bytes alloc (payload_bytes frame) (as_payload assembly) of
            (False, b) \<Rightarrow> (KSD_ASSEMBLY_INVALID, assembly\<lparr>as_payload := b\<rparr>)
          | (True, b) \<Rightarrow> (if more then KSD_ASSEMBLY_PENDING else KSD_ASSEMBLY_COMPLETE,
              assembly\<lparr>as_payload := b, as_complete := \<not> more\<rparr>))"

text \<open>The storage pointer of a buffer is NULL exactly while its capacity is 0.\<close>

definition ksd_request_assembly_take ::
  "ksd_request_assembly \<Rightarrow> (ksd_frame \<times> ksd_request_assembly) option" where
  "ksd_request_assembly_take assembly =
     (let n = length (buf_data (as_payload assembly)) in
      if \<not> as_active assembly \<or> \<not> as_complete assembly
         \<or> buf_capacity (as_payload assembly) = 0 \<or> n = 0 \<or> n > KSD_MAX_REQUEST_TOTAL_PAYLOAD
      then None
      else Some
        (\<lparr>fr_magic = [KSD_FRAME_MAGIC_0, KSD_FRAME_MAGIC_1, KSD_FRAME_MAGIC_2, KSD_FRAME_MAGIC_3],
          fr_major = KSD_PROTOCOL_MAJOR, fr_minor = KSD_PROTOCOL_MINOR,
          fr_opcode = as_opcode assembly, fr_flags = 0, fr_payload_length = of_nat n,
          fr_request_id = as_request_id assembly,
          fr_payload = Some (buf_data (as_payload assembly))\<rparr>,
         ksd_request_assembly_clear assembly))"

text \<open>Feeding a run of frames; everything after an invalid frame is dropped with the connection.\<close>

fun accept_all ::
  "(nat \<Rightarrow> bool) \<Rightarrow> ksd_request_assembly \<Rightarrow> ksd_frame list \<Rightarrow> ksd_assembly_result \<times> ksd_request_assembly" where
  "accept_all alloc assembly [] = (KSD_ASSEMBLY_PENDING, assembly)"
| "accept_all alloc assembly (f # fs) =
     (case ksd_request_assembly_accept alloc assembly f of
        (KSD_ASSEMBLY_PENDING, assembly') \<Rightarrow> accept_all alloc assembly' fs
      | (KSD_ASSEMBLY_COMPLETE, assembly') \<Rightarrow>
          if fs = [] then (KSD_ASSEMBLY_COMPLETE, assembly') else (KSD_ASSEMBLY_INVALID, assembly')
      | (KSD_ASSEMBLY_INVALID, assembly') \<Rightarrow> (KSD_ASSEMBLY_INVALID, assembly'))"

section \<open>How the client splits a request\<close>

definition request_frame :: "u16 \<Rightarrow> u64 \<Rightarrow> bool \<Rightarrow> bytes \<Rightarrow> ksd_frame" where
  "request_frame opcode request_id has_more chunk =
     \<lparr>fr_magic = [KSD_FRAME_MAGIC_0, KSD_FRAME_MAGIC_1, KSD_FRAME_MAGIC_2, KSD_FRAME_MAGIC_3],
      fr_major = KSD_PROTOCOL_MAJOR, fr_minor = KSD_PROTOCOL_MINOR, fr_opcode = opcode,
      fr_flags = (if has_more then KSD_FLAG_MORE else 0),
      fr_payload_length = of_nat (length chunk), fr_request_id = request_id,
      fr_payload = (if chunk = [] then None else Some chunk)\<rparr>"

text \<open>The \<open>do ... while\<close> loop of \<open>write_request\<close>, as the frames it writes.\<close>

function request_frames :: "u16 \<Rightarrow> u64 \<Rightarrow> bytes \<Rightarrow> ksd_frame list" where
  "request_frames opcode request_id payload =
     (if length payload > KSD_MAX_REQUEST_PAYLOAD
      then request_frame opcode request_id True (take KSD_MAX_REQUEST_PAYLOAD payload)
           # request_frames opcode request_id (drop KSD_MAX_REQUEST_PAYLOAD payload)
      else [request_frame opcode request_id False payload])"
  by pat_completeness auto
termination
  by (relation "measure (\<lambda>(_, _, payload). length payload)") (auto simp: wire_defs)

declare request_frames.simps [simp del]

definition write_request_frames :: "u16 \<Rightarrow> u64 \<Rightarrow> bytes \<Rightarrow> ksd_frame list option" where
  "write_request_frames opcode request_id payload =
     (if length payload > KSD_MAX_REQUEST_TOTAL_PAYLOAD then None
      else Some (request_frames opcode request_id payload))"

section \<open>What is split is reassembled, and nothing else\<close>

text \<open>The assembly while a sequence is in progress: \<open>acc\<close> is what it has taken so far.\<close>

definition assembling :: "u16 \<Rightarrow> u64 \<Rightarrow> bytes \<Rightarrow> ksd_request_assembly \<Rightarrow> bool" where
  "assembling opcode request_id acc assembly \<longleftrightarrow>
     buffer_wf (as_payload assembly) \<and> buf_data (as_payload assembly) = acc
     \<and> buf_maximum (as_payload assembly) = KSD_MAX_REQUEST_TOTAL_PAYLOAD
     \<and> as_active assembly = (acc \<noteq> [])
     \<and> (acc \<noteq> [] \<longrightarrow> as_opcode assembly = opcode \<and> as_request_id assembly = request_id)"

lemma assembling_init: "assembling opcode request_id [] ksd_request_assembly_init"
  by (simp add: assembling_def ksd_request_assembly_init_def buffer_wf_def ksd_buffer_init_def)

lemma unat_chunk_length: "length chunk \<le> 4096 \<Longrightarrow> unat (of_nat (length chunk) :: u32) = length chunk"
  by (rule unat_of_nat_small) simp

lemma request_frame_payload:
  "length chunk \<le> 4096 \<Longrightarrow> payload_bytes (request_frame opcode request_id m chunk) = chunk"
  by (simp add: request_frame_def payload_bytes_def unat_chunk_length)

lemma request_frame_acceptable:
  assumes "request_id \<noteq> 0" "chunk \<noteq> []" "length chunk \<le> 4096" "m \<Longrightarrow> length chunk = 4096"
  shows "ksd_request_assembly_accept alloc assembly (request_frame opcode request_id m chunk) =
    (if \<not> as_active assembly then
       if \<not> m then (KSD_ASSEMBLY_INVALID, assembly)
       else case ksd_buffer_bytes alloc chunk (as_payload assembly) of
           (False, b) \<Rightarrow> (KSD_ASSEMBLY_INVALID, assembly\<lparr>as_payload := b\<rparr>)
         | (True, b) \<Rightarrow> (KSD_ASSEMBLY_PENDING, assembly\<lparr>as_payload := b, as_opcode := opcode,
               as_request_id := request_id, as_active := True, as_complete := False\<rparr>)
     else if opcode \<noteq> as_opcode assembly \<or> request_id \<noteq> as_request_id assembly
     then (KSD_ASSEMBLY_INVALID, assembly)
     else case ksd_buffer_bytes alloc chunk (as_payload assembly) of
         (False, b) \<Rightarrow> (KSD_ASSEMBLY_INVALID, assembly\<lparr>as_payload := b\<rparr>)
       | (True, b) \<Rightarrow> (if m then KSD_ASSEMBLY_PENDING else KSD_ASSEMBLY_COMPLETE,
             assembly\<lparr>as_payload := b, as_complete := \<not> m\<rparr>))"
proof -
  let ?f = "request_frame opcode request_id m chunk"
  have len: "unat (fr_payload_length ?f) = length chunk" "fr_payload_length ?f \<noteq> 0"
    using assms(2,3) unat_chunk_length [OF assms(3)]
    by (auto simp: request_frame_def simp flip: unat_0_iff)
  have flags: "(fr_flags ?f AND KSD_FLAG_MORE \<noteq> 0) = m" "ksd_frame_is_request ?f"
      "fr_flags ?f = (if m then KSD_FLAG_MORE else 0)"
    by (simp_all add: request_frame_def ksd_frame_is_request_def wire_defs)
  have fields: "fr_request_id ?f = request_id" "fr_opcode ?f = opcode" "fr_payload ?f = Some chunk"
    using assms(2) by (simp_all add: request_frame_def)
  show ?thesis
    unfolding ksd_request_assembly_accept_def Let_def flags(1)
    using assms len fields flags(2,3) request_frame_payload [OF assms(3)]
    by (cases m) (auto simp: wire_defs split: prod.splits bool.splits)
qed

lemma accept_all_request_frames:
  assumes "\<And>n. alloc n" "request_id \<noteq> 0"
  shows "assembling opcode request_id acc assembly \<Longrightarrow> payload \<noteq> [] \<Longrightarrow>
    (acc \<noteq> [] \<or> length payload > 4096) \<Longrightarrow>
    length acc + length payload \<le> KSD_MAX_REQUEST_TOTAL_PAYLOAD \<Longrightarrow>
    \<exists>assembly'. accept_all alloc assembly (request_frames opcode request_id payload)
        = (KSD_ASSEMBLY_COMPLETE, assembly')
      \<and> assembling opcode request_id (acc @ payload) assembly' \<and> as_complete assembly'"
proof (induction "length payload" arbitrary: acc assembly payload rule: less_induct)
  case less
  note asm = less.prems(1)[unfolded assembling_def]
  from asm have wf: "buffer_wf (as_payload assembly)" by simp
  show ?case
  proof (cases "length payload > 4096")
    case True
    let ?chunk = "take 4096 payload" and ?rest = "drop 4096 payload"
    obtain b where b: "ksd_buffer_bytes alloc ?chunk (as_payload assembly) = (True, b)"
        "buffer_wf b" "buf_data b = acc @ ?chunk" "buf_maximum b = KSD_MAX_REQUEST_TOTAL_PAYLOAD"
      using asm less.prems(4) assms(1)
      by (cases rule: buffer_bytes_cases [OF wf, of alloc ?chunk]) auto
    obtain assembly1 where acc1: "ksd_request_assembly_accept alloc assembly
          (request_frame opcode request_id True ?chunk) = (KSD_ASSEMBLY_PENDING, assembly1)"
        and inv1: "assembling opcode request_id (acc @ ?chunk) assembly1"
    proof -
      have "?chunk \<noteq> []" "length ?chunk \<le> 4096" "length ?chunk = 4096"
        using True less.prems(2) by auto
      then show thesis
        using asm b assms(2) request_frame_acceptable [of request_id ?chunk True alloc assembly opcode]
        by (intro that [of "if as_active assembly then assembly\<lparr>as_payload := b, as_complete := False\<rparr>
            else assembly\<lparr>as_payload := b, as_opcode := opcode, as_request_id := request_id,
              as_active := True, as_complete := False\<rparr>"])
           (simp_all add: assembling_def)
    qed
    have "\<exists>assembly'. accept_all alloc assembly1 (request_frames opcode request_id ?rest)
        = (KSD_ASSEMBLY_COMPLETE, assembly')
      \<and> assembling opcode request_id ((acc @ ?chunk) @ ?rest) assembly' \<and> as_complete assembly'"
      using True less.prems(4) inv1 by (intro less.hyps) auto
    with acc1 True show ?thesis
      by (simp add: request_frames.simps [of opcode request_id payload] wire_defs)
  next
    case False
    then have act: "as_active assembly" "as_opcode assembly = opcode"
        "as_request_id assembly = request_id" "acc \<noteq> []"
      using asm less.prems(3) by auto
    obtain b where b: "ksd_buffer_bytes alloc payload (as_payload assembly) = (True, b)"
        "buffer_wf b" "buf_data b = acc @ payload" "buf_maximum b = KSD_MAX_REQUEST_TOTAL_PAYLOAD"
      using asm less.prems(4) assms(1)
      by (cases rule: buffer_bytes_cases [OF wf, of alloc payload]) auto
    with False act assms(2) less.prems(2) show ?thesis
      by (simp add: request_frames.simps [of opcode request_id payload] wire_defs
          request_frame_acceptable assembling_def)
  qed
qed

lemma chunked_request_reassembled:
  assumes "\<And>n. alloc n" and "request_id \<noteq> 0"
    and "KSD_MAX_REQUEST_PAYLOAD < length payload"
    and "write_request_frames opcode request_id payload = Some frames"
  shows "\<exists>assembly frame.
     accept_all alloc ksd_request_assembly_init frames = (KSD_ASSEMBLY_COMPLETE, assembly)
     \<and> ksd_request_assembly_take assembly = Some (frame, ksd_request_assembly_init)
     \<and> frame_wf frame \<and> fr_payload frame = Some payload \<and> fr_opcode frame = opcode
     \<and> fr_request_id frame = request_id \<and> fr_flags frame = 0"
proof -
  have len: "length payload \<le> 4 * 1024 * 1024" "frames = request_frames opcode request_id payload"
    using assms(4) by (auto simp: write_request_frames_def wire_defs split: if_splits)
  have ne: "payload \<noteq> []" using assms(3) by auto
  obtain assembly where a: "accept_all alloc ksd_request_assembly_init frames
        = (KSD_ASSEMBLY_COMPLETE, assembly)"
      "assembling opcode request_id payload assembly" "as_complete assembly"
    using accept_all_request_frames [where alloc = alloc and assembly = ksd_request_assembly_init
        and acc = "[]" and opcode = opcode and request_id = request_id and payload = payload]
      assms(1-3) len assembling_init ne
    by (auto simp: wire_defs)
  have "unat (of_nat (length payload) :: u32) = length payload"
    using len(1) by (intro unat_of_nat_small) simp
  moreover have "buf_capacity (as_payload assembly) \<noteq> 0"
    using a(2) ne by (cases payload) (auto simp: assembling_def buffer_wf_def)
  ultimately show ?thesis
    using a len(1) ne
    by (auto simp: ksd_request_assembly_take_def ksd_request_assembly_clear_def assembling_def
        frame_wf_def wire_defs Let_def)
qed

text \<open>
  C30: a request arrives whole. The client writes frames for a payload of up to 4 MiB. A
  payload of at most 4096 bytes, the empty one included, is one well-formed frame without the
  MORE flag that carries it as it is. A longer payload, given that memory can be had for it, is
  reassembled: the authority's assembly accepts all the frames in order, the last one completes it, and taking
  the result gives a well-formed request frame with the same opcode, request id and payload, leaving
  the assembly as new.
\<close>

theorem chunked_request_round_trip:
  assumes "\<And>n. alloc n" and "request_id \<noteq> 0"
    and "write_request_frames opcode request_id payload = Some frames"
  shows "length payload \<le> KSD_MAX_REQUEST_TOTAL_PAYLOAD
    \<and> (if length payload \<le> KSD_MAX_REQUEST_PAYLOAD
       then \<exists>frame. frames = [frame] \<and> frame_wf frame \<and> payload_bytes frame = payload \<and> fr_opcode frame = opcode
              \<and> fr_request_id frame = request_id \<and> fr_flags frame = 0
       else \<exists>assembly frame.
         accept_all alloc ksd_request_assembly_init frames = (KSD_ASSEMBLY_COMPLETE, assembly)
         \<and> ksd_request_assembly_take assembly = Some (frame, ksd_request_assembly_init)
         \<and> frame_wf frame \<and> fr_payload frame = Some payload \<and> fr_opcode frame = opcode
         \<and> fr_request_id frame = request_id \<and> fr_flags frame = 0)"
proof (cases "length payload \<le> KSD_MAX_REQUEST_PAYLOAD")
  case True
  then have "frames = [request_frame opcode request_id False payload]" "length payload \<le> KSD_MAX_REQUEST_TOTAL_PAYLOAD"
    using assms(3) by (simp_all add: write_request_frames_def request_frames.simps split: if_splits)
  moreover have "unat (of_nat (length payload) :: u32) = length payload" using True by (intro unat_chunk_length) (simp add: wire_defs)
  ultimately show ?thesis using True by (auto simp: request_frame_def frame_wf_def payload_bytes_def)
next
  case False
  have "length payload \<le> KSD_MAX_REQUEST_TOTAL_PAYLOAD" using assms(3) by (auto simp: write_request_frames_def split: if_splits)
  with chunked_request_reassembled [OF assms(1,2) _ assms(3)] False show ?thesis by simp
qed

theorem chunked_request_round_trip_witness:
  "(\<exists>frame. request_frames KSD_OP_CLIPBOARD_SET_CONTENT 9 [65, 66] = [frame] \<and> payload_bytes frame = [65, 66])
   \<and> (\<exists>assembly frame.
     accept_all (\<lambda>_. True) ksd_request_assembly_init
       (request_frames KSD_OP_CLIPBOARD_SET_CONTENT 9 (replicate 5000 65)) = (KSD_ASSEMBLY_COMPLETE, assembly)
     \<and> ksd_request_assembly_take assembly = Some (frame, ksd_request_assembly_init)
     \<and> frame_wf frame \<and> fr_payload frame = Some (replicate 5000 65)
     \<and> fr_opcode frame = KSD_OP_CLIPBOARD_SET_CONTENT
     \<and> fr_request_id frame = 9 \<and> fr_flags frame = 0)"
proof -
  have w: "write_request_frames KSD_OP_CLIPBOARD_SET_CONTENT 9 p = Some (request_frames KSD_OP_CLIPBOARD_SET_CONTENT 9 p)" if "length p \<le> 5000" for p
    using that by (simp add: write_request_frames_def wire_defs)
  show ?thesis
    using chunked_request_round_trip [where alloc = "\<lambda>_. True", OF _ _ w [of "[65, 66]"]]
      chunked_request_round_trip [where alloc = "\<lambda>_. True", OF _ _ w [of "replicate 5000 65"]]
    by (auto simp: wire_defs)
qed

text \<open>What a frame of a sequence says, apart from the protocol version in its header.\<close>

definition frame_view :: "ksd_frame \<Rightarrow> u16 \<times> u64 \<times> u16 \<times> bytes" where
  "frame_view f = (fr_opcode f, fr_request_id f, fr_flags f, payload_bytes f)"

lemma request_frame_view:
  "length chunk \<le> 4096 \<Longrightarrow> frame_view (request_frame opcode request_id m chunk)
     = (opcode, request_id, if m then KSD_FLAG_MORE else 0, chunk)"
  by (simp add: frame_view_def request_frame_payload) (simp add: request_frame_def)

lemma accept_inversion:
  assumes acc: "ksd_request_assembly_accept alloc assembly f = (r, assembly')"
    and "r \<noteq> KSD_ASSEMBLY_INVALID" and "frame_wf f"
    and asm: "assembling opcode request_id acc assembly"
  obtains m chunk where
    "frame_view f = (fr_opcode f, fr_request_id f, if m then KSD_FLAG_MORE else 0, chunk)"
    "chunk \<noteq> []" "length chunk \<le> 4096" "m \<longrightarrow> length chunk = 4096"
    "r = (if m then KSD_ASSEMBLY_PENDING else KSD_ASSEMBLY_COMPLETE)"
    "acc = [] \<longrightarrow> m" "acc \<noteq> [] \<longrightarrow> fr_opcode f = opcode \<and> fr_request_id f = request_id"
    "assembling (fr_opcode f) (fr_request_id f) (acc @ chunk) assembly'"
proof
  let ?m = "fr_flags f AND KSD_FLAG_MORE \<noteq> 0" and ?chunk = "payload_bytes f"
  note asm' = asm [unfolded assembling_def]
  have wfb: "buffer_wf (as_payload assembly)" using asm' by simp
  have len: "length ?chunk = unat (fr_payload_length f)" using assms(3) by (rule length_payload_bytes)
  note rules = ksd_request_assembly_accept_def Let_def
  show flags: "frame_view f = (fr_opcode f, fr_request_id f, if ?m then KSD_FLAG_MORE else 0, ?chunk)"
    using acc assms(2) by (auto simp: frame_view_def rules split: if_splits)
  show "length ?chunk \<le> 4096" "?m \<longrightarrow> length ?chunk = 4096"
    using acc assms(2) by (auto simp: rules len wire_defs split: if_splits)
  show ne: "?chunk \<noteq> []"
    using acc assms(2) len by (auto simp: rules unat_0_iff split: if_splits)
  show "r = (if ?m then KSD_ASSEMBLY_PENDING else KSD_ASSEMBLY_COMPLETE)"
    using acc assms(2) by (auto simp: rules split: if_splits prod.splits bool.splits)
  show "acc = [] \<longrightarrow> ?m" "acc \<noteq> [] \<longrightarrow> fr_opcode f = opcode \<and> fr_request_id f = request_id"
    using acc assms(2) asm' by (auto simp: rules split: if_splits)
  show "assembling (fr_opcode f) (fr_request_id f) (acc @ ?chunk) assembly'"
  proof (cases rule: buffer_bytes_cases [OF wfb, of alloc ?chunk])
    case 1
    then show ?thesis using acc assms(2) by (auto simp: rules split: if_splits)
  next
    case (2 b)
    then show ?thesis
      using acc assms(2) asm' ne by (auto simp: rules assembling_def split: if_splits)
  qed
qed

lemma accept_all_canonical:
  assumes "\<forall>f\<in>set frames. frame_wf f"
  shows "assembling opcode request_id acc assembly \<Longrightarrow>
    accept_all alloc assembly frames = (KSD_ASSEMBLY_COMPLETE, assembly') \<Longrightarrow>
    \<exists>payload. payload \<noteq> [] \<and> buf_data (as_payload assembly') = acc @ payload
      \<and> (acc = [] \<longrightarrow> length payload > 4096)
      \<and> (acc \<noteq> [] \<longrightarrow> as_opcode assembly' = opcode \<and> as_request_id assembly' = request_id)
      \<and> map frame_view frames =
          map frame_view (request_frames (as_opcode assembly') (as_request_id assembly') payload)"
  using assms
proof (induction frames arbitrary: opcode request_id acc assembly)
  case Nil
  then show ?case by simp
next
  case (Cons f fs)
  obtain r assembly1 where acc1: "ksd_request_assembly_accept alloc assembly f = (r, assembly1)"
    by fastforce
  then have ok: "r \<noteq> KSD_ASSEMBLY_INVALID" using Cons.prems(2) by auto
  from accept_inversion [OF acc1 ok _ Cons.prems(1)] Cons.prems(3) obtain m chunk where step:
    "frame_view f = (fr_opcode f, fr_request_id f, if m then KSD_FLAG_MORE else 0, chunk)"
    "chunk \<noteq> []" "length chunk \<le> 4096" "m \<longrightarrow> length chunk = 4096"
    "r = (if m then KSD_ASSEMBLY_PENDING else KSD_ASSEMBLY_COMPLETE)"
    "acc = [] \<longrightarrow> m" "acc \<noteq> [] \<longrightarrow> fr_opcode f = opcode \<and> fr_request_id f = request_id"
    "assembling (fr_opcode f) (fr_request_id f) (acc @ chunk) assembly1" by auto
  show ?case
  proof (cases m)
    case True
    with acc1 step(5) Cons.prems(2) have "accept_all alloc assembly1 fs = (KSD_ASSEMBLY_COMPLETE, assembly')"
      by simp
    from Cons.IH [OF step(8) this] Cons.prems(3) obtain rest where rest: "rest \<noteq> []"
        "buf_data (as_payload assembly') = acc @ chunk @ rest"
        "as_opcode assembly' = fr_opcode f" "as_request_id assembly' = fr_request_id f"
        "map frame_view fs = map frame_view (request_frames (fr_opcode f) (fr_request_id f) rest)"
      using step(2) by auto
    have "length chunk = 4096" using step(4) True by simp
    then have "request_frames (fr_opcode f) (fr_request_id f) (chunk @ rest) =
        request_frame (fr_opcode f) (fr_request_id f) True chunk
        # request_frames (fr_opcode f) (fr_request_id f) rest"
      using rest(1) by (simp add: request_frames.simps [of _ _ "chunk @ rest"] wire_defs)
    then have "map frame_view (f # fs) =
        map frame_view (request_frames (fr_opcode f) (fr_request_id f) (chunk @ rest))"
      using rest(5) step(1,3) True by (simp add: request_frame_view)
    then show ?thesis
      using rest step(7) \<open>length chunk = 4096\<close> by (intro exI [of _ "chunk @ rest"]) auto
  next
    case False
    with acc1 step(5) Cons.prems(2) have last: "fs = []" "assembly' = assembly1"
      by (auto split: if_splits)
    have "request_frames (fr_opcode f) (fr_request_id f) chunk =
        [request_frame (fr_opcode f) (fr_request_id f) False chunk]"
      using step(3) by (simp add: request_frames.simps [of _ _ chunk] wire_defs)
    then show ?thesis
      using last step False
      by (intro exI [of _ chunk]) (auto simp: assembling_def request_frame_view)
  qed
qed

text \<open>
  there is one way to chunk a request. Whenever the reassembly completes from
  its initial state over well-formed frames, what it has assembled is longer than
  one frame and at most 4 MiB, and the frames carry exactly the opcode, request id,
  flags and chunk boundaries the client's own splitting of that payload produces;
  no short, empty, reordered or foreign chunk can be part of a completed request.
\<close>

theorem chunking_unique:
  assumes "\<forall>f\<in>set frames. frame_wf f"
    and "accept_all alloc ksd_request_assembly_init frames = (KSD_ASSEMBLY_COMPLETE, assembly)"
  shows "KSD_MAX_REQUEST_PAYLOAD < length (buf_data (as_payload assembly))
    \<and> map frame_view frames = map frame_view (request_frames (as_opcode assembly)
        (as_request_id assembly) (buf_data (as_payload assembly)))"
  using accept_all_canonical [OF assms(1) assembling_init assms(2)]
  by (auto simp: wire_defs)

theorem chunking_unique_witness:
  "\<exists>assembly :: ksd_request_assembly. KSD_MAX_REQUEST_PAYLOAD < length (buf_data (as_payload assembly))
     \<and> map frame_view (request_frames KSD_OP_CLIPBOARD_SET_CONTENT 9 (replicate 5000 65))
       = map frame_view (request_frames (as_opcode assembly) (as_request_id assembly)
           (buf_data (as_payload assembly)))"
proof -
  let ?frames = "request_frames KSD_OP_CLIPBOARD_SET_CONTENT 9 (replicate 5000 65)"
  obtain assembly where fin: "accept_all (\<lambda>_. True) ksd_request_assembly_init ?frames
      = (KSD_ASSEMBLY_COMPLETE, assembly)"
    using accept_all_request_frames [where alloc = "\<lambda>_. True" and request_id = 9 and acc = "[]"
        and payload = "replicate 5000 65", OF _ _ assembling_init]
    by (auto simp: wire_defs)
  have wf: "\<forall>f\<in>set ?frames. frame_wf f"
    by (simp add: request_frames.simps wire_defs request_frame_def frame_wf_def)
  show ?thesis using chunking_unique [OF wf fin] by blast
qed

end
