(* ===== verification/Operation_Result.thy ===== *)
theory Operation_Result
  imports Frame "HOL-Library.Multiset"
begin

text \<open>
  The result every operation fills in (src/src/operation_result.c). A result owns
  either a heap tail or a sealed descriptor. \<open>free\<close> has no observable effect in
  the model; \<open>close\<close> does, so every operation returns the descriptors it closed,
  in order. A descriptor is an \<open>int\<close>, -1 for none. The diagnostic array holds a
  C string; the model keeps the bytes before the terminator.
\<close>

definition KSD_DIAGNOSTIC_CAPACITY :: nat where
  [wire_defs]: "KSD_DIAGNOSTIC_CAPACITY = 1024"

record ksd_operation_result =
  res_status :: u32
  res_detail :: u32
  res_diagnostic :: bytes
  res_tail :: "bytes option"
  res_tail_length :: u32
  res_payload_fd :: int

definition ksd_result_init :: ksd_operation_result where
  "ksd_result_init = \<lparr>res_status = KSD_STATUS_INTERNAL, res_detail = 0, res_diagnostic = [],
     res_tail = None, res_tail_length = 0, res_payload_fd = -1\<rparr>"

definition release_payload_fd :: "ksd_operation_result \<Rightarrow> ksd_operation_result \<times> int list" where
  "release_payload_fd result =
     (result\<lparr>res_payload_fd := -1\<rparr>,
      if res_payload_fd result \<ge> 0 then [res_payload_fd result] else [])"

definition ksd_result_clear :: "ksd_operation_result \<Rightarrow> ksd_operation_result \<times> int list" where
  "ksd_result_clear result = (ksd_result_init, snd (release_payload_fd result))"

text \<open>The loop that shortens a diagnostic until what is left is valid UTF-8.\<close>

fun trim_utf8 :: "bytes \<Rightarrow> nat \<Rightarrow> nat" where
  "trim_utf8 d 0 = 0"
| "trim_utf8 d (Suc n) =
     (if ksd_utf8_valid (take (Suc n) d) False then Suc n else trim_utf8 d n)"

definition ksd_result_error ::
  "ksd_operation_result \<Rightarrow> u32 \<Rightarrow> u32 \<Rightarrow> bytes option \<Rightarrow> ksd_operation_result \<times> int list" where
  "ksd_result_error result status detail diagnostic =
     (let (result, closed) = release_payload_fd result;
          result = result\<lparr>res_tail := None, res_tail_length := 0, res_status := status,
                     res_detail := detail, res_diagnostic := []\<rparr>
      in case diagnostic of
           None \<Rightarrow> (result, closed)
         | Some d \<Rightarrow>
             let source = cstring d;
                 n = (if length source < KSD_DIAGNOSTIC_CAPACITY - 1 then length source
                      else KSD_DIAGNOSTIC_CAPACITY - 1);
                 n = trim_utf8 source n
             in (result\<lparr>res_diagnostic := take n source\<rparr>, closed))"

definition ksd_result_take ::
  "ksd_operation_result \<Rightarrow> bytes option \<Rightarrow> u32 \<Rightarrow> bool \<times> ksd_operation_result \<times> int list" where
  "ksd_result_take result tail tail_length =
     (if tail_length \<noteq> 0 \<and> tail = None then (False, result, [])
      else let (result, closed) = release_payload_fd result
           in (True, result\<lparr>res_status := KSD_STATUS_OK, res_detail := 0, res_diagnostic := [],
                  res_tail := tail, res_tail_length := tail_length\<rparr>, closed))"

definition ksd_result_take_fd ::
  "ksd_operation_result \<Rightarrow> int \<Rightarrow> u32 \<Rightarrow> bool \<times> ksd_operation_result \<times> int list" where
  "ksd_result_take_fd result payload_fd tail_length =
     (if payload_fd < 0 \<or> tail_length = 0
      then (False, result, if payload_fd \<ge> 0 then [payload_fd] else [])
      else let (result, closed) = release_payload_fd result
           in (True, result\<lparr>res_status := KSD_STATUS_OK, res_detail := 0, res_diagnostic := [],
                  res_tail := None, res_tail_length := tail_length,
                  res_payload_fd := payload_fd\<rparr>, closed))"

definition ksd_result_copy ::
  "(nat \<Rightarrow> bool) \<Rightarrow> ksd_operation_result \<Rightarrow> bytes option \<Rightarrow> u32 \<Rightarrow>
     bool \<times> ksd_operation_result \<times> int list" where
  "ksd_result_copy alloc result tail tail_length =
     (if tail_length \<noteq> 0 then
        case tail of
          None \<Rightarrow> (False, result, [])
        | Some t \<Rightarrow>
            if \<not> alloc (unat tail_length) then (False, result, [])
            else ksd_result_take result (Some (take (unat tail_length) t)) tail_length
      else ksd_result_take result None tail_length)"

definition ksd_result_take_framed_text ::
  "(nat \<Rightarrow> bool) \<Rightarrow> ksd_buffer \<Rightarrow> ksd_operation_result \<Rightarrow> u32 \<Rightarrow> bytes option \<Rightarrow>
     bool \<times> ksd_operation_result \<times> int list" where
  "ksd_result_take_framed_text alloc buffer result failure_status diagnostic =
     (case ksd_buffer_frame_text alloc KSD_MAX_TEXT_BYTES buffer of
        (True, b) \<Rightarrow>
          (case ksd_result_take result (Some (buf_data b)) (of_nat (length (buf_data b))) of
             (True, r, closed) \<Rightarrow> (True, r, closed)
           | (False, r, closed) \<Rightarrow>
               let (r', closed') = ksd_result_error r failure_status 0 diagnostic
               in (False, r', closed @ closed'))
      | (False, b) \<Rightarrow>
          let (r, closed) = ksd_result_error result failure_status 0 diagnostic
          in (False, r, closed))"

section \<open>Diagnostics\<close>

lemma trim_utf8_le: "trim_utf8 d n \<le> n"
  by (induction n) (auto intro: le_SucI)

lemma trim_utf8_valid: "ksd_utf8_valid (take (trim_utf8 d n) d) False"
  by (induction n) auto

lemma trim_utf8_maximal:
  "k \<le> n \<Longrightarrow> ksd_utf8_valid (take k d) False \<Longrightarrow> k \<le> trim_utf8 d n"
  by (induction n) (auto simp: le_Suc_eq)

lemma length_utf8_encode: "0 < length (utf8_encode c) \<and> length (utf8_encode c) \<le> 4"
  by (simp add: utf8_encode_def)

text \<open>A valid string has a valid prefix within three bytes of every cut.\<close>

lemma utf8_cut:
  "(\<forall>c\<in>set cps. scalar_value c \<and> c \<noteq> 0) \<Longrightarrow> n < length (concat (map utf8_encode cps)) \<Longrightarrow>
     \<exists>k\<le>n. n \<le> k + 3 \<and> ksd_utf8_valid (take k (concat (map utf8_encode cps))) False"
proof (induction cps arbitrary: n)
  case Nil
  then show ?case by simp
next
  case (Cons c cps)
  let ?e = "utf8_encode c"
  show ?case
  proof (cases "n < length ?e")
    case True
    then show ?thesis
      using length_utf8_encode [of c] by (intro exI [of _ 0]) auto
  next
    case False
    have "n - length ?e < length (concat (map utf8_encode cps))"
      using Cons.prems(2) False by (simp add: length_concat)
    then obtain k where k: "k \<le> n - length ?e" "n - length ?e \<le> k + 3"
        "ksd_utf8_valid (take k (concat (map utf8_encode cps))) False"
      using Cons.IH [of "n - length ?e"] Cons.prems(1) by auto
    have "take (length ?e + k) (concat (map utf8_encode (c # cps)))
        = ?e @ take k (concat (map utf8_encode cps))" by simp
    then have "ksd_utf8_valid (take (length ?e + k) (concat (map utf8_encode (c # cps)))) False"
      using k(3) Cons.prems(1) by (simp add: utf8_valid_encode)
    with k False show ?thesis by (intro exI [of _ "length ?e + k"]) auto
  qed
qed

lemma utf8_cut_valid:
  assumes "ksd_utf8_valid s False" "n < length s"
  shows "\<exists>k\<le>n. n \<le> k + 3 \<and> ksd_utf8_valid (take k s) False"
  using utf8_valid_sound [OF assms(1)] utf8_cut [of _ n] assms(2) by auto

lemma result_error_diagnostic:
  "res_diagnostic (fst (ksd_result_error result status detail (Some d))) =
     take (trim_utf8 (cstring d) (min (length (cstring d)) 1023)) (cstring d)"
  by (simp add: ksd_result_error_def release_payload_fd_def wire_defs Let_def min_def)

text \<open>
  an error diagnostic is always presentable text. Whatever bytes an operation
  passes as its diagnostic, the stored message is a prefix of that C string, valid
  UTF-8 without NUL, and fits the 1024-byte field with its terminator; it is the
  longest such prefix, and when the source itself is valid UTF-8 it is kept whole
  or loses no more than three bytes to the cut.
\<close>

theorem result_error_text:
  "let source = cstring d;
       message = res_diagnostic (fst (ksd_result_error result status detail (Some d)))
   in message = take (length message) source \<and> length message < KSD_DIAGNOSTIC_CAPACITY
    \<and> ksd_utf8_valid message False
    \<and> (\<forall>k. k < KSD_DIAGNOSTIC_CAPACITY \<and> k \<le> length source \<and> ksd_utf8_valid (take k source) False
          \<longrightarrow> k \<le> length message)
    \<and> (ksd_utf8_valid source False \<longrightarrow> min (length source) 1020 \<le> length message)"
proof -
  define source where "source = cstring d"
  define message where "message = res_diagnostic (fst (ksd_result_error result status detail (Some d)))"
  let ?n = "trim_utf8 source (min (length source) 1023)"
  have msg: "message = take ?n source"
    by (simp add: message_def source_def result_error_diagnostic)
  have le: "?n \<le> length source" "?n \<le> 1023"
    using trim_utf8_le [of source "min (length source) 1023"] by auto
  then have len: "length message = ?n" by (simp add: msg)
  have max: "k \<le> ?n" if "k < 1024" "k \<le> length source" "ksd_utf8_valid (take k source) False" for k
    using that by (intro trim_utf8_maximal) auto
  have "min (length source) 1020 \<le> ?n" if "ksd_utf8_valid source False"
  proof (cases "length source \<le> 1023")
    case True
    then show ?thesis using max [of "length source"] that by simp
  next
    case False
    with utf8_cut_valid [OF that, of 1023] obtain k where "k \<le> 1023" "1023 \<le> k + 3"
        "ksd_utf8_valid (take k source) False" by auto
    with max [of k] False show ?thesis by simp
  qed
  then show ?thesis
    unfolding Let_def source_def [symmetric] message_def [symmetric]
    using max le len trim_utf8_valid [of source "min (length source) 1023"]
    by (simp add: wire_defs) (auto simp: msg)
qed

theorem result_error_text_witness:
  "min (length (cstring [72, 105, 0xE2, 0x82, 0xAC, 0, 9])) 1020
     \<le> length (res_diagnostic (fst (ksd_result_error ksd_result_init 4 0
          (Some [72, 105, 0xE2, 0x82, 0xAC, 0, 9]))))"
proof -
  have "ksd_utf8_valid (cstring [72, 105, 0xE2, 0x82, 0xAC, 0, 9]) False"
    by (simp add: utf8_lead_def utf8_continue_numerals)
  then show ?thesis
    using result_error_text [where result = ksd_result_init and status = 4 and detail = 0
        and d = "[72, 105, 0xE2, 0x82, 0xAC, 0, 9]"]
    unfolding Let_def by blast
qed

section \<open>Ownership of the payload descriptor\<close>

text \<open>The calls a client of the result makes, and a run of them.\<close>

datatype result_call =
    Clear
  | Error u32 u32 "bytes option"
  | Take "bytes option" u32
  | TakeFd int u32
  | Copy "bytes option" u32
  | TakeFramedText ksd_buffer u32 "bytes option"

fun result_step ::
  "(nat \<Rightarrow> bool) \<Rightarrow> result_call \<Rightarrow> ksd_operation_result \<Rightarrow> ksd_operation_result \<times> int list" where
  "result_step alloc Clear r = ksd_result_clear r"
| "result_step alloc (Error status detail d) r = ksd_result_error r status detail d"
| "result_step alloc (Take tail n) r = snd (ksd_result_take r tail n)"
| "result_step alloc (TakeFd fd n) r = snd (ksd_result_take_fd r fd n)"
| "result_step alloc (Copy tail n) r = snd (ksd_result_copy alloc r tail n)"
| "result_step alloc (TakeFramedText b status d) r =
     snd (ksd_result_take_framed_text alloc b r status d)"

fun result_run ::
  "(nat \<Rightarrow> bool) \<Rightarrow> result_call list \<Rightarrow> ksd_operation_result \<Rightarrow> ksd_operation_result \<times> int list" where
  "result_run alloc [] r = (r, [])"
| "result_run alloc (c # cs) r =
     (let (r, closed) = result_step alloc c r; (r, closed') = result_run alloc cs r
      in (r, closed @ closed'))"

text \<open>The descriptors a call hands over, and the one a result still holds.\<close>

definition fds_given :: "result_call \<Rightarrow> int list" where
  "fds_given c = (case c of TakeFd fd n \<Rightarrow> if fd \<ge> 0 then [fd] else [] | _ \<Rightarrow> [])"

definition fds_held :: "ksd_operation_result \<Rightarrow> int list" where
  "fds_held r = (if res_payload_fd r \<ge> 0 then [res_payload_fd r] else [])"

definition result_wf :: "ksd_operation_result \<Rightarrow> bool" where
  "result_wf r \<longleftrightarrow>
     (res_payload_fd r \<ge> 0 \<longrightarrow> res_tail r = None \<and> res_tail_length r \<noteq> 0
        \<and> res_status r = KSD_STATUS_OK)
   \<and> (res_payload_fd r < 0 \<and> res_tail_length r \<noteq> 0 \<longrightarrow> res_tail r \<noteq> None)
   \<and> length (res_diagnostic r) < KSD_DIAGNOSTIC_CAPACITY
   \<and> ksd_utf8_valid (res_diagnostic r) False"

lemmas result_op_defs = ksd_result_clear_def ksd_result_init_def ksd_result_take_def
  ksd_result_take_fd_def release_payload_fd_def fds_held_def fds_given_def

lemma result_error_fields:
  fixes status detail :: u32 and r :: ksd_operation_result and d :: "bytes option"
  defines "r' \<equiv> fst (ksd_result_error r status detail d)"
  shows "res_payload_fd r' = -1" "res_tail r' = None" "res_tail_length r' = 0"
    "res_status r' = status" "res_detail r' = detail"
    "length (res_diagnostic r') < KSD_DIAGNOSTIC_CAPACITY"
    "ksd_utf8_valid (res_diagnostic r') False"
    "snd (ksd_result_error r status detail d) = fds_held r"
  using trim_utf8_valid [of "cstring (the d)"]
    trim_utf8_le [of "cstring (the d)" "length (cstring (the d))"]
    trim_utf8_le [of "cstring (the d)" 1023]
  by (auto simp: r'_def ksd_result_error_def release_payload_fd_def fds_held_def Let_def wire_defs
      split: option.splits)

lemma result_take_cases:
  assumes "result_wf r"
  shows "result_wf (fst (snd (ksd_result_take r tail n)))"
    "mset (fds_held (fst (snd (ksd_result_take r tail n)))) + mset (snd (snd (ksd_result_take r tail n)))
       = mset (fds_held r)"
  using assms by (auto simp: result_op_defs result_wf_def wire_defs Let_def)

lemma result_error_cases:
  "result_wf (fst (ksd_result_error r status detail d))"
  "mset (fds_held (fst (ksd_result_error r status detail d)))
     + mset (snd (ksd_result_error r status detail d)) = mset (fds_held r)"
  using result_error_fields [of r status detail d]
  by (auto simp: result_wf_def fds_held_def)

lemma result_step_sound:
  assumes "result_wf r"
  shows "result_wf (fst (result_step alloc c r))
    \<and> mset (fds_held (fst (result_step alloc c r))) + mset (snd (result_step alloc c r))
       = mset (fds_held r) + mset (fds_given c)"
proof (cases c)
  case (TakeFramedText b status d)
  obtain ok b' where framed: "ksd_buffer_frame_text alloc KSD_MAX_TEXT_BYTES b = (ok, b')"
    by (cases "ksd_buffer_frame_text alloc KSD_MAX_TEXT_BYTES b")
  have "result_step alloc c r =
      (if ok then snd (ksd_result_take r (Some (buf_data b')) (of_nat (length (buf_data b'))))
       else ksd_result_error r status 0 d)"
    by (simp add: TakeFramedText ksd_result_take_framed_text_def framed ksd_result_take_def
        split_def Let_def)
  then show ?thesis
    using result_take_cases [OF assms] result_error_cases
    by (simp add: TakeFramedText fds_given_def)
next
  case (Error status detail d)
  then show ?thesis using result_error_cases by (simp add: fds_given_def)
next
  case (Take tail n)
  then show ?thesis using result_take_cases [OF assms] by (simp add: fds_given_def)
next
  case (Copy tail n)
  then show ?thesis
    using result_take_cases [OF assms] assms
    by (simp add: fds_given_def ksd_result_copy_def split: option.splits)
qed (use assms in \<open>auto simp: result_op_defs result_wf_def wire_defs Let_def\<close>)

text \<open>
  C34: a result owns its descriptor exactly once. After any sequence of calls on a
  fresh result, every descriptor handed to \<open>ksd_result_take_fd\<close> (accepted or
  refused) has been closed exactly once or is the one the result still holds,
  counting multiplicity, so none leaks and none is closed twice; the result never
  holds both a tail and a descriptor, a held descriptor has a nonzero length and
  status OK, and its diagnostic is bounded valid text throughout.
\<close>

theorem result_descriptor_ownership:
  "let (r, closed) = result_run alloc cs ksd_result_init
   in mset (fds_held r) + mset closed = mset (concat (map fds_given cs)) \<and> result_wf r"
proof -
  have "result_wf r \<Longrightarrow> result_wf (fst (result_run alloc cs r))
      \<and> mset (fds_held (fst (result_run alloc cs r))) + mset (snd (result_run alloc cs r))
        = mset (fds_held r) + mset (concat (map fds_given cs))" for r
  proof (induction cs arbitrary: r)
    case (Cons c cs)
    let ?r = "fst (result_step alloc c r)"
    note step = result_step_sound [OF Cons.prems, of alloc c]
    then have IH: "result_wf (fst (result_run alloc cs ?r))"
        "mset (fds_held (fst (result_run alloc cs ?r))) + mset (snd (result_run alloc cs ?r))
          = mset (fds_held ?r) + mset (concat (map fds_given cs))"
      using Cons.IH [of ?r] by auto
    have "mset (fds_held (fst (result_run alloc (c # cs) r)))
        + mset (snd (result_run alloc (c # cs) r))
        = mset (fds_held ?r) + mset (snd (result_step alloc c r)) + mset (concat (map fds_given cs))"
      using IH(2) by (simp add: split_def Let_def ac_simps)
    with step IH(1) show ?case by (simp add: split_def Let_def)
  qed simp
  from this [of ksd_result_init] show ?thesis
    by (auto simp: split_def Let_def result_wf_def ksd_result_init_def fds_held_def wire_defs)
qed

end
