(* ===== verification/Kwin_Wire.thy ===== *)
theory Kwin_Wire
  imports Operation_Scope Byte_Codec
begin

text \<open>
  The lanes of the KWin channel (src/src/kwin_lanes.c, src/src/kwin_wire.h), the
  check that a message comes from the script this daemon started
  (src/src/kwin_peer.c), and the two text formats both sides share: fixed-width
  lowercase hex and decimals without leading zeros (src/src/kwin_envelope.c,
  src/src/kwin_jobs.c). A C string is the list of its bytes before the terminator;
  a pointer that may be NULL is an option.
\<close>

section \<open>Lanes\<close>

datatype ksd_kwin_lane = KSD_KWIN_LANE_FAST | KSD_KWIN_LANE_SLOW | KSD_KWIN_LANE_NONE

datatype ksd_kwin_cost = KSD_KWIN_COST_BOUNDED | KSD_KWIN_COST_UNBOUNDED | KSD_KWIN_COST_NONE

definition KSD_KWIN_OP_DEADLINE_MS :: u64 where
  [wire_defs]: "KSD_KWIN_OP_DEADLINE_MS = 2000"

definition KSD_KWIN_IDLE_REPLY_MS :: u32 where
  [wire_defs]: "KSD_KWIN_IDLE_REPLY_MS = 8000"

definition KSD_KWIN_JOBS_PER_REPLY_FAST :: nat where
  [wire_defs]: "KSD_KWIN_JOBS_PER_REPLY_FAST = 8"

definition KSD_KWIN_JOBS_PER_REPLY_SLOW :: nat where
  [wire_defs]: "KSD_KWIN_JOBS_PER_REPLY_SLOW = 1"

definition KSD_KWIN_MAX_DONE_PER_REPORT :: nat where
  [wire_defs]: "KSD_KWIN_MAX_DONE_PER_REPORT = 9"

definition KSD_KWIN_MAX_HEADER_BYTES :: nat where
  [wire_defs]: "KSD_KWIN_MAX_HEADER_BYTES = 8192"

definition KSD_KWIN_GENERATION_HEX :: nat where
  [wire_defs]: "KSD_KWIN_GENERATION_HEX = 32"

definition KSD_KWIN_SEQ_HEX :: nat where
  [wire_defs]: "KSD_KWIN_SEQ_HEX = 16"

definition ksd_kwin_lane_for :: "u16 \<Rightarrow> ksd_kwin_lane" where
  "ksd_kwin_lane_for opcode =
     (if opcode \<in> {KSD_OP_WINDOW_ACTIVE, KSD_OP_WINDOW_QUERY, KSD_OP_WINDOW_FOCUS,
        KSD_OP_WINDOW_RAISE, KSD_OP_WINDOW_LOWER, KSD_OP_WINDOW_CLOSE, KSD_OP_WINDOW_MOVE_RESIZE,
        KSD_OP_WINDOW_MOVE_RESIZE_XID, KSD_OP_WINDOW_SET_STATE, KSD_OP_WINDOW_SET_OPACITY,
        KSD_OP_WINDOW_SET_ABOVE, KSD_OP_WINDOW_SET_DECORATED, KSD_OP_WINDOW_SET_SKIP_TASKBAR,
        KSD_OP_CURSOR_POSITION, KSD_OP_WORK_AREA}
      then KSD_KWIN_LANE_FAST
      else if opcode \<in> {KSD_OP_WINDOW_LIST, KSD_OP_WINDOW_HANDLES} then KSD_KWIN_LANE_SLOW
      else KSD_KWIN_LANE_NONE)"

definition ksd_kwin_script_cost :: "u16 \<Rightarrow> ksd_kwin_cost" where
  "ksd_kwin_script_cost opcode =
     (case ksd_kwin_lane_for opcode of
        KSD_KWIN_LANE_FAST \<Rightarrow> KSD_KWIN_COST_BOUNDED
      | KSD_KWIN_LANE_SLOW \<Rightarrow> KSD_KWIN_COST_UNBOUNDED
      | KSD_KWIN_LANE_NONE \<Rightarrow> KSD_KWIN_COST_NONE)"

text \<open>The batch a reply of a lane may carry (kwin_jobs.c).\<close>

definition lane_capacity :: "ksd_kwin_lane \<Rightarrow> nat" where
  "lane_capacity lane =
     (if lane = KSD_KWIN_LANE_FAST then KSD_KWIN_JOBS_PER_REPLY_FAST
      else if lane = KSD_KWIN_LANE_SLOW then KSD_KWIN_JOBS_PER_REPLY_SLOW else 0)"

lemma lane_has_bit:
  "ksd_kwin_lane_for opcode \<noteq> KSD_KWIN_LANE_NONE \<Longrightarrow> ksd_operation_bit opcode \<noteq> 0"
  by (auto simp: ksd_kwin_lane_for_def ksd_operation_bit_def operation_bit_table_def wire_defs
      split: if_splits)

section \<open>Hexadecimal identifiers\<close>

definition hex_digit :: "u8 \<Rightarrow> bool" where
  "hex_digit b \<longleftrightarrow> 48 \<le> b \<and> b \<le> 57 \<or> 97 \<le> b \<and> b \<le> 102"

text \<open>
  The loop over \<open>n\<close> characters that \<open>generation_valid\<close>, \<open>valid_generation\<close>
  and \<open>valid_sequence\<close> share, and the test of the terminator after it. Reading
  index \<open>length s\<close> of a C string reads its terminator, which is no hex digit.
\<close>

definition hex_string :: "nat \<Rightarrow> bytes \<Rightarrow> bool" where
  "hex_string n s \<longleftrightarrow> (\<forall>i<n. hex_digit ((s @ [0]) ! i) \<and> i < length s) \<and> length s = n"

definition generation_valid :: "bytes option \<Rightarrow> bool" where
  "generation_valid generation =
     (case generation of None \<Rightarrow> False | Some g \<Rightarrow> hex_string KSD_KWIN_GENERATION_HEX g)"

definition valid_sequence :: "bytes option \<Rightarrow> bool" where
  "valid_sequence sequence =
     (case sequence of None \<Rightarrow> False | Some s \<Rightarrow> hex_string KSD_KWIN_SEQ_HEX s)"

lemma hex_string_iff: "hex_string n s \<longleftrightarrow> length s = n \<and> list_all hex_digit s"
  by (auto simp: hex_string_def list_all_length nth_append)

definition hex_alphabet :: bytes where
  "hex_alphabet = ascii ''0123456789abcdef''"

text \<open>The digit loop of \<open>append_hex\<close> and \<open>format_sequence\<close>.\<close>

definition hex_text :: "u64 \<Rightarrow> nat \<Rightarrow> bytes" where
  "hex_text value digits =
     map (\<lambda>index. hex_alphabet ! unat (drop_bit ((digits - 1 - index) * 4) value AND 0xF)) [0..<digits]"

definition format_sequence :: "u64 \<Rightarrow> bytes" where
  "format_sequence value = hex_text value KSD_KWIN_SEQ_HEX"

lemma hex_alphabet_props:
  "length hex_alphabet = 16" "distinct hex_alphabet" "list_all hex_digit hex_alphabet"
  by (simp_all add: hex_alphabet_def ascii_def hex_digit_def)

lemma nibble_less: "unat (v AND 0xF :: u64) < 16"
proof -
  have "v AND 0xF = take_bit 4 v" by (simp add: take_bit_eq_mask mask_numeral)
  then show ?thesis
    using take_bit_nat_less_exp [of 4 "unat v"] by (simp add: unsigned_take_bit_eq)
qed

lemma hex_text_hex: "hex_string digits (hex_text value digits)"
proof -
  have "hex_digit (hex_alphabet ! unat (v AND 0xF :: u64))" for v
    using hex_alphabet_props nibble_less [of v] by (simp add: list_all_length)
  then show ?thesis
    by (simp add: hex_string_iff hex_text_def list_all_length)
qed

lemma hex_text_nibble:
  assumes "hex_text v n = hex_text w n" "k < n"
  shows "drop_bit (k * 4) v AND 0xF = drop_bit (k * 4) w AND 0xF"
proof -
  have "hex_text v n ! (n - 1 - k) = hex_text w n ! (n - 1 - k)" using assms(1) by simp
  then have "hex_alphabet ! unat (drop_bit (k * 4) v AND 0xF)
      = hex_alphabet ! unat (drop_bit (k * 4) w AND 0xF)"
    using assms(2) by (simp add: hex_text_def)
  then have "unat (drop_bit (k * 4) v AND 0xF) = unat (drop_bit (k * 4) w AND 0xF)"
    using hex_alphabet_props nibble_less by (simp add: nth_eq_iff_index_eq)
  then show ?thesis by (simp add: word_unat_eq_iff)
qed

lemma format_sequence_inject: "format_sequence v = format_sequence w \<longleftrightarrow> v = w"
proof
  assume eq: "format_sequence v = format_sequence w"
  show "v = w"
  proof (rule bit_word_eqI)
    fix n
    assume "n < LENGTH(64)"
    then have k: "n div 4 < 16" by simp
    have "bit (drop_bit (n div 4 * 4) x AND 0xF :: u64) (n mod 4) = bit x n" for x
    proof -
      have "drop_bit (n div 4 * 4) x AND 0xF = take_bit 4 (drop_bit (n div 4 * 4) x)"
        by (simp add: take_bit_eq_mask mask_numeral)
      then show ?thesis by (simp add: bit_simps)
    qed
    then show "bit v n = bit w n"
      using hex_text_nibble [OF eq [unfolded format_sequence_def], of "n div 4"] k
      by (metis KSD_KWIN_SEQ_HEX_def)
  qed
qed simp

lemma length_format_sequence [simp]: "length (format_sequence v) = 16"
  by (simp add: format_sequence_def hex_text_def wire_defs)

lemma format_sequence_valid: "valid_sequence (Some (format_sequence v))"
  using hex_text_hex [of KSD_KWIN_SEQ_HEX v] by (simp add: valid_sequence_def format_sequence_def)

section \<open>Decimal numbers\<close>

text \<open>
  Reading: \<open>decimal\<close> of kwin_envelope.c. \<open>decimal_loop\<close> is its digit loop, with
  the overflow test on the 32-bit accumulator.
\<close>

fun decimal_loop :: "u32 \<Rightarrow> bytes \<Rightarrow> u32 option" where
  "decimal_loop parsed [] = Some parsed"
| "decimal_loop parsed (b # bs) =
     (if b < 48 \<or> b > 57 then None
      else if parsed > (0xFFFFFFFF - ucast (b - 48)) div 10 then None
      else decimal_loop (parsed * 10 + ucast (b - 48)) bs)"

definition decimal :: "bytes \<Rightarrow> u32 \<Rightarrow> u32 option" where
  "decimal start limit =
     (if length start = 0 \<or> length start > 10 then None
      else if length start > 1 \<and> start ! 0 = 48 then None
      else case decimal_loop 0 start of
        None \<Rightarrow> None
      | Some parsed \<Rightarrow> if parsed > limit then None else Some parsed)"

text \<open>
  Writing: \<open>append_decimal\<close>. \<open>digit_loop room value\<close> fills a 16-byte text
  from the low digit up and returns what it wrote and the value left over.
\<close>

fun digit_loop :: "nat \<Rightarrow> u32 \<Rightarrow> bytes \<times> u32" where
  "digit_loop 0 value = ([], value)"
| "digit_loop (Suc room) value =
     (if value = 0 then ([], value)
      else let (text, rest) = digit_loop room (value div 10)
           in (ucast (48 + value mod 10) # text, rest))"

definition append_decimal :: "(nat \<Rightarrow> bool) \<Rightarrow> u32 \<Rightarrow> ksd_buffer \<Rightarrow> bool \<times> ksd_buffer" where
  "append_decimal alloc value out =
     (if value = 0 then ksd_buffer_bytes alloc (ascii ''0'') out
      else let (text, value') = digit_loop 16 value
           in if value' \<noteq> 0 then (False, out) else ksd_buffer_bytes alloc (rev text) out)"

definition append_hex :: "(nat \<Rightarrow> bool) \<Rightarrow> u64 \<Rightarrow> nat \<Rightarrow> ksd_buffer \<Rightarrow> bool \<times> ksd_buffer" where
  "append_hex alloc value digits out =
     (if digits > 16 then (False, out) else ksd_buffer_bytes alloc (hex_text value digits) out)"

text \<open>The reference: the decimal digits of a number, most significant first.\<close>

fun nat_decimal :: "nat \<Rightarrow> bytes" where
  "nat_decimal n = (if n < 10 then [of_nat (48 + n)] else nat_decimal (n div 10) @ [of_nat (48 + n mod 10)])"

declare nat_decimal.simps [simp del]

definition decimal_text :: "u32 \<Rightarrow> bytes" where
  "decimal_text value = nat_decimal (unat value)"

lemma digit_ucast: "ucast (48 + v mod 10 :: u32) = (of_nat (48 + unat v mod 10) :: u8)"
proof -
  have "unat v mod 10 < 10" by simp
  then have "unat (48 + v mod 10) = 48 + unat v mod 10"
    by (simp add: unat_word_ariths unat_mod)
  then show ?thesis by (metis of_nat_unat)
qed

lemma digit_loop_eq:
  "unat v < 10 ^ n \<Longrightarrow> v \<noteq> 0 \<Longrightarrow> digit_loop n v = (rev (decimal_text v), 0)"
proof (induction n arbitrary: v)
  case (Suc n)
  have "unat v \<noteq> 0" using Suc.prems by (simp add: unat_eq_0)
  show ?case
  proof (cases "v div 10 = 0")
    case True
    then have small: "unat v < 10"
      using unat_div [of v 10] by simp
    then show ?thesis
      using True Suc.prems by (cases n) (simp_all add: decimal_text_def nat_decimal.simps digit_ucast)
  next
    case False
    have "unat (v div 10) < 10 ^ n" using Suc.prems(1) by (simp add: unat_div less_mult_imp_div_less mult.commute)
    moreover have "\<not> unat v < 10"
      using False unat_div [of v 10] unat_eq_zero [of "v div 10"] by auto
    ultimately show ?thesis
      using Suc.IH [of "v div 10"] False Suc.prems
      by (simp add: decimal_text_def nat_decimal.simps [of "unat v"] unat_div digit_ucast)
  qed
qed (simp add: unat_eq_zero)

definition digit :: "u8 \<Rightarrow> bool" where
  "digit b \<longleftrightarrow> 48 \<le> b \<and> b \<le> 57"

definition digits_value :: "nat \<Rightarrow> bytes \<Rightarrow> nat" where
  "digits_value a ds = foldl (\<lambda>a b. a * 10 + (unat b - 48)) a ds"

lemma digits_value_simps [simp]:
  "digits_value a [] = a" "digits_value a (b # bs) = digits_value (a * 10 + (unat b - 48)) bs"
  "digits_value a (bs @ [b]) = digits_value a bs * 10 + (unat b - 48)"
  by (simp_all add: digits_value_def)

lemma digits_value_ge: "a \<le> digits_value a ds"
proof (induction ds arbitrary: a)
  case (Cons d ds)
  have "a \<le> a * 10 + (unat d - 48)" by simp
  also have "\<dots> \<le> digits_value (a * 10 + (unat d - 48)) ds" by (rule Cons.IH)
  finally show ?case by simp
qed simp

lemma digit_unat: "digit b \<Longrightarrow> unat (b - 48) = unat b - 48 \<and> unat b - 48 < 10"
  by (auto simp: digit_def word_le_nat_alt unat_sub)

lemma decimal_step:
  assumes "digit b"
  shows "parsed > (0xFFFFFFFF - ucast (b - 48)) div (10 :: u32) \<longleftrightarrow>
      2 ^ 32 \<le> unat parsed * 10 + (unat b - 48)"
    and "unat parsed * 10 + (unat b - 48) < 2 ^ 32 \<Longrightarrow>
      unat (parsed * 10 + ucast (b - 48) :: u32) = unat parsed * 10 + (unat b - 48)"
proof -
  let ?d = "ucast (b - 48) :: u32"
  have d: "unat ?d = unat b - 48" "unat b - 48 < 10"
    using digit_unat [OF assms] by (simp_all add: unat_ucast_up)
  have "unat ((0xFFFFFFFF - ?d) div 10) = (0xFFFFFFFF - (unat b - 48)) div 10"
    using d by (simp add: unat_div unat_sub word_le_nat_alt)
  then show "parsed > (0xFFFFFFFF - ?d) div (10 :: u32) \<longleftrightarrow> 2 ^ 32 \<le> unat parsed * 10 + (unat b - 48)"
    using d(2) by (simp add: word_less_nat_alt) linarith
  show "unat (parsed * 10 + ?d) = unat parsed * 10 + (unat b - 48)"
    if "unat parsed * 10 + (unat b - 48) < 2 ^ 32"
    using that d(1) by (simp add: unat_word_ariths)
qed

lemma decimal_loop_iff:
  "decimal_loop p ds = Some v \<longleftrightarrow> list_all digit ds \<and> unat v = digits_value (unat p) ds"
proof (induction ds arbitrary: p)
  case Nil
  then show ?case by (auto simp: word_unat_eq_iff)
next
  case (Cons b ds)
  show ?case
  proof (cases "digit b \<and> unat p * 10 + (unat b - 48) < 2 ^ 32")
    case True
    then show ?thesis
      using Cons.IH decimal_step [of b p] by (auto simp: digit_def)
  next
    case False
    then show ?thesis
    proof (cases "digit b")
      case True
      with False have "2 ^ 32 \<le> digits_value (unat p * 10 + (unat b - 48)) ds"
        using digits_value_ge [of "unat p * 10 + (unat b - 48)" ds] by simp
      moreover have "unat v < 2 ^ 32" using unat_lt [of v] by simp
      ultimately show ?thesis using True False decimal_step(1) [of b p] by auto
    qed (auto simp: digit_def not_le)
  qed
qed

lemma nat_decimal_digits: "list_all digit (nat_decimal n) \<and> digits_value 0 (nat_decimal n) = n"
proof (induction n rule: nat_decimal.induct)
  case (1 n)
  have d: "digit (of_nat (48 + k))" "unat (of_nat (48 + k) :: u8) = 48 + k" if "k < 10" for k
    using that by (simp_all add: digit_def word_le_nat_alt unat_of_nat_small del: of_nat_add)
  show ?case
    using 1 d [of n] d [of "n mod 10"] by (simp add: nat_decimal.simps [of n] del: of_nat_add)
qed

lemma nat_decimal_shape: "nat_decimal n \<noteq> [] \<and> (1 < length (nat_decimal n) \<longrightarrow> hd (nat_decimal n) \<noteq> 48)"
proof (induction n rule: nat_decimal.induct)
  case (1 n)
  show ?case
  proof (cases "n < 10")
    case False
    let ?m = "nat_decimal (n div 10)"
    have IH: "?m \<noteq> []" "1 < length ?m \<Longrightarrow> hd ?m \<noteq> 48" using 1 False by auto
    have "hd ?m \<noteq> 48"
    proof (cases "length ?m = 1")
      case True
      then obtain d where d: "?m = [d]" by (auto simp: length_Suc_conv)
      then show ?thesis using nat_decimal_digits [of "n div 10"] False by auto
    next
      case long: False
      then have "1 < length ?m" using IH(1) by (metis length_0_conv less_one nat_neq_iff)
      then show ?thesis by (rule IH(2))
    qed
    then show ?thesis using IH(1) False by (simp add: nat_decimal.simps [of n])
  qed (simp add: nat_decimal.simps [of n])
qed

lemma nat_decimal_unique:
  "list_all digit ds \<Longrightarrow> ds \<noteq> [] \<Longrightarrow> (1 < length ds \<longrightarrow> hd ds \<noteq> 48) \<Longrightarrow> nat_decimal (digits_value 0 ds) = ds"
proof (induction ds rule: rev_induct)
  case (snoc d ds)
  have d: "unat d - 48 < 10" "of_nat (48 + (unat d - 48)) = d"
    using snoc.prems digit_unat [of d] by (simp_all add: digit_def word_le_nat_alt del: of_nat_add)
  show ?case
  proof (cases "ds = []")
    case True
    with d show ?thesis by (simp add: nat_decimal.simps del: of_nat_add)
  next
    case False
    then have hd: "hd ds \<noteq> 48" using snoc.prems by simp
    then have IH: "nat_decimal (digits_value 0 ds) = ds"
      using snoc False by simp
    have "0 < digits_value 0 ds"
    proof (rule ccontr)
      assume "\<not> 0 < digits_value 0 ds"
      then have "ds = [48]" using IH by (simp add: nat_decimal.simps)
      then show False using hd by simp
    qed
    then show ?thesis
      using d IH by (simp add: nat_decimal.simps [of "digits_value 0 ds * 10 + (unat d - 48)"] del: of_nat_add)
  qed
qed simp

lemma nat_decimal_length: "n < 10 ^ k \<Longrightarrow> k \<noteq> 0 \<Longrightarrow> length (nat_decimal n) \<le> k"
proof (induction n arbitrary: k rule: nat_decimal.induct)
  case (1 n)
  then show ?case
  proof (cases "n < 10")
    case False
    obtain j where k: "k = Suc j" using "1.prems"(2) by (cases k) auto
    have "j \<noteq> 0" using "1.prems"(1) False k by (cases j) auto
    note j = k this
    with 1 False have "length (nat_decimal (n div 10)) \<le> j"
      by (intro "1.IH") (auto simp: less_mult_imp_div_less mult.commute)
    with False j show ?thesis by (simp add: nat_decimal.simps [of n])
  qed (simp add: nat_decimal.simps [of n])
qed

lemma decimal_iff: "decimal s limit = Some v \<longleftrightarrow> s = decimal_text v \<and> v \<le> limit"
proof
  assume a: "decimal s limit = Some v"
  then have s: "s \<noteq> []" "1 < length s \<longrightarrow> hd s \<noteq> 48" "decimal_loop 0 s = Some v" "v \<le> limit"
    by (auto simp: decimal_def hd_conv_nth split: if_splits option.splits)
  then show "s = decimal_text v \<and> v \<le> limit"
    using nat_decimal_unique [of s] by (simp add: decimal_loop_iff decimal_text_def)
next
  assume a: "s = decimal_text v \<and> v \<le> limit"
  have "unat v < 10 ^ 10" using unat_lt [of v] by simp
  then have "length s \<le> 10" using nat_decimal_length [of "unat v" 10] a by (simp add: decimal_text_def)
  moreover have "decimal_loop 0 s = Some v"
    using nat_decimal_digits [of "unat v"] a by (simp add: decimal_loop_iff decimal_text_def)
  ultimately show "decimal s limit = Some v"
    using nat_decimal_shape [of "unat v"] a by (auto simp: decimal_def decimal_text_def hd_conv_nth)
qed

lemma decimal_text_inject [simp]: "decimal_text v = decimal_text w \<longleftrightarrow> v = w"
proof
  assume "decimal_text v = decimal_text w"
  then have "decimal (decimal_text v) (max v w) = Some w" by (simp add: decimal_iff)
  moreover have "decimal (decimal_text v) (max v w) = Some v" by (simp add: decimal_iff)
  ultimately show "v = w" by simp
qed simp

lemma decimal_text_parse: "decimal (decimal_text v) limit = (if v \<le> limit then Some v else None)"
proof (cases "v \<le> limit")
  case True
  then show ?thesis by (simp add: decimal_iff)
next
  case False
  then show ?thesis
    by (cases "decimal (decimal_text v) limit") (auto simp: decimal_iff)
qed

lemma append_decimal_eq: "append_decimal alloc v out = ksd_buffer_bytes alloc (decimal_text v) out"
proof (cases "v = 0")
  case True
  then show ?thesis by (simp add: append_decimal_def decimal_text_def nat_decimal.simps ascii_def)
next
  case False
  have "unat v < 10 ^ 16" using unat_lt [of v] by simp
  with digit_loop_eq [of v 16] False show ?thesis by (simp add: append_decimal_def)
qed

section \<open>The peer check\<close>

text \<open>The loop of \<open>unique_name_valid\<close> over the characters after the colon.\<close>

fun unique_name_loop :: "bytes \<Rightarrow> nat \<Rightarrow> nat \<Rightarrow> bool" where
  "unique_name_loop [] digits groups \<longleftrightarrow> groups \<ge> 1 \<and> digits > 0"
| "unique_name_loop (c # cs) digits groups \<longleftrightarrow>
     (if c = 46 then digits \<noteq> 0 \<and> unique_name_loop cs 0 (Suc groups)
      else if 48 \<le> c \<and> c \<le> 57 then unique_name_loop cs (Suc digits) groups
      else False)"

definition unique_name_valid :: "bytes option \<Rightarrow> bool" where
  "unique_name_valid name =
     (case name of Some (c # cs) \<Rightarrow> c = 58 \<and> unique_name_loop cs 0 0 | _ \<Rightarrow> False)"

definition ksd_kwin_peer_allowed ::
  "bytes option \<Rightarrow> bytes option \<Rightarrow> u32 \<Rightarrow> u32 \<Rightarrow> bytes option \<Rightarrow> bytes option \<Rightarrow> bool" where
  "ksd_kwin_peer_allowed expected_unique sender_unique expected_uid sender_uid
       expected_generation sender_generation =
     (if \<not> unique_name_valid expected_unique \<or> \<not> unique_name_valid sender_unique then False
      else if \<not> generation_valid expected_generation \<or> \<not> generation_valid sender_generation then False
      else if expected_uid \<noteq> sender_uid then False
      else if the expected_unique \<noteq> the sender_unique then False
      else take KSD_KWIN_GENERATION_HEX (the expected_generation)
             = take KSD_KWIN_GENERATION_HEX (the sender_generation))"

text \<open>The names the loop accepts: two or more dot-separated runs of digits.\<close>

fun dotted :: "bytes list \<Rightarrow> bytes" where
  "dotted [] = []"
| "dotted [g] = g"
| "dotted (g # gs) = g @ 46 # dotted gs"

lemma unique_name_loop_sound:
  "unique_name_loop cs d n \<Longrightarrow> \<exists>g gs. cs = dotted (g # gs) \<and> list_all digit g \<and> (g \<noteq> [] \<or> 0 < d)
     \<and> list_all (\<lambda>h. h \<noteq> [] \<and> list_all digit h) gs \<and> 1 \<le> n + length gs"
proof (induction cs d n rule: unique_name_loop.induct)
  case (1 digits groups)
  then show ?case by (intro exI [of _ "[]"] exI [of _ "[]"]) simp
next
  case (2 c cs digits groups)
  show ?case
  proof (cases "c = 46")
    case True
    with 2 obtain g gs where "cs = dotted (g # gs)" "list_all digit g" "g \<noteq> []"
        "list_all (\<lambda>h. h \<noteq> [] \<and> list_all digit h) gs" "0 < digits"
      by (auto split: if_splits)
    with True show ?thesis by (intro exI [of _ "[]"] exI [of _ "g # gs"]) simp
  next
    case False
    with 2 obtain g gs where *: "cs = dotted (g # gs)" "list_all digit g"
        "list_all (\<lambda>h. h \<noteq> [] \<and> list_all digit h) gs" "1 \<le> groups + length gs" "digit c"
      by (auto simp: digit_def [of c] split: if_splits)
    then show ?thesis by (intro exI [of _ "c # g"] exI [of _ gs]) (cases gs; simp)
  qed
qed

text \<open>
  Only the script's own connection is admitted. A peer is allowed exactly when
  its bus name, its uid and its generation are the expected ones, the name is a
  unique connection name (a colon and at least two dot-separated runs of digits,
  never a well-known name that could change hands) and the generation is 32
  lowercase hex digits.
\<close>

theorem peer_allowed_only:
  assumes "ksd_kwin_peer_allowed eu su euid suid eg sg"
  shows "su = eu \<and> suid = euid \<and> sg = eg
    \<and> (\<exists>gs. eu = Some (58 # dotted gs) \<and> 2 \<le> length gs \<and> list_all (\<lambda>h. h \<noteq> [] \<and> list_all digit h) gs)
    \<and> (\<exists>g. eg = Some g \<and> length g = 32 \<and> list_all hex_digit g)"
proof -
  from assms have v: "unique_name_valid eu" "unique_name_valid su" "generation_valid eg"
      "generation_valid sg" "euid = suid" "the eu = the su" "take 32 (the eg) = take 32 (the sg)"
    by (auto simp: ksd_kwin_peer_allowed_def wire_defs split: if_splits)
  from v(1,2,6) obtain cs where "eu = Some (58 # cs)" "su = eu" "unique_name_loop cs 0 0"
    by (auto simp: unique_name_valid_def split: option.splits list.splits)
  moreover from v(3,4,7) obtain g where "eg = Some g" "sg = eg" "length g = 32" "list_all hex_digit g"
    by (auto simp: generation_valid_def hex_string_iff wire_defs split: option.splits)
  moreover from unique_name_loop_sound [OF calculation(3)] obtain g gs where
      "cs = dotted (g # gs)" "list_all digit g" "g \<noteq> []"
      "list_all (\<lambda>h. h \<noteq> [] \<and> list_all digit h) gs" "1 \<le> length gs" by auto
  ultimately show ?thesis using v(5) by (intro conjI exI [of _ "g # gs"]) auto
qed

theorem peer_allowed_only_witness:
  "Some (ascii '':1.42'') = Some (58 # dotted [[49], [52, 50]])
   \<and> (\<exists>gs. Some (ascii '':1.42'') = Some (58 # dotted gs) \<and> 2 \<le> length gs)"
proof -
  have "ksd_kwin_peer_allowed (Some (ascii '':1.42'')) (Some (ascii '':1.42'')) 1000 1000
      (Some (replicate 32 97)) (Some (replicate 32 97))"
    by (simp add: ksd_kwin_peer_allowed_def unique_name_valid_def generation_valid_def hex_string_iff
        ascii_def wire_defs hex_digit_def list_all_iff)
  from peer_allowed_only [OF this] show ?thesis by (auto simp: ascii_def)
qed

end
