(* ===== verification/Kwin_Envelope.thy ===== *)
theory Kwin_Envelope
  imports Kwin_Wire "HOL-Library.Multiset"
begin

text \<open>
  The envelopes the KWin script and the daemon exchange (src/src/kwin_envelope.c):
  the line and token scanner, the parsers for polls and reports, and the two
  serialisers. The parsers fill a caller-owned structure that is only read when
  they return true; here they return it as an option. A report's bodies point into
  the caller's buffer; the model holds the bytes they point at.
\<close>

section \<open>Scanner\<close>

record scanner =
  sc_data :: bytes
  sc_offset :: nat

text \<open>
  \<open>line\<close>: the bytes up to the next newline, which is consumed. The offset never
  passes the length, so the code's \<open>offset == length\<close> is the \<open>\<ge>\<close> here.
\<close>

definition line :: "scanner \<Rightarrow> (bytes \<times> scanner) option" where
  "line scan =
     (let text = takeWhile (\<lambda>b. b \<noteq> 10) (drop (sc_offset scan) (sc_data scan));
          offset = sc_offset scan + length text
      in if offset \<ge> length (sc_data scan) then None
         else Some (text, scan\<lparr>sc_offset := offset + 1\<rparr>))"

text \<open>\<open>token\<close> on the rest of a line: the word and what follows the one space after it.\<close>

definition token :: "bytes \<Rightarrow> (bytes \<times> bytes) option" where
  "token cursor =
     (if cursor = [] \<or> hd cursor = 32 then None
      else let word = takeWhile (\<lambda>b. b \<noteq> 32) cursor
           in Some (word, tl (dropWhile (\<lambda>b. b \<noteq> 32) cursor)))"

definition keyword_is :: "bytes \<Rightarrow> string \<Rightarrow> bool" where
  "keyword_is word name \<longleftrightarrow> word = ascii name"

definition hex :: "bytes \<Rightarrow> nat \<Rightarrow> bytes option" where
  "hex start expected =
     (if length start \<noteq> expected then None
      else if list_all hex_digit start then Some start else None)"

definition magic_ok :: "scanner \<Rightarrow> scanner option" where
  "magic_ok scan =
     (case line scan of
        None \<Rightarrow> None
      | Some (text, scan') \<Rightarrow> if keyword_is text ''KSK1'' then Some scan' else None)"

lemma line_progress:
  "line scan = Some (text, scan') \<Longrightarrow> sc_offset scan < sc_offset scan' \<and> sc_data scan' = sc_data scan
     \<and> sc_offset scan' \<le> length (sc_data scan)"
  by (auto simp: line_def Let_def split: if_splits)

section \<open>Polls\<close>

record ksd_kwin_poll =
  poll_generation :: bytes
  poll_lane :: ksd_kwin_lane
  poll_round_trip_ms :: u32
  poll_lost :: u32

text \<open>The locals of \<open>ksd_kwin_parse_poll\<close>: the poll and which of its lines were seen.\<close>

record poll_locals =
  pl_poll :: ksd_kwin_poll
  have_generation :: bool
  have_lane :: bool
  have_round_trip :: bool
  have_lost :: bool

definition poll_locals_init :: poll_locals where
  "poll_locals_init = \<lparr>pl_poll = \<lparr>poll_generation = [], poll_lane = KSD_KWIN_LANE_FAST,
       poll_round_trip_ms = 0, poll_lost = 0\<rparr>,
     have_generation = False, have_lane = False, have_round_trip = False, have_lost = False\<rparr>"

text \<open>One \<open>keyword value\<close> line of a poll.\<close>

definition poll_field :: "bytes \<Rightarrow> bytes \<Rightarrow> poll_locals \<Rightarrow> poll_locals option" where
  "poll_field word value st =
     (let poll = pl_poll st in
      if keyword_is word ''gen'' then
        if have_generation st then None
        else case hex value KSD_KWIN_GENERATION_HEX of
          None \<Rightarrow> None
        | Some g \<Rightarrow> Some (st\<lparr>pl_poll := poll\<lparr>poll_generation := g\<rparr>, have_generation := True\<rparr>)
      else if keyword_is word ''lane'' then
        if have_lane st then None
        else if keyword_is value ''fast'' then
          Some (st\<lparr>pl_poll := poll\<lparr>poll_lane := KSD_KWIN_LANE_FAST\<rparr>, have_lane := True\<rparr>)
        else if keyword_is value ''slow'' then
          Some (st\<lparr>pl_poll := poll\<lparr>poll_lane := KSD_KWIN_LANE_SLOW\<rparr>, have_lane := True\<rparr>)
        else None
      else if keyword_is word ''rtt'' then
        if have_round_trip st then None
        else case decimal value 600000 of
          None \<Rightarrow> None
        | Some v \<Rightarrow> Some (st\<lparr>pl_poll := poll\<lparr>poll_round_trip_ms := v\<rparr>, have_round_trip := True\<rparr>)
      else if keyword_is word ''lost'' then
        if have_lost st then None
        else case decimal value 65535 of
          None \<Rightarrow> None
        | Some v \<Rightarrow> Some (st\<lparr>pl_poll := poll\<lparr>poll_lost := v\<rparr>, have_lost := True\<rparr>)
      else None)"

function (sequential) poll_lines :: "scanner \<Rightarrow> poll_locals \<Rightarrow> ksd_kwin_poll option" where
  "poll_lines scan st =
     (case line scan of
        None \<Rightarrow> None
      | Some (text, scan') \<Rightarrow>
          case token text of
            None \<Rightarrow> None
          | Some (word, cursor) \<Rightarrow>
              if keyword_is word ''end'' then
                if cursor = [] \<and> sc_offset scan' = length (sc_data scan') \<and> have_generation st
                   \<and> have_lane st \<and> have_round_trip st \<and> have_lost st
                then Some (pl_poll st) else None
              else case token cursor of
                None \<Rightarrow> None
              | Some (value, cursor') \<Rightarrow>
                  if cursor' \<noteq> [] then None
                  else case poll_field word value st of
                    None \<Rightarrow> None
                  | Some st' \<Rightarrow> poll_lines scan' st')"
  by pat_completeness auto
termination
  by (relation "measure (\<lambda>(scan, _). length (sc_data scan) - sc_offset scan)")
     (auto dest!: line_progress)

declare poll_lines.simps [simp del]

definition ksd_kwin_parse_poll :: "bytes option \<Rightarrow> ksd_kwin_poll option" where
  "ksd_kwin_parse_poll data =
     (case data of
        None \<Rightarrow> None
      | Some d \<Rightarrow>
          if length d > KSD_KWIN_MAX_HEADER_BYTES then None
          else case magic_ok \<lparr>sc_data = d, sc_offset = 0\<rparr> of
            None \<Rightarrow> None
          | Some scan \<Rightarrow> poll_lines scan poll_locals_init)"

subsection \<open>Scanner laws\<close>

definition sc_rest :: "scanner \<Rightarrow> bytes" where
  "sc_rest scan = drop (sc_offset scan) (sc_data scan)"

lemma line_Some:
  assumes "line scan = Some (text, scan')"
  shows "sc_rest scan = text @ 10 # sc_rest scan' \<and> 10 \<notin> set text
    \<and> sc_data scan' = sc_data scan \<and> sc_offset scan' = sc_offset scan + length text + 1"
proof -
  let ?r = "sc_rest scan" and ?t = "takeWhile (\<lambda>b. b \<noteq> 10) (sc_rest scan)"
  from assms have a: "text = ?t" "scan' = scan\<lparr>sc_offset := sc_offset scan + length ?t + 1\<rparr>"
      "sc_offset scan + length ?t < length (sc_data scan)"
    by (auto simp: line_def sc_rest_def Let_def split: if_splits)
  have "length ?t < length ?r" using a(3) by (simp add: sc_rest_def)
  then have "dropWhile (\<lambda>b. b \<noteq> 10) ?r \<noteq> []"
    by (metis append.right_neutral less_irrefl takeWhile_dropWhile_id)
  then have "?r ! length ?t = 10"
    by (metis (mono_tags, lifting) \<open>length ?t < length ?r\<close> nth_length_takeWhile)
  then have "?r = ?t @ 10 # drop (Suc (length ?t)) ?r"
    using \<open>length ?t < length ?r\<close> by (metis id_take_nth_drop takeWhile_eq_take)
  moreover have "10 \<notin> set ?t" by (auto dest: set_takeWhileD)
  ultimately show ?thesis using a by (simp add: sc_rest_def add.commute)
qed

lemma line_append:
  assumes "sc_rest scan = text @ 10 # r" "10 \<notin> set text" "sc_offset scan \<le> length (sc_data scan)"
  shows "\<exists>scan'. line scan = Some (text, scan') \<and> sc_rest scan' = r \<and> sc_data scan' = sc_data scan
    \<and> sc_offset scan' = sc_offset scan + length text + 1 \<and> sc_offset scan' \<le> length (sc_data scan')"
proof -
  have len: "length (sc_data scan) = sc_offset scan + length text + 1 + length r"
    using arg_cong [OF assms(1), of length] assms(3) by (simp add: sc_rest_def)
  have "takeWhile (\<lambda>b. b \<noteq> 10) (sc_rest scan) = text"
    using assms(1,2) by simp
  moreover have "drop (Suc (length text)) (sc_rest scan) = r" using assms(1) by simp
  ultimately show ?thesis
    using len by (auto simp: line_def sc_rest_def Let_def add.commute)
qed

lemma token_iff:
  "token s = Some (w, r) \<longleftrightarrow> w \<noteq> [] \<and> 32 \<notin> set w \<and> (s = w \<and> r = [] \<or> s = w @ 32 # r)"
proof (cases rule: scan_to_cases [of 32 s])
  case none
  then have "s \<noteq> w @ 32 # r" by auto
  with none show ?thesis by (cases s) (auto simp: token_def)
next
  case (found v t)
  show ?thesis
  proof (cases "32 \<in> set w")
    case False
    have "s \<noteq> w" using found(1) False by auto
    with False found scan_unique [OF found(2) False, of t r] show ?thesis
      by (cases v) (auto simp: token_def)
  qed (use found in \<open>auto simp: token_def\<close>)
qed

text \<open>
  The last token of a line may be followed by one space, which \<open>token\<close> consumes:
  the pad of a line is empty or one space.
\<close>

definition pad :: "bool \<Rightarrow> bytes" where
  "pad p = (if p then [32] else [])"

lemma token_last: "token s = Some (w, []) \<longleftrightarrow> w \<noteq> [] \<and> 32 \<notin> set w \<and> (\<exists>p. s = w @ pad p)"
  by (auto simp: token_iff pad_def)

subsection \<open>The grammar of a poll\<close>

definition lane_name :: "ksd_kwin_lane \<Rightarrow> bytes" where
  "lane_name lane = (if lane = KSD_KWIN_LANE_FAST then ascii ''fast'' else ascii ''slow'')"

definition field_line :: "string \<Rightarrow> bytes \<Rightarrow> bytes" where
  "field_line name value = ascii name @ 32 # value"

definition poll_valid :: "ksd_kwin_poll \<Rightarrow> bool" where
  "poll_valid p \<longleftrightarrow> length (poll_generation p) = 32 \<and> list_all hex_digit (poll_generation p)
     \<and> poll_lane p \<noteq> KSD_KWIN_LANE_NONE \<and> poll_round_trip_ms p \<le> 600000 \<and> poll_lost p \<le> 65535"

text \<open>The lines of a poll \<open>p\<close> the parser has yet to see in the state \<open>st\<close>.\<close>

definition pending_lines :: "poll_locals \<Rightarrow> ksd_kwin_poll \<Rightarrow> bytes list" where
  "pending_lines st p =
     (if have_generation st then [] else [field_line ''gen'' (poll_generation p)])
   @ (if have_lane st then [] else [field_line ''lane'' (lane_name (poll_lane p))])
   @ (if have_round_trip st then [] else [field_line ''rtt'' (decimal_text (poll_round_trip_ms p))])
   @ (if have_lost st then [] else [field_line ''lost'' (decimal_text (poll_lost p))])"

definition agrees :: "poll_locals \<Rightarrow> ksd_kwin_poll \<Rightarrow> bool" where
  "agrees st p \<longleftrightarrow>
     (have_generation st \<longrightarrow> poll_generation (pl_poll st) = poll_generation p)
   \<and> (have_lane st \<longrightarrow> poll_lane (pl_poll st) = poll_lane p)
   \<and> (have_round_trip st \<longrightarrow> poll_round_trip_ms (pl_poll st) = poll_round_trip_ms p)
   \<and> (have_lost st \<longrightarrow> poll_lost (pl_poll st) = poll_lost p)"

lemma poll_field_gen:
  "poll_field (ascii ''gen'') value st = Some st' \<longleftrightarrow> \<not> have_generation st \<and> length value = 32
     \<and> list_all hex_digit value
     \<and> st' = st\<lparr>pl_poll := pl_poll st\<lparr>poll_generation := value\<rparr>, have_generation := True\<rparr>"
  by (auto simp: poll_field_def keyword_is_def hex_def wire_defs split: if_splits)

lemma poll_field_lane:
  "poll_field (ascii ''lane'') value st = Some st' \<longleftrightarrow> \<not> have_lane st
     \<and> (\<exists>lane. lane \<noteq> KSD_KWIN_LANE_NONE \<and> value = lane_name lane
          \<and> st' = st\<lparr>pl_poll := pl_poll st\<lparr>poll_lane := lane\<rparr>, have_lane := True\<rparr>)"
proof -
  have ex: "(\<exists>lane. lane \<noteq> KSD_KWIN_LANE_NONE \<and> Q lane) \<longleftrightarrow> Q KSD_KWIN_LANE_FAST \<or> Q KSD_KWIN_LANE_SLOW" for Q
    by (metis ksd_kwin_lane.exhaust ksd_kwin_lane.distinct(3,5))
  show ?thesis
    unfolding ex by (auto simp: poll_field_def keyword_is_def lane_name_def ascii_def Let_def split: if_splits)
qed

lemma poll_field_rtt:
  "poll_field (ascii ''rtt'') value st = Some st' \<longleftrightarrow> \<not> have_round_trip st
     \<and> (\<exists>v\<le>600000. value = decimal_text v
          \<and> st' = st\<lparr>pl_poll := pl_poll st\<lparr>poll_round_trip_ms := v\<rparr>, have_round_trip := True\<rparr>)"
  by (auto simp: poll_field_def keyword_is_def ascii_def decimal_iff decimal_text_parse split: option.splits)

lemma poll_field_lost:
  "poll_field (ascii ''lost'') value st = Some st' \<longleftrightarrow> \<not> have_lost st
     \<and> (\<exists>v\<le>65535. value = decimal_text v
          \<and> st' = st\<lparr>pl_poll := pl_poll st\<lparr>poll_lost := v\<rparr>, have_lost := True\<rparr>)"
  by (auto simp: poll_field_def keyword_is_def ascii_def decimal_iff decimal_text_parse split: option.splits)

lemmas poll_fields = poll_field_gen poll_field_lane poll_field_rtt poll_field_lost

lemma poll_field_word:
  "poll_field word value st = Some st' \<Longrightarrow>
     word \<in> {ascii ''gen'', ascii ''lane'', ascii ''rtt'', ascii ''lost''}"
  by (auto simp: poll_field_def keyword_is_def Let_def split: if_splits)

lemma poll_field_sound:
  assumes "poll_field word value st = Some st'" "agrees st' p"
  shows "agrees st p \<and> mset (pending_lines st p) = add_mset (word @ 32 # value) (mset (pending_lines st' p))"
  using poll_field_word [OF assms(1)] assms
  by (elim insertE emptyE; simp only: poll_fields; elim conjE exE)
     (simp_all add: agrees_def pending_lines_def field_line_def)

lemma poll_field_complete:
  assumes "agrees st p" "poll_valid p" "l \<in> set (pending_lines st p)"
  obtains word val st' where "l = word @ 32 # val" "poll_field word val st = Some st'"
    "agrees st' p" "mset (pending_lines st p) = add_mset l (mset (pending_lines st' p))"
proof -
  from assms(3) consider
      (g) "\<not> have_generation st" "l = field_line ''gen'' (poll_generation p)"
    | (l) "\<not> have_lane st" "l = field_line ''lane'' (lane_name (poll_lane p))"
    | (r) "\<not> have_round_trip st" "l = field_line ''rtt'' (decimal_text (poll_round_trip_ms p))"
    | (o) "\<not> have_lost st" "l = field_line ''lost'' (decimal_text (poll_lost p))"
    by (auto simp: pending_lines_def split: if_splits)
  then show thesis
  proof cases
    case g
    show thesis
      by (rule that [of "ascii ''gen''" "poll_generation p"
            "st\<lparr>pl_poll := pl_poll st\<lparr>poll_generation := poll_generation p\<rparr>, have_generation := True\<rparr>"])
         (use g assms in \<open>simp_all add: poll_fields poll_valid_def agrees_def pending_lines_def field_line_def\<close>)
  next
    case l
    show thesis
      by (rule that [of "ascii ''lane''" "lane_name (poll_lane p)"
            "st\<lparr>pl_poll := pl_poll st\<lparr>poll_lane := poll_lane p\<rparr>, have_lane := True\<rparr>"])
         (use l assms in \<open>auto simp: poll_fields poll_valid_def agrees_def pending_lines_def field_line_def\<close>)
  next
    case r
    show thesis
      by (rule that [of "ascii ''rtt''" "decimal_text (poll_round_trip_ms p)"
            "st\<lparr>pl_poll := pl_poll st\<lparr>poll_round_trip_ms := poll_round_trip_ms p\<rparr>, have_round_trip := True\<rparr>"])
         (use r assms in \<open>auto simp: poll_fields poll_valid_def agrees_def pending_lines_def field_line_def\<close>)
  next
    case o
    show thesis
      by (rule that [of "ascii ''lost''" "decimal_text (poll_lost p)"
            "st\<lparr>pl_poll := pl_poll st\<lparr>poll_lost := poll_lost p\<rparr>, have_lost := True\<rparr>"])
         (use o assms in \<open>auto simp: poll_fields poll_valid_def agrees_def pending_lines_def field_line_def\<close>)
  qed
qed

text \<open>Lines with their pads, and the terminating \<open>end\<close> line.\<close>

definition padded_lines :: "(bytes \<times> bool) list \<Rightarrow> bytes" where
  "padded_lines ls = concat (map (\<lambda>(l, p). l @ pad p @ [10]) ls)"

definition end_line :: "bool \<Rightarrow> bytes" where
  "end_line p = ascii ''end'' @ pad p @ [10]"

lemma padded_lines_simps [simp]:
  "padded_lines [] = []" "padded_lines ((l, p) # ls) = l @ pad p @ 10 # padded_lines ls"
  by (simp_all add: padded_lines_def)

lemma set_pad: "set (pad p) \<subseteq> {32}"
  by (auto simp: pad_def)

lemma poll_lines_sound:
  "poll_lines scan st = Some p \<Longrightarrow> poll_valid p \<Longrightarrow>
     agrees st p \<and> (\<exists>ls e. mset (map fst ls) = mset (pending_lines st p) \<and>
       sc_rest scan = padded_lines ls @ end_line e)"
proof (induction scan st rule: poll_lines.induct)
  case (1 scan st)
  from "1.prems"(1) obtain ln scan' word cursor where
    l: "line scan = Some (ln, scan')" and t: "token ln = Some (word, cursor)"
    by (subst (asm) poll_lines.simps) (auto split: option.splits)
  note rest = line_Some [OF l]
  show ?case
  proof (cases "keyword_is word ''end''")
    case True
    with "1.prems"(1) l t have e: "cursor = []" "sc_offset scan' = length (sc_data scan')"
        "have_generation st" "have_lane st" "have_round_trip st" "have_lost st" "p = pl_poll st"
      by (subst (asm) poll_lines.simps, auto split: if_splits)+
    then obtain q where "ln = ascii ''end'' @ pad q"
      using t True by (auto simp: token_last keyword_is_def)
    then have "sc_rest scan = end_line q"
      using rest e(2) by (simp add: end_line_def sc_rest_def)
    then show ?thesis
      using e by (auto simp: agrees_def pending_lines_def intro!: exI [of _ "[]"])
  next
    case False
    with "1.prems"(1) l t obtain val st' where
      v: "token cursor = Some (val, [])" "poll_field word val st = Some st'" "poll_lines scan' st' = Some p"
      by (subst (asm) poll_lines.simps) (auto split: option.splits if_splits)
    from "1.IH" [OF l _ t _ False v(1) _ _ v(2) v(3)] "1.prems"(2) obtain ls e where IH:
      "agrees st' p" "mset (map fst ls) = mset (pending_lines st' p)"
      "sc_rest scan' = padded_lines ls @ end_line e" by auto
    note s = poll_field_sound [OF v(2) IH(1)]
    from v(1) obtain q where q: "val \<noteq> []" "cursor = val @ pad q" by (auto simp: token_last)
    then have "ln = (word @ 32 # val) @ pad q" using t by (auto simp: token_iff)
    then have "sc_rest scan = padded_lines ((word @ 32 # val, q) # ls) @ end_line e"
      using rest IH(3) by simp
    then show ?thesis using s IH(2) by (intro conjI exI [of _ "(word @ 32 # val, q) # ls"]) auto
  qed
qed

lemma pending_no_newline:
  assumes "poll_valid p" "l \<in> set (pending_lines st p)"
  shows "10 \<notin> set l \<and> (\<exists>w v. l = w @ 32 # v \<and> w \<noteq> [] \<and> v \<noteq> [] \<and> 32 \<notin> set w \<and> 32 \<notin> set v \<and> w \<noteq> ascii ''end'')"
proof -
  have hex: "10 \<notin> set (poll_generation p) \<and> 32 \<notin> set (poll_generation p) \<and> poll_generation p \<noteq> []"
    using assms(1) by (auto simp: poll_valid_def list_all_iff hex_digit_def)
  have dec: "10 \<notin> set (decimal_text v) \<and> 32 \<notin> set (decimal_text v) \<and> decimal_text v \<noteq> []" for v
    using nat_decimal_digits [of "unat v"] nat_decimal_shape [of "unat v"]
    by (auto simp: decimal_text_def list_all_iff digit_def)
  have lane: "10 \<notin> set (lane_name l) \<and> 32 \<notin> set (lane_name l) \<and> lane_name l \<noteq> []" for l
    by (simp add: lane_name_def ascii_def)
  from assms(2) obtain name v where l: "l = ascii name @ 32 # v" "name \<in> {''gen'', ''lane'', ''rtt'', ''lost''}"
      "10 \<notin> set v \<and> 32 \<notin> set v \<and> v \<noteq> []"
    using hex dec lane by (auto simp: pending_lines_def field_line_def split: if_splits)
  then have "ascii name \<noteq> [] \<and> 10 \<notin> set (ascii name) \<and> 32 \<notin> set (ascii name) \<and> ascii name \<noteq> ascii ''end''"
    by (auto simp: ascii_def)
  with l show ?thesis by auto
qed

lemma poll_lines_complete:
  "agrees st p \<Longrightarrow> poll_valid p \<Longrightarrow> mset (map fst ls) = mset (pending_lines st p) \<Longrightarrow>
     sc_offset scan \<le> length (sc_data scan) \<Longrightarrow>
     sc_rest scan = padded_lines ls @ end_line e \<Longrightarrow> poll_lines scan st = Some p"
proof (induction ls arbitrary: scan st)
  case Nil
  then have all: "have_generation st" "have_lane st" "have_round_trip st" "have_lost st"
    by (auto simp: pending_lines_def split: if_splits)
  have "sc_rest scan = (ascii ''end'' @ pad e) @ 10 # []" using Nil by (simp add: end_line_def)
  moreover have "10 \<notin> set (ascii ''end'' @ pad e)" by (simp add: ascii_def pad_def)
  ultimately obtain scan' where s: "line scan = Some (ascii ''end'' @ pad e, scan')" "sc_rest scan' = []"
      "sc_offset scan' \<le> length (sc_data scan')"
    using line_append Nil.prems(4) by metis
  have "token (ascii ''end'' @ pad e) = Some (ascii ''end'', [])"
    by (auto simp: token_last ascii_def)
  moreover have "p = pl_poll st" using Nil.prems(1) all by (simp add: agrees_def)
  ultimately show ?case
    using s all by (simp add: poll_lines.simps [of scan] keyword_is_def sc_rest_def)
next
  case (Cons lp ls)
  obtain l q where lp: "lp = (l, q)" by (cases lp)
  then have l: "l \<in> set (pending_lines st p)" using Cons.prems(3) by (metis list.set_intros(1) list.simps(9) fst_conv set_mset_mset)
  from poll_field_complete [OF Cons.prems(1,2) l] obtain word val st' where
    f: "l = word @ 32 # val" "poll_field word val st = Some st'" "agrees st' p"
       "mset (pending_lines st p) = add_mset l (mset (pending_lines st' p))" .
  from pending_no_newline [OF Cons.prems(2) l] obtain w v where
    w: "10 \<notin> set l" "l = w @ 32 # v" "w \<noteq> []" "v \<noteq> []" "32 \<notin> set w" "32 \<notin> set v" "w \<noteq> ascii ''end''" by auto
  have "word = w \<and> val = v"
  proof -
    have "32 \<notin> set word" using poll_field_word [OF f(2)] by (auto simp: ascii_def)
    then show ?thesis using f(1) w(2,5) scan_unique [of 32 word w val v] by simp
  qed
  note w = w [folded this [THEN conjunct1] this [THEN conjunct2]]
  have "sc_rest scan = (l @ pad q) @ 10 # (padded_lines ls @ end_line e)"
    using Cons.prems(5) lp by simp
  moreover have "10 \<notin> set (l @ pad q)" using w(1) by (simp add: pad_def)
  ultimately obtain scan' where s: "line scan = Some (l @ pad q, scan')"
      "sc_rest scan' = padded_lines ls @ end_line e" "sc_offset scan' \<le> length (sc_data scan')"
    using line_append Cons.prems(4) by metis
  have "token (l @ pad q) = Some (word, val @ pad q)" using w by (simp add: token_iff)
  moreover have "token (val @ pad q) = Some (val, [])" using w by (auto simp: token_last)
  moreover have "mset (map fst ls) = mset (pending_lines st' p)"
    using Cons.prems(3) f(4) lp by simp
  from Cons.IH [OF f(3) Cons.prems(2) this s(3,2)] have "poll_lines scan' st' = Some p" .
  ultimately show ?case
    using s f(2) w(7) by (simp add: poll_lines.simps [of scan] keyword_is_def)
qed

definition locals_valid :: "poll_locals \<Rightarrow> bool" where
  "locals_valid st \<longleftrightarrow>
     (have_generation st \<longrightarrow> length (poll_generation (pl_poll st)) = 32
        \<and> list_all hex_digit (poll_generation (pl_poll st)))
   \<and> (have_lane st \<longrightarrow> poll_lane (pl_poll st) \<noteq> KSD_KWIN_LANE_NONE)
   \<and> (have_round_trip st \<longrightarrow> poll_round_trip_ms (pl_poll st) \<le> 600000)
   \<and> (have_lost st \<longrightarrow> poll_lost (pl_poll st) \<le> 65535)"

lemma poll_field_locals:
  "poll_field word val st = Some st' \<Longrightarrow> locals_valid st \<Longrightarrow> locals_valid st'"
  by (frule poll_field_word; elim insertE emptyE; simp only: poll_fields; elim conjE exE)
     (simp_all add: locals_valid_def)

lemma poll_lines_valid: "poll_lines scan st = Some p \<Longrightarrow> locals_valid st \<Longrightarrow> poll_valid p"
proof (induction scan st rule: poll_lines.induct)
  case (1 scan st)
  from "1.prems"(1) obtain ln scan' word cursor where
    l: "line scan = Some (ln, scan')" and t: "token ln = Some (word, cursor)"
    by (subst (asm) poll_lines.simps) (auto split: option.splits)
  show ?case
  proof (cases "keyword_is word ''end''")
    case True
    with "1.prems" l t show ?thesis
      by (subst (asm) poll_lines.simps) (auto simp: poll_valid_def locals_valid_def split: if_splits)
  next
    case False
    with "1.prems"(1) l t obtain val st' where
      v: "token cursor = Some (val, [])" "poll_field word val st = Some st'" "poll_lines scan' st' = Some p"
      by (subst (asm) poll_lines.simps) (auto split: option.splits if_splits)
    from "1.IH" [OF l _ t _ False v(1) _ _ v(2) v(3)] poll_field_locals [OF v(2) "1.prems"(2)]
    show ?thesis by auto
  qed
qed

lemma magic_ok_iff:
  "magic_ok \<lparr>sc_data = d, sc_offset = 0\<rparr> = Some scan \<longleftrightarrow>
     (\<exists>r. d = ascii ''KSK1'' @ 10 # r) \<and> scan = \<lparr>sc_data = d, sc_offset = 5\<rparr>"
proof
  assume "magic_ok \<lparr>sc_data = d, sc_offset = 0\<rparr> = Some scan"
  then have l: "line \<lparr>sc_data = d, sc_offset = 0\<rparr> = Some (ascii ''KSK1'', scan)"
    by (auto simp: magic_ok_def keyword_is_def split: option.splits if_splits)
  have "sc_rest \<lparr>sc_data = d, sc_offset = 0\<rparr> = d" by (simp add: sc_rest_def)
  with line_Some [OF l] have "d = ascii ''KSK1'' @ 10 # sc_rest scan" "sc_data scan = d" "sc_offset scan = 5"
    by simp_all
  then show "(\<exists>r. d = ascii ''KSK1'' @ 10 # r) \<and> scan = \<lparr>sc_data = d, sc_offset = 5\<rparr>"
    by (intro conjI exI) (assumption, cases scan, simp)
next
  assume a: "(\<exists>r. d = ascii ''KSK1'' @ 10 # r) \<and> scan = \<lparr>sc_data = d, sc_offset = 5\<rparr>"
  then obtain r where "d = ascii ''KSK1'' @ 10 # r" by blast
  moreover have "10 \<notin> set (ascii ''KSK1'')" by (simp add: ascii_def)
  ultimately obtain scan' where "line \<lparr>sc_data = d, sc_offset = 0\<rparr> = Some (ascii ''KSK1'', scan')"
      "sc_data scan' = d" "sc_offset scan' = 5"
    using line_append [of "\<lparr>sc_data = d, sc_offset = 0\<rparr>" "ascii ''KSK1''" r] by (auto simp: sc_rest_def)
  with a show "magic_ok \<lparr>sc_data = d, sc_offset = 0\<rparr> = Some scan"
    by (cases scan') (simp add: magic_ok_def keyword_is_def)
qed

lemma parse_poll_valid: "ksd_kwin_parse_poll d = Some p \<Longrightarrow> poll_valid p"
  using poll_lines_valid [of _ poll_locals_init p]
  by (auto simp: ksd_kwin_parse_poll_def locals_valid_def poll_locals_init_def split: option.splits if_splits)

text \<open>
  The poll parser accepts exactly one grammar. A byte string parses to a poll
  \<open>p\<close> if and only if it is at most 8192 bytes: the magic line, the four lines
  \<open>gen\<close>, \<open>lane\<close>, \<open>rtt\<close> and \<open>lost\<close> of \<open>p\<close> each exactly once in any order
  with canonical values in range, and the \<open>end\<close> line with nothing after it. The
  only freedom is one optional space before each newline after the magic.
\<close>

theorem parse_poll_grammar:
  "ksd_kwin_parse_poll (Some d) = Some p \<longleftrightarrow>
     poll_valid p \<and> length d \<le> KSD_KWIN_MAX_HEADER_BYTES
   \<and> (\<exists>ls e. mset (map fst ls) =
          {#field_line ''gen'' (poll_generation p), field_line ''lane'' (lane_name (poll_lane p)),
            field_line ''rtt'' (decimal_text (poll_round_trip_ms p)),
            field_line ''lost'' (decimal_text (poll_lost p))#}
        \<and> d = ascii ''KSK1'' @ 10 # padded_lines ls @ end_line e)"
  (is "?parse \<longleftrightarrow> _ \<and> _ \<and> (\<exists>ls e. ?lines ls \<and> ?text ls e)")
proof -
  let ?scan = "\<lparr>sc_data = d, sc_offset = 5\<rparr>"
  have init: "agrees poll_locals_init p" "locals_valid poll_locals_init"
    by (simp_all add: agrees_def locals_valid_def poll_locals_init_def)
  have pend: "mset (pending_lines poll_locals_init p) =
      {#field_line ''gen'' (poll_generation p), field_line ''lane'' (lane_name (poll_lane p)),
        field_line ''rtt'' (decimal_text (poll_round_trip_ms p)),
        field_line ''lost'' (decimal_text (poll_lost p))#}"
    by (simp add: pending_lines_def poll_locals_init_def)
  have "?parse \<longleftrightarrow> length d \<le> KSD_KWIN_MAX_HEADER_BYTES
      \<and> (\<exists>r. d = ascii ''KSK1'' @ 10 # r) \<and> poll_lines ?scan poll_locals_init = Some p"
    using magic_ok_iff [of d]
    by (auto simp: ksd_kwin_parse_poll_def split: if_splits option.splits)
       (metis option.distinct(1))
  moreover have "sc_rest ?scan = r" if "d = ascii ''KSK1'' @ 10 # r" for r
    using that by (simp add: sc_rest_def ascii_def)
  moreover have "sc_offset ?scan \<le> length (sc_data ?scan)" if "d = ascii ''KSK1'' @ 10 # r" for r
    using that by simp
  ultimately show ?thesis
    using poll_lines_valid [OF _ init(2), of ?scan p] poll_lines_sound [of ?scan poll_locals_init p]
      poll_lines_complete [OF init(1), of _ ?scan] pend by auto
qed

definition sample_poll :: ksd_kwin_poll where
  "sample_poll = \<lparr>poll_generation = replicate 32 97, poll_lane = KSD_KWIN_LANE_SLOW,
     poll_round_trip_ms = 12, poll_lost = 0\<rparr>"

theorem parse_poll_grammar_witness:
  "ksd_kwin_parse_poll (Some (ascii ''KSK1'' @ 10 # ascii ''lane slow'' @ 10 # ascii ''rtt 12'' @ 10 #
     (ascii ''gen '' @ replicate 32 97) @ 10 # ascii ''lost 0 '' @ 10 # ascii ''end'' @ [10])) = Some sample_poll"
  (is "ksd_kwin_parse_poll (Some ?d) = _")
proof -
  have dec: "decimal_text 12 = ascii ''12''" "decimal_text 0 = ascii ''0''"
    by (simp_all add: decimal_text_def nat_decimal.simps ascii_def)
  let ?ls = "[(ascii ''lane slow'', False), (ascii ''rtt 12'', False),
      (ascii ''gen '' @ replicate 32 97, False), (ascii ''lost 0'', True)]"
  have "mset (map fst ?ls) = {#field_line ''gen'' (poll_generation sample_poll),
      field_line ''lane'' (lane_name (poll_lane sample_poll)),
      field_line ''rtt'' (decimal_text (poll_round_trip_ms sample_poll)),
      field_line ''lost'' (decimal_text (poll_lost sample_poll))#}"
    by (simp add: sample_poll_def field_line_def dec lane_name_def ascii_def add_mset_commute)
  moreover have "?d = ascii ''KSK1'' @ 10 # padded_lines ?ls @ end_line False"
    by (simp add: pad_def end_line_def ascii_def)
  moreover have "poll_valid sample_poll"
    by (simp add: sample_poll_def poll_valid_def list_all_iff hex_digit_def)
  moreover have "length ?d \<le> KSD_KWIN_MAX_HEADER_BYTES" by (simp add: wire_defs)
  ultimately show ?thesis
    using parse_poll_grammar [of ?d sample_poll, THEN iffD2] by blast
qed

end
