(* ===== verification/Kwin_Report.thy ===== *)
theory Kwin_Report
  imports Kwin_Envelope
begin

text \<open>
  Reports of the KWin script and what the daemon writes back
  (src/src/kwin_envelope.c, second half): the report parser, whose bodies must
  fill exactly what follows the header, and the serialisers of the poll reply and
  of the report acknowledgement.
\<close>

section \<open>Parsing a report\<close>

record ksd_kwin_done =
  dn_sequence :: bytes
  dn_status :: u32
  dn_body :: bytes
  dn_body_length :: u32

record ksd_kwin_report =
  rp_generation :: bytes
  rp_done :: "ksd_kwin_done list"

text \<open>The fields of a \<open>done\<close> line, read one token after the other.\<close>

definition done_fields :: "bytes \<Rightarrow> ksd_kwin_done option" where
  "done_fields cursor =
     (case token cursor of None \<Rightarrow> None | Some (start, cursor) \<Rightarrow>
      case hex start KSD_KWIN_SEQ_HEX of None \<Rightarrow> None | Some sequence \<Rightarrow>
      case token cursor of None \<Rightarrow> None | Some (start, cursor) \<Rightarrow>
      case decimal start 255 of None \<Rightarrow> None | Some status \<Rightarrow>
      case token cursor of None \<Rightarrow> None | Some (start, cursor) \<Rightarrow>
      case decimal start (of_nat KSD_MAX_TEXT_BYTES) of None \<Rightarrow> None | Some body_length \<Rightarrow>
      if cursor \<noteq> [] then None
      else Some \<lparr>dn_sequence = sequence, dn_status = status, dn_body = [], dn_body_length = body_length\<rparr>)"

text \<open>The loop that points each body into what follows the header.\<close>

fun fill_bodies :: "ksd_kwin_done list \<Rightarrow> bytes \<Rightarrow> ksd_kwin_done list" where
  "fill_bodies [] rest = []"
| "fill_bodies (d # ds) rest =
     d\<lparr>dn_body := take (unat (dn_body_length d)) rest\<rparr> # fill_bodies ds (drop (unat (dn_body_length d)) rest)"

text \<open>
  The line loop; \<open>generation\<close> is None until its line was seen, and \<open>dones\<close> are
  the entries so far.
\<close>

function (sequential) report_lines ::
  "scanner \<Rightarrow> bytes option \<Rightarrow> ksd_kwin_done list \<Rightarrow> nat \<Rightarrow> ksd_kwin_report option" where
  "report_lines scan generation dones declared =
     (case line scan of
        None \<Rightarrow> None
      | Some (ln, scan') \<Rightarrow>
          if sc_offset scan' > KSD_KWIN_MAX_HEADER_BYTES then None
          else case token ln of
            None \<Rightarrow> None
          | Some (word, cursor) \<Rightarrow>
              if keyword_is word ''end'' then
                if cursor \<noteq> [] \<or> dones = [] \<or> declared \<noteq> length (sc_data scan') - sc_offset scan' then None
                else map_option
                  (\<lambda>g. \<lparr>rp_generation = g,
                        rp_done = fill_bodies dones (drop (sc_offset scan') (sc_data scan'))\<rparr>) generation
              else if keyword_is word ''gen'' then
                (case token cursor of
                   None \<Rightarrow> None
                 | Some (start, cursor') \<Rightarrow>
                     if cursor' \<noteq> [] \<or> generation \<noteq> None then None
                     else case hex start KSD_KWIN_GENERATION_HEX of
                       None \<Rightarrow> None
                     | Some g \<Rightarrow> report_lines scan' (Some g) dones declared)
              else if \<not> keyword_is word ''done'' then None
              else if length dones = KSD_KWIN_MAX_DONE_PER_REPORT then None
              else case done_fields cursor of
                None \<Rightarrow> None
              | Some d \<Rightarrow>
                  let declared' = declared + unat (dn_body_length d)
                  in if declared' > KSD_MAX_TEXT_BYTES then None
                     else report_lines scan' generation (dones @ [d]) declared')"
  by pat_completeness auto
termination
  by (relation "measure (\<lambda>(scan, _, _, _). length (sc_data scan) - sc_offset scan)")
     (auto dest!: line_progress)

declare report_lines.simps [simp del]

definition ksd_kwin_parse_report :: "bytes option \<Rightarrow> ksd_kwin_report option" where
  "ksd_kwin_parse_report data =
     (case data of
        None \<Rightarrow> None
      | Some d \<Rightarrow>
          (case magic_ok \<lparr>sc_data = d, sc_offset = 0\<rparr> of
             None \<Rightarrow> None
           | Some scan \<Rightarrow> report_lines scan None [] 0))"

subsection \<open>The grammar of a report\<close>

definition done_valid :: "ksd_kwin_done \<Rightarrow> bool" where
  "done_valid d \<longleftrightarrow> length (dn_sequence d) = 16 \<and> list_all hex_digit (dn_sequence d) \<and> dn_status d \<le> 255"

definition bare :: "ksd_kwin_done \<Rightarrow> ksd_kwin_done" where
  "bare d = d\<lparr>dn_body := []\<rparr>"

definition done_line :: "ksd_kwin_done \<Rightarrow> bytes" where
  "done_line d = field_line ''done'' (dn_sequence d @ 32 # decimal_text (dn_status d) @ 32 #
     decimal_text (dn_body_length d))"

definition body_total :: "ksd_kwin_done list \<Rightarrow> nat" where
  "body_total ds = sum_list (map (\<lambda>d. unat (dn_body_length d)) ds)"

text \<open>
  The lines of a report: one \<open>done\<close> line per entry, in order, with the one
  \<open>gen\<close> line anywhere among them. \<open>seen\<close> says the \<open>gen\<close> line is behind.
\<close>

fun report_shape :: "bytes \<Rightarrow> bool \<Rightarrow> bytes list \<Rightarrow> ksd_kwin_done list \<Rightarrow> bool" where
  "report_shape g seen [] ds \<longleftrightarrow> seen \<and> ds = []"
| "report_shape g seen (l # ls) ds \<longleftrightarrow>
     \<not> seen \<and> l = field_line ''gen'' g \<and> report_shape g True ls ds
   \<or> ds \<noteq> [] \<and> l = done_line (hd ds) \<and> report_shape g seen ls (tl ds)"

lemma decimal_text_token: "decimal_text v \<noteq> [] \<and> 32 \<notin> set (decimal_text v) \<and> 10 \<notin> set (decimal_text v)"
  using nat_decimal_digits [of "unat v"] nat_decimal_shape [of "unat v"]
  by (auto simp: decimal_text_def list_all_iff digit_def)

lemma hex_token: "list_all hex_digit s \<Longrightarrow> 32 \<notin> set s \<and> 10 \<notin> set s"
  by (auto simp: list_all_iff hex_digit_def)

lemma done_line_no_newline: "done_valid d \<Longrightarrow> 10 \<notin> set (done_line d)"
  using decimal_text_token hex_token [of "dn_sequence d"]
  by (auto simp: done_line_def field_line_def done_valid_def ascii_def)

lemma done_fields_iff:
  "done_fields cursor = Some d \<longleftrightarrow> done_valid d \<and> unat (dn_body_length d) \<le> KSD_MAX_TEXT_BYTES
     \<and> dn_body d = [] \<and> (\<exists>q. cursor = dn_sequence d @ 32 # decimal_text (dn_status d) @ 32 #
          decimal_text (dn_body_length d) @ pad q)"
  (is "?l \<longleftrightarrow> ?r")
proof
  assume ?l
  then obtain s1 c1 s2 c2 s3 where
    t: "token cursor = Some (s1, c1)" "token c1 = Some (s2, c2)" "token c2 = Some (s3, [])"
       "hex s1 16 = Some (dn_sequence d)" "decimal s2 255 = Some (dn_status d)"
       "decimal s3 (of_nat KSD_MAX_TEXT_BYTES) = Some (dn_body_length d)" "dn_body d = []"
    by (auto simp: done_fields_def wire_defs split: option.splits if_splits)
  have "s2 \<noteq> []" "s3 \<noteq> []" using t(2,3) by (auto simp: token_iff)
  then have "c1 \<noteq> []" "c2 \<noteq> []" using t(2,3) by (auto simp: token_iff)
  with t show ?r
    by (auto simp: token_iff decimal_iff hex_def done_valid_def pad_def word_le_nat_alt wire_defs
        split: if_splits)
next
  assume r: ?r
  then obtain q where c: "cursor = dn_sequence d @ 32 # decimal_text (dn_status d) @ 32 #
      decimal_text (dn_body_length d) @ pad q" by blast
  have seq: "32 \<notin> set (dn_sequence d)" "dn_sequence d \<noteq> []"
    using r hex_token [of "dn_sequence d"] by (auto simp: done_valid_def)
  have "token cursor = Some (dn_sequence d, decimal_text (dn_status d) @ 32 # decimal_text (dn_body_length d) @ pad q)"
    "token (decimal_text (dn_status d) @ 32 # decimal_text (dn_body_length d) @ pad q)
       = Some (decimal_text (dn_status d), decimal_text (dn_body_length d) @ pad q)"
    "token (decimal_text (dn_body_length d) @ pad q) = Some (decimal_text (dn_body_length d), [])"
    using c seq decimal_text_token by (auto simp: token_iff pad_def)
  with r show ?l
    by (cases d) (simp add: done_fields_def hex_def done_valid_def decimal_text_parse wire_defs word_le_nat_alt)
qed

lemma fill_bodies_exact:
  "length rest = body_total ds \<Longrightarrow>
     concat (map dn_body (fill_bodies ds rest)) = rest
   \<and> list_all (\<lambda>d. length (dn_body d) = unat (dn_body_length d)) (fill_bodies ds rest)
   \<and> map bare (fill_bodies ds rest) = map bare ds \<and> length (fill_bodies ds rest) = length ds
   \<and> body_total (fill_bodies ds rest) = body_total ds"
  by (induction ds rest rule: fill_bodies.induct) (simp_all add: body_total_def bare_def)

lemma fill_bodies_bare:
  "list_all (\<lambda>d. length (dn_body d) = unat (dn_body_length d)) ds \<Longrightarrow>
     fill_bodies (map bare ds) (concat (map dn_body ds)) = ds"
  by (induction ds) (auto simp: bare_def)

lemma bare_props [simp]:
  "done_line (bare d) = done_line d" "done_valid (bare d) = done_valid d" "dn_body (bare d) = []"
  "dn_body_length (bare d) = dn_body_length d" "body_total (map bare ds) = body_total ds"
  by (simp_all add: bare_def done_line_def done_valid_def body_total_def comp_def)

lemma list_all_bare: "list_all done_valid (map bare ds) = list_all done_valid ds"
  by (simp add: list_all_iff)

lemma report_shape_bare: "report_shape g seen ls (map bare ds) = report_shape g seen ls ds"
  by (induction g seen ls ds rule: report_shape.induct) (auto simp: hd_map map_tl)

lemma body_total_simps [simp]:
  "body_total [] = 0" "body_total (d # ds) = unat (dn_body_length d) + body_total ds"
  "body_total (ds @ es) = body_total ds + body_total es"
  by (simp_all add: body_total_def)

lemma line_measure:
  "line scan = Some (ln, scan') \<Longrightarrow>
     length (sc_data scan') - sc_offset scan' < length (sc_data scan) - sc_offset scan"
  using line_progress [of scan ln scan'] by (auto intro: diff_less_mono2)

text \<open>One turn of the line loop, read as grammar.\<close>

lemma report_lines_cases:
  assumes "report_lines scan g ds n = Some r"
  obtains
    (End) q g' rest where "ds \<noteq> []" "g = Some g'" "n = length rest" "sc_rest scan = end_line q @ rest"
      "r = \<lparr>rp_generation = g', rp_done = fill_bodies ds rest\<rparr>"
      "sc_offset scan + length (end_line q) \<le> 8192"
  | (Gen) v q scan' where "g = None" "length v = 32" "list_all hex_digit v"
      "report_lines scan' (Some v) ds n = Some r" "line scan = Some (field_line ''gen'' v @ pad q, scan')"
      "sc_offset scan' \<le> 8192"
  | (Done) d q scan' where "length ds \<noteq> 9" "done_valid d" "dn_body d = []"
      "n + unat (dn_body_length d) \<le> KSD_MAX_TEXT_BYTES"
      "report_lines scan' g (ds @ [d]) (n + unat (dn_body_length d)) = Some r"
      "line scan = Some (done_line d @ pad q, scan')" "sc_offset scan' \<le> 8192"
proof -
  from assms obtain ln scan' word cursor where
    l: "line scan = Some (ln, scan')" and t: "token ln = Some (word, cursor)" and o: "sc_offset scan' \<le> 8192"
    by (subst (asm) report_lines.simps) (auto simp: wire_defs split: option.splits if_splits)
  from assms l t o consider
      (e) "keyword_is word ''end''" | (g) "\<not> keyword_is word ''end''" "keyword_is word ''gen''"
    | (d) "\<not> keyword_is word ''end''" "\<not> keyword_is word ''gen''" "keyword_is word ''done''"
    by (subst (asm) report_lines.simps) (auto split: if_splits)
  then show thesis
  proof cases
    case e
    with assms l t o obtain g' where e': "cursor = []" "ds \<noteq> []" "g = Some g'"
        "n = length (sc_rest scan')" "r = \<lparr>rp_generation = g', rp_done = fill_bodies ds (sc_rest scan')\<rparr>"
      by (subst (asm) report_lines.simps) (auto simp: sc_rest_def split: if_splits)
    then obtain q where "ln = ascii ''end'' @ pad q" using t e by (auto simp: token_last keyword_is_def)
    then show thesis
      using e' line_Some [OF l] o by (intro End [of g' "sc_rest scan'" q]) (simp_all add: end_line_def)
  next
    case g
    with assms l t o obtain v where v: "token cursor = Some (v, [])" "g = None"
        "length v = 32 \<and> list_all hex_digit v" "report_lines scan' (Some v) ds n = Some r"
      by (subst (asm) report_lines.simps) (auto simp: hex_def wire_defs split: if_splits option.splits)
    then obtain q where "ln = field_line ''gen'' v @ pad q"
      using t g(2) by (auto simp: token_iff [of ln] token_last keyword_is_def field_line_def)
    then show thesis using v l o by (intro Gen) auto
  next
    case d
    with assms l t o obtain dn where dn: "done_fields cursor = Some dn" "length ds \<noteq> 9"
        "n + unat (dn_body_length dn) \<le> KSD_MAX_TEXT_BYTES"
        "report_lines scan' g (ds @ [dn]) (n + unat (dn_body_length dn)) = Some r"
      by (subst (asm) report_lines.simps)
         (auto simp: KSD_KWIN_MAX_DONE_PER_REPORT_def Let_def not_less split: if_splits option.splits)
    then obtain q where q: "done_valid dn" "dn_body dn = []" "cursor = dn_sequence dn @ 32 #
        decimal_text (dn_status dn) @ 32 # decimal_text (dn_body_length dn) @ pad q"
      by (auto simp: done_fields_iff)
    then have "ln = done_line dn @ pad q"
      using t d(3) by (auto simp: token_iff keyword_is_def done_line_def field_line_def)
    then show thesis using dn q l o by (intro Done) auto
  qed
qed

definition report_text :: "scanner \<Rightarrow> bytes option \<Rightarrow> ksd_kwin_done list \<Rightarrow> ksd_kwin_report \<Rightarrow>
    (bytes \<times> bool) list \<Rightarrow> bool \<Rightarrow> ksd_kwin_done list \<Rightarrow> bytes \<Rightarrow> bool" where
  "report_text scan g ds r ls e es rest \<longleftrightarrow>
     rp_done r = fill_bodies (ds @ es) rest \<and> length rest = body_total (ds @ es)
   \<and> report_shape (rp_generation r) (g \<noteq> None) (map fst ls) es
   \<and> sc_rest scan = padded_lines ls @ end_line e @ rest
   \<and> sc_offset scan + length (padded_lines ls @ end_line e) \<le> 8192
   \<and> ds @ es \<noteq> [] \<and> length (ds @ es) \<le> 9 \<and> body_total (ds @ es) \<le> KSD_MAX_TEXT_BYTES
   \<and> list_all done_valid es \<and> list_all (\<lambda>d. dn_body d = []) es
   \<and> (case g of Some g' \<Rightarrow> g' = rp_generation r
        | None \<Rightarrow> length (rp_generation r) = 32 \<and> list_all hex_digit (rp_generation r))"

lemma report_lines_sound:
  "report_lines scan g ds n = Some r \<Longrightarrow> n = body_total ds \<Longrightarrow> length ds \<le> 9 \<Longrightarrow>
     body_total ds \<le> KSD_MAX_TEXT_BYTES \<Longrightarrow> \<exists>ls e es rest. report_text scan g ds r ls e es rest"
proof (induction "length (sc_data scan) - sc_offset scan" arbitrary: scan g ds n rule: less_induct)
  case less
  from less.prems(1) show ?case
  proof (cases rule: report_lines_cases)
    case (End q g' rest)
    with less.prems have "report_text scan g ds r [] q [] rest" by (simp add: report_text_def)
    then show ?thesis by blast
  next
    case (Gen v q scan')
    from less.hyps [OF line_measure [OF Gen(5)] Gen(4) less.prems(2,3,4)] obtain ls e es rest where
      IH: "report_text scan' (Some v) ds r ls e es rest" by blast
    then have "report_text scan g ds r ((field_line ''gen'' v, q) # ls) e es rest"
      using Gen line_Some [OF Gen(5)] by (auto simp: report_text_def)
    then show ?thesis by blast
  next
    case (Done d q scan')
    from less.hyps [OF line_measure [OF Done(6)] Done(5)] less.prems(2,3,4) Done(1,4)
    obtain ls e es rest where IH: "report_text scan' g (ds @ [d]) r ls e es rest" by auto
    then have "report_text scan g ds r ((done_line d, q) # ls) e (d # es) rest"
      using Done line_Some [OF Done(6)] by (auto simp: report_text_def)
    then show ?thesis by blast
  qed
qed

lemma report_line_step:
  assumes "sc_offset scan \<le> length (sc_data scan)" "sc_rest scan = l @ pad q @ 10 # r" "10 \<notin> set l"
  obtains scan' where "line scan = Some (l @ pad q, scan')" "sc_rest scan' = r"
    "sc_offset scan' = sc_offset scan + length (l @ pad q) + 1" "sc_offset scan' \<le> length (sc_data scan')"
proof -
  have "10 \<notin> set (l @ pad q)" using assms(3) by (simp add: pad_def)
  with line_append [of scan "l @ pad q" r] assms(1,2) that show thesis by auto
qed

lemma report_lines_complete:
  "report_shape g seen (map fst ls) es \<Longrightarrow> sc_offset scan \<le> length (sc_data scan) \<Longrightarrow>
     sc_rest scan = padded_lines ls @ end_line e @ rest \<Longrightarrow>
     sc_offset scan + length (padded_lines ls @ end_line e) \<le> 8192 \<Longrightarrow>
     list_all done_valid es \<Longrightarrow> list_all (\<lambda>d. dn_body d = []) es \<Longrightarrow> length rest = body_total (ds @ es) \<Longrightarrow>
     ds @ es \<noteq> [] \<Longrightarrow> length (ds @ es) \<le> 9 \<Longrightarrow> body_total (ds @ es) \<le> KSD_MAX_TEXT_BYTES \<Longrightarrow>
     length g = 32 \<Longrightarrow> list_all hex_digit g \<Longrightarrow>
     report_lines scan (if seen then Some g else None) ds (body_total ds)
       = Some \<lparr>rp_generation = g, rp_done = fill_bodies (ds @ es) rest\<rparr>"
proof (induction ls arbitrary: scan seen ds es)
  case Nil
  have "sc_rest scan = ascii ''end'' @ pad e @ 10 # rest" using Nil.prems(3) by (simp add: end_line_def)
  moreover have "10 \<notin> set (ascii ''end'')" by (simp add: ascii_def)
  ultimately obtain scan' where s: "line scan = Some (ascii ''end'' @ pad e, scan')" "sc_rest scan' = rest"
      "sc_offset scan' = sc_offset scan + length (ascii ''end'' @ pad e) + 1"
    using report_line_step Nil.prems(2) by metis
  have "token (ascii ''end'' @ pad e) = Some (ascii ''end'', [])" by (auto simp: token_last ascii_def)
  moreover have "drop (sc_offset scan') (sc_data scan') = rest"
      "length (sc_data scan') - sc_offset scan' = length rest"
    using s(2) by (auto simp: sc_rest_def)
  ultimately show ?case
    using s Nil.prems by (simp add: report_lines.simps [of scan] keyword_is_def wire_defs end_line_def)
next
  case (Cons lp ls)
  obtain l q where lp: "lp = (l, q)" by (cases lp)
  from Cons.prems(1) consider
      (gen) "\<not> seen" "l = field_line ''gen'' g" "report_shape g True (map fst ls) es"
    | (dn) d es' where "es = d # es'" "l = done_line d" "report_shape g seen (map fst ls) es'"
    by (cases es) (auto simp: lp)
  then show ?case
  proof cases
    case gen
    have g: "32 \<notin> set g \<and> 10 \<notin> set g \<and> g \<noteq> []" using Cons.prems(11,12) hex_token by auto
    then obtain scan' where s: "line scan = Some (l @ pad q, scan')"
        "sc_rest scan' = padded_lines ls @ end_line e @ rest"
        "sc_offset scan' = sc_offset scan + length (l @ pad q) + 1" "sc_offset scan' \<le> length (sc_data scan')"
      using report_line_step [of scan l q] Cons.prems(2,3) by (auto simp: lp gen(2) field_line_def ascii_def)
    have "token (l @ pad q) = Some (ascii ''gen'', g @ pad q)" "token (g @ pad q) = Some (g, [])"
      using g by (auto simp: token_iff gen(2) field_line_def ascii_def pad_def)
    moreover have "report_lines scan' (Some g) ds (body_total ds)
        = Some \<lparr>rp_generation = g, rp_done = fill_bodies (ds @ es) rest\<rparr>"
      using Cons.IH [OF gen(3) s(4,2)] Cons.prems s(3) by (simp add: lp)
    ultimately show ?thesis
      using s gen(1) Cons.prems(4,11,12)
      by (simp add: report_lines.simps [of scan] lp keyword_is_def hex_def wire_defs) (simp add: ascii_def)
  next
    case (dn d es')
    have d: "done_valid d" "dn_body d = []" using Cons.prems(5,6) dn(1) by auto
    then obtain scan' where s: "line scan = Some (l @ pad q, scan')"
        "sc_rest scan' = padded_lines ls @ end_line e @ rest"
        "sc_offset scan' = sc_offset scan + length (l @ pad q) + 1" "sc_offset scan' \<le> length (sc_data scan')"
      using report_line_step [of scan l q] Cons.prems(2,3) done_line_no_newline [of d] by (auto simp: lp dn(2))
    let ?c = "dn_sequence d @ 32 # decimal_text (dn_status d) @ 32 # decimal_text (dn_body_length d) @ pad q"
    have "token (l @ pad q) = Some (ascii ''done'', ?c)"
      by (auto simp: token_iff dn(2) done_line_def field_line_def ascii_def)
    moreover have "done_fields ?c = Some d"
      using d Cons.prems(10) dn(1) by (auto simp: done_fields_iff)
    moreover have "report_lines scan' (if seen then Some g else None) (ds @ [d]) (body_total (ds @ [d]))
        = Some \<lparr>rp_generation = g, rp_done = fill_bodies (ds @ es) rest\<rparr>"
      using Cons.IH [OF dn(3) s(4,2), of "ds @ [d]"] Cons.prems s(3) dn(1) by (simp add: lp)
    ultimately show ?thesis
      using s Cons.prems(4,9,10) dn(1)
      by (simp add: report_lines.simps [of scan] lp keyword_is_def wire_defs) (simp add: ascii_def)
  qed
qed

definition report_valid :: "ksd_kwin_report \<Rightarrow> bool" where
  "report_valid r \<longleftrightarrow> length (rp_generation r) = 32 \<and> list_all hex_digit (rp_generation r)
     \<and> rp_done r \<noteq> [] \<and> length (rp_done r) \<le> KSD_KWIN_MAX_DONE_PER_REPORT
     \<and> list_all done_valid (rp_done r)
     \<and> list_all (\<lambda>d. length (dn_body d) = unat (dn_body_length d)) (rp_done r)
     \<and> body_total (rp_done r) \<le> KSD_MAX_TEXT_BYTES"

lemma parse_report_start:
  "ksd_kwin_parse_report (Some d) = Some r \<longleftrightarrow>
     (\<exists>t. d = ascii ''KSK1'' @ 10 # t) \<and> report_lines \<lparr>sc_data = d, sc_offset = 5\<rparr> None [] 0 = Some r"
  using magic_ok_iff [of d] by (auto simp: ksd_kwin_parse_report_def split: option.splits)
     (metis option.distinct(1))

lemma parse_report_sound:
  assumes "ksd_kwin_parse_report (Some d) = Some r"
  shows "report_valid r \<and> (\<exists>ls e. report_shape (rp_generation r) False (map fst ls) (rp_done r)
        \<and> length (ascii ''KSK1'' @ 10 # padded_lines ls @ end_line e) \<le> KSD_KWIN_MAX_HEADER_BYTES
        \<and> d = ascii ''KSK1'' @ 10 # padded_lines ls @ end_line e @ concat (map dn_body (rp_done r)))"
  (is "_ \<and> (\<exists>ls e. ?g ls e)")
proof -
  let ?scan = "\<lparr>sc_data = d, sc_offset = 5\<rparr>"
  from assms obtain t where d: "d = ascii ''KSK1'' @ 10 # t" and p: "report_lines ?scan None [] 0 = Some r"
    unfolding parse_report_start by blast
  have tail: "sc_rest ?scan = t" using d by (simp add: sc_rest_def ascii_def)
  from report_lines_sound [OF p] obtain ls e es rest where
    t: "report_text ?scan None [] r ls e es rest" by auto
  then have done_: "rp_done r = fill_bodies es rest" "length rest = body_total es"
    by (simp_all add: report_text_def)
  note fill = fill_bodies_exact [OF done_(2), folded done_(1)]
  have "list_all done_valid (rp_done r) = list_all done_valid es"
    using fill by (metis list_all_bare)
  then have "report_valid r"
    using t fill by (auto simp: report_valid_def report_text_def wire_defs)
  moreover have "?g ls e"
    using t fill d tail report_shape_bare [of "rp_generation r" False "map fst ls" es]
      report_shape_bare [of "rp_generation r" False "map fst ls" "rp_done r"]
    by (simp add: report_text_def wire_defs)
  ultimately show ?thesis by blast
qed

lemma parse_report_complete:
  assumes "report_valid r" and g: "report_shape (rp_generation r) False (map fst ls) (rp_done r)
        \<and> length (ascii ''KSK1'' @ 10 # padded_lines ls @ end_line e) \<le> KSD_KWIN_MAX_HEADER_BYTES
        \<and> d = ascii ''KSK1'' @ 10 # padded_lines ls @ end_line e @ concat (map dn_body (rp_done r))"
  shows "ksd_kwin_parse_report (Some d) = Some r"
proof -
  let ?scan = "\<lparr>sc_data = d, sc_offset = 5\<rparr>" and ?es = "map bare (rp_done r)"
  note a = assms(1)
  from g have "sc_rest ?scan = padded_lines ls @ end_line e @ concat (map dn_body (rp_done r))"
    by (simp add: sc_rest_def ascii_def)
  moreover have "length (concat (map dn_body (rp_done r))) = body_total (rp_done r)"
    using a by (auto simp: report_valid_def length_concat body_total_def list_all_iff comp_def
        intro!: arg_cong [where f = sum_list])
  moreover have "fill_bodies ?es (concat (map dn_body (rp_done r))) = rp_done r"
    using a by (intro fill_bodies_bare) (simp add: report_valid_def)
  ultimately have "report_lines ?scan None [] 0 = Some r"
    using report_lines_complete [of "rp_generation r" False ls ?es ?scan e _ "[]"] a g
    by (simp add: report_shape_bare report_valid_def wire_defs list_all_iff)
  with g show ?thesis unfolding parse_report_start by blast
qed

text \<open>
  C39: the report parser accepts exactly one grammar, and the bodies of a report are
  exactly what follows its header. A byte string parses to a report \<open>r\<close> if and
  only if it is the magic line, the \<open>done\<close> lines of \<open>r\<close> in order with one
  \<open>gen\<close> line among them, the \<open>end\<close> line, all within 8192 bytes, and then the
  bodies one after the other with nothing left over; \<open>r\<close> has one to nine
  entries, 16-digit sequences, statuses up to 255, and bodies of the declared
  lengths summing to at most the text limit.
\<close>

theorem parse_report_grammar:
  "ksd_kwin_parse_report (Some d) = Some r \<longleftrightarrow>
     report_valid r
   \<and> (\<exists>ls e. report_shape (rp_generation r) False (map fst ls) (rp_done r)
        \<and> length (ascii ''KSK1'' @ 10 # padded_lines ls @ end_line e) \<le> KSD_KWIN_MAX_HEADER_BYTES
        \<and> d = ascii ''KSK1'' @ 10 # padded_lines ls @ end_line e @ concat (map dn_body (rp_done r)))"
  using parse_report_sound [of d r] parse_report_complete [of r] by blast

definition sample_report :: ksd_kwin_report where
  "sample_report = \<lparr>rp_generation = replicate 32 98,
     rp_done = [\<lparr>dn_sequence = replicate 16 48, dn_status = 0, dn_body = ascii ''xy'', dn_body_length = 2\<rparr>]\<rparr>"

theorem parse_report_grammar_witness:
  "ksd_kwin_parse_report (Some (ascii ''KSK1'' @ 10 # (ascii ''gen '' @ replicate 32 98) @ 10 #
     (ascii ''done '' @ replicate 16 48 @ ascii '' 0 2'') @ 10 # ascii ''end'' @ 10 # ascii ''xy''))
   = Some sample_report"
  (is "ksd_kwin_parse_report (Some ?d) = _")
proof -
  let ?ls = "[(ascii ''gen '' @ replicate 32 98, False),
      (ascii ''done '' @ replicate 16 48 @ ascii '' 0 2'', False)]"
  have "report_shape (rp_generation sample_report) False (map fst ?ls) (rp_done sample_report)"
    by (simp add: sample_report_def field_line_def done_line_def decimal_text_def nat_decimal.simps ascii_def)
  moreover have "?d = ascii ''KSK1'' @ 10 # padded_lines ?ls @ end_line False
      @ concat (map dn_body (rp_done sample_report))"
    by (simp add: sample_report_def pad_def end_line_def ascii_def)
  moreover have "report_valid sample_report"
    by (simp add: sample_report_def report_valid_def done_valid_def list_all_iff hex_digit_def wire_defs)
  moreover have "length (ascii ''KSK1'' @ 10 # padded_lines ?ls @ end_line False) \<le> KSD_KWIN_MAX_HEADER_BYTES"
    by (simp add: wire_defs pad_def end_line_def)
  ultimately show ?thesis
    using parse_report_grammar [of ?d sample_report, THEN iffD2] by blast
qed

section \<open>Writing replies\<close>

record ksd_kwin_dispatch =
  dp_sequence :: "bytes option"
  dp_opcode :: u16
  dp_budget_ms :: u32
  dp_body :: "bytes option"
  dp_body_length :: u32

text \<open>The two loops over the jobs: their header lines, and their bodies.\<close>

fun append_jobs :: "(nat \<Rightarrow> bool) \<Rightarrow> ksd_kwin_dispatch list \<Rightarrow> ksd_buffer \<Rightarrow> bool \<times> ksd_buffer" where
  "append_jobs alloc [] out = (True, out)"
| "append_jobs alloc (j # js) out =
     and_then (ksd_buffer_bytes alloc (ascii ''job '') out) (\<lambda>out.
     and_then (ksd_buffer_bytes alloc (take KSD_KWIN_SEQ_HEX (the (dp_sequence j))) out) (\<lambda>out.
     and_then (ksd_buffer_bytes alloc (ascii '' '') out) (\<lambda>out.
     and_then (append_hex alloc (ucast (dp_opcode j)) 4 out) (\<lambda>out.
     and_then (ksd_buffer_bytes alloc (ascii '' '') out) (\<lambda>out.
     and_then (append_decimal alloc (dp_budget_ms j) out) (\<lambda>out.
     and_then (ksd_buffer_bytes alloc (ascii '' '') out) (\<lambda>out.
     and_then (append_decimal alloc (dp_body_length j) out) (\<lambda>out.
     and_then (ksd_buffer_bytes alloc [10] out) (append_jobs alloc js)))))))))"

fun append_bodies :: "(nat \<Rightarrow> bool) \<Rightarrow> ksd_kwin_dispatch list \<Rightarrow> ksd_buffer \<Rightarrow> bool \<times> ksd_buffer" where
  "append_bodies alloc [] out = (True, out)"
| "append_bodies alloc (j # js) out =
     (if dp_body_length j = 0 then append_bodies alloc js out
      else and_then (ksd_buffer_bytes alloc (take (unat (dp_body_length j)) (the (dp_body j))) out)
             (append_bodies alloc js))"

definition ksd_kwin_format_poll_reply ::
  "(nat \<Rightarrow> bool) \<Rightarrow> bytes option \<Rightarrow> ksd_kwin_lane \<Rightarrow> u32 \<Rightarrow> ksd_kwin_dispatch list \<Rightarrow> ksd_buffer \<Rightarrow>
     bool \<times> ksd_buffer" where
  "ksd_kwin_format_poll_reply alloc generation lane idle_ms jobs out =
     (let name = (if lane = KSD_KWIN_LANE_FAST then ascii ''fast'' else ascii ''slow'');
          limit = (if lane = KSD_KWIN_LANE_FAST then KSD_KWIN_JOBS_PER_REPLY_FAST
                   else KSD_KWIN_JOBS_PER_REPLY_SLOW)
      in if \<not> generation_valid generation then (False, out)
         else if lane \<noteq> KSD_KWIN_LANE_FAST \<and> lane \<noteq> KSD_KWIN_LANE_SLOW then (False, out)
         else if length jobs > limit then (False, out)
         else if \<not> list_all (\<lambda>j. valid_sequence (dp_sequence j)
                     \<and> \<not> (dp_body_length j \<noteq> 0 \<and> dp_body j = None)) jobs then (False, out)
         else and_then (ksd_buffer_bytes alloc (ascii ''KSK1'' @ [10]) out) (\<lambda>out.
              and_then (ksd_buffer_bytes alloc (ascii ''gen '') out) (\<lambda>out.
              and_then (ksd_buffer_bytes alloc (take KSD_KWIN_GENERATION_HEX (the generation)) out) (\<lambda>out.
              and_then (ksd_buffer_bytes alloc [10] out) (\<lambda>out.
              and_then (ksd_buffer_bytes alloc (ascii ''lane '') out) (\<lambda>out.
              and_then (ksd_buffer_bytes alloc name out) (\<lambda>out.
              and_then (ksd_buffer_bytes alloc [10] out) (\<lambda>out.
              and_then (ksd_buffer_bytes alloc (ascii ''idle '') out) (\<lambda>out.
              and_then (append_decimal alloc idle_ms out) (\<lambda>out.
              and_then (ksd_buffer_bytes alloc [10] out) (\<lambda>out.
              and_then (append_jobs alloc jobs out) (\<lambda>out.
              and_then (ksd_buffer_bytes alloc (ascii ''end'' @ [10]) out)
                (append_bodies alloc jobs)))))))))))))"

definition ksd_kwin_format_report_ack ::
  "(nat \<Rightarrow> bool) \<Rightarrow> bytes option \<Rightarrow> ksd_buffer \<Rightarrow> bool \<times> ksd_buffer" where
  "ksd_kwin_format_report_ack alloc generation out =
     (if \<not> generation_valid generation then (False, out)
      else and_then (ksd_buffer_bytes alloc (ascii ''KSK1'' @ [10]) out) (\<lambda>out.
           and_then (ksd_buffer_bytes alloc (ascii ''gen '') out) (\<lambda>out.
           and_then (ksd_buffer_bytes alloc (take KSD_KWIN_GENERATION_HEX (the generation)) out)
             (ksd_buffer_bytes alloc (10 # ascii ''ack'' @ 10 # ascii ''end'' @ [10])))))"

subsection \<open>What the reply says\<close>

lemma writes_decimal: "writes alloc (append_decimal alloc v) (decimal_text v)"
  using writes_bytes [of alloc "decimal_text v"] by (simp add: append_decimal_eq [abs_def])

lemma writes_hex: "n \<le> 16 \<Longrightarrow> writes alloc (append_hex alloc v n) (hex_text v n)"
  using writes_bytes [of alloc "hex_text v n"] by (simp add: append_hex_def [abs_def])

lemmas writes_rules = writes_and_then writes_bytes writes_decimal

definition job_line :: "ksd_kwin_dispatch \<Rightarrow> bytes" where
  "job_line j = ascii ''job '' @ the (dp_sequence j) @ 32 # hex_text (ucast (dp_opcode j)) 4 @ 32 #
     decimal_text (dp_budget_ms j) @ 32 # decimal_text (dp_body_length j)"

definition job_body :: "ksd_kwin_dispatch \<Rightarrow> bytes" where
  "job_body j = (if dp_body_length j = 0 then [] else take (unat (dp_body_length j)) (the (dp_body j)))"

lemma append_jobs_writes:
  "list_all (\<lambda>j. length (the (dp_sequence j)) = 16) js \<Longrightarrow>
     writes alloc (append_jobs alloc js) (concat (map (\<lambda>j. job_line j @ [10]) js))"
proof (induction js)
  case (Cons j js)
  have "writes alloc (append_jobs alloc (j # js))
      (ascii ''job '' @ take KSD_KWIN_SEQ_HEX (the (dp_sequence j)) @ ascii '' '' @
       hex_text (ucast (dp_opcode j)) 4 @ ascii '' '' @ decimal_text (dp_budget_ms j) @ ascii '' '' @
       decimal_text (dp_body_length j) @ [10] @ concat (map (\<lambda>j. job_line j @ [10]) js))"
    unfolding append_jobs.simps using Cons
    by (intro writes_rules writes_hex) simp_all
  with Cons.prems show ?case
    by (simp add: job_line_def [of j] ascii_def wire_defs del: append_jobs.simps)
qed (simp add: writes_def)

lemma append_bodies_writes: "writes alloc (append_bodies alloc js) (concat (map job_body js))"
proof (induction js)
  case (Cons j js)
  then show ?case
    using writes_and_then [OF writes_bytes [of alloc "job_body j"] Cons.IH]
    by (cases "dp_body_length j = 0") (simp_all add: job_body_def [of j])
qed (simp add: writes_def)

text \<open>What a poll reply says.\<close>

definition reply_text :: "bytes \<Rightarrow> ksd_kwin_lane \<Rightarrow> u32 \<Rightarrow> ksd_kwin_dispatch list \<Rightarrow> bytes" where
  "reply_text g lane idle js = ascii ''KSK1'' @ 10 # field_line ''gen'' g @ 10 #
     field_line ''lane'' (lane_name lane) @ 10 # field_line ''idle'' (decimal_text idle) @ 10 #
     concat (map (\<lambda>j. job_line j @ [10]) js) @ end_line False @ concat (map job_body js)"

definition reply_ok :: "bytes option \<Rightarrow> ksd_kwin_lane \<Rightarrow> ksd_kwin_dispatch list \<Rightarrow> bool" where
  "reply_ok generation lane js \<longleftrightarrow> generation_valid generation \<and> lane \<noteq> KSD_KWIN_LANE_NONE
     \<and> length js \<le> lane_capacity lane
     \<and> list_all (\<lambda>j. valid_sequence (dp_sequence j) \<and> \<not> (dp_body_length j \<noteq> 0 \<and> dp_body j = None)) js"

lemma poll_reply_refused: "\<not> reply_ok g lane js \<Longrightarrow> ksd_kwin_format_poll_reply alloc g lane idle js out = (False, out)"
  by (cases lane) (auto simp: ksd_kwin_format_poll_reply_def reply_ok_def lane_capacity_def)

lemma poll_reply_writes:
  assumes "reply_ok g lane js"
  shows "writes alloc (ksd_kwin_format_poll_reply alloc g lane idle js) (reply_text (the g) lane idle js)"
proof -
  have seq: "list_all (\<lambda>j. length (the (dp_sequence j)) = 16) js"
    using assms by (auto simp: reply_ok_def list_all_iff valid_sequence_def hex_string_iff wire_defs
        split: option.splits)
  have g: "take KSD_KWIN_GENERATION_HEX (the g) = the g"
    using assms by (auto simp: reply_ok_def generation_valid_def hex_string_iff wire_defs split: option.splits)
  have ok: "generation_valid g" "\<not> (lane \<noteq> KSD_KWIN_LANE_FAST \<and> lane \<noteq> KSD_KWIN_LANE_SLOW)"
      "\<not> length js > (if lane = KSD_KWIN_LANE_FAST then KSD_KWIN_JOBS_PER_REPLY_FAST else KSD_KWIN_JOBS_PER_REPLY_SLOW)"
      "list_all (\<lambda>j. valid_sequence (dp_sequence j) \<and> \<not> (dp_body_length j \<noteq> 0 \<and> dp_body j = None)) js"
    using assms by (cases lane; auto simp: reply_ok_def lane_capacity_def)+
  have "writes alloc (ksd_kwin_format_poll_reply alloc g lane idle js)
     ((ascii ''KSK1'' @ [10]) @ ascii ''gen '' @ the g @ [10] @ ascii ''lane '' @ lane_name lane @ [10] @
      ascii ''idle '' @ decimal_text idle @ [10] @ concat (map (\<lambda>j. job_line j @ [10]) js) @
      (ascii ''end'' @ [10]) @ concat (map job_body js))"
    unfolding ksd_kwin_format_poll_reply_def Let_def g lane_name_def
    by (simp only: ok not_True_eq_False not_False_eq_True if_False if_True)
       (intro writes_rules append_jobs_writes append_bodies_writes seq)
  then show ?thesis
    by (simp add: reply_text_def field_line_def end_line_def pad_def ascii_def)
qed

lemma report_ack_writes:
  assumes "generation_valid g"
  shows "writes alloc (ksd_kwin_format_report_ack alloc g)
    (ascii ''KSK1'' @ 10 # field_line ''gen'' (the g) @ 10 # ascii ''ack'' @ 10 # ascii ''end'' @ [10])"
proof -
  have g: "take KSD_KWIN_GENERATION_HEX (the g) = the g"
    using assms by (auto simp: generation_valid_def hex_string_iff wire_defs split: option.splits)
  have "writes alloc (ksd_kwin_format_report_ack alloc g) ((ascii ''KSK1'' @ [10]) @ ascii ''gen '' @ the g @
      (10 # ascii ''ack'' @ 10 # ascii ''end'' @ [10]))"
    unfolding ksd_kwin_format_report_ack_def g using assms
    by (simp only: if_False not_True_eq_False) (intro writes_rules)
  then show ?thesis by (simp add: field_line_def ascii_def)
qed

text \<open>
  A poll reply is written whole or refused. The serialiser appends exactly the
  reply's text: the header lines with canonical numbers, one line per job, the
  \<open>end\<close> line, and the bodies in the order their lines declare them, whose
  lengths add up to what follows the header. It refuses, without touching the
  buffer, every reply with a malformed generation or sequence, a lane that takes
  no jobs, or more jobs than the lane's cap; and an acceptable reply is always
  written when memory and room suffice.
\<close>

theorem poll_reply_exact:
  assumes "buffer_wf out" "list_all (\<lambda>j. dp_body_length j = 0 \<or> length (the (dp_body j)) \<ge> unat (dp_body_length j)) js"
  shows "let (ok, out') = ksd_kwin_format_poll_reply alloc g lane idle js out
    in buffer_wf out'
     \<and> (ok \<longrightarrow> reply_ok g lane js \<and> buf_data out' = buf_data out @ reply_text (the g) lane idle js)
     \<and> (\<not> reply_ok g lane js \<longrightarrow> \<not> ok \<and> out' = out)
     \<and> (reply_ok g lane js \<and> (\<forall>n. alloc n)
          \<and> length (buf_data out) + length (reply_text (the g) lane idle js) \<le> buf_maximum out \<longrightarrow> ok)
     \<and> length (concat (map job_body js)) = sum_list (map (\<lambda>j. unat (dp_body_length j)) js)"
proof -
  have "length (concat (map job_body js)) = sum_list (map (\<lambda>j. unat (dp_body_length j)) js)"
    using assms(2) by (induction js) (auto simp: job_body_def)
  then show ?thesis
    using assms(1) poll_reply_refused [of g lane js alloc idle out]
      poll_reply_writes [of g lane js alloc idle, unfolded writes_def, rule_format, of out]
    by (cases "reply_ok g lane js") (auto simp: split_def Let_def)
qed

theorem poll_reply_exact_witness:
  "let out = ksd_buffer_init 4096;
       j = \<lparr>dp_sequence = Some (replicate 16 49), dp_opcode = KSD_OP_WINDOW_FOCUS, dp_budget_ms = 2000,
            dp_body = Some [1, 2, 3, 4, 5, 6, 7, 8], dp_body_length = 8\<rparr>;
       (ok, out') = ksd_kwin_format_poll_reply (\<lambda>_. True) (Some (replicate 32 97)) KSD_KWIN_LANE_FAST 0 [j] out
   in ok \<and> buf_data out' = reply_text (replicate 32 97) KSD_KWIN_LANE_FAST 0 [j]"
proof -
  let ?j = "\<lparr>dp_sequence = Some (replicate 16 49), dp_opcode = KSD_OP_WINDOW_FOCUS, dp_budget_ms = 2000,
      dp_body = Some [1, 2, 3, 4, 5, 6, 7, 8], dp_body_length = 8\<rparr>"
  have ok: "reply_ok (Some (replicate 32 97)) KSD_KWIN_LANE_FAST [?j]"
    by (simp add: reply_ok_def generation_valid_def valid_sequence_def hex_string_iff list_all_iff
        hex_digit_def lane_capacity_def wire_defs)
  have len: "length (reply_text (replicate 32 97) KSD_KWIN_LANE_FAST 0 [?j]) \<le> 4096"
    by (simp add: reply_text_def field_line_def lane_name_def job_line_def job_body_def hex_text_def
        decimal_text_def nat_decimal.simps end_line_def pad_def)
  show ?thesis
    using poll_reply_exact [of "ksd_buffer_init 4096" "[?j]" "\<lambda>_. True" "Some (replicate 32 97)"
        KSD_KWIN_LANE_FAST 0] ok len
    by (auto simp: Let_def split_def ksd_buffer_init_def buffer_wf_def)
qed

end
