(* ===== verification/Budgets.thy ===== *)
theory Budgets
  imports Protocol "HOL-Library.Multiset"
begin

text \<open>
  Admission and resource budgets of the authority: the worker pool rules
  (src/src/worker_pool.c), the usage tables that count reservations per uid or per
  pid, and the reserve/release pairs for workers, KWin requests, captures and
  request assemblies (src/src/authorityd.c). Each pair runs under the authority's
  mutex, so it is one atomic step of the state machine below. Sizes are natural
  numbers: every counter is bounded far below the width of \<open>size_t\<close>, which
  the invariants here show.
\<close>

section \<open>The worker pool rules\<close>

definition KSD_MAX_AUTHORITY_WORKERS :: nat where
  [wire_defs]: "KSD_MAX_AUTHORITY_WORKERS = 128"

definition KSD_MAX_AUTHORITY_WORKERS_PER_UID :: nat where
  [wire_defs]: "KSD_MAX_AUTHORITY_WORKERS_PER_UID = 32"

definition KSD_AUTHORITY_REGISTRATION_RESERVE :: nat where
  [wire_defs]: "KSD_AUTHORITY_REGISTRATION_RESERVE = 8"

definition KSD_MAX_KWIN_INFLIGHT_PER_PID :: nat where
  [wire_defs]: "KSD_MAX_KWIN_INFLIGHT_PER_PID = 4"

text \<open>The flag returned and the value left in \<open>*from_reserve\<close>.\<close>

definition ksd_authority_admit_worker :: "nat \<Rightarrow> nat \<Rightarrow> bool \<times> bool" where
  "ksd_authority_admit_worker workers uid_workers =
     (let general = KSD_MAX_AUTHORITY_WORKERS - KSD_AUTHORITY_REGISTRATION_RESERVE
      in if workers \<ge> KSD_MAX_AUTHORITY_WORKERS then (False, False)
         else if workers < general \<and> uid_workers < KSD_MAX_AUTHORITY_WORKERS_PER_UID
         then (True, False)
         else (True, True))"

definition ksd_authority_admit_kwin :: "nat \<Rightarrow> bool" where
  "ksd_authority_admit_kwin pid_inflight \<longleftrightarrow> pid_inflight < KSD_MAX_KWIN_INFLIGHT_PER_PID"

definition ksd_authority_worker_keeps_slot :: "bool \<Rightarrow> bool \<Rightarrow> bool" where
  "ksd_authority_worker_keeps_slot from_reserve is_registration \<longleftrightarrow>
     \<not> from_reserve \<or> is_registration"

section \<open>Usage tables\<close>

record usage_slot =
  us_key :: u64
  us_count :: nat

text \<open>The scan of \<open>find_usage_slot\<close>, with the loop index and the \<open>empty\<close> candidate.\<close>

fun find_usage_from :: "usage_slot list \<Rightarrow> u64 \<Rightarrow> nat \<Rightarrow> nat option \<Rightarrow> nat option" where
  "find_usage_from [] key index vacant = vacant"
| "find_usage_from (s # slots) key index vacant =
     (if us_count s \<noteq> 0 \<and> us_key s = key then Some index
      else find_usage_from slots key (Suc index)
             (if vacant = None \<and> us_count s = 0 then Some index else vacant))"

definition find_usage_slot :: "usage_slot list \<Rightarrow> u64 \<Rightarrow> nat option" where
  "find_usage_slot slots key = find_usage_from slots key 0 None"

definition add_usage :: "usage_slot list \<Rightarrow> nat \<Rightarrow> u64 \<Rightarrow> usage_slot list" where
  "add_usage slots index key =
     slots[index := \<lparr>us_key = key, us_count = us_count (slots ! index) + 1\<rparr>]"

definition release_usage :: "usage_slot list \<Rightarrow> u64 \<Rightarrow> usage_slot list" where
  "release_usage slots key =
     (case find_usage_slot slots key of
        None \<Rightarrow> slots
      | Some index \<Rightarrow>
          if us_count (slots ! index) \<noteq> 0 \<and> us_key (slots ! index) = key
          then slots[index := (slots ! index)\<lparr>us_count := us_count (slots ! index) - 1\<rparr>]
          else slots)"

text \<open>
  The contract of a counting table: \<open>find\<close> leads to the count of a key, adding
  there and releasing move that one count by one, and a table with fewer
  outstanding reservations than slots always has room for a key.
\<close>

locale counting_table =
  fixes inv :: "'t \<Rightarrow> bool"
    and usage :: "'t \<Rightarrow> 'k \<Rightarrow> nat"
    and total :: "'t \<Rightarrow> nat"
    and capacity :: nat
    and find :: "'t \<Rightarrow> 'k \<Rightarrow> 'i option"
    and count_at :: "'t \<Rightarrow> 'i \<Rightarrow> nat"
    and add :: "'t \<Rightarrow> 'i \<Rightarrow> 'k \<Rightarrow> 't"
    and release :: "'t \<Rightarrow> 'k \<Rightarrow> 't"
  assumes find_count: "inv t \<Longrightarrow> find t k = Some i \<Longrightarrow> count_at t i = usage t k"
    and find_room: "inv t \<Longrightarrow> total t < capacity \<Longrightarrow> find t k \<noteq> None"
    and add_law: "inv t \<Longrightarrow> find t k = Some i \<Longrightarrow>
      inv (add t i k) \<and> usage (add t i k) = (usage t)(k := usage t k + 1)
        \<and> total (add t i k) = total t + 1"
    and release_law: "inv t \<Longrightarrow>
      inv (release t k) \<and> usage (release t k) = (usage t)(k := usage t k - 1)
        \<and> total (release t k) = total t - (if usage t k = 0 then 0 else 1)"
begin

text \<open>A table tracks the reservations that are outstanding, as a multiset of keys.\<close>

definition tracks :: "'t \<Rightarrow> 'k multiset \<Rightarrow> bool" where
  "tracks t M \<longleftrightarrow> inv t \<and> usage t = count M \<and> total t = size M"

lemma tracks_find:
  "tracks t M \<Longrightarrow> size M < capacity \<Longrightarrow> \<exists>i. find t k = Some i \<and> count_at t i = count M k"
  using find_room [of t k] find_count [of t k] by (auto simp: tracks_def)

lemma tracks_count: "tracks t M \<Longrightarrow> find t k = Some i \<Longrightarrow> count_at t i = count M k"
  using find_count [of t k] by (auto simp: tracks_def)

lemma tracks_add:
  "tracks t M \<Longrightarrow> find t k = Some i \<Longrightarrow> tracks (add t i k) (add_mset k M)"
  using add_law [of t k i] by (auto simp: tracks_def)

lemma tracks_release:
  assumes "tracks t M" "k \<in># M"
  shows "tracks (release t k) (M - {#k#})"
proof -
  have "usage t k \<noteq> 0" using assms by (simp add: tracks_def)
  then show ?thesis
    using release_law [of t k] assms by (simp add: tracks_def size_Diff_singleton fun_eq_iff)
qed

end

section \<open>The slot array implements the counting table\<close>

definition usage_of :: "usage_slot list \<Rightarrow> u64 \<Rightarrow> nat" where
  "usage_of slots k = sum_list (map (\<lambda>s. if us_key s = k then us_count s else 0) slots)"

definition usage_total :: "usage_slot list \<Rightarrow> nat" where
  "usage_total slots = sum_list (map us_count slots)"

definition usage_wf :: "usage_slot list \<Rightarrow> bool" where
  "usage_wf slots \<longleftrightarrow> length slots = KSD_MAX_AUTHORITY_WORKERS
     \<and> (\<forall>i<length slots. \<forall>j<length slots. us_count (slots ! i) \<noteq> 0 \<and> us_count (slots ! j) \<noteq> 0
          \<and> us_key (slots ! i) = us_key (slots ! j) \<longrightarrow> i = j)"

lemma usage_wf_distinct:
  "usage_wf slots \<Longrightarrow> i < length slots \<Longrightarrow> j < length slots \<Longrightarrow> us_count (slots ! i) \<noteq> 0 \<Longrightarrow>
     us_count (slots ! j) \<noteq> 0 \<Longrightarrow> us_key (slots ! i) = us_key (slots ! j) \<Longrightarrow> i = j"
  unfolding usage_wf_def by blast

lemma usage_wf_update_same_key:
  assumes "usage_wf slots" "i < length slots" "us_count (slots ! i) \<noteq> 0" "us_key s = us_key (slots ! i)"
  shows "usage_wf (slots[i := s])"
proof -
  let ?t = "slots[i := s]"
  have keep: "us_count (slots ! j) \<noteq> 0 \<and> us_key (slots ! j) = us_key (?t ! j)"
    if "us_count (?t ! j) \<noteq> 0" for j
    using that assms by (cases "j = i") auto
  show ?thesis
    unfolding usage_wf_def
  proof (intro conjI allI impI)
    fix a b
    assume "a < length ?t" "b < length ?t"
      "us_count (?t ! a) \<noteq> 0 \<and> us_count (?t ! b) \<noteq> 0 \<and> us_key (?t ! a) = us_key (?t ! b)"
    then show "a = b"
      using keep [of a] keep [of b] usage_wf_distinct [OF assms(1), of a b] by simp
  qed (use assms(1) in \<open>simp add: usage_wf_def\<close>)
qed

lemma find_usage_from_eq:
  "find_usage_from slots key n vacant =
     (case first_index (\<lambda>s. us_count s \<noteq> 0 \<and> us_key s = key) slots of
        Some i \<Rightarrow> Some (n + i)
      | None \<Rightarrow> (case vacant of Some e \<Rightarrow> Some e
                 | None \<Rightarrow> map_option ((+) n) (first_index (\<lambda>s. us_count s = 0) slots)))"
  by (induction slots arbitrary: n vacant)
     (auto simp: option.map_comp comp_def split: option.splits intro!: option.map_cong)

lemma find_usage_slot_eq:
  "find_usage_slot slots key =
     (case first_index (\<lambda>s. us_count s \<noteq> 0 \<and> us_key s = key) slots of
        Some i \<Rightarrow> Some i
      | None \<Rightarrow> first_index (\<lambda>s. us_count s = 0) slots)"
  by (simp add: find_usage_slot_def find_usage_from_eq option.map_ident_strong split: option.splits)

lemma sum_list_single:
  fixes f :: "'a \<Rightarrow> nat"
  assumes "i < length xs" "\<And>j. j < length xs \<Longrightarrow> j \<noteq> i \<Longrightarrow> f (xs ! j) = 0"
  shows "sum_list (map f xs) = f (xs ! i)"
proof -
  have "sum_list (map f xs) = (\<Sum>j = 0..<length xs. f (xs ! j))"
    by (simp add: sum_list_sum_nth)
  also have "\<dots> = (\<Sum>j\<in>{i}. f (xs ! j))"
    using assms by (intro sum.mono_neutral_right) auto
  finally show ?thesis by simp
qed

lemma usage_at:
  assumes "usage_wf slots" "find_usage_slot slots k = Some i"
  shows "i < length slots" "us_count (slots ! i) = usage_of slots k"
    "us_count (slots ! i) \<noteq> 0 \<Longrightarrow> us_key (slots ! i) = k"
proof -
  let ?hit = "\<lambda>s. us_count s \<noteq> 0 \<and> us_key s = k"
  have *: "i < length slots \<and> us_count (slots ! i) = usage_of slots k
      \<and> (us_count (slots ! i) \<noteq> 0 \<longrightarrow> us_key (slots ! i) = k)"
  proof (cases "first_index ?hit slots")
    case None
    then have i: "first_index (\<lambda>s. us_count s = 0) slots = Some i"
      using assms(2) by (simp add: find_usage_slot_eq)
    have "usage_of slots k = 0"
      using None by (auto simp: usage_of_def first_index_None)
    then show ?thesis using first_index_SomeD [OF i] by simp
  next
    case (Some j)
    then have [simp]: "j = i" using assms(2) by (simp add: find_usage_slot_eq)
    note D = first_index_SomeD [OF Some [simplified]]
    have "usage_of slots k = (if us_key (slots ! i) = k then us_count (slots ! i) else 0)"
      unfolding usage_of_def
    proof (rule sum_list_single [OF D(1)])
      fix j
      assume "j < length slots" "j \<noteq> i"
      then show "(if us_key (slots ! j) = k then us_count (slots ! j) else 0) = 0"
        using D(1,2) usage_wf_distinct [OF assms(1), of j i] by auto
    qed
    then show ?thesis using D by simp
  qed
  then show "i < length slots" "us_count (slots ! i) = usage_of slots k"
    "us_count (slots ! i) \<noteq> 0 \<Longrightarrow> us_key (slots ! i) = k" by auto
qed

lemma usage_of_update:
  assumes "i < length slots"
  shows "usage_of (slots[i := s]) k + (if us_key (slots ! i) = k then us_count (slots ! i) else 0)
       = usage_of slots k + (if us_key s = k then us_count s else 0)"
  unfolding usage_of_def by (rule sum_list_map_update [OF assms])

lemma usage_total_update:
  "i < length slots \<Longrightarrow>
     usage_total (slots[i := s]) + us_count (slots ! i) = usage_total slots + us_count s"
  unfolding usage_total_def by (rule sum_list_map_update)

lemma full_table_total:
  "(\<forall>s\<in>set slots. us_count s \<noteq> 0) \<Longrightarrow> length slots \<le> usage_total slots"
  unfolding usage_total_def by (induction slots) auto

lemma usage_zero_no_slot:
  "usage_of slots k = 0 \<Longrightarrow> i < length slots \<Longrightarrow> us_count (slots ! i) \<noteq> 0 \<Longrightarrow> us_key (slots ! i) \<noteq> k"
  using member_le_sum_map [of "slots ! i" slots "\<lambda>s. if us_key s = k then us_count s else 0"]
  unfolding usage_of_def by (metis (mono_tags, lifting) le_zero_eq nth_mem)

lemma add_usage_law:
  assumes "usage_wf slots" "find_usage_slot slots k = Some i"
  shows "usage_wf (add_usage slots i k) \<and> usage_of (add_usage slots i k) = (usage_of slots)(k := usage_of slots k + 1)
     \<and> usage_total (add_usage slots i k) = usage_total slots + 1"
proof (intro conjI ext)
  note at = usage_at [OF assms]
  have other: "us_key (slots ! j) \<noteq> k" if "j < length slots" "j \<noteq> i" "us_count (slots ! j) \<noteq> 0" for j
    using that at usage_wf_distinct [OF assms(1), of i j] usage_zero_no_slot [of slots k j]
    by (cases "us_count (slots ! i) = 0") auto
  show "usage_wf (add_usage slots i k)"
    using assms(1) at(1) other by (auto simp: usage_wf_def add_usage_def nth_list_update)
  show "usage_of (add_usage slots i k) x = ((usage_of slots)(k := usage_of slots k + 1)) x" for x
    using usage_of_update [OF at(1), of "\<lparr>us_key = k, us_count = us_count (slots ! i) + 1\<rparr>" x] at
    by (cases "us_count (slots ! i) = 0") (auto simp: add_usage_def split: if_splits)
  show "usage_total (add_usage slots i k) = usage_total slots + 1"
    using usage_total_update [OF at(1), of "\<lparr>us_key = k, us_count = us_count (slots ! i) + 1\<rparr>"]
    by (simp add: add_usage_def)
qed

lemma release_usage_law:
  assumes "usage_wf slots"
  shows "usage_wf (release_usage slots k) \<and> usage_of (release_usage slots k) = (usage_of slots)(k := usage_of slots k - 1)
     \<and> usage_total (release_usage slots k) = usage_total slots - (if usage_of slots k = 0 then 0 else 1)"
proof (cases "\<exists>i. find_usage_slot slots k = Some i \<and> us_count (slots ! i) \<noteq> 0")
  case False
  then have same: "release_usage slots k = slots"
    by (auto simp: release_usage_def split: option.splits)
  have "first_index (\<lambda>s. us_count s \<noteq> 0 \<and> us_key s = k) slots = None"
    using False first_index_SomeD(2) [of "\<lambda>s. us_count s \<noteq> 0 \<and> us_key s = k" slots]
    by (fastforce simp: find_usage_slot_eq split: option.splits)
  then have "usage_of slots k = 0" by (auto simp: usage_of_def first_index_None)
  then show ?thesis using same assms by auto
next
  case True
  then obtain i where i: "find_usage_slot slots k = Some i" "us_count (slots ! i) \<noteq> 0" by blast
  note at = usage_at [OF assms i(1)]
  let ?s = "(slots ! i)\<lparr>us_count := us_count (slots ! i) - 1\<rparr>"
  have eq: "release_usage slots k = slots[i := ?s]"
    using i at by (simp add: release_usage_def)
  have "usage_wf (slots[i := ?s])"
    by (rule usage_wf_update_same_key [OF assms at(1) i(2)]) simp
  moreover have "usage_of (slots[i := ?s]) x = ((usage_of slots)(k := usage_of slots k - 1)) x" for x
    using usage_of_update [OF at(1), of ?s x] at i(2) by (auto split: if_splits)
  moreover have "usage_total (slots[i := ?s]) = usage_total slots - 1"
    using usage_total_update [OF at(1), of ?s] i(2) by simp
  ultimately show ?thesis using eq at i(2) by auto
qed

interpretation slots: counting_table usage_wf usage_of usage_total KSD_MAX_AUTHORITY_WORKERS
    find_usage_slot "\<lambda>slots i. us_count (slots ! i)" add_usage release_usage
proof
  fix t k i
  assume "usage_wf t" "find_usage_slot t k = Some i"
  then show "us_count (t ! i) = usage_of t k" by (rule usage_at)
next
  fix t k
  assume "usage_wf t" "usage_total t < KSD_MAX_AUTHORITY_WORKERS"
  then have "\<not> (\<forall>s\<in>set t. us_count s \<noteq> 0)"
    using full_table_total [of t] unfolding usage_wf_def by linarith
  then show "find_usage_slot t k \<noteq> None"
    using first_index_exists [of _ t "\<lambda>s. us_count s = 0"]
    by (auto simp: find_usage_slot_eq split: option.splits)
qed (simp_all add: add_usage_law release_usage_law)

section \<open>The reserve and release pairs\<close>

definition KSD_MAX_CONCURRENT_CAPTURES :: nat where
  [wire_defs]: "KSD_MAX_CONCURRENT_CAPTURES = 4"

definition KSD_MAX_CAPTURES_PER_UID :: nat where
  [wire_defs]: "KSD_MAX_CAPTURES_PER_UID = 2"

definition KSD_MAX_CAPTURES_PER_PID :: nat where
  [wire_defs]: "KSD_MAX_CAPTURES_PER_PID = 1"

definition KSD_MAX_AUTHORITY_INFLIGHT_BYTES :: nat where
  [wire_defs]: "KSD_MAX_AUTHORITY_INFLIGHT_BYTES =
     KSD_MAX_CONCURRENT_CAPTURES * KSD_MAX_CAPTURE_BYTES + 16 * 1024 * 1024"

definition KSD_MAX_AUTHORITY_ASSEMBLY_BYTES :: nat where
  [wire_defs]: "KSD_MAX_AUTHORITY_ASSEMBLY_BYTES = 64 * 1024 * 1024"

definition KSD_MAX_ASSEMBLIES_PER_UID :: nat where
  [wire_defs]: "KSD_MAX_ASSEMBLIES_PER_UID = 4"

text \<open>The part of \<open>authority_state\<close> the budgets live in.\<close>

record budgets =
  bud_workers :: nat
  bud_inflight_bytes :: nat
  bud_assembly_bytes :: nat
  bud_worker_usage :: "usage_slot list"
  bud_assembly_usage :: "usage_slot list"
  bud_capture_usage :: "usage_slot list"
  bud_capture_pid_usage :: "usage_slot list"
  bud_kwin_inflight :: "usage_slot list"

definition uid_key :: "u32 \<Rightarrow> u64" where
  "uid_key uid = ucast uid"

definition pid_key :: "i32 \<Rightarrow> u64" where
  "pid_key pid = scast pid"

definition no_usage :: "usage_slot list" where
  "no_usage = replicate KSD_MAX_AUTHORITY_WORKERS \<lparr>us_key = 0, us_count = 0\<rparr>"

definition budgets_zero :: budgets where
  "budgets_zero = \<lparr>bud_workers = 0, bud_inflight_bytes = 0, bud_assembly_bytes = 0,
     bud_worker_usage = no_usage, bud_assembly_usage = no_usage, bud_capture_usage = no_usage,
     bud_capture_pid_usage = no_usage, bud_kwin_inflight = no_usage\<rparr>"

text \<open>Reserved, the \<open>from_reserve\<close> flag, and the state.\<close>

definition reserve_worker :: "budgets \<Rightarrow> u32 \<Rightarrow> bool \<times> bool \<times> budgets" where
  "reserve_worker st uid =
     (case find_usage_slot (bud_worker_usage st) (uid_key uid) of
        None \<Rightarrow> (False, False, st)
      | Some slot \<Rightarrow>
          (case ksd_authority_admit_worker (bud_workers st) (us_count (bud_worker_usage st ! slot)) of
             (False, from_reserve) \<Rightarrow> (False, from_reserve, st)
           | (True, from_reserve) \<Rightarrow>
               (True, from_reserve,
                st\<lparr>bud_workers := bud_workers st + 1,
                   bud_worker_usage := add_usage (bud_worker_usage st) slot (uid_key uid)\<rparr>)))"

text \<open>The end of \<open>connection_worker\<close>.\<close>

definition release_worker :: "budgets \<Rightarrow> u32 \<Rightarrow> budgets" where
  "release_worker st uid =
     st\<lparr>bud_workers := bud_workers st - 1,
        bud_worker_usage := release_usage (bud_worker_usage st) (uid_key uid)\<rparr>"

definition reserve_kwin_slot :: "budgets \<Rightarrow> i32 \<Rightarrow> bool \<times> budgets" where
  "reserve_kwin_slot st pid =
     (case find_usage_slot (bud_kwin_inflight st) (pid_key pid) of
        None \<Rightarrow> (False, st)
      | Some slot \<Rightarrow>
          if ksd_authority_admit_kwin (us_count (bud_kwin_inflight st ! slot))
          then (True, st\<lparr>bud_kwin_inflight := add_usage (bud_kwin_inflight st) slot (pid_key pid)\<rparr>)
          else (False, st))"

definition release_kwin_slot :: "budgets \<Rightarrow> i32 \<Rightarrow> budgets" where
  "release_kwin_slot st pid =
     st\<lparr>bud_kwin_inflight := release_usage (bud_kwin_inflight st) (pid_key pid)\<rparr>"

definition reserve_capture_memory :: "budgets \<Rightarrow> u32 \<Rightarrow> i32 \<Rightarrow> bool \<times> budgets" where
  "reserve_capture_memory st uid pid =
     (case (find_usage_slot (bud_capture_usage st) (uid_key uid),
            find_usage_slot (bud_capture_pid_usage st) (pid_key pid)) of
        (Some uid_slot, Some pid_slot) \<Rightarrow>
          if bud_inflight_bytes st \<le> KSD_MAX_AUTHORITY_INFLIGHT_BYTES - KSD_MAX_CAPTURE_BYTES
             \<and> us_count (bud_capture_usage st ! uid_slot) < KSD_MAX_CAPTURES_PER_UID
             \<and> us_count (bud_capture_pid_usage st ! pid_slot) < KSD_MAX_CAPTURES_PER_PID
          then (True, st\<lparr>bud_inflight_bytes := bud_inflight_bytes st + KSD_MAX_CAPTURE_BYTES,
                 bud_capture_usage := add_usage (bud_capture_usage st) uid_slot (uid_key uid),
                 bud_capture_pid_usage := add_usage (bud_capture_pid_usage st) pid_slot (pid_key pid)\<rparr>)
          else (False, st)
      | _ \<Rightarrow> (False, st))"

definition release_capture_memory :: "budgets \<Rightarrow> u32 \<Rightarrow> i32 \<Rightarrow> budgets" where
  "release_capture_memory st uid pid =
     (let st = (if bud_inflight_bytes st \<ge> KSD_MAX_CAPTURE_BYTES
                then st\<lparr>bud_inflight_bytes := bud_inflight_bytes st - KSD_MAX_CAPTURE_BYTES\<rparr> else st)
      in st\<lparr>bud_capture_usage := release_usage (bud_capture_usage st) (uid_key uid),
            bud_capture_pid_usage := release_usage (bud_capture_pid_usage st) (pid_key pid)\<rparr>)"

definition reserve_assembly_memory :: "budgets \<Rightarrow> u32 \<Rightarrow> bool \<times> budgets" where
  "reserve_assembly_memory st uid =
     (case find_usage_slot (bud_assembly_usage st) (uid_key uid) of
        None \<Rightarrow> (False, st)
      | Some slot \<Rightarrow>
          if bud_assembly_bytes st \<le> KSD_MAX_AUTHORITY_ASSEMBLY_BYTES - KSD_MAX_REQUEST_TOTAL_PAYLOAD
             \<and> us_count (bud_assembly_usage st ! slot) < KSD_MAX_ASSEMBLIES_PER_UID
          then (True, st\<lparr>bud_assembly_bytes := bud_assembly_bytes st + KSD_MAX_REQUEST_TOTAL_PAYLOAD,
                 bud_assembly_usage := add_usage (bud_assembly_usage st) slot (uid_key uid)\<rparr>)
          else (False, st))"

definition release_assembly_memory :: "budgets \<Rightarrow> u32 \<Rightarrow> budgets" where
  "release_assembly_memory st uid =
     (let st = (if bud_assembly_bytes st \<ge> KSD_MAX_REQUEST_TOTAL_PAYLOAD
                then st\<lparr>bud_assembly_bytes := bud_assembly_bytes st - KSD_MAX_REQUEST_TOTAL_PAYLOAD\<rparr>
                else st)
      in st\<lparr>bud_assembly_usage := release_usage (bud_assembly_usage st) (uid_key uid)\<rparr>)"

section \<open>Connections and their interleavings\<close>

datatype conn_kind = Unclassified | Registration | Public | Refused

record connection =
  cn_uid :: u32
  cn_pid :: i32
  cn_from_reserve :: bool
  cn_kind :: conn_kind
  cn_kwin :: bool
  cn_capture :: bool
  cn_assembly :: bool

definition idle :: "connection \<Rightarrow> bool" where
  "idle c \<longleftrightarrow> \<not> cn_kwin c \<and> \<not> cn_capture c \<and> \<not> cn_assembly c"

text \<open>
  What \<open>connection_worker\<close> makes of a connection: the first four bytes it could
  peek, if any, and whether the socket timeouts could be set.
\<close>

definition ksd_backend_registration_magic :: bytes where
  "ksd_backend_registration_magic = ascii ''KSDB''"

definition public_magic :: bytes where
  "public_magic = [KSD_FRAME_MAGIC_0, KSD_FRAME_MAGIC_1, KSD_FRAME_MAGIC_2, KSD_FRAME_MAGIC_3]"

definition classify :: "bytes option \<Rightarrow> bool \<Rightarrow> connection \<Rightarrow> connection" where
  "classify peeked timeouts_set c =
     (case peeked of
        None \<Rightarrow> c\<lparr>cn_kind := Refused\<rparr>
      | Some magic \<Rightarrow>
          let registration = (magic = ksd_backend_registration_magic) in
          if \<not> ksd_authority_worker_keeps_slot (cn_from_reserve c) registration then c\<lparr>cn_kind := Refused\<rparr>
          else if registration then c\<lparr>cn_kind := Registration\<rparr>
          else if magic = public_magic then
            if timeouts_set then c\<lparr>cn_kind := Public\<rparr> else c\<lparr>cn_kind := Refused\<rparr>
          else c\<lparr>cn_kind := Refused\<rparr>)"

text \<open>
  One critical section of one connection thread (or of the accept loop). The world
  is the shared state and the connections alive, each with what its thread holds;
  a thread is sequential, so it holds at most one reservation of each sort and
  ends only after it gave all of them back.
\<close>

inductive budget_step :: "budgets \<times> connection list \<Rightarrow> budgets \<times> connection list \<Rightarrow> bool" where
  Accept: "uid \<noteq> 0 \<Longrightarrow> reserve_worker st uid = (True, fr, st') \<Longrightarrow>
    budget_step (st, cs) (st', \<lparr>cn_uid = uid, cn_pid = pid, cn_from_reserve = fr,
      cn_kind = Unclassified, cn_kwin = False, cn_capture = False, cn_assembly = False\<rparr> # cs)"
| Classify: "i < length cs \<Longrightarrow> cn_kind (cs ! i) = Unclassified \<Longrightarrow>
    budget_step (st, cs) (st, cs[i := classify peeked timeouts_set (cs ! i)])"
| Close: "i < length cs \<Longrightarrow> idle (cs ! i) \<Longrightarrow>
    budget_step (st, cs) (release_worker st (cn_uid (cs ! i)), take i cs @ drop (Suc i) cs)"
| Take_Kwin: "i < length cs \<Longrightarrow> cn_kind (cs ! i) = Public \<Longrightarrow> \<not> cn_kwin (cs ! i) \<Longrightarrow>
    reserve_kwin_slot st (cn_pid (cs ! i)) = (True, st') \<Longrightarrow>
    budget_step (st, cs) (st', cs[i := (cs ! i)\<lparr>cn_kwin := True\<rparr>])"
| Drop_Kwin: "i < length cs \<Longrightarrow> cn_kwin (cs ! i) \<Longrightarrow>
    budget_step (st, cs) (release_kwin_slot st (cn_pid (cs ! i)), cs[i := (cs ! i)\<lparr>cn_kwin := False\<rparr>])"
| Take_Capture: "i < length cs \<Longrightarrow> cn_kind (cs ! i) = Public \<Longrightarrow> \<not> cn_capture (cs ! i) \<Longrightarrow>
    reserve_capture_memory st (cn_uid (cs ! i)) (cn_pid (cs ! i)) = (True, st') \<Longrightarrow>
    budget_step (st, cs) (st', cs[i := (cs ! i)\<lparr>cn_capture := True\<rparr>])"
| Drop_Capture: "i < length cs \<Longrightarrow> cn_capture (cs ! i) \<Longrightarrow>
    budget_step (st, cs) (release_capture_memory st (cn_uid (cs ! i)) (cn_pid (cs ! i)),
      cs[i := (cs ! i)\<lparr>cn_capture := False\<rparr>])"
| Take_Assembly: "i < length cs \<Longrightarrow> cn_kind (cs ! i) = Public \<Longrightarrow> \<not> cn_assembly (cs ! i) \<Longrightarrow>
    reserve_assembly_memory st (cn_uid (cs ! i)) = (True, st') \<Longrightarrow>
    budget_step (st, cs) (st', cs[i := (cs ! i)\<lparr>cn_assembly := True\<rparr>])"
| Drop_Assembly: "i < length cs \<Longrightarrow> cn_assembly (cs ! i) \<Longrightarrow>
    budget_step (st, cs) (release_assembly_memory st (cn_uid (cs ! i)),
      cs[i := (cs ! i)\<lparr>cn_assembly := False\<rparr>])"

inductive budget_reachable :: "budgets \<Rightarrow> connection list \<Rightarrow> bool" where
  Start: "budget_reachable budgets_zero []"
| Step: "budget_reachable st cs \<Longrightarrow> budget_step (st, cs) (st', cs') \<Longrightarrow> budget_reachable st' cs'"

definition holders :: "(connection \<Rightarrow> bool) \<Rightarrow> (connection \<Rightarrow> 'k) \<Rightarrow> connection list \<Rightarrow> 'k multiset" where
  "holders P key cs = image_mset key (filter_mset P (mset cs))"

definition uid_keys :: "(connection \<Rightarrow> bool) \<Rightarrow> connection list \<Rightarrow> u64 multiset" where
  "uid_keys P cs = holders P (uid_key \<circ> cn_uid) cs"

definition pid_keys :: "(connection \<Rightarrow> bool) \<Rightarrow> connection list \<Rightarrow> u64 multiset" where
  "pid_keys P cs = holders P (pid_key \<circ> cn_pid) cs"

definition general :: "connection \<Rightarrow> bool" where
  "general c \<longleftrightarrow> \<not> cn_from_reserve c"

section \<open>Holders as multisets\<close>

lemma size_holders [simp]: "size (holders P key cs) = length (filter P cs)"
  by (simp add: holders_def size_mset flip: mset_filter)

lemma size_keys [simp]:
  "size (uid_keys P cs) = length (filter P cs)" "size (pid_keys P cs) = length (filter P cs)"
  by (simp_all add: uid_keys_def pid_keys_def)

lemma holders_Cons [simp]:
  "holders P key [] = {#}"
  "holders P key (c # cs) = (if P c then add_mset (key c) (holders P key cs) else holders P key cs)"
  by (simp_all add: holders_def)

lemma mset_at: "i < length cs \<Longrightarrow> mset cs = add_mset (cs ! i) (mset (take i cs @ drop (Suc i) cs))"
  by (subst id_take_nth_drop [of i cs]) simp_all

lemma mset_update_at:
  "i < length cs \<Longrightarrow> mset (cs[i := c]) = add_mset c (mset (take i cs @ drop (Suc i) cs))"
  by (simp add: upd_conv_take_nth_drop)

lemma holders_remove:
  "i < length cs \<Longrightarrow> holders P key cs =
     (if P (cs ! i) then add_mset (key (cs ! i)) (holders P key (take i cs @ drop (Suc i) cs))
      else holders P key (take i cs @ drop (Suc i) cs))"
  unfolding holders_def by (subst mset_at) auto

lemma holders_update:
  "i < length cs \<Longrightarrow> holders P key (cs[i := c]) =
     (if P c then add_mset (key c) (holders P key (take i cs @ drop (Suc i) cs))
      else holders P key (take i cs @ drop (Suc i) cs))"
  unfolding holders_def by (simp add: mset_update_at)

lemma holders_same:
  "i < length cs \<Longrightarrow> P c = P (cs ! i) \<Longrightarrow> key c = key (cs ! i) \<Longrightarrow>
     holders P key (cs[i := c]) = holders P key cs"
  by (simp add: holders_update holders_remove [of i cs])

lemma holders_gain:
  "i < length cs \<Longrightarrow> \<not> P (cs ! i) \<Longrightarrow> P c \<Longrightarrow> key c = key (cs ! i) \<Longrightarrow>
     holders P key (cs[i := c]) = add_mset (key (cs ! i)) (holders P key cs)"
  by (simp add: holders_update holders_remove [of i cs P key])

lemma holders_lose:
  "i < length cs \<Longrightarrow> P (cs ! i) \<Longrightarrow> \<not> P c \<Longrightarrow>
     holders P key (cs[i := c]) = holders P key cs - {#key (cs ! i)#} \<and> key (cs ! i) \<in># holders P key cs"
  by (simp add: holders_update holders_remove [of i cs P key])

lemma holders_without:
  "i < length cs \<Longrightarrow> holders P key (take i cs @ drop (Suc i) cs) =
     (if P (cs ! i) then holders P key cs - {#key (cs ! i)#} else holders P key cs)
   \<and> (P (cs ! i) \<longrightarrow> key (cs ! i) \<in># holders P key cs)"
  by (simp add: holders_remove [of i cs P key])

lemma filter_conv_holders: "length (filter P cs) = size (holders P id cs)"
  by simp

section \<open>Every critical section keeps the books balanced\<close>

lemma no_usage_tracks: "slots.tracks no_usage {#}"
  by (simp add: slots.tracks_def usage_wf_def no_usage_def usage_of_def usage_total_def
      sum_list_replicate fun_eq_iff)

lemma reserve_worker_True:
  assumes "slots.tracks (bud_worker_usage st) M" "reserve_worker st uid = (True, fr, st')"
  obtains t where "st' = st\<lparr>bud_workers := bud_workers st + 1, bud_worker_usage := t\<rparr>"
    "slots.tracks t (add_mset (uid_key uid) M)"
    "bud_workers st < 128" "\<not> fr \<Longrightarrow> bud_workers st < 120 \<and> count M (uid_key uid) < 32"
  using assms slots.tracks_count [OF assms(1)] slots.tracks_add [OF assms(1)]
  by (auto simp: reserve_worker_def ksd_authority_admit_worker_def wire_defs Let_def
      split: option.splits if_splits)

lemma reserve_kwin_True:
  assumes "slots.tracks (bud_kwin_inflight st) M" "reserve_kwin_slot st pid = (True, st')"
  obtains t where "st' = st\<lparr>bud_kwin_inflight := t\<rparr>"
    "slots.tracks t (add_mset (pid_key pid) M)" "count M (pid_key pid) < 4"
  using assms slots.tracks_count [OF assms(1)] slots.tracks_add [OF assms(1)]
  by (auto simp: reserve_kwin_slot_def ksd_authority_admit_kwin_def wire_defs
      split: option.splits if_splits)

lemma reserve_capture_True:
  assumes "slots.tracks (bud_capture_usage st) M" "slots.tracks (bud_capture_pid_usage st) N"
    and "reserve_capture_memory st uid pid = (True, st')"
  obtains t u where "st' = st\<lparr>bud_inflight_bytes := bud_inflight_bytes st + KSD_MAX_CAPTURE_BYTES,
      bud_capture_usage := t, bud_capture_pid_usage := u\<rparr>"
    "slots.tracks t (add_mset (uid_key uid) M)" "slots.tracks u (add_mset (pid_key pid) N)"
    "count M (uid_key uid) < 2" "count N (pid_key pid) < 1"
    "bud_inflight_bytes st \<le> KSD_MAX_AUTHORITY_INFLIGHT_BYTES - KSD_MAX_CAPTURE_BYTES"
  using assms(3) slots.tracks_count [OF assms(1)] slots.tracks_add [OF assms(1)]
    slots.tracks_count [OF assms(2)] slots.tracks_add [OF assms(2)]
  by (auto simp: reserve_capture_memory_def KSD_MAX_CAPTURES_PER_UID_def KSD_MAX_CAPTURES_PER_PID_def
      split: option.splits if_splits)

lemma reserve_assembly_True:
  assumes "slots.tracks (bud_assembly_usage st) M" "reserve_assembly_memory st uid = (True, st')"
  obtains t where "st' = st\<lparr>bud_assembly_bytes := bud_assembly_bytes st + KSD_MAX_REQUEST_TOTAL_PAYLOAD,
      bud_assembly_usage := t\<rparr>"
    "slots.tracks t (add_mset (uid_key uid) M)" "count M (uid_key uid) < 4"
    "bud_assembly_bytes st \<le> KSD_MAX_AUTHORITY_ASSEMBLY_BYTES - KSD_MAX_REQUEST_TOTAL_PAYLOAD"
  using assms(2) slots.tracks_count [OF assms(1)] slots.tracks_add [OF assms(1)]
  by (auto simp: reserve_assembly_memory_def KSD_MAX_ASSEMBLIES_PER_UID_def
      split: option.splits if_splits)

text \<open>
  When fewer reservations are out than the table has slots, a refusal means exactly
  that a documented limit is reached.
\<close>

lemma reserve_worker_iff:
  assumes "slots.tracks (bud_worker_usage st) M" "size M = bud_workers st"
  shows "fst (reserve_worker st uid) \<longleftrightarrow> bud_workers st < 128"
proof (cases "bud_workers st < 128")
  case True
  then obtain i where "find_usage_slot (bud_worker_usage st) (uid_key uid) = Some i"
    using slots.tracks_find [OF assms(1)] assms(2) by (auto simp: wire_defs)
  with True show ?thesis
    by (simp add: reserve_worker_def ksd_authority_admit_worker_def wire_defs Let_def)
qed (auto simp: reserve_worker_def ksd_authority_admit_worker_def wire_defs split: option.splits)

lemma reserve_kwin_iff:
  assumes "slots.tracks (bud_kwin_inflight st) M" "size M < 128"
  shows "fst (reserve_kwin_slot st pid) \<longleftrightarrow> count M (pid_key pid) < 4"
  using slots.tracks_find [OF assms(1), of "pid_key pid"] assms(2)
  by (auto simp: reserve_kwin_slot_def ksd_authority_admit_kwin_def wire_defs split: if_splits)

lemma reserve_capture_iff:
  assumes "slots.tracks (bud_capture_usage st) M" "size M < 128"
    and "slots.tracks (bud_capture_pid_usage st) N" "size N < 128"
  shows "fst (reserve_capture_memory st uid pid) \<longleftrightarrow>
    bud_inflight_bytes st \<le> KSD_MAX_AUTHORITY_INFLIGHT_BYTES - KSD_MAX_CAPTURE_BYTES
    \<and> count M (uid_key uid) < 2 \<and> count N (pid_key pid) < 1"
  using slots.tracks_find [OF assms(1), of "uid_key uid"] assms(2)
    slots.tracks_find [OF assms(3), of "pid_key pid"] assms(4)
  by (auto simp: reserve_capture_memory_def KSD_MAX_CAPTURES_PER_UID_def KSD_MAX_CAPTURES_PER_PID_def
      KSD_MAX_AUTHORITY_WORKERS_def split: if_splits)

lemma reserve_assembly_iff:
  assumes "slots.tracks (bud_assembly_usage st) M" "size M < 128"
  shows "fst (reserve_assembly_memory st uid) \<longleftrightarrow>
    bud_assembly_bytes st \<le> KSD_MAX_AUTHORITY_ASSEMBLY_BYTES - KSD_MAX_REQUEST_TOTAL_PAYLOAD
    \<and> count M (uid_key uid) < 4"
  using slots.tracks_find [OF assms(1), of "uid_key uid"] assms(2)
  by (auto simp: reserve_assembly_memory_def KSD_MAX_ASSEMBLIES_PER_UID_def
      KSD_MAX_AUTHORITY_WORKERS_def split: if_splits)

lemma filter_gain:
  "i < length cs \<Longrightarrow> \<not> P (cs ! i) \<Longrightarrow> P c \<Longrightarrow>
     length (filter P (cs[i := c])) = Suc (length (filter P cs))"
  using length_filter_update [of i cs P c] by simp

lemma filter_lose:
  "i < length cs \<Longrightarrow> P (cs ! i) \<Longrightarrow> \<not> P c \<Longrightarrow>
     length (filter P cs) = Suc (length (filter P (cs[i := c])))"
  using length_filter_update [of i cs P c] by simp

lemma filter_same:
  "i < length cs \<Longrightarrow> P c = P (cs ! i) \<Longrightarrow> length (filter P (cs[i := c])) = length (filter P cs)"
  using length_filter_update [of i cs P c] by (auto split: if_splits)

lemma filter_without:
  "i < length cs \<Longrightarrow> length (filter P cs) =
     length (filter P (take i cs @ drop (Suc i) cs)) + of_bool (P (cs ! i))"
  by (subst id_take_nth_drop [of i cs]) auto

lemmas keys_defs = uid_keys_def pid_keys_def

text \<open>No key has more than \<open>n\<close> reservations.\<close>

definition capped :: "nat \<Rightarrow> 'k multiset \<Rightarrow> bool" where
  "capped n M \<longleftrightarrow> (\<forall>k. count M k \<le> n)"

lemma capped_empty [simp]: "capped n {#}"
  by (simp add: capped_def)

lemma capped_lose [simp]: "capped n M \<Longrightarrow> capped n (M - {#x#})"
  by (auto simp: capped_def intro: le_trans [OF diff_le_self])

lemma capped_gain [simp]: "capped n M \<Longrightarrow> count M x < n \<Longrightarrow> capped n (add_mset x M)"
  by (simp add: capped_def)

text \<open>
  The ledger: all the invariant needs to know about the connections is who holds
  what, as multisets of keys: all workers \<open>W\<close>, the general ones \<open>G\<close>, KWin
  requests \<open>K\<close>, captures by uid \<open>C\<close> and by pid \<open>D\<close>, assemblies \<open>A\<close>.
\<close>

definition ledger :: "budgets \<Rightarrow> u64 multiset \<Rightarrow> u64 multiset \<Rightarrow> u64 multiset \<Rightarrow> u64 multiset \<Rightarrow>
    u64 multiset \<Rightarrow> u64 multiset \<Rightarrow> bool" where
  "ledger st W G K C D A \<longleftrightarrow>
     slots.tracks (bud_worker_usage st) W \<and> slots.tracks (bud_kwin_inflight st) K
   \<and> slots.tracks (bud_capture_usage st) C \<and> slots.tracks (bud_capture_pid_usage st) D
   \<and> slots.tracks (bud_assembly_usage st) A
   \<and> bud_workers st = size W \<and> bud_inflight_bytes st = size C * KSD_MAX_CAPTURE_BYTES
   \<and> bud_assembly_bytes st = size A * KSD_MAX_REQUEST_TOTAL_PAYLOAD
   \<and> size W \<le> 128 \<and> size G \<le> 120 \<and> capped 32 G \<and> capped 4 K
   \<and> size C \<le> 4 \<and> capped 2 C \<and> capped 1 D
   \<and> size A \<le> 16 \<and> capped 4 A"

lemma ledger_accept:
  assumes "ledger st W G K C D A" "G \<subseteq># W" "reserve_worker st uid = (True, fr, st')"
  shows "ledger st' (add_mset (uid_key uid) W) (if fr then G else add_mset (uid_key uid) G) K C D A"
proof -
  have "slots.tracks (bud_worker_usage st) W" using assms(1) by (simp add: ledger_def)
  from reserve_worker_True [OF this assms(3)] obtain t where
    "st' = st\<lparr>bud_workers := bud_workers st + 1, bud_worker_usage := t\<rparr>"
    "slots.tracks t (add_mset (uid_key uid) W)" "bud_workers st < 128"
    "\<not> fr \<longrightarrow> bud_workers st < 120 \<and> count W (uid_key uid) < 32"
    by metis
  moreover have "count G (uid_key uid) \<le> count W (uid_key uid)" "size G \<le> size W"
    using assms(2) by (auto intro: mset_subset_eq_count size_mset_mono)
  ultimately show ?thesis using assms(1) by (auto simp: ledger_def)
qed

lemma ledger_close:
  assumes "ledger st W G K C D A" "uid_key uid \<in># W"
  shows "ledger (release_worker st uid) (W - {#uid_key uid#}) (if g then G - {#uid_key uid#} else G) K C D A"
proof -
  have "size (G - {#uid_key uid#}) \<le> 120"
    using assms(1) by (auto simp: ledger_def intro: order_trans [OF size_Diff1_le])
  moreover from assms(2) obtain n where "size W = Suc n"
    by (metis size_Suc_Diff1)
  ultimately show ?thesis
    using assms slots.tracks_release [of "bud_worker_usage st" W "uid_key uid"]
    by (cases g) (simp_all add: ledger_def release_worker_def size_Diff_singleton)
qed

lemma ledger_take_kwin:
  assumes "ledger st W G K C D A" "reserve_kwin_slot st pid = (True, st')"
  shows "ledger st' W G (add_mset (pid_key pid) K) C D A"
proof -
  have "slots.tracks (bud_kwin_inflight st) K" using assms(1) by (simp add: ledger_def)
  from reserve_kwin_True [OF this assms(2)] obtain t where
    "st' = st\<lparr>bud_kwin_inflight := t\<rparr>" "slots.tracks t (add_mset (pid_key pid) K)"
    "count K (pid_key pid) < 4" .
  with assms(1) show ?thesis by (simp add: ledger_def)
qed

lemma ledger_drop_kwin:
  "ledger st W G K C D A \<Longrightarrow> pid_key pid \<in># K \<Longrightarrow>
     ledger (release_kwin_slot st pid) W G (K - {#pid_key pid#}) C D A"
  using slots.tracks_release [of "bud_kwin_inflight st" K "pid_key pid"]
  by (simp add: ledger_def release_kwin_slot_def)

lemma ledger_take_capture:
  assumes "ledger st W G K C D A" "reserve_capture_memory st uid pid = (True, st')"
  shows "ledger st' W G K (add_mset (uid_key uid) C) (add_mset (pid_key pid) D) A"
proof -
  have "slots.tracks (bud_capture_usage st) C" "slots.tracks (bud_capture_pid_usage st) D"
    using assms(1) by (simp_all add: ledger_def)
  from reserve_capture_True [OF this assms(2)] obtain t u where
    "st' = st\<lparr>bud_inflight_bytes := bud_inflight_bytes st + KSD_MAX_CAPTURE_BYTES,
      bud_capture_usage := t, bud_capture_pid_usage := u\<rparr>"
    "slots.tracks t (add_mset (uid_key uid) C)" "slots.tracks u (add_mset (pid_key pid) D)"
    "count C (uid_key uid) < 2" "count D (pid_key pid) < 1"
    "bud_inflight_bytes st \<le> KSD_MAX_AUTHORITY_INFLIGHT_BYTES - KSD_MAX_CAPTURE_BYTES" .
  with assms(1) show ?thesis by (simp add: ledger_def wire_defs)
qed

lemma ledger_drop_capture:
  assumes "ledger st W G K C D A" "uid_key uid \<in># C" "pid_key pid \<in># D"
  shows "ledger (release_capture_memory st uid pid) W G K (C - {#uid_key uid#}) (D - {#pid_key pid#}) A"
proof -
  from assms(2) obtain n where "size C = Suc n"
    by (metis size_Suc_Diff1)
  with assms show ?thesis
    using slots.tracks_release [of "bud_capture_usage st" C "uid_key uid"]
      slots.tracks_release [of "bud_capture_pid_usage st" D "pid_key pid"]
    by (simp add: ledger_def release_capture_memory_def size_Diff_singleton)
qed

lemma ledger_take_assembly:
  assumes "ledger st W G K C D A" "reserve_assembly_memory st uid = (True, st')"
  shows "ledger st' W G K C D (add_mset (uid_key uid) A)"
proof -
  have "slots.tracks (bud_assembly_usage st) A" using assms(1) by (simp add: ledger_def)
  from reserve_assembly_True [OF this assms(2)] obtain t where
    "st' = st\<lparr>bud_assembly_bytes := bud_assembly_bytes st + KSD_MAX_REQUEST_TOTAL_PAYLOAD,
      bud_assembly_usage := t\<rparr>"
    "slots.tracks t (add_mset (uid_key uid) A)" "count A (uid_key uid) < 4"
    "bud_assembly_bytes st \<le> KSD_MAX_AUTHORITY_ASSEMBLY_BYTES - KSD_MAX_REQUEST_TOTAL_PAYLOAD" .
  with assms(1) show ?thesis by (simp add: ledger_def wire_defs)
qed

lemma ledger_drop_assembly:
  assumes "ledger st W G K C D A" "uid_key uid \<in># A"
  shows "ledger (release_assembly_memory st uid) W G K C D (A - {#uid_key uid#})"
proof -
  from assms(2) obtain n where "size A = Suc n"
    by (metis size_Suc_Diff1)
  with assms show ?thesis
    using slots.tracks_release [of "bud_assembly_usage st" A "uid_key uid"]
    by (simp add: ledger_def release_assembly_memory_def size_Diff_singleton)
qed

section \<open>The invariant of every interleaving\<close>

definition keys_ledger :: "budgets \<Rightarrow> connection list \<Rightarrow> bool" where
  "keys_ledger st cs \<longleftrightarrow> ledger st (uid_keys (\<lambda>_. True) cs) (uid_keys general cs) (pid_keys cn_kwin cs)
     (uid_keys cn_capture cs) (pid_keys cn_capture cs) (uid_keys cn_assembly cs)"

definition kind_ok :: "connection \<Rightarrow> bool" where
  "kind_ok c \<longleftrightarrow> (cn_kind c = Public \<longrightarrow> general c)
     \<and> (cn_kwin c \<or> cn_capture c \<or> cn_assembly c \<longrightarrow> cn_kind c = Public)"

definition kinds_ok :: "connection list \<Rightarrow> bool" where
  "kinds_ok cs \<longleftrightarrow> (\<forall>c\<in>set cs. kind_ok c)"

lemma kinds_ok_update: "kinds_ok cs \<Longrightarrow> kind_ok c \<Longrightarrow> kinds_ok (cs[i := c])"
  by (auto simp: kinds_ok_def dest: set_update_subset_insert [THEN subsetD])

lemma kinds_ok_nth: "kinds_ok cs \<Longrightarrow> i < length cs \<Longrightarrow> kind_ok (cs ! i)"
  by (simp add: kinds_ok_def)

lemma general_subset: "uid_keys general cs \<subseteq># uid_keys (\<lambda>_. True) cs"
  unfolding keys_defs holders_def
  by (intro image_mset_subseteq_mono) (simp add: multiset_filter_subset)

lemmas connection_updates = keys_defs holders_same holders_gain holders_lose holders_without

lemma budget_step_ledger:
  assumes "budget_step (st, cs) (st', cs')" "keys_ledger st cs" "kinds_ok cs"
  shows "keys_ledger st' cs'"
  using assms
proof (cases rule: budget_step.cases)
  case (Accept uid fr pid)
  then show ?thesis
    using ledger_accept [OF assms(2) [unfolded keys_ledger_def] general_subset, of uid fr st']
    by (cases fr) (simp_all add: keys_ledger_def keys_defs general_def)
next
  case (Classify i peeked timeouts_set)
  then have "\<not> cn_kwin (cs ! i) \<and> \<not> cn_capture (cs ! i) \<and> \<not> cn_assembly (cs ! i)"
    using kinds_ok_nth [OF assms(3), of i] by (auto simp: kind_ok_def)
  with Classify assms(2) show ?thesis
    by (cases peeked) (simp_all add: keys_ledger_def connection_updates classify_def general_def Let_def)
next
  case (Close i)
  then have "uid_key (cn_uid (cs ! i)) \<in># uid_keys (\<lambda>_. True) cs"
    using holders_without [of i cs "\<lambda>_. True" "uid_key \<circ> cn_uid"] by (simp add: keys_defs)
  from ledger_close [OF assms(2) [unfolded keys_ledger_def] this, of "general (cs ! i)"] Close
  show ?thesis
    by (cases "general (cs ! i)") (simp_all add: keys_ledger_def connection_updates idle_def)
next
  case (Take_Kwin i)
  with ledger_take_kwin [OF assms(2) [unfolded keys_ledger_def], of "cn_pid (cs ! i)" st']
  show ?thesis by (simp add: keys_ledger_def connection_updates general_def)
next
  case (Drop_Kwin i)
  with holders_lose [of i cs cn_kwin "(cs ! i)\<lparr>cn_kwin := False\<rparr>" "pid_key \<circ> cn_pid"]
    ledger_drop_kwin [OF assms(2) [unfolded keys_ledger_def], of "cn_pid (cs ! i)"]
  show ?thesis by (simp add: keys_ledger_def connection_updates general_def)
next
  case (Take_Capture i)
  with ledger_take_capture [OF assms(2) [unfolded keys_ledger_def], of "cn_uid (cs ! i)" "cn_pid (cs ! i)" st']
  show ?thesis by (simp add: keys_ledger_def connection_updates general_def)
next
  case (Drop_Capture i)
  with holders_lose [of i cs cn_capture "(cs ! i)\<lparr>cn_capture := False\<rparr>" "uid_key \<circ> cn_uid"]
    holders_lose [of i cs cn_capture "(cs ! i)\<lparr>cn_capture := False\<rparr>" "pid_key \<circ> cn_pid"]
    ledger_drop_capture [OF assms(2) [unfolded keys_ledger_def], of "cn_uid (cs ! i)" "cn_pid (cs ! i)"]
  show ?thesis by (simp add: keys_ledger_def connection_updates general_def)
next
  case (Take_Assembly i)
  with ledger_take_assembly [OF assms(2) [unfolded keys_ledger_def], of "cn_uid (cs ! i)" st']
  show ?thesis by (simp add: keys_ledger_def connection_updates general_def)
next
  case (Drop_Assembly i)
  with holders_lose [of i cs cn_assembly "(cs ! i)\<lparr>cn_assembly := False\<rparr>" "uid_key \<circ> cn_uid"]
    ledger_drop_assembly [OF assms(2) [unfolded keys_ledger_def], of "cn_uid (cs ! i)"]
  show ?thesis by (simp add: keys_ledger_def connection_updates general_def)
qed

lemma budget_step_kinds:
  assumes "budget_step (st, cs) (st', cs')" "kinds_ok cs"
  shows "kinds_ok cs'"
  using assms(1)
  by (cases rule: budget_step.cases)
     (use assms(2) in \<open>auto intro!: kinds_ok_update dest: kinds_ok_nth in_set_takeD in_set_dropD
        simp: kind_ok_def general_def classify_def ksd_authority_worker_keeps_slot_def Let_def
          split: option.splits\<close>,
      use assms(2) in \<open>auto simp: kinds_ok_def kind_ok_def general_def dest: in_set_takeD in_set_dropD\<close>)

lemma budget_reachable_ledger:
  "budget_reachable st cs \<Longrightarrow> keys_ledger st cs \<and> kinds_ok cs"
proof (induction rule: budget_reachable.induct)
  case Start
  then show ?case
    by (simp add: keys_ledger_def ledger_def keys_defs kinds_ok_def budgets_zero_def no_usage_tracks)
next
  case (Step st cs st' cs')
  then show ?case using budget_step_ledger budget_step_kinds by blast
qed

lemma narrow_key: "ucast (uid_key uid) = uid" "ucast (pid_key pid) = pid"
  unfolding uid_key_def pid_key_def by (rule bit_word_eqI; auto simp: bit_simps)+

lemma key_inject [simp]: "uid_key a = uid_key b \<longleftrightarrow> a = b" "pid_key p = pid_key q \<longleftrightarrow> p = q"
  by (metis narrow_key(1), metis narrow_key(2))

lemma count_keys:
  "count (uid_keys P cs) (uid_key uid) = length (filter (\<lambda>c. P c \<and> cn_uid c = uid) cs)"
  "count (pid_keys P cs) (pid_key pid) = length (filter (\<lambda>c. P c \<and> cn_pid c = pid) cs)"
  by (induction cs) (auto simp: keys_defs)

lemma capped_uid: "capped n (uid_keys P cs) \<Longrightarrow> length (filter (\<lambda>c. P c \<and> cn_uid c = uid) cs) \<le> n"
  by (simp add: capped_def flip: count_keys)

lemma capped_pid: "capped n (pid_keys P cs) \<Longrightarrow> length (filter (\<lambda>c. P c \<and> cn_pid c = pid) cs) \<le> n"
  by (simp add: capped_def flip: count_keys)

text \<open>What the five tables hold, in terms of the connections.\<close>

lemma ledger_tables:
  assumes "keys_ledger st cs"
  shows "usage_of (bud_worker_usage st) (uid_key uid) = length (filter (\<lambda>c. cn_uid c = uid) cs)"
    "usage_of (bud_kwin_inflight st) (pid_key pid) = length (filter (\<lambda>c. cn_kwin c \<and> cn_pid c = pid) cs)"
    "usage_of (bud_capture_usage st) (uid_key uid) = length (filter (\<lambda>c. cn_capture c \<and> cn_uid c = uid) cs)"
    "usage_of (bud_capture_pid_usage st) (pid_key pid) = length (filter (\<lambda>c. cn_capture c \<and> cn_pid c = pid) cs)"
    "usage_of (bud_assembly_usage st) (uid_key uid) = length (filter (\<lambda>c. cn_assembly c \<and> cn_uid c = uid) cs)"
    "map usage_total [bud_worker_usage st, bud_kwin_inflight st, bud_capture_usage st, bud_capture_pid_usage st, bud_assembly_usage st]
       = [length cs, length (filter cn_kwin cs), length (filter cn_capture cs), length (filter cn_capture cs), length (filter cn_assembly cs)]"
  using assms count_keys(1) [of "\<lambda>_. True" cs uid]
  by (simp_all add: keys_ledger_def ledger_def slots.tracks_def count_keys)

text \<open>
  C35: the authority's books balance in every interleaving. Whatever order the
  connection threads enter their critical sections in, the worker count is the
  number of live connections, the usage tables count for every user and every process exactly
  what its connections hold and nothing besides, the capture and assembly byte counters are exactly
  what the holders account for and stay within their budgets, every per-uid and
  per-pid cap holds, and at most 120 of the 128 workers are general ones, so eight
  are kept for registrations; a public connection never sits on a reserved slot.
\<close>

theorem budgets_balanced:
  assumes "budget_reachable st cs"
  shows "bud_workers st = length cs \<and> length cs \<le> KSD_MAX_AUTHORITY_WORKERS
    \<and> usage_of (bud_worker_usage st) (uid_key uid) = length (filter (\<lambda>c. cn_uid c = uid) cs)
    \<and> usage_of (bud_kwin_inflight st) (pid_key pid) = length (filter (\<lambda>c. cn_kwin c \<and> cn_pid c = pid) cs)
    \<and> usage_of (bud_capture_usage st) (uid_key uid) = length (filter (\<lambda>c. cn_capture c \<and> cn_uid c = uid) cs)
    \<and> usage_of (bud_capture_pid_usage st) (pid_key pid) = length (filter (\<lambda>c. cn_capture c \<and> cn_pid c = pid) cs)
    \<and> usage_of (bud_assembly_usage st) (uid_key uid) = length (filter (\<lambda>c. cn_assembly c \<and> cn_uid c = uid) cs)
    \<and> map usage_total [bud_worker_usage st, bud_kwin_inflight st, bud_capture_usage st, bud_capture_pid_usage st, bud_assembly_usage st]
       = [length cs, length (filter cn_kwin cs), length (filter cn_capture cs), length (filter cn_capture cs), length (filter cn_assembly cs)]
    \<and> length (filter general cs) \<le> KSD_MAX_AUTHORITY_WORKERS - KSD_AUTHORITY_REGISTRATION_RESERVE
    \<and> length (filter (\<lambda>c. general c \<and> cn_uid c = uid) cs) \<le> KSD_MAX_AUTHORITY_WORKERS_PER_UID
    \<and> length (filter (\<lambda>c. cn_kwin c \<and> cn_pid c = pid) cs) \<le> KSD_MAX_KWIN_INFLIGHT_PER_PID
    \<and> bud_inflight_bytes st = length (filter cn_capture cs) * KSD_MAX_CAPTURE_BYTES
    \<and> bud_inflight_bytes st \<le> KSD_MAX_AUTHORITY_INFLIGHT_BYTES
    \<and> length (filter (\<lambda>c. cn_capture c \<and> cn_uid c = uid) cs) \<le> KSD_MAX_CAPTURES_PER_UID
    \<and> length (filter (\<lambda>c. cn_capture c \<and> cn_pid c = pid) cs) \<le> KSD_MAX_CAPTURES_PER_PID
    \<and> bud_assembly_bytes st = length (filter cn_assembly cs) * KSD_MAX_REQUEST_TOTAL_PAYLOAD
    \<and> bud_assembly_bytes st \<le> KSD_MAX_AUTHORITY_ASSEMBLY_BYTES
    \<and> length (filter (\<lambda>c. cn_assembly c \<and> cn_uid c = uid) cs) \<le> KSD_MAX_ASSEMBLIES_PER_UID
    \<and> list_all (\<lambda>c. \<not> (cn_kind c = Public \<and> cn_from_reserve c)) cs"
proof -
  have k: "keys_ledger st cs" and "kinds_ok cs" using budget_reachable_ledger [OF assms] by simp_all
  then have l: "ledger st (uid_keys (\<lambda>_. True) cs) (uid_keys general cs) (pid_keys cn_kwin cs)
      (uid_keys cn_capture cs) (pid_keys cn_capture cs) (uid_keys cn_assembly cs)"
    and kinds: "list_all (\<lambda>c. \<not> (cn_kind c = Public \<and> cn_from_reserve c)) cs"
    by (auto simp: keys_ledger_def kinds_ok_def kind_ok_def general_def list_all_iff)
  have "capped 32 (uid_keys general cs)" "capped 4 (pid_keys cn_kwin cs)"
      "capped 2 (uid_keys cn_capture cs)" "capped 1 (pid_keys cn_capture cs)"
      "capped 4 (uid_keys cn_assembly cs)"
    using l by (simp_all add: ledger_def)
  note caps = capped_uid [OF this(1)] capped_pid [OF this(2)] capped_uid [OF this(3)]
    capped_pid [OF this(4)] capped_uid [OF this(5)]
  show ?thesis
    using l kinds caps ledger_tables [OF k] by (simp add: ledger_def wire_defs)
qed

lemma find_no_usage: "find_usage_slot no_usage k = Some 0"
proof -
  have "first_index (\<lambda>s. us_count s \<noteq> 0 \<and> us_key s = k) no_usage = None"
    by (simp add: first_index_None no_usage_def)
  moreover have "first_index (\<lambda>s. us_count s = 0) no_usage = Some 0"
    by (simp add: first_index_Some no_usage_def wire_defs)
  ultimately show ?thesis by (simp add: find_usage_slot_eq)
qed

lemma no_usage_0: "us_count (no_usage ! 0) = 0"
  by (simp add: no_usage_def wire_defs)

text \<open>One public client of uid 1000 in the middle of a capture.\<close>

definition capturing_client :: connection where
  "capturing_client = \<lparr>cn_uid = 1000, cn_pid = 4242, cn_from_reserve = False, cn_kind = Public,
     cn_kwin = False, cn_capture = True, cn_assembly = False\<rparr>"

definition capturing_state :: budgets where
  "capturing_state = snd (reserve_capture_memory (snd (snd (reserve_worker budgets_zero 1000))) 1000 4242)"

lemma capturing_reachable: "budget_reachable capturing_state [capturing_client]"
proof -
  let ?w = "snd (snd (reserve_worker budgets_zero 1000))"
  let ?c = "\<lparr>cn_uid = 1000, cn_pid = 4242, cn_from_reserve = False, cn_kind = Unclassified,
     cn_kwin = False, cn_capture = False, cn_assembly = False\<rparr>"
  have w: "reserve_worker budgets_zero 1000 = (True, False, ?w)"
    and m: "reserve_capture_memory ?w 1000 4242 = (True, capturing_state)"
    by (simp_all add: capturing_state_def reserve_worker_def reserve_capture_memory_def budgets_zero_def
        find_no_usage no_usage_0 ksd_authority_admit_worker_def wire_defs)
  have "budget_reachable ?w [?c]"
    by (rule Step [OF Start]) (rule Accept [OF _ w], simp)
  then have "budget_reachable ?w ([?c][0 := classify (Some public_magic) True ([?c] ! 0)])"
    by (rule Step) (rule Classify, simp_all)
  then show ?thesis
    by (rule Step) (use Take_Capture [of 0 "[classify (Some public_magic) True ?c]" ?w capturing_state] m in
        \<open>simp add: classify_def ksd_authority_worker_keeps_slot_def capturing_client_def public_magic_def
          ksd_backend_registration_magic_def ascii_def wire_defs\<close>)
qed

theorem budgets_balanced_witness:
  "bud_workers capturing_state = 1 \<and> bud_inflight_bytes capturing_state = KSD_MAX_CAPTURE_BYTES
     \<and> usage_of (bud_worker_usage capturing_state) (uid_key 1000) = 1 \<and> usage_of (bud_capture_pid_usage capturing_state) (pid_key 4242) = 1
     \<and> usage_total (bud_assembly_usage capturing_state) = 0"
  using budgets_balanced [OF capturing_reachable, of 1000 4242]
  by (simp add: capturing_client_def)

text \<open>
  C36: no spurious refusal. In every reachable state a reservation is refused exactly
  when a documented limit is reached: a worker when 128 connections are live; for
  a thread that does not hold one already, a KWin slot when its process has four
  in flight, capture memory when four captures run or its uid has two or its pid
  one, assembly memory when sixteen are pending or its uid has four.
\<close>

theorem refusals_exact:
  assumes "budget_reachable st cs" "i < length cs"
  shows "(fst (reserve_worker st uid) \<longleftrightarrow> length cs < 128)
    \<and> (\<not> cn_kwin (cs ! i) \<longrightarrow> (fst (reserve_kwin_slot st (cn_pid (cs ! i))) \<longleftrightarrow>
         length (filter (\<lambda>c. cn_kwin c \<and> cn_pid c = cn_pid (cs ! i)) cs) < 4))
    \<and> (\<not> cn_capture (cs ! i) \<longrightarrow> (fst (reserve_capture_memory st (cn_uid (cs ! i)) (cn_pid (cs ! i))) \<longleftrightarrow>
         length (filter cn_capture cs) < 4
         \<and> length (filter (\<lambda>c. cn_capture c \<and> cn_uid c = cn_uid (cs ! i)) cs) < 2
         \<and> length (filter (\<lambda>c. cn_capture c \<and> cn_pid c = cn_pid (cs ! i)) cs) < 1))
    \<and> (\<not> cn_assembly (cs ! i) \<longrightarrow> (fst (reserve_assembly_memory st (cn_uid (cs ! i))) \<longleftrightarrow>
         length (filter cn_assembly cs) < 16
         \<and> length (filter (\<lambda>c. cn_assembly c \<and> cn_uid c = cn_uid (cs ! i)) cs) < 4))"
proof -
  have l: "ledger st (uid_keys (\<lambda>_. True) cs) (uid_keys general cs) (pid_keys cn_kwin cs)
      (uid_keys cn_capture cs) (pid_keys cn_capture cs) (uid_keys cn_assembly cs)"
    using budget_reachable_ledger [OF assms(1)] by (simp add: keys_ledger_def)
  have free: "length (filter P cs) < 128" if "\<not> P (cs ! i)" for P
    using length_filter_less [of "cs ! i" cs P] that assms(2) l by (simp add: ledger_def)
  have "fst (reserve_worker st uid) \<longleftrightarrow> length cs < 128"
    using reserve_worker_iff [of st "uid_keys (\<lambda>_. True) cs"] l by (simp add: ledger_def)
  moreover have "fst (reserve_kwin_slot st (cn_pid (cs ! i))) \<longleftrightarrow>
      length (filter (\<lambda>c. cn_kwin c \<and> cn_pid c = cn_pid (cs ! i)) cs) < 4" if "\<not> cn_kwin (cs ! i)"
    using reserve_kwin_iff [of st "pid_keys cn_kwin cs"] free [of cn_kwin] that l
    by (simp add: ledger_def count_keys)
  moreover have "fst (reserve_capture_memory st (cn_uid (cs ! i)) (cn_pid (cs ! i))) \<longleftrightarrow>
      length (filter cn_capture cs) < 4
      \<and> length (filter (\<lambda>c. cn_capture c \<and> cn_uid c = cn_uid (cs ! i)) cs) < 2
      \<and> length (filter (\<lambda>c. cn_capture c \<and> cn_pid c = cn_pid (cs ! i)) cs) < 1" if "\<not> cn_capture (cs ! i)"
    using reserve_capture_iff [of st "uid_keys cn_capture cs" "pid_keys cn_capture cs"] free [of cn_capture] that l
    by (auto simp: ledger_def count_keys wire_defs)
  moreover have "fst (reserve_assembly_memory st (cn_uid (cs ! i))) \<longleftrightarrow>
      length (filter cn_assembly cs) < 16
      \<and> length (filter (\<lambda>c. cn_assembly c \<and> cn_uid c = cn_uid (cs ! i)) cs) < 4" if "\<not> cn_assembly (cs ! i)"
    using reserve_assembly_iff [of st "uid_keys cn_assembly cs"] free [of cn_assembly] that l
    by (auto simp: ledger_def count_keys wire_defs)
  ultimately show ?thesis by blast
qed

theorem refusals_exact_witness:
  "fst (reserve_worker capturing_state 1001)
   \<and> fst (reserve_kwin_slot capturing_state 4242) \<and> fst (reserve_assembly_memory capturing_state 1000)"
  using refusals_exact [OF capturing_reachable, of 0 1001]
  by (simp add: capturing_client_def)

end
