(* ===== verification/Slot_Table.thy ===== *)
theory Slot_Table
  imports Prelude
begin

text \<open>
  The service keeps its live objects in fixed arrays: a slot is free or occupied,
  an operation scans for the slot with a key or for the first free one and rewrites
  that slot. The locale states what makes such an array a finite map: the occupied
  slots have distinct keys, and the blank slot is free. Its lemmas say what each
  kind of rewrite does to the map.
\<close>

locale slot_table =
  fixes occupied :: "'s \<Rightarrow> bool" and key :: "'s \<Rightarrow> 'k" and blank :: 's
  assumes blank_free: "\<not> occupied blank"
begin

definition keyed :: "'s list \<Rightarrow> bool" where
  "keyed xs \<longleftrightarrow> (\<forall>i<length xs. \<forall>j<length xs. occupied (xs ! i) \<longrightarrow> occupied (xs ! j) \<longrightarrow>
     key (xs ! i) = key (xs ! j) \<longrightarrow> i = j)"

definition lookup :: "'s list \<Rightarrow> 'k \<rightharpoonup> 's" where
  "lookup xs k = map_option (nth xs) (first_index (\<lambda>s. occupied s \<and> key s = k) xs)"

lemma keyedD:
  "keyed xs \<Longrightarrow> i < length xs \<Longrightarrow> j < length xs \<Longrightarrow> occupied (xs ! i) \<Longrightarrow> occupied (xs ! j) \<Longrightarrow>
     key (xs ! i) = key (xs ! j) \<Longrightarrow> i = j"
  by (simp add: keyed_def)

lemma lookup_Some:
  assumes "keyed xs"
  shows "lookup xs k = Some s \<longleftrightarrow> (\<exists>i<length xs. xs ! i = s \<and> occupied s \<and> key s = k)"
proof
  assume "lookup xs k = Some s"
  then show "\<exists>i<length xs. xs ! i = s \<and> occupied s \<and> key s = k"
    by (auto simp: lookup_def dest: first_index_SomeD)
next
  assume "\<exists>i<length xs. xs ! i = s \<and> occupied s \<and> key s = k"
  then obtain i where i: "i < length xs" "xs ! i = s" "occupied s" "key s = k" by blast
  have "\<not> (occupied (xs ! j) \<and> key (xs ! j) = k)" if "j < i" for j
    using keyedD [OF assms, of j i] i that by auto
  with i have "first_index (\<lambda>s. occupied s \<and> key s = k) xs = Some i"
    by (simp add: first_index_Some)
  then show "lookup xs k = Some s" using i by (simp add: lookup_def)
qed

lemma lookup_None: "lookup xs k = None \<longleftrightarrow> (\<forall>s\<in>set xs. occupied s \<longrightarrow> key s \<noteq> k)"
  by (auto simp: lookup_def first_index_None)

lemma lookup_nth: "keyed xs \<Longrightarrow> i < length xs \<Longrightarrow> occupied (xs ! i) \<Longrightarrow> lookup xs (key (xs ! i)) = Some (xs ! i)"
  by (auto simp: lookup_Some)

lemma lookup_found:
  "lookup xs k = Some s \<Longrightarrow> s \<in> set xs \<and> occupied s \<and> key s = k"
  by (auto simp: lookup_def dest: first_index_SomeD)

lemma keyed_update:
  assumes "keyed xs" "i < length xs"
    and "occupied s \<Longrightarrow> occupied (xs ! i) \<and> key s = key (xs ! i) \<or> lookup xs (key s) = None"
  shows "keyed (xs[i := s])"
  unfolding keyed_def
proof (intro allI impI)
  fix a b
  assume a: "a < length (xs[i := s])" "b < length (xs[i := s])" "occupied (xs[i := s] ! a)"
    "occupied (xs[i := s] ! b)" "key (xs[i := s] ! a) = key (xs[i := s] ! b)"
  have other: "key (xs ! j) \<noteq> key s" if "j < length xs" "j \<noteq> i" "occupied (xs ! j)" "occupied s" for j
    using assms(3) [OF that(4)] that keyedD [OF assms(1), of j i] assms(2)
    by (auto simp: lookup_None)
  show "a = b"
    using a assms(2) other [of a] other [of b] keyedD [OF assms(1), of a b]
    by (cases "a = i"; cases "b = i") auto
qed

lemma lookup_update:
  assumes "keyed xs" "i < length xs"
    and "occupied s \<Longrightarrow> occupied (xs ! i) \<and> key s = key (xs ! i) \<or> lookup xs (key s) = None"
  shows "lookup (xs[i := s]) k =
    (if occupied s \<and> key s = k then Some s
     else if occupied (xs ! i) \<and> key (xs ! i) = k then None else lookup xs k)"
proof -
  note kd = keyed_update [OF assms]
  show ?thesis
  proof (cases "occupied s \<and> key s = k")
    case True
    then show ?thesis using lookup_nth [OF kd, of i] assms(2) by simp
  next
    case False
    have hit: "occupied (xs[i := s] ! j) \<and> key (xs[i := s] ! j) = k \<longleftrightarrow>
        j \<noteq> i \<and> occupied (xs ! j) \<and> key (xs ! j) = k" for j
      using False assms(2) by (cases "j = i") auto
    show ?thesis
    proof (cases "lookup (xs[i := s]) k")
      case None
      then have none: "\<not> (j \<noteq> i \<and> occupied (xs ! j) \<and> key (xs ! j) = k)" if "j < length xs" for j
        using hit [of j] that by (auto simp: lookup_None all_set_conv_all_nth)
      have "lookup xs k = None" if "\<not> (occupied (xs ! i) \<and> key (xs ! i) = k)"
        using none that by (auto simp: lookup_None all_set_conv_all_nth)
      with None False show ?thesis by simp
    next
      case (Some t)
      then obtain j where j: "j < length xs" "xs[i := s] ! j = t" "occupied t" "key t = k"
        by (auto simp: lookup_Some [OF kd])
      then have ji: "j \<noteq> i" "xs ! j = t" using hit [of j] by auto
      then have "lookup xs k = Some t" using lookup_nth [OF assms(1), of j] j by simp
      moreover have "\<not> (occupied (xs ! i) \<and> key (xs ! i) = k)"
        using keyedD [OF assms(1), of i j] j ji assms(2) by auto
      ultimately show ?thesis using Some False by auto
    qed
  qed
qed

lemma lookup_claim:
  assumes "keyed xs" "i < length xs" "\<not> occupied (xs ! i)" "occupied s" "lookup xs (key s) = None"
  shows "keyed (xs[i := s])" "lookup (xs[i := s]) = (lookup xs)(key s \<mapsto> s)"
  using keyed_update [of xs i s] lookup_update [of xs i s] assms by (auto simp: fun_eq_iff)

lemma lookup_rewrite:
  assumes "keyed xs" "i < length xs" "occupied (xs ! i)" "occupied s" "key s = key (xs ! i)"
  shows "keyed (xs[i := s])" "lookup (xs[i := s]) = (lookup xs)(key s \<mapsto> s)"
  using keyed_update [of xs i s] lookup_update [of xs i s] assms by (auto simp: fun_eq_iff)

lemma lookup_free:
  assumes "keyed xs" "i < length xs" "occupied (xs ! i)"
  shows "keyed (xs[i := blank])" "lookup (xs[i := blank]) = (lookup xs)(key (xs ! i) := None)"
  using keyed_update [of xs i blank] lookup_update [of xs i blank] assms blank_free
  by (auto simp: fun_eq_iff)

lemma keyed_blank: "keyed (replicate n blank)" "lookup (replicate n blank) = Map.empty"
  by (auto simp: keyed_def blank_free lookup_None fun_eq_iff)

text \<open>Freeing every slot a test picks out, and changing slots without changing keys.\<close>

lemma lookup_sweep:
  assumes "keyed xs"
  shows "keyed (map (\<lambda>s. if P s then blank else s) xs)"
    "lookup (map (\<lambda>s. if P s then blank else s) xs) k =
       (case lookup xs k of Some s \<Rightarrow> if P s then None else Some s | None \<Rightarrow> None)"
proof -
  let ?ys = "map (\<lambda>s. if P s then blank else s) xs"
  show kd: "keyed ?ys"
    unfolding keyed_def
  proof (intro allI impI)
    fix i j
    assume "i < length ?ys" "j < length ?ys" "occupied (?ys ! i)" "occupied (?ys ! j)" "key (?ys ! i) = key (?ys ! j)"
    then show "i = j" using keyedD [OF assms, of i j] blank_free by (auto split: if_splits)
  qed
  have iff: "lookup ?ys k = Some t \<longleftrightarrow> lookup xs k = Some t \<and> \<not> P t" for t
    unfolding lookup_Some [OF kd] lookup_Some [OF assms]
    using blank_free by (auto split: if_splits)
  show "lookup ?ys k = (case lookup xs k of Some s \<Rightarrow> if P s then None else Some s | None \<Rightarrow> None)"
  proof (cases "lookup ?ys k")
    case None
    then have "P t" if "lookup xs k = Some t" for t using iff [of t] that by simp
    with None show ?thesis by (cases "lookup xs k") simp_all
  next
    case (Some t)
    with iff [of t] show ?thesis by simp
  qed
qed

lemma lookup_pointwise:
  assumes "keyed xs" "length ys = length xs"
    and same: "\<And>i. i < length xs \<Longrightarrow> occupied (ys ! i) = occupied (xs ! i) \<and> key (ys ! i) = key (xs ! i)"
  shows "keyed ys" "lookup xs k = None \<Longrightarrow> lookup ys k = None"
    "\<And>i. i < length xs \<Longrightarrow> occupied (xs ! i) \<Longrightarrow> lookup ys (key (xs ! i)) = Some (ys ! i)"
proof -
  show kd: "keyed ys"
    unfolding keyed_def
  proof (intro allI impI)
    fix i j
    assume "i < length ys" "j < length ys" "occupied (ys ! i)" "occupied (ys ! j)" "key (ys ! i) = key (ys ! j)"
    then show "i = j" using keyedD [OF assms(1), of i j] same [of i] same [of j] assms(2) by simp
  qed
  show "lookup ys k = None" if "lookup xs k = None"
    using that assms(2) same by (simp add: lookup_None all_set_conv_all_nth)
  show "lookup ys (key (xs ! i)) = Some (ys ! i)" if "i < length xs" "occupied (xs ! i)" for i
    using lookup_nth [OF kd, of i] same [OF that(1)] that assms(2) by simp
qed

lemma card_dom: "keyed xs \<Longrightarrow> finite (dom (lookup xs)) \<and> card (dom (lookup xs)) = length (filter occupied xs)"
proof -
  assume kd: "keyed xs"
  have dom: "dom (lookup xs) = key ` set (filter occupied xs)"
    by (auto simp: dom_def lookup_Some [OF kd] in_set_conv_nth)
  have "\<not> occupied x" if "i < length xs" "j < length xs" "i < j" "xs ! j = x" "xs ! i = y" "occupied y" "key x = key y" for i j x y
    using keyedD [OF kd, of i j] that by auto
  then have "sorted_wrt (\<lambda>y x. occupied y \<and> occupied x \<longrightarrow> key x \<noteq> key y) xs"
    by (auto simp: sorted_wrt_iff_nth_less)
  then have "distinct (map key (filter occupied xs))"
    by (induction xs) auto
  from distinct_card [OF this] show ?thesis by (simp add: dom)
qed

end

end
