(* ===== verification/Kwin_Jobs.thy ===== *)
theory Kwin_Jobs
  imports Kwin_Report Budgets Slot_Table
begin

text \<open>
  The daemon side of the KWin channel (src/src/kwin_jobs.c): the table of jobs that
  wait for the script, were handed to it, or came back. A slot is a record whose
  fields are those of \<open>ksd_kwin_job\<close>; the character arrays hold C strings; an
  owned pointer is an option. Pointers into the table are slot indices.
\<close>

section \<open>Jobs and the queue\<close>

definition KSD_KWIN_MAX_JOBS :: nat where
  [wire_defs]: "KSD_KWIN_MAX_JOBS = KSD_MAX_AUTHORITY_WORKERS"

datatype ksd_kwin_job_state =
  KSD_KWIN_JOB_FREE | KSD_KWIN_JOB_QUEUED | KSD_KWIN_JOB_DISPATCHED | KSD_KWIN_JOB_DONE

datatype ksd_kwin_poll_outcome = KSD_KWIN_POLL_ANSWERED | KSD_KWIN_POLL_PARKED | KSD_KWIN_POLL_REFUSED

record ksd_kwin_job =
  j_sequence :: bytes
  j_opcode :: u16
  j_lane :: ksd_kwin_lane
  j_state :: ksd_kwin_job_state
  j_deadline_ms :: u64
  j_ticket :: u64
  j_status :: u32
  j_body :: "bytes option"
  j_body_length :: u32
  j_reply :: "bytes option"
  j_reply_length :: u32

record ksd_kwin_queue =
  q_jobs :: "ksd_kwin_job list"
  q_generation :: bytes
  q_next_sequence :: u64
  q_next_ticket :: u64
  q_parked :: "bool list"

definition job_zero :: ksd_kwin_job where
  "job_zero = \<lparr>j_sequence = [], j_opcode = 0, j_lane = KSD_KWIN_LANE_FAST, j_state = KSD_KWIN_JOB_FREE,
     j_deadline_ms = 0, j_ticket = 0, j_status = 0, j_body = None, j_body_length = 0, j_reply = None,
     j_reply_length = 0\<rparr>"

definition lane_index :: "ksd_kwin_lane \<Rightarrow> nat" where
  "lane_index lane = (if lane = KSD_KWIN_LANE_FAST then 0 else 1)"

definition ksd_kwin_queue_init :: "bytes option \<Rightarrow> ksd_kwin_queue option" where
  "ksd_kwin_queue_init generation =
     (if \<not> generation_valid generation then None
      else Some \<lparr>q_jobs = replicate KSD_KWIN_MAX_JOBS job_zero,
        q_generation = take KSD_KWIN_GENERATION_HEX (the generation),
        q_next_sequence = 1, q_next_ticket = 1, q_parked = [False, False]\<rparr>)"

text \<open>\<open>release_slot\<close>: the slot's memory is freed and zeroed.\<close>

definition release_slot :: "ksd_kwin_job \<Rightarrow> ksd_kwin_job" where
  "release_slot job = job_zero"

text \<open>
  \<open>memcmp\<close> over a sequence and its terminator: the comparison of two C strings
  cut at that width, since it stops at the first difference.
\<close>

definition same_sequence :: "bytes \<Rightarrow> bytes \<Rightarrow> bool" where
  "same_sequence a b \<longleftrightarrow> take (KSD_KWIN_SEQ_HEX + 1) (cstring a @ [0]) = take (KSD_KWIN_SEQ_HEX + 1) (cstring b @ [0])"

definition names_job :: "bytes \<Rightarrow> ksd_kwin_job \<Rightarrow> bool" where
  "names_job sequence job \<longleftrightarrow> j_state job \<noteq> KSD_KWIN_JOB_FREE \<and> same_sequence (j_sequence job) sequence"

section \<open>Operations\<close>

text \<open>
  Submission. The sequence written for the caller, or None, and the queue. The
  sequence and ticket counters advance before the body is copied, so a failed
  allocation skips a number and leaves the slot free.
\<close>

definition ksd_kwin_queue_submit ::
  "(nat \<Rightarrow> bool) \<Rightarrow> ksd_kwin_queue \<Rightarrow> u16 \<Rightarrow> bytes option \<Rightarrow> u32 \<Rightarrow> u64 \<Rightarrow> bytes option \<times> ksd_kwin_queue" where
  "ksd_kwin_queue_submit alloc q opcode body body_length now_ms =
     (if body_length \<noteq> 0 \<and> body = None then (None, q)
      else let lane = ksd_kwin_lane_for opcode in
        if lane \<noteq> KSD_KWIN_LANE_FAST \<and> lane \<noteq> KSD_KWIN_LANE_SLOW then (None, q)
        else case first_index (\<lambda>job. j_state job = KSD_KWIN_JOB_FREE) (q_jobs q) of
          None \<Rightarrow> (None, q)
        | Some index \<Rightarrow>
            let sequence = format_sequence (q_next_sequence q);
                job = \<lparr>j_sequence = sequence, j_opcode = opcode, j_lane = lane,
                       j_state = KSD_KWIN_JOB_QUEUED, j_deadline_ms = now_ms + KSD_KWIN_OP_DEADLINE_MS,
                       j_ticket = q_next_ticket q, j_status = 0, j_body = None, j_body_length = 0,
                       j_reply = None, j_reply_length = 0\<rparr>;
                q = q\<lparr>q_next_sequence := q_next_sequence q + 1, q_next_ticket := q_next_ticket q + 1\<rparr>
            in if body_length \<noteq> 0 then
                 if \<not> alloc (unat body_length)
                 then (None, q\<lparr>q_jobs := (q_jobs q)[index := release_slot job]\<rparr>)
                 else (Some sequence, q\<lparr>q_jobs := (q_jobs q)[index :=
                         job\<lparr>j_body := Some (take (unat body_length) (the body)),
                             j_body_length := body_length\<rparr>]\<rparr>)
               else (Some sequence, q\<lparr>q_jobs := (q_jobs q)[index := job]\<rparr>))"

text \<open>The scan for the oldest queued job of a lane: index and candidate as in the loop.\<close>

fun oldest_from :: "ksd_kwin_lane \<Rightarrow> ksd_kwin_job list \<Rightarrow> nat \<Rightarrow> (nat \<times> ksd_kwin_job) option \<Rightarrow> nat option" where
  "oldest_from lane [] index oldest = map_option fst oldest"
| "oldest_from lane (job # jobs) index oldest =
     (if j_state job \<noteq> KSD_KWIN_JOB_QUEUED \<or> j_lane job \<noteq> lane
      then oldest_from lane jobs (Suc index) oldest
      else oldest_from lane jobs (Suc index)
             (case oldest of
                None \<Rightarrow> Some (index, job)
              | Some (i, best) \<Rightarrow> if j_ticket job < j_ticket best then Some (index, job) else oldest))"

definition oldest_queued :: "ksd_kwin_lane \<Rightarrow> ksd_kwin_job list \<Rightarrow> nat option" where
  "oldest_queued lane jobs = oldest_from lane jobs 0 None"

text \<open>The batching loop; its first argument is what is left of the limit.\<close>

fun take_loop :: "nat \<Rightarrow> ksd_kwin_lane \<Rightarrow> ksd_kwin_job list \<Rightarrow> nat list \<times> ksd_kwin_job list" where
  "take_loop 0 lane jobs = ([], jobs)"
| "take_loop (Suc left) lane jobs =
     (case oldest_queued lane jobs of
        None \<Rightarrow> ([], jobs)
      | Some i \<Rightarrow>
          let (batch, jobs) = take_loop left lane (jobs[i := (jobs ! i)\<lparr>j_state := KSD_KWIN_JOB_DISPATCHED\<rparr>])
          in (i # batch, jobs))"

definition ksd_kwin_queue_take ::
  "ksd_kwin_queue \<Rightarrow> ksd_kwin_lane \<Rightarrow> nat \<Rightarrow> nat list \<times> ksd_kwin_queue" where
  "ksd_kwin_queue_take q lane capacity =
     (let limit = lane_capacity lane;
          limit = (if capacity < limit then capacity else limit);
          (batch, jobs) = take_loop limit lane (q_jobs q)
      in (batch, q\<lparr>q_jobs := jobs\<rparr>))"

definition dispatch_of :: "u64 \<Rightarrow> ksd_kwin_job \<Rightarrow> ksd_kwin_dispatch" where
  "dispatch_of now_ms job =
     \<lparr>dp_sequence = Some (j_sequence job), dp_opcode = j_opcode job,
      dp_budget_ms = (if j_deadline_ms job > now_ms then ucast (j_deadline_ms job - now_ms) else 0),
      dp_body = j_body job, dp_body_length = j_body_length job\<rparr>"

definition dispatch_jobs ::
  "ksd_kwin_queue \<Rightarrow> ksd_kwin_lane \<Rightarrow> u64 \<Rightarrow> ksd_kwin_dispatch list \<times> ksd_kwin_queue" where
  "dispatch_jobs q lane now_ms =
     (let (batch, q) = ksd_kwin_queue_take q lane KSD_KWIN_JOBS_PER_REPLY_FAST
      in (map (\<lambda>i. dispatch_of now_ms (q_jobs q ! i)) batch, q))"

definition ksd_kwin_queue_hello :: "(nat \<Rightarrow> bool) \<Rightarrow> ksd_kwin_queue \<Rightarrow> ksd_buffer \<Rightarrow> bool \<times> ksd_buffer" where
  "ksd_kwin_queue_hello alloc q reply = ksd_kwin_format_report_ack alloc (Some (q_generation q)) reply"

definition ksd_kwin_queue_poll ::
  "(nat \<Rightarrow> bool) \<Rightarrow> ksd_kwin_queue \<Rightarrow> bytes option \<Rightarrow> u64 \<Rightarrow> ksd_buffer \<Rightarrow>
     ksd_kwin_poll_outcome \<times> ksd_kwin_queue \<times> ksd_buffer" where
  "ksd_kwin_queue_poll alloc q envelope now_ms reply =
     (case ksd_kwin_parse_poll envelope of
        None \<Rightarrow> (KSD_KWIN_POLL_REFUSED, q, reply)
      | Some poll \<Rightarrow>
          if take KSD_KWIN_GENERATION_HEX (poll_generation poll)
               \<noteq> take KSD_KWIN_GENERATION_HEX (q_generation q)
          then (KSD_KWIN_POLL_REFUSED, q, reply)
          else let (dispatch, q) = dispatch_jobs q (poll_lane poll) now_ms in
            if dispatch = []
            then (KSD_KWIN_POLL_PARKED, q\<lparr>q_parked := (q_parked q)[lane_index (poll_lane poll) := True]\<rparr>, reply)
            else let q = q\<lparr>q_parked := (q_parked q)[lane_index (poll_lane poll) := False]\<rparr>;
                     (ok, reply) = ksd_kwin_format_poll_reply alloc (Some (q_generation q))
                                     (poll_lane poll) 0 dispatch reply
                 in (if ok then KSD_KWIN_POLL_ANSWERED else KSD_KWIN_POLL_REFUSED, q, reply))"

definition ksd_kwin_queue_poll_parked ::
  "(nat \<Rightarrow> bool) \<Rightarrow> ksd_kwin_queue \<Rightarrow> ksd_kwin_lane \<Rightarrow> u64 \<Rightarrow> ksd_buffer \<Rightarrow>
     bool \<times> ksd_kwin_queue \<times> ksd_buffer" where
  "ksd_kwin_queue_poll_parked alloc q lane now_ms reply =
     (if lane \<noteq> KSD_KWIN_LANE_FAST \<and> lane \<noteq> KSD_KWIN_LANE_SLOW then (False, q, reply)
      else let q = q\<lparr>q_parked := (q_parked q)[lane_index lane := False]\<rparr>;
               (dispatch, q) = dispatch_jobs q lane now_ms;
               (ok, reply) = ksd_kwin_format_poll_reply alloc (Some (q_generation q)) lane
                 (if dispatch = [] then KSD_KWIN_IDLE_REPLY_MS else 0) dispatch reply
           in (ok, q, reply))"

definition ksd_kwin_queue_find :: "ksd_kwin_queue \<Rightarrow> bytes option \<Rightarrow> nat option" where
  "ksd_kwin_queue_find q sequence =
     (case sequence of None \<Rightarrow> None | Some s \<Rightarrow> first_index (names_job s) (q_jobs q))"

definition ksd_kwin_queue_complete ::
  "(nat \<Rightarrow> bool) \<Rightarrow> ksd_kwin_queue \<Rightarrow> bytes option \<Rightarrow> bytes option \<Rightarrow> u32 \<Rightarrow> bytes option \<Rightarrow> u32 \<Rightarrow>
     bool \<times> ksd_kwin_queue" where
  "ksd_kwin_queue_complete alloc q generation sequence status reply reply_length =
     (if generation = None \<or> sequence = None then (False, q)
      else if \<not> generation_valid generation
              \<or> take KSD_KWIN_GENERATION_HEX (the generation) \<noteq> take KSD_KWIN_GENERATION_HEX (q_generation q)
      then (False, q)
      else case first_index (names_job (the sequence)) (q_jobs q) of
        None \<Rightarrow> (False, q)
      | Some index \<Rightarrow>
          let job = q_jobs q ! index in
          if j_state job \<noteq> KSD_KWIN_JOB_DISPATCHED then (False, q)
          else if reply_length \<noteq> 0 \<and> reply = None then (False, q)
          else if reply_length \<noteq> 0 \<and> \<not> alloc (unat reply_length) then (False, q)
          else let job = (if reply_length \<noteq> 0
                          then job\<lparr>j_reply := Some (take (unat reply_length) (the reply)),
                                   j_reply_length := reply_length\<rparr>
                          else job)
               in (True, q\<lparr>q_jobs := (q_jobs q)[index :=
                     job\<lparr>j_state := KSD_KWIN_JOB_DONE, j_status := status\<rparr>]\<rparr>))"

text \<open>The second loop of a report: complete each entry, stop at the first refusal.\<close>

fun complete_all ::
  "(nat \<Rightarrow> bool) \<Rightarrow> ksd_kwin_done list \<Rightarrow> ksd_kwin_queue \<Rightarrow> bool \<times> ksd_kwin_queue" where
  "complete_all alloc [] q = (True, q)"
| "complete_all alloc (d # ds) q =
     and_then (ksd_kwin_queue_complete alloc q (Some (q_generation q)) (Some (dn_sequence d)) (dn_status d)
                 (Some (dn_body d)) (dn_body_length d))
       (complete_all alloc ds)"

definition ksd_kwin_queue_report ::
  "(nat \<Rightarrow> bool) \<Rightarrow> ksd_kwin_queue \<Rightarrow> bytes option \<Rightarrow> ksd_buffer \<Rightarrow> bool \<times> ksd_kwin_queue \<times> ksd_buffer" where
  "ksd_kwin_queue_report alloc q envelope reply =
     (case ksd_kwin_parse_report envelope of
        None \<Rightarrow> (False, q, reply)
      | Some report \<Rightarrow>
          if take KSD_KWIN_GENERATION_HEX (rp_generation report)
               \<noteq> take KSD_KWIN_GENERATION_HEX (q_generation q)
          then (False, q, reply)
          else if \<not> list_all (\<lambda>d. case ksd_kwin_queue_find q (Some (dn_sequence d)) of
                       None \<Rightarrow> False
                     | Some i \<Rightarrow> j_state (q_jobs q ! i) = KSD_KWIN_JOB_DISPATCHED) (rp_done report)
          then (False, q, reply)
          else case complete_all alloc (rp_done report) q of
            (False, q) \<Rightarrow> (False, q, reply)
          | (True, q) \<Rightarrow>
              let (ok, reply) = ksd_kwin_format_report_ack alloc (Some (q_generation q)) reply
              in (ok, q, reply))"

definition ksd_kwin_queue_parked :: "ksd_kwin_queue \<Rightarrow> ksd_kwin_lane \<Rightarrow> bool" where
  "ksd_kwin_queue_parked q lane =
     (if lane \<noteq> KSD_KWIN_LANE_FAST \<and> lane \<noteq> KSD_KWIN_LANE_SLOW then False
      else q_parked q ! lane_index lane)"

definition ksd_kwin_queue_result ::
  "ksd_kwin_queue \<Rightarrow> bytes option \<Rightarrow> (u32 \<times> bytes option \<times> u32) option" where
  "ksd_kwin_queue_result q sequence =
     (case ksd_kwin_queue_find q sequence of
        None \<Rightarrow> None
      | Some i \<Rightarrow>
          let job = q_jobs q ! i in
          if j_state job \<noteq> KSD_KWIN_JOB_DONE then None
          else Some (j_status job, j_reply job, j_reply_length job))"

definition overdue :: "u64 \<Rightarrow> ksd_kwin_job \<Rightarrow> bool" where
  "overdue now_ms job \<longleftrightarrow> \<not> (j_state job \<noteq> KSD_KWIN_JOB_QUEUED \<or> j_deadline_ms job > now_ms)"

definition ksd_kwin_queue_expire :: "ksd_kwin_queue \<Rightarrow> u64 \<Rightarrow> nat \<times> ksd_kwin_queue" where
  "ksd_kwin_queue_expire q now_ms =
     (length (filter (overdue now_ms) (q_jobs q)),
      q\<lparr>q_jobs := map (\<lambda>job. if overdue now_ms job then release_slot job else job) (q_jobs q)\<rparr>)"

definition ksd_kwin_queue_count :: "ksd_kwin_queue \<Rightarrow> ksd_kwin_job_state \<Rightarrow> nat" where
  "ksd_kwin_queue_count q state = length (filter (\<lambda>job. j_state job = state) (q_jobs q))"

definition ksd_kwin_queue_release :: "ksd_kwin_queue \<Rightarrow> bytes option \<Rightarrow> ksd_kwin_queue" where
  "ksd_kwin_queue_release q sequence =
     (case sequence of
        None \<Rightarrow> q
      | Some s \<Rightarrow>
          (case first_index (names_job s) (q_jobs q) of
             None \<Rightarrow> q
           | Some i \<Rightarrow> q\<lparr>q_jobs := (q_jobs q)[i := release_slot (q_jobs q ! i)]\<rparr>))"

section \<open>The table as a map from tickets to jobs\<close>

definition occupied :: "ksd_kwin_job \<Rightarrow> bool" where
  "occupied job \<longleftrightarrow> j_state job \<noteq> KSD_KWIN_JOB_FREE"

interpretation jobs: slot_table occupied j_ticket job_zero
  by unfold_locales (simp add: occupied_def job_zero_def)

definition view :: "ksd_kwin_queue \<Rightarrow> u64 \<rightharpoonup> ksd_kwin_job" where
  "view q = jobs.lookup (q_jobs q)"

definition job_wf :: "u64 \<Rightarrow> ksd_kwin_job \<Rightarrow> bool" where
  "job_wf next job \<longleftrightarrow> j_sequence job = format_sequence (j_ticket job) \<and> j_ticket job < next
     \<and> j_lane job = ksd_kwin_lane_for (j_opcode job) \<and> j_lane job \<noteq> KSD_KWIN_LANE_NONE
     \<and> (j_body_length job \<noteq> 0 \<longrightarrow> j_body job \<noteq> None)"

definition queue_wf :: "ksd_kwin_queue \<Rightarrow> bool" where
  "queue_wf q \<longleftrightarrow> length (q_jobs q) = KSD_KWIN_MAX_JOBS \<and> generation_valid (Some (q_generation q))
     \<and> q_next_sequence q = q_next_ticket q \<and> length (q_parked q) = 2 \<and> jobs.keyed (q_jobs q)
     \<and> (\<forall>job\<in>set (q_jobs q). occupied job \<longrightarrow> job_wf (q_next_ticket q) job)"

lemma view_wf: "queue_wf q \<Longrightarrow> view q t = Some job \<Longrightarrow>
     job_wf (q_next_ticket q) job \<and> j_ticket job = t \<and> occupied job"
  using jobs.lookup_found [of "q_jobs q" t job] by (auto simp: queue_wf_def view_def)

lemma view_fresh: "queue_wf q \<Longrightarrow> view q (q_next_ticket q) = None"
  by (auto simp: queue_wf_def view_def jobs.lookup_None job_wf_def)

lemma format_sequence_cstring: "cstring (format_sequence t) = format_sequence t"
proof (rule cstring_id)
  have "list_all hex_digit (format_sequence t)"
    using format_sequence_valid [of t] by (simp add: valid_sequence_def hex_string_iff)
  then show "0 \<notin> set (format_sequence t)" by (auto simp: list_all_iff hex_digit_def)
qed

lemma same_sequence_format: "same_sequence (format_sequence t) s \<longleftrightarrow> cstring s = format_sequence t"
proof
  assume "same_sequence (format_sequence t) s"
  then have eq: "format_sequence t @ [0] = take 17 (cstring s @ [0])"
    by (simp add: same_sequence_def wire_defs format_sequence_cstring)
  have "length (take 17 (cstring s @ [0])) = 17" unfolding eq [symmetric] by simp
  then have len: "17 \<le> length (cstring s @ [0])" unfolding length_take by linarith
  have "length (cstring s) = 16"
  proof (rule ccontr)
    assume "length (cstring s) \<noteq> 16"
    with len have "0 = cstring s ! 16" "16 < length (cstring s)"
      using arg_cong [OF eq, of "\<lambda>l. l ! 16"] by (simp_all add: nth_append)
    then show False using cstring_no_nul [of s] by (metis nth_mem)
  qed
  then show "cstring s = format_sequence t" using eq by simp
qed (simp add: same_sequence_def format_sequence_cstring)

text \<open>Finding by sequence is looking up the ticket it spells.\<close>

lemma names_job_iff:
  assumes "queue_wf q" "job \<in> set (q_jobs q)"
  shows "names_job s job \<longleftrightarrow> occupied job \<and> cstring s = format_sequence (j_ticket job)"
  using assms by (auto simp: names_job_def occupied_def queue_wf_def job_wf_def same_sequence_format)

lemma find_ticket:
  assumes "queue_wf q" "cstring s = format_sequence t"
  shows "map_option (nth (q_jobs q)) (first_index (names_job s) (q_jobs q)) = view q t"
proof -
  have "first_index (names_job s) (q_jobs q) = first_index (\<lambda>j. occupied j \<and> j_ticket j = t) (q_jobs q)"
    using names_job_iff [OF assms(1)] assms(2)
    by (intro first_index_cong) (auto simp: format_sequence_inject)
  then show ?thesis by (simp add: view_def jobs.lookup_def)
qed

lemma find_no_ticket:
  assumes "queue_wf q" "\<And>t. cstring s \<noteq> format_sequence t"
  shows "first_index (names_job s) (q_jobs q) = None"
  using names_job_iff [OF assms(1)] assms(2) by (auto simp: first_index_None)

lemma find_index:
  assumes "queue_wf q" "first_index (names_job s) (q_jobs q) = Some i"
  shows "i < length (q_jobs q)" "occupied (q_jobs q ! i)" "cstring s = format_sequence (j_ticket (q_jobs q ! i))"
    "view q (j_ticket (q_jobs q ! i)) = Some (q_jobs q ! i)"
proof -
  note D = first_index_SomeD [OF assms(2)]
  show "i < length (q_jobs q)" by (rule D(1))
  then show occ: "occupied (q_jobs q ! i)" and "cstring s = format_sequence (j_ticket (q_jobs q ! i))"
    using D(2) names_job_iff [OF assms(1)] by simp_all
  show "view q (j_ticket (q_jobs q ! i)) = Some (q_jobs q ! i)"
    unfolding view_def using assms(1) D(1) occ by (intro jobs.lookup_nth) (simp_all add: queue_wf_def)
qed

section \<open>What each operation does to the map\<close>

lemma queue_wf_update:
  assumes "queue_wf q" "i < length (q_jobs q)" "occupied job \<Longrightarrow> job_wf (q_next_ticket q) job"
    and "jobs.keyed ((q_jobs q)[i := job])"
  shows "queue_wf (q\<lparr>q_jobs := (q_jobs q)[i := job]\<rparr>)"
  using assms by (auto simp: queue_wf_def dest: set_update_subset_insert [THEN subsetD])

lemma queue_wf_parked: "queue_wf (q\<lparr>q_parked := (q_parked q)[k := b]\<rparr>) = queue_wf q"
  by (simp add: queue_wf_def)

lemma view_parked [simp]: "view (q\<lparr>q_parked := p\<rparr>) = view q"
  by (simp add: view_def)

lemma queue_advance:
  assumes "queue_wf q" "q_next_ticket q + 1 \<noteq> 0"
  defines "q1 \<equiv> q\<lparr>q_next_sequence := q_next_sequence q + 1, q_next_ticket := q_next_ticket q + 1\<rparr>"
  shows "queue_wf q1" "view q1 = view q"
  using assms(1) less_next [OF assms(2)] by (auto simp: queue_wf_def q1_def view_def job_wf_def)

text \<open>The job a submission makes, under its ticket.\<close>

definition submitted_job :: "u16 \<Rightarrow> bytes option \<Rightarrow> u32 \<Rightarrow> u64 \<Rightarrow> u64 \<Rightarrow> ksd_kwin_job" where
  "submitted_job opcode body body_length now_ms ticket =
     \<lparr>j_sequence = format_sequence ticket, j_opcode = opcode, j_lane = ksd_kwin_lane_for opcode,
      j_state = KSD_KWIN_JOB_QUEUED, j_deadline_ms = now_ms + KSD_KWIN_OP_DEADLINE_MS,
      j_ticket = ticket, j_status = 0,
      j_body = (if body_length = 0 then None else Some (take (unat body_length) (the body))),
      j_body_length = body_length, j_reply = None, j_reply_length = 0\<rparr>"

lemma submit_view:
  assumes wf: "queue_wf q" and room: "q_next_ticket q + 1 \<noteq> 0"
    and s: "ksd_kwin_queue_submit alloc q opcode body body_length now_ms = (r, q')"
  shows "queue_wf q' \<and> (r = None \<and> view q' = view q \<or>
     r = Some (format_sequence (q_next_ticket q)) \<and> q_next_ticket q' = q_next_ticket q + 1
     \<and> ksd_kwin_lane_for opcode \<noteq> KSD_KWIN_LANE_NONE \<and> (body_length \<noteq> 0 \<longrightarrow> body \<noteq> None)
     \<and> view q' = (view q)(q_next_ticket q \<mapsto> submitted_job opcode body body_length now_ms (q_next_ticket q)))"
proof (cases "r = None \<and> q' = q")
  case True
  then show ?thesis using wf by simp
next
  case False
  let ?q1 = "q\<lparr>q_next_sequence := q_next_sequence q + 1, q_next_ticket := q_next_ticket q + 1\<rparr>"
  let ?lane = "ksd_kwin_lane_for opcode"
  let ?job = "submitted_job opcode body body_length now_ms (q_next_ticket q)"
  have seq: "q_next_sequence q = q_next_ticket q" using wf by (simp add: queue_wf_def)
  from s False obtain i where
    i: "first_index (\<lambda>job. j_state job = KSD_KWIN_JOB_FREE) (q_jobs q) = Some i" and
    lane: "?lane = KSD_KWIN_LANE_FAST \<or> ?lane = KSD_KWIN_LANE_SLOW" and
    body: "body_length \<noteq> 0 \<longrightarrow> body \<noteq> None" and
    q': "r = None \<and> q' = ?q1\<lparr>q_jobs := (q_jobs q)[i := job_zero]\<rparr>
      \<or> r = Some (format_sequence (q_next_sequence q)) \<and> q' = ?q1\<lparr>q_jobs := (q_jobs q)[i := ?job]\<rparr>"
    by (auto simp: ksd_kwin_queue_submit_def submitted_job_def seq Let_def release_slot_def split: if_splits option.splits)
  have free: "i < length (q_jobs q)" "\<not> occupied (q_jobs q ! i)"
    using first_index_SomeD [OF i] by (simp_all add: occupied_def)
  note q1 = queue_advance [OF wf room]
  have keyed: "jobs.keyed (q_jobs q)" using wf by (simp add: queue_wf_def)
  have wfjob: "job_wf (q_next_ticket q + 1) ?job"
    using lane less_next(2) [OF room] seq by (auto simp: job_wf_def submitted_job_def)
  note claim = jobs.lookup_claim [OF keyed free, of ?job]
  have fresh: "occupied ?job" "jobs.lookup (q_jobs q) (j_ticket ?job) = None"
    using view_fresh [OF wf] by (simp_all add: occupied_def view_def submitted_job_def)
  from q' show ?thesis
  proof
    assume a: "r = None \<and> q' = ?q1\<lparr>q_jobs := (q_jobs q)[i := job_zero]\<rparr>"
    then show ?thesis
      using queue_wf_update [OF q1(1), of i job_zero] free jobs.keyed_update [OF keyed free(1), of job_zero]
        jobs.lookup_update [OF keyed free(1), of job_zero] jobs.blank_free
      by (auto simp: view_def fun_eq_iff)
  next
    assume a: "r = Some (format_sequence (q_next_sequence q)) \<and> q' = ?q1\<lparr>q_jobs := (q_jobs q)[i := ?job]\<rparr>"
    have "queue_wf q'" using a queue_wf_update [OF q1(1), of i ?job] free(1) claim(1) [OF fresh] wfjob by simp
    moreover have "view q' = (view q)(q_next_ticket q \<mapsto> ?job)"
      using a claim(2) [OF fresh] by (simp add: view_def submitted_job_def)
    ultimately show ?thesis
      using a seq lane body by (intro conjI disjI2) auto
  qed
qed

lemma complete_view:
  assumes wf: "queue_wf q"
    and c: "ksd_kwin_queue_complete alloc q generation sequence status reply reply_length = (r, q')"
  shows "queue_wf q' \<and> (\<not> r \<and> q' = q \<or>
     r \<and> generation = Some (q_generation q) \<and> q_next_ticket q' = q_next_ticket q
       \<and> q_generation q' = q_generation q
       \<and> (\<exists>t job job'. cstring (the sequence) = format_sequence t \<and> view q t = Some job
          \<and> j_state job = KSD_KWIN_JOB_DISPATCHED \<and> view q' = (view q)(t \<mapsto> job')
          \<and> job' = (if reply_length = 0 then job else job\<lparr>j_reply := Some (take (unat reply_length) (the reply)),
                 j_reply_length := reply_length\<rparr>)\<lparr>j_state := KSD_KWIN_JOB_DONE, j_status := status\<rparr>))"
proof (cases r)
  case False
  then show ?thesis
    using c wf by (auto simp: ksd_kwin_queue_complete_def Let_def split: if_splits option.splits)
next
  case True
  have gen: "length (q_generation q) = 32" using wf by (simp add: queue_wf_def generation_valid_def hex_string_iff wire_defs)
  with True c obtain i where
    g: "generation = Some (q_generation q)" and
    i: "first_index (names_job (the sequence)) (q_jobs q) = Some i" and
    st: "j_state (q_jobs q ! i) = KSD_KWIN_JOB_DISPATCHED" and
    q': "q' = q\<lparr>q_jobs := (q_jobs q)[i := (if reply_length = 0 then q_jobs q ! i
          else (q_jobs q ! i)\<lparr>j_reply := Some (take (unat reply_length) (the reply)), j_reply_length := reply_length\<rparr>)
          \<lparr>j_state := KSD_KWIN_JOB_DONE, j_status := status\<rparr>]\<rparr>"
    by (auto simp: ksd_kwin_queue_complete_def Let_def generation_valid_def hex_string_iff wire_defs
        split: if_splits option.splits)
  note at = find_index [OF wf i]
  let ?job = "(if reply_length = 0 then q_jobs q ! i
      else (q_jobs q ! i)\<lparr>j_reply := Some (take (unat reply_length) (the reply)), j_reply_length := reply_length\<rparr>)
      \<lparr>j_state := KSD_KWIN_JOB_DONE, j_status := status\<rparr>"
  have keyed: "jobs.keyed (q_jobs q)" using wf by (simp add: queue_wf_def)
  have key: "j_ticket ?job = j_ticket (q_jobs q ! i)" "occupied ?job" by (simp_all add: occupied_def)
  note rw = jobs.lookup_rewrite [OF keyed at(1,2) key(2,1)]
  have "job_wf (q_next_ticket q) ?job"
    using view_wf [OF wf at(4)] by (auto simp: job_wf_def)
  then have "queue_wf q'"
    using queue_wf_update [OF wf at(1), of ?job] rw(1) q' by simp
  moreover have "view q' = (view q)(j_ticket (q_jobs q ! i) \<mapsto> ?job)"
    using rw(2) key(1) q' by (simp add: view_def)
  ultimately show ?thesis
    using True g q' at(3,4) st
    by (intro conjI disjI2 exI [of _ "j_ticket (q_jobs q ! i)"] exI [of _ "q_jobs q ! i"] exI [of _ ?job]) simp_all
qed

lemma expire_view:
  assumes wf: "queue_wf q"
  shows "queue_wf (snd (ksd_kwin_queue_expire q now_ms))"
    "view (snd (ksd_kwin_queue_expire q now_ms)) t =
       (case view q t of Some job \<Rightarrow> if overdue now_ms job then None else Some job | None \<Rightarrow> None)"
proof -
  have keyed: "jobs.keyed (q_jobs q)" using wf by (simp add: queue_wf_def)
  note sweep = jobs.lookup_sweep [OF keyed, of "overdue now_ms"]
  show "view (snd (ksd_kwin_queue_expire q now_ms)) t =
      (case view q t of Some job \<Rightarrow> if overdue now_ms job then None else Some job | None \<Rightarrow> None)"
    using sweep(2) [of t] unfolding ksd_kwin_queue_expire_def release_slot_def view_def by simp
  show "queue_wf (snd (ksd_kwin_queue_expire q now_ms))"
    using wf sweep(1) jobs.blank_free unfolding ksd_kwin_queue_expire_def release_slot_def queue_wf_def
    by auto
qed

lemma release_view:
  assumes wf: "queue_wf q"
  shows "queue_wf (ksd_kwin_queue_release q sequence)"
    "view (ksd_kwin_queue_release q sequence) t =
       (if sequence \<noteq> None \<and> cstring (the sequence) = format_sequence t then None else view q t)"
proof -
  have "queue_wf (ksd_kwin_queue_release q sequence) \<and> view (ksd_kwin_queue_release q sequence) t =
       (if sequence \<noteq> None \<and> cstring (the sequence) = format_sequence t then None else view q t)"
  proof (cases "sequence")
    case None
    then show ?thesis using wf by (simp add: ksd_kwin_queue_release_def)
  next
    case (Some s)
    show ?thesis
    proof (cases "first_index (names_job s) (q_jobs q)")
      case None
      then show ?thesis
        using wf Some find_ticket [OF wf, of s t] by (auto simp: ksd_kwin_queue_release_def)
    next
      case i: (Some i)
      note at = find_index [OF wf i]
      have keyed: "jobs.keyed (q_jobs q)" using wf by (simp add: queue_wf_def)
      note free = jobs.lookup_free [OF keyed at(1,2)]
      show ?thesis
        using Some i free queue_wf_update [OF wf at(1), of job_zero] jobs.blank_free at(3)
        by (auto simp: ksd_kwin_queue_release_def release_slot_def view_def format_sequence_inject)
    qed
  qed
  then show "queue_wf (ksd_kwin_queue_release q sequence)"
    "view (ksd_kwin_queue_release q sequence) t =
       (if sequence \<noteq> None \<and> cstring (the sequence) = format_sequence t then None else view q t)" by auto
qed

subsection \<open>Taking a batch\<close>

definition waiting :: "ksd_kwin_lane \<Rightarrow> ksd_kwin_job \<Rightarrow> bool" where
  "waiting lane job \<longleftrightarrow> j_state job = KSD_KWIN_JOB_QUEUED \<and> j_lane job = lane"

definition candidates :: "ksd_kwin_lane \<Rightarrow> ksd_kwin_job list \<Rightarrow> nat \<Rightarrow> (nat \<times> ksd_kwin_job) option \<Rightarrow>
    (nat \<times> ksd_kwin_job) set" where
  "candidates lane jobs n best = set_option best \<union> {p \<in> set (enumerate n jobs). waiting lane (snd p)}"

lemma candidates_Cons:
  "candidates lane (job # jobs) n best =
     (if waiting lane job then insert (n, job) (candidates lane jobs (Suc n) best)
      else candidates lane jobs (Suc n) best)"
  by (auto simp: candidates_def)

definition picks :: "nat option \<Rightarrow> (nat \<times> ksd_kwin_job) set \<Rightarrow> bool" where
  "picks r C \<longleftrightarrow> (case r of None \<Rightarrow> C = {}
     | Some i \<Rightarrow> \<exists>b. (i, b) \<in> C \<and> (\<forall>p\<in>C. j_ticket b \<le> j_ticket (snd p)))"

lemma picks_absorb:
  assumes "picks r C" "(k, b) \<in> C" "j_ticket b \<le> j_ticket c"
  shows "picks r (insert (m, c) C)"
proof (cases r)
  case None
  then show ?thesis using assms(1,2) by (simp add: picks_def)
next
  case (Some i)
  with assms(1) obtain a where a: "(i, a) \<in> C" "\<forall>p\<in>C. j_ticket a \<le> j_ticket (snd p)"
    by (auto simp: picks_def)
  moreover have "j_ticket a \<le> j_ticket c" using a(2) assms(2,3) by force
  ultimately show ?thesis using Some by (auto simp: picks_def)
qed

lemma oldest_from_picks: "picks (oldest_from lane jobs n best) (candidates lane jobs n best)"
proof (induction jobs arbitrary: n best)
  case Nil
  then show ?case by (auto simp: candidates_def picks_def split: option.splits)
next
  case (Cons job jobs)
  show ?case
  proof (cases "waiting lane job")
    case False
    with Cons.IH [of "Suc n" best] show ?thesis by (auto simp: candidates_Cons waiting_def)
  next
    case True
    define new where "new = (case best of None \<Rightarrow> Some (n, job)
      | Some (k, b) \<Rightarrow> if j_ticket job < j_ticket b then Some (n, job) else best)"
    have step: "oldest_from lane (job # jobs) n best = oldest_from lane jobs (Suc n) new"
      using True by (auto simp: waiting_def new_def)
    note IH = Cons.IH [of "Suc n" new]
    show ?thesis
    proof (cases "new = best")
      case same: True
      then obtain k b where b: "best = Some (k, b)" "j_ticket b \<le> j_ticket job"
        by (auto simp: new_def split: option.splits if_splits)
      have "(k, b) \<in> candidates lane jobs (Suc n) new" using b(1) same by (simp add: candidates_def)
      from picks_absorb [OF IH this b(2), of n] show ?thesis
        using same True step by (simp add: candidates_Cons del: oldest_from.simps)
    next
      case False
      then have new: "new = Some (n, job)" and le: "\<And>k b. best = Some (k, b) \<Longrightarrow> j_ticket job \<le> j_ticket b"
        by (auto simp: new_def split: option.splits if_splits)
      have split: "candidates lane (job # jobs) n best = candidates lane jobs (Suc n) new \<union> set_option best"
        using True new by (auto simp: candidates_Cons candidates_def)
      show ?thesis
      proof (cases best)
        case None
        with IH step split show ?thesis by simp
      next
        case (Some p)
        obtain k b where p: "p = (k, b)" by (cases p)
        have "picks (oldest_from lane jobs (Suc n) new) (insert (k, b) (candidates lane jobs (Suc n) new))"
          using le [of k b] Some p new by (intro picks_absorb [OF IH, of n job]) (auto simp: candidates_def)
        with step split Some p show ?thesis by simp
      qed
    qed
  qed
qed

lemma oldest_queued_None: "oldest_queued lane jobs = None \<longleftrightarrow> (\<forall>j\<in>set jobs. \<not> waiting lane j)"
proof -
  have "candidates lane jobs 0 None = {} \<longleftrightarrow> (\<forall>j\<in>set jobs. \<not> waiting lane j)"
    by (auto simp: candidates_def in_set_enumerate_eq) (metis in_set_conv_nth)
  then show ?thesis
    using oldest_from_picks [of lane jobs 0 None]
    by (cases "oldest_from lane jobs 0 None") (auto simp: oldest_queued_def picks_def)
qed

lemma oldest_queued_Some:
  assumes "oldest_queued lane jobs = Some i"
  shows "i < length jobs" "waiting lane (jobs ! i)"
    "\<And>j. j < length jobs \<Longrightarrow> waiting lane (jobs ! j) \<Longrightarrow> j_ticket (jobs ! i) \<le> j_ticket (jobs ! j)"
proof -
  have C: "(k, b) \<in> candidates lane jobs 0 None \<longleftrightarrow> k < length jobs \<and> b = jobs ! k \<and> waiting lane b" for k b
    by (auto simp: candidates_def in_set_enumerate_eq)
  from oldest_from_picks [of lane jobs 0 None] assms obtain b where
    b: "(i, b) \<in> candidates lane jobs 0 None" "\<forall>p\<in>candidates lane jobs 0 None. j_ticket b \<le> j_ticket (snd p)"
    by (auto simp: oldest_queued_def picks_def)
  then show "i < length jobs" "waiting lane (jobs ! i)" by (auto simp: C)
  fix j
  assume "j < length jobs" "waiting lane (jobs ! j)"
  then have "(j, jobs ! j) \<in> candidates lane jobs 0 None" by (simp add: C)
  from bspec [OF b(2) this] b(1) show "j_ticket (jobs ! i) \<le> j_ticket (jobs ! j)" by (simp add: C)
qed

definition dispatched :: "ksd_kwin_job \<Rightarrow> ksd_kwin_job" where
  "dispatched job = job\<lparr>j_state := KSD_KWIN_JOB_DISPATCHED\<rparr>"

lemma dispatched_fields [simp]:
  "j_ticket (dispatched job) = j_ticket job" "j_state (dispatched job) = KSD_KWIN_JOB_DISPATCHED"
  "occupied (dispatched job)" "\<not> waiting lane (dispatched job)"
  by (simp_all add: dispatched_def occupied_def waiting_def)

lemma waiting_occupied: "waiting lane job \<Longrightarrow> occupied job"
  by (simp add: waiting_def occupied_def)

text \<open>
  A batch is fair: its jobs were waiting in the lane, come in ticket order, and none
  that waits longer is left behind.
\<close>

definition fair_batch :: "nat \<Rightarrow> ksd_kwin_lane \<Rightarrow> ksd_kwin_job list \<Rightarrow> nat list \<Rightarrow> ksd_kwin_job list \<Rightarrow> bool" where
  "fair_batch limit lane jobs batch jobs' \<longleftrightarrow>
     length jobs' = length jobs
   \<and> (\<forall>i\<in>set batch. i < length jobs \<and> waiting lane (jobs ! i))
   \<and> (\<forall>i<length jobs. jobs' ! i = (if i \<in> set batch then dispatched (jobs ! i) else jobs ! i))
   \<and> sorted_wrt (\<lambda>i j. j_ticket (jobs ! i) < j_ticket (jobs ! j)) batch
   \<and> (\<forall>i\<in>set batch. \<forall>j<length jobs. waiting lane (jobs' ! j) \<longrightarrow> j_ticket (jobs ! i) < j_ticket (jobs ! j))
   \<and> length batch = min limit (length (filter (waiting lane) jobs))"

lemma take_loop_fair:
  "jobs.keyed jobs \<Longrightarrow> take_loop limit lane jobs = (batch, jobs') \<Longrightarrow> fair_batch limit lane jobs batch jobs'"
proof (induction limit arbitrary: jobs batch)
  case 0
  then show ?case by (simp add: fair_batch_def)
next
  case (Suc limit)
  show ?case
  proof (cases "oldest_queued lane jobs")
    case None
    then have "filter (waiting lane) jobs = []" by (simp add: oldest_queued_None filter_empty_conv)
    with Suc.prems None show ?thesis by (simp add: fair_batch_def)
  next
    case (Some i)
    note old = oldest_queued_Some [OF Some]
    let ?jobs = "jobs[i := dispatched (jobs ! i)]"
    obtain rest where r: "take_loop limit lane ?jobs = (rest, jobs')" "batch = i # rest"
      using Suc.prems(2) Some by (auto simp: dispatched_def split: prod.splits)
    have "jobs.keyed ?jobs"
      using jobs.lookup_rewrite(1) [OF Suc.prems(1) old(1)] waiting_occupied [OF old(2)] by simp
    note IH = Suc.IH [OF this r(1), unfolded fair_batch_def]
    have J: "?jobs ! a = (if a = i then dispatched (jobs ! i) else jobs ! a)" for a
      using old(1) by simp
    have in_rest: "a < length jobs \<and> a \<noteq> i \<and> waiting lane (jobs ! a)" if "a \<in> set rest" for a
      using IH that by (auto simp: J split: if_splits)
    have after: "jobs' ! a = (if a \<in> set (i # rest) then dispatched (jobs ! a) else jobs ! a)"
      if "a < length jobs" for a
      using IH that in_rest [of a] by (auto simp: J)
    have less: "j_ticket (jobs ! i) < j_ticket (jobs ! a)" if "a < length jobs" "a \<noteq> i" "waiting lane (jobs ! a)" for a
      using old(3) [OF that(1,3)] jobs.keyedD [OF Suc.prems(1) old(1) that(1)] that old(2) waiting_occupied
      by (metis order_le_less)
    have still: "a \<notin> set (i # rest) \<and> waiting lane (jobs ! a)" if "a < length jobs" "waiting lane (jobs' ! a)" for a
      using that after [OF that(1)] by (auto split: if_splits)
    have count: "length batch = min (Suc limit) (length (filter (waiting lane) jobs))"
      using length_filter_update [OF old(1), of "waiting lane" "dispatched (jobs ! i)"] old(2) IH r(2) by simp
    have tick: "j_ticket (?jobs ! a) = j_ticket (jobs ! a)" for a by (simp add: J)
    moreover have "sorted_wrt (\<lambda>a b. j_ticket (jobs ! a) < j_ticket (jobs ! b)) batch"
      using IH in_rest less r(2) by (simp add: tick)
    moreover have "j_ticket (jobs ! a) < j_ticket (jobs ! b)"
      if "a \<in> set batch" "b < length jobs" "waiting lane (jobs' ! b)" for a b
    proof (cases "a = i")
      case True
      then show ?thesis using less [of b] still [OF that(2,3)] that(2) by auto
    next
      case False
      then have "a \<in> set rest" using that(1) r(2) by simp
      then have "j_ticket (?jobs ! a) < j_ticket (?jobs ! b)" using IH that(2,3) by simp
      then show ?thesis by (simp only: tick)
    qed
    ultimately show ?thesis
      unfolding fair_batch_def using IH old(1,2) in_rest after count r(2) by simp
  qed
qed

lemma view_index:
  assumes "queue_wf q" "view q t = Some job"
  obtains i where "i < length (q_jobs q)" "q_jobs q ! i = job" "occupied job" "j_ticket job = t"
  using assms jobs.lookup_Some [of "q_jobs q" t job] by (auto simp: view_def queue_wf_def)

lemma take_view:
  assumes wf: "queue_wf q" and t: "ksd_kwin_queue_take q lane capacity = (batch, q')"
  shows "fair_batch (min capacity (lane_capacity lane)) lane (q_jobs q) batch (q_jobs q')"
    "queue_wf q'" "q_next_ticket q' = q_next_ticket q" "q_generation q' = q_generation q"
    "view q' t = view q t \<or> (\<exists>job. view q t = Some job \<and> waiting lane job \<and> view q' t = Some (dispatched job))"
proof -
  have keyed: "jobs.keyed (q_jobs q)" using wf by (simp add: queue_wf_def)
  from t obtain jobs' where
    loop: "take_loop (min capacity (lane_capacity lane)) lane (q_jobs q) = (batch, jobs')"
    and q': "q' = q\<lparr>q_jobs := jobs'\<rparr>"
    by (auto simp: ksd_kwin_queue_take_def min_def Let_def split: prod.splits if_splits)
  note fair = take_loop_fair [OF keyed loop]
  have len: "length jobs' = length (q_jobs q)"
    and at: "\<And>i. i < length (q_jobs q) \<Longrightarrow>
      jobs' ! i = (if i \<in> set batch then dispatched (q_jobs q ! i) else q_jobs q ! i)"
    and wt: "\<And>i. i \<in> set batch \<Longrightarrow> waiting lane (q_jobs q ! i)"
    using fair by (simp_all add: fair_batch_def)
  have pw: "occupied (jobs' ! i) = occupied (q_jobs q ! i) \<and> j_ticket (jobs' ! i) = j_ticket (q_jobs q ! i)"
    if "i < length (q_jobs q)" for i
    using at [OF that] wt [of i] waiting_occupied by auto
  note lk = jobs.lookup_pointwise [OF keyed len pw]
  show "fair_batch (min capacity (lane_capacity lane)) lane (q_jobs q) batch (q_jobs q')"
    using fair q' by simp
  show "q_next_ticket q' = q_next_ticket q" "q_generation q' = q_generation q" by (simp_all add: q')
  have "job_wf (q_next_ticket q) (jobs' ! i)" if "i < length jobs'" "occupied (jobs' ! i)" for i
    using that at [of i] pw [of i] len wf nth_mem [of i "q_jobs q"]
    by (auto simp: queue_wf_def job_wf_def dispatched_def)
  then show "queue_wf q'"
    using wf lk(1) len by (auto simp: queue_wf_def q' in_set_conv_nth)
  show "view q' t = view q t \<or> (\<exists>job. view q t = Some job \<and> waiting lane job \<and> view q' t = Some (dispatched job))"
  proof (cases "view q t")
    case None
    then show ?thesis using lk(2) [of t] by (simp add: view_def q')
  next
    case (Some job)
    then obtain i where i: "i < length (q_jobs q)" "q_jobs q ! i = job" "occupied job" "j_ticket job = t"
      using view_index [OF wf] by blast
    then have "view q' t = Some (jobs' ! i)" using lk(3) [of i] by (simp add: view_def q')
    then show ?thesis using Some at [OF i(1)] wt [of i] i(2) by (auto split: if_splits)
  qed
qed

section \<open>The life of a job\<close>

datatype queue_call =
    CallSubmit u16 "bytes option" u32 u64
  | CallPoll "bytes option" u64
  | CallPollParked ksd_kwin_lane u64
  | CallReport "bytes option"
  | CallExpire u64
  | CallRelease "bytes option"

fun queue_step :: "(nat \<Rightarrow> bool) \<Rightarrow> ksd_buffer \<Rightarrow> queue_call \<Rightarrow> ksd_kwin_queue \<Rightarrow> ksd_kwin_queue" where
  "queue_step alloc reply (CallSubmit opcode body n now) q = snd (ksd_kwin_queue_submit alloc q opcode body n now)"
| "queue_step alloc reply (CallPoll envelope now) q = fst (snd (ksd_kwin_queue_poll alloc q envelope now reply))"
| "queue_step alloc reply (CallPollParked lane now) q = fst (snd (ksd_kwin_queue_poll_parked alloc q lane now reply))"
| "queue_step alloc reply (CallReport envelope) q = fst (snd (ksd_kwin_queue_report alloc q envelope reply))"
| "queue_step alloc reply (CallExpire now) q = snd (ksd_kwin_queue_expire q now)"
| "queue_step alloc reply (CallRelease sequence) q = ksd_kwin_queue_release q sequence"

definition finished_job :: "ksd_kwin_done \<Rightarrow> ksd_kwin_job \<Rightarrow> ksd_kwin_job" where
  "finished_job d job =
     (if dn_body_length d = 0 then job
      else job\<lparr>j_reply := Some (take (unat (dn_body_length d)) (dn_body d)), j_reply_length := dn_body_length d\<rparr>)
     \<lparr>j_state := KSD_KWIN_JOB_DONE, j_status := dn_status d\<rparr>"

text \<open>
  What a call may do to the job with ticket \<open>t\<close>, when it does anything. A release frees
  the slot of the job it names in whatever state the job is.
\<close>

inductive job_event :: "u64 \<Rightarrow> bytes \<Rightarrow> queue_call \<Rightarrow> u64 \<Rightarrow> ksd_kwin_job option \<Rightarrow> ksd_kwin_job option \<Rightarrow> bool"
  for fresh :: u64 and generation :: bytes where
  Submitted: "ksd_kwin_lane_for opcode \<noteq> KSD_KWIN_LANE_NONE \<Longrightarrow> n \<noteq> 0 \<longrightarrow> body \<noteq> None \<Longrightarrow>
    job_event fresh generation (CallSubmit opcode body n now) fresh None (Some (submitted_job opcode body n now fresh))"
| Polled: "ksd_kwin_parse_poll envelope = Some poll \<Longrightarrow> poll_generation poll = generation \<Longrightarrow>
    waiting (poll_lane poll) job \<Longrightarrow>
    job_event fresh generation (CallPoll envelope now) t (Some job) (Some (dispatched job))"
| Unparked: "waiting lane job \<Longrightarrow>
    job_event fresh generation (CallPollParked lane now) t (Some job) (Some (dispatched job))"
| Reported: "ksd_kwin_parse_report envelope = Some r \<Longrightarrow> rp_generation r = generation \<Longrightarrow> d \<in> set (rp_done r) \<Longrightarrow>
    dn_sequence d = format_sequence t \<Longrightarrow> j_state job = KSD_KWIN_JOB_DISPATCHED \<Longrightarrow>
    job_event fresh generation (CallReport envelope) t (Some job) (Some (finished_job d job))"
| Expired: "j_state job = KSD_KWIN_JOB_QUEUED \<Longrightarrow> j_deadline_ms job \<le> now \<Longrightarrow>
    job_event fresh generation (CallExpire now) t (Some job) None"
| Released: "cstring s = format_sequence t \<Longrightarrow>
    job_event fresh generation (CallRelease (Some s)) t (Some job) None"

lemma complete_all_view:
  "queue_wf q \<Longrightarrow> (\<forall>d\<in>set ds. 0 \<notin> set (dn_sequence d)) \<Longrightarrow> complete_all alloc ds q = (r, q') \<Longrightarrow>
     queue_wf q' \<and> q_next_ticket q' = q_next_ticket q \<and> q_generation q' = q_generation q
   \<and> (view q' t = view q t \<or> (\<exists>d\<in>set ds. \<exists>job. view q t = Some job \<and> j_state job = KSD_KWIN_JOB_DISPATCHED
        \<and> dn_sequence d = format_sequence t \<and> view q' t = Some (finished_job d job)))"
proof (induction ds arbitrary: q)
  case Nil
  then show ?case by simp
next
  case (Cons d ds)
  obtain ok q1 where one: "ksd_kwin_queue_complete alloc q (Some (q_generation q)) (Some (dn_sequence d))
      (dn_status d) (Some (dn_body d)) (dn_body_length d) = (ok, q1)" by (metis surj_pair)
  show ?case
  proof (cases ok)
    case False
    then show ?thesis using complete_view [OF Cons.prems(1) one] one Cons.prems by auto
  next
    case True
    with complete_view [OF Cons.prems(1) one] Cons.prems(2) obtain u job where
      q1: "queue_wf q1" "q_next_ticket q1 = q_next_ticket q" "q_generation q1 = q_generation q"
        "dn_sequence d = format_sequence u" "view q u = Some job" "j_state job = KSD_KWIN_JOB_DISPATCHED"
        "view q1 = (view q)(u \<mapsto> finished_job d job)"
      by (auto simp: finished_job_def cstring_id)
    from Cons.prems(3) one True have "complete_all alloc ds q1 = (r, q')" by simp
    from Cons.IH [OF q1(1) _ this] Cons.prems(2) have IH: "queue_wf q'" "q_next_ticket q' = q_next_ticket q"
        "q_generation q' = q_generation q"
        "view q' t = view q1 t \<or> (\<exists>d\<in>set ds. \<exists>job. view q1 t = Some job \<and> j_state job = KSD_KWIN_JOB_DISPATCHED
          \<and> dn_sequence d = format_sequence t \<and> view q' t = Some (finished_job d job))"
      using q1 by auto
    have done_: "j_state (finished_job d job) = KSD_KWIN_JOB_DONE" by (simp add: finished_job_def)
    show ?thesis
    proof (cases "t = u")
      case True
      then show ?thesis using IH q1 done_ by auto
    next
      case False
      then show ?thesis using IH q1 by auto
    qed
  qed
qed

lemma dispatch_jobs_view:
  assumes wf: "queue_wf q" and d: "dispatch_jobs q lane now = (ds, q')"
  shows "queue_wf q'" "q_next_ticket q' = q_next_ticket q" "q_generation q' = q_generation q"
    "view q' t = view q t \<or> (\<exists>job. view q t = Some job \<and> waiting lane job \<and> view q' t = Some (dispatched job))"
proof -
  from d obtain batch where b: "ksd_kwin_queue_take q lane KSD_KWIN_JOBS_PER_REPLY_FAST = (batch, q')"
    by (auto simp: dispatch_jobs_def split: prod.splits)
  show "queue_wf q'" "q_next_ticket q' = q_next_ticket q" "q_generation q' = q_generation q"
    "view q' t = view q t \<or> (\<exists>job. view q t = Some job \<and> waiting lane job \<and> view q' t = Some (dispatched job))"
    using take_view [OF wf b] by auto
qed

lemma generation_take: "length g = 32 \<Longrightarrow> take KSD_KWIN_GENERATION_HEX g = g"
  by (simp add: wire_defs)

lemma poll_view:
  assumes wf: "queue_wf q" and p: "ksd_kwin_queue_poll alloc q envelope now reply = (o1, q', reply')"
  shows "queue_wf q' \<and> q_next_ticket q' = q_next_ticket q \<and> q_generation q' = q_generation q
    \<and> (view q' t = view q t \<or> (\<exists>poll job. ksd_kwin_parse_poll envelope = Some poll
        \<and> poll_generation poll = q_generation q \<and> view q t = Some job \<and> waiting (poll_lane poll) job
        \<and> view q' t = Some (dispatched job)))"
proof (cases "q' = q")
  case True
  then show ?thesis using wf by simp
next
  case False
  have len: "length (q_generation q) = 32"
    using wf by (simp add: queue_wf_def generation_valid_def hex_string_iff wire_defs)
  from p False obtain poll ds q1 where
    poll: "ksd_kwin_parse_poll envelope = Some poll" and
    gen: "take KSD_KWIN_GENERATION_HEX (poll_generation poll) = take KSD_KWIN_GENERATION_HEX (q_generation q)" and
    d: "dispatch_jobs q (poll_lane poll) now = (ds, q1)" and
    q': "\<exists>b. q' = q1\<lparr>q_parked := (q_parked q1)[lane_index (poll_lane poll) := b]\<rparr>"
    by (auto simp: ksd_kwin_queue_poll_def Let_def split: option.splits if_splits prod.splits)
  have "length (poll_generation poll) = 32"
    using parse_poll_valid [OF poll] by (simp add: poll_valid_def)
  then have "poll_generation poll = q_generation q" using gen len by (simp add: generation_take)
  then show ?thesis
    using dispatch_jobs_view(1-3) [OF wf d] dispatch_jobs_view(4) [OF wf d, of t] q' poll
    by (auto simp: queue_wf_parked)
qed

lemma poll_parked_view:
  assumes wf: "queue_wf q" and p: "ksd_kwin_queue_poll_parked alloc q lane now reply = (ok, q', reply')"
  shows "queue_wf q' \<and> q_next_ticket q' = q_next_ticket q \<and> q_generation q' = q_generation q
    \<and> (view q' t = view q t \<or> (\<exists>job. view q t = Some job \<and> waiting lane job \<and> view q' t = Some (dispatched job)))"
proof (cases "q' = q")
  case True
  then show ?thesis using wf by simp
next
  case False
  let ?q1 = "q\<lparr>q_parked := (q_parked q)[lane_index lane := False]\<rparr>"
  have wf1: "queue_wf ?q1" using wf by (simp add: queue_wf_parked)
  from p False obtain ds where d: "dispatch_jobs ?q1 lane now = (ds, q')"
    by (auto simp: ksd_kwin_queue_poll_parked_def Let_def split: if_splits prod.splits)
  show ?thesis
    using dispatch_jobs_view(1-3) [OF wf1 d] dispatch_jobs_view(4) [OF wf1 d, of t] by simp
qed

lemma parse_report_valid: "ksd_kwin_parse_report d = Some r \<Longrightarrow> report_valid r"
  using parse_report_sound by (cases d) (auto simp: ksd_kwin_parse_report_def)

lemma report_sequences:
  "ksd_kwin_parse_report d = Some r \<Longrightarrow> e \<in> set (rp_done r) \<Longrightarrow>
     length (dn_sequence e) = 16 \<and> 0 \<notin> set (dn_sequence e) \<and> length (dn_body e) = unat (dn_body_length e)"
proof -
  assume p: "ksd_kwin_parse_report d = Some r" and e: "e \<in> set (rp_done r)"
  have v: "done_valid e" using parse_report_valid [OF p] e by (simp add: report_valid_def list_all_iff)
  have "\<not> hex_digit 0" by (simp add: hex_digit_def)
  then have "0 \<notin> set (dn_sequence e)" using v by (auto simp: done_valid_def list_all_iff)
  then show ?thesis using v parse_report_valid [OF p] e
    by (simp add: done_valid_def report_valid_def list_all_iff)
qed

lemma report_view:
  assumes wf: "queue_wf q" and r: "ksd_kwin_queue_report alloc q envelope reply = (ok, q', reply')"
  shows "queue_wf q' \<and> q_next_ticket q' = q_next_ticket q \<and> q_generation q' = q_generation q
    \<and> (view q' t = view q t \<or> (\<exists>r d job. ksd_kwin_parse_report envelope = Some r \<and> rp_generation r = q_generation q
        \<and> d \<in> set (rp_done r) \<and> view q t = Some job \<and> j_state job = KSD_KWIN_JOB_DISPATCHED
        \<and> dn_sequence d = format_sequence t \<and> view q' t = Some (finished_job d job)))"
proof (cases "q' = q")
  case True
  then show ?thesis using wf by simp
next
  case False
  have len: "length (q_generation q) = 32"
    using wf by (simp add: queue_wf_def generation_valid_def hex_string_iff wire_defs)
  from r False obtain rp b where
    rp: "ksd_kwin_parse_report envelope = Some rp" and
    gen: "take KSD_KWIN_GENERATION_HEX (rp_generation rp) = take KSD_KWIN_GENERATION_HEX (q_generation q)" and
    c: "complete_all alloc (rp_done rp) q = (b, q')"
    by (auto simp: ksd_kwin_queue_report_def split: option.splits if_splits prod.splits bool.splits)
  have "length (rp_generation rp) = 32"
    using parse_report_valid [OF rp] by (simp add: report_valid_def)
  then have "rp_generation rp = q_generation q" using gen len by (simp add: generation_take)
  then show ?thesis
    using complete_all_view [OF wf _ c, of t] report_sequences [OF rp] rp by fastforce
qed

inductive queue_reachable :: "ksd_kwin_queue \<Rightarrow> bool" where
  Init: "ksd_kwin_queue_init g = Some q \<Longrightarrow> queue_reachable q"
| Call: "queue_reachable q \<Longrightarrow> q_next_ticket q + 1 \<noteq> 0 \<Longrightarrow> queue_reachable (queue_step alloc reply c q)"

lemma init_wf: "ksd_kwin_queue_init g = Some q \<Longrightarrow> queue_wf q \<and> view q = Map.empty"
  using jobs.keyed_blank jobs.blank_free
  by (auto simp: ksd_kwin_queue_init_def queue_wf_def view_def generation_valid_def hex_string_iff wire_defs
      split: if_splits option.splits)

lemma queue_step_event:
  fixes alloc :: "nat \<Rightarrow> bool" and reply :: ksd_buffer and c :: queue_call and q :: ksd_kwin_queue
  assumes wf: "queue_wf q" and room: "q_next_ticket q + 1 \<noteq> 0"
  defines "q' \<equiv> queue_step alloc reply c q"
  shows "queue_wf q' \<and> (view q' t = view q t \<or>
    job_event (q_next_ticket q) (q_generation q) c t (view q t) (view q' t))"
proof (cases c)
  case (CallSubmit opcode body n now)
  obtain r q1 where s: "ksd_kwin_queue_submit alloc q opcode body n now = (r, q1)" by (metis surj_pair)
  then have q1: "q' = q1" by (simp add: q'_def CallSubmit)
  note event = job_event.Submitted [of opcode n body "q_next_ticket q" "q_generation q" now]
  from submit_view [OF wf room s] view_fresh [OF wf] q1 CallSubmit event show ?thesis
    by (cases "t = q_next_ticket q") auto
next
  case (CallPoll envelope now)
  obtain o1 q1 r1 where p: "ksd_kwin_queue_poll alloc q envelope now reply = (o1, q1, r1)" by (metis surj_pair)
  then show ?thesis
    using poll_view [OF wf p, of t] by (auto simp: q'_def CallPoll intro: job_event.Polled)
next
  case (CallPollParked lane now)
  obtain o1 q1 r1 where p: "ksd_kwin_queue_poll_parked alloc q lane now reply = (o1, q1, r1)" by (metis surj_pair)
  then show ?thesis
    using poll_parked_view [OF wf p, of t] by (auto simp: q'_def CallPollParked intro: job_event.Unparked)
next
  case (CallReport envelope)
  obtain o1 q1 r1 where p: "ksd_kwin_queue_report alloc q envelope reply = (o1, q1, r1)" by (metis surj_pair)
  then show ?thesis
    using report_view [OF wf p, of t] by (auto simp: q'_def CallReport intro: job_event.Reported)
next
  case (CallExpire now)
  then show ?thesis
    using expire_view(1) [OF wf, of now] expire_view(2) [OF wf, of now t]
    by (auto simp: q'_def overdue_def split: option.splits if_splits intro: job_event.Expired)
next
  case (CallRelease s)
  then show ?thesis
    using release_view(1) [OF wf, of s] release_view(2) [OF wf, of s t]
    by (cases "view q t") (auto simp: q'_def split: if_splits intro: job_event.Released)
qed

lemma queue_reachable_wf: "queue_reachable q \<Longrightarrow> queue_wf q"
  by (induction rule: queue_reachable.induct) (use init_wf queue_step_event in blast)+

text \<open>
  C37: the life of a job. In every queue that calls can produce, and for every next
  call and every ticket, that call leaves the job with the ticket alone or takes
  it one step: only a submission creates a job, under a ticket no job had and for an
  opcode with a lane, queued with the body and the opcode submitted and with its deadline counted from then;
  only a poll of the right generation and lane, or the answer to a parked one,
  hands a queued job to the script, once; only a report of the right generation
  that names its sequence completes it, once, after it was dispatched, with the
  status and body of that report; only its own deadline drops a queued job, and otherwise
  nothing drops a job but a release of its sequence, which is not refused to a job in any state.
\<close>

theorem job_lifecycle:
  assumes "queue_reachable q" "q_next_ticket q + 1 \<noteq> 0"
  shows "view (queue_step alloc reply c q) t = view q t
    \<or> job_event (q_next_ticket q) (q_generation q) c t (view q t) (view (queue_step alloc reply c q) t)"
  using queue_step_event [OF queue_reachable_wf [OF assms(1)] assms(2)] by blast

definition empty_queue :: ksd_kwin_queue where
  "empty_queue = the (ksd_kwin_queue_init (Some (replicate 32 97)))"

lemma empty_queue_init: "ksd_kwin_queue_init (Some (replicate 32 97)) = Some empty_queue"
  by (simp add: empty_queue_def ksd_kwin_queue_init_def generation_valid_def hex_string_iff wire_defs
      list_all_iff hex_digit_def)

lemma empty_queue_fields:
  "q_next_ticket empty_queue = 1" "q_next_sequence empty_queue = 1" "q_generation empty_queue = replicate 32 97"
  "q_jobs empty_queue = replicate 128 job_zero" "q_parked empty_queue = [False, False]"
  by (simp_all add: empty_queue_def ksd_kwin_queue_init_def generation_valid_def hex_string_iff wire_defs
      list_all_iff hex_digit_def)

section \<open>Batches are fair\<close>

text \<open>
  first come, first served. In every queue that calls can produce, the batch
  taken for a lane has as many jobs as wait there, up to the capacity of the reply
  and of the lane; the jobs come in the order of their tickets, each was waiting in
  that lane and is dispatched, no other job of the table changes, and every job that
  still waits in the lane has a later ticket than every job of the batch.
\<close>

theorem take_first_come_first_served:
  assumes "queue_reachable q"
  shows "let (batch, q') = ksd_kwin_queue_take q lane capacity in
    length batch = min (min capacity (lane_capacity lane)) (length (filter (waiting lane) (q_jobs q)))
    \<and> sorted_wrt (\<lambda>i j. j_ticket (q_jobs q ! i) < j_ticket (q_jobs q ! j)) batch
    \<and> (\<forall>i\<in>set batch. i < length (q_jobs q) \<and> waiting lane (q_jobs q ! i))
    \<and> (\<forall>i<length (q_jobs q). q_jobs q' ! i = (if i \<in> set batch then dispatched (q_jobs q ! i) else q_jobs q ! i))
    \<and> (\<forall>i\<in>set batch. \<forall>j<length (q_jobs q). waiting lane (q_jobs q' ! j) \<longrightarrow>
         j_ticket (q_jobs q ! i) < j_ticket (q_jobs q ! j))"
proof -
  obtain batch q' where t: "ksd_kwin_queue_take q lane capacity = (batch, q')" by (metis surj_pair)
  show ?thesis
    using take_view(1) [OF queue_reachable_wf [OF assms] t] by (simp add: t fair_batch_def)
qed

text \<open>A queue with one job, submitted and then handed out.\<close>

definition one_job :: ksd_kwin_job where
  "one_job = \<lparr>j_sequence = format_sequence 1, j_opcode = KSD_OP_WINDOW_FOCUS, j_lane = KSD_KWIN_LANE_FAST,
     j_state = KSD_KWIN_JOB_QUEUED, j_deadline_ms = 5 + KSD_KWIN_OP_DEADLINE_MS, j_ticket = 1, j_status = 0,
     j_body = None, j_body_length = 0, j_reply = None, j_reply_length = 0\<rparr>"

definition one_queue :: ksd_kwin_queue where
  "one_queue = empty_queue\<lparr>q_next_sequence := 2, q_next_ticket := 2, q_jobs := one_job # replicate 127 job_zero\<rparr>"

definition handed_queue :: ksd_kwin_queue where
  "handed_queue = one_queue\<lparr>q_jobs := dispatched one_job # replicate 127 job_zero\<rparr>"

lemma job_zero_free: "j_state job_zero = KSD_KWIN_JOB_FREE"
  by (simp add: job_zero_def)

lemma jobs_unfold: "replicate 128 job_zero = job_zero # replicate 127 job_zero"
  by (simp flip: replicate_Suc)

lemma one_queue_submit:
  "queue_step alloc reply (CallSubmit KSD_OP_WINDOW_FOCUS None 0 5) empty_queue = one_queue"
  by (simp add: ksd_kwin_queue_submit_def empty_queue_fields jobs_unfold job_zero_free one_queue_def one_job_def
      ksd_kwin_lane_for_def wire_defs Let_def)

lemma oldest_from_blank: "oldest_from lane (replicate n job_zero) i best = map_option fst best"
  by (induction n arbitrary: i) (simp_all add: job_zero_def)

lemma one_queue_take: "ksd_kwin_queue_take one_queue KSD_KWIN_LANE_FAST 8 = ([0], handed_queue)"
  by (simp add: ksd_kwin_queue_take_def one_queue_def handed_queue_def oldest_queued_def oldest_from_blank
      lane_capacity_def wire_defs numeral_eq_Suc dispatched_def one_job_def del: replicate.simps oldest_from.simps(1))


lemma one_queue_reachable: "queue_reachable one_queue"
  using queue_reachable.Call [OF queue_reachable.Init [OF empty_queue_init], of "\<lambda>_. True" "ksd_buffer_init 64"
      "CallSubmit KSD_OP_WINDOW_FOCUS None 0 5"]
  by (simp only: one_queue_submit) (simp add: empty_queue_fields)

lemma one_queue_waiting: "length (filter (waiting KSD_KWIN_LANE_FAST) (q_jobs one_queue)) = 1"
  by (simp add: one_queue_def one_job_def waiting_def job_zero_free)

theorem take_first_come_first_served_witness:
  "fst (ksd_kwin_queue_take one_queue KSD_KWIN_LANE_FAST 8) = [0] \<and>
   length (fst (ksd_kwin_queue_take one_queue KSD_KWIN_LANE_FAST 8)) = min (min 8 (lane_capacity KSD_KWIN_LANE_FAST)) 1"
  using take_first_come_first_served [OF one_queue_reachable, of KSD_KWIN_LANE_FAST 8]
  by (simp add: one_queue_take one_queue_waiting)

section \<open>Reports\<close>

text \<open>Memory for the copy of a body, which an empty one does not need.\<close>

definition body_fits :: "(nat \<Rightarrow> bool) \<Rightarrow> u32 \<Rightarrow> bool" where
  "body_fits alloc n \<longleftrightarrow> n = 0 \<or> alloc (unat n)"

lemma complete_outstanding:
  assumes wf: "queue_wf q" and v: "view q t = Some job" "j_state job = KSD_KWIN_JOB_DISPATCHED"
    and s: "cstring s = format_sequence t"
  shows "\<exists>q'. ksd_kwin_queue_complete alloc q (Some (q_generation q)) (Some s) status (Some body) n
    = (body_fits alloc n, q') \<and> (\<not> body_fits alloc n \<longrightarrow> q' = q)"
proof -
  have g: "generation_valid (Some (q_generation q))" using wf by (simp add: queue_wf_def)
  from find_ticket [OF wf s] v(1) obtain i where
    "first_index (names_job s) (q_jobs q) = Some i" "q_jobs q ! i = job" by auto
  then show ?thesis using g v(2) by (simp add: ksd_kwin_queue_complete_def body_fits_def Let_def)
qed


definition entry_outstanding :: "ksd_kwin_queue \<Rightarrow> ksd_kwin_done \<Rightarrow> bool" where
  "entry_outstanding q d \<longleftrightarrow>
     (\<exists>t job. dn_sequence d = format_sequence t \<and> view q t = Some job \<and> j_state job = KSD_KWIN_JOB_DISPATCHED)"

lemma complete_step:
  assumes wf: "queue_wf q" and d: "entry_outstanding q d" "0 \<notin> set (dn_sequence d)" and mem: "body_fits alloc (dn_body_length d)"
  obtains t job q' where
    "ksd_kwin_queue_complete alloc q (Some (q_generation q)) (Some (dn_sequence d)) (dn_status d) (Some (dn_body d))
       (dn_body_length d) = (True, q')"
    "dn_sequence d = format_sequence t" "view q t = Some job" "j_state job = KSD_KWIN_JOB_DISPATCHED"
    "queue_wf q'" "q_generation q' = q_generation q" "view q' = (view q)(t \<mapsto> finished_job d job)"
proof -
  from d(1) obtain t job where
    t: "dn_sequence d = format_sequence t" "view q t = Some job" "j_state job = KSD_KWIN_JOB_DISPATCHED"
    by (auto simp: entry_outstanding_def)
  from complete_outstanding [OF wf t(2,3), of "dn_sequence d" alloc "dn_status d" "dn_body d" "dn_body_length d"] t(1) mem
  obtain q' where
    c: "ksd_kwin_queue_complete alloc q (Some (q_generation q)) (Some (dn_sequence d)) (dn_status d) (Some (dn_body d))
       (dn_body_length d) = (True, q')" by (auto simp: format_sequence_cstring)
  from complete_view [OF wf c] t have
    "queue_wf q'" "q_generation q' = q_generation q" "view q' = (view q)(t \<mapsto> finished_job d job)"
    by (auto simp: format_sequence_cstring format_sequence_inject finished_job_def)
  with that c t show ?thesis by blast
qed




lemma find_outstanding:
  assumes wf: "queue_wf q" and "0 \<notin> set (dn_sequence d)"
  shows "(case ksd_kwin_queue_find q (Some (dn_sequence d)) of None \<Rightarrow> False
    | Some i \<Rightarrow> j_state (q_jobs q ! i) = KSD_KWIN_JOB_DISPATCHED) \<longleftrightarrow> entry_outstanding q d"
proof (cases "\<exists>t. dn_sequence d = format_sequence t")
  case True
  then obtain t where t: "dn_sequence d = format_sequence t" by blast
  show ?thesis
    using find_ticket [OF wf, of "dn_sequence d" t] t
    by (cases "view q t") (auto simp: ksd_kwin_queue_find_def entry_outstanding_def format_sequence_cstring
        format_sequence_inject split: option.splits)
next
  case False
  then show ?thesis
    using find_no_ticket [OF wf, of "dn_sequence d"] assms(2)
    by (auto simp: ksd_kwin_queue_find_def entry_outstanding_def cstring_id)
qed

lemma report_cases:
  assumes wf: "queue_wf q" and p: "ksd_kwin_parse_report envelope = Some r"
  shows "fst (snd (ksd_kwin_queue_report alloc q envelope reply)) =
      (if rp_generation r = q_generation q \<and> list_all (entry_outstanding q) (rp_done r)
       then snd (complete_all alloc (rp_done r) q) else q)"
    "fst (ksd_kwin_queue_report alloc q envelope reply) \<Longrightarrow>
      rp_generation r = q_generation q \<and> list_all (entry_outstanding q) (rp_done r)
      \<and> fst (complete_all alloc (rp_done r) q)"
proof -
  have len: "length (q_generation q) = 32" "length (rp_generation r) = 32"
    using wf parse_report_valid [OF p]
    by (simp_all add: queue_wf_def generation_valid_def hex_string_iff wire_defs report_valid_def)
  have ok: "list_all (\<lambda>d. case ksd_kwin_queue_find q (Some (dn_sequence d)) of None \<Rightarrow> False
      | Some i \<Rightarrow> j_state (q_jobs q ! i) = KSD_KWIN_JOB_DISPATCHED) (rp_done r) \<longleftrightarrow> list_all (entry_outstanding q) (rp_done r)"
    using find_outstanding [OF wf] report_sequences [OF p] by (intro list.pred_cong) auto
  obtain b q' where c: "complete_all alloc (rp_done r) q = (b, q')" by (metis surj_pair)
  show "fst (snd (ksd_kwin_queue_report alloc q envelope reply)) =
      (if rp_generation r = q_generation q \<and> list_all (entry_outstanding q) (rp_done r)
       then snd (complete_all alloc (rp_done r) q) else q)"
    "fst (ksd_kwin_queue_report alloc q envelope reply) \<Longrightarrow>
      rp_generation r = q_generation q \<and> list_all (entry_outstanding q) (rp_done r)
      \<and> fst (complete_all alloc (rp_done r) q)"
    using len c unfolding ksd_kwin_queue_report_def p option.case ok
    by (auto simp: generation_take Let_def split: if_splits bool.splits prod.splits)
qed


text \<open>Reports on the one job of \<open>handed_queue\<close>.\<close>

definition one_done :: ksd_kwin_done where
  "one_done = \<lparr>dn_sequence = format_sequence 1, dn_status = 0, dn_body = [], dn_body_length = 0\<rparr>"

definition sample_report_of :: "ksd_kwin_done list \<Rightarrow> ksd_kwin_report" where
  "sample_report_of ds = \<lparr>rp_generation = replicate 32 97, rp_done = ds\<rparr>"

definition envelope_of :: "ksd_kwin_done list \<Rightarrow> bytes" where
  "envelope_of ds = ascii ''KSK1'' @ 10 # padded_lines ((field_line ''gen'' (replicate 32 97), False)
     # map (\<lambda>d. (done_line d, False)) ds) @ end_line False @ concat (map dn_body ds)"

lemma decimal_text_zero: "decimal_text 0 = [48]"
  by (simp add: decimal_text_def nat_decimal.simps)

lemma envelope_of_parse:
  assumes "ds = [one_done] \<or> ds = [one_done, one_done]"
  shows "ksd_kwin_parse_report (Some (envelope_of ds)) = Some (sample_report_of ds)"
proof (rule parse_report_complete)
  have "length (format_sequence 1) = 16" "list_all hex_digit (format_sequence 1)"
    using format_sequence_valid [of 1] by (simp_all add: valid_sequence_def hex_string_iff wire_defs)
  then show "report_valid (sample_report_of ds)"
    using assms by (auto simp: report_valid_def sample_report_of_def one_done_def done_valid_def body_total_def
        wire_defs list_all_iff hex_digit_def)
  show "report_shape (rp_generation (sample_report_of ds)) False
      (map fst ((field_line ''gen'' (replicate 32 97), False) # map (\<lambda>d. (done_line d, False)) ds))
      (rp_done (sample_report_of ds)) \<and>
    length (ascii ''KSK1'' @ 10 # padded_lines ((field_line ''gen'' (replicate 32 97), False)
      # map (\<lambda>d. (done_line d, False)) ds) @ end_line False) \<le> KSD_KWIN_MAX_HEADER_BYTES \<and>
    envelope_of ds = ascii ''KSK1'' @ 10 # padded_lines ((field_line ''gen'' (replicate 32 97), False)
      # map (\<lambda>d. (done_line d, False)) ds) @ end_line False @ concat (map dn_body (rp_done (sample_report_of ds)))"
    using assms \<open>length (format_sequence 1) = 16\<close>
    by (auto simp: sample_report_of_def envelope_of_def done_line_def field_line_def one_done_def decimal_text_zero
        pad_def end_line_def wire_defs)
qed

lemma handed_queue_step:
  "queue_step (\<lambda>_. True) (ksd_buffer_init 64) (CallPollParked KSD_KWIN_LANE_FAST 6) one_queue = handed_queue"
proof -
  have "q_parked one_queue = [False, False]" by (simp add: one_queue_def empty_queue_fields)
  then have "one_queue\<lparr>q_parked := (q_parked one_queue)[0 := False]\<rparr> = one_queue" by simp
  then show ?thesis
    by (simp add: ksd_kwin_queue_poll_parked_def dispatch_jobs_def lane_index_def KSD_KWIN_JOBS_PER_REPLY_FAST_def
        one_queue_take Let_def split: prod.splits)
qed

lemma handed_queue_reachable: "queue_reachable handed_queue"
  using queue_reachable.Call [OF one_queue_reachable, of "\<lambda>_. True" "ksd_buffer_init 64" "CallPollParked KSD_KWIN_LANE_FAST 6"]
  unfolding handed_queue_step by (simp add: one_queue_def)

lemma handed_queue_view: "view handed_queue 1 = Some (dispatched one_job)" "q_generation handed_queue = replicate 32 97"
proof -
  have "jobs.keyed (q_jobs handed_queue)"
    using queue_reachable_wf [OF handed_queue_reachable] by (simp add: queue_wf_def)
  from jobs.lookup_nth [OF this, of 0] show "view handed_queue 1 = Some (dispatched one_job)"
    by (simp add: view_def handed_queue_def one_job_def)
  show "q_generation handed_queue = replicate 32 97"
    by (simp add: handed_queue_def one_queue_def empty_queue_fields)
qed

lemma one_done_outstanding: "entry_outstanding handed_queue one_done"
  using handed_queue_view(1) by (auto simp: entry_outstanding_def one_done_def)


text \<open>Submitting the one job, and handing it out.\<close>

theorem job_lifecycle_witness:
  "view empty_queue 1 = None \<and> view one_queue 1 = Some one_job
   \<and> job_event 1 (replicate 32 97) (CallSubmit KSD_OP_WINDOW_FOCUS None 0 5) 1 None (Some one_job)
   \<and> job_event 2 (replicate 32 97) (CallPollParked KSD_KWIN_LANE_FAST 6) 1 (Some one_job) (Some (dispatched one_job))"
proof -
  have one: "view one_queue 1 = Some one_job"
    using jobs.lookup_nth [of "q_jobs one_queue" 0] queue_reachable_wf [OF one_queue_reachable]
    by (simp add: queue_wf_def view_def one_queue_def one_job_def occupied_def)
  have none: "view empty_queue 1 = None" using init_wf [OF empty_queue_init] by simp
  have "job_event 1 (replicate 32 97) (CallSubmit KSD_OP_WINDOW_FOCUS None 0 5) 1 None (Some one_job)"
    using job_lifecycle [OF queue_reachable.Init [OF empty_queue_init], of "\<lambda>_. True" "ksd_buffer_init 64"
        "CallSubmit KSD_OP_WINDOW_FOCUS None 0 5" 1] none one
    by (simp only: one_queue_submit) (simp add: empty_queue_fields)
  moreover have "dispatched one_job \<noteq> one_job" by (simp add: dispatched_def one_job_def)
  then have "job_event 2 (replicate 32 97) (CallPollParked KSD_KWIN_LANE_FAST 6) 1 (Some one_job) (Some (dispatched one_job))"
    using job_lifecycle [OF one_queue_reachable, of "\<lambda>_. True" "ksd_buffer_init 64" "CallPollParked KSD_KWIN_LANE_FAST 6" 1]
      one handed_queue_view(1) handed_queue_step
    by (simp only: handed_queue_step) (simp add: one_queue_def empty_queue_fields)
  ultimately show ?thesis using none one by simp
qed

text \<open>
  C40: a report that names one sequence twice. When a parsed report of the right
  generation holds the same outstanding job in its first two entries, it is refused
  although the job has been completed with the status and body of the first entry:
  the validation pass and the completion pass do not agree on duplicates.
\<close>

theorem report_duplicate_half_applied:
  assumes "queue_reachable q" and "ksd_kwin_parse_report envelope = Some r"
    and "rp_generation r = q_generation q" and "list_all (entry_outstanding q) (rp_done r)"
    and "rp_done r = d # e # ds" and "dn_sequence d = format_sequence t" and "dn_sequence e = format_sequence t"
    and "alloc = (\<lambda>_. True)"
  shows "let (ok, q', reply') = ksd_kwin_queue_report alloc q envelope reply in
    \<not> ok \<and> view q' t = map_option (finished_job d) (view q t) \<and> view q t \<noteq> None"
proof -
  note wf = queue_reachable_wf [OF assms(1)]
  have d: "entry_outstanding q d" "0 \<notin> set (dn_sequence d)"
    using assms(4,5) report_sequences [OF assms(2), of d] by simp_all
  have "body_fits alloc (dn_body_length d)" using assms(8) by (simp add: body_fits_def)
  from complete_step [OF wf d this] assms(6) obtain job q1 where
    one: "ksd_kwin_queue_complete alloc q (Some (q_generation q)) (Some (dn_sequence d)) (dn_status d) (Some (dn_body d))
       (dn_body_length d) = (True, q1)"
      "view q t = Some job" "queue_wf q1" "view q1 = (view q)(t \<mapsto> finished_job d job)"
    by (metis format_sequence_inject)
  obtain b q2 where two: "ksd_kwin_queue_complete alloc q1 (Some (q_generation q1)) (Some (dn_sequence e))
      (dn_status e) (Some (dn_body e)) (dn_body_length e) = (b, q2)" by (metis surj_pair)
  have "j_state (finished_job d job) = KSD_KWIN_JOB_DONE" by (simp add: finished_job_def)
  with complete_view [OF one(3) two] assms(7) one(4) have "\<not> b" "q2 = q1"
    by (auto simp: format_sequence_cstring format_sequence_inject)
  with one two assms(5) have "complete_all alloc (rp_done r) q = (False, q1)" by simp
  with report_cases [OF wf assms(2), of alloc reply] assms(3,4) one(2,4) show ?thesis
    by (auto simp: Let_def split: prod.splits)
qed


theorem report_duplicate_half_applied_witness:
  "let (ok, q', reply') = ksd_kwin_queue_report (\<lambda>_. True) handed_queue (Some (envelope_of [one_done, one_done]))
       (ksd_buffer_init 64)
   in \<not> ok \<and> view q' 1 = Some (finished_job one_done (dispatched one_job))"
  using report_duplicate_half_applied [OF handed_queue_reachable envelope_of_parse [of "[one_done, one_done]"],
      of one_done one_done "[]" 1 "\<lambda>_. True" "ksd_buffer_init 64"]
    one_done_outstanding handed_queue_view
  by (auto simp: sample_report_of_def one_done_def split: prod.splits)

end
