(* ===== verification/Kwin_Relay.thy ===== *)
theory Kwin_Relay
  imports Operation_Result Slot_Table Budgets
begin

text \<open>
  The authority's end of a compositor channel (src/src/kwin_relay.c): one socket
  shared by every connection thread that waits for an answer on it. Each critical
  section of a call is one definition over the relay; the step relation interleaves
  the critical sections of any number of callers with the retirement of the relay.
  What the kernel answers (time, transfers, received frames, descriptor facts) is an
  argument. Closing a descriptor is recorded in a list of closed descriptors.
\<close>

section \<open>The relay\<close>

definition KSD_KWIN_RELAY_PENDING :: nat where
  [wire_defs]: "KSD_KWIN_RELAY_PENDING = 128"

definition KSD_RELAY_CAPTURE_FD :: u16 where
  [wire_defs]: "KSD_RELAY_CAPTURE_FD = 0x8000"

definition relay_magic :: bytes where
  "relay_magic = [KSD_FRAME_MAGIC_0, KSD_FRAME_MAGIC_1, KSD_FRAME_MAGIC_2, KSD_FRAME_MAGIC_3]"

record relay_pending =
  pn_active :: bool
  pn_done :: bool
  pn_request_id :: u64
  pn_status :: u32
  pn_detail :: u32
  pn_tail :: "bytes option"
  pn_tail_length :: u32
  pn_payload_fd :: int
  pn_opcode :: u16

text \<open>\<open>memset\<close> to zero, then no descriptor.\<close>

definition pending_blank :: relay_pending where
  "pending_blank = \<lparr>pn_active = False, pn_done = False, pn_request_id = 0, pn_status = 0, pn_detail = 0,
     pn_tail = None, pn_tail_length = 0, pn_payload_fd = -1, pn_opcode = 0\<rparr>"

record ksd_kwin_relay =
  rl_descriptor :: int
  rl_writing :: bool
  rl_reading :: bool
  rl_broken :: bool
  rl_refs :: nat
  rl_next_request_id :: u64
  rl_pending :: "relay_pending list"

text \<open>Creation: the arguments say whether memory, mutex and condition could be had.\<close>

definition ksd_kwin_relay_create :: "bool \<Rightarrow> bool \<Rightarrow> bool \<Rightarrow> int \<Rightarrow> ksd_kwin_relay option" where
  "ksd_kwin_relay_create memory mutex condition descriptor =
     (if descriptor < 0 then None
      else if \<not> memory then None
      else let relay = \<lparr>rl_descriptor = descriptor, rl_writing = False, rl_reading = False, rl_broken = False,
                         rl_refs = 1, rl_next_request_id = 1,
                         rl_pending = replicate KSD_KWIN_RELAY_PENDING pending_blank\<rparr>
        in if \<not> mutex then None else if \<not> condition then None else Some relay)"

definition ksd_kwin_relay_acquire :: "ksd_kwin_relay \<Rightarrow> ksd_kwin_relay" where
  "ksd_kwin_relay_acquire relay = relay\<lparr>rl_refs := rl_refs relay + 1\<rparr>"

text \<open>Dropping a reference: the relay that is left, if any, and the descriptors closed.\<close>

definition pending_fds :: "relay_pending list \<Rightarrow> int list" where
  "pending_fds slots = map pn_payload_fd (filter (\<lambda>slot. pn_payload_fd slot \<ge> 0) slots)"

definition ksd_kwin_relay_release :: "ksd_kwin_relay \<Rightarrow> ksd_kwin_relay option \<times> int list" where
  "ksd_kwin_relay_release relay =
     (let relay = relay\<lparr>rl_refs := rl_refs relay - 1\<rparr> in
      if rl_refs relay \<noteq> 0 then (Some relay, [])
      else (None, pending_fds (rl_pending relay) @ (if rl_descriptor relay \<ge> 0 then [rl_descriptor relay] else [])))"

definition ksd_kwin_relay_retire :: "ksd_kwin_relay \<Rightarrow> ksd_kwin_relay option \<times> int list" where
  "ksd_kwin_relay_retire relay = ksd_kwin_relay_release (relay\<lparr>rl_broken := True\<rparr>)"

definition ksd_kwin_relay_is_broken :: "ksd_kwin_relay option \<Rightarrow> bool" where
  "ksd_kwin_relay_is_broken relay = (case relay of None \<Rightarrow> True | Some r \<Rightarrow> rl_broken r)"

section \<open>Reading one response\<close>

text \<open>
  What the socket gives \<open>read_one\<close>: whether anything came before the deadline, the
  header with the descriptor sent along (-1 for none), the body, and what
  \<open>fstat\<close> and \<open>F_GET_SEALS\<close> say of the descriptor (regular file, size, seals).
\<close>

datatype wait_result = Wait_Ready | Wait_Timed_Out | Wait_Failed

record relay_input =
  in_wait :: wait_result
  in_header :: "(bytes \<times> int) option"
  in_body :: "bytes option"
  in_stat :: "(bool \<times> int) option"
  in_seals :: int
  in_copy :: bool

record relay_response =
  rsp_request_id :: u64
  rsp_status :: u32
  rsp_detail :: u32
  rsp_tail :: bytes
  rsp_tail_length :: u32
  rsp_file :: bool
  rsp_payload_fd :: int

datatype relay_read = Read_Nothing | Read_Malformed "int list" | Read_Response relay_response

definition F_SEALS_REQUIRED :: int where
  "F_SEALS_REQUIRED = 1 OR 2 OR 4 OR 8"

definition is_capture :: "u16 \<Rightarrow> bool" where
  "is_capture opcode \<longleftrightarrow> opcode = KSD_OP_CAPTURE_AREA \<or> opcode = KSD_OP_CAPTURE_WINDOW
     \<or> opcode = KSD_OP_CAPTURE_DESKTOP"

definition fd_list :: "int \<Rightarrow> int list" where
  "fd_list fd = (if fd \<ge> 0 then [fd] else [])"

text \<open>\<open>read_one\<close> up to its lock.\<close>

definition read_response :: "relay_input \<Rightarrow> relay_read" where
  "read_response i =
     (case in_wait i of
        Wait_Timed_Out \<Rightarrow> Read_Nothing
      | Wait_Failed \<Rightarrow> Read_Malformed []
      | Wait_Ready \<Rightarrow>
        (case in_header i of
           None \<Rightarrow> Read_Malformed []
         | Some (header, payload_fd) \<Rightarrow>
             let payload_length = ksd_decode_u32 (slice KSD_FRAME_PAYLOAD_LENGTH_OFFSET 4 header);
                 flags = ksd_decode_u16 (slice KSD_FRAME_FLAGS_OFFSET 2 header);
                 file_response = (flags = KSD_RELAY_CAPTURE_FD)
             in if slice 0 4 header \<noteq> relay_magic
                   \<or> ksd_decode_u16 (slice KSD_FRAME_MAJOR_OFFSET 2 header) \<noteq> KSD_PROTOCOL_MAJOR
                   \<or> ksd_decode_u16 (slice KSD_FRAME_MINOR_OFFSET 2 header) \<noteq> KSD_PROTOCOL_MINOR
                   \<or> (flags \<noteq> 0 \<and> \<not> file_response)
                   \<or> file_response \<noteq> (payload_fd \<ge> 0)
                   \<or> payload_length < 8 \<or> unat payload_length > KSD_MAX_TEXT_BYTES + 8
                   \<or> (file_response \<and> payload_length \<noteq> 12)
                then Read_Malformed (fd_list payload_fd)
                else case in_body i of
                  None \<Rightarrow> Read_Malformed (fd_list payload_fd)
                | Some body \<Rightarrow>
                    let request_id = ksd_decode_u64 (slice KSD_FRAME_REQUEST_ID_OFFSET 8 header);
                        status = ksd_decode_u32 body;
                        detail = ksd_decode_u32 (drop 4 body);
                        tail_length = payload_length - 8
                    in if file_response then
                         let tail_length = ksd_decode_u32 (drop 8 body) in
                         if status \<noteq> KSD_STATUS_OK \<or> tail_length < 20
                            \<or> unat tail_length > KSD_MAX_CAPTURE_TAIL
                            \<or> (case in_stat i of None \<Rightarrow> True
                                | Some (regular, st_size) \<Rightarrow> \<not> regular \<or> st_size \<noteq> int (unat tail_length))
                            \<or> in_seals i < 0 \<or> in_seals i AND F_SEALS_REQUIRED \<noteq> F_SEALS_REQUIRED
                         then Read_Malformed (fd_list payload_fd)
                         else Read_Response \<lparr>rsp_request_id = request_id, rsp_status = status,
                                rsp_detail = detail, rsp_tail = [], rsp_tail_length = tail_length,
                                rsp_file = True, rsp_payload_fd = payload_fd\<rparr>
                       else Read_Response \<lparr>rsp_request_id = request_id, rsp_status = status,
                              rsp_detail = detail, rsp_tail = take (unat tail_length) (drop 8 body),
                              rsp_tail_length = tail_length, rsp_file = False,
                              rsp_payload_fd = payload_fd\<rparr>))"

text \<open>
  The critical section of \<open>read_one\<close>: the first waiting slot with the id takes the
  answer. A file for a request that is not a capture breaks the channel after the
  status and detail were stored. The answer says whether the channel survives and
  what was closed; the copy of the tail may fail.
\<close>

definition fill_slot :: "bool \<Rightarrow> relay_response \<Rightarrow> relay_pending \<Rightarrow> relay_pending" where
  "fill_slot copied r slot =
     (let slot = slot\<lparr>pn_status := rsp_status r, pn_detail := rsp_detail r\<rparr>;
          slot = (if rsp_file r
                  then slot\<lparr>pn_payload_fd := rsp_payload_fd r, pn_tail_length := rsp_tail_length r\<rparr>
                  else slot);
          slot = (if \<not> rsp_file r \<and> rsp_tail_length r \<noteq> 0
                  then if copied
                       then slot\<lparr>pn_tail := Some (rsp_tail r), pn_tail_length := rsp_tail_length r\<rparr>
                       else slot\<lparr>pn_status := KSD_STATUS_RESOURCE_EXHAUSTED\<rparr>
                  else slot)
      in slot\<lparr>pn_done := True\<rparr>)"

definition awaits :: "u64 \<Rightarrow> relay_pending \<Rightarrow> bool" where
  "awaits request_id slot \<longleftrightarrow> \<not> (\<not> pn_active slot \<or> pn_done slot \<or> pn_request_id slot \<noteq> request_id)"

definition deliver_response ::
  "bool \<Rightarrow> relay_response \<Rightarrow> ksd_kwin_relay \<Rightarrow> bool \<times> ksd_kwin_relay \<times> int list" where
  "deliver_response copied r relay =
     (case first_index (awaits (rsp_request_id r)) (rl_pending relay) of
        None \<Rightarrow> (True, relay, fd_list (rsp_payload_fd r))
      | Some index \<Rightarrow>
          let slot = rl_pending relay ! index in
          if rsp_file r \<and> \<not> is_capture (pn_opcode slot)
          then (False, relay\<lparr>rl_pending := (rl_pending relay)[index :=
                  slot\<lparr>pn_status := rsp_status r, pn_detail := rsp_detail r\<rparr>]\<rparr>, fd_list (rsp_payload_fd r))
          else (True, relay\<lparr>rl_pending := (rl_pending relay)[index := fill_slot copied r slot]\<rparr>,
                fd_list (if rsp_file r then -1 else rsp_payload_fd r)))"

definition read_one :: "relay_input \<Rightarrow> ksd_kwin_relay \<Rightarrow> bool \<times> ksd_kwin_relay \<times> int list" where
  "read_one i relay =
     (case read_response i of
        Read_Nothing \<Rightarrow> (True, relay, [])
      | Read_Malformed closed \<Rightarrow> (False, relay, closed)
      | Read_Response r \<Rightarrow> deliver_response (in_copy i) r relay)"

section \<open>A call\<close>

text \<open>
  \<open>ksd_kwin_relay_call\<close> is a sequence of critical sections; a call in progress
  keeps the locals of the function and where it is. \<open>Read ok\<close> is a reader that has
  finished \<open>read_one\<close> and not yet given the reader role back.
\<close>

datatype call_phase = Enter | Pack | Claim_Write | Writing | Awaiting | Reading | Read bool | Returned

record relay_call =
  rc_request :: ksd_frame
  rc_deadline_ms :: u64
  rc_phase :: call_phase
  rc_slot :: nat
  rc_request_id :: u64
  rc_sent :: bool
  rc_attempted :: bool
  rc_answered :: bool
  rc_result :: ksd_operation_result

definition fail_call :: "u32 \<Rightarrow> string \<Rightarrow> relay_call \<Rightarrow> relay_call \<times> int list" where
  "fail_call status message c =
     (let (result, closed) = ksd_result_error (rc_result c) status 0 (Some (ascii message))
      in (c\<lparr>rc_phase := Returned, rc_result := result\<rparr>, closed))"

text \<open>The first critical section: a slot and a request id, or an immediate refusal.\<close>

definition call_enter :: "ksd_kwin_relay \<Rightarrow> relay_call \<Rightarrow> (relay_call \<times> int list) \<times> ksd_kwin_relay" where
  "call_enter relay c =
     (if rl_broken relay
      then (fail_call KSD_STATUS_UNAVAILABLE ''the compositor channel is closed'' c, relay)
      else case first_index (\<lambda>slot. \<not> pn_active slot) (rl_pending relay) of
        None \<Rightarrow> (fail_call KSD_STATUS_BUSY ''too many requests in flight for this compositor'' c, relay)
      | Some index \<Rightarrow>
          let slot = pending_blank\<lparr>pn_opcode := fr_opcode (rc_request c), pn_active := True,
                       pn_request_id := rl_next_request_id relay\<rparr>
          in ((c\<lparr>rc_phase := Pack, rc_slot := index, rc_request_id := rl_next_request_id relay\<rparr>, []),
              relay\<lparr>rl_next_request_id := rl_next_request_id relay + 1,
                    rl_pending := (rl_pending relay)[index := slot]\<rparr>))"

definition outgoing :: "relay_call \<Rightarrow> ksd_frame" where
  "outgoing c = (rc_request c)\<lparr>fr_request_id := rc_request_id c\<rparr>"

definition packed_frame :: "(nat \<Rightarrow> bool) \<Rightarrow> relay_call \<Rightarrow> bool \<times> ksd_buffer" where
  "packed_frame alloc c = ksd_frame_pack alloc (outgoing c)
     (ksd_buffer_init (KSD_FRAME_HEADER_SIZE + unat (fr_payload_length (rc_request c)) + 16))"

definition call_pack :: "(nat \<Rightarrow> bool) \<Rightarrow> relay_call \<Rightarrow> relay_call" where
  "call_pack alloc c =
     (let sent = fst (packed_frame alloc c)
      in c\<lparr>rc_sent := sent, rc_phase := (if sent then Claim_Write else Awaiting)\<rparr>)"

text \<open>
  The wait for the writer role and what follows it in the same critical section.
  The loop goes on while someone writes on a sound channel, unless the wait fails
  or times out (\<open>gave_up\<close>).
\<close>

definition write_ready :: "bool \<Rightarrow> ksd_kwin_relay \<Rightarrow> bool" where
  "write_ready gave_up relay \<longleftrightarrow> \<not> (rl_writing relay \<and> \<not> rl_broken relay) \<or> gave_up"

definition call_claim_write :: "u64 \<Rightarrow> ksd_kwin_relay \<Rightarrow> relay_call \<Rightarrow> relay_call \<times> ksd_kwin_relay" where
  "call_claim_write now relay c =
     (let sent = (\<not> rl_writing relay \<and> \<not> rl_broken relay \<and> now \<noteq> 0 \<and> now < rc_deadline_ms c)
      in if sent then (c\<lparr>rc_sent := True, rc_attempted := True, rc_phase := Writing\<rparr>, relay\<lparr>rl_writing := True\<rparr>)
         else (c\<lparr>rc_sent := False, rc_phase := Awaiting\<rparr>, relay))"

definition call_written :: "bool \<Rightarrow> ksd_kwin_relay \<Rightarrow> relay_call \<Rightarrow> relay_call \<times> ksd_kwin_relay" where
  "call_written sent relay c =
     (let relay = relay\<lparr>rl_writing := False\<rparr>;
          relay = (if \<not> sent then relay\<lparr>rl_broken := True\<rparr> else relay)
      in (c\<lparr>rc_sent := sent, rc_phase := Awaiting\<rparr>, relay))"

text \<open>The condition of the waiting loop, and its two exits before the reader role.\<close>

definition still_waiting :: "u64 \<Rightarrow> ksd_kwin_relay \<Rightarrow> relay_call \<Rightarrow> bool" where
  "still_waiting now relay c \<longleftrightarrow>
     (rc_sent c \<and> \<not> pn_done (rl_pending relay ! rc_slot c) \<and> \<not> rl_broken relay)
     \<and> \<not> (now = 0 \<or> now \<ge> rc_deadline_ms c)"

definition call_start_read :: "ksd_kwin_relay \<Rightarrow> relay_call \<Rightarrow> relay_call \<times> ksd_kwin_relay" where
  "call_start_read relay c = (c\<lparr>rc_phase := Reading\<rparr>, relay\<lparr>rl_reading := True\<rparr>)"

definition call_read :: "relay_input \<Rightarrow> ksd_kwin_relay \<Rightarrow> relay_call \<Rightarrow> (relay_call \<times> int list) \<times> ksd_kwin_relay" where
  "call_read i relay c =
     (let (ok, relay, closed) = read_one i relay in ((c\<lparr>rc_phase := Read ok\<rparr>, closed), relay))"

definition call_end_read :: "bool \<Rightarrow> ksd_kwin_relay \<Rightarrow> relay_call \<Rightarrow> relay_call \<times> ksd_kwin_relay" where
  "call_end_read ok relay c =
     (let relay = relay\<lparr>rl_reading := False\<rparr>;
          relay = (if \<not> ok then relay\<lparr>rl_broken := True\<rparr> else relay)
      in (c\<lparr>rc_phase := Awaiting\<rparr>, relay))"

text \<open>Taking the answer out of a slot: whether there was one, the result, the slot, and what was closed.\<close>

definition take_answer ::
  "relay_pending \<Rightarrow> ksd_operation_result \<Rightarrow> bool \<times> ksd_operation_result \<times> relay_pending \<times> int list" where
  "take_answer slot result =
     (if pn_done slot then
        if pn_status slot = KSD_STATUS_OK \<and> pn_payload_fd slot \<ge> 0 then
          let (answered, result, closed) = ksd_result_take_fd result (pn_payload_fd slot) (pn_tail_length slot)
          in (answered, result, slot\<lparr>pn_payload_fd := -1\<rparr>, closed)
        else if pn_status slot = KSD_STATUS_OK \<and> pn_tail_length slot \<noteq> 0 then
          let (answered, result, closed) = ksd_result_take result (pn_tail slot) (pn_tail_length slot)
          in (answered, result, if answered then slot\<lparr>pn_tail := None\<rparr> else slot, closed)
        else if pn_status slot = KSD_STATUS_OK then
          let (answered, result, closed) = ksd_result_take result None 0
          in (answered, result, slot, closed)
        else
          let (result, closed) = ksd_result_error result (pn_status slot) (pn_detail slot)
                (Some (if pn_tail_length slot \<noteq> 0 then the (pn_tail slot)
                       else ascii ''the compositor refused the operation''))
          in (True, result, slot, closed)
      else (False, result, slot, []))"

definition call_finish :: "ksd_kwin_relay \<Rightarrow> relay_call \<Rightarrow> (relay_call \<times> int list) \<times> ksd_kwin_relay" where
  "call_finish relay c =
     (let (answered, result, slot, closed) = take_answer (rl_pending relay ! rc_slot c) (rc_result c);
          closed = closed @ fd_list (pn_payload_fd slot);
          relay = relay\<lparr>rl_pending := (rl_pending relay)[rc_slot c := pending_blank]\<rparr>;
          c = c\<lparr>rc_answered := answered, rc_result := result\<rparr>
      in if answered then ((c\<lparr>rc_phase := Returned\<rparr>, closed), relay)
         else let (c, closed') =
                (if \<not> rc_sent c \<and> \<not> rc_attempted c
                 then fail_call KSD_STATUS_BUSY ''could not reach the compositor'' c
                 else fail_call KSD_STATUS_TIMEOUT ''the compositor did not answer in time'' c)
              in ((c, closed @ closed'), relay))"

section \<open>Interleavings\<close>

text \<open>
  One step of one caller: which critical section runs, with what the kernel answers
  in it. The guard on entering leaves out the wrap of the 64-bit id counter, which the
  code increments without a check: a relay would have to carry two to the power of 64 requests.
\<close>

datatype call_choice =
    Do_Enter
  | Do_Pack "nat \<Rightarrow> bool"
  | Do_Claim bool u64
  | Do_Written bool
  | Do_Start_Read u64
  | Do_Read relay_input
  | Do_End_Read
  | Do_Finish bool u64

fun call_step ::
  "call_choice \<Rightarrow> ksd_kwin_relay \<Rightarrow> relay_call \<Rightarrow> ((relay_call \<times> int list) \<times> ksd_kwin_relay) option" where
  "call_step Do_Enter relay c =
     (if rc_phase c = Enter \<and> rl_next_request_id relay + 1 \<noteq> 0 then Some (call_enter relay c) else None)"
| "call_step (Do_Pack alloc) relay c =
     (if rc_phase c = Pack then Some ((call_pack alloc c, []), relay) else None)"
| "call_step (Do_Claim gave_up now) relay c =
     (if rc_phase c = Claim_Write \<and> write_ready gave_up relay
      then let (c, relay) = call_claim_write now relay c in Some ((c, []), relay) else None)"
| "call_step (Do_Written sent) relay c =
     (if rc_phase c = Writing then let (c, relay) = call_written sent relay c in Some ((c, []), relay) else None)"
| "call_step (Do_Start_Read now) relay c =
     (if rc_phase c = Awaiting \<and> still_waiting now relay c \<and> \<not> rl_reading relay
      then let (c, relay) = call_start_read relay c in Some ((c, []), relay) else None)"
| "call_step (Do_Read i) relay c =
     (if rc_phase c = Reading then Some (call_read i relay c) else None)"
| "call_step Do_End_Read relay c =
     (case rc_phase c of
        Read ok \<Rightarrow> (let (c, relay) = call_end_read ok relay c in Some ((c, []), relay))
      | _ \<Rightarrow> None)"
| "call_step (Do_Finish gave_up now) relay c =
     (if rc_phase c = Awaiting \<and> (\<not> still_waiting now relay c \<or> rl_reading relay \<and> gave_up)
      then Some (call_finish relay c) else None)"

text \<open>
  The world of a relay: whether the registration still holds its reference, the
  calls inside (each with its own reference), and what happened: calls that left,
  responses read, frames put on the wire, descriptors received and closed. A frame counts
  as put on the wire from the moment its writer is about to hand the first byte to the socket, so
  that a frame sent in part, or whose sending failed at the start, is on record too.
\<close>

record relay_world =
  rw_descriptor :: int
  rw_relay :: "ksd_kwin_relay option"
  rw_registered :: bool
  rw_calls :: "relay_call list"
  rw_left :: "relay_call list"
  rw_responses :: "relay_response list"
  rw_wire :: "ksd_frame list"
  rw_received :: "int list"
  rw_closed :: "int list"

fun received_by :: "call_choice \<Rightarrow> int list" where
  "received_by (Do_Read i) =
     (case (in_wait i, in_header i) of (Wait_Ready, Some (header, fd)) \<Rightarrow> fd_list fd | _ \<Rightarrow> [])"
| "received_by _ = []"

fun responses_by :: "call_choice \<Rightarrow> relay_response list" where
  "responses_by (Do_Read i) = (case read_response i of Read_Response r \<Rightarrow> [r] | _ \<Rightarrow> [])"
| "responses_by _ = []"

fun wire_by :: "call_choice \<Rightarrow> relay_call \<Rightarrow> ksd_frame list" where
  "wire_by (Do_Claim gave_up now) c = (if rc_phase c = Writing then [outgoing c] else [])"
| "wire_by _ _ = []"

definition new_call :: "ksd_frame \<Rightarrow> u64 \<Rightarrow> relay_call" where
  "new_call request deadline_ms =
     \<lparr>rc_request = request, rc_deadline_ms = deadline_ms, rc_phase = Enter, rc_slot = 0, rc_request_id = 0,
      rc_sent = False, rc_attempted = False, rc_answered = False, rc_result = ksd_result_init\<rparr>"

inductive relay_step :: "relay_world \<Rightarrow> relay_world \<Rightarrow> bool" where
  Acquire: "rw_relay w = Some relay \<Longrightarrow> rw_registered w \<Longrightarrow>
    relay_step w (w\<lparr>rw_relay := Some (ksd_kwin_relay_acquire relay),
      rw_calls := new_call request deadline_ms # rw_calls w\<rparr>)"
| Act: "rw_relay w = Some relay \<Longrightarrow> i < length (rw_calls w) \<Longrightarrow>
    call_step choice relay (rw_calls w ! i) = Some ((c, closed), relay') \<Longrightarrow>
    relay_step w (w\<lparr>rw_relay := Some relay', rw_calls := (rw_calls w)[i := c],
      rw_responses := rw_responses w @ responses_by choice, rw_wire := rw_wire w @ wire_by choice c,
      rw_received := rw_received w @ received_by choice, rw_closed := rw_closed w @ closed\<rparr>)"
| Leave: "rw_relay w = Some relay \<Longrightarrow> rw_calls w = cs @ c # cs' \<Longrightarrow> rc_phase c = Returned \<Longrightarrow>
    ksd_kwin_relay_release relay = (rest, closed) \<Longrightarrow>
    relay_step w (w\<lparr>rw_relay := rest, rw_calls := cs @ cs', rw_left := c # rw_left w,
      rw_closed := rw_closed w @ closed\<rparr>)"
| Retire: "rw_relay w = Some relay \<Longrightarrow> rw_registered w \<Longrightarrow> ksd_kwin_relay_retire relay = (rest, closed) \<Longrightarrow>
    relay_step w (w\<lparr>rw_relay := rest, rw_registered := False, rw_closed := rw_closed w @ closed\<rparr>)"

definition relay_world_init :: "int \<Rightarrow> ksd_kwin_relay \<Rightarrow> relay_world" where
  "relay_world_init descriptor relay =
     \<lparr>rw_descriptor = descriptor, rw_relay = Some relay, rw_registered = True, rw_calls = [], rw_left = [],
      rw_responses = [], rw_wire = [], rw_received = [], rw_closed = []\<rparr>"

inductive relay_reachable :: "relay_world \<Rightarrow> bool" where
  Created: "ksd_kwin_relay_create memory mutex condition descriptor = Some relay \<Longrightarrow>
    relay_reachable (relay_world_init descriptor relay)"
| Stepped: "relay_reachable w \<Longrightarrow> relay_step w w' \<Longrightarrow> relay_reachable w'"

section \<open>Responses and slots\<close>

interpretation pend: slot_table pn_active pn_request_id pending_blank
  by unfold_locales (simp add: pending_blank_def)

definition response_ok :: "relay_response \<Rightarrow> bool" where
  "response_ok r \<longleftrightarrow> (if rsp_file r then rsp_payload_fd r \<ge> 0 \<and> rsp_status r = KSD_STATUS_OK \<and> rsp_tail_length r \<noteq> 0
     else rsp_payload_fd r < 0)"

lemma read_response_ok: "read_response i = Read_Response r \<Longrightarrow> response_ok r"
  by (auto simp: read_response_def response_ok_def Let_def split: wait_result.splits option.splits if_splits)

lemma read_response_fds:
  "received_by (Do_Read i) = (case read_response i of
      Read_Nothing \<Rightarrow> [] | Read_Malformed closed \<Rightarrow> closed | Read_Response r \<Rightarrow> fd_list (rsp_payload_fd r))"
  by (auto simp: read_response_def fd_list_def Let_def split: wait_result.splits option.splits if_splits)

text \<open>The slot a call claims, and what a slot may look like.\<close>

definition claimed_slot :: "u16 \<Rightarrow> u64 \<Rightarrow> relay_pending" where
  "claimed_slot opcode request_id =
     pending_blank\<lparr>pn_opcode := opcode, pn_active := True, pn_request_id := request_id\<rparr>"

definition waiting_slot :: "relay_pending \<Rightarrow> bool" where
  "waiting_slot slot \<longleftrightarrow> pn_active slot \<and> \<not> pn_done slot \<and> pn_tail slot = None \<and> pn_tail_length slot = 0
     \<and> pn_payload_fd slot = -1"

definition answered_slot :: "relay_response list \<Rightarrow> relay_pending \<Rightarrow> bool" where
  "answered_slot responses slot \<longleftrightarrow> (\<exists>r\<in>set responses. response_ok r \<and> rsp_request_id r = pn_request_id slot
     \<and> (\<exists>copied. slot = fill_slot copied r (claimed_slot (pn_opcode slot) (pn_request_id slot))))"

definition slot_ok :: "relay_response list \<Rightarrow> relay_pending \<Rightarrow> bool" where
  "slot_ok responses slot \<longleftrightarrow> slot = pending_blank \<or> waiting_slot slot \<or> answered_slot responses slot"

lemma fill_slot_claimed:
  "waiting_slot slot \<Longrightarrow> fill_slot copied r slot = fill_slot copied r (claimed_slot (pn_opcode slot) (pn_request_id slot))"
  by (cases slot) (simp add: fill_slot_def claimed_slot_def waiting_slot_def pending_blank_def)

lemma fill_slot_fields [simp]:
  "pn_active (fill_slot copied r slot) = pn_active slot" "pn_request_id (fill_slot copied r slot) = pn_request_id slot"
  "pn_opcode (fill_slot copied r slot) = pn_opcode slot" "pn_done (fill_slot copied r slot)"
  by (simp_all add: fill_slot_def Let_def)

lemma claimed_slot_fields [simp]:
  "pn_active (claimed_slot opcode k)" "pn_request_id (claimed_slot opcode k) = k"
  "pn_opcode (claimed_slot opcode k) = opcode" "pn_payload_fd (claimed_slot opcode k) = -1"
  by (simp_all add: claimed_slot_def pending_blank_def)

lemma slot_ok_more: "slot_ok responses slot \<Longrightarrow> slot_ok (responses @ more') slot"
  by (auto simp: slot_ok_def answered_slot_def)

section \<open>The invariant of a relay and its calls\<close>

definition holds_slot :: "relay_call \<Rightarrow> bool" where
  "holds_slot c \<longleftrightarrow> rc_phase c \<noteq> Enter \<and> rc_phase c \<noteq> Returned"

definition reads :: "relay_call \<Rightarrow> bool" where
  "reads c \<longleftrightarrow> rc_phase c = Reading \<or> rc_phase c = Read True \<or> rc_phase c = Read False"

definition table_ok :: "relay_response list \<Rightarrow> ksd_kwin_relay \<Rightarrow> bool" where
  "table_ok responses relay \<longleftrightarrow> length (rl_pending relay) = KSD_KWIN_RELAY_PENDING \<and> pend.keyed (rl_pending relay)
     \<and> list_all (slot_ok responses) (rl_pending relay)
     \<and> list_all (\<lambda>slot. pn_active slot \<longrightarrow> pn_request_id slot < rl_next_request_id relay) (rl_pending relay)
     \<and> rl_next_request_id relay \<noteq> 0"

definition call_ok :: "ksd_kwin_relay \<Rightarrow> relay_call \<Rightarrow> bool" where
  "call_ok relay c \<longleftrightarrow>
     (holds_slot c \<longrightarrow> rc_slot c < length (rl_pending relay) \<and> pn_active (rl_pending relay ! rc_slot c)
        \<and> pn_request_id (rl_pending relay ! rc_slot c) = rc_request_id c \<and> rc_request_id c \<noteq> 0)
   \<and> (rc_phase c \<noteq> Returned \<longrightarrow> rc_result c = ksd_result_init \<and> \<not> rc_answered c)
   \<and> (rc_phase c = Enter \<longrightarrow> rc_request_id c = 0)"

text \<open>
  How a step of one caller changes the table: not at all, or it claims a free slot,
  or it rewrites a waiting slot, or it frees the slot of the caller.
\<close>

inductive table_change ::
  "relay_response list \<Rightarrow> ksd_kwin_relay \<Rightarrow> relay_call \<Rightarrow> relay_call \<Rightarrow> ksd_kwin_relay \<Rightarrow> bool"
  for new :: "relay_response list" and relay :: ksd_kwin_relay and c :: relay_call where
  Kept: "rl_pending relay' = rl_pending relay \<Longrightarrow> rl_next_request_id relay' = rl_next_request_id relay \<Longrightarrow>
    rc_slot c' = rc_slot c \<Longrightarrow> rc_request_id c' = rc_request_id c \<Longrightarrow> holds_slot c' = (holds_slot c \<and> rc_phase c' \<noteq> Returned) \<Longrightarrow>
    table_change new relay c c' relay'"
| Claimed: "k < length (rl_pending relay) \<Longrightarrow> \<not> pn_active (rl_pending relay ! k) \<Longrightarrow> rc_phase c = Enter \<Longrightarrow>
    rl_pending relay' = (rl_pending relay)[k := claimed_slot opcode (rl_next_request_id relay)] \<Longrightarrow>
    rl_next_request_id relay' = rl_next_request_id relay + 1 \<Longrightarrow> rl_next_request_id relay + 1 \<noteq> 0 \<Longrightarrow>
    rc_slot c' = k \<Longrightarrow> rc_request_id c' = rl_next_request_id relay \<Longrightarrow> holds_slot c' \<Longrightarrow>
    table_change new relay c c' relay'"
| Rewritten: "k < length (rl_pending relay) \<Longrightarrow> awaits (rsp_request_id r) (rl_pending relay ! k) \<Longrightarrow>
    r \<in> set new \<Longrightarrow> response_ok r \<Longrightarrow>
    slot = fill_slot copied r (rl_pending relay ! k) \<or>
      slot = (rl_pending relay ! k)\<lparr>pn_status := rsp_status r, pn_detail := rsp_detail r\<rparr> \<Longrightarrow>
    rl_pending relay' = (rl_pending relay)[k := slot] \<Longrightarrow>
    rl_next_request_id relay' = rl_next_request_id relay \<Longrightarrow>
    rc_slot c' = rc_slot c \<Longrightarrow> rc_request_id c' = rc_request_id c \<Longrightarrow> holds_slot c \<Longrightarrow> holds_slot c' \<Longrightarrow>
    table_change new relay c c' relay'"
| Freed: "holds_slot c \<Longrightarrow> rl_pending relay' = (rl_pending relay)[rc_slot c := pending_blank] \<Longrightarrow>
    rl_next_request_id relay' = rl_next_request_id relay \<Longrightarrow> rc_phase c' = Returned \<Longrightarrow>
    rc_request_id c' = rc_request_id c \<Longrightarrow> table_change new relay c c' relay'"

lemma fail_call_fields [simp]:
  "rc_phase (fst (fail_call st m c)) = Returned" "rc_request_id (fst (fail_call st m c)) = rc_request_id c"
  "rc_slot (fst (fail_call st m c)) = rc_slot c" "rc_answered (fst (fail_call st m c)) = rc_answered c"
  "rc_attempted (fst (fail_call st m c)) = rc_attempted c" "rc_request (fst (fail_call st m c)) = rc_request c"
  by (simp_all add: fail_call_def split: prod.splits)

lemma call_enter_change:
  assumes "rc_phase c = Enter" "rl_next_request_id relay + 1 \<noteq> 0" "call_enter relay c = ((c', closed), relay')"
  shows "table_change new relay c c' relay'"
proof (cases "rl_broken relay \<or> first_index (\<lambda>slot. \<not> pn_active slot) (rl_pending relay) = None")
  case True
  then have "relay' = relay" "\<exists>st m. c' = fst (fail_call st m c)"
    using assms(3) by (auto simp: call_enter_def prod_eq_iff split: option.splits if_splits)
  then show ?thesis
    using assms(1) by (intro Kept) (auto simp: holds_slot_def)
next
  case False
  then obtain k where k: "first_index (\<lambda>slot. \<not> pn_active slot) (rl_pending relay) = Some k" by auto
  show ?thesis
    using assms k False first_index_SomeD [OF k]
    by (intro Claimed [of k relay c relay' "fr_opcode (rc_request c)"])
       (auto simp: call_enter_def Let_def claimed_slot_def holds_slot_def)
qed

lemma call_read_change:
  assumes "rc_phase c = Reading" "call_read i relay c = ((c', closed), relay')"
  shows "table_change (responses_by (Do_Read i)) relay c c' relay'"
proof -
  from assms(2) obtain ok where d: "read_one i relay = (ok, relay', closed)" and c': "c' = c\<lparr>rc_phase := Read ok\<rparr>"
    by (auto simp: call_read_def split: prod.splits)
  note h = assms(1) c'
  show ?thesis
  proof (cases "rl_pending relay' = rl_pending relay")
    case True
    have "rl_next_request_id relay' = rl_next_request_id relay"
      using d by (auto simp: read_one_def deliver_response_def Let_def split: relay_read.splits option.splits if_splits)
    then show ?thesis using True h by (intro Kept) (auto simp: holds_slot_def)
  next
    case False
    with d obtain r where r: "read_response i = Read_Response r" "deliver_response (in_copy i) r relay = (ok, relay', closed)"
      by (auto simp: read_one_def split: relay_read.splits)
    with False obtain k where k: "first_index (awaits (rsp_request_id r)) (rl_pending relay) = Some k"
      by (auto simp: deliver_response_def split: option.splits)
    let ?slot = "rl_pending relay' ! k"
    note D = first_index_SomeD [OF k]
    have "?slot = fill_slot (in_copy i) r (rl_pending relay ! k) \<or>
        ?slot = (rl_pending relay ! k)\<lparr>pn_status := rsp_status r, pn_detail := rsp_detail r\<rparr>"
      "rl_pending relay' = (rl_pending relay)[k := ?slot]" "rl_next_request_id relay' = rl_next_request_id relay"
      using r(2) k D(1) by (auto simp: deliver_response_def Let_def split: if_splits)
    with r(1) D h show ?thesis
      by (intro Rewritten [of k relay r _ ?slot "in_copy i"]) (auto simp: read_response_ok holds_slot_def)
  qed
qed

lemma call_finish_change:
  assumes "rc_phase c = Awaiting" "call_finish relay c = ((c', closed), relay')"
  shows "table_change new relay c c' relay'"
proof (rule Freed)
  show "holds_slot c" using assms(1) by (simp add: holds_slot_def)
  show "rl_pending relay' = (rl_pending relay)[rc_slot c := pending_blank]"
    "rl_next_request_id relay' = rl_next_request_id relay" "rc_phase c' = Returned" "rc_request_id c' = rc_request_id c"
    using assms(2) by (auto simp: call_finish_def Let_def fail_call_def split: prod.splits if_splits)
qed

lemma call_step_change:
  assumes "call_step choice relay c = Some ((c', closed), relay')"
  shows "table_change (responses_by choice) relay c c' relay'"
proof (cases choice)
  case Do_Enter
  then show ?thesis using assms call_enter_change by (auto split: if_splits)
next
  case (Do_Read i)
  then show ?thesis using assms call_read_change by (auto split: if_splits simp del: responses_by.simps)
next
  case (Do_Finish gave_up now)
  then show ?thesis using assms call_finish_change by (auto split: if_splits)
next
  case Do_End_Read
  then show ?thesis
    using assms by (auto intro!: Kept simp: holds_slot_def call_end_read_def Let_def split: if_splits call_phase.splits)
qed (use assms in \<open>auto intro!: Kept simp: holds_slot_def call_pack_def call_claim_write_def call_written_def
    call_start_read_def Let_def split: if_splits\<close>)

lemma table_ok_update:
  assumes "table_ok responses relay" "k < length (rl_pending relay)" "slot_ok (responses @ new) slot"
    and "pend.keyed ((rl_pending relay)[k := slot])" "rl_pending relay' = (rl_pending relay)[k := slot]"
    and "rl_next_request_id relay' = rl_next_request_id relay \<or>
      rl_next_request_id relay' = rl_next_request_id relay + 1 \<and> rl_next_request_id relay + 1 \<noteq> 0"
    and "pn_active slot \<Longrightarrow> pn_request_id slot < rl_next_request_id relay'"
  shows "table_ok (responses @ new) relay'"
proof -
  have sub: "set ((rl_pending relay)[k := slot]) \<subseteq> insert slot (set (rl_pending relay))"
    by (rule set_update_subset_insert)
  have "pn_request_id x < rl_next_request_id relay'"
    if "x \<in> set (rl_pending relay)" "pn_active x" for x
    using that assms(1,6) less_next(1) by (auto simp: table_ok_def list_all_iff)
  then show ?thesis
    using assms sub slot_ok_more [of responses _ new]
    by (auto simp: table_ok_def list_all_iff)
qed

lemma slot_ok_awaits: "slot_ok responses slot \<Longrightarrow> awaits k slot \<Longrightarrow> waiting_slot slot \<and> pn_request_id slot = k"
  by (auto simp: slot_ok_def awaits_def waiting_slot_def answered_slot_def pending_blank_def)
     (metis fill_slot_fields(4))+

lemma table_change_table:
  assumes ok: "table_ok responses relay" "call_ok relay c" and ch: "table_change new relay c c' relay'"
  shows "table_ok (responses @ new) relay'"
  using ch
proof cases
  case Kept
  then show ?thesis using ok(1) slot_ok_more by (auto simp: table_ok_def list_all_iff)
next
  case (Claimed k opcode)
  have keyed: "pend.keyed (rl_pending relay)" using ok(1) by (simp add: table_ok_def)
  have "pend.lookup (rl_pending relay) (rl_next_request_id relay) = None"
    using ok(1) by (auto simp: pend.lookup_None table_ok_def list_all_iff)
  with pend.lookup_claim(1) [OF keyed Claimed(1,2), of "claimed_slot opcode (rl_next_request_id relay)"]
  have "pend.keyed ((rl_pending relay)[k := claimed_slot opcode (rl_next_request_id relay)])" by simp
  moreover have "slot_ok (responses @ new) (claimed_slot opcode (rl_next_request_id relay))"
    by (simp add: slot_ok_def waiting_slot_def claimed_slot_def pending_blank_def)
  ultimately show ?thesis
    using table_ok_update [OF ok(1) Claimed(1)] Claimed less_next(2) by simp
next
  case (Rewritten k r slot copied)
  let ?old = "rl_pending relay ! k"
  have keyed: "pend.keyed (rl_pending relay)" and lt: "pn_active ?old \<Longrightarrow> pn_request_id ?old < rl_next_request_id relay"
    and "slot_ok responses ?old"
    using ok(1) Rewritten(1) by (simp_all add: table_ok_def list_all_length)
  with slot_ok_awaits Rewritten(2) have w: "waiting_slot ?old" "pn_request_id ?old = rsp_request_id r" by auto
  have same: "pn_active slot" "pn_request_id slot = pn_request_id ?old"
    using Rewritten(5) w(1) by (auto simp: waiting_slot_def)
  have "slot_ok (responses @ new) slot"
    using Rewritten(5)
  proof
    assume slot: "slot = fill_slot copied r ?old"
    have "answered_slot (responses @ new) slot"
      unfolding answered_slot_def
      by (rule bexI [of _ r])
         (use Rewritten(3,4) w slot fill_slot_claimed [OF w(1)] in \<open>auto intro!: exI [of _ copied]\<close>)
    then show ?thesis by (simp add: slot_ok_def)
  next
    assume "slot = ?old\<lparr>pn_status := rsp_status r, pn_detail := rsp_detail r\<rparr>"
    then show ?thesis using w(1) by (simp add: slot_ok_def waiting_slot_def)
  qed
  moreover have "pend.keyed ((rl_pending relay)[k := slot])"
    using pend.lookup_rewrite(1) [OF keyed Rewritten(1), of slot] w(1) same by (simp add: waiting_slot_def)
  ultimately show ?thesis
    using table_ok_update [OF ok(1) Rewritten(1)] Rewritten(6,7) same lt w(1) by (simp add: waiting_slot_def)
next
  case Freed
  then have at: "rc_slot c < length (rl_pending relay)" "pn_active (rl_pending relay ! rc_slot c)"
    using ok(2) by (simp_all add: call_ok_def)
  have keyed: "pend.keyed (rl_pending relay)" using ok(1) by (simp add: table_ok_def)
  show ?thesis
    using table_ok_update [OF ok(1) at(1), of new pending_blank relay'] pend.lookup_free(1) [OF keyed at] Freed pend.blank_free
    by (simp add: slot_ok_def)
qed

lemma table_change_other:
  assumes "table_change new relay c c' relay'" "call_ok relay d" "call_ok relay c"
    and "holds_slot c \<Longrightarrow> holds_slot d \<Longrightarrow> rc_request_id d \<noteq> rc_request_id c"
  shows "call_ok relay' d"
  using assms(1)
proof cases
  case Kept
  then show ?thesis using assms(2) by (simp add: call_ok_def)
next
  case (Claimed k opcode)
  then show ?thesis using assms(2) by (auto simp: call_ok_def nth_list_update)
next
  case (Rewritten k r slot copied)
  then have "pn_active slot = pn_active (rl_pending relay ! k)" "pn_request_id slot = pn_request_id (rl_pending relay ! k)"
    by auto
  with Rewritten(1,6) assms(2) show ?thesis by (auto simp: call_ok_def nth_list_update)
next
  case Freed
  then have "holds_slot d \<Longrightarrow> rc_slot d \<noteq> rc_slot c"
    using assms(2,3,4) by (auto simp: call_ok_def)
  with Freed assms(2) show ?thesis by (auto simp: call_ok_def)
qed

text \<open>What a step keeps of the acting call itself.\<close>

lemma call_step_result:
  assumes "call_step choice relay c = Some ((c', closed), relay')" "rc_phase c' \<noteq> Returned"
  shows "rc_result c' = rc_result c" "rc_answered c' = rc_answered c" "rc_phase c' \<noteq> Enter"
  using assms
  by (cases choice; auto simp: call_pack_def call_claim_write_def call_written_def call_start_read_def call_end_read_def
      call_read_def call_enter_def call_finish_def Let_def fail_call_def
      split: if_splits option.splits prod.splits call_phase.splits)+

lemma call_step_phase:
  "call_step choice relay c = Some ((c', closed), relay') \<Longrightarrow> rc_phase c \<noteq> Returned"
  by (cases choice) (auto split: if_splits call_phase.splits)

lemma call_step_self:
  assumes "call_step choice relay c = Some ((c', closed), relay')" "call_ok relay c" "table_ok responses relay"
  shows "call_ok relay' c'"
proof -
  have rest: "rc_phase c' \<noteq> Returned \<Longrightarrow> rc_result c' = ksd_result_init \<and> \<not> rc_answered c'" "rc_phase c' \<noteq> Enter"
    using call_step_result [OF assms(1)] call_step_phase [OF assms(1)] assms(2) by (auto simp: call_ok_def)
  show ?thesis
    using call_step_change [OF assms(1)]
  proof cases
    case Kept
    then show ?thesis using rest assms(2) by (auto simp: call_ok_def)
  next
    case (Claimed k opcode)
    then show ?thesis using rest assms(3) by (simp add: call_ok_def table_ok_def)
  next
    case (Rewritten k r slot copied)
    then have "pn_active slot = pn_active (rl_pending relay ! k)" "pn_request_id slot = pn_request_id (rl_pending relay ! k)"
      by auto
    with Rewritten rest assms(2) show ?thesis by (auto simp: call_ok_def nth_list_update)
  next
    case Freed
    then show ?thesis using rest by (simp add: call_ok_def holds_slot_def)
  qed
qed

section \<open>What a call returns\<close>

text \<open>The result a response stands for; a tail that could not be copied is an error.\<close>

definition response_result :: "bool \<Rightarrow> relay_response \<Rightarrow> ksd_operation_result" where
  "response_result copied r =
     (if rsp_file r
      then ksd_result_init\<lparr>res_status := KSD_STATUS_OK, res_tail_length := rsp_tail_length r,
             res_payload_fd := rsp_payload_fd r\<rparr>
      else if rsp_tail_length r \<noteq> 0 \<and> \<not> copied
      then fst (ksd_result_error ksd_result_init KSD_STATUS_RESOURCE_EXHAUSTED (rsp_detail r)
             (Some (ascii ''the compositor refused the operation'')))
      else if rsp_status r = KSD_STATUS_OK
      then ksd_result_init\<lparr>res_status := KSD_STATUS_OK,
             res_tail := (if rsp_tail_length r \<noteq> 0 then Some (rsp_tail r) else None),
             res_tail_length := rsp_tail_length r\<rparr>
      else fst (ksd_result_error ksd_result_init (rsp_status r) (rsp_detail r)
             (Some (if rsp_tail_length r \<noteq> 0 then rsp_tail r else ascii ''the compositor refused the operation''))))"

lemma result_error_init:
  "snd (ksd_result_error ksd_result_init st d m) = []"
  "res_payload_fd (fst (ksd_result_error ksd_result_init st d m)) = -1"
  "res_status (fst (ksd_result_error ksd_result_init st d m)) = st"
  by (auto simp: ksd_result_error_def release_payload_fd_def ksd_result_init_def Let_def split: option.splits)

lemma take_answer_fill:
  assumes "response_ok r"
  shows "\<exists>slot. take_answer (fill_slot copied r (claimed_slot opcode k)) ksd_result_init
      = (True, response_result copied r, slot, []) \<and> pn_payload_fd slot = -1"
proof (cases "rsp_file r")
  case True
  then show ?thesis
    using assms
    by (auto simp: response_ok_def take_answer_def fill_slot_def response_result_def claimed_slot_def pending_blank_def
        ksd_result_take_fd_def release_payload_fd_def ksd_result_init_def Let_def)
next
  case False
  have "KSD_STATUS_RESOURCE_EXHAUSTED \<noteq> KSD_STATUS_OK" by (simp add: wire_defs)
  with False show ?thesis
    by (auto simp: take_answer_def fill_slot_def response_result_def claimed_slot_def pending_blank_def
        ksd_result_take_def release_payload_fd_def result_error_init Let_def split_def)
       (simp_all add: ksd_result_init_def)
qed

definition phase_ok :: "relay_call \<Rightarrow> bool" where
  "phase_ok c \<longleftrightarrow>
     (case rc_phase c of
        Enter \<Rightarrow> \<not> rc_attempted c | Pack \<Rightarrow> \<not> rc_attempted c | Claim_Write \<Rightarrow> \<not> rc_attempted c
      | Writing \<Rightarrow> rc_attempted c
      | Returned \<Rightarrow> rc_answered c \<or>
          (if rc_attempted c then res_status (rc_result c) = KSD_STATUS_TIMEOUT
           else res_status (rc_result c) = KSD_STATUS_BUSY \<or> res_status (rc_result c) = KSD_STATUS_UNAVAILABLE)
      | _ \<Rightarrow> rc_sent c \<longrightarrow> rc_attempted c)"

definition answer_ok :: "relay_response list \<Rightarrow> relay_call \<Rightarrow> bool" where
  "answer_ok responses c \<longleftrightarrow> (rc_answered c \<longrightarrow> (\<exists>r\<in>set responses. response_ok r \<and> rsp_request_id r = rc_request_id c
     \<and> (\<exists>copied. rc_result c = response_result copied r)))"

lemma answer_ok_more: "answer_ok responses c \<Longrightarrow> answer_ok (responses @ new) c"
  by (auto simp: answer_ok_def)

lemma fail_call_init:
  assumes "rc_result c = ksd_result_init"
  shows "snd (fail_call st m c) = []" "res_payload_fd (rc_result (fst (fail_call st m c))) = -1"
    "res_status (rc_result (fst (fail_call st m c))) = st"
  using assms by (simp_all add: fail_call_def result_error_init split_def Let_def)

text \<open>The last critical section, by what the slot held.\<close>

lemma call_finish_cases:
  assumes c: "call_ok relay c" "rc_phase c = Awaiting" and t: "table_ok responses relay"
    and f: "call_finish relay c = ((c', closed), relay')"
  obtains (answer) r copied where "r \<in> set responses" "response_ok r" "rsp_request_id r = rc_request_id c"
      "rc_answered c'" "rc_result c' = response_result copied r" "closed = []"
      "rl_pending relay ! rc_slot c = fill_slot copied r (claimed_slot (pn_opcode (rl_pending relay ! rc_slot c)) (rc_request_id c))"
      "rc_phase c' = Returned" "rc_attempted c' = rc_attempted c" "rc_request c' = rc_request c"
  | (silence) "\<not> rc_answered c'" "closed = []" "waiting_slot (rl_pending relay ! rc_slot c)" "rc_phase c' = Returned"
      "rc_attempted c' = rc_attempted c" "rc_request c' = rc_request c" "res_payload_fd (rc_result c') = -1"
      "res_status (rc_result c') = (if \<not> rc_sent c \<and> \<not> rc_attempted c then KSD_STATUS_BUSY else KSD_STATUS_TIMEOUT)"
proof -
  let ?slot = "rl_pending relay ! rc_slot c"
  have s: "rc_slot c < length (rl_pending relay)" "pn_active ?slot" "pn_request_id ?slot = rc_request_id c"
    "rc_result c = ksd_result_init"
    using c by (simp_all add: call_ok_def holds_slot_def)
  have "slot_ok responses ?slot" using t s(1) by (simp add: table_ok_def list_all_length)
  then consider "answered_slot responses ?slot" | "waiting_slot ?slot"
    using s(2) by (auto simp: slot_ok_def pending_blank_def)
  then show ?thesis
  proof cases
    case 1
    then obtain r copied where r: "r \<in> set responses" "response_ok r" "rsp_request_id r = rc_request_id c"
        "?slot = fill_slot copied r (claimed_slot (pn_opcode ?slot) (rc_request_id c))"
      using s(3) by (auto simp: answered_slot_def)
    from take_answer_fill [OF r(2), of copied "pn_opcode ?slot" "rc_request_id c"] r(4) obtain slot where
      a: "take_answer ?slot ksd_result_init = (True, response_result copied r, slot, [])" "pn_payload_fd slot = -1" by auto
    show ?thesis
      using f s(4) a by (intro answer [OF r(1,2,3) _ _ _ r(4)]) (auto simp: call_finish_def fd_list_def Let_def)
  next
    case 2
    then have "take_answer ?slot ksd_result_init = (False, ksd_result_init, ?slot, [])" "pn_payload_fd ?slot = -1"
      by (simp_all add: take_answer_def waiting_slot_def)
    with f s(4) have "\<exists>m. fail_call
        (if \<not> rc_sent c \<and> \<not> rc_attempted c then KSD_STATUS_BUSY else KSD_STATUS_TIMEOUT) m
        (c\<lparr>rc_answered := False, rc_result := ksd_result_init\<rparr>) = (c', closed)"
      by (auto simp: call_finish_def fd_list_def Let_def split: if_splits prod.splits)
    then obtain m where m: "c' = fst (fail_call
        (if \<not> rc_sent c \<and> \<not> rc_attempted c then KSD_STATUS_BUSY else KSD_STATUS_TIMEOUT) m
        (c\<lparr>rc_answered := False, rc_result := ksd_result_init\<rparr>))" "closed = snd (fail_call
        (if \<not> rc_sent c \<and> \<not> rc_attempted c then KSD_STATUS_BUSY else KSD_STATUS_TIMEOUT) m
        (c\<lparr>rc_answered := False, rc_result := ksd_result_init\<rparr>))" by (metis fst_conv snd_conv)
    show ?thesis by (rule silence) (simp_all add: m 2 fail_call_init)
  qed
qed

lemma call_step_history:
  assumes st: "call_step choice relay c = Some ((c', closed), relay')"
    and ok: "call_ok relay c" "table_ok responses relay" "phase_ok c"
  shows "phase_ok c'" "answer_ok responses c'"
    "rc_attempted c' = (rc_attempted c \<or> wire_by choice c' \<noteq> [])"
    "wire_by choice c' = [] \<or> wire_by choice c' = [outgoing c'] \<and> rc_request_id c' = rc_request_id c \<and> rc_request_id c \<noteq> 0"
proof -
  have "phase_ok c' \<and> answer_ok responses c' \<and> rc_attempted c' = (rc_attempted c \<or> wire_by choice c' \<noteq> [])
    \<and> (wire_by choice c' = [] \<or> wire_by choice c' = [outgoing c'] \<and> rc_request_id c' = rc_request_id c \<and> rc_request_id c \<noteq> 0)"
  proof (cases choice)
    case Do_Enter
    then have p: "rc_phase c = Enter" and e: "call_enter relay c = ((c', closed), relay')"
      using st by (auto split: if_splits)
    have i: "rc_result c = ksd_result_init" "\<not> rc_answered c" "\<not> rc_attempted c"
      using ok p by (auto simp: call_ok_def phase_ok_def)
    have "rc_phase c' = Pack \<and> rc_attempted c' = rc_attempted c \<and> rc_answered c' = rc_answered c \<or>
       (\<exists>st m. st \<in> {KSD_STATUS_UNAVAILABLE, KSD_STATUS_BUSY} \<and> c' = fst (fail_call st m c))"
      using e by (auto simp: call_enter_def Let_def prod_eq_iff split: if_splits option.splits)
    then show ?thesis
      using i fail_call_init(3) [OF i(1)] by (auto simp: Do_Enter phase_ok_def answer_ok_def)
  next
    case (Do_Finish gave_up now)
    then have p: "rc_phase c = Awaiting" and f: "call_finish relay c = ((c', closed), relay')"
      using st by (auto split: if_splits)
    have id: "rc_request_id c' = rc_request_id c"
      using call_finish_change [OF p f, of "[]"] p by cases (auto simp: holds_slot_def)
    from ok(1) p ok(2) f show ?thesis
    proof (cases rule: call_finish_cases)
      case (answer r copied)
      then show ?thesis using id by (auto simp: Do_Finish phase_ok_def answer_ok_def)
    next
      case silence
      then show ?thesis using ok(3) p by (auto simp: Do_Finish phase_ok_def answer_ok_def)
    qed
  qed (use st ok in \<open>auto simp: phase_ok_def answer_ok_def call_ok_def holds_slot_def call_pack_def call_claim_write_def
        call_written_def call_start_read_def call_end_read_def call_read_def Let_def split: if_splits prod.splits call_phase.splits\<close>)
  then show "phase_ok c'" "answer_ok responses c'"
    "rc_attempted c' = (rc_attempted c \<or> wire_by choice c' \<noteq> [])"
    "wire_by choice c' = [] \<or> wire_by choice c' = [outgoing c'] \<and> rc_request_id c' = rc_request_id c \<and> rc_request_id c \<noteq> 0"
    by simp_all
qed

text \<open>The writer and the reader role move with their holder.\<close>

lemma call_step_roles:
  assumes "call_step choice relay c = Some ((c', closed), relay')"
    and "rc_phase c = Writing \<Longrightarrow> rl_writing relay" "reads c \<Longrightarrow> rl_reading relay"
  shows "of_bool (rl_writing relay') + of_bool (rc_phase c = Writing) = (of_bool (rl_writing relay) + of_bool (rc_phase c' = Writing) :: nat)"
    "of_bool (rl_reading relay') + of_bool (reads c) = (of_bool (rl_reading relay) + of_bool (reads c') :: nat)"
    "rl_refs relay' = rl_refs relay" "rl_descriptor relay' = rl_descriptor relay"
  using assms
  by (cases choice; auto simp: reads_def call_pack_def call_claim_write_def call_written_def call_start_read_def
      call_end_read_def call_read_def call_enter_def call_finish_def fail_call_def read_one_def deliver_response_def Let_def
      split: if_splits option.splits prod.splits call_phase.splits relay_read.splits)+

section \<open>Descriptors\<close>

definition call_fds :: "relay_call \<Rightarrow> int list" where
  "call_fds c = fd_list (res_payload_fd (rc_result c))"

lemma pending_fds_update:
  assumes "k < length slots"
  shows "mset (pending_fds (slots[k := slot])) + mset (fd_list (pn_payload_fd (slots ! k)))
    = mset (pending_fds slots) + mset (fd_list (pn_payload_fd slot))"
  using assms
proof (induction slots arbitrary: k)
  case Nil
  then show ?case by simp
next
  case (Cons s slots)
  show ?case
  proof (cases k)
    case 0
    then show ?thesis by (simp add: pending_fds_def fd_list_def)
  next
    case (Suc j)
    then have "j < length slots" using Cons.prems by simp
    from Cons.IH [OF this] Suc show ?thesis by (simp add: pending_fds_def)
  qed
qed

lemma deliver_fds:
  assumes t: "table_ok responses relay" and r: "response_ok r"
    and d: "deliver_response copied r relay = (ok, relay', closed)"
  shows "mset (fd_list (rsp_payload_fd r)) + mset (pending_fds (rl_pending relay))
    = mset closed + mset (pending_fds (rl_pending relay'))"
proof (cases "first_index (awaits (rsp_request_id r)) (rl_pending relay)")
  case None
  then show ?thesis using d by (simp add: deliver_response_def)
next
  case (Some k)
  note D = first_index_SomeD [OF Some]
  let ?slot = "rl_pending relay ! k"
  have "slot_ok responses ?slot" using t D(1) by (simp add: table_ok_def list_all_length)
  with D(2) have w: "waiting_slot ?slot" using slot_ok_awaits by blast
  have "pn_payload_fd (fill_slot copied r ?slot) = (if rsp_file r then rsp_payload_fd r else -1)"
    using w by (simp add: fill_slot_def waiting_slot_def Let_def)
  then show ?thesis
    using d Some w r pending_fds_update [OF D(1), of "fill_slot copied r ?slot"]
      pending_fds_update [OF D(1), of "?slot\<lparr>pn_status := rsp_status r, pn_detail := rsp_detail r\<rparr>"]
    by (auto simp: deliver_response_def Let_def fd_list_def waiting_slot_def response_ok_def split: if_splits)
qed

lemma call_read_fds:
  assumes "table_ok responses relay" "call_read i relay c = ((c', closed), relay')"
  shows "mset (received_by (Do_Read i)) + mset (pending_fds (rl_pending relay))
    = mset closed + mset (pending_fds (rl_pending relay'))" "call_fds c' = call_fds c"
proof -
  from assms(2) obtain ok where o: "read_one i relay = (ok, relay', closed)" and c': "c' = c\<lparr>rc_phase := Read ok\<rparr>"
    by (auto simp: call_read_def split: prod.splits)
  show "call_fds c' = call_fds c" by (simp add: c' call_fds_def)
  show "mset (received_by (Do_Read i)) + mset (pending_fds (rl_pending relay))
    = mset closed + mset (pending_fds (rl_pending relay'))"
    using o deliver_fds [OF assms(1) read_response_ok] unfolding read_response_fds
    by (auto simp: read_one_def split: relay_read.splits)
qed

lemma call_finish_fds:
  assumes c: "call_ok relay c" "rc_phase c = Awaiting" and t: "table_ok responses relay"
    and f: "call_finish relay c = ((c', closed), relay')"
  shows "mset (pending_fds (rl_pending relay)) + mset (call_fds c)
    = mset closed + mset (pending_fds (rl_pending relay')) + mset (call_fds c')"
proof -
  let ?slot = "rl_pending relay ! rc_slot c"
  have s: "rc_slot c < length (rl_pending relay)" "rc_result c = ksd_result_init"
    using c by (simp_all add: call_ok_def holds_slot_def)
  have p: "rl_pending relay' = (rl_pending relay)[rc_slot c := pending_blank]"
    using f by (auto simp: call_finish_def Let_def split: prod.splits if_splits)
  have up: "mset (pending_fds (rl_pending relay')) + mset (fd_list (pn_payload_fd ?slot)) = mset (pending_fds (rl_pending relay))"
    using pending_fds_update [OF s(1), of pending_blank] by (simp add: p pending_blank_def fd_list_def)
  have none: "call_fds c = []" by (simp add: call_fds_def s(2) ksd_result_init_def fd_list_def)
  from c t f have "mset (fd_list (pn_payload_fd ?slot)) = mset closed + mset (call_fds c')"
  proof (cases rule: call_finish_cases)
    case (answer r copied)
    have "pn_payload_fd ?slot = (if rsp_file r then rsp_payload_fd r else -1)"
      by (subst answer(7)) (simp add: fill_slot_def Let_def)
    moreover have "res_payload_fd (response_result copied r) = (if rsp_file r then rsp_payload_fd r else -1)"
      by (simp add: response_result_def result_error_init) (simp add: ksd_result_init_def)
    ultimately show ?thesis using answer by (simp add: call_fds_def)
  next
    case silence
    then show ?thesis by (simp add: call_fds_def fd_list_def waiting_slot_def)
  qed
  with up none show ?thesis by (simp add: ac_simps)
qed

lemma call_step_fds:
  assumes "call_step choice relay c = Some ((c', closed), relay')" "call_ok relay c" "table_ok responses relay"
  shows "mset (received_by choice) + mset (pending_fds (rl_pending relay)) + mset (call_fds c)
    = mset closed + mset (pending_fds (rl_pending relay')) + mset (call_fds c')"
proof (cases choice)
  case Do_Enter
  then have p: "rc_phase c = Enter" and e: "call_enter relay c = ((c', closed), relay')"
    using assms(1) by (auto split: if_splits)
  have i: "rc_result c = ksd_result_init" using assms(2) p by (simp add: call_ok_def)
  show ?thesis
  proof (cases "rl_broken relay \<or> first_index (\<lambda>slot. \<not> pn_active slot) (rl_pending relay) = None")
    case True
    then have "relay' = relay" "\<exists>st m. c' = fst (fail_call st m c) \<and> closed = snd (fail_call st m c)"
      using e by (auto simp: call_enter_def prod_eq_iff split: option.splits if_splits)
    then show ?thesis
      using fail_call_init [OF i] by (auto simp: Do_Enter call_fds_def fd_list_def i ksd_result_init_def)
  next
    case False
    then obtain k where k: "first_index (\<lambda>slot. \<not> pn_active slot) (rl_pending relay) = Some k" by auto
    note D = first_index_SomeD [OF k]
    have "slot_ok responses (rl_pending relay ! k)" using assms(3) D(1) by (simp add: table_ok_def list_all_length)
    with D(2) have "rl_pending relay ! k = pending_blank"
      by (auto simp: slot_ok_def waiting_slot_def answered_slot_def)
         (metis claimed_slot_fields(1) fill_slot_fields(1))
    then show ?thesis
      using e False k pending_fds_update [OF D(1)]
      by (auto simp: call_enter_def Let_def Do_Enter call_fds_def pending_blank_def fd_list_def)
  qed
next
  case (Do_Read i)
  then show ?thesis
    using assms call_read_fds [OF assms(3), of i c c' closed relay'] by (simp split: if_splits del: received_by.simps)
next
  case (Do_Finish gave_up now)
  then show ?thesis
    using assms call_finish_fds [OF assms(2) _ assms(3), of c' closed relay'] by (simp split: if_splits)
qed (use assms(1) in \<open>auto simp: call_fds_def call_pack_def call_claim_write_def
        call_written_def call_start_read_def call_end_read_def Let_def split: if_splits call_phase.splits\<close>)

end
