(* ===== verification/Relay_World.thy ===== *)
theory Relay_World
  imports Kwin_Relay
begin

text \<open>
  Any number of callers on one relay: what holds of the table, the calls, the
  request ids and the descriptors in every state that interleaved critical sections
  can reach (the step relation of \<open>Kwin_Relay\<close>).
\<close>

section \<open>The invariant of the world\<close>

definition all_calls :: "relay_world \<Rightarrow> relay_call list" where
  "all_calls w = rw_calls w @ rw_left w"

definition ids_ok :: "relay_world \<Rightarrow> bool" where
  "ids_ok w \<longleftrightarrow> distinct (filter (\<lambda>k. k \<noteq> 0) (map rc_request_id (all_calls w)))
     \<and> list_all (\<lambda>c. \<not> rc_attempted c \<longrightarrow> rc_request_id c = 0 \<or> rc_request_id c \<notin> fr_request_id ` set (rw_wire w)) (all_calls w)
     \<and> list_all (\<lambda>c. rc_attempted c \<longrightarrow> outgoing c \<in> set (rw_wire w)) (all_calls w)"

definition calls_ok :: "relay_world \<Rightarrow> bool" where
  "calls_ok w \<longleftrightarrow> list_all phase_ok (all_calls w) \<and> list_all (answer_ok (rw_responses w)) (all_calls w)
     \<and> list_all (\<lambda>c. rc_phase c = Returned) (rw_left w) \<and> list_all (\<lambda>r. \<exists>i. read_response i = Read_Response r) (rw_responses w)"

definition relay_ok :: "relay_world \<Rightarrow> ksd_kwin_relay \<Rightarrow> bool" where
  "relay_ok w relay \<longleftrightarrow> table_ok (rw_responses w) relay \<and> list_all (call_ok relay) (rw_calls w)
     \<and> rl_refs relay = length (rw_calls w) + of_bool (rw_registered w) \<and> rl_refs relay \<noteq> 0
     \<and> rl_descriptor relay = rw_descriptor w
     \<and> length (filter (\<lambda>c. rc_phase c = Writing) (rw_calls w)) = of_bool (rl_writing relay)
     \<and> length (filter reads (rw_calls w)) = of_bool (rl_reading relay)
     \<and> list_all (\<lambda>c. rc_request_id c < rl_next_request_id relay) (all_calls w)
     \<and> list_all (\<lambda>f. fr_request_id f < rl_next_request_id relay) (rw_wire w)"

definition held_fds :: "relay_world \<Rightarrow> int multiset" where
  "held_fds w = (case rw_relay w of None \<Rightarrow> {#} | Some relay \<Rightarrow> mset (pending_fds (rl_pending relay)))
     + mset (concat (map call_fds (all_calls w)))"

definition fds_ok :: "relay_world \<Rightarrow> bool" where
  "fds_ok w \<longleftrightarrow> rw_descriptor w \<ge> 0 \<and>
     mset (rw_received w) + (if rw_relay w = None then {#rw_descriptor w#} else {#}) = mset (rw_closed w) + held_fds w"

definition world_ok :: "relay_world \<Rightarrow> bool" where
  "world_ok w \<longleftrightarrow> ids_ok w \<and> calls_ok w \<and> fds_ok w \<and>
     (case rw_relay w of None \<Rightarrow> rw_calls w = [] \<and> \<not> rw_registered w | Some relay \<Rightarrow> relay_ok w relay)"

lemma filter_one_member: "length (filter P xs) = of_bool b \<Longrightarrow> x \<in> set xs \<Longrightarrow> P x \<Longrightarrow> b"
  by (cases b) (auto simp: filter_empty_conv)

lemma concat_map_update:
  assumes "i < length xs"
  shows "mset (concat (map f (xs[i := y]))) + mset (f (xs ! i)) = mset (concat (map f xs)) + mset (f y)"
  using assms
proof (induction xs arbitrary: i)
  case Nil
  then show ?case by simp
next
  case (Cons x xs)
  show ?case
  proof (cases i)
    case 0
    then show ?thesis by (simp add: ac_simps)
  next
    case (Suc j)
    then have "j < length xs" using Cons.prems by simp
    from Cons.IH [OF this] Suc show ?thesis by (simp add: add.assoc)
  qed
qed

lemma multiset_balance:
  fixes r :: "'a multiset"
  assumes "r + p + f = c + p' + f'" "a' + f = a + f'"
  shows "r + (p + a) = c + (p' + a')"
proof -
  have "r + (p + a) + f = (c + p' + f') + a" unfolding assms(1) [symmetric] by (simp add: ac_simps)
  also have "\<dots> = c + p' + (a' + f)" unfolding assms(2) by (simp add: ac_simps)
  finally show ?thesis by (simp add: ac_simps)
qed

lemma new_call_ok:
  "phase_ok (new_call request d)" "answer_ok rs (new_call request d)" "rc_request_id (new_call request d) = 0"
  "call_fds (new_call request d) = []" "rc_phase (new_call request d) = Enter" "\<not> reads (new_call request d)"
  "call_ok relay (new_call request d)" "\<not> rc_attempted (new_call request d)"
  by (simp_all add: new_call_def phase_ok_def answer_ok_def call_fds_def fd_list_def ksd_result_init_def reads_def
      call_ok_def holds_slot_def)

lemma acquire_ok:
  assumes "world_ok w" "rw_relay w = Some relay" "rw_registered w"
  shows "world_ok (w\<lparr>rw_relay := Some (ksd_kwin_relay_acquire relay), rw_calls := new_call request d # rw_calls w\<rparr>)"
proof -
  have "call_ok (ksd_kwin_relay_acquire relay) c = call_ok relay c" for c
    by (simp add: call_ok_def ksd_kwin_relay_acquire_def)
  moreover have "rl_next_request_id relay \<noteq> 0" using assms by (simp add: world_ok_def relay_ok_def table_ok_def)
  then have "0 < rl_next_request_id relay" using word_neq_0_conv by blast
  ultimately show ?thesis
    using assms
    by (auto simp: world_ok_def ids_ok_def calls_ok_def fds_ok_def relay_ok_def all_calls_def held_fds_def new_call_ok
        table_ok_def ksd_kwin_relay_acquire_def list_all_iff)
qed

subsection \<open>A critical section of one caller\<close>

text \<open>The facts about one acting caller that the parts of the invariant share.\<close>

definition acted :: "relay_world \<Rightarrow> nat \<Rightarrow> call_choice \<Rightarrow> relay_call \<Rightarrow> int list \<Rightarrow> ksd_kwin_relay \<Rightarrow> relay_world" where
  "acted w i choice c closed relay' =
     w\<lparr>rw_relay := Some relay', rw_calls := (rw_calls w)[i := c],
       rw_responses := rw_responses w @ responses_by choice, rw_wire := rw_wire w @ wire_by choice c,
       rw_received := rw_received w @ received_by choice, rw_closed := rw_closed w @ closed\<rparr>"

lemma acted_fields [simp]:
  "rw_relay (acted w i choice c closed relay') = Some relay'" "rw_calls (acted w i choice c closed relay') = (rw_calls w)[i := c]"
  "rw_left (acted w i choice c closed relay') = rw_left w" "rw_registered (acted w i choice c closed relay') = rw_registered w"
  "rw_responses (acted w i choice c closed relay') = rw_responses w @ responses_by choice"
  "rw_wire (acted w i choice c closed relay') = rw_wire w @ wire_by choice c"
  "rw_received (acted w i choice c closed relay') = rw_received w @ received_by choice"
  "rw_closed (acted w i choice c closed relay') = rw_closed w @ closed"
  "rw_descriptor (acted w i choice c closed relay') = rw_descriptor w"
  by (simp_all add: acted_def)

lemma acted_all: "i < length (rw_calls w) \<Longrightarrow>
    all_calls (acted w i choice c closed relay') = (all_calls w)[i := c]"
  by (simp add: all_calls_def list_update_append)

lemma table_change_id:
  "table_change new relay c c' relay' \<Longrightarrow> rc_request_id c' = rc_request_id c \<or>
     rc_phase c = Enter \<and> rc_request_id c' = rl_next_request_id relay"
  by (cases rule: table_change.cases) auto

lemma call_step_request: "call_step choice relay c = Some ((c', closed), relay') \<Longrightarrow> rc_request c' = rc_request c"
  by (cases choice; auto simp: call_pack_def call_claim_write_def call_written_def call_start_read_def call_end_read_def
      call_read_def call_enter_def call_finish_def fail_call_def Let_def split: if_splits option.splits prod.splits call_phase.splits)

lemma responses_by_read: "r \<in> set (responses_by choice) \<Longrightarrow> \<exists>i. read_response i = Read_Response r"
  by (cases choice) (auto split: relay_read.splits)

lemma table_change_next:
  assumes "table_change new relay c c' relay'" "rc_request_id c < rl_next_request_id relay"
  shows "rc_request_id c' < rl_next_request_id relay' \<and> (\<forall>k. k < rl_next_request_id relay \<longrightarrow> k < rl_next_request_id relay')"
  using assms(1)
  by (cases rule: table_change.cases) (use assms(2) less_next in \<open>auto\<close>)

lemma acted_relay_ok:
  assumes w: "relay_ok w relay" "ids_ok w" and i: "i < length (rw_calls w)"
    and st: "call_step choice relay (rw_calls w ! i) = Some ((c, closed), relay')"
    and hist: "wire_by choice c = [] \<or> wire_by choice c = [outgoing c] \<and> rc_request_id c = rc_request_id (rw_calls w ! i)"
  shows "relay_ok (acted w i choice c closed relay') relay'"
proof -
  let ?c = "rw_calls w ! i"
  note ch = call_step_change [OF st]
  have lt: "rc_request_id d < rl_next_request_id relay" if "d \<in> set (all_calls w)" for d
    using w(1) that by (auto simp: relay_ok_def list_all_iff)
  have t: "table_ok (rw_responses w) relay" and cs: "list_all (call_ok relay) (rw_calls w)"
    using w(1) by (auto simp: relay_ok_def)
  have ci: "call_ok relay ?c" using cs i by (simp add: list_all_length)
  have other: "call_ok relay' (rw_calls w ! j)" if "j < length (rw_calls w)" "j \<noteq> i" for j
  proof (rule table_change_other [OF ch _ ci])
    show "call_ok relay (rw_calls w ! j)" using cs that(1) by (simp add: list_all_length)
    assume "holds_slot ?c" "holds_slot (rw_calls w ! j)"
    then have "rc_request_id ?c \<noteq> 0" using ci by (simp add: call_ok_def)
    then show "rc_request_id (rw_calls w ! j) \<noteq> rc_request_id ?c"
      using distinct_filter_nth [of "\<lambda>k. k \<noteq> 0" "map rc_request_id (all_calls w)" i j] w(2) i that
      by (auto simp: ids_ok_def all_calls_def nth_append)
  qed
  have calls: "list_all (call_ok relay') ((rw_calls w)[i := c])"
    unfolding list_all_length
  proof (intro allI impI)
    fix n assume "n < length ((rw_calls w)[i := c])"
    then show "call_ok relay' ((rw_calls w)[i := c] ! n)"
      using other [of n] call_step_self [OF st ci t] by (cases "n = i") simp_all
  qed
  have role: "?c \<in> set (rw_calls w)" using i by simp
  have roles: "rc_phase ?c = Writing \<Longrightarrow> rl_writing relay" "reads ?c \<Longrightarrow> rl_reading relay"
    using w(1) role filter_one_member by (fastforce simp: relay_ok_def)+
  note R = call_step_roles [OF st roles]
  have one: "length (filter (\<lambda>c. rc_phase c = Writing) ((rw_calls w)[i := c])) = of_bool (rl_writing relay')"
    "length (filter reads ((rw_calls w)[i := c])) = of_bool (rl_reading relay')"
    using R(1,2) w(1) length_filter_update [OF i, of "\<lambda>c. rc_phase c = Writing" c] length_filter_update [OF i, of reads c]
    by (auto simp: relay_ok_def)
  have nx: "rc_request_id c < rl_next_request_id relay'"
    "\<And>k. k < rl_next_request_id relay \<Longrightarrow> k < rl_next_request_id relay'"
    using table_change_next [OF ch] lt [of ?c] role by (auto simp: all_calls_def)
  have "list_all (\<lambda>c. rc_request_id c < rl_next_request_id relay') ((all_calls w)[i := c])"
    using nx lt set_update_subset_insert [of "all_calls w" i c] by (auto simp: list_all_iff)
  moreover have "list_all (\<lambda>f. fr_request_id f < rl_next_request_id relay') (rw_wire w @ wire_by choice c)"
    using nx w(1) hist by (auto simp: relay_ok_def list_all_iff outgoing_def)
  ultimately show ?thesis
    using table_change_table [OF t ci ch] calls R(3,4) w(1) i one unfolding relay_ok_def acted_all [OF i] acted_fields
    by auto
qed

lemma acted_ids_ok:
  assumes w: "relay_ok w relay" "ids_ok w" "calls_ok w" and i: "i < length (rw_calls w)"
    and st: "call_step choice relay (rw_calls w ! i) = Some ((c, closed), relay')"
  shows "ids_ok (acted w i choice c closed relay')"
proof -
  let ?c = "rw_calls w ! i" and ?ids = "map rc_request_id (all_calls w)"
  note ch = call_step_change [OF st]
  have ci: "call_ok relay ?c" and t: "table_ok (rw_responses w) relay" and ph: "phase_ok ?c"
    using w i nth_mem [OF i] by (simp_all add: relay_ok_def calls_ok_def all_calls_def list_all_iff)
  note H = call_step_history [OF st ci t ph]
  have ids: "?ids ! i = rc_request_id ?c" "i < length ?ids" using i by (simp_all add: all_calls_def nth_append)
  have lt: "k < rl_next_request_id relay" if "k \<in> set ?ids" for k
    using that w(1) by (auto simp: relay_ok_def list_all_iff)
  have wire_lt: "fr_request_id f < rl_next_request_id relay" if "f \<in> set (rw_wire w)" for f
    using that w(1) by (simp add: relay_ok_def list_all_iff)
  have new: "rc_request_id c = rc_request_id ?c \<or> rc_request_id c = rl_next_request_id relay \<and> \<not> rc_attempted ?c"
    using table_change_id [OF ch] ph by (auto simp: phase_ok_def)
  have d: "distinct (filter (\<lambda>k. k \<noteq> 0) (?ids[i := rc_request_id c]))"
  proof (rule distinct_filter_update)
    have "rl_next_request_id relay \<notin> set ?ids" using lt by blast
    then show "rc_request_id c = ?ids ! i \<or> rc_request_id c \<notin> set ?ids" using new ids(1) by auto
  qed (use w(2) ids in \<open>simp_all add: ids_ok_def\<close>)
  have clean: "rc_request_id x = 0 \<or> rc_request_id x \<notin> fr_request_id ` set (rw_wire w @ wire_by choice c)"
    if x: "x \<in> set ((all_calls w)[i := c])" and a: "\<not> rc_attempted x" for x
  proof -
    from x obtain j where j: "j < length (all_calls w)" "x = (if j = i then c else all_calls w ! j)"
      by (auto simp: in_set_conv_nth nth_list_update)
    show ?thesis
    proof (cases "j = i")
      case True
      then have "wire_by choice c = []" "\<not> rc_attempted ?c" using j a H(3) by auto
      moreover have "rc_request_id ?c = 0 \<or> rc_request_id ?c \<notin> fr_request_id ` set (rw_wire w)"
        using w(2) nth_mem [OF i] calculation(2) by (simp add: ids_ok_def all_calls_def list_all_iff)
      moreover have "rl_next_request_id relay \<notin> fr_request_id ` set (rw_wire w)" using wire_lt by force
      ultimately show ?thesis using True j new by auto
    next
      case False
      have "rc_request_id x = 0 \<or> rc_request_id x \<notin> fr_request_id ` set (rw_wire w)"
        using w(2) j False a by (simp add: ids_ok_def list_all_length)
      moreover have "rc_request_id ?c \<noteq> 0 \<Longrightarrow> rc_request_id ?c \<noteq> rc_request_id x"
        using distinct_filter_nth [of "\<lambda>k. k \<noteq> 0" ?ids i j] w(2) ids False j by (auto simp: ids_ok_def)
      ultimately show ?thesis using H(4) by (auto simp: outgoing_def)
    qed
  qed
  have sent: "outgoing x \<in> set (rw_wire w @ wire_by choice c)" if x: "x \<in> set ((all_calls w)[i := c])" and a: "rc_attempted x" for x
  proof (cases "x = c")
    case True
    have "outgoing ?c \<in> set (rw_wire w)" if "rc_attempted ?c"
      using w(2) nth_mem [OF i] that by (simp add: ids_ok_def all_calls_def list_all_iff)
    moreover have "outgoing c = outgoing ?c" if "rc_attempted ?c"
      using new that call_step_request [OF st] by (auto simp: outgoing_def)
    ultimately show ?thesis using True a H(3,4) by auto
  next
    case False
    then have "x \<in> set (all_calls w)" using x set_update_subset_insert [of "all_calls w" i c] by blast
    then show ?thesis using w(2) a by (simp add: ids_ok_def list_all_iff)
  qed
  show ?thesis
    using d clean sent by (simp add: ids_ok_def acted_all [OF i] map_update list_all_iff)
qed

lemma acted_ok:
  assumes w: "world_ok w" "rw_relay w = Some relay" and i: "i < length (rw_calls w)"
    and st: "call_step choice relay (rw_calls w ! i) = Some ((c, closed), relay')"
  shows "world_ok (acted w i choice c closed relay')"
proof -
  let ?c = "rw_calls w ! i" and ?w = "acted w i choice c closed relay'"
  have ok: "relay_ok w relay" "ids_ok w" "calls_ok w" "fds_ok w" using w by (simp_all add: world_ok_def)
  have ci: "call_ok relay ?c" and t: "table_ok (rw_responses w) relay" and ph: "phase_ok ?c"
    using ok nth_mem [OF i] by (simp_all add: relay_ok_def calls_ok_def all_calls_def list_all_iff)
  note H = call_step_history [OF st ci t ph]
  have "calls_ok ?w"
    using ok(3) H(1,2) answer_ok_more set_update_subset_insert [of "all_calls w" i c] responses_by_read [of _ choice]
    by (auto simp: calls_ok_def acted_all [OF i] list_all_iff)
  moreover have "fds_ok ?w"
  proof -
    have ia: "i < length (all_calls w)" "all_calls w ! i = ?c" using i by (simp_all add: all_calls_def nth_append)
    show ?thesis
      using ok(4) w(2) multiset_balance [OF call_step_fds [OF st ci t]
          concat_map_update [OF ia(1), of call_fds c, unfolded ia(2)]]
      by (simp add: fds_ok_def held_fds_def acted_all [OF i] ac_simps)
  qed
  ultimately show ?thesis
    using acted_relay_ok [OF ok(1,2) i st] acted_ids_ok [OF ok(1-3) i st] H(4) by (auto simp: world_ok_def)
qed

subsection \<open>Leaving and retiring\<close>

lemma release_ok:
  assumes r: "ksd_kwin_relay_release relay = (rest, closed)" and refs: "rl_refs relay \<noteq> 0"
  shows "rl_refs relay = 1 \<Longrightarrow> rest = None \<and> closed = pending_fds (rl_pending relay) @ fd_list (rl_descriptor relay)"
    "rl_refs relay \<noteq> 1 \<Longrightarrow> rest = Some (relay\<lparr>rl_refs := rl_refs relay - 1\<rparr>) \<and> closed = []"
  using r refs by (auto simp: ksd_kwin_relay_release_def fd_list_def Let_def split: if_splits)

lemma call_ok_relay:
  "rl_pending relay' = rl_pending relay \<Longrightarrow> call_ok relay' = call_ok relay"
  by (simp add: call_ok_def fun_eq_iff)

lemma leave_ok:
  assumes w: "world_ok w" "rw_relay w = Some relay" and c: "rw_calls w = cs @ c # cs'" "rc_phase c = Returned"
    and r: "ksd_kwin_relay_release relay = (rest, closed)"
  shows "world_ok (w\<lparr>rw_relay := rest, rw_calls := cs @ cs', rw_left := c # rw_left w, rw_closed := rw_closed w @ closed\<rparr>)"
    (is "world_ok ?w")
proof -
  have ok: "relay_ok w relay" "ids_ok w" "calls_ok w" "fds_ok w" using w by (simp_all add: world_ok_def)
  have perm: "mset (all_calls ?w) = mset (all_calls w)" by (simp add: all_calls_def c(1))
  then have sets: "set (all_calls ?w) = set (all_calls w)" by (rule mset_eq_setD)
  have "mset (filter (\<lambda>k. k \<noteq> 0) (map rc_request_id (all_calls ?w))) = mset (filter (\<lambda>k. k \<noteq> 0) (map rc_request_id (all_calls w)))"
    using perm by (simp add: mset_filter)
  from mset_eq_imp_distinct_iff [OF this] have ids: "ids_ok ?w"
    using ok(2) sets unfolding ids_ok_def list_all_iff by simp
  have calls: "calls_ok ?w" using ok(3) sets c(2) by (auto simp: calls_ok_def list_all_iff)
  have cat: "mset (concat (map call_fds (all_calls ?w))) = mset (concat (map call_fds (all_calls w)))"
    by (simp add: all_calls_def c(1) ac_simps)
  have refs: "rl_refs relay \<noteq> 0" "rl_descriptor relay = rw_descriptor w" "rw_descriptor w \<ge> 0"
    using ok(1,4) by (auto simp: relay_ok_def fds_ok_def)
  note R = release_ok [OF r refs(1)]
  show ?thesis
  proof (cases "rl_refs relay = 1")
    case True
    then have "cs @ cs' = []" "\<not> rw_registered w" using ok(1) c(1) by (auto simp: relay_ok_def split: if_splits)
    moreover have "fds_ok ?w"
      using ok(4) R(1) [OF True] w(2) cat refs(2,3) by (simp add: fds_ok_def held_fds_def fd_list_def ac_simps)
    ultimately show ?thesis using ids calls R(1) [OF True] by (simp add: world_ok_def)
  next
    case False
    let ?r = "relay\<lparr>rl_refs := rl_refs relay - 1\<rparr>"
    have "fds_ok ?w" using ok(4) R(2) [OF False] w(2) cat by (simp add: fds_ok_def held_fds_def)
    moreover have "relay_ok ?w ?r"
      using ok(1) c False refs(1) sets call_ok_relay [of ?r relay]
      by (auto simp: relay_ok_def table_ok_def reads_def list_all_iff)
    ultimately show ?thesis using ids calls R(2) [OF False] by (simp add: world_ok_def)
  qed
qed

lemma retire_ok:
  assumes w: "world_ok w" "rw_relay w = Some relay" "rw_registered w"
    and r: "ksd_kwin_relay_retire relay = (rest, closed)"
  shows "world_ok (w\<lparr>rw_relay := rest, rw_registered := False, rw_closed := rw_closed w @ closed\<rparr>)" (is "world_ok ?w")
proof -
  let ?b = "relay\<lparr>rl_broken := True\<rparr>"
  have ok: "relay_ok w relay" "ids_ok w" "calls_ok w" "fds_ok w" using w by (simp_all add: world_ok_def)
  have same: "all_calls ?w = all_calls w" by (simp add: all_calls_def)
  have ids: "ids_ok ?w" "calls_ok ?w" using ok(2,3) by (simp_all add: ids_ok_def calls_ok_def same)
  have refs: "rl_refs ?b \<noteq> 0" "rl_descriptor relay = rw_descriptor w" "rw_descriptor w \<ge> 0"
    using ok(1,4) by (auto simp: relay_ok_def fds_ok_def)
  note R = release_ok [OF r [unfolded ksd_kwin_relay_retire_def] refs(1)]
  show ?thesis
  proof (cases "rl_refs relay = 1")
    case True
    then have "rw_calls w = []" using ok(1) w(3) by (simp add: relay_ok_def)
    moreover have "fds_ok ?w"
      using ok(4) R(1) True w(2) refs(2,3) by (simp add: fds_ok_def held_fds_def fd_list_def all_calls_def ac_simps)
    ultimately show ?thesis using ids R(1) True by (simp add: world_ok_def)
  next
    case False
    let ?r = "?b\<lparr>rl_refs := rl_refs relay - 1\<rparr>"
    have "fds_ok ?w" using ok(4) R(2) False w(2) by (simp add: fds_ok_def held_fds_def all_calls_def)
    moreover have "relay_ok ?w ?r"
      using ok(1) False w(3) refs(1) call_ok_relay [of ?r relay]
      by (auto simp: relay_ok_def table_ok_def all_calls_def list_all_iff)
    ultimately show ?thesis using ids R(2) False by (simp add: world_ok_def)
  qed
qed

lemma world_init_ok:
  assumes "ksd_kwin_relay_create memory mutex condition descriptor = Some relay"
  shows "world_ok (relay_world_init descriptor relay)"
proof -
  have "relay = \<lparr>rl_descriptor = descriptor, rl_writing = False, rl_reading = False, rl_broken = False,
      rl_refs = 1, rl_next_request_id = 1, rl_pending = replicate KSD_KWIN_RELAY_PENDING pending_blank\<rparr>" "descriptor \<ge> 0"
    using assms by (auto simp: ksd_kwin_relay_create_def Let_def split: if_splits)
  moreover have "pending_fds (replicate n pending_blank) = []" for n
    by (simp add: pending_fds_def pending_blank_def)
  ultimately show ?thesis
    using pend.blank_free
    by (simp add: world_ok_def relay_world_init_def ids_ok_def calls_ok_def fds_ok_def held_fds_def all_calls_def
        relay_ok_def table_ok_def pend.keyed_blank list_all_length slot_ok_def)
qed

lemma relay_reachable_ok: "relay_reachable w \<Longrightarrow> world_ok w"
proof (induction rule: relay_reachable.induct)
  case (Created memory mutex condition descriptor relay)
  then show ?case by (rule world_init_ok)
next
  case (Stepped w w')
  from Stepped.hyps(2) show ?case
  proof cases
    case (Acquire relay request deadline_ms)
    then show ?thesis using acquire_ok [OF Stepped.IH] by simp
  next
    case (Act relay i choice c closed relay')
    then show ?thesis using acted_ok [OF Stepped.IH Act(2-4)] by (simp add: acted_def)
  next
    case (Leave relay cs c cs' rest closed)
    then show ?thesis using leave_ok [OF Stepped.IH Leave(2-5)] by simp
  next
    case (Retire relay rest closed)
    then show ?thesis using retire_ok [OF Stepped.IH Retire(2-4)] by simp
  qed
qed

section \<open>Properties of the relay\<close>

text \<open>
  C8: callers that share a relay never get each other's answers. In every state
  that any interleaving of calls, reads, writes and the retirement of the relay can
  reach, the request ids of all calls that ever claimed a slot are distinct, and a
  call that returned with an answer returned the result of a response that was read
  from the channel, passed the checks of the reader (in particular, it comes with a
  descriptor exactly when it is a file response, which is then a success), and carries the id of that call.
\<close>

theorem relay_answers_own_request:
  assumes "relay_reachable w"
  shows "distinct (filter (\<lambda>k. k \<noteq> 0) (map rc_request_id (all_calls w)))
    \<and> (\<forall>c\<in>set (all_calls w). rc_answered c \<longrightarrow>
        (\<exists>r\<in>set (rw_responses w). (\<exists>i. read_response i = Read_Response r) \<and> response_ok r
          \<and> rsp_request_id r = rc_request_id c \<and> (\<exists>copied. rc_result c = response_result copied r)))"
proof -
  have w: "ids_ok w" "calls_ok w" using relay_reachable_ok [OF assms] by (simp_all add: world_ok_def)
  have "\<exists>r\<in>set (rw_responses w). (\<exists>i. read_response i = Read_Response r) \<and> response_ok r
      \<and> rsp_request_id r = rc_request_id c \<and> (\<exists>copied. rc_result c = response_result copied r)"
    if "c \<in> set (all_calls w)" "rc_answered c" for c
    using w(2) that unfolding calls_ok_def list_all_iff answer_ok_def by metis
  then show ?thesis using w(1) by (simp add: ids_ok_def)
qed

text \<open>
  C9: BUSY is safe to retry, and a request that may have been carried out is never
  reported as BUSY. In every reachable state, a call that returned without
  an answer reports TIMEOUT, and then the sending of its frame was started, or BUSY or
  UNAVAILABLE, and then no frame with its request id was ever handed to the socket,
  not even in part.
\<close>

theorem relay_busy_never_sent:
  assumes "relay_reachable w" and "c \<in> set (all_calls w)" and "rc_phase c = Returned" and "\<not> rc_answered c"
  shows "res_status (rc_result c) = KSD_STATUS_TIMEOUT \<and> rc_attempted c \<and> outgoing c \<in> set (rw_wire w)
    \<or> (res_status (rc_result c) = KSD_STATUS_BUSY \<or> res_status (rc_result c) = KSD_STATUS_UNAVAILABLE)
      \<and> \<not> rc_attempted c \<and> (rc_request_id c = 0 \<or> rc_request_id c \<notin> fr_request_id ` set (rw_wire w))"
proof -
  have "world_ok w" using assms(1) by (rule relay_reachable_ok)
  then have "phase_ok c" "\<not> rc_attempted c \<longrightarrow> rc_request_id c = 0 \<or> rc_request_id c \<notin> fr_request_id ` set (rw_wire w)"
    "rc_attempted c \<longrightarrow> outgoing c \<in> set (rw_wire w)"
    using assms(2) by (simp_all add: world_ok_def ids_ok_def calls_ok_def list_all_iff)
  then show ?thesis using assms(3,4) by (auto simp: phase_ok_def split: if_splits)
qed

text \<open>
  C10: no descriptor leaks and none is closed twice. In every reachable state the
  descriptors received on the channel, with the socket itself once the relay is
  gone, are exactly those closed so far together with those still held in a slot
  of the table or in the result of a call.
\<close>

theorem relay_descriptors_conserved:
  assumes "relay_reachable w"
  shows "mset (rw_received w) + (if rw_relay w = None then {#rw_descriptor w#} else {#})
    = mset (rw_closed w) + held_fds w"
  using relay_reachable_ok [OF assms] by (simp add: world_ok_def fds_ok_def)

text \<open>
  C11: the relay lives exactly as long as someone refers to it. In every reachable
  state the relay has been freed if and only if the registration is over and no
  caller is inside, its reference count is the number of those that hold it, at
  most one caller writes and at most one reads, and the flags say so.
\<close>

theorem relay_lifetime:
  assumes "relay_reachable w"
  shows "case rw_relay w of
      None \<Rightarrow> \<not> rw_registered w \<and> rw_calls w = []
    | Some relay \<Rightarrow>
        rl_refs relay = length (rw_calls w) + of_bool (rw_registered w) \<and> rl_refs relay > 0
        \<and> length (filter (\<lambda>c. rc_phase c = Writing) (rw_calls w)) = of_bool (rl_writing relay)
        \<and> length (filter reads (rw_calls w)) = of_bool (rl_reading relay)"
  using relay_reachable_ok [OF assms] by (auto simp: world_ok_def relay_ok_def split: option.splits)

text \<open>A relay with one caller that is let in after the relay was retired.\<close>

definition sample_relay :: ksd_kwin_relay where
  "sample_relay = the (ksd_kwin_relay_create True True True 7)"

definition sample_retired :: relay_world where
  "sample_retired = (let r = sample_relay\<lparr>rl_broken := True\<rparr>; c = fst (fst (call_enter r (new_call frame_zero 9))) in
     (relay_world_init 7 sample_relay)\<lparr>rw_relay := None, rw_registered := False, rw_left := [c], rw_closed := [7]\<rparr>)"

lemma sample_relay_eq:
  "sample_relay = \<lparr>rl_descriptor = 7, rl_writing = False, rl_reading = False, rl_broken = False, rl_refs = 1,
     rl_next_request_id = 1, rl_pending = replicate 128 pending_blank\<rparr>"
  by (simp add: sample_relay_def ksd_kwin_relay_create_def wire_defs)

lemma sample_created: "relay_reachable (relay_world_init 7 sample_relay)"
  by (rule Created [of True True True]) (simp add: sample_relay_eq ksd_kwin_relay_create_def wire_defs)

lemma sample_retired_reachable: "relay_reachable sample_retired"
proof -
  let ?w = "relay_world_init 7 sample_relay"
  let ?c = "new_call frame_zero 9"
  let ?r1 = "ksd_kwin_relay_acquire sample_relay"
  let ?r2 = "sample_relay\<lparr>rl_broken := True\<rparr>"
  obtain c where c: "call_enter ?r2 ?c = ((c, []), ?r2)" "rc_phase c = Returned"
    using fail_call_init(1) [of ?c] by (simp add: call_enter_def new_call_def prod_eq_iff)
  have "relay_step ?w (?w\<lparr>rw_relay := Some ?r1, rw_calls := [?c]\<rparr>)"
    using Acquire [of ?w sample_relay frame_zero 9] by (simp add: relay_world_init_def)
  then have 1: "relay_reachable (?w\<lparr>rw_relay := Some ?r1, rw_calls := [?c]\<rparr>)"
    by (rule Stepped [OF sample_created])
  have "ksd_kwin_relay_retire ?r1 = (Some ?r2, [])"
    by (simp add: ksd_kwin_relay_retire_def ksd_kwin_relay_release_def ksd_kwin_relay_acquire_def sample_relay_eq)
  then have "relay_step (?w\<lparr>rw_relay := Some ?r1, rw_calls := [?c]\<rparr>)
      (?w\<lparr>rw_relay := Some ?r2, rw_calls := [?c], rw_registered := False\<rparr>)"
    using Retire [of "?w\<lparr>rw_relay := Some ?r1, rw_calls := [?c]\<rparr>" ?r1 "Some ?r2" "[]"] by (simp add: relay_world_init_def)
  then have 2: "relay_reachable (?w\<lparr>rw_relay := Some ?r2, rw_calls := [?c], rw_registered := False\<rparr>)"
    by (rule Stepped [OF 1])
  have "call_step Do_Enter ?r2 ?c = Some ((c, []), ?r2)"
    using c(1) by (simp add: new_call_def sample_relay_eq)
  then have "relay_step (?w\<lparr>rw_relay := Some ?r2, rw_calls := [?c], rw_registered := False\<rparr>)
      (?w\<lparr>rw_relay := Some ?r2, rw_calls := [c], rw_registered := False\<rparr>)"
    using Act [of "?w\<lparr>rw_relay := Some ?r2, rw_calls := [?c], rw_registered := False\<rparr>" ?r2 0 Do_Enter c "[]" ?r2]
    by (simp add: relay_world_init_def)
  then have 3: "relay_reachable (?w\<lparr>rw_relay := Some ?r2, rw_calls := [c], rw_registered := False\<rparr>)"
    by (rule Stepped [OF 2])
  have "ksd_kwin_relay_release ?r2 = (None, [7])"
    by (simp add: ksd_kwin_relay_release_def sample_relay_eq pending_fds_def pending_blank_def)
  then have "relay_step (?w\<lparr>rw_relay := Some ?r2, rw_calls := [c], rw_registered := False\<rparr>) sample_retired"
    using Leave [of "?w\<lparr>rw_relay := Some ?r2, rw_calls := [c], rw_registered := False\<rparr>" ?r2 "[]" c "[]" None "[7]"] c
    by (simp add: relay_world_init_def sample_retired_def Let_def)
  then show ?thesis by (rule Stepped [OF 3])
qed

text \<open>
  A schedule of critical sections on a relay, and one with three callers: the first is
  answered, the second writes its request and gets no answer, the third cannot pack its request.
\<close>

fun play :: "(nat \<times> call_choice) list \<Rightarrow> relay_world \<Rightarrow> relay_world option" where
  "play [] w = Some w"
| "play ((i, choice) # rest) w =
     (case rw_relay w of
        None \<Rightarrow> None
      | Some relay \<Rightarrow>
          if i < length (rw_calls w)
          then case call_step choice relay (rw_calls w ! i) of
              None \<Rightarrow> None
            | Some ((c, closed), relay') \<Rightarrow> play rest (acted w i choice c closed relay')
          else None)"

lemma play_reachable: "play schedule w = Some w' \<Longrightarrow> relay_reachable w \<Longrightarrow> relay_reachable w'"
proof (induction schedule w rule: play.induct)
  case (2 i choice rest w)
  then obtain relay c closed relay' where *: "rw_relay w = Some relay" "i < length (rw_calls w)"
      "call_step choice relay (rw_calls w ! i) = Some ((c, closed), relay')" "play rest (acted w i choice c closed relay') = Some w'"
    by (auto split: option.splits if_splits)
  have "relay_reachable (acted w i choice c closed relay')"
    using Stepped [OF 2(3) Act [OF *(1-3)]] by (simp add: acted_def)
  with 2(1) * show ?case by metis
qed simp

definition sample_response :: relay_input where
  "sample_response = \<lparr>in_wait = Wait_Ready,
     in_header = Some (relay_magic @ ksd_encode_u16 KSD_PROTOCOL_MAJOR @ ksd_encode_u16 KSD_PROTOCOL_MINOR @ [0, 0] @ [0, 0]
       @ ksd_encode_u32 8 @ ksd_encode_u64 1, -1),
     in_body = Some (ksd_encode_u32 KSD_STATUS_OK @ ksd_encode_u32 0), in_stat = None, in_seals = 0, in_copy = True\<rparr>"

definition sample_calls :: relay_world where
  "sample_calls = (relay_world_init 7 sample_relay)\<lparr>rw_relay := Some (ksd_kwin_relay_acquire (ksd_kwin_relay_acquire (ksd_kwin_relay_acquire sample_relay))),
     rw_calls := [new_call frame_zero 9, new_call frame_zero 9, new_call frame_zero 9]\<rparr>"

definition sample_schedule :: "(nat \<times> call_choice) list" where
  "sample_schedule = [(0, Do_Enter), (1, Do_Enter), (2, Do_Enter), (0, Do_Pack (\<lambda>_. True)), (1, Do_Pack (\<lambda>_. True)), (2, Do_Pack (\<lambda>_. False)),
     (0, Do_Claim False 5), (0, Do_Written True), (1, Do_Claim False 5), (1, Do_Written True), (0, Do_Start_Read 6), (0, Do_Read sample_response),
     (0, Do_End_Read), (0, Do_Finish False 6), (1, Do_Finish False 9), (2, Do_Finish False 6)]"

lemma sample_table: "rl_pending sample_relay = pending_blank # pending_blank # pending_blank # replicate 125 pending_blank"
proof -
  have "replicate 128 pending_blank = replicate 3 pending_blank @ replicate 125 pending_blank" by (simp flip: replicate_add)
  then show ?thesis by (simp add: sample_relay_eq numeral_3_eq_3)
qed

lemma sample_packed:
  assumes "rc_request c = frame_zero"
  shows "fst (packed_frame (\<lambda>_. True) c)" "\<not> fst (packed_frame (\<lambda>_. False) c)"
proof -
  have m: "length (encode_frame_header (outgoing c)) = 24" "payload_bytes (outgoing c) = []"
    by (simp_all add: outgoing_def assms frame_zero_def payload_bytes_def)
  show "fst (packed_frame (\<lambda>_. True) c)" "\<not> fst (packed_frame (\<lambda>_. False) c)"
    using m by (simp_all add: packed_frame_def ksd_frame_pack_def assms outgoing_def frame_zero_def Let_def
      ksd_buffer_bytes_def buffer_reserve_def ksd_buffer_init_def wire_defs)
qed

lemma sample_read: "read_response sample_response = Read_Response \<lparr>rsp_request_id = 1, rsp_status = KSD_STATUS_OK, rsp_detail = 0, rsp_tail = [],
    rsp_tail_length = 0, rsp_file = False, rsp_payload_fd = -1\<rparr>"
  by (simp add: sample_response_def read_response_def relay_magic_def slice_def ksd_encode_u16_def ksd_encode_u32_def ksd_encode_u64_def
     ksd_decode_u16_def ksd_decode_u32_def ksd_decode_u64_def wire_defs Let_def)

lemma sample_calls_reachable: "relay_reachable sample_calls"
proof -
  let ?w = "relay_world_init 7 sample_relay" and ?c = "new_call frame_zero 9"
  have step: "relay_reachable (?w\<lparr>rw_relay := Some (ksd_kwin_relay_acquire r), rw_calls := ?c # cs\<rparr>)"
    if "relay_reachable (?w\<lparr>rw_relay := Some r, rw_calls := cs\<rparr>)" for r cs
    using Stepped [OF that Acquire [of "?w\<lparr>rw_relay := Some r, rw_calls := cs\<rparr>" r frame_zero 9]] by (simp add: relay_world_init_def)
  have "?w = ?w\<lparr>rw_relay := Some sample_relay, rw_calls := []\<rparr>" by (simp add: relay_world_init_def)
  then show ?thesis unfolding sample_calls_def using step step step sample_created by metis
qed

lemma sample_played:
  obtains w where "play sample_schedule sample_calls = Some w" "map rc_answered (rw_calls w) = [True, False, False]"
    "map rc_request_id (rw_calls w) = [1, 2, 3]" "map rc_phase (rw_calls w) = [Returned, Returned, Returned]"
    "map rc_attempted (rw_calls w) = [True, True, False]" "rw_left w = []"
  using sample_table
  by (simp add: sample_schedule_def sample_calls_def relay_world_init_def new_call_def acted_def ksd_kwin_relay_acquire_def
     sample_packed sample_read call_enter_def call_pack_def write_ready_def call_claim_write_def call_written_def still_waiting_def
     call_start_read_def call_read_def read_one_def deliver_response_def awaits_def fill_slot_def call_end_read_def call_finish_def
     take_answer_def pending_blank_def Let_def sample_relay_eq ksd_result_take_def release_payload_fd_def
     ksd_result_init_def fd_list_def split_def)

theorem relay_answers_own_request_witness:
  "\<exists>w c r copied. play sample_schedule sample_calls = Some w \<and> c \<in> set (all_calls w) \<and> rc_request_id c = 1 \<and> rc_answered c
     \<and> r \<in> set (rw_responses w) \<and> response_ok r \<and> rsp_request_id r = 1 \<and> rc_result c = response_result copied r"
proof (rule sample_played)
  fix w assume w: "play sample_schedule sample_calls = Some w" "map rc_answered (rw_calls w) = [True, False, False]"
    "map rc_request_id (rw_calls w) = [1, 2, 3]"
  let ?c = "rw_calls w ! 0"
  have "?c \<in> set (all_calls w)" "rc_request_id ?c = 1" "rc_answered ?c" using w(2,3) by (auto simp: all_calls_def map_eq_Cons_conv)
  then obtain c where c: "c \<in> set (all_calls w)" "rc_request_id c = 1" "rc_answered c" by blast
  from relay_answers_own_request [OF play_reachable [OF w(1) sample_calls_reachable]] c obtain r copied where
    "r \<in> set (rw_responses w)" "response_ok r" "rsp_request_id r = rc_request_id c" "rc_result c = response_result copied r" by blast
  then show ?thesis using w(1) c by metis
qed

theorem relay_busy_never_sent_witness:
  "\<exists>w c d. play sample_schedule sample_calls = Some w \<and> c \<in> set (all_calls w) \<and> d \<in> set (all_calls w)
     \<and> rc_request_id c = 2 \<and> res_status (rc_result c) = KSD_STATUS_TIMEOUT \<and> outgoing c \<in> set (rw_wire w)
     \<and> rc_request_id d = 3 \<and> res_status (rc_result d) \<in> {KSD_STATUS_BUSY, KSD_STATUS_UNAVAILABLE} \<and> 3 \<notin> fr_request_id ` set (rw_wire w)"
proof (rule sample_played)
  fix w assume w: "play sample_schedule sample_calls = Some w" "map rc_answered (rw_calls w) = [True, False, False]"
    "map rc_request_id (rw_calls w) = [1, 2, 3]" "map rc_phase (rw_calls w) = [Returned, Returned, Returned]"
    "map rc_attempted (rw_calls w) = [True, True, False]"
  note run = relay_busy_never_sent [OF play_reachable [OF w(1) sample_calls_reachable]]
  let ?c = "rw_calls w ! 1" and ?d = "rw_calls w ! 2"
  have c: "?c \<in> set (all_calls w)" "rc_request_id ?c = 2" "rc_phase ?c = Returned" "\<not> rc_answered ?c" "rc_attempted ?c"
    and d: "?d \<in> set (all_calls w)" "rc_request_id ?d = 3" "rc_phase ?d = Returned" "\<not> rc_answered ?d" "\<not> rc_attempted ?d"
    using w(2-5) by (auto simp: all_calls_def map_eq_Cons_conv)
  show ?thesis using w(1) c d run [OF c(1,3,4)] run [OF d(1,3,4)] by (intro exI [of _ w] exI [of _ ?c] exI [of _ ?d]) auto
qed

theorem relay_descriptors_conserved_witness:
  "rw_relay sample_retired = None \<and> mset (rw_closed sample_retired) + held_fds sample_retired = {#7#}"
  using relay_descriptors_conserved [OF sample_retired_reachable]
  by (simp add: sample_retired_def relay_world_init_def Let_def)

theorem relay_lifetime_witness: "rw_calls sample_retired = [] \<and> \<not> rw_registered sample_retired"
  using relay_lifetime [OF sample_retired_reachable]
  by (simp add: sample_retired_def relay_world_init_def Let_def)

end
