(* ===== verification/Backend.thy ===== *)
theory Backend
  imports Kwin_Wire Frame Budgets
begin

text \<open>
  Desktop backends (src/src/backend.c): what each backend can serve, how a session
  daemon's claim is narrowed at registration, the acknowledgement it gets back, and
  how the desktop of a process is read off its environment. The session bus is an
  argument (which names have an owner).
\<close>

section \<open>What a backend serves\<close>

definition KSD_X11_COORDINATE_OPERATIONS :: u64 where
  "KSD_X11_COORDINATE_OPERATIONS =
     KSD_OPERATION_WINDOW_LIST OR KSD_OPERATION_WINDOW_ACTIVE OR KSD_OPERATION_WINDOW_HANDLES
     OR KSD_OPERATION_CURSOR_POSITION OR KSD_OPERATION_WORK_AREA"

definition KSD_X11_CAPTURE_OPERATIONS :: u64 where
  "KSD_X11_CAPTURE_OPERATIONS = KSD_OPERATION_CAPTURE_AREA OR KSD_OPERATION_CAPTURE_WINDOW"

definition KSD_X11_CLIPBOARD_OPERATIONS :: u64 where
  "KSD_X11_CLIPBOARD_OPERATIONS =
     KSD_OPERATION_CLIPBOARD_MIMETYPES OR KSD_OPERATION_CLIPBOARD_CONTENT OR KSD_OPERATION_CLIPBOARD_TEXT"

definition KSD_X11_CONTROL_OPERATIONS :: u64 where
  "KSD_X11_CONTROL_OPERATIONS =
     KSD_OPERATION_WINDOW_FOCUS OR KSD_OPERATION_WINDOW_RAISE OR KSD_OPERATION_WINDOW_LOWER
     OR KSD_OPERATION_WINDOW_CLOSE OR KSD_OPERATION_WINDOW_KILL OR KSD_OPERATION_WINDOW_MOVE_RESIZE
     OR KSD_OPERATION_WINDOW_SET_STATE OR KSD_OPERATION_WINDOW_SET_OPACITY
     OR KSD_OPERATION_WINDOW_SET_ABOVE OR KSD_OPERATION_WINDOW_SET_DECORATED"

definition KSD_X11_OPERATIONS :: u64 where
  "KSD_X11_OPERATIONS =
     KSD_X11_COORDINATE_OPERATIONS OR KSD_X11_CAPTURE_OPERATIONS OR KSD_X11_CLIPBOARD_OPERATIONS
     OR KSD_X11_CONTROL_OPERATIONS OR KSD_OPERATION_MOUSE_MOVE_ABSOLUTE OR KSD_OPERATION_WINDOW_QUERY
     OR KSD_OPERATION_WINDOW_WATCH OR KSD_OPERATION_WINDOW_CHILDREN OR KSD_OPERATION_WINDOW_AT_POINT
     OR KSD_OPERATION_DISPLAY_LIST OR KSD_OPERATION_KEYBOARD_STATE OR KSD_OPERATION_WINDOW_SET_TITLE
     OR KSD_OPERATION_WINDOW_SET_VISIBLE OR KSD_OPERATION_WINDOW_REDRAW OR KSD_OPERATION_WINDOW_CLICK
     OR KSD_OPERATION_WINDOW_BUTTON OR KSD_OPERATION_WINDOW_FOCUS_CHILD"

definition KSD_GENERIC_OPERATIONS :: u64 where
  "KSD_GENERIC_OPERATIONS =
     KSD_OPERATION_CAPTURE_AREA OR KSD_OPERATION_CAPTURE_DESKTOP OR KSD_OPERATION_CAPTURE_WINDOW
     OR KSD_OPERATION_WINDOW_QUERY OR KSD_OPERATION_KEYBOARD_STATE OR KSD_OPERATION_MOUSE_MOVE_ABSOLUTE
     OR KSD_OPERATION_CURSOR_POSITION OR KSD_OPERATION_WINDOW_LIST OR KSD_OPERATION_WINDOW_HANDLES
     OR KSD_OPERATION_WINDOW_ACTIVE OR KSD_OPERATION_WINDOW_FOCUS OR KSD_OPERATION_WINDOW_CLOSE
     OR KSD_OPERATION_WINDOW_SET_STATE OR KSD_OPERATION_WINDOW_MOVE_RESIZE OR KSD_OPERATION_WINDOW_RAISE
     OR KSD_OPERATION_WINDOW_LOWER OR KSD_OPERATION_WINDOW_AT_POINT OR KSD_OPERATION_WINDOW_KILL
     OR KSD_OPERATION_WINDOW_SET_OPACITY OR KSD_OPERATION_WINDOW_SET_ABOVE OR KSD_OPERATION_WINDOW_WATCH
     OR KSD_OPERATION_DISPLAY_LIST OR KSD_OPERATION_WORK_AREA OR KSD_OPERATION_CLIPBOARD_MIMETYPES
     OR KSD_OPERATION_CLIPBOARD_CONTENT OR KSD_OPERATION_CLIPBOARD_TEXT"

definition KSD_KWIN_OPERATIONS :: u64 where
  "KSD_KWIN_OPERATIONS =
     KSD_OPERATION_CAPTURE_AREA OR KSD_OPERATION_CAPTURE_WINDOW OR KSD_OPERATION_KEYBOARD_STATE
     OR KSD_OPERATION_WINDOW_LIST OR KSD_OPERATION_WINDOW_ACTIVE OR KSD_OPERATION_WINDOW_HANDLES
     OR KSD_OPERATION_WINDOW_QUERY OR KSD_OPERATION_WINDOW_FOCUS OR KSD_OPERATION_WINDOW_RAISE
     OR KSD_OPERATION_WINDOW_LOWER OR KSD_OPERATION_WINDOW_CLOSE OR KSD_OPERATION_WINDOW_MOVE_RESIZE
     OR KSD_OPERATION_WINDOW_SET_STATE OR KSD_OPERATION_WINDOW_SET_OPACITY OR KSD_OPERATION_WINDOW_SET_ABOVE
     OR KSD_OPERATION_WINDOW_SET_DECORATED OR KSD_OPERATION_WINDOW_SET_SKIP_TASKBAR
     OR KSD_OPERATION_CURSOR_POSITION OR KSD_OPERATION_WORK_AREA"

definition shell_operations :: u64 where
  "shell_operations =
     KSD_OPERATION_WINDOW_LIST OR KSD_OPERATION_WINDOW_QUERY OR KSD_OPERATION_KEYBOARD_STATE
     OR KSD_OPERATION_WINDOW_ACTIVE OR KSD_OPERATION_WINDOW_WATCH OR KSD_OPERATION_WINDOW_FOCUS
     OR KSD_OPERATION_WINDOW_RAISE OR KSD_OPERATION_WINDOW_LOWER OR KSD_OPERATION_WINDOW_CLOSE
     OR KSD_OPERATION_WINDOW_KILL OR KSD_OPERATION_WINDOW_MOVE_RESIZE OR KSD_OPERATION_WINDOW_MOVE_RESIZE_XID
     OR KSD_OPERATION_WINDOW_SET_STATE OR KSD_OPERATION_WINDOW_SET_OPACITY OR KSD_OPERATION_WINDOW_SET_ABOVE
     OR KSD_OPERATION_WINDOW_SET_DECORATED OR KSD_OPERATION_WINDOW_RESERVE OR KSD_OPERATION_WINDOW_GET_RESERVED
     OR KSD_OPERATION_CLIPBOARD_MIMETYPES OR KSD_OPERATION_CLIPBOARD_CONTENT OR KSD_OPERATION_CLIPBOARD_TEXT
     OR KSD_OPERATION_CLIPBOARD_WATCH OR KSD_OPERATION_CLIPBOARD_SET_CONTENT OR KSD_OPERATION_MOUSE_MOVE_ABSOLUTE
     OR KSD_OPERATION_MOUSE_MOVE_RELATIVE OR KSD_OPERATION_MOUSE_BUTTON OR KSD_OPERATION_MOUSE_SCROLL
     OR KSD_OPERATION_CURSOR_POSITION OR KSD_OPERATION_WORK_AREA"

definition ksd_backend_operations :: "u32 \<Rightarrow> u64" where
  "ksd_backend_operations backend =
     (if backend = KSD_BACKEND_GENERIC then KSD_GENERIC_OPERATIONS
      else if backend = KSD_BACKEND_X11 then KSD_X11_OPERATIONS
      else if backend = KSD_BACKEND_KWIN then KSD_KWIN_OPERATIONS
      else if backend \<noteq> KSD_BACKEND_GNOME \<and> backend \<noteq> KSD_BACKEND_CINNAMON then 0
      else let operations = shell_operations;
               operations = operations OR (KSD_OPERATION_CAPTURE_WINDOW OR KSD_OPERATION_CAPTURE_AREA)
           in if backend = KSD_BACKEND_CINNAMON
              then operations AND NOT KSD_OPERATION_WINDOW_SET_DECORATED else operations)"

lemmas operation_mask_defs = ksd_backend_operations_def KSD_GENERIC_OPERATIONS_def KSD_X11_OPERATIONS_def
  KSD_KWIN_OPERATIONS_def shell_operations_def KSD_X11_COORDINATE_OPERATIONS_def KSD_X11_CAPTURE_OPERATIONS_def
  KSD_X11_CLIPBOARD_OPERATIONS_def KSD_X11_CONTROL_OPERATIONS_def

definition ksd_backend_x11_route :: "u32 \<Rightarrow> bool \<Rightarrow> u64" where
  "ksd_backend_x11_route backend x11_session =
     (if \<not> x11_session then 0
      else if backend \<noteq> KSD_BACKEND_X11 then 0
      else KSD_X11_OPERATIONS AND ksd_backend_operations backend)"

definition ksd_backend_reported_operations :: "u32 \<Rightarrow> bool \<Rightarrow> u64 \<Rightarrow> u64" where
  "ksd_backend_reported_operations backend registered advertised =
     (let supported = ksd_backend_operations backend
      in if registered then advertised AND supported else supported)"

section \<open>Registration and its acknowledgement\<close>

definition KSD_BACKEND_REGISTRATION_SIZE :: nat where
  [wire_defs]: "KSD_BACKEND_REGISTRATION_SIZE = 32"

definition KSD_BACKEND_REGISTRATION_VERSION :: u16 where
  [wire_defs]: "KSD_BACKEND_REGISTRATION_VERSION = 2"

definition KSD_BACKEND_FLAG_PROVIDER_FD :: u16 where
  [wire_defs]: "KSD_BACKEND_FLAG_PROVIDER_FD = 1"

definition KSD_BACKEND_FLAGS_ALL :: u16 where
  [wire_defs]: "KSD_BACKEND_FLAGS_ALL = KSD_BACKEND_FLAG_PROVIDER_FD"

definition KSD_BACKEND_ACK_ACCEPTED :: u16 where
  [wire_defs]: "KSD_BACKEND_ACK_ACCEPTED = 0"

definition KSD_BACKEND_ACK_REJECTED :: u16 where
  [wire_defs]: "KSD_BACKEND_ACK_REJECTED = 1"

definition ksd_backend_ack_magic :: bytes where
  "ksd_backend_ack_magic = ascii ''KSDA''"

definition ksd_backend_registration_mask :: "u32 \<Rightarrow> u16 \<Rightarrow> u16 \<Rightarrow> u64 \<Rightarrow> u64 option" where
  "ksd_backend_registration_mask backend version flags requested =
     (if version \<noteq> KSD_BACKEND_REGISTRATION_VERSION \<or> flags AND NOT KSD_BACKEND_FLAGS_ALL \<noteq> 0 then None
      else if flags AND KSD_BACKEND_FLAG_PROVIDER_FD \<noteq> 0 \<and> backend \<noteq> KSD_BACKEND_KWIN then None
      else Some (requested AND ksd_backend_operations backend))"

definition ksd_backend_ack_encode :: "u16 \<Rightarrow> u32 \<Rightarrow> u64 \<Rightarrow> bytes" where
  "ksd_backend_ack_encode status backend accepted =
     (let reply = replicate KSD_BACKEND_REGISTRATION_SIZE 0;
          reply = put_at 0 ksd_backend_ack_magic reply;
          reply = put_at 4 (ksd_encode_u16 KSD_BACKEND_REGISTRATION_VERSION) reply;
          reply = put_at 6 (ksd_encode_u16 status) reply;
          reply = put_at 8 (ksd_encode_u32 backend) reply
      in if status = KSD_BACKEND_ACK_ACCEPTED then put_at 16 (ksd_encode_u64 accepted) reply else reply)"

definition ksd_backend_ack_parse :: "bytes \<Rightarrow> u32 \<Rightarrow> u64 \<Rightarrow> u64 option" where
  "ksd_backend_ack_parse reply expected_backend requested =
     (if take 4 reply \<noteq> ksd_backend_ack_magic
         \<or> ksd_decode_u16 (drop 4 reply) \<noteq> KSD_BACKEND_REGISTRATION_VERSION
         \<or> ksd_decode_u16 (drop 6 reply) \<noteq> KSD_BACKEND_ACK_ACCEPTED
         \<or> ksd_decode_u32 (drop 8 reply) \<noteq> expected_backend
         \<or> ksd_decode_u32 (drop 12 reply) \<noteq> 0
         \<or> ksd_decode_u64 (drop 24 reply) \<noteq> 0
      then None
      else let stored = ksd_decode_u64 (drop 16 reply)
           in if stored AND NOT requested \<noteq> 0 then None else Some stored)"

section \<open>The session of a process\<close>

text \<open>\<open>environment_value\<close>: the first entry with the name decides; an empty value counts as absent.\<close>

fun environment_value :: "bytes option list \<Rightarrow> bytes \<Rightarrow> bytes option" where
  "environment_value [] name = None"
| "environment_value (entry # rest) name =
     (case entry of
        None \<Rightarrow> environment_value rest name
      | Some e \<Rightarrow>
          if take (length name + 1) e = name @ [61]
          then (let v = drop (length name + 1) e in if v \<noteq> [] then Some v else None)
          else environment_value rest name)"

definition session_names :: "bytes list" where
  "session_names = map ascii [''XDG_CURRENT_DESKTOP'', ''XDG_SESSION_TYPE'', ''WAYLAND_DISPLAY'', ''DISPLAY'',
     ''XAUTHORITY'', ''HYPRLAND_INSTANCE_SIGNATURE'', ''XDG_STATE_HOME'']"

text \<open>
  The process environment is a map. The loop sets or unsets the names in order and
  stops at the first failure; \<open>can_set\<close> says for which names \<open>setenv\<close> succeeds.
\<close>

fun apply_names ::
  "(bytes \<Rightarrow> bool) \<Rightarrow> bytes option list \<Rightarrow> bytes list \<Rightarrow> (bytes \<rightharpoonup> bytes) \<Rightarrow> bool \<times> (bytes \<rightharpoonup> bytes)" where
  "apply_names can_set environment [] own = (True, own)"
| "apply_names can_set environment (name # names) own =
     (if \<not> can_set name then (False, own)
      else apply_names can_set environment names (own(name := environment_value environment name)))"

definition ksd_backend_apply_session_environment ::
  "(bytes \<Rightarrow> bool) \<Rightarrow> bytes option list \<Rightarrow> (bytes \<rightharpoonup> bytes) \<Rightarrow> bool \<times> (bytes \<rightharpoonup> bytes)" where
  "ksd_backend_apply_session_environment can_set environment own =
     (if environment_value environment (ascii ''WAYLAND_DISPLAY'') = None
         \<and> environment_value environment (ascii ''DISPLAY'') = None
      then (False, own)
      else apply_names can_set environment session_names own)"

definition to_lower :: "u8 \<Rightarrow> u8" where
  "to_lower b = (if 65 \<le> b \<and> b \<le> 90 then b + 32 else b)"

definition strcasecmp_equal :: "bytes \<Rightarrow> bytes \<Rightarrow> bool" where
  "strcasecmp_equal a b \<longleftrightarrow> map to_lower a = map to_lower b"

fun strcasestr :: "bytes \<Rightarrow> bytes \<Rightarrow> bool" where
  "strcasestr [] needle \<longleftrightarrow> needle = []"
| "strcasestr (b # bs) needle \<longleftrightarrow>
     strcasecmp_equal (take (length needle) (b # bs)) needle \<or> strcasestr bs needle"

definition compositor_from_desktop :: "bytes option \<Rightarrow> u32" where
  "compositor_from_desktop v =
     (case v of
        None \<Rightarrow> KSD_BACKEND_NONE
      | Some value \<Rightarrow>
          if strcasestr value (ascii ''KDE'') then KSD_BACKEND_KWIN
          else if strcasestr value (ascii ''Cinnamon'') then KSD_BACKEND_CINNAMON
          else if strcasestr value (ascii ''GNOME'') then KSD_BACKEND_GNOME
          else KSD_BACKEND_NONE)"

record session_facts =
  sf_compositor :: u32
  sf_session_type_x11 :: bool
  sf_wayland_display :: bool

definition facts_none :: session_facts where
  "facts_none = \<lparr>sf_compositor = KSD_BACKEND_NONE, sf_session_type_x11 = False, sf_wayland_display = False\<rparr>"

definition read_own_session_facts :: "(bytes \<rightharpoonup> bytes) \<Rightarrow> session_facts" where
  "read_own_session_facts getenv =
     \<lparr>sf_compositor = compositor_from_desktop (getenv (ascii ''XDG_CURRENT_DESKTOP'')),
      sf_session_type_x11 = (case getenv (ascii ''XDG_SESSION_TYPE'') of None \<Rightarrow> False
        | Some type \<Rightarrow> strcasecmp_equal type (ascii ''x11'')),
      sf_wayland_display = (case getenv (ascii ''WAYLAND_DISPLAY'') of None \<Rightarrow> False
        | Some display \<Rightarrow> display \<noteq> [])\<rparr>"

definition entry_value :: "bytes \<Rightarrow> bytes \<Rightarrow> bytes option" where
  "entry_value entry prefix =
     (if take (length prefix) entry = prefix then Some (drop (length prefix) entry) else None)"

definition read_entry :: "bytes \<Rightarrow> session_facts \<Rightarrow> session_facts" where
  "read_entry entry facts =
     (let facts = (case entry_value entry (ascii ''XDG_CURRENT_DESKTOP='') of
                     None \<Rightarrow> facts
                   | Some value \<Rightarrow> if sf_compositor facts = KSD_BACKEND_NONE
                       then facts\<lparr>sf_compositor := compositor_from_desktop (Some value)\<rparr> else facts);
          facts = (case entry_value entry (ascii ''XDG_SESSION_TYPE='') of
                     None \<Rightarrow> facts
                   | Some value \<Rightarrow> facts\<lparr>sf_session_type_x11 := strcasecmp_equal value (ascii ''x11'')\<rparr>)
      in case entry_value entry (ascii ''WAYLAND_DISPLAY='') of
           None \<Rightarrow> facts
         | Some value \<Rightarrow> facts\<lparr>sf_wayland_display := (value \<noteq> [])\<rparr>)"

text \<open>The loop over the NUL-terminated entries of \<open>/proc/<pid>/environ\<close>; an unterminated one refuses.\<close>

function read_entries :: "bytes \<Rightarrow> session_facts \<Rightarrow> session_facts option" where
  "read_entries environment facts =
     (if environment = [] then Some facts
      else let entry = takeWhile (\<lambda>b. b \<noteq> 0) environment
           in if length entry = length environment then None
              else read_entries (drop (length entry + 1) environment) (read_entry entry facts))"
  by pat_completeness auto
termination by (relation "measure (\<lambda>(e, _). length e)") auto

declare read_entries.simps [simp del]

text \<open>
  Facts about another process: \<open>None\<close> when the file cannot be opened, otherwise
  its content; more than 64 KiB is refused.
\<close>

definition read_session_facts :: "bytes option \<Rightarrow> session_facts option" where
  "read_session_facts environ =
     (case environ of
        None \<Rightarrow> None
      | Some content \<Rightarrow> if length content > 64 * 1024 then None else read_entries content facts_none)"

definition ksd_backend_resolve_process :: "session_facts option \<Rightarrow> u32" where
  "ksd_backend_resolve_process read =
     (case read of
        None \<Rightarrow> KSD_BACKEND_NONE
      | Some facts \<Rightarrow>
          if sf_session_type_x11 facts \<and> \<not> sf_wayland_display facts then KSD_BACKEND_X11
          else sf_compositor facts)"

definition ksd_session_is_x11_process :: "session_facts option \<Rightarrow> bool" where
  "ksd_session_is_x11_process read =
     (case read of None \<Rightarrow> False | Some facts \<Rightarrow> sf_session_type_x11 facts \<and> \<not> sf_wayland_display facts)"

definition ksd_session_is_wayland_process :: "session_facts option \<Rightarrow> bool" where
  "ksd_session_is_wayland_process read = (case read of None \<Rightarrow> False | Some facts \<Rightarrow> sf_wayland_display facts)"

definition ksd_backend_resolve :: "(string \<Rightarrow> bool) \<Rightarrow> session_facts \<Rightarrow> u32" where
  "ksd_backend_resolve name_has_owner own =
     (if ksd_session_is_x11_process (Some own) then KSD_BACKEND_X11
      else if ksd_backend_resolve_process (Some own) = KSD_BACKEND_KWIN
         \<and> ksd_session_is_wayland_process (Some own) \<and> name_has_owner ''org.kde.KWin''
      then KSD_BACKEND_KWIN
      else if name_has_owner ''io.github.keysharp.GnomeShell'' then KSD_BACKEND_GNOME
      else if name_has_owner ''io.github.keysharp.CinnamonShell'' then KSD_BACKEND_CINNAMON
      else KSD_BACKEND_NONE)"

section \<open>Masks only narrow\<close>

lemma registration_mask_bounds:
  "ksd_backend_registration_mask backend version flags requested = Some stored \<Longrightarrow>
     stored AND NOT requested = 0 \<and> ksd_backend_reported_operations backend True stored = stored"
  by (auto simp: ksd_backend_registration_mask_def ksd_backend_reported_operations_def Let_def and_mask_zero_iff
      ac_simps split: if_splits)

lemma put_at_drop: "off + length bs = off' \<Longrightarrow> put_at off bs buf = take off buf @ bs @ drop off' buf"
  by (simp add: put_at_def)

lemma ack_bytes:
  "ksd_backend_ack_encode KSD_BACKEND_ACK_ACCEPTED backend accepted =
     ksd_backend_ack_magic @ ksd_encode_u16 KSD_BACKEND_REGISTRATION_VERSION @ ksd_encode_u16 KSD_BACKEND_ACK_ACCEPTED
     @ ksd_encode_u32 backend @ replicate 4 0 @ ksd_encode_u64 accepted @ replicate 8 0"
  by (simp add: ksd_backend_ack_encode_def Let_def put_at_def wire_defs ksd_backend_ack_magic_def ascii_def)

lemma decode_field:
  "length r \<ge> 2 \<Longrightarrow> ksd_decode_u16 r = a \<longleftrightarrow> take 2 r = ksd_encode_u16 a"
  "length r \<ge> 4 \<Longrightarrow> ksd_decode_u32 r = b \<longleftrightarrow> take 4 r = ksd_encode_u32 b"
  "length r \<ge> 8 \<Longrightarrow> ksd_decode_u64 r = c \<longleftrightarrow> take 8 r = ksd_encode_u64 c"
proof -
  show "ksd_decode_u16 r = a \<longleftrightarrow> take 2 r = ksd_encode_u16 a" if "length r \<ge> 2"
    using that encode_decode_u16 [of "take 2 r"] decode_encode_u16 [of _ "drop 2 r"]
    by (metis append_take_drop_id length_take min.absorb2)
  show "ksd_decode_u32 r = b \<longleftrightarrow> take 4 r = ksd_encode_u32 b" if "length r \<ge> 4"
    using that encode_decode_u32 [of "take 4 r"] decode_encode_u32 [of _ "drop 4 r"]
    by (metis append_take_drop_id length_take min.absorb2)
  show "ksd_decode_u64 r = c \<longleftrightarrow> take 8 r = ksd_encode_u64 c" if "length r \<ge> 8"
    using that encode_decode_u64 [of "take 8 r"] decode_encode_u64 [of _ "drop 8 r"]
    by (metis append_take_drop_id length_take min.absorb2)
qed

lemma encode_zero: "ksd_encode_u32 0 = replicate 4 0" "ksd_encode_u64 0 = replicate 8 0"
  by (simp_all add: ksd_encode_u32_def ksd_encode_u64_def ksd_encode_u16_def numeral_eq_Suc)

text \<open>
  the acknowledgement of a registration has one spelling. A daemon that asked
  for \<open>requested\<close> on \<open>backend\<close> reads the mask \<open>m\<close> from a reply of 32 bytes if
  and only if the reply is byte for byte what the authority writes when it accepts
  that backend with mask \<open>m\<close>, and \<open>m\<close> claims nothing beyond what was requested.
\<close>

theorem ack_parse_exact:
  "length reply = KSD_BACKEND_REGISTRATION_SIZE \<and> ksd_backend_ack_parse reply backend requested = Some m \<longleftrightarrow>
     reply = ksd_backend_ack_encode KSD_BACKEND_ACK_ACCEPTED backend m \<and> m AND NOT requested = 0"
proof (cases "length reply = 32")
  case True
  then have "ksd_backend_ack_parse reply backend requested = Some m \<longleftrightarrow>
      take 4 reply = ksd_backend_ack_magic \<and> take 2 (drop 4 reply) = ksd_encode_u16 KSD_BACKEND_REGISTRATION_VERSION
      \<and> take 2 (drop 6 reply) = ksd_encode_u16 KSD_BACKEND_ACK_ACCEPTED \<and> take 4 (drop 8 reply) = ksd_encode_u32 backend
      \<and> take 4 (drop 12 reply) = ksd_encode_u32 0 \<and> take 8 (drop 16 reply) = ksd_encode_u64 m
      \<and> take 8 (drop 24 reply) = ksd_encode_u64 0 \<and> m AND NOT requested = 0"
    unfolding ksd_backend_ack_parse_def Let_def
    using decode_field(3) [of "drop 24 reply" 0] by (auto simp: decode_field [symmetric])
  also have "\<dots> \<longleftrightarrow> reply = ksd_backend_ack_encode KSD_BACKEND_ACK_ACCEPTED backend m \<and> m AND NOT requested = 0"
  proof -
    have cut: "take n (drop k reply) @ drop (n + k) reply = drop k reply" for n k
      using append_take_drop_id [of n "drop k reply"] by (simp add: drop_drop)
    have "take 4 reply @ take 2 (drop 4 reply) @ take 2 (drop 6 reply) @ take 4 (drop 8 reply)
        @ take 4 (drop 12 reply) @ take 8 (drop 16 reply) @ drop 24 reply = reply"
      using cut [of 2 4] cut [of 2 6] cut [of 4 8] cut [of 4 12] cut [of 8 16] by simp
    moreover have "take 8 (drop 24 reply) = drop 24 reply" using True by simp
    ultimately have "reply = take 4 reply @ take 2 (drop 4 reply) @ take 2 (drop 6 reply) @ take 4 (drop 8 reply)
        @ take 4 (drop 12 reply) @ take 8 (drop 16 reply) @ take 8 (drop 24 reply)" by simp
    then show ?thesis by (auto simp: ack_bytes encode_zero ksd_backend_ack_magic_def)
  qed
  finally show ?thesis using True by (simp add: wire_defs)
next
  case False
  moreover have "length (ksd_backend_ack_encode KSD_BACKEND_ACK_ACCEPTED backend m) = 32"
    unfolding ack_bytes by (simp add: ksd_backend_ack_magic_def)
  ultimately show ?thesis by (auto simp: wire_defs)
qed

lemma rejected_ack_refused: "ksd_backend_ack_parse (ksd_backend_ack_encode KSD_BACKEND_ACK_REJECTED b m) b' requested = None"
  by (simp add: ksd_backend_ack_parse_def ksd_backend_ack_encode_def Let_def put_at_def wire_defs ksd_backend_ack_magic_def
      ascii_def)

text \<open>
  Every operation the authority hands to the KWin script can be queued for it.
  An opcode whose bit a KWin backend may advertise, and which is not served by the
  capture or keyboard worker, has a lane in the job queue. Conversely the opcodes
  with a lane are those and the X11-handle form of moving a window, which no KWin
  backend advertises.
\<close>

theorem kwin_operations_have_lanes:
  "ksd_kwin_lane_for opcode \<noteq> KSD_KWIN_LANE_NONE \<longleftrightarrow>
     ksd_operation_bit opcode AND KSD_KWIN_OPERATIONS \<noteq> 0
     \<and> opcode \<notin> {KSD_OP_CAPTURE_AREA, KSD_OP_CAPTURE_WINDOW, KSD_OP_CAPTURE_DESKTOP, KSD_OP_KEYBOARD_STATE}
     \<or> opcode = KSD_OP_WINDOW_MOVE_RESIZE_XID"
proof -
  have table: "list_all (\<lambda>(opcode, bit). (ksd_kwin_lane_for opcode \<noteq> KSD_KWIN_LANE_NONE) =
      (bit AND KSD_KWIN_OPERATIONS \<noteq> 0 \<and> opcode \<notin> {KSD_OP_CAPTURE_AREA, KSD_OP_CAPTURE_WINDOW,
        KSD_OP_CAPTURE_DESKTOP, KSD_OP_KEYBOARD_STATE} \<or> opcode = KSD_OP_WINDOW_MOVE_RESIZE_XID)) operation_bit_table"
    by (simp add: operation_bit_table_def ksd_kwin_lane_for_def KSD_KWIN_OPERATIONS_def wire_defs)
  show ?thesis
  proof (cases "map_of operation_bit_table opcode")
    case None
    then have "ksd_operation_bit opcode = 0" by (simp add: ksd_operation_bit_def)
    then have "ksd_kwin_lane_for opcode = KSD_KWIN_LANE_NONE" using lane_has_bit [of opcode] by blast
    moreover have "ksd_kwin_lane_for KSD_OP_WINDOW_MOVE_RESIZE_XID \<noteq> KSD_KWIN_LANE_NONE"
      by (simp add: ksd_kwin_lane_for_def)
    ultimately show ?thesis using \<open>ksd_operation_bit opcode = 0\<close> by auto
  next
    case (Some bit)
    from map_of_SomeD [OF this] table show ?thesis
      unfolding list_all_iff by (auto simp: ksd_operation_bit_def Some)
  qed
qed

section \<open>Reading the session off an environment block\<close>

text \<open>All values given to a prefix, in order, and an environment block as the kernel shows it.\<close>

definition values_of :: "bytes \<Rightarrow> bytes list \<Rightarrow> bytes list" where
  "values_of prefix es = List.map_filter (\<lambda>e. entry_value e prefix) es"

definition environ_block :: "bytes list \<Rightarrow> bytes" where
  "environ_block es = concat (map (\<lambda>e. e @ [0]) es)"

definition last_is :: "bool \<Rightarrow> (bytes \<Rightarrow> bool) \<Rightarrow> bytes list \<Rightarrow> bool" where
  "last_is d P vs = (if vs = [] then d else P (last vs))"

definition first_desktop :: "u32 \<Rightarrow> bytes list \<Rightarrow> u32" where
  "first_desktop c vs = (if c \<noteq> KSD_BACKEND_NONE then c
     else case find (\<lambda>v. compositor_from_desktop (Some v) \<noteq> KSD_BACKEND_NONE) vs of
       None \<Rightarrow> KSD_BACKEND_NONE | Some v \<Rightarrow> compositor_from_desktop (Some v))"

definition facts_from :: "session_facts \<Rightarrow> bytes list \<Rightarrow> session_facts" where
  "facts_from facts es =
     \<lparr>sf_compositor = first_desktop (sf_compositor facts) (values_of (ascii ''XDG_CURRENT_DESKTOP='') es),
      sf_session_type_x11 = last_is (sf_session_type_x11 facts) (\<lambda>v. strcasecmp_equal v (ascii ''x11''))
        (values_of (ascii ''XDG_SESSION_TYPE='') es),
      sf_wayland_display = last_is (sf_wayland_display facts) (\<lambda>v. v \<noteq> []) (values_of (ascii ''WAYLAND_DISPLAY='') es)\<rparr>"

lemma values_of_simps [simp]:
  "values_of p [] = []"
  "values_of p (e # es) = (case entry_value e p of None \<Rightarrow> values_of p es | Some v \<Rightarrow> v # values_of p es)"
  unfolding values_of_def by (simp_all add: List.map_filter_simps split: option.split)

lemma facts_from_Cons: "facts_from facts (e # es) = facts_from (read_entry e facts) es"
  by (auto simp: facts_from_def read_entry_def first_desktop_def last_is_def Let_def split: option.splits)

lemma read_entries_block:
  "list_all (\<lambda>e. 0 \<notin> set e) es \<Longrightarrow> read_entries (environ_block es) facts = Some (facts_from facts es)"
proof (induction es arbitrary: facts)
  case Nil
  then show ?case
    by (simp add: read_entries.simps environ_block_def facts_from_def first_desktop_def last_is_def)
next
  case (Cons e es)
  have "environ_block (e # es) = e @ 0 # environ_block es" by (simp add: environ_block_def)
  then show ?case
    using Cons by (subst read_entries.simps) (simp add: Let_def facts_from_Cons)
qed

lemma read_entries_unterminated:
  "list_all (\<lambda>e. 0 \<notin> set e) es \<Longrightarrow> r \<noteq> [] \<Longrightarrow> 0 \<notin> set r \<Longrightarrow> read_entries (environ_block es @ r) facts = None"
proof (induction es arbitrary: facts)
  case Nil
  then show ?case by (subst read_entries.simps) (simp add: environ_block_def)
next
  case (Cons e es)
  have "environ_block (e # es) @ r = e @ 0 # environ_block es @ r" by (simp add: environ_block_def)
  then show ?case
    using Cons by (subst read_entries.simps) (simp add: Let_def)
qed

text \<open>
  The desktop of a process is read off its environment the way the comments
  promise. For a block of at most 64 KiB made of NUL-terminated entries, the
  compositor is that of the first desktop name that names one, the session type
  and the Wayland display are those of the last entry for them, the type matches as
  a whole and not as a substring, and DISPLAY plays no part; a block whose last
  entry is not terminated, or that is longer, gives no facts.
\<close>

theorem session_facts_spec:
  assumes "list_all (\<lambda>e. 0 \<notin> set e) es" and "0 \<notin> set r"
  shows "read_session_facts (Some (environ_block es @ r)) =
    (if length (environ_block es @ r) > 65536 \<or> r \<noteq> [] then None
     else Some \<lparr>sf_compositor =
            (case find (\<lambda>v. compositor_from_desktop (Some v) \<noteq> KSD_BACKEND_NONE)
                    (values_of (ascii ''XDG_CURRENT_DESKTOP='') es) of
               None \<Rightarrow> KSD_BACKEND_NONE | Some v \<Rightarrow> compositor_from_desktop (Some v)),
          sf_session_type_x11 = (let vs = values_of (ascii ''XDG_SESSION_TYPE='') es
             in vs \<noteq> [] \<and> strcasecmp_equal (last vs) (ascii ''x11'')),
          sf_wayland_display = (let vs = values_of (ascii ''WAYLAND_DISPLAY='') es in vs \<noteq> [] \<and> last vs \<noteq> [])\<rparr>)"
proof (cases "r = []")
  case True
  then show ?thesis
    using read_entries_block [OF assms(1), of facts_none]
    by (simp add: read_session_facts_def facts_from_def first_desktop_def last_is_def facts_none_def Let_def)
next
  case False
  then show ?thesis
    using read_entries_unterminated [OF assms(1) False assms(2), of facts_none] by (simp add: read_session_facts_def)
qed

theorem session_facts_spec_witness:
  "ksd_backend_resolve_process (read_session_facts (Some
      (environ_block (map ascii [''XDG_CURRENT_DESKTOP=KDE'', ''XDG_SESSION_TYPE=x11'', ''DISPLAY=:0'']) @ []))) = KSD_BACKEND_X11"
  (is "ksd_backend_resolve_process (read_session_facts (Some (environ_block ?es @ []))) = _")
proof -
  have "list_all (\<lambda>e. 0 \<notin> set e) ?es" by (simp add: ascii_def)
  from session_facts_spec [OF this, of "[]"] show ?thesis
    by (simp add: environ_block_def ksd_backend_resolve_process_def entry_value_def ascii_def
        strcasecmp_equal_def to_lower_def)
qed

text \<open>Synchronising the daemon's own environment touches exactly the session names.\<close>

lemma apply_names_result:
  "apply_names can_set environment names own = (True, own') \<Longrightarrow>
     own' name = (if name \<in> set names then environment_value environment name else own name)"
  by (induction names arbitrary: own) (auto split: if_splits)

lemma apply_session_environment_result:
  assumes "ksd_backend_apply_session_environment can_set environment own = (True, own')"
  shows "own' name = (if name \<in> set session_names then environment_value environment name else own name)"
    "own' (ascii ''WAYLAND_DISPLAY'') \<noteq> None \<or> own' (ascii ''DISPLAY'') \<noteq> None"
proof -
  have a: "apply_names can_set environment session_names own = (True, own')"
    and d: "environment_value environment (ascii ''WAYLAND_DISPLAY'') \<noteq> None
      \<or> environment_value environment (ascii ''DISPLAY'') \<noteq> None"
    using assms by (auto simp: ksd_backend_apply_session_environment_def split: if_splits)
  show "own' name = (if name \<in> set session_names then environment_value environment name else own name)"
    by (rule apply_names_result [OF a])
  show "own' (ascii ''WAYLAND_DISPLAY'') \<noteq> None \<or> own' (ascii ''DISPLAY'') \<noteq> None"
    using d apply_names_result [OF a, of "ascii ''WAYLAND_DISPLAY''"] apply_names_result [OF a, of "ascii ''DISPLAY''"]
    by (simp add: session_names_def)
qed

end
