(* ===== verification/Registry.thy ===== *)
theory Registry
  imports Backend Slot_Table "HOL-Library.Multiset"
begin

text \<open>
  The table of session daemons the authority serves (src/src/authorityd.c): who is
  registered, with what mask and which sockets, the snapshots a request works from,
  the display workers kept per registration, and the checks a registration passes.
  The relays a slot owns are handles; creating, acquiring, releasing and retiring
  one, and closing a descriptor, are actions recorded in order. What the permission
  library and the kernel say about a process is an argument.
\<close>

section \<open>Identities\<close>

text \<open>The fields of \<open>ksp_identity\<close> the authority reads.\<close>

record ksp_identity =
  id_uid :: u32
  id_pid :: i32
  id_start_time :: u64
  id_hash :: bytes
  id_executable :: bytes

definition identity_zero :: ksp_identity where
  "identity_zero = \<lparr>id_uid = 0, id_pid = 0, id_start_time = 0, id_hash = [], id_executable = []\<rparr>"

definition same_identity :: "ksp_identity \<Rightarrow> ksp_identity \<Rightarrow> bool" where
  "same_identity left right \<longleftrightarrow> id_uid left = id_uid right \<and> id_pid left = id_pid right
     \<and> id_start_time left = id_start_time right \<and> id_hash left = id_hash right"

section \<open>The table\<close>

definition KSD_MAX_BACKEND_REGISTRATIONS :: nat where
  [wire_defs]: "KSD_MAX_BACKEND_REGISTRATIONS = 128"

type_synonym relay = nat

record backend_slot =
  bk_active :: bool
  bk_uid :: u32
  bk_descriptor :: int
  bk_backend :: u32
  bk_advertised :: u64
  bk_provider_fd :: int
  bk_relay :: "relay option"
  bk_display_relay :: "relay option list"
  bk_display_uid :: "u32 list"
  bk_display_gid :: "u32 list"
  bk_identity :: ksp_identity
  bk_provider_identity :: ksp_identity

text \<open>A slot after a registration ended; a slot never used differs in the two descriptors, which are zero.\<close>

definition backend_blank :: backend_slot where
  "backend_blank = \<lparr>bk_active = False, bk_uid = 0, bk_descriptor = -1, bk_backend = 0, bk_advertised = 0,
     bk_provider_fd = -1, bk_relay = None, bk_display_relay = [None, None], bk_display_uid = [0, 0],
     bk_display_gid = [0, 0], bk_identity = identity_zero, bk_provider_identity = identity_zero\<rparr>"

definition backends_zero :: "backend_slot list" where
  "backends_zero = replicate KSD_MAX_BACKEND_REGISTRATIONS (backend_blank\<lparr>bk_descriptor := 0, bk_provider_fd := 0\<rparr>)"

datatype relay_action = Relay_Acquire relay | Relay_Release relay | Relay_Retire relay | Close_Fd int

text \<open>
  The scan of \<open>register_backend\<close>: \<open>None\<close> when the user is already registered,
  otherwise the first free slot, if any.
\<close>

fun scan_backends :: "u32 \<Rightarrow> backend_slot list \<Rightarrow> nat \<Rightarrow> nat option \<Rightarrow> nat option option" where
  "scan_backends uid [] index free_slot = Some free_slot"
| "scan_backends uid (slot # slots) index free_slot =
     (if bk_active slot \<and> bk_uid slot = uid then None
      else scan_backends uid slots (Suc index)
             (if \<not> bk_active slot \<and> free_slot = None then Some index else free_slot))"

text \<open>\<open>relay\<close> is what \<open>ksd_kwin_relay_create\<close> returns for a provider socket.\<close>

definition register_backend ::
  "int \<Rightarrow> u32 \<Rightarrow> u32 \<Rightarrow> ksp_identity \<Rightarrow> ksp_identity option \<Rightarrow> u64 \<Rightarrow> int \<Rightarrow> relay option \<Rightarrow>
     backend_slot list \<Rightarrow> bool \<times> backend_slot list" where
  "register_backend descriptor uid backend identity provider_identity advertised provider_fd relay slots =
     (case scan_backends uid slots 0 None of
        None \<Rightarrow> (False, slots)
      | Some None \<Rightarrow> (False, slots)
      | Some (Some free_slot) \<Rightarrow>
          let slot = (slots ! free_slot)\<lparr>bk_active := True, bk_uid := uid, bk_descriptor := descriptor,
                bk_backend := backend, bk_advertised := advertised, bk_provider_fd := provider_fd,
                bk_relay := (if provider_fd \<ge> 0 then relay else None), bk_identity := identity\<rparr>;
              slot = (case provider_identity of None \<Rightarrow> slot | Some p \<Rightarrow> slot\<lparr>bk_provider_identity := p\<rparr>)
          in (True, slots[free_slot := slot]))"

definition retire_actions :: "backend_slot \<Rightarrow> relay_action list" where
  "retire_actions slot =
     (case bk_relay slot of
        Some relay \<Rightarrow> [Relay_Retire relay]
      | None \<Rightarrow> if bk_provider_fd slot \<ge> 0 then [Close_Fd (bk_provider_fd slot)] else [])
     @ List.map_filter (map_option Relay_Retire) (bk_display_relay slot)"

definition unregister_backend :: "u32 \<Rightarrow> int \<Rightarrow> backend_slot list \<Rightarrow> backend_slot list \<times> relay_action list" where
  "unregister_backend uid descriptor slots =
     (case first_index (\<lambda>slot. bk_active slot \<and> bk_uid slot = uid \<and> bk_descriptor slot = descriptor) slots of
        None \<Rightarrow> (slots, [])
      | Some index \<Rightarrow> (slots[index := backend_blank], retire_actions (slots ! index)))"

section \<open>Snapshots\<close>

record backend_snapshot =
  sn_uid :: u32
  sn_descriptor :: int
  sn_backend :: u32
  sn_advertised :: u64
  sn_identity :: ksp_identity
  sn_provider_identity :: ksp_identity
  sn_relay :: "relay option"

definition backend_snapshot_current :: "backend_slot list \<Rightarrow> backend_snapshot \<Rightarrow> bool" where
  "backend_snapshot_current slots snapshot \<longleftrightarrow>
     list_ex (\<lambda>slot. bk_active slot \<and> bk_uid slot = sn_uid snapshot \<and> bk_descriptor slot = sn_descriptor snapshot
       \<and> bk_backend slot = sn_backend snapshot \<and> bk_advertised slot = sn_advertised snapshot
       \<and> same_identity (bk_identity slot) (sn_identity snapshot)
       \<and> same_identity (bk_provider_identity slot) (sn_provider_identity snapshot)) slots"

definition take_backend_snapshot ::
  "backend_slot list \<Rightarrow> u32 \<Rightarrow> bool \<times> backend_snapshot \<times> relay_action list" where
  "take_backend_snapshot slots uid =
     (let snapshot = \<lparr>sn_uid = uid, sn_descriptor = -1, sn_backend = 0, sn_advertised = 0,
            sn_identity = identity_zero, sn_provider_identity = identity_zero, sn_relay = None\<rparr>
      in case first_index (\<lambda>slot. bk_active slot \<and> bk_uid slot = uid) slots of
           None \<Rightarrow> (False, snapshot, [])
         | Some index \<Rightarrow>
             let slot = slots ! index in
             (True, snapshot\<lparr>sn_descriptor := bk_descriptor slot, sn_backend := bk_backend slot,
                sn_advertised := bk_advertised slot, sn_identity := bk_identity slot,
                sn_provider_identity := bk_provider_identity slot, sn_relay := bk_relay slot\<rparr>,
              (case bk_relay slot of None \<Rightarrow> [] | Some relay \<Rightarrow> [Relay_Acquire relay])))"

text \<open>\<open>revalidate\<close> is \<open>ksp_identity_revalidate_cached\<close>: the identity now behind the process, if it can be read.\<close>

definition backend_snapshot_valid ::
  "(ksp_identity \<Rightarrow> ksp_identity option) \<Rightarrow> backend_slot list \<Rightarrow> backend_snapshot \<Rightarrow> bool" where
  "backend_snapshot_valid revalidate slots snapshot \<longleftrightarrow>
     sn_descriptor snapshot \<ge> 0 \<and> sn_backend snapshot \<noteq> KSD_BACKEND_NONE
     \<and> (case revalidate (sn_identity snapshot) of None \<Rightarrow> False
        | Some verified \<Rightarrow> same_identity (sn_identity snapshot) verified)
     \<and> backend_snapshot_current slots snapshot"

definition backend_snapshot_provider_valid :: "(ksp_identity \<Rightarrow> ksp_identity option) \<Rightarrow> backend_snapshot \<Rightarrow> bool" where
  "backend_snapshot_provider_valid revalidate snapshot \<longleftrightarrow>
     sint (id_pid (sn_provider_identity snapshot)) > 0
     \<and> (case revalidate (sn_provider_identity snapshot) of None \<Rightarrow> False
        | Some verified \<Rightarrow> same_identity (sn_provider_identity snapshot) verified)"

definition release_backend_snapshot :: "backend_snapshot \<Rightarrow> backend_snapshot \<times> relay_action list" where
  "release_backend_snapshot snapshot =
     (snapshot\<lparr>sn_relay := None\<rparr>,
      (case sn_relay snapshot of None \<Rightarrow> [] | Some relay \<Rightarrow> [Relay_Release relay]))"

definition registered_backend ::
  "(ksp_identity \<Rightarrow> ksp_identity option) \<Rightarrow> backend_slot list \<Rightarrow> u32 \<Rightarrow> u32 \<times> relay_action list" where
  "registered_backend revalidate slots uid =
     (let (found, snapshot, acquired) = take_backend_snapshot slots uid in
      if found then
        let result = (if backend_snapshot_valid revalidate slots snapshot then sn_backend snapshot else KSD_BACKEND_NONE);
            (snapshot, released) = release_backend_snapshot snapshot
        in (result, acquired @ released)
      else (KSD_BACKEND_NONE, acquired))"

definition registered_operations :: "backend_slot list \<Rightarrow> u32 \<Rightarrow> u32 \<Rightarrow> u64" where
  "registered_operations slots uid backend =
     (case first_index (\<lambda>slot. bk_active slot \<and> bk_uid slot = uid) slots of
        None \<Rightarrow> ksd_backend_reported_operations backend False 0
      | Some index \<Rightarrow> ksd_backend_reported_operations backend True (bk_advertised (slots ! index)))"

section \<open>Display workers\<close>

definition clear_lanes :: "relay \<Rightarrow> backend_slot \<Rightarrow> backend_slot" where
  "clear_lanes relay slot =
     slot\<lparr>bk_display_relay := map (\<lambda>r. if r = Some relay then None else r) (bk_display_relay slot)\<rparr>"

definition forget_display_relay ::
  "ksp_identity \<Rightarrow> relay \<Rightarrow> backend_slot list \<Rightarrow> backend_slot list \<times> relay_action list" where
  "forget_display_relay identity relay slots =
     (case first_index (\<lambda>slot. bk_active slot \<and> bk_uid slot = id_uid identity
              \<and> Some relay \<in> set (bk_display_relay slot)) slots of
        None \<Rightarrow> (slots, [])
      | Some index \<Rightarrow> (slots[index := clear_lanes relay (slots ! index)], [Relay_Retire relay]))"

text \<open>
  \<open>display_relay_for\<close> before the spawn: the answer at once, or the slot the new
  worker is for and the registration it belongs to.
\<close>

datatype display_lookup = Display_Answer "relay option" "relay_action list" | Display_Spawn nat ksp_identity

definition display_relay_lookup ::
  "ksp_identity \<Rightarrow> u32 \<Rightarrow> i32 \<Rightarrow> u32 \<Rightarrow> nat \<Rightarrow> backend_slot list \<Rightarrow> display_lookup" where
  "display_relay_lookup identity gid session_pid backend lane slots =
     (case first_index (\<lambda>slot. bk_active slot \<and> bk_uid slot = id_uid identity \<and> bk_backend slot = backend
              \<and> id_pid (bk_identity slot) = session_pid) slots of
        None \<Rightarrow> Display_Answer None []
      | Some index \<Rightarrow>
          let slot = slots ! index in
          case bk_display_relay slot ! lane of
            Some relay \<Rightarrow>
              if bk_display_uid slot ! lane = id_uid identity \<and> bk_display_gid slot ! lane = gid
              then Display_Answer (Some relay) [Relay_Acquire relay] else Display_Answer None []
          | None \<Rightarrow> Display_Spawn index (bk_identity slot))"

text \<open>The second critical section, with the relay around the socket of the worker that was started.\<close>

definition display_relay_install ::
  "ksp_identity \<Rightarrow> u32 \<Rightarrow> nat \<Rightarrow> nat \<Rightarrow> ksp_identity \<Rightarrow> relay \<Rightarrow> backend_slot list \<Rightarrow>
     relay option \<times> backend_slot list \<times> relay_action list" where
  "display_relay_install identity gid lane index registration relay slots =
     (let slot = slots ! index in
      if \<not> bk_active slot \<or> bk_uid slot \<noteq> id_uid identity \<or> \<not> same_identity (bk_identity slot) registration
      then (None, slots, [Relay_Retire relay])
      else case bk_display_relay slot ! lane of
        Some winner \<Rightarrow> (Some winner, slots, [Relay_Acquire winner, Relay_Retire relay])
      | None \<Rightarrow>
          (Some relay,
           slots[index := slot\<lparr>bk_display_relay := (bk_display_relay slot)[lane := Some relay],
             bk_display_uid := (bk_display_uid slot)[lane := id_uid identity],
             bk_display_gid := (bk_display_gid slot)[lane := gid]\<rparr>],
           [Relay_Acquire relay]))"

text \<open>
  The whole function: \<open>slots\<close> is the table at the first lock and \<open>later\<close> at the
  second, \<open>spawn\<close> the socket of the worker (-1 on failure) and \<open>created\<close> the relay
  around it. The worker is started outside the lock, so the two tables may differ.
\<close>

definition display_relay_for ::
  "ksp_identity \<Rightarrow> u32 \<Rightarrow> i32 \<Rightarrow> u32 \<Rightarrow> bool \<Rightarrow> int \<Rightarrow> relay option \<Rightarrow> backend_slot list \<Rightarrow> backend_slot list \<Rightarrow>
     relay option \<times> backend_slot list \<times> relay_action list" where
  "display_relay_for identity gid session_pid backend capture spawn created slots later =
     (let lane = (if capture then 1 else 0) in
      case display_relay_lookup identity gid session_pid backend lane slots of
        Display_Answer relay actions \<Rightarrow> (relay, slots, actions)
      | Display_Spawn index registration \<Rightarrow>
          if spawn < 0 then (None, later, [])
          else case created of
            None \<Rightarrow> (None, later, [Close_Fd spawn])
          | Some relay \<Rightarrow> display_relay_install identity gid lane index registration relay later)"

section \<open>Accepting a registration\<close>

definition basename :: "bytes \<Rightarrow> bytes" where
  "basename path = rev (takeWhile (\<lambda>b. b \<noteq> 47) (rev path))"

definition ksd_provider_executable_matches :: "bytes \<Rightarrow> bytes \<Rightarrow> bool" where
  "ksd_provider_executable_matches path expected \<longleftrightarrow>
     basename path = expected
     \<or> take 11 path = ascii ''/nix/store/'' \<and> basename path = [46] @ expected @ ascii ''-wrapped''"

text \<open>What \<open>stat\<close> says of a file.\<close>

record file_status =
  st_regular :: bool
  st_uid :: u32
  st_shared_write :: bool
  st_dev :: u64
  st_ino :: u64

definition trusted_provider_process :: "u32 \<Rightarrow> ksp_identity \<Rightarrow> file_status option \<Rightarrow> bool" where
  "trusted_provider_process backend identity status =
     (let expected = (if backend = KSD_BACKEND_KWIN then Some (ascii ''kwin_wayland'')
                      else if backend = KSD_BACKEND_GNOME then Some (ascii ''gnome-shell'')
                      else if backend = KSD_BACKEND_CINNAMON then Some (ascii ''cinnamon'') else None)
      in case (expected, status) of
           (Some name, Some st) \<Rightarrow>
             sint (id_pid identity) > 0 \<and> id_executable identity \<noteq> [] \<and> st_regular st \<and> st_uid st = 0
             \<and> \<not> st_shared_write st \<and> ksd_provider_executable_matches (id_executable identity) name
         | _ \<Rightarrow> False)"

text \<open>
  Everything the authority learns about the process behind a registration: its
  credentials, the files behind the two executables, the identity the permission
  library captures, the desktop its environment names, and the compositor process.
\<close>

record peer_facts =
  pf_uid :: u32
  pf_pid :: i32
  pf_self :: "file_status option"
  pf_peer :: "file_status option"
  pf_owner :: u32
  pf_identity :: "ksp_identity option"
  pf_session :: "session_facts option"
  pf_fd_ok :: bool
  pf_provider :: "ksp_identity option"
  pf_provider_status :: "file_status option"

definition trusted_backend_peer :: "peer_facts \<Rightarrow> u32 \<Rightarrow> ksp_identity option" where
  "trusted_backend_peer f backend =
     (if pf_uid f \<noteq> 0 \<and> sint (pf_pid f) > 0 \<and> KSD_BACKEND_KWIN \<le> backend \<and> backend \<le> KSD_BACKEND_X11
         \<and> (case (pf_self f, pf_peer f) of
              (Some authority, Some peer) \<Rightarrow> st_regular authority \<and> st_uid authority = pf_owner f
                \<and> \<not> st_shared_write authority \<and> st_dev authority = st_dev peer \<and> st_ino authority = st_ino peer
            | _ \<Rightarrow> False)
         \<and> (backend = KSD_BACKEND_GENERIC
            \<or> ksd_backend_resolve_process (pf_session f) = backend
              \<and> (backend \<noteq> KSD_BACKEND_KWIN \<or> ksd_session_is_wayland_process (pf_session f)))
      then pf_identity f else None)"

definition needs_provider :: "u32 \<Rightarrow> bool" where
  "needs_provider backend \<longleftrightarrow> backend = KSD_BACKEND_KWIN \<or> backend = KSD_BACKEND_GNOME \<or> backend = KSD_BACKEND_CINNAMON"

text \<open>
  The checks of \<open>handle_backend_connection\<close> before it registers: the reason of the
  first that fails, or what will be registered.
\<close>

definition check_registration ::
  "peer_facts \<Rightarrow> bytes option \<Rightarrow> int \<Rightarrow> string + (u32 \<times> u64 \<times> ksp_identity \<times> ksp_identity option)" where
  "check_registration f received provider_fd =
     (case received of
        None \<Rightarrow> Inl ''malformed registration''
      | Some r \<Rightarrow>
        if take 4 r \<noteq> ksd_backend_registration_magic
           \<or> ksd_decode_u16 (drop 4 r) \<noteq> KSD_BACKEND_REGISTRATION_VERSION
           \<or> ksd_decode_u32 (drop 12 r) \<noteq> 0 \<or> ksd_decode_u64 (drop 24 r) \<noteq> 0
        then Inl ''malformed registration''
        else let backend = ksd_decode_u32 (drop 8 r) in
          case ksd_backend_registration_mask backend (ksd_decode_u16 (drop 4 r)) (ksd_decode_u16 (drop 6 r))
                 (ksd_decode_u64 (drop 16 r)) of
            None \<Rightarrow> Inl ''invalid backend fields''
          | Some advertised \<Rightarrow>
            let wants_fd = (ksd_decode_u16 (drop 6 r) AND KSD_BACKEND_FLAG_PROVIDER_FD \<noteq> 0) in
            if wants_fd \<noteq> (provider_fd \<ge> 0) then Inl ''provider descriptor mismatch''
            else if provider_fd \<ge> 0 \<and> \<not> pf_fd_ok f then Inl ''invalid provider descriptor''
            else case trusted_backend_peer f backend of
              None \<Rightarrow> Inl ''untrusted session daemon''
            | Some identity \<Rightarrow>
              if needs_provider backend then
                case pf_provider f of
                  None \<Rightarrow> Inl ''untrusted provider process''
                | Some provider \<Rightarrow>
                    if trusted_provider_process backend provider (pf_provider_status f)
                    then Inr (backend, advertised, identity, Some provider)
                    else Inl ''untrusted provider process''
              else Inr (backend, advertised, identity, None))"

text \<open>
  The connection up to its acknowledgement: whether the daemon stays registered, the
  table, the bytes sent back and what was closed or retired. Without a clock nothing is
  read at all. The table is locked twice, and other threads may change it in between:
  \<open>slots\<close> is the table of the registration, and \<open>later\<close> the one that is found when the
  acknowledgement could not be sent.
\<close>

definition handle_backend_connection ::
  "u64 \<Rightarrow> peer_facts \<Rightarrow> bytes option \<Rightarrow> int \<Rightarrow> relay option \<Rightarrow> int \<Rightarrow> bool \<Rightarrow> backend_slot list \<Rightarrow> backend_slot list \<Rightarrow>
     bool \<times> backend_slot list \<times> bytes \<times> relay_action list" where
  "handle_backend_connection now f received provider_fd relay descriptor ack_sent slots later =
     (let rejected = (False, slots, ksd_backend_ack_encode KSD_BACKEND_ACK_REJECTED KSD_BACKEND_NONE 0,
            if provider_fd \<ge> 0 then [Close_Fd provider_fd] else [])
      in if now = 0 then (False, slots, [], [])
         else case check_registration f received provider_fd of
           Inl reason \<Rightarrow> rejected
         | Inr (backend, advertised, identity, provider) \<Rightarrow>
             (case register_backend descriptor (pf_uid f) backend identity provider advertised provider_fd relay slots of
                (False, _) \<Rightarrow> rejected
              | (True, slots') \<Rightarrow>
                  let ack = ksd_backend_ack_encode KSD_BACKEND_ACK_ACCEPTED backend advertised in
                  if ack_sent then (True, slots', ack, [])
                  else let (slots'', actions) = unregister_backend (pf_uid f) descriptor later
                       in (False, slots'', ack, actions)))"

text \<open>
  An accepted registration is watched until the daemon's socket stirs, a poll fails or
  the registration is no longer valid; then it ends. Each poll comes with what
  \<open>registered_backend\<close> said after it.
\<close>

datatype poll_outcome = Poll_Interrupted | Poll_Failed | Poll_Woke bool

fun registration_ends :: "u32 \<Rightarrow> (poll_outcome \<times> u32) list \<Rightarrow> bool" where
  "registration_ends backend [] = False"
| "registration_ends backend ((outcome, registered) # polls) =
     (case outcome of
        Poll_Interrupted \<Rightarrow> registration_ends backend polls
      | Poll_Failed \<Rightarrow> True
      | Poll_Woke stirred \<Rightarrow> if registered \<noteq> backend \<or> stirred then True else registration_ends backend polls)"

definition watch_registration ::
  "u32 \<Rightarrow> int \<Rightarrow> u32 \<Rightarrow> (poll_outcome \<times> u32) list \<Rightarrow> backend_slot list \<Rightarrow> backend_slot list \<times> relay_action list" where
  "watch_registration uid descriptor backend polls slots =
     (if registration_ends backend polls then unregister_backend uid descriptor slots else (slots, []))"

section \<open>The table as a map from users to registrations\<close>

interpretation regs: slot_table bk_active bk_uid backend_blank
  by unfold_locales (simp add: backend_blank_def)

text \<open>A free slot owns nothing; an occupied one has two display lanes.\<close>

definition slot_clean :: "backend_slot \<Rightarrow> bool" where
  "slot_clean slot \<longleftrightarrow> length (bk_display_relay slot) = 2 \<and> length (bk_display_uid slot) = 2 \<and> length (bk_display_gid slot) = 2
     \<and> (\<not> bk_active slot \<longrightarrow> bk_relay slot = None \<and> bk_display_relay slot = [None, None]
          \<and> bk_provider_identity slot = identity_zero)"

definition registry_wf :: "backend_slot list \<Rightarrow> bool" where
  "registry_wf slots \<longleftrightarrow> length slots = KSD_MAX_BACKEND_REGISTRATIONS \<and> regs.keyed slots \<and> list_all slot_clean slots"

lemma scan_backends_None:
  "scan_backends uid slots index free_slot = None \<longleftrightarrow> (\<exists>slot\<in>set slots. bk_active slot \<and> bk_uid slot = uid)"
  by (induction slots arbitrary: index free_slot) auto

lemma scan_backends_Some:
  "scan_backends uid slots index free_slot = Some r \<Longrightarrow>
     r = (case free_slot of Some k \<Rightarrow> Some k | None \<Rightarrow> map_option (\<lambda>k. index + k) (first_index (\<lambda>slot. \<not> bk_active slot) slots))"
proof (induction slots arbitrary: index free_slot)
  case Nil
  then show ?case by (simp split: option.splits)
next
  case (Cons slot slots)
  have "scan_backends uid slots (Suc index) (if \<not> bk_active slot \<and> free_slot = None then Some index else free_slot) = Some r"
    using Cons.prems by (cases "bk_active slot \<and> bk_uid slot = uid") auto
  from Cons.IH [OF this] show ?case
    by (cases "bk_active slot"; cases free_slot) (auto simp: option.map_comp comp_def intro: option.map_cong0)
qed

lemma scan_backends_eq:
  "scan_backends uid slots 0 None =
     (if regs.lookup slots uid = None then Some (first_index (\<lambda>slot. \<not> bk_active slot) slots) else None)"
proof (cases "scan_backends uid slots 0 None")
  case None
  then show ?thesis by (auto simp: scan_backends_None regs.lookup_None)
next
  case (Some r)
  then have "regs.lookup slots uid = None"
    using scan_backends_None [of uid slots 0 None] by (auto simp: regs.lookup_None)
  with Some scan_backends_Some [OF Some] show ?thesis
    by (cases "first_index (\<lambda>slot. \<not> bk_active slot) slots") simp_all
qed

definition registered_slot ::
  "int \<Rightarrow> u32 \<Rightarrow> u32 \<Rightarrow> ksp_identity \<Rightarrow> ksp_identity option \<Rightarrow> u64 \<Rightarrow> int \<Rightarrow> relay option \<Rightarrow> backend_slot \<Rightarrow> backend_slot" where
  "registered_slot descriptor uid backend identity provider advertised fd relay slot =
     slot\<lparr>bk_active := True, bk_uid := uid, bk_descriptor := descriptor, bk_backend := backend,
          bk_advertised := advertised, bk_provider_fd := fd, bk_relay := (if fd \<ge> 0 then relay else None),
          bk_identity := identity, bk_provider_identity := (case provider of None \<Rightarrow> identity_zero | Some p \<Rightarrow> p)\<rparr>"

lemma register_cases:
  assumes wf: "registry_wf slots"
    and r: "register_backend descriptor uid backend identity provider advertised fd relay slots = (ok, slots')"
  obtains (refused) "\<not> ok" "slots' = slots" "regs.lookup slots uid \<noteq> None \<or> list_all bk_active slots"
  | (taken) k where "ok" "k < length slots" "\<not> bk_active (slots ! k)" "regs.lookup slots uid = None"
      "slots' = slots[k := registered_slot descriptor uid backend identity provider advertised fd relay (slots ! k)]"
proof (cases "regs.lookup slots uid = None")
  case False
  then show ?thesis using r refused by (auto simp: register_backend_def scan_backends_eq)
next
  case True
  show ?thesis
  proof (cases "first_index (\<lambda>slot. \<not> bk_active slot) slots")
    case None
    have "list_all bk_active slots"
      using first_index_None [THEN iffD1, OF None] by (auto simp: list_all_iff)
    then show ?thesis using r True None refused by (simp add: register_backend_def scan_backends_eq)
  next
    case (Some k)
    note D = first_index_SomeD [OF Some]
    have zero: "bk_provider_identity (slots ! k) = identity_zero"
      using wf D(1,2) by (simp add: registry_wf_def list_all_length slot_clean_def)
    have keep: "s\<lparr>bk_provider_identity := identity_zero\<rparr> = s" if "bk_provider_identity s = identity_zero" for s :: backend_slot
      using that by (cases s) simp
    have "ok" "slots' = slots[k := registered_slot descriptor uid backend identity provider advertised fd relay (slots ! k)]"
      using r True Some zero
      by (cases provider; simp add: register_backend_def scan_backends_eq registered_slot_def Let_def keep)+
    with True D taken show ?thesis by blast
  qed
qed

lemma registry_wf_update:
  "registry_wf slots \<Longrightarrow> k < length slots \<Longrightarrow> slot_clean slot \<Longrightarrow> regs.keyed (slots[k := slot]) \<Longrightarrow> registry_wf (slots[k := slot])"
  using set_update_subset_insert [of slots k slot] by (auto simp: registry_wf_def list_all_iff)

lemma backend_blank_clean: "slot_clean backend_blank"
  by (simp add: slot_clean_def backend_blank_def)

lemma registered_slot_clean:
  "slot_clean slot \<Longrightarrow> slot_clean (registered_slot d uid b i p a fd relay slot)"
  by (simp add: slot_clean_def registered_slot_def)

lemma register_wf:
  assumes "registry_wf slots" "register_backend d uid b i p a fd relay slots = (ok, slots')"
  shows "registry_wf slots'"
    "regs.lookup slots' = (if ok then (regs.lookup slots)(uid \<mapsto> the (regs.lookup slots' uid)) else regs.lookup slots)"
    "ok \<Longrightarrow> regs.lookup slots' uid \<noteq> None \<and> bk_descriptor (the (regs.lookup slots' uid)) = d
       \<and> bk_backend (the (regs.lookup slots' uid)) = b \<and> bk_advertised (the (regs.lookup slots' uid)) = a"
proof -
  have keyed: "regs.keyed slots" using assms(1) by (simp add: registry_wf_def)
  have "registry_wf slots' \<and>
    regs.lookup slots' = (if ok then (regs.lookup slots)(uid \<mapsto> the (regs.lookup slots' uid)) else regs.lookup slots)
    \<and> (ok \<longrightarrow> regs.lookup slots' uid \<noteq> None \<and> bk_descriptor (the (regs.lookup slots' uid)) = d
       \<and> bk_backend (the (regs.lookup slots' uid)) = b \<and> bk_advertised (the (regs.lookup slots' uid)) = a)"
    using assms
  proof (cases rule: register_cases)
    case refused
    then show ?thesis using assms(1) by simp
  next
    case (taken k)
    let ?s = "registered_slot d uid b i p a fd relay (slots ! k)"
    have f: "bk_active ?s" "bk_uid ?s = uid" "bk_descriptor ?s = d" "bk_backend ?s = b" "bk_advertised ?s = a"
      by (simp_all add: registered_slot_def)
    note claim = regs.lookup_claim [OF keyed taken(2,3) f(1), unfolded f(2), OF taken(4)]
    have "slot_clean ?s"
      using assms(1) taken(2) by (intro registered_slot_clean) (simp add: registry_wf_def list_all_length)
    then show ?thesis
      using registry_wf_update [OF assms(1) taken(2) _ claim(1)] claim(2) taken(1,5) f by (simp add: fun_upd_idem)
  qed
  then show "registry_wf slots'"
    "regs.lookup slots' = (if ok then (regs.lookup slots)(uid \<mapsto> the (regs.lookup slots' uid)) else regs.lookup slots)"
    "ok \<Longrightarrow> regs.lookup slots' uid \<noteq> None \<and> bk_descriptor (the (regs.lookup slots' uid)) = d
       \<and> bk_backend (the (regs.lookup slots' uid)) = b \<and> bk_advertised (the (regs.lookup slots' uid)) = a" by auto
qed

lemma unregister_cases:
  assumes wf: "registry_wf slots" and u: "unregister_backend uid d slots = (slots', actions)"
  obtains (absent) "slots' = slots" "actions = []" "\<not> (\<exists>slot. regs.lookup slots uid = Some slot \<and> bk_descriptor slot = d)"
  | (removed) k where "k < length slots" "bk_active (slots ! k)" "bk_uid (slots ! k) = uid" "bk_descriptor (slots ! k) = d"
      "slots' = slots[k := backend_blank]" "actions = retire_actions (slots ! k)" "regs.lookup slots uid = Some (slots ! k)"
proof (cases "first_index (\<lambda>slot. bk_active slot \<and> bk_uid slot = uid \<and> bk_descriptor slot = d) slots")
  case None
  have "\<not> (\<exists>slot. regs.lookup slots uid = Some slot \<and> bk_descriptor slot = d)"
    using first_index_None [THEN iffD1, OF None] regs.lookup_found [of slots uid] by blast
  moreover have "slots' = slots" "actions = []" using u None by (simp_all add: unregister_backend_def)
  ultimately show ?thesis using absent by metis
next
  case (Some k)
  note D = first_index_SomeD [OF Some]
  have "regs.keyed slots" using wf by (simp add: registry_wf_def)
  from regs.lookup_nth [OF this D(1)] D(2) show ?thesis
    using u Some D removed by (simp add: unregister_backend_def)
qed

lemma unregister_wf:
  assumes "registry_wf slots" "unregister_backend uid d slots = (slots', actions)"
  shows "registry_wf slots'"
    "regs.lookup slots' = (case regs.lookup slots uid of
        Some slot \<Rightarrow> if bk_descriptor slot = d then (regs.lookup slots)(uid := None) else regs.lookup slots
      | None \<Rightarrow> regs.lookup slots)"
proof -
  have keyed: "regs.keyed slots" using assms(1) by (simp add: registry_wf_def)
  have "registry_wf slots' \<and> regs.lookup slots' = (case regs.lookup slots uid of
        Some slot \<Rightarrow> if bk_descriptor slot = d then (regs.lookup slots)(uid := None) else regs.lookup slots
      | None \<Rightarrow> regs.lookup slots)"
    using assms
  proof (cases rule: unregister_cases)
    case absent
    then show ?thesis using assms(1) by (auto split: option.splits)
  next
    case (removed k)
    note free = regs.lookup_free [OF keyed removed(1,2)]
    show ?thesis
      using registry_wf_update [OF assms(1) removed(1) backend_blank_clean free(1)] free(2) removed by simp
  qed
  then show "registry_wf slots'"
    "regs.lookup slots' = (case regs.lookup slots uid of
        Some slot \<Rightarrow> if bk_descriptor slot = d then (regs.lookup slots)(uid := None) else regs.lookup slots
      | None \<Rightarrow> regs.lookup slots)" by auto
qed

section \<open>Relays and descriptors the table owns\<close>

definition slot_relays :: "backend_slot \<Rightarrow> relay list" where
  "slot_relays slot = (case bk_relay slot of None \<Rightarrow> [] | Some r \<Rightarrow> [r]) @ List.map_filter id (bk_display_relay slot)"

definition table_relays :: "backend_slot list \<Rightarrow> relay multiset" where
  "table_relays slots = sum_list (map (\<lambda>slot. mset (slot_relays slot)) slots)"

definition retired :: "relay_action list \<Rightarrow> relay multiset" where
  "retired actions = mset (List.map_filter (\<lambda>a. case a of Relay_Retire r \<Rightarrow> Some r | _ \<Rightarrow> None) actions)"

lemma sum_mset_update:
  fixes f :: "'a \<Rightarrow> 'b multiset"
  shows "k < length xs \<Longrightarrow> sum_list (map f (xs[k := x])) + f (xs ! k) = sum_list (map f xs) + f x"
proof (induction xs arbitrary: k)
  case Nil
  then show ?case by simp
next
  case (Cons y ys)
  then show ?case by (cases k) (auto simp: ac_simps)
qed

lemmas table_relays_update = sum_mset_update [where f = "\<lambda>slot. mset (slot_relays slot)", folded table_relays_def]

lemma retired_append [simp]: "retired (a @ b) = retired a + retired b"
  by (simp add: retired_def List.map_filter_def)

lemma retired_Cons [simp]:
  "retired (a # b) = (case a of Relay_Retire r \<Rightarrow> {#r#} | _ \<Rightarrow> {#}) + retired b" "retired [] = {#}"
  by (auto simp: retired_def List.map_filter_def split: relay_action.splits)

lemma retired_retire_actions: "retired (retire_actions slot) = mset (slot_relays slot)"
proof -
  have "retired (List.map_filter (map_option Relay_Retire) rs) = mset (List.map_filter id rs)" for rs
  proof (induction rs)
    case (Cons a rs)
    then show ?case by (cases a) (simp_all add: retired_def List.map_filter_def)
  qed (simp add: retired_def List.map_filter_def)
  then show ?thesis by (auto simp: retire_actions_def slot_relays_def split: option.splits)
qed

lemma slot_relays_blank [simp]: "slot_relays backend_blank = []"
  by (simp add: slot_relays_def backend_blank_def List.map_filter_def)

lemma slot_relays_registered:
  "slot_clean slot \<Longrightarrow> \<not> bk_active slot \<Longrightarrow> slot_relays slot = [] \<and>
     slot_relays (registered_slot d uid b i p a fd relay slot) = (if fd \<ge> 0 then case relay of None \<Rightarrow> [] | Some r \<Rightarrow> [r] else [])"
  by (auto simp: slot_clean_def slot_relays_def registered_slot_def List.map_filter_def split: option.splits)

lemma mset_clear_lanes:
  "length (bk_display_relay slot) = 2 \<Longrightarrow> Some r \<in> set (bk_display_relay slot) \<Longrightarrow> distinct (slot_relays slot) \<Longrightarrow>
     mset (slot_relays slot) = mset (slot_relays (clear_lanes r slot)) + {#r#}"
  by (cases "bk_display_relay slot"; cases "tl (bk_display_relay slot)")
    (auto simp: slot_relays_def clear_lanes_def List.map_filter_def split: option.splits if_splits)

lemma slot_relays_install:
  assumes "slot_clean slot" "lane < 2" "bk_display_relay slot ! lane = None"
  shows "mset (slot_relays (slot\<lparr>bk_display_relay := (bk_display_relay slot)[lane := Some r],
             bk_display_uid := us, bk_display_gid := gs\<rparr>)) = mset (slot_relays slot) + {#r#}"
proof -
  obtain a b where ab: "bk_display_relay slot = [a, b]"
    using assms(1) by (auto simp: slot_clean_def length_Suc_conv numeral_2_eq_2)
  show ?thesis
    using assms(2,3) ab by (auto simp: slot_relays_def List.map_filter_def less_2_cases_iff split: option.splits)
qed

section \<open>Every history of the table\<close>

text \<open>
  The table with every relay handed to it so far and every relay retired. Each critical
  section of the authority that writes the table is a step; a relay handed over is a new
  one, and the slot and lane of an installed display worker are whatever the lookup
  before it returned.
\<close>

inductive registry_step ::
  "backend_slot list \<times> relay multiset \<times> relay multiset \<Rightarrow> backend_slot list \<times> relay multiset \<times> relay multiset \<Rightarrow> bool" where
  register: "register_backend d uid b i p a fd relay slots = (ok, slots') \<Longrightarrow> (\<And>r. relay = Some r \<Longrightarrow> r \<notin># created) \<Longrightarrow>
     registry_step (slots, created, gone)
       (slots', created + (if ok \<and> fd \<ge> 0 then case relay of None \<Rightarrow> {#} | Some r \<Rightarrow> {#r#} else {#}), gone)"
| unregister: "unregister_backend uid d slots = (slots', actions) \<Longrightarrow>
     registry_step (slots, created, gone) (slots', created, gone + retired actions)"
| forget: "forget_display_relay identity relay slots = (slots', actions) \<Longrightarrow>
     registry_step (slots, created, gone) (slots', created, gone + retired actions)"
| install: "display_relay_install identity gid lane index registration relay slots = (found, slots', actions) \<Longrightarrow>
     lane < 2 \<Longrightarrow> index < KSD_MAX_BACKEND_REGISTRATIONS \<Longrightarrow> relay \<notin># created \<Longrightarrow>
     registry_step (slots, created, gone) (slots', created + {#relay#}, gone + retired actions)"

inductive registry_reachable :: "backend_slot list \<Rightarrow> relay multiset \<Rightarrow> relay multiset \<Rightarrow> bool" where
  start: "registry_reachable backends_zero {#} {#}"
| step: "registry_reachable slots created gone \<Longrightarrow> registry_step (slots, created, gone) (slots', created', gone') \<Longrightarrow>
     registry_reachable slots' created' gone'"

definition registry_inv :: "backend_slot list \<Rightarrow> relay multiset \<Rightarrow> relay multiset \<Rightarrow> bool" where
  "registry_inv slots created gone \<longleftrightarrow>
     registry_wf slots \<and> table_relays slots + gone = created \<and> (\<forall>r. count created r \<le> 1)"

lemma registry_wf_zero: "registry_wf backends_zero" "table_relays backends_zero = {#}"
proof -
  let ?z = "backend_blank\<lparr>bk_descriptor := 0, bk_provider_fd := 0\<rparr>"
  have z: "\<not> bk_active ?z" "slot_clean ?z" "slot_relays ?z = []"
    by (simp_all add: backend_blank_def slot_clean_def slot_relays_def List.map_filter_def)
  have empty: "sum_list (replicate n ({#} :: relay multiset)) = {#}" for n
    by (induction n) simp_all
  show "registry_wf backends_zero"
    using z by (simp add: registry_wf_def backends_zero_def regs.keyed_def list_all_length)
  show "table_relays backends_zero = {#}"
    using z empty [of KSD_MAX_BACKEND_REGISTRATIONS] by (simp add: table_relays_def backends_zero_def)
qed

lemma slot_in_wf: "registry_wf slots \<Longrightarrow> k < length slots \<Longrightarrow> slot_clean (slots ! k)"
  by (simp add: registry_wf_def list_all_length)

lemma table_relays_slot: "k < length slots \<Longrightarrow> mset (slot_relays (slots ! k)) \<subseteq># table_relays slots"
  using table_relays_update [of k slots backend_blank] by (metis mset_subset_eq_add_right slot_relays_blank mset.simps(1) add.right_neutral)

lemma registry_inv_distinct:
  assumes "registry_inv slots created gone" "k < length slots"
  shows "distinct (slot_relays (slots ! k))"
proof -
  have "count (mset (slot_relays (slots ! k))) r \<le> 1" for r
    using mset_subset_eq_count [OF table_relays_slot [OF assms(2)], of r] assms(1)
    by (auto simp: registry_inv_def) (metis add_leD1 count_union le_trans)
  then show ?thesis by (auto simp: distinct_count_atmost_1 le_Suc_eq count_mset_0_iff)
qed

lemma lanes_update_wf:
  assumes "registry_wf slots" "k < length slots" "bk_active (slots ! k)"
    "bk_active slot" "bk_uid slot = bk_uid (slots ! k)" "slot_clean slot"
  shows "registry_wf (slots[k := slot])" "regs.lookup (slots[k := slot]) = (regs.lookup slots)(bk_uid (slots ! k) \<mapsto> slot)"
  using regs.lookup_rewrite [of slots k slot] registry_wf_update [OF assms(1,2,6)] assms
  by (auto simp: registry_wf_def)

lemma forget_cases:
  assumes "registry_wf slots" "forget_display_relay identity relay slots = (slots', actions)"
  obtains (absent) "slots' = slots" "actions = []"
  | (found) k where "k < length slots" "bk_active (slots ! k)" "Some relay \<in> set (bk_display_relay (slots ! k))"
      "slots' = slots[k := clear_lanes relay (slots ! k)]" "actions = [Relay_Retire relay]"
proof (cases "first_index (\<lambda>slot. bk_active slot \<and> bk_uid slot = id_uid identity \<and> Some relay \<in> set (bk_display_relay slot)) slots")
  case None
  with assms(2) have "slots' = slots" "actions = []" by (simp_all add: forget_display_relay_def)
  then show ?thesis by (rule absent)
next
  case (Some k)
  with assms(2) have "slots' = slots[k := clear_lanes relay (slots ! k)]" "actions = [Relay_Retire relay]"
    by (simp_all add: forget_display_relay_def)
  with first_index_SomeD [OF Some] found show ?thesis by blast
qed

lemma clear_lanes_fields [simp]:
  "bk_active (clear_lanes r slot) = bk_active slot" "bk_uid (clear_lanes r slot) = bk_uid slot"
  "slot_clean slot \<Longrightarrow> bk_active slot \<Longrightarrow> slot_clean (clear_lanes r slot)"
  by (simp_all add: clear_lanes_def slot_clean_def)

lemma registry_inv_step:
  assumes "registry_step (slots, created, gone) (slots', created', gone')" "registry_inv slots created gone"
  shows "registry_inv slots' created' gone'"
  using assms(1)
proof cases
  case (register d uid b i p a fd relay ok)
  have wf: "registry_wf slots" using assms(2) by (simp add: registry_inv_def)
  note wf' = register_wf(1) [OF wf register(3)]
  from wf register(3) show ?thesis
  proof (cases rule: register_cases)
    case refused
    then show ?thesis using assms(2) register by (simp add: registry_inv_def)
  next
    case (taken k)
    note rel = slot_relays_registered [OF slot_in_wf [OF wf taken(2)] taken(3)]
    have "table_relays slots' = table_relays slots + mset (if fd \<ge> 0 then case relay of None \<Rightarrow> [] | Some r \<Rightarrow> [r] else [])"
      using table_relays_update [OF taken(2), of "registered_slot d uid b i p a fd relay (slots ! k)"] rel taken(5) by simp
    then show ?thesis
      using assms(2) wf' register taken(1) by (auto simp: registry_inv_def not_in_iff split: option.splits)
  qed
next
  case (unregister uid d actions)
  have wf: "registry_wf slots" using assms(2) by (simp add: registry_inv_def)
  note wf' = unregister_wf(1) [OF wf unregister(3)]
  from wf unregister(3) show ?thesis
  proof (cases rule: unregister_cases)
    case absent
    then show ?thesis using assms(2) unregister by (simp add: registry_inv_def)
  next
    case (removed k)
    then show ?thesis
      using table_relays_update [OF removed(1), of backend_blank] assms(2) wf' unregister
      by (auto simp: registry_inv_def retired_retire_actions ac_simps)
  qed
next
  case (forget identity relay actions)
  have wf: "registry_wf slots" using assms(2) by (simp add: registry_inv_def)
  from wf forget(3) show ?thesis
  proof (cases rule: forget_cases)
    case absent
    then show ?thesis using assms(2) forget by (simp add: registry_inv_def)
  next
    case (found k)
    note clean = slot_in_wf [OF wf found(1)]
    have "mset (slot_relays (slots ! k)) = mset (slot_relays (clear_lanes relay (slots ! k))) + {#relay#}"
      using clean found(3) registry_inv_distinct [OF assms(2) found(1)] by (intro mset_clear_lanes) (simp_all add: slot_clean_def)
    then have "table_relays slots' + {#relay#} = table_relays slots"
      using table_relays_update [OF found(1), of "clear_lanes relay (slots ! k)"] found(4) by simp
    moreover have "registry_wf slots'"
      using lanes_update_wf(1) [OF wf found(1,2), of "clear_lanes relay (slots ! k)"] found clean by simp
    ultimately show ?thesis using assms(2) forget found(5) by (auto simp: registry_inv_def ac_simps)
  qed
next
  case (install identity gid lane index registration relay found actions)
  have wf: "registry_wf slots" using assms(2) by (simp add: registry_inv_def)
  then have k: "index < length slots" using install by (simp add: registry_wf_def)
  have fresh: "\<forall>r. count (created + {#relay#}) r \<le> 1"
    using assms(2) install by (auto simp: registry_inv_def not_in_iff)
  show ?thesis
  proof (cases "bk_active (slots ! index) \<and> bk_display_relay (slots ! index) ! lane = None \<and> actions = [Relay_Acquire relay]")
    case False
    then have "slots' = slots" "retired actions = {#relay#}"
      using install by (auto simp: display_relay_install_def Let_def split: if_splits option.splits)
    then show ?thesis using assms(2) install fresh by (auto simp: registry_inv_def)
  next
    case True
    let ?s = "(slots ! index)\<lparr>bk_display_relay := (bk_display_relay (slots ! index))[lane := Some relay],
             bk_display_uid := (bk_display_uid (slots ! index))[lane := id_uid identity],
             bk_display_gid := (bk_display_gid (slots ! index))[lane := gid]\<rparr>"
    have s': "slots' = slots[index := ?s]" "retired actions = {#}"
      using install True by (auto simp: display_relay_install_def Let_def split: if_splits option.splits)
    note clean = slot_in_wf [OF wf k]
    have "slot_clean ?s" using clean True by (simp add: slot_clean_def)
    then have "registry_wf slots'"
      using lanes_update_wf(1) [OF wf k, of ?s] True s'(1) by simp
    moreover have "table_relays slots' = table_relays slots + {#relay#}"
      using table_relays_update [OF k, of ?s] slot_relays_install [OF clean, where lane = lane and r = relay] True install s'(1) by simp
    ultimately show ?thesis using assms(2) install fresh s'(2) by (auto simp: registry_inv_def)
  qed
qed

lemma registry_inv_reachable: "registry_reachable slots created gone \<Longrightarrow> registry_inv slots created gone"
  by (induction rule: registry_reachable.induct)
    (auto simp: registry_inv_def registry_wf_zero dest: registry_inv_step)

section \<open>The abstract registry\<close>

text \<open>
  What the table promises: at most one registration per user and 128 in all, kept until
  the daemon that made it goes away.
\<close>

record registration =
  rg_descriptor :: int
  rg_backend :: u32
  rg_advertised :: u64
  rg_identity :: ksp_identity
  rg_provider :: ksp_identity
  rg_relay :: "relay option"

definition slot_registration :: "backend_slot \<Rightarrow> registration" where
  "slot_registration slot = \<lparr>rg_descriptor = bk_descriptor slot, rg_backend = bk_backend slot,
     rg_advertised = bk_advertised slot, rg_identity = bk_identity slot,
     rg_provider = bk_provider_identity slot, rg_relay = bk_relay slot\<rparr>"

definition registry_abs :: "backend_slot list \<Rightarrow> u32 \<rightharpoonup> registration" where
  "registry_abs slots uid =
     map_option (\<lambda>k. slot_registration (slots ! k)) (first_index (\<lambda>slot. bk_active slot \<and> bk_uid slot = uid) slots)"

definition spec_register :: "u32 \<Rightarrow> registration \<Rightarrow> (u32 \<rightharpoonup> registration) \<Rightarrow> bool \<times> (u32 \<rightharpoonup> registration)" where
  "spec_register uid r m =
     (if uid \<in> dom m \<or> card (dom m) \<ge> KSD_MAX_BACKEND_REGISTRATIONS then (False, m) else (True, m(uid \<mapsto> r)))"

definition spec_unregister :: "u32 \<Rightarrow> int \<Rightarrow> (u32 \<rightharpoonup> registration) \<Rightarrow> (u32 \<rightharpoonup> registration)" where
  "spec_unregister uid descriptor m =
     (case m uid of Some r \<Rightarrow> if rg_descriptor r = descriptor then m(uid := None) else m | None \<Rightarrow> m)"

lemma registry_abs_lookup: "registry_abs slots uid = map_option slot_registration (regs.lookup slots uid)"
  by (simp add: registry_abs_def regs.lookup_def option.map_comp comp_def)

lemma dom_registry_abs: "dom (registry_abs slots) = dom (regs.lookup slots)"
  by (auto simp: registry_abs_lookup)

lemma registry_abs_card:
  "registry_wf slots \<Longrightarrow> card (dom (registry_abs slots)) = length (filter bk_active slots)"
  using regs.card_dom [of slots] by (simp add: dom_registry_abs registry_wf_def)

lemma registry_abs_update:
  "regs.lookup slots' = (regs.lookup slots)(uid \<mapsto> slot) \<Longrightarrow>
     registry_abs slots' = (registry_abs slots)(uid \<mapsto> slot_registration slot)"
  by (auto simp: registry_abs_lookup fun_eq_iff)

lemma slot_registration_registered:
  "slot_registration (registered_slot d uid b i p a fd relay slot) =
     \<lparr>rg_descriptor = d, rg_backend = b, rg_advertised = a, rg_identity = i,
      rg_provider = (case p of None \<Rightarrow> identity_zero | Some q \<Rightarrow> q), rg_relay = (if fd \<ge> 0 then relay else None)\<rparr>"
  by (simp add: slot_registration_def registered_slot_def)

lemma register_refines:
  assumes wf: "registry_wf slots" and r: "register_backend d uid b i p a fd relay slots = (ok, slots')"
  shows "spec_register uid \<lparr>rg_descriptor = d, rg_backend = b, rg_advertised = a, rg_identity = i,
      rg_provider = (case p of None \<Rightarrow> identity_zero | Some q \<Rightarrow> q), rg_relay = (if fd \<ge> 0 then relay else None)\<rparr>
      (registry_abs slots) = (ok, registry_abs slots')"
  using wf r
proof (cases rule: register_cases)
  case refused
  have "length (filter bk_active slots) = KSD_MAX_BACKEND_REGISTRATIONS" if "list_all bk_active slots"
    using that wf by (metis registry_wf_def filter_True list_all_iff)
  then show ?thesis
    using refused registry_abs_card [OF wf] by (auto simp: spec_register_def dom_registry_abs)
next
  case (taken k)
  let ?s = "registered_slot d uid b i p a fd relay (slots ! k)"
  have kd: "regs.keyed slots" using wf by (simp add: registry_wf_def)
  have f: "bk_active ?s" "bk_uid ?s = uid" by (simp_all add: registered_slot_def)
  note claim = regs.lookup_claim(2) [OF kd taken(2,3) f(1), unfolded f(2), OF taken(4)]
  have "length (filter bk_active slots) < length slots"
    using taken(2,3) length_filter_less [of "slots ! k" slots bk_active] by simp
  then have "card (dom (registry_abs slots)) < KSD_MAX_BACKEND_REGISTRATIONS"
    using registry_abs_card [OF wf] wf by (simp add: registry_wf_def)
  then show ?thesis
    using taken registry_abs_update [OF claim]
    by (auto simp: spec_register_def registry_abs_lookup slot_registration_registered dom_def)
qed

lemma unregister_refines:
  assumes wf: "registry_wf slots" and u: "unregister_backend uid d slots = (slots', actions)"
  shows "registry_abs slots' = spec_unregister uid d (registry_abs slots)"
  using unregister_wf(2) [OF wf u]
  by (cases "regs.lookup slots uid")
    (auto simp: registry_abs_lookup spec_unregister_def slot_registration_def fun_eq_iff)

lemma snapshot_refines:
  "fst (snd (take_backend_snapshot slots uid)) =
     (case registry_abs slots uid of
        None \<Rightarrow> \<lparr>sn_uid = uid, sn_descriptor = -1, sn_backend = 0, sn_advertised = 0, sn_identity = identity_zero,
                 sn_provider_identity = identity_zero, sn_relay = None\<rparr>
      | Some r \<Rightarrow> \<lparr>sn_uid = uid, sn_descriptor = rg_descriptor r, sn_backend = rg_backend r,
                 sn_advertised = rg_advertised r, sn_identity = rg_identity r,
                 sn_provider_identity = rg_provider r, sn_relay = rg_relay r\<rparr>)"
  "fst (take_backend_snapshot slots uid) \<longleftrightarrow> registry_abs slots uid \<noteq> None"
  by (cases "first_index (\<lambda>slot. bk_active slot \<and> bk_uid slot = uid) slots",
      simp_all add: take_backend_snapshot_def registry_abs_def slot_registration_def Let_def)+

section \<open>Properties of the registry\<close>

text \<open>A table with one registration, for the examples.\<close>

lemma sample_registry:
  "registry_reachable (snd (register_backend 5 1000 1 identity_zero None 7 3 (Some 9) backends_zero)) {#9#} {#}"
  "dom (registry_abs (snd (register_backend 5 1000 1 identity_zero None 7 3 (Some 9) backends_zero))) = {1000}"
proof -
  have empty: "registry_abs backends_zero = Map.empty"
    by (auto simp: registry_abs_def backends_zero_def first_index_None fun_eq_iff backend_blank_def)
  define r where "r = register_backend 5 1000 1 identity_zero None 7 3 (Some 9) backends_zero"
  have spec: "spec_register 1000 \<lparr>rg_descriptor = 5, rg_backend = 1, rg_advertised = 7, rg_identity = identity_zero,
      rg_provider = identity_zero, rg_relay = Some 9\<rparr> Map.empty = (fst r, registry_abs (snd r))"
    using register_refines [OF registry_wf_zero(1), of 5 1000 1 identity_zero None 7 3 "Some 9" "fst r" "snd r"]
    by (simp add: r_def empty)
  then have ok: "fst r" and "registry_abs (snd r) = [1000 \<mapsto> \<lparr>rg_descriptor = 5, rg_backend = 1, rg_advertised = 7,
      rg_identity = identity_zero, rg_provider = identity_zero, rg_relay = Some 9\<rparr>]"
    by (simp_all add: spec_register_def wire_defs)
  then show "dom (registry_abs (snd (register_backend 5 1000 1 identity_zero None 7 3 (Some 9) backends_zero))) = {1000}"
    by (simp add: r_def)
  have "registry_step (backends_zero, {#}, {#})
      (snd r, {#} + (if fst r \<and> (3::int) \<ge> 0 then case Some 9 of None \<Rightarrow> {#} | Some q \<Rightarrow> {#q#} else {#}), {#})"
    by (rule registry_step.register) (auto simp: r_def)
  then show "registry_reachable (snd (register_backend 5 1000 1 identity_zero None 7 3 (Some 9) backends_zero)) {#9#} {#}"
    using ok registry_reachable.step [OF registry_reachable.start, of "snd r" "{#9#}" "{#}"] by (simp add: r_def)
qed

text \<open>
  C18: In every table the authority can reach, registering and unregistering are the
  operations of the abstract registry: a user is admitted exactly when not yet registered
  and fewer than 128 users are, an unregistration removes exactly the registration made
  on that socket, and a snapshot is a copy of the whole registration of the user, or the blank one
  when there is none.
\<close>

theorem registry_refines_map:
  assumes "registry_reachable slots created gone"
  shows "(let (ok, slots') = register_backend d uid b i p a fd relay slots
          in spec_register uid \<lparr>rg_descriptor = d, rg_backend = b, rg_advertised = a, rg_identity = i,
               rg_provider = (case p of None \<Rightarrow> identity_zero | Some q \<Rightarrow> q), rg_relay = (if fd \<ge> 0 then relay else None)\<rparr>
               (registry_abs slots) = (ok, registry_abs slots'))
       \<and> registry_abs (fst (unregister_backend uid d slots)) = spec_unregister uid d (registry_abs slots)
       \<and> fst (take_backend_snapshot slots uid) = (registry_abs slots uid \<noteq> None)
       \<and> fst (snd (take_backend_snapshot slots uid)) = (case registry_abs slots uid of
            None \<Rightarrow> \<lparr>sn_uid = uid, sn_descriptor = -1, sn_backend = 0, sn_advertised = 0, sn_identity = identity_zero,
                     sn_provider_identity = identity_zero, sn_relay = None\<rparr>
          | Some r \<Rightarrow> \<lparr>sn_uid = uid, sn_descriptor = rg_descriptor r, sn_backend = rg_backend r,
                     sn_advertised = rg_advertised r, sn_identity = rg_identity r,
                     sn_provider_identity = rg_provider r, sn_relay = rg_relay r\<rparr>)"
proof -
  have wf: "registry_wf slots" using registry_inv_reachable [OF assms] by (simp add: registry_inv_def)
  show ?thesis
    using register_refines [OF wf surjective_pairing] unregister_refines [OF wf surjective_pairing]
    by (simp add: snapshot_refines split_def)
qed

theorem registry_refines_map_witness:
  "let slots = snd (register_backend 5 1000 1 identity_zero None 7 3 (Some 9) backends_zero)
   in registry_reachable slots {#9#} {#} \<and> dom (registry_abs slots) = {1000}
      \<and> registry_abs (fst (unregister_backend 1000 5 slots)) = spec_unregister 1000 5 (registry_abs slots)
      \<and> (\<exists>r. registry_abs slots 1000 = Some r \<and> sn_backend (fst (snd (take_backend_snapshot slots 1000))) = rg_backend r
           \<and> sn_relay (fst (snd (take_backend_snapshot slots 1000))) = rg_relay r)"
proof -
  obtain r where "registry_abs (snd (register_backend 5 1000 1 identity_zero None 7 3 (Some 9) backends_zero)) 1000 = Some r"
    using sample_registry(2) by (metis domD insertI1)
  then show ?thesis
    using registry_refines_map [OF sample_registry(1), where uid = 1000 and d = 5] sample_registry
    by (simp add: Let_def)
qed

text \<open>
  C20: Every relay handed to the table is, at any moment, either held by exactly one
  place of the table or retired exactly once: nothing is retired twice, none is lost, and
  no two slots or lanes share one.
\<close>

theorem registry_relays_owned:
  assumes "registry_reachable slots created gone"
  shows "table_relays slots + gone = created \<and> (\<forall>r. count created r \<le> 1)
    \<and> (\<forall>uid d. table_relays (fst (unregister_backend uid d slots)) + retired (snd (unregister_backend uid d slots))
         = table_relays slots)"
proof -
  have inv: "registry_inv slots created gone" using registry_inv_reachable [OF assms] .
  have "table_relays (fst (unregister_backend uid d slots)) + retired (snd (unregister_backend uid d slots))
         = table_relays slots" for uid d
    using registry_inv_step [OF registry_step.unregister [OF surjective_pairing] inv, of uid d] inv
    by (auto simp: registry_inv_def ac_simps)
  then show ?thesis using inv by (simp add: registry_inv_def)
qed

theorem registry_relays_owned_witness:
  "let slots = snd (register_backend 5 1000 1 identity_zero None 7 3 (Some 9) backends_zero)
   in registry_reachable slots {#9#} {#} \<and> table_relays slots + {#} = {#9#}"
  using registry_relays_owned [OF sample_registry(1)] sample_registry(1) by (simp add: Let_def)

lemma check_registration_trusted:
  assumes "check_registration f received fd = Inr (backend, advertised, identity, provider)"
  shows "trusted_backend_peer f backend = Some identity"
    "advertised AND ksd_backend_operations backend = advertised"
    "needs_provider backend = (provider \<noteq> None)"
    "case provider of None \<Rightarrow> True | Some p \<Rightarrow> trusted_provider_process backend p (pf_provider_status f)"
    "fd \<ge> 0 \<Longrightarrow> backend = KSD_BACKEND_KWIN \<and> pf_fd_ok f"
  using assms
  by (cases "pf_provider f";
      auto simp: check_registration_def ksd_backend_registration_mask_def Let_def and.assoc
        split: option.splits if_splits)+

lemma trusted_peer_facts:
  assumes "trusted_backend_peer f backend = Some identity"
  obtains authority peer where "pf_uid f \<noteq> 0" "pf_self f = Some authority" "pf_peer f = Some peer"
    "st_dev authority = st_dev peer" "st_ino authority = st_ino peer" "\<not> st_shared_write authority"
    "backend = KSD_BACKEND_GENERIC \<or> ksd_backend_resolve_process (pf_session f) = backend"
    "backend = KSD_BACKEND_KWIN \<longrightarrow> ksd_session_is_wayland_process (pf_session f)"
proof -
  have "KSD_BACKEND_KWIN \<noteq> KSD_BACKEND_GENERIC" by (simp add: wire_defs)
  with assms that show thesis by (auto simp: trusted_backend_peer_def split: if_splits option.splits)
qed

text \<open>The ways a connection can go.\<close>

definition connection_registration ::
  "int \<Rightarrow> int \<Rightarrow> relay option \<Rightarrow> u32 \<Rightarrow> u64 \<Rightarrow> ksp_identity \<Rightarrow> ksp_identity option \<Rightarrow> registration" where
  "connection_registration descriptor fd relay backend advertised identity provider =
     \<lparr>rg_descriptor = descriptor, rg_backend = backend, rg_advertised = advertised, rg_identity = identity,
      rg_provider = (case provider of None \<Rightarrow> identity_zero | Some q \<Rightarrow> q), rg_relay = (if fd \<ge> 0 then relay else None)\<rparr>"

lemma registered_abs:
  assumes "registry_wf slots" "register_backend descriptor uid backend identity provider advertised fd relay slots = (True, mid)"
  shows "registry_abs mid = (registry_abs slots)(uid \<mapsto> connection_registration descriptor fd relay backend advertised identity provider)"
    "uid \<notin> dom (registry_abs slots)"
  using register_refines [OF assms] by (auto simp: spec_register_def connection_registration_def split: if_splits)

lemma connection_cases:
  assumes "handle_backend_connection now f received fd relay descriptor sent slots later = (kept, slots', ack, actions)"
  obtains (refused) "\<not> kept" "slots' = slots" "actions = (if now \<noteq> 0 \<and> fd \<ge> 0 then [Close_Fd fd] else [])"
  | (accepted) backend advertised identity provider where "kept" "ack = ksd_backend_ack_encode KSD_BACKEND_ACK_ACCEPTED backend advertised"
      "check_registration f received fd = Inr (backend, advertised, identity, provider)"
      "register_backend descriptor (pf_uid f) backend identity provider advertised fd relay slots = (True, slots')"
  | (lost) backend advertised identity provider mid where "\<not> kept" "\<not> sent"
      "check_registration f received fd = Inr (backend, advertised, identity, provider)"
      "register_backend descriptor (pf_uid f) backend identity provider advertised fd relay slots = (True, mid)"
      "unregister_backend (pf_uid f) descriptor later = (slots', actions)"
proof (cases "now = 0 \<or> (\<exists>e. check_registration f received fd = Inl e)")
  case True
  then have "(kept, slots', actions) = (False, slots, if now \<noteq> 0 \<and> fd \<ge> 0 then [Close_Fd fd] else [])"
    using assms by (cases "now = 0") (auto simp: handle_backend_connection_def)
  then show thesis by (intro refused) simp_all
next
  case False
  then obtain backend advertised identity provider where now: "now \<noteq> 0"
    and c: "check_registration f received fd = Inr (backend, advertised, identity, provider)"
    by (cases "check_registration f received fd") auto
  obtain ok mid where r: "register_backend descriptor (pf_uid f) backend identity provider advertised fd relay slots = (ok, mid)" by force
  consider "\<not> ok" | "ok" "sent" | "ok" "\<not> sent" by blast
  then show thesis
  proof cases
    case 1
    then show thesis using assms now c r by (intro refused) (simp_all add: handle_backend_connection_def)
  next
    case 2
    then show thesis using assms now c r by (intro accepted [OF _ _ c]) (simp_all add: handle_backend_connection_def Let_def)
  next
    case 3
    then show thesis using assms now c r
      by (intro lost [OF _ _ c, of mid]) (auto simp: handle_backend_connection_def Let_def split: prod.splits)
  qed
qed

text \<open>What the unregistration of a lost acknowledgement retires.\<close>

lemma unregister_retires:
  assumes "registry_inv slots created gone" "unregister_backend uid d slots = (slots', actions)"
    and "regs.lookup slots uid = Some slot" "bk_descriptor slot = d"
  shows "actions = retire_actions slot \<and> (\<forall>r. bk_relay slot = Some r \<longrightarrow> count (retired actions) r = 1)"
proof -
  have wf: "registry_wf slots" using assms(1) by (simp add: registry_inv_def)
  from wf assms(2) show ?thesis
  proof (cases rule: unregister_cases)
    case absent
    with assms(3,4) show ?thesis by blast
  next
    case (removed k)
    have "distinct (slot_relays slot)" using registry_inv_distinct [OF assms(1) removed(1)] removed(7) assms(3) by simp
    then have "count (mset (slot_relays slot)) r = 1" if "bk_relay slot = Some r" for r
      using that by (simp add: count_mset_0_iff slot_relays_def)
    then show ?thesis using removed(6,7) assms(3) by (simp add: retired_retire_actions)
  qed
qed

text \<open>
  C19: A session daemon that asks to register is kept only when it runs as an ordinary
  user from the very executable the authority runs, claims the generic backend or the one its
  session's environment names (for KWin, a Wayland session), advertises no operation beyond that backend's and,
  for a compositor with a provider, has a trusted compositor process; it then is the registration
  of its user, who had none. A daemon that is turned away leaves the table as it was,
  and a socket it handed over is closed. When the acknowledgement of a registration
  cannot be sent, the registration is taken out of the table the others have left by then, so that
  the registry is as before if they left it alone, and its relay is retired exactly once.
\<close>

theorem backend_connection_trusted:
  assumes "registry_reachable slots created gone" "registry_reachable later created' gone'"
    and "handle_backend_connection now f received fd relay descriptor sent slots later = (kept, slots', ack, actions)"
  shows "(kept \<longrightarrow> (\<exists>r authority peer. registry_abs slots' = (registry_abs slots)(pf_uid f \<mapsto> r) \<and> pf_uid f \<notin> dom (registry_abs slots)
            \<and> rg_descriptor r = descriptor
            \<and> pf_uid f \<noteq> 0 \<and> pf_self f = Some authority \<and> pf_peer f = Some peer
            \<and> st_dev authority = st_dev peer \<and> st_ino authority = st_ino peer \<and> \<not> st_shared_write authority
            \<and> (rg_backend r = KSD_BACKEND_GENERIC \<or> ksd_backend_resolve_process (pf_session f) = rg_backend r)
            \<and> (rg_backend r = KSD_BACKEND_KWIN \<longrightarrow> ksd_session_is_wayland_process (pf_session f))
            \<and> rg_advertised r AND ksd_backend_operations (rg_backend r) = rg_advertised r
            \<and> (needs_provider (rg_backend r) \<longrightarrow> trusted_provider_process (rg_backend r) (rg_provider r) (pf_provider_status f))
            \<and> ack = ksd_backend_ack_encode KSD_BACKEND_ACK_ACCEPTED (rg_backend r) (rg_advertised r)))
    \<and> (\<not> kept \<longrightarrow> slots' = slots \<and> actions = (if now \<noteq> 0 \<and> fd \<ge> 0 then [Close_Fd fd] else [])
         \<or> \<not> sent \<and> registry_abs slots' = spec_unregister (pf_uid f) descriptor (registry_abs later)
           \<and> (\<forall>r. registry_abs later = (registry_abs slots)(pf_uid f \<mapsto> r) \<and> rg_descriptor r = descriptor \<longrightarrow> registry_abs slots' = registry_abs slots)
           \<and> (\<forall>slot. regs.lookup later (pf_uid f) = Some slot \<and> bk_descriptor slot = descriptor \<longrightarrow>
                actions = retire_actions slot \<and> (\<forall>r. bk_relay slot = Some r \<longrightarrow> count (retired actions) r = 1)))"
proof -
  have wf: "registry_wf slots" and inv: "registry_inv later created' gone'"
    using registry_inv_reachable [OF assms(1)] registry_inv_reachable [OF assms(2)] by (simp_all add: registry_inv_def)
  from assms(3) show ?thesis
  proof (cases rule: connection_cases)
    case refused
    then show ?thesis by simp
  next
    case (accepted backend advertised identity provider)
    note t = check_registration_trusted [OF accepted(3)]
    let ?r = "connection_registration descriptor fd relay backend advertised identity provider"
    have provider: "needs_provider backend \<longrightarrow> trusted_provider_process backend (rg_provider ?r) (pf_provider_status f)"
      using t(3,4) by (auto simp: connection_registration_def split: option.splits)
    from t(1) obtain authority peer where "pf_uid f \<noteq> 0" "pf_self f = Some authority" "pf_peer f = Some peer"
      "st_dev authority = st_dev peer" "st_ino authority = st_ino peer" "\<not> st_shared_write authority"
      "backend = KSD_BACKEND_GENERIC \<or> ksd_backend_resolve_process (pf_session f) = backend"
      "backend = KSD_BACKEND_KWIN \<longrightarrow> ksd_session_is_wayland_process (pf_session f)" by (rule trusted_peer_facts)
    with registered_abs [OF wf accepted(4)] accepted(1,2) provider t(2) show ?thesis
      by (intro conjI impI exI [of _ ?r] exI [of _ authority] exI [of _ peer]) (simp_all add: connection_registration_def)
  next
    case (lost backend advertised identity provider mid)
    have out: "registry_abs slots' = spec_unregister (pf_uid f) descriptor (registry_abs later)"
      using unregister_refines [OF _ lost(5)] inv by (simp add: registry_inv_def)
    have "spec_unregister (pf_uid f) descriptor ((registry_abs slots)(pf_uid f \<mapsto> q)) = registry_abs slots" if "rg_descriptor q = descriptor" for q
      using that registered_abs(2) [OF wf lost(4)] by (auto simp: spec_unregister_def fun_eq_iff domIff)
    then have "\<forall>r. registry_abs later = (registry_abs slots)(pf_uid f \<mapsto> r) \<and> rg_descriptor r = descriptor \<longrightarrow> registry_abs slots' = registry_abs slots"
      using out by simp
    with out lost(1,2) unregister_retires [OF inv lost(5)] show ?thesis by blast
  qed
qed

text \<open>A daemon of an X11 session, for the example.\<close>

definition sample_peer :: peer_facts where
  "sample_peer = (let file = \<lparr>st_regular = True, st_uid = 0, st_shared_write = False, st_dev = 1, st_ino = 2\<rparr>
     in \<lparr>pf_uid = 1000, pf_pid = 42, pf_self = Some file, pf_peer = Some file, pf_owner = 0,
         pf_identity = Some identity_zero, pf_session = Some (facts_none\<lparr>sf_session_type_x11 := True\<rparr>), pf_fd_ok = False, pf_provider = None,
         pf_provider_status = None\<rparr>)"

definition sample_registration :: bytes where
  "sample_registration = ksd_backend_registration_magic @ ksd_encode_u16 KSD_BACKEND_REGISTRATION_VERSION @ ksd_encode_u16 0
     @ ksd_encode_u32 KSD_BACKEND_X11 @ replicate 20 0"

lemma sample_connection:
  "fst (handle_backend_connection 9 sample_peer (Some sample_registration) (-1) None 5 True backends_zero backends_zero)"
  "fst (snd (snd (handle_backend_connection 9 sample_peer (Some sample_registration) (-1) None 5 True backends_zero backends_zero)))
     = ksd_backend_ack_encode KSD_BACKEND_ACK_ACCEPTED KSD_BACKEND_X11 0"
  by code_simp+

theorem backend_connection_trusted_witness:
  "\<exists>slots' ack actions r. registry_abs slots' 1000 = Some r
     \<and> (rg_backend r = KSD_BACKEND_GENERIC \<or> ksd_backend_resolve_process (pf_session sample_peer) = rg_backend r)
     \<and> ack = ksd_backend_ack_encode KSD_BACKEND_ACK_ACCEPTED (rg_backend r) (rg_advertised r)
     \<and> ack = ksd_backend_ack_encode KSD_BACKEND_ACK_ACCEPTED KSD_BACKEND_X11 0
     \<and> handle_backend_connection 9 sample_peer (Some sample_registration) (-1) None 5 True backends_zero backends_zero = (True, slots', ack, actions)"
proof -
  obtain kept slots' ack actions where
    h: "handle_backend_connection 9 sample_peer (Some sample_registration) (-1) None 5 True backends_zero backends_zero = (kept, slots', ack, actions)"
    by (metis prod_cases4)
  have "kept" "ack = ksd_backend_ack_encode KSD_BACKEND_ACK_ACCEPTED KSD_BACKEND_X11 0" using sample_connection unfolding h by simp_all
  moreover have "pf_uid sample_peer = 1000" by (simp add: sample_peer_def Let_def)
  ultimately show ?thesis
    using backend_connection_trusted [OF registry_reachable.start registry_reachable.start h] h by auto
qed

section \<open>Whose credentials a display worker has\<close>

text \<open>
  A display worker found in the table is handed out only to a caller with the
  user and group it runs as, and a worker the caller started itself runs as the caller.
  The exception is the caller that loses the race to start one: it is handed the
  winner's worker whatever group that runs as.
\<close>

theorem display_relay_credentials:
  assumes "display_relay_for identity gid session_pid backend capture spawn created slots later = (Some r, slots', actions)"
  shows "let lane = (if capture then 1 else 0) in
    (\<exists>k. first_index (\<lambda>slot. bk_active slot \<and> bk_uid slot = id_uid identity \<and> bk_backend slot = backend
              \<and> id_pid (bk_identity slot) = session_pid) slots = Some k
        \<and> (bk_display_relay (slots ! k) ! lane = Some r \<and> bk_display_uid (slots ! k) ! lane = id_uid identity
              \<and> bk_display_gid (slots ! k) ! lane = gid
           \<or> bk_display_relay (slots ! k) ! lane = None
              \<and> same_identity (bk_identity (later ! k)) (bk_identity (slots ! k)) \<and> bk_uid (later ! k) = id_uid identity
              \<and> (created = Some r \<and> bk_display_relay (later ! k) ! lane = None
                 \<or> bk_display_relay (later ! k) ! lane = Some r)))"
  using assms
  by (auto simp: display_relay_for_def display_relay_lookup_def display_relay_install_def Let_def
      split: option.splits if_splits)

definition sample_slot :: "nat \<Rightarrow> u32 \<Rightarrow> backend_slot" where
  "sample_slot r gid = backend_blank\<lparr>bk_active := True, bk_uid := 1000, bk_descriptor := 5, bk_backend := KSD_BACKEND_X11,
     bk_identity := identity_zero\<lparr>id_uid := 1000, id_pid := 42\<rparr>,
     bk_display_relay := [if r = 0 then None else Some r, None], bk_display_uid := [1000, 0], bk_display_gid := [gid, 0]\<rparr>"

theorem display_relay_credentials_witness:
  "let caller = identity_zero\<lparr>id_uid := 1000, id_pid := 7\<rparr>; won = sample_slot 3 100 in
   display_relay_for caller 200 42 KSD_BACKEND_X11 False 9 (Some 4) [sample_slot 0 0] [won]
     = (Some 3, [won], [Relay_Acquire 3, Relay_Retire 4])
   \<and> bk_display_gid won ! 0 \<noteq> 200 \<and> bk_display_relay won ! 0 = Some 3"
proof -
  define caller where "caller = identity_zero\<lparr>id_uid := 1000, id_pid := 7\<rparr>"
  have run: "display_relay_for caller 200 42 KSD_BACKEND_X11 False 9 (Some 4) [sample_slot 0 0] [sample_slot 3 100]
     = (Some 3, [sample_slot 3 100], [Relay_Acquire 3, Relay_Retire 4])"
    unfolding caller_def by code_simp
  show ?thesis
    using display_relay_credentials [OF run] run by (simp add: Let_def caller_def [symmetric] sample_slot_def)
qed

end
