(* ===== verification/State_Wire.thy ===== *)
theory State_Wire
  imports Utf8 "HOL-Library.Monad_Syntax"
begin

text \<open>
  The state events a lease connection pushes and the window records in them
  (src/src/state_wire.c and the public header): the wire form in both directions and
  the JSON scanner that turns what a compositor reports into a window record.

  A \<open>ksd_string\<close> is the list of its bytes. \<open>alloc\<close> says whether an allocation succeeds.
  The size tags and the reserved words of the public structures, which the service only
  fills in, have no counterpart.
\<close>

section \<open>Events and windows\<close>

definition KSD_STATE_WINDOWS :: u32 where
  [wire_defs]: "KSD_STATE_WINDOWS = 1"

definition KSD_STATE_KEYBOARD :: u32 where
  [wire_defs]: "KSD_STATE_KEYBOARD = 2"

definition KSD_STATE_DISPLAYS :: u32 where
  [wire_defs]: "KSD_STATE_DISPLAYS = 4"

definition KSD_STATE_CLIPBOARD :: u32 where
  [wire_defs]: "KSD_STATE_CLIPBOARD = 8"

definition KSD_STATE_GRANTS :: u32 where
  [wire_defs]: "KSD_STATE_GRANTS = 16"

definition KSD_STATE_ALL :: u32 where
  [wire_defs]: "KSD_STATE_ALL = 31"

definition KSD_STATE_SNAPSHOT_BEGIN :: u32 where
  [wire_defs]: "KSD_STATE_SNAPSHOT_BEGIN = 1"

definition KSD_STATE_SNAPSHOT_ITEM :: u32 where
  [wire_defs]: "KSD_STATE_SNAPSHOT_ITEM = 2"

definition KSD_STATE_SNAPSHOT_END :: u32 where
  [wire_defs]: "KSD_STATE_SNAPSHOT_END = 3"

definition KSD_STATE_CREATE :: u32 where
  [wire_defs]: "KSD_STATE_CREATE = 4"

definition KSD_STATE_DESTROY :: u32 where
  [wire_defs]: "KSD_STATE_DESTROY = 5"

definition KSD_STATE_SHOW :: u32 where
  [wire_defs]: "KSD_STATE_SHOW = 6"

definition KSD_STATE_HIDE :: u32 where
  [wire_defs]: "KSD_STATE_HIDE = 7"

definition KSD_STATE_GEOMETRY :: u32 where
  [wire_defs]: "KSD_STATE_GEOMETRY = 8"

definition KSD_STATE_TITLE :: u32 where
  [wire_defs]: "KSD_STATE_TITLE = 9"

definition KSD_STATE_ACTIVE :: u32 where
  [wire_defs]: "KSD_STATE_ACTIVE = 10"

definition KSD_STATE_CHANGED :: u32 where
  [wire_defs]: "KSD_STATE_CHANGED = 11"

definition KSD_STATE_GRANT_CHANGED :: u32 where
  [wire_defs]: "KSD_STATE_GRANT_CHANGED = 12"

definition KSD_STATE_RESET :: u32 where
  [wire_defs]: "KSD_STATE_RESET = 13"

definition KSD_WINDOW_VISIBLE :: u32 where
  [wire_defs]: "KSD_WINDOW_VISIBLE = 1"

definition KSD_WINDOW_ACTIVE :: u32 where
  [wire_defs]: "KSD_WINDOW_ACTIVE = 2"

definition KSD_WINDOW_MINIMIZED :: u32 where
  [wire_defs]: "KSD_WINDOW_MINIMIZED = 4"

definition KSD_WINDOW_MAXIMIZED :: u32 where
  [wire_defs]: "KSD_WINDOW_MAXIMIZED = 8"

definition KSD_WINDOW_ABOVE :: u32 where
  [wire_defs]: "KSD_WINDOW_ABOVE = 16"

definition KSD_WINDOW_DECORATED :: u32 where
  [wire_defs]: "KSD_WINDOW_DECORATED = 32"

definition KSD_WINDOW_CURRENT_WORKSPACE :: u32 where
  [wire_defs]: "KSD_WINDOW_CURRENT_WORKSPACE = 64"

definition KSD_WINDOW_TOPLEVEL :: u32 where
  [wire_defs]: "KSD_WINDOW_TOPLEVEL = 128"

definition KSD_FIELD_ID :: u64 where
  [wire_defs]: "KSD_FIELD_ID = 1"

definition KSD_FIELD_TITLE :: u64 where
  [wire_defs]: "KSD_FIELD_TITLE = 2"

definition KSD_FIELD_APP_ID :: u64 where
  [wire_defs]: "KSD_FIELD_APP_ID = 4"

definition KSD_FIELD_PID :: u64 where
  [wire_defs]: "KSD_FIELD_PID = 8"

definition KSD_FIELD_FRAME :: u64 where
  [wire_defs]: "KSD_FIELD_FRAME = 16"

definition KSD_FIELD_CLIENT :: u64 where
  [wire_defs]: "KSD_FIELD_CLIENT = 32"

definition KSD_FIELD_VISIBLE :: u64 where
  [wire_defs]: "KSD_FIELD_VISIBLE = 64"

definition KSD_FIELD_ACTIVE :: u64 where
  [wire_defs]: "KSD_FIELD_ACTIVE = 128"

definition KSD_FIELD_MINIMIZED :: u64 where
  [wire_defs]: "KSD_FIELD_MINIMIZED = 256"

definition KSD_FIELD_MAXIMIZED :: u64 where
  [wire_defs]: "KSD_FIELD_MAXIMIZED = 512"

definition KSD_FIELD_ABOVE :: u64 where
  [wire_defs]: "KSD_FIELD_ABOVE = 1024"

definition KSD_FIELD_DECORATED :: u64 where
  [wire_defs]: "KSD_FIELD_DECORATED = 2048"

definition KSD_FIELD_TRANSPARENCY :: u64 where
  [wire_defs]: "KSD_FIELD_TRANSPARENCY = 4096"

definition KSD_FIELD_CURRENT_WORKSPACE :: u64 where
  [wire_defs]: "KSD_FIELD_CURRENT_WORKSPACE = 8192"

definition KSD_FIELD_CAPTURE_ID :: u64 where
  [wire_defs]: "KSD_FIELD_CAPTURE_ID = 16384"

definition KSD_FIELD_PARENT :: u64 where
  [wire_defs]: "KSD_FIELD_PARENT = 32768"

definition KSD_FIELD_SURFACE :: u64 where
  [wire_defs]: "KSD_FIELD_SURFACE = 65536"

definition KSD_FIELD_BUFFER :: u64 where
  [wire_defs]: "KSD_FIELD_BUFFER = 131072"

definition KSD_FIELD_COMPOSITOR_ID :: u64 where
  [wire_defs]: "KSD_FIELD_COMPOSITOR_ID = 262144"

definition KSD_FIELD_STACKING_ORDER :: u64 where
  [wire_defs]: "KSD_FIELD_STACKING_ORDER = 524288"

record ksd_window_record =
  w_flags :: u32
  w_valid_fields :: u64
  w_handle :: u64
  w_parent :: u64
  w_pid :: u32
  w_transparency :: u32
  w_frame_x :: i32
  w_frame_y :: i32
  w_frame_width :: u32
  w_frame_height :: u32
  w_client_x :: i32
  w_client_y :: i32
  w_client_width :: u32
  w_client_height :: u32
  w_surface_x :: i32
  w_surface_y :: i32
  w_surface_width :: u32
  w_surface_height :: u32
  w_buffer_width :: u32
  w_buffer_height :: u32
  w_title :: bytes
  w_app_id :: bytes
  w_capture_id :: bytes
  w_compositor_id :: bytes
  w_stacking_order :: u64

record ksd_state_event =
  ev_kind :: u32
  ev_domain :: u32
  ev_epoch :: u64
  ev_sequence :: u64
  ev_window :: ksd_window_record
  ev_data :: bytes
  ev_granted_scopes :: u32
  ev_revoked_scopes :: u32

definition ksd_window_record_init :: ksd_window_record where
  "ksd_window_record_init = \<lparr>w_flags = 0, w_valid_fields = 0, w_handle = 0, w_parent = 0, w_pid = 0,
     w_transparency = 0, w_frame_x = 0, w_frame_y = 0, w_frame_width = 0, w_frame_height = 0,
     w_client_x = 0, w_client_y = 0, w_client_width = 0, w_client_height = 0,
     w_surface_x = 0, w_surface_y = 0, w_surface_width = 0, w_surface_height = 0,
     w_buffer_width = 0, w_buffer_height = 0, w_title = [], w_app_id = [], w_capture_id = [],
     w_compositor_id = [], w_stacking_order = 0\<rparr>"

definition ksd_state_event_init :: ksd_state_event where
  "ksd_state_event_init = \<lparr>ev_kind = 0, ev_domain = 0, ev_epoch = 0, ev_sequence = 0,
     ev_window = ksd_window_record_init, ev_data = [], ev_granted_scopes = 0, ev_revoked_scopes = 0\<rparr>"

text \<open>The fourteen geometry words that the source reads and writes as one array.\<close>

definition window_values :: "ksd_window_record \<Rightarrow> u32 list" where
  "window_values w = [w_frame_x w, w_frame_y w, w_frame_width w, w_frame_height w,
     w_client_x w, w_client_y w, w_client_width w, w_client_height w,
     w_surface_x w, w_surface_y w, w_surface_width w, w_surface_height w, w_buffer_width w, w_buffer_height w]"

definition set_window_values :: "u32 list \<Rightarrow> ksd_window_record \<Rightarrow> ksd_window_record" where
  "set_window_values v w = w\<lparr>w_frame_x := v ! 0, w_frame_y := v ! 1, w_frame_width := v ! 2, w_frame_height := v ! 3,
     w_client_x := v ! 4, w_client_y := v ! 5, w_client_width := v ! 6, w_client_height := v ! 7,
     w_surface_x := v ! 8, w_surface_y := v ! 9, w_surface_width := v ! 10, w_surface_height := v ! 11,
     w_buffer_width := v ! 12, w_buffer_height := v ! 13\<rparr>"

section \<open>The wire form\<close>

definition encode_text :: "(nat \<Rightarrow> bool) \<Rightarrow> bytes \<Rightarrow> ksd_buffer \<Rightarrow> bool \<times> ksd_buffer" where
  "encode_text alloc s out =
     (if length s \<le> KSD_MAX_TEXT_BYTES
      then and_then (ksd_buffer_u32 alloc (of_nat (length s)) out) (ksd_buffer_bytes alloc s)
      else (False, out))"

definition decode_text :: "(nat \<Rightarrow> bool) \<Rightarrow> ksd_cursor \<Rightarrow> (bytes \<times> ksd_cursor) option" where
  "decode_text alloc c = do {
     (len, c) \<leftarrow> ksd_cursor_u32 c;
     if unat len > KSD_MAX_TEXT_BYTES then None else do {
       (data, c) \<leftarrow> ksd_cursor_bytes (unat len) c;
       if \<not> ksd_utf8_valid data False then None
       else if len = 0 then Some ([], c)
       else if alloc (unat len + 1) then Some (data, c) else None }}"

definition ksd_state_event_encode ::
  "(nat \<Rightarrow> bool) \<Rightarrow> ksd_state_event \<Rightarrow> ksd_buffer \<Rightarrow> bool \<times> ksd_buffer" where
  "ksd_state_event_encode alloc event out =
     (let w = ev_window event in
      and_then (ksd_buffer_u32 alloc (ev_kind event) out) (\<lambda>out.
      and_then (ksd_buffer_u32 alloc (ev_domain event) out) (\<lambda>out.
      and_then (ksd_buffer_u64 alloc (ev_epoch event) out) (\<lambda>out.
      and_then (ksd_buffer_u64 alloc (ev_sequence event) out) (\<lambda>out.
      and_then (ksd_buffer_u32 alloc (ev_granted_scopes event) out) (\<lambda>out.
      and_then (ksd_buffer_u32 alloc (ev_revoked_scopes event) out) (\<lambda>out.
      and_then (ksd_buffer_u32 alloc (w_flags w) out) (\<lambda>out.
      and_then (ksd_buffer_u64 alloc (w_valid_fields w) out) (\<lambda>out.
      and_then (ksd_buffer_u64 alloc (w_handle w) out) (\<lambda>out.
      and_then (ksd_buffer_u64 alloc (w_parent w) out) (\<lambda>out.
      and_then (ksd_buffer_u32 alloc (w_pid w) out) (\<lambda>out.
      and_then (ksd_buffer_u32 alloc (w_transparency w) out) (\<lambda>out.
      and_then (put_all ksd_buffer_u32 alloc (window_values w) out) (\<lambda>out.
      and_then (ksd_buffer_u64 alloc (w_stacking_order w) out) (\<lambda>out.
      and_then (encode_text alloc (w_title w) out) (\<lambda>out.
      and_then (encode_text alloc (w_app_id w) out) (\<lambda>out.
      and_then (encode_text alloc (w_capture_id w) out) (\<lambda>out.
      and_then (encode_text alloc (w_compositor_id w) out) (\<lambda>out.
      encode_text alloc (ev_data event) out)))))))))))))))))))"

definition event_acceptable :: "ksd_state_event \<Rightarrow> bool" where
  "event_acceptable event \<longleftrightarrow>
     KSD_STATE_SNAPSHOT_BEGIN \<le> ev_kind event \<and> ev_kind event \<le> KSD_STATE_RESET
     \<and> ev_domain event \<noteq> 0 \<and> ev_domain event AND (ev_domain event - 1) = 0
     \<and> ev_domain event AND NOT KSD_STATE_ALL = 0"

definition ksd_state_event_decode :: "(nat \<Rightarrow> bool) \<Rightarrow> bytes \<Rightarrow> ksd_state_event option" where
  "ksd_state_event_decode alloc data = do {
     (kind, c) \<leftarrow> ksd_cursor_u32 (ksd_cursor_init data);
     (domain, c) \<leftarrow> ksd_cursor_u32 c;
     (epoch, c) \<leftarrow> ksd_cursor_u64 c;
     (sequence, c) \<leftarrow> ksd_cursor_u64 c;
     (granted, c) \<leftarrow> ksd_cursor_u32 c;
     (revoked, c) \<leftarrow> ksd_cursor_u32 c;
     (flags, c) \<leftarrow> ksd_cursor_u32 c;
     (valid, c) \<leftarrow> ksd_cursor_u64 c;
     (handle, c) \<leftarrow> ksd_cursor_u64 c;
     (parent, c) \<leftarrow> ksd_cursor_u64 c;
     (pid, c) \<leftarrow> ksd_cursor_u32 c;
     (transparency, c) \<leftarrow> ksd_cursor_u32 c;
     (values, c) \<leftarrow> get_all ksd_cursor_u32 14 c;
     (stacking, c) \<leftarrow> ksd_cursor_u64 c;
     (title, c) \<leftarrow> decode_text alloc c;
     (app_id, c) \<leftarrow> decode_text alloc c;
     (capture_id, c) \<leftarrow> decode_text alloc c;
     (compositor_id, c) \<leftarrow> decode_text alloc c;
     (data, c) \<leftarrow> decode_text alloc c;
     let window = set_window_values values (ksd_window_record_init\<lparr>w_flags := flags, w_valid_fields := valid,
           w_handle := handle, w_parent := parent, w_pid := pid, w_transparency := transparency,
           w_stacking_order := stacking, w_title := title, w_app_id := app_id, w_capture_id := capture_id,
           w_compositor_id := compositor_id\<rparr>);
         event = \<lparr>ev_kind = kind, ev_domain = domain, ev_epoch = epoch, ev_sequence = sequence,
           ev_window = window, ev_data = data, ev_granted_scopes = granted, ev_revoked_scopes = revoked\<rparr>
     in if ksd_cursor_finished c \<and> event_acceptable event then Some event else None }"

text \<open>The comparison runs over every field from the flags to the strings, then the stacking order and the strings.\<close>

definition ksd_state_window_equal :: "ksd_window_record \<Rightarrow> ksd_window_record \<Rightarrow> bool" where
  "ksd_state_window_equal a b \<longleftrightarrow>
     w_flags a = w_flags b \<and> w_valid_fields a = w_valid_fields b \<and> w_handle a = w_handle b
     \<and> w_parent a = w_parent b \<and> w_pid a = w_pid b \<and> w_transparency a = w_transparency b
     \<and> window_values a = window_values b
     \<and> w_stacking_order a = w_stacking_order b
     \<and> w_title a = w_title b \<and> w_app_id a = w_app_id b \<and> w_capture_id a = w_capture_id b
     \<and> w_compositor_id a = w_compositor_id b"

text \<open>A copy goes through the wire form; \<open>None\<close> is a failed copy.\<close>

definition ksd_state_window_copy :: "(nat \<Rightarrow> bool) \<Rightarrow> ksd_window_record \<Rightarrow> ksd_window_record option" where
  "ksd_state_window_copy alloc w =
     (let event = ksd_state_event_init\<lparr>ev_kind := KSD_STATE_CHANGED, ev_domain := KSD_STATE_WINDOWS, ev_window := w\<rparr>;
          (ok, bytes) = ksd_state_event_encode alloc event (ksd_buffer_init KSD_MAX_TEXT_BYTES)
      in if ok then map_option ev_window (ksd_state_event_decode alloc (buf_data bytes)) else None)"

definition ksd_state_mutates_windows :: "u16 \<Rightarrow> bool" where
  "ksd_state_mutates_windows opcode \<longleftrightarrow>
     KSD_OP_WINDOW_FOCUS \<le> opcode \<and> opcode \<le> KSD_OP_WINDOW_SET_SKIP_TASKBAR
       \<and> opcode \<noteq> KSD_OP_WINDOW_GET_RESERVED \<and> opcode \<noteq> KSD_OP_WINDOW_RESERVE
     \<or> opcode = KSD_OP_WINDOW_SET_TITLE \<or> opcode = KSD_OP_WINDOW_SET_VISIBLE
     \<or> opcode = KSD_OP_WINDOW_FOCUS_CHILD"

section \<open>Codecs of pairs\<close>

definition pair_put ::
  "((nat \<Rightarrow> bool) \<Rightarrow> 'a \<Rightarrow> ksd_buffer \<Rightarrow> bool \<times> ksd_buffer) \<Rightarrow> ((nat \<Rightarrow> bool) \<Rightarrow> 'b \<Rightarrow> ksd_buffer \<Rightarrow> bool \<times> ksd_buffer) \<Rightarrow>
   (nat \<Rightarrow> bool) \<Rightarrow> 'a \<times> 'b \<Rightarrow> ksd_buffer \<Rightarrow> bool \<times> ksd_buffer" where
  "pair_put p q alloc xy b = and_then (p alloc (fst xy) b) (q alloc (snd xy))"

definition pair_get ::
  "(ksd_cursor \<Rightarrow> ('a \<times> ksd_cursor) option) \<Rightarrow> (ksd_cursor \<Rightarrow> ('b \<times> ksd_cursor) option) \<Rightarrow>
   ksd_cursor \<Rightarrow> (('a \<times> 'b) \<times> ksd_cursor) option" where
  "pair_get g h c = Option.bind (g c) (\<lambda>(x, c). Option.bind (h c) (\<lambda>(y, c). Some ((x, y), c)))"

lemma pair_put_fun: "pair_put p q alloc xy = (\<lambda>b. and_then (p alloc (fst xy) b) (q alloc (snd xy)))"
  by (simp add: fun_eq_iff pair_put_def)

lemma pair_codec:
  assumes "wire_codec p e g v" "wire_codec q f h u"
  shows "wire_codec (pair_put p q) (\<lambda>xy. e (fst xy) @ f (snd xy)) (pair_get g h) (\<lambda>xy. v (fst xy) \<and> u (snd xy))"
proof
  fix b b' alloc xy
  assume wf: "buffer_wf b" and put: "pair_put p q alloc xy b = (True, b')"
  obtain m where m: "p alloc (fst xy) b = (True, m)" "q alloc (snd xy) m = (True, b')"
    using put by (cases "p alloc (fst xy) b") (auto simp: pair_put_def and_then_def split: if_splits)
  from wire_codec.put_ok [OF assms(1) wf m(1)] wire_codec.put_ok [OF assms(2) _ m(2)]
  show "buffer_wf b' \<and> buf_data b' = buf_data b @ e (fst xy) @ f (snd xy) \<and> buf_maximum b' = buf_maximum b" by simp
next
  fix b alloc xy
  assume "buffer_wf b"
  then show "buffer_wf (snd (pair_put p q alloc xy b))"
    using wire_codec.put_wf [OF assms(1)] wire_codec.put_wf [OF assms(2)] by (simp add: pair_put_def and_then_def)
next
  fix b :: ksd_buffer and alloc :: "nat \<Rightarrow> bool" and xy
  assume a: "buffer_wf b" "v (fst xy) \<and> u (snd xy)" "\<And>n. alloc n"
    "length (buf_data b) + length (e (fst xy) @ f (snd xy)) \<le> buf_maximum b"
  then have "fst (p alloc (fst xy) b)" by (intro wire_codec.put_room [OF assms(1)]) auto
  then obtain m where m: "p alloc (fst xy) b = (True, m)" by (metis prod.collapse)
  note ok = wire_codec.put_ok [OF assms(1) a(1) m]
  have "fst (q alloc (snd xy) m)" using a ok by (intro wire_codec.put_room [OF assms(2)]) auto
  then show "fst (pair_put p q alloc xy b)" by (simp add: pair_put_def m)
next
  fix c xy r
  assume a: "cursor_wf c" "v (fst xy) \<and> u (snd xy)" "cur_rest c = (e (fst xy) @ f (snd xy)) @ r"
  obtain d where d: "g c = Some (fst xy, d)" "cursor_wf d" "cur_rest d = f (snd xy) @ r"
    using wire_codec.get_enc [OF assms(1) a(1), of "fst xy" "f (snd xy) @ r"] a by auto
  obtain d' where "h d = Some (snd xy, d')" "cursor_wf d'" "cur_rest d' = r"
    using wire_codec.get_enc [OF assms(2) d(2), of "snd xy" r] a d by auto
  with d show "\<exists>c'. pair_get g h c = Some (xy, c') \<and> cursor_wf c' \<and> cur_rest c' = r"
    by (simp add: pair_get_def)
next
  fix c xy c'
  assume "pair_get g h c = Some (xy, c')"
  then obtain d where d: "g c = Some (fst xy, d)" "h d = Some (snd xy, c')"
    by (auto simp: pair_get_def bind_eq_Some_conv)
  from wire_codec.get_Some [OF assms(1) d(1)] wire_codec.get_Some [OF assms(2) d(2)]
  show "(v (fst xy) \<and> u (snd xy)) \<and> cursor_wf c' \<and> cur_rest c = (e (fst xy) @ f (snd xy)) @ cur_rest c'" by simp
qed

lemma run_codec:
  assumes "wire_codec p e g (\<lambda>_. True)"
  shows "wire_codec (put_all p) (\<lambda>xs. concat (map e xs)) (get_all g (Suc n)) (\<lambda>xs. length xs = Suc n)"
proof
  fix b b' alloc xs
  assume "buffer_wf b" "put_all p alloc xs b = (True, b')"
  then show "buffer_wf b' \<and> buf_data b' = buf_data b @ concat (map e xs) \<and> buf_maximum b' = buf_maximum b"
    by (rule wire_codec.put_all_ok [OF assms])
next
  fix b alloc xs
  assume "buffer_wf b"
  then show "buffer_wf (snd (put_all p alloc xs b))" by (rule wire_codec.put_all_wf [OF assms])
next
  fix b :: ksd_buffer and alloc :: "nat \<Rightarrow> bool" and xs
  assume "buffer_wf b" "\<And>n. alloc n" "length (buf_data b) + length (concat (map e xs)) \<le> buf_maximum b"
  then show "fst (put_all p alloc xs b)" by (intro wire_codec.put_all_room [OF assms]) auto
next
  fix c xs r
  assume "cursor_wf c" "length xs = Suc n" "cur_rest c = concat (map e xs) @ r"
  then show "\<exists>c'. get_all g (Suc n) c = Some (xs, c') \<and> cursor_wf c' \<and> cur_rest c' = r"
    using wire_codec.get_all_enc [OF assms, of c xs r] by (auto simp del: get_all.simps)
next
  fix c xs c'
  assume "get_all g (Suc n) c = Some (xs, c')"
  then obtain x d ys where x: "g c = Some (x, d)" "get_all g n d = Some (ys, c')" "xs = x # ys"
    by (auto split: option.splits)
  note first = wire_codec.get_Some [OF assms x(1)]
  from wire_codec.get_all_Some [OF assms _ x(2)] first x(3)
  show "length xs = Suc n \<and> cursor_wf c' \<and> cur_rest c = concat (map e xs) @ cur_rest c'" by simp
qed

definition text_bytes :: "bytes \<Rightarrow> bytes" where
  "text_bytes s = ksd_encode_u32 (of_nat (length s)) @ s"

definition text_ok :: "bytes \<Rightarrow> bool" where
  "text_ok s \<longleftrightarrow> length s \<le> KSD_MAX_TEXT_BYTES \<and> ksd_utf8_valid s False"

lemma text_length: "length s \<le> KSD_MAX_TEXT_BYTES \<Longrightarrow> unat (of_nat (length s) :: u32) = length s"
  by (rule unat_of_nat_small) (simp add: wire_defs)

lemma text_codec: "wire_codec encode_text text_bytes (decode_text (\<lambda>_. True)) text_ok"
proof
  fix b b' alloc s
  assume wf: "buffer_wf b" and put: "encode_text alloc s b = (True, b')"
  then obtain m where m: "ksd_buffer_u32 alloc (of_nat (length s)) b = (True, m)" "ksd_buffer_bytes alloc s m = (True, b')"
    by (cases "ksd_buffer_u32 alloc (of_nat (length s)) b") (auto simp: encode_text_def and_then_def split: if_splits)
  note ok = u32.put_ok [OF wf m(1)]
  then have "buffer_wf m" by simp
  then show "buffer_wf b' \<and> buf_data b' = buf_data b @ text_bytes s \<and> buf_maximum b' = buf_maximum b"
    using m(2) ok by (elim buffer_bytes_cases [of m alloc s]) (auto simp: text_bytes_def)
next
  fix b :: ksd_buffer and alloc :: "nat \<Rightarrow> bool" and s :: bytes
  assume wf: "buffer_wf b"
  obtain fits mid where m: "ksd_buffer_u32 alloc (of_nat (length s)) b = (fits, mid)" by force
  have mid: "buffer_wf mid" using u32.put_wf [OF wf, of alloc "of_nat (length s)"] m by simp
  have "buffer_wf (snd (ksd_buffer_bytes alloc s mid))"
    using mid by (rule buffer_bytes_cases [of mid alloc s]) (simp_all add: mid)
  then show "buffer_wf (snd (encode_text alloc s b))" using wf m mid by (simp add: encode_text_def and_then_def)
next
  fix b :: ksd_buffer and alloc :: "nat \<Rightarrow> bool" and s
  assume a: "buffer_wf b" "text_ok s" "\<And>n. alloc n" "length (buf_data b) + length (text_bytes s) \<le> buf_maximum b"
  then have "fst (ksd_buffer_u32 alloc (of_nat (length s)) b)"
    by (intro u32.put_room) (auto simp: text_bytes_def)
  then obtain m where m: "ksd_buffer_u32 alloc (of_nat (length s)) b = (True, m)" by (metis prod.collapse)
  note ok = u32.put_ok [OF a(1) m]
  then have wf: "buffer_wf m" by simp
  have "fst (ksd_buffer_bytes alloc s m)"
    using a ok by (cases rule: buffer_bytes_cases [OF wf, of alloc s]) (auto simp: text_bytes_def)
  then show "fst (encode_text alloc s b)" using a(2) by (simp add: encode_text_def m text_ok_def)
next
  fix c s r
  assume a: "cursor_wf c" "text_ok s" "cur_rest c = text_bytes s @ r"
  obtain d where d: "ksd_cursor_u32 c = Some (of_nat (length s), d)" "cursor_wf d" "cur_rest d = s @ r"
    using u32.get_enc [OF a(1), of "of_nat (length s)" "s @ r"] a by (auto simp: text_bytes_def)
  have len: "unat (of_nat (length s) :: u32) = length s" using a(2) by (intro text_length) (simp add: text_ok_def)
  have zero: "(of_nat (length s) :: u32) = 0 \<Longrightarrow> s = []" using len by (metis unsigned_0 length_0_conv)
  obtain d' where d': "ksd_cursor_bytes (length s) d = Some (s, d')" "cursor_wf d'" "cur_rest d' = r"
    using cursor_bytes_append [OF d(2,3)] by blast
  have "decode_text (\<lambda>_. True) c = Some (s, d')"
    using a(2) zero by (auto simp: decode_text_def d(1) len d'(1) text_ok_def)
  then show "\<exists>c'. decode_text (\<lambda>_. True) c = Some (s, c') \<and> cursor_wf c' \<and> cur_rest c' = r"
    using d' by blast
next
  fix c s c'
  assume "decode_text (\<lambda>_. True) c = Some (s, c')"
  then obtain len d data where d: "ksd_cursor_u32 c = Some (len, d)" "unat len \<le> KSD_MAX_TEXT_BYTES"
    "ksd_cursor_bytes (unat len) d = Some (data, c')" "ksd_utf8_valid data False" "s = (if len = 0 then [] else data)"
    by (auto simp: decode_text_def bind_eq_Some_conv split: if_splits)
  note bs = cursor_bytes_Some [OF d(3)]
  have s: "s = data" using bs d(5) by (cases "len = 0") auto
  have len: "of_nat (length data) = len" using bs by simp
  have "length data \<le> KSD_MAX_TEXT_BYTES" using bs d(2) by simp
  then show "text_ok s \<and> cursor_wf c' \<and> cur_rest c = text_bytes s @ cur_rest c'"
    using u32.get_Some [OF d(1)] bs cursor_bytes_wf [OF d(3)] d(4) by (simp add: s text_ok_def text_bytes_def len)
qed

section \<open>The event codec\<close>

type_synonym event_tuple =
  "u32 \<times> u32 \<times> u64 \<times> u64 \<times> u32 \<times> u32 \<times> u32 \<times> u64 \<times> u64 \<times> u64 \<times> u32 \<times> u32 \<times> u32 list \<times> u64
   \<times> bytes \<times> bytes \<times> bytes \<times> bytes \<times> bytes"

definition event_tuple :: "ksd_state_event \<Rightarrow> event_tuple" where
  "event_tuple e = (let w = ev_window e in
     (ev_kind e, ev_domain e, ev_epoch e, ev_sequence e, ev_granted_scopes e, ev_revoked_scopes e,
      w_flags w, w_valid_fields w, w_handle w, w_parent w, w_pid w, w_transparency w, window_values w,
      w_stacking_order w, w_title w, w_app_id w, w_capture_id w, w_compositor_id w, ev_data e))"

definition tuple_event :: "event_tuple \<Rightarrow> ksd_state_event" where
  "tuple_event t = (case t of
     (kind, domain, epoch, sequence, granted, revoked, flags, valid, handle, parent, pid, transparency, values,
      stacking, title, app_id, capture_id, compositor_id, data) \<Rightarrow>
       \<lparr>ev_kind = kind, ev_domain = domain, ev_epoch = epoch, ev_sequence = sequence,
        ev_window = set_window_values values (ksd_window_record_init\<lparr>w_flags := flags, w_valid_fields := valid,
           w_handle := handle, w_parent := parent, w_pid := pid, w_transparency := transparency,
           w_stacking_order := stacking, w_title := title, w_app_id := app_id, w_capture_id := capture_id,
           w_compositor_id := compositor_id\<rparr>),
        ev_data = data, ev_granted_scopes = granted, ev_revoked_scopes = revoked\<rparr>)"

definition tuple_put :: "(nat \<Rightarrow> bool) \<Rightarrow> event_tuple \<Rightarrow> ksd_buffer \<Rightarrow> bool \<times> ksd_buffer" where
  "tuple_put = (pair_put ksd_buffer_u32 (pair_put ksd_buffer_u32 (pair_put ksd_buffer_u64 (pair_put ksd_buffer_u64 (pair_put ksd_buffer_u32 (pair_put ksd_buffer_u32 (pair_put ksd_buffer_u32 (pair_put ksd_buffer_u64 (pair_put ksd_buffer_u64 (pair_put ksd_buffer_u64 (pair_put ksd_buffer_u32 (pair_put ksd_buffer_u32 (pair_put (put_all ksd_buffer_u32) (pair_put ksd_buffer_u64 (pair_put encode_text (pair_put encode_text (pair_put encode_text (pair_put encode_text encode_text))))))))))))))))))"

definition tuple_get :: "(nat \<Rightarrow> bool) \<Rightarrow> ksd_cursor \<Rightarrow> (event_tuple \<times> ksd_cursor) option" where
  "tuple_get alloc = (pair_get ksd_cursor_u32 (pair_get ksd_cursor_u32 (pair_get ksd_cursor_u64 (pair_get ksd_cursor_u64 (pair_get ksd_cursor_u32 (pair_get ksd_cursor_u32 (pair_get ksd_cursor_u32 (pair_get ksd_cursor_u64 (pair_get ksd_cursor_u64 (pair_get ksd_cursor_u64 (pair_get ksd_cursor_u32 (pair_get ksd_cursor_u32 (pair_get (get_all ksd_cursor_u32 14) (pair_get ksd_cursor_u64 (pair_get (decode_text alloc) (pair_get (decode_text alloc) (pair_get (decode_text alloc) (pair_get (decode_text alloc) (decode_text alloc)))))))))))))))))))"

lemma window_values_roundtrip:
  "length v = 14 \<Longrightarrow> window_values (set_window_values v w) = v"
  by (auto simp: window_values_def set_window_values_def list_eq_iff_nth_eq less_Suc_eq eval_nat_numeral)

lemma tuple_event_inverse: "tuple_event (event_tuple e) = e"
proof -
  obtain w where w: "ev_window e = w" by simp
  show ?thesis
    by (cases e; cases "ev_window e")
      (simp add: tuple_event_def event_tuple_def window_values_def set_window_values_def ksd_window_record_init_def Let_def)
qed

lemma event_tuple_inverse:
  "length (fst (snd (snd (snd (snd (snd (snd (snd (snd (snd (snd (snd (snd t))))))))))))) = 14 \<Longrightarrow> event_tuple (tuple_event t) = t"
  by (simp add: tuple_event_def event_tuple_def Let_def split_def window_values_roundtrip) (simp add: set_window_values_def)

lemma encode_tuple: "ksd_state_event_encode alloc e b = tuple_put alloc (event_tuple e) b"
  by (simp add: ksd_state_event_encode_def tuple_put_def pair_put_fun event_tuple_def Let_def)

lemma decode_tuple:
  "ksd_state_event_decode alloc data =
     Option.bind (tuple_get alloc (ksd_cursor_init data)) (\<lambda>(t, c).
       if ksd_cursor_finished c \<and> event_acceptable (tuple_event t) then Some (tuple_event t) else None)"
  by (simp add: ksd_state_event_decode_def tuple_get_def pair_get_def tuple_event_def split_def bind_assoc Let_def cong: if_cong)

definition tuple_enc :: "event_tuple \<Rightarrow> bytes" where
  "tuple_enc t = (case t of
     (kind, domain, epoch, sequence, granted, revoked, flags, valid, handle, parent, pid, transparency, values,
      stacking, title, app_id, capture_id, compositor_id, data) \<Rightarrow>
      ksd_encode_u32 kind @ ksd_encode_u32 domain @ ksd_encode_u64 epoch @ ksd_encode_u64 sequence
      @ ksd_encode_u32 granted @ ksd_encode_u32 revoked @ ksd_encode_u32 flags @ ksd_encode_u64 valid
      @ ksd_encode_u64 handle @ ksd_encode_u64 parent @ ksd_encode_u32 pid @ ksd_encode_u32 transparency
      @ concat (map ksd_encode_u32 values) @ ksd_encode_u64 stacking @ text_bytes title @ text_bytes app_id
      @ text_bytes capture_id @ text_bytes compositor_id @ text_bytes data)"

definition tuple_ok :: "event_tuple \<Rightarrow> bool" where
  "tuple_ok t \<longleftrightarrow> (case t of
     (kind, domain, epoch, sequence, granted, revoked, flags, valid, handle, parent, pid, transparency, values,
      stacking, title, app_id, capture_id, compositor_id, data) \<Rightarrow>
      length values = 14 \<and> text_ok title \<and> text_ok app_id \<and> text_ok capture_id \<and> text_ok compositor_id \<and> text_ok data)"

lemma tuple_codec: "wire_codec tuple_put tuple_enc (tuple_get (\<lambda>_. True)) tuple_ok"
proof -
  note run14 = run_codec [OF u32.wire_codec_axioms, of 13]
  note t = text_codec
  note texts = pair_codec [OF t pair_codec [OF t pair_codec [OF t pair_codec [OF t t]]]]
  note upper = pair_codec [OF u32.wire_codec_axioms pair_codec [OF u64.wire_codec_axioms
    pair_codec [OF u64.wire_codec_axioms pair_codec [OF u64.wire_codec_axioms pair_codec [OF u32.wire_codec_axioms
    pair_codec [OF u32.wire_codec_axioms pair_codec [OF run14 pair_codec [OF u64.wire_codec_axioms texts]]]]]]]]
  note whole = pair_codec [OF u32.wire_codec_axioms pair_codec [OF u32.wire_codec_axioms
    pair_codec [OF u64.wire_codec_axioms pair_codec [OF u64.wire_codec_axioms pair_codec [OF u32.wire_codec_axioms
    pair_codec [OF u32.wire_codec_axioms upper]]]]]]
  show ?thesis
    using whole
    by (simp add: tuple_put_def tuple_get_def tuple_enc_def [abs_def] tuple_ok_def [abs_def] split_def numeral_eq_Suc)
qed

interpretation event: wire_codec tuple_put tuple_enc "tuple_get (\<lambda>_. True)" tuple_ok
  by (rule tuple_codec)

definition window_ok :: "ksd_window_record \<Rightarrow> bool" where
  "window_ok w \<longleftrightarrow> text_ok (w_title w) \<and> text_ok (w_app_id w) \<and> text_ok (w_capture_id w) \<and> text_ok (w_compositor_id w)"

definition event_ok :: "ksd_state_event \<Rightarrow> bool" where
  "event_ok e \<longleftrightarrow> event_acceptable e \<and> window_ok (ev_window e) \<and> text_ok (ev_data e)"

definition window_text :: "ksd_window_record \<Rightarrow> nat" where
  "window_text w = length (w_title w) + length (w_app_id w) + length (w_capture_id w) + length (w_compositor_id w)"

lemma tuple_ok_event: "tuple_ok (event_tuple e) \<longleftrightarrow> window_ok (ev_window e) \<and> text_ok (ev_data e)"
  by (auto simp: tuple_ok_def event_tuple_def window_ok_def Let_def window_values_def)

lemma tuple_ok_length: "tuple_ok t \<Longrightarrow> event_tuple (tuple_event t) = t"
  by (rule event_tuple_inverse) (auto simp: tuple_ok_def split_def)

lemma length_tuple_enc:
  "length (tuple_enc (event_tuple e)) = 152 + window_text (ev_window e) + length (ev_data e)"
  by (simp add: tuple_enc_def event_tuple_def Let_def window_values_def text_bytes_def window_text_def)

lemma decode_enc:
  assumes "event_ok e"
  shows "ksd_state_event_decode (\<lambda>_. True) (tuple_enc (event_tuple e)) = Some e"
proof -
  let ?bs = "tuple_enc (event_tuple e)"
  obtain c where "tuple_get (\<lambda>_. True) (ksd_cursor_init ?bs) = Some (event_tuple e, c)" "cursor_wf c" "cur_rest c = []"
    using event.get_enc [of "ksd_cursor_init ?bs" "event_tuple e" "[]"] assms by (auto simp: tuple_ok_event event_ok_def)
  then show ?thesis
    using assms by (simp add: decode_tuple tuple_event_inverse event_ok_def cursor_finished_rest)
qed

lemma decode_Some:
  assumes "ksd_state_event_decode (\<lambda>_. True) bs = Some e"
  shows "event_ok e" "bs = tuple_enc (event_tuple e)"
proof -
  obtain t c where t: "tuple_get (\<lambda>_. True) (ksd_cursor_init bs) = Some (t, c)" "ksd_cursor_finished c"
    "event_acceptable (tuple_event t)" "e = tuple_event t"
    using assms by (auto simp: decode_tuple bind_eq_Some_conv split: if_splits)
  note g = event.get_Some [OF t(1)]
  then have et: "event_tuple e = t" by (simp add: t(4) tuple_ok_length)
  with g t show "event_ok e" using tuple_ok_event [of e] by (simp add: event_ok_def)
  show "bs = tuple_enc (event_tuple e)" using g t(2) by (simp add: et cursor_finished_rest)
qed

lemma encode_exact:
  assumes "window_ok (ev_window e)" "text_ok (ev_data e)"
  shows "fst (ksd_state_event_encode (\<lambda>_. True) e (ksd_buffer_init n)) \<longleftrightarrow> length (tuple_enc (event_tuple e)) \<le> n"
    "fst (ksd_state_event_encode alloc e (ksd_buffer_init n)) \<Longrightarrow>
       buf_data (snd (ksd_state_event_encode alloc e (ksd_buffer_init n))) = tuple_enc (event_tuple e)"
proof -
  have wf: "buffer_wf (ksd_buffer_init n)" by (simp add: buffer_wf_def ksd_buffer_init_def)
  have data: "buffer_wf b \<and> buf_data b = tuple_enc (event_tuple e) \<and> buf_maximum b = n"
    if "ksd_state_event_encode alloc e (ksd_buffer_init n) = (True, b)" for alloc b
    using event.put_ok [OF wf, of alloc "event_tuple e" b] that by (simp add: encode_tuple ksd_buffer_init_def)
  show "fst (ksd_state_event_encode alloc e (ksd_buffer_init n)) \<Longrightarrow>
       buf_data (snd (ksd_state_event_encode alloc e (ksd_buffer_init n))) = tuple_enc (event_tuple e)"
    using data by (metis prod.collapse)
  have "fst (ksd_state_event_encode (\<lambda>_. True) e (ksd_buffer_init n))" if "length (tuple_enc (event_tuple e)) \<le> n"
    unfolding encode_tuple using that assms
    by (intro event.put_room [OF wf]) (simp_all add: tuple_ok_event ksd_buffer_init_def)
  moreover have "length (tuple_enc (event_tuple e)) \<le> n" if "fst (ksd_state_event_encode (\<lambda>_. True) e (ksd_buffer_init n))"
    using that data [of "\<lambda>_. True"] by (metis buffer_wf_def prod.collapse)
  ultimately show "fst (ksd_state_event_encode (\<lambda>_. True) e (ksd_buffer_init n)) \<longleftrightarrow> length (tuple_enc (event_tuple e)) \<le> n"
    by blast
qed

text \<open>
  C25: A state event has exactly one spelling on the wire. A byte string decodes to an
  event if and only if the event is acceptable, its texts are bounded UTF-8, and the
  string is what encoding the event into an empty buffer of sufficient size produces.
\<close>

theorem state_event_wire_exact:
  "ksd_state_event_decode (\<lambda>_. True) bs = Some e \<longleftrightarrow>
     event_ok e \<and> (\<exists>n b. ksd_state_event_encode (\<lambda>_. True) e (ksd_buffer_init n) = (True, b) \<and> buf_data b = bs)"
proof
  assume d: "ksd_state_event_decode (\<lambda>_. True) bs = Some e"
  note ok = decode_Some [OF d]
  then have parts: "window_ok (ev_window e)" "text_ok (ev_data e)" by (simp_all add: event_ok_def)
  obtain flag b where b: "ksd_state_event_encode (\<lambda>_. True) e (ksd_buffer_init (length bs)) = (flag, b)" by force
  show "event_ok e \<and> (\<exists>n b. ksd_state_event_encode (\<lambda>_. True) e (ksd_buffer_init n) = (True, b) \<and> buf_data b = bs)"
    using encode_exact(1) [OF parts, of "length bs"] ok b encode_exact(2) [OF parts, of "\<lambda>_. True" "length bs"] by auto
next
  assume r: "event_ok e \<and> (\<exists>n b. ksd_state_event_encode (\<lambda>_. True) e (ksd_buffer_init n) = (True, b) \<and> buf_data b = bs)"
  then obtain n b where b: "event_ok e" "ksd_state_event_encode (\<lambda>_. True) e (ksd_buffer_init n) = (True, b)" "buf_data b = bs"
    by blast
  then have "bs = tuple_enc (event_tuple e)"
    using encode_exact(2) [of e "\<lambda>_. True" n] by (simp add: event_ok_def)
  with decode_enc [OF b(1)] show "ksd_state_event_decode (\<lambda>_. True) bs = Some e" by simp
qed

text \<open>
  Copying a window record with well-formed texts gives the same record, and with
  memory available it fails only when the texts do not fit, with the 152 bytes of fixed
  fields, into four megabytes.
\<close>

lemma window_copy_exact:
  assumes "window_ok w"
  shows "ksd_state_window_copy (\<lambda>_. True) w = (if 152 + window_text w \<le> KSD_MAX_TEXT_BYTES then Some w else None)"
proof -
  let ?e = "ksd_state_event_init\<lparr>ev_kind := KSD_STATE_CHANGED, ev_domain := KSD_STATE_WINDOWS, ev_window := w\<rparr>"
  have nil: "text_ok []" by (simp add: text_ok_def)
  have ev: "event_acceptable ?e" "ev_window ?e = w" "ev_data ?e = []"
    by (simp_all add: event_acceptable_def ksd_state_event_init_def wire_defs)
  obtain flag b where b: "ksd_state_event_encode (\<lambda>_. True) ?e (ksd_buffer_init KSD_MAX_TEXT_BYTES) = (flag, b)" by force
  have data: "flag \<longleftrightarrow> 152 + window_text w \<le> KSD_MAX_TEXT_BYTES" "flag \<Longrightarrow> buf_data b = tuple_enc (event_tuple ?e)"
    using encode_exact(1) [of ?e KSD_MAX_TEXT_BYTES] encode_exact(2) [of ?e "\<lambda>_. True" KSD_MAX_TEXT_BYTES] assms nil b
    by (auto simp: length_tuple_enc ev(2,3))
  have "ksd_state_event_decode (\<lambda>_. True) (tuple_enc (event_tuple ?e)) = Some ?e"
    using assms nil ev by (intro decode_enc) (simp add: event_ok_def)
  with data b show ?thesis by (auto simp: ksd_state_window_copy_def Let_def)
qed

end
