(* ===== verification/State_Json.thy ===== *)
theory State_Json
  imports State_Wire
begin

text \<open>
  The JSON scanner of src/src/state_wire.c, which turns what a compositor reports about
  its windows into window records, and the JSON string writer of src/src/protocol_io.c.

  A span \<open>(data, length)\<close> is the list of its bytes. A function that moves its span past
  what it read returns what is left. The nesting limit of the source is the number of
  levels still allowed: depth 0 of the source is 65 levels here, and depth 65, which it
  refuses, is none.
\<close>

section \<open>Spans\<close>

definition is_space :: "u8 \<Rightarrow> bool" where
  "is_space b \<longleftrightarrow> b = 32 \<or> b = 10 \<or> b = 13 \<or> b = 9"

definition skip_space :: "bytes \<Rightarrow> bytes" where
  "skip_space s = dropWhile is_space s"

text \<open>The string branch of \<open>value_span\<close>, from behind the opening quote: what follows the closing one.\<close>

fun string_rest :: "bytes \<Rightarrow> bytes option" where
  "string_rest [] = None"
| "string_rest (b # s) =
     (if b = 34 then Some s
      else if b < 0x20 then None
      else if b = 92 then (case s of [] \<Rightarrow> None | _ # s' \<Rightarrow> string_rest s')
      else string_rest s)"

definition scalar_end :: "u8 \<Rightarrow> bool" where
  "scalar_end b \<longleftrightarrow> b = 44 \<or> b = 125 \<or> b = 93 \<or> is_space b"

text \<open>One member of an array, or a name, a colon and a value in an object.\<close>

definition span_member :: "(bytes \<Rightarrow> (bytes \<times> bytes) option) \<Rightarrow> bool \<Rightarrow> bytes \<Rightarrow> bytes option" where
  "span_member inner object s = do {
     (part, r) \<leftarrow> inner s;
     if object then
       let r = skip_space r in
       if hd part \<noteq> 34 \<or> r = [] \<or> hd r \<noteq> 58 then None
       else map_option snd (inner (tl r))
     else Some r }"

text \<open>
  The member loop of an object or array: what follows the closing byte. Each member ends
  strictly behind where it started (\<open>value_span_parts\<close>), so the test on the lengths,
  which the source does not have, always succeeds (\<open>span_members_unguarded\<close>).
\<close>

function span_members :: "(bytes \<Rightarrow> (bytes \<times> bytes) option) \<Rightarrow> bool \<Rightarrow> u8 \<Rightarrow> bytes \<Rightarrow> bytes option" where
  "span_members inner object close s =
     (if s = [] then None
      else if hd s = close then Some (tl s)
      else do {
        r \<leftarrow> span_member inner object s;
        let r = skip_space r in
        if r = [] then None
        else if hd r = close then Some (tl r)
        else if hd r \<noteq> 44 then None
        else let r = skip_space (tl r) in
          if r = [] \<or> hd r = close then None
          else if length r < length s then span_members inner object close r else None })"
  by pat_completeness auto
termination
  by (relation "measure (\<lambda>(inner, object, close, s). length s)") auto

declare span_members.simps [simp del]

primrec value_span :: "nat \<Rightarrow> bytes \<Rightarrow> (bytes \<times> bytes) option" where
  "value_span 0 = (\<lambda>s. None)"
| "value_span (Suc levels) = (\<lambda>s.
     let s = skip_space s in
     if s = [] then None
     else do {
       r \<leftarrow> (if hd s = 34 then string_rest (tl s)
            else if hd s = 123 then span_members (value_span levels) True 125 (skip_space (tl s))
            else if hd s = 91 then span_members (value_span levels) False 93 (skip_space (tl s))
            else let r = dropWhile (\<lambda>b. \<not> scalar_end b) s in if r = s then None else Some r);
       Some (take (length s - length r) s, r) })"

text \<open>The depth with which every reader below starts.\<close>

definition top_levels :: nat where
  "top_levels = 65"

lemma skip_space_le: "length (skip_space s) \<le> length s"
  by (simp add: skip_space_def length_dropWhile_le)

lemma skip_space_split: "\<exists>w. s = w @ skip_space s \<and> list_all is_space w"
  by (intro exI [of _ "takeWhile is_space s"]) (auto simp: skip_space_def list_all_iff dest: set_takeWhileD)

lemma string_rest_suffix: "string_rest s = Some r \<Longrightarrow> \<exists>p. s = p @ r \<and> p \<noteq> []"
proof (induction s rule: string_rest.induct)
  case (2 b s)
  show ?case
  proof (cases "b = 34")
    case True
    then show ?thesis using "2.prems" by (intro exI [of _ "[b]"]) simp
  next
    case False
    show ?thesis
    proof (cases "b = 92")
      case True
      then obtain c t where "s = c # t" "string_rest t = Some r"
        using "2.prems" False by (auto split: if_splits list.splits)
      then obtain p where "t = p @ r" using "2.IH"(1) True False "2.prems" by (auto split: if_splits)
      then show ?thesis using \<open>s = c # t\<close> by (intro exI [of _ "b # c # p"]) simp
    next
      case b: False
      then obtain p where "s = p @ r" using "2.IH"(2) "2.prems" False by (auto split: if_splits)
      then show ?thesis by (intro exI [of _ "b # p"]) simp
    qed
  qed
qed simp

lemma suffix_lengthD: "\<exists>p. s = p @ r \<Longrightarrow> length r \<le> length s"
  by auto

text \<open>A reader that leaves a proper suffix of what it was given.\<close>

definition reader :: "(bytes \<Rightarrow> (bytes \<times> bytes) option) \<Rightarrow> bool" where
  "reader inner \<longleftrightarrow> (\<forall>s v r. inner s = Some (v, r) \<longrightarrow>
     (\<exists>w. s = w @ v @ r \<and> list_all is_space w \<and> v \<noteq> [] \<and> \<not> is_space (hd v)))"

lemma readerD: "reader inner \<Longrightarrow> inner s = Some (v, r) \<Longrightarrow> length r < length s"
  by (force simp: reader_def)

lemma suffix_trans: "\<exists>p. s = p @ t \<Longrightarrow> \<exists>q. t = q @ r \<Longrightarrow> \<exists>p. s = p @ r"
  by auto

lemma suffix_skip: "\<exists>p. s = p @ skip_space s"
  using skip_space_split by blast

lemma suffix_tl: "s \<noteq> [] \<Longrightarrow> \<exists>p. s = p @ tl s"
  by (cases s) auto

lemma reader_suffix: "reader inner \<Longrightarrow> inner s = Some (v, r) \<Longrightarrow> \<exists>p. s = p @ r"
  by (force simp: reader_def)

lemma span_member_suffix:
  assumes "reader inner" "span_member inner object s = Some r"
  shows "\<exists>p. s = p @ r" "length r < length s"
proof -
  obtain part r1 where r1: "inner s = Some (part, r1)" using assms(2) by (auto simp: span_member_def bind_eq_Some_conv)
  have "(\<exists>p. r1 = p @ r)"
  proof (cases object)
    case True
    then obtain v where v: "inner (tl (skip_space r1)) = Some (v, r)" "skip_space r1 \<noteq> []"
      using assms(2) r1 by (auto simp: span_member_def Let_def split: if_splits)
    show ?thesis
      using suffix_skip suffix_tl [OF v(2)] reader_suffix [OF assms(1) v(1)] suffix_trans by metis
  qed (use assms(2) r1 in \<open>auto simp: span_member_def\<close>)
  then show "\<exists>p. s = p @ r" "length r < length s"
    using reader_suffix [OF assms(1) r1] readerD [OF assms(1) r1] by auto
qed

lemma span_members_suffix:
  "reader inner \<Longrightarrow> span_members inner object close s = Some r \<Longrightarrow> \<exists>p. s = p @ r"
proof (induction inner object close s arbitrary: r rule: span_members.induct)
  case (1 inner object close s)
  show ?case
  proof (cases "s = [] \<or> hd s = close")
    case True
    then have "s \<noteq> [] \<and> r = tl s"
      using "1.prems"(2) unfolding span_members.simps [of inner object close s] by (cases "s = []") simp_all
    then show ?thesis using suffix_tl [of s] by auto
  next
    case False
    obtain r2 where r2: "span_member inner object s = Some r2"
      using "1.prems"(2) False unfolding span_members.simps [of inner object close s]
      by (cases "span_member inner object s") auto
    have rest: "(let r = skip_space r2 in
        if r = [] then None
        else if hd r = close then Some (tl r)
        else if hd r \<noteq> 44 then None
        else let r = skip_space (tl r) in
          if r = [] \<or> hd r = close then None
          else if length r < length s then span_members inner object close r else None) = Some r"
      using "1.prems"(2) False r2 unfolding span_members.simps [of inner object close s] by simp
    have s3: "\<exists>p. s = p @ skip_space r2"
      using span_member_suffix(1) [OF "1.prems"(1) r2] suffix_skip by (rule suffix_trans)
    show ?thesis
    proof (cases "hd (skip_space r2) = close")
      case True
      then have "r = tl (skip_space r2)" "skip_space r2 \<noteq> []" using rest by (auto simp: Let_def split: if_splits)
      then show ?thesis using suffix_trans [OF s3 suffix_tl] by simp
    next
      case c: False
      let ?n = "skip_space (tl (skip_space r2))"
      have n: "skip_space r2 \<noteq> []" "span_members inner object close ?n = Some r" "length ?n < length s" "?n \<noteq> []" "hd ?n \<noteq> close"
        "hd (skip_space r2) = 44"
        using rest c by (auto simp: Let_def split: if_splits)
      moreover from this have "\<exists>p. ?n = p @ r"
        using "1.IH" [OF _ _ r2, of "skip_space r2" ?n r] False "1.prems"(1) c by auto
      ultimately show ?thesis using s3 suffix_tl suffix_skip suffix_trans by metis
    qed
  qed
qed

lemma take_suffix: "s = p @ r \<Longrightarrow> take (length s - length r) s = p"
  by simp

lemma value_span_reader: "reader (value_span levels)"
proof (induction levels)
  case (Suc levels)
  have "\<exists>w. s = w @ v @ r \<and> list_all is_space w \<and> v \<noteq> [] \<and> \<not> is_space (hd v)"
    if "value_span (Suc levels) s = Some (v, r)" for s v r
  proof -
    define t where "t = skip_space s"
    have t: "t \<noteq> []" and v: "v = take (length t - length r) t"
      and step: "(if hd t = 34 then string_rest (tl t)
            else if hd t = 123 then span_members (value_span levels) True 125 (skip_space (tl t))
            else if hd t = 91 then span_members (value_span levels) False 93 (skip_space (tl t))
            else let r = dropWhile (\<lambda>b. \<not> scalar_end b) t in if r = t then None else Some r) = Some r"
      using that by (auto simp: t_def [symmetric] Let_def bind_eq_Some_conv split: if_splits)
    have head: "\<not> is_space (hd t)" using t hd_dropWhile [of is_space s] by (simp add: t_def skip_space_def)
    have inside: "\<exists>p. tl t = p @ r" if "hd t = 34 \<or> hd t = 123 \<or> hd t = 91"
    proof -
      have "\<exists>p. skip_space (tl t) = p @ r \<or> string_rest (tl t) = Some r"
        using that step span_members_suffix [OF Suc] by (auto split: if_splits)
      then show ?thesis using string_rest_suffix [of "tl t" r] suffix_trans [OF suffix_skip [of "tl t"]] by blast
    qed
    have "\<exists>p. t = p @ r \<and> p \<noteq> []"
    proof (cases "hd t = 34 \<or> hd t = 123 \<or> hd t = 91")
      case True
      then obtain p where "tl t = p @ r" using inside by blast
      then show ?thesis using t by (intro exI [of _ "hd t # p"]) (metis append_Cons list.collapse list.distinct(1))
    next
      case False
      then have r: "r = dropWhile (\<lambda>b. \<not> scalar_end b) t" "r \<noteq> t"
        using step by (auto simp: Let_def split: if_splits)
      then show ?thesis
        by (intro exI [of _ "takeWhile (\<lambda>b. \<not> scalar_end b) t"]) (metis append_Nil takeWhile_dropWhile_id)
    qed
    then obtain p where p: "t = p @ r" "p \<noteq> []" by blast
    then have vp: "v = p" using v by simp
    obtain w where "s = w @ t" "list_all is_space w" using skip_space_split [of s] by (auto simp: t_def)
    with p vp head show ?thesis by auto
  qed
  then show ?case by (simp only: reader_def) blast
qed (simp add: reader_def)

lemmas value_span_shorter = readerD [OF value_span_reader]

lemma value_span_next: "value_span levels s = Some (v, r) \<Longrightarrow> length (tl (skip_space r)) < length s"
  using value_span_shorter [of levels s v r] skip_space_le [of r] by simp

text \<open>The length test of \<open>span_members\<close> never fails for the members \<open>value_span\<close> reads.\<close>

lemma span_members_unguarded:
  assumes "reader inner"
  shows "span_members inner object close s =
     (if s = [] then None
      else if hd s = close then Some (tl s)
      else do {
        r \<leftarrow> span_member inner object s;
        let r = skip_space r in
        if r = [] then None
        else if hd r = close then Some (tl r)
        else if hd r \<noteq> 44 then None
        else let r = skip_space (tl r) in
          if r = [] \<or> hd r = close then None
          else span_members inner object close r })"
proof -
  have shorter: "length (skip_space (tl (skip_space r))) < length s" if "span_member inner object s = Some r" for r
    using span_member_suffix(2) [OF assms that] skip_space_le [of r] skip_space_le [of "tl (skip_space r)"] by simp
  show ?thesis
    unfolding span_members.simps [of inner object close s]
    by (cases "span_member inner object s") (auto simp: Let_def shorter)
qed

section \<open>Fields\<close>

function field_loop :: "bytes \<Rightarrow> bytes \<Rightarrow> bytes option" where
  "field_loop name s =
     (case value_span top_levels s of None \<Rightarrow> None
      | Some (key, r) \<Rightarrow>
        let r = skip_space r in
        if r = [] \<or> hd r \<noteq> 58 then None
        else case value_span top_levels (tl r) of None \<Rightarrow> None
          | Some (val, r') \<Rightarrow>
            if length key = length name + 2 \<and> hd key = 34 \<and> take (length name) (tl key) = name then Some val
            else let r' = skip_space r' in
              if r' = [] \<or> hd r' \<noteq> 44 then None else field_loop name (tl r'))"
  by pat_completeness auto
termination
proof (relation "measure (\<lambda>(name, s). length s)", goal_cases)
  case (2 name s x key r xa y val r' xb)
  have "length r < length s" "length r' < length (tl xa)"
    using 2 value_span_shorter by blast+
  moreover have "length xa \<le> length r" "length xb \<le> length r'"
    using 2 skip_space_le by auto
  ultimately show ?case using 2 by simp
qed simp

declare field_loop.simps [simp del]

definition field :: "bytes \<Rightarrow> bytes \<Rightarrow> bytes option" where
  "field object name =
     (let s = skip_space object in
      if length s < 2 \<or> hd s \<noteq> 123 then None else field_loop name (tl s))"

text \<open>The digits of a number, in 64 bits; an overflow is refused.\<close>

fun number_loop :: "bytes \<Rightarrow> u64 \<Rightarrow> u64 option" where
  "number_loop [] result = Some result"
| "number_loop (b # s) result =
     (if b < 48 \<or> b > 57 then None
      else let digit = ucast (b - 48) in
        if result > (- 1 - digit) div 10 then None
        else number_loop s (result * 10 + digit))"

definition number :: "bytes \<Rightarrow> u64 option" where
  "number s =
     (let s = (if length s \<ge> 2 \<and> hd s = 34 then take (length s - 2) (tl s) else s)
      in if length s = 0 \<or> length s > 20 then None else number_loop s 0)"

definition json_integer :: "bytes \<Rightarrow> bytes \<Rightarrow> u64" where
  "json_integer object name =
     (case field object name of None \<Rightarrow> 0
      | Some val \<Rightarrow> (case number val of None \<Rightarrow> 0 | Some result \<Rightarrow> result))"

definition coordinate :: "bytes \<Rightarrow> bytes \<Rightarrow> i32" where
  "coordinate object name =
     (case field object name of None \<Rightarrow> 0
      | Some val \<Rightarrow>
        let negative = (val \<noteq> [] \<and> hd val = 45);
            val = (if negative then tl val else val)
        in case number val of None \<Rightarrow> 0
           | Some result \<Rightarrow>
               if result > (if negative then 2147483648 else 2147483647) then 0
               else if negative then - ucast result else ucast result)"

definition truth :: "bytes \<Rightarrow> bytes \<Rightarrow> bool" where
  "truth object name \<longleftrightarrow> (case field object name of None \<Rightarrow> False | Some val \<Rightarrow> val = ascii ''true'')"

section \<open>Texts\<close>

definition hex :: "u8 \<Rightarrow> u32 option" where
  "hex b = (if 48 \<le> b \<and> b \<le> 57 then Some (ucast (b - 48))
            else if 97 \<le> b \<and> b \<le> 102 then Some (ucast (b - 97 + 10))
            else if 65 \<le> b \<and> b \<le> 70 then Some (ucast (b - 65 + 10))
            else None)"

fun hex_loop :: "bytes \<Rightarrow> u32 \<Rightarrow> u32 option" where
  "hex_loop [] code = Some code"
| "hex_loop (b # s) code = (case hex b of None \<Rightarrow> None | Some digit \<Rightarrow> hex_loop s (code * 16 + digit))"

definition unicode :: "bytes \<Rightarrow> (u32 \<times> bytes) option" where
  "unicode s = (if length s < 4 then None
                else case hex_loop (take 4 s) 0 of None \<Rightarrow> None | Some code \<Rightarrow> Some (code, drop 4 s))"

text \<open>The code point behind a \<open>\u\<close>: a pair of surrogates is one, a lone surrogate is none.\<close>

definition unicode_escape :: "bytes \<Rightarrow> (u32 \<times> bytes) option" where
  "unicode_escape s = do {
     (code, s) \<leftarrow> unicode s;
     if 0xd800 \<le> code \<and> code \<le> 0xdbff then
       if length s < 6 \<or> s ! 0 \<noteq> 92 \<or> s ! 1 \<noteq> 117 then None
       else do {
         (low, s) \<leftarrow> unicode (drop 2 s);
         if low < 0xdc00 \<or> low > 0xdfff then None
         else Some (0x10000 + push_bit 10 (code - 0xd800) + low - 0xdc00, s) }
     else if 0xdc00 \<le> code \<and> code \<le> 0xdfff then None
     else Some (code, s) }"

definition simple_escape :: "u8 \<Rightarrow> u8 option" where
  "simple_escape b =
     (if b = 110 then Some 10 else if b = 114 then Some 13 else if b = 116 then Some 9
      else if b = 98 then Some 8 else if b = 102 then Some 12
      else if b = 34 \<or> b = 92 \<or> b = 47 then Some b else None)"

lemma unicode_shorter: "unicode s = Some (code, r) \<Longrightarrow> length r < length s"
  by (auto simp: unicode_def split: if_splits option.splits)

lemma unicode_escape_shorter:
  assumes "unicode_escape s = Some (code, r)" shows "length r < length s"
proof -
  obtain first t where t: "unicode s = Some (first, t)" using assms by (auto simp: unicode_escape_def bind_eq_Some_conv)
  have "length r \<le> length t"
  proof (cases "r = t")
    case False
    then obtain low where "unicode (drop 2 t) = Some (low, r)"
      using assms t by (auto simp: unicode_escape_def bind_eq_Some_conv split: if_splits)
    from unicode_shorter [OF this] show ?thesis by simp
  qed simp
  with unicode_shorter [OF t] show ?thesis by simp
qed

text \<open>The body of a string, its bytes appended to a buffer; \<open>utf8_encode\<close> is the encoder of the source.\<close>

function text_loop :: "(nat \<Rightarrow> bool) \<Rightarrow> bytes \<Rightarrow> ksd_buffer \<Rightarrow> ksd_buffer option" where
  "text_loop alloc [] out = Some out"
| "text_loop alloc (b # s) out =
     (if b = 92 then
        (case s of [] \<Rightarrow> None
         | e # s' \<Rightarrow>
           if e = 117 then
             (case unicode_escape s' of None \<Rightarrow> None
              | Some (code, r) \<Rightarrow>
                (case ksd_buffer_bytes alloc (utf8_encode code) out of
                   (False, _) \<Rightarrow> None
                 | (True, out) \<Rightarrow> text_loop alloc r out))
           else (case simple_escape e of None \<Rightarrow> None
                 | Some c \<Rightarrow> (case ksd_buffer_bytes alloc [c] out of
                     (False, _) \<Rightarrow> None | (True, out) \<Rightarrow> text_loop alloc s' out)))
      else (case ksd_buffer_bytes alloc [b] out of
              (False, _) \<Rightarrow> None | (True, out) \<Rightarrow> text_loop alloc s out))"
  by pat_completeness auto
termination
  by (relation "measure (\<lambda>(alloc, s, out). length s)") (auto dest: unicode_escape_shorter)

definition json_text :: "(nat \<Rightarrow> bool) \<Rightarrow> bytes \<Rightarrow> bytes option" where
  "json_text alloc val =
     (if length val < 2 \<or> hd val \<noteq> 34 \<or> last val \<noteq> 34 then None
      else case text_loop alloc (take (length val - 2) (tl val)) (ksd_buffer_init KSD_MAX_TEXT_BYTES) of
        None \<Rightarrow> None
      | Some out \<Rightarrow>
          if ksd_utf8_valid (buf_data out) False \<and> fst (ksd_buffer_bytes alloc [0] out) then Some (buf_data out) else None)"

section \<open>Windows\<close>

definition window_names :: "bytes list" where
  "window_names = map ascii [''id'', ''title'', ''appId'', ''pid'', ''frame'', ''client'', ''visible'', ''active'',
     ''minimized'', ''maximized'', ''alwaysOnTop'', ''decorated'', ''transparency'', ''onCurrentWorkspace'',
     ''captureId'', ''parent'', ''surface'', ''buffer'', ''compositorId'']"

definition flag_names :: "bytes list" where
  "flag_names = map ascii [''visible'', ''active'', ''minimized'', ''maximized'', ''alwaysOnTop'', ''decorated'',
     ''onCurrentWorkspace'', ''topLevel'']"

text \<open>Whether a name is in the list of valid fields, from behind the opening bracket.\<close>

function listed :: "bytes \<Rightarrow> bytes \<Rightarrow> bool" where
  "listed name s =
     (case value_span top_levels s of None \<Rightarrow> False
      | Some (val, r) \<Rightarrow>
        let hit = (length val = length name + 2 \<and> take (length name) (tl val) = name);
            r = skip_space r
        in if r = [] \<or> hd r \<noteq> 44 then hit else hit \<or> listed name (tl r))"
  by pat_completeness auto
termination
  by (relation "measure (\<lambda>(name, s). length s)") (auto dest: value_span_next)

declare listed.simps [simp del]

definition field_valid :: "bytes \<Rightarrow> bytes \<Rightarrow> bool" where
  "field_valid object name \<longleftrightarrow>
     field object name \<noteq> None
     \<and> (case field object (ascii ''validFields'') of None \<Rightarrow> True
        | Some valid \<Rightarrow> length valid \<ge> 2 \<and> listed name (tl valid))"

definition valid_mask :: "bytes \<Rightarrow> u64" where
  "valid_mask object =
     fold (\<lambda>i mask. if field_valid object (window_names ! i) then mask OR push_bit i 1 else mask)
       [1..<length window_names] KSD_FIELD_ID"

definition flag_mask :: "bytes \<Rightarrow> u32" where
  "flag_mask object =
     fold (\<lambda>i mask. if truth object (flag_names ! i) then mask OR push_bit i 1 else mask) [0..<8] 0"

text \<open>A text field: absent leaves the string empty, malformed fails the record.\<close>

definition text_field :: "(nat \<Rightarrow> bool) \<Rightarrow> bytes \<Rightarrow> string \<Rightarrow> bytes option" where
  "text_field alloc object name =
     (case field object (ascii name) of None \<Rightarrow> Some [] | Some val \<Rightarrow> json_text alloc val)"

definition rect_field :: "bytes \<Rightarrow> string \<Rightarrow> i32 \<times> i32 \<times> u32 \<times> u32" where
  "rect_field object name =
     (case field object (ascii name) of None \<Rightarrow> (0, 0, 0, 0)
      | Some val \<Rightarrow> (coordinate val (ascii ''x''), coordinate val (ascii ''y''),
          ucast (json_integer val (ascii ''width'')), ucast (json_integer val (ascii ''height''))))"

definition window_object :: "bytes \<Rightarrow> bytes" where
  "window_object object =
     (if field object (ascii ''id'') = None
      then (case field object (ascii ''window'') of None \<Rightarrow> object | Some val \<Rightarrow> val) else object)"

definition ksd_state_window_json :: "(nat \<Rightarrow> bool) \<Rightarrow> bytes \<Rightarrow> ksd_window_record option" where
  "ksd_state_window_json alloc data =
     (let object = window_object data in do {
        id_value \<leftarrow> field object (ascii ''id'');
        handle \<leftarrow> number id_value;
        if handle = 0 then None else do {
        title \<leftarrow> text_field alloc object ''title'';
        app_id \<leftarrow> text_field alloc object ''appId'';
        capture_id \<leftarrow> text_field alloc object ''captureId'';
        compositor_id \<leftarrow> text_field alloc object ''compositorId'';
        let valid = valid_mask object;
            (fx, fy, fw, fh) = rect_field object ''frame'';
            (cx, cy, cw, ch) = rect_field object ''client'';
            (sx, sy, sw, sh) = rect_field object ''surface'';
            (bx, by, bw, bh) = rect_field object ''buffer'';
            derived = (valid AND KSD_FIELD_BUFFER \<noteq> 0 \<and> field object (ascii ''surface'') = None
                       \<and> field object (ascii ''buffer'') \<noteq> None);
            (sx, sy, sw, sh) = (if derived then (bx, by, bw, bh) else (sx, sy, sw, sh))
        in Some (ksd_window_record_init\<lparr>w_handle := handle,
             w_valid_fields := (if derived then valid OR KSD_FIELD_SURFACE else valid),
             w_title := title, w_app_id := app_id, w_capture_id := capture_id, w_compositor_id := compositor_id,
             w_pid := ucast (json_integer object (ascii ''pid'')), w_parent := json_integer object (ascii ''parent''),
             w_transparency := ucast (json_integer object (ascii ''transparency'')),
             w_frame_x := fx, w_frame_y := fy, w_frame_width := fw, w_frame_height := fh,
             w_client_x := cx, w_client_y := cy, w_client_width := cw, w_client_height := ch,
             w_surface_x := sx, w_surface_y := sy, w_surface_width := sw, w_surface_height := sh,
             w_buffer_width := bw, w_buffer_height := bh, w_flags := flag_mask object\<rparr>) } })"

definition ksd_state_window_is_child_json :: "bytes \<Rightarrow> bool" where
  "ksd_state_window_is_child_json data =
     (let object = window_object data;
          top = json_integer object (ascii ''topLevel'');
          id = json_integer object (ascii ''id'')
      in id \<noteq> 0 \<and> top \<noteq> 0 \<and> id \<noteq> top)"

text \<open>The window list: each window goes to the callback with its stacking position.\<close>

function windows_loop ::
  "(nat \<Rightarrow> bool) \<Rightarrow> (ksd_window_record \<Rightarrow> 's \<Rightarrow> bool \<times> 's) \<Rightarrow> bytes \<Rightarrow> u64 \<Rightarrow> 's \<Rightarrow> bool \<times> 's" where
  "windows_loop alloc callback s order ctx =
     (if s = [] then (False, ctx)
      else if hd s = 93 then (True, ctx)
      else case value_span top_levels s of None \<Rightarrow> (False, ctx)
        | Some (val, r) \<Rightarrow>
          case ksd_state_window_json alloc val of None \<Rightarrow> (False, ctx)
          | Some window \<Rightarrow>
            let window = window\<lparr>w_stacking_order := order, w_valid_fields := w_valid_fields window OR KSD_FIELD_STACKING_ORDER\<rparr>
            in case callback window ctx of
                 (False, ctx) \<Rightarrow> (False, ctx)
               | (True, ctx) \<Rightarrow>
                   let r = skip_space r in
                   if r = [] then (False, ctx)
                   else if hd r = 93 then (True, ctx)
                   else if hd r \<noteq> 44 then (False, ctx)
                   else windows_loop alloc callback (tl r) (order + 1) ctx)"
  by pat_completeness auto
termination
  by (relation "measure (\<lambda>(alloc, callback, s, order, ctx). length s)") (auto dest: value_span_next)

declare windows_loop.simps [simp del]

definition ksd_state_windows_json ::
  "(nat \<Rightarrow> bool) \<Rightarrow> bytes \<Rightarrow> (ksd_window_record \<Rightarrow> 's \<Rightarrow> bool \<times> 's) \<Rightarrow> 's \<Rightarrow> bool \<times> 's" where
  "ksd_state_windows_json alloc data callback ctx =
     (case field data (ascii ''windows'') of None \<Rightarrow> (False, ctx)
      | Some windows \<Rightarrow>
          if length windows < 2 \<or> hd windows \<noteq> 91 then (False, ctx)
          else windows_loop alloc callback (skip_space (tl windows)) 0 ctx)"

section \<open>The writer of JSON strings\<close>

definition hex_digit :: "u8 \<Rightarrow> u8" where
  "hex_digit n = ascii ''0123456789abcdef'' ! unat n"

definition json_escape :: "bool \<Rightarrow> u8 \<Rightarrow> bytes" where
  "json_escape latin1 b =
     (if b = 34 \<or> b = 92 then [92, b]
      else if b < 0x20 \<or> b = 0x7f \<or> latin1 \<and> b \<ge> 0x80
      then [92, 117, 48, 48, hex_digit (drop_bit 4 b), hex_digit (b AND 0x0f)]
      else [b])"

fun json_escape_all :: "(nat \<Rightarrow> bool) \<Rightarrow> bool \<Rightarrow> bytes \<Rightarrow> ksd_buffer \<Rightarrow> bool \<times> ksd_buffer" where
  "json_escape_all alloc latin1 [] out = (True, out)"
| "json_escape_all alloc latin1 (b # s) out =
     and_then (ksd_buffer_bytes alloc (json_escape latin1 b) out) (json_escape_all alloc latin1 s)"

definition ksd_buffer_json_string :: "(nat \<Rightarrow> bool) \<Rightarrow> bytes \<Rightarrow> bool \<Rightarrow> ksd_buffer \<Rightarrow> bool \<times> ksd_buffer" where
  "ksd_buffer_json_string alloc val latin1 out =
     and_then (ksd_buffer_bytes alloc [34] out) (\<lambda>out.
     and_then (json_escape_all alloc latin1 val out) (ksd_buffer_bytes alloc [34]))"

end
