(* ===== verification/Json_Spec.thy ===== *)
theory Json_Spec
  imports State_Json
begin

text \<open>
  What the JSON scanner of State\_Json reads: numbers are their decimal value or refused,
  a string that the service writes reads back as the same text, and a field of a
  well-formed object is the value of its first member of that name.
\<close>

section \<open>Numbers\<close>

definition is_digit :: "u8 \<Rightarrow> bool" where
  "is_digit b \<longleftrightarrow> 48 \<le> b \<and> b \<le> 57"

definition decimal_value :: "bytes \<Rightarrow> nat \<Rightarrow> nat" where
  "decimal_value s n = foldl (\<lambda>n b. n * 10 + (unat b - 48)) n s"

lemma decimal_value_Cons: "decimal_value (b # s) n = decimal_value s (n * 10 + (unat b - 48))"
  by (simp add: decimal_value_def)

lemma decimal_value_ge: "n \<le> decimal_value s n"
proof (induction s arbitrary: n)
  case (Cons b s)
  from Cons [of "n * 10 + (unat b - 48)"] show ?case by (simp add: decimal_value_Cons)
qed (simp add: decimal_value_def)

lemma digit_step:
  fixes b :: u8 and r :: u64
  assumes "48 \<le> b" "b \<le> 57"
  defines "d \<equiv> ucast (b - 48) :: u64"
  shows "unat d = unat b - 48" "r > (- 1 - d) div 10 \<longleftrightarrow> unat r * 10 + (unat b - 48) \<ge> 2 ^ 64"
    "\<not> r > (- 1 - d) div 10 \<Longrightarrow> unat (r * 10 + d) = unat r * 10 + (unat b - 48)"
proof -
  have sub: "unat (b - 48) = unat b - 48" using assms(1) by (simp add: unat_sub)
  show ud: "unat d = unat b - 48" using sub by (simp add: d_def unat_ucast_up)
  have small: "unat d \<le> 9" using ud assms(2) by (simp add: word_le_nat_alt)
  have max: "unat (- 1 - d) = 2 ^ 64 - 1 - unat d"
    by (subst unat_sub) (simp_all add: unsigned_minus_1_eq_mask mask_eq_exp_minus_1)
  have "unat ((- 1 - d) div 10) = (2 ^ 64 - 1 - unat d) div 10"
    by (simp add: unat_div max)
  then have gt: "r > (- 1 - d) div 10 \<longleftrightarrow> unat r > (2 ^ 64 - 1 - unat d) div 10"
    by (simp add: word_less_nat_alt)
  also have "\<dots> \<longleftrightarrow> unat r * 10 + unat d \<ge> 2 ^ 64"
    using small by (auto simp: div_less_iff_less_mult less_eq_div_iff_mult_less_eq not_le)
  finally show over: "r > (- 1 - d) div 10 \<longleftrightarrow> unat r * 10 + (unat b - 48) \<ge> 2 ^ 64" using ud by simp
  show "unat (r * 10 + d) = unat r * 10 + (unat b - 48)" if "\<not> r > (- 1 - d) div 10"
  proof -
    have fits: "unat r * 10 + unat d < 2 ^ 64" using that over ud by simp
    have "unat (r * 10 + d) = (unat r * 10 + unat d) mod 2 ^ 64"
      by (simp add: unat_word_ariths mod_simps)
    then show ?thesis using fits ud by simp
  qed
qed

lemma number_loop_exact:
  "number_loop s r = Some v \<longleftrightarrow> list_all is_digit s \<and> decimal_value s (unat r) < 2 ^ 64 \<and> v = of_nat (decimal_value s (unat r))"
proof (induction s arbitrary: r)
  case Nil
  show ?case using unat_lt [of r] by (auto simp: decimal_value_def)
next
  case (Cons b s)
  show ?case
  proof (cases "48 \<le> b \<and> b \<le> 57")
    case False
    then show ?thesis by (auto simp: is_digit_def not_le)
  next
    case True
    define d where "d = (ucast (b - 48) :: u64)"
    note step = digit_step [OF conjunct1 [OF True] conjunct2 [OF True], folded d_def]
    have dig: "is_digit b" "\<not> (b < 48 \<or> b > 57)" using True by (auto simp: is_digit_def)
    show ?thesis
    proof (cases "r > (- 1 - d) div 10")
      case over: True
      then have "2 ^ 64 \<le> decimal_value (b # s) (unat r)"
        using step(2) decimal_value_ge [of "unat r * 10 + (unat b - 48)" s] by (simp add: decimal_value_Cons)
      then show ?thesis using over dig by (simp add: d_def [symmetric])
    next
      case False
      then show ?thesis using Cons.IH [of "r * 10 + d"] step(3) dig by (simp add: d_def [symmetric] decimal_value_Cons)
    qed
  qed
qed

text \<open>The digits of a number span, without the quotes it may carry.\<close>

definition number_digits :: "bytes \<Rightarrow> bytes" where
  "number_digits s = (if length s \<ge> 2 \<and> hd s = 34 then take (length s - 2) (tl s) else s)"

text \<open>
  A number span is read as its decimal value, exactly when it is one to twenty
  digits, possibly between quotes, and the value fits 64 bits; every other span is
  refused, so no overflow can pass.
\<close>

theorem json_number_exact:
  "number s = Some v \<longleftrightarrow>
     (let t = number_digits s in 1 \<le> length t \<and> length t \<le> 20 \<and> list_all is_digit t
        \<and> decimal_value t 0 < 2 ^ 64 \<and> unat v = decimal_value t 0)"
proof -
  have "v = of_nat n \<longleftrightarrow> unat v = n" if "n < 2 ^ 64" for n
    using that by (auto simp: unat_of_nat_small)
  then show ?thesis
    using number_loop_exact [of "number_digits s" 0 v]
    by (auto simp: number_def number_digits_def Let_def Suc_le_eq)
qed

section \<open>Strings\<close>

text \<open>The quoted form the writer produces.\<close>

definition json_quote :: "bool \<Rightarrow> bytes \<Rightarrow> bytes" where
  "json_quote latin1 s = 34 # concat (map (json_escape latin1) s) @ [34]"

lemma escape_all_ok:
  "buffer_wf b \<Longrightarrow> json_escape_all alloc latin1 s b = (True, b') \<Longrightarrow>
     buffer_wf b' \<and> buf_data b' = buf_data b @ concat (map (json_escape latin1) s)"
proof (induction s arbitrary: b)
  case (Cons x s)
  then show ?case
    by (elim buffer_bytes_cases [of b alloc "json_escape latin1 x"]) (auto simp: and_then_def split: if_splits)
qed simp

lemma json_string_ok:
  assumes "buffer_wf b" "ksd_buffer_json_string alloc s latin1 b = (True, b')"
  shows "buf_data b' = buf_data b @ json_quote latin1 s"
proof -
  obtain b1 where b1: "ksd_buffer_bytes alloc [34] b = (True, b1)"
    using assms by (cases "ksd_buffer_bytes alloc [34] b") (auto simp: ksd_buffer_json_string_def and_then_def split: if_splits)
  then have wf1: "buffer_wf b1" "buf_data b1 = buf_data b @ [34]"
    using assms(1) by (auto elim: buffer_bytes_cases [of b alloc "[34]"])
  obtain b2 where b2: "json_escape_all alloc latin1 s b1 = (True, b2)" "ksd_buffer_bytes alloc [34] b2 = (True, b')"
    using assms(2) b1 by (cases "json_escape_all alloc latin1 s b1") (auto simp: ksd_buffer_json_string_def and_then_def split: if_splits)
  note e = escape_all_ok [OF wf1(1) b2(1)]
  then have "buf_data b' = buf_data b2 @ [34]" using b2(2) by (auto elim: buffer_bytes_cases [of b2 alloc "[34]"])
  with e wf1 show ?thesis by (simp add: json_quote_def)
qed

lemma below_cases: "(b :: u8) < 0x20 \<Longrightarrow> b \<in> set (map of_nat [0..<32])"
proof -
  assume "b < 0x20"
  then have "unat b < 32" by (simp add: word_less_nat_alt)
  moreover have "b = of_nat (unat b)" by simp
  ultimately show ?thesis by (metis atLeastLessThan_iff image_eqI set_map set_upt zero_le)
qed

lemma control_table:
  "list_all (\<lambda>b :: u8. hex_loop [48, 48, hex_digit (drop_bit 4 b), hex_digit (b AND 0x0f)] 0 = Some (ucast b)
     \<and> \<not> (0xd800 \<le> (ucast b :: u32)) \<and> utf8_encode (ucast b) = [b]
     \<and> list_all (\<lambda>h. h \<ge> 0x20 \<and> h \<noteq> 34 \<and> h \<noteq> 92) [hex_digit (drop_bit 4 b), hex_digit (b AND 0x0f)])
     (0x7f # map of_nat [0..<32])"
  by code_simp

lemma control_escape:
  assumes "b < 0x20 \<or> b = (0x7f :: u8)"
  shows "unicode_escape (48 # 48 # hex_digit (drop_bit 4 b) # hex_digit (b AND 0x0f) # r) = Some (ucast b, r)"
    "list_all (\<lambda>h. h \<ge> 0x20 \<and> h \<noteq> 34 \<and> h \<noteq> 92) [hex_digit (drop_bit 4 b), hex_digit (b AND 0x0f)]"
    "utf8_encode (ucast b) = [b]"
proof -
  have "b \<in> set (0x7f # map of_nat [0..<32])" using assms below_cases by auto
  note t = bspec [OF control_table [unfolded list_all_iff [of _ "0x7f # map of_nat [0..<32]"]] this]
  have code: "hex_loop [48, 48, hex_digit (drop_bit 4 b), hex_digit (b AND 0x0f)] 0 = Some (ucast b)"
    and low: "\<not> (0xd800 \<le> (ucast b :: u32))" using t by blast+
  have "\<not> (0xdc00 \<le> (ucast b :: u32))"
  proof
    assume "0xdc00 \<le> (ucast b :: u32)"
    then have "0xd800 \<le> (ucast b :: u32)" by (rule order_trans [rotated]) simp
    with low show False ..
  qed
  with low show "unicode_escape (48 # 48 # hex_digit (drop_bit 4 b) # hex_digit (b AND 0x0f) # r) = Some (ucast b, r)"
    using code by (simp only: unicode_escape_def unicode_def) simp
  show "list_all (\<lambda>h. h \<ge> 0x20 \<and> h \<noteq> 34 \<and> h \<noteq> 92) [hex_digit (drop_bit 4 b), hex_digit (b AND 0x0f)]"
    "utf8_encode (ucast b) = [b]" using t by blast+
qed

lemma escape_cases:
  obtains (quoted) "json_escape False b = [92, b]" "simple_escape b = Some b" "b \<noteq> 117"
  | (control) "json_escape False b = [92, 117, 48, 48, hex_digit (drop_bit 4 b), hex_digit (b AND 0x0f)]"
      "b < 0x20 \<or> b = 0x7f"
  | (plain) "json_escape False b = [b]" "b \<noteq> 34" "b \<noteq> 92" "b \<ge> 0x20"
proof (cases "b = 34 \<or> b = 92")
  case True
  then have "json_escape False b = [92, b]" "simple_escape b = Some b" "b \<noteq> 117"
    by (auto simp: json_escape_def simple_escape_def)
  then show thesis by (rule quoted)
next
  case False
  show thesis
  proof (cases "b < 0x20 \<or> b = 0x7f")
    case True
    then have "json_escape False b = [92, 117, 48, 48, hex_digit (drop_bit 4 b), hex_digit (b AND 0x0f)]"
      using False by (simp add: json_escape_def)
    then show thesis using True by (rule control)
  next
    case high: False
    then have "json_escape False b = [b]" using False by (simp add: json_escape_def)
    then show thesis using False high by (intro plain) (auto simp: not_less)
  qed
qed

lemma text_loop_escape:
  assumes "buffer_wf out" "length (buf_data out) < buf_maximum out"
  shows "\<exists>out'. text_loop (\<lambda>_. True) (json_escape False b @ r) out = text_loop (\<lambda>_. True) r out' \<and> buffer_wf out'
      \<and> buf_data out' = buf_data out @ [b] \<and> buf_maximum out' = buf_maximum out"
proof -
  have fit: "length (buf_data out) + length [b] \<le> buf_maximum out" using assms(2) by simp
  obtain out' where o: "ksd_buffer_bytes (\<lambda>_. True) [b] out = (True, out')" "buffer_wf out'"
    "buf_data out' = buf_data out @ [b]" "buf_maximum out' = buf_maximum out"
    using buffer_room [OF assms(1) fit] by blast
  have "text_loop (\<lambda>_. True) (json_escape False b @ r) out = text_loop (\<lambda>_. True) r out'"
  proof (cases b rule: escape_cases)
    case quoted
    then show ?thesis using o(1) by simp
  next
    case control
    then show ?thesis using o(1) control_escape(1,3) [OF control(2)] by simp
  next
    case plain
    then show ?thesis using o(1) by simp
  qed
  with o show ?thesis by blast
qed

lemma text_loop_quote:
  "buffer_wf out \<Longrightarrow> length (buf_data out) + length s \<le> buf_maximum out \<Longrightarrow>
     \<exists>out'. text_loop (\<lambda>_. True) (concat (map (json_escape False) s)) out = Some out' \<and> buffer_wf out'
       \<and> buf_data out' = buf_data out @ s \<and> buf_maximum out' = buf_maximum out"
proof (induction s arbitrary: out)
  case (Cons b s)
  obtain m where m: "text_loop (\<lambda>_. True) (json_escape False b @ concat (map (json_escape False) s)) out
      = text_loop (\<lambda>_. True) (concat (map (json_escape False) s)) m" "buffer_wf m" "buf_data m = buf_data out @ [b]"
    "buf_maximum m = buf_maximum out"
    using text_loop_escape [OF Cons.prems(1), of b] Cons.prems(2) by auto
  from Cons.IH [OF m(2)] Cons.prems(2) m show ?case by auto
qed simp

lemma string_rest_escape: "string_rest (json_escape False b @ r) = string_rest r"
proof (cases b rule: escape_cases)
  case quoted
  then show ?thesis by simp
next
  case control
  have t: "string_rest (h # r) = string_rest r" if "h \<ge> 0x20 \<and> h \<noteq> 34 \<and> h \<noteq> 92" for h r
    using that by (auto simp: not_less)
  have "string_rest (hex_digit (drop_bit 4 b) # hex_digit (b AND 0x0f) # r) = string_rest r"
    using control_escape(2) [OF control(2)] t [of "hex_digit (drop_bit 4 b)"] t [of "hex_digit (b AND 0x0f)"]
    by (simp del: string_rest.simps)
  then show ?thesis unfolding control(1) by (simp del: string_rest.simps(2) add: string_rest.simps(2) [of 92] string_rest.simps(2) [of 48])
next
  case plain
  then show ?thesis by (auto simp: not_less)
qed

lemma string_rest_quote: "string_rest (concat (map (json_escape False) s) @ 34 # r) = Some r"
  by (induction s) (simp_all add: string_rest_escape)

lemma top_levels_Suc: "top_levels = Suc 64"
  by (simp add: top_levels_def)

lemma value_span_string:
  assumes "string_rest (s @ 34 # r) = Some r"
  shows "value_span (Suc levels) (34 # s @ 34 # r) = Some (34 # s @ [34], r)"
proof -
  have "skip_space (34 # s @ 34 # r) = 34 # s @ 34 # r" by (simp add: skip_space_def is_space_def)
  then show ?thesis using assms by (simp add: Let_def)
qed

text \<open>
  C26: Text the service writes as a JSON string is read back unchanged. For UTF-8 text
  without NUL, shorter than four megabytes, what the writer appends is one JSON value to
  the scanner, whatever follows it, and that value decodes to the text.
\<close>

theorem json_string_round_trip:
  assumes "ksd_utf8_valid s False" and "length s < KSD_MAX_TEXT_BYTES" and "buffer_wf b"
    and "ksd_buffer_json_string alloc s False b = (True, b')"
  shows "\<exists>quoted. buf_data b' = buf_data b @ quoted
     \<and> value_span top_levels (quoted @ rest) = Some (quoted, rest)
     \<and> json_text (\<lambda>_. True) quoted = Some s"
proof (intro exI conjI)
  let ?q = "json_quote False s"
  show "buf_data b' = buf_data b @ ?q" using json_string_ok [OF assms(3,4)] .
  show "value_span top_levels (?q @ rest) = Some (?q, rest)"
    using value_span_string [OF string_rest_quote, of 64 s rest] by (simp add: json_quote_def top_levels_Suc)
  let ?i = "ksd_buffer_init KSD_MAX_TEXT_BYTES"
  have wf: "buffer_wf ?i" by (simp add: buffer_wf_def ksd_buffer_init_def)
  obtain out where out: "text_loop (\<lambda>_. True) (concat (map (json_escape False) s)) ?i = Some out" "buffer_wf out"
    "buf_data out = s" "buf_maximum out = KSD_MAX_TEXT_BYTES"
    using text_loop_quote [OF wf, of s] assms(2) by (auto simp: ksd_buffer_init_def)
  have room: "fst (ksd_buffer_bytes (\<lambda>_. True) [0] out)"
    using buffer_room [OF out(2), of "[0]"] assms(2) out(3,4) by fastforce
  have body: "take (length ?q - 2) (tl ?q) = concat (map (json_escape False) s)" "hd ?q = 34" "last ?q = 34" "\<not> length ?q < 2"
    by (simp_all add: json_quote_def)
  show "json_text (\<lambda>_. True) ?q = Some s"
    unfolding json_text_def body using assms(1) out room body(4) by simp
qed

theorem json_string_round_trip_witness:
  "\<exists>quoted. value_span top_levels (quoted @ [125]) = Some (quoted, [125]) \<and> json_text (\<lambda>_. True) quoted = Some [34, 10, 0x41]"
proof -
  have "fst (ksd_buffer_json_string (\<lambda>_. True) [34, 10, 0x41] False (ksd_buffer_init 64))" by code_simp
  then obtain b' where "ksd_buffer_json_string (\<lambda>_. True) [34, 10, 0x41] False (ksd_buffer_init 64) = (True, b')"
    by (metis prod.collapse)
  from json_string_round_trip [OF _ _ _ this, of "[125]"] show ?thesis
    by (auto simp: wire_defs buffer_wf_def ksd_buffer_init_def)
qed

section \<open>Objects\<close>

text \<open>
  JSON values as the scanner sees them: the bodies of strings and the other scalars stay
  raw. \<open>render\<close> writes them without spaces.
\<close>

datatype json = J_text bytes | J_scalar bytes | J_list "json list" | J_object "(bytes \<times> json) list"

definition separated :: "bytes list \<Rightarrow> bytes" where
  "separated parts = concat (case parts of [] \<Rightarrow> [] | p # ps \<Rightarrow> p # map (\<lambda>q. 44 # q) ps)"

fun render :: "json \<Rightarrow> bytes" where
  "render (J_text b) = 34 # b @ [34]"
| "render (J_scalar b) = b"
| "render (J_list vs) = 91 # separated (map render vs) @ [93]"
| "render (J_object ms) = 123 # separated (map (\<lambda>(k, v). 34 # k @ 34 # 58 # render v) ms) @ [125]"

definition text_body :: "bytes \<Rightarrow> bool" where
  "text_body b \<longleftrightarrow> (\<forall>r. string_rest (b @ 34 # r) = Some r)"

definition scalar_body :: "bytes \<Rightarrow> bool" where
  "scalar_body b \<longleftrightarrow> b \<noteq> [] \<and> list_all (\<lambda>c. \<not> scalar_end c) b \<and> hd b \<noteq> 34 \<and> hd b \<noteq> 123 \<and> hd b \<noteq> 91"

fun json_wf :: "json \<Rightarrow> bool" where
  "json_wf (J_text b) = text_body b"
| "json_wf (J_scalar b) = scalar_body b"
| "json_wf (J_list vs) = list_all json_wf vs"
| "json_wf (J_object ms) = list_all (\<lambda>(k, v). text_body k \<and> json_wf v) ms"

fun json_depth :: "json \<Rightarrow> nat" where
  "json_depth (J_list vs) = Suc (Max (insert 0 (set (map json_depth vs))))"
| "json_depth (J_object ms) = Suc (Max (insert 1 (set (map (\<lambda>(k, v). json_depth v) ms))))"
| "json_depth _ = 1"

text \<open>What may follow a value: nothing, a comma, a closing bracket or a space.\<close>

definition value_stop :: "bytes \<Rightarrow> bool" where
  "value_stop r \<longleftrightarrow> r = [] \<or> scalar_end (hd r)"

lemma scalar_end_simps [simp]: "scalar_end 44" "scalar_end 125" "scalar_end 93" "\<not> is_space 44" "\<not> is_space 125"
  "\<not> is_space 93" "\<not> is_space 34" "\<not> is_space 123" "\<not> is_space 91" "\<not> is_space 58"
  by (simp_all add: scalar_end_def is_space_def)

lemma skip_space_stop [simp]: "\<not> is_space b \<Longrightarrow> skip_space (b # s) = b # s"
  by (simp add: skip_space_def)

lemma render_start: "json_wf v \<Longrightarrow> render v \<noteq> [] \<and> \<not> scalar_end (hd (render v)) \<and> \<not> is_space (hd (render v))"
proof (cases v)
  case (J_scalar b)
  moreover assume "json_wf v"
  ultimately have "scalar_body b" by simp
  then have "b \<noteq> []" "\<not> scalar_end (hd b)" by (auto simp: scalar_body_def list_all_iff)
  then show ?thesis using J_scalar by (simp add: scalar_end_def)
qed (simp_all add: scalar_end_def is_space_def)

lemma skip_render [simp]: "json_wf v \<Longrightarrow> skip_space (render v @ r) = render v @ r"
  using render_start [of v] by (cases "render v") auto

lemma separated_Cons: "separated (p # ps) = p @ concat (map (\<lambda>q. 44 # q) ps)"
  by (simp add: separated_def)

lemma separated_Cons2: "separated (p # q # ps) = p @ 44 # separated (q # ps)"
  by (simp add: separated_def)

text \<open>The member loop on a rendered, non-empty sequence of members.\<close>

lemma span_members_render:
  assumes "reader inner"
    and member: "\<And>x r. x \<in> set xs \<Longrightarrow> value_stop r \<Longrightarrow> span_member inner object (f x @ r) = Some r"
    and start: "\<And>x. x \<in> set xs \<Longrightarrow> f x \<noteq> [] \<and> \<not> scalar_end (hd (f x))"
    and close: "scalar_end close" "close \<noteq> 44" "\<not> is_space close"
  shows "span_members inner object close (separated (map f xs) @ close # r) = Some r"
  using member start
proof (induction xs)
  case Nil
  show ?case by (simp add: span_members_unguarded [OF assms(1), of _ _ "close # r"] separated_def)
next
  case (Cons x xs)
  let ?tail = "case xs of [] \<Rightarrow> close # r | y # ys \<Rightarrow> 44 # separated (map f xs) @ close # r"
  let ?s = "separated (map f (x # xs)) @ close # r"
  have s: "?s = f x @ ?tail" by (cases xs) (simp_all add: separated_Cons separated_Cons2)
  have x: "f x \<noteq> []" "\<not> scalar_end (hd (f x))" using Cons.prems(2) by auto
  have ne: "?s \<noteq> []" "hd ?s \<noteq> close" using x close(1) by (auto simp: separated_Cons)
  have stop: "value_stop ?tail" using close(1) by (cases xs) (simp_all add: value_stop_def)
  have m: "span_member inner object ?s = Some ?tail" unfolding s using Cons.prems(1) stop by simp
  show ?case
  proof (cases xs)
    case Nil
    then show ?thesis
      using m ne close(3) by (subst span_members_unguarded [OF assms(1)]) simp
  next
    case (Cons y ys)
    let ?n = "separated (map f xs) @ close # r"
    have y: "f y \<noteq> []" "\<not> scalar_end (hd (f y))" using Cons Cons.prems by auto
    then have n: "?n \<noteq> []" "hd ?n \<noteq> close" "\<not> is_space (hd ?n)"
      using Cons close(1) by (auto simp: separated_Cons hd_append scalar_end_def)
    then have skip: "skip_space ?n = ?n" by (cases ?n) (auto simp: skip_space_def)
    have "span_members inner object close ?s = span_members inner object close ?n"
      using m ne n skip close(2) Cons by (subst span_members_unguarded [OF assms(1)]) (simp add: Let_def)
    then show ?thesis using Cons.IH Cons.prems by simp
  qed
qed

lemma value_span_Suc:
  assumes "t \<noteq> []" "\<not> is_space (hd t)"
  shows "value_span (Suc levels) t =
     Option.bind (if hd t = 34 then string_rest (tl t)
            else if hd t = 123 then span_members (value_span levels) True 125 (skip_space (tl t))
            else if hd t = 91 then span_members (value_span levels) False 93 (skip_space (tl t))
            else let r = dropWhile (\<lambda>b. \<not> scalar_end b) t in if r = t then None else Some r)
       (\<lambda>r. Some (take (length t - length r) t, r))"
proof -
  have "skip_space t = t" using assms by (cases t) (auto simp: skip_space_def)
  then show ?thesis using assms(1) by (simp add: Let_def)
qed

abbreviation render_member :: "bytes \<times> json \<Rightarrow> bytes" where
  "render_member m \<equiv> (case m of (k, v) \<Rightarrow> 34 # k @ 34 # 58 # render v)"

lemma render_member_span:
  assumes "text_body k" "value_span (Suc levels) (render v @ r) = Some (render v, r)"
  shows "span_member (value_span (Suc levels)) True (render_member (k, v) @ r) = Some r"
proof -
  have "value_span (Suc levels) (34 # k @ 34 # 58 # render v @ r) = Some (34 # k @ [34], 58 # render v @ r)"
    using assms(1) by (intro value_span_string) (simp add: text_body_def)
  then show ?thesis using assms(2) by (simp add: span_member_def del: value_span.simps)
qed

lemma skip_separated:
  "(\<And>x. x \<in> set xs \<Longrightarrow> f x \<noteq> [] \<and> \<not> is_space (hd (f x))) \<Longrightarrow> \<not> is_space close \<Longrightarrow>
     skip_space (separated (map f xs) @ close # r) = separated (map f xs) @ close # r"
  by (cases xs) (force simp: separated_def skip_space_def neq_Nil_conv)+

lemma value_span_render:
  "json_wf v \<Longrightarrow> json_depth v \<le> levels \<Longrightarrow> value_stop r \<Longrightarrow> value_span levels (render v @ r) = Some (render v, r)"
proof (induction v arbitrary: levels r)
  case (J_text b)
  then obtain l where "levels = Suc l" by (cases levels) auto
  then show ?case using J_text value_span_string [of b r l] by (simp add: text_body_def del: value_span.simps)
next
  case (J_scalar b)
  then obtain l where l: "levels = Suc l" by (cases levels) auto
  from J_scalar have b: "b \<noteq> []" "list_all (\<lambda>c. \<not> scalar_end c) b" "hd b \<noteq> 34" "hd b \<noteq> 123" "hd b \<noteq> 91"
    by (simp_all add: scalar_body_def)
  have drop: "dropWhile (\<lambda>b. \<not> scalar_end b) (b @ r) = r"
    using b(2) J_scalar(3) by (cases r) (auto simp: dropWhile_append list_all_iff value_stop_def)
  have "\<not> is_space (hd b)" using b(1,2) by (auto simp: list_all_iff scalar_end_def)
  then show ?case using b drop by (simp add: l value_span_Suc del: value_span.simps)
next
  case (J_list vs)
  then obtain l where l: "levels = Suc l" by (cases levels) auto
  have depth: "json_depth x \<le> l" if "x \<in> set vs" for x using J_list.prems(2) that l by simp
  let ?s = "separated (map render vs) @ 93 # r"
  have "span_members (value_span l) False 93 ?s = Some r"
  proof (rule span_members_render [OF value_span_reader])
    fix x r assume "x \<in> set vs" "value_stop r"
    then show "span_member (value_span l) False (render x @ r) = Some r"
      using J_list.IH [of x l r] J_list.prems(1) depth by (simp add: span_member_def list_all_iff)
  qed (use J_list.prems(1) render_start in \<open>auto simp: list_all_iff\<close>)
  moreover have "skip_space ?s = ?s"
    using J_list.prems(1) render_start by (intro skip_separated) (auto simp: list_all_iff)
  ultimately show ?case by (simp add: l value_span_Suc del: value_span.simps)
next
  case (J_object ms)
  then obtain l where l: "levels = Suc (Suc l)"
    by (cases levels; cases "levels - 1") auto
  have depth: "json_depth v \<le> Suc l" if "(k, v) \<in> set ms" for k v using J_object.prems(2) that l by force
  let ?s = "separated (map render_member ms) @ 125 # r"
  have "span_members (value_span (Suc l)) True 125 ?s = Some r"
  proof (rule span_members_render [OF value_span_reader])
    fix x r assume x: "x \<in> set ms" "value_stop r"
    obtain k v where kv: "x = (k, v)" by (cases x)
    then have "text_body k" "json_wf v" using J_object.prems(1) x(1) by (auto simp: list_all_iff)
    then show "span_member (value_span (Suc l)) True (render_member x @ r) = Some r"
      unfolding kv using J_object.IH [of x v "Suc l" r] depth x kv by (intro render_member_span) auto
  qed (auto simp: scalar_end_def is_space_def)
  moreover have "skip_space ?s = ?s" by (intro skip_separated) (auto simp: is_space_def)
  ultimately show ?case by (simp add: l value_span_Suc del: value_span.simps)
qed

lemma field_loop_render:
  assumes "list_all (\<lambda>(k, v). text_body k \<and> json_wf v \<and> json_depth v \<le> top_levels) ms" "ms \<noteq> []"
  shows "field_loop name (separated (map render_member ms) @ 125 # r) = map_option render (map_of ms name)"
  using assms
proof (induction ms)
  case (Cons m ms)
  obtain k v where kv: "m = (k, v)" by (cases m)
  have wf: "text_body k" "json_wf v" "json_depth v \<le> top_levels" using Cons.prems kv by auto
  let ?tail = "case ms of [] \<Rightarrow> 125 # r | _ \<Rightarrow> 44 # separated (map render_member ms) @ 125 # r"
  have s: "separated (map render_member (m # ms)) @ 125 # r = 34 # k @ 34 # 58 # render v @ ?tail"
    by (cases ms) (simp_all add: kv separated_Cons separated_Cons2)
  have key: "value_span top_levels (34 # k @ 34 # 58 # render v @ ?tail) = Some (34 # k @ [34], 58 # render v @ ?tail)"
    unfolding top_levels_Suc using wf(1) by (intro value_span_string) (simp add: text_body_def)
  have val: "value_span top_levels (render v @ ?tail) = Some (render v, ?tail)"
    using wf by (intro value_span_render) (auto simp: value_stop_def split: list.splits)
  have match: "length (34 # k @ [34]) = length name + 2 \<and> hd (34 # k @ [34]) = 34 \<and> take (length name) (tl (34 # k @ [34])) = name
      \<longleftrightarrow> k = name"
    by auto
  have loop: "field_loop name (34 # k @ 34 # 58 # render v @ ?tail) =
      (if k = name then Some (render v)
       else let r' = skip_space ?tail in if r' = [] \<or> hd r' \<noteq> 44 then None else field_loop name (tl r'))"
    unfolding field_loop.simps [of name "34 # k @ 34 # 58 # render v @ ?tail"] key using val match by simp
  show ?case
  proof (cases ms)
    case Nil
    then show ?thesis unfolding s loop by (simp add: kv)
  next
    case (Cons m' ms')
    then have "field_loop name (separated (map render_member ms) @ 125 # r) = map_option render (map_of ms name)"
      using Cons.IH Cons.prems by simp
    then show ?thesis unfolding s loop using Cons by (simp add: kv)
  qed
qed simp

text \<open>
  Looking up a field of a well-formed object, nested no deeper than the scanner
  allows, gives the value of its first member with that name, byte for byte, and nothing
  when no member has the name.
\<close>

theorem json_field_first:
  assumes "json_wf (J_object ms)" and "json_depth (J_object ms) \<le> Suc top_levels"
  shows "field (render (J_object ms)) name = map_option render (map_of ms name)"
proof (cases "ms = []")
  case True
  have "value_span top_levels [125] = None"
    unfolding top_levels_Suc by (subst value_span_Suc) simp_all
  then show ?thesis using True by (simp add: field_def separated_def field_loop.simps [of name "[125]"])
next
  case False
  have "list_all (\<lambda>(k, v). text_body k \<and> json_wf v \<and> json_depth v \<le> top_levels) ms"
    using assms by (force simp: list_all_iff)
  from field_loop_render [OF this False, of name "[]"] show ?thesis
    using False by (cases ms) (simp_all add: field_def)
qed

theorem json_field_first_witness:
  "field (render (J_object [(ascii ''id'', J_scalar (ascii ''7'')), (ascii ''id'', J_scalar (ascii ''8''))])) (ascii ''id'')
     = Some (ascii ''7'')"
proof -
  have "text_body (ascii ''id'')" by (simp add: text_body_def ascii_def)
  then show ?thesis
    using json_field_first [of "[(ascii ''id'', J_scalar (ascii ''7'')), (ascii ''id'', J_scalar (ascii ''8''))]" "ascii ''id''"]
    by (simp add: scalar_body_def scalar_end_def is_space_def ascii_def top_levels_def)
qed

end
