(* ===== verification/Effects.thy ===== *)
theory Effects
  imports "HOL-Library.State_Monad"
begin

text \<open>
  A small calculus for code that threads a state through calls to its surroundings. A
  computation is one of the state monad; \<open>wp m Q s\<close> says that running \<open>m\<close> from \<open>s\<close> ends
  with a result and a state that satisfy \<open>Q\<close>. Every computation of the monad ends, so the
  rules are equations.

  The state has three parts: the data of the running code, the world it runs in, and the
  log of what it did. The world is a type parameter. It stands for the rest of the
  system: the other threads, the other processes and the kernel. A call to the outside is
  a function on the world, and since such functions are arguments of the definitions that
  call them, a theorem about a definition holds for every behaviour of the rest of the
  system between two calls.
\<close>

section \<open>Weakest preconditions\<close>

definition wp :: "('s, 'a) state \<Rightarrow> ('a \<Rightarrow> 's \<Rightarrow> bool) \<Rightarrow> 's \<Rightarrow> bool" where
  "wp m Q s \<longleftrightarrow> (case run_state m s of (x, t) \<Rightarrow> Q x t)"

named_theorems wp_simps "equations that push a weakest precondition into a computation"

abbreviation return :: "'a \<Rightarrow> ('s, 'a) state" where
  "return \<equiv> State_Monad.return"

lemma wp_return [wp_simps]: "wp (return x) Q s = Q x s"
  by (simp add: wp_def)

lemma wp_bind [wp_simps]: "wp (State_Monad.bind m f) Q s = wp m (\<lambda>x. wp (f x) Q) s"
  by (simp add: wp_def split_def)

lemma wp_if [wp_simps]: "wp (if b then m else n) Q s = (if b then wp m Q s else wp n Q s)"
  by simp

lemma wp_let [wp_simps]: "wp (let x = e in f x) Q s = wp (f e) Q s"
  by (simp add: Let_def)

lemma wp_case_option [wp_simps]:
  "wp (case a of None \<Rightarrow> m | Some x \<Rightarrow> f x) Q s = (case a of None \<Rightarrow> wp m Q s | Some x \<Rightarrow> wp (f x) Q s)"
  by (simp split: option.split)

lemma wp_case_prod [wp_simps]:
  "wp (case p of (x, y) \<Rightarrow> f x y) Q s = (case p of (x, y) \<Rightarrow> wp (f x y) Q s)"
  by (simp split: prod.split)

lemma wp_mono: "wp m Q s \<Longrightarrow> (\<And>x t. Q x t \<Longrightarrow> R x t) \<Longrightarrow> wp m R s"
  by (auto simp: wp_def split: prod.splits)

lemma wp_conj: "wp m (\<lambda>x t. Q x t \<and> R x t) s \<longleftrightarrow> wp m Q s \<and> wp m R s"
  by (simp add: wp_def split_def)

lemma wp_run: "wp m Q s \<Longrightarrow> run_state m s = (x, t) \<Longrightarrow> Q x t"
  by (simp add: wp_def)

section \<open>Data, world and log\<close>

record ('d, 'w, 'e) run =
  rn_data :: 'd
  rn_world :: 'w
  rn_log :: "'e list"

type_synonym ('d, 'w, 'e, 'a) effect = "(('d, 'w, 'e) run, 'a) state"

text \<open>A call to the outside, and what the log says of it.\<close>

definition call :: "('w \<Rightarrow> 'a \<times> 'w) \<Rightarrow> ('a \<Rightarrow> 'e list) \<Rightarrow> ('d, 'w, 'e, 'a) effect" where
  "call f entry = State (\<lambda>s. case f (rn_world s) of
     (x, w) \<Rightarrow> (x, s\<lparr>rn_world := w, rn_log := rn_log s @ entry x\<rparr>))"

definition data :: "('d, 'w, 'e, 'd) effect" where
  "data = State (\<lambda>s. (rn_data s, s))"

definition update :: "('d \<Rightarrow> 'd) \<Rightarrow> ('d, 'w, 'e, unit) effect" where
  "update f = State (\<lambda>s. ((), s\<lparr>rn_data := f (rn_data s)\<rparr>))"

definition note_events :: "'e list \<Rightarrow> ('d, 'w, 'e, unit) effect" where
  "note_events es = State (\<lambda>s. ((), s\<lparr>rn_log := rn_log s @ es\<rparr>))"

lemma wp_data [wp_simps]: "wp data Q s = Q (rn_data s) s"
  by (simp add: wp_def data_def)

lemma wp_update [wp_simps]: "wp (update f) Q s = Q () (s\<lparr>rn_data := f (rn_data s)\<rparr>)"
  by (simp add: wp_def update_def)

lemma wp_note [wp_simps]: "wp (note_events es) Q s = Q () (s\<lparr>rn_log := rn_log s @ es\<rparr>)"
  by (simp add: wp_def note_events_def)

lemma wp_call: "wp (call f entry) Q s \<longleftrightarrow> (case f (rn_world s) of (x, w) \<Rightarrow> Q x (s\<lparr>rn_world := w, rn_log := rn_log s @ entry x\<rparr>))"
  by (simp add: wp_def call_def split: prod.splits)

text \<open>Running a computation on a concrete state.\<close>

named_theorems run_simps "equations that run a computation"

lemma run_parts [run_simps]:
  "run_state (call f entry) s = (case f (rn_world s) of (x, w) \<Rightarrow> (x, s\<lparr>rn_world := w, rn_log := rn_log s @ entry x\<rparr>))"
  "run_state data s = (rn_data s, s)" "run_state (update g) s = ((), s\<lparr>rn_data := g (rn_data s)\<rparr>)"
  "run_state (note_events es) s = ((), s\<lparr>rn_log := rn_log s @ es\<rparr>)"
  by (simp_all add: call_def data_def update_def note_events_def)

text \<open>The rule for a call whose answer may be anything.\<close>

lemma wp_any:
  "(\<And>x w. Q x (s\<lparr>rn_world := w, rn_log := rn_log s @ entry x\<rparr>)) \<Longrightarrow> wp (call f entry) Q s"
  by (simp add: wp_call split: prod.splits)

section \<open>What a computation adds to the log\<close>

text \<open>
  \<open>spec m P\<close>: running \<open>m\<close> only appends to the log, and the data before, the result, the
  data after and the new entries are related by \<open>P\<close>.
\<close>

definition spec :: "('d, 'w, 'e, 'a) effect \<Rightarrow> ('d \<Rightarrow> 'a \<Rightarrow> 'd \<Rightarrow> 'e list \<Rightarrow> bool) \<Rightarrow> bool" where
  "spec m P \<longleftrightarrow> (\<forall>s. wp m (\<lambda>x t. \<exists>es. rn_log t = rn_log s @ es \<and> P (rn_data s) x (rn_data t) es) s)"

lemma specI:
  "(\<And>s. wp m (\<lambda>x t. \<exists>es. rn_log t = rn_log s @ es \<and> P (rn_data s) x (rn_data t) es) s) \<Longrightarrow> spec m P"
  by (simp add: spec_def)

lemma spec_run:
  "spec m P \<Longrightarrow> run_state m s = (x, t) \<Longrightarrow> \<exists>es. rn_log t = rn_log s @ es \<and> P (rn_data s) x (rn_data t) es"
  by (auto simp: spec_def wp_def split: prod.splits)

text \<open>Using a specification inside the verification of a caller.\<close>

lemma spec_wp:
  assumes "spec m P"
    and "\<And>x d w es. P (rn_data s) x d es \<Longrightarrow> Q x (s\<lparr>rn_data := d, rn_world := w, rn_log := rn_log s @ es\<rparr>)"
  shows "wp m Q s"
proof -
  obtain x t where t: "run_state m s = (x, t)" by force
  obtain es where es: "rn_log t = rn_log s @ es" "P (rn_data s) x (rn_data t) es" using spec_run [OF assms(1) t] by blast
  have eq: "s\<lparr>rn_data := rn_data t, rn_world := rn_world t, rn_log := rn_log s @ es\<rparr> = t" using es(1) by (cases s; cases t) simp
  show ?thesis using assms(2) [OF es(2), of "rn_world t"] t unfolding wp_def eq by simp
qed

lemma spec_weaken: "spec m P \<Longrightarrow> (\<And>d x d' es. P d x d' es \<Longrightarrow> Q d x d' es) \<Longrightarrow> spec m Q"
  unfolding spec_def by (blast intro: wp_mono)

lemma spec_conj: "spec m P \<Longrightarrow> spec m Q \<Longrightarrow> spec m (\<lambda>d x d' es. P d x d' es \<and> Q d x d' es)"
  unfolding spec_def wp_def by (fastforce split: prod.splits)

lemma spec_return: "(\<And>d. P d x d []) \<Longrightarrow> spec (return x) P"
  by (rule specI) (simp add: wp_simps)

lemma spec_data: "(\<And>d. P d d d []) \<Longrightarrow> spec data P"
  by (rule specI) (simp add: wp_simps)

lemma spec_update: "(\<And>d. P d () (f d) []) \<Longrightarrow> spec (update f) P"
  by (rule specI) (simp add: wp_simps)

lemma spec_note: "(\<And>d. P d () d es) \<Longrightarrow> spec (note_events es) P"
  by (rule specI) (simp add: wp_simps)

lemma spec_call: "(\<And>d x. P d x d (entry x)) \<Longrightarrow> spec (call f entry) P"
  by (rule specI) (simp add: wp_call split: prod.splits)

lemma spec_bind:
  assumes "spec m P" and "\<And>x. spec (f x) (R x)"
    and "\<And>d x d' y d'' es fs. P d x d' es \<Longrightarrow> R x d' y d'' fs \<Longrightarrow> Q d y d'' (es @ fs)"
  shows "spec (State_Monad.bind m f) Q"
proof (rule specI)
  fix s :: "('a, 'b, 'c) run"
  show "wp (State_Monad.bind m f) (\<lambda>x t. \<exists>es. rn_log t = rn_log s @ es \<and> Q (rn_data s) x (rn_data t) es) s"
    unfolding wp_bind
  proof (rule spec_wp [OF assms(1)])
    fix x d w es
    assume p: "P (rn_data s) x d es"
    show "wp (f x) (\<lambda>y t. \<exists>fs. rn_log t = rn_log s @ fs \<and> Q (rn_data s) y (rn_data t) fs) (s\<lparr>rn_data := d, rn_world := w, rn_log := rn_log s @ es\<rparr>)"
      by (rule spec_wp [OF assms(2)]) (use assms(3) [OF p] in auto)
  qed
qed

text \<open>The continuation has to be specified only for the results that the first computation can give.\<close>

lemma spec_bind_if:
  assumes "spec m P" and "\<And>x d d' es. P d x d' es \<Longrightarrow> spec (f x) (R x)"
    and "\<And>d x d' y d'' es fs. P d x d' es \<Longrightarrow> R x d' y d'' fs \<Longrightarrow> Q d y d'' (es @ fs)"
  shows "spec (State_Monad.bind m f) Q"
proof (rule specI)
  fix s :: "('a, 'b, 'c) run"
  show "wp (State_Monad.bind m f) (\<lambda>x t. \<exists>es. rn_log t = rn_log s @ es \<and> Q (rn_data s) x (rn_data t) es) s"
    unfolding wp_bind
  proof (rule spec_wp [OF assms(1)])
    fix x d w es
    assume p: "P (rn_data s) x d es"
    show "wp (f x) (\<lambda>y t. \<exists>fs. rn_log t = rn_log s @ fs \<and> Q (rn_data s) y (rn_data t) fs) (s\<lparr>rn_data := d, rn_world := w, rn_log := rn_log s @ es\<rparr>)"
      by (rule spec_wp [OF assms(2) [OF p]]) (use assms(3) [OF p] in auto)
  qed
qed

section \<open>Properties of the log that chaining keeps\<close>

text \<open>
  A property of the entries a computation adds that holds of no entries and of two runs
  one after the other. \<open>keeps m\<close> says the entries of every run of \<open>m\<close> have it.
\<close>

locale log_property =
  fixes K :: "'e list \<Rightarrow> bool"
  assumes none: "K []"
    and join: "K es \<Longrightarrow> K fs \<Longrightarrow> K (es @ fs)"
begin

definition keeps :: "('d, 'w, 'e, 'a) effect \<Rightarrow> bool" where
  "keeps m \<longleftrightarrow> spec m (\<lambda>d x d' es. K es)"

lemma keeps_return: "keeps (return x)"
  by (simp add: keeps_def spec_return none)

lemma keeps_data: "keeps data"
  by (simp add: keeps_def spec_data none)

lemma keeps_update: "keeps (update f)"
  by (simp add: keeps_def spec_update none)

lemma keeps_note: "K es \<Longrightarrow> keeps (note_events es)"
  by (simp add: keeps_def spec_note)

lemma keeps_call: "(\<And>x. K (entry x)) \<Longrightarrow> keeps (call f entry)"
  by (simp add: keeps_def spec_call)

lemma keeps_bind: "keeps m \<Longrightarrow> (\<And>x. keeps (f x)) \<Longrightarrow> keeps (State_Monad.bind m f)"
  unfolding keeps_def by (rule spec_bind [where P = "\<lambda>_ _ _. K" and R = "\<lambda>_ _ _ _. K"]) (auto intro: join)

lemma keeps_if: "(b \<Longrightarrow> keeps m) \<Longrightarrow> (\<not> b \<Longrightarrow> keeps n) \<Longrightarrow> keeps (if b then m else n)"
  by simp

lemma keeps_option: "(a = None \<Longrightarrow> keeps m) \<Longrightarrow> (\<And>x. a = Some x \<Longrightarrow> keeps (f x)) \<Longrightarrow> keeps (case a of None \<Rightarrow> m | Some x \<Rightarrow> f x)"
  by (cases a) simp_all

lemma keeps_prod: "(\<And>x y. p = (x, y) \<Longrightarrow> keeps (f x y)) \<Longrightarrow> keeps (case p of (x, y) \<Rightarrow> f x y)"
  by (cases p) simp

lemma keeps_let: "keeps (f e) \<Longrightarrow> keeps (let x = e in f x)"
  by (simp add: Let_def)

lemmas keeps_rules = keeps_return keeps_data keeps_update keeps_call keeps_note keeps_bind keeps_if keeps_option keeps_prod keeps_let

lemma keeps_run:
  "keeps m \<Longrightarrow> run_state m s = (x, t) \<Longrightarrow> \<exists>es. rn_log t = rn_log s @ es \<and> K es"
  unfolding keeps_def by (drule spec_run) auto

end

section \<open>Relations between the data and the entries that chaining keeps\<close>

text \<open>
  The same for properties that also relate the data before and after. \<open>steps m\<close> says that
  every run of \<open>m\<close> is related.
\<close>

locale run_property =
  fixes R :: "'d \<Rightarrow> 'd \<Rightarrow> 'e list \<Rightarrow> bool"
  assumes start: "R d d []"
    and chain: "R d d' es \<Longrightarrow> R d' d'' fs \<Longrightarrow> R d d'' (es @ fs)"
begin

definition steps :: "('d, 'w, 'e, 'a) effect \<Rightarrow> bool" where
  "steps m \<longleftrightarrow> spec m (\<lambda>d x d' es. R d d' es)"

lemma steps_return: "steps (return x)"
  by (simp add: steps_def spec_return start)

lemma steps_data: "steps data"
  by (simp add: steps_def spec_data start)

lemma steps_update: "(\<And>d. R d (f d) []) \<Longrightarrow> steps (update f)"
  by (simp add: steps_def spec_update)

lemma steps_note: "(\<And>d. R d d es) \<Longrightarrow> steps (note_events es)"
  by (simp add: steps_def spec_note)

lemma steps_call: "(\<And>d x. R d d (entry x)) \<Longrightarrow> steps (call f entry)"
  by (simp add: steps_def spec_call)

lemma steps_bind: "steps m \<Longrightarrow> (\<And>x. steps (f x)) \<Longrightarrow> steps (State_Monad.bind m f)"
  unfolding steps_def by (rule spec_bind [where P = "\<lambda>d _ d' es. R d d' es" and R = "\<lambda>_ d _ d' es. R d d' es"]) (auto intro: chain)

lemma steps_if: "(b \<Longrightarrow> steps m) \<Longrightarrow> (\<not> b \<Longrightarrow> steps n) \<Longrightarrow> steps (if b then m else n)"
  by simp

lemma steps_option: "(a = None \<Longrightarrow> steps m) \<Longrightarrow> (\<And>x. a = Some x \<Longrightarrow> steps (f x)) \<Longrightarrow> steps (case a of None \<Rightarrow> m | Some x \<Rightarrow> f x)"
  by (cases a) simp_all

lemma steps_prod: "(\<And>x y. p = (x, y) \<Longrightarrow> steps (f x y)) \<Longrightarrow> steps (case p of (x, y) \<Rightarrow> f x y)"
  by (cases p) simp

lemma steps_let: "steps (f e) \<Longrightarrow> steps (let x = e in f x)"
  by (simp add: Let_def)

lemmas steps_rules = steps_return steps_data steps_update steps_call steps_note steps_bind steps_if steps_option steps_prod steps_let

lemma steps_spec: "steps m \<Longrightarrow> spec m (\<lambda>d x d' es. R d d' es)"
  by (simp add: steps_def)

end

end
