(* ===== verification/Lease.thy ===== *)
theory Lease
  imports Registry State_Json Frame
begin

text \<open>
  The lease a client holds (src/src/authorityd.c): its record, the frames written to its
  connection, the table of windows kept for it and the events that report every change
  of the table, and the comparison of the table with what an operation asked for.

  A critical section under the lease's mutex is a function on the record. \<open>outcomes\<close> are
  the answers of the kernel to the non-blocking sends of one frame, and \<open>alloc\<close> says
  whether an allocation succeeds. Waking the waiters of the condition variable has no
  counterpart in the record; the waiting loop reads it again at every wake-up.
\<close>

section \<open>The record\<close>

record authority_lease =
  le_id :: u64
  le_epoch :: u64
  le_sequences :: "u64 list"
  le_references :: nat
  le_active :: bool
  le_identity :: ksp_identity
  le_requested_scopes :: u32
  le_granted_scopes :: u32
  le_domains :: u32
  le_generation :: u64
  le_windows :: "ksd_window_record list"
  le_snapshot_windows :: "ksd_window_record list"
  le_snapshot_pending :: bool
  le_client_fd :: int
  le_window_refresh_fd :: int
  le_window_refresh_at :: u64

section \<open>Writing to the lease connection\<close>

datatype send_outcome = Sent_Bytes nat | Send_Interrupted | Send_Failed

text \<open>The send loop: whether everything went out, and the bytes that did.\<close>

fun send_loop :: "send_outcome list \<Rightarrow> bytes \<Rightarrow> bool \<times> bytes" where
  "send_loop outcomes [] = (True, [])"
| "send_loop [] data = (False, [])"
| "send_loop (Sent_Bytes n # outcomes) data =
     (if n = 0 then (False, [])
      else let (ok, out) = send_loop outcomes (drop n data) in (ok, take n data @ out))"
| "send_loop (Send_Interrupted # outcomes) data = send_loop outcomes data"
| "send_loop (Send_Failed # outcomes) data = (False, [])"

definition write_lease_frame :: "(nat \<Rightarrow> bool) \<Rightarrow> send_outcome list \<Rightarrow> ksd_frame \<Rightarrow> bool \<times> bytes" where
  "write_lease_frame alloc outcomes frame =
     (let (ok, packed) = ksd_frame_pack alloc frame (ksd_buffer_init (KSD_MAX_TEXT_BYTES + 512))
      in if ok then send_loop outcomes (buf_data packed) else (False, []))"

function domain_index_loop :: "u32 \<Rightarrow> nat \<Rightarrow> nat" where
  "domain_index_loop domain index =
     (let domain = drop_bit 1 domain in if domain \<noteq> 0 then domain_index_loop domain (Suc index) else index)"
  by pat_completeness auto
termination
proof (relation "measure (\<lambda>(domain, index). unat domain)", goal_cases)
  case (2 domain index x)
  have "unat (domain div 2) = unat domain div 2" by (simp add: unat_div)
  moreover have "unat domain \<noteq> 0" using 2 by (auto simp: unat_eq_0)
  ultimately show ?case using 2 by (simp add: drop_bit_eq_div)
qed simp

declare domain_index_loop.simps [simp del]

definition domain_index :: "u32 \<Rightarrow> nat" where
  "domain_index domain = domain_index_loop domain 0"

definition state_event_frame :: "bytes \<Rightarrow> ksd_frame" where
  "state_event_frame payload =
     frame_zero\<lparr>fr_magic := public_magic, fr_major := KSD_PROTOCOL_MAJOR, fr_minor := KSD_PROTOCOL_MINOR,
       fr_opcode := KSD_OP_STATE_EVENT, fr_flags := KSD_FLAG_EVENT, fr_payload := Some payload,
       fr_payload_length := of_nat (length payload)\<rparr>"

text \<open>The event as it is sent, stamped with the lease's epoch and the sequence of its domain.\<close>

definition stamped :: "authority_lease \<Rightarrow> ksd_state_event \<Rightarrow> ksd_state_event" where
  "stamped lease event =
     event\<lparr>ev_epoch := le_epoch lease, ev_sequence := le_sequences lease ! domain_index (ev_domain event)\<rparr>"

text \<open>A lease whose connection failed grants nothing any more.\<close>

definition lease_deactivate :: "authority_lease \<Rightarrow> authority_lease" where
  "lease_deactivate lease = lease\<lparr>le_active := False, le_granted_scopes := 0\<rparr>"

definition lease_emit ::
  "(nat \<Rightarrow> bool) \<Rightarrow> send_outcome list \<Rightarrow> ksd_state_event \<Rightarrow> authority_lease \<Rightarrow> bool \<times> authority_lease" where
  "lease_emit alloc outcomes event lease =
     (if \<not> le_active lease then (False, lease)
      else
        let (ok, payload) = ksd_state_event_encode alloc (stamped lease event) (ksd_buffer_init (KSD_MAX_TEXT_BYTES + 256));
            ok = (ok \<and> fst (write_lease_frame alloc outcomes (state_event_frame (buf_data payload))))
        in if ok then (True, lease) else (False, lease_deactivate lease))"

definition bump :: "nat \<Rightarrow> authority_lease \<Rightarrow> authority_lease" where
  "bump i lease = lease\<lparr>le_sequences := (le_sequences lease)[i := le_sequences lease ! i + 1]\<rparr>"

section \<open>Creating, binding and releasing\<close>

text \<open>\<open>random\<close> are the two words \<open>getrandom\<close> delivered, \<open>None\<close> when it failed.\<close>

definition lease_create ::
  "bool \<Rightarrow> (u64 \<times> u64) option \<Rightarrow> bool \<Rightarrow> ksp_identity \<Rightarrow> u32 \<Rightarrow> u32 \<Rightarrow> u64 \<Rightarrow> int \<Rightarrow>
     authority_lease list \<Rightarrow> (authority_lease \<times> authority_lease list) option" where
  "lease_create memory random condition identity requested granted generation client_fd leases =
     (if \<not> memory then None
      else case random of None \<Rightarrow> None
        | Some (lease_id, epoch) \<Rightarrow>
          if lease_id = 0 \<or> epoch = 0 then None
          else if \<not> condition then None
          else let lease = \<lparr>le_id = lease_id, le_epoch = epoch, le_sequences = [0, 0, 0, 0, 0], le_references = 1,
                 le_active = True, le_identity = identity, le_requested_scopes = requested,
                 le_granted_scopes = granted, le_domains = 0, le_generation = generation, le_windows = [],
                 le_snapshot_windows = [], le_snapshot_pending = False, le_client_fd = client_fd,
                 le_window_refresh_fd = -1, le_window_refresh_at = 0\<rparr>
               in Some (lease, lease # leases))"

definition lease_bindable :: "u64 \<Rightarrow> u32 \<Rightarrow> i32 \<Rightarrow> authority_lease \<Rightarrow> bool" where
  "lease_bindable lease_id uid pid lease \<longleftrightarrow>
     le_id lease = lease_id \<and> le_active lease \<and> id_uid (le_identity lease) = uid \<and> id_pid (le_identity lease) = pid"

definition lease_bind ::
  "u64 \<Rightarrow> u32 \<Rightarrow> i32 \<Rightarrow> authority_lease list \<Rightarrow> nat option \<times> authority_lease list" where
  "lease_bind lease_id uid pid leases =
     (case first_index (lease_bindable lease_id uid pid) leases of
        None \<Rightarrow> (None, leases)
      | Some i \<Rightarrow> (Some i, leases[i := (leases ! i)\<lparr>le_references := le_references (leases ! i) + 1\<rparr>]))"

text \<open>Dropping a reference to the lease at a position of the list; the last one unlinks it.\<close>

definition lease_release :: "nat \<Rightarrow> authority_lease list \<Rightarrow> bool \<times> authority_lease list" where
  "lease_release i leases =
     (let lease = (leases ! i)\<lparr>le_references := le_references (leases ! i) - 1\<rparr>
      in if le_references lease = 0 then (True, take i leases @ drop (Suc i) leases)
         else (False, leases[i := lease]))"

section \<open>The window table\<close>

definition window_slot :: "u64 \<Rightarrow> ksd_window_record list \<Rightarrow> nat option" where
  "window_slot handle windows = first_index (\<lambda>w. w_handle w = handle) windows"

definition window_found :: "u64 \<Rightarrow> ksd_window_record list \<Rightarrow> ksd_window_record option" where
  "window_found handle windows = map_option (nth windows) (window_slot handle windows)"

text \<open>The place of a window whose report does not say where it is stacked.\<close>

definition stack_above :: "ksd_window_record list \<Rightarrow> u64 \<Rightarrow> u64" where
  "stack_above windows order = fold (\<lambda>w order. if w_stacking_order w \<ge> order then w_stacking_order w + 1 else order) windows order"

definition place_window :: "ksd_window_record option \<Rightarrow> ksd_window_record list \<Rightarrow> ksd_window_record \<Rightarrow> ksd_window_record" where
  "place_window old windows w =
     (if w_valid_fields w AND KSD_FIELD_STACKING_ORDER = 0
      then w\<lparr>w_valid_fields := w_valid_fields w OR KSD_FIELD_STACKING_ORDER,
             w_stacking_order := (case old of Some o' \<Rightarrow> w_stacking_order o'
                                  | None \<Rightarrow> stack_above windows (w_stacking_order w))\<rparr>
      else w)"

text \<open>The first difference that counts decides what the event is called.\<close>

definition change_kind :: "ksd_window_record \<Rightarrow> ksd_window_record \<Rightarrow> u32" where
  "change_kind old new =
     (let changed = w_flags old XOR w_flags new in
      if changed AND KSD_WINDOW_VISIBLE \<noteq> 0
      then if w_flags new AND KSD_WINDOW_VISIBLE \<noteq> 0 then KSD_STATE_SHOW else KSD_STATE_HIDE
      else if changed AND KSD_WINDOW_ACTIVE \<noteq> 0 then KSD_STATE_ACTIVE
      else if take 12 (window_values old) \<noteq> take 12 (window_values new) then KSD_STATE_GEOMETRY
      else if w_title old \<noteq> w_title new then KSD_STATE_TITLE
      else KSD_STATE_CHANGED)"

text \<open>What \<open>state_window_apply\<close> does before it emits: refuse, accept silently, or report an event.\<close>

datatype window_effect = Window_Refused authority_lease | Window_Silent authority_lease
  | Window_Report authority_lease ksd_state_event

definition store_window ::
  "(nat \<Rightarrow> bool) \<Rightarrow> ksd_window_record \<Rightarrow> nat option \<Rightarrow> ksd_window_record list \<Rightarrow> bool \<times> ksd_window_record list" where
  "store_window alloc w slot windows =
     (let (i, windows) = (case slot of Some i \<Rightarrow> (i, windows) | None \<Rightarrow> (length windows, windows @ [ksd_window_record_init]))
      in case ksd_state_window_copy alloc w of
           None \<Rightarrow> (False, windows[i := ksd_window_record_init])
         | Some copy \<Rightarrow> (True, windows[i := copy]))"

text \<open>The branch of a window that is reported, with its stacking place decided.\<close>

definition store_effect ::
  "(nat \<Rightarrow> bool) \<Rightarrow> bool \<Rightarrow> bool \<Rightarrow> (ksd_window_record list \<Rightarrow> authority_lease) \<Rightarrow> nat option \<Rightarrow>
     ksd_window_record list \<Rightarrow> ksd_state_event \<Rightarrow> authority_lease \<Rightarrow> window_effect" where
  "store_effect alloc memory item keep slot windows event lease =
     (let old = map_option (nth windows) slot; w = ev_window event in
      if \<not> item \<and> old \<noteq> None \<and> ksd_state_window_equal (the old) w then Window_Silent lease
      else if old = None \<and> \<not> memory then Window_Refused lease
      else
        let event = (if item then event
                     else event\<lparr>ev_kind := (case old of None \<Rightarrow> KSD_STATE_CREATE | Some v \<Rightarrow> change_kind v w)\<rparr>);
            (ok, ws) = store_window alloc w slot windows
        in if \<not> ok then Window_Refused (keep ws)
           else Window_Report (if item then keep ws else bump 0 (keep ws)) event)"

definition window_effect :: "(nat \<Rightarrow> bool) \<Rightarrow> bool \<Rightarrow> ksd_state_event \<Rightarrow> authority_lease \<Rightarrow> window_effect" where
  "window_effect alloc memory event lease =
     (if ev_kind event = KSD_STATE_SNAPSHOT_BEGIN then
        Window_Report (bump 0 lease\<lparr>le_snapshot_pending := True, le_snapshot_windows := []\<rparr>) event
      else if ev_kind event = KSD_STATE_SNAPSHOT_END then
        if \<not> le_snapshot_pending lease then Window_Refused lease
        else Window_Report (lease\<lparr>le_windows := le_snapshot_windows lease, le_snapshot_windows := [],
               le_snapshot_pending := False\<rparr>) event
      else
        let item = (ev_kind event = KSD_STATE_SNAPSHOT_ITEM) in
        if item \<and> \<not> le_snapshot_pending lease then Window_Refused lease
        else
          let windows = (if item then le_snapshot_windows lease else le_windows lease);
              keep = (\<lambda>ws. if item then lease\<lparr>le_snapshot_windows := ws\<rparr> else lease\<lparr>le_windows := ws\<rparr>);
              slot = window_slot (w_handle (ev_window event)) windows;
              old = map_option (nth windows) slot
          in if ev_kind event = KSD_STATE_DESTROY then
               (case slot of None \<Rightarrow> Window_Silent lease
                | Some i \<Rightarrow> Window_Report (bump 0 (keep (take i windows @ drop (Suc i) windows))) event)
             else store_effect alloc memory item keep slot windows
                    (event\<lparr>ev_window := place_window old (le_windows lease) (ev_window event)\<rparr>) lease)"

definition state_window_apply ::
  "(nat \<Rightarrow> bool) \<Rightarrow> bool \<Rightarrow> send_outcome list \<Rightarrow> ksd_state_event \<Rightarrow> authority_lease \<Rightarrow>
     bool \<times> authority_lease \<times> ksd_state_event option" where
  "state_window_apply alloc memory outcomes event lease =
     (case window_effect alloc memory event lease of
        Window_Refused lease' \<Rightarrow> (False, lease', None)
      | Window_Silent lease' \<Rightarrow> (True, lease', None)
      | Window_Report lease' event' \<Rightarrow>
          (case lease_emit alloc outcomes event' lease' of
             (ok, lease'') \<Rightarrow> (ok, lease'', if ok then Some (stamped lease' event') else None)))"

section \<open>Whether an operation took effect\<close>

definition KSD_WINDOW_STATE_MINIMIZED :: u32 where
  [wire_defs]: "KSD_WINDOW_STATE_MINIMIZED = 1"

definition KSD_WINDOW_STATE_MAXIMIZED :: u32 where
  [wire_defs]: "KSD_WINDOW_STATE_MAXIMIZED = 2"

definition KSD_WINDOW_STATE_UNMINIMIZED :: u32 where
  [wire_defs]: "KSD_WINDOW_STATE_UNMINIMIZED = 3"

definition INT32_MIN :: i32 where
  [wire_defs]: "INT32_MIN = 0x80000000"

definition stack_edge :: "bool \<Rightarrow> ksd_window_record list \<Rightarrow> u64 \<Rightarrow> u64" where
  "stack_edge raise windows edge =
     fold (\<lambda>w edge. if raise \<and> w_stacking_order w > edge then w_stacking_order w
                    else if \<not> raise \<and> w_stacking_order w < edge then w_stacking_order w else edge) windows edge"

definition flag_is :: "u64 \<Rightarrow> u32 \<Rightarrow> ksd_window_record \<Rightarrow> bytes \<Rightarrow> bool" where
  "flag_is valid flag w payload \<longleftrightarrow>
     length payload \<ge> 12 \<and> w_valid_fields w AND valid \<noteq> 0
     \<and> (w_flags w AND flag \<noteq> 0) = (ksd_decode_u32 (drop 8 payload) \<noteq> 0)"

text \<open>A requested component is met, or the compositor moved it somewhere else since.\<close>

definition component_met :: "u32 \<Rightarrow> u32 \<Rightarrow> u32 \<Rightarrow> u32 option \<Rightarrow> bool" where
  "component_met unset wanted now before \<longleftrightarrow>
     wanted = unset \<or> now = wanted \<or> (case before of None \<Rightarrow> False | Some b \<Rightarrow> now \<noteq> b)"

definition prior_frame :: "ksd_window_record option \<Rightarrow> ksd_window_record option" where
  "prior_frame before = (case before of None \<Rightarrow> None
     | Some b \<Rightarrow> if w_valid_fields b AND KSD_FIELD_FRAME \<noteq> 0 then Some b else None)"

definition geometry_met :: "bytes \<Rightarrow> ksd_window_record \<Rightarrow> ksd_window_record option \<Rightarrow> bool" where
  "geometry_met payload w before =
     (let prior = prior_frame before in
      component_met INT32_MIN (ksd_decode_u32 (drop 8 payload)) (w_frame_x w) (map_option w_frame_x prior)
      \<and> component_met INT32_MIN (ksd_decode_u32 (drop 12 payload)) (w_frame_y w) (map_option w_frame_y prior)
      \<and> component_met 0 (ksd_decode_u32 (drop 16 payload)) (w_frame_width w) (map_option w_frame_width prior)
      \<and> component_met 0 (ksd_decode_u32 (drop 20 payload)) (w_frame_height w) (map_option w_frame_height prior))"

definition window_state_met :: "bytes \<Rightarrow> ksd_window_record \<Rightarrow> bool" where
  "window_state_met payload w =
     (if length payload < 12 then False
      else let state = ksd_decode_u32 (drop 8 payload);
               fields = (if state = KSD_WINDOW_STATE_MINIMIZED \<or> state = KSD_WINDOW_STATE_UNMINIMIZED
                         then KSD_FIELD_MINIMIZED else KSD_FIELD_MINIMIZED OR KSD_FIELD_MAXIMIZED);
               both = KSD_WINDOW_MINIMIZED OR KSD_WINDOW_MAXIMIZED
           in if w_valid_fields w AND fields \<noteq> fields then False
              else if state = KSD_WINDOW_STATE_MINIMIZED then w_flags w AND KSD_WINDOW_MINIMIZED \<noteq> 0
              else if state = KSD_WINDOW_STATE_MAXIMIZED then w_flags w AND both = KSD_WINDOW_MAXIMIZED
              else if state = KSD_WINDOW_STATE_UNMINIMIZED then w_flags w AND KSD_WINDOW_MINIMIZED = 0
              else w_flags w AND both = 0)"

definition operation_observed :: "bool \<Rightarrow> ksd_window_record list \<Rightarrow> u16 \<Rightarrow> bytes \<Rightarrow> ksd_window_record option \<Rightarrow> bool" where
  "operation_observed snapshot_pending windows opcode payload before =
     (if snapshot_pending then False
      else if length payload < 8 then True
      else case window_found (ksd_decode_u64 payload) windows of
        None \<Rightarrow> opcode = KSD_OP_WINDOW_CLOSE \<or> opcode = KSD_OP_WINDOW_KILL
      | Some w \<Rightarrow>
        if opcode = KSD_OP_WINDOW_CLOSE \<or> opcode = KSD_OP_WINDOW_KILL then False
        else if opcode = KSD_OP_WINDOW_RAISE \<or> opcode = KSD_OP_WINDOW_LOWER then
          w_stacking_order w = stack_edge (opcode = KSD_OP_WINDOW_RAISE) windows (w_stacking_order w)
          \<or> (case before of None \<Rightarrow> False | Some b \<Rightarrow> w_stacking_order b \<noteq> w_stacking_order w)
        else if opcode = KSD_OP_WINDOW_FOCUS then
          w_valid_fields w AND KSD_FIELD_ACTIVE \<noteq> 0 \<and> w_flags w AND KSD_WINDOW_ACTIVE \<noteq> 0
        else if opcode = KSD_OP_WINDOW_MOVE_RESIZE \<or> opcode = KSD_OP_WINDOW_MOVE_RESIZE_XID then
          if length payload < 24 \<or> w_valid_fields w AND KSD_FIELD_FRAME = 0 then False
          else geometry_met payload w before
        else if opcode = KSD_OP_WINDOW_SET_TITLE then
          if length payload < 12 \<or> w_valid_fields w AND KSD_FIELD_TITLE = 0 then False
          else let n = ksd_decode_u32 (drop 8 payload) in
            unat n = length (w_title w) \<and> unat n = length payload - 12 \<and> w_title w = drop 12 payload
        else if opcode = KSD_OP_WINDOW_SET_VISIBLE then flag_is KSD_FIELD_VISIBLE KSD_WINDOW_VISIBLE w payload
        else if opcode = KSD_OP_WINDOW_SET_ABOVE then flag_is KSD_FIELD_ABOVE KSD_WINDOW_ABOVE w payload
        else if opcode = KSD_OP_WINDOW_SET_DECORATED then flag_is KSD_FIELD_DECORATED KSD_WINDOW_DECORATED w payload
        else if opcode = KSD_OP_WINDOW_SET_OPACITY then
          length payload \<ge> 12 \<and> w_valid_fields w AND KSD_FIELD_TRANSPARENCY \<noteq> 0
          \<and> w_transparency w = ksd_decode_u32 (drop 8 payload)
        else if opcode = KSD_OP_WINDOW_SET_STATE then window_state_met payload w
        else True)"

definition component_moved :: "u32 \<Rightarrow> u32 \<Rightarrow> u32 \<Rightarrow> u32 \<Rightarrow> bool" where
  "component_moved unset wanted now before \<longleftrightarrow> wanted \<noteq> unset \<and> wanted \<noteq> before \<and> now \<noteq> before"

definition operation_geometry_changed ::
  "bool \<Rightarrow> ksd_window_record list \<Rightarrow> u16 \<Rightarrow> bytes \<Rightarrow> ksd_window_record option \<Rightarrow> bool" where
  "operation_geometry_changed snapshot_pending windows opcode payload before =
     (case prior_frame before of None \<Rightarrow> False
      | Some b \<Rightarrow>
        if snapshot_pending \<or> length payload < 24
           \<or> opcode \<noteq> KSD_OP_WINDOW_MOVE_RESIZE \<and> opcode \<noteq> KSD_OP_WINDOW_MOVE_RESIZE_XID then False
        else case window_found (ksd_decode_u64 payload) windows of None \<Rightarrow> False
          | Some w \<Rightarrow>
              w_valid_fields w AND KSD_FIELD_FRAME \<noteq> 0
              \<and> (component_moved INT32_MIN (ksd_decode_u32 (drop 8 payload)) (w_frame_x w) (w_frame_x b)
                 \<or> component_moved INT32_MIN (ksd_decode_u32 (drop 12 payload)) (w_frame_y w) (w_frame_y b)
                 \<or> component_moved 0 (ksd_decode_u32 (drop 16 payload)) (w_frame_width w) (w_frame_width b)
                 \<or> component_moved 0 (ksd_decode_u32 (drop 20 payload)) (w_frame_height w) (w_frame_height b)))"

section \<open>The table as a map from handles\<close>

lemma window_found_Nil [simp]: "window_found h [] = None"
  by (simp add: window_found_def window_slot_def)

lemma window_found_Cons [simp]:
  "window_found h (w # ws) = (if w_handle w = h then Some w else window_found h ws)"
  by (simp add: window_found_def window_slot_def option.map_comp comp_def)

lemma window_found_None: "window_found h ws = None \<longleftrightarrow> h \<notin> w_handle ` set ws"
  by (induction ws) auto

lemma window_found_slot: "map_option (nth ws) (window_slot h ws) = window_found h ws"
  by (simp add: window_found_def)

lemma window_slot_cases:
  obtains (absent) "window_slot h ws = None" "window_found h ws = None" "h \<notin> w_handle ` set ws"
  | (present) i where "window_slot h ws = Some i" "i < length ws" "w_handle (ws ! i) = h" "window_found h ws = Some (ws ! i)"
proof (cases "window_slot h ws")
  case None
  then show thesis using window_found_None [of h ws] by (intro absent) (simp_all add: window_found_def)
next
  case (Some i)
  then show thesis using first_index_SomeD [of "\<lambda>w. w_handle w = h" ws i] by (intro present) (auto simp: window_slot_def window_found_def)
qed

lemma window_found_append:
  "window_found h (ws @ [w]) = (case window_found h ws of Some v \<Rightarrow> Some v | None \<Rightarrow> if w_handle w = h then Some w else None)"
  by (induction ws) auto

lemma window_found_update:
  "distinct (map w_handle ws) \<Longrightarrow> i < length ws \<Longrightarrow> w_handle w = w_handle (ws ! i) \<Longrightarrow>
     window_found h (ws[i := w]) = (if h = w_handle w then Some w else window_found h ws)"
proof (induction ws arbitrary: i)
  case (Cons v ws)
  then show ?case by (cases i) (auto simp: window_found_None)
qed simp

lemma window_found_remove:
  "distinct (map w_handle ws) \<Longrightarrow> i < length ws \<Longrightarrow>
     window_found h (take i ws @ drop (Suc i) ws) = (if h = w_handle (ws ! i) then None else window_found h ws)"
proof (induction ws arbitrary: i)
  case (Cons v ws)
  show ?case
  proof (cases i)
    case 0
    then show ?thesis using Cons.prems by (auto simp: window_found_None)
  next
    case (Suc j)
    then have "w_handle v \<noteq> w_handle (ws ! j)" using Cons.prems by (metis Suc_less_eq distinct.simps(2) image_eqI length_Cons list.map(2) list.set_map nth_mem)
    then show ?thesis using Cons.IH [of j] Cons.prems Suc by auto
  qed
qed simp

text \<open>What the copies in the table need: distinct handles and well-formed texts.\<close>

definition table_wf :: "ksd_window_record list \<Rightarrow> bool" where
  "table_wf ws \<longleftrightarrow> distinct (map w_handle ws) \<and> list_all window_ok ws"

lemma table_wf_remove: "table_wf ws \<Longrightarrow> table_wf (take i ws @ drop (Suc i) ws)"
proof (induction ws arbitrary: i)
  case (Cons v ws)
  have "table_wf ws" using Cons.prems by (simp add: table_wf_def)
  moreover have "w_handle v \<notin> w_handle ` set (take j ws @ drop (Suc j) ws)" for j
    using Cons.prems by (auto simp: table_wf_def dest: in_set_takeD in_set_dropD)
  ultimately show ?case using Cons.IH Cons.prems by (cases i) (auto simp: table_wf_def)
qed (simp add: table_wf_def)

lemma table_wf_update:
  assumes "table_wf ws" "i < length ws" "w_handle w = w_handle (ws ! i)" "window_ok w"
  shows "table_wf (ws[i := w])"
proof -
  have "map w_handle (ws[i := w]) = map w_handle ws" using assms(2,3) by (simp add: map_update)
      (metis list_update_id map_update nth_map)
  then show ?thesis
    using assms set_update_subset_insert [of ws i w] by (auto simp: table_wf_def list_all_iff)
qed

lemma table_wf_append: "table_wf ws \<Longrightarrow> w_handle w \<notin> w_handle ` set ws \<Longrightarrow> window_ok w \<Longrightarrow> table_wf (ws @ [w])"
  by (auto simp: table_wf_def)

text \<open>What is decoded when memory may run out is decoded when it does not.\<close>

definition get_le :: "(ksd_cursor \<Rightarrow> ('a \<times> ksd_cursor) option) \<Rightarrow> (ksd_cursor \<Rightarrow> ('a \<times> ksd_cursor) option) \<Rightarrow> bool" where
  "get_le g h \<longleftrightarrow> (\<forall>c r. g c = Some r \<longrightarrow> h c = Some r)"

lemma get_le_refl: "get_le g g"
  by (simp add: get_le_def)

lemma get_le_pair: "get_le g g' \<Longrightarrow> get_le h h' \<Longrightarrow> get_le (pair_get g h) (pair_get g' h')"
  by (force simp: get_le_def pair_get_def bind_eq_Some_conv)

lemma get_le_text: "get_le (decode_text alloc) (decode_text (\<lambda>_. True))"
  by (auto simp: get_le_def decode_text_def split: Option.bind_splits if_splits)

lemma decode_alloc:
  assumes "ksd_state_event_decode alloc bs = Some e"
  shows "ksd_state_event_decode (\<lambda>_. True) bs = Some e"
proof -
  have "get_le (tuple_get alloc) (tuple_get (\<lambda>_. True))"
    unfolding tuple_get_def by (intro get_le_pair get_le_refl get_le_text)
  moreover obtain p where p: "tuple_get alloc (ksd_cursor_init bs) = Some p"
    and r: "(\<lambda>(t, c). if ksd_cursor_finished c \<and> event_acceptable (tuple_event t) then Some (tuple_event t) else None) p = Some e"
    using assms unfolding decode_tuple bind_eq_Some_conv by (elim exE conjE)
  ultimately have "tuple_get (\<lambda>_. True) (ksd_cursor_init bs) = Some p" by (simp only: get_le_def)
  then show ?thesis by (simp only: decode_tuple bind.simps r)
qed

lemma window_copy_Some:
  assumes "window_ok w" "ksd_state_window_copy alloc w = Some w'"
  shows "w' = w"
proof -
  let ?e = "ksd_state_event_init\<lparr>ev_kind := KSD_STATE_CHANGED, ev_domain := KSD_STATE_WINDOWS, ev_window := w\<rparr>"
  have ok: "event_ok ?e"
    using assms(1) by (simp add: event_ok_def event_acceptable_def ksd_state_event_init_def text_ok_def wire_defs)
  obtain flag b where b: "ksd_state_event_encode alloc ?e (ksd_buffer_init KSD_MAX_TEXT_BYTES) = (flag, b)" by force
  then obtain e where e: "flag" "ksd_state_event_decode alloc (buf_data b) = Some e" "w' = ev_window e"
    using assms(2) by (auto simp: ksd_state_window_copy_def Let_def split: if_splits)
  have "buf_data b = tuple_enc (event_tuple ?e)"
    using encode_exact(2) [of ?e alloc KSD_MAX_TEXT_BYTES] ok b e(1) by (simp add: event_ok_def)
  then have "e = ?e" using decode_alloc [OF e(2)] decode_enc [OF ok] by simp
  then show ?thesis using e(3) by simp
qed

lemma store_window_ok:
  assumes "table_wf ws" "window_ok w" "store_window alloc w (window_slot (w_handle w) ws) ws = (True, ws')"
  shows "table_wf ws'" "window_found h ws' = (if h = w_handle w then Some w else window_found h ws)"
proof -
  obtain copy where copy: "ksd_state_window_copy alloc w = Some copy"
    using assms(3) by (auto simp: store_window_def Let_def split: option.splits prod.splits)
  then have [simp]: "copy = w" using window_copy_Some [OF assms(2)] by blast
  have "table_wf ws' \<and> window_found h ws' = (if h = w_handle w then Some w else window_found h ws)"
  proof (cases "w_handle w" ws rule: window_slot_cases)
    case absent
    then have "ws' = ws @ [w]" using assms(3) copy by (simp add: store_window_def)
    then show ?thesis
      using table_wf_append [OF assms(1) absent(3) assms(2)] absent by (auto simp: window_found_append split: option.splits)
  next
    case (present i)
    then have ws': "ws' = ws[i := w]" using assms(3) copy by (simp add: store_window_def)
    show ?thesis
      unfolding ws' using table_wf_update [OF assms(1) present(2) _ assms(2)] present assms(1)
      by (auto simp: window_found_update table_wf_def)
  qed
  then show "table_wf ws'" "window_found h ws' = (if h = w_handle w then Some w else window_found h ws)" by auto
qed

section \<open>What a client can reconstruct\<close>

text \<open>
  The view of a client that follows the events of the window domain: a snapshot is
  collected between its begin and its end and then replaces the view as a whole; every
  other event removes or replaces one window.
\<close>

record mirror =
  mi_windows :: "u64 \<rightharpoonup> ksd_window_record"
  mi_snapshot :: "u64 \<rightharpoonup> ksd_window_record"
  mi_pending :: bool

definition mirror_step :: "ksd_state_event \<Rightarrow> mirror \<Rightarrow> mirror option" where
  "mirror_step e m =
     (let w = ev_window e in
      if ev_kind e = KSD_STATE_SNAPSHOT_BEGIN then Some (m\<lparr>mi_pending := True, mi_snapshot := Map.empty\<rparr>)
      else if ev_kind e = KSD_STATE_SNAPSHOT_ITEM then
        if mi_pending m then Some (m\<lparr>mi_snapshot := (mi_snapshot m)(w_handle w \<mapsto> w)\<rparr>) else None
      else if ev_kind e = KSD_STATE_SNAPSHOT_END then
        if mi_pending m then Some \<lparr>mi_windows = mi_snapshot m, mi_snapshot = Map.empty, mi_pending = False\<rparr> else None
      else if ev_kind e = KSD_STATE_DESTROY then Some (m\<lparr>mi_windows := (mi_windows m)(w_handle w := None)\<rparr>)
      else Some (m\<lparr>mi_windows := (mi_windows m)(w_handle w \<mapsto> w)\<rparr>))"

definition mirror_of :: "authority_lease \<Rightarrow> mirror" where
  "mirror_of lease = \<lparr>mi_windows = (\<lambda>h. window_found h (le_windows lease)),
     mi_snapshot = (\<lambda>h. window_found h (le_snapshot_windows lease)), mi_pending = le_snapshot_pending lease\<rparr>"

definition lease_tables_wf :: "authority_lease \<Rightarrow> bool" where
  "lease_tables_wf lease \<longleftrightarrow>
     table_wf (le_windows lease) \<and> table_wf (le_snapshot_windows lease) \<and> length (le_sequences lease) = 5"

lemma bump_fields [simp]:
  "le_windows (bump i l) = le_windows l" "le_snapshot_windows (bump i l) = le_snapshot_windows l"
  "le_snapshot_pending (bump i l) = le_snapshot_pending l" "length (le_sequences (bump i l)) = length (le_sequences l)"
  "le_active (bump i l) = le_active l" "le_domains (bump i l) = le_domains l" "le_identity (bump i l) = le_identity l"
  "le_requested_scopes (bump i l) = le_requested_scopes l" "le_granted_scopes (bump i l) = le_granted_scopes l"
  "le_generation (bump i l) = le_generation l"
  by (simp_all add: bump_def)

lemma bump_sequence: "length (le_sequences l) = 5 \<Longrightarrow> i < 5 \<Longrightarrow> le_sequences (bump i l) ! i = le_sequences l ! i + 1"
  by (simp add: bump_def)

lemma mirror_bump [simp]: "mirror_of (bump i l) = mirror_of l" "lease_tables_wf (bump i l) = lease_tables_wf l"
  by (simp_all add: mirror_of_def lease_tables_wf_def)

lemma place_window_ok:
  "w_handle (place_window old ws w) = w_handle w" "window_ok w \<Longrightarrow> window_ok (place_window old ws w)"
  by (simp_all add: place_window_def window_ok_def)

lemma change_kind_plain:
  "change_kind old new \<notin> {KSD_STATE_SNAPSHOT_BEGIN, KSD_STATE_SNAPSHOT_ITEM, KSD_STATE_SNAPSHOT_END, KSD_STATE_DESTROY}"
  by (simp add: change_kind_def Let_def wire_defs)

lemma table_wf_Nil [simp]: "table_wf []"
  by (simp add: table_wf_def)

definition reports :: "ksd_state_event \<Rightarrow> authority_lease \<Rightarrow> authority_lease \<Rightarrow> bool" where
  "reports e lease lease' \<longleftrightarrow>
     lease_tables_wf lease' \<and> mirror_step e (mirror_of lease) = Some (mirror_of lease')
     \<and> le_sequences lease' ! 0 = le_sequences lease ! 0
         + (if ev_kind e = KSD_STATE_SNAPSHOT_ITEM \<or> ev_kind e = KSD_STATE_SNAPSHOT_END then 0 else 1)"

lemmas kind_defs = KSD_STATE_SNAPSHOT_BEGIN_def KSD_STATE_SNAPSHOT_ITEM_def KSD_STATE_SNAPSHOT_END_def KSD_STATE_CREATE_def
  KSD_STATE_DESTROY_def

lemma reports_begin:
  "lease_tables_wf lease \<Longrightarrow> ev_kind e = KSD_STATE_SNAPSHOT_BEGIN \<Longrightarrow>
     reports e lease (bump 0 lease\<lparr>le_snapshot_pending := True, le_snapshot_windows := []\<rparr>)"
  by (simp add: reports_def mirror_step_def mirror_of_def lease_tables_wf_def bump_def kind_defs)

lemma reports_end:
  "lease_tables_wf lease \<Longrightarrow> ev_kind e = KSD_STATE_SNAPSHOT_END \<Longrightarrow> le_snapshot_pending lease \<Longrightarrow>
     reports e lease (lease\<lparr>le_windows := le_snapshot_windows lease, le_snapshot_windows := [], le_snapshot_pending := False\<rparr>)"
  by (simp add: reports_def mirror_step_def mirror_of_def lease_tables_wf_def kind_defs)

lemma reports_destroy:
  assumes "lease_tables_wf lease" "ev_kind e = KSD_STATE_DESTROY" "window_slot (w_handle (ev_window e)) (le_windows lease) = Some i"
  shows "reports e lease (bump 0 (lease\<lparr>le_windows := take i (le_windows lease) @ drop (Suc i) (le_windows lease)\<rparr>))"
proof -
  have i: "i < length (le_windows lease)" "w_handle (le_windows lease ! i) = w_handle (ev_window e)"
    using first_index_SomeD [OF assms(3) [unfolded window_slot_def]] by auto
  then show ?thesis
    using assms(1,2) by (auto simp: reports_def mirror_step_def mirror_of_def lease_tables_wf_def kind_defs bump_def
        table_wf_remove window_found_remove table_wf_def [of "le_windows lease"] fun_eq_iff)
qed

lemma reports_item:
  assumes "lease_tables_wf lease" "ev_kind e = KSD_STATE_SNAPSHOT_ITEM" "le_snapshot_pending lease" "window_ok (ev_window e)"
    "store_window alloc (ev_window e) (window_slot (w_handle (ev_window e)) (le_snapshot_windows lease)) (le_snapshot_windows lease) = (True, ws)"
  shows "reports e lease (lease\<lparr>le_snapshot_windows := ws\<rparr>)"
proof -
  have "table_wf (le_snapshot_windows lease)" using assms(1) by (simp add: lease_tables_wf_def)
  note store = store_window_ok [OF this assms(4,5)]
  then show ?thesis
    using assms(1-3)
    by (simp add: reports_def mirror_step_def mirror_of_def lease_tables_wf_def kind_defs fun_upd_def Let_def)
qed

lemma reports_delta:
  assumes "lease_tables_wf lease" "window_ok (ev_window e)"
    "ev_kind e \<notin> {KSD_STATE_SNAPSHOT_BEGIN, KSD_STATE_SNAPSHOT_ITEM, KSD_STATE_SNAPSHOT_END, KSD_STATE_DESTROY}"
    "store_window alloc (ev_window e) (window_slot (w_handle (ev_window e)) (le_windows lease)) (le_windows lease) = (True, ws)"
  shows "reports e lease (bump 0 (lease\<lparr>le_windows := ws\<rparr>))"
proof -
  have "table_wf (le_windows lease)" using assms(1) by (simp add: lease_tables_wf_def)
  note store = store_window_ok [OF this assms(2,4)]
  then show ?thesis
    using assms(1,3)
    by (auto simp: reports_def mirror_step_def mirror_of_def lease_tables_wf_def bump_def fun_upd_def Let_def)
qed

lemma window_effect_report:
  assumes wf: "lease_tables_wf lease" "window_ok (ev_window event)"
    and r: "window_effect alloc memory event lease = Window_Report lease' event'"
  shows "reports event' lease lease'" "ev_domain event' = ev_domain event"
proof -
  have "reports event' lease lease' \<and> ev_domain event' = ev_domain event"
  proof (cases "ev_kind event = KSD_STATE_SNAPSHOT_BEGIN \<or> ev_kind event = KSD_STATE_SNAPSHOT_END")
    case True
    then show ?thesis
      using r reports_begin [OF wf(1), of event] reports_end [OF wf(1), of event]
      by (auto simp: window_effect_def split: if_splits)
  next
    case False
    define item where "item = (ev_kind event = KSD_STATE_SNAPSHOT_ITEM)"
    define windows where "windows = (if item then le_snapshot_windows lease else le_windows lease)"
    define slot where "slot = window_slot (w_handle (ev_window event)) windows"
    show ?thesis
    proof (cases "ev_kind event = KSD_STATE_DESTROY")
      case True
      then have "\<not> item" by (simp add: item_def kind_defs)
      moreover have "KSD_STATE_DESTROY \<noteq> KSD_STATE_SNAPSHOT_ITEM" by (simp add: kind_defs)
      ultimately obtain i where "slot = Some i" "event' = event"
        "lease' = bump 0 (lease\<lparr>le_windows := take i (le_windows lease) @ drop (Suc i) (le_windows lease)\<rparr>)"
        using r False True unfolding window_effect_def
        by (auto simp: item_def [symmetric] windows_def slot_def Let_def split: option.splits)
      then show ?thesis using reports_destroy [OF wf(1) True] \<open>\<not> item\<close> by (simp add: slot_def windows_def)
    next
      case D: False
      define old where "old = map_option (nth windows) slot"
      define w where "w = place_window old (le_windows lease) (ev_window event)"
      have w: "w_handle w = w_handle (ev_window event)" "window_ok w"
        using wf(2) by (simp_all add: w_def place_window_ok)
      define placed where "placed = event\<lparr>ev_window := w\<rparr>"
      define keep where "keep = (\<lambda>ws. if item then lease\<lparr>le_snapshot_windows := ws\<rparr> else lease\<lparr>le_windows := ws\<rparr>)"
      define kind where "kind = (if item then ev_kind event else case old of None \<Rightarrow> KSD_STATE_CREATE | Some v \<Rightarrow> change_kind v w)"
      have pend: "item \<longrightarrow> le_snapshot_pending lease"
        and eff: "store_effect alloc memory item keep slot windows placed lease = Window_Report lease' event'"
        using r False D unfolding window_effect_def
        by (simp_all add: item_def [symmetric] windows_def [symmetric] slot_def [symmetric] old_def [symmetric] w_def [symmetric]
            placed_def [symmetric] keep_def [symmetric] Let_def split: if_splits)
      obtain ok ws where store: "store_window alloc w slot windows = (ok, ws)" by force
      have out: "ok" "event' = placed\<lparr>ev_kind := kind\<rparr>"
        "lease' = (if item then lease\<lparr>le_snapshot_windows := ws\<rparr> else bump 0 (lease\<lparr>le_windows := ws\<rparr>))"
        using eff store unfolding store_effect_def
        by (auto simp: placed_def kind_def keep_def old_def Let_def split: if_splits)
      show ?thesis
      proof (cases item)
        case True
        then have "kind = KSD_STATE_SNAPSHOT_ITEM" by (simp add: kind_def item_def)
        then show ?thesis
          using reports_item [OF wf(1), of event' alloc ws] True out store w pend by (simp add: windows_def slot_def placed_def)
      next
        case I: False
        then have "kind \<notin> {KSD_STATE_SNAPSHOT_BEGIN, KSD_STATE_SNAPSHOT_ITEM, KSD_STATE_SNAPSHOT_END, KSD_STATE_DESTROY}"
          using change_kind_plain [of _ w] by (auto simp: kind_def kind_defs split: option.splits)
        then show ?thesis
          using reports_delta [OF wf(1), of event' alloc ws] I out store w by (simp add: windows_def slot_def placed_def)
      qed
    qed
  qed
  then show "reports event' lease lease'" "ev_domain event' = ev_domain event" by auto
qed

lemma window_effect_silent:
  "window_effect alloc memory event lease = Window_Silent lease' \<Longrightarrow> lease' = lease"
  by (auto simp: window_effect_def store_effect_def Let_def split: if_splits option.splits prod.splits)

lemma domain_index_windows: "domain_index KSD_STATE_WINDOWS = 0"
  by (simp add: domain_index_def domain_index_loop.simps [of _ 0] wire_defs)

lemma stamped_fields [simp]:
  "ev_kind (stamped l e) = ev_kind e" "ev_window (stamped l e) = ev_window e" "ev_domain (stamped l e) = ev_domain e"
  by (simp_all add: stamped_def)

lemma mirror_step_stamped: "mirror_step (stamped l e) m = mirror_step e m"
  by (simp only: mirror_step_def stamped_fields)

text \<open>
  C17: The events of the window domain let a client keep an exact copy of the authority's
  table. Whenever a report is accepted, either nothing is sent and the table is as it
  was, or one event is sent and applying it to a copy of the old table gives the new one;
  its sequence number follows on, with the items and the end of a snapshot sharing the
  number of its beginning. A snapshot therefore replaces the copy in one step.
\<close>

theorem window_stream_faithful:
  assumes "lease_tables_wf lease" and "window_ok (ev_window event)" and "ev_domain event = KSD_STATE_WINDOWS"
    and "state_window_apply alloc memory outcomes event lease = (True, lease', sent)"
  shows "lease_tables_wf lease'
    \<and> (case sent of
         None \<Rightarrow> lease' = lease
       | Some e \<Rightarrow> mirror_step e (mirror_of lease) = Some (mirror_of lease')
           \<and> ev_sequence e = le_sequences lease' ! 0 \<and> ev_epoch e = le_epoch lease'
           \<and> le_sequences lease' ! 0 = le_sequences lease ! 0
               + (if ev_kind e = KSD_STATE_SNAPSHOT_ITEM \<or> ev_kind e = KSD_STATE_SNAPSHOT_END then 0 else 1))"
proof (cases "window_effect alloc memory event lease")
  case (Window_Refused l)
  then show ?thesis using assms(4) by (simp add: state_window_apply_def)
next
  case (Window_Silent l)
  then show ?thesis using assms(1,4) window_effect_silent [OF Window_Silent] by (simp add: state_window_apply_def)
next
  case (Window_Report l e)
  note rep = window_effect_report [OF assms(1,2) Window_Report]
  have emit: "lease_emit alloc outcomes e l = (True, lease')" "sent = Some (stamped l e)"
    using assms(4) Window_Report by (auto simp: state_window_apply_def split: prod.splits)
  then have "lease' = l" by (auto simp: lease_emit_def Let_def split: if_splits prod.splits)
  moreover have "ev_sequence (stamped l e) = le_sequences l ! 0" "ev_epoch (stamped l e) = le_epoch l"
    using rep(2) assms(3) by (simp_all add: stamped_def domain_index_windows)
  ultimately show ?thesis using rep(1) emit(2) by (simp add: reports_def mirror_step_stamped)
qed

text \<open>An event that fits is sent when the kernel takes the whole frame.\<close>

lemma send_loop_whole: "data \<noteq> [] \<Longrightarrow> length data \<le> n \<Longrightarrow> send_loop [Sent_Bytes n] data = (True, data)"
  by (cases data) auto

lemma frame_pack_room:
  assumes "length (encode_frame_header frame) + length (payload_bytes frame) \<le> n" and "fr_payload frame \<noteq> None"
  obtains b where "ksd_frame_pack (\<lambda>_. True) frame (ksd_buffer_init n) = (True, b)"
    "buf_data b = encode_frame_header frame @ payload_bytes frame"
proof -
  have wf: "buffer_wf (ksd_buffer_init n)" "buf_data (ksd_buffer_init n) = []" "buf_maximum (ksd_buffer_init n) = n"
    by (simp_all add: buffer_wf_def ksd_buffer_init_def)
  obtain m where m: "ksd_buffer_bytes (\<lambda>_. True) (encode_frame_header frame) (ksd_buffer_init n) = (True, m)" "buffer_wf m"
    "buf_data m = encode_frame_header frame" "buf_maximum m = n"
    by (rule buffer_room [OF wf(1), of "encode_frame_header frame"]) (use assms wf in auto)
  obtain b where b: "ksd_buffer_bytes (\<lambda>_. True) (payload_bytes frame) m = (True, b)"
    "buf_data b = encode_frame_header frame @ payload_bytes frame"
    by (rule buffer_room [OF m(2), of "payload_bytes frame"]) (use assms m in auto)
  show thesis using that m(1) b assms(2) by (simp add: ksd_frame_pack_def and_then_def)
qed

lemma lease_emit_sent:
  assumes "le_active lease" "window_ok (ev_window event)" "text_ok (ev_data event)"
    and fits: "152 + window_text (ev_window event) + length (ev_data event) \<le> KSD_MAX_TEXT_BYTES + 256"
    and n: "176 + window_text (ev_window event) + length (ev_data event) \<le> n"
  shows "lease_emit (\<lambda>_. True) [Sent_Bytes n] event lease = (True, lease)"
proof -
  let ?e = "stamped lease event" and ?N = "KSD_MAX_TEXT_BYTES + 256"
  have e: "ev_window ?e = ev_window event" "ev_data ?e = ev_data event" by (simp_all add: stamped_def)
  obtain ok p where p: "ksd_state_event_encode (\<lambda>_. True) ?e (ksd_buffer_init ?N) = (ok, p)" by force
  have ok: "ok" "buf_data p = tuple_enc (event_tuple ?e)"
    using encode_exact(1) [of ?e ?N] encode_exact(2) [of ?e "\<lambda>_. True" ?N] assms p by (auto simp: e length_tuple_enc)
  let ?f = "state_event_frame (buf_data p)"
  have len: "length (buf_data p) = 152 + window_text (ev_window event) + length (ev_data event)"
    by (simp add: ok(2) e length_tuple_enc)
  have "length (buf_data p) < 2 ^ 32" using fits len by (simp add: wire_defs)
  then have "unat (of_nat (length (buf_data p)) :: u32) = length (buf_data p)" by (simp add: unat_of_nat take_bit_nat_eq_self)
  then have f: "length (encode_frame_header ?f) = 24" "length (payload_bytes ?f) = length (buf_data p)" "fr_payload ?f \<noteq> None"
    by (simp_all add: state_event_frame_def frame_zero_def encode_frame_header_eq payload_bytes_def public_magic_def)
  obtain b where b: "ksd_frame_pack (\<lambda>_. True) ?f (ksd_buffer_init (KSD_MAX_TEXT_BYTES + 512)) = (True, b)"
    "buf_data b = encode_frame_header ?f @ payload_bytes ?f"
    by (rule frame_pack_room [of ?f "KSD_MAX_TEXT_BYTES + 512"]) (use f len fits in auto)
  then have "length (buf_data b) \<le> n" "buf_data b \<noteq> []" using f len n by (simp, fastforce)
  then have "fst (write_lease_frame (\<lambda>_. True) [Sent_Bytes n] ?f)"
    using b(1) send_loop_whole by (simp add: write_lease_frame_def)
  then show ?thesis using assms(1) p ok(1) by (simp add: lease_emit_def)
qed

text \<open>A fresh lease and a report of one window, for the example.\<close>

definition sample_lease :: authority_lease where
  "sample_lease = \<lparr>le_id = 1, le_epoch = 9, le_sequences = [4, 0, 0, 0, 0], le_references = 1, le_active = True,
     le_identity = identity_zero, le_requested_scopes = 0, le_granted_scopes = 0, le_domains = 1, le_generation = 0,
     le_windows = [], le_snapshot_windows = [], le_snapshot_pending = False, le_client_fd = 3,
     le_window_refresh_fd = -1, le_window_refresh_at = 0\<rparr>"

definition sample_event :: ksd_state_event where
  "sample_event = ksd_state_event_init\<lparr>ev_kind := KSD_STATE_CHANGED, ev_domain := KSD_STATE_WINDOWS,
     ev_window := ksd_window_record_init\<lparr>w_handle := 7\<rparr>\<rparr>"

lemma sample_apply:
  "state_window_apply (\<lambda>_. True) True [Sent_Bytes 1000] sample_event sample_lease =
     (True, bump 0 (sample_lease\<lparr>le_windows := [ksd_window_record_init\<lparr>w_handle := 7, w_valid_fields := KSD_FIELD_STACKING_ORDER\<rparr>]\<rparr>),
      Some (sample_event\<lparr>ev_kind := KSD_STATE_CREATE, ev_epoch := 9, ev_sequence := 5,
        ev_window := ksd_window_record_init\<lparr>w_handle := 7, w_valid_fields := KSD_FIELD_STACKING_ORDER\<rparr>\<rparr>))"
proof -
  let ?w = "ksd_window_record_init\<lparr>w_handle := 7, w_valid_fields := KSD_FIELD_STACKING_ORDER\<rparr>"
  have ok: "window_ok ?w" "window_text ?w = 0" by (simp_all add: window_ok_def ksd_window_record_init_def text_ok_def window_text_def)
  have copy: "ksd_state_window_copy (\<lambda>_. True) v = Some v" if "v = ?w" for v
    using window_copy_exact [OF ok(1)] ok(2) unfolding that by (simp add: wire_defs)
  have "window_effect (\<lambda>_. True) True sample_event sample_lease =
      Window_Report (bump 0 (sample_lease\<lparr>le_windows := [?w]\<rparr>)) (sample_event\<lparr>ev_kind := KSD_STATE_CREATE, ev_window := ?w\<rparr>)"
    by (simp add: Let_def copy window_effect_def store_effect_def store_window_def sample_event_def sample_lease_def window_slot_def
        place_window_def stack_above_def ksd_state_event_init_def ksd_window_record_init_def wire_defs)
  moreover have "lease_emit (\<lambda>_. True) [Sent_Bytes 1000] (sample_event\<lparr>ev_kind := KSD_STATE_CREATE, ev_window := ?w\<rparr>)
      (bump 0 (sample_lease\<lparr>le_windows := [?w]\<rparr>)) = (True, bump 0 (sample_lease\<lparr>le_windows := [?w]\<rparr>))"
    by (rule lease_emit_sent) (use ok in \<open>simp_all add: bump_def sample_lease_def sample_event_def ksd_state_event_init_def text_ok_def wire_defs\<close>)
  ultimately show ?thesis
    by (simp add: state_window_apply_def stamped_def bump_def sample_lease_def sample_event_def ksd_state_event_init_def domain_index_windows)
qed

theorem window_stream_faithful_witness:
  "\<exists>lease' e. state_window_apply (\<lambda>_. True) True [Sent_Bytes 1000] sample_event sample_lease = (True, lease', Some e)
     \<and> mirror_step e (mirror_of sample_lease) = Some (mirror_of lease') \<and> ev_sequence e = le_sequences lease' ! 0"
proof -
  have "lease_tables_wf sample_lease" "window_ok (ev_window sample_event)" "ev_domain sample_event = KSD_STATE_WINDOWS"
    by (simp_all add: lease_tables_wf_def table_wf_def sample_lease_def sample_event_def window_ok_def ksd_window_record_init_def
        ksd_state_event_init_def text_ok_def)
  from window_stream_faithful [OF this sample_apply] show ?thesis using sample_apply by auto
qed

end
