(* ===== verification/Responses.thy ===== *)
theory Responses
  imports Operation_Result Budgets Kwin_Wire
begin

text \<open>
  The responses of the authority and how the client library reads them: the frame
  \<open>build_response\<close> makes (src/src/authorityd.c) and \<open>parse_response\<close> takes apart
  (src/src/client.c), the entries of a permission listing, the hash of an application in
  its binary and its textual form, and the greeting. A \<open>NULL\<close> tail is the empty list,
  since every caller passes it with length zero.
\<close>

section \<open>Constants\<close>

definition KSD_ERROR_MESSAGE_CAPACITY :: nat where
  [wire_defs]: "KSD_ERROR_MESSAGE_CAPACITY = 256"

definition KSD_EXECUTABLE_PATH_SIZE :: nat where
  [wire_defs]: "KSD_EXECUTABLE_PATH_SIZE = 4096"

definition KSD_ROLE_RPC :: u16 where
  [wire_defs]: "KSD_ROLE_RPC = 0"

definition KSD_ROLE_EVENT_STREAM :: u16 where
  [wire_defs]: "KSD_ROLE_EVENT_STREAM = 1"

definition KSD_ROLE_AUTHORIZATION_LEASE :: u16 where
  [wire_defs]: "KSD_ROLE_AUTHORIZATION_LEASE = 3"

definition KSD_AUTH_CHECK :: u16 where
  [wire_defs]: "KSD_AUTH_CHECK = 0"

definition KSD_AUTH_REQUEST :: u16 where
  [wire_defs]: "KSD_AUTH_REQUEST = 1"

section \<open>Building a response\<close>

text \<open>The length of the longest valid prefix of the diagnostic that fits the client's buffer.\<close>

definition diagnostic_length :: "bytes option \<Rightarrow> nat" where
  "diagnostic_length diagnostic =
     (let d = (case diagnostic of None \<Rightarrow> [] | Some d \<Rightarrow> d);
          n = (if length d \<ge> KSD_ERROR_MESSAGE_CAPACITY then KSD_ERROR_MESSAGE_CAPACITY - 1 else length d)
      in trim_utf8 d n)"

definition response_payload ::
  "(nat \<Rightarrow> bool) \<Rightarrow> u32 \<Rightarrow> u32 \<Rightarrow> bytes option \<Rightarrow> bytes \<Rightarrow> ksd_buffer \<Rightarrow> bool \<times> ksd_buffer" where
  "response_payload alloc status detail diagnostic tail payload =
     and_then (ksd_buffer_u32 alloc status payload) (\<lambda>payload.
     and_then (ksd_buffer_u32 alloc detail payload) (\<lambda>payload.
       if status = KSD_STATUS_OK then ksd_buffer_bytes alloc tail payload
       else case diagnostic of None \<Rightarrow> (True, payload)
         | Some d \<Rightarrow>
             and_then (ksd_buffer_u32 alloc (of_nat (diagnostic_length diagnostic)) payload)
               (ksd_buffer_bytes alloc (take (diagnostic_length diagnostic) d))))"

definition build_response ::
  "(nat \<Rightarrow> bool) \<Rightarrow> ksd_frame \<Rightarrow> u32 \<Rightarrow> u32 \<Rightarrow> bytes option \<Rightarrow> bytes \<Rightarrow> bool \<Rightarrow> ksd_frame option" where
  "build_response alloc request status detail diagnostic tail chained =
     (if fr_request_id request = 0 \<or> (status = KSD_STATUS_OK \<and> diagnostic_length diagnostic \<noteq> 0) then None
      else
        let (ok, payload) = response_payload alloc status detail diagnostic tail (ksd_buffer_init (KSD_MAX_CAPTURE_BYTES + 64))
        in if \<not> ok \<or> length (buf_data payload) > 0xFFFFFFFF then None
           else Some \<lparr>fr_magic = public_magic, fr_major = KSD_PROTOCOL_MAJOR, fr_minor = KSD_PROTOCOL_MINOR,
                  fr_opcode = fr_opcode request,
                  fr_flags = KSD_FLAG_RESPONSE OR (if chained then KSD_FLAG_MORE else 0),
                  fr_payload_length = of_nat (length (buf_data payload)), fr_request_id = fr_request_id request,
                  fr_payload = Some (buf_data payload)\<rparr>)"

section \<open>Reading a response\<close>

record client_response =
  rp_status :: u32
  rp_detail :: u32
  rp_tail :: bytes
  rp_message :: "bytes option"

definition valid_status :: "u32 \<Rightarrow> bool" where
  "valid_status status \<longleftrightarrow> status \<le> KSD_STATUS_REVOKED \<or> status = KSD_STATUS_INTERNAL"

text \<open>The diagnostic of a failure: none, or one counted text and nothing after it.\<close>

definition parse_diagnostic :: "ksd_cursor \<Rightarrow> bytes option option" where
  "parse_diagnostic cursor =
     (if ksd_cursor_finished cursor then Some None
      else case ksd_cursor_u32 cursor of None \<Rightarrow> None
        | Some (n, cursor) \<Rightarrow>
          if unat n \<ge> KSD_ERROR_MESSAGE_CAPACITY then None
          else case ksd_cursor_bytes (unat n) cursor of None \<Rightarrow> None
            | Some (d, cursor) \<Rightarrow>
                if \<not> ksd_cursor_finished cursor \<or> \<not> ksd_utf8_valid d False then None else Some (Some d))"

definition parse_response :: "ksd_frame \<Rightarrow> u16 \<Rightarrow> u64 \<Rightarrow> client_response option" where
  "parse_response frame opcode request_id =
     (if fr_opcode frame \<noteq> opcode \<or> fr_request_id frame \<noteq> request_id
         \<or> fr_flags frame AND KSD_FLAG_RESPONSE = 0 \<or> fr_flags frame AND KSD_FLAG_EVENT \<noteq> 0
         \<or> fr_payload_length frame < 8 then None
      else Option.bind (ksd_cursor_u32 (ksd_cursor_init (payload_bytes frame))) (\<lambda>(status, cursor).
           Option.bind (ksd_cursor_u32 cursor) (\<lambda>(detail, cursor).
             if \<not> valid_status status then None
             else if status = KSD_STATUS_OK then
               Some \<lparr>rp_status = status, rp_detail = detail, rp_tail = drop (cur_offset cursor) (cur_data cursor), rp_message = None\<rparr>
             else if fr_flags frame AND KSD_FLAG_MORE \<noteq> 0 then None
             else map_option (\<lambda>m. \<lparr>rp_status = status, rp_detail = detail, rp_tail = [], rp_message = m\<rparr>)
                    (parse_diagnostic cursor))))"

section \<open>Hashes\<close>

text \<open>The arithmetic on \<open>char\<close>, which is signed; the conversion to \<open>uint8_t\<close> keeps the low byte.\<close>

definition hex_value :: "u8 \<Rightarrow> u8" where
  "hex_value c = (if sint c \<le> 57 then c - 48 else c - 97 + 10)"

definition hash_to_raw :: "bytes \<Rightarrow> bytes" where
  "hash_to_raw hash = map (\<lambda>i. push_bit 4 (hex_value (hash ! (i * 2))) OR hex_value (hash ! (i * 2 + 1))) [0..<32]"

definition text_hash_to_raw :: "bytes \<Rightarrow> bytes" where
  "text_hash_to_raw hash = map (\<lambda>i. push_bit 4 (hex_value (hash ! (i * 2))) OR hex_value (hash ! (i * 2 + 1))) [0..<32]"

definition raw_to_hash :: "bytes \<Rightarrow> bytes" where
  "raw_to_hash raw =
     concat (map (\<lambda>i. [ascii ''0123456789abcdef'' ! unat (drop_bit 4 (raw ! i)),
                       ascii ''0123456789abcdef'' ! unat (raw ! i AND 15)]) [0..<32])"

definition raw_hash_to_text :: "bytes \<Rightarrow> bytes" where
  "raw_hash_to_text raw =
     concat (map (\<lambda>i. [ascii ''0123456789abcdef'' ! unat (drop_bit 4 (raw ! i)),
                       ascii ''0123456789abcdef'' ! unat (raw ! i AND 15)]) [0..<32])"

text \<open>A character string is its bytes before the terminator.\<close>

definition canonical_hash :: "bytes \<Rightarrow> bool" where
  "canonical_hash hash \<longleftrightarrow> length hash = 64 \<and> list_all (\<lambda>c. 48 \<le> c \<and> c \<le> 57 \<or> 97 \<le> c \<and> c \<le> 102) hash"

definition bytes_are_zero :: "bytes \<Rightarrow> bool" where
  "bytes_are_zero bs = list_all (\<lambda>b. b = 0) bs"

section \<open>Permission entries\<close>

text \<open>\<open>sanitize\<close> is the text filter of the permission library; its result is a C string.\<close>

definition safe_path :: "(bytes \<Rightarrow> bytes) \<Rightarrow> bytes \<Rightarrow> bytes" where
  "safe_path sanitize source =
     (let destination = sanitize source in
      if ksd_utf8_valid destination False then destination
      else map (\<lambda>b. if b \<ge> 0x80 then 63 else b) destination)"

definition permission_tail ::
  "(nat \<Rightarrow> bool) \<Rightarrow> u32 \<Rightarrow> u64 \<Rightarrow> bytes \<Rightarrow> bytes \<Rightarrow> ksd_buffer \<Rightarrow> bool \<times> ksd_buffer" where
  "permission_tail alloc scopes granted_at hash path tail =
     (if length path > 0xFFFFFFFF then (False, tail)
      else and_then (ksd_buffer_u32 alloc scopes tail) (\<lambda>tail.
           and_then (ksd_buffer_u32 alloc (of_nat (length path)) tail) (\<lambda>tail.
           and_then (ksd_buffer_u64 alloc granted_at tail) (\<lambda>tail.
           and_then (ksd_buffer_bytes alloc hash tail) (ksd_buffer_bytes alloc path)))))"

record permission_entry =
  pe_scopes :: u32
  pe_granted_at :: u64
  pe_hash :: bytes
  pe_executable :: bytes

definition parse_permission_entry :: "bytes \<Rightarrow> permission_entry option" where
  "parse_permission_entry tail =
     Option.bind (ksd_cursor_u32 (ksd_cursor_init tail)) (\<lambda>(scopes, cursor).
     Option.bind (ksd_cursor_u32 cursor) (\<lambda>(n, cursor).
     Option.bind (ksd_cursor_u64 cursor) (\<lambda>(granted_at, cursor).
     Option.bind (ksd_cursor_bytes 32 cursor) (\<lambda>(hash, cursor).
       if n = 0 \<or> unat n \<ge> KSD_EXECUTABLE_PATH_SIZE then None
       else Option.bind (ksd_cursor_bytes (unat n) cursor) (\<lambda>(path, cursor).
         if \<not> ksd_cursor_finished cursor \<or> scopes = 0 \<or> \<not> ksd_utf8_valid path False then None
         else Some \<lparr>pe_scopes = scopes, pe_granted_at = granted_at, pe_hash = raw_hash_to_text hash, pe_executable = path\<rparr>)))))"

section \<open>The greeting\<close>

record hello_request =
  he_role :: u16
  he_auth_mode :: u16
  he_scopes :: u32
  he_lease_id :: u64

definition parse_hello :: "ksd_frame \<Rightarrow> hello_request option" where
  "parse_hello request =
     (if fr_opcode request \<noteq> KSD_OP_HELLO \<or> fr_flags request \<noteq> 0 \<or> fr_request_id request = 0
         \<or> fr_payload_length request \<noteq> 16 then None
      else Option.bind (ksd_cursor_u16 (ksd_cursor_init (payload_bytes request))) (\<lambda>(role, cursor).
           Option.bind (ksd_cursor_u16 cursor) (\<lambda>(auth_mode, cursor).
           Option.bind (ksd_cursor_u32 cursor) (\<lambda>(scopes, cursor).
           Option.bind (ksd_cursor_u64 cursor) (\<lambda>(lease_id, cursor).
             if ksd_cursor_finished cursor
                \<and> (role = KSD_ROLE_RPC \<or> role = KSD_ROLE_AUTHORIZATION_LEASE)
                \<and> (auth_mode = KSD_AUTH_CHECK \<or> auth_mode = KSD_AUTH_REQUEST)
                \<and> scopes AND NOT KSD_DESKTOP_ACCEPTED_SCOPES = 0
             then Some \<lparr>he_role = role, he_auth_mode = auth_mode, he_scopes = scopes, he_lease_id = lease_id\<rparr>
             else None)))))"

text \<open>The tail of an accepted greeting: 32 bytes, the gaps zero.\<close>

definition hello_tail :: "u32 \<Rightarrow> u64 \<Rightarrow> u32 \<Rightarrow> u64 \<Rightarrow> bytes" where
  "hello_tail granted operations backend lease_id =
     ksd_encode_u32 granted @ replicate 4 0 @ ksd_encode_u64 operations @ ksd_encode_u32 backend
     @ replicate 4 0 @ ksd_encode_u64 lease_id"

definition parse_hello_tail :: "bytes \<Rightarrow> (u32 \<times> u64 \<times> u32) option" where
  "parse_hello_tail tail =
     Option.bind (ksd_cursor_u32 (ksd_cursor_init tail)) (\<lambda>(granted, cursor).
     Option.bind (ksd_cursor_u32 cursor) (\<lambda>(reserved0, cursor).
     Option.bind (ksd_cursor_u64 cursor) (\<lambda>(operations, cursor).
     Option.bind (ksd_cursor_u32 cursor) (\<lambda>(backend, cursor).
     Option.bind (ksd_cursor_u32 cursor) (\<lambda>(reserved1, cursor).
       let left = length (cur_data cursor) - cur_offset cursor in
       if (left \<noteq> 0 \<and> left \<noteq> 8) \<or> reserved0 \<noteq> 0 \<or> reserved1 \<noteq> 0 then None
       else Some (granted AND KSD_DESKTOP_ACCEPTED_SCOPES, operations, backend))))))"

definition hello_lease_id :: "bytes \<Rightarrow> u64" where
  "hello_lease_id tail = (if length tail \<ge> 32 then ksd_decode_u64 (drop 24 tail) else 0)"

definition status_diagnostic :: "u32 \<Rightarrow> bytes" where
  "status_diagnostic status =
     (if status = KSD_STATUS_DENIED then ascii ''permission is not granted''
      else if status = KSD_STATUS_INVALID_REQUEST then ascii ''invalid authorization scope''
      else if status = KSD_STATUS_UNAVAILABLE then ascii ''authorization service unavailable''
      else if status = KSD_STATUS_CANCELLED then ascii ''authorization was cancelled''
      else if status = KSD_STATUS_REVOKED then ascii ''permission changed''
      else ascii ''internal service error'')"

section \<open>What is built is read back\<close>

text \<open>The prefix of a diagnostic that reaches the client.\<close>

definition longest_valid :: "bytes \<Rightarrow> nat \<Rightarrow> bool" where
  "longest_valid d n \<longleftrightarrow> n \<le> length d \<and> n < KSD_ERROR_MESSAGE_CAPACITY \<and> ksd_utf8_valid (take n d) False
     \<and> (\<forall>k. n < k \<and> k \<le> length d \<and> k < KSD_ERROR_MESSAGE_CAPACITY \<longrightarrow> \<not> ksd_utf8_valid (take k d) False)"

lemma diagnostic_longest: "longest_valid d (diagnostic_length (Some d))"
proof -
  have "longest_valid d (trim_utf8 d n)" if "n \<le> length d" "n < 256" "\<And>k. k \<le> length d \<Longrightarrow> k < 256 \<Longrightarrow> k \<le> n" for n
    using that trim_utf8_le [of d n] trim_utf8_valid [of d n] trim_utf8_maximal [of _ n d]
    by (fastforce simp: longest_valid_def wire_defs)
  then show ?thesis by (simp add: diagnostic_length_def Let_def wire_defs)
qed

definition response_text :: "u32 \<Rightarrow> u32 \<Rightarrow> bytes option \<Rightarrow> bytes \<Rightarrow> bytes" where
  "response_text status detail diagnostic tail = ksd_encode_u32 status @ ksd_encode_u32 detail @
     (if status = KSD_STATUS_OK then tail
      else case diagnostic of None \<Rightarrow> []
        | Some d \<Rightarrow> ksd_encode_u32 (of_nat (diagnostic_length diagnostic)) @ take (diagnostic_length diagnostic) d)"

lemma writes_u32: "writes alloc (ksd_buffer_u32 alloc v) (ksd_encode_u32 v)"
  using writes_bytes [of alloc "ksd_encode_u32 v"] by (simp add: ksd_buffer_u32_def [abs_def])

lemma writes_u64: "writes alloc (ksd_buffer_u64 alloc v) (ksd_encode_u64 v)"
  using writes_bytes [of alloc "ksd_encode_u64 v"] by (simp add: ksd_buffer_u64_def [abs_def])

lemma writes_nothing: "writes alloc (\<lambda>b. (True, b)) []"
  by (simp add: writes_def)

lemma response_payload_writes:
  "writes alloc (response_payload alloc status detail diagnostic tail) (response_text status detail diagnostic tail)"
proof (cases "status = KSD_STATUS_OK")
  case True
  then show ?thesis unfolding response_payload_def response_text_def
    by (simp only: if_True simp_thms) (intro writes_and_then writes_u32 writes_bytes)
next
  case False
  show ?thesis
  proof (cases diagnostic)
    case None
    with False show ?thesis unfolding response_payload_def response_text_def
      by (simp only: if_False simp_thms option.simps) (intro writes_and_then writes_u32 writes_nothing)
  next
    case (Some d)
    with False show ?thesis unfolding response_payload_def response_text_def
      by (simp only: if_False simp_thms option.simps) (intro writes_and_then writes_u32 writes_bytes)
  qed
qed

lemma writes_init:
  assumes "writes alloc act s"
  shows "act (ksd_buffer_init n) = (True, b) \<Longrightarrow> buf_data b = s \<and> length s \<le> n"
    and "(\<And>k. alloc k) \<Longrightarrow> length s \<le> n \<Longrightarrow> fst (act (ksd_buffer_init n))"
proof -
  have wf: "buffer_wf (ksd_buffer_init n)" "buf_data (ksd_buffer_init n) = []" "buf_maximum (ksd_buffer_init n) = n"
    by (simp_all add: buffer_wf_def ksd_buffer_init_def)
  show "act (ksd_buffer_init n) = (True, b) \<Longrightarrow> buf_data b = s \<and> length s \<le> n"
    using assms wf unfolding writes_def buffer_wf_def by (metis append_Nil fst_conv snd_conv)
  show "(\<And>k. alloc k) \<Longrightarrow> length s \<le> n \<Longrightarrow> fst (act (ksd_buffer_init n))"
    using assms wf by (simp add: writes_def)
qed

lemma build_response_Some:
  assumes "build_response alloc request status detail diagnostic tail chained = Some f"
  shows "fr_request_id request \<noteq> 0" "fr_opcode f = fr_opcode request" "fr_request_id f = fr_request_id request"
    "fr_flags f = KSD_FLAG_RESPONSE OR (if chained then KSD_FLAG_MORE else 0)"
    "fr_payload f = Some (response_text status detail diagnostic tail)"
    "unat (fr_payload_length f) = length (response_text status detail diagnostic tail)"
    "fr_magic f = public_magic" "fr_major f = KSD_PROTOCOL_MAJOR" "fr_minor f = KSD_PROTOCOL_MINOR"
    "length (response_text status detail diagnostic tail) \<le> KSD_MAX_CAPTURE_BYTES + 64"
proof -
  let ?p = "response_payload alloc status detail diagnostic tail (ksd_buffer_init (KSD_MAX_CAPTURE_BYTES + 64))"
  obtain b where b: "?p = (True, b)" "fr_request_id request \<noteq> 0"
    "f = \<lparr>fr_magic = public_magic, fr_major = KSD_PROTOCOL_MAJOR, fr_minor = KSD_PROTOCOL_MINOR,
          fr_opcode = fr_opcode request, fr_flags = KSD_FLAG_RESPONSE OR (if chained then KSD_FLAG_MORE else 0),
          fr_payload_length = of_nat (length (buf_data b)), fr_request_id = fr_request_id request,
          fr_payload = Some (buf_data b)\<rparr>"
    using assms by (cases ?p) (auto simp: build_response_def split: if_splits)
  note w = writes_init(1) [OF response_payload_writes b(1)]
  then have "length (buf_data b) < 2 ^ 32" by (simp add: wire_defs)
  then have "unat (of_nat (length (buf_data b)) :: u32) = length (buf_data b)" by (simp add: unat_of_nat take_bit_nat_eq_self)
  with b w show "fr_request_id request \<noteq> 0" "fr_opcode f = fr_opcode request" "fr_request_id f = fr_request_id request"
    "fr_flags f = KSD_FLAG_RESPONSE OR (if chained then KSD_FLAG_MORE else 0)"
    "fr_payload f = Some (response_text status detail diagnostic tail)"
    "unat (fr_payload_length f) = length (response_text status detail diagnostic tail)"
    "fr_magic f = public_magic" "fr_major f = KSD_PROTOCOL_MAJOR" "fr_minor f = KSD_PROTOCOL_MINOR"
    "length (response_text status detail diagnostic tail) \<le> KSD_MAX_CAPTURE_BYTES + 64"
    by simp_all
qed

lemma parse_diagnostic_text:
  assumes "cursor_wf c" "longest_valid d n" "cur_rest c = ksd_encode_u32 (of_nat n) @ take n d"
  shows "parse_diagnostic c = Some (Some (take n d))"
proof -
  have n: "unat (of_nat n :: u32) = n" "n < 256" "length (take n d) = n"
    using assms(2) by (simp_all add: longest_valid_def wire_defs unat_of_nat take_bit_nat_eq_self)
  obtain c1 where c1: "ksd_cursor_u32 c = Some (of_nat n, c1)" "cursor_wf c1" "cur_rest c1 = take n d"
    using u32.get_enc [OF assms(1) _ assms(3)] by auto
  obtain c2 where c2: "ksd_cursor_bytes n c1 = Some (take n d, c2)" "cursor_wf c2" "cur_rest c2 = []"
    using cursor_bytes_append [OF c1(2), of "take n d" "[]"] c1(3) n(3) by auto
  have "\<not> ksd_cursor_finished c" using assms(1,3) by (auto simp: cursor_finished_rest dest: arg_cong [where f = length])
  moreover have "ksd_cursor_finished c2" using c2 by (simp add: cursor_finished_rest)
  ultimately show ?thesis
    using n c1(1) c2(1) assms(2) by (simp add: parse_diagnostic_def longest_valid_def wire_defs)
qed

text \<open>
  C29: What the authority answers is what the client reads. A response frame that was built
  meets the rules of the client's reader, and the client takes from it the status, the
  detail, the tail of a success and, of a failure, the longest prefix of the diagnostic
  that is valid UTF-8 and fits its message buffer.
\<close>

theorem response_round_trip:
  assumes "build_response alloc request status detail diagnostic tail chained = Some f"
    and "valid_status status" and "chained \<longrightarrow> status = KSD_STATUS_OK"
  shows "frame_wf f \<and> frame_header_acceptable f public_magic KSD_PROTOCOL_MAJOR KSD_PROTOCOL_MINOR (of_nat (KSD_MAX_CAPTURE_BYTES + 64)) True
    \<and> (\<exists>n. (\<forall>d. diagnostic = Some d \<longrightarrow> longest_valid d n)
         \<and> parse_response f (fr_opcode request) (fr_request_id request) =
             Some \<lparr>rp_status = status, rp_detail = detail, rp_tail = (if status = KSD_STATUS_OK then tail else []),
                   rp_message = (if status = KSD_STATUS_OK then None else map_option (take n) diagnostic)\<rparr>)"
proof -
  let ?t = "response_text status detail diagnostic tail" and ?n = "diagnostic_length diagnostic"
  note f = build_response_Some [OF assms(1)]
  have bytes: "payload_bytes f = ?t" using f by (simp add: payload_bytes_def)
  obtain body where body: "?t = ksd_encode_u32 status @ ksd_encode_u32 detail @ body"
    "status = KSD_STATUS_OK \<Longrightarrow> body = tail"
    "status \<noteq> KSD_STATUS_OK \<Longrightarrow> body = (case diagnostic of None \<Rightarrow> [] | Some d \<Rightarrow> ksd_encode_u32 (of_nat ?n) @ take ?n d)"
    by (simp add: response_text_def)
  have "8 \<le> length ?t" by (simp add: body)
  then have len: "\<not> fr_payload_length f < 8" using f(6) by (simp add: word_less_nat_alt)
  have wf: "frame_wf f" using f(5,6,7) \<open>8 \<le> length ?t\<close> by (auto simp: frame_wf_def public_magic_def)
  have "fr_payload_length f \<le> of_nat (KSD_MAX_CAPTURE_BYTES + 64)"
    using f(6,10) by (simp add: word_le_nat_alt wire_defs)
  moreover have "valid_public_header f"
    using f(1,3,4) by (simp add: valid_public_header_def wire_defs)
  ultimately have acc: "frame_header_acceptable f public_magic KSD_PROTOCOL_MAJOR KSD_PROTOCOL_MINOR (of_nat (KSD_MAX_CAPTURE_BYTES + 64)) True"
    using f(7-9) by (simp add: frame_header_acceptable_def)
  have flags: "fr_flags f AND KSD_FLAG_RESPONSE \<noteq> 0" "fr_flags f AND KSD_FLAG_EVENT = 0" "status \<noteq> KSD_STATUS_OK \<Longrightarrow> fr_flags f AND KSD_FLAG_MORE = 0"
    using f(4) assms(3) by (auto simp: wire_defs)
  obtain c1 where c1: "ksd_cursor_u32 (ksd_cursor_init ?t) = Some (status, c1)" "cursor_wf c1" "cur_rest c1 = ksd_encode_u32 detail @ body"
    using u32.get_enc [of "ksd_cursor_init ?t" status "ksd_encode_u32 detail @ body"] body(1) by auto
  obtain c2 where c2: "ksd_cursor_u32 c1 = Some (detail, c2)" "cursor_wf c2" "cur_rest c2 = body"
    using u32.get_enc [OF c1(2) _ c1(3)] by auto
  have parsed: "status \<noteq> KSD_STATUS_OK \<Longrightarrow> parse_diagnostic c2 = Some (map_option (take ?n) diagnostic)"
    using parse_diagnostic_text [OF c2(2) diagnostic_longest] body(3) c2
    by (cases diagnostic) (simp_all add: parse_diagnostic_def cursor_finished_rest)
  have "parse_response f (fr_opcode request) (fr_request_id request) =
             Some \<lparr>rp_status = status, rp_detail = detail, rp_tail = (if status = KSD_STATUS_OK then tail else []),
                   rp_message = (if status = KSD_STATUS_OK then None else map_option (take ?n) diagnostic)\<rparr>"
    using f(2,3) flags len c1(1) c2 body(2) parsed assms(2)
    by (simp add: parse_response_def bytes cur_rest_def [symmetric])
  moreover have "\<forall>d. diagnostic = Some d \<longrightarrow> longest_valid d ?n" using diagnostic_longest by auto
  ultimately show ?thesis using wf acc by blast
qed

theorem response_round_trip_witness:
  "\<exists>f. build_response (\<lambda>_. True) (frame_zero\<lparr>fr_request_id := 5\<rparr>) KSD_STATUS_DENIED 0 (Some (ascii ''no'')) [] False = Some f
     \<and> parse_response f 0 5 = Some \<lparr>rp_status = KSD_STATUS_DENIED, rp_detail = 0, rp_tail = [], rp_message = Some (ascii ''no'')\<rparr>"
proof -
  let ?req = "frame_zero\<lparr>fr_request_id := 5\<rparr>" and ?d = "Some (ascii ''no'')"
  have utf: "ksd_utf8_valid (ascii ''no'') False" by code_simp
  have n: "diagnostic_length ?d = 2"
    using utf by (simp add: diagnostic_length_def wire_defs numeral_2_eq_2)
  obtain ok b where b: "response_payload (\<lambda>_. True) KSD_STATUS_DENIED 0 ?d [] (ksd_buffer_init (KSD_MAX_CAPTURE_BYTES + 64)) = (ok, b)"
    by force
  have ok: "ok"
    using writes_init(2) [OF response_payload_writes, of "\<lambda>_. True" KSD_STATUS_DENIED 0 ?d "[]" "KSD_MAX_CAPTURE_BYTES + 64"] b
    by (simp add: response_text_def n wire_defs)
  then have "length (buf_data b) \<le> KSD_MAX_CAPTURE_BYTES + 64"
    using writes_init(1) [OF response_payload_writes, of "\<lambda>_. True" KSD_STATUS_DENIED 0 ?d "[]" "KSD_MAX_CAPTURE_BYTES + 64" b] b by simp
  then obtain f where f: "build_response (\<lambda>_. True) ?req KSD_STATUS_DENIED 0 ?d [] False = Some f"
    using b ok by (simp add: build_response_def wire_defs)
  obtain n where n: "longest_valid (ascii ''no'') n"
    "parse_response f 0 5 = Some \<lparr>rp_status = KSD_STATUS_DENIED, rp_detail = 0, rp_tail = [], rp_message = Some (take n (ascii ''no''))\<rparr>"
    using response_round_trip [OF f] by (auto simp: valid_status_def wire_defs frame_zero_def)
  have "\<not> n < 2" using n(1) utf by (auto simp: longest_valid_def wire_defs dest: spec [of _ 2])
  then show ?thesis using f n(2) by simp
qed

lemma build_response_fits:
  assumes "fr_request_id request \<noteq> 0" "status = KSD_STATUS_OK \<longrightarrow> diagnostic_length diagnostic = 0"
    and "length (response_text status detail diagnostic tail) \<le> KSD_MAX_CAPTURE_BYTES + 64"
  obtains frame where "build_response (\<lambda>_. True) request status detail diagnostic tail chained = Some frame"
proof -
  obtain ok b where b: "response_payload (\<lambda>_. True) status detail diagnostic tail (ksd_buffer_init (KSD_MAX_CAPTURE_BYTES + 64)) = (ok, b)"
    by force
  have ok using writes_init(2) [OF response_payload_writes, of "\<lambda>_. True"] b assms(3) by fastforce
  moreover from this have "length (buf_data b) \<le> KSD_MAX_CAPTURE_BYTES + 64"
    using writes_init(1) [OF response_payload_writes, of "\<lambda>_. True"] b by fastforce
  ultimately show thesis using that b assms(1,2) by (simp add: build_response_def wire_defs)
qed

section \<open>Hashes in both directions\<close>

lemma nibbles_of_byte:
  "push_bit 4 (hex_value (ascii ''0123456789abcdef'' ! unat (drop_bit 4 b)))
     OR hex_value (ascii ''0123456789abcdef'' ! unat (b AND 15)) = (b :: u8)"
  by (rule u8_forall) code_simp

lemma digit_of_value:
  "(48 \<le> c \<and> c \<le> 57 \<or> 97 \<le> c \<and> c \<le> 102 \<longrightarrow>
     ascii ''0123456789abcdef'' ! unat (hex_value c) = c \<and> hex_value c AND 15 = hex_value c) \<and> c = (c :: u8)"
  by (rule u8_forall) code_simp

lemma split_nibbles:
  assumes "h AND 15 = h" "l AND 15 = (l :: u8)"
  shows "drop_bit 4 (push_bit 4 h OR l) = h" "(push_bit 4 h OR l) AND 15 = l"
proof -
  have "take_bit 4 h = h" "take_bit 4 l = l" using assms by (simp_all add: take_bit_eq_mask mask_numeral)
  then have *: "bit h i \<Longrightarrow> i < 4" "bit l i \<Longrightarrow> i < 4" for i by (metis bit_take_bit_iff)+
  show "drop_bit 4 (push_bit 4 h OR l) = h"
    using * by (intro bit_word_eqI) (auto simp: bit_simps dest: bit_imp_le_length)
  have "take_bit 4 (push_bit 4 h OR l) = l"
    using * by (intro bit_word_eqI) (auto simp: bit_simps)
  then show "(push_bit 4 h OR l) AND 15 = l" by (simp add: take_bit_eq_mask mask_numeral)
qed

lemma nth_pairs: "i < n \<Longrightarrow> concat (map (\<lambda>i. [f i, g i]) [0..<n]) ! (i * 2) = f i \<and> concat (map (\<lambda>i. [f i, g i]) [0..<n]) ! (i * 2 + 1) = g i"
proof (induction n)
  case (Suc n)
  have len: "length (concat (map (\<lambda>i. [f i, g i]) [0..<n])) = n * 2" by (induction n) auto
  show ?case using Suc len by (auto simp: nth_append less_Suc_eq)
qed simp

lemma length_pairs: "length (concat (map (\<lambda>i. [f i, g i]) [0..<n])) = n * 2"
  by (induction n) auto

lemma pairs_nth: "length xs = n * 2 \<Longrightarrow> concat (map (\<lambda>i. [xs ! (i * 2), xs ! (i * 2 + 1)]) [0..<n]) = xs"
proof (rule nth_equalityI)
  assume xs: "length xs = n * 2"
  then show "length (concat (map (\<lambda>i. [xs ! (i * 2), xs ! (i * 2 + 1)]) [0..<n])) = length xs" by (simp add: length_pairs)
  fix j
  assume "j < length (concat (map (\<lambda>i. [xs ! (i * 2), xs ! (i * 2 + 1)]) [0..<n]))"
  then have j: "j < n * 2" by (simp add: length_pairs)
  then have "j div 2 < n" by auto
  note p = nth_pairs [OF this, of "\<lambda>i. xs ! (i * 2)" "\<lambda>i. xs ! (i * 2 + 1)"]
  show "concat (map (\<lambda>i. [xs ! (i * 2), xs ! (i * 2 + 1)]) [0..<n]) ! j = xs ! j"
  proof (cases "even j")
    case True
    then show ?thesis using conjunct1 [OF p] by simp
  next
    case False
    then have "j div 2 * 2 + 1 = j" by presburger
    then show ?thesis using conjunct2 [OF p] by simp
  qed
qed

lemma raw_hash_raw: "length raw = 32 \<Longrightarrow> hash_to_raw (raw_to_hash raw) = raw"
proof -
  assume raw: "length raw = 32"
  have "hash_to_raw (raw_to_hash raw) = map (\<lambda>i. raw ! i) [0..<32]"
    unfolding hash_to_raw_def raw_to_hash_def
    by (rule map_cong [OF refl]) (simp only: nth_pairs nibbles_of_byte set_upt atLeastLessThan_iff)
  then show ?thesis using raw map_nth [of raw] by simp
qed

lemma canonical_digit:
  assumes "canonical_hash hash" "i < 64"
  shows "ascii ''0123456789abcdef'' ! unat (hex_value (hash ! i)) = hash ! i" "hex_value (hash ! i) AND 15 = hex_value (hash ! i)"
  using assms digit_of_value [of "hash ! i"] by (simp_all add: canonical_hash_def list_all_length)

lemma hash_raw_hash: "canonical_hash hash \<Longrightarrow> raw_to_hash (hash_to_raw hash) = hash"
proof -
  assume h: "canonical_hash hash"
  have "raw_to_hash (hash_to_raw hash) = concat (map (\<lambda>i. [hash ! (i * 2), hash ! (i * 2 + 1)]) [0..<32])"
    unfolding raw_to_hash_def hash_to_raw_def
    by (rule arg_cong [where f = concat], rule map_cong [OF refl])
       (simp add: split_nibbles canonical_digit [OF h] del: drop_bit_or upt_rec)
  then show ?thesis using h pairs_nth [of hash 32] by (simp add: canonical_hash_def)
qed

lemma digit_alphabet: "k < 16 \<Longrightarrow> 48 \<le> ascii ''0123456789abcdef'' ! k \<and> ascii ''0123456789abcdef'' ! k \<le> 57
    \<or> 97 \<le> ascii ''0123456789abcdef'' ! k \<and> ascii ''0123456789abcdef'' ! k \<le> 102"
proof -
  have "list_all (\<lambda>c. 48 \<le> c \<and> c \<le> 57 \<or> 97 \<le> c \<and> c \<le> 102) (ascii ''0123456789abcdef'')" by (simp add: ascii_def)
  then show "k < 16 \<Longrightarrow> ?thesis" by (auto simp: list_all_length)
qed

lemma nibble_range: "unat (drop_bit 4 (b :: u8)) < 16 \<and> unat (b AND 15) < 16"
  by (rule u8_forall) code_simp

lemma raw_to_hash_canonical: "canonical_hash (raw_to_hash raw)"
  by (auto simp: canonical_hash_def raw_to_hash_def length_pairs list_all_iff digit_alphabet nibble_range simp del: upt_rec)

text \<open>
  The two forms of an application hash determine each other: the 64 lower-case digits
  the store uses and the 32 bytes of the wire convert back and forth without loss.
\<close>

theorem hash_round_trip:
  "(length raw = 32 \<longrightarrow> hash_to_raw (raw_to_hash raw) = raw \<and> canonical_hash (raw_to_hash raw))
   \<and> (canonical_hash hash \<longrightarrow> raw_to_hash (hash_to_raw hash) = hash)"
  using raw_hash_raw hash_raw_hash raw_to_hash_canonical by blast

theorem hash_round_trip_witness:
  "hash_to_raw (raw_to_hash (replicate 32 0xA5)) = replicate 32 0xA5 \<and> canonical_hash (raw_to_hash (replicate 32 0xA5))
   \<and> raw_to_hash (hash_to_raw (replicate 64 97)) = replicate 64 97"
  using hash_round_trip [of "replicate 32 0xA5" "replicate 64 97"] by (simp add: canonical_hash_def list_all_length)

section \<open>Entries of a listing and the greeting\<close>

lemma safe_path_valid:
  assumes "0 \<notin> set (sanitize source)"
  shows "ksd_utf8_valid (safe_path sanitize source) False"
proof -
  have "ksd_utf8_valid bs False" if "list_all (\<lambda>b. b < 0x80 \<and> b \<noteq> 0) bs" for bs
    using that by (induction bs) simp_all
  moreover have "list_all (\<lambda>b. b < 0x80 \<and> b \<noteq> 0) (map (\<lambda>b. if b \<ge> 0x80 then 63 else b) (sanitize source))"
    using assms by (auto simp: list_all_iff not_le) 
  ultimately show ?thesis by (simp add: safe_path_def Let_def)
qed

definition permission_text :: "u32 \<Rightarrow> u64 \<Rightarrow> bytes \<Rightarrow> bytes \<Rightarrow> bytes" where
  "permission_text scopes granted_at hash path =
     ksd_encode_u32 scopes @ ksd_encode_u32 (of_nat (length path)) @ ksd_encode_u64 granted_at @ hash @ path"

lemma permission_tail_writes:
  assumes "length path \<le> 0xFFFFFFFF"
  shows "writes alloc (permission_tail alloc scopes granted_at hash path) (permission_text scopes granted_at hash path)"
  using assms unfolding permission_tail_def permission_text_def
  by (simp only: not_less [symmetric] if_False) (intro writes_and_then writes_u32 writes_u64 writes_bytes)

lemma raw_hash_to_text_eq: "raw_hash_to_text = raw_to_hash"
  by (rule ext) (simp add: raw_hash_to_text_def raw_to_hash_def)

lemma parse_permission_text:
  assumes "scopes \<noteq> 0" "length hash = 32" "path \<noteq> []" "length path < KSD_EXECUTABLE_PATH_SIZE" "ksd_utf8_valid path False"
  shows "parse_permission_entry (permission_text scopes granted_at hash path) =
    Some \<lparr>pe_scopes = scopes, pe_granted_at = granted_at, pe_hash = raw_to_hash hash, pe_executable = path\<rparr>"
proof -
  let ?t = "permission_text scopes granted_at hash path"
  have n: "unat (of_nat (length path) :: u32) = length path" using assms(4) by (simp add: wire_defs unat_of_nat take_bit_nat_eq_self)
  have nz: "(of_nat (length path) :: u32) \<noteq> 0" using n assms(3) by (metis length_0_conv unat_0)
  obtain c1 where c1: "ksd_cursor_u32 (ksd_cursor_init ?t) = Some (scopes, c1)" "cursor_wf c1"
      "cur_rest c1 = ksd_encode_u32 (of_nat (length path)) @ ksd_encode_u64 granted_at @ hash @ path"
    using u32.get_enc [of "ksd_cursor_init ?t" scopes] by (auto simp: permission_text_def)
  obtain c2 where c2: "ksd_cursor_u32 c1 = Some (of_nat (length path), c2)" "cursor_wf c2" "cur_rest c2 = ksd_encode_u64 granted_at @ hash @ path"
    using u32.get_enc [OF c1(2) _ c1(3)] by auto
  obtain c3 where c3: "ksd_cursor_u64 c2 = Some (granted_at, c3)" "cursor_wf c3" "cur_rest c3 = hash @ path"
    using u64.get_enc [OF c2(2) _ c2(3)] by auto
  obtain c4 where c4: "ksd_cursor_bytes 32 c3 = Some (hash, c4)" "cursor_wf c4" "cur_rest c4 = path"
    using cursor_bytes_append [OF c3(2,3)] assms(2) by auto
  obtain c5 where c5: "ksd_cursor_bytes (length path) c4 = Some (path, c5)" "cursor_wf c5" "cur_rest c5 = []"
    using cursor_bytes_append [OF c4(2), of path "[]"] c4(3) by auto
  show ?thesis
    using c1 c2 c3 c4 c5 n nz assms by (simp add: parse_permission_entry_def raw_hash_to_text_eq cursor_finished_rest)
qed

text \<open>
  An entry of a permission listing arrives as it was stored: when the tail was written,
  the client reads the same scopes and time, the hash the store keeps and the path with
  its unprintable bytes replaced, whatever the executable is called.
\<close>

theorem permission_entry_round_trip:
  assumes "permission_tail alloc scopes granted_at (hash_to_raw app_hash) (safe_path sanitize executable) (ksd_buffer_init n) = (True, tail)"
    and "scopes \<noteq> 0" and "canonical_hash app_hash"
    and "0 \<notin> set (sanitize executable)" and "sanitize executable \<noteq> []" and "length (sanitize executable) < KSD_EXECUTABLE_PATH_SIZE"
  shows "parse_permission_entry (buf_data tail) =
    Some \<lparr>pe_scopes = scopes, pe_granted_at = granted_at, pe_hash = app_hash, pe_executable = safe_path sanitize executable\<rparr>"
proof -
  have len: "length (safe_path sanitize executable) = length (sanitize executable)" by (simp add: safe_path_def Let_def)
  then have "length (safe_path sanitize executable) \<le> 0xFFFFFFFF" using assms(6) by (simp add: wire_defs)
  from writes_init(1) [OF permission_tail_writes [OF this] assms(1)]
  have "buf_data tail = permission_text scopes granted_at (hash_to_raw app_hash) (safe_path sanitize executable)" by simp
  moreover have "length (hash_to_raw app_hash) = 32" by (simp add: hash_to_raw_def)
  moreover have "safe_path sanitize executable \<noteq> []" using len assms(5) by auto
  ultimately show ?thesis
    using parse_permission_text [of scopes "hash_to_raw app_hash" "safe_path sanitize executable" granted_at]
      safe_path_valid [of sanitize executable, OF assms(4)] hash_raw_hash [OF assms(3)] assms(2,6) len by simp
qed

theorem permission_entry_round_trip_witness:
  "\<exists>tail. permission_tail (\<lambda>_. True) 4 7 (hash_to_raw (replicate 64 97)) (safe_path (\<lambda>s. s) [47, 0xFF]) (ksd_buffer_init 4144) = (True, tail)
     \<and> parse_permission_entry (buf_data tail) =
         Some \<lparr>pe_scopes = 4, pe_granted_at = 7, pe_hash = replicate 64 97, pe_executable = [47, 63]\<rparr>"
proof -
  have path: "safe_path (\<lambda>s. s) [47, 0xFF] = [47, 63]" by code_simp
  have "fst (permission_tail (\<lambda>_. True) 4 7 (hash_to_raw (replicate 64 97)) [47, 63] (ksd_buffer_init 4144))"
    by (rule writes_init(2) [OF permission_tail_writes]) (simp_all add: permission_text_def hash_to_raw_def)
  then obtain tail where t: "permission_tail (\<lambda>_. True) 4 7 (hash_to_raw (replicate 64 97)) (safe_path (\<lambda>s. s) [47, 0xFF]) (ksd_buffer_init 4144) = (True, tail)"
    unfolding path by (metis prod.collapse)
  with permission_entry_round_trip [OF t] show ?thesis by (simp add: canonical_hash_def list_all_length path wire_defs)
qed

text \<open>The client reads the greeting's answer; the scopes are narrowed to the ones the authority manages.\<close>

lemma hello_tail_round_trip:
  "parse_hello_tail (hello_tail granted operations backend lease_id) = Some (granted AND KSD_DESKTOP_ACCEPTED_SCOPES, operations, backend)
   \<and> hello_lease_id (hello_tail granted operations backend lease_id) = lease_id"
proof -
  let ?t = "hello_tail granted operations backend lease_id"
  have z: "replicate 4 0 = ksd_encode_u32 0" by code_simp
  obtain c1 where c1: "ksd_cursor_u32 (ksd_cursor_init ?t) = Some (granted, c1)" "cursor_wf c1"
      "cur_rest c1 = ksd_encode_u32 0 @ ksd_encode_u64 operations @ ksd_encode_u32 backend @ ksd_encode_u32 0 @ ksd_encode_u64 lease_id"
    using u32.get_enc [of "ksd_cursor_init ?t" granted] by (auto simp: hello_tail_def z)
  obtain c2 where c2: "ksd_cursor_u32 c1 = Some (0, c2)" "cursor_wf c2"
      "cur_rest c2 = ksd_encode_u64 operations @ ksd_encode_u32 backend @ ksd_encode_u32 0 @ ksd_encode_u64 lease_id"
    using u32.get_enc [OF c1(2) _ c1(3)] by auto
  obtain c3 where c3: "ksd_cursor_u64 c2 = Some (operations, c3)" "cursor_wf c3" "cur_rest c3 = ksd_encode_u32 backend @ ksd_encode_u32 0 @ ksd_encode_u64 lease_id"
    using u64.get_enc [OF c2(2) _ c2(3)] by auto
  obtain c4 where c4: "ksd_cursor_u32 c3 = Some (backend, c4)" "cursor_wf c4" "cur_rest c4 = ksd_encode_u32 0 @ ksd_encode_u64 lease_id"
    using u32.get_enc [OF c3(2) _ c3(3)] by auto
  obtain c5 where c5: "ksd_cursor_u32 c4 = Some (0, c5)" "cursor_wf c5" "cur_rest c5 = ksd_encode_u64 lease_id"
    using u32.get_enc [OF c4(2) _ c4(3)] by auto
  have "length (cur_data c5) - cur_offset c5 = 8" using arg_cong [OF c5(3), of length] by (simp add: cur_rest_def)
  then show ?thesis using c1(1) c2(1) c3(1) c4(1) c5(1)
    by (simp add: parse_hello_tail_def hello_lease_id_def hello_tail_def codec_simps)
qed

end
