(* ===== verification/Worker_Requests.thy ===== *)
theory Worker_Requests
  imports Frame Backend
begin

text \<open>
  The requests a display worker serves. Each backend has its own rule for a well-formed
  request: captures of KWin (src/src/local_capture.c), the X11 worker
  (src/src/x11/x11_worker.c) and the generic Wayland worker (src/src/wayland/wl_worker.c).
  The parent and the worker share the rule (src/src/capture_worker.c). The theorems relate
  the rules to the operations a backend advertises.
\<close>

section \<open>Reading a request\<close>

text \<open>A step of a chain of \<open>&&\<close> over a cursor: a failed read makes the chain false.\<close>

definition got :: "('a \<times> ksd_cursor) option \<Rightarrow> ('a \<Rightarrow> ksd_cursor \<Rightarrow> bool) \<Rightarrow> bool" where
  "got r f \<longleftrightarrow> (case r of None \<Rightarrow> False | Some (x, c) \<Rightarrow> f x c)"

definition request_cursor :: "ksd_frame \<Rightarrow> ksd_cursor" where
  "request_cursor request = ksd_cursor_init (payload_bytes request)"

definition KSD_CAPTURE_WINDOW_INCLUDE_DECORATION :: u32 where
  [wire_defs]: "KSD_CAPTURE_WINDOW_INCLUDE_DECORATION = 1"

definition KSD_MAX_WINDOW_HANDLE_BYTES :: nat where
  [wire_defs]: "KSD_MAX_WINDOW_HANDLE_BYTES = 128"

definition KSD_CAPTURE_FORMAT_PNG :: u16 where
  [wire_defs]: "KSD_CAPTURE_FORMAT_PNG = 1"

definition KSD_CAPTURE_FORMAT_BGRA8_PREMULTIPLIED :: u16 where
  [wire_defs]: "KSD_CAPTURE_FORMAT_BGRA8_PREMULTIPLIED = 2"

definition INT32_MAX :: int where
  [wire_defs]: "INT32_MAX = 2 ^ 31 - 1"

definition INT16_MAX :: int where
  [wire_defs]: "INT16_MAX = 2 ^ 15 - 1"

definition INT16_MIN :: int where
  [wire_defs]: "INT16_MIN = - (2 ^ 15)"

section \<open>Captures of KWin\<close>

definition valid_rectangle :: "i32 \<Rightarrow> i32 \<Rightarrow> u32 \<Rightarrow> u32 \<Rightarrow> bool" where
  "valid_rectangle x y width height \<longleftrightarrow> width \<noteq> 0 \<and> height \<noteq> 0
     \<and> unat width \<le> KSD_MAX_CAPTURE_DIMENSION \<and> unat height \<le> KSD_MAX_CAPTURE_DIMENSION
     \<and> unat width * unat height \<le> KSD_MAX_CAPTURE_PIXELS
     \<and> sint x + uint width \<le> INT32_MAX \<and> sint y + uint height \<le> INT32_MAX"

lemma valid_rectangle_code [code]:
  "valid_rectangle x y width height \<longleftrightarrow> width \<noteq> 0 \<and> height \<noteq> 0 \<and> uint width \<le> 32768 \<and> uint height \<le> 32768
     \<and> uint width * uint height \<le> 67108864 \<and> sint x + uint width \<le> 2147483647 \<and> sint y + uint height \<le> 2147483647"
proof -
  have product: "unat width * unat height \<le> n \<longleftrightarrow> uint width * uint height \<le> int n" for n
    by (simp only: uint_nat of_nat_mult [symmetric] of_nat_le_iff)
  have single: "unat w \<le> n \<longleftrightarrow> uint w \<le> int n" for n and w :: u32 by (simp only: uint_nat of_nat_le_iff)
  have "int KSD_MAX_CAPTURE_DIMENSION = 32768" "int KSD_MAX_CAPTURE_PIXELS = 67108864" "INT32_MAX = 2147483647"
    by (simp_all add: wire_defs)
  then show ?thesis unfolding valid_rectangle_def product single by (simp only:)
qed

datatype capture_request = Capture_Rectangle i32 i32 u32 u32 | Capture_Handle bytes bool

definition parse_request :: "ksd_frame \<Rightarrow> capture_request option" where
  "parse_request request =
     (let cursor = request_cursor request in
      if fr_opcode request = KSD_OP_CAPTURE_AREA then
        Option.bind (ksd_cursor_i32 cursor) (\<lambda>(x, cursor).
        Option.bind (ksd_cursor_i32 cursor) (\<lambda>(y, cursor).
        Option.bind (ksd_cursor_u32 cursor) (\<lambda>(width, cursor).
        Option.bind (ksd_cursor_u32 cursor) (\<lambda>(height, cursor).
          if ksd_cursor_finished cursor \<and> valid_rectangle x y width height
          then Some (Capture_Rectangle x y width height) else None))))
      else if fr_opcode request \<noteq> KSD_OP_CAPTURE_WINDOW then None
      else
        Option.bind (ksd_cursor_u32 cursor) (\<lambda>(flags, cursor).
        Option.bind (ksd_cursor_u32 cursor) (\<lambda>(length, cursor).
          if flags AND NOT KSD_CAPTURE_WINDOW_INCLUDE_DECORATION \<noteq> 0 \<or> length = 0
             \<or> unat length > KSD_MAX_WINDOW_HANDLE_BYTES then None
          else Option.bind (ksd_cursor_bytes (unat length) cursor) (\<lambda>(handle, cursor).
            if \<not> ksd_cursor_finished cursor \<or> \<not> ksd_utf8_valid handle False then None
            else Some (Capture_Handle handle (flags AND KSD_CAPTURE_WINDOW_INCLUDE_DECORATION \<noteq> 0))))))"

definition ksd_local_capture_request_valid :: "ksd_frame \<Rightarrow> bool" where
  "ksd_local_capture_request_valid request \<longleftrightarrow> parse_request request \<noteq> None"

section \<open>The X11 worker\<close>

definition KSD_X11_HANDLE_DIGITS :: nat where
  [wire_defs]: "KSD_X11_HANDLE_DIGITS = 10"

text \<open>The digits read so far as a 64-bit number; ten digits cannot overflow it.\<close>

fun xid_loop :: "bytes \<Rightarrow> u64 \<Rightarrow> u64 option" where
  "xid_loop [] number = Some number"
| "xid_loop (b # rest) number =
     (if b < 48 \<or> b > 57 then None else xid_loop rest (number * 10 + ucast (b - 48)))"

definition parse_xid :: "bytes \<Rightarrow> u32 option" where
  "parse_xid digits =
     (if digits = [] \<or> length digits > KSD_X11_HANDLE_DIGITS then None
      else if length digits > 1 \<and> digits ! 0 = 48 then None
      else case xid_loop digits 0 of None \<Rightarrow> None
        | Some number \<Rightarrow> if number = 0 \<or> number > 0xFFFFFFFF then None else Some (ucast number))"

definition handle_is_xid :: "u64 \<Rightarrow> bool" where
  "handle_is_xid handle \<longleftrightarrow> handle \<noteq> 0 \<and> handle \<le> 0xFFFFFFFF"

definition coordinate :: "i32 \<Rightarrow> bool" where
  "coordinate x \<longleftrightarrow> INT16_MIN \<le> sint x \<and> sint x \<le> INT16_MAX"

definition flags_valid :: "ksd_frame \<Rightarrow> bool" where
  "flags_valid request \<longleftrightarrow>
     got (ksd_cursor_u32 (request_cursor request)) (\<lambda>include_hidden cursor.
     got (ksd_cursor_u32 cursor) (\<lambda>reserved cursor.
       include_hidden \<le> 1 \<and> reserved = 0 \<and> ksd_cursor_finished cursor))"

definition revision_valid :: "ksd_frame \<Rightarrow> bool" where
  "revision_valid request \<longleftrightarrow> fr_payload_length request = 0
     \<or> got (ksd_cursor_u32 (request_cursor request)) (\<lambda>length cursor. length \<le> 64
       \<and> got (ksd_cursor_bytes (unat length) cursor) (\<lambda>revision cursor.
         ksd_cursor_finished cursor \<and> ksd_utf8_valid revision False))"

definition point_valid :: "ksd_frame \<Rightarrow> bool" where
  "point_valid request \<longleftrightarrow>
     got (ksd_cursor_i32 (request_cursor request)) (\<lambda>x cursor.
     got (ksd_cursor_i32 cursor) (\<lambda>y cursor.
     got (ksd_cursor_u32 cursor) (\<lambda>deepest cursor.
     got (ksd_cursor_u32 cursor) (\<lambda>zero cursor.
       deepest \<le> 1 \<and> zero = 0 \<and> ksd_cursor_finished cursor))))"

definition pointer_valid :: "(i32 \<Rightarrow> bool) \<Rightarrow> ksd_frame \<Rightarrow> bool" where
  "pointer_valid inside request \<longleftrightarrow>
     got (ksd_cursor_i32 (request_cursor request)) (\<lambda>x cursor.
     got (ksd_cursor_i32 cursor) (\<lambda>y cursor.
       inside x \<and> inside y \<and> ksd_cursor_finished cursor))"

definition title_valid :: "ksd_frame \<Rightarrow> bool" where
  "title_valid request \<longleftrightarrow>
     got (ksd_cursor_u64 (request_cursor request)) (\<lambda>handle cursor. handle_is_xid handle
       \<and> got (ksd_cursor_u32 cursor) (\<lambda>length cursor. unat length \<le> KSD_MAX_REQUEST_PAYLOAD - 12
       \<and> got (ksd_cursor_bytes (unat length) cursor) (\<lambda>title cursor.
         ksd_cursor_finished cursor \<and> ksd_utf8_valid title False)))"

definition click_valid :: "ksd_frame \<Rightarrow> bool" where
  "click_valid request \<longleftrightarrow>
     (let held = (fr_opcode request = KSD_OP_WINDOW_BUTTON) in
      got (ksd_cursor_u64 (request_cursor request)) (\<lambda>handle cursor. handle_is_xid handle
        \<and> got (ksd_cursor_i32 cursor) (\<lambda>x cursor.
          got (ksd_cursor_i32 cursor) (\<lambda>y cursor. coordinate x \<and> coordinate y
        \<and> got (ksd_cursor_u32 cursor) (\<lambda>button cursor. button \<ge> 1 \<and> button \<le> (if held then 32 else 5)
        \<and> got (ksd_cursor_u32 cursor) (\<lambda>count cursor.
            (if held then count \<le> 1 else count \<ge> 1 \<and> count \<le> 100) \<and> ksd_cursor_finished cursor))))))"

definition area_valid :: "(i32 \<Rightarrow> i32 \<Rightarrow> u32 \<Rightarrow> u32 \<Rightarrow> bool) \<Rightarrow> ksd_frame \<Rightarrow> bool" where
  "area_valid inside request \<longleftrightarrow>
     got (ksd_cursor_i32 (request_cursor request)) (\<lambda>x cursor.
     got (ksd_cursor_i32 cursor) (\<lambda>y cursor.
     got (ksd_cursor_u32 cursor) (\<lambda>width cursor.
     got (ksd_cursor_u32 cursor) (\<lambda>height cursor.
       ksd_cursor_finished cursor \<and> inside x y width height))))"

definition x11_window_valid :: "ksd_frame \<Rightarrow> bool" where
  "x11_window_valid request \<longleftrightarrow>
     got (ksd_cursor_u32 (request_cursor request)) (\<lambda>flags cursor.
     got (ksd_cursor_u32 cursor) (\<lambda>length cursor. flags AND NOT KSD_CAPTURE_WINDOW_INCLUDE_DECORATION = 0
       \<and> got (ksd_cursor_bytes (unat length) cursor) (\<lambda>digits cursor.
         ksd_cursor_finished cursor \<and> parse_xid digits \<noteq> None)))"

definition handle_valid :: "(u64 \<Rightarrow> bool) \<Rightarrow> ksd_frame \<Rightarrow> bool" where
  "handle_valid names request \<longleftrightarrow>
     got (ksd_cursor_u64 (request_cursor request)) (\<lambda>handle cursor. ksd_cursor_finished cursor \<and> names handle)"

definition geometry_valid :: "(u64 \<Rightarrow> bool) \<Rightarrow> (i32 \<Rightarrow> i32 \<Rightarrow> u32 \<Rightarrow> u32 \<Rightarrow> bool) \<Rightarrow> ksd_frame \<Rightarrow> bool" where
  "geometry_valid names inside request \<longleftrightarrow>
     got (ksd_cursor_u64 (request_cursor request)) (\<lambda>handle cursor.
     got (ksd_cursor_i32 cursor) (\<lambda>x cursor.
     got (ksd_cursor_i32 cursor) (\<lambda>y cursor.
     got (ksd_cursor_u32 cursor) (\<lambda>width cursor.
     got (ksd_cursor_u32 cursor) (\<lambda>height cursor.
       ksd_cursor_finished cursor \<and> names handle \<and> inside x y width height)))))"

definition setting_valid :: "(u64 \<Rightarrow> bool) \<Rightarrow> u32 \<Rightarrow> ksd_frame \<Rightarrow> bool" where
  "setting_valid names ceiling request \<longleftrightarrow>
     got (ksd_cursor_u64 (request_cursor request)) (\<lambda>handle cursor.
     got (ksd_cursor_u32 cursor) (\<lambda>setting cursor.
     got (ksd_cursor_u32 cursor) (\<lambda>reserved cursor.
       ksd_cursor_finished cursor \<and> names handle \<and> reserved = 0 \<and> setting \<le> ceiling)))"

definition mimetype_valid :: "ksd_frame \<Rightarrow> bool" where
  "mimetype_valid request \<longleftrightarrow>
     got (ksd_cursor_u32 (request_cursor request)) (\<lambda>length cursor.
       length \<noteq> 0 \<and> unat length \<le> KSD_MAX_MIMETYPE_BYTES
       \<and> got (ksd_cursor_bytes (unat length) cursor) (\<lambda>mimetype cursor.
         ksd_cursor_finished cursor \<and> ksd_utf8_valid mimetype False))"

definition empty_valid :: "ksd_frame \<Rightarrow> bool" where
  "empty_valid request \<longleftrightarrow> fr_payload_length request = 0"

definition x11_geometry :: "i32 \<Rightarrow> i32 \<Rightarrow> u32 \<Rightarrow> u32 \<Rightarrow> bool" where
  "x11_geometry x y width height \<longleftrightarrow> width \<noteq> 0 \<and> height \<noteq> 0 \<and> uint width \<le> INT16_MAX \<and> uint height \<le> INT16_MAX
     \<and> coordinate x \<and> coordinate y"

text \<open>The \<open>switch\<close> over the opcode; an opcode without a case is refused.\<close>

definition x11_rules :: "(u16 \<times> (ksd_frame \<Rightarrow> bool)) list" where
  "x11_rules =
     [(KSD_OP_WINDOW_LIST, flags_valid), (KSD_OP_WINDOW_ACTIVE, empty_valid), (KSD_OP_WINDOW_HANDLES, empty_valid),
      (KSD_OP_CURSOR_POSITION, empty_valid), (KSD_OP_WORK_AREA, empty_valid), (KSD_OP_DISPLAY_LIST, empty_valid),
      (KSD_OP_KEYBOARD_STATE, revision_valid), (KSD_OP_WINDOW_AT_POINT, point_valid),
      (KSD_OP_MOUSE_MOVE_ABSOLUTE, pointer_valid coordinate), (KSD_OP_WINDOW_SET_TITLE, title_valid),
      (KSD_OP_WINDOW_CLICK, click_valid), (KSD_OP_WINDOW_BUTTON, click_valid),
      (KSD_OP_CAPTURE_AREA, area_valid (\<lambda>_ _ _ _. True)), (KSD_OP_CAPTURE_WINDOW, x11_window_valid),
      (KSD_OP_CLIPBOARD_MIMETYPES, empty_valid), (KSD_OP_CLIPBOARD_TEXT, empty_valid),
      (KSD_OP_WINDOW_FOCUS, handle_valid handle_is_xid), (KSD_OP_WINDOW_RAISE, handle_valid handle_is_xid),
      (KSD_OP_WINDOW_LOWER, handle_valid handle_is_xid), (KSD_OP_WINDOW_CLOSE, handle_valid handle_is_xid),
      (KSD_OP_WINDOW_KILL, handle_valid handle_is_xid), (KSD_OP_WINDOW_QUERY, handle_valid handle_is_xid),
      (KSD_OP_WINDOW_CHILDREN, handle_valid handle_is_xid), (KSD_OP_WINDOW_FOCUS_CHILD, handle_valid handle_is_xid),
      (KSD_OP_WINDOW_REDRAW, handle_valid handle_is_xid),
      (KSD_OP_WINDOW_MOVE_RESIZE, geometry_valid handle_is_xid x11_geometry),
      (KSD_OP_WINDOW_SET_STATE, setting_valid handle_is_xid 3), (KSD_OP_WINDOW_SET_OPACITY, setting_valid handle_is_xid 255),
      (KSD_OP_WINDOW_SET_ABOVE, setting_valid handle_is_xid 1), (KSD_OP_WINDOW_SET_DECORATED, setting_valid handle_is_xid 1),
      (KSD_OP_WINDOW_SET_VISIBLE, setting_valid handle_is_xid 1), (KSD_OP_CLIPBOARD_CONTENT, mimetype_valid)]"

definition by_opcode :: "(u16 \<times> (ksd_frame \<Rightarrow> bool)) list \<Rightarrow> ksd_frame \<Rightarrow> bool" where
  "by_opcode rules request \<longleftrightarrow> (case map_of rules (fr_opcode request) of None \<Rightarrow> False | Some rule \<Rightarrow> rule request)"

definition ksd_x11_request_valid :: "ksd_frame \<Rightarrow> bool" where
  "ksd_x11_request_valid request \<longleftrightarrow> by_opcode x11_rules request"

section \<open>The generic Wayland worker\<close>

definition capture_window_identifier :: "ksd_cursor \<Rightarrow> bytes option" where
  "capture_window_identifier cursor =
     Option.bind (ksd_cursor_u32 cursor) (\<lambda>(flags, cursor). if flags > 1 then None
     else Option.bind (ksd_cursor_u32 cursor) (\<lambda>(length, cursor). if length = 0 \<or> length > 128 then None
     else Option.bind (ksd_cursor_bytes (unat length) cursor) (\<lambda>(identifier, cursor).
       if \<not> ksd_cursor_finished cursor \<or> \<not> ksd_utf8_valid identifier False then None else Some identifier)))"

definition named :: "u64 \<Rightarrow> bool" where
  "named handle \<longleftrightarrow> handle \<noteq> 0"

definition wayland_geometry :: "i32 \<Rightarrow> i32 \<Rightarrow> u32 \<Rightarrow> u32 \<Rightarrow> bool" where
  "wayland_geometry x y width height \<longleftrightarrow> uint width \<le> INT16_MAX \<and> uint height \<le> INT16_MAX
     \<and> (x \<noteq> 0x80000000 \<or> y \<noteq> 0x80000000 \<or> width \<noteq> 0 \<or> height \<noteq> 0)"

definition wayland_window_valid :: "ksd_frame \<Rightarrow> bool" where
  "wayland_window_valid request \<longleftrightarrow> capture_window_identifier (request_cursor request) \<noteq> None"

definition wayland_rules :: "(u16 \<times> (ksd_frame \<Rightarrow> bool)) list" where
  "wayland_rules =
     [(KSD_OP_CLIPBOARD_MIMETYPES, empty_valid), (KSD_OP_CLIPBOARD_TEXT, empty_valid), (KSD_OP_CAPTURE_DESKTOP, empty_valid),
      (KSD_OP_KEYBOARD_STATE, revision_valid), (KSD_OP_CLIPBOARD_CONTENT, mimetype_valid), (KSD_OP_WINDOW_HANDLES, empty_valid),
      (KSD_OP_WINDOW_ACTIVE, empty_valid), (KSD_OP_CURSOR_POSITION, empty_valid), (KSD_OP_DISPLAY_LIST, empty_valid),
      (KSD_OP_WORK_AREA, empty_valid), (KSD_OP_WINDOW_FOCUS, handle_valid named), (KSD_OP_WINDOW_RAISE, handle_valid named),
      (KSD_OP_WINDOW_LOWER, handle_valid named), (KSD_OP_WINDOW_KILL, handle_valid named), (KSD_OP_WINDOW_CLOSE, handle_valid named),
      (KSD_OP_WINDOW_QUERY, handle_valid named), (KSD_OP_WINDOW_SET_STATE, setting_valid named 3),
      (KSD_OP_WINDOW_SET_OPACITY, setting_valid named 255), (KSD_OP_WINDOW_SET_ABOVE, setting_valid named 1),
      (KSD_OP_WINDOW_MOVE_RESIZE, geometry_valid named wayland_geometry), (KSD_OP_WINDOW_AT_POINT, point_valid),
      (KSD_OP_WINDOW_LIST, flags_valid), (KSD_OP_CAPTURE_AREA, area_valid valid_rectangle),
      (KSD_OP_CAPTURE_WINDOW, wayland_window_valid), (KSD_OP_MOUSE_MOVE_ABSOLUTE, pointer_valid (\<lambda>_. True))]"

definition ksd_wayland_request_valid :: "ksd_frame \<Rightarrow> bool" where
  "ksd_wayland_request_valid request \<longleftrightarrow> by_opcode wayland_rules request"

section \<open>The worker\<close>

definition ksd_capture_worker_request_valid :: "ksd_frame \<Rightarrow> bool" where
  "ksd_capture_worker_request_valid request \<longleftrightarrow>
     ksd_local_capture_request_valid request \<or> ksd_x11_request_valid request \<or> ksd_wayland_request_valid request"

text \<open>The rule of the display a worker serves, by \<open>display_backend\<close>.\<close>

definition display_request_valid :: "u32 \<Rightarrow> ksd_frame \<Rightarrow> bool" where
  "display_request_valid backend request \<longleftrightarrow>
     (if backend = KSD_BACKEND_X11 then ksd_x11_request_valid request
      else if backend = KSD_BACKEND_GENERIC then ksd_wayland_request_valid request else False)"

section \<open>What a worker serves\<close>

definition framed :: "u16 \<Rightarrow> bytes \<Rightarrow> ksd_frame" where
  "framed opcode payload = frame_zero\<lparr>fr_opcode := opcode, fr_payload := Some payload, fr_payload_length := of_nat (length payload)\<rparr>"

lemma framed_opcode [simp]: "fr_opcode (framed opcode payload) = opcode"
  by (simp add: framed_def)

lemma by_opcode_rule: "by_opcode rules request \<Longrightarrow> fr_opcode request \<in> fst ` set rules"
  by (force simp: by_opcode_def split: option.splits dest: map_of_SomeD)

text \<open>A table serves the opcodes it has a rule for, when every rule accepts something.\<close>

lemma by_opcode_serves:
  assumes "map fst samples = map fst rules" "list_all (\<lambda>(opcode, payload). by_opcode rules (framed opcode payload)) samples"
  shows "(\<exists>request. fr_opcode request = opcode \<and> by_opcode rules request) \<longleftrightarrow> opcode \<in> set (map fst rules)"
proof
  assume "opcode \<in> set (map fst rules)"
  then obtain payload where "(opcode, payload) \<in> set samples" unfolding assms(1) [symmetric] by auto
  with assms(2) have "by_opcode rules (framed opcode payload)" by (auto simp: list_all_iff)
  then show "\<exists>request. fr_opcode request = opcode \<and> by_opcode rules request" using framed_opcode by blast
qed (auto dest: by_opcode_rule)

definition handle_sample :: bytes where
  "handle_sample = ksd_encode_u64 1"

definition area_sample :: bytes where
  "area_sample = replicate 8 0 @ ksd_encode_u32 1 @ ksd_encode_u32 1"

definition window_sample :: bytes where
  "window_sample = ksd_encode_u32 0 @ ksd_encode_u32 1 @ ascii ''7''"

definition payload_sample :: "u16 \<Rightarrow> bytes" where
  "payload_sample opcode =
     (if opcode \<in> {KSD_OP_WINDOW_FOCUS, KSD_OP_WINDOW_RAISE, KSD_OP_WINDOW_LOWER, KSD_OP_WINDOW_CLOSE, KSD_OP_WINDOW_KILL,
        KSD_OP_WINDOW_QUERY, KSD_OP_WINDOW_CHILDREN, KSD_OP_WINDOW_FOCUS_CHILD, KSD_OP_WINDOW_REDRAW} then handle_sample
      else if opcode \<in> {KSD_OP_WINDOW_SET_STATE, KSD_OP_WINDOW_SET_OPACITY, KSD_OP_WINDOW_SET_ABOVE, KSD_OP_WINDOW_SET_DECORATED,
        KSD_OP_WINDOW_SET_VISIBLE} then handle_sample @ replicate 8 0
      else if opcode = KSD_OP_WINDOW_SET_TITLE then handle_sample @ replicate 4 0
      else if opcode = KSD_OP_WINDOW_CLICK \<or> opcode = KSD_OP_WINDOW_BUTTON
      then handle_sample @ replicate 8 0 @ ksd_encode_u32 1 @ ksd_encode_u32 1
      else if opcode = KSD_OP_WINDOW_MOVE_RESIZE then handle_sample @ area_sample
      else if opcode = KSD_OP_CAPTURE_AREA then area_sample
      else if opcode = KSD_OP_CAPTURE_WINDOW then window_sample
      else if opcode = KSD_OP_CLIPBOARD_CONTENT then ksd_encode_u32 1 @ ascii ''t''
      else if opcode = KSD_OP_WINDOW_LIST \<or> opcode = KSD_OP_MOUSE_MOVE_ABSOLUTE then replicate 8 0
      else if opcode = KSD_OP_WINDOW_AT_POINT then replicate 16 0
      else [])"

definition rules_accept :: "(u16 \<times> (ksd_frame \<Rightarrow> bool)) list \<Rightarrow> bool" where
  "rules_accept rules \<longleftrightarrow> list_all (\<lambda>(opcode, rule). by_opcode rules (framed opcode (payload_sample opcode))) rules"

lemma x11_accepts: "rules_accept x11_rules" by code_simp

lemma wayland_accepts: "rules_accept wayland_rules" by code_simp

lemma rules_serve:
  assumes "rules_accept rules"
  shows "(\<exists>request. fr_opcode request = opcode \<and> by_opcode rules request) \<longleftrightarrow> opcode \<in> set (map fst rules)"
  by (rule by_opcode_serves [where samples = "map (\<lambda>(opcode, rule). (opcode, payload_sample opcode)) rules"])
     (use assms in \<open>auto simp: rules_accept_def list_all_iff split: prod.splits\<close>)

text \<open>The opcodes of a table are the operations of a mask, a few opcodes apart.\<close>

definition covers :: "u64 \<Rightarrow> (u16 \<Rightarrow> bool) \<Rightarrow> u16 list \<Rightarrow> bool" where
  "covers ops among opcodes \<longleftrightarrow>
     list_all (\<lambda>opcode. ksd_operation_bit opcode AND ops \<noteq> 0 \<and> among opcode) opcodes
     \<and> list_all (\<lambda>(opcode, b). b AND ops \<noteq> 0 \<and> among opcode \<longrightarrow> opcode \<in> set opcodes) operation_bit_table"

lemma covers_iff:
  assumes "covers ops among opcodes"
  shows "opcode \<in> set opcodes \<longleftrightarrow> ksd_operation_bit opcode AND ops \<noteq> 0 \<and> among opcode"
proof
  assume a: "ksd_operation_bit opcode AND ops \<noteq> 0 \<and> among opcode"
  then obtain b where "map_of operation_bit_table opcode = Some b" "b AND ops \<noteq> 0"
    by (auto simp: ksd_operation_bit_def split: option.splits)
  with a assms map_of_SomeD show "opcode \<in> set opcodes" by (fastforce simp: covers_def list_all_iff)
qed (use assms in \<open>auto simp: covers_def list_all_iff\<close>)

lemma x11_covers: "covers (ksd_backend_operations KSD_BACKEND_X11) (\<lambda>opcode. opcode \<noteq> KSD_OP_WINDOW_WATCH) (map fst x11_rules)"
  by code_simp

lemma wayland_covers:
  "covers (ksd_backend_operations KSD_BACKEND_GENERIC) (\<lambda>opcode. opcode \<noteq> KSD_OP_WINDOW_WATCH) (map fst wayland_rules)"
  by code_simp

lemma kwin_covers:
  "covers (ksd_backend_operations KSD_BACKEND_KWIN) (\<lambda>opcode. ksd_operation_scope opcode = KSD_SCOPE_SCREEN_CAPTURE)
     [KSD_OP_CAPTURE_AREA, KSD_OP_CAPTURE_WINDOW]"
  by code_simp

lemma local_capture_opcodes:
  "(\<exists>request. fr_opcode request = opcode \<and> ksd_local_capture_request_valid request) \<longleftrightarrow> opcode \<in> set [KSD_OP_CAPTURE_AREA, KSD_OP_CAPTURE_WINDOW]"
proof
  have "ksd_local_capture_request_valid (framed KSD_OP_CAPTURE_AREA area_sample)"
    "ksd_local_capture_request_valid (framed KSD_OP_CAPTURE_WINDOW window_sample)" by code_simp+
  moreover assume "opcode \<in> set [KSD_OP_CAPTURE_AREA, KSD_OP_CAPTURE_WINDOW]"
  ultimately show "\<exists>request. fr_opcode request = opcode \<and> ksd_local_capture_request_valid request"
    using framed_opcode by (auto intro: exI [of _ "framed KSD_OP_CAPTURE_AREA area_sample"] exI [of _ "framed KSD_OP_CAPTURE_WINDOW window_sample"])
qed (auto simp: ksd_local_capture_request_valid_def parse_request_def Let_def split: if_splits)

text \<open>
  C21: The workers serve what the backends advertise. An opcode has a request that the X11
  worker accepts exactly when X11 lists its operation, and the same holds of the generic
  Wayland worker, in both cases apart from the window subscription, which is served by
  another path; the captures KWin lists are the ones the capture worker accepts.
\<close>

theorem workers_serve_advertised:
  "(\<exists>request. fr_opcode request = opcode \<and> display_request_valid KSD_BACKEND_X11 request) =
     (ksd_operation_bit opcode AND ksd_backend_operations KSD_BACKEND_X11 \<noteq> 0 \<and> opcode \<noteq> KSD_OP_WINDOW_WATCH)
   \<and> (\<exists>request. fr_opcode request = opcode \<and> display_request_valid KSD_BACKEND_GENERIC request) =
     (ksd_operation_bit opcode AND ksd_backend_operations KSD_BACKEND_GENERIC \<noteq> 0 \<and> opcode \<noteq> KSD_OP_WINDOW_WATCH)
   \<and> (\<exists>request. fr_opcode request = opcode \<and> ksd_local_capture_request_valid request) =
     (ksd_operation_bit opcode AND ksd_backend_operations KSD_BACKEND_KWIN \<noteq> 0 \<and> ksd_operation_scope opcode = KSD_SCOPE_SCREEN_CAPTURE)"
proof (intro conjI)
  have b: "KSD_BACKEND_GENERIC \<noteq> KSD_BACKEND_X11" by (simp add: wire_defs)
  show "(\<exists>request. fr_opcode request = opcode \<and> display_request_valid KSD_BACKEND_X11 request) =
     (ksd_operation_bit opcode AND ksd_backend_operations KSD_BACKEND_X11 \<noteq> 0 \<and> opcode \<noteq> KSD_OP_WINDOW_WATCH)"
    unfolding covers_iff [OF x11_covers, symmetric] rules_serve [OF x11_accepts, symmetric]
    by (simp add: display_request_valid_def ksd_x11_request_valid_def)
  show "(\<exists>request. fr_opcode request = opcode \<and> display_request_valid KSD_BACKEND_GENERIC request) =
     (ksd_operation_bit opcode AND ksd_backend_operations KSD_BACKEND_GENERIC \<noteq> 0 \<and> opcode \<noteq> KSD_OP_WINDOW_WATCH)"
    unfolding covers_iff [OF wayland_covers, symmetric] rules_serve [OF wayland_accepts, symmetric]
    by (simp add: display_request_valid_def ksd_wayland_request_valid_def b)
  show "(\<exists>request. fr_opcode request = opcode \<and> ksd_local_capture_request_valid request) =
     (ksd_operation_bit opcode AND ksd_backend_operations KSD_BACKEND_KWIN \<noteq> 0 \<and> ksd_operation_scope opcode = KSD_SCOPE_SCREEN_CAPTURE)"
    unfolding covers_iff [OF kwin_covers, symmetric] by (rule local_capture_opcodes)
qed

end
