(* ===== verification/Capture_Worker.thy ===== *)
theory Capture_Worker
  imports Worker_Requests Kwin_Relay Registry
begin

text \<open>
  The worker processes of the authority (src/src/capture_worker.c): the environment a
  worker is started with, the message that starts it, the answer of a worker that serves
  one request and of one that stays, and what the authority reads of them. A worker that
  stays is driven through a relay (theory Kwin\_Relay).
\<close>

section \<open>The environment of a worker\<close>

definition matching_entry :: "bytes \<Rightarrow> bytes \<Rightarrow> bool" where
  "matching_entry name entry \<longleftrightarrow> length entry > length name \<and> take (length name) entry = name \<and> entry ! length name = 61"

text \<open>
  The scan over entries that each end in a NUL; \<open>memchr\<close> finds the end of the first one.
  A name that is set twice is refused, and so is a block whose last entry does not end.
\<close>

function worker_env_scan :: "bytes \<Rightarrow> bytes \<Rightarrow> bytes option \<Rightarrow> bytes option" where
  "worker_env_scan name environment found =
     (if environment = [] then found
      else if 0 \<notin> set environment then None
      else let entry = takeWhile (\<lambda>b. b \<noteq> 0) environment; rest = drop (Suc (length entry)) environment in
        if matching_entry name entry then
          if found \<noteq> None then None
          else worker_env_scan name rest (Some (drop (Suc (length name)) entry))
        else worker_env_scan name rest found)"
  by pat_completeness auto
termination by (relation "measure (\<lambda>(name, environment, found). length environment)") auto

declare worker_env_scan.simps [simp del]

definition worker_environment_value :: "bytes \<Rightarrow> bytes \<Rightarrow> bytes option" where
  "worker_environment_value environment name = worker_env_scan name environment None"

definition runtime_directory :: "u32 \<Rightarrow> bytes" where
  "runtime_directory uid = ascii ''/run/user/'' @ decimal_text uid"

definition bus_address :: "u32 \<Rightarrow> bytes" where
  "bus_address uid = ascii ''unix:path=/run/user/'' @ decimal_text uid @ ascii ''/bus''"

text \<open>
  The process is looked at before and after its environment is read; \<open>environ\<close> is what
  the file held when it could be read whole. The three paths fit their buffers for every
  identity. The result are the entries the worker starts with.
\<close>

definition unchanged :: "ksp_identity \<Rightarrow> ksp_identity option \<Rightarrow> bool" where
  "unchanged identity verified \<longleftrightarrow> (case verified of None \<Rightarrow> False | Some v \<Rightarrow> same_identity identity v)"

definition capture_environment ::
  "ksp_identity \<Rightarrow> ksp_identity option \<Rightarrow> bytes option \<Rightarrow> ksp_identity option \<Rightarrow> bytes list option" where
  "capture_environment identity before environ after =
     (case environ of None \<Rightarrow> None
      | Some environment \<Rightarrow>
          let runtime = worker_environment_value environment (ascii ''XDG_RUNTIME_DIR'');
              bus = worker_environment_value environment (ascii ''DBUS_SESSION_BUS_ADDRESS'');
              valid = (runtime = Some (runtime_directory (id_uid identity))
                \<and> (bus = None \<or> bus = Some (bus_address (id_uid identity))))
          in if unchanged identity before \<and> valid \<and> unchanged identity after
             then Some [ascii ''XDG_RUNTIME_DIR='' @ runtime_directory (id_uid identity),
                        ascii ''DBUS_SESSION_BUS_ADDRESS='' @ bus_address (id_uid identity), ascii ''PATH=/usr/bin:/bin'']
             else None)"

section \<open>Starting a worker\<close>

definition KSD_CAPTURE_WORKER_VERSION :: u16 where
  [wire_defs]: "KSD_CAPTURE_WORKER_VERSION = 4"

definition KSD_CAPTURE_WORKER_HEADER_SIZE :: nat where
  [wire_defs]: "KSD_CAPTURE_WORKER_HEADER_SIZE = 32"

definition KSD_CAPTURE_WORKER_MAX_GROUPS :: nat where
  [wire_defs]: "KSD_CAPTURE_WORKER_MAX_GROUPS = 256"

definition KSD_CAPTURE_WORKER_MAX_REQUEST :: nat where
  [wire_defs]: "KSD_CAPTURE_WORKER_MAX_REQUEST = KSD_MAX_REQUEST_PAYLOAD"

definition KSD_CAPTURE_WORKER_BOOTSTRAP_MAX :: nat where
  [wire_defs]: "KSD_CAPTURE_WORKER_BOOTSTRAP_MAX = KSD_CAPTURE_WORKER_HEADER_SIZE
     + KSD_CAPTURE_WORKER_MAX_GROUPS * 4 + KSD_FRAME_HEADER_SIZE + KSD_CAPTURE_WORKER_MAX_REQUEST"

definition KSD_CAPTURE_WORKER_RESPONSE_SIZE :: nat where
  [wire_defs]: "KSD_CAPTURE_WORKER_RESPONSE_SIZE = 24 + KSD_DIAGNOSTIC_CAPACITY"

definition worker_magic :: bytes where
  "worker_magic = ascii ''KSCW''"

text \<open>The message of \<open>send_bootstrap\<close>; a worker that stays is started without a request.\<close>

definition bootstrap_frame :: "(nat \<Rightarrow> bool) \<Rightarrow> ksd_frame option \<Rightarrow> bytes option" where
  "bootstrap_frame alloc request =
     (case request of None \<Rightarrow> Some []
      | Some request \<Rightarrow>
          let (ok, frame) = ksd_frame_pack alloc request (ksd_buffer_init (KSD_FRAME_HEADER_SIZE + KSD_CAPTURE_WORKER_MAX_REQUEST))
          in if unat (fr_payload_length request) \<le> KSD_CAPTURE_WORKER_MAX_REQUEST \<and> ok then Some (buf_data frame) else None)"

definition send_bootstrap ::
  "(nat \<Rightarrow> bool) \<Rightarrow> u32 \<Rightarrow> u32 \<Rightarrow> u32 list \<Rightarrow> ksd_frame option \<Rightarrow> i32 \<Rightarrow> u32 \<Rightarrow> bool \<Rightarrow> bytes option" where
  "send_bootstrap alloc uid gid groups request session_pid backend persistent =
     (if length groups > KSD_CAPTURE_WORKER_MAX_GROUPS \<or> persistent \<noteq> (request = None) then None
      else case bootstrap_frame alloc request of None \<Rightarrow> None
        | Some frame \<Rightarrow>
            let (ok, message) =
                  and_then (and_then (and_then (and_then (and_then (and_then (and_then (and_then (and_then (and_then
                    (ksd_buffer_bytes alloc worker_magic (ksd_buffer_init KSD_CAPTURE_WORKER_BOOTSTRAP_MAX))
                    (ksd_buffer_u16 alloc KSD_CAPTURE_WORKER_VERSION))
                    (ksd_buffer_u16 alloc (ucast backend)))
                    (ksd_buffer_u32 alloc uid))
                    (ksd_buffer_u32 alloc gid))
                    (ksd_buffer_u32 alloc (of_nat (length groups))))
                    (ksd_buffer_u32 alloc (of_nat (length frame))))
                    (ksd_buffer_u32 alloc session_pid))
                    (ksd_buffer_u32 alloc (if persistent then 1 else 0)))
                    (put_all ksd_buffer_u32 alloc groups))
                    (ksd_buffer_bytes alloc frame)
            in if ok then Some (buf_data message) else None)"

record worker_bootstrap =
  wb_uid :: u32
  wb_gid :: u32
  wb_group_count :: u32
  wb_frame_length :: u32
  wb_session_pid :: i32
  wb_backend :: u32
  wb_persistent :: bool

text \<open>
  The casts to \<open>uid_t\<close>, \<open>gid_t\<close> and \<open>pid_t\<close> are between types of 32 bits; the comparison of
  the process id with the unsigned field then says that it is positive.
\<close>

definition parse_bootstrap_header :: "bytes \<Rightarrow> worker_bootstrap option" where
  "parse_bootstrap_header bootstrap =
     (if length bootstrap < KSD_CAPTURE_WORKER_HEADER_SIZE \<or> take 4 bootstrap \<noteq> worker_magic
         \<or> ksd_decode_u16 (drop 4 bootstrap) \<noteq> KSD_CAPTURE_WORKER_VERSION
         \<or> ucast (ksd_decode_u16 (drop 6 bootstrap)) > KSD_BACKEND_X11
         \<or> ksd_decode_u32 (drop 28 bootstrap) > 1 then None
      else
        let parsed = \<lparr>wb_uid = ksd_decode_u32 (drop 8 bootstrap), wb_gid = ksd_decode_u32 (drop 12 bootstrap),
              wb_group_count = ksd_decode_u32 (drop 16 bootstrap), wb_frame_length = ksd_decode_u32 (drop 20 bootstrap),
              wb_session_pid = ksd_decode_u32 (drop 24 bootstrap), wb_backend = ucast (ksd_decode_u16 (drop 6 bootstrap)),
              wb_persistent = (ksd_decode_u32 (drop 28 bootstrap) \<noteq> 0)\<rparr>;
            groups_length = unat (wb_group_count parsed) * 4; frame_length = unat (wb_frame_length parsed)
        in if sint (wb_session_pid parsed) > 0 \<and> unat (wb_group_count parsed) \<le> KSD_CAPTURE_WORKER_MAX_GROUPS
              \<and> (if wb_persistent parsed then frame_length = 0 else frame_length \<ge> KSD_FRAME_HEADER_SIZE)
              \<and> frame_length \<le> KSD_FRAME_HEADER_SIZE + KSD_CAPTURE_WORKER_MAX_REQUEST
              \<and> KSD_CAPTURE_WORKER_HEADER_SIZE + groups_length + frame_length = length bootstrap
           then Some parsed else None)"

definition bootstrap_groups :: "worker_bootstrap \<Rightarrow> bytes \<Rightarrow> u32 list" where
  "bootstrap_groups header bootstrap =
     map (\<lambda>index. ksd_decode_u32 (drop (KSD_CAPTURE_WORKER_HEADER_SIZE + index * 4) bootstrap)) [0..<unat (wb_group_count header)]"

text \<open>The request of a worker that serves one, with the checks that precede its execution.\<close>

definition bootstrap_request :: "(nat \<Rightarrow> bool) \<Rightarrow> worker_bootstrap \<Rightarrow> bytes \<Rightarrow> ksd_frame option" where
  "bootstrap_request alloc header bootstrap =
     (let packed = drop (KSD_CAPTURE_WORKER_HEADER_SIZE + unat (wb_group_count header) * 4) bootstrap
      in case ksd_frame_unpack alloc (take (unat (wb_frame_length header)) packed) public_magic KSD_PROTOCOL_MAJOR KSD_PROTOCOL_MINOR
               (of_nat KSD_CAPTURE_WORKER_MAX_REQUEST) True of
           None \<Rightarrow> None
         | Some request \<Rightarrow>
             if fr_flags request \<noteq> 0 \<or> fr_request_id request = 0
                \<or> \<not> (display_request_valid (wb_backend header) request \<or> ksd_local_capture_request_valid request)
             then None else Some request)"

text \<open>
  Giving up the privileges of the authority. The first record is what the worker runs as,
  the second whether each call succeeded, the third what it runs as afterwards.
\<close>

record credentials =
  cr_ruid :: u32
  cr_euid :: u32
  cr_suid :: u32
  cr_rgid :: u32
  cr_egid :: u32
  cr_sgid :: u32

record drop_calls =
  dc_keepcaps :: bool
  dc_setgroups :: bool
  dc_setresgid :: bool
  dc_setresuid :: bool
  dc_no_new_privs :: bool
  dc_dumpable :: bool
  dc_orphaned :: bool

definition drop_worker_privileges :: "u32 \<Rightarrow> u32 \<Rightarrow> credentials \<Rightarrow> drop_calls \<Rightarrow> credentials option \<Rightarrow> bool" where
  "drop_worker_privileges uid gid before calls after =
     (let already = (uid = cr_ruid before \<and> uid = cr_euid before \<and> gid = cr_rgid before \<and> gid = cr_egid before)
      in if uid = 0 \<or> \<not> dc_keepcaps calls \<or> (\<not> already \<and> \<not> dc_setgroups calls) \<or> (\<not> already \<and> \<not> dc_setresgid calls)
            \<or> (\<not> already \<and> \<not> dc_setresuid calls) \<or> \<not> dc_no_new_privs calls \<or> \<not> dc_dumpable calls
         then False
         else if dc_orphaned calls then False
         else case after of None \<Rightarrow> False
           | Some c \<Rightarrow> cr_ruid c = uid \<and> cr_euid c = uid \<and> cr_suid c = uid \<and> cr_rgid c = gid \<and> cr_egid c = gid \<and> cr_sgid c = gid)"

section \<open>The answer of a worker that serves one request\<close>

definition worker_valid_status :: "u32 \<Rightarrow> bool" where
  "worker_valid_status status \<longleftrightarrow> status \<le> KSD_STATUS_REVOKED \<or> status = KSD_STATUS_INTERNAL"

text \<open>What \<open>fstat\<close>, \<open>F_GET_SEALS\<close> and \<open>mmap\<close> say of a descriptor.\<close>

record capture_file =
  kf_stat :: "(bool \<times> int) option"
  kf_seals :: int
  kf_map :: "bytes option"

definition sealed_capture_file :: "int \<Rightarrow> u32 \<Rightarrow> capture_file \<Rightarrow> bool" where
  "sealed_capture_file descriptor len file \<longleftrightarrow>
     descriptor \<ge> 0 \<and> len \<ge> 20 \<and> unat len \<le> KSD_MAX_CAPTURE_TAIL
     \<and> (case kf_stat file of None \<Rightarrow> False | Some (regular, st_size) \<Rightarrow> regular \<and> st_size = int (unat len))
     \<and> kf_seals file \<ge> 0 \<and> kf_seals file AND F_SEALS_REQUIRED = F_SEALS_REQUIRED"

definition ksd_capture_tail_valid :: "bytes \<Rightarrow> u32 \<Rightarrow> bool" where
  "ksd_capture_tail_valid tail tail_length =
     (if tail_length < 20 then False
      else
        let format = ksd_decode_u16 tail; reserved = ksd_decode_u16 (drop 2 tail); width = unat (ksd_decode_u32 (drop 4 tail));
            height = unat (ksd_decode_u32 (drop 8 tail)); stride = unat (ksd_decode_u32 (drop 12 tail));
            length = ksd_decode_u32 (drop 16 tail)
        in if reserved \<noteq> 0 \<or> width = 0 \<or> height = 0 \<or> width > KSD_MAX_CAPTURE_DIMENSION \<or> height > KSD_MAX_CAPTURE_DIMENSION
              \<or> width * height > KSD_MAX_CAPTURE_PIXELS \<or> length = 0 \<or> unat length > KSD_MAX_CAPTURE_BYTES
              \<or> tail_length \<noteq> 20 + length
           then False
           else if format = KSD_CAPTURE_FORMAT_PNG then stride = 0
           else format = KSD_CAPTURE_FORMAT_BGRA8_PREMULTIPLIED \<and> stride \<ge> width * 4 \<and> stride * height = unat length)"

text \<open>The message, the descriptor that came with it (-1 for none) and the file behind it.\<close>

type_synonym worker_reply = "bytes \<times> int \<times> capture_file"

definition receive_worker_response ::
  "worker_reply option \<Rightarrow> ksd_operation_result \<Rightarrow> bool \<times> ksd_operation_result \<times> int list" where
  "receive_worker_response reply result =
     (case reply of None \<Rightarrow> (False, result, [])
      | Some (message, payload_fd, file) \<Rightarrow>
          let status = ksd_decode_u32 (drop 8 message); detail = ksd_decode_u32 (drop 12 message);
              tail_length = ksd_decode_u32 (drop 16 message); diagnostic_length = unat (ksd_decode_u32 (drop 20 message));
              diagnostic = take diagnostic_length (drop 24 message);
              refused = (False, result, fd_list payload_fd)
          in if take 4 message \<noteq> worker_magic \<or> ksd_decode_u16 (drop 4 message) \<noteq> KSD_CAPTURE_WORKER_VERSION
                \<or> ksd_decode_u16 (drop 6 message) \<noteq> 0 \<or> \<not> worker_valid_status status
                \<or> diagnostic_length \<ge> KSD_DIAGNOSTIC_CAPACITY \<or> \<not> ksd_utf8_valid diagnostic False
             then refused
             else if status = KSD_STATUS_OK \<and> tail_length = 0 then
               if diagnostic_length \<noteq> 0 \<or> payload_fd \<ge> 0 then refused
               else ksd_result_take result None 0
             else if status = KSD_STATUS_OK then
               if diagnostic_length \<noteq> 0 \<or> \<not> sealed_capture_file payload_fd tail_length file then refused
               else (case kf_map file of None \<Rightarrow> refused
                     | Some mapped \<Rightarrow>
                         if \<not> ksd_capture_tail_valid mapped tail_length then refused
                         else ksd_result_take_fd result payload_fd tail_length)
             else if payload_fd \<ge> 0 \<or> tail_length \<noteq> 0 then refused
             else let (result, closed) = ksd_result_error result status detail
                        (Some (if diagnostic_length = 0 then ascii ''capture worker failed'' else diagnostic))
                  in (True, result, closed))"

definition worker_message :: "u32 \<Rightarrow> u32 \<Rightarrow> u32 \<Rightarrow> bytes \<Rightarrow> bytes" where
  "worker_message status detail tail_length diagnostic =
     put_at 24 diagnostic (put_at 20 (ksd_encode_u32 (of_nat (length diagnostic))) (put_at 16 (ksd_encode_u32 tail_length)
       (put_at 12 (ksd_encode_u32 detail) (put_at 8 (ksd_encode_u32 status) (put_at 4 (ksd_encode_u16 KSD_CAPTURE_WORKER_VERSION)
         (put_at 0 worker_magic (replicate KSD_CAPTURE_WORKER_RESPONSE_SIZE 0)))))))"

text \<open>
  The sending side. A tail in memory is copied to a new sealed file: \<open>created\<close> is its
  descriptor or -1, and \<open>filled\<close> says whether it was written and sealed. \<open>sent\<close> says
  whether the message went out. The answer is the message and its descriptor, and what was closed.
\<close>

definition send_worker_response ::
  "capture_file \<Rightarrow> int \<Rightarrow> bool \<Rightarrow> bool \<Rightarrow> ksd_operation_result \<Rightarrow> (bytes \<times> int) option \<times> int list" where
  "send_worker_response file created filled sent result =
     (let diagnostic = (if res_status result = KSD_STATUS_OK then [] else res_diagnostic result);
          message = worker_message (res_status result) (res_detail result)
            (if res_status result = KSD_STATUS_OK then res_tail_length result else 0) diagnostic
      in if \<not> worker_valid_status (res_status result) \<or> length diagnostic \<ge> KSD_DIAGNOSTIC_CAPACITY then (None, [])
         else if res_status result \<noteq> KSD_STATUS_OK \<or> res_tail_length result = 0 then
           if res_status result = KSD_STATUS_OK \<and> res_tail result \<noteq> None then (None, [])
           else (if sent then Some (message, -1) else None, [])
         else
           let borrowed = (res_payload_fd result \<ge> 0);
               valid = (unat (res_tail_length result) \<le> KSD_MAX_CAPTURE_TAIL
                 \<and> (if borrowed then res_tail result = None \<and> sealed_capture_file (res_payload_fd result) (res_tail_length result) file
                    else res_tail result \<noteq> None));
               payload_fd = (if \<not> borrowed \<and> valid then created else res_payload_fd result);
               written = (valid \<and> payload_fd \<ge> 0 \<and> (borrowed \<or> filled) \<and> sent)
           in (if written then Some (message, payload_fd) else None, if \<not> borrowed then fd_list payload_fd else []))"

section \<open>The answers of a worker that stays\<close>

text \<open>The checks of \<open>serve_persistently\<close> on a header, and the request it then serves.\<close>

definition served_header :: "bytes \<Rightarrow> bool" where
  "served_header header \<longleftrightarrow>
     unat (ksd_decode_u32 (slice KSD_FRAME_PAYLOAD_LENGTH_OFFSET 4 header)) \<le> KSD_CAPTURE_WORKER_MAX_REQUEST
     \<and> slice 0 4 header = public_magic
     \<and> ksd_decode_u16 (slice KSD_FRAME_MAJOR_OFFSET 2 header) = KSD_PROTOCOL_MAJOR
     \<and> ksd_decode_u16 (slice KSD_FRAME_MINOR_OFFSET 2 header) = KSD_PROTOCOL_MINOR
     \<and> ksd_decode_u16 (slice KSD_FRAME_FLAGS_OFFSET 2 header) = 0
     \<and> ksd_decode_u64 (slice KSD_FRAME_REQUEST_ID_OFFSET 8 header) \<noteq> 0"

definition served_request :: "bytes \<Rightarrow> bytes option \<Rightarrow> ksd_frame" where
  "served_request header body =
     frame_zero\<lparr>fr_opcode := ksd_decode_u16 (slice KSD_FRAME_OPCODE_OFFSET 2 header),
       fr_request_id := ksd_decode_u64 (slice KSD_FRAME_REQUEST_ID_OFFSET 8 header), fr_payload := body,
       fr_payload_length := ksd_decode_u32 (slice KSD_FRAME_PAYLOAD_LENGTH_OFFSET 4 header)\<rparr>"

definition answer_payload :: "(nat \<Rightarrow> bool) \<Rightarrow> ksd_operation_result \<Rightarrow> bool \<times> ksd_buffer" where
  "answer_payload alloc result =
     (let capture_fd = (res_status result = KSD_STATUS_OK \<and> res_payload_fd result \<ge> 0);
          tail = (if res_status result = KSD_STATUS_OK then (case res_tail result of None \<Rightarrow> [] | Some t \<Rightarrow> t) else res_diagnostic result);
          tail_length = (if res_status result = KSD_STATUS_OK then unat (res_tail_length result) else length (res_diagnostic result))
      in and_then (and_then (ksd_buffer_u32 alloc (res_status result) (ksd_buffer_init (if capture_fd then 12 else tail_length + 8)))
           (ksd_buffer_u32 alloc (res_detail result)))
           (\<lambda>payload. if capture_fd then ksd_buffer_u32 alloc (res_tail_length result) payload
              else if tail_length = 0 then (True, payload) else ksd_buffer_bytes alloc (take tail_length tail) payload))"

definition answer_frame :: "ksd_operation_result \<Rightarrow> u64 \<Rightarrow> bytes \<Rightarrow> ksd_frame" where
  "answer_frame result request_id payload =
     frame_zero\<lparr>fr_magic := public_magic, fr_major := KSD_PROTOCOL_MAJOR, fr_minor := KSD_PROTOCOL_MINOR,
       fr_flags := (if res_status result = KSD_STATUS_OK \<and> res_payload_fd result \<ge> 0 then KSD_RELAY_CAPTURE_FD else 0),
       fr_request_id := request_id, fr_payload := Some payload, fr_payload_length := of_nat (length payload)\<rparr>"

text \<open>The bytes of the answer and the descriptor that goes along, or \<open>None\<close> when it cannot be built.\<close>

definition serve_answer :: "(nat \<Rightarrow> bool) \<Rightarrow> ksd_operation_result \<Rightarrow> u64 \<Rightarrow> (bytes \<times> int) option" where
  "serve_answer alloc result request_id =
     (let (ok, payload) = answer_payload alloc result;
          (packed, out) = ksd_frame_pack alloc (answer_frame result request_id (buf_data payload))
            (ksd_buffer_init (length (buf_data payload) + KSD_FRAME_HEADER_SIZE + 16))
      in if ok \<and> packed
         then Some (buf_data out, if res_status result = KSD_STATUS_OK \<and> res_payload_fd result \<ge> 0 then res_payload_fd result else -1)
         else None)"

end
