(* ===== verification/Session.thy ===== *)
theory Session
  imports Effects Lease Responses Capture_Worker
begin

text \<open>
  A client's session with the authority (src/src/authorityd.c): its record, the calls it
  makes to the rest of the system, the frames it sends to the client and the refresh of
  its grants from the permission store, which every request goes through.

  The permission library is not part of the repository: its store, its identity checks
  and its prompts are functions of \<open>services\<close>, together with the locks, the sockets and
  the clocks. The lease of a session is shared with the other connections of the same
  client. Taking its mutex delivers the record as the other threads left it, and giving
  the mutex back stores the record for them; both are logged.
\<close>

section \<open>The session and its surroundings\<close>

record authority_session =
  ss_identity :: ksp_identity
  ss_gid :: u32
  ss_role :: u16
  ss_backend :: u32
  ss_requested_scopes :: u32
  ss_granted_scopes :: u32
  ss_generation :: u64
  ss_identity_checked_at :: u64
  ss_assembly_deadline :: u64
  ss_assembly :: ksd_request_assembly
  ss_lease :: bool
  ss_peer_uid :: u32
  ss_peer_pid :: i32
  ss_source_started :: "bool list"
  ss_effective_sequence :: u64

datatype ksp_polkit_result = KSP_POLKIT_GRANTED | KSP_POLKIT_DENIED | KSP_POLKIT_CANCELLED
  | KSP_POLKIT_IDENTITY_CHANGED | KSP_POLKIT_NO_AGENT | KSP_POLKIT_UNAVAILABLE

datatype budget = Kwin_Slot i32 | Capture_Memory u32 i32 | Assembly_Memory u32

text \<open>How an operation reaches the desktop.\<close>

datatype route = Via_Script relay | Via_Display relay | Via_Worker | Via_Provider

text \<open>What the log records. \<open>Wrote\<close> is a frame handed to the socket, with a descriptor if one goes along.\<close>

datatype event =
    Lease_Locked authority_lease
  | Lease_Unlocked authority_lease
  | Store_Generation u32 "u64 option"
  | Store_Check u32 bytes u32 "(u32 \<times> u64) option"
  | Store_Grant ksp_identity u32 u64 int
  | Store_Revoke u32 "bytes option" u32 int
  | Prompt_Locked int
  | Prompt_Released int
  | Consent u32 ksp_polkit_result
  | Emitted ksd_state_event bool
  | Wrote ksd_frame "int option" bool
  | Relay_Did "relay_action list"
  | Reserved budget bool
  | Released budget
  | Observed relay ksd_frame ksd_operation_result
  | Dispatched route ksd_frame
  | Answered ksd_operation_result
  | Source_Started nat
  | Source_Stopped nat

text \<open>
  One round of the loop that waits for a capture worker, how the worker is found when the
  loop is over, and one wait of the loop that waits for the window table.
\<close>

datatype worker_poll = Worker_Interrupted | Worker_Failed | Worker_Idle | Worker_Hung_Up | Worker_Ready "worker_reply option"

datatype worker_exit = Worker_Running | Worker_Clean | Worker_Abnormal

datatype wait_outcome = Woken | Wait_Expired | Wait_Broken

text \<open>
  One round of the poll of a connection: interrupted, failed, nothing to do, or what was
  signalled for the three sources and the client (input, hang-up).
\<close>

datatype connection_poll = Round_Interrupted | Round_Failed | Round_Idle | Round_Ready "bool list" bool bool

text \<open>
  One round of the watch of a display worker: interrupted, failed, the client has spoken,
  nothing to read, or an attempt to read a frame.
\<close>

datatype watch_poll = Watch_Interrupted | Watch_Failed | Watch_Client | Watch_Idle | Watch_Frame "ksd_frame option"

text \<open>What setting up a source of state events met: memory, the socket pair, and the thread with its timeouts.\<close>

record source_facts =
  sf_memory :: bool
  sf_sockets :: bool
  sf_started :: bool

text \<open>
  The consent dialog of a user installation: whether a program for it was found, whether
  the scopes could be named, whether it started, and the rounds of waiting for it.
\<close>

datatype consent_wait = Consent_Exited "int option" | Consent_Round bool bool bool

record consent_facts =
  cf_program :: bool
  cf_named :: bool
  cf_started :: bool
  cf_waits :: "consent_wait list"

text \<open>An entry of the store: scopes, hash, time and executable.\<close>

type_synonym store_entry = "u32 \<times> bytes \<times> u64 \<times> bytes"

record 'w services =
  sv_alloc :: "nat \<Rightarrow> bool"
  sv_lease_lock :: "'w \<Rightarrow> authority_lease \<times> 'w"
  sv_lease_unlock :: "authority_lease \<Rightarrow> 'w \<Rightarrow> 'w"
  sv_sends :: "'w \<Rightarrow> send_outcome list \<times> 'w"
  sv_write :: "ksd_frame \<Rightarrow> int option \<Rightarrow> 'w \<Rightarrow> bool \<times> 'w"
  sv_generation :: "u32 \<Rightarrow> 'w \<Rightarrow> u64 option \<times> 'w"
  sv_check :: "u32 \<Rightarrow> bytes \<Rightarrow> u32 \<Rightarrow> 'w \<Rightarrow> (u32 \<times> u64) option \<times> 'w"
  sv_grant :: "ksp_identity \<Rightarrow> u32 \<Rightarrow> u64 \<Rightarrow> 'w \<Rightarrow> int \<times> 'w"
  sv_revoke :: "u32 \<Rightarrow> bytes \<Rightarrow> u32 \<Rightarrow> 'w \<Rightarrow> int \<times> 'w"
  sv_revoke_uid :: "u32 \<Rightarrow> u32 \<Rightarrow> 'w \<Rightarrow> int \<times> 'w"
  sv_list :: "u32 \<Rightarrow> 'w \<Rightarrow> store_entry list option \<times> 'w"
  sv_sanitize :: "bytes \<Rightarrow> bytes"
  sv_path_capacity :: nat
  sv_revalidate_cached :: "ksp_identity \<Rightarrow> 'w \<Rightarrow> ksp_identity option \<times> 'w"
  sv_revalidate :: "ksp_identity \<Rightarrow> 'w \<Rightarrow> ksp_identity option \<times> 'w"
  sv_identity_capture :: "i32 \<Rightarrow> u32 \<Rightarrow> 'w \<Rightarrow> ksp_identity option \<times> 'w"
  sv_prompt_lock :: "u32 \<Rightarrow> bytes \<Rightarrow> 'w \<Rightarrow> int \<times> 'w"
  sv_prompt_release :: "int \<Rightarrow> 'w \<Rightarrow> 'w"
  sv_disconnected :: "'w \<Rightarrow> bool \<times> 'w"
  sv_system :: bool
  sv_polkit :: "ksp_identity \<Rightarrow> u32 \<Rightarrow> 'w \<Rightarrow> ksp_polkit_result \<times> 'w"
  sv_consent :: "ksp_identity \<Rightarrow> u32 \<Rightarrow> 'w \<Rightarrow> consent_facts \<times> 'w"
  sv_seconds :: "'w \<Rightarrow> u64 \<times> 'w"
  sv_milliseconds :: "'w \<Rightarrow> u64 \<times> 'w"
  sv_timeouts :: "u32 \<Rightarrow> 'w \<Rightarrow> bool \<times> 'w"
  sv_registry :: "'w \<Rightarrow> backend_slot list \<times> 'w"
  sv_set_registry :: "backend_slot list \<Rightarrow> 'w \<Rightarrow> 'w"
  sv_budgets :: "'w \<Rightarrow> budgets \<times> 'w"
  sv_set_budgets :: "budgets \<Rightarrow> 'w \<Rightarrow> 'w"
  sv_relay_do :: "relay_action list \<Rightarrow> 'w \<Rightarrow> 'w"
  sv_relay_call :: "relay \<Rightarrow> ksd_frame \<Rightarrow> u64 \<Rightarrow> 'w \<Rightarrow> ksd_operation_result \<times> 'w"
  sv_relay_broken :: "relay \<Rightarrow> 'w \<Rightarrow> bool \<times> 'w"
  sv_worker_spawn :: "ksp_identity \<Rightarrow> u32 \<Rightarrow> i32 \<Rightarrow> u32 \<Rightarrow> 'w \<Rightarrow> (int \<times> relay option) \<times> 'w"
  sv_worker_polls :: "ksp_identity \<Rightarrow> u32 \<Rightarrow> ksd_frame \<Rightarrow> i32 \<Rightarrow> u32 \<Rightarrow> 'w \<Rightarrow> worker_poll list option \<times> 'w"
  sv_provider_execute :: "u32 \<Rightarrow> i32 \<Rightarrow> i32 \<Rightarrow> u32 \<Rightarrow> ksd_frame \<Rightarrow> 'w \<Rightarrow> ksd_operation_result \<times> 'w"
  sv_worker_reap :: "'w \<Rightarrow> worker_exit \<times> 'w"
  sv_waits :: "'w \<Rightarrow> wait_outcome list \<times> 'w"
  sv_poke :: "int \<Rightarrow> 'w \<Rightarrow> 'w"
  sv_source :: "nat \<Rightarrow> 'w \<Rightarrow> source_facts \<times> 'w"
  sv_source_end :: "nat \<Rightarrow> 'w \<Rightarrow> 'w"
  sv_source_read :: "nat \<Rightarrow> 'w \<Rightarrow> ksd_frame option \<times> 'w"
  sv_read :: "'w \<Rightarrow> ksd_frame option \<times> 'w"
  sv_polls :: "'w \<Rightarrow> connection_poll list \<times> 'w"
  sv_lease_facts :: "'w \<Rightarrow> (bool \<times> (u64 \<times> u64) option \<times> bool \<times> int) \<times> 'w"
  sv_leases :: "'w \<Rightarrow> authority_lease list \<times> 'w"
  sv_set_leases :: "authority_lease list \<Rightarrow> 'w \<Rightarrow> 'w"
  sv_lease_index :: "'w \<Rightarrow> nat \<times> 'w"
  sv_memory :: "'w \<Rightarrow> bool \<times> 'w"
  sv_client_spoke :: "'w \<Rightarrow> bool \<times> 'w"
  sv_watch_open :: "ksd_frame \<Rightarrow> 'w \<Rightarrow> ksd_frame option \<times> 'w"
  sv_watch_polls :: "'w \<Rightarrow> watch_poll list \<times> 'w"

type_synonym ('w, 'a) authority = "(authority_session, 'w, event, 'a) effect"

section \<open>Calls\<close>

definition lease_lock :: "'w services \<Rightarrow> ('w, authority_lease) authority" where
  "lease_lock sv = call (sv_lease_lock sv) (\<lambda>lease. [Lease_Locked lease])"

definition lease_unlock :: "'w services \<Rightarrow> authority_lease \<Rightarrow> ('w, unit) authority" where
  "lease_unlock sv lease = call (\<lambda>w. ((), sv_lease_unlock sv lease w)) (\<lambda>_. [Lease_Unlocked lease])"

definition store_generation :: "'w services \<Rightarrow> u32 \<Rightarrow> ('w, u64 option) authority" where
  "store_generation sv uid = call (sv_generation sv uid) (\<lambda>g. [Store_Generation uid g])"

definition store_check :: "'w services \<Rightarrow> u32 \<Rightarrow> bytes \<Rightarrow> u32 \<Rightarrow> ('w, (u32 \<times> u64) option) authority" where
  "store_check sv uid hash requested = call (sv_check sv uid hash requested) (\<lambda>answer. [Store_Check uid hash requested answer])"

text \<open>Whether the process still is what it was when its identity was taken.\<close>

definition still_same :: "('w \<Rightarrow> ksp_identity option \<times> 'w) \<Rightarrow> ksp_identity \<Rightarrow> ('w, ksp_identity option) authority" where
  "still_same revalidate identity = do {
     verified \<leftarrow> call revalidate (\<lambda>_. []);
     return (case verified of None \<Rightarrow> None | Some v \<Rightarrow> if same_identity identity v then Some v else None) }"

definition disconnected :: "'w services \<Rightarrow> ('w, bool) authority" where
  "disconnected sv = call (sv_disconnected sv) (\<lambda>_. [])"

text \<open>\<open>lease_emit\<close> with the lease's mutex held.\<close>

definition emit :: "'w services \<Rightarrow> ksd_state_event \<Rightarrow> authority_lease \<Rightarrow> ('w, bool \<times> authority_lease) authority" where
  "emit sv event lease = do {
     outcomes \<leftarrow> call (sv_sends sv) (\<lambda>_. []);
     let (ok, lease') = lease_emit (sv_alloc sv) outcomes event lease;
     note_events [Emitted (stamped lease event) ok];
     return (ok, lease') }"

section \<open>Frames to the client\<close>

definition forward_public :: "'w services \<Rightarrow> ksd_frame \<Rightarrow> ('w, bool) authority" where
  "forward_public sv frame = do {
     session \<leftarrow> data;
     if ss_lease session \<and> ss_role session = KSD_ROLE_AUTHORIZATION_LEASE then do {
       outcomes \<leftarrow> call (sv_sends sv) (\<lambda>_. []);
       let ok = fst (write_lease_frame (sv_alloc sv) outcomes frame);
       note_events [Wrote frame None ok];
       if ok then return True
       else do {
         lease \<leftarrow> lease_lock sv;
         lease_unlock sv (lease_deactivate lease);
         return False }}
     else call (sv_write sv frame None) (\<lambda>ok. [Wrote frame None ok]) }"

definition forward_capture :: "'w services \<Rightarrow> ksd_frame \<Rightarrow> ksd_operation_result \<Rightarrow> ('w, bool) authority" where
  "forward_capture sv request result =
     (case build_response (sv_alloc sv) request (res_status result) (res_detail result) None [] False of
        None \<Rightarrow> return False
      | Some response \<Rightarrow>
          call (sv_write sv response (Some (res_payload_fd result))) (\<lambda>ok. [Wrote response (Some (res_payload_fd result)) ok]))"

text \<open>The tail a successful window operation answers with ends in the sequence number the client has to wait for.\<close>

definition sequenced_tail :: "(nat \<Rightarrow> bool) \<Rightarrow> ksd_frame \<Rightarrow> u32 \<Rightarrow> bytes \<Rightarrow> u64 \<Rightarrow> bytes option" where
  "sequenced_tail alloc request status tail sequence =
     (if status = KSD_STATUS_OK \<and> ksd_state_mutates_windows (fr_opcode request) then
        let (ok, sequenced) = and_then (ksd_buffer_bytes alloc tail (ksd_buffer_init (KSD_MAX_CAPTURE_BYTES + 64)))
              (ksd_buffer_u64 alloc sequence)
        in if ok then Some (buf_data sequenced) else None
      else Some tail)"

definition forward_response ::
  "'w services \<Rightarrow> ksd_frame \<Rightarrow> u32 \<Rightarrow> u32 \<Rightarrow> bytes option \<Rightarrow> bytes \<Rightarrow> bool \<Rightarrow> ('w, bool) authority" where
  "forward_response sv request status detail diagnostic tail chained = do {
     session \<leftarrow> data;
     case sequenced_tail (sv_alloc sv) request status tail (ss_effective_sequence session) of
       None \<Rightarrow> return False
     | Some tail \<Rightarrow>
         (case build_response (sv_alloc sv) request status detail diagnostic tail chained of
            None \<Rightarrow> return False
          | Some response \<Rightarrow> forward_public sv response) }"

definition event_frame :: "u16 \<Rightarrow> bytes \<Rightarrow> ksd_frame" where
  "event_frame opcode payload =
     frame_zero\<lparr>fr_magic := public_magic, fr_major := KSD_PROTOCOL_MAJOR, fr_minor := KSD_PROTOCOL_MINOR,
       fr_opcode := opcode, fr_flags := KSD_FLAG_EVENT, fr_payload := Some payload,
       fr_payload_length := of_nat (length payload)\<rparr>"

definition forward_event :: "'w services \<Rightarrow> u16 \<Rightarrow> bytes \<Rightarrow> ('w, bool) authority" where
  "forward_event sv opcode payload = forward_public sv (event_frame opcode payload)"

definition send_revoked :: "'w services \<Rightarrow> u32 \<Rightarrow> ('w, bool) authority" where
  "send_revoked sv scopes =
     (if scopes = 0 then return True
      else forward_event sv KSD_OP_SESSION_REVOKED (ksd_encode_u32 scopes @ replicate 4 0))"

section \<open>Refreshing the grants\<close>

definition leased_identity_refresh :: "'w services \<Rightarrow> ('w, bool) authority" where
  "leased_identity_refresh sv = do {
     lease \<leftarrow> lease_lock sv;
     update (\<lambda>ss. ss\<lparr>ss_identity := le_identity lease\<rparr>);
     lease_unlock sv lease;
     return (le_active lease) }"

definition session_identity_refresh :: "'w services \<Rightarrow> ('w, bool) authority" where
  "session_identity_refresh sv = do {
     session \<leftarrow> data;
     if ss_lease session then leased_identity_refresh sv
     else do {
       verified \<leftarrow> still_same (sv_revalidate_cached sv (ss_identity session)) (ss_identity session);
       case verified of
         None \<Rightarrow> return False
       | Some v \<Rightarrow> do {
           now \<leftarrow> call (sv_seconds sv) (\<lambda>_. []);
           update (\<lambda>ss. ss\<lparr>ss_identity := v, ss_identity_checked_at := now\<rparr>);
           return True }}}"

definition grant_event :: "u32 \<Rightarrow> u32 \<Rightarrow> ksd_state_event" where
  "grant_event granted revoked = ksd_state_event_init\<lparr>ev_kind := KSD_STATE_GRANT_CHANGED, ev_domain := KSD_STATE_GRANTS,
     ev_granted_scopes := granted, ev_revoked_scopes := revoked\<rparr>"

text \<open>The state domains that need a scope are left when the scope is revoked.\<close>

definition narrow_domains :: "u32 \<Rightarrow> authority_lease \<Rightarrow> authority_lease" where
  "narrow_domains revoked lease =
     (let windows = (if revoked AND KSD_SCOPE_WINDOW_MONITORING \<noteq> 0 then NOT KSD_STATE_WINDOWS else - 1);
          clipboard = (if revoked AND KSD_SCOPE_CLIPBOARD_MONITORING \<noteq> 0 then NOT KSD_STATE_CLIPBOARD else - 1)
      in lease\<lparr>le_domains := le_domains lease AND windows AND clipboard\<rparr>)"

text \<open>The store's answer for the lease: whether all went well, the grants, the generation and whether it is new.\<close>

definition lease_check :: "'w services \<Rightarrow> bool \<Rightarrow> authority_lease \<Rightarrow> ('w, bool \<times> u32 \<times> u64 \<times> bool) authority" where
  "lease_check sv force_identity lease = do {
     current \<leftarrow> (if le_active lease then store_generation sv (id_uid (le_identity lease)) else return None);
     let generation = (case current of None \<Rightarrow> le_generation lease | Some g \<Rightarrow> g);
     ok \<leftarrow> (if current \<noteq> None \<and> force_identity
            then do { verified \<leftarrow> still_same (sv_revalidate_cached sv (le_identity lease)) (le_identity lease); return (verified \<noteq> None) }
            else return (current \<noteq> None));
     let changed = (generation \<noteq> le_generation lease);
     if ok \<and> changed \<and> le_requested_scopes lease \<noteq> 0 then do {
       answer \<leftarrow> store_check sv (id_uid (le_identity lease)) (id_hash (le_identity lease)) (le_requested_scopes lease);
       return (case answer of None \<Rightarrow> (False, 0, generation, changed)
               | Some (granted, generation') \<Rightarrow> (True, granted, generation', changed)) }
     else return (ok, if ok then le_granted_scopes lease else 0, generation, changed) }"

definition refresh_lease :: "'w services \<Rightarrow> bool \<Rightarrow> bool \<Rightarrow> ('w, bool \<times> bool) authority" where
  "refresh_lease sv force_identity notify = do {
     lease \<leftarrow> lease_lock sv;
     (ok, granted, generation, changed) \<leftarrow> lease_check sv force_identity lease;
     let revoked = le_granted_scopes lease AND NOT granted;
     let lease' = lease\<lparr>le_generation := generation, le_granted_scopes := granted\<rparr>;
     update (\<lambda>ss. ss\<lparr>ss_identity := le_identity lease, ss_generation := generation,
       ss_requested_scopes := le_requested_scopes lease, ss_granted_scopes := granted\<rparr>);
     if le_granted_scopes lease \<noteq> granted \<and> notify then do {
       (sent, lease'') \<leftarrow> emit sv (grant_event granted revoked) (bump 4 lease');
       lease_unlock sv (narrow_domains revoked lease'');
       return (sent \<and> ok, changed) }
     else do {
       lease_unlock sv lease';
       return (ok, changed) }}"

text \<open>The refresh of a session without a lease. The flag says whether the generation is new.\<close>

definition refresh_failed :: "'w services \<Rightarrow> bool \<Rightarrow> ('w, bool \<times> bool) authority" where
  "refresh_failed sv notify = do {
     session \<leftarrow> data;
     update (\<lambda>ss. ss\<lparr>ss_granted_scopes := 0\<rparr>);
     _ \<leftarrow> (if notify then send_revoked sv (ss_granted_scopes session) else return True);
     return (False, False) }"

definition refresh_unleased :: "'w services \<Rightarrow> bool \<Rightarrow> bool \<Rightarrow> ('w, bool \<times> bool) authority" where
  "refresh_unleased sv force_identity notify = do {
     session \<leftarrow> data;
     if ss_requested_scopes session = 0 then
       if force_identity then do { ok \<leftarrow> session_identity_refresh sv; return (ok, False) } else return (True, False)
     else do {
       current \<leftarrow> store_generation sv (id_uid (ss_identity session));
       case current of None \<Rightarrow> refresh_failed sv notify
       | Some generation \<Rightarrow> do {
           ok \<leftarrow> (if force_identity \<or> generation \<noteq> ss_generation session then session_identity_refresh sv else return True);
           if \<not> ok then refresh_failed sv notify
           else do {
             session \<leftarrow> data;
             answer \<leftarrow> (if generation \<noteq> ss_generation session
               then store_check sv (id_uid (ss_identity session)) (id_hash (ss_identity session)) (ss_requested_scopes session)
               else return (Some (ss_granted_scopes session, generation)));
             case answer of None \<Rightarrow> refresh_failed sv notify
             | Some (allowed, generation) \<Rightarrow> do {
                 update (\<lambda>ss. ss\<lparr>ss_generation := generation, ss_granted_scopes := allowed\<rparr>);
                 sent \<leftarrow> (if notify then send_revoked sv (ss_granted_scopes session AND NOT allowed) else return True);
                 return (sent, generation \<noteq> ss_generation session) }}}}}"

definition session_refresh :: "'w services \<Rightarrow> bool \<Rightarrow> bool \<Rightarrow> ('w, bool \<times> bool) authority" where
  "session_refresh sv force_identity notify = do {
     session \<leftarrow> data;
     if ss_lease session then refresh_lease sv force_identity notify else refresh_unleased sv force_identity notify }"

definition capture_still_authorized :: "'w services \<Rightarrow> ('w, bool) authority" where
  "capture_still_authorized sv = do {
     gone \<leftarrow> disconnected sv;
     if gone then return False
     else do {
       (ok, _) \<leftarrow> session_refresh sv True True;
       session \<leftarrow> data;
       return (ok \<and> ss_granted_scopes session AND KSD_SCOPE_SCREEN_CAPTURE = KSD_SCOPE_SCREEN_CAPTURE) }}"

section \<open>A small world\<close>

text \<open>
  Surroundings for the examples: the world is the mask of scopes the store has granted to
  the one application there is, and the generation follows from it. Nobody else interferes, and consent is
  always given.
\<close>

definition sample_identity :: ksp_identity where
  "sample_identity = \<lparr>id_uid = 1000, id_pid = 42, id_start_time = 1, id_hash = replicate 64 97, id_executable = ascii ''/usr/bin/app''\<rparr>"

definition sample_session :: authority_session where
  "sample_session = \<lparr>ss_identity = sample_identity, ss_gid = 1000, ss_role = KSD_ROLE_AUTHORIZATION_LEASE, ss_backend = KSD_BACKEND_X11,
     ss_requested_scopes = 0, ss_granted_scopes = 0, ss_generation = 0, ss_identity_checked_at = 0, ss_assembly_deadline = 0,
     ss_assembly = ksd_request_assembly_init, ss_lease = True, ss_peer_uid = 1000, ss_peer_pid = 42,
     ss_source_started = [False, False, False], ss_effective_sequence = 0\<rparr>"

definition world_lease :: "u32 \<Rightarrow> authority_lease" where
  "world_lease scopes = sample_lease\<lparr>le_identity := sample_identity, le_requested_scopes := scopes, le_granted_scopes := scopes,
     le_generation := ucast scopes + 7\<rparr>"

definition sample_services :: "u32 services" where
  "sample_services = \<lparr>sv_alloc = (\<lambda>_. True), sv_lease_lock = (\<lambda>w. (world_lease w, w)), sv_lease_unlock = (\<lambda>_ w. w),
     sv_sends = (\<lambda>w. ([Sent_Bytes 1000], w)), sv_write = (\<lambda>_ _ w. (True, w)), sv_generation = (\<lambda>_ w. (Some (ucast w + 7), w)),
     sv_check = (\<lambda>_ _ requested w. (Some (requested AND w, ucast w + 7), w)), sv_grant = (\<lambda>_ m _ w. (0, w OR m)),
     sv_revoke = (\<lambda>_ _ m w. (0, w AND NOT m)), sv_revoke_uid = (\<lambda>_ m w. (0, w AND NOT m)), sv_list = (\<lambda>_ w. (Some [], w)),
     sv_sanitize = (\<lambda>s. s), sv_path_capacity = 4096, sv_revalidate_cached = (\<lambda>i w. (Some i, w)), sv_revalidate = (\<lambda>i w. (Some i, w)),
     sv_identity_capture = (\<lambda>pid uid w. (Some (sample_identity\<lparr>id_uid := uid, id_pid := pid\<rparr>), w)), sv_prompt_lock = (\<lambda>_ _ w. (3, w)), sv_prompt_release = (\<lambda>_ w. w),
     sv_disconnected = (\<lambda>w. (False, w)), sv_system = True, sv_polkit = (\<lambda>_ _ w. (KSP_POLKIT_GRANTED, w)),
     sv_consent = (\<lambda>_ _ w. (\<lparr>cf_program = False, cf_named = False, cf_started = False, cf_waits = []\<rparr>, w)),
     sv_seconds = (\<lambda>w. (1, w)), sv_milliseconds = (\<lambda>w. (1000, w)), sv_timeouts = (\<lambda>_ w. (True, w)),
     sv_registry = (\<lambda>w. (backends_zero, w)), sv_set_registry = (\<lambda>_ w. w), sv_budgets = (\<lambda>w. (budgets_zero, w)),
     sv_set_budgets = (\<lambda>_ w. w), sv_relay_do = (\<lambda>_ w. w), sv_relay_call = (\<lambda>_ _ _ w. (ksd_result_init, w)),
     sv_relay_broken = (\<lambda>_ w. (False, w)), sv_worker_spawn = (\<lambda>_ _ _ _ w. ((-1, None), w)),
     sv_worker_polls = (\<lambda>_ _ _ _ _ w. (None, w)), sv_provider_execute = (\<lambda>_ _ _ _ _ w. (ksd_result_init, w)),
     sv_worker_reap = (\<lambda>w. (Worker_Clean, w)), sv_waits = (\<lambda>w. ([], w)), sv_poke = (\<lambda>_ w. w),
     sv_source = (\<lambda>_ w. (\<lparr>sf_memory = True, sf_sockets = True, sf_started = True\<rparr>, w)), sv_source_end = (\<lambda>_ w. w),
     sv_source_read = (\<lambda>_ w. (None, w)), sv_read = (\<lambda>w. (None, w)), sv_polls = (\<lambda>w. ([], w)),
     sv_lease_facts = (\<lambda>w. ((True, Some (5, 6), True, 9), w)), sv_leases = (\<lambda>w. ([world_lease w], w)),
     sv_set_leases = (\<lambda>_ w. w), sv_lease_index = (\<lambda>w. (0, w)),
     sv_memory = (\<lambda>w. (True, w)), sv_client_spoke = (\<lambda>w. (False, w)), sv_watch_open = (\<lambda>_ w. (None, w)),
     sv_watch_polls = (\<lambda>w. ([], w))\<rparr>"

lemma sample_services_simps [simp]:
  "sv_alloc sample_services = (\<lambda>_. True)"
  "sv_lease_lock sample_services = (\<lambda>w. (world_lease w, w))"
  "sv_lease_unlock sample_services = (\<lambda>_ w. w)"
  "sv_sends sample_services = (\<lambda>w. ([Sent_Bytes 1000], w))"
  "sv_write sample_services = (\<lambda>_ _ w. (True, w))"
  "sv_generation sample_services = (\<lambda>_ w. (Some (ucast w + 7), w))"
  "sv_check sample_services = (\<lambda>_ _ requested w. (Some (requested AND w, ucast w + 7), w))"
  "sv_grant sample_services = (\<lambda>_ m _ w. (0, w OR m))"
  "sv_revoke sample_services = (\<lambda>_ _ m w. (0, w AND NOT m))"
  "sv_revoke_uid sample_services = (\<lambda>_ m w. (0, w AND NOT m))"
  "sv_list sample_services = (\<lambda>_ w. (Some [], w))"
  "sv_sanitize sample_services = (\<lambda>s. s)"
  "sv_path_capacity sample_services = 4096"
  "sv_revalidate_cached sample_services = (\<lambda>i w. (Some i, w))"
  "sv_revalidate sample_services = (\<lambda>i w. (Some i, w))"
  "sv_identity_capture sample_services = (\<lambda>pid uid w. (Some (sample_identity\<lparr>id_uid := uid, id_pid := pid\<rparr>), w))"
  "sv_prompt_lock sample_services = (\<lambda>_ _ w. (3, w))"
  "sv_prompt_release sample_services = (\<lambda>_ w. w)"
  "sv_disconnected sample_services = (\<lambda>w. (False, w))"
  "sv_system sample_services = True"
  "sv_polkit sample_services = (\<lambda>_ _ w. (KSP_POLKIT_GRANTED, w))"
  "sv_consent sample_services = (\<lambda>_ _ w. (\<lparr>cf_program = False, cf_named = False, cf_started = False, cf_waits = []\<rparr>, w))"
  "sv_seconds sample_services = (\<lambda>w. (1, w))"
  "sv_milliseconds sample_services = (\<lambda>w. (1000, w))"
  "sv_timeouts sample_services = (\<lambda>_ w. (True, w))"
  "sv_registry sample_services = (\<lambda>w. (backends_zero, w))"
  "sv_set_registry sample_services = (\<lambda>_ w. w)"
  "sv_budgets sample_services = (\<lambda>w. (budgets_zero, w))"
  "sv_set_budgets sample_services = (\<lambda>_ w. w)"
  "sv_relay_do sample_services = (\<lambda>_ w. w)"
  "sv_relay_call sample_services = (\<lambda>_ _ _ w. (ksd_result_init, w))"
  "sv_relay_broken sample_services = (\<lambda>_ w. (False, w))"
  "sv_worker_spawn sample_services = (\<lambda>_ _ _ _ w. ((-1, None), w))"
  "sv_worker_polls sample_services = (\<lambda>_ _ _ _ _ w. (None, w))"
  "sv_provider_execute sample_services = (\<lambda>_ _ _ _ _ w. (ksd_result_init, w))"
  "sv_worker_reap sample_services = (\<lambda>w. (Worker_Clean, w))"
  "sv_waits sample_services = (\<lambda>w. ([], w))"
  "sv_poke sample_services = (\<lambda>_ w. w)"
  "sv_source sample_services = (\<lambda>_ w. (\<lparr>sf_memory = True, sf_sockets = True, sf_started = True\<rparr>, w))"
  "sv_source_end sample_services = (\<lambda>_ w. w)"
  "sv_source_read sample_services = (\<lambda>_ w. (None, w))"
  "sv_read sample_services = (\<lambda>w. (None, w))"
  "sv_polls sample_services = (\<lambda>w. ([], w))"
  "sv_lease_facts sample_services = (\<lambda>w. ((True, Some (5, 6), True, 9), w))"
  "sv_leases sample_services = (\<lambda>w. ([world_lease w], w))"
  "sv_set_leases sample_services = (\<lambda>_ w. w)"
  "sv_lease_index sample_services = (\<lambda>w. (0, w))"
  "sv_memory sample_services = (\<lambda>w. (True, w))"
  "sv_client_spoke sample_services = (\<lambda>w. (False, w))"
  "sv_watch_open sample_services = (\<lambda>_ w. (None, w))"
  "sv_watch_polls sample_services = (\<lambda>w. ([], w))"
  by (simp_all add: sample_services_def)

definition sample_grants :: "u32 \<Rightarrow> bytes \<Rightarrow> u64 \<Rightarrow> u32" where
  "sample_grants uid hash generation = ucast (generation - 7)"

definition sample_start :: "u32 \<Rightarrow> (authority_session, u32, event) run" where
  "sample_start w = \<lparr>rn_data = sample_session, rn_world = w, rn_log = []\<rparr>"

end
