(* ===== verification/Lease_Grants.thy ===== *)
theory Lease_Grants
  imports Session
begin

text \<open>
  The grants of a lease come from the permission store. The refresh of a session is
  specified by what it asks the store and what it leaves in the lease and in the session;
  from that follows that leases stay backed by the store, whatever the other threads do
  with them in between, as long as they keep to the same rule.
\<close>

section \<open>Backed leases\<close>

text \<open>
  \<open>grants uid hash generation\<close> are the scopes the store has granted to an application at
  one of its generations. The contract of the store is that a check returns the
  requested scopes that are granted at the generation it reports
  (src/docs/permission-store.md). A lease is backed when its grants were requested and are
  granted at the generation it records.
\<close>

type_synonym grant_history = "u32 \<Rightarrow> bytes \<Rightarrow> u64 \<Rightarrow> u32"

definition store_honest :: "grant_history \<Rightarrow> event list \<Rightarrow> bool" where
  "store_honest grants es \<longleftrightarrow> (\<forall>uid hash requested allowed generation.
     Store_Check uid hash requested (Some (allowed, generation)) \<in> set es \<longrightarrow> allowed = requested AND grants uid hash generation)"

definition lease_grants :: "grant_history \<Rightarrow> authority_lease \<Rightarrow> u32" where
  "lease_grants grants lease = grants (id_uid (le_identity lease)) (id_hash (le_identity lease)) (le_generation lease)"

text \<open>Every scope of the one is a scope of the other.\<close>

definition scopes_in :: "u32 \<Rightarrow> u32 \<Rightarrow> bool" where
  "scopes_in a b \<longleftrightarrow> a AND b = a"

lemma scopes_in_refl [simp]: "scopes_in a a"
  by (simp add: scopes_in_def)

lemma scopes_in_0 [simp]: "scopes_in 0 b" "scopes_in a 0 \<longleftrightarrow> a = 0"
  by (auto simp: scopes_in_def)

lemma scopes_in_left: "scopes_in (a AND b) a"
  by (simp add: scopes_in_def and.commute and.left_commute)

lemma scopes_in_trans: "scopes_in a b \<Longrightarrow> scopes_in b c \<Longrightarrow> scopes_in a c"
  by (metis scopes_in_def and.assoc)

lemma scopes_in_and: "scopes_in a (b AND c) \<longleftrightarrow> scopes_in a b \<and> scopes_in a c"
proof
  assume *: "scopes_in a (b AND c)"
  have "(a AND (b AND c)) AND b = a AND (b AND c)" "(a AND (b AND c)) AND c = a AND (b AND c)"
    by (simp_all add: and.assoc and.commute and.left_commute)
  with * show "scopes_in a b \<and> scopes_in a c" by (simp add: scopes_in_def)
next
  assume "scopes_in a b \<and> scopes_in a c"
  then show "scopes_in a (b AND c)" by (simp add: scopes_in_def flip: and.assoc)
qed

definition backed :: "grant_history \<Rightarrow> authority_lease \<Rightarrow> bool" where
  "backed grants lease \<longleftrightarrow> scopes_in (le_granted_scopes lease) (le_requested_scopes lease AND lease_grants grants lease)"

text \<open>A thread that finds backed leases leaves backed leases.\<close>

definition guards :: "grant_history \<Rightarrow> event list \<Rightarrow> bool" where
  "guards grants es \<longleftrightarrow>
     (store_honest grants es \<and> (\<forall>lease. Lease_Locked lease \<in> set es \<longrightarrow> backed grants lease) \<longrightarrow>
      (\<forall>lease. Lease_Unlocked lease \<in> set es \<longrightarrow> backed grants lease))"

lemma store_honest_append [simp]: "store_honest grants (es @ fs) \<longleftrightarrow> store_honest grants es \<and> store_honest grants fs"
  by (auto simp: store_honest_def)

interpretation guard: log_property "guards grants" for grants
proof
  show "guards grants []" by (simp add: guards_def)
  fix es fs
  assume "guards grants es" "guards grants fs"
  then show "guards grants (es @ fs)" unfolding guards_def set_append Un_iff store_honest_append by blast
qed

lemma backed_deactivate [simp]: "backed grants (lease_deactivate l)"
  by (simp add: backed_def lease_deactivate_def)

lemma backed_fields [simp]:
  "backed grants (l\<lparr>le_sequences := q\<rparr>) = backed grants l" "backed grants (l\<lparr>le_domains := m\<rparr>) = backed grants l"
  "backed grants (l\<lparr>le_active := a\<rparr>) = backed grants l"
  by (simp_all add: backed_def lease_grants_def)

lemma backed_bump [simp]: "backed grants (bump i l) = backed grants l" "backed grants (narrow_domains r l) = backed grants l"
  by (simp_all only: bump_def narrow_domains_def Let_def backed_fields)

lemma lease_emit_cases:
  obtains (sent) "lease_emit alloc outcomes e l = (True, l)" | (failed) l' where "lease_emit alloc outcomes e l = (False, l')" "l' = l \<or> l' = lease_deactivate l"
proof -
  obtain ok l' where r: "lease_emit alloc outcomes e l = (ok, l')" by force
  then have "if ok then l' = l else l' = l \<or> l' = lease_deactivate l"
    unfolding lease_emit_def Let_def by (auto split: prod.splits if_splits)
  with r that show thesis by (cases ok) auto
qed

lemma emit_spec:
  "spec (emit sv e l) (\<lambda>d (ok, l') d' es. d' = d \<and> es = [Emitted (stamped l e) ok]
     \<and> (l' = l \<or> l' = lease_deactivate l) \<and> (ok \<longrightarrow> l' = l))"
  unfolding emit_def
  apply (rule specI, unfold wp_simps, rule wp_any)
  subgoal for s outcomes w
    by (rule lease_emit_cases [of "sv_alloc sv" outcomes e l]) (auto simp: wp_simps)
  done

lemma forward_public_guards: "guard.keeps grants (forward_public sv frame)"
  unfolding guard.keeps_def forward_public_def
  by (rule specI)
     (auto simp: wp_simps lease_lock_def lease_unlock_def guards_def intro!: wp_any)

text \<open>What the questions to the store establish about a lease.\<close>

inductive lease_checked :: "authority_lease \<Rightarrow> bool \<Rightarrow> u32 \<Rightarrow> u64 \<Rightarrow> bool \<Rightarrow> event list \<Rightarrow> bool" for lease where
  inactive: "\<not> le_active lease \<Longrightarrow> lease_checked lease False 0 (le_generation lease) False []"
| unanswered: "le_active lease \<Longrightarrow> lease_checked lease False 0 (le_generation lease) False [Store_Generation (id_uid (le_identity lease)) None]"
| replaced: "le_active lease \<Longrightarrow> changed = (g \<noteq> le_generation lease) \<Longrightarrow>
    lease_checked lease False 0 g changed [Store_Generation (id_uid (le_identity lease)) (Some g)]"
| unverified: "le_active lease \<Longrightarrow> g \<noteq> le_generation lease \<Longrightarrow>
    lease_checked lease False 0 g True [Store_Generation (id_uid (le_identity lease)) (Some g),
      Store_Check (id_uid (le_identity lease)) (id_hash (le_identity lease)) (le_requested_scopes lease) None]"
| same: "le_active lease \<Longrightarrow> changed = (g \<noteq> le_generation lease) \<Longrightarrow> \<not> changed \<or> le_requested_scopes lease = 0 \<Longrightarrow>
    lease_checked lease True (le_granted_scopes lease) g changed [Store_Generation (id_uid (le_identity lease)) (Some g)]"
| checked: "le_active lease \<Longrightarrow> g \<noteq> le_generation lease \<Longrightarrow>
    lease_checked lease True granted generation True [Store_Generation (id_uid (le_identity lease)) (Some g),
      Store_Check (id_uid (le_identity lease)) (id_hash (le_identity lease)) (le_requested_scopes lease) (Some (granted, generation))]"

lemma still_same_spec: "spec (still_same f i) (\<lambda>d x d' es. d' = d \<and> es = [])"
  unfolding still_same_def
  by (rule specI, unfold wp_simps, rule wp_any) (simp add: wp_simps split: option.splits)

lemma lease_check_spec:
  "spec (lease_check sv force lease) (\<lambda>d (ok, granted, generation, changed) d' es. d' = d \<and> lease_checked lease ok granted generation changed es)"
proof (rule specI, cases "le_active lease", goal_cases)
  case (1 s)
  then show ?case
    unfolding lease_check_def store_generation_def store_check_def
    by (auto simp: wp_simps lease_checked.intros intro!: wp_any spec_wp [OF still_same_spec] split: option.splits)
next
  case (2 s)
  then show ?case by (simp add: lease_check_def wp_simps lease_checked.inactive)
qed

text \<open>
  The refresh of a session with a lease: the lease it found, the questions it asked, the
  event it may have sent, and the lease it left. A failed send leaves an inactive lease.
\<close>

definition lease_updated :: "authority_lease \<Rightarrow> u64 \<Rightarrow> u32 \<Rightarrow> authority_lease" where
  "lease_updated lease generation granted = lease\<lparr>le_generation := generation, le_granted_scopes := granted\<rparr>"

definition session_updated :: "authority_lease \<Rightarrow> u64 \<Rightarrow> u32 \<Rightarrow> authority_session \<Rightarrow> authority_session" where
  "session_updated lease generation granted d = d\<lparr>ss_identity := le_identity lease, ss_generation := generation,
     ss_requested_scopes := le_requested_scopes lease, ss_granted_scopes := granted\<rparr>"

inductive refreshed :: "bool \<Rightarrow> authority_session \<Rightarrow> bool \<times> bool \<Rightarrow> authority_session \<Rightarrow> event list \<Rightarrow> bool" for notify d where
  silent: "lease_checked lease ok granted generation changed cs \<Longrightarrow> \<not> (le_granted_scopes lease \<noteq> granted \<and> notify) \<Longrightarrow>
    refreshed notify d (ok, changed) (session_updated lease generation granted d)
      (Lease_Locked lease # cs @ [Lease_Unlocked (lease_updated lease generation granted)])"
| announced: "lease_checked lease ok granted generation changed cs \<Longrightarrow> le_granted_scopes lease \<noteq> granted \<and> notify \<Longrightarrow>
    base = bump 4 (lease_updated lease generation granted)
      \<or> \<not> sent \<and> base = lease_deactivate (bump 4 (lease_updated lease generation granted)) \<Longrightarrow>
    revoked = le_granted_scopes lease AND NOT granted \<Longrightarrow>
    refreshed notify d (sent \<and> ok, changed) (session_updated lease generation granted d)
      (Lease_Locked lease # cs @ [Emitted (stamped (bump 4 (lease_updated lease generation granted)) (grant_event granted revoked)) sent,
        Lease_Unlocked (narrow_domains revoked base)])"

lemma refresh_lease_spec: "spec (refresh_lease sv force notify) (refreshed notify)"
proof (rule specI, goal_cases)
  case (1 s)
  show ?case
    unfolding refresh_lease_def lease_lock_def lease_unlock_def wp_simps
  proof (rule wp_any, rule spec_wp [OF lease_check_spec], goal_cases)
    case (1 lease w x d w' cs)
    obtain ok granted generation changed where x: "x = (ok, granted, generation, changed)" by (cases x)
    with 1 have c: "lease_checked lease ok granted generation changed cs" "d = rn_data s" by simp_all
    show ?case
    proof (cases "le_granted_scopes lease \<noteq> granted \<and> notify")
      case True
      show ?thesis unfolding x prod.case if_P [OF True]
      proof (rule spec_wp [OF emit_spec], goal_cases)
        case (1 y d' w es)
        obtain sent base where y: "y = (sent, base)" by force
        show ?case unfolding y prod.case
          apply (rule wp_any)
          using refreshed.announced [OF c(1) True _ refl, of base sent] 1 c(2)
          by (auto simp: wp_simps y lease_updated_def [symmetric] session_updated_def [symmetric])
      qed
    next
      case False
      show ?thesis unfolding x prod.case if_not_P [OF False]
        apply (rule wp_any)
        using refreshed.silent [OF c(1) False] c(2) by (simp add: wp_simps lease_updated_def [symmetric] session_updated_def [symmetric])
    qed
  qed
qed

section \<open>Leases stay backed\<close>

lemma lease_checked_backed:
  assumes "lease_checked lease ok granted generation changed cs" "store_honest grants cs" "backed grants lease"
  shows "backed grants (lease_updated lease generation granted)"
  using assms
proof cases
  case same
  show ?thesis
  proof (cases changed)
    case True
    then have "le_requested_scopes lease = 0" using same by simp
    then have "le_granted_scopes lease = 0" using assms(3) by (simp add: backed_def)
    then show ?thesis using same by (simp add: backed_def lease_updated_def)
  next
    case False
    then show ?thesis using same assms(3) by (simp add: backed_def lease_grants_def lease_updated_def)
  qed
next
  case (checked g)
  then show ?thesis using assms(2) by (simp add: backed_def lease_grants_def lease_updated_def store_honest_def)
qed (simp_all add: backed_def lease_updated_def)

lemma lease_checked_events:
  assumes "lease_checked lease ok granted generation changed cs"
  shows "e \<in> set cs \<Longrightarrow> (\<exists>uid g. e = Store_Generation uid g) \<or> (\<exists>uid h r a. e = Store_Check uid h r a)"
  using assms by cases auto

lemma refreshed_guards:
  assumes "refreshed notify d x d' es"
  shows "guards grants es"
  unfolding guards_def
proof (intro impI allI)
  assume h: "store_honest grants es \<and> (\<forall>lease. Lease_Locked lease \<in> set es \<longrightarrow> backed grants lease)"
  from assms show "Lease_Unlocked lease \<in> set es \<Longrightarrow> backed grants lease" for lease
  proof cases
    case (silent l ok granted generation changed cs)
    have "backed grants (lease_updated l generation granted)"
      using h silent(3) by (intro lease_checked_backed [OF silent(4)]) (auto simp: store_honest_def)
    then show "Lease_Unlocked lease \<in> set es \<Longrightarrow> backed grants lease"
      using lease_checked_events [OF silent(4)] silent(3) by fastforce
  next
    case (announced l ok granted generation changed cs base sent revoked)
    have "backed grants (lease_updated l generation granted)"
      using h announced(3) by (intro lease_checked_backed [OF announced(4)]) (auto simp: store_honest_def)
    then have "backed grants (narrow_domains revoked base)" using announced(6) by auto
    then show "Lease_Unlocked lease \<in> set es \<Longrightarrow> backed grants lease"
      using lease_checked_events [OF announced(4)] announced(3) by fastforce
  qed
qed

lemma refresh_lease_guards: "guard.keeps grants (refresh_lease sv force notify)"
  unfolding guard.keeps_def by (rule spec_weaken [OF refresh_lease_spec]) (rule refreshed_guards)

lemma guards_entries [simp]:
  "guards grants [Store_Generation u go]" "guards grants [Store_Check u h r a]" "guards grants [Wrote f fd ok]"
  "guards grants [Store_Grant i m gen k]" "guards grants [Store_Revoke u ho m k]" "guards grants [Prompt_Locked n]"
  "guards grants [Prompt_Released n]" "guards grants [Consent m pr]" "guards grants [Emitted e ok]" "guards grants [Relay_Did as]"
  "guards grants [Reserved b ok]" "guards grants [Released b]" "guards grants [Dispatched rt f]" "guards grants []"
  "guards grants [Observed rl f res]" "guards grants [Answered res]" "guards grants [Source_Started lane]" "guards grants [Source_Stopped lane]"
  by (simp_all add: guards_def)

lemma forward_event_guards: "guard.keeps grants (forward_event sv opcode payload)"
  by (simp add: forward_event_def forward_public_guards)

lemma forward_response_guards: "guard.keeps grants (forward_response sv request status detail diagnostic tail chained)"
  unfolding forward_response_def by (intro guard.keeps_rules forward_public_guards)

lemma still_same_guards: "guard.keeps grants (still_same f i)"
  unfolding guard.keeps_def by (rule spec_weaken [OF still_same_spec]) simp

lemma identity_refresh_guards: "guard.keeps grants (session_identity_refresh sv)"
proof -
  have "guard.keeps grants (leased_identity_refresh sv)"
    unfolding guard.keeps_def leased_identity_refresh_def lease_lock_def lease_unlock_def
    by (rule specI) (auto simp: wp_simps guards_def intro!: wp_any)
  then show ?thesis
    unfolding session_identity_refresh_def by (intro guard.keeps_rules still_same_guards) simp_all
qed

lemma send_revoked_guards: "guard.keeps grants (send_revoked sv scopes)"
  unfolding send_revoked_def by (intro guard.keeps_rules forward_event_guards)

lemma refresh_failed_guards: "guard.keeps grants (refresh_failed sv notify)"
  unfolding refresh_failed_def by (intro guard.keeps_rules send_revoked_guards)

lemma refresh_unleased_guards: "guard.keeps grants (refresh_unleased sv force notify)"
  unfolding refresh_unleased_def store_generation_def store_check_def
  by (intro guard.keeps_rules send_revoked_guards refresh_failed_guards identity_refresh_guards) simp_all

lemma session_refresh_guards: "guard.keeps grants (session_refresh sv force notify)"
  unfolding session_refresh_def by (intro guard.keeps_rules refresh_lease_guards refresh_unleased_guards)

lemmas session_guards = forward_public_guards forward_event_guards forward_response_guards still_same_guards
  identity_refresh_guards send_revoked_guards session_refresh_guards

end
