(* ===== verification/Authorization.thy ===== *)
theory Authorization
  imports Lease_Grants
begin

text \<open>
  Authorization (src/src/authorityd.c): asking the store and, if need be, the user for
  scopes, completing the lease with the outcome, and the administration of the stored
  grants. The consent dialog's waiting loop is a recursion over the rounds the process
  went through; a list that ends stands for the deadline.
\<close>

section \<open>Constants\<close>

definition KSD_ERROR_DETAIL_NO_AUTHENTICATION_AGENT :: u32 where
  [wire_defs]: "KSD_ERROR_DETAIL_NO_AUTHENTICATION_AGENT = 0x00010000"

definition KSD_PERMISSION_TARGET_HASH :: u32 where
  [wire_defs]: "KSD_PERMISSION_TARGET_HASH = 1"

definition KSD_PERMISSION_TARGET_PID :: u32 where
  [wire_defs]: "KSD_PERMISSION_TARGET_PID = 2"

definition KSD_PERMISSION_TARGET_ALL :: u32 where
  [wire_defs]: "KSD_PERMISSION_TARGET_ALL = 3"

definition no_authentication_agent :: bytes where
  "no_authentication_agent = ascii (''No polkit authentication agent is available for this session. ''
     @ ''Install and start your desktop authentication agent, then retry.'')"

section \<open>Asking the user\<close>

fun consent_loop :: "consent_wait list \<Rightarrow> ksp_polkit_result" where
  "consent_loop [] = KSP_POLKIT_UNAVAILABLE"
| "consent_loop (Consent_Exited code # waits) = (if code = Some 0 then KSP_POLKIT_GRANTED else KSP_POLKIT_DENIED)"
| "consent_loop (Consent_Round failed cancelled late # waits) =
     (if failed \<or> cancelled \<or> late then if cancelled then KSP_POLKIT_CANCELLED else KSP_POLKIT_UNAVAILABLE
      else consent_loop waits)"

definition user_consent :: "consent_facts \<Rightarrow> ksp_polkit_result" where
  "user_consent f =
     (if \<not> cf_program f \<or> \<not> cf_named f then KSP_POLKIT_UNAVAILABLE
      else if \<not> cf_started f then KSP_POLKIT_UNAVAILABLE
      else consent_loop (cf_waits f))"

definition decide :: "'w services \<Rightarrow> ksp_identity \<Rightarrow> u32 \<Rightarrow> ('w, ksp_polkit_result) authority" where
  "decide sv identity missing =
     (if sv_system sv then call (sv_polkit sv identity missing) (\<lambda>d. [Consent missing d])
      else do {
        facts \<leftarrow> call (sv_consent sv identity missing) (\<lambda>f. [Consent missing (user_consent f)]);
        return (user_consent facts) })"

definition decision_status :: "ksp_polkit_result \<Rightarrow> u32" where
  "decision_status decision =
     (if decision = KSP_POLKIT_DENIED then KSD_STATUS_DENIED
      else if decision = KSP_POLKIT_CANCELLED \<or> decision = KSP_POLKIT_IDENTITY_CHANGED then KSD_STATUS_CANCELLED
      else KSD_STATUS_UNAVAILABLE)"

section \<open>Authorizing scopes\<close>

definition session_check :: "'w services \<Rightarrow> ('w, u32 option) authority" where
  "session_check sv = do {
     session \<leftarrow> data;
     answer \<leftarrow> store_check sv (id_uid (ss_identity session)) (id_hash (ss_identity session)) (ss_requested_scopes session);
     case answer of None \<Rightarrow> return None
     | Some (allowed, generation) \<Rightarrow> do {
         update (\<lambda>ss. ss\<lparr>ss_generation := generation, ss_granted_scopes := allowed\<rparr>);
         return (Some allowed) }}"

text \<open>After the user agreed: record the grant, unless the store has moved on, and read it back.\<close>

definition record_grant :: "'w services \<Rightarrow> u32 \<Rightarrow> u32 \<Rightarrow> ('w, u32) authority" where
  "record_grant sv requested missing = do {
     session \<leftarrow> data;
     verified \<leftarrow> still_same (sv_revalidate sv (ss_identity session)) (ss_identity session);
     case verified of None \<Rightarrow> return KSD_STATUS_CANCELLED
     | Some v \<Rightarrow> do {
         added \<leftarrow> call (sv_grant sv v missing (ss_generation session)) (\<lambda>r. [Store_Grant v missing (ss_generation session) r]);
         if added \<noteq> 0 then return (if added > 0 then KSD_STATUS_REVOKED else KSD_STATUS_INTERNAL)
         else do {
           update (\<lambda>ss. ss\<lparr>ss_identity := v\<rparr>);
           answer \<leftarrow> session_check sv;
           return (case answer of None \<Rightarrow> KSD_STATUS_INTERNAL
             | Some allowed \<Rightarrow> if allowed AND requested = requested then KSD_STATUS_OK else KSD_STATUS_REVOKED) }}}"

text \<open>What happens while the prompt lock is held: status and detail.\<close>

definition prompt_user :: "'w services \<Rightarrow> u32 \<Rightarrow> ('w, u32 \<times> u32) authority" where
  "prompt_user sv requested = do {
     session \<leftarrow> data;
     verified \<leftarrow> still_same (sv_revalidate sv (ss_identity session)) (ss_identity session);
     case verified of None \<Rightarrow> return (KSD_STATUS_CANCELLED, 0)
     | Some v \<Rightarrow> do {
         update (\<lambda>ss. ss\<lparr>ss_identity := v\<rparr>);
         answer \<leftarrow> session_check sv;
         case answer of None \<Rightarrow> return (KSD_STATUS_INTERNAL, 0)
         | Some allowed \<Rightarrow>
             let missing = requested AND NOT allowed in
             if missing = 0 then return (KSD_STATUS_OK, 0)
             else do {
               decision \<leftarrow> decide sv v missing;
               if decision \<noteq> KSP_POLKIT_GRANTED then
                 return (decision_status decision,
                   if decision = KSP_POLKIT_NO_AGENT then KSD_ERROR_DETAIL_NO_AUTHENTICATION_AGENT else 0)
               else do { status \<leftarrow> record_grant sv requested missing; return (status, 0) }}}}"

text \<open>Status, detail and the scopes reported as granted.\<close>

definition authorize_scopes :: "'w services \<Rightarrow> u32 \<Rightarrow> u16 \<Rightarrow> ('w, u32 \<times> u32 \<times> u32) authority" where
  "authorize_scopes sv requested auth_mode = do {
     start \<leftarrow> data;
     let before = ss_granted_scopes start;
     if requested = 0 \<or> requested AND NOT KSD_DESKTOP_ACCEPTED_SCOPES \<noteq> 0
        \<or> auth_mode \<noteq> KSD_AUTH_CHECK \<and> auth_mode \<noteq> KSD_AUTH_REQUEST
     then return (KSD_STATUS_INVALID_REQUEST, 0, before)
     else do {
       update (\<lambda>ss. ss\<lparr>ss_requested_scopes := ss_requested_scopes ss OR requested\<rparr>);
       answer \<leftarrow> session_check sv;
       case answer of None \<Rightarrow> return (KSD_STATUS_INTERNAL, 0, before)
       | Some allowed \<Rightarrow>
           if allowed AND requested = requested then return (KSD_STATUS_OK, 0, allowed)
           else if auth_mode = KSD_AUTH_CHECK then return (KSD_STATUS_DENIED, 0, allowed)
           else do {
             session \<leftarrow> data;
             lock \<leftarrow> call (sv_prompt_lock sv (id_uid (ss_identity session)) (id_hash (ss_identity session)))
                       (\<lambda>n. [Prompt_Locked n]);
             if lock < 0 then do {
               gone \<leftarrow> disconnected sv;
               return (if gone then KSD_STATUS_CANCELLED else KSD_STATUS_INTERNAL, 0, before) }
             else do {
               (status, detail) \<leftarrow> prompt_user sv requested;
               _ \<leftarrow> call (\<lambda>w. ((), sv_prompt_release sv lock w)) (\<lambda>_. [Prompt_Released lock]);
               session \<leftarrow> data;
               return (status, detail, ss_granted_scopes session) }}}}"

section \<open>Completing the lease\<close>

text \<open>The store's answer for the completed lease: current, grants, generation.\<close>

definition completion_check :: "'w services \<Rightarrow> authority_lease \<Rightarrow> ('w, bool \<times> u32 \<times> u64) authority" where
  "completion_check sv lease =
     (if \<not> le_active lease then return (False, 0, le_generation lease)
      else do {
        verified \<leftarrow> still_same (sv_revalidate_cached sv (le_identity lease)) (le_identity lease);
        if verified = None then return (False, 0, le_generation lease)
        else if le_requested_scopes lease = 0 then do {
          current \<leftarrow> store_generation sv (id_uid (le_identity lease));
          return (case current of None \<Rightarrow> (False, 0, le_generation lease) | Some g \<Rightarrow> (True, 0, g)) }
        else do {
          answer \<leftarrow> store_check sv (id_uid (le_identity lease)) (id_hash (le_identity lease)) (le_requested_scopes lease);
          return (case answer of None \<Rightarrow> (False, 0, le_generation lease) | Some (granted, g) \<Rightarrow> (True, granted, g)) }})"

definition complete_authorization :: "'w services \<Rightarrow> u32 \<Rightarrow> u32 \<Rightarrow> ('w, bool \<times> u32) authority" where
  "complete_authorization sv requested status = do {
     session \<leftarrow> data;
     found \<leftarrow> lease_lock sv;
     let lease = found\<lparr>le_requested_scopes := le_requested_scopes found OR ss_requested_scopes session\<rparr>;
     (current, granted, generation) \<leftarrow> completion_check sv lease;
     let revoked = le_granted_scopes lease AND NOT granted;
     let changed = (le_granted_scopes lease \<noteq> granted);
     let lease' = narrow_domains revoked (lease\<lparr>le_granted_scopes := granted, le_generation := generation\<rparr>);
     update (\<lambda>ss. ss\<lparr>ss_requested_scopes := le_requested_scopes lease, ss_granted_scopes := granted, ss_generation := generation\<rparr>);
     (sent, lease'') \<leftarrow> (if changed then emit sv (grant_event granted revoked) (bump 4 lease') else return (True, lease'));
     lease_unlock sv (if current then lease'' else lease''\<lparr>le_active := False\<rparr>);
     return (current \<and> sent,
       if status = KSD_STATUS_OK \<and> granted AND requested \<noteq> requested then KSD_STATUS_REVOKED else status) }"

definition authorize_diagnostic :: "u32 \<Rightarrow> u32 \<Rightarrow> bytes" where
  "authorize_diagnostic status detail =
     (if detail = KSD_ERROR_DETAIL_NO_AUTHENTICATION_AGENT then no_authentication_agent
      else if status = KSD_STATUS_DENIED then ascii ''permission is not granted''
      else if status = KSD_STATUS_CANCELLED then ascii ''authorization was cancelled''
      else if status = KSD_STATUS_REVOKED then ascii ''permission changed during authorization''
      else if status = KSD_STATUS_INVALID_REQUEST then ascii ''invalid authorization scope or mode''
      else ascii ''authorization service unavailable'')"

text \<open>The mode and the scopes of an AUTHORIZE payload.\<close>

definition parse_authorize :: "ksd_frame \<Rightarrow> (u16 \<times> u32) option" where
  "parse_authorize request =
     (if fr_payload_length request \<noteq> 16 then None
      else Option.bind (ksd_cursor_u16 (ksd_cursor_init (payload_bytes request))) (\<lambda>(mode, cursor).
           Option.bind (ksd_cursor_u16 cursor) (\<lambda>(reserved0, cursor).
           Option.bind (ksd_cursor_u32 cursor) (\<lambda>(scopes, cursor).
           Option.bind (ksd_cursor_u64 cursor) (\<lambda>(reserved1, cursor).
             if ksd_cursor_finished cursor \<and> reserved0 = 0 \<and> reserved1 = 0 then Some (mode, scopes) else None)))))"

definition handle_authorize :: "'w services \<Rightarrow> ksd_frame \<Rightarrow> ('w, bool) authority" where
  "handle_authorize sv request =
     (case parse_authorize request of
        None \<Rightarrow> forward_response sv request KSD_STATUS_INVALID_REQUEST 0 (Some (ascii ''invalid AUTHORIZE payload'')) [] False
      | Some (mode, scopes) \<Rightarrow> do {
          session \<leftarrow> data;
          if ss_role session \<noteq> KSD_ROLE_AUTHORIZATION_LEASE then
            forward_response sv request KSD_STATUS_INVALID_REQUEST 0
              (Some (ascii ''authorization belongs to the lease connection'')) [] False
          else do {
            (ok, _) \<leftarrow> session_refresh sv True True;
            if \<not> ok then return False
            else do {
              (status, detail, _) \<leftarrow> authorize_scopes sv scopes mode;
              (completed, status) \<leftarrow> complete_authorization sv scopes status;
              if \<not> completed then return False
              else do {
                session \<leftarrow> data;
                if status \<noteq> KSD_STATUS_OK then
                  forward_response sv request status detail (Some (authorize_diagnostic status detail)) [] False
                else forward_response sv request KSD_STATUS_OK 0 None (ksd_encode_u32 (ss_granted_scopes session) @ replicate 4 0) False }}}})"

section \<open>Administration of the stored grants\<close>

fun send_entries :: "'w services \<Rightarrow> ksd_frame \<Rightarrow> store_entry list \<Rightarrow> ('w, bool) authority" where
  "send_entries sv request [] = return True"
| "send_entries sv request ((scopes, hash, granted_at, executable) # entries) =
     (let managed = scopes AND KSD_DESKTOP_MANAGED_SCOPES in
      if managed = 0 then send_entries sv request entries
      else
        let path = safe_path (sv_sanitize sv) executable;
            (ok, tail) = permission_tail (sv_alloc sv) managed granted_at (hash_to_raw hash) path (ksd_buffer_init (sv_path_capacity sv + 48))
        in if \<not> ok then return False
           else do {
             sent \<leftarrow> forward_response sv request KSD_STATUS_OK 0 None (buf_data tail) True;
             if sent then send_entries sv request entries else return False })"

definition permissions_list :: "'w services \<Rightarrow> ksd_frame \<Rightarrow> ('w, bool) authority" where
  "permissions_list sv request =
     (if fr_payload_length request \<noteq> 0 then
        forward_response sv request KSD_STATUS_INVALID_REQUEST 0 (Some (ascii ''permissions list payload must be empty'')) [] False
      else do {
        session \<leftarrow> data;
        entries \<leftarrow> call (sv_list sv (id_uid (ss_identity session))) (\<lambda>_. []);
        case entries of
          None \<Rightarrow> forward_response sv request KSD_STATUS_INTERNAL 0 (Some (ascii ''could not list permissions'')) [] False
        | Some entries \<Rightarrow> do {
            ok \<leftarrow> send_entries sv request entries;
            if ok then forward_response sv request KSD_STATUS_OK 0 None [] False else return False }})"

text \<open>The selector, the scopes, the process and the hash of a revocation.\<close>

definition parse_revoke :: "ksd_frame \<Rightarrow> (u32 \<times> u32 \<times> u64 \<times> bytes) option" where
  "parse_revoke request =
     (if fr_payload_length request \<noteq> 48 then None
      else Option.bind (ksd_cursor_u32 (ksd_cursor_init (payload_bytes request))) (\<lambda>(kind, cursor).
           Option.bind (ksd_cursor_u32 cursor) (\<lambda>(scopes, cursor).
           Option.bind (ksd_cursor_u64 cursor) (\<lambda>(pid, cursor).
           Option.bind (ksd_cursor_bytes 32 cursor) (\<lambda>(raw_hash, cursor).
             if ksd_cursor_finished cursor \<and> scopes \<noteq> 0 \<and> scopes AND NOT KSD_DESKTOP_MANAGED_SCOPES = 0
             then Some (kind, scopes, pid, raw_hash) else None)))))"

definition store_revoke :: "'w services \<Rightarrow> u32 \<Rightarrow> bytes \<Rightarrow> u32 \<Rightarrow> ('w, int) authority" where
  "store_revoke sv uid hash scopes = call (sv_revoke sv uid hash scopes) (\<lambda>r. [Store_Revoke uid (Some hash) scopes r])"

definition revoke_invalid :: "'w services \<Rightarrow> ksd_frame \<Rightarrow> ('w, bool) authority" where
  "revoke_invalid sv request =
     forward_response sv request KSD_STATUS_INVALID_REQUEST 0 (Some (ascii ''invalid permissions revoke selector'')) [] False"

definition revoke_finish :: "'w services \<Rightarrow> ksd_frame \<Rightarrow> int \<Rightarrow> ('w, bool) authority" where
  "revoke_finish sv request result =
     (if result \<noteq> 0 then
        forward_response sv request KSD_STATUS_INTERNAL 0 (Some (ascii ''could not revoke permissions'')) [] False
      else do {
        (ok, _) \<leftarrow> session_refresh sv True True;
        if \<not> ok then return False
        else forward_response sv request KSD_STATUS_OK 0 None [] False })"

definition permissions_revoke :: "'w services \<Rightarrow> ksd_frame \<Rightarrow> ('w, bool) authority" where
  "permissions_revoke sv request =
     (case parse_revoke request of
        None \<Rightarrow> forward_response sv request KSD_STATUS_INVALID_REQUEST 0 (Some (ascii ''invalid permissions revoke payload'')) [] False
      | Some (kind, scopes, pid, raw_hash) \<Rightarrow> do {
          session \<leftarrow> data;
          let uid = id_uid (ss_identity session);
          if kind = KSD_PERMISSION_TARGET_HASH then
            if pid \<noteq> 0 then revoke_invalid sv request
            else do { result \<leftarrow> store_revoke sv uid (raw_to_hash raw_hash) scopes; revoke_finish sv request result }
          else if kind = KSD_PERMISSION_TARGET_PID then
            if \<not> bytes_are_zero raw_hash \<or> pid = 0 \<or> pid > 0x7FFFFFFF then revoke_invalid sv request
            else do {
              target \<leftarrow> call (sv_identity_capture sv (ucast pid) uid) (\<lambda>_. []);
              case target of
                None \<Rightarrow> forward_response sv request KSD_STATUS_NOT_FOUND 0 (Some (ascii ''target process was not found'')) [] False
              | Some t \<Rightarrow> do { result \<leftarrow> store_revoke sv uid (id_hash t) scopes; revoke_finish sv request result }}
          else if kind = KSD_PERMISSION_TARGET_ALL then
            if pid \<noteq> 0 \<or> \<not> bytes_are_zero raw_hash then revoke_invalid sv request
            else do {
              result \<leftarrow> call (sv_revoke_uid sv uid scopes) (\<lambda>r. [Store_Revoke uid None scopes r]);
              revoke_finish sv request result }
          else revoke_invalid sv request })"

section \<open>What authorizing does\<close>

definition asked :: "authority_session \<Rightarrow> (u32 \<times> u64) option \<Rightarrow> event" where
  "asked d answer = Store_Check (id_uid (ss_identity d)) (id_hash (ss_identity d)) (ss_requested_scopes d) answer"

definition answered :: "u32 \<Rightarrow> u64 \<Rightarrow> authority_session \<Rightarrow> authority_session" where
  "answered allowed generation d = d\<lparr>ss_generation := generation, ss_granted_scopes := allowed\<rparr>"

inductive session_checked :: "authority_session \<Rightarrow> u32 option \<Rightarrow> authority_session \<Rightarrow> event list \<Rightarrow> bool" for d where
  none: "session_checked d None d [asked d None]"
| some: "session_checked d (Some allowed) (answered allowed generation d) [asked d (Some (allowed, generation))]"

lemma session_check_spec: "spec (session_check sv) session_checked"
  unfolding session_check_def store_check_def
  by (rule specI, unfold wp_simps, rule wp_any)
     (auto simp: wp_simps asked_def answered_def session_checked.simps split: option.splits)

text \<open>Recording a grant: the process must still be the same, and the store decides by the generation.\<close>

inductive grant_recorded :: "u32 \<Rightarrow> u32 \<Rightarrow> authority_session \<Rightarrow> u32 \<Rightarrow> authority_session \<Rightarrow> event list \<Rightarrow> bool" for requested missing d where
  changed: "grant_recorded requested missing d KSD_STATUS_CANCELLED d []"
| refused: "r \<noteq> 0 \<Longrightarrow> same_identity (ss_identity d) v \<Longrightarrow>
    grant_recorded requested missing d (if r > 0 then KSD_STATUS_REVOKED else KSD_STATUS_INTERNAL) d [Store_Grant v missing (ss_generation d) r]"
| lost: "same_identity (ss_identity d) v \<Longrightarrow> session_checked (d\<lparr>ss_identity := v\<rparr>) None d' cs \<Longrightarrow>
    grant_recorded requested missing d KSD_STATUS_INTERNAL d' (Store_Grant v missing (ss_generation d) 0 # cs)"
| granted: "same_identity (ss_identity d) v \<Longrightarrow> session_checked (d\<lparr>ss_identity := v\<rparr>) (Some allowed) d' cs \<Longrightarrow>
    status = (if allowed AND requested = requested then KSD_STATUS_OK else KSD_STATUS_REVOKED) \<Longrightarrow>
    grant_recorded requested missing d status d'
      (Store_Grant v missing (ss_generation d) 0 # cs)"

lemma still_same_identity:
  "spec (still_same f i) (\<lambda>d x d' es. d' = d \<and> es = [] \<and> (\<forall>v. x = Some v \<longrightarrow> same_identity i v))"
  unfolding still_same_def
  by (rule specI, unfold wp_simps, rule wp_any) (simp add: wp_simps split: option.splits)

lemma record_grant_spec: "spec (record_grant sv requested missing) (grant_recorded requested missing)"
proof (rule specI, goal_cases)
  case (1 s)
  show ?case
    unfolding record_grant_def wp_simps
  proof (rule spec_wp [OF still_same_identity], goal_cases)
    case (1 v d w es)
    show ?case
    proof (cases v)
      case None
      with 1 show ?thesis by (simp add: wp_simps grant_recorded.changed)
    next
      case (Some i)
      with 1 have same: "same_identity (ss_identity (rn_data s)) i" "d = rn_data s" "es = []" by simp_all
      show ?thesis unfolding Some option.simps
      proof (rule wp_any, goal_cases)
        case (1 r w')
        show ?case
        proof (cases "r = 0")
          case True
          then show ?thesis using same
            by (auto simp: wp_simps intro!: spec_wp [OF session_check_spec] grant_recorded.lost grant_recorded.granted split: option.splits)
        next
          case False
          then show ?thesis using grant_recorded.refused [OF False same(1)] same(2,3) by (simp add: wp_simps)
        qed
      qed
    qed
  qed
qed

text \<open>Under the prompt lock: the state of the store is read again, and only what is missing is asked for.\<close>

inductive prompted :: "u32 \<Rightarrow> authority_session \<Rightarrow> u32 \<times> u32 \<Rightarrow> authority_session \<Rightarrow> event list \<Rightarrow> bool" for requested d where
  gone: "prompted requested d (KSD_STATUS_CANCELLED, 0) d []"
| lost: "same_identity (ss_identity d) v \<Longrightarrow> session_checked (d\<lparr>ss_identity := v\<rparr>) None d' cs \<Longrightarrow>
    prompted requested d (KSD_STATUS_INTERNAL, 0) d' cs"
| present: "same_identity (ss_identity d) v \<Longrightarrow> session_checked (d\<lparr>ss_identity := v\<rparr>) (Some allowed) d' cs \<Longrightarrow>
    requested AND NOT allowed = 0 \<Longrightarrow> prompted requested d (KSD_STATUS_OK, 0) d' cs"
| declined: "same_identity (ss_identity d) v \<Longrightarrow> session_checked (d\<lparr>ss_identity := v\<rparr>) (Some allowed) d' cs \<Longrightarrow>
    decision \<noteq> KSP_POLKIT_GRANTED \<Longrightarrow>
    prompted requested d (decision_status decision,
      if decision = KSP_POLKIT_NO_AGENT then KSD_ERROR_DETAIL_NO_AUTHENTICATION_AGENT else 0) d'
      (cs @ [Consent (requested AND NOT allowed) decision])"
| agreed: "same_identity (ss_identity d) v \<Longrightarrow> session_checked (d\<lparr>ss_identity := v\<rparr>) (Some allowed) d' cs \<Longrightarrow>
    missing = requested AND NOT allowed \<Longrightarrow> missing \<noteq> 0 \<Longrightarrow> grant_recorded requested missing d' status d'' gs \<Longrightarrow>
    prompted requested d (status, 0) d'' (cs @ Consent missing KSP_POLKIT_GRANTED # gs)"

lemma decide_spec: "spec (decide sv i missing) (\<lambda>d x d' es. d' = d \<and> es = [Consent missing x])"
  unfolding decide_def by (rule specI) (auto simp: wp_simps intro!: wp_any)

lemma prompt_user_spec: "spec (prompt_user sv requested) (prompted requested)"
proof (rule specI, goal_cases)
  case (1 s)
  show ?case
    unfolding prompt_user_def wp_simps
  proof (rule spec_wp [OF still_same_identity], goal_cases)
    case (1 v d w es)
    show ?case
    proof (cases v)
      case None
      with 1 show ?thesis by (simp add: wp_simps prompted.gone)
    next
      case (Some i)
      with 1 have same: "same_identity (ss_identity (rn_data s)) i" "d = rn_data s" "es = []" by simp_all
      show ?thesis unfolding Some option.simps wp_simps
      proof (rule spec_wp [OF session_check_spec], goal_cases)
        case (1 x d' w' cs)
        then have c: "session_checked (rn_data s\<lparr>ss_identity := i\<rparr>) x d' cs" using same by simp
        show ?case
        proof (cases x)
          case None
          then show ?thesis using prompted.lost [OF same(1)] c same by (simp add: wp_simps)
        next
          case (Some allowed)
          note c = c [unfolded Some]
          show ?thesis unfolding Some option.simps Let_def
          proof (cases "requested AND NOT allowed = 0", goal_cases)
            case 1
            then show ?case using prompted.present [OF same(1) c] same by (simp add: wp_simps)
          next
            case 2
            show ?case unfolding if_not_P [OF 2] wp_simps
            proof (rule spec_wp [OF decide_spec], goal_cases)
              case (1 decision e w'' ds)
              show ?case
              proof (cases "decision = KSP_POLKIT_GRANTED")
                case True
                with 1 same show ?thesis
                  by (auto simp: wp_simps intro!: spec_wp [OF record_grant_spec] prompted.agreed [OF same(1) c refl 2])
              next
                case False
                with 1 same show ?thesis using prompted.declined [OF same(1) c False] by (simp add: wp_simps)
              qed
            qed
          qed
        qed
      qed
    qed
  qed
qed

definition requesting :: "u32 \<Rightarrow> authority_session \<Rightarrow> authority_session" where
  "requesting requested d = d\<lparr>ss_requested_scopes := ss_requested_scopes d OR requested\<rparr>"

inductive authorized :: "u32 \<Rightarrow> u16 \<Rightarrow> authority_session \<Rightarrow> u32 \<times> u32 \<times> u32 \<Rightarrow> authority_session \<Rightarrow> event list \<Rightarrow> bool"
  for requested mode d where
  invalid: "authorized requested mode d (KSD_STATUS_INVALID_REQUEST, 0, ss_granted_scopes d) d []"
| unread: "session_checked (requesting requested d) None d' cs \<Longrightarrow>
    authorized requested mode d (KSD_STATUS_INTERNAL, 0, ss_granted_scopes d) d' cs"
| held: "session_checked (requesting requested d) (Some allowed) d' cs \<Longrightarrow> allowed AND requested = requested \<Longrightarrow>
    authorized requested mode d (KSD_STATUS_OK, 0, allowed) d' cs"
| denied: "session_checked (requesting requested d) (Some allowed) d' cs \<Longrightarrow> mode = KSD_AUTH_CHECK \<Longrightarrow>
    authorized requested mode d (KSD_STATUS_DENIED, 0, allowed) d' cs"
| unlocked: "session_checked (requesting requested d) (Some allowed) d' cs \<Longrightarrow> n < 0 \<Longrightarrow>
    status = KSD_STATUS_CANCELLED \<or> status = KSD_STATUS_INTERNAL \<Longrightarrow>
    authorized requested mode d (status, 0, ss_granted_scopes d) d' (cs @ [Prompt_Locked n])"
| asked_user: "session_checked (requesting requested d) (Some allowed) d' cs \<Longrightarrow> mode = KSD_AUTH_REQUEST \<Longrightarrow> n \<ge> 0 \<Longrightarrow>
    prompted requested d' (status, detail) d'' ps \<Longrightarrow>
    authorized requested mode d (status, detail, ss_granted_scopes d'') d'' (cs @ Prompt_Locked n # ps @ [Prompt_Released n])"

lemma authorize_scopes_spec: "spec (authorize_scopes sv requested mode) (authorized requested mode)"
proof (rule specI, goal_cases)
  case (1 s)
  let ?d = "rn_data s"
  let ?bad = "requested = 0 \<or> requested AND NOT KSD_DESKTOP_ACCEPTED_SCOPES \<noteq> 0 \<or> mode \<noteq> KSD_AUTH_CHECK \<and> mode \<noteq> KSD_AUTH_REQUEST"
  show ?case
  proof (cases ?bad)
    case True
    then show ?thesis unfolding authorize_scopes_def Let_def wp_simps if_P [OF True] by (simp add: authorized.invalid)
  next
    case False
    then have mode: "mode \<noteq> KSD_AUTH_CHECK \<Longrightarrow> mode = KSD_AUTH_REQUEST" by blast
    show ?thesis unfolding authorize_scopes_def Let_def wp_simps if_not_P [OF False]
    proof (rule spec_wp [OF session_check_spec], goal_cases)
      case (1 x d w cs)
      then have c: "session_checked (requesting requested ?d) x d cs" by (simp add: requesting_def)
      show ?case
      proof (cases x)
        case None
        with c show ?thesis using authorized.unread by (simp add: wp_simps)
      next
        case (Some allowed)
        note c = c [unfolded Some]
        show ?thesis
        proof (cases "allowed AND requested = requested \<or> mode = KSD_AUTH_CHECK")
          case True
          then show ?thesis unfolding Some using authorized.held [OF c] authorized.denied [OF c] by (auto simp: wp_simps)
        next
          case False
          then have m: "mode = KSD_AUTH_REQUEST" using mode by blast
          from False have no: "allowed AND requested \<noteq> requested" "mode \<noteq> KSD_AUTH_CHECK" by blast+
          show ?thesis unfolding Some option.simps if_not_P [OF no(1)] if_not_P [OF no(2)] wp_simps
          proof (rule wp_any, goal_cases)
            case (1 n w')
            show ?case
            proof (cases "n < 0")
              case True
              then show ?thesis unfolding if_P [OF True] disconnected_def wp_simps
                by (auto intro!: wp_any authorized.unlocked [OF c] simp: wp_simps)
            next
              case False
              show ?thesis unfolding if_not_P [OF False] wp_simps
              proof (rule spec_wp [OF prompt_user_spec], goal_cases)
                case (1 y d' w'' ps)
                then show ?case using authorized.asked_user [OF c m, of n "fst y" "snd y" d' ps] False
                  by (cases y) (auto intro!: wp_any simp: wp_simps)
              qed
            qed
          qed
        qed
      qed
    qed
  qed
qed

definition is_grant :: "event \<Rightarrow> bool" where
  "is_grant e = (case e of Store_Grant v m g r \<Rightarrow> True | _ \<Rightarrow> False)"

lemma is_grant_simps [simp]:
  "is_grant (Store_Grant v m g r)" "\<not> is_grant (Prompt_Locked n)" "\<not> is_grant (Prompt_Released n)"
  "\<not> is_grant (Consent m c)" "\<not> is_grant (asked d answer)"
  by (simp_all add: is_grant_def asked_def)

lemma session_checked_events:
  "session_checked d x d' cs \<Longrightarrow> filter is_grant cs = []" "session_checked d x d' cs \<Longrightarrow> Prompt_Released n \<notin> set cs"
  by (erule session_checked.cases; simp add: asked_def is_grant_def)+

lemma grant_recorded_events:
  "grant_recorded requested missing d status d' gs \<Longrightarrow> gs = [] \<or> (\<exists>v r cs. gs = Store_Grant v missing (ss_generation d) r # cs
     \<and> same_identity (ss_identity d) v \<and> filter is_grant cs = [] \<and> (\<forall>n. Prompt_Released n \<notin> set cs))"
  by (erule grant_recorded.cases) (auto dest: session_checked_events)

text \<open>The only entry with a property marks one place of a list.\<close>

lemma unique_split:
  assumes "xs @ a # ys = pre @ b # post" "P b" "filter P xs = []" "filter P ys = []"
  shows "pre = xs \<and> b = a \<and> post = ys"
  using assms
proof (induction xs arbitrary: pre)
  case Nil
  then show ?case by (cases pre) (auto simp: filter_empty_conv)
next
  case (Cons x xs)
  then show ?case by (cases pre) (auto split: if_splits)
qed

lemma no_grant_split: "filter is_grant es = [] \<Longrightarrow> es \<noteq> pre @ Store_Grant v m g r # post"
  by auto

text \<open>The entries around a grant, if there is one.\<close>

inductive grant_run :: "u32 \<Rightarrow> event list \<Rightarrow> bool" for requested where
  grant_run: "filter is_grant after = [] \<Longrightarrow> (\<And>n. Prompt_Released n \<notin> set after) \<Longrightarrow> m = requested AND NOT had \<Longrightarrow>
    grant_run requested (Store_Check (id_uid v) (id_hash v) all (Some (had, g)) # Consent m KSP_POLKIT_GRANTED # Store_Grant v m g r # after)"

lemma prompted_grant:
  assumes "prompted requested d x d' ps"
  shows "filter is_grant ps = [] \<or> grant_run requested ps"
  using assms
proof cases
  case (agreed v allowed d1 cs missing status gs)
  note none = session_checked_events(1) [OF agreed(4)]
  consider "gs = []" | v' r cs' where "gs = Store_Grant v' missing (ss_generation d1) r # cs'"
    "same_identity (ss_identity d1) v'" "filter is_grant cs' = []" "\<And>n. Prompt_Released n \<notin> set cs'"
    using grant_recorded_events [OF agreed(7)] by blast
  then show ?thesis
  proof cases
    case 1
    then show ?thesis using none agreed(2) by simp
  next
    case 2
    obtain all where "cs = [Store_Check (id_uid v') (id_hash v') all (Some (allowed, ss_generation d1))]"
      using agreed(4) 2(2) agreed(3) by cases (auto simp: asked_def answered_def same_identity_def)
    then show ?thesis using grant_run.intros [OF 2(3,4) agreed(5)] agreed(2) 2(1) by simp
  qed
next
  case (declined v allowed cs decision)
  then show ?thesis using session_checked_events(1) [OF declined(4)] by simp
qed (auto dest: session_checked_events)

lemma authorized_grant:
  assumes "authorized requested mode d x d' es" "filter is_grant es \<noteq> []"
  obtains cs n ps where "es = cs @ Prompt_Locked n # ps @ [Prompt_Released n]" "n \<ge> 0" "mode = KSD_AUTH_REQUEST"
    "filter is_grant cs = []" "grant_run requested ps"
  using assms(1)
proof cases
  case (asked_user allowed d1 cs n status detail ps)
  note none = session_checked_events(1) [OF asked_user(3)]
  have "filter is_grant ps \<noteq> []" using assms(2) none asked_user(2) by auto
  then show thesis using that [OF asked_user(2,5,4) none] prompted_grant [OF asked_user(6)] by blast
next
  case (unlocked allowed cs n status)
  then show thesis using assms(2) session_checked_events(1) [OF unlocked(3)] by simp
qed (use assms(2) in \<open>auto dest: session_checked_events\<close>)

text \<open>
  C3: A grant is written to the store only for scopes the user has just agreed to. The
  client must have asked for a prompt, and the steps come in this order: the prompt lock is
  taken; under it the store is asked what the process has and at which generation; the user
  agrees to exactly the scopes granted, which are the requested ones the process did not
  have; the grant is written at the generation read under the lock, so that a revocation
  in between wins. The lock is released after that, and not before.
\<close>

theorem grant_needs_consent:
  assumes "run_state (authorize_scopes sv requested mode) s = (x, t)"
  shows "\<exists>es. rn_log t = rn_log s @ es \<and> (\<forall>pre v m g r post. es = pre @ Store_Grant v m g r # post \<longrightarrow>
      mode = KSD_AUTH_REQUEST \<and> (\<exists>before n all had after. n \<ge> 0
      \<and> pre = before @ [Prompt_Locked n, Store_Check (id_uid v) (id_hash v) all (Some (had, g)), Consent m KSP_POLKIT_GRANTED]
      \<and> m = requested AND NOT had
      \<and> post = after @ [Prompt_Released n] \<and> (\<forall>k. Prompt_Released k \<notin> set after)))"
proof -
  obtain es where es: "rn_log t = rn_log s @ es" "authorized requested mode (rn_data s) x (rn_data t) es"
    using spec_run [OF authorize_scopes_spec assms] by blast
  have "mode = KSD_AUTH_REQUEST \<and> (\<exists>before n all had after. n \<ge> 0
      \<and> pre = before @ [Prompt_Locked n, Store_Check (id_uid v) (id_hash v) all (Some (had, g)), Consent m KSP_POLKIT_GRANTED]
      \<and> m = requested AND NOT had \<and> post = after @ [Prompt_Released n] \<and> (\<forall>k. Prompt_Released k \<notin> set after))"
    if split: "es = pre @ Store_Grant v m g r # post" for pre v m g r post
  proof -
    have "filter is_grant es \<noteq> []" by (simp add: split)
    from authorized_grant [OF es(2) this] obtain cs n ps where a: "es = cs @ Prompt_Locked n # ps @ [Prompt_Released n]"
      "n \<ge> 0" "mode = KSD_AUTH_REQUEST" "filter is_grant cs = []" "grant_run requested ps" by blast
    from a(5) show ?thesis
    proof cases
      case (grant_run after m' had v' all g' r')
      let ?pre = "cs @ [Prompt_Locked n, Store_Check (id_uid v') (id_hash v') all (Some (had, g')), Consent m' KSP_POLKIT_GRANTED]"
      have "?pre @ Store_Grant v' m' g' r' # (after @ [Prompt_Released n]) = pre @ Store_Grant v m g r # post"
        using split a(1) grant_run(1) by simp
      from unique_split [OF this, of is_grant]
      have "pre = ?pre" "m = m'" "g = g'" "v = v'" "post = after @ [Prompt_Released n]"
        using a(4) grant_run(2) by (simp_all add: is_grant_def)
      then show ?thesis using a(2,3) grant_run(3,4) by blast
    qed
  qed
  then show ?thesis using es(1) by blast
qed

lemma sample_authorize:
  "fst (run_state (authorize_scopes sample_services 8 KSD_AUTH_REQUEST) (sample_start 4)) = (KSD_STATUS_OK, 0, 8)"
  "rn_log (snd (run_state (authorize_scopes sample_services 8 KSD_AUTH_REQUEST) (sample_start 4))) =
     [Store_Check 1000 (replicate 64 97) 8 (Some (0, 11)), Prompt_Locked 3,
      Store_Check 1000 (replicate 64 97) 8 (Some (0, 11)), Consent 8 KSP_POLKIT_GRANTED] @ Store_Grant sample_identity 8 11 0 #
     [Store_Check 1000 (replicate 64 97) 8 (Some (8, 19)), Prompt_Released 3]"
  by (simp_all add: authorize_scopes_def session_check_def store_check_def prompt_user_def still_same_def record_grant_def decide_def
        run_simps sample_start_def sample_session_def sample_identity_def same_identity_def wire_defs)

theorem grant_needs_consent_witness:
  "\<exists>before n all had after. n \<ge> 0
     \<and> rn_log (snd (run_state (authorize_scopes sample_services 8 KSD_AUTH_REQUEST) (sample_start 4)))
       = (before @ [Prompt_Locked n, Store_Check (id_uid sample_identity) (id_hash sample_identity) all (Some (had, 11)), Consent 8 KSP_POLKIT_GRANTED])
         @ Store_Grant sample_identity 8 11 0 # after @ [Prompt_Released n]
     \<and> 8 = 8 AND NOT had"
proof -
  obtain x t where r: "run_state (authorize_scopes sample_services 8 KSD_AUTH_REQUEST) (sample_start 4) = (x, t)"
    by (rule prod.exhaust)
  note log = sample_authorize(2) [unfolded r snd_conv]
  have "rn_log (sample_start 4) = []" by (simp add: sample_start_def)
  with grant_needs_consent [OF r] log show ?thesis unfolding r snd_conv by (metis append_Nil)
qed

section \<open>What an authorized session holds\<close>

text \<open>The grants of the session are what the store has for its identity at its generation.\<close>

definition session_backed :: "grant_history \<Rightarrow> authority_session \<Rightarrow> bool" where
  "session_backed grants d \<longleftrightarrow> scopes_in (ss_granted_scopes d)
     (ss_requested_scopes d AND grants (id_uid (ss_identity d)) (id_hash (ss_identity d)) (ss_generation d))"

lemma session_checked_backed:
  assumes "session_checked d (Some allowed) d' cs" "store_honest grants cs"
  shows "session_backed grants d'" "ss_granted_scopes d' = allowed"
  using assms by (cases; simp add: session_backed_def answered_def asked_def store_honest_def)+

lemma subset_of_missing: "requested AND NOT allowed = 0 \<Longrightarrow> allowed AND requested = (requested :: u32)"
proof -
  assume "requested AND NOT allowed = 0"
  moreover have "(requested AND allowed) OR (requested AND NOT allowed) = requested" by (simp flip: bit.conj_disj_distrib)
  ultimately show ?thesis by (simp add: and.commute)
qed

lemma prompted_ok:
  assumes "prompted requested d (KSD_STATUS_OK, detail) d' ps" "store_honest grants ps"
  shows "session_backed grants d' \<and> scopes_in requested (ss_granted_scopes d')"
  using assms
proof cases
  case (present v allowed)
  note b = session_checked_backed [OF present(3) assms(2)]
  then show ?thesis using subset_of_missing [OF present(4)] by (simp add: scopes_in_def and.commute)
next
  case (declined v allowed cs decision)
  then show ?thesis by (auto simp: decision_status_def wire_defs split: if_splits)
next
  case (agreed v allowed d1 cs missing gs)
  have h: "store_honest grants gs" using assms(2) agreed(2) by (simp add: store_honest_def)
  from agreed(7) show ?thesis
  proof cases
    case (granted w allowed' es)
    have "store_honest grants es" using h granted(1) by (simp add: store_honest_def)
    note b = session_checked_backed [OF granted(3) this]
    show ?thesis using b granted(4) by (auto simp: scopes_in_def and.commute wire_defs split: if_splits)
  qed (auto simp: wire_defs split: if_splits)
qed (simp_all add: wire_defs)

lemma authorized_ok:
  assumes "authorized requested mode d (KSD_STATUS_OK, detail, granted) d' es" "store_honest grants es"
  shows "scopes_in requested (ss_granted_scopes d') \<and> session_backed grants d' \<and> granted = ss_granted_scopes d'"
  using assms
proof cases
  case held
  note b = session_checked_backed [OF held(2) assms(2)]
  then show ?thesis using held by (simp add: scopes_in_def and.commute)
next
  case (asked_user allowed d' cs n ps)
  then have "store_honest grants ps" using assms(2) by (simp add: store_honest_def)
  from prompted_ok [OF asked_user(6) this] show ?thesis using asked_user(1) by simp
qed (auto simp: wire_defs)

text \<open>
  C4: When authorization succeeds, the scopes that were requested are granted: the session
  holds all of them, and what it holds was granted by the store to the session's own
  application at the generation the session records.
\<close>

theorem authorization_sound:
  assumes "run_state (authorize_scopes sv requested mode) s = ((KSD_STATUS_OK, detail, granted), t)"
    and "rn_log s = []" and "store_honest grants (rn_log t)"
  shows "scopes_in requested (ss_granted_scopes (rn_data t)) \<and> session_backed grants (rn_data t)
    \<and> granted = ss_granted_scopes (rn_data t)"
proof -
  obtain es where "rn_log t = es" "authorized requested mode (rn_data s) (KSD_STATUS_OK, detail, granted) (rn_data t) es"
    using spec_run [OF authorize_scopes_spec assms(1)] assms(2) by auto
  then show ?thesis using authorized_ok assms(3) by blast
qed

theorem authorization_sound_witness:
  "\<exists>t. run_state (authorize_scopes sample_services 8 KSD_AUTH_REQUEST) (sample_start 4) = ((KSD_STATUS_OK, 0, 8), t)
     \<and> scopes_in 8 (ss_granted_scopes (rn_data t)) \<and> session_backed sample_grants (rn_data t)"
proof -
  obtain x t where r: "run_state (authorize_scopes sample_services 8 KSD_AUTH_REQUEST) (sample_start 4) = (x, t)"
    by (rule prod.exhaust)
  have x: "x = (KSD_STATUS_OK, 0, 8)" and log: "rn_log t = [Store_Check 1000 (replicate 64 97) 8 (Some (0, 11)), Prompt_Locked 3,
      Store_Check 1000 (replicate 64 97) 8 (Some (0, 11)), Consent 8 KSP_POLKIT_GRANTED, Store_Grant sample_identity 8 11 0,
      Store_Check 1000 (replicate 64 97) 8 (Some (8, 19)), Prompt_Released 3]"
    using sample_authorize unfolding r by simp_all
  have "store_honest sample_grants (rn_log t)" by (auto simp: log store_honest_def sample_grants_def)
  from authorization_sound [OF r [unfolded x] _ this] show ?thesis using r x by (simp add: sample_start_def)
qed

section \<open>Leases stay backed\<close>

text \<open>What the completed lease is told by the store.\<close>

inductive completion_checked :: "authority_lease \<Rightarrow> bool \<Rightarrow> u32 \<Rightarrow> u64 \<Rightarrow> event list \<Rightarrow> bool" for lease where
  failed: "(\<And>e. e \<in> set cs \<Longrightarrow> (\<exists>u g. e = Store_Generation u g) \<or> (\<exists>u h r. e = Store_Check u h r None)) \<Longrightarrow>
    completion_checked lease False 0 (le_generation lease) cs"
| idle: "le_requested_scopes lease = 0 \<Longrightarrow> completion_checked lease True 0 g [Store_Generation (id_uid (le_identity lease)) (Some g)]"
| checked: "completion_checked lease True granted g
    [Store_Check (id_uid (le_identity lease)) (id_hash (le_identity lease)) (le_requested_scopes lease) (Some (granted, g))]"

lemma completion_check_spec:
  "spec (completion_check sv lease) (\<lambda>d (current, granted, generation) d' es. d' = d \<and> completion_checked lease current granted generation es)"
  unfolding completion_check_def store_generation_def store_check_def
  by (rule specI)
     (auto simp: wp_simps completion_checked.intros intro!: wp_any spec_wp [OF still_same_spec] completion_checked.failed split: option.splits)

lemma completion_backed:
  assumes "completion_checked lease current granted generation cs" "store_honest grants cs"
  shows "backed grants (lease\<lparr>le_granted_scopes := granted, le_generation := generation\<rparr>)"
  using assms by cases (simp_all add: backed_def lease_grants_def store_honest_def)

lemma completion_events:
  assumes "completion_checked lease current granted generation cs"
  shows "Lease_Unlocked l \<notin> set cs" "Lease_Locked l \<notin> set cs"
  using assms by (cases; force)+

text \<open>
  The completion leaves the lease with the scopes it now asks for, the store's answer and
  the session agreeing with it.
\<close>

inductive completed :: "u32 \<Rightarrow> u32 \<Rightarrow> authority_session \<Rightarrow> bool \<times> u32 \<Rightarrow> authority_session \<Rightarrow> event list \<Rightarrow> bool" for requested status d where
  completed: "asking = found\<lparr>le_requested_scopes := le_requested_scopes found OR ss_requested_scopes d\<rparr> \<Longrightarrow>
    completion_checked asking current granted generation cs \<Longrightarrow>
    told = asking\<lparr>le_granted_scopes := granted, le_generation := generation\<rparr> \<Longrightarrow>
    d' = d\<lparr>ss_requested_scopes := le_requested_scopes asking, ss_granted_scopes := granted, ss_generation := generation\<rparr> \<Longrightarrow>
    status' = (if status = KSD_STATUS_OK \<and> granted AND requested \<noteq> requested then KSD_STATUS_REVOKED else status) \<Longrightarrow>
    (\<And>e. e \<in> set ems \<Longrightarrow> \<exists>v ok. e = Emitted v ok) \<Longrightarrow>
    (\<And>grants. backed grants told \<Longrightarrow> backed grants left) \<Longrightarrow>
    (current \<and> sent \<Longrightarrow> le_granted_scopes left = granted \<and> le_active left = le_active found) \<Longrightarrow>
    completed requested status d (current \<and> sent, status') d' (Lease_Locked found # cs @ ems @ [Lease_Unlocked left])"

lemma narrow_domains_simps [simp]:
  "le_granted_scopes (narrow_domains r l) = le_granted_scopes l" "le_active (narrow_domains r l) = le_active l"
  "le_granted_scopes (bump i l) = le_granted_scopes l" "le_active (bump i l) = le_active l"
  by (simp_all add: narrow_domains_def bump_def Let_def)

lemma complete_authorization_spec: "spec (complete_authorization sv requested status) (completed requested status)"
proof (rule specI, goal_cases)
  case (1 s)
  show ?case
    unfolding complete_authorization_def lease_lock_def lease_unlock_def wp_simps
  proof (rule wp_any, rule spec_wp [OF completion_check_spec], goal_cases)
    case (1 found w x d w' cs)
    let ?asking = "found\<lparr>le_requested_scopes := le_requested_scopes found OR ss_requested_scopes (rn_data s)\<rparr>"
    obtain current granted generation where x: "x = (current, granted, generation)" by (cases x)
    with 1 have c: "completion_checked ?asking current granted generation cs" "d = rn_data s" by simp_all
    let ?told = "?asking\<lparr>le_granted_scopes := granted, le_generation := generation\<rparr>"
    let ?revoked = "le_granted_scopes ?asking AND NOT granted"
    let ?status = "if status = KSD_STATUS_OK \<and> granted AND requested \<noteq> requested then KSD_STATUS_REVOKED else status"
    show ?case
    proof (cases "le_granted_scopes ?asking \<noteq> granted")
      case True
      show ?thesis unfolding x prod.case if_P [OF True]
      proof (rule spec_wp [OF emit_spec], goal_cases)
        case (1 y d' w'' es)
        obtain sent base where y: "y = (sent, base)" by force
        show ?case unfolding y prod.case
          apply (rule wp_any)
          using 1 c(2) completed.completed [OF refl c(1) refl refl refl, where ems = es and sent = sent and status = status
              and requested = requested and left = "if current then base else base\<lparr>le_active := False\<rparr>"]
          by (auto simp: wp_simps y)
      qed
    next
      case False
      show ?thesis unfolding x prod.case if_not_P [OF False] wp_simps
        apply (rule wp_any)
        using c(2) completed.completed [OF refl c(1) refl refl refl, where ems = "[]" and sent = True and status = status
            and requested = requested and left = "if current then narrow_domains ?revoked ?told else (narrow_domains ?revoked ?told)\<lparr>le_active := False\<rparr>"]
        by (auto simp: wp_simps)
    qed
  qed
qed

lemma completed_guards:
  assumes "completed requested status d x d' es"
  shows "guards grants es"
  using assms
proof cases
  case (completed asking found current granted generation cs told status' ems left sent)
  have "backed grants left" if "store_honest grants es"
  proof -
    have "store_honest grants cs" using that completed(2) by (simp add: store_honest_def)
    then show ?thesis using completed(5,9) completion_backed [OF completed(4), of grants] by simp
  qed
  then show ?thesis
    using completion_events(1) [OF completed(4)] completed(2,8) by (fastforce simp: guards_def)
qed

lemma complete_authorization_guards: "guard.keeps grants (complete_authorization sv requested status)"
  unfolding guard.keeps_def by (rule spec_weaken [OF complete_authorization_spec]) (rule completed_guards)

lemma session_check_guards: "guard.keeps grants (session_check sv)"
  unfolding session_check_def store_check_def by (intro guard.keeps_rules) simp_all

lemma record_grant_guards: "guard.keeps grants (record_grant sv requested missing)"
  unfolding record_grant_def by (intro guard.keeps_rules still_same_guards session_check_guards) simp_all

lemma decide_guards: "guard.keeps grants (decide sv i missing)"
  unfolding decide_def by (intro guard.keeps_rules) simp_all

lemma authorize_scopes_guards: "guard.keeps grants (authorize_scopes sv requested mode)"
  unfolding authorize_scopes_def prompt_user_def disconnected_def
  by (intro guard.keeps_rules still_same_guards session_check_guards record_grant_guards decide_guards) simp_all

lemma handle_authorize_guards: "guard.keeps grants (handle_authorize sv request)"
  unfolding handle_authorize_def
  by (intro guard.keeps_rules session_guards authorize_scopes_guards complete_authorization_guards)

lemma send_entries_guards: "guard.keeps grants (send_entries sv request entries)"
proof (induction entries)
  case (Cons e entries)
  then show ?case by (cases e) (simp only: send_entries.simps, intro guard.keeps_rules session_guards)
qed (simp add: guard.keeps_return)

lemma permissions_list_guards: "guard.keeps grants (permissions_list sv request)"
  unfolding permissions_list_def by (intro guard.keeps_rules session_guards send_entries_guards) simp_all

lemma permissions_revoke_guards: "guard.keeps grants (permissions_revoke sv request)"
  unfolding permissions_revoke_def revoke_invalid_def revoke_finish_def store_revoke_def
  by (intro guard.keeps_rules session_guards) simp_all

lemmas authorization_guards = authorize_scopes_guards complete_authorization_guards handle_authorize_guards
  permissions_list_guards permissions_revoke_guards

end
