(* ===== verification/Worker_Wire.thy ===== *)
theory Worker_Wire
  imports Capture_Worker Responses
begin

text \<open>
  The wire between the authority and its workers: what one end writes, the other end reads
  back. The worker's environment holds each name once, the answers of a worker reach the
  relay unchanged, and the bootstrap a worker starts from is the one the authority built.
\<close>

section \<open>A variable is read when it is set exactly once\<close>

lemma env_entry:
  assumes "0 \<notin> set entry"
  shows "takeWhile (\<lambda>b. b \<noteq> 0) (entry @ 0 # rest) = entry" "drop (Suc (length entry)) (entry @ 0 # rest) = rest"
  using assms by (auto simp: takeWhile_append)

lemma env_scan_step:
  assumes "0 \<notin> set entry"
  shows "worker_env_scan name (entry @ 0 # rest) found =
    (if matching_entry name entry then
       if found \<noteq> None then None else worker_env_scan name rest (Some (drop (Suc (length name)) entry))
     else worker_env_scan name rest found)"
  by (subst worker_env_scan.simps) (simp add: env_entry [OF assms])

definition terminated :: "bytes list \<Rightarrow> bytes" where
  "terminated entries = concat (map (\<lambda>entry. entry @ [0]) entries)"

lemma env_scan_block:
  assumes "\<forall>entry\<in>set entries. 0 \<notin> set entry" "0 \<notin> set left"
  shows "worker_env_scan name (terminated entries @ left) found =
    (if left \<noteq> [] then None
     else case (found, filter (matching_entry name) entries) of
       (_, []) \<Rightarrow> found | (None, [entry]) \<Rightarrow> Some (drop (Suc (length name)) entry) | _ \<Rightarrow> None)"
  using assms(1)
proof (induction entries arbitrary: found)
  case Nil
  then show ?case using assms(2) by (subst worker_env_scan.simps) (simp add: terminated_def split: option.split)
next
  case (Cons entry entries)
  have step: "worker_env_scan name (terminated (entry # entries) @ left) found =
    (if matching_entry name entry then
       if found \<noteq> None then None else worker_env_scan name (terminated entries @ left) (Some (drop (Suc (length name)) entry))
     else worker_env_scan name (terminated entries @ left) found)"
    using env_scan_step [of entry] Cons.prems by (simp add: terminated_def)
  show ?case unfolding step using Cons
    by (cases "matching_entry name entry"; cases found) (auto split: list.splits)
qed

text \<open>
  A worker's environment holds a variable exactly when one entry sets it. The scan of a
  block of complete entries gives the value of a name that one entry sets, and nothing for
  a name that no entry or more than one sets; a block whose last entry does not end gives
  nothing at all.
\<close>

theorem worker_environment_unique:
  assumes "\<forall>entry\<in>set entries. 0 \<notin> set entry" "0 \<notin> set left"
  shows "worker_environment_value (terminated entries @ left) name =
    (if left \<noteq> [] then None
     else case filter (matching_entry name) entries of [entry] \<Rightarrow> Some (drop (Suc (length name)) entry) | _ \<Rightarrow> None)"
  unfolding worker_environment_value_def env_scan_block [OF assms] by (simp split: list.splits)

theorem worker_environment_unique_witness:
  "worker_environment_value (terminated [ascii ''A=1'', ascii ''B=2''] @ []) (ascii ''B'') = Some (ascii ''2'')"
proof -
  have "filter (matching_entry (ascii ''B'')) [ascii ''A=1'', ascii ''B=2''] = [ascii ''B=2'']" by code_simp
  moreover have "\<forall>entry\<in>set [ascii ''A=1'', ascii ''B=2'']. 0 \<notin> set entry" by code_simp
  ultimately show ?thesis by (subst worker_environment_unique) (simp_all add: ascii_def)
qed

section \<open>The answer of a one-shot worker is read back\<close>

lemma worker_message_layout:
  assumes "length diagnostic \<le> 1024"
  shows "worker_message status detail tail_length diagnostic =
    worker_magic @ ksd_encode_u16 KSD_CAPTURE_WORKER_VERSION @ replicate 2 0 @ ksd_encode_u32 status @ ksd_encode_u32 detail
    @ ksd_encode_u32 tail_length @ ksd_encode_u32 (of_nat (length diagnostic)) @ diagnostic @ replicate (1024 - length diagnostic) 0"
proof -
  have m: "length worker_magic = 4" by (simp add: worker_magic_def)
  have s: "KSD_CAPTURE_WORKER_RESPONSE_SIZE = 1048" by (simp add: wire_defs)
  show ?thesis unfolding worker_message_def s by (simp add: put_at_def m assms)
qed

lemma marked_byte: "bit k 7 \<Longrightarrow> (ucast (k OR x :: u32) :: u8) \<noteq> 0"
proof
  assume k: "bit k 7" and z: "(ucast (k OR x :: u32) :: u8) = 0"
  have "bit (ucast (k OR x :: u32) :: u8) 7" using k by (simp add: bit_ucast_iff bit_or_iff)
  then show False unfolding z by simp
qed

lemma utf8_encode_no_nul: "c \<noteq> 0 \<Longrightarrow> 0 \<notin> set (utf8_encode c)"
proof (cases "c < 0x80")
  case True
  moreover assume "c \<noteq> 0"
  ultimately have "unat c < 128" "unat c \<noteq> 0" by (simp_all add: word_less_nat_alt unat_eq_0)
  then have "unat (ucast c :: u8) \<noteq> 0" by (simp add: unsigned_ucast_eq take_bit_eq_mod)
  then have "(ucast c :: u8) \<noteq> 0" by (auto simp: unat_eq_0)
  with True show ?thesis by (simp add: utf8_encode_ascii)
next
  case False
  have "bit (0xC0 :: u32) 7" "bit (0x80 :: u32) 7" "bit (0xE0 :: u32) 7" "bit (0xF0 :: u32) 7" by code_simp+
  note m = this [THEN marked_byte]
  from False show ?thesis unfolding utf8_encode_def by (auto dest: m [THEN notE, rotated] simp: eq_commute [of 0])
qed

lemma utf8_no_nul: "ksd_utf8_valid s False \<Longrightarrow> 0 \<notin> set s"
  using utf8_valid_sound [of s False] utf8_encode_no_nul by auto

text \<open>A diagnostic that is presentable text is kept whole.\<close>

lemma result_error_kept:
  assumes "ksd_utf8_valid d False" "length d < KSD_DIAGNOSTIC_CAPACITY"
  shows "ksd_result_error ksd_result_init status detail (Some d) =
    (ksd_result_init\<lparr>res_status := status, res_detail := detail, res_diagnostic := d\<rparr>, [])"
proof -
  have c: "cstring d = d" using cstring_id utf8_no_nul [OF assms(1)] by blast
  have n: "min (length d) 1023 = length d" using assms(2) by (simp add: wire_defs)
  have "trim_utf8 d (length d) = length d" using assms(1) by (cases "length d") simp_all
  then have "res_diagnostic (fst (ksd_result_error ksd_result_init status detail (Some d))) = d"
    unfolding result_error_diagnostic c n by simp
  then show ?thesis
    by (auto simp: ksd_result_error_def release_payload_fd_def ksd_result_init_def Let_def)
qed

text \<open>What is left of a result on the way through a worker's answer.\<close>

definition carried :: "bytes \<Rightarrow> int \<Rightarrow> ksd_operation_result \<Rightarrow> ksd_operation_result" where
  "carried fallback fd r =
     (if res_status r = KSD_STATUS_OK
      then ksd_result_init\<lparr>res_status := KSD_STATUS_OK, res_tail := (if fd \<ge> 0 then None else res_tail r),
             res_tail_length := res_tail_length r, res_payload_fd := fd\<rparr>
      else ksd_result_init\<lparr>res_status := res_status r, res_detail := res_detail r,
             res_diagnostic := (if res_diagnostic r = [] then fallback else res_diagnostic r)\<rparr>)"

text \<open>
  C23: What a worker that serves one request answers is what the authority reads. When the
  answer went out, the authority accepts it and ends up with the status of the worker, the
  diagnostic and detail of an error, and the descriptor of the sealed file with the tail of
  a success, provided the file holds a capture.
\<close>

theorem worker_response_round_trip:
  assumes "send_worker_response file created filled sent r = (Some (message, fd), closed)" "result_wf r"
    and "(fd' \<ge> 0) = (fd \<ge> 0)" "fd' \<ge> - 1"
    and "fd \<ge> 0 \<Longrightarrow> sealed_capture_file fd' (res_tail_length r) file' \<and> kf_map file' = Some content
      \<and> ksd_capture_tail_valid content (res_tail_length r)"
  shows "receive_worker_response (Some (message, fd', file')) ksd_result_init
    = (True, carried (ascii ''capture worker failed'') fd' r, [])"
proof -
  let ?d = "if res_status r = KSD_STATUS_OK then [] else res_diagnostic r"
  let ?n = "if res_status r = KSD_STATUS_OK then res_tail_length r else 0"
  have wf: "length (res_diagnostic r) < 1024" "ksd_utf8_valid (res_diagnostic r) False"
    using assms(2) by (simp_all add: result_wf_def wire_defs)
  have m: "message = worker_message (res_status r) (res_detail r) ?n ?d" "worker_valid_status (res_status r)"
    "(fd \<ge> 0) = (res_status r = KSD_STATUS_OK \<and> res_tail_length r \<noteq> 0)"
    "res_status r = KSD_STATUS_OK \<Longrightarrow> res_tail_length r = 0 \<Longrightarrow> res_tail r = None"
    using assms(1) by (auto simp: send_worker_response_def Let_def split: if_splits)
  have len: "unat (of_nat (length ?d) :: u32) = length ?d" using wf(1) by (intro unat_of_nat_small) auto
  have g: "length worker_magic = 4" by (simp add: worker_magic_def)
  have lay: "message = worker_magic @ ksd_encode_u16 KSD_CAPTURE_WORKER_VERSION @ replicate 2 0 @ ksd_encode_u32 (res_status r)
      @ ksd_encode_u32 (res_detail r) @ ksd_encode_u32 ?n @ ksd_encode_u32 (of_nat (length ?d)) @ ?d @ replicate (1024 - length ?d) 0"
    unfolding m(1) by (rule worker_message_layout) (use wf(1) in simp)
  have z: "ksd_decode_u16 (replicate 2 0 @ rest) = 0" for rest by (simp add: ksd_decode_u16_def numeral_2_eq_2)
  have parts: "take 4 message = worker_magic" "ksd_decode_u16 (drop 4 message) = KSD_CAPTURE_WORKER_VERSION"
    "ksd_decode_u16 (drop 6 message) = 0" "ksd_decode_u32 (drop 8 message) = res_status r"
    "ksd_decode_u32 (drop 12 message) = res_detail r" "ksd_decode_u32 (drop 16 message) = ?n"
    "unat (ksd_decode_u32 (drop 20 message)) = length ?d" "take (length ?d) (drop 24 message) = ?d"
    unfolding lay by (simp_all add: g z len)
  have ok: "ksd_utf8_valid ?d False" "length ?d < KSD_DIAGNOSTIC_CAPACITY" using wf by (simp_all add: wire_defs)
  have fb: "ksd_utf8_valid (ascii ''capture worker failed'') False" "length (ascii ''capture worker failed'') < KSD_DIAGNOSTIC_CAPACITY"
    by (code_simp, simp add: wire_defs)
  note receive = receive_worker_response_def option.case prod.case parts Let_def
  show ?thesis
  proof (cases "res_status r = KSD_STATUS_OK")
    case True
    with m assms(3-5) show ?thesis unfolding receive
      by (auto simp: carried_def ksd_result_take_def ksd_result_take_fd_def release_payload_fd_def ksd_result_init_def
          sealed_capture_file_def worker_valid_status_def wire_defs)
  next
    case False
    with m(2,3) assms(3) ok fb show ?thesis unfolding receive
      by (auto simp: carried_def result_error_kept)
  qed
qed

section \<open>The answer of a worker that stays is read back through the relay\<close>

definition answer_tail :: "ksd_operation_result \<Rightarrow> bytes" where
  "answer_tail r =
     (if res_status r = KSD_STATUS_OK
      then if res_payload_fd r \<ge> 0 then ksd_encode_u32 (res_tail_length r) else (case res_tail r of None \<Rightarrow> [] | Some t \<Rightarrow> t)
      else res_diagnostic r)"

definition tail_exact :: "ksd_operation_result \<Rightarrow> bool" where
  "tail_exact r \<longleftrightarrow> (case res_tail r of None \<Rightarrow> True | Some t \<Rightarrow> t \<noteq> [] \<and> length t = unat (res_tail_length r))"

lemma answer_payload_bytes:
  assumes "answer_payload alloc r = (True, b)" "result_wf r" "tail_exact r"
  shows "buf_data b = ksd_encode_u32 (res_status r) @ ksd_encode_u32 (res_detail r) @ answer_tail r"
proof -
  let ?fd = "res_status r = KSD_STATUS_OK \<and> res_payload_fd r \<ge> 0"
  let ?t = "if res_status r = KSD_STATUS_OK then (case res_tail r of None \<Rightarrow> [] | Some t \<Rightarrow> t) else res_diagnostic r"
  let ?n = "if res_status r = KSD_STATUS_OK then unat (res_tail_length r) else length (res_diagnostic r)"
  have tail: "take ?n ?t = ?t" if "\<not> ?fd" using assms(3) by (auto simp: tail_exact_def split: option.splits)
  have none: "?t = []" if "\<not> ?fd" "?n = 0"
    using that assms(2,3) by (auto simp: result_wf_def tail_exact_def unat_eq_0 split: option.splits if_splits)
  let ?act = "\<lambda>payload. if ?fd then ksd_buffer_u32 alloc (res_tail_length r) payload
      else if ?n = 0 then (True, payload) else ksd_buffer_bytes alloc (take ?n ?t) payload"
  have act: "writes alloc ?act (answer_tail r)"
  proof (cases ?fd)
    case True
    then show ?thesis by (simp add: answer_tail_def writes_u32)
  next
    case False
    then have t: "answer_tail r = ?t" by (auto simp: answer_tail_def)
    show ?thesis
    proof (cases "?n = 0")
      case True
      then have "?act = (\<lambda>payload. (True, payload))" "answer_tail r = []" using False t none by auto
      then show ?thesis by (simp only: writes_nothing)
    next
      case n: False
      then have "?act = ksd_buffer_bytes alloc (answer_tail r)" using False tail unfolding t by auto
      then show ?thesis by (simp only: writes_bytes)
    qed
  qed
  have "writes alloc (\<lambda>b. and_then (and_then (ksd_buffer_u32 alloc (res_status r) b) (ksd_buffer_u32 alloc (res_detail r))) ?act)
      ((ksd_encode_u32 (res_status r) @ ksd_encode_u32 (res_detail r)) @ answer_tail r)"
    by (intro writes_and_then writes_u32 act)
  from writes_init(1) [OF this, of "if ?fd then 12 else ?n + 8" b] assms(1) show ?thesis
    by (simp add: answer_payload_def Let_def)
qed

lemma serve_answer_bytes:
  assumes "serve_answer alloc r k = Some (out, fd)" "result_wf r" "tail_exact r" "length (answer_tail r) \<le> KSD_MAX_TEXT_BYTES"
  defines "payload \<equiv> ksd_encode_u32 (res_status r) @ ksd_encode_u32 (res_detail r) @ answer_tail r"
  shows "out = encode_frame_header (answer_frame r k payload) @ payload" and "fd = (if res_status r = KSD_STATUS_OK \<and> res_payload_fd r \<ge> 0 then res_payload_fd r else - 1)"
    and "unat (of_nat (length payload) :: u32) = length (answer_tail r) + 8"
proof -
  obtain b b' where b: "answer_payload alloc r = (True, b)" "buf_data b' = out"
      "ksd_frame_pack alloc (answer_frame r k (buf_data b)) (ksd_buffer_init (length (buf_data b) + KSD_FRAME_HEADER_SIZE + 16)) = (True, b')"
    using assms(1) by (auto simp: serve_answer_def Let_def split: prod.splits if_splits)
  have wf: "buffer_wf (ksd_buffer_init n)" "buf_data (ksd_buffer_init n) = []" for n by (simp_all add: buffer_wf_def ksd_buffer_init_def)
  have data: "buf_data b = payload" unfolding payload_def by (rule answer_payload_bytes [OF b(1) assms(2,3)])
  have "length payload = length (answer_tail r) + 8" by (simp add: payload_def)
  moreover have "length payload < 2 ^ 32" using assms(4) by (simp add: payload_def wire_defs)
  ultimately show len: "unat (of_nat (length payload) :: u32) = length (answer_tail r) + 8"
    using unat_of_nat_small [of "length payload", where ?'a = 32] by simp
  have "payload_bytes (answer_frame r k payload) = payload"
    using len by (simp add: payload_bytes_def answer_frame_def payload_def)
  then show "out = encode_frame_header (answer_frame r k payload) @ payload"
    using frame_pack_ok [OF wf(1) b(3)] b(2) wf(2) data by simp
  show "fd = (if res_status r = KSD_STATUS_OK \<and> res_payload_fd r \<ge> 0 then res_payload_fd r else - 1)"
    using assms(1) by (auto simp: serve_answer_def Let_def split: prod.splits if_splits)
qed

text \<open>
  C24: What a worker that stays answers is what the caller of the relay gets. The bytes the
  worker writes for a result are read by the relay as a response with the id of the
  request, and the result of the call has the status of the worker's result, the tail or
  the descriptor of a success and the detail and diagnostic of an error.
\<close>

theorem worker_answer_read:
  assumes "serve_answer alloc r k = Some (out, fd)" "result_wf r" "tail_exact r" "length (answer_tail r) \<le> KSD_MAX_TEXT_BYTES"
    and "in_wait i = Wait_Ready" "in_header i = Some (take 24 out, fd')" "in_body i = Some (drop 24 out)" "(fd' \<ge> 0) = (fd \<ge> 0)" "fd' \<ge> - 1"
    and "fd \<ge> 0 \<Longrightarrow> sealed_capture_file fd' (res_tail_length r) \<lparr>kf_stat = in_stat i, kf_seals = in_seals i, kf_map = None\<rparr>"
  shows "\<exists>response. read_response i = Read_Response response \<and> rsp_request_id response = k
    \<and> response_result True response = carried (ascii ''the compositor refused the operation'') fd' r"
proof -
  define payload where "payload = ksd_encode_u32 (res_status r) @ ksd_encode_u32 (res_detail r) @ answer_tail r"
  let ?f = "answer_frame r k payload"
  let ?file = "res_status r = KSD_STATUS_OK \<and> res_payload_fd r \<ge> 0"
  note out = serve_answer_bytes [OF assms(1-4), folded payload_def]
  have mg: "length (fr_magic ?f) = 4" by (simp add: answer_frame_def public_magic_def)
  have split: "take 24 out = encode_frame_header ?f" "drop 24 out = payload" using mg by (simp_all add: out(1))
  have slices: "slice 0 4 (take 24 out) = relay_magic"
    "ksd_decode_u16 (slice KSD_FRAME_MAJOR_OFFSET 2 (take 24 out)) = KSD_PROTOCOL_MAJOR"
    "ksd_decode_u16 (slice KSD_FRAME_MINOR_OFFSET 2 (take 24 out)) = KSD_PROTOCOL_MINOR"
    "ksd_decode_u16 (slice KSD_FRAME_FLAGS_OFFSET 2 (take 24 out)) = (if ?file then KSD_RELAY_CAPTURE_FD else 0)"
    "ksd_decode_u32 (slice KSD_FRAME_PAYLOAD_LENGTH_OFFSET 4 (take 24 out)) = of_nat (length payload)"
    "ksd_decode_u64 (slice KSD_FRAME_REQUEST_ID_OFFSET 8 (take 24 out)) = k"
    unfolding split(1) encode_frame_header_eq [OF mg]
    by (simp_all add: slice_def answer_frame_def public_magic_def relay_magic_def wire_defs)
  have body: "ksd_decode_u32 payload = res_status r" "ksd_decode_u32 (drop 4 payload) = res_detail r" "drop 8 payload = answer_tail r"
    by (simp_all add: payload_def)
  have len: "unat (of_nat (length payload) :: u32) = length (answer_tail r) + 8" by (rule out(3))
  then have minus: "unat (of_nat (length payload) - 8 :: u32) = length (answer_tail r)"
    by (simp add: unat_sub_if' word_le_nat_alt)
  have ge: "\<not> (of_nat (length payload) :: u32) < 8" using len by (simp add: word_less_nat_alt)
  note read = read_response_def assms(5-7) wait_result.case option.case prod.case slices split(2) body Let_def
  have flag: "KSD_RELAY_CAPTURE_FD \<noteq> 0" by (simp add: wire_defs)
  show ?thesis
  proof (cases ?file)
    case True
    then have tail: "answer_tail r = ksd_encode_u32 (res_tail_length r)" by (simp add: answer_tail_def)
    have p12: "(of_nat (length payload) :: u32) = 12" using len by (simp add: tail word_unat_eq_iff)
    have fd: "fd' \<ge> 0" "sealed_capture_file fd' (res_tail_length r) \<lparr>kf_stat = in_stat i, kf_seals = in_seals i, kf_map = None\<rparr>"
      using assms(8,10) out(2) True by simp_all
    show ?thesis using True fd p12 flag unfolding read
      by (auto simp: tail sealed_capture_file_def carried_def response_result_def ksd_result_init_def wire_defs split: option.splits)
  next
    case False
    then have fd: "fd' = - 1" using assms(8,9) out(2) by auto
    have small: "unat (of_nat (length payload) :: u32) \<le> KSD_MAX_TEXT_BYTES + 8" using len assms(4) by simp
    have zero: "(of_nat (length payload) - 8 :: u32) = 0 \<longleftrightarrow> answer_tail r = []" using minus by (auto simp: word_unat_eq_iff)
    obtain response where response: "read_response i = Read_Response response" "rsp_request_id response = k" "\<not> rsp_file response"
        "rsp_status response = res_status r" "rsp_detail response = res_detail r" "rsp_tail response = answer_tail r"
        "rsp_tail_length response = of_nat (length payload) - 8"
      using small ge fd False flag unfolding read by (simp add: minus)
    have "response_result True response = carried (ascii ''the compositor refused the operation'') fd' r"
    proof (cases "res_status r = KSD_STATUS_OK")
      case True
      have "rsp_tail_length response = res_tail_length r" "answer_tail r = [] \<longleftrightarrow> res_tail r = None"
        "answer_tail r \<noteq> [] \<Longrightarrow> res_tail r = Some (answer_tail r)"
        using True False assms(2,3) minus response(7)
        by (auto simp: word_unat_eq_iff answer_tail_def tail_exact_def result_wf_def split: option.splits)
      then show ?thesis using True response zero fd
        by (auto simp: response_result_def carried_def ksd_result_init_def)
    next
      case error: False
      then have "answer_tail r = res_diagnostic r" by (simp add: answer_tail_def)
      moreover have "ksd_utf8_valid (ascii ''the compositor refused the operation'') False" by code_simp
      ultimately show ?thesis using error response zero assms(2)
        by (auto simp: response_result_def carried_def result_error_kept result_wf_def wire_defs)
    qed
    with response show ?thesis by blast
  qed
qed

section \<open>The message that starts a worker is read back\<close>

lemma writes_u16: "writes alloc (ksd_buffer_u16 alloc v) (ksd_encode_u16 v)"
  using writes_bytes [of alloc "ksd_encode_u16 v"] by (simp add: ksd_buffer_u16_def [abs_def])

lemma writes_put_all:
  assumes "\<And>x. writes alloc (put alloc x) (enc x)"
  shows "writes alloc (put_all put alloc xs) (concat (map enc xs))"
proof (induction xs)
  case Nil
  then show ?case using writes_nothing [of alloc] by (simp add: put_all.simps(1) [abs_def])
next
  case (Cons x xs)
  have "put_all put alloc (x # xs) = (\<lambda>b. and_then (put alloc x b) (put_all put alloc xs))" by (rule ext) simp
  then show ?case using writes_and_then [OF assms Cons.IH] by simp
qed

definition bootstrap_bytes :: "u32 \<Rightarrow> u32 \<Rightarrow> u32 list \<Rightarrow> bytes \<Rightarrow> i32 \<Rightarrow> u32 \<Rightarrow> bool \<Rightarrow> bytes" where
  "bootstrap_bytes uid gid groups frame pid backend persistent =
     worker_magic @ ksd_encode_u16 KSD_CAPTURE_WORKER_VERSION @ ksd_encode_u16 (ucast backend) @ ksd_encode_u32 uid @ ksd_encode_u32 gid
     @ ksd_encode_u32 (of_nat (length groups)) @ ksd_encode_u32 (of_nat (length frame)) @ ksd_encode_u32 pid
     @ ksd_encode_u32 (if persistent then 1 else 0) @ concat (map ksd_encode_u32 groups) @ frame"

lemma bootstrap_sent:
  assumes "send_bootstrap alloc uid gid groups request pid backend persistent = Some out"
  obtains frame where "bootstrap_frame alloc request = Some frame" "out = bootstrap_bytes uid gid groups frame pid backend persistent"
    "length groups \<le> 256" "persistent = (request = None)"
proof -
  obtain frame b where f: "bootstrap_frame alloc request = Some frame" "out = buf_data b" "length groups \<le> 256" "persistent = (request = None)"
      "and_then (and_then (and_then (and_then (and_then (and_then (and_then (and_then (and_then (and_then
                    (ksd_buffer_bytes alloc worker_magic (ksd_buffer_init KSD_CAPTURE_WORKER_BOOTSTRAP_MAX))
                    (ksd_buffer_u16 alloc KSD_CAPTURE_WORKER_VERSION))
                    (ksd_buffer_u16 alloc (ucast backend)))
                    (ksd_buffer_u32 alloc uid))
                    (ksd_buffer_u32 alloc gid))
                    (ksd_buffer_u32 alloc (of_nat (length groups))))
                    (ksd_buffer_u32 alloc (of_nat (length frame))))
                    (ksd_buffer_u32 alloc pid))
                    (ksd_buffer_u32 alloc (if persistent then 1 else 0)))
                    (put_all ksd_buffer_u32 alloc groups))
                    (ksd_buffer_bytes alloc frame) = (True, b)"
    using assms by (auto simp: send_bootstrap_def wire_defs split: if_splits option.splits prod.splits)
  let ?act = "\<lambda>b. and_then (and_then (and_then (and_then (and_then (and_then (and_then (and_then (and_then (and_then
      (ksd_buffer_bytes alloc worker_magic b) (ksd_buffer_u16 alloc KSD_CAPTURE_WORKER_VERSION)) (ksd_buffer_u16 alloc (ucast backend)))
      (ksd_buffer_u32 alloc uid)) (ksd_buffer_u32 alloc gid)) (ksd_buffer_u32 alloc (of_nat (length groups))))
      (ksd_buffer_u32 alloc (of_nat (length frame)))) (ksd_buffer_u32 alloc pid)) (ksd_buffer_u32 alloc (if persistent then 1 else 0)))
      (put_all ksd_buffer_u32 alloc groups)) (ksd_buffer_bytes alloc frame)"
  have "writes alloc ?act ((((((((((worker_magic @ ksd_encode_u16 KSD_CAPTURE_WORKER_VERSION) @ ksd_encode_u16 (ucast backend)) @ ksd_encode_u32 uid)
      @ ksd_encode_u32 gid) @ ksd_encode_u32 (of_nat (length groups))) @ ksd_encode_u32 (of_nat (length frame))) @ ksd_encode_u32 pid)
      @ ksd_encode_u32 (if persistent then 1 else 0)) @ concat (map ksd_encode_u32 groups)) @ frame)"
    by (intro writes_and_then writes_bytes writes_u16 writes_u32 writes_put_all)
  from writes_init(1) [OF this f(5)]
  have "out = bootstrap_bytes uid gid groups frame pid backend persistent" by (simp add: f(2) bootstrap_bytes_def)
  with f that show thesis by blast
qed

lemma group_read:
  "i < length groups \<Longrightarrow> ksd_decode_u32 (drop (i * 4) (concat (map ksd_encode_u32 groups) @ rest)) = groups ! i"
proof (induction groups arbitrary: i)
  case (Cons g groups)
  then show ?case by (cases i) simp_all
qed simp

lemma length_groups [simp]: "length (concat (map ksd_encode_u32 groups)) = length groups * 4"
  by (induction groups) simp_all

text \<open>A request the worker of a backend may be started with.\<close>

definition startable :: "u32 \<Rightarrow> ksd_frame \<Rightarrow> bool" where
  "startable backend f \<longleftrightarrow> frame_wf f
     \<and> frame_header_acceptable f public_magic KSD_PROTOCOL_MAJOR KSD_PROTOCOL_MINOR (of_nat KSD_CAPTURE_WORKER_MAX_REQUEST) True
     \<and> fr_flags f = 0 \<and> fr_request_id f \<noteq> 0 \<and> (display_request_valid backend f \<or> ksd_local_capture_request_valid f)"

lemma bootstrap_frame_length:
  assumes "bootstrap_frame alloc request = Some frame" "\<And>f. request = Some f \<Longrightarrow> startable backend f"
  shows "case request of None \<Rightarrow> frame = [] | Some f \<Rightarrow> length frame = 24 + unat (fr_payload_length f) \<and> unat (fr_payload_length f) \<le> 4096"
proof (cases request)
  case (Some f)
  obtain b where b: "ksd_frame_pack alloc f (ksd_buffer_init (KSD_FRAME_HEADER_SIZE + KSD_CAPTURE_WORKER_MAX_REQUEST)) = (True, b)"
      "frame = buf_data b" "unat (fr_payload_length f) \<le> KSD_CAPTURE_WORKER_MAX_REQUEST"
    using assms(1) Some by (auto simp: bootstrap_frame_def split: prod.splits if_splits)
  have wf: "frame_wf f" using assms(2) Some by (simp add: startable_def)
  have "buffer_wf (ksd_buffer_init n)" "buf_data (ksd_buffer_init n) = []" for n by (simp_all add: buffer_wf_def ksd_buffer_init_def)
  then show ?thesis using frame_pack_ok [OF _ b(1)] b(2,3) Some wf length_payload_bytes [OF wf] by (simp add: frame_wf_def wire_defs)
qed (use assms(1) in \<open>simp add: bootstrap_frame_def\<close>)

text \<open>
  C22: A worker is started with what the authority sent. The header the worker parses has
  the user, the groups, the session and the backend of the message, and a worker for one
  request executes the request of the message.
\<close>

theorem worker_bootstrap_round_trip:
  assumes "send_bootstrap alloc uid gid groups request pid backend persistent = Some out"
    and "sint pid > 0" "backend \<le> KSD_BACKEND_X11" "\<And>f. request = Some f \<Longrightarrow> startable backend f"
  shows "\<exists>header. parse_bootstrap_header out = Some header \<and> wb_uid header = uid \<and> wb_gid header = gid \<and> wb_session_pid header = pid
    \<and> wb_backend header = backend \<and> wb_persistent header = persistent \<and> bootstrap_groups header out = groups
    \<and> (case request of None \<Rightarrow> True | Some f \<Rightarrow> bootstrap_request (\<lambda>_. True) header out = Some f)"
proof -
  obtain frame where frame: "bootstrap_frame alloc request = Some frame" "out = bootstrap_bytes uid gid groups frame pid backend persistent"
    "length groups \<le> 256" "persistent = (request = None)" using bootstrap_sent [OF assms(1)] by blast
  have n: "case request of None \<Rightarrow> frame = [] | Some f \<Rightarrow> length frame = 24 + unat (fr_payload_length f) \<and> unat (fr_payload_length f) \<le> 4096"
    by (rule bootstrap_frame_length [OF frame(1) assms(4)])
  then have small: "length frame \<le> 4120" "request \<noteq> None \<Longrightarrow> length frame \<ge> 24" "request = None \<Longrightarrow> frame = []"
    by (auto split: option.splits)
  have len: "unat (of_nat (length groups) :: u32) = length groups" "unat (of_nat (length frame) :: u32) = length frame"
    using frame(3) small(1) by (auto intro!: unat_of_nat_small)
  have m: "length worker_magic = 4" by (simp add: worker_magic_def)
  have "unat backend \<le> 5" using assms(3) by (simp add: word_le_nat_alt wire_defs)
  then have backend: "ucast (ucast backend :: u16) = backend"
    by (simp add: word_unat_eq_iff unsigned_ucast_eq unsigned_take_bit_eq take_bit_nat_eq_self)
  define header where "header = \<lparr>wb_uid = uid, wb_gid = gid, wb_group_count = of_nat (length groups), wb_frame_length = of_nat (length frame),
     wb_session_pid = pid, wb_backend = backend, wb_persistent = persistent\<rparr>"
  have parts: "take 4 out = worker_magic" "ksd_decode_u16 (drop 4 out) = KSD_CAPTURE_WORKER_VERSION"
    "ksd_decode_u16 (drop 6 out) = ucast backend" "ksd_decode_u32 (drop 8 out) = uid" "ksd_decode_u32 (drop 12 out) = gid"
    "ksd_decode_u32 (drop 16 out) = of_nat (length groups)" "ksd_decode_u32 (drop 20 out) = of_nat (length frame)"
    "ksd_decode_u32 (drop 24 out) = pid" "ksd_decode_u32 (drop 28 out) = (if persistent then 1 else 0)"
    "length out = 32 + length groups * 4 + length frame" "drop 32 out = concat (map ksd_encode_u32 groups) @ frame"
    by (simp_all add: frame(2) bootstrap_bytes_def m)
  have header: "parse_bootstrap_header out = Some header"
    unfolding parse_bootstrap_header_def parts backend Let_def
    using assms(2,3) frame(3,4) small by (auto simp: len header_def wire_defs)
  have groups: "bootstrap_groups header out = groups"
  proof (rule nth_equalityI)
    fix i
    assume i: "i < length (bootstrap_groups header out)"
    then have "i < length groups" by (simp add: bootstrap_groups_def header_def len)
    with group_read [OF this, of frame] show "bootstrap_groups header out ! i = groups ! i"
      by (simp add: bootstrap_groups_def header_def len wire_defs add.commute parts(11) flip: drop_drop)
  qed (simp add: bootstrap_groups_def header_def len)
  have "bootstrap_request (\<lambda>_. True) header out = Some f" if r: "request = Some f" for f
  proof -
    obtain b where b: "ksd_frame_pack alloc f (ksd_buffer_init (KSD_FRAME_HEADER_SIZE + KSD_CAPTURE_WORKER_MAX_REQUEST)) = (True, b)" "frame = buf_data b"
      using frame(1) r by (auto simp: bootstrap_frame_def split: prod.splits if_splits)
    have st: "startable backend f" using assms(4) r by blast
    have "drop (32 + length groups * 4) out = frame" using parts(11) by (simp flip: drop_drop add: add.commute)
    with unpack_packed [OF _ _ b(1), of public_magic KSD_PROTOCOL_MAJOR KSD_PROTOCOL_MINOR "of_nat KSD_CAPTURE_WORKER_MAX_REQUEST" True "\<lambda>_. True"] st b(2)
    show ?thesis using len(2) by (simp add: bootstrap_request_def header_def len(1) startable_def wire_defs)
  qed
  then show ?thesis using header groups by (auto simp: header_def split: option.split)
qed

section \<open>Examples\<close>

definition sample_file :: capture_file where
  "sample_file = \<lparr>kf_stat = Some (True, 24), kf_seals = 15,
     kf_map = Some (ksd_encode_u16 2 @ ksd_encode_u16 0 @ ksd_encode_u32 1 @ ksd_encode_u32 1 @ ksd_encode_u32 4 @ ksd_encode_u32 4 @ [1, 2, 3, 4])\<rparr>"

definition sample_capture :: ksd_operation_result where
  "sample_capture = ksd_result_init\<lparr>res_status := KSD_STATUS_OK, res_tail_length := 24, res_payload_fd := 7\<rparr>"

lemma sample_capture_facts:
  "result_wf sample_capture" "sealed_capture_file 7 24 sample_file" "sealed_capture_file 3 24 sample_file" "tail_exact sample_capture"
  "res_status sample_capture = KSD_STATUS_OK" "res_tail_length sample_capture = 24" "res_payload_fd sample_capture = 7"
  by (simp_all add: result_wf_def sample_capture_def sample_file_def sealed_capture_file_def ksd_result_init_def tail_exact_def
      F_SEALS_REQUIRED_def wire_defs)

theorem worker_response_round_trip_witness:
  "receive_worker_response (Some (worker_message KSD_STATUS_OK 0 24 [], 3, sample_file)) ksd_result_init
     = (True, carried (ascii ''capture worker failed'') 3 sample_capture, [])"
proof (rule worker_response_round_trip)
  show "send_worker_response sample_file (- 1) False True sample_capture = (Some (worker_message KSD_STATUS_OK 0 24 [], 7), [])"
    using sample_capture_facts
    by (simp add: send_worker_response_def sample_capture_def ksd_result_init_def worker_valid_status_def wire_defs)
  show "sealed_capture_file 3 (res_tail_length sample_capture) sample_file \<and> kf_map sample_file = Some (the (kf_map sample_file))
      \<and> ksd_capture_tail_valid (the (kf_map sample_file)) (res_tail_length sample_capture)"
    using sample_capture_facts(3,6) by (simp add: ksd_capture_tail_valid_def sample_file_def wire_defs Let_def)
qed (simp_all add: sample_capture_facts)

lemma sample_answer: "\<exists>out. serve_answer (\<lambda>_. True) sample_capture 9 = Some (out, 7)"
proof -
  have "\<exists>b. answer_payload (\<lambda>_. True) sample_capture = (True, b)"
    by (simp add: answer_payload_def sample_capture_def ksd_result_init_def ksd_buffer_u32_def ksd_buffer_bytes_def buffer_reserve_def
        ksd_buffer_init_def grow_capacity.simps ksd_encode_u32_def Let_def)
  then obtain b where b: "answer_payload (\<lambda>_. True) sample_capture = (True, b)" by blast
  let ?f = "answer_frame sample_capture 9 (buf_data b)"
  have d: "buf_data b = ksd_encode_u32 (res_status sample_capture) @ ksd_encode_u32 (res_detail sample_capture) @ answer_tail sample_capture"
    by (rule answer_payload_bytes [OF b]) (simp_all add: sample_capture_facts)
  have "length (buf_data b) = 12" unfolding d by (simp add: answer_tail_def sample_capture_facts)
  then have "writes (\<lambda>_. True) (ksd_frame_pack (\<lambda>_. True) ?f) (encode_frame_header ?f @ payload_bytes ?f)" "length (encode_frame_header ?f @ payload_bytes ?f) \<le> 52"
    using writes_and_then [OF writes_bytes writes_bytes, of "\<lambda>_. True" "encode_frame_header ?f" "payload_bytes ?f"]
    by (auto simp: ksd_frame_pack_def [abs_def] answer_frame_def payload_bytes_def public_magic_def)
  from writes_init(2) [OF this(1), of 52] this(2) \<open>length (buf_data b) = 12\<close> b show ?thesis
    by (auto simp: serve_answer_def sample_capture_facts wire_defs split: prod.splits)
qed

theorem worker_answer_read_witness:
  "\<exists>out response. serve_answer (\<lambda>_. True) sample_capture 9 = Some (out, 7)
     \<and> read_response \<lparr>in_wait = Wait_Ready, in_header = Some (take 24 out, 3), in_body = Some (drop 24 out), in_stat = Some (True, 24), in_seals = 15,
         in_copy = True\<rparr> = Read_Response response
     \<and> rsp_request_id response = 9 \<and> response_result True response = carried (ascii ''the compositor refused the operation'') 3 sample_capture"
proof -
  obtain out where out: "serve_answer (\<lambda>_. True) sample_capture 9 = Some (out, 7)" using sample_answer by blast
  have "length (answer_tail sample_capture) \<le> KSD_MAX_TEXT_BYTES" by (simp add: answer_tail_def sample_capture_facts wire_defs)
  moreover have "sealed_capture_file 3 (res_tail_length sample_capture) \<lparr>kf_stat = Some (True, 24), kf_seals = 15, kf_map = None\<rparr>"
    using sample_capture_facts(3,6) by (simp add: sealed_capture_file_def sample_file_def)
  ultimately show ?thesis
    using worker_answer_read [OF out sample_capture_facts(1,4), of "\<lparr>in_wait = Wait_Ready, in_header = Some (take 24 out, 3), in_body = Some (drop 24 out),
        in_stat = Some (True, 24), in_seals = 15, in_copy = True\<rparr>" 3] out by auto
qed

theorem worker_bootstrap_round_trip_witness:
  "\<exists>out header. send_bootstrap (\<lambda>_. True) 1000 1000 [4, 24] None 42 KSD_BACKEND_X11 True = Some out
     \<and> parse_bootstrap_header out = Some header \<and> wb_uid header = 1000 \<and> bootstrap_groups header out = [4, 24]"
proof -
  have "send_bootstrap (\<lambda>_. True) 1000 1000 [4, 24] None 42 KSD_BACKEND_X11 True \<noteq> None"
    by (simp add: send_bootstrap_def bootstrap_frame_def ksd_buffer_u32_def ksd_buffer_u16_def ksd_buffer_bytes_def buffer_reserve_def
        ksd_buffer_init_def grow_capacity.simps ksd_encode_u32_def ksd_encode_u16_def worker_magic_def wire_defs Let_def ascii_def)
  then obtain out where out: "send_bootstrap (\<lambda>_. True) 1000 1000 [4, 24] None 42 KSD_BACKEND_X11 True = Some out" by blast
  from worker_bootstrap_round_trip [OF this] out show ?thesis by (auto simp: wire_defs)
qed

end
