(* ===== verification/Operations.thy ===== *)
theory Operations
  imports Authorization State_Json
begin

text \<open>
  Executing a desktop operation for a client (src/src/authorityd.c, \<open>execute_operation\<close> and
  what it calls): the refresh of the grants, the snapshot of the compositor's registration,
  the budgets, the route to the desktop, the second look at the grants, the wait until
  the window table shows the effect, and the answer. The capture worker of KWin
  (src/src/capture_worker.c) is asked from here as well.

  The registry and the budgets are shared under the authority's mutex. A critical section
  is one call: it reads the shared part, applies the function of the theories Registry or
  Budgets, and stores the result.
\<close>

section \<open>Critical sections of the authority\<close>

definition registry_section ::
  "'w services \<Rightarrow> (backend_slot list \<Rightarrow> 'a \<times> backend_slot list \<times> relay_action list) \<Rightarrow> ('w, 'a) authority" where
  "registry_section sv f = do {
     (x, actions) \<leftarrow> call (\<lambda>w. case sv_registry sv w of (slots, w) \<Rightarrow>
       (case f slots of (x, slots', actions) \<Rightarrow> ((x, actions), sv_relay_do sv actions (sv_set_registry sv slots' w))))
       (\<lambda>(x, actions). [Relay_Did actions]);
     return x }"

definition relay_do :: "'w services \<Rightarrow> relay_action list \<Rightarrow> ('w, unit) authority" where
  "relay_do sv actions = call (\<lambda>w. ((), sv_relay_do sv actions w)) (\<lambda>_. [Relay_Did actions])"

definition take_snapshot :: "'w services \<Rightarrow> u32 \<Rightarrow> ('w, bool \<times> backend_snapshot) authority" where
  "take_snapshot sv uid = registry_section sv (\<lambda>slots.
     case take_backend_snapshot slots uid of (found, snapshot, actions) \<Rightarrow> ((found, snapshot), slots, actions))"

definition release_snapshot :: "'w services \<Rightarrow> backend_snapshot \<Rightarrow> ('w, unit) authority" where
  "release_snapshot sv snapshot = relay_do sv (snd (release_backend_snapshot snapshot))"

definition snapshot_current :: "'w services \<Rightarrow> backend_snapshot \<Rightarrow> ('w, bool) authority" where
  "snapshot_current sv snapshot = registry_section sv (\<lambda>slots. (backend_snapshot_current slots snapshot, slots, []))"

definition snapshot_valid :: "'w services \<Rightarrow> backend_snapshot \<Rightarrow> ('w, bool) authority" where
  "snapshot_valid sv snapshot =
     (if sn_descriptor snapshot < 0 \<or> sn_backend snapshot = KSD_BACKEND_NONE then return False
      else do {
        verified \<leftarrow> call (sv_revalidate_cached sv (sn_identity snapshot)) (\<lambda>_. []);
        registry_section sv (\<lambda>slots. (backend_snapshot_valid (\<lambda>_. verified) slots snapshot, slots, [])) })"

definition snapshot_provider_valid :: "'w services \<Rightarrow> backend_snapshot \<Rightarrow> ('w, bool) authority" where
  "snapshot_provider_valid sv snapshot =
     (if sint (id_pid (sn_provider_identity snapshot)) \<le> 0 then return False
      else do {
        verified \<leftarrow> call (sv_revalidate_cached sv (sn_provider_identity snapshot)) (\<lambda>_. []);
        return (backend_snapshot_provider_valid (\<lambda>_. verified) snapshot) })"

definition budget_section :: "'w services \<Rightarrow> (budgets \<Rightarrow> 'a \<times> budgets) \<Rightarrow> ('a \<Rightarrow> event list) \<Rightarrow> ('w, 'a) authority" where
  "budget_section sv f = call (\<lambda>w. case sv_budgets sv w of (st, w) \<Rightarrow> (case f st of (x, st') \<Rightarrow> (x, sv_set_budgets sv st' w)))"

definition kwin_reserve :: "'w services \<Rightarrow> i32 \<Rightarrow> ('w, bool) authority" where
  "kwin_reserve sv pid = budget_section sv (\<lambda>st. reserve_kwin_slot st pid) (\<lambda>ok. [Reserved (Kwin_Slot pid) ok])"

definition kwin_release :: "'w services \<Rightarrow> i32 \<Rightarrow> ('w, unit) authority" where
  "kwin_release sv pid = budget_section sv (\<lambda>st. ((), release_kwin_slot st pid)) (\<lambda>_. [Released (Kwin_Slot pid)])"

definition capture_reserve :: "'w services \<Rightarrow> u32 \<Rightarrow> i32 \<Rightarrow> ('w, bool) authority" where
  "capture_reserve sv uid pid = budget_section sv (\<lambda>st. reserve_capture_memory st uid pid) (\<lambda>ok. [Reserved (Capture_Memory uid pid) ok])"

definition capture_release :: "'w services \<Rightarrow> u32 \<Rightarrow> i32 \<Rightarrow> ('w, unit) authority" where
  "capture_release sv uid pid = budget_section sv (\<lambda>st. ((), release_capture_memory st uid pid)) (\<lambda>_. [Released (Capture_Memory uid pid)])"

definition only_if :: "bool \<Rightarrow> ('w, unit) authority \<Rightarrow> ('w, unit) authority" where
  "only_if b m = (if b then m else return ())"

definition milliseconds :: "'w services \<Rightarrow> ('w, u64) authority" where
  "milliseconds sv = call (sv_milliseconds sv) (\<lambda>_. [])"

section \<open>Display workers\<close>

text \<open>\<open>display_relay_for\<close>: the worker is started between its two critical sections.\<close>

definition display_relay ::
  "'w services \<Rightarrow> ksp_identity \<Rightarrow> u32 \<Rightarrow> i32 \<Rightarrow> u32 \<Rightarrow> bool \<Rightarrow> ('w, relay option) authority" where
  "display_relay sv identity gid session_pid backend capture = do {
     let lane = (if capture then 1 else 0);
     lookup \<leftarrow> registry_section sv (\<lambda>slots.
       case display_relay_lookup identity gid session_pid backend lane slots of
         Display_Answer relay actions \<Rightarrow> (Display_Answer relay actions, slots, actions)
       | Display_Spawn index registration \<Rightarrow> (Display_Spawn index registration, slots, []));
     case lookup of
       Display_Answer relay actions \<Rightarrow> return relay
     | Display_Spawn index registration \<Rightarrow> do {
         (socket_fd, created) \<leftarrow> call (sv_worker_spawn sv identity gid session_pid
           (if backend = KSD_BACKEND_X11 then KSD_BACKEND_X11 else KSD_BACKEND_GENERIC)) (\<lambda>_. []);
         if socket_fd < 0 then return None
         else case created of
           None \<Rightarrow> do { relay_do sv [Close_Fd socket_fd]; return None }
         | Some relay \<Rightarrow> registry_section sv (display_relay_install identity gid lane index registration relay) }}"

section \<open>The capture worker\<close>

definition failed :: "ksd_operation_result \<Rightarrow> u32 \<Rightarrow> string \<Rightarrow> ksd_operation_result" where
  "failed result status message = fst (ksd_result_error result status 0 (Some (ascii message)))"

text \<open>
  The loop that waits for the worker, one element of the list for each poll; the list
  ends where the deadline has passed. The flag says whether the worker's answer was received.
\<close>

primrec capture_wait :: "'w services \<Rightarrow> worker_poll list \<Rightarrow> ksd_operation_result \<Rightarrow> ('w, bool \<times> ksd_operation_result) authority" where
  "capture_wait sv [] result = do {
     going \<leftarrow> capture_still_authorized sv;
     if \<not> going then return (False, failed result KSD_STATUS_REVOKED ''permission changed during capture'')
     else return (False, failed result KSD_STATUS_TIMEOUT ''capture worker timed out'') }"
| "capture_wait sv (poll # polls) result = do {
     going \<leftarrow> capture_still_authorized sv;
     if \<not> going then return (False, failed result KSD_STATUS_REVOKED ''permission changed during capture'')
     else case poll of
       Worker_Interrupted \<Rightarrow> capture_wait sv polls result
     | Worker_Failed \<Rightarrow> return (False, failed result KSD_STATUS_UNAVAILABLE ''capture worker transport failed'')
     | Worker_Idle \<Rightarrow> capture_wait sv polls result
     | Worker_Hung_Up \<Rightarrow> return (False, failed result KSD_STATUS_UNAVAILABLE ''capture worker exited without a result'')
     | Worker_Ready reply \<Rightarrow>
         (case receive_worker_response reply result of
            (False, result', _) \<Rightarrow> return (False, failed result' KSD_STATUS_INTERNAL ''capture worker returned an invalid result'')
          | (True, result', _) \<Rightarrow> return (True, result')) }"

definition worker_outcome :: "bool \<Rightarrow> worker_exit \<Rightarrow> ksd_operation_result \<Rightarrow> ksd_operation_result" where
  "worker_outcome received found result =
     (case found of
        Worker_Running \<Rightarrow> if \<not> received then failed result KSD_STATUS_UNAVAILABLE ''capture worker did not terminate'' else result
      | Worker_Clean \<Rightarrow> result
      | Worker_Abnormal \<Rightarrow> failed result KSD_STATUS_UNAVAILABLE ''capture worker terminated unexpectedly'')"

definition ksd_capture_worker_execute ::
  "'w services \<Rightarrow> ksp_identity \<Rightarrow> u32 \<Rightarrow> ksd_frame \<Rightarrow> i32 \<Rightarrow> u32 \<Rightarrow> ('w, ksd_operation_result) authority" where
  "ksd_capture_worker_execute sv identity gid request session_pid backend =
     (if \<not> ksd_capture_worker_request_valid request
      then return (failed ksd_result_init KSD_STATUS_UNAVAILABLE ''capture worker identity is unavailable'')
      else do {
        launched \<leftarrow> call (sv_worker_polls sv identity gid request session_pid backend) (\<lambda>_. []);
        case launched of
          None \<Rightarrow> return (failed ksd_result_init KSD_STATUS_UNAVAILABLE ''capture worker could not be started'')
        | Some polls \<Rightarrow> do {
            (received, result) \<leftarrow> capture_wait sv polls ksd_result_init;
            found \<leftarrow> call (sv_worker_reap sv) (\<lambda>_. []);
            return (worker_outcome received found result) }})"

section \<open>Waiting for the window table\<close>

definition KSD_OPERATION_REFRESH_MS :: u64 where
  [wire_defs]: "KSD_OPERATION_REFRESH_MS = 30"

definition KSD_DISPLAY_DEADLINE_MS :: u64 where
  [wire_defs]: "KSD_DISPLAY_DEADLINE_MS = 8000"

definition sync_waiting :: "ksd_frame \<Rightarrow> ksd_window_record option \<Rightarrow> authority_lease \<Rightarrow> bool" where
  "sync_waiting request before lease \<longleftrightarrow> le_active lease \<and> le_granted_scopes lease AND KSD_SCOPE_WINDOW_CONTROL \<noteq> 0
     \<and> \<not> operation_observed (le_snapshot_pending lease) (le_windows lease) (fr_opcode request) (payload_bytes request) before"

text \<open>Asking the worker of the generic backend for a new sample of the windows, at most every 30 milliseconds.\<close>

definition ask_refresh :: "'w services \<Rightarrow> u32 \<Rightarrow> authority_lease \<Rightarrow> ('w, bool \<times> authority_lease) authority" where
  "ask_refresh sv backend lease =
     (if backend = KSD_BACKEND_GENERIC \<and> le_window_refresh_fd lease \<ge> 0 then do {
        now \<leftarrow> milliseconds sv;
        if now \<ge> le_window_refresh_at lease then do {
          call (\<lambda>w. ((), sv_poke sv (le_window_refresh_fd lease) w)) (\<lambda>_. []);
          return (True, lease\<lparr>le_window_refresh_at := now + KSD_OPERATION_REFRESH_MS\<rparr>) }
        else return (True, lease) }
      else return (False, lease))"

text \<open>How the loop ended: nothing to wait for any more, the time ran out, or the wait failed.\<close>

datatype sync_end = Sync_Settled | Sync_Expired | Sync_Broken

text \<open>
  The waiting loop, with one element of the list for each wait; the wait after the last one
  ends at the deadline. A wait gives the lease's mutex back and takes it again.
\<close>

primrec sync_loop ::
  "'w services \<Rightarrow> u32 \<Rightarrow> ksd_frame \<Rightarrow> ksd_window_record option \<Rightarrow> u64 \<Rightarrow> authority_lease \<Rightarrow> wait_outcome list \<Rightarrow>
     ('w, sync_end \<times> authority_lease) authority" where
  "sync_loop sv backend request before deadline lease [] =
     (if \<not> sync_waiting request before lease then return (Sync_Settled, lease)
      else do {
        (refresh, lease) \<leftarrow> ask_refresh sv backend lease;
        lease_unlock sv lease;
        lease \<leftarrow> lease_lock sv;
        return (Sync_Expired, lease) })"
| "sync_loop sv backend request before deadline lease (wait # waits) =
     (if \<not> sync_waiting request before lease then return (Sync_Settled, lease)
      else do {
        (refresh, lease) \<leftarrow> ask_refresh sv backend lease;
        lease_unlock sv lease;
        lease \<leftarrow> lease_lock sv;
        case wait of
          Woken \<Rightarrow> sync_loop sv backend request before deadline lease waits
        | Wait_Broken \<Rightarrow> return (Sync_Broken, lease)
        | Wait_Expired \<Rightarrow> do {
            now \<leftarrow> milliseconds sv;
            if refresh \<and> now < deadline then sync_loop sv backend request before deadline lease waits
            else return (Sync_Expired, lease) }})"

definition sync_monitors :: "u32 \<Rightarrow> ksd_frame \<Rightarrow> authority_lease \<Rightarrow> bool" where
  "sync_monitors backend request lease \<longleftrightarrow> le_domains lease AND KSD_STATE_WINDOWS \<noteq> 0
     \<and> \<not> ((backend = KSD_BACKEND_GENERIC \<or> backend = KSD_BACKEND_X11)
        \<and> (fr_opcode request = KSD_OP_WINDOW_RAISE \<or> fr_opcode request = KSD_OP_WINDOW_LOWER))"

definition operation_sync :: "'w services \<Rightarrow> ksd_frame \<Rightarrow> ksd_window_record option \<Rightarrow> ('w, bool) authority" where
  "operation_sync sv request before = do {
     session \<leftarrow> data;
     if \<not> ss_lease session then return False
     else do {
       start \<leftarrow> milliseconds sv;
       waits \<leftarrow> call (sv_waits sv) (\<lambda>_. []);
       lease \<leftarrow> lease_lock sv;
       let deadline = start + 2000;
       let monitoring = sync_monitors (ss_backend session) request lease;
       (ended, lease) \<leftarrow> (if monitoring then sync_loop sv (ss_backend session) request before deadline lease waits
         else return (Sync_Settled, lease));
       let observed = (\<not> monitoring
         \<or> operation_observed (le_snapshot_pending lease) (le_windows lease) (fr_opcode request) (payload_bytes request) before);
       now \<leftarrow> (if \<not> observed \<and> ended = Sync_Expired then milliseconds sv else return 0);
       let constrained = (\<not> observed \<and> ended = Sync_Expired \<and> now \<ge> deadline
         \<and> operation_geometry_changed (le_snapshot_pending lease) (le_windows lease) (fr_opcode request) (payload_bytes request) before);
       let ok = (le_active lease \<and> le_granted_scopes lease AND KSD_SCOPE_WINDOW_CONTROL \<noteq> 0 \<and> (observed \<or> constrained));
       update (\<lambda>ss. ss\<lparr>ss_effective_sequence := (if monitoring \<and> ok \<and> observed then le_sequences lease ! 0 else 0)\<rparr>);
       lease_unlock sv lease;
       return ok }}"

section \<open>Windows of X11 that are not top-level\<close>

definition query_frame :: "u64 \<Rightarrow> ksd_frame" where
  "query_frame handle = frame_zero\<lparr>fr_opcode := KSD_OP_WINDOW_QUERY, fr_request_id := 1, fr_payload := Some (ksd_encode_u64 handle),
     fr_payload_length := 8\<rparr>"

text \<open>The status, the window when it is \<open>OK\<close>, and whether the window is a child.\<close>

definition observed_window :: "(nat \<Rightarrow> bool) \<Rightarrow> ksd_operation_result \<Rightarrow> u32 \<times> ksd_window_record option \<times> bool" where
  "observed_window alloc result =
     (if res_status result \<noteq> KSD_STATUS_OK then (res_status result, None, False)
      else if res_tail_length result < 4 then (KSD_STATUS_INTERNAL, None, False)
      else let json = drop 4 (case res_tail result of None \<Rightarrow> [] | Some t \<Rightarrow> t) in
        case ksd_state_window_json alloc json of
          None \<Rightarrow> (KSD_STATUS_INTERNAL, None, False)
        | Some window \<Rightarrow> (KSD_STATUS_OK, Some window, ksd_state_window_is_child_json json))"

definition x11_observe_window ::
  "'w services \<Rightarrow> backend_snapshot \<Rightarrow> u64 \<Rightarrow> ('w, u32 \<times> ksd_window_record option \<times> bool) authority" where
  "x11_observe_window sv backend handle = do {
     session \<leftarrow> data;
     display \<leftarrow> display_relay sv (ss_identity session) (ss_gid session) (id_pid (sn_identity backend)) (ss_backend session) False;
     case display of
       None \<Rightarrow> return (KSD_STATUS_UNAVAILABLE, None, False)
     | Some relay \<Rightarrow> do {
         now \<leftarrow> milliseconds sv;
         result \<leftarrow> call (sv_relay_call sv relay (query_frame handle) (now + KSD_DISPLAY_DEADLINE_MS)) (\<lambda>r. [Observed relay (query_frame handle) r]);
         relay_do sv [Relay_Release relay];
         return (observed_window (sv_alloc sv) result) }}"

definition x11_child_sync :: "'w services \<Rightarrow> backend_snapshot \<Rightarrow> ksd_frame \<Rightarrow> ksd_window_record \<Rightarrow> ('w, bool) authority" where
  "x11_child_sync sv backend request before = do {
     (status, observed, _) \<leftarrow> x11_observe_window sv backend (w_handle before);
     let destroy = (fr_opcode request = KSD_OP_WINDOW_CLOSE \<or> fr_opcode request = KSD_OP_WINDOW_KILL);
     let windows = (case observed of None \<Rightarrow> [] | Some w \<Rightarrow> [w]);
     let ok = (if destroy then status = KSD_STATUS_NOT_FOUND
       else status = KSD_STATUS_OK
         \<and> (operation_observed False windows (fr_opcode request) (payload_bytes request) (Some before)
            \<or> operation_geometry_changed False windows (fr_opcode request) (payload_bytes request) (Some before)));
     update (\<lambda>ss. ss\<lparr>ss_effective_sequence := 0\<rparr>);
     return ok }"

section \<open>The operation\<close>

definition refuse :: "'w services \<Rightarrow> ksd_frame \<Rightarrow> u32 \<Rightarrow> string \<Rightarrow> ('w, bool) authority" where
  "refuse sv request status message = forward_response sv request status 0 (Some (ascii message)) [] False"

definition release_and_refuse :: "'w services \<Rightarrow> backend_snapshot \<Rightarrow> ksd_frame \<Rightarrow> u32 \<Rightarrow> string \<Rightarrow> ('w, bool) authority" where
  "release_and_refuse sv backend request status message = do {
     release_snapshot sv backend;
     refuse sv request status message }"

text \<open>The routes: the script of KWin, and everything else by the display worker, the capture worker or the provider.\<close>

definition keyboard_worker :: "ksd_frame \<Rightarrow> bool" where
  "keyboard_worker request \<longleftrightarrow> fr_opcode request = KSD_OP_KEYBOARD_STATE"

definition kwin_script :: "u32 \<Rightarrow> ksd_frame \<Rightarrow> bool" where
  "kwin_script backend request \<longleftrightarrow> backend = KSD_BACKEND_KWIN \<and> \<not> is_capture (fr_opcode request) \<and> \<not> keyboard_worker request"

definition relay_operation :: "'w services \<Rightarrow> (relay \<Rightarrow> route) \<Rightarrow> relay \<Rightarrow> ksd_frame \<Rightarrow> u64 \<Rightarrow> ('w, ksd_operation_result) authority" where
  "relay_operation sv via relay request limit = do {
     now \<leftarrow> milliseconds sv;
     note_events [Dispatched (via relay) request];
     call (sv_relay_call sv relay request (now + limit)) (\<lambda>r. [Answered r]) }"

definition dispatch_script :: "'w services \<Rightarrow> ksd_frame \<Rightarrow> backend_snapshot \<Rightarrow> ('w, ksd_operation_result) authority" where
  "dispatch_script sv request backend =
     (case sn_relay backend of
        None \<Rightarrow> return (failed ksd_result_init KSD_STATUS_UNAVAILABLE ''this compositor has no script channel'')
      | Some relay \<Rightarrow> relay_operation sv Via_Script relay request KSD_KWIN_OP_DEADLINE_MS)"

definition dispatch_worker :: "'w services \<Rightarrow> ksd_frame \<Rightarrow> backend_snapshot \<Rightarrow> ('w, ksd_operation_result) authority" where
  "dispatch_worker sv request backend = do {
     session \<leftarrow> data;
     let capture = is_capture (fr_opcode request);
     display \<leftarrow> (if ss_backend session \<noteq> KSD_BACKEND_KWIN \<or> keyboard_worker request
       then display_relay sv (ss_identity session) (ss_gid session) (id_pid (sn_identity backend)) (ss_backend session) capture
       else return None);
     case display of
       Some relay \<Rightarrow> do {
         result \<leftarrow> relay_operation sv Via_Display relay request (if capture then 35000 else KSD_DISPLAY_DEADLINE_MS);
         gone \<leftarrow> call (sv_relay_broken sv relay) (\<lambda>_. []);
         only_if gone (registry_section sv (\<lambda>slots. case forget_display_relay (ss_identity session) relay slots of (slots', actions) \<Rightarrow> ((), slots', actions)));
         relay_do sv [Relay_Release relay];
         return result }
     | None \<Rightarrow>
         if ss_backend session = KSD_BACKEND_KWIN \<and> \<not> keyboard_worker request then do {
           note_events [Dispatched Via_Worker request];
           result \<leftarrow> ksd_capture_worker_execute sv (ss_identity session) (ss_gid session) request (id_pid (sn_identity backend)) (ss_backend session);
           note_events [Answered result];
           return result }
         else return (failed ksd_result_init KSD_STATUS_UNAVAILABLE ''the display worker is unavailable'') }"

definition dispatch_provider :: "'w services \<Rightarrow> ksd_frame \<Rightarrow> backend_snapshot \<Rightarrow> ('w, ksd_operation_result) authority" where
  "dispatch_provider sv request backend = do {
     session \<leftarrow> data;
     usable \<leftarrow> snapshot_provider_valid sv backend;
     if usable then do {
       note_events [Dispatched Via_Provider request];
       call (sv_provider_execute sv (id_uid (ss_identity session)) (id_pid (ss_identity session))
         (id_pid (sn_provider_identity backend)) (ss_backend session) request) (\<lambda>r. [Answered r]) }
     else return (failed ksd_result_init KSD_STATUS_UNAVAILABLE ''compositor provider is unavailable'') }"

definition dispatch :: "'w services \<Rightarrow> ksd_frame \<Rightarrow> backend_snapshot \<Rightarrow> ('w, ksd_operation_result) authority" where
  "dispatch sv request backend = do {
     session \<leftarrow> data;
     if kwin_script (ss_backend session) request then dispatch_script sv request backend
     else if keyboard_worker request \<or> ss_backend session = KSD_BACKEND_KWIN \<or> ss_backend session = KSD_BACKEND_X11
       \<or> ss_backend session = KSD_BACKEND_GENERIC then dispatch_worker sv request backend
     else dispatch_provider sv request backend }"

text \<open>The window before the operation, and whether it is a child of X11.\<close>

definition prior_window :: "'w services \<Rightarrow> ksd_frame \<Rightarrow> backend_snapshot \<Rightarrow> ('w, ksd_window_record option \<times> bool) authority" where
  "prior_window sv request backend = do {
     session \<leftarrow> data;
     let aimed = (ksd_state_mutates_windows (fr_opcode request) \<and> fr_payload_length request \<ge> 8);
     let handle = ksd_decode_u64 (payload_bytes request);
     prior \<leftarrow> (if aimed \<and> ss_lease session then do {
         lease \<leftarrow> lease_lock sv;
         lease_unlock sv lease;
         return (Option.bind (window_found handle (le_windows lease)) (ksd_state_window_copy (sv_alloc sv))) }
       else return None);
     if prior = None \<and> ss_backend session = KSD_BACKEND_X11 \<and> aimed then do {
       (status, window, child) \<leftarrow> x11_observe_window sv backend handle;
       return (window, child) }
     else return (prior, False) }"

text \<open>The second look at the grants and at the registration.\<close>

definition still_permitted :: "'w services \<Rightarrow> u32 \<Rightarrow> u64 \<Rightarrow> backend_snapshot \<Rightarrow> ('w, bool) authority" where
  "still_permitted sv scope before backend = do {
     (ok, changed) \<leftarrow> session_refresh sv True True;
     session \<leftarrow> data;
     if ok \<and> (scope = 0 \<or> \<not> changed \<and> ss_generation session = before \<and> ss_granted_scopes session AND scope = scope)
     then snapshot_current sv backend else return False }"

text \<open>Waiting for the effect on the window table; the operation may turn out to be no longer permitted, or unconfirmed.\<close>

definition settle ::
  "'w services \<Rightarrow> ksd_frame \<Rightarrow> u32 \<Rightarrow> backend_snapshot \<Rightarrow> ksd_window_record option \<Rightarrow> bool \<Rightarrow> ksd_operation_result \<Rightarrow>
     ('w, bool \<times> ksd_operation_result) authority" where
  "settle sv request scope backend prior child result = do {
     observed \<leftarrow> (case prior of
         Some window \<Rightarrow> if child then x11_child_sync sv backend request window else operation_sync sv request (Some window)
       | None \<Rightarrow> operation_sync sv request None);
     if observed then return (True, result)
     else do {
       lease \<leftarrow> lease_lock sv;
       lease_unlock sv lease;
       let valid = (le_active lease \<and> le_granted_scopes lease AND scope = scope);
       return (valid, if valid
         then failed result KSD_STATUS_TIMEOUT ''compositor state did not acknowledge the window operation within 2 seconds''
         else result) }}"

definition answer_operation :: "'w services \<Rightarrow> ksd_frame \<Rightarrow> u32 \<Rightarrow> bool \<Rightarrow> ksd_operation_result \<Rightarrow> ('w, bool) authority" where
  "answer_operation sv request scope valid result =
     (if \<not> valid then
        refuse sv request (if scope = 0 then KSD_STATUS_CANCELLED else KSD_STATUS_REVOKED)
          (if scope = 0 then ''application identity or backend changed'' else ''permission changed during the operation'')
      else if res_payload_fd result \<ge> 0 then forward_capture sv request result
      else forward_response sv request (res_status result) (res_detail result)
        (if res_status result = KSD_STATUS_OK \<or> res_diagnostic result = [] then None else Some (res_diagnostic result))
        (case res_tail result of None \<Rightarrow> [] | Some t \<Rightarrow> take (unat (res_tail_length result)) t) False)"

definition perform_operation :: "'w services \<Rightarrow> ksd_frame \<Rightarrow> u32 \<Rightarrow> backend_snapshot \<Rightarrow> ('w, bool) authority" where
  "perform_operation sv request scope backend = do {
     session \<leftarrow> data;
     (prior, child) \<leftarrow> prior_window sv request backend;
     result \<leftarrow> dispatch sv request backend;
     valid \<leftarrow> still_permitted sv scope (ss_generation session) backend;
     (valid, result) \<leftarrow> (if valid \<and> res_status result = KSD_STATUS_OK \<and> ksd_state_mutates_windows (fr_opcode request)
       then settle sv request scope backend prior child result else return (valid, result));
     answer_operation sv request scope valid result }"

text \<open>The budgets around the operation.\<close>

definition execute_admitted :: "'w services \<Rightarrow> ksd_frame \<Rightarrow> u32 \<Rightarrow> backend_snapshot \<Rightarrow> ('w, bool) authority" where
  "execute_admitted sv request scope backend = do {
     session \<leftarrow> data;
     let capture = is_capture (fr_opcode request);
     let script = kwin_script (ss_backend session) request;
     slot \<leftarrow> (if script then kwin_reserve sv (id_pid (ss_identity session)) else return True);
     if \<not> slot then release_and_refuse sv backend request KSD_STATUS_BUSY ''too many concurrent requests for this compositor''
     else do {
       memory \<leftarrow> (if capture then capture_reserve sv (id_uid (ss_identity session)) (id_pid (ss_identity session)) else return True);
       if \<not> memory then do {
         only_if script (kwin_release sv (id_pid (ss_identity session)));
         release_and_refuse sv backend request KSD_STATUS_RESOURCE_EXHAUSTED ''capture memory budget is busy'' }
       else do {
         ok \<leftarrow> perform_operation sv request scope backend;
         session \<leftarrow> data;
         only_if capture (capture_release sv (id_uid (ss_identity session)) (id_pid (ss_identity session)));
         only_if script (kwin_release sv (id_pid (ss_identity session)));
         release_snapshot sv backend;
         return ok }}}"

definition execute_operation :: "'w services \<Rightarrow> ksd_frame \<Rightarrow> ('w, bool) authority" where
  "execute_operation sv request = do {
     session \<leftarrow> data;
     let scope = ksd_operation_scope (fr_opcode request);
     let bit = ksd_operation_bit (fr_opcode request);
     if bit = 0 then refuse sv request KSD_STATUS_UNSUPPORTED ''unknown desktop operation''
     else if ss_role session \<noteq> KSD_ROLE_RPC \<and> ss_role session \<noteq> KSD_ROLE_EVENT_STREAM
     then refuse sv request KSD_STATUS_INVALID_REQUEST ''operation is invalid for this role''
     else if scope = 0 \<and> \<not> ksd_operation_scope_free (fr_opcode request)
     then refuse sv request KSD_STATUS_INTERNAL ''operation carries no permission scope''
     else do {
       (ok, _) \<leftarrow> session_refresh sv True True;
       session \<leftarrow> data;
       if \<not> ok then return False
       else if scope \<noteq> 0 \<and> ss_granted_scopes session AND scope \<noteq> scope
       then refuse sv request KSD_STATUS_DENIED ''required permission is not granted''
       else do {
         (found, backend) \<leftarrow> take_snapshot sv (id_uid (ss_identity session));
         usable \<leftarrow> (if found then snapshot_valid sv backend else return False);
         if \<not> usable then do {
           only_if found (release_snapshot sv backend);
           update (\<lambda>ss. ss\<lparr>ss_backend := KSD_BACKEND_NONE\<rparr>);
           refuse sv request KSD_STATUS_UNAVAILABLE ''operation is unavailable on this backend'' }
         else do {
           update (\<lambda>ss. ss\<lparr>ss_backend := sn_backend backend\<rparr>);
           if ksd_backend_reported_operations (sn_backend backend) True (sn_advertised backend) AND bit = 0
           then release_and_refuse sv backend request KSD_STATUS_UNAVAILABLE ''operation is unavailable on this backend''
           else if fr_opcode request = KSD_OP_WINDOW_WATCH \<or> fr_opcode request = KSD_OP_CLIPBOARD_WATCH
           then release_and_refuse sv backend request KSD_STATUS_INVALID_REQUEST ''subscribe to state on the lease connection''
           else if ss_role session \<noteq> KSD_ROLE_RPC
           then release_and_refuse sv backend request KSD_STATUS_INVALID_REQUEST ''event streams only accept subscriptions''
           else execute_admitted sv request scope backend }}}}"

end
