(* ===== verification/Operation_Safety.thy ===== *)
theory Operation_Safety
  imports Operations
begin

text \<open>
  What executing an operation guarantees: the desktop is reached at most once, only for a
  request whose scope the store granted, and a result leaves the authority only when the
  grant was found unchanged after the desktop was reached.
\<close>

section \<open>Parts that neither reach the desktop nor write to the client\<close>

text \<open>
  Of its own accord the authority asks the desktop only for a window, and only for an
  operation that changes windows.
\<close>

definition own_query :: "u16 \<Rightarrow> ksd_frame \<Rightarrow> bool" where
  "own_query op frame \<longleftrightarrow> ksd_state_mutates_windows op \<and> frame \<in> range query_frame"

fun speaks :: "u16 \<Rightarrow> event \<Rightarrow> bool" where
  "speaks op (Dispatched _ _) = True"
| "speaks op (Wrote _ _ _) = True"
| "speaks op (Observed _ frame _) = (\<not> own_query op frame)"
| "speaks op _ = False"

definition mute :: "u16 \<Rightarrow> event list \<Rightarrow> bool" where
  "mute op es \<longleftrightarrow> \<not> list_ex (speaks op) es"

lemma mute_simps [simp]:
  "mute op []" "mute op (e # es) \<longleftrightarrow> \<not> speaks op e \<and> mute op es" "mute op (es @ fs) \<longleftrightarrow> mute op es \<and> mute op fs"
  by (auto simp: mute_def)

lemma mute_no:
  assumes "mute op es"
  shows "Dispatched r f \<notin> set es" "Wrote f' fd ok \<notin> set es" "Observed relay f res \<in> set es \<Longrightarrow> own_query op f"
  using assms by (auto simp: mute_def list_ex_iff)

text \<open>Parts in which the desktop is not asked anything at all.\<close>

definition blind :: "event list \<Rightarrow> bool" where
  "blind es \<longleftrightarrow> (\<forall>relay frame result. Observed relay frame result \<notin> set es)"

lemma blind_append [simp]: "blind (es @ fs) \<longleftrightarrow> blind es \<and> blind fs"
  by (auto simp: blind_def)

definition settled :: "authority_session \<Rightarrow> authority_session \<Rightarrow> bool" where
  "settled d d' \<longleftrightarrow> ss_lease d' = ss_lease d \<and> ss_role d' = ss_role d"

lemma settled_simps [simp]: "settled d d"
  "settled d (d\<lparr>ss_effective_sequence := q\<rparr>)" "settled d (d\<lparr>ss_backend := b\<rparr>)" "settled d (session_updated l g m d)"
  by (simp_all add: settled_def session_updated_def)

lemma settled_trans: "settled d d' \<Longrightarrow> settled d' d'' \<Longrightarrow> settled d d''"
  by (simp add: settled_def)

text \<open>With a lease, the refresh speaks to the client through the lease connection only.\<close>

interpretation calm: run_property "\<lambda>d d' es. ss_lease d \<longrightarrow> settled d d' \<and> mute op es" for op
proof
  fix d d' d'' :: authority_session and es fs
  assume "ss_lease d \<longrightarrow> settled d d' \<and> mute op es" "ss_lease d' \<longrightarrow> settled d' d'' \<and> mute op fs"
  then show "ss_lease d \<longrightarrow> settled d d'' \<and> mute op (es @ fs)" by (auto intro: settled_trans simp: settled_def)
qed simp

lemma lease_checked_mute: "lease_checked lease ok granted generation changed cs \<Longrightarrow> mute op cs \<and> blind cs"
  by (erule lease_checked.cases) (auto simp: blind_def)

lemma refreshed_calm: "refreshed notify d x d' es \<Longrightarrow> settled d d' \<and> mute op es \<and> blind es"
  by (erule refreshed.cases) (auto dest!: lease_checked_mute simp: blind_def)

text \<open>The refresh of a session with a lease, as a specification.\<close>

lemma session_refresh_spec:
  "spec (session_refresh sv force notify) (\<lambda>d x d' es. ss_lease d \<longrightarrow> refreshed notify d x d' es)"
proof (rule specI, goal_cases)
  case (1 s)
  show ?case
  proof (cases "ss_lease (rn_data s)")
    case True
    then show ?thesis unfolding session_refresh_def wp_simps
      by (simp, intro spec_wp [OF refresh_lease_spec]) auto
  next
    case False
    have "spec (refresh_unleased sv force notify) (\<lambda>d x d' es. True)"
      using refresh_unleased_guards unfolding guard.keeps_def by (rule spec_weaken) simp
    then show ?thesis using False unfolding session_refresh_def wp_simps
      by (simp, intro spec_wp) auto
  qed
qed

lemma session_refresh_calm: "calm.steps op (session_refresh sv force notify)"
  unfolding calm.steps_def by (rule spec_weaken [OF session_refresh_spec]) (auto dest: refreshed_calm)

lemma still_same_calm: "calm.steps op (still_same f i)"
  unfolding still_same_def by (intro calm.steps_rules) simp

text \<open>The critical sections leave the session alone.\<close>

interpretation plain: run_property "\<lambda>d d' es. settled d d' \<and> ss_generation d' = ss_generation d \<and> (\<forall>op. mute op es)"
  by standard (auto intro: settled_trans)

lemma plain_calm: "plain.steps m \<Longrightarrow> calm.steps op m"
  unfolding plain.steps_def calm.steps_def by (erule spec_weaken) simp

lemma section_plain:
  "plain.steps (registry_section sv f)" "plain.steps (relay_do sv actions)" "plain.steps (take_snapshot sv uid)"
  "plain.steps (release_snapshot sv snapshot)" "plain.steps (snapshot_current sv snapshot)" "plain.steps (snapshot_valid sv snapshot)"
  "plain.steps (snapshot_provider_valid sv snapshot)" "plain.steps (milliseconds sv)" "plain.steps (lease_lock sv)" "plain.steps (lease_unlock sv l)"
  "plain.steps (kwin_reserve sv pid)" "plain.steps (kwin_release sv pid)" "plain.steps (capture_reserve sv uid pid)" "plain.steps (capture_release sv uid pid)"
  unfolding take_snapshot_def release_snapshot_def snapshot_current_def snapshot_valid_def snapshot_provider_valid_def relay_do_def milliseconds_def
    lease_lock_def lease_unlock_def kwin_reserve_def kwin_release_def capture_reserve_def capture_release_def budget_section_def registry_section_def
  by (intro plain.steps_rules; simp split: prod.splits)+

lemmas section_calm = section_plain [THEN plain_calm]

text \<open>Case distinctions of the operations, for any property of computations.\<close>

lemma case_rules:
  fixes m :: "('d, 'w, 'e, 'a) effect"
  shows "(\<And>r a. P (f r a)) \<Longrightarrow> (\<And>i g. P (h i g)) \<Longrightarrow> P (case lookup of Display_Answer r a \<Rightarrow> f r a | Display_Spawn i g \<Rightarrow> h i g)"
    and "P m1 \<Longrightarrow> P m2 \<Longrightarrow> P m3 \<Longrightarrow> P m4 \<Longrightarrow> (\<And>reply. P (g reply)) \<Longrightarrow>
      P (case poll of Worker_Interrupted \<Rightarrow> m1 | Worker_Failed \<Rightarrow> m2 | Worker_Idle \<Rightarrow> m3 | Worker_Hung_Up \<Rightarrow> m4 | Worker_Ready reply \<Rightarrow> g reply)"
    and "P m1 \<Longrightarrow> P m2 \<Longrightarrow> P m3 \<Longrightarrow> P (case wait of Woken \<Rightarrow> m1 | Wait_Expired \<Rightarrow> m2 | Wait_Broken \<Rightarrow> m3)"
    and "P m1 \<Longrightarrow> P m2 \<Longrightarrow> P (case b of True \<Rightarrow> m1 | False \<Rightarrow> m2)"
  by (simp_all split: display_lookup.split worker_poll.split wait_outcome.split bool.split)

lemmas calm_rules = calm.steps_rules case_rules [where P = "calm.steps op" for op] section_calm session_refresh_calm still_same_calm

lemma only_if_calm: "calm.steps op m \<Longrightarrow> calm.steps op (only_if b m)"
  by (simp add: only_if_def calm.steps_return)

lemma display_relay_calm: "calm.steps op (display_relay sv identity gid pid backend capture)"
  unfolding display_relay_def by (intro calm_rules) simp

lemma capture_authorized_calm: "calm.steps op (capture_still_authorized sv)"
  unfolding capture_still_authorized_def disconnected_def by (intro calm_rules) simp

lemma capture_wait_calm: "calm.steps op (capture_wait sv polls result)"
  by (induction polls) (simp_all only: capture_wait.simps, (intro calm_rules capture_authorized_calm; assumption?)+)

lemma worker_execute_calm: "calm.steps op (ksd_capture_worker_execute sv identity gid request pid backend)"
  unfolding ksd_capture_worker_execute_def by (intro calm_rules capture_wait_calm) simp_all

lemma ask_refresh_calm: "calm.steps op (ask_refresh sv backend lease)"
  unfolding ask_refresh_def by (intro calm_rules) simp

lemma sync_loop_calm: "calm.steps op (sync_loop sv backend request before deadline lease waits)"
  by (induction waits arbitrary: lease) (simp_all only: sync_loop.simps, (intro calm_rules ask_refresh_calm; assumption?)+)

lemma operation_sync_calm: "calm.steps op (operation_sync sv request before)"
  unfolding operation_sync_def by (intro calm_rules sync_loop_calm) simp_all

lemma x11_calm:
  assumes "ksd_state_mutates_windows op"
  shows "calm.steps op (x11_observe_window sv backend handle)" "calm.steps op (x11_child_sync sv backend request before)"
proof -
  show observe: "calm.steps op (x11_observe_window sv backend handle)" for handle
    unfolding x11_observe_window_def by (intro calm_rules display_relay_calm) (simp_all add: own_query_def assms)
  show "calm.steps op (x11_child_sync sv backend request before)"
    unfolding x11_child_sync_def by (intro calm_rules observe) simp
qed

lemma prior_window_calm: "calm.steps (fr_opcode request) (prior_window sv request backend)"
  unfolding prior_window_def by (intro calm_rules x11_calm) simp

lemma still_permitted_calm: "calm.steps op (still_permitted sv scope before backend)"
  unfolding still_permitted_def by (intro calm_rules)

lemma settle_calm:
  "ksd_state_mutates_windows (fr_opcode request) \<Longrightarrow> calm.steps (fr_opcode request) (settle sv request scope backend prior child result)"
  unfolding settle_def by (intro calm_rules x11_calm operation_sync_calm)

section \<open>Reaching the desktop\<close>

text \<open>Nothing is sent to the desktop, or the one request is, once.\<close>

definition reached :: "ksd_frame \<Rightarrow> event list \<Rightarrow> bool" where
  "reached request es \<longleftrightarrow> mute (fr_opcode request) es \<or> (\<exists>pre route post. es = pre @ Dispatched route request # post \<and> mute (fr_opcode request) pre \<and> mute (fr_opcode request) post)"

lemma reached_join:
  "mute (fr_opcode request) es \<Longrightarrow> reached request fs \<Longrightarrow> reached request (es @ fs)" "reached request es \<Longrightarrow> mute (fr_opcode request) fs \<Longrightarrow> reached request (es @ fs)"
proof -
  assume "mute (fr_opcode request) es" "reached request fs"
  then show "reached request (es @ fs)" unfolding reached_def by (metis append_assoc mute_simps(3))
next
  assume "reached request es" "mute (fr_opcode request) fs"
  then show "reached request (es @ fs)" unfolding reached_def by (metis append_assoc append_Cons mute_simps(3))
qed

definition reaches :: "ksd_frame \<Rightarrow> ('w, 'a) authority \<Rightarrow> bool" where
  "reaches request m \<longleftrightarrow> spec m (\<lambda>d x d' es. ss_lease d \<longrightarrow> settled d d' \<and> reached request es)"

lemma reaches_then:
  assumes "reaches request m" "\<And>x. calm.steps (fr_opcode request) (f x)"
  shows "reaches request (State_Monad.bind m f)"
  unfolding reaches_def
  by (rule spec_bind [OF assms(1) [unfolded reaches_def] assms(2) [THEN calm.steps_spec]])
     (auto intro: settled_trans reached_join simp: settled_def)

lemma reaches_after:
  assumes "calm.steps (fr_opcode request) m" "\<And>x. reaches request (f x)"
  shows "reaches request (State_Monad.bind m f)"
  unfolding reaches_def
  by (rule spec_bind [OF assms(1) [THEN calm.steps_spec] assms(2) [unfolded reaches_def]])
     (auto intro: settled_trans reached_join simp: settled_def)

lemma reaches_calm: "calm.steps (fr_opcode request) m \<Longrightarrow> reaches request m"
  unfolding reaches_def calm.steps_def by (erule spec_weaken) (auto simp: reached_def)

lemma reaches_note: "reaches request (note_events [Dispatched route request])"
  unfolding reaches_def by (rule spec_note) (auto simp: reached_def intro!: exI [of _ "[]"])

lemma relay_operation_reaches: "reaches request (relay_operation sv via relay request limit)"
  unfolding relay_operation_def
  by (intro reaches_after reaches_then [OF reaches_note] calm_rules) simp

lemma dispatch_script_reaches: "reaches request (dispatch_script sv request backend)"
  unfolding dispatch_script_def
  by (simp add: relay_operation_reaches reaches_calm [OF calm.steps_return] split: option.split)

lemma dispatch_worker_reaches: "reaches request (dispatch_worker sv request backend)"
  unfolding dispatch_worker_def Let_def
proof (intro reaches_after calm_rules display_relay_calm, goal_cases)
  case (1 session display)
  show ?case
  proof (cases display)
    case (Some relay)
    show ?thesis unfolding Some option.case
      by (intro reaches_then relay_operation_reaches calm_rules only_if_calm) simp
  next
    case None
    show ?thesis unfolding None option.case
      by (auto intro!: reaches_calm [OF calm.steps_return] reaches_then [OF reaches_note] calm_rules worker_execute_calm)
  qed
qed

lemma dispatch_provider_reaches: "reaches request (dispatch_provider sv request backend)"
  unfolding dispatch_provider_def
proof (intro reaches_after calm_rules, goal_cases)
  case (1 session usable)
  show ?case
    by (cases usable; simp add: reaches_calm [OF calm.steps_return])
       (intro reaches_then [OF reaches_note] calm_rules, simp)
qed

lemma dispatch_reaches: "reaches request (dispatch sv request backend)"
  unfolding dispatch_def
  by (intro reaches_after calm_rules) (simp add: dispatch_script_reaches dispatch_worker_reaches dispatch_provider_reaches)

section \<open>Answering\<close>

definition response_status :: "ksd_frame \<Rightarrow> u32" where
  "response_status frame = ksd_decode_u32 (payload_bytes frame)"

lemma build_response_status:
  assumes "build_response alloc request status detail diagnostic tail chained = Some frame"
  shows "response_status frame = status"
  using build_response_Some(5,6) [OF assms]
  by (simp add: response_status_def payload_bytes_def response_text_def split: option.splits)

text \<open>An answer that carries a descriptor or reports success discloses what the operation found.\<close>

definition discloses :: "ksd_frame \<Rightarrow> int option \<Rightarrow> bool" where
  "discloses frame fd \<longleftrightarrow> fd \<noteq> None \<or> response_status frame = KSD_STATUS_OK"

definition answers :: "bool \<Rightarrow> event list \<Rightarrow> bool" where
  "answers valid ws \<longleftrightarrow> ws = [] \<or> (\<exists>frame fd ok. ws = [Wrote frame fd ok] \<and> (discloses frame fd \<longrightarrow> valid))"

lemma forward_response_spec:
  "spec (forward_response sv request status detail diagnostic tail chained) (\<lambda>d x d' es. d' = d
     \<and> (ss_role d = KSD_ROLE_RPC \<longrightarrow> answers (status = KSD_STATUS_OK) es))"
proof (rule specI, goal_cases)
  case (1 s)
  have r: "KSD_ROLE_RPC \<noteq> KSD_ROLE_AUTHORIZATION_LEASE" by (simp add: wire_defs)
  show ?case
    unfolding forward_response_def forward_public_def wp_simps lease_lock_def lease_unlock_def
    by (auto split: option.splits intro!: wp_any simp: wp_simps r r [symmetric] answers_def discloses_def dest!: build_response_status)
qed

lemma refuse_spec:
  "status \<noteq> KSD_STATUS_OK \<Longrightarrow> spec (refuse sv request status message) (\<lambda>d x d' es. d' = d \<and> (ss_role d = KSD_ROLE_RPC \<longrightarrow> answers False es))"
  unfolding refuse_def by (rule spec_weaken [OF forward_response_spec]) (auto simp: answers_def)

lemma answer_operation_spec:
  "spec (answer_operation sv request scope valid result) (\<lambda>d x d' es. d' = d \<and> (ss_role d = KSD_ROLE_RPC \<longrightarrow> answers valid es))"
proof (cases "\<not> valid")
  case True
  then show ?thesis unfolding answer_operation_def
    by (simp only: if_True simp_thms) (rule refuse_spec, simp add: wire_defs)
next
  case False
  have "spec (forward_capture sv request result) (\<lambda>d x d' es. d' = d \<and> (ss_role d = KSD_ROLE_RPC \<longrightarrow> answers True es))"
    unfolding forward_capture_def
    by (rule specI) (auto split: option.splits intro!: wp_any simp: wp_simps answers_def)
  moreover have "spec (forward_response sv request status detail diagnostic tail chained) (\<lambda>d x d' es. d' = d \<and> (ss_role d = KSD_ROLE_RPC \<longrightarrow> answers True es))"
    for status detail diagnostic tail chained
    by (rule spec_weaken [OF forward_response_spec]) (auto simp: answers_def)
  ultimately show ?thesis using False unfolding answer_operation_def by simp
qed

text \<open>The second look: the lease still had the scope, at the generation of the first look, and the store said that generation is current.\<close>

definition confirmed :: "u32 \<Rightarrow> u64 \<Rightarrow> event list \<Rightarrow> bool" where
  "confirmed scope generation es \<longleftrightarrow> scope = 0 \<or> (\<exists>lease. Lease_Locked lease \<in> set es \<and> le_active lease \<and> le_generation lease = generation
     \<and> scopes_in scope (le_granted_scopes lease) \<and> Store_Generation (id_uid (le_identity lease)) (Some generation) \<in> set es)"

lemma confirmed_more: "confirmed scope generation es \<Longrightarrow> set es \<subseteq> set fs \<Longrightarrow> confirmed scope generation fs"
  unfolding confirmed_def by blast

lemma refreshed_confirmed:
  assumes "refreshed True d (True, False) d' es" "ss_granted_scopes d' AND scope = scope"
  shows "confirmed scope (ss_generation d') es"
proof -
  obtain lease granted generation cs where l: "lease_checked lease True granted generation False cs" "ss_granted_scopes d' = granted"
      "ss_generation d' = generation" "Lease_Locked lease \<in> set es" "set cs \<subseteq> set es"
    using assms(1) by cases (auto simp: session_updated_def)
  from l(1) show ?thesis
  proof cases
    case same
    then show ?thesis using l assms(2) by (auto simp: confirmed_def scopes_in_def and.commute intro!: exI [of _ lease])
  qed simp_all
qed

lemma still_permitted_spec:
  "spec (still_permitted sv scope before backend) (\<lambda>d valid d' es. ss_lease d \<longrightarrow> settled d d' \<and> mute op es \<and> (valid \<longrightarrow> confirmed scope before es))"
proof (rule specI, goal_cases)
  case (1 s)
  show ?case unfolding still_permitted_def wp_simps
  proof (rule spec_wp [OF session_refresh_spec], goal_cases)
    case (1 x d w es)
    obtain ok changed where x: "x = (ok, changed)" by force
    let ?b = "ok \<and> (scope = 0 \<or> \<not> changed \<and> ss_generation d = before \<and> ss_granted_scopes d AND scope = scope)"
    show ?case
    proof (cases "ss_lease (rn_data s) \<and> ?b")
      case True
      then have r: "refreshed True (rn_data s) (True, changed) d es" using 1 x by simp
      have "confirmed scope before es"
      proof (cases "scope = 0")
        case False
        with True refreshed_confirmed [of "rn_data s" d es scope] r show ?thesis by simp
      qed (simp add: confirmed_def)
      with True refreshed_calm [OF r] show ?thesis
        by (simp add: x, intro spec_wp [OF section_calm(5) [THEN calm.steps_spec]])
           (auto simp: settled_def intro: confirmed_more)
    next
      case False
      then show ?thesis using 1 x refreshed_calm [of True "rn_data s" x d es]
        by (auto simp: wp_simps intro!: spec_wp [OF section_calm(5) [THEN calm.steps_spec]])
    qed
  qed
qed

section \<open>The whole operation\<close>

text \<open>
  An answered run: silence, then an answer that discloses something only under a condition.
  A run that concludes an operation: a second look at the grants, then an answer that needs
  the look to have confirmed the grant. A run that performs one: the desktop is reached at
  most once before that.
\<close>

definition on_duty :: "authority_session \<Rightarrow> bool" where
  "on_duty d \<longleftrightarrow> ss_lease d \<and> ss_role d = KSD_ROLE_RPC"

lemma on_duty_settled: "settled d d' \<Longrightarrow> on_duty d' = on_duty d" "on_duty d \<Longrightarrow> ss_lease d" "on_duty d \<Longrightarrow> ss_role d = KSD_ROLE_RPC"
  by (auto simp: settled_def on_duty_def)

definition replied :: "u16 \<Rightarrow> bool \<Rightarrow> event list \<Rightarrow> bool" where
  "replied op valid es \<longleftrightarrow> (\<exists>rs ws. es = rs @ ws \<and> mute op rs \<and> answers valid ws)"

definition concluded :: "u16 \<Rightarrow> u32 \<Rightarrow> u64 \<Rightarrow> event list \<Rightarrow> bool" where
  "concluded op scope generation es \<longleftrightarrow> (\<exists>rs ws. es = rs @ ws \<and> mute op rs \<and> answers (confirmed scope generation rs) ws)"

definition performed :: "ksd_frame \<Rightarrow> u32 \<Rightarrow> u64 \<Rightarrow> event list \<Rightarrow> bool" where
  "performed request scope generation es \<longleftrightarrow>
     (\<exists>ps cs bs. es = ps @ cs @ bs \<and> reached request ps \<and> concluded (fr_opcode request) scope generation cs \<and> mute (fr_opcode request) bs)"

lemma replied_before: "mute op es \<Longrightarrow> replied op valid fs \<Longrightarrow> replied op valid (es @ fs)"
  unfolding replied_def by (metis append_assoc mute_simps(3))

lemma replied_concluded:
  assumes "mute op es" "valid \<longrightarrow> confirmed scope generation es" "replied op valid fs"
  shows "concluded op scope generation (es @ fs)"
proof -
  obtain rs ws where fs: "fs = rs @ ws" "mute op rs" "answers valid ws" using assms(3) unfolding replied_def by blast
  have "answers (confirmed scope generation (es @ rs)) ws"
    using fs(3) assms(2) confirmed_more [of scope generation es "es @ rs"] by (auto simp: answers_def)
  then show ?thesis unfolding concluded_def using assms(1) fs(1,2) by (metis append_assoc mute_simps(3))
qed

lemma concluded_performed: "reached request es \<Longrightarrow> concluded (fr_opcode request) scope generation fs \<Longrightarrow> performed request scope generation (es @ fs)"
  unfolding performed_def by (rule exI [of _ es], rule exI [of _ fs], rule exI [of _ "[]"]) simp

lemma performed_join:
  assumes "performed request scope generation es"
  shows "mute (fr_opcode request) as \<Longrightarrow> performed request scope generation (as @ es)" "mute (fr_opcode request) bs \<Longrightarrow> performed request scope generation (es @ bs)"
proof -
  obtain ps cs ds where es: "es = ps @ cs @ ds" "reached request ps" "concluded (fr_opcode request) scope generation cs" "mute (fr_opcode request) ds"
    using assms unfolding performed_def by blast
  show "performed request scope generation (as @ es)" if "mute (fr_opcode request) as"
    unfolding performed_def es(1) using reached_join(1) [OF that es(2)] es(3,4) by (metis append_assoc)
  show "performed request scope generation (es @ bs)" if "mute (fr_opcode request) bs"
    unfolding performed_def es(1) using es(2-4) that by (metis append_assoc mute_simps(3))
qed

lemma replied_performed: "replied (fr_opcode request) False es \<Longrightarrow> performed request scope generation es"
  using concluded_performed [of request "[]" scope generation es] replied_concluded [of "fr_opcode request" "[]" False scope generation es]
  by (simp add: reached_def)

text \<open>The computations with such runs, for a session that is on duty.\<close>

definition runs :: "(event list \<Rightarrow> bool) \<Rightarrow> ('w, 'a) authority \<Rightarrow> bool" where
  "runs K m \<longleftrightarrow> spec m (\<lambda>d x d' es. on_duty d \<longrightarrow> settled d d' \<and> K es)"

lemma runs_bind:
  assumes "spec m (\<lambda>d x d' es. on_duty d \<longrightarrow> settled d d' \<and> K x es)" "\<And>x. runs (L x) (f x)"
    and "\<And>x es fs. K x es \<Longrightarrow> L x fs \<Longrightarrow> M (es @ fs)"
  shows "runs M (State_Monad.bind m f)"
  unfolding runs_def
  by (rule spec_bind [OF assms(1) assms(2) [unfolded runs_def]])
     (auto simp: on_duty_settled intro: settled_trans assms(3))

lemma runs_calm: "calm.steps op m \<Longrightarrow> runs (mute op) m"
  unfolding runs_def calm.steps_def by (erule spec_weaken) (auto dest: on_duty_settled(2))

lemma runs_after: "calm.steps op m \<Longrightarrow> (\<And>x. runs K (f x)) \<Longrightarrow> (\<And>es fs. mute op es \<Longrightarrow> K fs \<Longrightarrow> K (es @ fs)) \<Longrightarrow> runs K (State_Monad.bind m f)"
  by (rule runs_bind [where K = "\<lambda>_. mute op" and L = "\<lambda>_. K"]) (auto dest!: runs_calm simp: runs_def)

lemma runs_weaken: "runs K m \<Longrightarrow> (\<And>es. K es \<Longrightarrow> L es) \<Longrightarrow> runs L m"
  unfolding runs_def by (erule spec_weaken) auto

lemma answer_operation_runs: "runs (replied op valid) (answer_operation sv request scope valid result)"
  unfolding runs_def by (rule spec_weaken [OF answer_operation_spec])
    (auto simp: replied_def dest: on_duty_settled(3) intro: exI [of _ "[]"])

lemma refuse_answers: "status \<noteq> KSD_STATUS_OK \<Longrightarrow> runs (answers False) (refuse sv request status message)"
  unfolding runs_def by (rule spec_weaken [OF refuse_spec]) (auto dest: on_duty_settled(3))

lemma refuse_runs: "status \<noteq> KSD_STATUS_OK \<Longrightarrow> runs (replied op False) (refuse sv request status message)"
  unfolding runs_def by (rule spec_weaken [OF refuse_spec]) (auto simp: replied_def dest: on_duty_settled(3) intro: exI [of _ "[]"])

lemma replied_weaken: "replied op valid' es \<Longrightarrow> (valid' \<longrightarrow> valid) \<Longrightarrow> replied op valid es"
  unfolding replied_def answers_def by blast

lemma settled_result:
  assumes "b \<longrightarrow> ksd_state_mutates_windows (fr_opcode request)"
  shows "spec (if valid \<and> b then settle sv request scope backend prior child result else return (valid, result))
     (\<lambda>d x d' es. on_duty d \<longrightarrow> settled d d' \<and> mute (fr_opcode request) es \<and> (fst x \<longrightarrow> valid))"
proof (cases "valid \<and> b")
  case True
  show ?thesis unfolding if_P [OF True]
    by (rule spec_weaken [OF settle_calm [THEN runs_calm, unfolded runs_def]]) (use assms True in auto)
next
  case False
  show ?thesis unfolding if_not_P [OF False] by (simp add: spec_return)
qed

lemma settled_answer:
  assumes "b \<longrightarrow> ksd_state_mutates_windows (fr_opcode request)"
  shows "runs (replied (fr_opcode request) valid) (State_Monad.bind
     (if valid \<and> b then settle sv request scope backend prior child result else return (valid, result))
     (\<lambda>(valid, result). answer_operation sv request scope valid result))"
proof (rule runs_bind [OF settled_result [OF assms]])
  show "runs (replied (fr_opcode request) (fst x)) (case x of (valid, result) \<Rightarrow> answer_operation sv request scope valid result)" for x
    by (cases x) (simp add: answer_operation_runs)
  show "mute (fr_opcode request) es \<and> (fst x \<longrightarrow> valid) \<Longrightarrow> replied (fr_opcode request) (fst x) fs \<Longrightarrow> replied (fr_opcode request) valid (es @ fs)" for x :: "bool \<times> ksd_operation_result" and es fs
    by (auto intro: replied_before replied_weaken)
qed

lemma perform_operation_runs:
  "spec (perform_operation sv request scope backend) (\<lambda>d x d' es. on_duty d \<longrightarrow> settled d d' \<and> performed request scope (ss_generation d) es)"
proof -
  let ?rest = "\<lambda>generation prior child. State_Monad.bind (dispatch sv request backend) (\<lambda>result.
    State_Monad.bind (still_permitted sv scope generation backend) (\<lambda>valid. State_Monad.bind
      (if valid \<and> res_status result = KSD_STATUS_OK \<and> ksd_state_mutates_windows (fr_opcode request)
       then settle sv request scope backend prior child result else return (valid, result))
      (\<lambda>(valid, result). answer_operation sv request scope valid result)))"
  have rest: "runs (performed request scope generation) (?rest generation prior child)" for generation prior child
  proof (rule runs_bind [where K = "\<lambda>_. reached request" and L = "\<lambda>_. concluded (fr_opcode request) scope generation"])
    show "spec (dispatch sv request backend) (\<lambda>d x d' es. on_duty d \<longrightarrow> settled d d' \<and> reached request es)"
      using dispatch_reaches [unfolded reaches_def] by (rule spec_weaken) (auto dest: on_duty_settled(2))
    show "runs (concluded (fr_opcode request) scope generation) (State_Monad.bind (still_permitted sv scope generation backend) (\<lambda>valid. State_Monad.bind
      (if valid \<and> res_status result = KSD_STATUS_OK \<and> ksd_state_mutates_windows (fr_opcode request)
       then settle sv request scope backend prior child result else return (valid, result))
      (\<lambda>(valid, result). answer_operation sv request scope valid result)))" for result
    proof (rule runs_bind [where K = "\<lambda>valid es. mute (fr_opcode request) es \<and> (valid \<longrightarrow> confirmed scope generation es)" and L = "replied (fr_opcode request)"])
      show "spec (still_permitted sv scope generation backend)
          (\<lambda>d valid d' es. on_duty d \<longrightarrow> settled d d' \<and> mute (fr_opcode request) es \<and> (valid \<longrightarrow> confirmed scope generation es))"
        by (rule spec_weaken [OF still_permitted_spec]) (auto dest: on_duty_settled(2))
    qed (rule settled_answer, simp, auto intro: replied_concluded)
  qed (rule concluded_performed)
  show ?thesis unfolding perform_operation_def
  proof (rule specI, unfold wp_bind wp_data, goal_cases)
    case (1 s)
    have "runs (performed request scope (ss_generation (rn_data s))) (State_Monad.bind (prior_window sv request backend)
        (\<lambda>(prior, child). ?rest (ss_generation (rn_data s)) prior child))"
      by (rule runs_after [OF prior_window_calm]) (auto split: prod.split intro: rest performed_join)
    then show ?case unfolding runs_def spec_def wp_bind by blast
  qed
qed

text \<open>The budgets around the operation.\<close>

definition performs :: "ksd_frame \<Rightarrow> u32 \<Rightarrow> ('w, 'a) authority \<Rightarrow> bool" where
  "performs request scope m \<longleftrightarrow> spec m (\<lambda>d x d' es. on_duty d \<longrightarrow> settled d d' \<and> performed request scope (ss_generation d) es)"

lemma performs_after:
  assumes "plain.steps m" "\<And>x. performs request scope (f x)"
  shows "performs request scope (State_Monad.bind m f)"
  unfolding performs_def
  by (rule spec_bind [OF assms(1) [THEN plain.steps_spec] assms(2) [unfolded performs_def]])
     (auto simp: on_duty_settled intro: settled_trans performed_join)

lemma performs_then:
  assumes "performs request scope m" "\<And>x. calm.steps (fr_opcode request) (f x)"
  shows "performs request scope (State_Monad.bind m f)"
  unfolding performs_def
  by (rule spec_bind [OF assms(1) [unfolded performs_def] assms(2) [THEN runs_calm, unfolded runs_def]])
     (auto simp: on_duty_settled intro: settled_trans performed_join)

lemma replied_performs: "runs (replied (fr_opcode request) False) m \<Longrightarrow> performs request scope m"
  unfolding performs_def runs_def by (erule spec_weaken) (auto intro: replied_performed)

lemma release_and_refuse_runs:
  "status \<noteq> KSD_STATUS_OK \<Longrightarrow> runs (replied op False) (release_and_refuse sv backend request status message)"
  unfolding release_and_refuse_def by (rule runs_after [OF section_calm(4)]) (auto intro: refuse_runs replied_before)

lemma execute_admitted_performs: "performs request scope (execute_admitted sv request scope backend)"
proof -
  have r: "performs request scope (release_and_refuse sv backend request status message)" if "status \<noteq> KSD_STATUS_OK" for status message
    by (rule replied_performs [OF release_and_refuse_runs [OF that]])
  have e: "KSD_STATUS_BUSY \<noteq> KSD_STATUS_OK" "KSD_STATUS_RESOURCE_EXHAUSTED \<noteq> KSD_STATUS_OK" by (simp_all add: wire_defs)
  have only: "plain.steps (only_if b m)" if "plain.steps m" for b and m :: "('a, unit) authority"
    using that by (simp add: only_if_def plain.steps_return)
  have p: "performs request scope (perform_operation sv request scope backend)"
    unfolding performs_def by (rule perform_operation_runs)
  have tail: "performs request scope (State_Monad.bind (perform_operation sv request scope backend) (\<lambda>ok. State_Monad.bind data (\<lambda>session.
      State_Monad.bind (only_if capture (capture_release sv (id_uid (ss_identity session)) (id_pid (ss_identity session)))) (\<lambda>_.
      State_Monad.bind (only_if script (kwin_release sv (id_pid (ss_identity session)))) (\<lambda>_.
      State_Monad.bind (release_snapshot sv backend) (\<lambda>_. return ok))))))" for capture script
    by (intro performs_then [OF p] calm_rules only_if_calm)
  show ?thesis unfolding execute_admitted_def Let_def
    apply (rule performs_after [OF plain.steps_data], rule performs_after, intro plain.steps_rules section_plain)
    subgoal for session slot
      apply (cases slot; simp only: simp_thms if_True if_False r [OF e(1)])
      apply (rule performs_after, intro plain.steps_rules section_plain)
      subgoal for memory
        by (cases memory; simp only: simp_thms if_True if_False tail)
           (rule performs_after, rule only, rule section_plain, rule r [OF e(2)])
      done
    done
qed

text \<open>
  The first look: a lease that was found active has the scope, at a generation the store
  reported. An executed operation is refused before the desktop is reached, or has a
  first look behind it.
\<close>

definition looked :: "u32 \<Rightarrow> u64 \<Rightarrow> event list \<Rightarrow> bool" where
  "looked scope generation es \<longleftrightarrow> (\<exists>lease granted changed cs. Lease_Locked lease \<in> set es \<and> set cs \<subseteq> set es
     \<and> lease_checked lease True granted generation changed cs \<and> scopes_in scope granted)"

definition turned_down :: "event list \<Rightarrow> bool" where
  "turned_down es \<longleftrightarrow> (\<exists>rs ws. es = rs @ ws \<and> (\<forall>op. mute op rs) \<and> blind rs \<and> answers False ws)"

lemma turned_downI: "(\<And>op. mute op rs) \<Longrightarrow> blind rs \<Longrightarrow> answers False ws \<Longrightarrow> turned_down (rs @ ws)"
  unfolding turned_down_def by blast

definition executed :: "ksd_frame \<Rightarrow> event list \<Rightarrow> bool" where
  "executed request es \<longleftrightarrow> turned_down es \<or> (\<exists>as fs generation. es = as @ fs \<and> mute (fr_opcode request) as \<and> blind as
     \<and> looked (ksd_operation_scope (fr_opcode request)) generation as
     \<and> (ksd_operation_scope (fr_opcode request) = 0 \<longrightarrow> ksd_operation_scope_free (fr_opcode request))
     \<and> performed request (ksd_operation_scope (fr_opcode request)) generation fs)"

lemma looked_more: "looked scope generation es \<Longrightarrow> set es \<subseteq> set fs \<Longrightarrow> looked scope generation fs"
  unfolding looked_def by blast

lemma refreshed_looked:
  assumes "refreshed notify d (True, changed) d' es" "scope = 0 \<or> ss_granted_scopes d' AND scope = scope"
  shows "looked scope (ss_generation d') es"
proof -
  obtain lease granted generation cs where l: "lease_checked lease True granted generation changed cs" "ss_granted_scopes d' = granted"
      "ss_generation d' = generation" "Lease_Locked lease \<in> set es" "set cs \<subseteq> set es"
    using assms(1) by cases (auto simp: session_updated_def)
  have "scopes_in scope granted" using assms(2) l(2) by (auto simp: scopes_in_def and.commute)
  with l show ?thesis unfolding looked_def by blast
qed

lemma refused_runs:
  "runs (replied op False) (refuse sv request KSD_STATUS_UNSUPPORTED m)" "runs (replied op False) (refuse sv request KSD_STATUS_INVALID_REQUEST m)"
  "runs (replied op False) (refuse sv request KSD_STATUS_INTERNAL m)" "runs (replied op False) (refuse sv request KSD_STATUS_DENIED m)"
  "runs (replied op False) (refuse sv request KSD_STATUS_UNAVAILABLE m)"
  "runs (replied op False) (release_and_refuse sv backend request KSD_STATUS_UNAVAILABLE m)"
  "runs (replied op False) (release_and_refuse sv backend request KSD_STATUS_INVALID_REQUEST m)"
  by (intro refuse_runs release_and_refuse_runs; simp add: wire_defs)+

text \<open>What follows the first look.\<close>

definition after_look :: "'w services \<Rightarrow> ksd_frame \<Rightarrow> ('w, bool) authority" where
  "after_look sv request = do {
     session \<leftarrow> data;
     (found, backend) \<leftarrow> take_snapshot sv (id_uid (ss_identity session));
     usable \<leftarrow> (if found then snapshot_valid sv backend else return False);
     if \<not> usable then do {
       only_if found (release_snapshot sv backend);
       update (\<lambda>ss. ss\<lparr>ss_backend := KSD_BACKEND_NONE\<rparr>);
       refuse sv request KSD_STATUS_UNAVAILABLE ''operation is unavailable on this backend'' }
     else do {
       update (\<lambda>ss. ss\<lparr>ss_backend := sn_backend backend\<rparr>);
       if ksd_backend_reported_operations (sn_backend backend) True (sn_advertised backend) AND ksd_operation_bit (fr_opcode request) = 0
       then release_and_refuse sv backend request KSD_STATUS_UNAVAILABLE ''operation is unavailable on this backend''
       else if fr_opcode request = KSD_OP_WINDOW_WATCH \<or> fr_opcode request = KSD_OP_CLIPBOARD_WATCH
       then release_and_refuse sv backend request KSD_STATUS_INVALID_REQUEST ''subscribe to state on the lease connection''
       else if ss_role session \<noteq> KSD_ROLE_RPC
       then release_and_refuse sv backend request KSD_STATUS_INVALID_REQUEST ''event streams only accept subscriptions''
       else execute_admitted sv request (ksd_operation_scope (fr_opcode request)) backend }}"

lemma after_look_performs: "performs request (ksd_operation_scope (fr_opcode request)) (after_look sv request)"
proof -
  have only: "plain.steps (only_if b m)" if "plain.steps m" for b and m :: "('a, unit) authority"
    using that by (simp add: only_if_def plain.steps_return)
  have lost: "runs (replied (fr_opcode request) False) (State_Monad.bind (only_if found (release_snapshot sv backend)) (\<lambda>_.
      State_Monad.bind (update (\<lambda>ss. ss\<lparr>ss_backend := b\<rparr>)) (\<lambda>_. refuse sv request KSD_STATUS_UNAVAILABLE m)))" for found backend b m
    by (intro runs_after [where op = "fr_opcode request"] refused_runs calm_rules only_if_calm) (simp_all add: replied_before)
  show ?thesis unfolding after_look_def
    apply (rule performs_after [OF plain.steps_data], rule performs_after [OF section_plain(3)])
    apply (rule prod.split [THEN iffD2], intro allI impI, rule performs_after, intro plain.steps_rules section_plain)
    subgoal for session r found backend usable
      apply (cases usable; simp only: simp_thms if_True if_False lost replied_performs)
      apply (rule performs_after, rule plain.steps_update, simp)
      apply (simp only: refused_runs replied_performs execute_admitted_performs if_split_eq1 simp_thms split: if_split)
      done
    done
qed

lemma execute_operation_executes:
  "spec (execute_operation sv request) (\<lambda>d x d' es. on_duty d \<longrightarrow> settled d d' \<and> executed request es)"
proof (rule specI, goal_cases)
  case (1 s)
  let ?op = "fr_opcode request"
  let ?scope = "ksd_operation_scope ?op"
  let ?Q = "\<lambda>x t. \<exists>es. rn_log t = rn_log s @ es \<and> (on_duty (rn_data s) \<longrightarrow> settled (rn_data s) (rn_data t) \<and> executed request es)"
  have refused: "wp m ?Q s" if "runs (answers False) m" for m :: "('a, bool) authority"
    by (rule spec_wp [OF that [unfolded runs_def]]) (use turned_downI [of "[]"] in \<open>auto simp: executed_def blind_def\<close>)
  have look: "wp (session_refresh sv True True) (\<lambda>(ok, changed) t. wp (if \<not> ok then return False
      else if ?scope \<noteq> 0 \<and> ss_granted_scopes (rn_data t) AND ?scope \<noteq> ?scope
      then refuse sv request KSD_STATUS_DENIED ''required permission is not granted'' else after_look sv request) ?Q t) s"
    if free: "?scope = 0 \<longrightarrow> ksd_operation_scope_free ?op"
  proof (rule spec_wp [OF session_refresh_spec], goal_cases)
    case (1 x d w as)
    obtain ok changed where x: "x = (ok, changed)" by force
    have as: "settled (rn_data s) d \<and> (\<forall>op. mute op as) \<and> blind as" if "on_duty (rn_data s)"
      using 1 that by (blast dest: on_duty_settled refreshed_calm)
    show ?case
    proof (cases ok)
      case False
      show ?thesis using as False turned_downI [of as "[]"] by (auto simp: x wp_simps executed_def answers_def)
    next
      case True
      show ?thesis
      proof (cases "?scope \<noteq> 0 \<and> ss_granted_scopes d AND ?scope \<noteq> ?scope")
        case denied: True
        show ?thesis unfolding x prod.case using True denied
          by (simp, intro spec_wp [OF refuse_answers [unfolded runs_def]])
             (use as in \<open>auto simp: executed_def on_duty_settled intro: settled_trans turned_downI\<close>, simp add: wire_defs)
      next
        case granted: False
        have "looked ?scope (ss_generation d) as" if "on_duty (rn_data s)"
          using 1 that True granted unfolding x by (intro refreshed_looked) (auto dest: on_duty_settled)
        then have e: "executed request (as @ fs)" if "on_duty (rn_data s)" "performed request ?scope (ss_generation d) fs" for fs
          using as that free unfolding executed_def by blast
        have d: "rn_data (s\<lparr>rn_data := d, rn_world := w, rn_log := rn_log s @ as\<rparr>) = d" by simp
        show ?thesis unfolding x prod.case d if_not_P [OF granted]
          by (simp only: True simp_thms if_False, rule spec_wp [OF after_look_performs [unfolded performs_def]])
             (use as e in \<open>auto simp: on_duty_settled intro: settled_trans\<close>)
      qed
    qed
  qed
  show ?case
  proof (cases "ksd_operation_bit ?op = 0 \<or> (ss_role (rn_data s) \<noteq> KSD_ROLE_RPC \<and> ss_role (rn_data s) \<noteq> KSD_ROLE_EVENT_STREAM)
      \<or> (?scope = 0 \<and> \<not> ksd_operation_scope_free ?op)")
    case True
    then show ?thesis unfolding execute_operation_def Let_def wp_simps
      by (auto intro!: refused refuse_answers simp: wire_defs)
  next
    case False
    then have "\<not> (ksd_operation_bit ?op = 0)" "\<not> (ss_role (rn_data s) \<noteq> KSD_ROLE_RPC \<and> ss_role (rn_data s) \<noteq> KSD_ROLE_EVENT_STREAM)"
      "\<not> (?scope = 0 \<and> \<not> ksd_operation_scope_free ?op)" by blast+
    note off = this [THEN if_not_P]
    show ?thesis unfolding execute_operation_def Let_def wp_bind wp_data off
      by (rule wp_mono [OF look]) (use False in \<open>auto simp: after_look_def wp_simps Let_def\<close>)
  qed
qed

section \<open>What the log of an operation shows\<close>

lemma split_middle:
  assumes "as @ bs @ cs = pre @ e # post" "e \<notin> set as" "e \<notin> set cs"
  obtains pre' post' where "pre = as @ pre'" "post = post' @ cs" "bs = pre' @ e # post'"
proof -
  from assms(1) obtain pre' where pre: "pre = as @ pre'" "bs @ cs = pre' @ e # post"
    using assms(2) by (induction as arbitrary: pre) (auto simp: Cons_eq_append_conv)
  from pre(2) obtain us where "bs = pre' @ us" "us @ cs = e # post"
    unfolding append_eq_append_conv2 using assms(3) by auto
  with assms(3) that [OF pre(1)] show thesis by (cases us) auto
qed

lemma answers_no_dispatch: "answers valid ws \<Longrightarrow> Dispatched route f \<notin> set ws"
  by (auto simp: answers_def)

lemma reached_no_answer: "reached request es \<Longrightarrow> Wrote f fd ok \<notin> set es"
  by (auto simp: reached_def dest: mute_no)

text \<open>The parts of an execution that got past the first look.\<close>

lemma executed_parts:
  assumes "executed request es"
  obtains (refused) "\<And>route f. Dispatched route f \<notin> set es" "\<And>f fd ok. Wrote f fd ok \<in> set es \<Longrightarrow> \<not> discloses f fd" "blind es"
  | (admitted) as ps rs ws bs generation where "es = as @ ps @ rs @ ws @ bs" "mute (fr_opcode request) as" "reached request ps"
      "mute (fr_opcode request) rs" "mute (fr_opcode request) bs"
      "looked (ksd_operation_scope (fr_opcode request)) generation as"
      "ksd_operation_scope (fr_opcode request) = 0 \<longrightarrow> ksd_operation_scope_free (fr_opcode request)"
      "answers (confirmed (ksd_operation_scope (fr_opcode request)) generation rs) ws" "blind as"
  using assms unfolding executed_def
proof (elim disjE exE conjE, goal_cases)
  case 1
  then obtain rs ws where *: "es = rs @ ws" "\<And>op. mute op rs" "blind rs" "answers False ws" unfolding turned_down_def by blast
  then have "Dispatched route f \<notin> set es" for route f using mute_no(1) [OF *(2)] answers_no_dispatch [OF *(4)] by simp
  moreover have "\<not> discloses f fd" if "Wrote f fd ok \<in> set es" for f fd ok
    using that * mute_no(2) [OF *(2)] by (auto simp: answers_def)
  moreover have "blind es" using * by (auto simp: answers_def blind_def)
  ultimately show ?case by (rule refused)
next
  case (2 as fs generation)
  then show ?case unfolding performed_def concluded_def by (elim exE conjE) (rule admitted; simp)
qed

definition store_reported :: "event list \<Rightarrow> u32 \<Rightarrow> u64 \<Rightarrow> bool" where
  "store_reported es uid generation \<longleftrightarrow> Store_Generation uid (Some generation) \<in> set es
     \<or> (\<exists>hash requested allowed. Store_Check uid hash requested (Some (allowed, generation)) \<in> set es)"

lemma looked_granted:
  assumes "looked scope generation es" "scope \<noteq> 0" "store_honest grants es" "\<forall>lease. Lease_Locked lease \<in> set es \<longrightarrow> backed grants lease"
  obtains lease where "Lease_Locked lease \<in> set es" "le_active lease" "store_reported es (id_uid (le_identity lease)) generation"
    "scopes_in scope (grants (id_uid (le_identity lease)) (id_hash (le_identity lease)) generation)"
proof -
  obtain lease granted changed cs where l: "Lease_Locked lease \<in> set es" "set cs \<subseteq> set es"
      "lease_checked lease True granted generation changed cs" "scopes_in scope granted"
    using assms(1) unfolding looked_def by blast
  have "store_honest grants cs" using assms(3) l(2) by (auto simp: store_honest_def)
  then have "backed grants (lease_updated lease generation granted)"
    using lease_checked_backed [OF l(3)] assms(4) l(1) by blast
  then have g: "scopes_in scope (grants (id_uid (le_identity lease)) (id_hash (le_identity lease)) generation)"
    using scopes_in_trans [OF l(4)] by (auto simp: backed_def lease_updated_def lease_grants_def scopes_in_and)
  have "le_active lease \<and> store_reported cs (id_uid (le_identity lease)) generation"
    using l(3) by cases (auto simp: store_reported_def)
  with that [OF l(1) _ _ g] l(2) show thesis by (auto simp: store_reported_def)
qed

definition permitted :: "grant_history \<Rightarrow> u16 \<Rightarrow> event list \<Rightarrow> bool" where
  "permitted grants opcode es \<longleftrightarrow> ksd_operation_scope opcode = 0 \<and> ksd_operation_scope_free opcode
     \<or> (\<exists>lease generation. Lease_Locked lease \<in> set es \<and> le_active lease
         \<and> store_reported es (id_uid (le_identity lease)) generation
         \<and> scopes_in (ksd_operation_scope opcode) (grants (id_uid (le_identity lease)) (id_hash (le_identity lease)) generation))"

lemma looked_permitted:
  assumes "looked (ksd_operation_scope opcode) generation es" "ksd_operation_scope opcode = 0 \<longrightarrow> ksd_operation_scope_free opcode"
    and "store_honest grants es" "\<forall>lease. Lease_Locked lease \<in> set es \<longrightarrow> backed grants lease"
  shows "permitted grants opcode es"
proof (cases "ksd_operation_scope opcode = 0")
  case False
  from looked_granted [OF assms(1) False assms(3,4)] show ?thesis unfolding permitted_def by metis
qed (simp add: permitted_def assms(2))

lemma permitted_more: "permitted grants opcode es \<Longrightarrow> set es \<subseteq> set fs \<Longrightarrow> permitted grants opcode fs"
  unfolding permitted_def store_reported_def by blast

lemma split_after:
  assumes "as @ bs = pre @ e # post" "e \<notin> set as"
  obtains pre' where "pre = as @ pre'" "bs = pre' @ e # post"
  using split_middle [of as bs "[]" pre e post] assms by auto

lemma looked_before:
  assumes "looked (ksd_operation_scope opcode) generation as" "ksd_operation_scope opcode = 0 \<longrightarrow> ksd_operation_scope_free opcode"
    and "store_honest grants (as @ bs)" "\<forall>lease. Lease_Locked lease \<in> set (as @ bs) \<longrightarrow> backed grants lease"
  shows "permitted grants opcode (as @ bs)"
proof -
  have "permitted grants opcode as" using assms(3,4) by (intro looked_permitted [OF assms(1,2)]) auto
  then show ?thesis by (rule permitted_more) simp
qed

text \<open>The one dispatch of a run that reaches the desktop.\<close>

lemma reached_once:
  assumes "reached request (pre @ Dispatched route f # post)"
  shows "f = request \<and> (\<forall>route f. Dispatched route f \<notin> set (pre @ post))"
proof -
  let ?op = "fr_opcode request"
  from assms obtain p1 route' p2 where q: "pre @ Dispatched route f # post = p1 @ Dispatched route' request # p2" "mute ?op p1" "mute ?op p2"
    unfolding reached_def by auto
  have no: "filter (speaks ?op) p1 = []" "filter (speaks ?op) p2 = []"
    using q(2,3) by (auto simp: mute_def list_ex_iff filter_empty_conv)
  have "pre = p1 \<and> Dispatched route f = Dispatched route' request \<and> post = p2"
    by (rule unique_split [of p1 "Dispatched route' request" p2 pre "Dispatched route f" post "speaks ?op"]) (use q(1) no in simp_all)
  then show ?thesis using mute_no(1) [OF q(2)] mute_no(1) [OF q(3)] by auto
qed

lemma executed_observes:
  assumes "executed request es" "Observed relay f result \<in> set es"
  shows "own_query (fr_opcode request) f"
  using assms(1)
proof (cases rule: executed_parts)
  case refused
  with assms(2) show ?thesis by (auto simp: blind_def)
next
  case (admitted as ps rs ws bs generation)
  then consider "Observed relay f result \<in> set (as @ rs @ bs)" | "Observed relay f result \<in> set ps"
    using assms(2) by (auto simp: answers_def)
  then show ?thesis
    by cases (use admitted in \<open>auto simp: reached_def dest: mute_no(3)\<close>)
qed

text \<open>The frame with which the desktop is reached, by the client's request or by the authority's own query.\<close>

fun to_desktop :: "event \<Rightarrow> ksd_frame option" where
  "to_desktop (Dispatched _ frame) = Some frame"
| "to_desktop (Observed _ frame _) = Some frame"
| "to_desktop _ = None"

text \<open>
  C1: Whatever is sent to the desktop for an operation is sent only after the authority
  has looked: the operation is one of the few that need no permission, or the lease of the
  client was found active and the store had granted it the scope of the operation at a
  generation the store reported for that look. What is sent is the client's own request, which
  is dispatched at most once, or a window query of the authority itself, and such queries
  accompany only operations that change windows.
\<close>

theorem dispatch_authorized:
  assumes "run_state (execute_operation sv request) s = (x, t)" "ss_lease (rn_data s)" "ss_role (rn_data s) = KSD_ROLE_RPC"
    and log: "rn_log t = rn_log s @ pre @ e # post" and sent: "to_desktop e = Some f"
    and store: "store_honest grants pre" "\<forall>lease. Lease_Locked lease \<in> set pre \<longrightarrow> backed grants lease"
  shows "permitted grants (fr_opcode request) pre
    \<and> ((\<exists>route. e = Dispatched route request) \<and> f = request \<and> (\<forall>route f. Dispatched route f \<notin> set (pre @ post))
       \<or> (\<exists>relay handle result. e = Observed relay f result \<and> f = query_frame handle) \<and> ksd_state_mutates_windows (fr_opcode request))"
proof -
  have ex: "executed request (pre @ e # post)"
    using spec_run [OF execute_operation_executes assms(1)] assms(2,3) log by (auto simp: on_duty_def)
  then show ?thesis
  proof (cases rule: executed_parts)
    case refused
    have "Observed relay f result \<noteq> e" "Dispatched route f \<noteq> e" for relay route f result
      using refused(1) [of route f] refused(3) by (auto simp: blind_def)
    with sent show ?thesis by (cases e) auto
  next
    case (admitted as ps rs ws bs generation)
    have "e \<notin> set as" using sent mute_no(1) [OF admitted(2)] admitted(9) by (cases e) (auto simp: blind_def)
    from split_after [OF admitted(1) [symmetric] this] obtain pre' where p: "pre = as @ pre'" "ps @ rs @ ws @ bs = pre' @ e # post" .
    have "permitted grants (fr_opcode request) pre" using looked_before [OF admitted(6,7)] store unfolding p(1) by blast
    moreover consider (client) route where "e = Dispatched route f" | (own) relay result where "e = Observed relay f result"
      using sent by (cases e) auto
    then have "(\<exists>route. e = Dispatched route request) \<and> f = request \<and> (\<forall>route f. Dispatched route f \<notin> set (pre @ post))
       \<or> (\<exists>relay handle result. e = Observed relay f result \<and> f = query_frame handle) \<and> ksd_state_mutates_windows (fr_opcode request)"
    proof cases
      case client
      have none: "Dispatched route f \<notin> set (rs @ ws @ bs)" "Dispatched route f \<notin> set as" for route f
        using admitted answers_no_dispatch mute_no(1) by (metis Un_iff set_append)+
      obtain post' where q: "post = post' @ rs @ ws @ bs" "ps = pre' @ Dispatched route f # post'"
        using split_middle [of "[]" ps "rs @ ws @ bs" pre' "Dispatched route f" post] p(2) none(1) client by auto
      from reached_once [OF admitted(3) [unfolded q(2)]] show ?thesis using client none p(1) q(1) by auto
    next
      case own
      then have "own_query (fr_opcode request) f" using executed_observes [OF ex, of relay f result] by simp
      with own show ?thesis by (auto simp: own_query_def)
    qed
    ultimately show ?thesis ..
  qed
qed

text \<open>
  C2: An answer that succeeds or hands a descriptor to the client is written only
  when a second look, after everything the operation did to the desktop, has found the same lease scope
  at the generation of the first look, and the store confirmed that generation is still
  current: what was found while a permission was being revoked stays inside.
\<close>

theorem result_confirmed:
  assumes "run_state (execute_operation sv request) s = (x, t)" "ss_lease (rn_data s)" "ss_role (rn_data s) = KSD_ROLE_RPC"
    and log: "rn_log t = rn_log s @ pre @ Wrote f fd ok # post" and "discloses f fd"
  shows "\<exists>before after generation. pre = before @ after \<and> (\<forall>route f. Dispatched route f \<notin> set (after @ post))
    \<and> looked (ksd_operation_scope (fr_opcode request)) generation before
    \<and> confirmed (ksd_operation_scope (fr_opcode request)) generation after"
proof -
  have "executed request (pre @ Wrote f fd ok # post)"
    using spec_run [OF execute_operation_executes assms(1)] assms(2,3) log by (auto simp: on_duty_def)
  then show ?thesis
  proof (cases rule: executed_parts)
    case refused
    from refused(2) [of f fd ok] assms(5) show ?thesis by simp
  next
    case (admitted as ps rs ws bs generation)
    have none: "Wrote f fd ok \<notin> set (as @ ps @ rs)" "Wrote f fd ok \<notin> set bs"
      using admitted(2-5) reached_no_answer mute_no(2) by (metis Un_iff set_append)+
    obtain pre' post' where p: "pre = (as @ ps @ rs) @ pre'" "post = post' @ bs" "ws = pre' @ Wrote f fd ok # post'"
      using split_middle [of "as @ ps @ rs" ws bs pre "Wrote f fd ok" post] none admitted(1) by auto
    have w: "pre' = []" "post' = []" "confirmed (ksd_operation_scope (fr_opcode request)) generation rs"
      using admitted(8) p(3) assms(5) by (auto simp: answers_def Cons_eq_append_conv append_eq_Cons_conv)
    have "looked (ksd_operation_scope (fr_opcode request)) generation (as @ ps)" using looked_more [OF admitted(6)] by simp
    then show ?thesis using p w mute_no(1) [OF admitted(4)] mute_no(1) [OF admitted(5)]
      by (intro exI [of _ "as @ ps"] exI [of _ rs] exI [of _ generation]) simp
  qed
qed

section \<open>A desktop that answers\<close>

text \<open>The sample surroundings with one registered compositor, whose script lists the windows.\<close>

definition desktop_slot :: backend_slot where
  "desktop_slot = backend_blank\<lparr>bk_active := True, bk_uid := 1000, bk_descriptor := 5, bk_backend := KSD_BACKEND_KWIN,
     bk_advertised := KSD_OPERATION_WINDOW_LIST, bk_relay := Some 9, bk_identity := sample_identity, bk_provider_identity := sample_identity\<rparr>"

definition desktop_services :: "u32 services" where
  "desktop_services = sample_services\<lparr>sv_registry := (\<lambda>w. ([desktop_slot], w)),
     sv_relay_call := (\<lambda>_ _ _ w. (ksd_result_init\<lparr>res_status := KSD_STATUS_OK\<rparr>, w))\<rparr>"

definition desktop_start :: "u32 \<Rightarrow> (authority_session, u32, event) run" where
  "desktop_start w = \<lparr>rn_data = sample_session\<lparr>ss_role := KSD_ROLE_RPC\<rparr>, rn_world = w, rn_log = []\<rparr>"

definition list_request :: ksd_frame where
  "list_request = frame_zero\<lparr>fr_magic := public_magic, fr_major := KSD_PROTOCOL_MAJOR, fr_minor := KSD_PROTOCOL_MINOR,
     fr_opcode := KSD_OP_WINDOW_LIST, fr_request_id := 3\<rparr>"

lemma list_request_simps [simp]: "fr_opcode list_request = KSD_OP_WINDOW_LIST" "ksd_operation_scope KSD_OP_WINDOW_LIST = KSD_SCOPE_WINDOW_MONITORING"
  "ksd_operation_bit KSD_OP_WINDOW_LIST = KSD_OPERATION_WINDOW_LIST" "is_capture KSD_OP_WINDOW_LIST = False" "ksd_state_mutates_windows KSD_OP_WINDOW_LIST = False"
  by (simp_all add: list_request_def ksd_operation_scope_def ksd_operation_bit_def operation_bit_table_def wire_defs is_capture_def ksd_state_mutates_windows_def)

definition desktop_lease :: authority_lease where
  "desktop_lease = world_lease KSD_SCOPE_WINDOW_MONITORING"

lemma desktop_lease_simps [simp]: "le_active desktop_lease" "le_granted_scopes desktop_lease = KSD_SCOPE_WINDOW_MONITORING"
  "le_requested_scopes desktop_lease = KSD_SCOPE_WINDOW_MONITORING" "le_identity desktop_lease = sample_identity"
  "le_generation desktop_lease = ucast KSD_SCOPE_WINDOW_MONITORING + 7"
  by (simp_all add: desktop_lease_def world_lease_def sample_lease_def)

lemma desktop_world [simp]:
  "sv_lease_lock desktop_services KSD_SCOPE_WINDOW_MONITORING = (desktop_lease, KSD_SCOPE_WINDOW_MONITORING)"
  "sv_generation desktop_services uid KSD_SCOPE_WINDOW_MONITORING = (Some (ucast KSD_SCOPE_WINDOW_MONITORING + 7), KSD_SCOPE_WINDOW_MONITORING)"
  by (simp_all add: desktop_services_def desktop_lease_def)

lemma desktop_refresh:
  assumes "rn_world s = KSD_SCOPE_WINDOW_MONITORING" "ss_lease (rn_data s)"
  shows "run_state (session_refresh desktop_services True True) s = ((True, False),
    s\<lparr>rn_data := session_updated desktop_lease (ucast KSD_SCOPE_WINDOW_MONITORING + 7) KSD_SCOPE_WINDOW_MONITORING (rn_data s),
      rn_log := rn_log s @ [Lease_Locked desktop_lease, Store_Generation 1000 (Some (ucast KSD_SCOPE_WINDOW_MONITORING + 7)),
        Lease_Unlocked desktop_lease]\<rparr>)"
proof -
  have l: "desktop_lease\<lparr>le_generation := ucast KSD_SCOPE_WINDOW_MONITORING + 7, le_granted_scopes := KSD_SCOPE_WINDOW_MONITORING\<rparr> = desktop_lease"
    by (simp add: desktop_lease_def world_lease_def sample_lease_def)
  have u: "sv_lease_unlock desktop_services = (\<lambda>_ w. w)" "sv_revalidate_cached desktop_services = (\<lambda>i w. (Some i, w))"
    by (simp_all add: desktop_services_def)
  show ?thesis
    using assms by (simp add: session_refresh_def refresh_lease_def lease_check_def lease_lock_def lease_unlock_def store_generation_def
       still_same_def run_simps Let_def l u session_updated_def) (simp add: sample_identity_def same_identity_def)
qed

definition desktop_look :: "event list" where
  "desktop_look = [Lease_Locked desktop_lease, Store_Generation 1000 (Some (ucast KSD_SCOPE_WINDOW_MONITORING + 7)), Lease_Unlocked desktop_lease]"

lemma desktop_registry [simp]:
  "run_state (registry_section desktop_services f) s = (case f [desktop_slot] of (x, slots, actions) \<Rightarrow> (x, s\<lparr>rn_log := rn_log s @ [Relay_Did actions]\<rparr>))"
  "run_state (relay_do desktop_services actions) s = ((), s\<lparr>rn_log := rn_log s @ [Relay_Did actions]\<rparr>)"
  "run_state (milliseconds desktop_services) s = (1000, s)"
  "sv_revalidate_cached desktop_services = (\<lambda>i w. (Some i, w))"
  "sv_relay_call desktop_services = (\<lambda>_ _ _ w. (ksd_result_init\<lparr>res_status := KSD_STATUS_OK\<rparr>, w))"
  by (simp_all add: registry_section_def relay_do_def milliseconds_def desktop_services_def run_simps split: prod.splits)

definition desktop_snapshot :: backend_snapshot where
  "desktop_snapshot = \<lparr>sn_uid = 1000, sn_descriptor = 5, sn_backend = KSD_BACKEND_KWIN, sn_advertised = KSD_OPERATION_WINDOW_LIST,
     sn_identity = sample_identity, sn_provider_identity = sample_identity, sn_relay = Some 9\<rparr>"

lemma desktop_current [simp]: "backend_snapshot_current [desktop_slot] desktop_snapshot"
  by (simp add: backend_snapshot_current_def desktop_slot_def desktop_snapshot_def backend_blank_def same_identity_def)

lemma desktop_snapshot_simps [simp]: "sn_relay desktop_snapshot = Some 9" "sn_descriptor desktop_snapshot = 5" "sn_backend desktop_snapshot = KSD_BACKEND_KWIN"
  "sn_identity desktop_snapshot = sample_identity" "sn_provider_identity desktop_snapshot = sample_identity" "sn_advertised desktop_snapshot = KSD_OPERATION_WINDOW_LIST"
  by (simp_all add: desktop_snapshot_def)

lemma desktop_sections [simp]:
  "run_state (take_snapshot desktop_services 1000) s = ((True, desktop_snapshot), s\<lparr>rn_log := rn_log s @ [Relay_Did [Relay_Acquire 9]]\<rparr>)"
  "run_state (release_snapshot desktop_services desktop_snapshot) s = ((), s\<lparr>rn_log := rn_log s @ [Relay_Did [Relay_Release 9]]\<rparr>)"
  "run_state (snapshot_current desktop_services desktop_snapshot) s = (True, s\<lparr>rn_log := rn_log s @ [Relay_Did []]\<rparr>)"
  "run_state (snapshot_valid desktop_services desktop_snapshot) s = (True, s\<lparr>rn_log := rn_log s @ [Relay_Did []]\<rparr>)"
  "run_state (kwin_reserve desktop_services 42) s = (True, s\<lparr>rn_log := rn_log s @ [Reserved (Kwin_Slot 42) True]\<rparr>)"
  "run_state (kwin_release desktop_services 42) s = ((), s\<lparr>rn_log := rn_log s @ [Released (Kwin_Slot 42)]\<rparr>)"
proof -
  have "take_backend_snapshot [desktop_slot] 1000 = (True, desktop_snapshot, [Relay_Acquire 9])"
    by (simp add: take_backend_snapshot_def desktop_slot_def desktop_snapshot_def backend_blank_def)
  then show "run_state (take_snapshot desktop_services 1000) s = ((True, desktop_snapshot), s\<lparr>rn_log := rn_log s @ [Relay_Did [Relay_Acquire 9]]\<rparr>)"
    by (simp add: take_snapshot_def)
  have "fst (reserve_kwin_slot budgets_zero 42)" by code_simp
  then show "run_state (kwin_reserve desktop_services 42) s = (True, s\<lparr>rn_log := rn_log s @ [Reserved (Kwin_Slot 42) True]\<rparr>)"
    by (cases "reserve_kwin_slot budgets_zero 42") (simp add: kwin_reserve_def budget_section_def desktop_services_def run_simps)
  show "run_state (kwin_release desktop_services 42) s = ((), s\<lparr>rn_log := rn_log s @ [Released (Kwin_Slot 42)]\<rparr>)"
    by (simp add: kwin_release_def budget_section_def desktop_services_def run_simps)
qed (simp_all add: release_snapshot_def release_backend_snapshot_def snapshot_current_def snapshot_valid_def snapshot_provider_valid_def
       run_simps backend_snapshot_valid_def backend_snapshot_provider_valid_def same_identity_def wire_defs sample_identity_def)

lemma desktop_permitted: "run_state (still_permitted desktop_services KSD_SCOPE_WINDOW_MONITORING (ucast KSD_SCOPE_WINDOW_MONITORING + 7) desktop_snapshot) s =
  (True, s\<lparr>rn_data := session_updated desktop_lease (ucast KSD_SCOPE_WINDOW_MONITORING + 7) KSD_SCOPE_WINDOW_MONITORING (rn_data s),
     rn_log := rn_log s @ desktop_look @ [Relay_Did []]\<rparr>)"
  if "rn_world s = KSD_SCOPE_WINDOW_MONITORING" "ss_lease (rn_data s)"
  using that by (simp add: still_permitted_def run_simps desktop_refresh) (simp add: session_updated_def desktop_look_def)

lemma desktop_answer:
  assumes "ss_role (rn_data s) = KSD_ROLE_RPC"
  obtains frame where "run_state (answer_operation desktop_services list_request KSD_SCOPE_WINDOW_MONITORING True (ksd_result_init\<lparr>res_status := KSD_STATUS_OK\<rparr>)) s =
     (True, s\<lparr>rn_log := rn_log s @ [Wrote frame None True]\<rparr>)" "response_status frame = KSD_STATUS_OK"
proof -
  obtain frame where f: "build_response (\<lambda>_. True) list_request KSD_STATUS_OK 0 None [] False = Some frame"
    by (rule build_response_fits [of list_request KSD_STATUS_OK None 0 "[]"])
       (simp_all add: list_request_def diagnostic_length_def response_text_def wire_defs)
  have sv: "sv_alloc desktop_services = (\<lambda>_. True)" "sv_write desktop_services = (\<lambda>_ _ w. (True, w))" by (simp_all add: desktop_services_def)
  have "KSD_ROLE_RPC \<noteq> KSD_ROLE_AUTHORIZATION_LEASE" by (simp add: wire_defs)
  then have "run_state (answer_operation desktop_services list_request KSD_SCOPE_WINDOW_MONITORING True (ksd_result_init\<lparr>res_status := KSD_STATUS_OK\<rparr>)) s =
     (True, s\<lparr>rn_log := rn_log s @ [Wrote frame None True]\<rparr>)"
    using f assms by (simp add: answer_operation_def forward_response_def sequenced_tail_def forward_public_def ksd_result_init_def run_simps sv)
  then show thesis using that build_response_status [OF f] by blast
qed

lemma desktop_run:
  obtains frame x t where "run_state (execute_operation desktop_services list_request) (desktop_start KSD_SCOPE_WINDOW_MONITORING) = (x, t)"
    "rn_log t = desktop_look @ [Relay_Did [Relay_Acquire 9], Relay_Did [], Reserved (Kwin_Slot 42) True] @ Dispatched (Via_Script 9) list_request #
       Answered (ksd_result_init\<lparr>res_status := KSD_STATUS_OK\<rparr>) # desktop_look @ [Relay_Did []] @ Wrote frame None True # [Released (Kwin_Slot 42), Relay_Did [Relay_Release 9]]"
    "response_status frame = KSD_STATUS_OK"
proof -
  have scopes: "KSD_SCOPE_WINDOW_MONITORING \<noteq> 0" "KSD_OPERATION_WINDOW_LIST \<noteq> 0" "KSD_OP_WINDOW_LIST \<noteq> KSD_OP_KEYBOARD_STATE"
     "KSD_OP_WINDOW_LIST \<noteq> KSD_OP_WINDOW_WATCH" "KSD_OP_WINDOW_LIST \<noteq> KSD_OP_CLIPBOARD_WATCH"
     "KSD_BACKEND_KWIN \<noteq> KSD_BACKEND_X11" by (simp_all add: wire_defs)
  have ops: "ksd_backend_reported_operations KSD_BACKEND_KWIN True KSD_OPERATION_WINDOW_LIST AND KSD_OPERATION_WINDOW_LIST = KSD_OPERATION_WINDOW_LIST"
    by (simp add: ksd_backend_reported_operations_def operation_mask_defs wire_defs)
  have uid: "id_uid sample_identity = 1000" "id_pid sample_identity = 42" by (simp_all add: sample_identity_def)
  let ?s = "desktop_start KSD_SCOPE_WINDOW_MONITORING"
  let ?d = "(session_updated desktop_lease (ucast KSD_SCOPE_WINDOW_MONITORING + 7) KSD_SCOPE_WINDOW_MONITORING (rn_data ?s))\<lparr>ss_backend := KSD_BACKEND_KWIN\<rparr>"
  let ?log = "desktop_look @ [Relay_Did [Relay_Acquire 9], Relay_Did [], Reserved (Kwin_Slot 42) True] @ Dispatched (Via_Script 9) list_request #
       Answered (ksd_result_init\<lparr>res_status := KSD_STATUS_OK\<rparr>) # desktop_look @ [Relay_Did []]"
  let ?t = "\<lparr>rn_data = ?d, rn_world = KSD_SCOPE_WINDOW_MONITORING, rn_log = ?log\<rparr>"
  obtain frame where f: "run_state (answer_operation desktop_services list_request KSD_SCOPE_WINDOW_MONITORING True (ksd_result_init\<lparr>res_status := KSD_STATUS_OK\<rparr>)) ?t =
     (True, ?t\<lparr>rn_log := rn_log ?t @ [Wrote frame None True]\<rparr>)" "response_status frame = KSD_STATUS_OK"
    by (rule desktop_answer [of ?t]) (simp add: desktop_start_def session_updated_def)
  show thesis
    apply (rule that [of True "?t\<lparr>rn_log := rn_log ?t @ [Wrote frame None True, Released (Kwin_Slot 42), Relay_Did [Relay_Release 9]]\<rparr>" frame])
    subgoal using f(1)
      by (simp add: execute_operation_def run_simps scopes desktop_start_def sample_session_def desktop_refresh session_updated_def ops uid
        execute_admitted_def perform_operation_def prior_window_def dispatch_def kwin_script_def keyboard_worker_def dispatch_script_def relay_operation_def
        desktop_permitted only_if_def desktop_look_def)
    using f(2) by simp_all
qed

lemma desktop_backed: "store_honest sample_grants (desktop_look @ [Relay_Did [Relay_Acquire 9], Relay_Did [], Reserved (Kwin_Slot 42) True])"
  "Lease_Locked lease \<in> set (desktop_look @ [Relay_Did [Relay_Acquire 9], Relay_Did [], Reserved (Kwin_Slot 42) True]) \<Longrightarrow> backed sample_grants lease"
  by (auto simp: desktop_look_def store_honest_def backed_def lease_grants_def sample_grants_def scopes_in_def wire_defs)

lemma desktop_start_simps: "rn_log (desktop_start w) = []" "ss_lease (rn_data (desktop_start w))" "ss_role (rn_data (desktop_start w)) = KSD_ROLE_RPC"
  by (simp_all add: desktop_start_def sample_session_def)

theorem dispatch_authorized_witness:
  "\<exists>x t pre post. run_state (execute_operation desktop_services list_request) (desktop_start KSD_SCOPE_WINDOW_MONITORING) = (x, t)
     \<and> rn_log t = pre @ Dispatched (Via_Script 9) list_request # post \<and> permitted sample_grants KSD_OP_WINDOW_LIST pre"
proof (rule desktop_run)
  fix x t frame
  let ?pre = "desktop_look @ [Relay_Did [Relay_Acquire 9], Relay_Did [], Reserved (Kwin_Slot 42) True]"
  let ?post = "Answered (ksd_result_init\<lparr>res_status := KSD_STATUS_OK\<rparr>) # desktop_look @ [Relay_Did []] @ Wrote frame None True # [Released (Kwin_Slot 42), Relay_Did [Relay_Release 9]]"
  assume r: "run_state (execute_operation desktop_services list_request) (desktop_start KSD_SCOPE_WINDOW_MONITORING) = (x, t)"
    and "rn_log t = desktop_look @ [Relay_Did [Relay_Acquire 9], Relay_Did [], Reserved (Kwin_Slot 42) True] @ Dispatched (Via_Script 9) list_request #
       Answered (ksd_result_init\<lparr>res_status := KSD_STATUS_OK\<rparr>) # desktop_look @ [Relay_Did []] @ Wrote frame None True # [Released (Kwin_Slot 42), Relay_Did [Relay_Release 9]]"
  then have log: "rn_log t = rn_log (desktop_start KSD_SCOPE_WINDOW_MONITORING) @ ?pre @ Dispatched (Via_Script 9) list_request # ?post"
    by (simp add: desktop_start_simps(1))
  have "permitted sample_grants KSD_OP_WINDOW_LIST ?pre"
    using dispatch_authorized [OF r desktop_start_simps(2,3) log, of list_request sample_grants] desktop_backed by simp
  then show ?thesis using r log unfolding desktop_start_simps(1) append_Nil by metis
qed

theorem result_confirmed_witness:
  "\<exists>x t before after frame post. run_state (execute_operation desktop_services list_request) (desktop_start KSD_SCOPE_WINDOW_MONITORING) = (x, t)
     \<and> rn_log t = (before @ after) @ Wrote frame None True # post \<and> discloses frame None
     \<and> (\<exists>generation. confirmed KSD_SCOPE_WINDOW_MONITORING generation after)"
proof (rule desktop_run)
  fix x t frame
  let ?pre = "desktop_look @ [Relay_Did [Relay_Acquire 9], Relay_Did [], Reserved (Kwin_Slot 42) True] @ Dispatched (Via_Script 9) list_request #
    Answered (ksd_result_init\<lparr>res_status := KSD_STATUS_OK\<rparr>) # desktop_look @ [Relay_Did []]"
  assume r: "run_state (execute_operation desktop_services list_request) (desktop_start KSD_SCOPE_WINDOW_MONITORING) = (x, t)"
    and "rn_log t = desktop_look @ [Relay_Did [Relay_Acquire 9], Relay_Did [], Reserved (Kwin_Slot 42) True] @ Dispatched (Via_Script 9) list_request #
       Answered (ksd_result_init\<lparr>res_status := KSD_STATUS_OK\<rparr>) # desktop_look @ [Relay_Did []] @ Wrote frame None True # [Released (Kwin_Slot 42), Relay_Did [Relay_Release 9]]"
    and "response_status frame = KSD_STATUS_OK"
  then have log: "rn_log t = rn_log (desktop_start KSD_SCOPE_WINDOW_MONITORING) @ ?pre @ Wrote frame None True # [Released (Kwin_Slot 42), Relay_Did [Relay_Release 9]]"
    and d: "discloses frame None" by (simp_all add: desktop_start_simps(1) discloses_def)
  from result_confirmed [OF r desktop_start_simps(2,3) log d] log show ?thesis
    unfolding list_request_simps desktop_start_simps(1) append_Nil using r d by metis
qed

end
