(* ===== verification/State_Sources.thy ===== *)
theory State_Sources
  imports Operations
begin

text \<open>
  Sources of state events (src/src/authorityd.c). A lease connection subscribes to domains
  of the desktop's state; for each group of domains a thread of its own watches the desktop
  and passes what it sees to the connection's thread over a socket pair. The connection's
  thread checks each event against the lease before it goes to the client.
\<close>

section \<open>Starting and stopping\<close>

definition state_source_stop :: "'w services \<Rightarrow> nat \<Rightarrow> ('w, unit) authority" where
  "state_source_stop sv lane = do {
     session \<leftarrow> data;
     if \<not> ss_source_started session ! lane then return ()
     else do {
       call (\<lambda>w. ((), sv_source_end sv lane w)) (\<lambda>_. [Source_Stopped lane]);
       update (\<lambda>ss. ss\<lparr>ss_source_started := (ss_source_started ss)[lane := False]\<rparr>) }}"

definition stop_sources :: "'w services \<Rightarrow> ('w, unit) authority" where
  "stop_sources sv = do {
     state_source_stop sv 0;
     state_source_stop sv 1;
     state_source_stop sv 2 }"

text \<open>The snapshot of the registration goes to the thread, which releases it when it ends.\<close>

definition state_source_start :: "'w services \<Rightarrow> nat \<Rightarrow> ('w, bool) authority" where
  "state_source_start sv lane = do {
     session \<leftarrow> data;
     facts \<leftarrow> call (sv_source sv lane) (\<lambda>_. []);
     if \<not> sf_memory facts then return False
     else do {
       (found, backend) \<leftarrow> take_snapshot sv (id_uid (ss_identity session));
       if \<not> found then return False
       else if \<not> sf_sockets facts \<or> \<not> sf_started facts then do { release_snapshot sv backend; return False }
       else do {
         note_events [Source_Started lane];
         update (\<lambda>ss. ss\<lparr>ss_source_started := (ss_source_started ss)[lane := True]\<rparr>);
         return True }}}"

text \<open>The session of the thread.\<close>

definition source_session :: "nat \<Rightarrow> authority_session \<Rightarrow> authority_session" where
  "source_session lane session = session\<lparr>ss_role := KSD_ROLE_EVENT_STREAM,
     ss_backend := (if lane = 2 then KSD_BACKEND_GENERIC else ss_backend session)\<rparr>"

section \<open>The thread of a display worker\<close>

definition KSD_WATCH_SAMPLED_WINDOWS :: u32 where
  [wire_defs]: "KSD_WATCH_SAMPLED_WINDOWS = 1"

definition KSD_WINDOW_EVENT_CREATE :: u16 where
  [wire_defs]: "KSD_WINDOW_EVENT_CREATE = 1"

definition KSD_WINDOW_EVENT_CLOSE :: u16 where
  [wire_defs]: "KSD_WINDOW_EVENT_CLOSE = 2"

definition KSD_WINDOW_EVENT_CHANGED :: u16 where
  [wire_defs]: "KSD_WINDOW_EVENT_CHANGED = 11"

definition watch_uses_display_worker :: "u32 \<Rightarrow> bool" where
  "watch_uses_display_worker backend \<longleftrightarrow> backend = KSD_BACKEND_X11 \<or> backend = KSD_BACKEND_GENERIC"

definition state_watch_request :: "bool \<Rightarrow> ksd_frame" where
  "state_watch_request clipboard =
     frame_zero\<lparr>fr_magic := public_magic, fr_major := KSD_PROTOCOL_MAJOR, fr_minor := KSD_PROTOCOL_MINOR,
       fr_opcode := (if clipboard then KSD_OP_CLIPBOARD_WATCH else KSD_OP_WINDOW_WATCH), fr_request_id := 1\<rparr>"

definition watch_emit :: "'w services \<Rightarrow> backend_snapshot \<Rightarrow> u32 \<Rightarrow> u16 \<Rightarrow> bytes \<Rightarrow> ('w, bool) authority" where
  "watch_emit sv backend scope opcode payload = do {
     current \<leftarrow> snapshot_current sv backend;
     if \<not> current then return False
     else do {
       (ok, _) \<leftarrow> session_refresh sv True True;
       session \<leftarrow> data;
       if \<not> ok \<or> ss_granted_scopes session AND scope \<noteq> scope then return False
       else forward_event sv opcode payload }}"

definition watch_cancelled :: "'w services \<Rightarrow> backend_snapshot \<Rightarrow> u32 \<Rightarrow> ('w, bool) authority" where
  "watch_cancelled sv backend scope = do {
     spoke \<leftarrow> call (sv_client_spoke sv) (\<lambda>_. []);
     if spoke then return True
     else do {
       now \<leftarrow> call (sv_seconds sv) (\<lambda>_. []);
       session \<leftarrow> data;
       (ok, _) \<leftarrow> session_refresh sv (now \<noteq> ss_identity_checked_at session) True;
       if \<not> ok then return True
       else do {
         current \<leftarrow> snapshot_current sv backend;
         session \<leftarrow> data;
         return (\<not> current \<or> ss_granted_scopes session AND scope \<noteq> scope) }}}"

definition watch_ready :: "ksd_frame \<Rightarrow> ksd_frame option \<Rightarrow> bool" where
  "watch_ready request reply \<longleftrightarrow> (case reply of None \<Rightarrow> False
     | Some f \<Rightarrow> fr_flags f = 0 \<and> fr_opcode f = 0 \<and> fr_request_id f = fr_request_id request \<and> fr_payload_length f = 8)"

definition watch_event_valid :: "ksd_frame \<Rightarrow> bool" where
  "watch_event_valid event \<longleftrightarrow> fr_flags event = KSD_FLAG_EVENT \<and> fr_request_id event = 0
     \<and> (fr_opcode event = KSD_OP_STATE_EVENT
        \<or> fr_opcode event = KSD_OP_WINDOW_EVENT \<and> fr_payload_length event \<ge> 8
          \<and> KSD_WINDOW_EVENT_CREATE \<le> ksd_decode_u16 (payload_bytes event)
          \<and> ksd_decode_u16 (payload_bytes event) \<le> KSD_WINDOW_EVENT_CHANGED
          \<and> ksd_decode_u16 (drop 2 (payload_bytes event)) = 0
          \<and> ksd_decode_u32 (drop 4 (payload_bytes event)) = fr_payload_length event - 8
          \<and> ksd_utf8_valid (drop 8 (payload_bytes event)) False)"

text \<open>
  The loop, with one element of the list for each poll. The loop ends when the desktop, the
  client or the grant ends it; at the end of the list the poll counts as failed.
\<close>

primrec watch_loop :: "'w services \<Rightarrow> backend_snapshot \<Rightarrow> u32 \<Rightarrow> watch_poll list \<Rightarrow> ('w, unit) authority" where
  "watch_loop sv backend scope [] = do { _ \<leftarrow> watch_cancelled sv backend scope; return () }"
| "watch_loop sv backend scope (poll # polls) = do {
     cancelled \<leftarrow> watch_cancelled sv backend scope;
     if cancelled then return ()
     else case poll of
       Watch_Interrupted \<Rightarrow> watch_loop sv backend scope polls
     | Watch_Failed \<Rightarrow> return ()
     | Watch_Client \<Rightarrow> return ()
     | Watch_Idle \<Rightarrow> watch_loop sv backend scope polls
     | Watch_Frame frame \<Rightarrow>
         (case frame of None \<Rightarrow> return ()
          | Some event \<Rightarrow> do {
              ok \<leftarrow> (if watch_event_valid event then watch_emit sv backend scope (fr_opcode event) (payload_bytes event) else return False);
              if ok then watch_loop sv backend scope polls else return () }) }"

definition set_refresh :: "'w services \<Rightarrow> (authority_lease \<Rightarrow> authority_lease) \<Rightarrow> ('w, unit) authority" where
  "set_refresh sv f = do {
     lease \<leftarrow> lease_lock sv;
     lease_unlock sv (f lease) }"

definition start_display_watch :: "'w services \<Rightarrow> ksd_frame \<Rightarrow> backend_snapshot \<Rightarrow> u32 \<Rightarrow> ('w, bool) authority" where
  "start_display_watch sv request backend scope = do {
     session \<leftarrow> data;
     (worker_fd, _) \<leftarrow> call (sv_worker_spawn sv (ss_identity session) (ss_gid session) (id_pid (sn_identity backend)) (ss_backend session)) (\<lambda>_. []);
     if worker_fd < 0 then refuse sv request KSD_STATUS_UNAVAILABLE ''could not start the window event worker''
     else do {
       reply \<leftarrow> call (sv_watch_open sv request) (\<lambda>_. []);
       let ready = watch_ready request reply;
       let status = (if ready then ksd_decode_u32 (payload_bytes (the reply)) else KSD_STATUS_UNAVAILABLE);
       let refresh_windows = (ready \<and> fr_opcode request = KSD_OP_WINDOW_WATCH \<and> sn_backend backend = KSD_BACKEND_GENERIC
         \<and> ksd_decode_u32 (drop 4 (payload_bytes (the reply))) AND KSD_WATCH_SAMPLED_WINDOWS \<noteq> 0);
       if status \<noteq> KSD_STATUS_OK then do {
         relay_do sv [Close_Fd worker_fd];
         refuse sv request KSD_STATUS_UNAVAILABLE ''window events are unavailable'' }
       else do {
         cancelled \<leftarrow> watch_cancelled sv backend scope;
         ok \<leftarrow> (if cancelled then return False else forward_response sv request KSD_STATUS_OK 0 None [] False);
         only_if (ok \<and> refresh_windows) (set_refresh sv (\<lambda>lease. lease\<lparr>le_window_refresh_fd := worker_fd, le_window_refresh_at := 0\<rparr>));
         polls \<leftarrow> call (sv_watch_polls sv) (\<lambda>_. []);
         only_if ok (watch_loop sv backend scope polls);
         only_if refresh_windows (set_refresh sv (\<lambda>lease.
           if le_window_refresh_fd lease = worker_fd then lease\<lparr>le_window_refresh_fd := -1\<rparr> else lease));
         relay_do sv [Close_Fd worker_fd];
         return False }}}"

section \<open>Events at the connection\<close>

text \<open>The clipboard's text and its types, as they come from a provider, become one JSON object.\<close>

primrec mimetypes_json :: "(nat \<Rightarrow> bool) \<Rightarrow> nat \<Rightarrow> bool \<Rightarrow> ksd_cursor \<Rightarrow> ksd_buffer \<Rightarrow> (ksd_cursor \<times> ksd_buffer) option" where
  "mimetypes_json alloc 0 first cursor json = Some (cursor, json)"
| "mimetypes_json alloc (Suc left) first cursor json = do {
     (n, cursor) \<leftarrow> ksd_cursor_u32 cursor;
     (mimetype, cursor) \<leftarrow> ksd_cursor_bytes (unat n) cursor;
     let (ok, json) = (if first then (True, json) else ksd_buffer_bytes alloc (ascii '','') json);
     let (ok, json) = and_then (ok, json) (ksd_buffer_json_string alloc mimetype False);
     if ok then mimetypes_json alloc left False cursor json else None }"

definition clipboard_json :: "(nat \<Rightarrow> bool) \<Rightarrow> bytes \<Rightarrow> bytes option" where
  "clipboard_json alloc payload = do {
     (n, cursor) \<leftarrow> ksd_cursor_u32 (ksd_cursor_init payload);
     (types, cursor) \<leftarrow> ksd_cursor_u32 cursor;
     (content, cursor) \<leftarrow> ksd_cursor_bytes (unat n) cursor;
     let (ok, json) = and_then (and_then (ksd_buffer_bytes alloc (ascii ''{\"text\":'') (ksd_buffer_init KSD_MAX_TEXT_BYTES))
           (ksd_buffer_json_string alloc content False))
           (ksd_buffer_bytes alloc (ascii '',\"mimetypes\":[''));
     if \<not> ok then None
     else do {
       (cursor, json) \<leftarrow> mimetypes_json alloc (unat types) True cursor json;
       let (ok, json) = (if ksd_cursor_finished cursor then ksd_buffer_bytes alloc (ascii '']}'') json else (False, json));
       if ok then Some (buf_data json) else None }}"

definition source_event :: "(nat \<Rightarrow> bool) \<Rightarrow> ksd_frame \<Rightarrow> ksd_state_event option" where
  "source_event alloc frame =
     (if fr_opcode frame = KSD_OP_STATE_EVENT then ksd_state_event_decode alloc (payload_bytes frame)
      else if fr_opcode frame = KSD_OP_WINDOW_EVENT then
        if fr_payload_length frame < 8 \<or> ksd_decode_u32 (drop 4 (payload_bytes frame)) \<noteq> fr_payload_length frame - 8 then None
        else map_option (\<lambda>window. ksd_state_event_init\<lparr>ev_window := window, ev_domain := KSD_STATE_WINDOWS,
               ev_kind := (if ksd_decode_u16 (payload_bytes frame) = KSD_WINDOW_EVENT_CLOSE then KSD_STATE_DESTROY else KSD_STATE_CHANGED)\<rparr>)
             (ksd_state_window_json alloc (drop 8 (payload_bytes frame)))
      else if fr_opcode frame = KSD_OP_CLIPBOARD_EVENT then
        map_option (\<lambda>json. ksd_state_event_init\<lparr>ev_domain := KSD_STATE_CLIPBOARD, ev_kind := KSD_STATE_CHANGED, ev_data := json\<rparr>)
          (clipboard_json alloc (payload_bytes frame))
      else None)"

definition event_enabled :: "ksd_state_event \<Rightarrow> authority_lease \<Rightarrow> bool" where
  "event_enabled event lease \<longleftrightarrow> le_domains lease AND ev_domain event \<noteq> 0
     \<and> (ev_domain event = KSD_STATE_WINDOWS \<longrightarrow> le_granted_scopes lease AND KSD_SCOPE_WINDOW_MONITORING \<noteq> 0)
     \<and> (ev_domain event = KSD_STATE_CLIPBOARD \<longrightarrow> le_granted_scopes lease AND KSD_SCOPE_CLIPBOARD_MONITORING \<noteq> 0)"

definition window_apply :: "'w services \<Rightarrow> ksd_state_event \<Rightarrow> authority_lease \<Rightarrow> ('w, bool \<times> authority_lease) authority" where
  "window_apply sv event lease = do {
     memory \<leftarrow> call (sv_memory sv) (\<lambda>_. []);
     case window_effect (sv_alloc sv) memory event lease of
       Window_Refused lease' \<Rightarrow> return (False, lease')
     | Window_Silent lease' \<Rightarrow> return (True, lease')
     | Window_Report lease' event' \<Rightarrow> emit sv event' lease' }"

definition snapshot_kind :: "u32 \<Rightarrow> bool" where
  "snapshot_kind kind \<longleftrightarrow> kind = KSD_STATE_SNAPSHOT_BEGIN \<or> kind = KSD_STATE_SNAPSHOT_ITEM \<or> kind = KSD_STATE_SNAPSHOT_END"

definition apply_event :: "'w services \<Rightarrow> ksd_state_event \<Rightarrow> ('w, bool) authority" where
  "apply_event sv event = do {
     lease \<leftarrow> lease_lock sv;
     (ok, lease) \<leftarrow> (if \<not> event_enabled event lease then return (True, lease)
       else if ev_domain event = KSD_STATE_WINDOWS then window_apply sv event lease
       else emit sv event (if snapshot_kind (ev_kind event) then lease else bump (domain_index (ev_domain event)) lease));
     lease_unlock sv lease;
     return ok }"

definition state_source_event :: "'w services \<Rightarrow> ksd_frame \<Rightarrow> ('w, bool) authority" where
  "state_source_event sv frame = do {
     (ok, _) \<leftarrow> session_refresh sv True True;
     if \<not> ok then return False
     else if fr_flags frame = KSD_FLAG_RESPONSE then return True
     else if fr_flags frame \<noteq> KSD_FLAG_EVENT then return False
     else case source_event (sv_alloc sv) frame of
       None \<Rightarrow> return False
     | Some event \<Rightarrow> apply_event sv event }"

section \<open>Subscribing\<close>

definition grant_snapshot :: "u32 \<Rightarrow> u32 \<Rightarrow> ksd_state_event" where
  "grant_snapshot kind granted = ksd_state_event_init\<lparr>ev_domain := KSD_STATE_GRANTS, ev_granted_scopes := granted, ev_kind := kind\<rparr>"

definition emit_grants :: "'w services \<Rightarrow> ('w, bool) authority" where
  "emit_grants sv = do {
     lease \<leftarrow> lease_lock sv;
     let granted = le_granted_scopes lease;
     (first, lease) \<leftarrow> emit sv (grant_snapshot KSD_STATE_SNAPSHOT_BEGIN granted) lease;
     (second, lease) \<leftarrow> emit sv (grant_snapshot KSD_STATE_SNAPSHOT_ITEM granted) lease;
     (third, lease) \<leftarrow> emit sv (grant_snapshot KSD_STATE_SNAPSHOT_END granted) lease;
     lease_unlock sv lease;
     return (first \<and> second \<and> third) }"

definition start_sources :: "'w services \<Rightarrow> u32 \<Rightarrow> ('w, bool) authority" where
  "start_sources sv domains = do {
     stop_sources sv;
     session \<leftarrow> data;
     let native = watch_uses_display_worker (ss_backend session);
     ok \<leftarrow> (if domains AND (KSD_STATE_WINDOWS OR (if native then KSD_STATE_KEYBOARD OR KSD_STATE_DISPLAYS else 0)) = 0
       then return True else state_source_start sv 0);
     ok \<leftarrow> (if ok \<and> \<not> native \<and> domains AND (KSD_STATE_KEYBOARD OR KSD_STATE_DISPLAYS) \<noteq> 0 then state_source_start sv 2 else return ok);
     if ok \<and> domains AND KSD_STATE_CLIPBOARD \<noteq> 0 then state_source_start sv 1 else return ok }"

definition handle_state_subscribe :: "'w services \<Rightarrow> ksd_frame \<Rightarrow> ('w, bool) authority" where
  "handle_state_subscribe sv request = do {
     session \<leftarrow> data;
     if ss_role session \<noteq> KSD_ROLE_AUTHORIZATION_LEASE \<or> fr_payload_length request \<noteq> 4
     then refuse sv request KSD_STATUS_INVALID_REQUEST ''state subscriptions require a lease''
     else do {
       let domains = ksd_decode_u32 (payload_bytes request);
       if domains AND NOT KSD_STATE_ALL \<noteq> 0 then return False
       else do {
         (ok, _) \<leftarrow> session_refresh sv True True;
         session \<leftarrow> data;
         if \<not> ok then return False
         else if domains AND KSD_STATE_WINDOWS \<noteq> 0 \<and> ss_granted_scopes session AND KSD_SCOPE_WINDOW_MONITORING = 0
           \<or> domains AND KSD_STATE_CLIPBOARD \<noteq> 0 \<and> ss_granted_scopes session AND KSD_SCOPE_CLIPBOARD_MONITORING = 0
         then refuse sv request KSD_STATUS_DENIED ''state domain permission is not granted''
         else do {
           lease \<leftarrow> lease_lock sv;
           lease_unlock sv (lease\<lparr>le_domains := domains, le_snapshot_pending := (domains AND KSD_STATE_WINDOWS \<noteq> 0)\<rparr>);
           ok \<leftarrow> start_sources sv domains;
           sent \<leftarrow> forward_response sv request (if ok then KSD_STATUS_OK else KSD_STATUS_UNAVAILABLE) 0
             (if ok then None else Some (ascii ''desktop push state is unavailable'')) [] False;
           if \<not> sent then return False
           else if domains AND KSD_STATE_GRANTS \<noteq> 0 then do { told \<leftarrow> emit_grants sv; return (told \<and> ok) }
           else return ok }}}}"

text \<open>A source that ended: the client is told to forget what it knows of the source's domains.\<close>

definition reset_event :: "u32 \<Rightarrow> ksd_state_event" where
  "reset_event domain = ksd_state_event_init\<lparr>ev_kind := KSD_STATE_RESET, ev_domain := domain\<rparr>"

definition reset_concerns :: "nat \<Rightarrow> u32 \<Rightarrow> authority_lease \<Rightarrow> bool" where
  "reset_concerns lane domain lease \<longleftrightarrow> le_domains lease AND domain \<noteq> 0
     \<and> (lane = 1) = (domain = KSD_STATE_CLIPBOARD) \<and> \<not> (lane = 2 \<and> domain = KSD_STATE_WINDOWS)"

primrec reset_domains :: "'w services \<Rightarrow> nat \<Rightarrow> u32 list \<Rightarrow> authority_lease \<Rightarrow> ('w, bool \<times> authority_lease) authority" where
  "reset_domains sv lane [] lease = return (True, lease)"
| "reset_domains sv lane (domain # domains) lease =
     (if reset_concerns lane domain lease then do {
        (sent, lease) \<leftarrow> emit sv (reset_event domain) (bump (domain_index domain) lease);
        (rest, lease) \<leftarrow> reset_domains sv lane domains lease;
        return (sent \<and> rest, lease) }
      else reset_domains sv lane domains lease)"

definition source_ended :: "'w services \<Rightarrow> nat \<Rightarrow> ('w, bool) authority" where
  "source_ended sv lane = do {
     state_source_stop sv lane;
     lease \<leftarrow> lease_lock sv;
     (ok, lease) \<leftarrow> reset_domains sv lane [KSD_STATE_WINDOWS, KSD_STATE_KEYBOARD, KSD_STATE_DISPLAYS, KSD_STATE_CLIPBOARD] lease;
     lease_unlock sv lease;
     return ok }"

definition source_ready :: "'w services \<Rightarrow> nat \<Rightarrow> ('w, bool) authority" where
  "source_ready sv lane = do {
     received \<leftarrow> call (sv_source_read sv lane) (\<lambda>_. []);
     case received of None \<Rightarrow> source_ended sv lane | Some event \<Rightarrow> state_source_event sv event }"

end
