(* ===== verification/Requests.thy ===== *)
theory Requests
  imports State_Sources
begin

text \<open>
  A client's connection to the authority from its greeting to its end
  (src/src/authorityd.c): the dispatch of requests, the assembly of requests that come in
  chunks, the greeting, which makes a lease or binds to one, and the loop of the connection.
\<close>

section \<open>Requests\<close>

definition handle_ping :: "'w services \<Rightarrow> ksd_frame \<Rightarrow> ('w, bool) authority" where
  "handle_ping sv request =
     (if fr_payload_length request \<noteq> 0 then
        if fr_request_id request = 0 then return False
        else refuse sv request KSD_STATUS_INVALID_REQUEST ''PING payload must be empty''
      else do {
        (ok, _) \<leftarrow> session_refresh sv True True;
        if \<not> ok then return False
        else if fr_request_id request = 0 then return True
        else forward_response sv request KSD_STATUS_OK 0 None [] False })"

definition administer :: "'w services \<Rightarrow> ksd_frame \<Rightarrow> ('w, bool) authority \<Rightarrow> ('w, bool) authority" where
  "administer sv request m = do {
     session \<leftarrow> data;
     if ss_role session \<noteq> KSD_ROLE_RPC
     then refuse sv request KSD_STATUS_INVALID_REQUEST ''permissions administration requires RPC''
     else m }"

definition handle_public_request :: "'w services \<Rightarrow> ksd_frame \<Rightarrow> ('w, bool) authority" where
  "handle_public_request sv request =
     (if \<not> ksd_frame_is_request request then return False
      else do {
        same \<leftarrow> session_identity_refresh sv;
        if \<not> same then return False
        else if fr_opcode request = KSD_OP_PING then handle_ping sv request
        else if fr_request_id request = 0 then return False
        else if fr_opcode request = KSD_OP_HELLO
        then refuse sv request KSD_STATUS_INVALID_REQUEST ''HELLO may only be sent once''
        else if fr_opcode request = KSD_OP_AUTHORIZE then handle_authorize sv request
        else if fr_opcode request = KSD_OP_STATE_SUBSCRIBE then handle_state_subscribe sv request
        else if fr_opcode request = KSD_OP_PERMISSIONS_LIST then administer sv request (permissions_list sv request)
        else if fr_opcode request = KSD_OP_PERMISSIONS_REVOKE then administer sv request (permissions_revoke sv request)
        else execute_operation sv request })"

section \<open>Requests in chunks\<close>

definition KSD_MAX_REQUEST_ASSEMBLY_SECONDS :: u64 where
  [wire_defs]: "KSD_MAX_REQUEST_ASSEMBLY_SECONDS = 10"

definition assembly_within_deadline :: "'w services \<Rightarrow> ('w, bool) authority" where
  "assembly_within_deadline sv = do {
     now \<leftarrow> call (sv_seconds sv) (\<lambda>_. []);
     session \<leftarrow> data;
     return (now \<noteq> 0 \<and> now \<le> ss_assembly_deadline session) }"

definition end_assembly :: "'w services \<Rightarrow> ('w, unit) authority" where
  "end_assembly sv = do {
     update (\<lambda>ss. ss\<lparr>ss_assembly := ksd_request_assembly_clear (ss_assembly ss)\<rparr>);
     _ \<leftarrow> call (sv_timeouts sv 130) (\<lambda>_. []);
     return () }"

definition may_begin_assembly :: "'w services \<Rightarrow> ksd_frame \<Rightarrow> ('w, bool) authority" where
  "may_begin_assembly sv frame = do {
     now \<leftarrow> call (sv_seconds sv) (\<lambda>_. []);
     session \<leftarrow> data;
     if ss_role session \<noteq> KSD_ROLE_RPC \<or> now = 0
       \<or> \<not> ksd_request_chunk_admissible (fr_opcode frame) (fr_flags frame) (fr_request_id frame)
     then return False
     else do {
       applied \<leftarrow> call (sv_timeouts sv (ucast KSD_MAX_REQUEST_ASSEMBLY_SECONDS)) (\<lambda>_. []);
       if \<not> applied then return False
       else do {
         update (\<lambda>ss. ss\<lparr>ss_assembly_deadline := now + KSD_MAX_REQUEST_ASSEMBLY_SECONDS\<rparr>);
         return True }}}"

definition assembly_reserve :: "'w services \<Rightarrow> u32 \<Rightarrow> ('w, bool) authority" where
  "assembly_reserve sv uid = budget_section sv (\<lambda>st. reserve_assembly_memory st uid) (\<lambda>ok. [Reserved (Assembly_Memory uid) ok])"

definition assembly_release :: "'w services \<Rightarrow> u32 \<Rightarrow> ('w, unit) authority" where
  "assembly_release sv uid = budget_section sv (\<lambda>st. ((), release_assembly_memory st uid)) (\<lambda>_. [Released (Assembly_Memory uid)])"

definition finish_assembly :: "'w services \<Rightarrow> ('w, bool) authority" where
  "finish_assembly sv = do {
     session \<leftarrow> data;
     let taken = ksd_request_assembly_take (ss_assembly session);
     end_assembly sv;
     session \<leftarrow> data;
     assembly_release sv (id_uid (ss_identity session));
     case taken of None \<Rightarrow> return False
     | Some (assembled, _) \<Rightarrow> handle_public_request sv assembled }"

definition accept_chunk :: "'w services \<Rightarrow> bool \<Rightarrow> ksd_frame \<Rightarrow> ('w, bool) authority" where
  "accept_chunk sv starting frame = do {
     session \<leftarrow> data;
     let (accepted, assembly) = ksd_request_assembly_accept (sv_alloc sv) (ss_assembly session) frame;
     update (\<lambda>ss. ss\<lparr>ss_assembly := assembly\<rparr>);
     if accepted = KSD_ASSEMBLY_INVALID then return False
     else do {
       reserved \<leftarrow> (if starting then assembly_reserve sv (id_uid (ss_identity session)) else return True);
       if \<not> reserved then do {
         end_assembly sv;
         _ \<leftarrow> refuse sv frame KSD_STATUS_RESOURCE_EXHAUSTED ''assembly budget exhausted'';
         return False }
       else if accepted = KSD_ASSEMBLY_PENDING then return True
       else finish_assembly sv }}"

definition handle_public_frame :: "'w services \<Rightarrow> ksd_frame \<Rightarrow> ('w, bool) authority" where
  "handle_public_frame sv frame = do {
     session \<leftarrow> data;
     let starting = (\<not> ksd_request_assembly_active (ss_assembly session));
     if starting \<and> fr_flags frame AND KSD_FLAG_MORE = 0 then handle_public_request sv frame
     else do {
       may \<leftarrow> (if starting then may_begin_assembly sv frame else return True);
       if \<not> may then return False
       else do {
         timely \<leftarrow> assembly_within_deadline sv;
         if \<not> timely then return False else accept_chunk sv starting frame }}}"

section \<open>The greeting\<close>

text \<open>
  A lease becomes visible to other connections when it enters the list, so its creation is
  logged as giving it away. Binding reads each lease under its own mutex while the list
  is locked.
\<close>

definition create_lease :: "'w services \<Rightarrow> ('w, authority_lease option) authority" where
  "create_lease sv = do {
     session \<leftarrow> data;
     (memory, random, condition, client_fd) \<leftarrow> call (sv_lease_facts sv) (\<lambda>_. []);
     created \<leftarrow> call (\<lambda>w. case sv_leases sv w of (leases, w) \<Rightarrow>
         (case lease_create memory random condition (ss_identity session) (ss_requested_scopes session)
            (ss_granted_scopes session) (ss_generation session) client_fd leases of
            None \<Rightarrow> (None, w) | Some (lease, leases') \<Rightarrow> (Some lease, sv_set_leases sv leases' w)))
       (\<lambda>created. case created of None \<Rightarrow> [] | Some lease \<Rightarrow> [Lease_Unlocked lease]);
     update (\<lambda>ss. ss\<lparr>ss_lease := (created \<noteq> None)\<rparr>);
     return created }"

definition bind_lease :: "'w services \<Rightarrow> u64 \<Rightarrow> ('w, bool) authority" where
  "bind_lease sv lease_id = do {
     session \<leftarrow> data;
     bound \<leftarrow> call (\<lambda>w. case sv_leases sv w of (leases, w) \<Rightarrow>
         (case lease_bind lease_id (ss_peer_uid session) (ss_peer_pid session) leases of
            (found, leases') \<Rightarrow> (found \<noteq> None, sv_set_leases sv leases' w))) (\<lambda>_. []);
     update (\<lambda>ss. ss\<lparr>ss_lease := bound\<rparr>);
     return bound }"

definition release_lease :: "'w services \<Rightarrow> ('w, unit) authority" where
  "release_lease sv = do {
     session \<leftarrow> data;
     if \<not> ss_lease session then return ()
     else call (\<lambda>w. case sv_leases sv w of (leases, w) \<Rightarrow>
         (case sv_lease_index sv w of (i, w) \<Rightarrow> ((), sv_set_leases sv (snd (lease_release i leases)) w))) (\<lambda>_. []) }"

text \<open>The two kinds of connection: status, detail and the identifier of the lease.\<close>

definition start_lease :: "'w services \<Rightarrow> hello_request \<Rightarrow> ('w, u32 \<times> u32 \<times> u64) authority" where
  "start_lease sv hello = do {
     session \<leftarrow> data;
     captured \<leftarrow> (if he_lease_id hello \<noteq> 0 then return None
       else call (sv_identity_capture sv (ss_peer_pid session) (ss_peer_uid session)) (\<lambda>_. []));
     case captured of
       None \<Rightarrow> return (KSD_STATUS_DENIED, 0, 0)
     | Some identity \<Rightarrow> do {
         update (\<lambda>ss. ss\<lparr>ss_identity := identity\<rparr>);
         (status, detail, _) \<leftarrow> (if he_scopes hello \<noteq> 0 then authorize_scopes sv (he_scopes hello) (he_auth_mode hello)
           else return (KSD_STATUS_OK, 0, 0));
         if status \<noteq> KSD_STATUS_OK then return (status, detail, 0)
         else do {
           created \<leftarrow> create_lease sv;
           return (case created of None \<Rightarrow> (KSD_STATUS_RESOURCE_EXHAUSTED, detail, 0)
             | Some lease \<Rightarrow> (KSD_STATUS_OK, detail, le_id lease)) }}}"

definition start_rpc :: "'w services \<Rightarrow> hello_request \<Rightarrow> ('w, u32 \<times> u32 \<times> u64) authority" where
  "start_rpc sv hello = do {
     bound \<leftarrow> bind_lease sv (he_lease_id hello);
     if \<not> bound \<or> he_scopes hello \<noteq> 0 \<or> he_auth_mode hello \<noteq> KSD_AUTH_CHECK then return (KSD_STATUS_DENIED, 0, 0)
     else do {
       (ok, _) \<leftarrow> session_refresh sv True False;
       return (if ok then KSD_STATUS_OK else KSD_STATUS_REVOKED, 0, he_lease_id hello) }}"

definition answer_hello :: "'w services \<Rightarrow> ksd_frame \<Rightarrow> u32 \<Rightarrow> u32 \<Rightarrow> u64 \<Rightarrow> ('w, bool) authority" where
  "answer_hello sv hello status detail lease_id =
     (if status = KSD_STATUS_OK then do {
        session \<leftarrow> data;
        operations \<leftarrow> registry_section sv (\<lambda>slots. (registered_operations slots (id_uid (ss_identity session)) (ss_backend session), slots, []));
        forward_response sv hello KSD_STATUS_OK 0 None (hello_tail (ss_granted_scopes session) operations (ss_backend session) lease_id) False }
      else forward_response sv hello status detail
        (Some (if detail = KSD_ERROR_DETAIL_NO_AUTHENTICATION_AGENT then no_authentication_agent else status_diagnostic status)) [] False)"

definition start_public_session :: "'w services \<Rightarrow> ('w, bool) authority" where
  "start_public_session sv = do {
     received \<leftarrow> call (sv_read sv) (\<lambda>_. []);
     case received of
       None \<Rightarrow> return False
     | Some hello \<Rightarrow>
         (case parse_hello hello of
            None \<Rightarrow> do {
              _ \<leftarrow> (if fr_request_id hello = 0 then return False
                else refuse sv hello KSD_STATUS_INVALID_REQUEST ''HELLO must be first'');
              return False }
          | Some h \<Rightarrow> do {
              update (\<lambda>ss. ss\<lparr>ss_role := he_role h\<rparr>);
              (status, detail, lease_id) \<leftarrow> (if he_role h = KSD_ROLE_AUTHORIZATION_LEASE then start_lease sv h else start_rpc sv h);
              replied \<leftarrow> answer_hello sv hello status detail lease_id;
              return (replied \<and> status = KSD_STATUS_OK) }) }"

section \<open>The connection\<close>

definition connection_idle :: "'w services \<Rightarrow> ('w, bool) authority" where
  "connection_idle sv = do {
     session \<leftarrow> data;
     timely \<leftarrow> (if ksd_request_assembly_active (ss_assembly session) then assembly_within_deadline sv else return True);
     if \<not> timely then return False
     else do {
       now \<leftarrow> call (sv_seconds sv) (\<lambda>_. []);
       (ok, _) \<leftarrow> session_refresh sv (now \<noteq> ss_identity_checked_at session) True;
       return ok }}"

definition source_turn :: "'w services \<Rightarrow> bool \<Rightarrow> nat \<Rightarrow> ('w, bool) authority" where
  "source_turn sv signalled lane = (if signalled then source_ready sv lane else return True)"

definition connection_ready :: "'w services \<Rightarrow> bool list \<Rightarrow> bool \<Rightarrow> bool \<Rightarrow> ('w, bool) authority" where
  "connection_ready sv sources input hung_up = do {
     session \<leftarrow> data;
     let signalled = (\<lambda>lane. sources ! lane \<and> ss_source_started session ! lane);
     first \<leftarrow> source_turn sv (signalled 0) 0;
     second \<leftarrow> source_turn sv (signalled 1) 1;
     third \<leftarrow> source_turn sv (signalled 2) 2;
     if \<not> (first \<and> second \<and> third) then return False
     else do {
       ok \<leftarrow> (if input then do {
           received \<leftarrow> call (sv_read sv) (\<lambda>_. []);
           case received of None \<Rightarrow> return False | Some request \<Rightarrow> handle_public_frame sv request }
         else return True);
       return (ok \<and> \<not> hung_up) }}"

text \<open>
  The loop, with one element of the list for each poll; the result says whether the loop
  goes on after the round. At the end of the list the poll counts as failed, so a run of the model
  is a run of the loop that ends, after any number of rounds.
\<close>

definition connection_round :: "'w services \<Rightarrow> connection_poll \<Rightarrow> ('w, bool) authority" where
  "connection_round sv poll =
     (case poll of
        Round_Interrupted \<Rightarrow> return True
      | Round_Failed \<Rightarrow> return False
      | Round_Idle \<Rightarrow> connection_idle sv
      | Round_Ready sources input hung_up \<Rightarrow> connection_ready sv sources input hung_up)"

primrec connection_loop :: "'w services \<Rightarrow> connection_poll list \<Rightarrow> ('w, unit) authority" where
  "connection_loop sv [] = return ()"
| "connection_loop sv (poll # polls) = do {
     going \<leftarrow> connection_round sv poll;
     if going then connection_loop sv polls else return () }"

definition end_connection :: "'w services \<Rightarrow> ('w, unit) authority" where
  "end_connection sv = do {
     stop_sources sv;
     session \<leftarrow> data;
     only_if (ksd_request_assembly_active (ss_assembly session)) (do {
       end_assembly sv;
       assembly_release sv (id_uid (ss_identity session)) });
     only_if (ss_role session = KSD_ROLE_AUTHORIZATION_LEASE \<and> ss_lease session) (do {
       lease \<leftarrow> lease_lock sv;
       lease_unlock sv (lease_deactivate lease) });
     release_lease sv }"

definition registered_backend_of :: "'w services \<Rightarrow> u32 \<Rightarrow> ('w, u32) authority" where
  "registered_backend_of sv uid = do {
     (found, snapshot) \<leftarrow> take_snapshot sv uid;
     if found then do {
       usable \<leftarrow> snapshot_valid sv snapshot;
       release_snapshot sv snapshot;
       return (if usable then sn_backend snapshot else KSD_BACKEND_NONE) }
     else return KSD_BACKEND_NONE }"

definition initial_session :: "u32 \<Rightarrow> i32 \<Rightarrow> u32 \<Rightarrow> authority_session" where
  "initial_session uid pid gid = \<lparr>ss_identity = identity_zero, ss_gid = gid, ss_role = 0, ss_backend = 0,
     ss_requested_scopes = 0, ss_granted_scopes = 0, ss_generation = 0, ss_identity_checked_at = 0, ss_assembly_deadline = 0,
     ss_assembly = ksd_request_assembly_init, ss_lease = False, ss_peer_uid = uid, ss_peer_pid = pid,
     ss_source_started = [False, False, False], ss_effective_sequence = 0\<rparr>"

definition handle_public_connection :: "'w services \<Rightarrow> u32 \<Rightarrow> i32 \<Rightarrow> u32 \<Rightarrow> ('w, unit) authority" where
  "handle_public_connection sv uid pid gid = do {
     update (\<lambda>_. initial_session uid pid gid);
     if uid = 0 then return ()
     else do {
       now \<leftarrow> call (sv_seconds sv) (\<lambda>_. []);
       backend \<leftarrow> registered_backend_of sv uid;
       update (\<lambda>ss. ss\<lparr>ss_identity_checked_at := now, ss_backend := backend\<rparr>);
       started \<leftarrow> start_public_session sv;
       if \<not> started then release_lease sv
       else do {
         update (\<lambda>ss. ss\<lparr>ss_assembly := ksd_request_assembly_init\<rparr>);
         polls \<leftarrow> call (sv_polls sv) (\<lambda>_. []);
         connection_loop sv polls;
         end_connection sv }}}"

end
