(* ===== verification/Lease_Custody.thy ===== *)
theory Lease_Custody
  imports Requests
begin

text \<open>
  The lease while a thread holds its mutex. The rule of the theory Lease_Grants, that a
  thread that finds backed leases leaves backed leases, is carried through the parts of the
  authority that keep the lease in their hands over several calls, up to the whole
  connection: every lease a connection publishes is backed by the store.
\<close>

section \<open>Holding a lease\<close>

text \<open>\<open>given\<close>: the entries are in order, given that the lease in hand is backed; \<open>returns\<close>: so is the lease handed on.\<close>

definition found :: "grant_history \<Rightarrow> event list \<Rightarrow> bool" where
  "found grants es \<longleftrightarrow> store_honest grants es \<and> (\<forall>k. Lease_Locked k \<in> set es \<longrightarrow> backed grants k)"

definition left_backed :: "grant_history \<Rightarrow> event list \<Rightarrow> bool" where
  "left_backed grants es \<longleftrightarrow> (\<forall>k. Lease_Unlocked k \<in> set es \<longrightarrow> backed grants k)"

lemma guards_found: "guards grants es \<longleftrightarrow> (found grants es \<longrightarrow> left_backed grants es)"
  by (simp add: guards_def found_def left_backed_def)

lemma found_simps [simp]:
  "found grants []" "found grants (es @ fs) \<longleftrightarrow> found grants es \<and> found grants fs"
  "found grants (Lease_Locked l # es) \<longleftrightarrow> backed grants l \<and> found grants es" "found grants (Lease_Unlocked l # es) \<longleftrightarrow> found grants es"
  by (auto simp: found_def store_honest_def)

lemma left_backed_simps [simp]:
  "left_backed grants []" "left_backed grants (es @ fs) \<longleftrightarrow> left_backed grants es \<and> left_backed grants fs"
  "left_backed grants (Lease_Unlocked l # es) \<longleftrightarrow> backed grants l \<and> left_backed grants es"
  "left_backed grants (Lease_Locked l # es) \<longleftrightarrow> left_backed grants es" "left_backed grants (Emitted e ok # es) \<longleftrightarrow> left_backed grants es"
  by (auto simp: left_backed_def)

definition given :: "grant_history \<Rightarrow> authority_lease \<Rightarrow> ('w, 'a) authority \<Rightarrow> bool" where
  "given grants l m \<longleftrightarrow> spec m (\<lambda>d x d' es. found grants es \<and> backed grants l \<longrightarrow> left_backed grants es)"

definition returns :: "grant_history \<Rightarrow> authority_lease \<Rightarrow> ('w, 'a \<times> authority_lease) authority \<Rightarrow> bool" where
  "returns grants l m \<longleftrightarrow> spec m (\<lambda>d x d' es. found grants es \<and> backed grants l \<longrightarrow> left_backed grants es \<and> backed grants (snd x))"

lemma keeps_found: "guard.keeps grants m \<longleftrightarrow> spec m (\<lambda>d x d' es. found grants es \<longrightarrow> left_backed grants es)"
  unfolding guard.keeps_def guards_found ..

lemma locked_keeps: "(\<And>l. given grants l (f l)) \<Longrightarrow> guard.keeps grants (State_Monad.bind (lease_lock sv) f)"
proof -
  assume "\<And>l. given grants l (f l)"
  note f = this [unfolded given_def]
  have "spec (lease_lock sv) (\<lambda>d x d' es. es = [Lease_Locked x])" unfolding lease_lock_def by (simp add: spec_call)
  from spec_bind [OF this f] show ?thesis unfolding keeps_found by simp
qed

lemma given_keeps: "guard.keeps grants m \<Longrightarrow> given grants l m"
  unfolding keeps_found given_def by (erule spec_weaken) simp

lemma given_bind:
  assumes "given grants l m" "\<And>x. given grants l (f x)"
  shows "given grants l (State_Monad.bind m f)"
  unfolding given_def by (rule spec_bind [OF assms(1) [unfolded given_def] assms(2) [unfolded given_def]]) simp

lemma given_unlock: "(backed grants l \<Longrightarrow> backed grants l') \<Longrightarrow> given grants l (lease_unlock sv l')"
  unfolding given_def lease_unlock_def by (rule spec_call) simp

lemma given_returns:
  assumes "returns grants l m" "\<And>x l'. given grants l' (f (x, l'))"
  shows "given grants l (State_Monad.bind m f)"
proof -
  have "spec (f x) (\<lambda>_ _ _ es. found grants es \<and> backed grants (snd x) \<longrightarrow> left_backed grants es)" for x
    using assms(2) [of "snd x" "fst x"] by (simp add: given_def)
  from spec_bind [OF assms(1) [unfolded returns_def] this] show ?thesis unfolding given_def by simp
qed

lemma returns_return: "(backed grants l \<Longrightarrow> backed grants l') \<Longrightarrow> returns grants l (return (x, l'))"
  unfolding returns_def by (rule spec_return) simp

lemma returns_bind:
  assumes "returns grants l m" "\<And>x l'. returns grants l' (f (x, l'))"
  shows "returns grants l (State_Monad.bind m f)"
proof -
  have "spec (f x) (\<lambda>_ y _ es. found grants es \<and> backed grants (snd x) \<longrightarrow> left_backed grants es \<and> backed grants (snd y))" for x
    using assms(2) [of "snd x" "fst x"] by (simp add: returns_def)
  from spec_bind [OF assms(1) [unfolded returns_def] this] show ?thesis unfolding returns_def by simp
qed

lemma returns_keeps:
  assumes "guard.keeps grants m" "\<And>x. returns grants l (f x)"
  shows "returns grants l (State_Monad.bind m f)"
  unfolding returns_def by (rule spec_bind [OF assms(1) [unfolded keeps_found] assms(2) [unfolded returns_def]]) simp

text \<open>Giving the mutex back and taking it again, as a wait on the condition does.\<close>

lemma returns_wait:
  assumes "backed grants l \<Longrightarrow> backed grants l'" "\<And>k. returns grants k (f k)"
  shows "returns grants l (State_Monad.bind (lease_unlock sv l') (\<lambda>_. State_Monad.bind (lease_lock sv) f))"
  unfolding returns_def lease_unlock_def lease_lock_def
proof (rule specI, unfold wp_bind, rule wp_any, rule wp_any, goal_cases)
  case (1 s u w k w')
  show ?case by (rule spec_wp [OF assms(2) [of k, unfolded returns_def]]) (use assms(1) in simp)
qed

lemma returns_emit: "(backed grants l \<Longrightarrow> backed grants l') \<Longrightarrow> returns grants l (emit sv e l')"
  unfolding returns_def by (rule spec_weaken [OF emit_spec]) auto

lemma returns_if: "(b \<Longrightarrow> returns grants l m) \<Longrightarrow> (\<not> b \<Longrightarrow> returns grants l n) \<Longrightarrow> returns grants l (if b then m else n)"
  by simp

lemma backed_more [simp]:
  "backed grants (l\<lparr>le_window_refresh_at := t\<rparr>) = backed grants l" "backed grants (l\<lparr>le_window_refresh_fd := fd\<rparr>) = backed grants l"
  "backed grants (l\<lparr>le_snapshot_pending := p\<rparr>) = backed grants l" "backed grants (l\<lparr>le_snapshot_windows := ws\<rparr>) = backed grants l"
  "backed grants (l\<lparr>le_windows := ws\<rparr>) = backed grants l"
  by (simp_all add: backed_def lease_grants_def)

section \<open>Operations\<close>

lemma section_guards:
  "guard.keeps grants (registry_section sv f)" "guard.keeps grants (relay_do sv actions)" "guard.keeps grants (take_snapshot sv uid)"
  "guard.keeps grants (release_snapshot sv snapshot)" "guard.keeps grants (snapshot_current sv snapshot)" "guard.keeps grants (snapshot_valid sv snapshot)"
  "guard.keeps grants (snapshot_provider_valid sv snapshot)" "guard.keeps grants (milliseconds sv)"
  "guard.keeps grants (kwin_reserve sv pid)" "guard.keeps grants (kwin_release sv pid)" "guard.keeps grants (capture_reserve sv uid pid)"
  "guard.keeps grants (capture_release sv uid pid)" "guard.keeps grants (assembly_reserve sv uid)" "guard.keeps grants (assembly_release sv uid)"
  unfolding take_snapshot_def release_snapshot_def snapshot_current_def snapshot_valid_def snapshot_provider_valid_def relay_do_def milliseconds_def
    kwin_reserve_def kwin_release_def capture_reserve_def capture_release_def assembly_reserve_def assembly_release_def budget_section_def registry_section_def
  by (intro guard.keeps_rules; simp split: prod.splits)+

lemma only_if_guards: "guard.keeps grants m \<Longrightarrow> guard.keeps grants (only_if b m)"
  by (simp add: only_if_def guard.keeps_return)

lemma forward_capture_guards: "guard.keeps grants (forward_capture sv request result)"
  unfolding forward_capture_def by (intro guard.keeps_rules) simp

lemma refuse_guards: "guard.keeps grants (refuse sv request status message)" "guard.keeps grants (release_and_refuse sv backend request status message)"
  unfolding refuse_def release_and_refuse_def by (intro guard.keeps_rules section_guards session_guards)+

lemmas guard_rules = guard.keeps_rules section_guards only_if_guards session_guards refuse_guards forward_capture_guards locked_keeps given_bind given_unlock

lemma case_guards:
  "(\<And>r a. guard.keeps grants (f r a)) \<Longrightarrow> (\<And>i g. guard.keeps grants (h i g)) \<Longrightarrow>
     guard.keeps grants (case lookup of Display_Answer r a \<Rightarrow> f r a | Display_Spawn i g \<Rightarrow> h i g)"
  "guard.keeps grants m1 \<Longrightarrow> guard.keeps grants m2 \<Longrightarrow> guard.keeps grants m3 \<Longrightarrow> guard.keeps grants m4 \<Longrightarrow> (\<And>reply. guard.keeps grants (g reply)) \<Longrightarrow>
     guard.keeps grants (case poll of Worker_Interrupted \<Rightarrow> m1 | Worker_Failed \<Rightarrow> m2 | Worker_Idle \<Rightarrow> m3 | Worker_Hung_Up \<Rightarrow> m4 | Worker_Ready reply \<Rightarrow> g reply)"
  "guard.keeps grants m1 \<Longrightarrow> guard.keeps grants m2 \<Longrightarrow> guard.keeps grants (case b of True \<Rightarrow> m1 | False \<Rightarrow> m2)"
  "guard.keeps grants m1 \<Longrightarrow> guard.keeps grants m2 \<Longrightarrow> guard.keeps grants m3 \<Longrightarrow> guard.keeps grants m4 \<Longrightarrow> (\<And>frame. guard.keeps grants (e frame)) \<Longrightarrow>
     guard.keeps grants (case watch of Watch_Interrupted \<Rightarrow> m1 | Watch_Failed \<Rightarrow> m2 | Watch_Client \<Rightarrow> m3 | Watch_Idle \<Rightarrow> m4 | Watch_Frame frame \<Rightarrow> e frame)"
  by (simp_all split: display_lookup.split worker_poll.split bool.split watch_poll.split)

lemma display_relay_guards: "guard.keeps grants (display_relay sv identity gid pid backend capture)"
  unfolding display_relay_def by (intro guard_rules case_guards) simp

lemma capture_wait_guards: "guard.keeps grants (capture_wait sv polls result)"
proof (induction polls)
  have a: "guard.keeps grants (capture_still_authorized sv)"
    unfolding capture_still_authorized_def disconnected_def by (intro guard_rules) simp
  case Nil
  show ?case by (simp only: capture_wait.simps) (intro guard_rules a)
  case (Cons poll polls)
  then show ?case by (simp only: capture_wait.simps) (intro guard_rules case_guards a; assumption)
qed

lemma worker_execute_guards: "guard.keeps grants (ksd_capture_worker_execute sv identity gid request pid backend)"
  unfolding ksd_capture_worker_execute_def by (intro guard_rules capture_wait_guards) simp_all

lemma ask_refresh_returns: "returns grants l (ask_refresh sv backend l)"
  unfolding ask_refresh_def
  by (intro returns_if returns_keeps returns_return guard_rules) simp_all

lemma sync_loop_returns: "returns grants l (sync_loop sv backend request before deadline l waits)"
proof (induction waits arbitrary: l)
  case Nil
  show ?case by (simp only: sync_loop.simps)
    (intro returns_if returns_return returns_bind [OF ask_refresh_returns], simp_all, intro returns_wait returns_return; assumption)
next
  case (Cons wait waits)
  then show ?case
    by (simp only: sync_loop.simps)
       (intro returns_if returns_return returns_bind [OF ask_refresh_returns], simp_all,
        intro returns_wait, assumption, cases wait; simp; intro returns_keeps returns_if returns_return guard_rules; simp)
qed

lemma given_rules:
  "given grants l (return x)" "given grants l data" "given grants l (update g)" "given grants l (milliseconds sv)"
  "(b \<Longrightarrow> given grants l m) \<Longrightarrow> (\<not> b \<Longrightarrow> given grants l n) \<Longrightarrow> given grants l (if b then m else n)"
  "given grants l (f e) \<Longrightarrow> given grants l (let x = e in f x)"
  by (simp_all add: given_keeps guard_rules)

lemma lock_briefly: "guard.keeps grants (State_Monad.bind (lease_lock sv) (\<lambda>l. State_Monad.bind (lease_unlock sv l) (\<lambda>_. return (f l))))"
  by (intro locked_keeps given_bind given_unlock given_rules)

lemma operation_sync_guards: "guard.keeps grants (operation_sync sv request before)"
  unfolding operation_sync_def Let_def
  apply (rule guard.keeps_bind, rule guard.keeps_data, rule guard.keeps_if, rule guard.keeps_return)
  apply (rule guard.keeps_bind, rule section_guards, rule guard.keeps_bind, rule guard.keeps_call, simp, rule locked_keeps, rule given_returns)
   apply (intro returns_if sync_loop_returns returns_return, assumption)
  apply (unfold prod.case, intro given_bind given_unlock given_rules, assumption)
  done

lemma x11_guards:
  "guard.keeps grants (x11_observe_window sv backend handle)" "guard.keeps grants (x11_child_sync sv backend request prior)"
proof -
  show observe: "guard.keeps grants (x11_observe_window sv backend handle)" for handle
    unfolding x11_observe_window_def by (intro guard_rules display_relay_guards) simp
  show "guard.keeps grants (x11_child_sync sv backend request prior)"
    unfolding x11_child_sync_def by (intro guard_rules observe)
qed

lemma prior_window_guards: "guard.keeps grants (prior_window sv request backend)"
  unfolding prior_window_def by (intro guard.keeps_rules lock_briefly x11_guards)

lemma still_permitted_guards: "guard.keeps grants (still_permitted sv scope generation backend)"
  unfolding still_permitted_def by (intro guard_rules)

lemma settle_guards: "guard.keeps grants (settle sv request scope backend prior child result)"
  unfolding settle_def Let_def by (intro guard.keeps_rules lock_briefly x11_guards operation_sync_guards)

lemma answer_guards: "guard.keeps grants (answer_operation sv request scope valid result)"
  unfolding answer_operation_def by (intro guard_rules)

lemma dispatch_guards: "guard.keeps grants (dispatch sv request backend)"
proof -
  have relay: "guard.keeps grants (relay_operation sv via relay request limit)" for via relay limit
    unfolding relay_operation_def by (intro guard_rules) simp_all
  have "guard.keeps grants (dispatch_script sv request backend)"
    unfolding dispatch_script_def by (intro guard_rules relay)
  moreover have "guard.keeps grants (dispatch_worker sv request backend)"
    unfolding dispatch_worker_def by (intro guard_rules relay display_relay_guards worker_execute_guards) simp_all
  moreover have "guard.keeps grants (dispatch_provider sv request backend)"
    unfolding dispatch_provider_def by (intro guard_rules) simp_all
  ultimately show ?thesis unfolding dispatch_def by (intro guard_rules)
qed

lemma execute_operation_guards: "guard.keeps grants (execute_operation sv request)"
  unfolding execute_operation_def execute_admitted_def perform_operation_def
  by (intro guard_rules prior_window_guards dispatch_guards still_permitted_guards settle_guards answer_guards)

section \<open>Sources\<close>

lemma source_guards: "guard.keeps grants (state_source_stop sv lane)" "guard.keeps grants (stop_sources sv)" "guard.keeps grants (state_source_start sv lane)"
proof -
  show stop: "guard.keeps grants (state_source_stop sv lane)" for lane
    unfolding state_source_stop_def by (intro guard_rules) simp
  show "guard.keeps grants (stop_sources sv)" unfolding stop_sources_def by (intro guard_rules stop)
  show "guard.keeps grants (state_source_start sv lane)" unfolding state_source_start_def by (intro guard_rules) simp_all
qed

lemma window_effect_backed:
  "case window_effect alloc memory event l of Window_Refused l' \<Rightarrow> backed grants l' = backed grants l
     | Window_Silent l' \<Rightarrow> backed grants l' = backed grants l | Window_Report l' e \<Rightarrow> backed grants l' = backed grants l"
  unfolding window_effect_def store_effect_def Let_def
  by (auto split: option.splits prod.splits)

lemma window_apply_returns: "returns grants l (window_apply sv event l)"
  unfolding window_apply_def
  apply (rule returns_keeps, intro guard_rules, simp)
  subgoal for memory
    using window_effect_backed [where alloc = "sv_alloc sv" and memory = memory and event = event and l = l and grants = grants]
    by (auto intro!: returns_return returns_emit split: window_effect.splits)
  done

lemma state_source_event_guards: "guard.keeps grants (state_source_event sv frame)"
proof -
  have "guard.keeps grants (apply_event sv event)" for event
    unfolding apply_event_def
    apply (rule locked_keeps, rule given_returns)
     apply (intro returns_if returns_return window_apply_returns returns_emit; simp)
    apply (simp, intro given_bind given_unlock given_rules, assumption)
    done
  then show ?thesis unfolding state_source_event_def by (intro guard_rules)
qed

lemma emit_grants_guards: "guard.keeps grants (emit_grants sv)"
  unfolding emit_grants_def Let_def
  by (rule locked_keeps, rule given_returns, rule returns_emit, assumption, simp, rule given_returns, rule returns_emit, assumption, simp,
      rule given_returns, rule returns_emit, assumption, simp, intro given_bind given_unlock given_rules)

lemma reset_domains_returns: "returns grants l (reset_domains sv lane domains l)"
proof (induction domains arbitrary: l)
  case (Cons domain domains)
  show ?case unfolding reset_domains.simps
    by (intro returns_if Cons.IH, rule returns_bind [OF returns_emit], simp, simp,
        rule returns_bind [OF Cons.IH], simp, rule returns_return)
qed (simp add: returns_return)

lemma source_ready_guards: "guard.keeps grants (source_ready sv lane)"
proof -
  have "guard.keeps grants (source_ended sv lane)"
    unfolding source_ended_def
    by (rule guard.keeps_bind, rule source_guards, rule locked_keeps, rule given_returns, rule reset_domains_returns,
        simp, intro given_bind given_unlock given_rules)
  then show ?thesis unfolding source_ready_def by (intro guard_rules state_source_event_guards) simp
qed

lemma handle_state_subscribe_guards: "guard.keeps grants (handle_state_subscribe sv request)"
proof -
  have "guard.keeps grants (start_sources sv domains)" for domains
    unfolding start_sources_def by (intro guard_rules source_guards)
  then have rest: "guard.keeps grants (State_Monad.bind (start_sources sv domains) (\<lambda>ok.
      State_Monad.bind (forward_response sv request (a ok) 0 (b ok) [] False) (\<lambda>sent.
      if \<not> sent then return False else if c then State_Monad.bind (emit_grants sv) (\<lambda>told. return (told \<and> ok)) else return ok)))" for domains a b c
    by (intro guard_rules emit_grants_guards)
  show ?thesis unfolding handle_state_subscribe_def Let_def
    apply (rule guard.keeps_bind, rule guard.keeps_data, rule guard.keeps_if, rule refuse_guards, rule guard.keeps_if, rule guard.keeps_return)
    apply (rule guard.keeps_bind, rule session_guards, rule guard.keeps_prod, rule guard.keeps_bind, rule guard.keeps_data)
    apply (rule guard.keeps_if, rule guard.keeps_return, rule guard.keeps_if, rule refuse_guards, rule locked_keeps)
    apply (rule given_bind, rule given_unlock, simp, rule given_keeps, rule rest)
    done
qed

section \<open>The connection\<close>

lemma handle_public_request_guards: "guard.keeps grants (handle_public_request sv request)"
  unfolding handle_public_request_def handle_ping_def administer_def
  by (intro guard_rules authorization_guards execute_operation_guards handle_state_subscribe_guards)

lemma handle_public_frame_guards: "guard.keeps grants (handle_public_frame sv frame)"
proof -
  have e: "guard.keeps grants (end_assembly sv)" "guard.keeps grants (may_begin_assembly sv frame)" "guard.keeps grants (assembly_within_deadline sv)"
    unfolding end_assembly_def may_begin_assembly_def assembly_within_deadline_def by (intro guard_rules; simp)+
  have "guard.keeps grants (finish_assembly sv)"
    unfolding finish_assembly_def by (intro guard_rules e handle_public_request_guards)
  then show ?thesis unfolding handle_public_frame_def accept_chunk_def
    by (intro guard_rules e handle_public_request_guards)
qed

text \<open>A new lease is backed because the session is: what the session holds came from the store.\<close>

lemma create_lease_custody: "spec (create_lease sv) (\<lambda>d x d' es. session_backed grants d \<longrightarrow> left_backed grants es)"
proof (rule specI, goal_cases)
  case (1 s)
  have l: "backed grants lease" if "session_backed grants (rn_data s)" "lease_create memory random condition (ss_identity (rn_data s))
      (ss_requested_scopes (rn_data s)) (ss_granted_scopes (rn_data s)) (ss_generation (rn_data s)) fd leases = Some (lease, leases')"
    for memory random condition fd leases lease leases'
    using that by (auto simp: lease_create_def Let_def session_backed_def backed_def lease_grants_def split: if_splits option.splits prod.splits)
  show ?case unfolding create_lease_def wp_simps
  proof (rule wp_any, goal_cases)
    case (1 facts w)
    obtain memory random condition fd where f: "facts = (memory, random, condition, fd)" by (cases facts)
    obtain leases w' where "sv_leases sv w = (leases, w')" by force
    then show ?case unfolding f wp_simps wp_call using l
      by (auto simp: wp_simps split: option.splits prod.splits)
  qed
qed

lemma start_lease_custody:
  "spec (start_lease sv hello) (\<lambda>d x d' es. ss_granted_scopes d = 0 \<longrightarrow> found grants es \<longrightarrow> left_backed grants es)"
proof -
  have authorize: "spec (if he_scopes hello \<noteq> 0 then authorize_scopes sv (he_scopes hello) (he_auth_mode hello) else return (KSD_STATUS_OK, 0, 0))
     (\<lambda>d (status, detail, granted) d' es. ss_granted_scopes d = 0 \<longrightarrow> found grants es \<longrightarrow>
       left_backed grants es \<and> (status = KSD_STATUS_OK \<longrightarrow> session_backed grants d'))"
  proof (cases "he_scopes hello \<noteq> 0")
    case True
    have "spec (authorize_scopes sv (he_scopes hello) (he_auth_mode hello)) (\<lambda>d x d' es. authorized (he_scopes hello) (he_auth_mode hello) d x d' es
        \<and> (found grants es \<longrightarrow> left_backed grants es))"
      by (rule spec_conj [OF authorize_scopes_spec authorize_scopes_guards [unfolded keeps_found]])
    then show ?thesis unfolding if_P [OF True] by (rule spec_weaken) (auto dest: authorized_ok simp: found_def)
  next
    case False
    show ?thesis unfolding if_not_P [OF False] by (rule spec_return) (simp add: session_backed_def)
  qed
  have finish: "spec (if status \<noteq> KSD_STATUS_OK then return (status, detail, 0)
      else State_Monad.bind (create_lease sv) (\<lambda>created. return (case created of None \<Rightarrow> (KSD_STATUS_RESOURCE_EXHAUSTED, detail, 0)
             | Some lease \<Rightarrow> (KSD_STATUS_OK, detail, le_id lease))))
     (\<lambda>d x d' es. (status = KSD_STATUS_OK \<longrightarrow> session_backed grants d) \<longrightarrow> left_backed grants es)" for status detail
    by (cases "status = KSD_STATUS_OK")
       (auto intro!: spec_return spec_bind [OF create_lease_custody, where R = "\<lambda>_ _ _ _ es. es = []"])
  have rest: "spec (State_Monad.bind (if he_scopes hello \<noteq> 0 then authorize_scopes sv (he_scopes hello) (he_auth_mode hello) else return (KSD_STATUS_OK, 0, 0))
     (\<lambda>(status, detail, _). if status \<noteq> KSD_STATUS_OK then return (status, detail, 0)
      else State_Monad.bind (create_lease sv) (\<lambda>created. return (case created of None \<Rightarrow> (KSD_STATUS_RESOURCE_EXHAUSTED, detail, 0)
             | Some lease \<Rightarrow> (KSD_STATUS_OK, detail, le_id lease)))))
     (\<lambda>d x d' es. ss_granted_scopes d = 0 \<longrightarrow> found grants es \<longrightarrow> left_backed grants es)"
    by (rule spec_bind [OF authorize, where R = "\<lambda>x d _ _ es. (fst x = KSD_STATUS_OK \<longrightarrow> session_backed grants d) \<longrightarrow> left_backed grants es"])
       (rule prod.split [THEN iffD2], intro allI impI, simp only: prod.case fst_conv, rule prod.split [THEN iffD2], intro allI impI, rule finish, auto)
  show ?thesis unfolding start_lease_def
  proof (rule specI, unfold wp_bind wp_data wp_if wp_return, goal_cases)
    case (1 s)
    have go: "wp (case captured of None \<Rightarrow> return (KSD_STATUS_DENIED, 0, 0)
       | Some identity \<Rightarrow> State_Monad.bind (update (\<lambda>ss. ss\<lparr>ss_identity := identity\<rparr>)) (\<lambda>_. State_Monad.bind
          (if he_scopes hello \<noteq> 0 then authorize_scopes sv (he_scopes hello) (he_auth_mode hello) else return (KSD_STATUS_OK, 0, 0))
          (\<lambda>(status, detail, _). if status \<noteq> KSD_STATUS_OK then return (status, detail, 0)
           else State_Monad.bind (create_lease sv) (\<lambda>created. return (case created of None \<Rightarrow> (KSD_STATUS_RESOURCE_EXHAUSTED, detail, 0)
             | Some lease \<Rightarrow> (KSD_STATUS_OK, detail, le_id lease))))))
      (\<lambda>x t. \<exists>es. rn_log t = rn_log s @ es \<and> (ss_granted_scopes (rn_data s) = 0 \<longrightarrow> found grants es \<longrightarrow> left_backed grants es)) (s\<lparr>rn_world := w\<rparr>)"
      for captured w
    proof (cases captured)
      case (Some identity)
      show ?thesis unfolding Some option.case wp_bind [where m = "update (\<lambda>ss. ss\<lparr>ss_identity := identity\<rparr>)"] wp_update
        by (rule spec_wp [OF rest]) simp
    qed (simp add: wp_return)
    have eq: "s\<lparr>rn_world := w, rn_log := rn_log s @ []\<rparr> = s\<lparr>rn_world := w\<rparr>" for w by simp
    show ?case
    proof (cases "he_lease_id hello \<noteq> 0")
      case True
      show ?thesis unfolding if_P [OF True] using go [of None "rn_world s"] by simp
    next
      case False
      show ?thesis unfolding if_not_P [OF False] by (rule wp_any) (unfold eq, rule go)
    qed
  qed
qed

lemma start_public_session_custody:
  "spec (start_public_session sv) (\<lambda>d x d' es. ss_granted_scopes d = 0 \<longrightarrow> found grants es \<longrightarrow> left_backed grants es)"
proof -
  let ?C = "\<lambda>d x d' es. ss_granted_scopes d = 0 \<longrightarrow> found grants es \<longrightarrow> left_backed grants es"
  have of_guards: "spec m ?C" if "guard.keeps grants m" for m :: "('a, 'b) authority"
    using that unfolding keeps_found by (rule spec_weaken) simp
  have rpc: "guard.keeps grants (start_rpc sv h)" for h
    unfolding start_rpc_def bind_lease_def by (intro guard_rules) simp
  have answer: "guard.keeps grants (answer_hello sv hello status detail lease_id)" for hello status detail lease_id
    unfolding answer_hello_def by (intro guard_rules)
  have either: "spec (if he_role h = KSD_ROLE_AUTHORIZATION_LEASE then start_lease sv h else start_rpc sv h) ?C" for h
    using start_lease_custody [of sv h grants] of_guards [OF rpc] by simp
  have answered: "guard.keeps grants (case x of (status, detail, lease_id) \<Rightarrow> State_Monad.bind (answer_hello sv hello status detail lease_id)
      (\<lambda>replied. return (replied \<and> status = KSD_STATUS_OK)))" for x hello
    by (intro guard_rules answer)
  have greeted: "spec (State_Monad.bind (if he_role h = KSD_ROLE_AUTHORIZATION_LEASE then start_lease sv h else start_rpc sv h)
      (\<lambda>(status, detail, lease_id). State_Monad.bind (answer_hello sv hello status detail lease_id)
         (\<lambda>replied. return (replied \<and> status = KSD_STATUS_OK)))) ?C" for h hello
    by (rule spec_bind [OF either answered [unfolded keeps_found]]) simp
  have started: "spec (State_Monad.bind (update (\<lambda>ss. ss\<lparr>ss_role := r\<rparr>)) (\<lambda>_. State_Monad.bind
      (if he_role h = KSD_ROLE_AUTHORIZATION_LEASE then start_lease sv h else start_rpc sv h)
      (\<lambda>(status, detail, lease_id). State_Monad.bind (answer_hello sv hello status detail lease_id)
         (\<lambda>replied. return (replied \<and> status = KSD_STATUS_OK))))) ?C" for r h hello
    by (rule spec_bind [OF spec_update [where P = "\<lambda>d _ d' es. es = [] \<and> ss_granted_scopes d' = ss_granted_scopes d"] greeted]) auto
  have refused: "guard.keeps grants (State_Monad.bind (if fr_request_id hello = 0 then return False
      else refuse sv hello KSD_STATUS_INVALID_REQUEST ''HELLO must be first'') (\<lambda>_. return False))" for hello
    by (intro guard_rules)
  have "spec (call (sv_read sv) (\<lambda>_. [])) (\<lambda>d x d' es. d' = d \<and> es = [])" by (simp add: spec_call)
  then show ?thesis unfolding start_public_session_def
  proof (rule spec_bind [where R = "\<lambda>_. ?C"], goal_cases)
    case (1 received)
    show ?case
    proof (cases received)
      case None
      show ?thesis unfolding None option.case by (rule of_guards [OF guard.keeps_return])
    next
      case (Some hello)
      show ?thesis unfolding Some option.case
        by (cases "parse_hello hello"; simp only: option.case) (rule of_guards [OF refused], rule started)
    qed
  qed simp
qed

interpretation still: run_property "\<lambda>d d' es. d' = d \<and> guards grants es" for grants
  by standard (auto intro: guard.none guard.join)

lemma registered_backend_still: "still.steps grants (registered_backend_of sv uid)"
  unfolding registered_backend_of_def take_snapshot_def snapshot_valid_def release_snapshot_def relay_do_def registry_section_def
  by (intro still.steps_rules; simp split: prod.splits)

lemma connection_custody: "guard.keeps grants (handle_public_connection sv uid pid gid)"
proof -
  let ?C = "\<lambda>d x d' es. ss_granted_scopes d = 0 \<longrightarrow> found grants es \<longrightarrow> left_backed grants es"
  have release: "guard.keeps grants (release_lease sv)" unfolding release_lease_def by (intro guard_rules) simp
  have round: "guard.keeps grants (connection_round sv poll)" for poll
    unfolding connection_round_def connection_idle_def connection_ready_def source_turn_def assembly_within_deadline_def
    by (auto split: connection_poll.split intro!: guard_rules handle_public_frame_guards source_ready_guards)
  have loop: "guard.keeps grants (connection_loop sv polls)" for polls
    by (induction polls) (auto intro: guard.keeps_rules round)
  have finish: "guard.keeps grants (end_connection sv)"
    unfolding end_connection_def end_assembly_def
    by (intro guard.keeps_bind source_guards guard.keeps_data only_if_guards release section_guards locked_keeps given_unlock guard.keeps_rules) simp_all
  have rest: "guard.keeps grants (if \<not> started then release_lease sv else State_Monad.bind (update f) (\<lambda>_. State_Monad.bind (call (sv_polls sv) (\<lambda>_. []))
      (\<lambda>polls. State_Monad.bind (connection_loop sv polls) (\<lambda>_. end_connection sv))))" for started f
    by (intro guard.keeps_rules release loop finish) simp
  have session: "spec (State_Monad.bind (start_public_session sv) (\<lambda>started. if \<not> started then release_lease sv
      else State_Monad.bind (update f) (\<lambda>_. State_Monad.bind (call (sv_polls sv) (\<lambda>_. []))
        (\<lambda>polls. State_Monad.bind (connection_loop sv polls) (\<lambda>_. end_connection sv))))) ?C" for f
    by (rule spec_bind [OF start_public_session_custody [where grants = grants] rest [unfolded keeps_found]]) simp
  have opened: "spec (State_Monad.bind (update (\<lambda>ss. ss\<lparr>ss_identity_checked_at := now, ss_backend := backend\<rparr>)) (\<lambda>_. State_Monad.bind
      (start_public_session sv) (\<lambda>started. if \<not> started then release_lease sv
      else State_Monad.bind (update f) (\<lambda>_. State_Monad.bind (call (sv_polls sv) (\<lambda>_. []))
        (\<lambda>polls. State_Monad.bind (connection_loop sv polls) (\<lambda>_. end_connection sv)))))) ?C" for now backend f
    by (rule spec_bind [OF spec_update [where P = "\<lambda>d _ d' es. es = [] \<and> ss_granted_scopes d' = ss_granted_scopes d"] session]) auto
  have named: "spec (State_Monad.bind (registered_backend_of sv uid) (\<lambda>backend.
      State_Monad.bind (update (\<lambda>ss. ss\<lparr>ss_identity_checked_at := now, ss_backend := backend\<rparr>)) (\<lambda>_. State_Monad.bind
      (start_public_session sv) (\<lambda>started. if \<not> started then release_lease sv
      else State_Monad.bind (update f) (\<lambda>_. State_Monad.bind (call (sv_polls sv) (\<lambda>_. []))
        (\<lambda>polls. State_Monad.bind (connection_loop sv polls) (\<lambda>_. end_connection sv))))))) ?C" for now f
    by (rule spec_bind [OF registered_backend_still [where grants = grants, THEN still.steps_spec] opened]) (simp add: guards_found)
  have "spec (call (sv_seconds sv) (\<lambda>_. [])) (\<lambda>d x d' es. d' = d \<and> es = [])" by (simp add: spec_call)
  note whole = spec_bind [OF this named, where Q = ?C]
  show ?thesis unfolding keeps_found handle_public_connection_def
    by (rule spec_bind [OF spec_update [where P = "\<lambda>d _ d' es. es = [] \<and> ss_granted_scopes d' = 0"], where R = "\<lambda>_. ?C"])
       (auto simp: initial_session_def intro: whole spec_return)
qed

text \<open>
  C5: Every lease a connection publishes is backed by the store: whatever the
  client sends and whatever the other threads do to the lease meanwhile, the scopes a
  connection leaves in a lease were requested and are granted to its application at the
  generation the lease records, provided the store reports its grants truthfully and the
  other threads keep to the same rule.
\<close>

theorem connection_leases_backed:
  assumes "run_state (handle_public_connection sv uid pid gid) s = (x, t)" "rn_log s = []"
    and "store_honest grants (rn_log t)" "\<forall>lease. Lease_Locked lease \<in> set (rn_log t) \<longrightarrow> backed grants lease"
    and "Lease_Unlocked lease \<in> set (rn_log t)"
  shows "backed grants lease"
  using guard.keeps_run [OF connection_custody assms(1)] assms(2-5) by (auto simp: guards_def)

text \<open>A client that binds to a lease of the sample surroundings and leaves.\<close>

definition hello_frame :: ksd_frame where
  "hello_frame = frame_zero\<lparr>fr_magic := public_magic, fr_major := KSD_PROTOCOL_MAJOR, fr_minor := KSD_PROTOCOL_MINOR,
     fr_opcode := KSD_OP_HELLO, fr_request_id := 1, fr_payload_length := 16,
     fr_payload := Some (ksd_encode_u16 KSD_ROLE_RPC @ ksd_encode_u16 KSD_AUTH_CHECK @ ksd_encode_u32 0 @ ksd_encode_u64 1)\<rparr>"

definition hello_services :: "u32 services" where
  "hello_services = sample_services\<lparr>sv_read := (\<lambda>w. (Some hello_frame, w))\<rparr>"

lemma hello_parsed: "parse_hello hello_frame = Some \<lparr>he_role = KSD_ROLE_RPC, he_auth_mode = KSD_AUTH_CHECK, he_scopes = 0, he_lease_id = 1\<rparr>"
  by code_simp

lemma hello_services_simps [simp]:
  "sv_read hello_services = (\<lambda>w. (Some hello_frame, w))" "sv_lease_lock hello_services = (\<lambda>w. (world_lease w, w))" "sv_alloc hello_services = (\<lambda>_. True)"
  "sv_lease_unlock hello_services = (\<lambda>_ w. w)" "sv_generation hello_services = (\<lambda>_ w. (Some (ucast w + 7), w))" "sv_write hello_services = (\<lambda>_ _ w. (True, w))"
  "sv_revalidate_cached hello_services = (\<lambda>i w. (Some i, w))" "sv_seconds hello_services = (\<lambda>w. (1, w))" "sv_polls hello_services = (\<lambda>w. ([], w))"
  "sv_leases hello_services = (\<lambda>w. ([world_lease w], w))" "sv_set_leases hello_services = (\<lambda>_ w. w)" "sv_lease_index hello_services = (\<lambda>w. (0, w))"
  by (simp_all add: hello_services_def)

lemma hello_registry [simp]:
  "run_state (registry_section hello_services f) s = (case f backends_zero of (x, slots, actions) \<Rightarrow> (x, s\<lparr>rn_log := rn_log s @ [Relay_Did actions]\<rparr>))"
  by (simp add: registry_section_def hello_services_def run_simps split: prod.splits)

lemma hello_run:
  obtains t frame where "run_state (handle_public_connection hello_services 1000 42 1000) (sample_start 4) = ((), t)"
    "rn_log t = [Relay_Did [], Lease_Locked (world_lease 4), Store_Generation 1000 (Some 11), Lease_Unlocked (world_lease 4), Relay_Did [], Wrote frame None True]"
proof -
  have z: "first_index (\<lambda>slot. bk_active slot \<and> bk_uid slot = u) backends_zero = None" for u
    by (simp add: first_index_None backends_zero_def backend_blank_def)
  obtain frame where f: "build_response (\<lambda>_. True) hello_frame KSD_STATUS_OK 0 None (hello_tail 4 0 0 1) False = Some frame"
    by (rule build_response_fits [of hello_frame KSD_STATUS_OK None 0 "hello_tail 4 0 0 1"])
       (simp_all add: hello_frame_def diagnostic_length_def response_text_def wire_defs hello_tail_def)
  have l: "le_id (world_lease 4) = 1" "le_active (world_lease 4)" "le_identity (world_lease 4) = sample_identity" "le_granted_scopes (world_lease 4) = 4"
    "le_requested_scopes (world_lease 4) = 4" "le_generation (world_lease 4) = 11"
    "(world_lease 4)\<lparr>le_generation := 11, le_granted_scopes := 4\<rparr> = world_lease 4"
    by (simp_all add: world_lease_def sample_lease_def)
  have i: "id_uid sample_identity = 1000" "id_pid sample_identity = 42" "same_identity sample_identity sample_identity"
    by (simp_all add: sample_identity_def same_identity_def)
  have b: "ksd_backend_reported_operations KSD_BACKEND_NONE False 0 = 0" "KSD_BACKEND_NONE = 0"
    "KSD_ROLE_RPC \<noteq> KSD_ROLE_AUTHORIZATION_LEASE"
    by (simp_all add: ksd_backend_reported_operations_def ksd_backend_operations_def wire_defs)
  have m: "\<not> ksd_state_mutates_windows (fr_opcode hello_frame)" by code_simp
  have refresh: "run_state (session_refresh hello_services True False) s = ((True, False),
    s\<lparr>rn_data := session_updated (world_lease 4) 11 4 (rn_data s), rn_log := rn_log s @ [Lease_Locked (world_lease 4), Store_Generation 1000 (Some 11), Lease_Unlocked (world_lease 4)]\<rparr>)"
    if "rn_world s = 4" "ss_lease (rn_data s)" for s
    using that by (simp add: session_refresh_def refresh_lease_def lease_check_def lease_lock_def lease_unlock_def store_generation_def
       still_same_def run_simps Let_def l i session_updated_def)
  obtain u t where r: "run_state (handle_public_connection hello_services 1000 42 1000) (sample_start 4) = (u, t)" by (rule prod.exhaust)
  moreover have "rn_log (snd (run_state (handle_public_connection hello_services 1000 42 1000) (sample_start 4))) =
      [Relay_Did [], Lease_Locked (world_lease 4), Store_Generation 1000 (Some 11), Lease_Unlocked (world_lease 4), Relay_Did [], Wrote frame None True]"
    using f b m by (simp add: handle_public_connection_def run_simps sample_start_def registered_backend_of_def take_snapshot_def take_backend_snapshot_def z
       start_public_session_def hello_parsed start_rpc_def bind_lease_def lease_bind_def initial_session_def lease_bindable_def l i refresh
       answer_hello_def registered_operations_def forward_response_def sequenced_tail_def forward_public_def session_updated_def
       end_connection_def stop_sources_def state_source_stop_def only_if_def release_lease_def ksd_request_assembly_active_def ksd_request_assembly_init_def)
  ultimately show thesis using that by simp
qed

theorem connection_leases_backed_witness:
  "\<exists>t lease. run_state (handle_public_connection hello_services 1000 42 1000) (sample_start 4) = ((), t)
     \<and> Lease_Unlocked lease \<in> set (rn_log t) \<and> le_granted_scopes lease = 4 \<and> backed sample_grants lease"
proof (rule hello_run)
  fix t frame
  assume r: "run_state (handle_public_connection hello_services 1000 42 1000) (sample_start 4) = ((), t)"
    and log: "rn_log t = [Relay_Did [], Lease_Locked (world_lease 4), Store_Generation 1000 (Some 11), Lease_Unlocked (world_lease 4), Relay_Did [], Wrote frame None True]"
  have "backed sample_grants (world_lease 4)"
    by (simp add: backed_def lease_grants_def world_lease_def sample_lease_def sample_grants_def)
  then have "backed sample_grants (world_lease 4)"
    by (intro connection_leases_backed [OF r]) (auto simp: sample_start_def log store_honest_def)
  then show ?thesis using r log by (auto intro!: exI [of _ "world_lease 4"] simp: world_lease_def)
qed

end
