(* ===== verification/Resource_Balance.thy ===== *)
theory Resource_Balance
  imports Lease_Custody Operation_Safety
begin

text \<open>
  What a connection takes from the shared budgets and the relays' reference counts it gives
  back, on every path. The account of a log is the number of times a holding was taken,
  less the number of times it was given back.
\<close>

section \<open>The account of a log\<close>

datatype holding = Budget budget | Reference relay

fun moved :: "relay_action \<Rightarrow> holding \<Rightarrow> int" where
  "moved (Relay_Acquire r) h = (if h = Reference r then 1 else 0)"
| "moved (Relay_Release r) h = (if h = Reference r then - 1 else 0)"
| "moved _ h = 0"

fun delta :: "event \<Rightarrow> holding \<Rightarrow> int" where
  "delta (Reserved b ok) h = (if ok \<and> h = Budget b then 1 else 0)"
| "delta (Released b) h = (if h = Budget b then - 1 else 0)"
| "delta (Relay_Did actions) h = (\<Sum>a\<leftarrow>actions. moved a h)"
| "delta _ h = 0"

definition held :: "event list \<Rightarrow> holding \<Rightarrow> int" where
  "held es h = (\<Sum>e\<leftarrow>es. delta e h)"

lemma held_simps [simp]: "held [] h = 0" "held (e # es) h = delta e h + held es h" "held (es @ fs) h = held es h + held fs h"
  by (simp_all add: held_def)

text \<open>
  The leases of a client name the client's user and process, and so does the session. The
  keys under which budgets are reserved and released are read from the session.
\<close>

definition steady :: "u32 \<Rightarrow> i32 \<Rightarrow> event list \<Rightarrow> bool" where
  "steady u p es \<longleftrightarrow> (\<forall>l. Lease_Locked l \<in> set es \<longrightarrow> id_uid (le_identity l) = u \<and> id_pid (le_identity l) = p)"

definition client :: "u32 \<Rightarrow> i32 \<Rightarrow> authority_session \<Rightarrow> bool" where
  "client u p d \<longleftrightarrow> id_uid (ss_identity d) = u \<and> id_pid (ss_identity d) = p"

lemma steady_simps [simp]: "steady u p []" "steady u p (es @ fs) \<longleftrightarrow> steady u p es \<and> steady u p fs"
  "steady u p (Lease_Locked l # es) \<longleftrightarrow> id_uid (le_identity l) = u \<and> id_pid (le_identity l) = p \<and> steady u p es"
  "steady u p (Reserved b ok # es) = steady u p es" "steady u p (Released b # es) = steady u p es"
  by (auto simp: steady_def)

text \<open>\<open>takes u p g m\<close>: a run of \<open>m\<close> with result \<open>x\<close> leaves the account at \<open>g x\<close>.\<close>

definition takes :: "u32 \<Rightarrow> i32 \<Rightarrow> ('a \<Rightarrow> holding \<Rightarrow> int) \<Rightarrow> ('w, 'a) authority \<Rightarrow> bool" where
  "takes u p g m \<longleftrightarrow> spec m (\<lambda>d x d' es. steady u p es \<longrightarrow> client u p d \<longrightarrow> client u p d'
     \<and> (\<forall>h. held es h = g x h) \<and> ss_assembly d' = ss_assembly d)"

interpretation even: run_property "\<lambda>d d' es. steady u p es \<longrightarrow> client u p d \<longrightarrow> client u p d'
  \<and> (\<forall>h. held es h = 0) \<and> ss_assembly d' = ss_assembly d" for u p
  by standard auto

lemma takes_even: "even.steps u p m \<longleftrightarrow> takes u p (\<lambda>_ _. 0) m"
  by (simp add: even.steps_def takes_def)

lemma takes_bind:
  assumes "takes u p g m" "\<And>x. takes u p (k x) (f x)" "\<And>x y h. g x h + k x y h = G y h"
  shows "takes u p G (State_Monad.bind m f)"
  unfolding takes_def
  by (rule spec_bind [OF assms(1) [unfolded takes_def] assms(2) [unfolded takes_def]]) (auto simp: assms(3))

lemma takes_after: "even.steps u p m \<Longrightarrow> (\<And>x. takes u p g (f x)) \<Longrightarrow> takes u p g (State_Monad.bind m f)"
  unfolding takes_even by (erule takes_bind) simp_all

text \<open>What is read from the session names the client. The second premise says that the rest only adds to the log.\<close>

lemma takes_data:
  assumes "\<And>d. client u p d \<Longrightarrow> takes u p g (f d)" "\<And>d. guard.keeps grants (f d)"
  shows "takes u p g (State_Monad.bind data f)"
  unfolding takes_def
proof (rule specI, unfold wp_bind wp_data, goal_cases)
  case (1 s)
  show ?case
  proof (cases "client u p (rn_data s)")
    case True
    from assms(1) [OF True] show ?thesis unfolding takes_def spec_def by blast
  next
    case False
    show ?thesis by (rule spec_wp [OF assms(2) [unfolded guard.keeps_def]]) (simp add: False)
  qed
qed

section \<open>Parts that take nothing\<close>

lemma lease_checked_free:
  assumes "lease_checked lease ok granted generation changed cs"
  shows "held cs h = 0"
  using assms by cases auto

lemma refreshed_even:
  assumes "refreshed notify d x d' es"
  shows "held es h = 0" "ss_assembly d' = ss_assembly d" "steady u p es \<Longrightarrow> client u p d'"
  using assms by (cases; auto simp: session_updated_def client_def dest: lease_checked_free)+

lemma forward_public_even: "even.steps u p (forward_public sv frame)"
  unfolding forward_public_def lease_lock_def lease_unlock_def by (intro even.steps_rules) simp_all

lemma forward_even:
  "even.steps u p (forward_response sv request status detail diagnostic tail chained)" "even.steps u p (forward_event sv opcode payload)"
  "even.steps u p (send_revoked sv scopes)" "even.steps u p (refresh_failed sv notify)" "even.steps u p (forward_capture sv request result)"
  unfolding forward_response_def forward_event_def send_revoked_def refresh_failed_def forward_capture_def
  by (intro even.steps_rules forward_public_even; simp add: client_def)+

lemma identity_kept: "same_identity i v \<Longrightarrow> id_uid v = id_uid i \<and> id_pid v = id_pid i"
  by (simp add: same_identity_def)

lemma leased_identity_even: "even.steps u p (leased_identity_refresh sv)"
  unfolding even.steps_def leased_identity_refresh_def lease_lock_def lease_unlock_def
  by (rule specI) (auto simp: wp_simps client_def intro!: wp_any)

lemma session_identity_even: "even.steps u p (session_identity_refresh sv)"
  unfolding even.steps_def session_identity_refresh_def
proof (rule specI, unfold wp_bind wp_data wp_if, goal_cases)
  case (1 s)
  have "wp (still_same f (ss_identity (rn_data s))) (\<lambda>v. wp (case v of None \<Rightarrow> return False
      | Some v \<Rightarrow> State_Monad.bind (call (sv_seconds sv) (\<lambda>_. [])) (\<lambda>now. State_Monad.bind
          (update (\<lambda>ss. ss\<lparr>ss_identity := v, ss_identity_checked_at := now\<rparr>)) (\<lambda>_. return True)))
      (\<lambda>x t. \<exists>es. rn_log t = rn_log s @ es \<and> (steady u p es \<longrightarrow> client u p (rn_data s) \<longrightarrow> client u p (rn_data t)
        \<and> (\<forall>h. held es h = 0) \<and> ss_assembly (rn_data t) = ss_assembly (rn_data s)))) s" for f
    by (rule spec_wp [OF still_same_identity]) (auto simp: wp_simps client_def dest!: identity_kept intro!: wp_any split: option.split)
  moreover have "wp (leased_identity_refresh sv) (\<lambda>x t. \<exists>es. rn_log t = rn_log s @ es \<and> (steady u p es \<longrightarrow> client u p (rn_data s)
      \<longrightarrow> client u p (rn_data t) \<and> (\<forall>h. held es h = 0) \<and> ss_assembly (rn_data t) = ss_assembly (rn_data s))) s"
    by (rule spec_wp [OF leased_identity_even [THEN even.steps_spec]]) auto
  ultimately show ?case by simp
qed

lemma session_refresh_even: "even.steps u p (session_refresh sv force notify)"
proof -
  have "even.steps u p (refresh_unleased sv force notify)"
    unfolding refresh_unleased_def store_generation_def store_check_def
    by (intro even.steps_rules forward_even session_identity_even) (simp_all add: client_def)
  moreover have "even.steps u p (refresh_lease sv force notify)"
    unfolding even.steps_def by (rule spec_weaken [OF refresh_lease_spec]) (auto dest: refreshed_even)
  ultimately show ?thesis unfolding session_refresh_def by (intro even.steps_rules)
qed

text \<open>The critical sections.\<close>

text \<open>The account of a section that does something with relays.\<close>

definition references :: "relay option \<Rightarrow> holding \<Rightarrow> int" where
  "references r h = (if r \<noteq> None \<and> h = Reference (the r) then 1 else 0)"

lemma references_simps [simp]: "references None h = 0" "references (Some r) h = (if h = Reference r then 1 else 0)"
  by (simp_all add: references_def)

lemma registry_takes:
  assumes "\<And>slots x slots' actions h. f slots = (x, slots', actions) \<Longrightarrow> (\<Sum>a\<leftarrow>actions. moved a h) = g x h"
  shows "takes u p g (registry_section sv f)"
  unfolding takes_def registry_section_def
proof (rule specI, unfold wp_bind wp_case_prod wp_return wp_call, goal_cases)
  case (1 s)
  obtain slots w where r: "sv_registry sv (rn_world s) = (slots, w)" by force
  obtain x slots' actions where f: "f slots = (x, slots', actions)" by (cases "f slots")
  show ?case using assms [OF f] by (auto simp: r f)
qed

lemma registry_even: "(\<And>slots. snd (snd (f slots)) = []) \<Longrightarrow> even.steps u p (registry_section sv f)"
  unfolding takes_even by (rule registry_takes) (metis snd_conv sum_list.Nil list.map(1))

lemma section_even:
  "even.steps u p (snapshot_current sv snapshot)" "even.steps u p (snapshot_valid sv snapshot)" "even.steps u p (snapshot_provider_valid sv snapshot)"
  "even.steps u p (milliseconds sv)" "even.steps u p (relay_do sv [Close_Fd fd])" "even.steps u p (still_same f i)"
  unfolding snapshot_current_def snapshot_valid_def snapshot_provider_valid_def milliseconds_def relay_do_def still_same_def
  by (intro registry_even even.steps_rules; simp)+

lemma takes_cong: "takes u p g m \<Longrightarrow> (\<And>x h. g x h = g' x h) \<Longrightarrow> takes u p g' m"
  by (simp add: takes_def)

lemma relay_takes: "takes u p (\<lambda>_ h. \<Sum>a\<leftarrow>actions. moved a h) (relay_do sv actions)"
  unfolding takes_def relay_do_def by (rule spec_call) simp

lemma take_snapshot_takes: "takes u p (\<lambda>(found, snapshot) h. if found then references (sn_relay snapshot) h else 0) (take_snapshot sv uid)"
  unfolding take_snapshot_def
proof (rule registry_takes, goal_cases)
  case (1 slots x slots' actions h)
  then show ?case by (auto simp: take_backend_snapshot_def Let_def split: option.splits prod.splits)
qed

lemma release_snapshot_takes: "takes u p (\<lambda>_ h. - references (sn_relay snapshot) h) (release_snapshot sv snapshot)"
proof -
  have "(\<Sum>a\<leftarrow>snd (release_backend_snapshot snapshot). moved a h) = - references (sn_relay snapshot) h" for h
    by (simp add: release_backend_snapshot_def split: option.splits)
  then show ?thesis using relay_takes [of u p "snd (release_backend_snapshot snapshot)" sv] by (simp add: release_snapshot_def)
qed

lemma release_relay_takes: "takes u p (\<lambda>_ h. - references (Some relay) h) (relay_do sv [Relay_Release relay])"
  by (rule takes_cong [OF relay_takes]) simp

lemma forget_even: "even.steps u p (registry_section sv (\<lambda>slots. case forget_display_relay identity relay slots of (slots', actions) \<Rightarrow> ((), slots', actions)))"
  unfolding takes_even by (rule registry_takes) (auto simp: forget_display_relay_def split: option.splits prod.splits)

lemma takes_if: "(b \<Longrightarrow> takes u p g m) \<Longrightarrow> (\<not> b \<Longrightarrow> takes u p g n) \<Longrightarrow> takes u p g (if b then m else n)"
  by simp

lemma takes_return: "(\<And>h. g x h = 0) \<Longrightarrow> takes u p g (return x)"
  unfolding takes_def by (rule spec_return) simp

lemma display_relay_takes: "takes u p references (display_relay sv identity gid pid backend capture)"
proof -
  let ?lane = "if capture then 1 else 0 :: nat"
  have lookup: "takes u p (\<lambda>x. case x of Display_Answer relay actions \<Rightarrow> references relay | Display_Spawn _ _ \<Rightarrow> (\<lambda>_. 0))
      (registry_section sv (\<lambda>slots. case display_relay_lookup identity gid pid backend ?lane slots of
         Display_Answer relay actions \<Rightarrow> (Display_Answer relay actions, slots, actions)
       | Display_Spawn index registration \<Rightarrow> (Display_Spawn index registration, slots, [])))"
    by (rule registry_takes) (auto simp: display_relay_lookup_def Let_def split: option.splits if_splits)
  have install: "takes u p references (registry_section sv (display_relay_install identity gid lane index registration relay))"
    for lane index registration relay
  proof (rule registry_takes, goal_cases)
    case (1 slots x slots' actions h)
    then show ?case
      by (cases "bk_display_relay (slots ! index) ! lane")
         (auto simp: display_relay_install_def Let_def split: if_splits, (metis references_simps(2))+)
  qed
  have spawn: "takes u p references (State_Monad.bind (call (sv_worker_spawn sv identity gid pid b) (\<lambda>_. [])) (\<lambda>(socket_fd, created).
      if socket_fd < 0 then return None else case created of
        None \<Rightarrow> State_Monad.bind (relay_do sv [Close_Fd socket_fd]) (\<lambda>_. return None)
      | Some relay \<Rightarrow> registry_section sv (display_relay_install identity gid lane index registration relay)))" for b lane index registration
    by (rule takes_after, rule even.steps_call, simp)
       (auto split: prod.split option.split intro!: takes_return takes_after [OF section_even(5)] install)
  show ?thesis unfolding display_relay_def Let_def
    by (rule takes_bind [OF lookup, where k = "\<lambda>x y h. references y h - (case x of Display_Answer relay _ \<Rightarrow> references relay h | Display_Spawn _ _ \<Rightarrow> 0)"])
       (auto split: display_lookup.split intro: takes_return spawn)
qed

section \<open>Operations\<close>

lemma case_even:
  "even.steps u p m1 \<Longrightarrow> even.steps u p m2 \<Longrightarrow> even.steps u p m3 \<Longrightarrow> even.steps u p m4 \<Longrightarrow> (\<And>reply. even.steps u p (g reply)) \<Longrightarrow>
     even.steps u p (case poll of Worker_Interrupted \<Rightarrow> m1 | Worker_Failed \<Rightarrow> m2 | Worker_Idle \<Rightarrow> m3 | Worker_Hung_Up \<Rightarrow> m4 | Worker_Ready reply \<Rightarrow> g reply)"
  "even.steps u p m1 \<Longrightarrow> even.steps u p m2 \<Longrightarrow> even.steps u p (case b of True \<Rightarrow> m1 | False \<Rightarrow> m2)"
  "even.steps u p m1 \<Longrightarrow> even.steps u p m2 \<Longrightarrow> even.steps u p m3 \<Longrightarrow> even.steps u p (case wait of Woken \<Rightarrow> m1 | Wait_Expired \<Rightarrow> m2 | Wait_Broken \<Rightarrow> m3)"
  by (simp_all split: worker_poll.split bool.split wait_outcome.split)

lemma lease_even: "even.steps u p (lease_lock sv)" "even.steps u p (lease_unlock sv l)" "even.steps u p (emit sv e l)"
  unfolding lease_lock_def lease_unlock_def emit_def Let_def by (intro even.steps_rules; simp)+

lemmas even_rules = even.steps_rules case_even section_even forward_even session_refresh_even session_identity_even lease_even

lemma only_if_even: "even.steps u p m \<Longrightarrow> even.steps u p (only_if b m)"
  by (simp add: only_if_def even.steps_return)

lemma capture_wait_even: "even.steps u p (capture_wait sv polls result)"
proof (induction polls)
  have a: "even.steps u p (capture_still_authorized sv)"
    unfolding capture_still_authorized_def disconnected_def by (intro even_rules) simp
  case Nil
  show ?case by (simp only: capture_wait.simps) (intro even_rules a)
  case (Cons poll polls)
  then show ?case by (simp only: capture_wait.simps) (intro even_rules a; assumption)
qed

lemma worker_execute_even: "even.steps u p (ksd_capture_worker_execute sv identity gid request pid backend)"
  unfolding ksd_capture_worker_execute_def by (intro even_rules capture_wait_even) simp_all

lemma sync_loop_even: "even.steps u p (sync_loop sv backend request before deadline lease waits)"
proof (induction waits arbitrary: lease)
  have a: "even.steps u p (ask_refresh sv backend lease)" for lease
    unfolding ask_refresh_def by (intro even_rules) simp
  case Nil
  show ?case by (simp only: sync_loop.simps) (intro even_rules a)
  case (Cons wait waits)
  then show ?case by (simp only: sync_loop.simps) (intro even_rules a; assumption)
qed

lemma operation_sync_even: "even.steps u p (operation_sync sv request before)"
  unfolding operation_sync_def by (intro even_rules sync_loop_even) (simp_all add: client_def)

text \<open>A relay that is used is released again.\<close>

lemma used_relay:
  assumes "takes u p references m" "even.steps u p (f None)"
    and "\<And>r. f (Some r) = State_Monad.bind (before r) (\<lambda>x. State_Monad.bind (relay_do sv [Relay_Release r]) (\<lambda>_. return (g r x)))"
    and "\<And>r. even.steps u p (before r)"
  shows "even.steps u p (State_Monad.bind m f)"
  unfolding takes_even
proof (rule takes_bind [OF assms(1), where k = "\<lambda>r y h. - references r h"])
  show "takes u p (\<lambda>y h. - references r h) (f r)" for r
  proof (cases r)
    case None
    then show ?thesis using assms(2) by (simp add: takes_even)
  next
    case (Some relay)
    have "takes u p (\<lambda>_ h. - references (Some relay) h) (State_Monad.bind (relay_do sv [Relay_Release relay]) (\<lambda>_. return (g relay x)))" for x
      by (rule takes_bind [OF release_relay_takes takes_return]) simp_all
    then show ?thesis unfolding Some assms(3) by (rule takes_after [OF assms(4)])
  qed
qed simp

lemma x11_even:
  "even.steps u p (x11_observe_window sv backend handle)" "even.steps u p (x11_child_sync sv backend request prior)"
proof -
  show observe: "even.steps u p (x11_observe_window sv backend handle)" for handle
    unfolding x11_observe_window_def
    apply (rule even.steps_bind, rule even.steps_data)
    apply (rule used_relay [OF display_relay_takes, where before = "\<lambda>relay. State_Monad.bind (milliseconds sv) (\<lambda>now.
        call (sv_relay_call sv relay (query_frame handle) (now + KSD_DISPLAY_DEADLINE_MS)) (\<lambda>r. [Observed relay (query_frame handle) r]))"])
      apply (simp add: even.steps_return)
     apply (simp add: State_Monad.bind_assoc)
    apply (intro even_rules, simp)
    done
  show "even.steps u p (x11_child_sync sv backend request prior)"
    unfolding x11_child_sync_def by (intro even_rules observe) (simp add: client_def)
qed

lemma refuse_even: "even.steps u p (refuse sv request status message)"
  unfolding refuse_def by (rule forward_even)

lemma perform_parts_even:
  "even.steps u p (prior_window sv request backend)" "even.steps u p (still_permitted sv scope generation backend)"
  "even.steps u p (settle sv request scope backend prior child result)" "even.steps u p (answer_operation sv request scope valid result)"
  unfolding prior_window_def still_permitted_def settle_def answer_operation_def Let_def
  by (intro even_rules x11_even operation_sync_even refuse_even)+

lemma dispatch_even: "even.steps u p (dispatch sv request backend)"
proof -
  have relay: "even.steps u p (relay_operation sv via relay request limit)" for via relay limit
    unfolding relay_operation_def by (intro even_rules) simp_all
  have script: "even.steps u p (dispatch_script sv request backend)"
    unfolding dispatch_script_def by (intro even_rules relay)
  have provider: "even.steps u p (dispatch_provider sv request backend)"
    unfolding dispatch_provider_def by (intro even_rules) simp_all
  have lookup: "takes u p references (if b then display_relay sv identity gid pid backend' capture else return None)" for b identity gid pid backend' capture
    by (intro takes_if display_relay_takes takes_return) simp
  have "even.steps u p (dispatch_worker sv request backend)"
    unfolding dispatch_worker_def Let_def
    apply (rule even.steps_bind, rule even.steps_data)
    subgoal for session
      apply (rule used_relay [OF lookup, where before = "\<lambda>relay.
          State_Monad.bind (relay_operation sv Via_Display relay request (if is_capture (fr_opcode request) then 35000 else KSD_DISPLAY_DEADLINE_MS)) (\<lambda>result.
          State_Monad.bind (call (sv_relay_broken sv relay) (\<lambda>_. [])) (\<lambda>gone.
          State_Monad.bind (only_if gone (registry_section sv (\<lambda>slots. case forget_display_relay (ss_identity session) relay slots of (slots', actions) \<Rightarrow> ((), slots', actions))))
            (\<lambda>_. return result)))"])
        apply (simp only: option.case, intro even_rules worker_execute_even; simp)
       apply (simp only: option.case State_Monad.bind_assoc State_Monad.bind_left_identity)
      apply (intro even_rules relay only_if_even forget_even, simp)
      done
    done
  with script provider show ?thesis unfolding dispatch_def by (intro even_rules)
qed

lemma perform_operation_even: "even.steps u p (perform_operation sv request scope backend)"
  unfolding perform_operation_def by (intro even_rules perform_parts_even dispatch_even)

text \<open>Budgets: what was reserved for the client is released for the client.\<close>

definition budget :: "bool \<Rightarrow> budget \<Rightarrow> holding \<Rightarrow> int" where
  "budget b k h = (if b \<and> h = Budget k then 1 else 0)"

lemma budget_takes:
  "takes u p (\<lambda>ok. budget ok (Kwin_Slot pid)) (kwin_reserve sv pid)" "takes u p (\<lambda>_ h. - budget True (Kwin_Slot pid) h) (kwin_release sv pid)"
  "takes u p (\<lambda>ok. budget ok (Capture_Memory uid pid)) (capture_reserve sv uid pid)"
  "takes u p (\<lambda>_ h. - budget True (Capture_Memory uid pid) h) (capture_release sv uid pid)"
  unfolding takes_def kwin_reserve_def kwin_release_def capture_reserve_def capture_release_def budget_section_def
  by (rule spec_call, simp add: budget_def)+

lemma only_if_takes: "takes u p (\<lambda>_ h. g h) m \<Longrightarrow> takes u p (\<lambda>_ h. if b then g h else 0) (only_if b m)"
  by (cases b) (simp_all add: only_if_def takes_return)

lemma reserve_if: "takes u p (\<lambda>ok. budget ok k) m \<Longrightarrow> takes u p (\<lambda>ok. budget (b \<and> ok) k) (if b then m else return True)"
  by (cases b) (auto simp: budget_def intro: takes_return)

lemma release_and_refuse_takes: "takes u p (\<lambda>_ h. - references (sn_relay backend) h) (release_and_refuse sv backend request status message)"
  unfolding release_and_refuse_def
  by (rule takes_bind [OF release_snapshot_takes refuse_even [unfolded takes_even]]) simp

text \<open>The releases after the operation, with the session read again.\<close>

definition give_back :: "'w services \<Rightarrow> bool \<Rightarrow> bool \<Rightarrow> backend_snapshot \<Rightarrow> bool \<Rightarrow> ('w, bool) authority" where
  "give_back sv capture script backend ok = do {
     session \<leftarrow> data;
     only_if capture (capture_release sv (id_uid (ss_identity session)) (id_pid (ss_identity session)));
     only_if script (kwin_release sv (id_pid (ss_identity session)));
     release_snapshot sv backend;
     return ok }"

lemma give_back_guards: "guard.keeps grants (give_back sv capture script backend ok)"
  unfolding give_back_def by (intro guard_rules)

lemma give_back_takes:
  "takes u p (\<lambda>_ h. - references (sn_relay backend) h - budget script (Kwin_Slot p) h - budget capture (Capture_Memory u p) h)
     (give_back sv capture script backend ok)"
  unfolding give_back_def
proof (rule takes_data)
  fix d
  assume "client u p d"
  then have d: "id_uid (ss_identity d) = u" "id_pid (ss_identity d) = p" by (simp_all add: client_def)
  have last: "takes u p (\<lambda>_ h. - references (sn_relay backend) h) (State_Monad.bind (release_snapshot sv backend) (\<lambda>_. return ok))"
    by (rule takes_bind [OF release_snapshot_takes takes_return]) simp_all
  have "takes u p (\<lambda>_ h. - references (sn_relay backend) h - budget script (Kwin_Slot p) h)
      (State_Monad.bind (only_if script (kwin_release sv p)) (\<lambda>_. State_Monad.bind (release_snapshot sv backend) (\<lambda>_. return ok)))"
    by (rule takes_bind [OF only_if_takes [OF budget_takes(2)] last]) (simp add: budget_def)
  from takes_bind [OF only_if_takes [OF budget_takes(4)] this]
  show "takes u p (\<lambda>_ h. - references (sn_relay backend) h - budget script (Kwin_Slot p) h - budget capture (Capture_Memory u p) h)
     (State_Monad.bind (only_if capture (capture_release sv (id_uid (ss_identity d)) (id_pid (ss_identity d)))) (\<lambda>_.
      State_Monad.bind (only_if script (kwin_release sv (id_pid (ss_identity d)))) (\<lambda>_. State_Monad.bind (release_snapshot sv backend) (\<lambda>_. return ok))))"
    unfolding d by (simp add: budget_def)
qed (intro guard_rules)

lemma execute_admitted_takes: "takes u p (\<lambda>_ h. - references (sn_relay backend) h) (execute_admitted sv request scope backend)"
  unfolding execute_admitted_def Let_def give_back_def [symmetric]
proof (rule takes_data)
  fix d
  assume "client u p d"
  then have d: "id_uid (ss_identity d) = u" "id_pid (ss_identity d) = p" by (simp_all add: client_def)
  let ?script = "kwin_script (ss_backend d) request" and ?capture = "is_capture (fr_opcode request)"
  let ?refs = "references (sn_relay backend)"
  have performed: "takes u p (\<lambda>_ h. - ?refs h - budget ?script (Kwin_Slot p) h - budget ?capture (Capture_Memory u p) h)
      (State_Monad.bind (perform_operation sv request scope backend) (give_back sv ?capture ?script backend))"
    by (rule takes_after [OF perform_operation_even give_back_takes])
  have refused: "takes u p (\<lambda>_ h. - ?refs h - budget ?script (Kwin_Slot p) h)
      (State_Monad.bind (only_if ?script (kwin_release sv p)) (\<lambda>_. release_and_refuse sv backend request status message))" for status message
    by (rule takes_bind [OF only_if_takes [OF budget_takes(2)] release_and_refuse_takes]) (simp add: budget_def)
  have memory: "takes u p (\<lambda>_ h. - ?refs h - budget ?script (Kwin_Slot p) h)
      (State_Monad.bind (if ?capture then capture_reserve sv u p else return True) (\<lambda>memory. if \<not> memory
        then State_Monad.bind (only_if ?script (kwin_release sv p)) (\<lambda>_. release_and_refuse sv backend request status message)
        else State_Monad.bind (perform_operation sv request scope backend) (give_back sv ?capture ?script backend)))" for status message
    by (rule takes_bind [OF reserve_if [OF budget_takes(3)],
          where k = "\<lambda>memory _ h. - ?refs h - budget ?script (Kwin_Slot p) h - budget (?capture \<and> memory) (Capture_Memory u p) h"])
       (use performed refused in \<open>auto simp: budget_def\<close>)
  show "takes u p (\<lambda>_ h. - ?refs h) (State_Monad.bind (if ?script then kwin_reserve sv (id_pid (ss_identity d)) else return True) (\<lambda>slot. if \<not> slot
      then release_and_refuse sv backend request KSD_STATUS_BUSY ''too many concurrent requests for this compositor''
      else State_Monad.bind (if ?capture then capture_reserve sv (id_uid (ss_identity d)) (id_pid (ss_identity d)) else return True) (\<lambda>memory. if \<not> memory
        then State_Monad.bind (only_if ?script (kwin_release sv (id_pid (ss_identity d))))
          (\<lambda>_. release_and_refuse sv backend request KSD_STATUS_RESOURCE_EXHAUSTED ''capture memory budget is busy'')
        else State_Monad.bind (perform_operation sv request scope backend) (give_back sv ?capture ?script backend))))"
    unfolding d
    by (rule takes_bind [OF reserve_if [OF budget_takes(1)], where k = "\<lambda>slot _ h. - ?refs h - budget (?script \<and> slot) (Kwin_Slot p) h"])
       (use memory release_and_refuse_takes in \<open>auto simp: budget_def\<close>)
next
  show "guard.keeps (\<lambda>_ _ _. 0) (State_Monad.bind (if kwin_script (ss_backend d) request then kwin_reserve sv (id_pid (ss_identity d)) else return True) (\<lambda>slot. if \<not> slot
      then release_and_refuse sv backend request KSD_STATUS_BUSY ''too many concurrent requests for this compositor''
      else State_Monad.bind (if is_capture (fr_opcode request) then capture_reserve sv (id_uid (ss_identity d)) (id_pid (ss_identity d)) else return True) (\<lambda>memory. if \<not> memory
        then State_Monad.bind (only_if (kwin_script (ss_backend d) request) (kwin_release sv (id_pid (ss_identity d))))
          (\<lambda>_. release_and_refuse sv backend request KSD_STATUS_RESOURCE_EXHAUSTED ''capture memory budget is busy'')
        else State_Monad.bind (perform_operation sv request scope backend) (give_back sv (is_capture (fr_opcode request)) (kwin_script (ss_backend d) request) backend))))" for d
    unfolding perform_operation_def
    by (intro guard_rules prior_window_guards dispatch_guards still_permitted_guards settle_guards answer_guards give_back_guards)
qed

lemma execute_operation_even: "even.steps u p (execute_operation sv request)"
proof -
  let ?bit = "ksd_operation_bit (fr_opcode request)" and ?scope = "ksd_operation_scope (fr_opcode request)"
  have none: "takes u p (\<lambda>_ h. - (if found then references (sn_relay backend) h else 0))
      (State_Monad.bind (only_if found (release_snapshot sv backend)) (\<lambda>_. State_Monad.bind (update (\<lambda>ss. ss\<lparr>ss_backend := b\<rparr>))
        (\<lambda>_. refuse sv request status message)))" for found backend b status message
    by (rule takes_bind [OF only_if_takes [OF release_snapshot_takes]], rule takes_after [OF _ refuse_even [unfolded takes_even]],
        rule even.steps_update) (simp_all add: client_def)
  have some: "takes u p (\<lambda>_ h. - references (sn_relay backend) h)
      (State_Monad.bind (update (\<lambda>ss. ss\<lparr>ss_backend := sn_backend backend\<rparr>)) (\<lambda>_.
        if c1 then release_and_refuse sv backend request s1 m1 else if c2 then release_and_refuse sv backend request s2 m2
        else if c3 then release_and_refuse sv backend request s3 m3 else execute_admitted sv request ?scope backend))" for backend c1 c2 c3 s1 s2 s3 m1 m2 m3
    by (intro takes_after [OF even.steps_update] takes_if release_and_refuse_takes execute_admitted_takes) (simp add: client_def)
  have usable: "takes u p (\<lambda>_ h. - (if found then references (sn_relay backend) h else 0))
      (State_Monad.bind (if found then snapshot_valid sv backend else return False) (\<lambda>usable. if \<not> usable
        then State_Monad.bind (only_if found (release_snapshot sv backend)) (\<lambda>_. State_Monad.bind (update (\<lambda>ss. ss\<lparr>ss_backend := b\<rparr>))
          (\<lambda>_. refuse sv request status message))
        else State_Monad.bind (update (\<lambda>ss. ss\<lparr>ss_backend := sn_backend backend\<rparr>)) (\<lambda>_.
        if c1 then release_and_refuse sv backend request s1 m1 else if c2 then release_and_refuse sv backend request s2 m2
        else if c3 then release_and_refuse sv backend request s3 m3 else execute_admitted sv request ?scope backend)))"
    for found backend b status message c1 c2 c3 s1 s2 s3 m1 m2 m3
  proof (cases found)
    case True
    have "takes u p (\<lambda>_ h. - references (sn_relay backend) h) (if \<not> usable
        then State_Monad.bind (only_if found (release_snapshot sv backend)) (\<lambda>_. State_Monad.bind (update (\<lambda>ss. ss\<lparr>ss_backend := b\<rparr>))
          (\<lambda>_. refuse sv request status message))
        else State_Monad.bind (update (\<lambda>ss. ss\<lparr>ss_backend := sn_backend backend\<rparr>)) (\<lambda>_.
        if c1 then release_and_refuse sv backend request s1 m1 else if c2 then release_and_refuse sv backend request s2 m2
        else if c3 then release_and_refuse sv backend request s3 m3 else execute_admitted sv request ?scope backend))" for usable
      by (rule takes_if, rule none [where found = found, unfolded if_P [OF True]], rule some)
    from takes_after [OF section_even(2) this] show ?thesis using True by simp
  next
    case False
    then show ?thesis using none [of False] by simp
  qed
  have whole: "even.steps u p (State_Monad.bind (take_snapshot sv uid) (\<lambda>(found, backend).
      State_Monad.bind (if found then snapshot_valid sv backend else return False) (\<lambda>usable. if \<not> usable
        then State_Monad.bind (only_if found (release_snapshot sv backend)) (\<lambda>_. State_Monad.bind (update (\<lambda>ss. ss\<lparr>ss_backend := b\<rparr>))
          (\<lambda>_. refuse sv request status message))
        else State_Monad.bind (update (\<lambda>ss. ss\<lparr>ss_backend := sn_backend backend\<rparr>)) (\<lambda>_.
        if c1 backend then release_and_refuse sv backend request s1 m1 else if c2 then release_and_refuse sv backend request s2 m2
        else if c3 then release_and_refuse sv backend request s3 m3 else execute_admitted sv request ?scope backend))))"
    for uid b status message c1 c2 c3 s1 s2 s3 m1 m2 m3
    unfolding takes_even
    apply (rule takes_bind [OF take_snapshot_takes, where k = "\<lambda>x _ h. - (if fst x then references (sn_relay (snd x)) h else 0)"])
    subgoal for x by (cases x) (simp only: prod.case fst_conv snd_conv, rule usable)
    by (simp split: prod.split)
  show ?thesis unfolding execute_operation_def Let_def by (intro even_rules refuse_even whole)
qed

text \<open>
  C7: Executing an operation leaves nothing behind, on every path: each slot
  and each piece of memory it reserved for the client is released under the same key, and each
  reference to a relay it took is given up, provided the leases of the client name the
  client's own user and process, as they do from the moment they are bound.
\<close>

theorem operation_balanced:
  assumes "run_state (execute_operation sv request) s = (x, t)" "rn_log t = rn_log s @ es"
    and "steady (id_uid (ss_identity (rn_data s))) (id_pid (ss_identity (rn_data s))) es"
  shows "held es h = 0"
  using spec_run [OF execute_operation_even [THEN even.steps_spec] assms(1)] assms(2,3) by (auto simp: client_def)

theorem operation_balanced_witness:
  "\<exists>x t. run_state (execute_operation desktop_services list_request) (desktop_start KSD_SCOPE_WINDOW_MONITORING) = (x, t)
     \<and> Reserved (Kwin_Slot 42) True \<in> set (rn_log t) \<and> held (rn_log t) (Budget (Kwin_Slot 42)) = 0 \<and> held (rn_log t) (Reference 9) = 0"
proof (rule desktop_run)
  fix x t frame
  assume r: "run_state (execute_operation desktop_services list_request) (desktop_start KSD_SCOPE_WINDOW_MONITORING) = (x, t)"
    and log: "rn_log t = desktop_look @ [Relay_Did [Relay_Acquire 9], Relay_Did [], Reserved (Kwin_Slot 42) True] @ Dispatched (Via_Script 9) list_request #
       Answered (ksd_result_init\<lparr>res_status := KSD_STATUS_OK\<rparr>) # desktop_look @ [Relay_Did []] @ Wrote frame None True #
       [Released (Kwin_Slot 42), Relay_Did [Relay_Release 9]]"
  have start: "rn_log t = rn_log (desktop_start KSD_SCOPE_WINDOW_MONITORING) @ rn_log t" by (simp add: desktop_start_def)
  have "steady (id_uid (ss_identity (rn_data (desktop_start KSD_SCOPE_WINDOW_MONITORING))))
      (id_pid (ss_identity (rn_data (desktop_start KSD_SCOPE_WINDOW_MONITORING)))) (rn_log t)"
    by (simp add: log steady_def desktop_look_def desktop_start_def sample_session_def)
  from operation_balanced [OF r start this] have "held (rn_log t) h = 0" for h .
  moreover have "Reserved (Kwin_Slot 42) True \<in> set (rn_log t)" by (simp add: log)
  ultimately show ?thesis using r by blast
qed

section \<open>Requests in chunks\<close>

text \<open>
  With requests in chunks the account follows the state: memory is held for the client
  exactly while an assembly is active. References are left out, since the sources of a
  connection hold them beyond the request that started them.
\<close>

definition assembling_now :: "u32 \<Rightarrow> authority_session \<Rightarrow> budget \<Rightarrow> int" where
  "assembling_now u d b = (if as_active (ss_assembly d) \<and> b = Assembly_Memory u then 1 else 0)"

interpretation tally: run_property "\<lambda>d d' es. steady u p es \<longrightarrow> client u p d \<longrightarrow> client u p d'
  \<and> (\<forall>b. held es (Budget b) = assembling_now u d' b - assembling_now u d b)" for u p
  by standard auto

lemma even_tally: "even.steps u p m \<Longrightarrow> tally.steps u p m"
  unfolding even.steps_def tally.steps_def by (erule spec_weaken) (simp add: assembling_now_def)

lemma moved_budget [simp]: "moved a (Budget b) = 0"
  by (cases a) simp_all

lemma registry_tally: "tally.steps u p (registry_section sv f)"
  unfolding registry_section_def by (intro tally.steps_rules) (simp split: prod.splits)

lemma relay_tally: "tally.steps u p (relay_do sv actions)"
  unfolding relay_do_def by (intro tally.steps_rules) simp

lemma snapshot_tally: "tally.steps u p (take_snapshot sv uid)" "tally.steps u p (release_snapshot sv snapshot)"
  unfolding take_snapshot_def release_snapshot_def by (rule registry_tally relay_tally)+

text \<open>Authorizing takes nothing and keeps the client's identity.\<close>

definition same_client :: "authority_session \<Rightarrow> authority_session \<Rightarrow> event list \<Rightarrow> bool" where
  "same_client d d' es \<longleftrightarrow> (\<forall>u p. client u p d \<longrightarrow> client u p d') \<and> (\<forall>h. held es h = 0) \<and> ss_assembly d' = ss_assembly d"

lemma same_client_even: "spec m (\<lambda>d x d' es. same_client d d' es) \<Longrightarrow> even.steps u p m"
  unfolding even.steps_def by (erule spec_weaken) (auto simp: same_client_def)

lemma session_checked_client: "session_checked d x d' es \<Longrightarrow> same_client d d' es"
  by (erule session_checked.cases) (auto simp: same_client_def client_def answered_def asked_def)

lemma grant_recorded_client: "grant_recorded requested missing d status d' es \<Longrightarrow> same_client d d' es"
  by (erule grant_recorded.cases) (auto simp: same_client_def client_def dest!: session_checked_client identity_kept)

lemma prompted_client: "prompted requested d x d' es \<Longrightarrow> same_client d d' es"
  by (erule prompted.cases) (auto simp: same_client_def client_def dest!: session_checked_client grant_recorded_client identity_kept)

lemma authorized_client: "authorized requested mode d x d' es \<Longrightarrow> same_client d d' es"
  by (erule authorized.cases) (auto simp: same_client_def client_def requesting_def dest!: session_checked_client prompted_client)

lemma authorize_scopes_even: "even.steps u p (authorize_scopes sv requested mode)"
  by (rule same_client_even, rule spec_weaken [OF authorize_scopes_spec]) (rule authorized_client)

lemma complete_authorization_even: "even.steps u p (complete_authorization sv requested status)"
  unfolding complete_authorization_def completion_check_def store_generation_def store_check_def Let_def
  by (intro even_rules) (simp_all add: client_def)

lemma handle_authorize_even: "even.steps u p (handle_authorize sv request)"
  unfolding handle_authorize_def by (intro even_rules authorize_scopes_even complete_authorization_even)

lemma send_entries_even: "even.steps u p (send_entries sv request entries)"
proof (induction entries)
  case (Cons e entries)
  then show ?case by (cases e) (simp only: send_entries.simps, intro even_rules)
qed (simp add: even.steps_return)

lemma permissions_even: "even.steps u p (permissions_list sv request)" "even.steps u p (permissions_revoke sv request)"
  unfolding permissions_list_def permissions_revoke_def revoke_invalid_def revoke_finish_def store_revoke_def
  by (intro even_rules send_entries_even; simp)+

text \<open>Sources, and the requests of the public protocol.\<close>

lemmas tally_rules = tally.steps_rules registry_tally relay_tally snapshot_tally
  section_even [THEN even_tally] forward_even [THEN even_tally] session_refresh_even [THEN even_tally] lease_even [THEN even_tally]
  refuse_even [THEN even_tally]

lemma source_tally: "tally.steps u p (state_source_stop sv lane)" "tally.steps u p (stop_sources sv)" "tally.steps u p (state_source_start sv lane)"
proof -
  show stop: "tally.steps u p (state_source_stop sv lane)" for lane
    unfolding state_source_stop_def by (intro tally_rules) (simp_all add: client_def assembling_now_def)
  show "tally.steps u p (stop_sources sv)" unfolding stop_sources_def by (intro tally_rules stop)
  show "tally.steps u p (state_source_start sv lane)"
    unfolding state_source_start_def by (intro tally_rules) (simp_all add: client_def assembling_now_def)
qed

lemma state_source_event_tally: "tally.steps u p (state_source_event sv frame)"
  unfolding state_source_event_def apply_event_def window_apply_def
  by (intro tally_rules) (auto split: window_effect.split intro!: tally_rules)

lemma subscribe_tally: "tally.steps u p (handle_state_subscribe sv request)"
  unfolding handle_state_subscribe_def start_sources_def emit_grants_def Let_def
  by (intro tally_rules source_tally)

lemma handle_public_request_tally: "tally.steps u p (handle_public_request sv request)"
  unfolding handle_public_request_def handle_ping_def administer_def
  by (intro tally_rules subscribe_tally session_identity_even [THEN even_tally] handle_authorize_even [THEN even_tally]
       permissions_even [THEN even_tally] execute_operation_even [THEN even_tally])

text \<open>Beginning, continuing and ending an assembly.\<close>

lemma assembly_parts:
  "even.steps u p (assembly_within_deadline sv)" "even.steps u p (may_begin_assembly sv frame)"
  unfolding assembly_within_deadline_def may_begin_assembly_def by (intro even_rules; simp add: client_def)+

text \<open>Clearing the assembly and releasing its memory go together.\<close>

lemma finish_assembly_tally:
  "spec (finish_assembly sv) (\<lambda>d x d' es. steady u p es \<longrightarrow> client u p d \<longrightarrow> as_active (ss_assembly d) \<longrightarrow>
     client u p d' \<and> (\<forall>b. held es (Budget b) = assembling_now u d' b - assembling_now u d b))"
proof (rule specI, goal_cases)
  case (1 s)
  have request: "wp (case taken of None \<Rightarrow> return False | Some (assembled, _) \<Rightarrow> handle_public_request sv assembled)
      (\<lambda>x t. \<exists>es. rn_log t = rn_log s @ es \<and> (steady u p es \<longrightarrow> client u p (rn_data s) \<longrightarrow> as_active (ss_assembly (rn_data s)) \<longrightarrow>
         client u p (rn_data t) \<and> (\<forall>b. held es (Budget b) = assembling_now u (rn_data t) b - assembling_now u (rn_data s) b)))
      (s\<lparr>rn_data := (rn_data s)\<lparr>ss_assembly := ksd_request_assembly_clear (ss_assembly (rn_data s))\<rparr>, rn_world := w,
         rn_log := rn_log s @ [Released (Assembly_Memory (id_uid (ss_identity (rn_data s))))]\<rparr>)" for taken w
  proof (cases taken)
    case None
    then show ?thesis by (auto simp: wp_simps client_def assembling_now_def ksd_request_assembly_clear_def ksd_request_assembly_init_def)
  next
    case (Some r)
    obtain assembled c where r: "r = (assembled, c)" by force
    show ?thesis unfolding Some r option.case prod.case
      by (rule spec_wp [OF handle_public_request_tally [where u = u and p = p, THEN tally.steps_spec]])
         (auto simp: client_def assembling_now_def ksd_request_assembly_clear_def ksd_request_assembly_init_def)
  qed
  show ?case unfolding finish_assembly_def end_assembly_def assembly_release_def budget_section_def Let_def wp_bind wp_data wp_update wp_return
    by (rule wp_any, rule wp_any) (use request in simp)
qed

lemma accepted_active:
  assumes "ksd_request_assembly_accept alloc assembly frame = (result, assembly')"
  shows "result \<noteq> KSD_ASSEMBLY_INVALID \<Longrightarrow> as_active assembly'" "result = KSD_ASSEMBLY_INVALID \<Longrightarrow> as_active assembly' = as_active assembly"
    "\<not> as_active assembly \<Longrightarrow> result \<noteq> KSD_ASSEMBLY_COMPLETE"
  using assms by (auto simp: ksd_request_assembly_accept_def Let_def split: if_splits prod.splits bool.splits)

lemma assembly_cleared [simp]: "as_active (ksd_request_assembly_clear a) = False"
  by (simp add: ksd_request_assembly_clear_def ksd_request_assembly_init_def)

lemma accept_chunk_tally:
  "spec (accept_chunk sv starting frame) (\<lambda>d x d' es. steady u p es \<longrightarrow> client u p d \<longrightarrow> starting = (\<not> as_active (ss_assembly d)) \<longrightarrow>
     client u p d' \<and> (\<forall>b. held es (Budget b) = assembling_now u d' b - assembling_now u d b))"
proof (rule specI, goal_cases)
  case (1 s)
  obtain result assembly where a: "ksd_request_assembly_accept (sv_alloc sv) (ss_assembly (rn_data s)) frame = (result, assembly)" by force
  note active = accepted_active [OF a]
  let ?Q = "\<lambda>x t. \<exists>es. rn_log t = rn_log s @ es \<and> (steady u p es \<longrightarrow> client u p (rn_data s) \<longrightarrow> starting = (\<not> as_active (ss_assembly (rn_data s))) \<longrightarrow>
     client u p (rn_data t) \<and> (\<forall>b. held es (Budget b) = assembling_now u (rn_data t) b - assembling_now u (rn_data s) b))"
  let ?s = "s\<lparr>rn_data := (rn_data s)\<lparr>ss_assembly := assembly\<rparr>\<rparr>"
  show ?case
  proof (cases "result = KSD_ASSEMBLY_INVALID")
    case True
    then show ?thesis using active(2) unfolding accept_chunk_def by (auto simp: wp_simps a client_def assembling_now_def)
  next
    case False
    note on = active(1) [OF False]
    show ?thesis
    proof (cases starting)
      case True
      have refused: "wp (State_Monad.bind (end_assembly sv) (\<lambda>_. State_Monad.bind (refuse sv frame status message) (\<lambda>_. return False))) ?Q
          (?s\<lparr>rn_world := w, rn_log := rn_log s @ [Reserved b False]\<rparr>)" for status message w b
        unfolding end_assembly_def wp_simps
        by (rule wp_any, rule spec_wp [OF refuse_even [where u = u and p = p, THEN even.steps_spec]])
           (use True in \<open>auto simp: wp_simps client_def assembling_now_def\<close>)
      show ?thesis unfolding accept_chunk_def assembly_reserve_def budget_section_def wp_simps a Let_def prod.case if_not_P [OF False] if_P [OF True]
      proof (rule wp_any, goal_cases)
        case (1 ok w)
        let ?key = "Assembly_Memory (id_uid (ss_identity (rn_data s)))"
        have complete: "wp (finish_assembly sv) ?Q (?s\<lparr>rn_world := w, rn_log := rn_log s @ [Reserved ?key True]\<rparr>)" if "result = KSD_ASSEMBLY_COMPLETE"
          by (rule spec_wp [OF finish_assembly_tally [where u = u and p = p]]) (use that True active(3) in auto)
        show ?case
        proof (cases ok)
          case True
          then show ?thesis using complete on \<open>starting\<close> False
            by (cases result) (auto simp: wp_simps client_def assembling_now_def)
        next
          case False
          then show ?thesis using refused [of _ _ ?key w, unfolded wp_simps] by simp
        qed
      qed
    next
      case False
      have finish: "wp (finish_assembly sv) ?Q ?s"
        by (rule spec_wp [OF finish_assembly_tally [where u = u and p = p]]) (use False on in \<open>auto simp: client_def assembling_now_def\<close>)
      show ?thesis unfolding accept_chunk_def using \<open>result \<noteq> KSD_ASSEMBLY_INVALID\<close> finish False on
        by (simp add: wp_simps a client_def assembling_now_def)
    qed
  qed
qed

lemma handle_public_frame_tally: "tally.steps u p (handle_public_frame sv frame)"
  unfolding tally.steps_def
proof (rule specI, goal_cases)
  case (1 s)
  let ?starting = "\<not> ksd_request_assembly_active (ss_assembly (rn_data s))"
  let ?Q = "\<lambda>x t. \<exists>es. rn_log t = rn_log s @ es \<and> (steady u p es \<longrightarrow> client u p (rn_data s) \<longrightarrow>
     client u p (rn_data t) \<and> (\<forall>b. held es (Budget b) = assembling_now u (rn_data t) b - assembling_now u (rn_data s) b))"
  have whole: "wp (handle_public_request sv frame) ?Q s"
    by (rule spec_wp [OF handle_public_request_tally [where u = u and p = p, THEN tally.steps_spec]]) auto
  have may: "even.steps u p (if ?starting then may_begin_assembly sv frame else return True)"
    by (simp add: assembly_parts even.steps_return)
  have chunk: "wp (State_Monad.bind (if ?starting then may_begin_assembly sv frame else return True) (\<lambda>may. if \<not> may then return False
      else State_Monad.bind (assembly_within_deadline sv) (\<lambda>timely. if \<not> timely then return False else accept_chunk sv ?starting frame))) ?Q s"
    unfolding wp_bind
  proof (rule spec_wp [OF may [THEN even.steps_spec]], goal_cases)
    case (1 may d w es)
    show ?case
    proof (cases may)
      case True
      show ?thesis using True 1
        apply (simp add: wp_bind)
        apply (rule spec_wp [OF assembly_parts(1) [where u = u and p = p, THEN even.steps_spec]])
        subgoal for timely d' w' fs
          by (cases timely) (auto simp: wp_return assembling_now_def intro!: spec_wp [OF accept_chunk_tally [where u = u and p = p]]
              simp: ksd_request_assembly_active_def)
        done
    qed (use 1 in \<open>auto simp: wp_return assembling_now_def\<close>)
  qed
  show ?case unfolding handle_public_frame_def Let_def wp_bind [where m = data] wp_data wp_if using whole chunk by simp
qed

section \<open>The connection\<close>

lemma reset_domains_even: "even.steps u p (reset_domains sv lane domains lease)"
  by (induction domains arbitrary: lease) (simp_all only: reset_domains.simps, (intro even_rules; assumption?)+)

lemma source_ready_tally: "tally.steps u p (source_ready sv lane)"
  unfolding source_ready_def source_ended_def
  by (intro tally_rules source_tally state_source_event_tally reset_domains_even [THEN even_tally]) simp

lemma connection_loop_tally: "tally.steps u p (connection_loop sv polls)"
proof (induction polls)
  case (Cons poll polls)
  have "tally.steps u p (connection_round sv poll)"
    unfolding connection_round_def connection_idle_def connection_ready_def source_turn_def
    by (auto split: connection_poll.split intro!: tally_rules handle_public_frame_tally source_ready_tally assembly_parts [THEN even_tally])
  with Cons show ?case by (simp only: connection_loop.simps) (intro tally.steps_rules)
qed (simp add: tally.steps_return)

text \<open>The end of a connection releases what an unfinished assembly holds.\<close>

lemma end_connection_tally:
  "spec (end_connection sv) (\<lambda>d x d' es. steady u p es \<longrightarrow> client u p d \<longrightarrow> (\<forall>b. held es (Budget b) = - assembling_now u d b))"
proof -
  have rest: "even.steps u p (State_Monad.bind (only_if c (State_Monad.bind (lease_lock sv) (\<lambda>lease. lease_unlock sv (lease_deactivate lease))))
      (\<lambda>_. release_lease sv))" for c
    unfolding release_lease_def by (intro even_rules only_if_even) simp
  have finish: "spec (State_Monad.bind data (\<lambda>session. State_Monad.bind
      (only_if (ksd_request_assembly_active (ss_assembly session)) (State_Monad.bind (end_assembly sv) (\<lambda>_. assembly_release sv (id_uid (ss_identity session)))))
      (\<lambda>_. State_Monad.bind (only_if (ss_role session = KSD_ROLE_AUTHORIZATION_LEASE \<and> ss_lease session)
        (State_Monad.bind (lease_lock sv) (\<lambda>lease. lease_unlock sv (lease_deactivate lease)))) (\<lambda>_. release_lease sv))))
     (\<lambda>d x d' es. steady u p es \<longrightarrow> client u p d \<longrightarrow> (\<forall>b. held es (Budget b) = - assembling_now u d b))"
  proof (rule specI, goal_cases)
    case (1 s)
    let ?d = "rn_data s"
    let ?Q = "\<lambda>x t. \<exists>es. rn_log t = rn_log s @ es \<and> (steady u p es \<longrightarrow> client u p ?d \<longrightarrow> (\<forall>b. held es (Budget b) = - assembling_now u ?d b))"
    let ?rest = "State_Monad.bind (only_if (ss_role ?d = KSD_ROLE_AUTHORIZATION_LEASE \<and> ss_lease ?d)
        (State_Monad.bind (lease_lock sv) (\<lambda>lease. lease_unlock sv (lease_deactivate lease)))) (\<lambda>_. release_lease sv)"
    have none: "wp ?rest ?Q s" if "\<not> as_active (ss_assembly ?d)"
      by (rule spec_wp [OF rest [THEN even.steps_spec]]) (use that in \<open>auto simp: assembling_now_def\<close>)
    have some: "wp (State_Monad.bind (end_assembly sv) (\<lambda>_. State_Monad.bind (assembly_release sv (id_uid (ss_identity ?d))) (\<lambda>_. ?rest))) ?Q s" if "as_active (ss_assembly ?d)"
      unfolding end_assembly_def assembly_release_def budget_section_def wp_bind [of "update _"] wp_bind [of "call _ _"] State_Monad.bind_assoc wp_update wp_return
        State_Monad.bind_left_identity
      apply (rule wp_any, rule wp_any)
      apply (rule spec_wp [OF rest [THEN even.steps_spec]])
      using that by (auto simp: client_def assembling_now_def)
    show ?case unfolding wp_bind [of data] wp_data ksd_request_assembly_active_def only_if_def [of "as_active _"]
      using none some by (cases "as_active (ss_assembly ?d)") simp_all
  qed
  show ?thesis unfolding end_connection_def
    by (rule spec_bind [OF source_tally(2) [where u = u and p = p, THEN tally.steps_spec] finish]) auto
qed

text \<open>The greeting reserves nothing, and when it succeeds the session names the client.\<close>

interpretation free: run_property "\<lambda>d d' es. (\<forall>b. held es (Budget b) = 0) \<and> ss_assembly d' = ss_assembly d
  \<and> ss_peer_uid d' = ss_peer_uid d \<and> ss_peer_pid d' = ss_peer_pid d"
  by standard auto

lemma free_parts:
  "free.steps (registry_section sv f)" "free.steps (forward_response sv request status detail diagnostic tail chained)"
  "free.steps (create_lease sv)" "free.steps (bind_lease sv lease_id)" "free.steps (release_lease sv)"
  unfolding registry_section_def forward_response_def forward_public_def lease_lock_def lease_unlock_def create_lease_def bind_lease_def release_lease_def
  by (intro free.steps_rules; simp split: prod.splits option.splits)+

lemma session_checked_peer: "session_checked d x d' es \<Longrightarrow> ss_peer_uid d' = ss_peer_uid d \<and> ss_peer_pid d' = ss_peer_pid d"
  by (erule session_checked.cases) (auto simp: answered_def)

lemma grant_recorded_peer: "grant_recorded r m d x d' es \<Longrightarrow> ss_peer_uid d' = ss_peer_uid d \<and> ss_peer_pid d' = ss_peer_pid d"
  by (erule grant_recorded.cases) (auto dest!: session_checked_peer)

lemma prompted_peer: "prompted r d x d' es \<Longrightarrow> ss_peer_uid d' = ss_peer_uid d \<and> ss_peer_pid d' = ss_peer_pid d"
  by (erule prompted.cases) (auto dest!: session_checked_peer grant_recorded_peer)

lemma authorized_peer: "authorized r m d x d' es \<Longrightarrow> ss_peer_uid d' = ss_peer_uid d \<and> ss_peer_pid d' = ss_peer_pid d"
  by (erule authorized.cases) (auto simp: requesting_def dest!: session_checked_peer prompted_peer)

text \<open>What the permission library says of a process it was asked about: the identity is that process's, under that user.\<close>

definition capture_honest :: "'w services \<Rightarrow> bool" where
  "capture_honest sv \<longleftrightarrow> (\<forall>pid uid w i w'. sv_identity_capture sv pid uid w = (Some i, w') \<longrightarrow> id_uid i = uid \<and> id_pid i = pid)"

definition greeted :: "u32 \<Rightarrow> i32 \<Rightarrow> authority_session \<Rightarrow> bool \<Rightarrow> authority_session \<Rightarrow> event list \<Rightarrow> bool" where
  "greeted u p d ok d' es \<longleftrightarrow> (\<forall>b. held es (Budget b) = 0) \<and> ss_assembly d' = ss_assembly d
     \<and> (ss_peer_uid d = u \<longrightarrow> ss_peer_pid d = p \<longrightarrow> ok \<longrightarrow> steady u p es \<longrightarrow> client u p d')"

lemma start_rpc_greeted: "spec (start_rpc sv hello) (\<lambda>d x d' es. greeted u p d (fst x = KSD_STATUS_OK) d' es)"
proof -
  have bad: "KSD_STATUS_DENIED \<noteq> KSD_STATUS_OK" "KSD_STATUS_REVOKED \<noteq> KSD_STATUS_OK" by (simp_all add: wire_defs)
  have bind: "spec (bind_lease sv lease_id) (\<lambda>d bound d' es. es = [] \<and> d' = d\<lparr>ss_lease := bound\<rparr>)" for lease_id
    unfolding bind_lease_def by (rule specI) (auto simp: wp_simps intro!: wp_any)
  show ?thesis unfolding start_rpc_def
  proof (rule spec_bind [OF bind, where R = "\<lambda>bound d x d' es. (bound \<longrightarrow> ss_lease d) \<longrightarrow> greeted u p d (fst x = KSD_STATUS_OK) d' es"], goal_cases)
    case (1 bound)
    have refresh: "spec (State_Monad.bind (session_refresh sv True False) (\<lambda>(ok, _). return (if ok then KSD_STATUS_OK else KSD_STATUS_REVOKED, 0, he_lease_id hello)))
        (\<lambda>d x d' es. ss_lease d \<longrightarrow> greeted u p d (fst x = KSD_STATUS_OK) d' es)"
      by (rule spec_bind [OF session_refresh_spec, where R = "\<lambda>x d _ d' es. d' = d \<and> es = []"])
         (auto simp: spec_return greeted_def dest: refreshed_even split: prod.splits)
    show ?case using refresh bad
      by (auto intro!: spec_return simp: greeted_def intro: spec_weaken)
  qed (auto simp: greeted_def client_def)
qed

lemma start_lease_greeted:
  assumes "capture_honest sv"
  shows "spec (start_lease sv hello) (\<lambda>d x d' es. greeted u p d (fst x = KSD_STATUS_OK) d' es)"
proof -
  let ?go = "State_Monad.bind (if he_scopes hello \<noteq> 0 then authorize_scopes sv (he_scopes hello) (he_auth_mode hello) else return (KSD_STATUS_OK, 0, 0))
     (\<lambda>(status, detail, _). if status \<noteq> KSD_STATUS_OK then return (status, detail, 0)
      else State_Monad.bind (create_lease sv) (\<lambda>created. return (case created of None \<Rightarrow> (KSD_STATUS_RESOURCE_EXHAUSTED, detail, 0)
             | Some lease \<Rightarrow> (KSD_STATUS_OK, detail, le_id lease))))"
  have authorize: "spec (if he_scopes hello \<noteq> 0 then authorize_scopes sv (he_scopes hello) (he_auth_mode hello) else return (KSD_STATUS_OK, 0, 0))
      (\<lambda>d x d' es. same_client d d' es)"
  proof (cases "he_scopes hello \<noteq> 0")
    case True
    show ?thesis unfolding if_P [OF True] by (rule spec_weaken [OF authorize_scopes_spec]) (rule authorized_client)
  next
    case False
    show ?thesis unfolding if_not_P [OF False] by (rule spec_return) (simp add: same_client_def)
  qed
  have create: "spec (create_lease sv) (\<lambda>d x d' es. same_client d d' es)"
    unfolding create_lease_def by (rule specI) (auto simp: wp_simps same_client_def client_def intro!: wp_any split: option.split prod.split)
  have finish: "spec (if status \<noteq> KSD_STATUS_OK then return (status, detail, 0)
      else State_Monad.bind (create_lease sv) (\<lambda>created. return (case created of None \<Rightarrow> (KSD_STATUS_RESOURCE_EXHAUSTED, detail, 0)
             | Some lease \<Rightarrow> (KSD_STATUS_OK, detail, le_id lease)))) (\<lambda>d x d' es. same_client d d' es)" for status detail
    by (auto intro!: spec_return spec_bind [OF create, where R = "\<lambda>_ d _ d' es. d' = d \<and> es = []"] simp: same_client_def)
  have go: "spec ?go (\<lambda>d x d' es. same_client d d' es)"
    by (rule spec_bind [OF authorize, where R = "\<lambda>_ d _ d' es. same_client d d' es"])
       (auto split: prod.split simp only: prod.case intro!: finish, auto simp: same_client_def)
  have bad: "KSD_STATUS_DENIED \<noteq> KSD_STATUS_OK" by (simp add: wire_defs)
  show ?thesis unfolding start_lease_def
  proof (rule specI, unfold wp_bind [of data] wp_data wp_bind [of "if he_lease_id hello \<noteq> 0 then _ else _"] wp_if wp_return, goal_cases)
    case (1 s)
    let ?Q = "\<lambda>x t. \<exists>es. rn_log t = rn_log s @ es \<and> greeted u p (rn_data s) (fst x = KSD_STATUS_OK) (rn_data t) es"
    have denied: "wp (return (KSD_STATUS_DENIED, 0 :: u32, 0 :: u64)) ?Q (s\<lparr>rn_world := w, rn_log := rn_log s @ []\<rparr>)" for w
      using bad by (auto simp: wp_return greeted_def)
    have captured: "wp (State_Monad.bind (update (\<lambda>ss. ss\<lparr>ss_identity := i\<rparr>)) (\<lambda>_. ?go)) ?Q (s\<lparr>rn_world := w, rn_log := rn_log s @ []\<rparr>)"
      if "id_uid i = ss_peer_uid (rn_data s)" "id_pid i = ss_peer_pid (rn_data s)" for i w
      unfolding wp_bind [of "update _"] wp_update
      by (rule spec_wp [OF go]) (use that in \<open>auto simp: greeted_def same_client_def client_def\<close>)
    obtain c w where answer: "sv_identity_capture sv (ss_peer_pid (rn_data s)) (ss_peer_uid (rn_data s)) (rn_world s) = (c, w)" by (rule prod.exhaust)
    have found: "wp (case c of None \<Rightarrow> return (KSD_STATUS_DENIED, 0, 0) | Some i \<Rightarrow> State_Monad.bind (update (\<lambda>ss. ss\<lparr>ss_identity := i\<rparr>)) (\<lambda>_. ?go)) ?Q
        (s\<lparr>rn_world := w, rn_log := rn_log s @ []\<rparr>)"
    proof (cases c)
      case None
      show ?thesis unfolding None option.case by (rule denied)
    next
      case (Some i)
      have "id_uid i = ss_peer_uid (rn_data s)" "id_pid i = ss_peer_pid (rn_data s)"
        using assms answer unfolding capture_honest_def Some by blast+
      then show ?thesis unfolding Some option.case by (rule captured)
    qed
    have "wp (call (sv_identity_capture sv (ss_peer_pid (rn_data s)) (ss_peer_uid (rn_data s))) (\<lambda>_. []))
       (\<lambda>c. wp (case c of None \<Rightarrow> return (KSD_STATUS_DENIED, 0, 0) | Some i \<Rightarrow> State_Monad.bind (update (\<lambda>ss. ss\<lparr>ss_identity := i\<rparr>)) (\<lambda>_. ?go)) ?Q) s"
      unfolding wp_call answer prod.case using found by simp
    then show ?case using denied [of "rn_world s"] by simp
  qed
qed

text \<open>Answering the greeting touches no budget and leaves the session as it is.\<close>

interpretation silent: run_property "\<lambda>d d' es. (\<forall>b. held es (Budget b) = 0) \<and> d' = d"
  by standard auto

lemma silent_parts:
  "silent.steps (registry_section sv f)" "silent.steps (forward_response sv request status detail diagnostic tail chained)" "silent.steps (release_lease sv)"
  "silent.steps (refuse sv request status message)"
  unfolding registry_section_def refuse_def forward_response_def forward_public_def lease_lock_def lease_unlock_def release_lease_def
  by (intro silent.steps_rules; simp split: prod.splits option.splits)+

lemma answer_hello_silent: "silent.steps (answer_hello sv hello status detail lease_id)"
  unfolding answer_hello_def by (intro silent.steps_rules silent_parts)

lemma registered_backend_of_silent: "silent.steps (registered_backend_of sv uid)"
  unfolding registered_backend_of_def take_snapshot_def snapshot_valid_def release_snapshot_def relay_do_def
  by (intro silent.steps_rules silent_parts; simp split: prod.splits option.splits)

lemma start_public_session_greeted:
  assumes "capture_honest sv"
  shows "spec (start_public_session sv) (\<lambda>d ok d' es. greeted u p d ok d' es)"
proof -
  have refused: "spec (State_Monad.bind (if fr_request_id hello = 0 then return False
        else refuse sv hello KSD_STATUS_INVALID_REQUEST ''HELLO must be first'') (\<lambda>_. return False)) (\<lambda>d ok d' es. greeted u p d ok d' es)" for hello
  proof -
    have "silent.steps (if fr_request_id hello = 0 then return False else refuse sv hello KSD_STATUS_INVALID_REQUEST ''HELLO must be first'')"
      by (intro silent.steps_rules silent_parts)
    then show ?thesis
      by (rule spec_bind [OF silent.steps_spec, where R = "\<lambda>_ d x d' es. \<not> x \<and> d' = d \<and> es = []"]) (auto simp: greeted_def intro: spec_return)
  qed
  have bound: "spec (State_Monad.bind (if he_role h = KSD_ROLE_AUTHORIZATION_LEASE then start_lease sv h else start_rpc sv h)
     (\<lambda>(status, detail, lease_id). State_Monad.bind (answer_hello sv hello status detail lease_id) (\<lambda>replied. return (replied \<and> status = KSD_STATUS_OK))))
     (\<lambda>d ok d' es. greeted u p d ok d' es)" for h hello
  proof (rule spec_bind [where R = "\<lambda>x d ok d' es. (\<forall>b. held es (Budget b) = 0) \<and> d' = d \<and> (ok \<longrightarrow> fst x = KSD_STATUS_OK)"])
    show "spec (if he_role h = KSD_ROLE_AUTHORIZATION_LEASE then start_lease sv h else start_rpc sv h) (\<lambda>d x d' es. greeted u p d (fst x = KSD_STATUS_OK) d' es)"
      using start_lease_greeted [OF assms] start_rpc_greeted by auto
  next
    fix x :: "u32 \<times> u32 \<times> u64"
    obtain status detail lease_id where x: "x = (status, detail, lease_id)" by (rule prod_cases3)
    show "spec (case x of (status, detail, lease_id) \<Rightarrow> State_Monad.bind (answer_hello sv hello status detail lease_id) (\<lambda>replied. return (replied \<and> status = KSD_STATUS_OK)))
       (\<lambda>d ok d' es. (\<forall>b. held es (Budget b) = 0) \<and> d' = d \<and> (ok \<longrightarrow> fst x = KSD_STATUS_OK))"
      unfolding x prod.case
      by (rule spec_bind [OF answer_hello_silent [THEN silent.steps_spec] spec_return [where P = "\<lambda>d x d' es. (x \<longrightarrow> status = KSD_STATUS_OK) \<and> d' = d \<and> es = []"]]) auto
  qed (auto simp: greeted_def)
  show ?thesis unfolding start_public_session_def
  proof (rule specI, unfold wp_bind [of "call _ _"], rule wp_any, goal_cases)
    case (1 s received w)
    show ?case
    proof (cases received)
      case None
      then show ?thesis by (simp add: wp_return greeted_def)
    next
      case (Some hello)
      show ?thesis
      proof (cases "parse_hello hello")
        case None
        show ?thesis unfolding Some option.case None
          by (rule spec_wp [OF refused]) auto
      next
        case h: (Some h)
        show ?thesis unfolding Some option.case h wp_bind [of "update _"] wp_update
          by (rule spec_wp [OF bound]) (auto simp: greeted_def)
      qed
    qed
  qed
qed

lemma connection_returns:
  assumes "capture_honest sv"
  shows "spec (handle_public_connection sv uid pid gid) (\<lambda>_ _ _ es. steady uid pid es \<longrightarrow> (\<forall>b. held es (Budget b) = 0))"
proof -
  let ?start = "\<lambda>d. \<not> as_active (ss_assembly d) \<and> ss_peer_uid d = uid \<and> ss_peer_pid d = pid"
  have served: "spec (State_Monad.bind (connection_loop sv polls) (\<lambda>_. end_connection sv))
      (\<lambda>d _ _ es. steady uid pid es \<longrightarrow> client uid pid d \<longrightarrow> (\<forall>b. held es (Budget b) = - assembling_now uid d b))" for polls
    by (rule spec_bind [OF connection_loop_tally [where u = uid and p = pid, THEN tally.steps_spec] end_connection_tally [where u = uid and p = pid]]) auto
  have greeted: "spec (if \<not> started then release_lease sv
        else State_Monad.bind (update (\<lambda>ss. ss\<lparr>ss_assembly := ksd_request_assembly_init\<rparr>)) (\<lambda>_.
          State_Monad.bind (call (sv_polls sv) (\<lambda>_. [])) (\<lambda>polls. State_Monad.bind (connection_loop sv polls) (\<lambda>_. end_connection sv))))
      (\<lambda>d _ _ es. steady uid pid es \<longrightarrow> (started \<longrightarrow> client uid pid d) \<longrightarrow> (\<forall>b. held es (Budget b) = 0))" for started
  proof (cases started)
    case False
    show ?thesis using False by (simp add: spec_weaken [OF silent_parts(3) [THEN silent.steps_spec]])
  next
    case True
    have idle: "\<not> as_active ksd_request_assembly_init" by (simp add: ksd_request_assembly_init_def)
    have "spec (State_Monad.bind (update (\<lambda>ss. ss\<lparr>ss_assembly := ksd_request_assembly_init\<rparr>)) (\<lambda>_.
          State_Monad.bind (call (sv_polls sv) (\<lambda>_. [])) (\<lambda>polls. State_Monad.bind (connection_loop sv polls) (\<lambda>_. end_connection sv))))
      (\<lambda>d _ _ es. steady uid pid es \<longrightarrow> client uid pid d \<longrightarrow> (\<forall>b. held es (Budget b) = 0))"
      by (intro specI, unfold wp_bind [of "update _"] wp_bind [of "call _ _"] wp_update, intro wp_any spec_wp [OF served])
         (use idle in \<open>auto simp: client_def assembling_now_def\<close>)
    with True show ?thesis by simp
  qed
  have session: "spec (State_Monad.bind (start_public_session sv) (\<lambda>started. if \<not> started then release_lease sv
        else State_Monad.bind (update (\<lambda>ss. ss\<lparr>ss_assembly := ksd_request_assembly_init\<rparr>)) (\<lambda>_.
          State_Monad.bind (call (sv_polls sv) (\<lambda>_. [])) (\<lambda>polls. State_Monad.bind (connection_loop sv polls) (\<lambda>_. end_connection sv)))))
      (\<lambda>d _ _ es. ?start d \<longrightarrow> steady uid pid es \<longrightarrow> (\<forall>b. held es (Budget b) = 0))"
    by (rule spec_bind [OF start_public_session_greeted [OF assms, where u = uid and p = pid] greeted]) (auto simp: greeted_def)
  have opened: "?start ((initial_session uid pid gid)\<lparr>ss_identity_checked_at := now, ss_backend := backend\<rparr>)" for now backend
    by (simp add: initial_session_def ksd_request_assembly_init_def)
  show ?thesis unfolding handle_public_connection_def
  proof (rule specI, unfold wp_bind [of "update _"] wp_update, goal_cases)
    case (1 s)
    show ?case
    proof (cases "uid = 0")
      case True
      then show ?thesis by (simp add: wp_return)
    next
      case False
      show ?thesis unfolding if_not_P [OF False] wp_bind [of "call _ _"] wp_bind [of "registered_backend_of _ _"] wp_bind [of "update _"] wp_update
        by (rule wp_any, rule spec_wp [OF registered_backend_of_silent [THEN silent.steps_spec]], rule spec_wp [OF session]) (use opened in auto)
    qed
  qed
qed

text \<open>C6: A connection gives back everything it reserved. Whatever the client sends over the whole life of the connection, in whatever
  order the polls wake it, and however the handler leaves (a refused greeting, a failed write, a lost identity, the end of the stream), the
  log of the connection nets to zero on every budget: the memory of a request being assembled, the memory of a capture and the slot of a
  KWin client. The two hypotheses are what the accounting rests on: the permission library captures the process it is asked
  about, and the leases the connection locked were leases of its own process.\<close>

theorem reservations_returned:
  assumes "run_state (handle_public_connection sv uid pid gid) s = (x, t)" "rn_log s = []"
    and "capture_honest sv" "steady uid pid (rn_log t)"
  shows "held (rn_log t) (Budget b) = 0"
  using spec_run [OF connection_returns [OF assms(3)] assms(1)] assms(2,4) by auto

theorem reservations_returned_witness:
  "\<exists>t. run_state (handle_public_connection hello_services 1000 42 1000) (sample_start 4) = ((), t) \<and> rn_log t \<noteq> [] \<and> held (rn_log t) (Budget (Assembly_Memory 1000)) = 0"
proof (rule hello_run)
  fix t frame
  assume r: "run_state (handle_public_connection hello_services 1000 42 1000) (sample_start 4) = ((), t)"
    and log: "rn_log t = [Relay_Did [], Lease_Locked (world_lease 4), Store_Generation 1000 (Some 11), Lease_Unlocked (world_lease 4), Relay_Did [], Wrote frame None True]"
  have "capture_honest hello_services" by (auto simp: capture_honest_def hello_services_def)
  moreover have "steady 1000 42 (rn_log t)" unfolding log by (auto simp: steady_def world_lease_def sample_lease_def sample_identity_def)
  ultimately have "held (rn_log t) (Budget (Assembly_Memory 1000)) = 0"
    by (intro reservations_returned [OF r]) (simp_all add: sample_start_def)
  then show ?thesis using r log by auto
qed

end
