(* ===== verification/Transport.thy ===== *)
theory Transport
  imports Effects Frame "HOL-Library.Multiset" "HOL-Library.Sublist"
begin

text \<open>
  Bytes, frames and descriptors over a socket (src/src/transport.c and the reading and
  writing functions of src/src/protocol_io.c). The kernel is a record of functions of an
  arbitrary world; a call that the code repeats when a signal interrupts it is preceded by
  the number of its interruptions, or by the errors that made the code try again, so that a
  loop runs as long as the kernel makes it run.
  The log records the bytes that crossed a socket and what became of each descriptor that
  came with them. \<open>errno\<close> is a field of the thread's record, which the records of the
  callers extend.
\<close>

section \<open>The kernel\<close>

record thread =
  th_errno :: int

definition EPERM :: int where "EPERM = 1"

definition EINTR :: int where "EINTR = 4"

definition EIO :: int where "EIO = 5"

definition EAGAIN :: int where "EAGAIN = 11"

definition ENOMEM :: int where "ENOMEM = 12"

definition EINVAL :: int where "EINVAL = 22"

definition EPROTO :: int where "EPROTO = 71"

definition ECONNRESET :: int where "ECONNRESET = 104"

definition ENOBUFS :: int where "ENOBUFS = 105"

definition ENOTCONN :: int where "ENOTCONN = 107"

definition ETIMEDOUT :: int where "ETIMEDOUT = 110"

lemmas errno_defs = EPERM_def EINTR_def EIO_def EAGAIN_def ENOMEM_def EINVAL_def EPROTO_def ECONNRESET_def ENOBUFS_def ENOTCONN_def ETIMEDOUT_def

definition UINT64_MAX :: u64 where
  "UINT64_MAX = 0xFFFFFFFFFFFFFFFF"

text \<open>\<open>Sent\<close> and \<open>Received\<close> are bytes that left or came; \<open>Passed\<close> and \<open>Arrived\<close> descriptors; \<open>Closed\<close> one that was closed; \<open>Signalled\<close> and \<open>Drained\<close> are a write to and a read from an event counter; \<open>Present\<close> is a directory that was made or found;
  \<open>Hung_Up\<close> is the closing of a descriptor that belongs to a connection, \<open>Came\<close> and \<open>Delivered\<close> a frame read from it and one handed to its user.\<close>

datatype net_event = Sent bytes | Received bytes | Passed int | Arrived "int list" | Closed int | Signalled int | Drained int | Present bytes
  | Hung_Up int | Came ksd_frame | Delivered ksd_frame

text \<open>
  The end of a poll that was not interrupted; \<open>Poll_Ready\<close> says whether the descriptor is
  broken and whether it has one of the events asked for or was hung up.
\<close>

datatype poll_end = Poll_Failed int | Poll_Nothing | Poll_Ready bool bool

text \<open>One control message: a list of descriptors, or anything the code calls malformed.\<close>

datatype control_message = Rights "int list" | Malformed_Control

record received_message =
  rm_bytes :: bytes
  rm_truncated :: bool
  rm_control :: "control_message list"

record 'w kernel =
  kn_alloc :: "nat \<Rightarrow> bool"
  kn_clock :: "'w \<Rightarrow> (u64 \<times> u64) option \<times> 'w"
  kn_interruptions :: "'w \<Rightarrow> nat \<times> 'w"
  kn_retries :: "'w \<Rightarrow> int list \<times> 'w"
  kn_poll :: "int \<Rightarrow> bool \<Rightarrow> int \<Rightarrow> 'w \<Rightarrow> poll_end \<times> 'w"
  kn_send :: "int \<Rightarrow> bytes \<Rightarrow> 'w \<Rightarrow> (int + nat) \<times> 'w"
  kn_recv :: "int \<Rightarrow> nat \<Rightarrow> 'w \<Rightarrow> (int + bytes) \<times> 'w"
  kn_write :: "int \<Rightarrow> bytes \<Rightarrow> 'w \<Rightarrow> (int + nat) \<times> 'w"
  kn_read :: "int \<Rightarrow> nat \<Rightarrow> 'w \<Rightarrow> (int + bytes) \<times> 'w"
  kn_sendmsg :: "int \<Rightarrow> bytes \<Rightarrow> int \<Rightarrow> 'w \<Rightarrow> (int + nat) \<times> 'w"
  kn_recvmsg :: "int \<Rightarrow> nat \<Rightarrow> 'w \<Rightarrow> (int + received_message) \<times> 'w"
  kn_mkdir :: "bytes \<Rightarrow> 'w \<Rightarrow> bool \<times> 'w"
  kn_directory :: "bytes \<Rightarrow> 'w \<Rightarrow> bool \<times> 'w"
  kn_timeout :: "int \<Rightarrow> bool \<Rightarrow> 'w \<Rightarrow> (u64 \<times> u64) option \<times> 'w"

type_synonym ('d, 'w, 'a) io = "('d thread_scheme, 'w, net_event, 'a) effect"

definition set_errno :: "int \<Rightarrow> ('d, 'w, unit) io" where
  "set_errno e = update (\<lambda>t. t\<lparr>th_errno := e\<rparr>)"

definition close_fd :: "int \<Rightarrow> ('d, 'w, unit) io" where
  "close_fd fd = note_events [Closed fd]"

text \<open>A call that sets \<open>errno\<close> when it fails, and otherwise logs what it did.\<close>

definition system_call :: "('w \<Rightarrow> (int + 'a) \<times> 'w) \<Rightarrow> ('a \<Rightarrow> net_event list) \<Rightarrow> ('d, 'w, 'a option) io" where
  "system_call f entry = do {
     answer \<leftarrow> call f (\<lambda>answer. case answer of Inl _ \<Rightarrow> [] | Inr x \<Rightarrow> entry x);
     case answer of
       Inl e \<Rightarrow> do { set_errno e; return None }
     | Inr x \<Rightarrow> return (Some x) }"

section \<open>Waiting\<close>

definition ksd_monotonic_milliseconds :: "'w kernel \<Rightarrow> ('d, 'w, u64) io" where
  "ksd_monotonic_milliseconds kn = do {
     now \<leftarrow> call (kn_clock kn) (\<lambda>_. []);
     return (case now of None \<Rightarrow> 0 | Some (tv_sec, tv_nsec) \<Rightarrow> tv_sec * 1000 + tv_nsec div 1000000) }"

text \<open>The timeout of the next poll, or \<open>None\<close> when the deadline has passed.\<close>

definition poll_timeout :: "'w kernel \<Rightarrow> u64 \<Rightarrow> ('d, 'w, int option) io" where
  "poll_timeout kn deadline_ms =
     (if deadline_ms = UINT64_MAX then return (Some (- 1))
      else do {
        now \<leftarrow> ksd_monotonic_milliseconds kn;
        if now = 0 \<or> now \<ge> deadline_ms then do { set_errno ETIMEDOUT; return None }
        else return (Some (if uint (deadline_ms - now) > 0x7FFFFFFF then 0x7FFFFFFF else uint (deadline_ms - now))) })"

primrec wait_rounds :: "'w kernel \<Rightarrow> int \<Rightarrow> bool \<Rightarrow> u64 \<Rightarrow> nat \<Rightarrow> ('d, 'w, bool) io" where
  "wait_rounds kn descriptor writing deadline_ms 0 = do {
     timeout \<leftarrow> poll_timeout kn deadline_ms;
     case timeout of None \<Rightarrow> return False
     | Some milliseconds \<Rightarrow> do {
         ended \<leftarrow> call (kn_poll kn descriptor writing milliseconds) (\<lambda>_. []);
         case ended of
           Poll_Failed e \<Rightarrow> do { set_errno e; return False }
         | Poll_Nothing \<Rightarrow> do { set_errno ETIMEDOUT; return False }
         | Poll_Ready broken ready \<Rightarrow> return (\<not> broken \<and> ready) }}"
| "wait_rounds kn descriptor writing deadline_ms (Suc interruptions) = do {
     timeout \<leftarrow> poll_timeout kn deadline_ms;
     case timeout of None \<Rightarrow> return False
     | Some milliseconds \<Rightarrow> do { set_errno EINTR; wait_rounds kn descriptor writing deadline_ms interruptions }}"

definition ksd_wait_until :: "'w kernel \<Rightarrow> int \<Rightarrow> bool \<Rightarrow> u64 \<Rightarrow> ('d, 'w, bool) io" where
  "ksd_wait_until kn descriptor writing deadline_ms = do {
     interruptions \<leftarrow> call (kn_interruptions kn) (\<lambda>_. []);
     wait_rounds kn descriptor writing deadline_ms interruptions }"

section \<open>Transferring a number of bytes\<close>

text \<open>
  One pass that ends in a moved: the passes before it were interrupted or found the socket
  not ready after all. \<open>None\<close> means that the wait ended the transfer, \<open>Some None\<close> that the
  call failed.
\<close>

primrec transfer_pass :: "'w kernel \<Rightarrow> int \<Rightarrow> bool \<Rightarrow> u64 \<Rightarrow> ('d, 'w, 'a option) io \<Rightarrow> int list \<Rightarrow> ('d, 'w, 'a option option) io" where
  "transfer_pass kn descriptor writing deadline_ms m [] = do {
     ready \<leftarrow> ksd_wait_until kn descriptor writing deadline_ms;
     if \<not> ready then return None
     else do { answer \<leftarrow> m; return (Some answer) }}"
| "transfer_pass kn descriptor writing deadline_ms m (e # retries) = do {
     ready \<leftarrow> ksd_wait_until kn descriptor writing deadline_ms;
     if \<not> ready then return None
     else do { set_errno e; transfer_pass kn descriptor writing deadline_ms m retries }}"

text \<open>Reading. Each pass that goes on reads a byte at least, so the length of what is wanted bounds the passes.\<close>

primrec receive_passes :: "'w kernel \<Rightarrow> int \<Rightarrow> u64 \<Rightarrow> nat \<Rightarrow> bytes \<Rightarrow> nat \<Rightarrow> ('d, 'w, int \<times> bytes) io" where
  "receive_passes kn descriptor deadline_ms n got 0 = return (if length got < n then - 1 else int (length got), got)"
| "receive_passes kn descriptor deadline_ms n got (Suc passes) =
     (if length got \<ge> n then return (int (length got), got)
      else do {
        retries \<leftarrow> call (kn_retries kn) (\<lambda>_. []);
        pass \<leftarrow> transfer_pass kn descriptor False deadline_ms (system_call (kn_recv kn descriptor (n - length got)) (\<lambda>bs. [Received bs])) retries;
        case pass of
          None \<Rightarrow> return (- 1, got)
        | Some None \<Rightarrow> return (- 1, got)
        | Some (Some bs) \<Rightarrow>
            if bs = [] then return (if got = [] then 0 else - 1, got)
            else receive_passes kn descriptor deadline_ms n (got @ bs) passes })"

definition receive_until :: "'w kernel \<Rightarrow> int \<Rightarrow> nat \<Rightarrow> u64 \<Rightarrow> ('d, 'w, int \<times> bytes) io" where
  "receive_until kn descriptor n deadline_ms =
     (if descriptor < 0 then do { set_errno EINVAL; return (- 1, []) }
      else receive_passes kn descriptor deadline_ms n [] n)"

text \<open>Writing.\<close>

primrec send_passes :: "'w kernel \<Rightarrow> int \<Rightarrow> u64 \<Rightarrow> bytes \<Rightarrow> nat \<Rightarrow> nat \<Rightarrow> ('d, 'w, int) io" where
  "send_passes kn descriptor deadline_ms bytes offset 0 = return (if offset < length bytes then - 1 else int offset)"
| "send_passes kn descriptor deadline_ms bytes offset (Suc passes) =
     (if offset \<ge> length bytes then return (int offset)
      else do {
        retries \<leftarrow> call (kn_retries kn) (\<lambda>_. []);
        pass \<leftarrow> transfer_pass kn descriptor True deadline_ms
          (system_call (kn_send kn descriptor (drop offset bytes)) (\<lambda>moved. [Sent (take moved (drop offset bytes))])) retries;
        case pass of
          None \<Rightarrow> return (- 1)
        | Some None \<Rightarrow> return (- 1)
        | Some (Some moved) \<Rightarrow>
            if moved = 0 then return (- 1)
            else send_passes kn descriptor deadline_ms bytes (offset + moved) passes })"

definition send_until :: "'w kernel \<Rightarrow> int \<Rightarrow> bytes \<Rightarrow> u64 \<Rightarrow> ('d, 'w, int) io" where
  "send_until kn descriptor bytes deadline_ms =
     (if descriptor < 0 then do { set_errno EINVAL; return (- 1) }
      else send_passes kn descriptor deadline_ms bytes 0 (length bytes))"

text \<open>The blocking variants; an interrupted call is repeated.\<close>

primrec write_calls :: "'w kernel \<Rightarrow> int \<Rightarrow> bytes \<Rightarrow> nat \<Rightarrow> ('d, 'w, bool) io" where
  "write_calls kn descriptor bytes 0 = return (bytes = [])"
| "write_calls kn descriptor bytes (Suc calls) =
     (if bytes = [] then return True
      else do {
        moved \<leftarrow> system_call (kn_write kn descriptor bytes) (\<lambda>moved. [Sent (take moved bytes)]);
        case moved of None \<Rightarrow> return False
        | Some moved \<Rightarrow> if moved = 0 then return False else write_calls kn descriptor (drop moved bytes) calls })"

definition ksd_write_all :: "'w kernel \<Rightarrow> int \<Rightarrow> bytes \<Rightarrow> ('d, 'w, bool) io" where
  "ksd_write_all kn descriptor bytes = write_calls kn descriptor bytes (length bytes)"

primrec read_calls :: "'w kernel \<Rightarrow> int \<Rightarrow> nat \<Rightarrow> bytes \<Rightarrow> nat \<Rightarrow> ('d, 'w, bytes option) io" where
  "read_calls kn descriptor n got 0 = return (if length got < n then None else Some got)"
| "read_calls kn descriptor n got (Suc calls) =
     (if length got \<ge> n then return (Some got)
      else do {
        answer \<leftarrow> system_call (kn_read kn descriptor (n - length got)) (\<lambda>bs. [Received bs]);
        case answer of None \<Rightarrow> return None
        | Some bs \<Rightarrow> if bs = [] then return None else read_calls kn descriptor n (got @ bs) calls })"

definition ksd_read_all :: "'w kernel \<Rightarrow> int \<Rightarrow> nat \<Rightarrow> ('d, 'w, bytes option) io" where
  "ksd_read_all kn descriptor n = read_calls kn descriptor n [] n"

section \<open>Passing a descriptor\<close>

definition ksd_send_with_fd :: "'w kernel \<Rightarrow> int \<Rightarrow> bytes \<Rightarrow> int \<Rightarrow> ('d, 'w, bool) io" where
  "ksd_send_with_fd kn descriptor bytes passed_fd =
     (if descriptor < 0 \<or> bytes = [] \<or> passed_fd < 0 then return False
      else do {
        moved \<leftarrow> system_call (kn_sendmsg kn descriptor bytes passed_fd) (\<lambda>moved. [Sent (take moved bytes), Passed passed_fd]);
        case moved of None \<Rightarrow> return False
        | Some moved \<Rightarrow>
            if moved = 0 \<or> moved > length bytes then return False
            else if moved = length bytes then return True
            else ksd_write_all kn descriptor (drop moved bytes) })"

text \<open>The descriptors of a message: the first is kept, every other one is closed.\<close>

definition message_rights :: "control_message list \<Rightarrow> int list" where
  "message_rights control = concat (map (\<lambda>c. case c of Rights fds \<Rightarrow> fds | Malformed_Control \<Rightarrow> []) control)"

definition malformed_control :: "control_message list \<Rightarrow> bool" where
  "malformed_control control \<longleftrightarrow> list_ex (\<lambda>c. c = Malformed_Control) control"

definition close_all :: "int list \<Rightarrow> ('d, 'w, unit) io" where
  "close_all fds = note_events (map Closed fds)"

text \<open>What becomes of a message once it has come.\<close>

definition take_message :: "nat \<Rightarrow> received_message \<Rightarrow> ('d, 'w, (bytes \<times> int) option) io" where
  "take_message n message = do {
     let fds = message_rights (rm_control message);
     close_all (tl fds);
     if length (rm_bytes message) \<noteq> n \<or> rm_truncated message \<or> malformed_control (rm_control message) \<or> length fds > 1
     then do { close_all (filter (\<lambda>fd. fd \<ge> 0) (take 1 fds)); set_errno EPROTO; return None }
     else return (Some (rm_bytes message, case fds of [] \<Rightarrow> - 1 | fd # _ \<Rightarrow> fd)) }"

text \<open>
  One message of exactly \<open>length\<close> bytes with at most one descriptor. The result is the bytes
  and the descriptor, or -1 for none.
\<close>

definition ksd_receive_optional_fd :: "'w kernel \<Rightarrow> int \<Rightarrow> nat \<Rightarrow> ('d, 'w, (bytes \<times> int) option) io" where
  "ksd_receive_optional_fd kn descriptor n =
     (if descriptor < 0 \<or> n = 0 then do { set_errno EINVAL; return None }
      else do {
        answer \<leftarrow> system_call (kn_recvmsg kn descriptor n) (\<lambda>m. [Received (rm_bytes m), Arrived (message_rights (rm_control m))]);
        case answer of None \<Rightarrow> do { set_errno EPROTO; return None } | Some message \<Rightarrow> take_message n message })"

text \<open>A message in the middle of several; \<open>kept\<close> are the descriptors taken so far.\<close>

definition take_part :: "int list \<Rightarrow> received_message \<Rightarrow> (int list \<Rightarrow> ('d, 'w, (bytes \<times> int) option) io) \<Rightarrow> ('d, 'w, (bytes \<times> int) option) io" where
  "take_part kept message go_on = do {
     let fds = (if rm_bytes message = [] then [] else message_rights (rm_control message));
     let all = kept @ fds;
     close_all (if kept = [] then tl fds else fds);
     if rm_bytes message = [] \<or> rm_truncated message \<or> malformed_control (rm_control message) \<or> length all > 1
     then do { set_errno EPROTO; close_all (filter (\<lambda>fd. fd \<ge> 0) (take 1 all)); return None }
     else go_on all }"

text \<open>The same over several messages.\<close>

primrec receive_messages :: "'w kernel \<Rightarrow> int \<Rightarrow> u64 \<Rightarrow> nat \<Rightarrow> bytes \<Rightarrow> int list \<Rightarrow> nat \<Rightarrow> ('d, 'w, (bytes \<times> int) option) io" where
  "receive_messages kn descriptor deadline_ms n got kept 0 =
     (if length got < n then do { close_all (filter (\<lambda>fd. fd \<ge> 0) kept); return None }
      else return (Some (got, case kept of [] \<Rightarrow> - 1 | fd # _ \<Rightarrow> fd)))"
| "receive_messages kn descriptor deadline_ms n got kept (Suc passes) =
     (if length got \<ge> n then return (Some (got, case kept of [] \<Rightarrow> - 1 | fd # _ \<Rightarrow> fd))
      else do {
        retries \<leftarrow> call (kn_retries kn) (\<lambda>_. []);
        pass \<leftarrow> transfer_pass kn descriptor False deadline_ms
          (system_call (kn_recvmsg kn descriptor (n - length got)) (\<lambda>m. [Received (rm_bytes m), Arrived (message_rights (rm_control m))])) retries;
        case pass of
          None \<Rightarrow> do { close_all (filter (\<lambda>fd. fd \<ge> 0) kept); return None }
        | Some None \<Rightarrow> do { set_errno EPROTO; close_all (filter (\<lambda>fd. fd \<ge> 0) kept); return None }
        | Some (Some message) \<Rightarrow>
            take_part kept message (\<lambda>kept. receive_messages kn descriptor deadline_ms n (got @ rm_bytes message) kept passes) })"

definition ksd_receive_fd_until :: "'w kernel \<Rightarrow> int \<Rightarrow> nat \<Rightarrow> u64 \<Rightarrow> ('d, 'w, (bytes \<times> int) option) io" where
  "ksd_receive_fd_until kn descriptor n deadline_ms =
     (if descriptor < 0 \<or> n = 0 then do { set_errno EINVAL; return None }
      else receive_messages kn descriptor deadline_ms n [] [] n)"

section \<open>Parent directories\<close>

text \<open>
  The directories above a path, outermost first: its proper prefixes that end before a slash.
  The loop starts behind the first byte, so the path is not empty.
\<close>

definition parent_paths :: "bytes \<Rightarrow> bytes list" where
  "parent_paths path = map (\<lambda>i. take i path) (filter (\<lambda>i. path ! i = 47) [1..<length path])"

definition KSD_PATH_CAPACITY :: nat where
  "KSD_PATH_CAPACITY = 4096"

primrec make_each :: "'w kernel \<Rightarrow> bytes list \<Rightarrow> ('d, 'w, bool) io" where
  "make_each kn [] = return True"
| "make_each kn (path # paths) = do {
     made \<leftarrow> call (kn_mkdir kn path) (\<lambda>made. if made then [Present path] else []);
     there \<leftarrow> (if made then return True else call (kn_directory kn path) (\<lambda>there. if there then [Present path] else []));
     if \<not> there then return False else make_each kn paths }"

definition ksd_make_parent_directories :: "'w kernel \<Rightarrow> bytes \<Rightarrow> ('d, 'w, bool) io" where
  "ksd_make_parent_directories kn path =
     (if length path \<ge> KSD_PATH_CAPACITY then do { set_errno EINVAL; return False }
      else make_each kn (parent_paths path))"

section \<open>Frames\<close>

definition socket_deadline :: "'w kernel \<Rightarrow> int \<Rightarrow> bool \<Rightarrow> ('d, 'w, u64) io" where
  "socket_deadline kn descriptor writing = do {
     timeout \<leftarrow> call (kn_timeout kn descriptor writing) (\<lambda>_. []);
     case timeout of None \<Rightarrow> return UINT64_MAX
     | Some (tv_sec, tv_usec) \<Rightarrow>
         if tv_sec = 0 \<and> tv_usec = 0 then return UINT64_MAX
         else do {
           let duration = tv_sec * 1000 + (tv_usec + 999) div 1000;
           now \<leftarrow> ksd_monotonic_milliseconds kn;
           return (if now > UINT64_MAX - duration then UINT64_MAX else now + duration) }}"

definition close_received_fd :: "int \<Rightarrow> ('d, 'w, unit) io" where
  "close_received_fd fd = (if fd \<ge> 0 then close_fd fd else return ())"

text \<open>\<open>Inl\<close> is the return value when there is no frame: 0 at the end of the stream, -1 otherwise.\<close>

definition ksd_frame_read :: "'w kernel \<Rightarrow> int \<Rightarrow> bytes \<Rightarrow> u16 \<Rightarrow> u16 \<Rightarrow> u32 \<Rightarrow> bool \<Rightarrow> ('d, 'w, int + ksd_frame) io" where
  "ksd_frame_read kn descriptor magic major minor maximum_payload public_rules =
     (if descriptor < 0 then do { set_errno EINVAL; return (Inl (- 1)) }
      else do {
        deadline \<leftarrow> socket_deadline kn descriptor False;
        (header_count, header) \<leftarrow> receive_until kn descriptor KSD_FRAME_HEADER_SIZE deadline;
        if header_count \<le> 0 then return (Inl header_count)
        else do {
          let frame = decode_frame_header header;
          let n = unat (fr_payload_length frame);
          if \<not> frame_header_acceptable frame magic major minor maximum_payload public_rules
          then do { set_errno EPROTO; return (Inl (- 1)) }
          else if n = 0 then return (Inr frame)
          else if \<not> kn_alloc kn n then do { set_errno ENOMEM; return (Inl (- 1)) }
          else do {
            (moved, payload) \<leftarrow> receive_until kn descriptor n deadline;
            return (if moved \<noteq> int n then Inl (- 1) else Inr (frame\<lparr>fr_payload := Some payload\<rparr>)) }}})"

text \<open>The rest of \<open>ksd_frame_read_fd\<close> once the header and perhaps a descriptor have come.\<close>

definition take_frame_fd :: "'w kernel \<Rightarrow> int \<Rightarrow> bytes \<Rightarrow> u16 \<Rightarrow> u16 \<Rightarrow> u32 \<Rightarrow> bool \<Rightarrow> bytes \<Rightarrow> int \<Rightarrow> ('d, 'w, (ksd_frame \<times> int) option) io" where
  "take_frame_fd kn descriptor magic major minor maximum_payload public_rules header received_fd = do {
     let frame = decode_frame_header header;
     let n = unat (fr_payload_length frame);
     if \<not> frame_header_acceptable frame magic major minor maximum_payload public_rules
     then do { close_received_fd received_fd; set_errno EPROTO; return None }
     else if n = 0 then return (Some (frame, received_fd))
     else do {
       deadline \<leftarrow> socket_deadline kn descriptor False;
       if \<not> kn_alloc kn n then do { set_errno ENOMEM; close_received_fd received_fd; return None }
       else do {
         (moved, payload) \<leftarrow> receive_until kn descriptor n deadline;
         if moved \<noteq> int n then do { close_received_fd received_fd; return None }
         else return (Some (frame\<lparr>fr_payload := Some payload\<rparr>, received_fd)) }}}"

definition ksd_frame_read_fd :: "'w kernel \<Rightarrow> int \<Rightarrow> bytes \<Rightarrow> u16 \<Rightarrow> u16 \<Rightarrow> u32 \<Rightarrow> bool \<Rightarrow> ('d, 'w, (ksd_frame \<times> int) option) io" where
  "ksd_frame_read_fd kn descriptor magic major minor maximum_payload public_rules =
     (if descriptor < 0 then do { set_errno EINVAL; return None }
      else do {
        header \<leftarrow> ksd_receive_optional_fd kn descriptor KSD_FRAME_HEADER_SIZE;
        case header of None \<Rightarrow> return None
        | Some (header, received_fd) \<Rightarrow> take_frame_fd kn descriptor magic major minor maximum_payload public_rules header received_fd })"

definition ksd_frame_write :: "'w kernel \<Rightarrow> int \<Rightarrow> ksd_frame \<Rightarrow> ('d, 'w, bool) io" where
  "ksd_frame_write kn descriptor frame =
     (if descriptor < 0 \<or> (fr_payload_length frame \<noteq> 0 \<and> fr_payload frame = None) then return False
      else do {
        deadline \<leftarrow> socket_deadline kn descriptor True;
        header_count \<leftarrow> send_until kn descriptor (encode_frame_header frame) deadline;
        if header_count \<noteq> int KSD_FRAME_HEADER_SIZE then return False
        else if fr_payload_length frame = 0 then return True
        else do {
          moved \<leftarrow> send_until kn descriptor (payload_bytes frame) deadline;
          return (moved = int (unat (fr_payload_length frame))) }})"

definition ksd_frame_write_fd :: "'w kernel \<Rightarrow> int \<Rightarrow> ksd_frame \<Rightarrow> int \<Rightarrow> ('d, 'w, bool) io" where
  "ksd_frame_write_fd kn descriptor frame passed_fd =
     (if descriptor < 0 \<or> passed_fd < 0 \<or> (fr_payload_length frame \<noteq> 0 \<and> fr_payload frame = None) then return False
      else do {
        headed \<leftarrow> ksd_send_with_fd kn descriptor (encode_frame_header frame) passed_fd;
        if \<not> headed then return False
        else do {
          deadline \<leftarrow> socket_deadline kn descriptor True;
          if fr_payload_length frame = 0 then return True
          else do {
            moved \<leftarrow> send_until kn descriptor (payload_bytes frame) deadline;
            return (moved = int (unat (fr_payload_length frame))) }}})"

section \<open>What crossed the socket\<close>

definition received :: "net_event list \<Rightarrow> bytes" where
  "received es = concat (map (\<lambda>e. case e of Received bs \<Rightarrow> bs | _ \<Rightarrow> []) es)"

definition sent :: "net_event list \<Rightarrow> bytes" where
  "sent es = concat (map (\<lambda>e. case e of Sent bs \<Rightarrow> bs | _ \<Rightarrow> []) es)"

lemma crossed_simps [simp]:
  "received [] = []" "received (Received bs # es) = bs @ received es" "received (es @ fs) = received es @ received fs"
  "received (Sent bs # es) = received es" "received (Closed fd # es) = received es" "received (Arrived fds # es) = received es"
  "received (map Closed fds) = []" "received (Passed fd # es) = received es"
  "sent [] = []" "sent (Sent bs # es) = bs @ sent es" "sent (es @ fs) = sent es @ sent fs" "sent (Passed fd # es) = sent es"
  "sent (Received bs # es) = sent es" "sent (Arrived fds # es) = sent es" "sent (Closed fd # es) = sent es" "sent (map Closed fds) = []"
  by (simp_all add: received_def sent_def comp_def)

text \<open>
  What POSIX says of the calls that transfer bytes: a read gives at most what was asked for,
  a write takes at most what it was given.
\<close>

definition lawful :: "'w kernel \<Rightarrow> bool" where
  "lawful kn \<longleftrightarrow> (\<forall>d n w bs. fst (kn_recv kn d n w) = Inr bs \<longrightarrow> length bs \<le> n) \<and> (\<forall>d bs w k. fst (kn_send kn d bs w) = Inr k \<longrightarrow> k \<le> length bs)
     \<and> (\<forall>d n w bs. fst (kn_read kn d n w) = Inr bs \<longrightarrow> length bs \<le> n) \<and> (\<forall>d bs w k. fst (kn_write kn d bs w) = Inr k \<longrightarrow> k \<le> length bs)
     \<and> (\<forall>d bs fd w k. fst (kn_sendmsg kn d bs fd w) = Inr k \<longrightarrow> k \<le> length bs)"

text \<open>What the manual says of a message: its descriptors are open ones, and the end of the stream carries none.\<close>

definition lawful_messages :: "'w kernel \<Rightarrow> bool" where
  "lawful_messages kn \<longleftrightarrow> (\<forall>d n w m. fst (kn_recvmsg kn d n w) = Inr m \<longrightarrow> length (rm_bytes m) \<le> n
     \<and> list_all (\<lambda>fd. fd \<ge> 0) (message_rights (rm_control m)) \<and> (rm_bytes m = [] \<longrightarrow> message_rights (rm_control m) = []))"

lemma spec_call_fact: "(\<And>w. A (fst (f w))) \<Longrightarrow> (\<And>d x. A x \<Longrightarrow> P d x d (entry x)) \<Longrightarrow> spec (call f entry) P"
  by (rule specI) (simp add: wp_call split: prod.splits, metis fst_conv)

text \<open>What the continuation has to do may depend on all that was done before it.\<close>

lemma spec_then:
  assumes "spec m P" and "\<And>d x d' es. P d x d' es \<Longrightarrow> spec (f x) (\<lambda>e y d'' fs. e = d' \<longrightarrow> Q d y d'' (es @ fs))"
  shows "spec (State_Monad.bind m f) Q"
proof (rule specI)
  fix s :: "('a, 'b, 'c) run"
  show "wp (State_Monad.bind m f) (\<lambda>x t. \<exists>es. rn_log t = rn_log s @ es \<and> Q (rn_data s) x (rn_data t) es) s"
    unfolding wp_bind
  proof (rule spec_wp [OF assms(1)])
    fix x d w es
    assume p: "P (rn_data s) x d es"
    show "wp (f x) (\<lambda>y t. \<exists>fs. rn_log t = rn_log s @ fs \<and> Q (rn_data s) y (rn_data t) fs) (s\<lparr>rn_data := d, rn_world := w, rn_log := rn_log s @ es\<rparr>)"
      by (rule spec_wp [OF assms(2) [OF p]]) auto
  qed
qed

text \<open>Computations that move no bytes and no descriptors.\<close>

interpretation quiet: run_property "\<lambda>d d' es. es = []"
  by standard auto

lemma set_errno_quiet: "quiet.steps (set_errno e)"
  unfolding set_errno_def by (intro quiet.steps_rules) simp

lemma spec_errno: "(\<And>d d'. P d x d' []) \<Longrightarrow> spec (State_Monad.bind (set_errno e) (\<lambda>_. return x)) P"
  by (rule spec_bind [OF set_errno_quiet [THEN quiet.steps_spec] spec_return [where P = "\<lambda>d y d' es. y = x \<and> d' = d \<and> es = []"]]) auto

lemma milliseconds_quiet: "quiet.steps (ksd_monotonic_milliseconds kn)"
  unfolding ksd_monotonic_milliseconds_def by (intro quiet.steps_rules) simp

lemma poll_timeout_quiet: "quiet.steps (poll_timeout kn deadline)"
  unfolding poll_timeout_def by (intro quiet.steps_rules set_errno_quiet milliseconds_quiet)

lemma poll_end_quiet:
  "quiet.steps (case ended of Poll_Failed e \<Rightarrow> State_Monad.bind (set_errno e) (\<lambda>_. return False)
      | Poll_Nothing \<Rightarrow> State_Monad.bind (set_errno ETIMEDOUT) (\<lambda>_. return False) | Poll_Ready broken ready \<Rightarrow> return (\<not> broken \<and> ready))"
  by (cases ended) (simp_all add: quiet.steps_bind set_errno_quiet quiet.steps_return)

lemma wait_rounds_quiet: "quiet.steps (wait_rounds kn d writing deadline n)"
proof (induction n)
  case 0
  show ?case unfolding wait_rounds.simps by (intro quiet.steps_rules poll_timeout_quiet poll_end_quiet) simp
next
  case (Suc n)
  show ?case unfolding wait_rounds.simps by (intro quiet.steps_rules poll_timeout_quiet set_errno_quiet Suc.IH)
qed

lemma wait_until_quiet: "quiet.steps (ksd_wait_until kn d writing deadline)"
  unfolding ksd_wait_until_def by (intro quiet.steps_rules wait_rounds_quiet) simp

lemma socket_deadline_quiet: "quiet.steps (socket_deadline kn d writing)"
  unfolding socket_deadline_def by (intro quiet.steps_rules milliseconds_quiet) simp

text \<open>A pass does what its last call does, or nothing.\<close>

lemma transfer_pass_spec:
  assumes "spec m P"
  shows "spec (transfer_pass kn d writing deadline m retries) (\<lambda>a x b es. case x of None \<Rightarrow> es = [] | Some y \<Rightarrow> \<exists>a'. P a' y b es)"
proof (induction retries)
  case Nil
  have "spec (if \<not> ready then return None else State_Monad.bind m (\<lambda>y. return (Some y)))
      (\<lambda>a x b es. case x of None \<Rightarrow> es = [] | Some y \<Rightarrow> \<exists>a'. P a' y b es)" for ready
  proof (cases ready)
    case True
    have "spec (State_Monad.bind m (\<lambda>y. return (Some y))) (\<lambda>a x b es. case x of None \<Rightarrow> es = [] | Some y \<Rightarrow> \<exists>a'. P a' y b es)"
      by (rule spec_bind [OF assms spec_return [where P = "\<lambda>d x d' es. x = Some y \<and> d' = d \<and> es = []" for y]]) auto
    with True show ?thesis by simp
  qed (simp add: spec_return)
  from spec_bind [OF wait_until_quiet [THEN quiet.steps_spec] this] show ?case unfolding transfer_pass.simps by simp
next
  case (Cons e retries)
  let ?R = "\<lambda>a x b es. case x of None \<Rightarrow> es = [] | Some y \<Rightarrow> \<exists>a'. P a' y b es"
  have "spec (State_Monad.bind (set_errno e) (\<lambda>_. transfer_pass kn d writing deadline m retries)) ?R"
    by (rule spec_bind [OF set_errno_quiet [THEN quiet.steps_spec] Cons.IH]) (simp split: option.splits)
  then have "spec (if \<not> ready then return None else State_Monad.bind (set_errno e) (\<lambda>_. transfer_pass kn d writing deadline m retries)) ?R" for ready
    by (cases ready) (simp_all add: spec_return)
  from spec_bind [OF wait_until_quiet [THEN quiet.steps_spec] this] show ?case unfolding transfer_pass.simps by simp
qed

lemma system_call_spec:
  assumes "\<And>w x. fst (g w) = Inr x \<Longrightarrow> A x"
  shows "spec (system_call g entry) (\<lambda>d x d' es. case x of None \<Rightarrow> es = [] | Some y \<Rightarrow> A y \<and> es = entry y)"
proof -
  have c: "spec (call g (\<lambda>answer. case answer of Inl _ \<Rightarrow> [] | Inr x \<Rightarrow> entry x))
      (\<lambda>d a d' es. (\<forall>x. a = Inr x \<longrightarrow> A x) \<and> es = (case a of Inl _ \<Rightarrow> [] | Inr x \<Rightarrow> entry x))"
    by (rule spec_call_fact [where A = "\<lambda>a. \<forall>x. a = Inr x \<longrightarrow> A x"]) (simp_all add: assms)
  have r: "spec (case a of Inl e \<Rightarrow> State_Monad.bind (set_errno e) (\<lambda>_. return None) | Inr x \<Rightarrow> return (Some x))
      (\<lambda>d x d' es. es = [] \<and> x = (case a of Inl _ \<Rightarrow> None | Inr y \<Rightarrow> Some y))" for a
    by (cases a) (simp_all add: spec_return spec_errno)
  show ?thesis unfolding system_call_def
    by (rule spec_bind [OF c r]) (auto split: sum.splits)
qed

lemma pass_call_spec:
  assumes "\<And>w x. fst (g w) = Inr x \<Longrightarrow> A x"
  shows "spec (transfer_pass kn d writing deadline (system_call g entry) k)
    (\<lambda>_ x _ es. case x of Some (Some y) \<Rightarrow> A y \<and> es = entry y | _ \<Rightarrow> es = [])"
  by (rule spec_weaken [OF transfer_pass_spec [OF system_call_spec [OF assms]]]) (auto split: option.splits)

definition gathered :: "nat \<Rightarrow> bytes \<Rightarrow> int \<times> bytes \<Rightarrow> net_event list \<Rightarrow> bool" where
  "gathered n got x es \<longleftrightarrow> set es \<subseteq> range Received \<and> snd x = got @ received es \<and> length (snd x) \<le> n
     \<and> (fst x = int n \<and> length (snd x) = n \<or> fst x = - 1 \<or> fst x = 0 \<and> snd x = [])"

lemma receive_passes_spec:
  fixes kn :: "'w kernel"
  assumes "lawful kn"
  shows "length got \<le> n \<Longrightarrow> n \<le> length got + passes \<Longrightarrow> spec (receive_passes kn d deadline n got passes :: ('d, 'w, int \<times> bytes) io) (\<lambda>_ x _ es. gathered n got x es)"
proof (induction passes arbitrary: got)
  case 0
  then show ?case by (auto simp: gathered_def intro: spec_return)
next
  case (Suc passes)
  let ?P = "\<lambda>pass es. case pass of Some (Some bs) \<Rightarrow> length bs \<le> n - length got \<and> es = [Received bs] | _ \<Rightarrow> es = []"
  let ?f = "\<lambda>pass. (case pass of None \<Rightarrow> return (- 1, got) | Some None \<Rightarrow> return (- 1, got)
    | Some (Some bs) \<Rightarrow> if bs = [] then return (if got = [] then 0 else - 1, got) else receive_passes kn d deadline n (got @ bs) passes) :: ('d, 'w, int \<times> bytes) io"
  show ?case
  proof (cases "length got \<ge> n")
    case True
    with Suc.prems(1) show ?thesis by (auto simp: gathered_def intro: spec_return)
  next
    case False
    have law: "fst (kn_recv kn d (n - length got) w) = Inr bs \<Longrightarrow> length bs \<le> n - length got" for w bs using assms by (simp add: lawful_def)
    have p: "spec (transfer_pass kn d False deadline (system_call (kn_recv kn d (n - length got)) (\<lambda>bs. [Received bs])) k :: ('d, 'w, bytes option option) io) (\<lambda>_ x _ es. ?P x es)" for k
      by (rule pass_call_spec) (rule law)
    have "spec (?f pass) (\<lambda>_ x _ es. case pass of Some (Some bs) \<Rightarrow> gathered n (got @ bs) x es | _ \<Rightarrow> x = (- 1, got) \<and> es = [])" if "?P pass es" for pass es
    proof -
      have "spec (receive_passes kn d deadline n (got @ bs) passes :: ('d, 'w, int \<times> bytes) io) (\<lambda>_ x _ es. gathered n (got @ bs) x es)"
        if "pass = Some (Some bs)" "bs \<noteq> []" for bs
      proof (rule Suc.IH)
        show "n \<le> length (got @ bs) + passes" using that(2) Suc.prems(2) by (cases bs) simp_all
      qed (use that \<open>?P pass es\<close> False in auto)
      moreover have "pass = None \<or> pass = Some None \<or> (\<exists>bs. pass = Some (Some bs))" by (cases pass) auto
      ultimately show ?thesis using Suc.prems(1) by (auto intro!: spec_return simp: gathered_def)
    qed
    then have "spec (State_Monad.bind (transfer_pass kn d False deadline (system_call (kn_recv kn d (n - length got)) (\<lambda>bs. [Received bs])) k) ?f)
        (\<lambda>_ x _ es. gathered n got x es)" for k
      by (rule spec_bind_if [OF p]) (use Suc.prems(1) in \<open>auto simp: gathered_def split: option.splits\<close>)
    then show ?thesis unfolding receive_passes.simps if_not_P [OF False] by (intro spec_bind [OF spec_call [where P = "\<lambda>d x d' es. es = []"]]) simp_all
  qed
qed

lemma gathered_nothing: "gathered n [] (- 1, []) []"
  by (simp add: gathered_def)

lemma receive_until_spec: "lawful kn \<Longrightarrow> spec (receive_until kn d n deadline) (\<lambda>_ x _ es. gathered n [] x es)"
  unfolding receive_until_def by (simp add: receive_passes_spec spec_errno gathered_nothing)

text \<open>Sending: a prefix of the data leaves, and all of it when the transfer succeeds.\<close>

definition delivered :: "bytes \<Rightarrow> nat \<Rightarrow> int \<Rightarrow> net_event list \<Rightarrow> bool" where
  "delivered bytes offset r es \<longleftrightarrow> set es \<subseteq> range Sent \<and> (\<exists>left. sent es @ left = drop offset bytes)
     \<and> (r = int (length bytes) \<and> sent es = drop offset bytes \<or> r = - 1)"

lemma delivered_none: "delivered bs offset (- 1) []"
  by (simp add: delivered_def)

lemma delivered_cons:
  assumes "delivered bs (offset + k) r es" "k \<le> length (drop offset bs)"
  shows "delivered bs offset r (Sent (take k (drop offset bs)) # es)"
proof -
  from assms(1) obtain left where "sent es @ left = drop k (drop offset bs)" by (auto simp: delivered_def add.commute)
  then have "(take k (drop offset bs) @ sent es) @ left = drop offset bs" by (metis append.assoc append_take_drop_id)
  moreover have "take k (drop offset bs) @ drop (offset + k) bs = drop offset bs" by (metis append_take_drop_id drop_drop add.commute)
  ultimately show ?thesis using assms(1) unfolding delivered_def by auto
qed

lemma send_passes_spec:
  fixes kn :: "'w kernel"
  assumes "lawful kn"
  shows "offset \<le> length bs \<Longrightarrow> length bs \<le> offset + passes \<Longrightarrow> spec (send_passes kn d deadline bs offset passes :: ('d, 'w, int) io)
    (\<lambda>_ r _ es. delivered bs offset r es)"
proof (induction passes arbitrary: offset)
  case 0
  then show ?case by (auto simp: delivered_def intro: spec_return)
next
  case (Suc passes)
  let ?bs = "drop offset bs"
  let ?P = "\<lambda>pass es. case pass of Some (Some k) \<Rightarrow> k \<le> length ?bs \<and> es = [Sent (take k ?bs)] | _ \<Rightarrow> es = []"
  let ?f = "\<lambda>pass. (case pass of None \<Rightarrow> return (- 1) | Some None \<Rightarrow> return (- 1)
        | Some (Some k) \<Rightarrow> if k = 0 then return (- 1) else send_passes kn d deadline bs (offset + k) passes) :: ('d, 'w, int) io"
  show ?case
  proof (cases "offset \<ge> length bs")
    case True
    with Suc.prems(1) show ?thesis by (auto simp: delivered_def intro: spec_return)
  next
    case False
    have law: "fst (kn_send kn d ?bs w) = Inr k \<Longrightarrow> k \<le> length ?bs" for w k using assms unfolding lawful_def by metis
    have p: "spec (transfer_pass kn d True deadline (system_call (kn_send kn d ?bs) (\<lambda>k. [Sent (take k ?bs)])) i :: ('d, 'w, nat option option) io) (\<lambda>_ x _ es. ?P x es)" for i
      by (rule pass_call_spec) (rule law)
    have "spec (?f pass) (\<lambda>_ r _ es. delivered bs (case pass of Some (Some k) \<Rightarrow> offset + k | _ \<Rightarrow> offset) r es)" if "?P pass es" for pass es
    proof -
      have "spec (send_passes kn d deadline bs (offset + k) passes :: ('d, 'w, int) io) (\<lambda>_ r _ es. delivered bs (offset + k) r es)"
        if "pass = Some (Some k)" "k \<noteq> 0" for k
        using that \<open>?P pass es\<close> False Suc.prems by (intro Suc.IH) auto
      moreover have "pass = None \<or> pass = Some None \<or> (\<exists>bs. pass = Some (Some bs))" by (cases pass) auto
      ultimately show ?thesis by (auto intro!: spec_return delivered_none)
    qed
    then have "spec (State_Monad.bind (transfer_pass kn d True deadline (system_call (kn_send kn d ?bs) (\<lambda>k. [Sent (take k ?bs)])) i) ?f)
        (\<lambda>_ r _ es. delivered bs offset r es)" for i
      by (rule spec_bind_if [OF p]) (auto split: option.splits dest: delivered_cons)
    then show ?thesis unfolding send_passes.simps if_not_P [OF False] by (intro spec_bind [OF spec_call [where P = "\<lambda>d x d' es. es = []"]]) simp_all
  qed
qed

lemma send_until_spec: "lawful kn \<Longrightarrow> spec (send_until kn d bs deadline) (\<lambda>_ r _ es. delivered bs 0 r es)"
  unfolding send_until_def by (simp add: send_passes_spec spec_errno delivered_none)

text \<open>The bounds on the passes are never what ends a transfer: more passes change nothing.\<close>

lemma bind_case_cong:
  "(\<And>y. f y = g y) \<Longrightarrow> State_Monad.bind m f = State_Monad.bind m g"
  by (simp add: fun_eq_iff [symmetric] ext [of f g])

lemma receive_passes_more:
  fixes kn :: "'w kernel"
  shows "n \<le> length got + passes \<Longrightarrow> receive_passes kn d deadline n got (passes + k) = (receive_passes kn d deadline n got passes :: ('d, 'w, int \<times> bytes) io)"
proof (induction passes arbitrary: got)
  case 0
  then show ?case by (cases k) simp_all
next
  case (Suc passes)
  have "receive_passes kn d deadline n (got @ bs) (passes + k) = (receive_passes kn d deadline n (got @ bs) passes :: ('d, 'w, int \<times> bytes) io)" if "bs \<noteq> []" for bs
    using that Suc.prems by (intro Suc.IH) (cases bs; simp)
  then show ?case by (auto simp: intro!: bind_case_cong split: option.split)
qed

lemma send_passes_more:
  fixes kn :: "'w kernel"
  shows "length bs \<le> offset + passes \<Longrightarrow> send_passes kn d deadline bs offset (passes + k) = (send_passes kn d deadline bs offset passes :: ('d, 'w, int) io)"
proof (induction passes arbitrary: offset)
  case 0
  then show ?case by (cases k) simp_all
next
  case (Suc passes)
  have "send_passes kn d deadline bs (offset + c) (passes + k) = (send_passes kn d deadline bs (offset + c) passes :: ('d, 'w, int) io)" if "c \<noteq> 0" for c
    using that Suc.prems by (intro Suc.IH) simp
  then show ?case by (auto intro!: bind_case_cong split: option.split)
qed

text \<open>When the parent directories are said to be there, each of them is.\<close>

lemma make_each_present:
  fixes kn :: "'w kernel"
  shows "spec (make_each kn paths :: ('d, 'w, bool) io) (\<lambda>_ r _ es. r \<longrightarrow> es = map Present paths)"
proof (induction paths)
  case Nil
  then show ?case by (simp add: spec_return)
next
  case (Cons path paths)
  let ?k = "\<lambda>there. (if \<not> there then return False else make_each kn paths) :: ('d, 'w, bool) io"
  have k: "spec (?k there) (\<lambda>_ r _ es. r \<longrightarrow> there \<and> es = map Present paths)" for there
    using Cons.IH by (cases there) (simp_all add: spec_return)
  have d: "spec ((if made then return True else call (kn_directory kn path) (\<lambda>there. if there then [Present path] else [])) :: ('d, 'w, bool) io)
      (\<lambda>_ there _ es. es = (if \<not> made \<and> there then [Present path] else []) \<and> (made \<longrightarrow> there))" for made
    by (cases made) (simp_all add: spec_return spec_call)
  have m: "spec (State_Monad.bind (if made then return True else call (kn_directory kn path) (\<lambda>there. if there then [Present path] else [])) ?k)
      (\<lambda>_ r _ es. r \<longrightarrow> es = (if made then [] else [Present path]) @ map Present paths)" for made
    by (rule spec_bind [OF d k]) auto
  show ?case unfolding make_each.simps
    by (rule spec_bind [OF spec_call [where P = "\<lambda>d made d' es. es = (if made then [Present path] else [])"] m]) auto
qed

section \<open>Frames on the stream\<close>

definition frame_bytes :: "ksd_frame \<Rightarrow> bytes" where
  "frame_bytes frame = encode_frame_header frame @ payload_bytes frame"

lemma frame_bytes_prefix_free:
  assumes "frame_wf f" "frame_wf g" "frame_bytes f @ a = frame_bytes g @ b"
  shows "f = g \<and> a = b"
proof -
  have m: "length (fr_magic f) = 4" "length (fr_magic g) = 4" using assms by (simp_all add: frame_wf_def)
  have h: "encode_frame_header f = encode_frame_header g" "payload_bytes f @ a = payload_bytes g @ b"
    using assms(3) m by (simp_all add: frame_bytes_def)
  have none: "f\<lparr>fr_payload := None\<rparr> = g\<lparr>fr_payload := None\<rparr>"
    using decode_encode_header [OF m(1), of "[]"] decode_encode_header [OF m(2), of "[]"] h(1) by simp
  then have "fr_payload_length f = fr_payload_length g" by (cases f; cases g) simp
  then have p: "payload_bytes f = payload_bytes g" "a = b"
    using h(2) length_payload_bytes [OF assms(1)] length_payload_bytes [OF assms(2)] by simp_all
  have "fr_payload f = fr_payload g"
    using p(1) assms(1,2) \<open>fr_payload_length f = fr_payload_length g\<close>
    by (auto simp: payload_bytes_wf frame_wf_def split: option.splits)
  with none p(2) show ?thesis by (cases f; cases g) simp
qed

lemma frame_bytes_nonempty: "frame_wf f \<Longrightarrow> frame_bytes f \<noteq> []"
proof
  assume "frame_wf f" "frame_bytes f = []"
  moreover from this have "length (encode_frame_header f) = 24" by (intro length_encode_frame_header) (simp add: frame_wf_def)
  ultimately show False by (simp add: frame_bytes_def)
qed

lemma frames_prefix:
  "list_all frame_wf gs \<Longrightarrow> list_all frame_wf fs \<Longrightarrow> concat (map frame_bytes gs) @ a = concat (map frame_bytes fs) @ b
    \<Longrightarrow> (\<exists>rest. fs = gs @ rest) \<or> (\<exists>rest. gs = fs @ rest)"
proof (induction gs arbitrary: fs)
  case (Cons g gs)
  show ?case
  proof (cases fs)
    case (Cons f fs')
    with Cons.prems have "g = f \<and> concat (map frame_bytes gs) @ a = concat (map frame_bytes fs') @ b"
      by (intro frame_bytes_prefix_free) simp_all
    with Cons Cons.prems Cons.IH [of fs'] show ?thesis by auto
  qed simp
qed simp

lemma frames_prefix_exact:
  assumes "list_all frame_wf gs" "list_all frame_wf fs" "concat (map frame_bytes gs) @ a = concat (map frame_bytes fs) @ []"
  shows "\<exists>rest. fs = gs @ rest"
proof -
  from frames_prefix [OF assms] consider rest where "fs = gs @ rest" | rest where "gs = fs @ rest" by auto
  then show ?thesis
  proof cases
    case 2
    with assms(1,3) have "list_all frame_wf rest" "concat (map frame_bytes rest) = []" by auto
    then have "rest = []" using frame_bytes_nonempty by (cases rest) auto
    with 2 show ?thesis by simp
  qed blast
qed

lemma decoded_payload:
  assumes "length h = 24" "length p = unat (fr_payload_length (decode_frame_header h))" "p \<noteq> []"
  shows "frame_wf (decode_frame_header h\<lparr>fr_payload := Some p\<rparr>) \<and> frame_bytes (decode_frame_header h\<lparr>fr_payload := Some p\<rparr>) = h @ p"
proof -
  have "encode_frame_header (decode_frame_header h\<lparr>fr_payload := Some p\<rparr>) = encode_frame_header (decode_frame_header h)"
    by (simp add: encode_frame_header_def)
  with assms show ?thesis
    by (auto simp: frame_wf_def frame_bytes_def payload_bytes_def encode_decode_header) (simp add: decode_frame_header_def slice_def wire_defs)
qed

lemma decoded_empty:
  assumes "length h = 24" "fr_payload_length (decode_frame_header h) = 0"
  shows "frame_wf (decode_frame_header h) \<and> frame_bytes (decode_frame_header h) = h"
  using assms encode_decode_header [of h]
  by (auto simp: frame_wf_def frame_bytes_def payload_bytes_def split: option.splits) (simp_all add: decode_frame_header_def slice_def wire_defs)

text \<open>A frame that is read is well formed and is what came off the socket.\<close>

definition frame_came :: "int + ksd_frame \<Rightarrow> net_event list \<Rightarrow> bool" where
  "frame_came r es \<longleftrightarrow> set es \<subseteq> range Received \<and> (case r of Inl _ \<Rightarrow> True | Inr frame \<Rightarrow> frame_wf frame \<and> received es = frame_bytes frame)"

lemma errno_came: "spec (State_Monad.bind (set_errno e) (\<lambda>_. return (Inl k))) (\<lambda>_ r _ es. frame_came r es)"
  by (rule spec_errno) (simp add: frame_came_def)

lemma payload_came:
  fixes kn :: "'w kernel"
  assumes "lawful kn" "length h = 24" "n = unat (fr_payload_length (decode_frame_header h))" "n \<noteq> 0"
  shows "spec (State_Monad.bind (receive_until kn d n deadline) (\<lambda>(moved, payload). return (if moved \<noteq> int n then Inl (- 1) else Inr (decode_frame_header h\<lparr>fr_payload := Some payload\<rparr>))) :: ('d, 'w, int + ksd_frame) io)
    (\<lambda>_ r _ es. set es \<subseteq> range Received \<and> (case r of Inl _ \<Rightarrow> True | Inr frame \<Rightarrow> frame_wf frame \<and> h @ received es = frame_bytes frame))"
proof (rule spec_bind [OF receive_until_spec [OF assms(1)]])
  show "spec (case x of (moved, payload) \<Rightarrow> return (if moved \<noteq> int n then Inl (- 1) else Inr (decode_frame_header h\<lparr>fr_payload := Some payload\<rparr>)))
      (\<lambda>_ r _ es. es = [] \<and> r = (if fst x \<noteq> int n then Inl (- 1) else Inr (decode_frame_header h\<lparr>fr_payload := Some (snd x)\<rparr>)))" for x
    by (cases x) (simp add: spec_return)
next
  fix x and r :: "int + ksd_frame" and es fs :: "net_event list"
  assume g: "gathered n [] x es" and r: "fs = [] \<and> r = (if fst x \<noteq> int n then Inl (- 1) else Inr (decode_frame_header h\<lparr>fr_payload := Some (snd x)\<rparr>))"
  show "set (es @ fs) \<subseteq> range Received \<and> (case r of Inl _ \<Rightarrow> True | Inr frame \<Rightarrow> frame_wf frame \<and> h @ received (es @ fs) = frame_bytes frame)"
  proof (cases "fst x = int n")
    case True
    with g assms(4) have "snd x = received es" "length (snd x) = n" "snd x \<noteq> []" by (auto simp: gathered_def)
    with True g r decoded_payload [OF assms(2), of "snd x"] assms(3) show ?thesis by (simp add: gathered_def)
  qed (use g r in \<open>simp add: gathered_def\<close>)
qed

definition frame_tail :: "'w kernel \<Rightarrow> int \<Rightarrow> bytes \<Rightarrow> u16 \<Rightarrow> u16 \<Rightarrow> u32 \<Rightarrow> bool \<Rightarrow> u64 \<Rightarrow> int \<times> bytes \<Rightarrow> ('d, 'w, int + ksd_frame) io" where
  "frame_tail kn descriptor magic major minor maximum_payload public_rules deadline header =
     (if fst header \<le> 0 then return (Inl (fst header))
      else let frame = decode_frame_header (snd header); n = unat (fr_payload_length frame) in
        if \<not> frame_header_acceptable frame magic major minor maximum_payload public_rules then do { set_errno EPROTO; return (Inl (- 1)) }
        else if n = 0 then return (Inr frame)
        else if \<not> kn_alloc kn n then do { set_errno ENOMEM; return (Inl (- 1)) }
        else do {
          (moved, payload) \<leftarrow> receive_until kn descriptor n deadline;
          return (if moved \<noteq> int n then Inl (- 1) else Inr (frame\<lparr>fr_payload := Some payload\<rparr>)) })"

lemma frame_read_parts:
  "ksd_frame_read kn descriptor magic major minor maximum_payload public_rules =
     (if descriptor < 0 then do { set_errno EINVAL; return (Inl (- 1)) }
      else do {
        deadline \<leftarrow> socket_deadline kn descriptor False;
        header \<leftarrow> receive_until kn descriptor KSD_FRAME_HEADER_SIZE deadline;
        frame_tail kn descriptor magic major minor maximum_payload public_rules deadline header })"
  by (simp add: ksd_frame_read_def frame_tail_def split_def Let_def)

lemma frame_tail_came:
  assumes "lawful kn" "gathered 24 [] header es"
  shows "spec (frame_tail kn d magic major minor maximum rules deadline header)
    (\<lambda>_ r _ es. set es \<subseteq> range Received \<and> (case r of Inl _ \<Rightarrow> True | Inr frame \<Rightarrow> frame_wf frame \<and> snd header @ received es = frame_bytes frame))"
proof (cases "fst header \<le> 0")
  case False
  with assms(2) have h: "length (snd header) = 24" by (auto simp: gathered_def)
  show ?thesis unfolding frame_tail_def Let_def if_not_P [OF False]
    using payload_came [OF assms(1) h refl] decoded_empty [OF h]
    by (auto intro!: spec_errno spec_return simp: unat_eq_0)
qed (auto simp: frame_tail_def intro: spec_return)

lemma frame_read_came:
  fixes kn :: "'w kernel"
  assumes "lawful kn"
  shows "spec (ksd_frame_read kn d magic major minor maximum rules :: ('d, 'w, int + ksd_frame) io) (\<lambda>_ r _ es. frame_came r es)"
proof (cases "d < 0")
  case True
  then show ?thesis by (simp add: frame_read_parts errno_came)
next
  case False
  have size: "KSD_FRAME_HEADER_SIZE = 24" by (simp add: wire_defs)
  have "spec (State_Monad.bind (receive_until kn d KSD_FRAME_HEADER_SIZE deadline) (frame_tail kn d magic major minor maximum rules deadline) :: ('d, 'w, int + ksd_frame) io)
      (\<lambda>_ r _ es. frame_came r es)" for deadline
    unfolding size by (rule spec_bind_if [OF receive_until_spec [OF assms] frame_tail_came [OF assms]])
      (auto simp: frame_came_def gathered_def split: sum.splits)
  then show ?thesis unfolding frame_read_parts if_not_P [OF False]
    by (intro spec_bind [OF socket_deadline_quiet [THEN quiet.steps_spec]]) simp_all
qed

text \<open>A frame that is written leaves whole, or a prefix of it does.\<close>

definition frame_left :: "ksd_frame \<Rightarrow> bool \<Rightarrow> net_event list \<Rightarrow> bool" where
  "frame_left frame r es \<longleftrightarrow> set es \<subseteq> range Sent \<and> (\<exists>left. sent es @ left = frame_bytes frame) \<and> (r \<longrightarrow> sent es = frame_bytes frame)"

lemma payload_left:
  assumes "lawful kn" "frame_wf frame"
  shows "spec (State_Monad.bind (send_until kn d (payload_bytes frame) deadline) (\<lambda>moved. return (moved = int (unat (fr_payload_length frame)))))
    (\<lambda>_ r _ es. set es \<subseteq> range Sent \<and> (\<exists>left. sent es @ left = payload_bytes frame) \<and> (r \<longrightarrow> sent es = payload_bytes frame))"
proof -
  have "int (unat (fr_payload_length frame)) \<noteq> - 1" by linarith
  then show ?thesis
    by (intro spec_bind [OF send_until_spec [OF assms(1)] spec_return [where P = "\<lambda>d y d' es. y = (x = int (unat (fr_payload_length frame))) \<and> es = []" for x]])
      (auto simp: delivered_def)
qed

lemma frame_write_left:
  fixes kn :: "'w kernel"
  assumes "lawful kn" "frame_wf frame"
  shows "spec (ksd_frame_write kn d frame :: ('d, 'w, bool) io) (\<lambda>_ r _ es. frame_left frame r es)"
proof (cases "d < 0 \<or> (fr_payload_length frame \<noteq> 0 \<and> fr_payload frame = None)")
  case True
  then show ?thesis by (simp add: ksd_frame_write_def spec_return frame_left_def)
next
  case False
  have size: "int KSD_FRAME_HEADER_SIZE = 24" by (simp add: wire_defs)
  have l: "length (encode_frame_header frame) = 24" using assms(2) by (intro length_encode_frame_header) (simp add: frame_wf_def)
  let ?k = "\<lambda>deadline moved. (if moved \<noteq> int KSD_FRAME_HEADER_SIZE then return False else if fr_payload_length frame = 0 then return True
     else State_Monad.bind (send_until kn d (payload_bytes frame) deadline) (\<lambda>moved. return (moved = int (unat (fr_payload_length frame))))) :: ('d, 'w, bool) io"
  have none: "payload_bytes frame = []" if "fr_payload_length frame = 0" using that by (simp add: payload_bytes_def split: option.split)
  have k: "spec (?k deadline moved) (\<lambda>_ r _ es. set es \<subseteq> range Sent \<and> (\<exists>left. sent es @ left = payload_bytes frame) \<and> (r \<longrightarrow> sent es = payload_bytes frame)
      \<and> (moved \<noteq> 24 \<longrightarrow> \<not> r \<and> es = []))" for deadline moved
    unfolding size using payload_left [OF assms, of d deadline] none by (auto intro!: spec_return)
  have "spec (State_Monad.bind (send_until kn d (encode_frame_header frame) deadline) (?k deadline)) (\<lambda>_ r _ es. frame_left frame r es)" for deadline
    by (rule spec_bind [OF send_until_spec [OF assms(1)] k]) (auto simp: delivered_def frame_left_def frame_bytes_def l, metis append.assoc)
  then show ?thesis unfolding ksd_frame_write_def if_not_P [OF False]
    by (intro spec_bind [OF socket_deadline_quiet [THEN quiet.steps_spec]]) simp_all
qed

section \<open>A sender and a receiver\<close>

text \<open>One end writes frames until one fails, the other reads frames until one fails.\<close>

primrec write_frames :: "'w kernel \<Rightarrow> int \<Rightarrow> ksd_frame list \<Rightarrow> ('d, 'w, nat) io" where
  "write_frames kn descriptor [] = return 0"
| "write_frames kn descriptor (frame # frames) = do {
     written \<leftarrow> ksd_frame_write kn descriptor frame;
     if \<not> written then return 0
     else do { n \<leftarrow> write_frames kn descriptor frames; return (Suc n) }}"

primrec read_frames :: "'w kernel \<Rightarrow> int \<Rightarrow> bytes \<Rightarrow> u16 \<Rightarrow> u16 \<Rightarrow> u32 \<Rightarrow> bool \<Rightarrow> nat \<Rightarrow> ('d, 'w, ksd_frame list) io" where
  "read_frames kn descriptor magic major minor maximum rules 0 = return []"
| "read_frames kn descriptor magic major minor maximum rules (Suc n) = do {
     answer \<leftarrow> ksd_frame_read kn descriptor magic major minor maximum rules;
     case answer of Inl _ \<Rightarrow> return []
     | Inr frame \<Rightarrow> do { frames \<leftarrow> read_frames kn descriptor magic major minor maximum rules n; return (frame # frames) }}"

lemma write_frames_sent:
  fixes kn :: "'w kernel"
  assumes "lawful kn"
  shows "list_all frame_wf frames \<Longrightarrow> spec (write_frames kn d frames :: ('d, 'w, nat) io)
    (\<lambda>_ n _ es. n \<le> length frames \<and> (\<exists>left. sent es @ left = concat (map frame_bytes frames))
       \<and> (\<exists>part. sent es = concat (map frame_bytes (take n frames)) @ part))"
proof (induction frames)
  case Nil
  then show ?case by (simp add: spec_return)
next
  case (Cons frame frames)
  let ?Q = "\<lambda>_ n _ es. n \<le> length frames \<and> (\<exists>left. sent es @ left = concat (map frame_bytes frames)) \<and> (\<exists>part. sent es = concat (map frame_bytes (take n frames)) @ part)"
  let ?k = "\<lambda>written. (if \<not> written then return 0 else State_Monad.bind (write_frames kn d frames) (\<lambda>n. return (Suc n))) :: ('d, 'w, nat) io"
  have "spec (State_Monad.bind (write_frames kn d frames) (\<lambda>n. return (Suc n)) :: ('d, 'w, nat) io) (\<lambda>d m d' es. \<exists>n. m = Suc n \<and> ?Q d n d' es)"
    by (rule spec_bind [OF Cons.IH spec_return [where P = "\<lambda>d y d' es. y = Suc n \<and> es = []" for n]]) (use Cons.prems in auto)
  then have k: "spec (?k written) (\<lambda>d m d' es. if written then \<exists>n. m = Suc n \<and> ?Q d n d' es else m = 0 \<and> es = [])" for written
    by (cases written) (simp_all add: spec_return)
  show ?case unfolding write_frames.simps
    by (rule spec_bind [OF frame_write_left [OF assms] k]) (use Cons.prems in \<open>auto simp: frame_left_def split: if_splits, (metis append.assoc)+\<close>)
qed

lemma read_frames_received:
  fixes kn :: "'w kernel"
  assumes "lawful kn"
  shows "spec (read_frames kn d magic major minor maximum rules n :: ('d, 'w, ksd_frame list) io)
    (\<lambda>_ frames _ es. length frames \<le> n \<and> list_all frame_wf frames \<and> (\<exists>part. received es = concat (map frame_bytes frames) @ part))"
proof (induction n)
  case 0
  then show ?case by (simp add: spec_return)
next
  case (Suc n)
  let ?Q = "\<lambda>_ frames _ es. length frames \<le> n \<and> list_all frame_wf frames \<and> (\<exists>part. received es = concat (map frame_bytes frames) @ part)"
  let ?k = "\<lambda>answer. (case answer of Inl _ \<Rightarrow> return [] | Inr frame \<Rightarrow>
    State_Monad.bind (read_frames kn d magic major minor maximum rules n) (\<lambda>frames. return (frame # frames))) :: ('d, 'w, ksd_frame list) io"
  have "spec (State_Monad.bind (read_frames kn d magic major minor maximum rules n) (\<lambda>frames. return (frame # frames)) :: ('d, 'w, ksd_frame list) io)
      (\<lambda>d all d' es. \<exists>frames. all = frame # frames \<and> ?Q d frames d' es)" for frame
    by (rule spec_bind [OF Suc.IH spec_return [where P = "\<lambda>d y d' es. y = frame # frames \<and> es = []" for frames]]) auto
  then have k: "spec (?k answer) (\<lambda>d all d' es. case answer of Inl _ \<Rightarrow> all = [] \<and> es = [] | Inr frame \<Rightarrow> \<exists>frames. all = frame # frames \<and> ?Q d frames d' es)" for answer
    by (cases answer) (simp_all add: spec_return)
  show ?case unfolding read_frames.simps
    by (rule spec_bind [OF frame_read_came [OF assms] k]) (auto simp: frame_came_def split: sum.splits)
qed

section \<open>Descriptors that arrive\<close>

definition arrived :: "net_event list \<Rightarrow> int list" where
  "arrived es = concat (map (\<lambda>e. case e of Arrived fds \<Rightarrow> fds | _ \<Rightarrow> []) es)"

definition closed :: "net_event list \<Rightarrow> int list" where
  "closed es = concat (map (\<lambda>e. case e of Closed fd \<Rightarrow> [fd] | _ \<Rightarrow> []) es)"

lemma descriptor_simps [simp]:
  "arrived [] = []" "arrived (Arrived fds # es) = fds @ arrived es" "arrived (es @ fs) = arrived es @ arrived fs" "arrived (Received bs # es) = arrived es"
  "arrived (Closed fd # es) = arrived es" "arrived (map Closed fds) = []"
  "closed [] = []" "closed (Closed fd # es) = fd # closed es" "closed (es @ fs) = closed es @ closed fs" "closed (Received bs # es) = closed es"
  "closed (Arrived fds # es) = closed es" "closed (map Closed fds) = fds"
  by (simp_all add: arrived_def closed_def comp_def)

lemma only_bytes_descriptors: "set es \<subseteq> range Received \<Longrightarrow> arrived es = [] \<and> closed es = []"
  by (induction es) auto

text \<open>Every descriptor that arrived was closed, but for the one that is handed on.\<close>

definition held :: "int \<Rightarrow> int multiset" where
  "held fd = (if fd \<ge> 0 then {#fd#} else {#})"

definition accounted :: "int \<Rightarrow> net_event list \<Rightarrow> bool" where
  "accounted fd es \<longleftrightarrow> mset (arrived es) = mset (closed es) + held fd"

lemma spec_close_all: "spec (close_all fds) (\<lambda>_ _ _ es. es = map Closed fds)"
  unfolding close_all_def by (rule spec_note) simp

lemma spec_close_received: "spec (close_received_fd fd) (\<lambda>_ _ _ es. es = (if fd \<ge> 0 then [Closed fd] else []))"
  by (simp add: close_received_fd_def close_fd_def spec_note spec_return)

lemma accounted_closed: "accounted fd es \<Longrightarrow> accounted (- 1) (es @ (if fd \<ge> 0 then [Closed fd] else []))"
  by (auto simp: accounted_def held_def)

lemma accounted_bytes: "set fs \<subseteq> range Received \<Longrightarrow> accounted fd (es @ fs) = accounted fd es"
  by (simp add: accounted_def only_bytes_descriptors)

text \<open>Closing the descriptors of a message, all of them or all but the first.\<close>

lemma first_and_rest: "fds \<noteq> [] \<Longrightarrow> mset fds = add_mset (hd fds) (mset (tl fds))"
  by (cases fds) simp_all

definition message_came :: "nat \<Rightarrow> (bytes \<times> int) option \<Rightarrow> net_event list \<Rightarrow> bool" where
  "message_came n r es = (case r of None \<Rightarrow> accounted (- 1) es | Some (bs, fd) \<Rightarrow> length bs = n \<and> received es = bs \<and> accounted fd es)"

lemma take_message_spec:
  fixes message :: received_message
  assumes "list_all (\<lambda>fd. fd \<ge> 0) (message_rights (rm_control message))"
  shows "spec (take_message n message :: ('d, 'w, (bytes \<times> int) option) io)
    (\<lambda>_ r _ es. message_came n r ([Received (rm_bytes message), Arrived (message_rights (rm_control message))] @ es))"
proof -
  let ?fds = "message_rights (rm_control message)"
  let ?bad = "length (rm_bytes message) \<noteq> n \<or> rm_truncated message \<or> malformed_control (rm_control message) \<or> length ?fds > 1"
  let ?ok = "Some (rm_bytes message, case ?fds of [] \<Rightarrow> - 1 | fd # _ \<Rightarrow> fd)"
  have f: "filter (\<lambda>fd. fd \<ge> 0) (take 1 ?fds) = take 1 ?fds" using assms by (cases ?fds) simp_all
  have "spec (State_Monad.bind (close_all (take 1 ?fds)) (\<lambda>_. State_Monad.bind (set_errno EPROTO) (\<lambda>_. return None)) :: ('d, 'w, (bytes \<times> int) option) io)
      (\<lambda>_ r _ es. r = None \<and> es = map Closed (take 1 ?fds))"
    by (rule spec_bind [OF spec_close_all spec_errno [where P = "\<lambda>d x d' es. x = None \<and> es = []"]]) auto
  then have k: "spec (if ?bad then State_Monad.bind (close_all (filter (\<lambda>fd. fd \<ge> 0) (take 1 ?fds))) (\<lambda>_. State_Monad.bind (set_errno EPROTO) (\<lambda>_. return None)) else return ?ok :: ('d, 'w, (bytes \<times> int) option) io)
      (\<lambda>_ r _ es. if ?bad then r = None \<and> es = map Closed (take 1 ?fds) else r = ?ok \<and> es = [])"
    unfolding f by (cases ?bad) (simp_all only: if_P if_not_P, simp_all add: spec_return)
  show ?thesis unfolding take_message_def Let_def
    by (rule spec_bind [OF spec_close_all k]) (use assms in \<open>cases ?fds; auto simp: message_came_def accounted_def held_def split: if_splits\<close>)
qed

lemma nothing_came: "message_came n None []"
  by (simp add: message_came_def accounted_def held_def)

lemma receive_optional_spec:
  fixes kn :: "'w kernel"
  assumes "lawful_messages kn"
  shows "spec (ksd_receive_optional_fd kn d n :: ('d, 'w, (bytes \<times> int) option) io) (\<lambda>_ r _ es. message_came n r es)"
proof (cases "d < 0 \<or> n = 0")
  case True
  then show ?thesis by (simp add: ksd_receive_optional_fd_def spec_errno nothing_came)
next
  case False
  let ?e = "\<lambda>m. [Received (rm_bytes m), Arrived (message_rights (rm_control m))]"
  have "fst (kn_recvmsg kn d n w) = Inr m \<Longrightarrow> list_all (\<lambda>fd. fd \<ge> 0) (message_rights (rm_control m))" for w m
    using assms by (auto simp: lawful_messages_def)
  then have c: "spec (system_call (kn_recvmsg kn d n) ?e :: ('d, 'w, received_message option) io)
      (\<lambda>d x d' es. case x of None \<Rightarrow> es = [] | Some m \<Rightarrow> list_all (\<lambda>fd. fd \<ge> 0) (message_rights (rm_control m)) \<and> es = ?e m)"
    by (rule system_call_spec)
  show ?thesis unfolding ksd_receive_optional_fd_def if_not_P [OF False]
  proof (rule spec_bind_if [OF c])
    fix x :: "received_message option" and es
    assume "case x of None \<Rightarrow> es = [] | Some m \<Rightarrow> list_all (\<lambda>fd. fd \<ge> 0) (message_rights (rm_control m)) \<and> es = ?e m"
    then show "spec ((case x of None \<Rightarrow> State_Monad.bind (set_errno EPROTO) (\<lambda>_. return None) | Some message \<Rightarrow> take_message n message) :: ('d, 'w, (bytes \<times> int) option) io)
        (\<lambda>_ r _ es. message_came n r ((case x of None \<Rightarrow> [] | Some m \<Rightarrow> ?e m) @ es))"
      using take_message_spec [of "the x" n] by (cases x) (simp_all add: spec_errno nothing_came)
  qed (auto split: option.splits)
qed

definition frame_fd_came :: "(ksd_frame \<times> int) option \<Rightarrow> net_event list \<Rightarrow> bool" where
  "frame_fd_came r es = (case r of None \<Rightarrow> accounted (- 1) es | Some (frame, fd) \<Rightarrow> frame_wf frame \<and> received es = frame_bytes frame \<and> accounted fd es)"

lemma spec_drop:
  "(\<And>d d'. P d None d' (if fd \<ge> 0 then [Closed fd] else [])) \<Longrightarrow> spec (State_Monad.bind (close_received_fd fd) (\<lambda>_. return None)) P"
  by (rule spec_bind [OF spec_close_received spec_return [where P = "\<lambda>d x d' es. x = None \<and> es = []"]]) auto

lemma spec_refuse:
  "(\<And>d d'. P d None d' (if fd \<ge> 0 then [Closed fd] else [])) \<Longrightarrow> spec (State_Monad.bind (close_received_fd fd) (\<lambda>_. State_Monad.bind (set_errno e) (\<lambda>_. return None))) P"
  by (rule spec_bind [OF spec_close_received spec_errno [where P = "\<lambda>d x d' es. x = None \<and> es = []"]]) auto

lemma payload_fd_came:
  fixes kn :: "'w kernel"
  assumes "lawful kn" "length h = 24" "n = unat (fr_payload_length (decode_frame_header h))" "n \<noteq> 0"
    and "received es = h" "accounted fd es"
  shows "spec (State_Monad.bind (receive_until kn d n deadline) (\<lambda>(moved, payload). if moved \<noteq> int n then State_Monad.bind (close_received_fd fd) (\<lambda>_. return None)
      else return (Some (decode_frame_header h\<lparr>fr_payload := Some payload\<rparr>, fd))) :: ('d, 'w, (ksd_frame \<times> int) option) io)
    (\<lambda>_ r _ fs. frame_fd_came r (es @ fs))"
proof (rule spec_bind [OF receive_until_spec [OF assms(1)]])
  let ?c = "if fd \<ge> 0 then [Closed fd] else []"
  show "spec ((case x of (moved, payload) \<Rightarrow> if moved \<noteq> int n then State_Monad.bind (close_received_fd fd) (\<lambda>_. return None)
      else return (Some (decode_frame_header h\<lparr>fr_payload := Some payload\<rparr>, fd))) :: ('d, 'w, (ksd_frame \<times> int) option) io)
      (\<lambda>_ r _ fs. if fst x \<noteq> int n then r = None \<and> fs = ?c else r = Some (decode_frame_header h\<lparr>fr_payload := Some (snd x)\<rparr>, fd) \<and> fs = [])" for x
    by (cases x) (auto intro!: spec_return spec_drop)
  fix x and r :: "(ksd_frame \<times> int) option" and bs fs :: "net_event list"
  assume g: "gathered n [] x bs" and r: "if fst x \<noteq> int n then r = None \<and> fs = ?c else r = Some (decode_frame_header h\<lparr>fr_payload := Some (snd x)\<rparr>, fd) \<and> fs = []"
  have b: "accounted fd (es @ bs)" using g assms(6) by (simp add: gathered_def accounted_bytes)
  show "frame_fd_came r (es @ bs @ fs)"
  proof (cases "fst x = int n")
    case True
    with g assms(4) have "snd x = received bs" "length (snd x) = n" "snd x \<noteq> []" by (auto simp: gathered_def)
    with True r b assms(5) decoded_payload [OF assms(2), of "snd x"] assms(3) show ?thesis by (simp add: frame_fd_came_def)
  qed (use r accounted_closed [OF b] in \<open>simp add: frame_fd_came_def\<close>)
qed

lemma take_frame_fd_came:
  fixes kn :: "'w kernel"
  assumes "lawful kn" "length h = 24" "received es = h" "accounted fd es"
  shows "spec (take_frame_fd kn d magic major minor maximum rules h fd :: ('d, 'w, (ksd_frame \<times> int) option) io) (\<lambda>_ r _ fs. frame_fd_came r (es @ fs))"
proof -
  let ?n = "unat (fr_payload_length (decode_frame_header h))"
  let ?P = "\<lambda>_ r _ fs. frame_fd_came r (es @ fs)"
  have drop: "frame_fd_came None (es @ (if fd \<ge> 0 then [Closed fd] else []))" using accounted_closed [OF assms(4)] by (simp add: frame_fd_came_def)
  have memory: "spec (State_Monad.bind (set_errno ENOMEM) (\<lambda>_. State_Monad.bind (close_received_fd fd) (\<lambda>_. return None)) :: ('d, 'w, (ksd_frame \<times> int) option) io) ?P"
    by (rule spec_bind [OF set_errno_quiet [THEN quiet.steps_spec] spec_drop [where P = "\<lambda>d r d' fs. r = None \<and> fs = (if fd \<ge> 0 then [Closed fd] else [])"]]) (use drop in simp_all)
  have "spec (State_Monad.bind (socket_deadline kn d False) (\<lambda>deadline. if \<not> kn_alloc kn ?n then State_Monad.bind (set_errno ENOMEM) (\<lambda>_. State_Monad.bind (close_received_fd fd) (\<lambda>_. return None))
      else State_Monad.bind (receive_until kn d ?n deadline) (\<lambda>(moved, payload). if moved \<noteq> int ?n then State_Monad.bind (close_received_fd fd) (\<lambda>_. return None)
        else return (Some (decode_frame_header h\<lparr>fr_payload := Some payload\<rparr>, fd)))) :: ('d, 'w, (ksd_frame \<times> int) option) io) ?P" if "?n \<noteq> 0"
    by (rule spec_bind [OF socket_deadline_quiet [THEN quiet.steps_spec], where R = "\<lambda>_. ?P"])
      (use memory payload_fd_came [OF assms(1,2) refl that assms(3,4)] in \<open>auto split: if_split\<close>)
  with drop decoded_empty [OF assms(2)] assms show ?thesis unfolding take_frame_fd_def Let_def
    by (auto intro!: spec_refuse spec_return simp: frame_fd_came_def unat_eq_0)
qed

lemma frame_read_fd_came:
  fixes kn :: "'w kernel"
  assumes "lawful kn" "lawful_messages kn"
  shows "spec (ksd_frame_read_fd kn d magic major minor maximum rules :: ('d, 'w, (ksd_frame \<times> int) option) io) (\<lambda>_ r _ es. frame_fd_came r es)"
proof (cases "d < 0")
  case True
  then show ?thesis by (simp add: ksd_frame_read_fd_def spec_errno frame_fd_came_def accounted_def held_def)
next
  case False
  have size: "KSD_FRAME_HEADER_SIZE = 24" by (simp add: wire_defs)
  show ?thesis unfolding ksd_frame_read_fd_def if_not_P [OF False] size
  proof (rule specI, unfold wp_bind, rule spec_wp [OF receive_optional_spec [OF assms(2)]])
    fix s :: "('d thread_scheme, 'w, net_event) run" and x e w es
    assume m: "message_came 24 x es"
    show "wp (case x of None \<Rightarrow> return None | Some (header, received_fd) \<Rightarrow> take_frame_fd kn d magic major minor maximum rules header received_fd)
        (\<lambda>r t. \<exists>fs. rn_log t = rn_log s @ fs \<and> frame_fd_came r fs) (s\<lparr>rn_data := e, rn_world := w, rn_log := rn_log s @ es\<rparr>)"
    proof (cases x)
      case None
      with m show ?thesis by (simp add: wp_simps message_came_def frame_fd_came_def)
    next
      case (Some y)
      obtain h fd where y: "y = (h, fd)" by force
      with Some m have h: "length h = 24" "received es = h" "accounted fd es" by (simp_all add: message_came_def)
      show ?thesis unfolding Some y option.case prod.case by (rule spec_wp [OF take_frame_fd_came [OF assms(1) h]]) simp
    qed
  qed
qed

text \<open>Several messages: \<open>kept\<close> are the descriptors taken so far, one at most.\<close>

definition messages_came :: "nat \<Rightarrow> bytes \<Rightarrow> int list \<Rightarrow> (bytes \<times> int) option \<Rightarrow> net_event list \<Rightarrow> bool" where
  "messages_came n got kept r es = (case r of None \<Rightarrow> mset kept + mset (arrived es) = mset (closed es)
     | Some (bs, fd) \<Rightarrow> length bs = n \<and> bs = got @ received es \<and> mset kept + mset (arrived es) = mset (closed es) + held fd)"

abbreviation one_open :: "int list \<Rightarrow> bool" where
  "one_open kept \<equiv> length kept \<le> 1 \<and> list_all (\<lambda>fd. fd \<ge> 0) kept"

lemma spec_give_up:
  assumes "one_open kept"
  shows "spec (State_Monad.bind (close_all (filter (\<lambda>fd. fd \<ge> 0) kept)) (\<lambda>_. return None)) (\<lambda>_ r _ es. r = None \<and> es = map Closed kept)"
proof -
  have "filter (\<lambda>fd. fd \<ge> 0) kept = kept" using assms by (simp add: filter_id_conv list_all_iff)
  then show ?thesis by (simp only:) (rule spec_bind [OF spec_close_all spec_return [where P = "\<lambda>d x d' es. x = None \<and> es = []"]], auto)
qed

lemma kept_handed: "one_open kept \<Longrightarrow> length got = n \<Longrightarrow> messages_came n got kept (Some (got, case kept of [] \<Rightarrow> - 1 | fd # _ \<Rightarrow> fd)) []"
  by (cases kept) (auto simp: messages_came_def held_def)

lemma spec_hand_on: "one_open kept \<Longrightarrow> length got = n \<Longrightarrow>
    spec (return (Some (got, case kept of [] \<Rightarrow> - 1 | fd # _ \<Rightarrow> fd))) (\<lambda>_ r _ es. messages_came n got kept r es)"
  by (rule spec_return, rule kept_handed)


lemma spec_refuse_all:
  assumes "one_open kept"
  shows "spec (State_Monad.bind (set_errno e) (\<lambda>_. State_Monad.bind (close_all (filter (\<lambda>fd. fd \<ge> 0) kept)) (\<lambda>_. return None))) (\<lambda>_ r _ es. r = None \<and> es = map Closed kept)"
  by (rule spec_bind [OF set_errno_quiet [THEN quiet.steps_spec] spec_give_up [OF assms]]) simp

lemma take_part_spec:
  fixes go_on :: "int list \<Rightarrow> ('d, 'w, (bytes \<times> int) option) io"
  assumes kept: "one_open kept" and fds: "list_all (\<lambda>fd. fd \<ge> 0) (message_rights (rm_control message))" "rm_bytes message = [] \<longrightarrow> message_rights (rm_control message) = []"
    and go: "\<And>kept'. one_open kept' \<Longrightarrow> rm_bytes message \<noteq> [] \<Longrightarrow> spec (go_on kept') (\<lambda>_ r _ es. messages_came n (got @ rm_bytes message) kept' r es)"
  shows "spec (take_part kept message go_on) (\<lambda>_ r _ es. messages_came n got kept r ([Received (rm_bytes message), Arrived (message_rights (rm_control message))] @ es))"
proof -
  let ?fds = "message_rights (rm_control message)"
  let ?all = "kept @ ?fds"
  let ?bad = "rm_bytes message = [] \<or> rm_truncated message \<or> malformed_control (rm_control message) \<or> length ?all > 1"
  have same: "(if rm_bytes message = [] then [] else ?fds) = ?fds" using fds(2) by simp
  have one: "one_open (take 1 ?all)" using kept fds(1) by (auto simp: list_all_iff dest: in_set_takeD)
  have "one_open ?all \<and> rm_bytes message \<noteq> []" if "\<not> ?bad" using that kept fds(1) by auto
  with go spec_refuse_all [OF one, of EPROTO] have k: "spec (if ?bad then State_Monad.bind (set_errno EPROTO) (\<lambda>_. State_Monad.bind (close_all (filter (\<lambda>fd. fd \<ge> 0) (take 1 ?all))) (\<lambda>_. return None)) else go_on ?all)
      (\<lambda>_ r _ es. if ?bad then r = None \<and> es = map Closed (take 1 ?all) else messages_came n (got @ rm_bytes message) ?all r es)"
    by (cases ?bad) (simp_all only: if_P if_not_P simp_thms)
  have shut: "mset (if kept = [] then tl ?fds else ?fds) + mset (take 1 ?all) = mset ?all" using kept by (cases kept; cases ?fds) (auto simp: Suc_le_eq)
  have none: "(if kept = [] then tl ?fds else ?fds) = []" if "\<not> ?bad" using that by (cases kept; cases ?fds) auto
  show ?thesis unfolding take_part_def Let_def same
  proof (rule spec_bind [OF spec_close_all k])
    fix r es fs
    assume es: "es = map Closed (if kept = [] then tl ?fds else ?fds)"
      and r: "if ?bad then r = None \<and> fs = map Closed (take 1 ?all) else messages_came n (got @ rm_bytes message) ?all r fs"
    show "messages_came n got kept r ([Received (rm_bytes message), Arrived ?fds] @ es @ fs)"
    proof (cases ?bad)
      case True
      with r shut show ?thesis unfolding es by (simp add: messages_came_def ac_simps)
    next
      case False
      with r none [OF False] show ?thesis unfolding es by (auto simp: messages_came_def ac_simps split: option.splits)
    qed
  qed
qed

lemma receive_messages_spec:
  fixes kn :: "'w kernel"
  assumes "lawful_messages kn"
  shows "length got \<le> n \<Longrightarrow> n \<le> length got + passes \<Longrightarrow> one_open kept \<Longrightarrow>
    spec (receive_messages kn d deadline n got kept passes :: ('d, 'w, (bytes \<times> int) option) io) (\<lambda>_ r _ es. messages_came n got kept r es)"
proof (induction passes arbitrary: got kept)
  case 0
  from spec_hand_on [OF 0(3)] 0(1,2) show ?case by simp
next
  case (Suc passes)
  let ?law = "\<lambda>m. length (rm_bytes m) \<le> n - length got \<and> list_all (\<lambda>fd. fd \<ge> 0) (message_rights (rm_control m)) \<and> (rm_bytes m = [] \<longrightarrow> message_rights (rm_control m) = [])"
  let ?e = "\<lambda>m. [Received (rm_bytes m), Arrived (message_rights (rm_control m))]"
  let ?P = "\<lambda>pass es. case pass of Some (Some m) \<Rightarrow> ?law m \<and> es = ?e m | _ \<Rightarrow> es = []"
  let ?f = "\<lambda>pass. (case pass of None \<Rightarrow> State_Monad.bind (close_all (filter (\<lambda>fd. fd \<ge> 0) kept)) (\<lambda>_. return None)
    | Some None \<Rightarrow> State_Monad.bind (set_errno EPROTO) (\<lambda>_. State_Monad.bind (close_all (filter (\<lambda>fd. fd \<ge> 0) kept)) (\<lambda>_. return None))
    | Some (Some message) \<Rightarrow> take_part kept message (\<lambda>kept. receive_messages kn d deadline n (got @ rm_bytes message) kept passes)) :: ('d, 'w, (bytes \<times> int) option) io"
  show ?case
  proof (cases "length got \<ge> n")
    case True
    from spec_hand_on [OF Suc.prems(3)] True Suc.prems(1) show ?thesis by simp
  next
    case False
    have law: "fst (kn_recvmsg kn d (n - length got) w) = Inr m \<Longrightarrow> ?law m" for w m using assms unfolding lawful_messages_def by metis
    have p: "spec (transfer_pass kn d False deadline (system_call (kn_recvmsg kn d (n - length got)) ?e) k :: ('d, 'w, received_message option option) io) (\<lambda>_ x _ es. ?P x es)" for k
      by (rule pass_call_spec) (rule law)
    have stop: "messages_came n got kept None (map Closed kept)" by (simp add: messages_came_def)
    have c: "spec (?f pass) (\<lambda>_ r _ fs. messages_came n got kept r (es @ fs))" if P: "?P pass es" for pass es
    proof -
      have "spec (take_part kept m (\<lambda>kept. receive_messages kn d deadline n (got @ rm_bytes m) kept passes) :: ('d, 'w, (bytes \<times> int) option) io) (\<lambda>_ r _ fs. messages_came n got kept r (?e m @ fs))"
        if "?law m" for m
      proof (rule take_part_spec [OF Suc.prems(3)])
        show "one_open kept' \<Longrightarrow> rm_bytes m \<noteq> [] \<Longrightarrow> spec (receive_messages kn d deadline n (got @ rm_bytes m) kept' passes :: ('d, 'w, (bytes \<times> int) option) io)
            (\<lambda>_ r _ es. messages_came n (got @ rm_bytes m) kept' r es)" for kept'
          by (rule Suc.IH) (use that False Suc.prems(2) in \<open>cases "rm_bytes m"; auto\<close>)+
      qed (use that in auto)
      moreover have "pass = None \<or> pass = Some None \<or> (\<exists>m. pass = Some (Some m))" by (cases pass) auto
      moreover have "spec (State_Monad.bind (close_all (filter (\<lambda>fd. fd \<ge> 0) kept)) (\<lambda>_. return None) :: ('d, 'w, (bytes \<times> int) option) io) (\<lambda>_ r _ fs. messages_came n got kept r fs)"
        by (rule spec_weaken [OF spec_give_up [OF Suc.prems(3)]]) (simp add: stop)
      moreover have "spec (State_Monad.bind (set_errno EPROTO) (\<lambda>_. State_Monad.bind (close_all (filter (\<lambda>fd. fd \<ge> 0) kept)) (\<lambda>_. return None)) :: ('d, 'w, (bytes \<times> int) option) io) (\<lambda>_ r _ fs. messages_came n got kept r fs)"
        by (rule spec_weaken [OF spec_refuse_all [OF Suc.prems(3)]]) (simp add: stop)
      ultimately show ?thesis using P by auto
    qed
    have "spec (State_Monad.bind (transfer_pass kn d False deadline (system_call (kn_recvmsg kn d (n - length got)) ?e) k) ?f)
        (\<lambda>_ r _ es. messages_came n got kept r es)" for k
      by (rule spec_then [OF p], rule spec_weaken, erule c, simp)
    then show ?thesis unfolding receive_messages.simps if_not_P [OF False] by (intro spec_bind [OF spec_call [where P = "\<lambda>d x d' es. es = []"]]) simp_all
  qed
qed

lemma receive_fd_until_spec:
  fixes kn :: "'w kernel"
  assumes "lawful_messages kn"
  shows "spec (ksd_receive_fd_until kn d n deadline :: ('d, 'w, (bytes \<times> int) option) io) (\<lambda>_ r _ es. message_came n r es)"
proof -
  have "messages_came n [] [] r es = message_came n r es" for r es
    by (auto simp: messages_came_def message_came_def accounted_def held_def split: option.splits)
  with receive_messages_spec [OF assms, of "[]" n n "[]" d deadline] show ?thesis
    by (auto simp: ksd_receive_fd_until_def intro!: spec_errno nothing_came)
qed

section \<open>Properties\<close>

text \<open>
  A kernel whose world is the bytes on their way: it sends sixteen bytes at a time and receives
  twenty, is interrupted once before each call, and passes descriptor 8 with a message.
\<close>

definition sample_kernel :: "bytes kernel" where
  "sample_kernel =
     \<lparr>kn_alloc = (\<lambda>n. n \<le> 4096), kn_clock = (\<lambda>w. (Some (5, 0), w)), kn_interruptions = (\<lambda>w. (1, w)), kn_retries = (\<lambda>w. ([EAGAIN], w)),
      kn_poll = (\<lambda>d writing timeout w. (Poll_Ready False True, w)),
      kn_send = (\<lambda>d bs w. (Inr (min 16 (length bs)), w @ take 16 bs)),
      kn_recv = (\<lambda>d n w. (Inr (take (min 20 n) w), drop (min 20 n) w)),
      kn_write = (\<lambda>d bs w. (Inr (length bs), w @ bs)), kn_read = (\<lambda>d n w. (Inr (take n w), drop n w)),
      kn_sendmsg = (\<lambda>d bs fd w. (Inr (length bs), w @ bs)),
      kn_recvmsg = (\<lambda>d n w. (Inr \<lparr>rm_bytes = take n w, rm_truncated = False, rm_control = (if take n w = [] then [] else [Rights [8]])\<rparr>, drop n w)),
      kn_mkdir = (\<lambda>path w. (False, w)), kn_directory = (\<lambda>path w. (True, w)),
      kn_timeout = (\<lambda>d writing w. (Some (1, 500), w))\<rparr>"

lemma sample_lawful: "lawful sample_kernel" "lawful_messages sample_kernel"
  by (auto simp: lawful_def lawful_messages_def sample_kernel_def message_rights_def)

definition sample_frame :: ksd_frame where
  "sample_frame = \<lparr>fr_magic = [1, 2, 3, 4], fr_major = 3, fr_minor = 0, fr_opcode = 7, fr_flags = 0, fr_payload_length = 3, fr_request_id = 9, fr_payload = Some [10, 11, 12]\<rparr>"

definition sample_run :: "bytes \<Rightarrow> (thread, bytes, net_event) run" where
  "sample_run bs = \<lparr>rn_data = \<lparr>th_errno = 0\<rparr>, rn_world = bs, rn_log = []\<rparr>"

lemma sample_fields:
  "kn_retries sample_kernel w = ([EAGAIN], w)" "kn_send sample_kernel d bs = (\<lambda>w. (Inr (min 16 (length bs)), w @ take 16 bs))"
  "kn_recv sample_kernel d n = (\<lambda>w. (Inr (take (min 20 n) w), drop (min 20 n) w))" "kn_alloc sample_kernel n = (n \<le> 4096)"
  "kn_recvmsg sample_kernel d n = (\<lambda>w. (Inr \<lparr>rm_bytes = take n w, rm_truncated = False, rm_control = (if take n w = [] then [] else [Rights [8]])\<rparr>, drop n w))"
  by (simp_all add: sample_kernel_def)

lemma sample_calls:
  "run_state (ksd_monotonic_milliseconds sample_kernel) s = (5000, s)"
  "run_state (ksd_wait_until sample_kernel d writing 6001) s = (True, s\<lparr>rn_data := rn_data s\<lparr>th_errno := EINTR\<rparr>\<rparr>)"
  "run_state (socket_deadline sample_kernel d writing) s = (6001, s)"
  by (simp_all add: ksd_wait_until_def socket_deadline_def sample_kernel_def run_simps set_errno_def poll_timeout_def ksd_monotonic_milliseconds_def UINT64_MAX_def Let_def)

lemma sample_receive:
  "passes > 0 \<Longrightarrow> run_state (receive_passes sample_kernel d 6001 n got passes) s =
    (if length got \<ge> n then ((int (length got), got), s)
     else let bs = take (min 20 (n - length got)) (rn_world s); t = s\<lparr>rn_data := rn_data s\<lparr>th_errno := EINTR\<rparr>, rn_world := drop (min 20 (n - length got)) (rn_world s), rn_log := rn_log s @ [Received bs]\<rparr> in
       if bs = [] then ((if got = [] then 0 else - 1, got), t) else run_state (receive_passes sample_kernel d 6001 n (got @ bs) (passes - 1)) t)"
  by (cases passes) (simp_all add: run_simps sample_fields sample_calls set_errno_def system_call_def Let_def min_def)

lemma sample_send:
  "passes > 0 \<Longrightarrow> run_state (send_passes sample_kernel d 6001 bs offset passes) s =
    (if offset \<ge> length bs then (int offset, s)
     else let k = min 16 (length bs - offset); t = s\<lparr>rn_data := rn_data s\<lparr>th_errno := EINTR\<rparr>, rn_world := rn_world s @ take 16 (drop offset bs), rn_log := rn_log s @ [Sent (take k (drop offset bs))]\<rparr> in
       run_state (send_passes sample_kernel d 6001 bs (offset + k) (passes - 1)) t)"
  by (cases passes) (simp_all add: run_simps sample_fields sample_calls set_errno_def system_call_def Let_def min_def)

lemma sample_bytes: "encode_frame_header sample_frame = [1, 2, 3, 4, 3, 0, 0, 0, 7, 0, 0, 0, 3, 0, 0, 0, 9, 0, 0, 0, 0, 0, 0, 0]" "payload_bytes sample_frame = [10, 11, 12]"
    "fr_payload sample_frame = Some [10, 11, 12]" "fr_payload_length sample_frame = 3" "frame_wf sample_frame"
  by code_simp+

lemma sample_header: "decode_frame_header [1, 2, 3, 4, 3, 0, 0, 0, 7, 0, 0, 0, 3, 0, 0, 0, 9, 0, 0, 0, 0, 0, 0, 0] = sample_frame\<lparr>fr_payload := None\<rparr>"
  by code_simp

lemma sample_frame_again: "sample_frame\<lparr>fr_payload := Some [10, 11, 12]\<rparr> = sample_frame"
  by (simp add: sample_frame_def)

definition sample_sends :: "net_event list" where
  "sample_sends = [Sent [1, 2, 3, 4, 3, 0, 0, 0, 7, 0, 0, 0, 3, 0, 0, 0], Sent [9, 0, 0, 0, 0, 0, 0, 0], Sent [10, 11, 12]]"

lemma sample_written: "run_state (ksd_frame_write sample_kernel 3 sample_frame) s =
    (True, s\<lparr>rn_data := rn_data s\<lparr>th_errno := EINTR\<rparr>, rn_world := rn_world s @ frame_bytes sample_frame, rn_log := rn_log s @ sample_sends\<rparr>)"
  by (simp add: ksd_frame_write_def send_until_def sample_calls sample_send sample_bytes frame_bytes_def Let_def wire_defs sample_sends_def del: send_passes.simps)

lemma sample_came: "rn_world s = frame_bytes sample_frame @ rest \<Longrightarrow> run_state (ksd_frame_read sample_kernel 4 [1, 2, 3, 4] 3 0 64 False) s =
    (Inr sample_frame, s\<lparr>rn_data := rn_data s\<lparr>th_errno := EINTR\<rparr>, rn_world := rest,
       rn_log := rn_log s @ [Received [1, 2, 3, 4, 3, 0, 0, 0, 7, 0, 0, 0, 3, 0, 0, 0, 9, 0, 0, 0], Received [0, 0, 0, 0], Received [10, 11, 12]]\<rparr>)"
  by (simp add: ksd_frame_read_def receive_until_def sample_calls sample_receive sample_bytes frame_bytes_def Let_def wire_defs sample_header sample_fields
      frame_header_acceptable_def sample_frame_again del: receive_passes.simps) (simp add: sample_frame_def)

text \<open>
  C31: What one end writes is what the other end reads. One end writes frames until a write
  fails, the other reads frames until a read fails; the kernels at the two ends transfer any
  number of bytes at a time, interrupt, delay and fail as they like. If the stream keeps the
  order of the bytes, so that the bytes received are a prefix of the bytes sent, then the
  frames read are a prefix of the frames given to the writer, each of them unchanged.
\<close>

theorem frames_cross_stream:
  fixes kn :: "'w kernel" and kr :: "'v kernel" and s s' :: "('d thread_scheme, 'w, net_event) run" and r r' :: "('c thread_scheme, 'v, net_event) run"
  assumes "lawful kn" "lawful kr" "list_all frame_wf frames"
    and "run_state (write_frames kn d frames) s = (written, s')" "rn_log s' = rn_log s @ es"
    and "run_state (read_frames kr e magic major minor maximum rules n) r = (got, r')" "rn_log r' = rn_log r @ fs"
    and "prefix (received fs) (sent es)"
  shows "prefix got frames"
proof -
  obtain left where left: "sent es @ left = concat (map frame_bytes frames)"
    using spec_run [OF write_frames_sent [OF assms(1,3)] assms(4)] assms(5) by auto
  obtain part where got: "list_all frame_wf got" "received fs = concat (map frame_bytes got) @ part"
    using spec_run [OF read_frames_received [OF assms(2)] assms(6)] assms(7) by auto
  from assms(8) obtain rest where "sent es = received fs @ rest" by (auto simp: prefix_def)
  with left got(2) have "concat (map frame_bytes got) @ (part @ rest @ left) = concat (map frame_bytes frames) @ []" by simp
  from frames_prefix_exact [OF got(1) assms(3) this] show ?thesis by (simp add: prefix_def)
qed

theorem frames_cross_stream_witness:
  "\<exists>got r'. run_state (read_frames sample_kernel 4 [1, 2, 3, 4] 3 0 64 False 1) (sample_run (frame_bytes sample_frame @ frame_bytes sample_frame)) = (got, r')
     \<and> prefix got [sample_frame, sample_frame] \<and> got \<noteq> []"
proof -
  obtain s' where w: "run_state (write_frames sample_kernel 3 [sample_frame, sample_frame]) (sample_run []) = (2, s')" "rn_log s' = rn_log (sample_run []) @ sample_sends @ sample_sends"
    by (simp add: sample_written sample_run_def)
  obtain r' where r: "run_state (read_frames sample_kernel 4 [1, 2, 3, 4] 3 0 64 False 1) (sample_run (frame_bytes sample_frame @ frame_bytes sample_frame)) = ([sample_frame], r')"
      "rn_log r' = rn_log (sample_run (frame_bytes sample_frame @ frame_bytes sample_frame)) @ [Received [1, 2, 3, 4, 3, 0, 0, 0, 7, 0, 0, 0, 3, 0, 0, 0, 9, 0, 0, 0], Received [0, 0, 0, 0], Received [10, 11, 12]]"
    using sample_came [of "sample_run (frame_bytes sample_frame @ frame_bytes sample_frame)"] by (simp add: sample_run_def)
  have "prefix (received [Received [1, 2, 3, 4, 3, 0, 0, 0, 7, 0, 0, 0, 3, 0, 0, 0, 9, 0, 0, 0], Received [0, 0, 0, 0], Received [10, 11, 12]]) (sent (sample_sends @ sample_sends))"
    by (simp add: sample_sends_def)
  from frames_cross_stream [OF sample_lawful(1) sample_lawful(1) _ w r this] r(1) sample_bytes(5) show ?thesis by simp
qed

text \<open>
  C32: No descriptor that arrives over a socket is lost. Whatever control messages come with
  a frame, and however reading it ends, each descriptor is closed exactly once or is the one
  handed to the caller; a caller that gets no frame gets no descriptor.
\<close>

theorem received_descriptors_accounted:
  fixes kn :: "'w kernel" and s t :: "('d thread_scheme, 'w, net_event) run"
  assumes "lawful kn" "lawful_messages kn"
    and "run_state (ksd_frame_read_fd kn d magic major minor maximum rules) s = (answer, t)"
  shows "\<exists>es. rn_log t = rn_log s @ es \<and> mset (arrived es) = mset (closed es) + (case answer of None \<Rightarrow> {#} | Some (_, fd) \<Rightarrow> held fd)"
  using spec_run [OF frame_read_fd_came [OF assms(1,2)] assms(3)]
  by (auto simp: frame_fd_came_def accounted_def held_def split: option.splits)

theorem received_descriptors_accounted_witness:
  "\<exists>es t. run_state (ksd_frame_read_fd sample_kernel 4 [1, 2, 3, 4] 3 0 64 False) (sample_run (frame_bytes sample_frame)) = (Some (sample_frame, 8), t)
     \<and> rn_log t = es \<and> mset (arrived es) = mset (closed es) + held 8"
proof -
  let ?r = "run_state (ksd_frame_read_fd sample_kernel 4 [1, 2, 3, 4] 3 0 64 False) (sample_run (frame_bytes sample_frame))"
  have "fst ?r = Some (sample_frame, 8)"
    by (simp add: ksd_frame_read_fd_def ksd_receive_optional_fd_def take_message_def take_frame_fd_def close_all_def system_call_def run_simps sample_run_def message_rights_def
        malformed_control_def receive_until_def sample_calls sample_receive sample_bytes frame_bytes_def Let_def wire_defs sample_header sample_fields
        frame_header_acceptable_def sample_frame_again del: receive_passes.simps) (simp add: sample_frame_def)
  then have b: "?r = (Some (sample_frame, 8), snd ?r)" by (metis prod.collapse)
  from received_descriptors_accounted [OF sample_lawful b] b show ?thesis by (auto simp: sample_run_def)
qed

text \<open>
  A transfer ends after as many passes as there are bytes. The loops of
  \<^verbatim>\<open>ksd_transfer_until\<close> are given one pass for each byte wanted, and with any larger number
  of passes they do exactly the same: each pass that does not end the transfer moves a byte.
\<close>

theorem transfers_end:
  fixes kn :: "'w kernel"
  shows "receive_passes kn d deadline n [] (n + k) = (receive_passes kn d deadline n [] n :: ('d, 'w, int \<times> bytes) io)
     \<and> send_passes kn d deadline bs 0 (length bs + k) = (send_passes kn d deadline bs 0 (length bs) :: ('d, 'w, int) io)"
  by (simp add: receive_passes_more send_passes_more)

end
