(* ===== verification/Client.thy ===== *)
theory Client
  imports Transport Responses State_Wire
begin

text \<open>
  The connection of the client library (src/src/client.c): its error structure, the queue of
  events that come while a response is awaited, the poll descriptor that tells the user of
  them, and the exchange of a request and its response. The connection extends the
  thread's record. The calls to the kernel that only the client makes are a second record of
  functions of the world.

  The loops that go on as long as the service sends events have no bound in the code; they
  take \<open>ho_patience\<close> rounds here and answer \<open>None\<close> when those are used up.
\<close>

section \<open>The connection\<close>

definition KSD_CLIENT_PATH_CAPACITY :: nat where
  "KSD_CLIENT_PATH_CAPACITY = 4096"

definition KSD_CLIENT_MAX_RESPONSE :: nat where
  [wire_defs]: "KSD_CLIENT_MAX_RESPONSE = KSD_MAX_CAPTURE_BYTES + 64"

definition KSD_CLIENT_MAX_EVENTS :: nat where
  "KSD_CLIENT_MAX_EVENTS = 256"

definition KSD_CLIENT_MAX_EVENT_BYTES :: nat where
  "KSD_CLIENT_MAX_EVENT_BYTES = 16 * 1024 * 1024"

definition KSD_DEFAULT_SOCKET_PATH :: bytes where
  "KSD_DEFAULT_SOCKET_PATH = ascii ''/run/keysharp-desktop/keysharp-desktop.sock''"

definition ENAMETOOLONG :: int where
  "ENAMETOOLONG = 36"

record ksd_error =
  er_struct_size :: u32
  er_detail :: u32
  er_system_error :: int
  er_message :: bytes

definition ksd_error_size :: u32 where
  "ksd_error_size = 304"

text \<open>
  \<open>cn_error\<close> is the error structure of the running call and \<open>cn_present\<close> says that the
  caller's pointer to the connection is not NULL. \<open>cn_signalled\<close> is whether the counter behind
  \<open>pending_descriptor\<close> is above zero.
\<close>

record ksd_connection = thread +
  cn_error :: "ksd_error option"
  cn_present :: bool
  cn_descriptor :: int
  cn_next_request_id :: u64
  cn_role :: u32
  cn_granted_scopes :: u32
  cn_available_operations :: u64
  cn_backend :: u32
  cn_timeout_ms :: u32
  cn_request_deadline_ms :: u64
  cn_poll_descriptor :: int
  cn_pending_descriptor :: int
  cn_lease_id :: u64
  cn_sequence :: u64
  cn_input :: ksd_buffer
  cn_events :: "ksd_frame list"
  cn_queued_bytes :: nat
  cn_queued_count :: nat
  cn_signalled :: bool

record 'w host =
  ho_kernel :: "'w kernel"
  ho_patience :: nat
  ho_environment :: "'w \<Rightarrow> bytes option \<times> 'w"
  ho_setsockopt :: "int \<Rightarrow> bool \<Rightarrow> u32 \<times> u32 \<Rightarrow> 'w \<Rightarrow> (int + unit) \<times> 'w"
  ho_socket :: "'w \<Rightarrow> (int + int) \<times> 'w"
  ho_connect :: "int \<Rightarrow> bytes \<Rightarrow> 'w \<Rightarrow> (int + unit) \<times> 'w"
  ho_peer :: "int \<Rightarrow> 'w \<Rightarrow> (int + (u32 \<times> u32) option) \<times> 'w"
  ho_epoll_create :: "'w \<Rightarrow> (int + int) \<times> 'w"
  ho_eventfd :: "'w \<Rightarrow> (int + int) \<times> 'w"
  ho_epoll_add :: "int \<Rightarrow> int \<Rightarrow> 'w \<Rightarrow> (int + unit) \<times> 'w"
  ho_sealed :: "int \<Rightarrow> 'w \<Rightarrow> bool \<times> 'w"
  ho_regular_size :: "int \<Rightarrow> 'w \<Rightarrow> int option \<times> 'w"
  ho_mmap :: "int \<Rightarrow> nat \<Rightarrow> 'w \<Rightarrow> bytes option \<times> 'w"

type_synonym ('w, 'a) client = "(unit ksd_connection_ext, 'w, 'a) io"

definition client_magic :: bytes where
  "client_magic = [KSD_FRAME_MAGIC_0, KSD_FRAME_MAGIC_1, KSD_FRAME_MAGIC_2, KSD_FRAME_MAGIC_3]"

text \<open>A computation that may run out of patience, and what follows when it does not.\<close>

definition and_on :: "('w, 'a option) client \<Rightarrow> ('a \<Rightarrow> ('w, 'b option) client) \<Rightarrow> ('w, 'b option) client" where
  "and_on m f = do { r \<leftarrow> m; case r of None \<Rightarrow> return None | Some x \<Rightarrow> f x }"

section \<open>Errors\<close>

definition valid_error :: "ksd_error option \<Rightarrow> bool" where
  "valid_error e \<longleftrightarrow> (case e of None \<Rightarrow> True | Some e \<Rightarrow> er_struct_size e \<ge> ksd_error_size)"

definition cleared_error :: "ksd_error option \<Rightarrow> ksd_error option" where
  "cleared_error e = (case e of None \<Rightarrow> None
     | Some e \<Rightarrow> if er_struct_size e < ksd_error_size then Some e
                else Some \<lparr>er_struct_size = er_struct_size e, er_detail = 0, er_system_error = 0, er_message = []\<rparr>)"

definition reset_error :: "('w, unit) client" where
  "reset_error = update (\<lambda>c. c\<lparr>cn_error := cleared_error (cn_error c)\<rparr>)"

definition filled_error :: "u32 \<Rightarrow> int \<Rightarrow> bytes option \<Rightarrow> ksd_error option \<Rightarrow> ksd_error option" where
  "filled_error detail system_error message e = (case cleared_error e of None \<Rightarrow> None
     | Some e \<Rightarrow> if er_struct_size e < ksd_error_size then Some e
                else Some (e\<lparr>er_detail := detail, er_system_error := system_error,
                             er_message := (case message of None \<Rightarrow> [] | Some m \<Rightarrow> take (KSD_ERROR_MESSAGE_CAPACITY - 1) m)\<rparr>))"

definition set_error :: "u32 \<Rightarrow> int \<Rightarrow> bytes option \<Rightarrow> ('w, unit) client" where
  "set_error detail system_error message = update (\<lambda>c. c\<lparr>cn_error := filled_error detail system_error message (cn_error c)\<rparr>)"

definition invalid_argument :: "string \<Rightarrow> ('w, u32) client" where
  "invalid_argument message = do { set_error 0 EINVAL (Some (ascii message)); return KSD_STATUS_INVALID_REQUEST }"

definition ksd_status_for_system_error :: "int \<Rightarrow> u32" where
  "ksd_status_for_system_error e = (if e = ETIMEDOUT \<or> e = EAGAIN then KSD_STATUS_TIMEOUT else KSD_STATUS_UNAVAILABLE)"

definition incompatible_message :: string where
  "incompatible_message = ''keysharp-desktop requires protocol 3.0 and client ABI 1.0; incompatible or invalid service data''"

section \<open>Readiness and the event queue\<close>

definition signal_pending :: "('w, unit) client" where
  "signal_pending = do {
     c \<leftarrow> data;
     if cn_pending_descriptor c \<ge> 0
     then do { update (\<lambda>c. c\<lparr>cn_signalled := True\<rparr>); note_events [Signalled (cn_pending_descriptor c)] }
     else return () }"

definition system_failure :: "string \<Rightarrow> ('w, u32) client" where
  "system_failure message = do {
     c \<leftarrow> data;
     let saved_errno = (if th_errno c = 0 then EIO else th_errno c);
     (if cn_descriptor c \<ge> 0
      then do { note_events [Hung_Up (cn_descriptor c)]; update (\<lambda>c. c\<lparr>cn_descriptor := - 1\<rparr>); signal_pending }
      else return ());
     set_error 0 saved_errno (Some (ascii (if saved_errno = EPROTO then incompatible_message else message)));
     return (ksd_status_for_system_error saved_errno) }"

definition sizeof_queued_event :: nat where
  "sizeof_queued_event = 40"

definition queue_event :: "'w host \<Rightarrow> ksd_frame \<Rightarrow> ('w, bool) client" where
  "queue_event h frame = do {
     c \<leftarrow> data;
     if cn_queued_count c \<ge> KSD_CLIENT_MAX_EVENTS
        \<or> unat (fr_payload_length frame) > KSD_CLIENT_MAX_EVENT_BYTES - cn_queued_bytes c
     then do { set_errno ENOBUFS; return False }
     else case ksd_state_event_decode (kn_alloc (ho_kernel h)) (payload_bytes frame) of
       None \<Rightarrow> do { set_errno EPROTO; return False }
     | Some event \<Rightarrow> do {
         update (\<lambda>c. if ev_domain event = KSD_STATE_GRANTS then c\<lparr>cn_granted_scopes := ev_granted_scopes event\<rparr> else c);
         if \<not> kn_alloc (ho_kernel h) sizeof_queued_event then do { set_errno ENOMEM; return False }
         else do {
           update (\<lambda>c. c\<lparr>cn_queued_count := cn_queued_count c + 1, cn_queued_bytes := cn_queued_bytes c + unat (fr_payload_length frame),
                          cn_events := cn_events c @ [frame]\<rparr>);
           signal_pending;
           return True }}}"

text \<open>Reading the counter when it is zero fails with \<open>EAGAIN\<close>.\<close>

definition take_event :: "('w, ksd_frame option) client" where
  "take_event = do {
     c \<leftarrow> data;
     case cn_events c of [] \<Rightarrow> return None
     | frame # rest \<Rightarrow> do {
         update (\<lambda>c. c\<lparr>cn_queued_count := cn_queued_count c - 1, cn_queued_bytes := cn_queued_bytes c - unat (fr_payload_length frame), cn_events := rest\<rparr>);
         (if rest = [] \<and> cn_descriptor c \<ge> 0
          then if cn_signalled c then do { update (\<lambda>c. c\<lparr>cn_signalled := False\<rparr>); note_events [Drained (cn_pending_descriptor c)] } else set_errno EAGAIN
          else return ());
         return (Some frame) }}"

section \<open>Frames of the event stream\<close>

text \<open>
  One turn of the loop of \<open>receive_event_frame\<close> asks for what is missing of the header, or of
  the frame once the header says how long it is. An interrupted \<^verbatim>\<open>recv\<close>, which the code repeats at
  once, moves nothing: a call of \<open>kn_recv\<close> stands for the attempts up to the first that was not
  interrupted.
\<close>

definition receive_more :: "'w host \<Rightarrow> nat \<Rightarrow> ('w, int + ksd_frame) client \<Rightarrow> ('w, int + ksd_frame) client" where
  "receive_more h needed go_on = do {
     c \<leftarrow> data;
     let amount = min 8192 (needed - length (buf_data (cn_input c)));
     answer \<leftarrow> system_call (kn_recv (ho_kernel h) (cn_descriptor c) amount) (\<lambda>bs. [Received bs]);
     case answer of
       None \<Rightarrow> do { c \<leftarrow> data; return (Inl (if th_errno c = EAGAIN then 0 else - 1)) }
     | Some bs \<Rightarrow>
         if bs = [] then do { set_errno ECONNRESET; return (Inl (- 1)) }
         else let (ok, input) = ksd_buffer_bytes (kn_alloc (ho_kernel h)) bs (cn_input c) in do {
           update (\<lambda>c. c\<lparr>cn_input := input\<rparr>);
           if \<not> ok then do { set_errno ENOMEM; return (Inl (- 1)) } else go_on }}"

primrec event_frame_turns :: "'w host \<Rightarrow> nat \<Rightarrow> ('w, int + ksd_frame) client" where
  "event_frame_turns h 0 = return (Inl (- 1))"
| "event_frame_turns h (Suc turns) = do {
     c \<leftarrow> data;
     let input = buf_data (cn_input c);
     if length input \<ge> KSD_FRAME_HEADER_SIZE
     then do {
       let n = unat (ksd_decode_u32 (drop KSD_FRAME_PAYLOAD_LENGTH_OFFSET input));
       if n > KSD_CLIENT_MAX_RESPONSE then do { set_errno EPROTO; return (Inl (- 1)) }
       else if length input = KSD_FRAME_HEADER_SIZE + n then do {
         update (\<lambda>c. c\<lparr>cn_input := (cn_input c)\<lparr>buf_data := []\<rparr>\<rparr>);
         case ksd_frame_unpack (kn_alloc (ho_kernel h)) input client_magic KSD_PROTOCOL_MAJOR KSD_PROTOCOL_MINOR (of_nat KSD_CLIENT_MAX_RESPONSE) True of
           None \<Rightarrow> do { set_errno EPROTO; return (Inl (- 1)) }
         | Some frame \<Rightarrow> do { note_events [Came frame]; return (Inr frame) }}
       else receive_more h (KSD_FRAME_HEADER_SIZE + n) (event_frame_turns h turns) }
     else receive_more h KSD_FRAME_HEADER_SIZE (event_frame_turns h turns) }"

text \<open>Each turn but the last takes in a byte, so the longest frame bounds the turns.\<close>

definition receive_event_frame :: "'w host \<Rightarrow> ('w, int + ksd_frame) client" where
  "receive_event_frame h = event_frame_turns h (KSD_FRAME_HEADER_SIZE + KSD_CLIENT_MAX_RESPONSE + 1)"

primrec stream_response_rounds :: "'w host \<Rightarrow> nat \<Rightarrow> ('w, ksd_frame option option) client" where
  "stream_response_rounds h 0 = return None"
| "stream_response_rounds h (Suc rounds) = do {
     answer \<leftarrow> receive_event_frame h;
     case answer of
       Inr frame \<Rightarrow> return (Some (Some frame))
     | Inl r \<Rightarrow>
         if r \<noteq> 0 then return (Some None)
         else do {
           c \<leftarrow> data;
           ready \<leftarrow> ksd_wait_until (ho_kernel h) (cn_descriptor c) False (cn_request_deadline_ms c);
           if \<not> ready then return (Some None) else stream_response_rounds h rounds }}"

definition receive_stream_response :: "'w host \<Rightarrow> ('w, ksd_frame option option) client" where
  "receive_stream_response h = stream_response_rounds h (ho_patience h)"

section \<open>Timeouts and connecting\<close>

definition set_timeouts :: "'w host \<Rightarrow> int \<Rightarrow> u32 \<Rightarrow> ('w, bool) client" where
  "set_timeouts h descriptor timeout_ms = do {
     let timeout = (timeout_ms div 1000, (timeout_ms mod 1000) * 1000);
     receiving \<leftarrow> system_call (ho_setsockopt h descriptor False timeout) (\<lambda>_. []);
     case receiving of None \<Rightarrow> return False
     | Some _ \<Rightarrow> do {
         sending \<leftarrow> system_call (ho_setsockopt h descriptor True timeout) (\<lambda>_. []);
         return (sending \<noteq> None) }}"

definition set_remaining_timeout :: "'w host \<Rightarrow> u64 \<Rightarrow> ('w, bool) client" where
  "set_remaining_timeout h deadline = do {
     now \<leftarrow> ksd_monotonic_milliseconds (ho_kernel h);
     if now = 0 \<or> now \<ge> deadline then do { set_errno ETIMEDOUT; return False }
     else do {
       c \<leftarrow> data;
       set_timeouts h (cn_descriptor c) (if deadline - now > 0xFFFFFFFF then 0xFFFFFFFF else ucast (deadline - now)) }}"

definition default_socket_path :: "'w host \<Rightarrow> ('w, bytes option) client" where
  "default_socket_path h = do {
     configured \<leftarrow> call (ho_environment h) (\<lambda>_. []);
     let path = (case configured of None \<Rightarrow> KSD_DEFAULT_SOCKET_PATH | Some p \<Rightarrow> if p = [] then KSD_DEFAULT_SOCKET_PATH else p);
     return (if length path > 0 \<and> length path < KSD_CLIENT_PATH_CAPACITY then Some path else None) }"

text \<open>A path fits \<open>sun_path\<close> with its terminator.\<close>

definition sizeof_sun_path :: nat where
  "sizeof_sun_path = 108"

definition adopt_socket :: "'w host \<Rightarrow> bytes \<Rightarrow> u32 \<Rightarrow> int \<Rightarrow> ('w, bool) client" where
  "adopt_socket h path timeout_ms descriptor = do {
     timed \<leftarrow> set_timeouts h descriptor timeout_ms;
     if \<not> timed then return False
     else do {
       connected \<leftarrow> system_call (ho_connect h descriptor path) (\<lambda>_. []);
       if connected = None then return False
       else do {
         peer \<leftarrow> system_call (ho_peer h descriptor) (\<lambda>_. []);
         return (peer = Some (Some (0, 0))) }}}"

definition connect_socket :: "'w host \<Rightarrow> bytes option \<Rightarrow> u32 \<Rightarrow> ('w, int) client" where
  "connect_socket h configured timeout_ms = do {
     path \<leftarrow> (case configured of Some path \<Rightarrow> return (Some path) | None \<Rightarrow> default_socket_path h);
     case path of None \<Rightarrow> do { set_errno ENAMETOOLONG; return (- 1) }
     | Some path \<Rightarrow>
         if path = [] \<or> hd path \<noteq> 47 \<or> length path \<ge> sizeof_sun_path then do { set_errno EINVAL; return (- 1) }
         else do {
           descriptor \<leftarrow> system_call (ho_socket h) (\<lambda>_. []);
           case descriptor of None \<Rightarrow> return (- 1)
           | Some descriptor \<Rightarrow> do {
               adopted \<leftarrow> adopt_socket h path timeout_ms descriptor;
               if adopted then return descriptor
               else do {
                 c \<leftarrow> data;
                 note_events [Hung_Up descriptor];
                 set_errno (if th_errno c = 0 then EPERM else th_errno c);
                 return (- 1) }}}}"

definition initialize_poll :: "'w host \<Rightarrow> ('w, bool) client" where
  "initialize_poll h = do {
     poll \<leftarrow> system_call (ho_epoll_create h) (\<lambda>_. []);
     pending \<leftarrow> system_call (ho_eventfd h) (\<lambda>_. []);
     update (\<lambda>c. c\<lparr>cn_poll_descriptor := (case poll of None \<Rightarrow> - 1 | Some d \<Rightarrow> d),
                    cn_pending_descriptor := (case pending of None \<Rightarrow> - 1 | Some d \<Rightarrow> d),
                    cn_input := ksd_buffer_init (KSD_CLIENT_MAX_RESPONSE + KSD_FRAME_HEADER_SIZE)\<rparr>);
     case (poll, pending) of
       (Some poll, Some pending) \<Rightarrow> do {
         c \<leftarrow> data;
         added \<leftarrow> system_call (ho_epoll_add h poll (cn_descriptor c)) (\<lambda>_. []);
         if added = None then return False
         else do { added \<leftarrow> system_call (ho_epoll_add h poll pending) (\<lambda>_. []); return (added \<noteq> None) }}
     | _ \<Rightarrow> return False }"

section \<open>Requests and responses\<close>

record response =
  rs_frame :: ksd_frame
  rs_status :: u32
  rs_detail :: u32
  rs_tail :: bytes
  rs_payload_fd :: int

definition empty_response :: response where
  "empty_response = \<lparr>rs_frame = frame_zero, rs_status = 0, rs_detail = 0, rs_tail = [], rs_payload_fd = - 1\<rparr>"

definition next_request_id :: "('w, u64) client" where
  "next_request_id = do {
     update (\<lambda>c. c\<lparr>cn_next_request_id := (if cn_next_request_id c + 1 = 0 then 1 else cn_next_request_id c + 1)\<rparr>);
     c \<leftarrow> data;
     return (cn_next_request_id c) }"

text \<open>The scopes an event revokes, or \<open>None\<close> when it is not a valid revocation.\<close>

definition apply_revoked_event :: "ksd_frame \<Rightarrow> ('w, u32 option) client" where
  "apply_revoked_event frame =
     (if fr_opcode frame \<noteq> KSD_OP_SESSION_REVOKED \<or> fr_flags frame \<noteq> KSD_FLAG_EVENT \<or> fr_request_id frame \<noteq> 0
         \<or> fr_payload_length frame \<noteq> 8 \<or> ksd_decode_u32 (drop 4 (payload_bytes frame)) \<noteq> 0 then return None
      else do {
        let revoked = ksd_decode_u32 (payload_bytes frame);
        if revoked = 0 then return None
        else do {
          update (\<lambda>c. c\<lparr>cn_granted_scopes := cn_granted_scopes c AND NOT revoked\<rparr>);
          return (Some revoked) }})"

text \<open>The mapping of a capture and its release have no effect that a caller sees; the descriptor does.\<close>

definition response_clear :: "response \<Rightarrow> ('w, unit) client" where
  "response_clear response = close_received_fd (rs_payload_fd response)"

definition invalid_response :: "response \<Rightarrow> string \<Rightarrow> ('w, u32) client" where
  "invalid_response response message = do { response_clear response; set_errno EPROTO; system_failure message }"

text \<open>
  A response frame, once it has come. The last eight bytes of the answer to an operation that
  changes windows are the sequence of the change.
\<close>

definition accept_response :: "u16 \<Rightarrow> u64 \<Rightarrow> ksd_frame \<Rightarrow> int \<Rightarrow> ('w, u32 \<times> response) client" where
  "accept_response opcode request_id frame payload_fd = do {
     let response = empty_response\<lparr>rs_frame := frame, rs_payload_fd := payload_fd\<rparr>;
     case parse_response frame opcode request_id of
       None \<Rightarrow> do { status \<leftarrow> invalid_response response ''desktop service sent an invalid response''; return (status, empty_response) }
     | Some parsed \<Rightarrow> do {
         let response = response\<lparr>rs_status := rp_status parsed, rs_detail := rp_detail parsed, rs_tail := rp_tail parsed\<rparr>;
         (if rp_status parsed = KSD_STATUS_OK then reset_error else set_error (rp_detail parsed) 0 (rp_message parsed));
         if rp_status parsed = KSD_STATUS_OK \<and> ksd_state_mutates_windows opcode
         then if length (rp_tail parsed) < 8
              then do { status \<leftarrow> invalid_response response ''desktop service omitted the operation sequence''; return (status, empty_response) }
              else do {
                let n = length (rp_tail parsed) - 8;
                update (\<lambda>c. c\<lparr>cn_sequence := ksd_decode_u64 (drop n (rp_tail parsed))\<rparr>);
                return (rp_status parsed, response\<lparr>rs_tail := take n (rp_tail parsed)\<rparr>) }
         else return (rp_status parsed, response) }}"

text \<open>An event that comes before the response is queued or applied; \<open>Some\<close> is the status of a failure.\<close>

definition accept_event :: "'w host \<Rightarrow> ksd_frame \<Rightarrow> ('w, u32 option) client" where
  "accept_event h frame = do {
     valid \<leftarrow> (if fr_opcode frame = KSD_OP_STATE_EVENT then queue_event h frame
              else do { revoked \<leftarrow> apply_revoked_event frame; return (revoked \<noteq> None) });
     if valid then return None
     else do {
       c \<leftarrow> data;
       (if th_errno c \<noteq> ENOBUFS then set_errno EPROTO else return ());
       status \<leftarrow> system_failure (if th_errno c = ENOBUFS then ''desktop event queue exceeded 256 records or 16 MiB; reconnect and resnapshot''
                                else ''desktop service sent an invalid event'');
       return (Some status) }}"

text \<open>The next frame and the descriptor that came with it, or -1; \<open>Some None\<close> when there is none.\<close>

definition receive_frame :: "'w host \<Rightarrow> ('w, (ksd_frame \<times> int) option option) client" where
  "receive_frame h = do {
     c \<leftarrow> data;
     if cn_role c = ucast KSD_ROLE_RPC
     then do {
       answer \<leftarrow> ksd_frame_read_fd (ho_kernel h) (cn_descriptor c) client_magic KSD_PROTOCOL_MAJOR KSD_PROTOCOL_MINOR (of_nat KSD_CLIENT_MAX_RESPONSE) True;
       note_events (case answer of None \<Rightarrow> [] | Some (frame, _) \<Rightarrow> [Came frame]);
       return (Some answer) }
     else do {
       answer \<leftarrow> receive_stream_response h;
       return (map_option (map_option (\<lambda>frame. (frame, - 1))) answer) }}"

definition give_up :: "string \<Rightarrow> ('w, (u32 \<times> response) option) client" where
  "give_up message = do { status \<leftarrow> system_failure message; return (Some (status, empty_response)) }"

text \<open>What is done with what came: an event is dealt with and the wait goes on, a response ends it.\<close>

definition deal_with :: "'w host \<Rightarrow> u16 \<Rightarrow> u64 \<Rightarrow> ('w, (u32 \<times> response) option) client \<Rightarrow> (ksd_frame \<times> int) option \<Rightarrow> ('w, (u32 \<times> response) option) client" where
  "deal_with h opcode request_id go_on answer = (case answer of
       None \<Rightarrow> give_up ''desktop service response failed''
     | Some (frame, payload_fd) \<Rightarrow>
         if fr_flags frame AND KSD_FLAG_EVENT \<noteq> 0
         then do {
           close_received_fd payload_fd;
           failed \<leftarrow> accept_event h frame;
           case failed of Some status \<Rightarrow> return (Some (status, empty_response)) | None \<Rightarrow> go_on }
         else do { answer \<leftarrow> accept_response opcode request_id frame payload_fd; return (Some answer) })"

primrec response_rounds :: "'w host \<Rightarrow> u16 \<Rightarrow> u64 \<Rightarrow> nat \<Rightarrow> ('w, (u32 \<times> response) option) client" where
  "response_rounds h opcode request_id 0 = return None"
| "response_rounds h opcode request_id (Suc rounds) = do {
     c \<leftarrow> data;
     in_time \<leftarrow> set_remaining_timeout h (cn_request_deadline_ms c);
     if \<not> in_time then give_up ''desktop service response timed out''
     else and_on (receive_frame h) (deal_with h opcode request_id (response_rounds h opcode request_id rounds)) }"

definition read_response :: "'w host \<Rightarrow> u16 \<Rightarrow> u64 \<Rightarrow> ('w, (u32 \<times> response) option) client" where
  "read_response h opcode request_id = response_rounds h opcode request_id (ho_patience h)"

primrec write_each :: "'w host \<Rightarrow> ksd_frame list \<Rightarrow> ('w, bool) client" where
  "write_each h [] = return True"
| "write_each h (frame # frames) = do {
     c \<leftarrow> data;
     in_time \<leftarrow> set_remaining_timeout h (cn_request_deadline_ms c);
     if \<not> in_time then return False
     else do {
       written \<leftarrow> ksd_frame_write (ho_kernel h) (cn_descriptor c) frame;
       if \<not> written then return False else write_each h frames }}"

definition write_request :: "'w host \<Rightarrow> u16 \<Rightarrow> bytes \<Rightarrow> u64 \<Rightarrow> ('w, bool) client" where
  "write_request h opcode payload request_id =
     (case write_request_frames opcode request_id payload of
        None \<Rightarrow> do { set_errno EINVAL; return False }
      | Some frames \<Rightarrow> write_each h frames)"

definition request :: "'w host \<Rightarrow> u16 \<Rightarrow> bytes \<Rightarrow> ('w, (u32 \<times> response) option) client" where
  "request h opcode payload = do {
     c \<leftarrow> data;
     if \<not> cn_present c \<or> \<not> valid_error (cn_error c)
     then do { status \<leftarrow> invalid_argument ''invalid desktop client argument''; return (Some (status, empty_response)) }
     else do {
       request_id \<leftarrow> next_request_id;
       if cn_descriptor c < 0 then do { set_errno ENOTCONN; give_up ''desktop service connection is closed'' }
       else do {
         now \<leftarrow> ksd_monotonic_milliseconds (ho_kernel h);
         if now = 0 \<or> now > UINT64_MAX - ucast (cn_timeout_ms c) then do { set_errno EIO; give_up ''desktop request clock failed'' }
         else do {
           update (\<lambda>c. c\<lparr>cn_request_deadline_ms := now + ucast (cn_timeout_ms c)\<rparr>);
           in_time \<leftarrow> set_remaining_timeout h (now + ucast (cn_timeout_ms c));
           if \<not> in_time then give_up ''desktop service request timed out''
           else do {
             written \<leftarrow> write_request h opcode payload request_id;
             if \<not> written then give_up ''desktop service request failed''
             else read_response h opcode request_id }}}}}"

section \<open>Connecting and disconnecting\<close>

text \<open>Structures that the caller owns carry their size and words that must be zero.\<close>

definition words_zero :: "u64 list \<Rightarrow> bool" where
  "words_zero ws \<longleftrightarrow> list_all (\<lambda>w. w = 0) ws"

record ksd_connect_options =
  co_struct_size :: u32
  co_role :: u32
  co_authorization_mode :: u32
  co_requested_scopes :: u32
  co_socket_path :: "bytes option"
  co_timeout_ms :: u32
  co_flags :: u32
  co_lease_id :: u64
  co_reserved :: "u64 list"

record ksd_service_info =
  si_struct_size :: u32
  si_abi_major :: u32
  si_abi_minor :: u32
  si_granted_scopes :: u32
  si_available_operations :: u64
  si_backend :: u32
  si_reserved0 :: u32
  si_lease_id :: u64
  si_reserved :: "u64 list"

definition sizeof_connect_options :: u32 where
  "sizeof_connect_options = 64"

definition sizeof_service_info :: u32 where
  "sizeof_service_info = 64"

definition sizeof_connection :: nat where
  "sizeof_connection = 136"

definition ksd_service_info_init :: ksd_service_info where
  "ksd_service_info_init = \<lparr>si_struct_size = sizeof_service_info, si_abi_major = 0, si_abi_minor = 0, si_granted_scopes = 0,
     si_available_operations = 0, si_backend = 0, si_reserved0 = 0, si_lease_id = 0, si_reserved = [0, 0, 0]\<rparr>"

definition ksd_connect_options_init :: ksd_connect_options where
  "ksd_connect_options_init = \<lparr>co_struct_size = sizeof_connect_options, co_role = ucast KSD_ROLE_RPC, co_authorization_mode = ucast KSD_AUTH_CHECK,
     co_requested_scopes = 0, co_socket_path = None, co_timeout_ms = 130000, co_flags = 0, co_lease_id = 0, co_reserved = [0, 0, 0]\<rparr>"

definition valid_service_info_output :: "ksd_service_info \<Rightarrow> bool" where
  "valid_service_info_output info \<longleftrightarrow> si_struct_size info \<ge> sizeof_service_info \<and> si_abi_major info = 0 \<and> si_abi_minor info = 0
     \<and> si_granted_scopes info = 0 \<and> si_available_operations info = 0 \<and> si_backend info = 0 \<and> si_reserved0 info = 0
     \<and> words_zero (si_reserved info)"

definition valid_role :: "u32 \<Rightarrow> bool" where
  "valid_role role \<longleftrightarrow> role = ucast KSD_ROLE_RPC \<or> role = ucast KSD_ROLE_AUTHORIZATION_LEASE"

definition valid_mode :: "u32 \<Rightarrow> bool" where
  "valid_mode mode \<longleftrightarrow> mode = ucast KSD_AUTH_CHECK \<or> mode = ucast KSD_AUTH_REQUEST"

definition valid_connect_options :: "ksd_connect_options \<Rightarrow> bool" where
  "valid_connect_options options \<longleftrightarrow> co_struct_size options \<ge> sizeof_connect_options \<and> valid_role (co_role options)
     \<and> valid_mode (co_authorization_mode options) \<and> co_requested_scopes options AND NOT KSD_DESKTOP_ACCEPTED_SCOPES = 0
     \<and> co_timeout_ms options \<noteq> 0 \<and> co_timeout_ms options \<le> 300000 \<and> co_flags options = 0 \<and> words_zero (co_reserved options)"

definition created_connection :: "ksd_connect_options \<Rightarrow> ksd_connection \<Rightarrow> ksd_connection" where
  "created_connection options c = c\<lparr>cn_present := True, cn_descriptor := - 1, cn_next_request_id := 0, cn_role := co_role options,
     cn_granted_scopes := 0, cn_available_operations := 0, cn_backend := 0, cn_timeout_ms := co_timeout_ms options,
     cn_request_deadline_ms := 0, cn_poll_descriptor := - 1, cn_pending_descriptor := - 1, cn_lease_id := 0, cn_sequence := 0,
     cn_input := ksd_buffer_init 0, cn_events := [], cn_queued_bytes := 0, cn_queued_count := 0, cn_signalled := False\<rparr>"

definition hang_up :: "int \<Rightarrow> ('w, unit) client" where
  "hang_up fd = (if fd \<ge> 0 then note_events [Hung_Up fd] else return ())"

primrec drop_events :: "nat \<Rightarrow> ('w, unit) client" where
  "drop_events 0 = return ()"
| "drop_events (Suc n) = do { taken \<leftarrow> take_event; case taken of None \<Rightarrow> return () | Some _ \<Rightarrow> drop_events n }"

definition ksd_disconnect :: "('w, unit) client" where
  "ksd_disconnect = do {
     c \<leftarrow> data;
     if \<not> cn_present c then return ()
     else do {
       hang_up (cn_descriptor c);
       hang_up (cn_poll_descriptor c);
       hang_up (cn_pending_descriptor c);
       update (\<lambda>c. c\<lparr>cn_input := ksd_buffer_clear (cn_input c)\<rparr>);
       drop_events (Suc (length (cn_events c)));
       update (\<lambda>c. c\<lparr>cn_present := False\<rparr>) }}"

text \<open>The end of a failed connect closes the descriptors and frees the connection, but not the events that were queued.\<close>

definition abandon :: "response \<Rightarrow> ('w, unit) client" where
  "abandon response = do {
     response_clear response;
     c \<leftarrow> data;
     hang_up (cn_descriptor c);
     hang_up (cn_poll_descriptor c);
     hang_up (cn_pending_descriptor c);
     update (\<lambda>c. c\<lparr>cn_present := False\<rparr>) }"

definition hello_payload :: "ksd_connect_options \<Rightarrow> bytes" where
  "hello_payload options = ksd_encode_u16 (ucast (co_role options)) @ ksd_encode_u16 (ucast (co_authorization_mode options))
     @ ksd_encode_u32 (co_requested_scopes options) @ ksd_encode_u64 (co_lease_id options)"

definition KSD_CLIENT_ABI_MAJOR :: u32 where
  "KSD_CLIENT_ABI_MAJOR = 1"

definition KSD_CLIENT_ABI_MINOR :: u32 where
  "KSD_CLIENT_ABI_MINOR = 0"

text \<open>The greeting's answer: what it says is kept in the connection and told to the caller.\<close>

definition finish_hello :: "ksd_service_info \<Rightarrow> u32 \<times> response \<Rightarrow> ('w, (u32 \<times> ksd_service_info) option) client" where
  "finish_hello info answer = (case answer of (status, response) \<Rightarrow>
     if status \<noteq> KSD_STATUS_OK then do { abandon response; return (Some (status, info)) }
     else case (if fr_flags (rs_frame response) AND KSD_FLAG_MORE \<noteq> 0 then None else parse_hello_tail (rs_tail response)) of
       None \<Rightarrow> do {
         status \<leftarrow> invalid_response response ''desktop service returned an invalid HELLO'';
         abandon empty_response;
         return (Some (status, info)) }
     | Some (granted, operations, backend) \<Rightarrow> do {
         let lease_id = hello_lease_id (rs_tail response);
         update (\<lambda>c. c\<lparr>cn_granted_scopes := granted, cn_available_operations := operations, cn_backend := backend, cn_lease_id := lease_id\<rparr>);
         response_clear response;
         return (Some (KSD_STATUS_OK, info\<lparr>si_abi_major := KSD_CLIENT_ABI_MAJOR, si_abi_minor := KSD_CLIENT_ABI_MINOR,
           si_granted_scopes := granted, si_available_operations := operations, si_backend := backend, si_lease_id := lease_id\<rparr>)) })"

text \<open>\<open>vacant\<close> says that the caller passed a place for the connection with NULL in it.\<close>

definition ksd_connect :: "'w host \<Rightarrow> ksd_connect_options option \<Rightarrow> bool \<Rightarrow> ksd_service_info option \<Rightarrow> ('w, (u32 \<times> ksd_service_info) option) client" where
  "ksd_connect h options vacant info = do {
     c \<leftarrow> data;
     case (options, info) of
       (Some options, Some info) \<Rightarrow>
         if \<not> valid_error (cn_error c) \<or> \<not> vacant \<or> \<not> valid_service_info_output info \<or> \<not> valid_connect_options options
         then do { status \<leftarrow> invalid_argument ''invalid desktop connect options''; return (Some (status, info)) }
         else if \<not> kn_alloc (ho_kernel h) sizeof_connection
         then do { set_error 0 ENOMEM (Some (ascii ''could not allocate desktop connection'')); return (Some (KSD_STATUS_RESOURCE_EXHAUSTED, info)) }
         else do {
           update (created_connection options);
           descriptor \<leftarrow> connect_socket h (co_socket_path options) (co_timeout_ms options);
           update (\<lambda>c. c\<lparr>cn_descriptor := descriptor\<rparr>);
           if descriptor < 0
           then do {
             status \<leftarrow> system_failure ''could not connect to desktop service'';
             update (\<lambda>c. c\<lparr>cn_present := False\<rparr>);
             return (Some (status, info)) }
           else do {
             polled \<leftarrow> initialize_poll h;
             if \<not> polled
             then do {
               ksd_disconnect;
               c \<leftarrow> data;
               set_error 0 (th_errno c) (Some (ascii ''could not create desktop poll descriptor''));
               return (Some (KSD_STATUS_UNAVAILABLE, info)) }
             else and_on (request h KSD_OP_HELLO (hello_payload options)) (finish_hello info) }}
     | _ \<Rightarrow> do { status \<leftarrow> invalid_argument ''invalid desktop connect options''; return (Some (status, case info of Some i \<Rightarrow> i | None \<Rightarrow> ksd_service_info_init)) }}"

section \<open>What a connection says of itself\<close>

definition ksd_connection_fd :: "ksd_connection \<Rightarrow> int" where
  "ksd_connection_fd c = (if \<not> cn_present c then - 1 else cn_poll_descriptor c)"

definition ksd_connection_lease_id :: "ksd_connection \<Rightarrow> u64" where
  "ksd_connection_lease_id c = (if \<not> cn_present c then 0 else cn_lease_id c)"

definition ksd_connection_sequence :: "ksd_connection \<Rightarrow> u64" where
  "ksd_connection_sequence c = (if \<not> cn_present c then 0 else cn_sequence c)"

definition ksd_connection_available_operations :: "ksd_connection \<Rightarrow> u64" where
  "ksd_connection_available_operations c = (if \<not> cn_present c then 0 else cn_available_operations c)"

definition ksd_connection_backend :: "ksd_connection \<Rightarrow> u32" where
  "ksd_connection_backend c = (if \<not> cn_present c then 0 else cn_backend c)"

section \<open>Events\<close>

text \<open>The next event frame: the oldest of the queue, or else from the socket. \<open>Inl\<close> is a status.\<close>

primrec event_rounds :: "'w host \<Rightarrow> u32 \<Rightarrow> u64 \<Rightarrow> nat \<Rightarrow> ('w, (u32 + ksd_frame) option) client" where
  "event_rounds h timeout_ms deadline 0 = return None"
| "event_rounds h timeout_ms deadline (Suc rounds) = do {
     taken \<leftarrow> take_event;
     case taken of Some frame \<Rightarrow> return (Some (Inr frame))
     | None \<Rightarrow> do {
         c \<leftarrow> data;
         if cn_descriptor c < 0
         then do { set_errno ENOTCONN; status \<leftarrow> system_failure ''desktop event connection ended''; return (Some (Inl status)) }
         else do {
           received \<leftarrow> receive_event_frame h;
           case received of Inr frame \<Rightarrow> return (Some (Inr frame))
           | Inl r \<Rightarrow>
               if r < 0 then do { status \<leftarrow> system_failure ''desktop event receive failed''; return (Some (Inl status)) }
               else do {
                 now \<leftarrow> ksd_monotonic_milliseconds (ho_kernel h);
                 if timeout_ms = 0 \<or> (deadline \<noteq> UINT64_MAX \<and> now \<ge> deadline)
                 then do { reset_error; return (Some (Inl KSD_STATUS_TIMEOUT)) }
                 else do {
                   ready \<leftarrow> ksd_wait_until (ho_kernel h) (cn_descriptor c) False deadline;
                   if ready then event_rounds h timeout_ms deadline rounds
                   else do {
                     c \<leftarrow> data;
                     if th_errno c = ETIMEDOUT then do { reset_error; return (Some (Inl KSD_STATUS_TIMEOUT)) }
                     else do { status \<leftarrow> system_failure ''desktop event wait failed''; return (Some (Inl status)) }}}}}}}"

text \<open>The status, the event when there is one, and the scopes a revocation took away.\<close>

definition judge_event :: "u16 \<Rightarrow> u32 + ksd_frame \<Rightarrow> ('w, (u32 \<times> ksd_frame option \<times> u32) option) client" where
  "judge_event expected_opcode taken = (case taken of Inl status \<Rightarrow> return (Some (status, None, 0))
     | Inr event \<Rightarrow>
         if fr_opcode event = KSD_OP_SESSION_REVOKED
         then do {
           revoked \<leftarrow> apply_revoked_event event;
           case revoked of
             None \<Rightarrow> do { set_errno EPROTO; status \<leftarrow> system_failure ''desktop service sent invalid revocation''; return (Some (status, None, 0)) }
           | Some revoked \<Rightarrow> do {
               set_error revoked 0 (Some (ascii ''desktop permission was revoked''));
               return (Some (KSD_STATUS_REVOKED, None, revoked)) }}
         else if fr_opcode event \<noteq> expected_opcode \<or> fr_flags event \<noteq> KSD_FLAG_EVENT \<or> fr_request_id event \<noteq> 0
         then do { set_errno EPROTO; status \<leftarrow> system_failure ''desktop service sent an unexpected event''; return (Some (status, None, 0)) }
         else do { reset_error; return (Some (KSD_STATUS_OK, Some event, 0)) })"

definition read_event :: "'w host \<Rightarrow> u32 \<Rightarrow> u16 \<Rightarrow> ('w, (u32 \<times> ksd_frame option \<times> u32) option) client" where
  "read_event h timeout_ms expected_opcode = do {
     start \<leftarrow> ksd_monotonic_milliseconds (ho_kernel h);
     let deadline = (if timeout_ms = 0xFFFFFFFF then UINT64_MAX else start + ucast timeout_ms);
     and_on (event_rounds h timeout_ms deadline (ho_patience h)) (judge_event expected_opcode) }"

text \<open>The caller's event structure; a text that is NULL is the empty one.\<close>

record state_output =
  so_struct_size :: u32
  so_event :: ksd_state_event

definition sizeof_state_event :: u32 where
  "sizeof_state_event = 360"

definition KSD_MAX_WATCH_TIMEOUT_MS :: u32 where
  "KSD_MAX_WATCH_TIMEOUT_MS = 60000"

definition output_clear :: "ksd_state_event \<Rightarrow> bool" where
  "output_clear event \<longleftrightarrow> ev_kind event = 0 \<and> ev_data event = [] \<and> w_title (ev_window event) = [] \<and> w_app_id (ev_window event) = []
     \<and> w_capture_id (ev_window event) = [] \<and> w_compositor_id (ev_window event) = []"

definition give_event :: "'w host \<Rightarrow> state_output \<Rightarrow> u32 \<times> ksd_frame option \<times> u32 \<Rightarrow> ('w, (u32 \<times> state_output) option) client" where
  "give_event h out answer = (case answer of (status, frame, revoked) \<Rightarrow>
     if status = KSD_STATUS_REVOKED
     then do {
       c \<leftarrow> data;
       reset_error;
       return (Some (KSD_STATUS_OK, out\<lparr>so_event := (so_event out)\<lparr>ev_kind := KSD_STATE_GRANT_CHANGED, ev_domain := KSD_STATE_GRANTS,
         ev_revoked_scopes := revoked, ev_granted_scopes := cn_granted_scopes c\<rparr>\<rparr>)) }
     else case (if status = KSD_STATUS_OK then frame else None) of
       None \<Rightarrow> return (Some (status, out))
     | Some frame \<Rightarrow>
         case ksd_state_event_decode (kn_alloc (ho_kernel h)) (payload_bytes frame) of
           None \<Rightarrow> do { set_errno EPROTO; status \<leftarrow> system_failure ''desktop service sent invalid state data''; return (Some (status, out)) }
         | Some parsed \<Rightarrow> do {
             update (\<lambda>c. if ev_domain parsed = KSD_STATE_GRANTS then c\<lparr>cn_granted_scopes := ev_granted_scopes parsed\<rparr> else c);
             note_events [Delivered frame];
             return (Some (KSD_STATUS_OK, out\<lparr>so_struct_size := sizeof_state_event, so_event := parsed\<rparr>)) })"

definition ksd_state_next :: "'w host \<Rightarrow> u32 \<Rightarrow> state_output option \<Rightarrow> ('w, (u32 \<times> state_output option) option) client" where
  "ksd_state_next h timeout_ms out = do {
     c \<leftarrow> data;
     case out of None \<Rightarrow> do { status \<leftarrow> invalid_argument ''invalid desktop state poll''; return (Some (status, None)) }
     | Some event \<Rightarrow>
         if \<not> cn_present c \<or> so_struct_size event < sizeof_state_event \<or> \<not> valid_error (cn_error c) \<or> timeout_ms > KSD_MAX_WATCH_TIMEOUT_MS
         then do { status \<leftarrow> invalid_argument ''invalid desktop state poll''; return (Some (status, out)) }
         else if \<not> output_clear (so_event event)
         then do { status \<leftarrow> invalid_argument ''clear the desktop state output before reuse''; return (Some (status, out)) }
         else and_on (read_event h timeout_ms KSD_OP_STATE_EVENT) (\<lambda>answer.
           and_on (give_event h event answer) (\<lambda>(status, event). return (Some (status, Some event)))) }"

end
