(* ===== verification/Client_Calls.thy ===== *)
theory Client_Calls
  imports Client
begin

text \<open>
  The calls of the client library (src/src/client.c): the structures a caller passes in and
  out, the readings of response tails, and one definition for each public function. A
  call answers its status, and the caller's structure as the call leaves it where there is
  one. A pointer that may be NULL is an option; a C string is the bytes before its end.
\<close>

section \<open>Structures of the caller\<close>

record ksd_bytes =
  by_struct_size :: u32
  by_reserved0 :: u32
  by_data :: "bytes option"
  by_length :: nat
  by_reserved :: "u64 list"

record ksd_string =
  st_struct_size :: u32
  st_reserved0 :: u32
  st_data :: "bytes option"
  st_length :: nat
  st_reserved :: "u64 list"

record ksd_string_list =
  sl_struct_size :: u32
  sl_reserved0 :: u32
  sl_items :: "ksd_string list option"
  sl_count :: nat
  sl_reserved :: "u64 list"

record ksd_capture =
  cp_struct_size :: u32
  cp_format :: u16
  cp_reserved0 :: u16
  cp_width :: u32
  cp_height :: u32
  cp_stride :: u32
  cp_data :: ksd_bytes
  cp_reserved :: "u32 list"

record ksd_point =
  pt_struct_size :: u32
  pt_x :: i32
  pt_y :: i32
  pt_reserved0 :: u32
  pt_reserved :: "u64 list"

record ksd_rectangle =
  rc_struct_size :: u32
  rc_x :: i32
  rc_y :: i32
  rc_width :: u32
  rc_height :: u32
  rc_reserved0 :: u32
  rc_reserved :: "u64 list"

text \<open>Sizes of the structures on a machine with pointers of eight bytes.\<close>

definition sizeof_bytes :: u32 where
  "sizeof_bytes = 40"

definition sizeof_capture :: u32 where
  "sizeof_capture = 96"

definition sizeof_point :: u32 where
  "sizeof_point = 32"

definition sizeof_rectangle :: u32 where
  "sizeof_rectangle = 40"

definition sizeof_permission_revoke :: u32 where
  "sizeof_permission_revoke = 128"

definition ksd_bytes_init :: ksd_bytes where
  "ksd_bytes_init = \<lparr>by_struct_size = sizeof_bytes, by_reserved0 = 0, by_data = None, by_length = 0, by_reserved = [0, 0]\<rparr>"

definition ksd_string_init :: ksd_string where
  "ksd_string_init = \<lparr>st_struct_size = sizeof_bytes, st_reserved0 = 0, st_data = None, st_length = 0, st_reserved = [0, 0]\<rparr>"

definition ksd_string_list_init :: ksd_string_list where
  "ksd_string_list_init = \<lparr>sl_struct_size = sizeof_bytes, sl_reserved0 = 0, sl_items = None, sl_count = 0, sl_reserved = [0, 0]\<rparr>"

definition ksd_capture_init :: ksd_capture where
  "ksd_capture_init = \<lparr>cp_struct_size = sizeof_capture, cp_format = 0, cp_reserved0 = 0, cp_width = 0, cp_height = 0, cp_stride = 0,
     cp_data = ksd_bytes_init, cp_reserved = replicate 8 0\<rparr>"

definition ksd_point_init :: ksd_point where
  "ksd_point_init = \<lparr>pt_struct_size = sizeof_point, pt_x = 0, pt_y = 0, pt_reserved0 = 0, pt_reserved = [0, 0]\<rparr>"

definition ksd_rectangle_init :: ksd_rectangle where
  "ksd_rectangle_init = \<lparr>rc_struct_size = sizeof_rectangle, rc_x = 0, rc_y = 0, rc_width = 0, rc_height = 0, rc_reserved0 = 0, rc_reserved = [0, 0]\<rparr>"

text \<open>Clearing keeps the size the caller declared and does nothing to a structure that is too small.\<close>

definition ksd_bytes_clear :: "ksd_bytes \<Rightarrow> ksd_bytes" where
  "ksd_bytes_clear bytes = (if by_struct_size bytes < sizeof_bytes then bytes else ksd_bytes_init\<lparr>by_struct_size := by_struct_size bytes\<rparr>)"

definition ksd_string_clear :: "ksd_string \<Rightarrow> ksd_string" where
  "ksd_string_clear string = (if st_struct_size string < sizeof_bytes then string else ksd_string_init\<lparr>st_struct_size := st_struct_size string\<rparr>)"

definition ksd_string_list_clear :: "ksd_string_list \<Rightarrow> ksd_string_list" where
  "ksd_string_list_clear list = (if sl_struct_size list < sizeof_bytes then list else ksd_string_list_init\<lparr>sl_struct_size := sl_struct_size list\<rparr>)"

definition ksd_capture_clear :: "ksd_capture \<Rightarrow> ksd_capture" where
  "ksd_capture_clear capture = (if cp_struct_size capture < sizeof_capture then capture else ksd_capture_init\<lparr>cp_struct_size := cp_struct_size capture\<rparr>)"

definition valid_bytes_output :: "ksd_bytes \<Rightarrow> bool" where
  "valid_bytes_output bytes \<longleftrightarrow> by_struct_size bytes \<ge> sizeof_bytes \<and> by_reserved0 bytes = 0 \<and> words_zero (by_reserved bytes)
     \<and> by_data bytes = None \<and> by_length bytes = 0"

definition valid_string_output :: "ksd_string \<Rightarrow> bool" where
  "valid_string_output string \<longleftrightarrow> st_struct_size string \<ge> sizeof_bytes \<and> st_reserved0 string = 0 \<and> words_zero (st_reserved string)
     \<and> st_data string = None \<and> st_length string = 0"

definition valid_string_list_output :: "ksd_string_list \<Rightarrow> bool" where
  "valid_string_list_output list \<longleftrightarrow> sl_struct_size list \<ge> sizeof_bytes \<and> sl_reserved0 list = 0 \<and> words_zero (sl_reserved list)
     \<and> sl_items list = None \<and> sl_count list = 0"

definition valid_capture_output :: "ksd_capture \<Rightarrow> bool" where
  "valid_capture_output capture \<longleftrightarrow> cp_struct_size capture \<ge> sizeof_capture \<and> cp_format capture = 0 \<and> cp_reserved0 capture = 0
     \<and> cp_width capture = 0 \<and> cp_height capture = 0 \<and> cp_stride capture = 0 \<and> list_all (\<lambda>w. w = 0) (cp_reserved capture)
     \<and> valid_bytes_output (cp_data capture)"

definition valid_point_output :: "ksd_point \<Rightarrow> bool" where
  "valid_point_output point \<longleftrightarrow> pt_struct_size point \<ge> sizeof_point \<and> pt_x point = 0 \<and> pt_y point = 0 \<and> pt_reserved0 point = 0
     \<and> words_zero (pt_reserved point)"

definition valid_rectangle_output :: "ksd_rectangle \<Rightarrow> bool" where
  "valid_rectangle_output rectangle \<longleftrightarrow> rc_struct_size rectangle \<ge> sizeof_rectangle \<and> rc_x rectangle = 0 \<and> rc_y rectangle = 0
     \<and> rc_width rectangle = 0 \<and> rc_height rectangle = 0 \<and> rc_reserved0 rectangle = 0 \<and> words_zero (rc_reserved rectangle)"

section \<open>Arguments\<close>

definition int32_max :: int where
  "int32_max = 0x7FFFFFFF"

definition int32_min :: i32 where
  "int32_min = 0x80000000"

definition valid_rpc :: "ksd_connection \<Rightarrow> bool" where
  "valid_rpc c \<longleftrightarrow> cn_present c \<and> cn_role c = ucast KSD_ROLE_RPC"

definition client_rectangle :: "i32 \<Rightarrow> i32 \<Rightarrow> u32 \<Rightarrow> u32 \<Rightarrow> bool" where
  "client_rectangle x y width height \<longleftrightarrow> width \<noteq> 0 \<and> height \<noteq> 0
     \<and> unat width \<le> KSD_MAX_CAPTURE_DIMENSION \<and> unat height \<le> KSD_MAX_CAPTURE_DIMENSION
     \<and> sint x + uint width \<le> int32_max \<and> sint y + uint height \<le> int32_max"

definition valid_window_geometry :: "i32 \<Rightarrow> i32 \<Rightarrow> u32 \<Rightarrow> u32 \<Rightarrow> bool" where
  "valid_window_geometry x y width height \<longleftrightarrow>
     \<not> (x = int32_min \<and> y = int32_min \<and> width = 0 \<and> height = 0)
     \<and> unat width \<le> KSD_MAX_CAPTURE_DIMENSION \<and> unat height \<le> KSD_MAX_CAPTURE_DIMENSION
     \<and> (x = int32_min \<or> width = 0 \<or> sint x + uint width \<le> int32_max)
     \<and> (y = int32_min \<or> height = 0 \<or> sint y + uint height \<le> int32_max)"

definition valid_capture_rectangle :: "i32 \<Rightarrow> i32 \<Rightarrow> u32 \<Rightarrow> u32 \<Rightarrow> bool" where
  "valid_capture_rectangle x y width height \<longleftrightarrow> client_rectangle x y width height \<and> unat width * unat height \<le> KSD_MAX_CAPTURE_PIXELS"

section \<open>Tails of responses\<close>

definition parse_owned_string :: "(nat \<Rightarrow> bool) \<Rightarrow> bytes \<Rightarrow> bool \<Rightarrow> ksd_string option" where
  "parse_owned_string alloc tail prefixed =
     Option.bind (if prefixed
        then Option.bind (ksd_cursor_u32 (ksd_cursor_init tail)) (\<lambda>(n, cursor).
          if unat n > KSD_MAX_TEXT_BYTES then None
          else Option.bind (ksd_cursor_bytes (unat n) cursor) (\<lambda>(contents, cursor). if ksd_cursor_finished cursor then Some contents else None))
        else Some tail) (\<lambda>contents.
      if length contents > KSD_MAX_TEXT_BYTES \<or> \<not> ksd_utf8_valid contents False then None
      else if \<not> alloc (length contents + 1) then None
      else Some (ksd_string_init\<lparr>st_data := Some contents, st_length := length contents\<rparr>))"

definition parse_owned_bytes :: "(nat \<Rightarrow> bool) \<Rightarrow> bytes \<Rightarrow> ksd_bytes option" where
  "parse_owned_bytes alloc tail =
     Option.bind (ksd_cursor_u32 (ksd_cursor_init tail)) (\<lambda>(n, cursor).
       if unat n > KSD_MAX_TEXT_BYTES then None
       else Option.bind (ksd_cursor_bytes (unat n) cursor) (\<lambda>(contents, cursor).
         if \<not> ksd_cursor_finished cursor then None
         else if n \<noteq> 0 \<and> \<not> alloc (unat n) then None
         else Some (ksd_bytes_init\<lparr>by_data := (if n = 0 then None else Some contents), by_length := unat n\<rparr>)))"

text \<open>The items of a list of strings, each counted and not empty.\<close>

primrec parse_items :: "(nat \<Rightarrow> bool) \<Rightarrow> nat \<Rightarrow> ksd_cursor \<Rightarrow> (ksd_string list \<times> ksd_cursor) option" where
  "parse_items alloc 0 cursor = Some ([], cursor)"
| "parse_items alloc (Suc n) cursor =
     Option.bind (ksd_cursor_u32 cursor) (\<lambda>(item_length, cursor).
       if item_length = 0 \<or> unat item_length > KSD_MAX_MIMETYPE_BYTES then None
       else Option.bind (ksd_cursor_bytes (unat item_length) cursor) (\<lambda>(item, cursor).
         Option.bind (parse_owned_string alloc item False) (\<lambda>string.
           map_option (\<lambda>(items, cursor). (string # items, cursor)) (parse_items alloc n cursor))))"

definition parse_string_list_tail :: "(nat \<Rightarrow> bool) \<Rightarrow> bytes \<Rightarrow> ksd_string_list option" where
  "parse_string_list_tail alloc tail =
     Option.bind (ksd_cursor_u32 (ksd_cursor_init tail)) (\<lambda>(n, cursor).
     Option.bind (ksd_cursor_u32 cursor) (\<lambda>(reserved, cursor).
       if unat n > KSD_MAX_MIMETYPES \<or> reserved \<noteq> 0 then None
       else if n \<noteq> 0 \<and> \<not> alloc (unat n * 40) then None
       else Option.bind (parse_items alloc (unat n) cursor) (\<lambda>(items, cursor).
         if \<not> ksd_cursor_finished cursor then None
         else Some (ksd_string_list_init\<lparr>sl_items := (if n = 0 then None else Some items), sl_count := unat n\<rparr>))))"

definition FORMAT_PNG :: u16 where
  "FORMAT_PNG = 1"

definition FORMAT_BGRA8_PREMULTIPLIED :: u16 where
  "FORMAT_BGRA8_PREMULTIPLIED = 2"

definition capture_layout :: "u16 \<Rightarrow> u32 \<Rightarrow> u32 \<Rightarrow> u32 \<Rightarrow> u32 \<Rightarrow> bool" where
  "capture_layout format width height stride n \<longleftrightarrow> width \<noteq> 0 \<and> height \<noteq> 0
     \<and> unat width \<le> KSD_MAX_CAPTURE_DIMENSION \<and> unat height \<le> KSD_MAX_CAPTURE_DIMENSION
     \<and> unat width * unat height \<le> KSD_MAX_CAPTURE_PIXELS \<and> n \<noteq> 0 \<and> unat n \<le> KSD_MAX_CAPTURE_BYTES
     \<and> (format = FORMAT_PNG \<and> stride = 0
        \<or> format = FORMAT_BGRA8_PREMULTIPLIED \<and> unat stride \<ge> unat width * 4 \<and> unat stride * unat height = unat n)"

definition parse_capture_tail :: "(nat \<Rightarrow> bool) \<Rightarrow> bytes \<Rightarrow> ksd_capture option" where
  "parse_capture_tail alloc tail =
     Option.bind (ksd_cursor_u16 (ksd_cursor_init tail)) (\<lambda>(format, cursor).
     Option.bind (ksd_cursor_u16 cursor) (\<lambda>(reserved, cursor).
     Option.bind (ksd_cursor_u32 cursor) (\<lambda>(width, cursor).
     Option.bind (ksd_cursor_u32 cursor) (\<lambda>(height, cursor).
     Option.bind (ksd_cursor_u32 cursor) (\<lambda>(stride, cursor).
     Option.bind (ksd_cursor_u32 cursor) (\<lambda>(n, cursor).
     Option.bind (ksd_cursor_bytes (unat n) cursor) (\<lambda>(contents, cursor).
       if \<not> ksd_cursor_finished cursor \<or> reserved \<noteq> 0 \<or> \<not> capture_layout format width height stride n then None
       else if \<not> alloc (unat n) then None
       else Some (ksd_capture_init\<lparr>cp_format := format, cp_width := width, cp_height := height, cp_stride := stride,
         cp_data := ksd_bytes_init\<lparr>by_data := Some contents, by_length := unat n\<rparr>\<rparr>))))))))"

section \<open>Exchanges\<close>

definition more_follows :: "response \<Rightarrow> bool" where
  "more_follows response \<longleftrightarrow> fr_flags (rs_frame response) AND KSD_FLAG_MORE \<noteq> 0"

text \<open>A status of its own, with the caller's structure left as it was.\<close>

definition refused :: "string \<Rightarrow> 'a \<Rightarrow> ('w, (u32 \<times> 'a) option) client" where
  "refused message out = do { status \<leftarrow> invalid_argument message; return (Some (status, out)) }"

definition refused_status :: "string \<Rightarrow> ('w, u32 option) client" where
  "refused_status message = do { status \<leftarrow> invalid_argument message; return (Some status) }"

definition bad_response :: "response \<Rightarrow> string \<Rightarrow> 'a \<Rightarrow> ('w, (u32 \<times> 'a) option) client" where
  "bad_response response message out = do { status \<leftarrow> invalid_response response message; return (Some (status, out)) }"

text \<open>An answer without data.\<close>

definition finish_empty :: "string \<Rightarrow> u32 \<times> response \<Rightarrow> ('w, u32 option) client" where
  "finish_empty message answer = (case answer of (status, response) \<Rightarrow>
     if status = KSD_STATUS_OK \<and> (rs_tail response \<noteq> [] \<or> more_follows response)
     then do { status \<leftarrow> invalid_response response message; return (Some status) }
     else do { response_clear response; return (Some status) })"

definition request_empty_result :: "'w host \<Rightarrow> u16 \<Rightarrow> bytes \<Rightarrow> ('w, u32 option) client" where
  "request_empty_result h opcode payload =
     and_on (request h opcode payload) (finish_empty ''desktop service returned invalid operation data'')"

text \<open>
  An answer with data: \<open>parse\<close> reads the response or fails, and \<open>out\<close> is the caller's
  structure when there is nothing to put into it.
\<close>

definition finish_parsed :: "(response \<Rightarrow> 'a option) \<Rightarrow> string \<Rightarrow> 'a \<Rightarrow> u32 \<times> response \<Rightarrow> ('w, (u32 \<times> 'a) option) client" where
  "finish_parsed parse message out answer = (case answer of (status, response) \<Rightarrow>
     if status \<noteq> KSD_STATUS_OK then do { response_clear response; return (Some (status, out)) }
     else case (if more_follows response then None else parse response) of
       None \<Rightarrow> bad_response response message out
     | Some parsed \<Rightarrow> do { response_clear response; return (Some (KSD_STATUS_OK, parsed)) })"

section \<open>Sessions\<close>

definition authorize_payload :: "u32 \<Rightarrow> u32 \<Rightarrow> bytes" where
  "authorize_payload mode requested_scopes = ksd_encode_u16 (ucast mode) @ [0, 0] @ ksd_encode_u32 requested_scopes @ replicate 8 0"

definition parse_granted :: "bytes \<Rightarrow> u32 option" where
  "parse_granted tail =
     Option.bind (ksd_cursor_u32 (ksd_cursor_init tail)) (\<lambda>(granted, cursor).
     Option.bind (ksd_cursor_u32 cursor) (\<lambda>(reserved, cursor).
       if \<not> ksd_cursor_finished cursor \<or> reserved \<noteq> 0 then None else Some (granted AND KSD_DESKTOP_ACCEPTED_SCOPES)))"

definition finish_authorize :: "u32 \<Rightarrow> u32 \<times> response \<Rightarrow> ('w, (u32 \<times> u32) option) client" where
  "finish_authorize out answer = (case answer of (status, response) \<Rightarrow>
     if status \<noteq> KSD_STATUS_OK then do { response_clear response; return (Some (status, out)) }
     else case (if more_follows response then None else parse_granted (rs_tail response)) of
       None \<Rightarrow> do {
         set_errno EPROTO;
         status \<leftarrow> system_failure ''desktop service returned invalid authorization'';
         response_clear response;
         return (Some (status, out)) }
     | Some granted \<Rightarrow> do {
         update (\<lambda>c. c\<lparr>cn_granted_scopes := granted\<rparr>);
         response_clear response;
         return (Some (KSD_STATUS_OK, granted)) })"

text \<open>\<open>granted_scopes\<close> is the caller's variable before the call.\<close>

definition ksd_authorize :: "'w host \<Rightarrow> u32 \<Rightarrow> u32 \<Rightarrow> u32 option \<Rightarrow> ('w, (u32 \<times> u32 option) option) client" where
  "ksd_authorize h mode requested_scopes granted_scopes = do {
     c \<leftarrow> data;
     case granted_scopes of None \<Rightarrow> refused ''invalid authorization request'' None
     | Some out \<Rightarrow>
         if \<not> cn_present c \<or> cn_role c \<noteq> ucast KSD_ROLE_AUTHORIZATION_LEASE \<or> \<not> valid_error (cn_error c) \<or> requested_scopes = 0
            \<or> requested_scopes AND NOT KSD_DESKTOP_ACCEPTED_SCOPES \<noteq> 0 \<or> \<not> valid_mode mode
         then refused ''invalid authorization request'' granted_scopes
         else and_on (request h KSD_OP_AUTHORIZE (authorize_payload mode requested_scopes)) (\<lambda>answer.
           and_on (finish_authorize out answer) (\<lambda>(status, out). return (Some (status, Some out)))) }"

definition ksd_ping :: "'w host \<Rightarrow> ('w, u32 option) client" where
  "ksd_ping h = and_on (request h KSD_OP_PING []) (finish_empty ''desktop service returned an invalid PING'')"

section \<open>Permissions\<close>

text \<open>
  The listing: one response for each entry with more to follow, then an empty one. The
  visitor is the caller's function; once it has declined an entry it is not called again.
\<close>

primrec list_rounds :: "'w host \<Rightarrow> (permission_entry \<Rightarrow> 'w \<Rightarrow> bool \<times> 'w) \<Rightarrow> nat \<Rightarrow> bool \<Rightarrow> u32 \<times> response \<Rightarrow> ('w, (u32 \<times> bool \<times> response) option) client" where
  "list_rounds h visitor 0 cancelled answer = return None"
| "list_rounds h visitor (Suc rounds) cancelled answer = (case answer of (status, response) \<Rightarrow>
     if status \<noteq> KSD_STATUS_OK then return (Some (status, cancelled, response))
     else if \<not> more_follows response
     then if rs_tail response \<noteq> []
          then do {
            set_errno EPROTO;
            status \<leftarrow> system_failure ''desktop service returned invalid permission terminator'';
            return (Some (status, cancelled, response)) }
          else return (Some (status, cancelled, response))
     else case parse_permission_entry (rs_tail response) of
       None \<Rightarrow> do {
         set_errno EPROTO;
         status \<leftarrow> system_failure ''desktop service returned invalid permission'';
         return (Some (status, cancelled, response)) }
     | Some entry \<Rightarrow> do {
         wanted \<leftarrow> (if cancelled then return False else call (visitor entry) (\<lambda>_. []));
         response_clear response;
         and_on (read_response h KSD_OP_PERMISSIONS_LIST (fr_request_id (rs_frame response))) (list_rounds h visitor rounds (\<not> wanted)) })"

definition finish_list :: "u32 \<times> bool \<times> response \<Rightarrow> ('w, u32 option) client" where
  "finish_list ended = (case ended of (status, cancelled, response) \<Rightarrow> do {
     (if status = KSD_STATUS_OK \<and> cancelled then set_error 0 0 (Some (ascii ''permission visitor cancelled'')) else return ());
     response_clear response;
     return (Some (if status = KSD_STATUS_OK \<and> cancelled then KSD_STATUS_CANCELLED else status)) })"

definition ksd_permissions_list :: "'w host \<Rightarrow> (permission_entry \<Rightarrow> 'w \<Rightarrow> bool \<times> 'w) option \<Rightarrow> ('w, u32 option) client" where
  "ksd_permissions_list h visitor = do {
     c \<leftarrow> data;
     case visitor of None \<Rightarrow> refused_status ''invalid permissions list request''
     | Some visitor \<Rightarrow>
         if \<not> cn_present c \<or> \<not> valid_error (cn_error c) \<or> cn_role c \<noteq> ucast KSD_ROLE_RPC
         then refused_status ''invalid permissions list request''
         else and_on (request h KSD_OP_PERMISSIONS_LIST []) (\<lambda>answer.
           and_on (list_rounds h visitor (ho_patience h) False answer) finish_list) }"

record ksd_permission_revoke =
  rv_struct_size :: u32
  rv_target_kind :: u32
  rv_scopes :: u32
  rv_reserved0 :: u32
  rv_pid :: u64
  rv_hash :: bytes
  rv_reserved1 :: bytes
  rv_reserved :: "u64 list"

definition ksd_permission_revoke_init :: ksd_permission_revoke where
  "ksd_permission_revoke_init = \<lparr>rv_struct_size = sizeof_permission_revoke, rv_target_kind = 0, rv_scopes = 0, rv_reserved0 = 0, rv_pid = 0,
     rv_hash = replicate 65 0, rv_reserved1 = replicate 7 0, rv_reserved = [0, 0, 0, 0]\<rparr>"

definition TARGET_HASH :: u32 where
  "TARGET_HASH = 1"

definition TARGET_PID :: u32 where
  "TARGET_PID = 2"

definition TARGET_ALL :: u32 where
  "TARGET_ALL = 3"

text \<open>The diagnostic of an inadmissible target.\<close>

definition target_problem :: "ksd_permission_revoke \<Rightarrow> string option" where
  "target_problem revoke =
     (if rv_target_kind revoke = TARGET_HASH
      then if rv_pid revoke \<noteq> 0 \<or> \<not> canonical_hash (cstring (rv_hash revoke)) then Some ''invalid permission hash target'' else None
      else if rv_target_kind revoke = TARGET_PID
      then if rv_pid revoke = 0 \<or> uint (rv_pid revoke) > int32_max \<or> \<not> bytes_are_zero (rv_hash revoke) then Some ''invalid permission pid target'' else None
      else if rv_target_kind revoke = TARGET_ALL
      then if rv_pid revoke \<noteq> 0 \<or> \<not> bytes_are_zero (rv_hash revoke) then Some ''invalid permission all target'' else None
      else Some ''invalid permission target kind'')"

definition revoke_payload :: "ksd_permission_revoke \<Rightarrow> bytes" where
  "revoke_payload revoke = ksd_encode_u32 (rv_target_kind revoke) @ ksd_encode_u32 (rv_scopes revoke) @ ksd_encode_u64 (rv_pid revoke)
     @ (if rv_target_kind revoke = TARGET_HASH then text_hash_to_raw (rv_hash revoke) else replicate 32 0)"

definition ksd_permissions_revoke :: "'w host \<Rightarrow> ksd_permission_revoke option \<Rightarrow> ('w, u32 option) client" where
  "ksd_permissions_revoke h revoke = do {
     c \<leftarrow> data;
     case revoke of None \<Rightarrow> refused_status ''invalid permissions revoke request''
     | Some revoke \<Rightarrow>
         if \<not> cn_present c \<or> \<not> valid_error (cn_error c) \<or> cn_role c \<noteq> ucast KSD_ROLE_RPC \<or> rv_struct_size revoke < sizeof_permission_revoke
            \<or> rv_scopes revoke = 0 \<or> rv_scopes revoke AND NOT KSD_DESKTOP_MANAGED_SCOPES \<noteq> 0 \<or> rv_reserved0 revoke \<noteq> 0
            \<or> \<not> bytes_are_zero (rv_reserved1 revoke) \<or> \<not> words_zero (rv_reserved revoke)
         then refused_status ''invalid permissions revoke request''
         else case target_problem revoke of Some message \<Rightarrow> refused_status message
         | None \<Rightarrow> and_on (request h KSD_OP_PERMISSIONS_REVOKE (revoke_payload revoke)) (finish_empty ''desktop service returned invalid revoke response'') }"

section \<open>Captures\<close>

text \<open>A capture comes as a descriptor that must be sealed and of a size a capture can have.\<close>

definition sealed_capture_descriptor :: "'w host \<Rightarrow> int \<Rightarrow> ('w, nat option) client" where
  "sealed_capture_descriptor h descriptor = do {
     sealed \<leftarrow> call (ho_sealed h descriptor) (\<lambda>_. []);
     if descriptor < 0 \<or> \<not> sealed then return None
     else do {
       bytes \<leftarrow> call (ho_regular_size h descriptor) (\<lambda>_. []);
       return (case bytes of None \<Rightarrow> None | Some n \<Rightarrow> if n < 20 \<or> n > int KSD_MAX_CAPTURE_TAIL then None else Some (nat n)) }}"

definition map_capture_payload :: "'w host \<Rightarrow> response \<Rightarrow> ('w, response option) client" where
  "map_capture_payload h response = do {
     n \<leftarrow> sealed_capture_descriptor h (rs_payload_fd response);
     case n of None \<Rightarrow> return None
     | Some n \<Rightarrow> do {
         mapped \<leftarrow> call (ho_mmap h (rs_payload_fd response) n) (\<lambda>_. []);
         return (map_option (\<lambda>contents. response\<lparr>rs_tail := contents\<rparr>) mapped) }}"

definition finish_capture :: "'w host \<Rightarrow> ksd_capture \<Rightarrow> u32 \<times> response \<Rightarrow> ('w, (u32 \<times> ksd_capture) option) client" where
  "finish_capture h out answer = (case answer of (status, response) \<Rightarrow>
     if status \<noteq> KSD_STATUS_OK then do { response_clear response; return (Some (status, out)) }
     else do {
       mapped \<leftarrow> (if more_follows response \<or> rs_payload_fd response < 0 then return None else map_capture_payload h response);
       case Option.bind mapped (\<lambda>response. parse_capture_tail (kn_alloc (ho_kernel h)) (rs_tail response)) of
         None \<Rightarrow> bad_response response ''desktop service returned invalid capture data'' out
       | Some parsed \<Rightarrow> do { response_clear response; return (Some (KSD_STATUS_OK, parsed)) }})"

definition request_capture :: "'w host \<Rightarrow> u16 \<Rightarrow> bytes \<Rightarrow> ksd_capture option \<Rightarrow> ('w, (u32 \<times> ksd_capture option) option) client" where
  "request_capture h opcode payload capture = do {
     c \<leftarrow> data;
     case capture of None \<Rightarrow> refused ''invalid capture request'' None
     | Some out \<Rightarrow>
         if \<not> valid_rpc c \<or> \<not> valid_capture_output out \<or> \<not> valid_error (cn_error c) then refused ''invalid capture request'' capture
         else and_on (request h opcode payload) (\<lambda>answer.
           and_on (finish_capture h out answer) (\<lambda>(status, out). return (Some (status, Some out)))) }"

definition area_payload :: "i32 \<Rightarrow> i32 \<Rightarrow> u32 \<Rightarrow> u32 \<Rightarrow> bytes" where
  "area_payload x y width height = ksd_encode_u32 x @ ksd_encode_u32 y @ ksd_encode_u32 width @ ksd_encode_u32 height"

definition ksd_capture_area :: "'w host \<Rightarrow> i32 \<Rightarrow> i32 \<Rightarrow> u32 \<Rightarrow> u32 \<Rightarrow> ksd_capture option \<Rightarrow> ('w, (u32 \<times> ksd_capture option) option) client" where
  "ksd_capture_area h x y width height capture =
     (if \<not> valid_capture_rectangle x y width height then refused ''invalid capture rectangle'' capture
      else request_capture h KSD_OP_CAPTURE_AREA (area_payload x y width height) capture)"

definition ksd_capture_desktop :: "'w host \<Rightarrow> ksd_capture option \<Rightarrow> ('w, (u32 \<times> ksd_capture option) option) client" where
  "ksd_capture_desktop h capture = request_capture h KSD_OP_CAPTURE_DESKTOP [] capture"

definition counted :: "bytes \<Rightarrow> bytes" where
  "counted contents = ksd_encode_u32 (of_nat (length contents)) @ contents"

definition capture_window_payload :: "u32 \<Rightarrow> bytes \<Rightarrow> bytes" where
  "capture_window_payload include_decoration window_id = ksd_encode_u32 include_decoration @ counted window_id"

definition ksd_capture_window :: "'w host \<Rightarrow> bytes option \<Rightarrow> u32 \<Rightarrow> ksd_capture option \<Rightarrow> ('w, (u32 \<times> ksd_capture option) option) client" where
  "ksd_capture_window h window_id include_decoration capture =
     (case window_id of None \<Rightarrow> refused ''invalid window capture request'' capture
      | Some window_id \<Rightarrow>
          if include_decoration > 1 then refused ''invalid window capture request'' capture
          else if window_id = [] \<or> length window_id > 128 \<or> \<not> ksd_utf8_valid window_id False then refused ''invalid window identifier'' capture
          else request_capture h KSD_OP_CAPTURE_WINDOW (capture_window_payload include_decoration window_id) capture)"

section \<open>Positions\<close>

definition parse_position :: "ksd_point \<Rightarrow> response \<Rightarrow> ksd_point option" where
  "parse_position position response =
     (if length (rs_tail response) \<noteq> 8 then None
      else Some (ksd_point_init\<lparr>pt_struct_size := pt_struct_size position, pt_x := ksd_decode_u32 (rs_tail response),
        pt_y := ksd_decode_u32 (drop 4 (rs_tail response))\<rparr>))"

definition ksd_cursor_position :: "'w host \<Rightarrow> ksd_point option \<Rightarrow> ('w, (u32 \<times> ksd_point option) option) client" where
  "ksd_cursor_position h position = do {
     c \<leftarrow> data;
     case position of None \<Rightarrow> refused ''invalid cursor-position request'' None
     | Some out \<Rightarrow>
         if \<not> valid_rpc c \<or> \<not> valid_point_output out \<or> \<not> valid_error (cn_error c) then refused ''invalid cursor-position request'' position
         else and_on (request h KSD_OP_CURSOR_POSITION [])
           (finish_parsed (\<lambda>response. map_option Some (parse_position out response)) ''desktop service returned invalid cursor-position data'' position) }"

text \<open>The bounds of a work area have a diagnostic of their own.\<close>

definition valid_work_area :: "bytes \<Rightarrow> bool" where
  "valid_work_area tail =
     (let x = ksd_decode_u32 tail; y = ksd_decode_u32 (drop 4 tail); width = ksd_decode_u32 (drop 8 tail); height = ksd_decode_u32 (drop 12 tail) in
      width \<noteq> 0 \<and> height \<noteq> 0 \<and> uint width \<le> int32_max \<and> uint height \<le> int32_max
      \<and> sint x + uint width \<le> int32_max \<and> sint y + uint height \<le> int32_max)"

definition finish_work_area :: "ksd_rectangle \<Rightarrow> u32 \<times> response \<Rightarrow> ('w, (u32 \<times> ksd_rectangle) option) client" where
  "finish_work_area area answer = (case answer of (status, response) \<Rightarrow>
     let tail = rs_tail response in
     if status \<noteq> KSD_STATUS_OK then do { response_clear response; return (Some (status, area)) }
     else if more_follows response \<or> length tail \<noteq> 16 then bad_response response ''desktop service returned invalid work-area data'' area
     else if \<not> valid_work_area tail then bad_response response ''desktop service returned invalid work-area bounds'' area
     else do {
       response_clear response;
       return (Some (KSD_STATUS_OK, ksd_rectangle_init\<lparr>rc_struct_size := rc_struct_size area, rc_x := ksd_decode_u32 tail,
         rc_y := ksd_decode_u32 (drop 4 tail), rc_width := ksd_decode_u32 (drop 8 tail), rc_height := ksd_decode_u32 (drop 12 tail)\<rparr>)) })"

definition ksd_work_area :: "'w host \<Rightarrow> ksd_rectangle option \<Rightarrow> ('w, (u32 \<times> ksd_rectangle option) option) client" where
  "ksd_work_area h area = do {
     c \<leftarrow> data;
     case area of None \<Rightarrow> refused ''invalid work-area request'' None
     | Some out \<Rightarrow>
         if \<not> valid_rpc c \<or> \<not> valid_rectangle_output out \<or> \<not> valid_error (cn_error c) then refused ''invalid work-area request'' area
         else and_on (request h KSD_OP_WORK_AREA []) (\<lambda>answer.
           and_on (finish_work_area out answer) (\<lambda>(status, out). return (Some (status, Some out)))) }"

section \<open>Texts\<close>

definition request_string_result :: "'w host \<Rightarrow> u16 \<Rightarrow> bytes \<Rightarrow> ksd_string option \<Rightarrow> ('w, (u32 \<times> ksd_string option) option) client" where
  "request_string_result h opcode payload string = do {
     c \<leftarrow> data;
     case string of None \<Rightarrow> refused ''invalid desktop text request'' None
     | Some out \<Rightarrow>
         if \<not> valid_rpc c \<or> \<not> valid_string_output out \<or> \<not> valid_error (cn_error c) then refused ''invalid desktop text request'' string
         else and_on (request h opcode payload)
           (finish_parsed (\<lambda>response. map_option Some (parse_owned_string (kn_alloc (ho_kernel h)) (rs_tail response) True))
             ''desktop service returned invalid text data'' string) }"

definition list_payload :: "u32 \<Rightarrow> bytes" where
  "list_payload include_hidden = ksd_encode_u32 include_hidden @ replicate 4 0"

definition ksd_window_list_json :: "'w host \<Rightarrow> u32 \<Rightarrow> ksd_string option \<Rightarrow> ('w, (u32 \<times> ksd_string option) option) client" where
  "ksd_window_list_json h include_hidden json =
     (if include_hidden > 1 then refused ''invalid include-hidden value'' json
      else request_string_result h KSD_OP_WINDOW_LIST (list_payload include_hidden) json)"

definition ksd_window_handles_json :: "'w host \<Rightarrow> ksd_string option \<Rightarrow> ('w, (u32 \<times> ksd_string option) option) client" where
  "ksd_window_handles_json h json = request_string_result h KSD_OP_WINDOW_HANDLES [] json"

definition ksd_window_active_json :: "'w host \<Rightarrow> ksd_string option \<Rightarrow> ('w, (u32 \<times> ksd_string option) option) client" where
  "ksd_window_active_json h json = request_string_result h KSD_OP_WINDOW_ACTIVE [] json"

definition request_window_json :: "'w host \<Rightarrow> u16 \<Rightarrow> u64 \<Rightarrow> ksd_string option \<Rightarrow> ('w, (u32 \<times> ksd_string option) option) client" where
  "request_window_json h opcode handle json =
     (if handle = 0 then refused ''invalid window handle'' json else request_string_result h opcode (ksd_encode_u64 handle) json)"

definition ksd_window_query_json :: "'w host \<Rightarrow> u64 \<Rightarrow> ksd_string option \<Rightarrow> ('w, (u32 \<times> ksd_string option) option) client" where
  "ksd_window_query_json h handle json = request_window_json h KSD_OP_WINDOW_QUERY handle json"

definition ksd_window_children_json :: "'w host \<Rightarrow> u64 \<Rightarrow> ksd_string option \<Rightarrow> ('w, (u32 \<times> ksd_string option) option) client" where
  "ksd_window_children_json h parent json = request_window_json h KSD_OP_WINDOW_CHILDREN parent json"

definition at_point_payload :: "i32 \<Rightarrow> i32 \<Rightarrow> u32 \<Rightarrow> bytes" where
  "at_point_payload x y deepest = ksd_encode_u32 x @ ksd_encode_u32 y @ ksd_encode_u32 deepest @ replicate 4 0"

definition ksd_window_at_point_json :: "'w host \<Rightarrow> i32 \<Rightarrow> i32 \<Rightarrow> u32 \<Rightarrow> ksd_string option \<Rightarrow> ('w, (u32 \<times> ksd_string option) option) client" where
  "ksd_window_at_point_json h x y deepest json =
     (if deepest > 1 then refused ''invalid child-window selection'' json
      else request_string_result h KSD_OP_WINDOW_AT_POINT (at_point_payload x y deepest) json)"

definition ksd_display_list_json :: "'w host \<Rightarrow> ksd_string option \<Rightarrow> ('w, (u32 \<times> ksd_string option) option) client" where
  "ksd_display_list_json h json = request_string_result h KSD_OP_DISPLAY_LIST [] json"

definition ksd_keyboard_state_json :: "'w host \<Rightarrow> ksd_string option \<Rightarrow> ('w, (u32 \<times> ksd_string option) option) client" where
  "ksd_keyboard_state_json h json = request_string_result h KSD_OP_KEYBOARD_STATE [] json"

definition ksd_keyboard_state_since_json :: "'w host \<Rightarrow> bytes option \<Rightarrow> ksd_string option \<Rightarrow> ('w, (u32 \<times> ksd_string option) option) client" where
  "ksd_keyboard_state_since_json h known_revision json =
     (case known_revision of None \<Rightarrow> refused ''invalid keyboard keymap revision'' json
      | Some revision \<Rightarrow>
          if length revision > 64 \<or> \<not> ksd_utf8_valid revision False then refused ''invalid keyboard keymap revision'' json
          else request_string_result h KSD_OP_KEYBOARD_STATE (counted revision) json)"

section \<open>Windows\<close>

definition request_handle :: "'w host \<Rightarrow> u16 \<Rightarrow> u64 \<Rightarrow> ('w, u32 option) client" where
  "request_handle h opcode handle = do {
     c \<leftarrow> data;
     if \<not> valid_rpc c \<or> handle = 0 \<or> \<not> valid_error (cn_error c) then refused_status ''invalid window handle request''
     else request_empty_result h opcode (ksd_encode_u64 handle) }"

definition ksd_window_focus :: "'w host \<Rightarrow> u64 \<Rightarrow> ('w, u32 option) client" where
  "ksd_window_focus h handle = request_handle h KSD_OP_WINDOW_FOCUS handle"

definition ksd_window_raise :: "'w host \<Rightarrow> u64 \<Rightarrow> ('w, u32 option) client" where
  "ksd_window_raise h handle = request_handle h KSD_OP_WINDOW_RAISE handle"

definition ksd_window_lower :: "'w host \<Rightarrow> u64 \<Rightarrow> ('w, u32 option) client" where
  "ksd_window_lower h handle = request_handle h KSD_OP_WINDOW_LOWER handle"

definition ksd_window_close :: "'w host \<Rightarrow> u64 \<Rightarrow> ('w, u32 option) client" where
  "ksd_window_close h handle = request_handle h KSD_OP_WINDOW_CLOSE handle"

definition ksd_window_kill :: "'w host \<Rightarrow> u64 \<Rightarrow> ('w, u32 option) client" where
  "ksd_window_kill h handle = request_handle h KSD_OP_WINDOW_KILL handle"

definition geometry_payload :: "u64 \<Rightarrow> i32 \<Rightarrow> i32 \<Rightarrow> u32 \<Rightarrow> u32 \<Rightarrow> bytes" where
  "geometry_payload handle x y width height = ksd_encode_u64 handle @ area_payload x y width height"

definition request_geometry :: "'w host \<Rightarrow> u16 \<Rightarrow> u64 \<Rightarrow> i32 \<Rightarrow> i32 \<Rightarrow> u32 \<Rightarrow> u32 \<Rightarrow> ('w, u32 option) client" where
  "request_geometry h opcode handle x y width height = do {
     c \<leftarrow> data;
     if \<not> valid_rpc c \<or> handle = 0 \<or> \<not> valid_window_geometry x y width height \<or> \<not> valid_error (cn_error c)
     then refused_status ''invalid window geometry request''
     else request_empty_result h opcode (geometry_payload handle x y width height) }"

definition ksd_window_move_resize :: "'w host \<Rightarrow> u64 \<Rightarrow> i32 \<Rightarrow> i32 \<Rightarrow> u32 \<Rightarrow> u32 \<Rightarrow> ('w, u32 option) client" where
  "ksd_window_move_resize h handle x y width height = request_geometry h KSD_OP_WINDOW_MOVE_RESIZE handle x y width height"

definition ksd_window_move_resize_xid :: "'w host \<Rightarrow> u64 \<Rightarrow> i32 \<Rightarrow> i32 \<Rightarrow> u32 \<Rightarrow> u32 \<Rightarrow> ('w, u32 option) client" where
  "ksd_window_move_resize_xid h xid x y width height = request_geometry h KSD_OP_WINDOW_MOVE_RESIZE_XID xid x y width height"

definition setting_payload :: "u64 \<Rightarrow> u32 \<Rightarrow> bytes" where
  "setting_payload handle setting = ksd_encode_u64 handle @ ksd_encode_u32 setting @ replicate 4 0"

definition request_window_value :: "'w host \<Rightarrow> u16 \<Rightarrow> u64 \<Rightarrow> u32 \<Rightarrow> u32 \<Rightarrow> ('w, u32 option) client" where
  "request_window_value h opcode handle setting maximum = do {
     c \<leftarrow> data;
     if \<not> valid_rpc c \<or> handle = 0 \<or> setting > maximum \<or> \<not> valid_error (cn_error c) then refused_status ''invalid window value request''
     else request_empty_result h opcode (setting_payload handle setting) }"

definition ksd_window_set_state :: "'w host \<Rightarrow> u64 \<Rightarrow> u32 \<Rightarrow> ('w, u32 option) client" where
  "ksd_window_set_state h handle state = request_window_value h KSD_OP_WINDOW_SET_STATE handle state 3"

definition ksd_window_set_opacity :: "'w host \<Rightarrow> u64 \<Rightarrow> u32 \<Rightarrow> ('w, u32 option) client" where
  "ksd_window_set_opacity h handle opacity = request_window_value h KSD_OP_WINDOW_SET_OPACITY handle opacity 255"

definition ksd_window_set_above :: "'w host \<Rightarrow> u64 \<Rightarrow> u32 \<Rightarrow> ('w, u32 option) client" where
  "ksd_window_set_above h handle on_top = request_window_value h KSD_OP_WINDOW_SET_ABOVE handle on_top 1"

definition ksd_window_set_decorated :: "'w host \<Rightarrow> u64 \<Rightarrow> u32 \<Rightarrow> ('w, u32 option) client" where
  "ksd_window_set_decorated h handle decorated = request_window_value h KSD_OP_WINDOW_SET_DECORATED handle decorated 1"

definition ksd_window_set_skip_taskbar :: "'w host \<Rightarrow> u64 \<Rightarrow> u32 \<Rightarrow> ('w, u32 option) client" where
  "ksd_window_set_skip_taskbar h handle skip = request_window_value h KSD_OP_WINDOW_SET_SKIP_TASKBAR handle skip 1"

definition title_payload :: "u64 \<Rightarrow> bytes \<Rightarrow> bytes" where
  "title_payload handle title = ksd_encode_u64 handle @ counted title"

definition ksd_window_set_title :: "'w host \<Rightarrow> u64 \<Rightarrow> bytes option \<Rightarrow> ('w, u32 option) client" where
  "ksd_window_set_title h handle title = do {
     c \<leftarrow> data;
     case title of None \<Rightarrow> refused_status ''invalid window title''
     | Some title \<Rightarrow>
         if \<not> valid_rpc c \<or> \<not> valid_error (cn_error c) \<or> handle = 0 \<or> length title > KSD_MAX_REQUEST_PAYLOAD - 12 \<or> \<not> ksd_utf8_valid title False
         then refused_status ''invalid window title''
         else request_empty_result h KSD_OP_WINDOW_SET_TITLE (title_payload handle title) }"

definition ksd_window_set_visible :: "'w host \<Rightarrow> u64 \<Rightarrow> u32 \<Rightarrow> ('w, u32 option) client" where
  "ksd_window_set_visible h handle visible = request_window_value h KSD_OP_WINDOW_SET_VISIBLE handle visible 1"

definition ksd_window_redraw :: "'w host \<Rightarrow> u64 \<Rightarrow> ('w, u32 option) client" where
  "ksd_window_redraw h handle = request_handle h KSD_OP_WINDOW_REDRAW handle"

definition pointer_payload :: "u64 \<Rightarrow> i32 \<Rightarrow> i32 \<Rightarrow> u32 \<Rightarrow> u32 \<Rightarrow> bytes" where
  "pointer_payload handle x y button clicks = ksd_encode_u64 handle @ ksd_encode_u32 x @ ksd_encode_u32 y @ ksd_encode_u32 button @ ksd_encode_u32 clicks"

definition ksd_window_click :: "'w host \<Rightarrow> u64 \<Rightarrow> i32 \<Rightarrow> i32 \<Rightarrow> u32 \<Rightarrow> u32 \<Rightarrow> ('w, u32 option) client" where
  "ksd_window_click h handle x y button clicks = do {
     c \<leftarrow> data;
     if \<not> valid_rpc c \<or> \<not> valid_error (cn_error c) \<or> handle = 0 \<or> button < 1 \<or> button > 5 \<or> clicks < 1 \<or> clicks > 100
     then refused_status ''invalid window click''
     else request_empty_result h KSD_OP_WINDOW_CLICK (pointer_payload handle x y button clicks) }"

definition ksd_window_button :: "'w host \<Rightarrow> u64 \<Rightarrow> i32 \<Rightarrow> i32 \<Rightarrow> u32 \<Rightarrow> u32 \<Rightarrow> ('w, u32 option) client" where
  "ksd_window_button h handle x y button down = do {
     c \<leftarrow> data;
     if \<not> valid_rpc c \<or> \<not> valid_error (cn_error c) \<or> handle = 0 \<or> button < 1 \<or> button > 32 \<or> down > 1
     then refused_status ''invalid window button event''
     else request_empty_result h KSD_OP_WINDOW_BUTTON (pointer_payload handle x y button down) }"

definition ksd_window_focus_child :: "'w host \<Rightarrow> u64 \<Rightarrow> ('w, u32 option) client" where
  "ksd_window_focus_child h handle = request_handle h KSD_OP_WINDOW_FOCUS_CHILD handle"

definition reserve_payload :: "u64 \<Rightarrow> i32 \<Rightarrow> i32 \<Rightarrow> u32 \<Rightarrow> bytes" where
  "reserve_payload cookie x y ttl_ms = ksd_encode_u64 cookie @ ksd_encode_u32 x @ ksd_encode_u32 y @ ksd_encode_u32 ttl_ms @ replicate 4 0"

definition ksd_window_reserve :: "'w host \<Rightarrow> u64 \<Rightarrow> i32 \<Rightarrow> i32 \<Rightarrow> u32 \<Rightarrow> ('w, u32 option) client" where
  "ksd_window_reserve h cookie x y ttl_ms = do {
     c \<leftarrow> data;
     if \<not> valid_rpc c \<or> cookie = 0 \<or> ttl_ms = 0 \<or> ttl_ms > 60000 \<or> \<not> valid_error (cn_error c)
     then refused_status ''invalid window reservation request''
     else request_empty_result h KSD_OP_WINDOW_RESERVE (reserve_payload cookie x y ttl_ms) }"

definition parse_reserved :: "response \<Rightarrow> u64 option" where
  "parse_reserved response =
     (if length (rs_tail response) \<noteq> 8 \<or> ksd_decode_u64 (rs_tail response) = 0 then None else Some (ksd_decode_u64 (rs_tail response)))"

definition ksd_window_get_reserved :: "'w host \<Rightarrow> u64 \<Rightarrow> u64 option \<Rightarrow> ('w, (u32 \<times> u64 option) option) client" where
  "ksd_window_get_reserved h cookie handle = do {
     c \<leftarrow> data;
     if \<not> valid_rpc c \<or> cookie = 0 \<or> handle = None \<or> \<not> valid_error (cn_error c) then refused ''invalid reserved-window request'' handle
     else and_on (request h KSD_OP_WINDOW_GET_RESERVED (ksd_encode_u64 cookie))
       (finish_parsed (\<lambda>response. map_option Some (parse_reserved response)) ''desktop service returned an invalid window'' handle) }"

section \<open>Clipboard\<close>

definition ksd_clipboard_mimetypes :: "'w host \<Rightarrow> ksd_string_list option \<Rightarrow> ('w, (u32 \<times> ksd_string_list option) option) client" where
  "ksd_clipboard_mimetypes h mimetypes = do {
     c \<leftarrow> data;
     case mimetypes of None \<Rightarrow> refused ''invalid clipboard format request'' None
     | Some out \<Rightarrow>
         if \<not> valid_rpc c \<or> \<not> valid_string_list_output out \<or> \<not> valid_error (cn_error c) then refused ''invalid clipboard format request'' mimetypes
         else and_on (request h KSD_OP_CLIPBOARD_MIMETYPES [])
           (finish_parsed (\<lambda>response. map_option Some (parse_string_list_tail (kn_alloc (ho_kernel h)) (rs_tail response)))
             ''desktop service returned invalid formats'' mimetypes) }"

definition valid_mimetype :: "bytes \<Rightarrow> bool" where
  "valid_mimetype mimetype \<longleftrightarrow> mimetype \<noteq> [] \<and> length mimetype \<le> KSD_MAX_MIMETYPE_BYTES \<and> ksd_utf8_valid mimetype False"

definition ksd_clipboard_content :: "'w host \<Rightarrow> bytes option \<Rightarrow> ksd_bytes option \<Rightarrow> ('w, (u32 \<times> ksd_bytes option) option) client" where
  "ksd_clipboard_content h mimetype content = do {
     c \<leftarrow> data;
     case (mimetype, content) of
       (Some mimetype, Some out) \<Rightarrow>
         if \<not> valid_rpc c \<or> \<not> valid_bytes_output out \<or> \<not> valid_error (cn_error c) then refused ''invalid clipboard content request'' content
         else if \<not> valid_mimetype mimetype then refused ''invalid clipboard mimetype'' content
         else and_on (request h KSD_OP_CLIPBOARD_CONTENT (counted mimetype))
           (finish_parsed (\<lambda>response. map_option Some (parse_owned_bytes (kn_alloc (ho_kernel h)) (rs_tail response)))
             ''desktop service returned invalid clipboard data'' content)
     | _ \<Rightarrow> refused ''invalid clipboard content request'' content }"

definition ksd_clipboard_text :: "'w host \<Rightarrow> ksd_string option \<Rightarrow> ('w, (u32 \<times> ksd_string option) option) client" where
  "ksd_clipboard_text h string = request_string_result h KSD_OP_CLIPBOARD_TEXT [] string"

definition KSD_CLIPBOARD_TEXT_MIMETYPE :: bytes where
  "KSD_CLIPBOARD_TEXT_MIMETYPE = ascii ''text/plain;charset=utf-8''"

definition clipboard_payload :: "bytes \<Rightarrow> bytes \<Rightarrow> bytes" where
  "clipboard_payload mimetype contents = counted mimetype @ counted contents"

text \<open>\<open>contents\<close> may be NULL when it is empty.\<close>

definition clipboard_write :: "'w host \<Rightarrow> bytes option \<Rightarrow> bytes \<Rightarrow> ('w, u32 option) client" where
  "clipboard_write h mimetype contents = do {
     c \<leftarrow> data;
     case mimetype of None \<Rightarrow> refused_status ''invalid clipboard write request''
     | Some mimetype \<Rightarrow>
         if \<not> valid_rpc c \<or> \<not> valid_error (cn_error c) then refused_status ''invalid clipboard write request''
         else if \<not> valid_mimetype mimetype \<or> length contents > KSD_MAX_CLIPBOARD_WRITE_BYTES then refused_status ''invalid clipboard write request''
         else if mimetype = KSD_CLIPBOARD_TEXT_MIMETYPE \<and> \<not> ksd_utf8_valid contents False then refused_status ''clipboard text is not valid UTF-8''
         else if \<not> kn_alloc (ho_kernel h) (8 + length mimetype + length contents)
         then do { set_error 0 ENOMEM (Some (ascii ''clipboard write buffer is unavailable'')); return (Some KSD_STATUS_RESOURCE_EXHAUSTED) }
         else request_empty_result h KSD_OP_CLIPBOARD_SET_CONTENT (clipboard_payload mimetype contents) }"

text \<open>\<open>None\<close> as contents is NULL with a length above zero.\<close>

definition ksd_clipboard_set_content :: "'w host \<Rightarrow> bytes option \<Rightarrow> bytes option \<Rightarrow> ('w, u32 option) client" where
  "ksd_clipboard_set_content h mimetype contents =
     (case contents of None \<Rightarrow> refused_status ''invalid clipboard write request'' | Some contents \<Rightarrow> clipboard_write h mimetype contents)"

definition ksd_clipboard_set_text :: "'w host \<Rightarrow> bytes option \<Rightarrow> ('w, u32 option) client" where
  "ksd_clipboard_set_text h contents =
     (case contents of None \<Rightarrow> refused_status ''invalid clipboard text''
      | Some contents \<Rightarrow> clipboard_write h (Some KSD_CLIPBOARD_TEXT_MIMETYPE) contents)"

section \<open>Pointer\<close>

definition pair_payload :: "u32 \<Rightarrow> u32 \<Rightarrow> bytes" where
  "pair_payload one other = ksd_encode_u32 one @ ksd_encode_u32 other"

definition request_pair :: "'w host \<Rightarrow> u16 \<Rightarrow> u32 \<Rightarrow> u32 \<Rightarrow> ('w, u32 option) client" where
  "request_pair h opcode one other = do {
     c \<leftarrow> data;
     if \<not> valid_rpc c \<or> \<not> valid_error (cn_error c) then refused_status ''invalid pointer request''
     else request_empty_result h opcode (pair_payload one other) }"

definition ksd_mouse_move_absolute :: "'w host \<Rightarrow> i32 \<Rightarrow> i32 \<Rightarrow> ('w, u32 option) client" where
  "ksd_mouse_move_absolute h x y = request_pair h KSD_OP_MOUSE_MOVE_ABSOLUTE x y"

definition ksd_mouse_move_relative :: "'w host \<Rightarrow> i32 \<Rightarrow> i32 \<Rightarrow> ('w, u32 option) client" where
  "ksd_mouse_move_relative h dx dy = request_pair h KSD_OP_MOUSE_MOVE_RELATIVE dx dy"

definition ksd_mouse_button :: "'w host \<Rightarrow> u32 \<Rightarrow> u32 \<Rightarrow> ('w, u32 option) client" where
  "ksd_mouse_button h button pressed =
     (if (button \<noteq> 1 \<and> button \<noteq> 2 \<and> button \<noteq> 3 \<and> button \<noteq> 8 \<and> button \<noteq> 9) \<or> pressed > 1
      then refused_status ''invalid pointer button request''
      else request_pair h KSD_OP_MOUSE_BUTTON button pressed)"

definition KSD_MAX_MOUSE_SCROLL_DELTA :: int where
  "KSD_MAX_MOUSE_SCROLL_DELTA = 12000"

definition ksd_mouse_scroll :: "'w host \<Rightarrow> i32 \<Rightarrow> u32 \<Rightarrow> ('w, u32 option) client" where
  "ksd_mouse_scroll h delta vertical =
     (if delta = 0 \<or> sint delta < - KSD_MAX_MOUSE_SCROLL_DELTA \<or> sint delta > KSD_MAX_MOUSE_SCROLL_DELTA \<or> vertical > 1
      then refused_status ''invalid pointer scroll request''
      else request_pair h KSD_OP_MOUSE_SCROLL delta vertical)"

section \<open>State\<close>

definition ksd_state_subscribe :: "'w host \<Rightarrow> u32 \<Rightarrow> ('w, u32 option) client" where
  "ksd_state_subscribe h domains = do {
     c \<leftarrow> data;
     if \<not> cn_present c \<or> cn_role c \<noteq> ucast KSD_ROLE_AUTHORIZATION_LEASE \<or> domains AND NOT KSD_STATE_ALL \<noteq> 0
     then refused_status ''state subscriptions require an authorization lease''
     else request_empty_result h KSD_OP_STATE_SUBSCRIBE (ksd_encode_u32 domains) }"

section \<open>Names\<close>

definition ksd_status_name :: "u32 \<Rightarrow> string" where
  "ksd_status_name status =
     (if status = KSD_STATUS_OK then ''ok'' else if status = KSD_STATUS_DENIED then ''denied''
      else if status = KSD_STATUS_UNSUPPORTED then ''unsupported'' else if status = KSD_STATUS_INVALID_REQUEST then ''invalid-request''
      else if status = KSD_STATUS_UNAVAILABLE then ''unavailable'' else if status = KSD_STATUS_BUSY then ''busy''
      else if status = KSD_STATUS_NOT_FOUND then ''not-found'' else if status = KSD_STATUS_RESOURCE_EXHAUSTED then ''resource-exhausted''
      else if status = KSD_STATUS_TIMEOUT then ''timeout'' else if status = KSD_STATUS_CANCELLED then ''cancelled''
      else if status = KSD_STATUS_REVOKED then ''revoked'' else if status = KSD_STATUS_INTERNAL then ''internal'' else ''unknown'')"

definition ksd_backend_name :: "u32 \<Rightarrow> string" where
  "ksd_backend_name backend =
     (if backend = KSD_BACKEND_NONE then ''none'' else if backend = KSD_BACKEND_KWIN then ''kwin''
      else if backend = KSD_BACKEND_GNOME then ''gnome'' else if backend = KSD_BACKEND_CINNAMON then ''cinnamon''
      else if backend = KSD_BACKEND_GENERIC then ''generic'' else if backend = KSD_BACKEND_X11 then ''x11'' else ''unknown'')"

definition ksd_scope_name :: "u32 \<Rightarrow> string option" where
  "ksd_scope_name scope =
     (if scope = KSD_SCOPE_INPUT_MONITORING then Some ''input-monitoring'' else if scope = KSD_SCOPE_INPUT_CONTROL then Some ''input-control''
      else if scope = KSD_SCOPE_WINDOW_MONITORING then Some ''window-monitoring'' else if scope = KSD_SCOPE_WINDOW_CONTROL then Some ''window-control''
      else if scope = KSD_SCOPE_SCREEN_CAPTURE then Some ''screen-capture'' else if scope = KSD_SCOPE_AUDIO_CAPTURE then Some ''audio-capture''
      else if scope = KSD_SCOPE_CAMERA_CAPTURE then Some ''camera-capture''
      else if scope = KSD_SCOPE_CLIPBOARD_MONITORING then Some ''clipboard-monitoring'' else None)"

definition ksd_error_init :: ksd_error where
  "ksd_error_init = \<lparr>er_struct_size = ksd_error_size, er_detail = 0, er_system_error = 0, er_message = []\<rparr>"

end
