(* ===== verification/Client_Queue.thy ===== *)
theory Client_Queue
  imports Client_Calls
begin

text \<open>
  The event queue of a client connection and the readiness of its poll descriptor, over any
  sequence of calls of the library (src/src/client.c).
\<close>

section \<open>What the log says of frames\<close>

definition is_state_event :: "ksd_frame \<Rightarrow> bool" where
  "is_state_event frame \<longleftrightarrow> fr_flags frame AND KSD_FLAG_EVENT \<noteq> 0 \<and> fr_opcode frame = KSD_OP_STATE_EVENT"

definition came :: "net_event list \<Rightarrow> ksd_frame list" where
  "came es = concat (map (\<lambda>e. case e of Came frame \<Rightarrow> [frame] | _ \<Rightarrow> []) es)"

definition state_events :: "net_event list \<Rightarrow> ksd_frame list" where
  "state_events es = filter is_state_event (came es)"

definition handed_over :: "net_event list \<Rightarrow> ksd_frame list" where
  "handed_over es = concat (map (\<lambda>e. case e of Delivered frame \<Rightarrow> [frame] | _ \<Rightarrow> []) es)"

lemma frame_log_simps [simp]:
  "came [] = []" "came (es @ fs) = came es @ came fs" "came (Came f # es) = f # came es" "came (Received bs # es) = came es"
  "came (Sent bs # es) = came es" "came (Closed fd # es) = came es" "came (Arrived fds # es) = came es" "came (Signalled d # es) = came es"
  "came (Drained d # es) = came es" "came (Hung_Up d # es) = came es" "came (Delivered f # es) = came es" "came (map Closed fds) = []"
  "handed_over [] = []" "handed_over (es @ fs) = handed_over es @ handed_over fs" "handed_over (Delivered f # es) = f # handed_over es"
  "handed_over (Came f # es) = handed_over es" "handed_over (Received bs # es) = handed_over es" "handed_over (Sent bs # es) = handed_over es"
  "handed_over (Closed fd # es) = handed_over es" "handed_over (Arrived fds # es) = handed_over es" "handed_over (Signalled d # es) = handed_over es"
  "handed_over (Drained d # es) = handed_over es" "handed_over (Hung_Up d # es) = handed_over es" "handed_over (map Closed fds) = []"
  by (simp_all add: came_def handed_over_def comp_def)

lemma state_events_simps [simp]:
  "state_events [] = []" "state_events (es @ fs) = state_events es @ state_events fs" "came es = [] \<Longrightarrow> state_events es = []"
  by (simp_all add: state_events_def)

section \<open>Computations that touch only the transport\<close>

text \<open>They change nothing of the connection but \<open>errno\<close>, and neither take in nor hand over a frame.\<close>

definition same :: "'d thread_scheme \<Rightarrow> 'd thread_scheme \<Rightarrow> bool" where
  "same d d' \<longleftrightarrow> d' = d\<lparr>th_errno := th_errno d'\<rparr>"

lemma same_refl [simp]: "same d d"
  by (cases d) (simp add: same_def)

lemma same_errno [simp]: "same d (d\<lparr>th_errno := e\<rparr>)"
  by (simp add: same_def)

lemma same_trans: "same d d' \<Longrightarrow> same d' d'' \<Longrightarrow> same d d''"
  by (cases d; cases d'; cases d'') (auto simp: same_def)

interpretation plain: run_property "\<lambda>d d' es. same d d' \<and> came es = [] \<and> handed_over es = []"
  by standard (auto intro: same_trans)

lemma plain_errno: "plain.steps (set_errno e)"
  unfolding set_errno_def by (intro plain.steps_rules) auto

lemma plain_call: "plain.steps (call f (\<lambda>_. []))"
  by (intro plain.steps_rules) simp

lemma plain_system_call:
  assumes "\<And>x. came (entry x) = [] \<and> handed_over (entry x) = []"
  shows "plain.steps (system_call f entry)"
  unfolding system_call_def
proof (rule plain.steps_bind)
  show "plain.steps (case a of Inl e \<Rightarrow> State_Monad.bind (set_errno e) (\<lambda>_. return None) | Inr x \<Rightarrow> return (Some x))" for a
    by (cases a) (simp_all add: plain.steps_bind plain_errno plain.steps_return)
  show "plain.steps (call f (\<lambda>answer. case answer of Inl x \<Rightarrow> [] | Inr x \<Rightarrow> entry x))"
    by (rule plain.steps_call) (use assms in \<open>auto split: sum.split\<close>)
qed

lemma plain_milliseconds: "plain.steps (ksd_monotonic_milliseconds kn)"
  unfolding ksd_monotonic_milliseconds_def by (intro plain.steps_rules plain_call)

lemma plain_poll_timeout: "plain.steps (poll_timeout kn deadline)"
  unfolding poll_timeout_def by (intro plain.steps_rules plain_errno plain_milliseconds)

lemma plain_poll_end:
  "plain.steps (case ended of Poll_Failed e \<Rightarrow> State_Monad.bind (set_errno e) (\<lambda>_. return False)
      | Poll_Nothing \<Rightarrow> State_Monad.bind (set_errno ETIMEDOUT) (\<lambda>_. return False) | Poll_Ready broken ready \<Rightarrow> return (\<not> broken \<and> ready))"
  by (cases ended) (simp_all add: plain.steps_bind plain_errno plain.steps_return)

lemma plain_wait_rounds: "plain.steps (wait_rounds kn d writing deadline n)"
  by (induction n) (simp_all only: wait_rounds.simps, (intro plain.steps_rules plain_poll_timeout plain_poll_end plain_call plain_errno; assumption?)+)

lemma plain_wait_until: "plain.steps (ksd_wait_until kn d writing deadline)"
  unfolding ksd_wait_until_def by (intro plain.steps_rules plain_wait_rounds plain_call)

lemma plain_socket_deadline: "plain.steps (socket_deadline kn d writing)"
  unfolding socket_deadline_def by (intro plain.steps_rules plain_milliseconds plain_call)

lemma plain_transfer_pass:
  assumes "plain.steps m"
  shows "plain.steps (transfer_pass kn d writing deadline m retries)"
  by (induction retries) (simp_all only: transfer_pass.simps, (intro plain.steps_rules plain_wait_until plain_errno assms; assumption?)+)

lemma plain_receive_passes: "plain.steps (receive_passes kn d deadline n got passes)"
  by (induction passes arbitrary: got) (simp_all only: receive_passes.simps plain.steps_return,
    (intro plain.steps_rules plain_transfer_pass plain_system_call plain_call; (simp; fail)?)+)

lemma plain_send_passes: "plain.steps (send_passes kn d deadline bs offset passes)"
  by (induction passes arbitrary: offset) (simp_all only: send_passes.simps plain.steps_return,
    (intro plain.steps_rules plain_transfer_pass plain_system_call plain_call; (simp; fail)?)+)

lemma plain_receive_until: "plain.steps (receive_until kn d n deadline)"
  unfolding receive_until_def by (intro plain.steps_rules plain_errno plain_receive_passes)

lemma plain_send_until: "plain.steps (send_until kn d bs deadline)"
  unfolding send_until_def by (intro plain.steps_rules plain_errno plain_send_passes)

lemma plain_close_received: "plain.steps (close_received_fd fd)"
  unfolding close_received_fd_def close_fd_def by (intro plain.steps_rules) simp

lemma plain_close_all: "plain.steps (close_all fds)"
  unfolding close_all_def by (intro plain.steps_rules) simp

lemma plain_take_message: "plain.steps (take_message n message)"
  unfolding take_message_def by (intro plain.steps_rules plain_close_all plain_errno)

lemma plain_receive_optional_fd: "plain.steps (ksd_receive_optional_fd kn d n)"
  unfolding ksd_receive_optional_fd_def by (intro plain.steps_rules plain_errno plain_take_message plain_system_call) simp_all

lemma plain_take_frame_fd: "plain.steps (take_frame_fd kn d magic major minor maximum rules header fd)"
  unfolding take_frame_fd_def by (intro plain.steps_rules plain_close_received plain_errno plain_socket_deadline plain_receive_until)

lemma plain_frame_read_fd: "plain.steps (ksd_frame_read_fd kn d magic major minor maximum rules)"
  unfolding ksd_frame_read_fd_def by (intro plain.steps_rules plain_errno plain_receive_optional_fd plain_take_frame_fd)

lemma plain_frame_write: "plain.steps (ksd_frame_write kn d frame)"
  unfolding ksd_frame_write_def by (intro plain.steps_rules plain_socket_deadline plain_send_until)

lemma plain_set_timeouts: "plain.steps (set_timeouts h d timeout)"
  unfolding set_timeouts_def by (intro plain.steps_rules plain_system_call) simp_all

lemma plain_set_remaining: "plain.steps (set_remaining_timeout h deadline)"
  unfolding set_remaining_timeout_def by (intro plain.steps_rules plain_milliseconds plain_errno plain_set_timeouts)

section \<open>The frames that come\<close>

lemma event_header:
  assumes "valid_public_header frame" "fr_flags frame AND KSD_FLAG_EVENT \<noteq> 0"
  shows "fr_flags frame = KSD_FLAG_EVENT \<and> fr_request_id frame = 0"
proof -
  have no: "fr_flags frame AND NOT KSD_FLAG_ALL = 0" "fr_flags frame AND KSD_FLAG_RESPONSE = 0" "fr_flags frame AND KSD_FLAG_MORE = 0" "fr_request_id frame = 0"
    using assms by (auto simp: valid_public_header_def Let_def split: if_splits)
  have "fr_flags frame AND KSD_FLAG_ALL = fr_flags frame" using no(1) by (simp add: and_mask_zero_iff)
  then have "fr_flags frame AND KSD_FLAG_EVENT = fr_flags frame" using no(2,3) by (simp add: KSD_FLAG_ALL_def bit.conj_disj_distrib)
  moreover have "fr_flags frame AND KSD_FLAG_EVENT = (if bit (fr_flags frame) 1 then KSD_FLAG_EVENT else 0)"
    by (rule bit_word_eqI) (auto simp: KSD_FLAG_EVENT_def bit_simps bit_2_iff)
  ultimately show ?thesis using assms(2) no(4) by metis
qed

lemma spec_plain: "plain.steps m \<Longrightarrow> (\<And>d x d' es. same d d' \<Longrightarrow> came es = [] \<Longrightarrow> handed_over es = [] \<Longrightarrow> P d x d' es) \<Longrightarrow> spec m P"
  by (rule spec_weaken [OF plain.steps_spec]) auto

lemma take_frame_public:
  fixes kn :: "'w kernel"
  shows "spec (take_frame_fd kn d magic major minor maximum True header fd :: ('d, 'w, (ksd_frame \<times> int) option) io) (\<lambda>_ r _ _. \<forall>f fd. r = Some (f, fd) \<longrightarrow> valid_public_header f)"
proof (cases "frame_header_acceptable (decode_frame_header header) magic major minor maximum True")
  case False
  then show ?thesis unfolding take_frame_fd_def Let_def by (auto intro!: spec_refuse)
next
  case True
  then have v: "valid_public_header (decode_frame_header header)" by (simp add: frame_header_acceptable_def)
  let ?n = "unat (fr_payload_length (decode_frame_header header))"
  let ?P = "\<lambda>_ r _ _. \<forall>f fd. r = Some (f, fd) \<longrightarrow> valid_public_header f"
  have k: "spec ((case x of (moved, payload) \<Rightarrow> if moved \<noteq> int ?n then State_Monad.bind (close_received_fd fd) (\<lambda>_. return None)
      else return (Some (decode_frame_header header\<lparr>fr_payload := Some payload\<rparr>, fd))) :: ('d, 'w, (ksd_frame \<times> int) option) io) ?P" for x
    by (cases x) (auto intro!: spec_drop spec_return simp: v)
  have m: "spec (State_Monad.bind (set_errno ENOMEM) (\<lambda>_. State_Monad.bind (close_received_fd fd) (\<lambda>_. return None)) :: ('d, 'w, (ksd_frame \<times> int) option) io) ?P"
    by (rule spec_bind [OF spec_plain [OF plain_errno, where P = "\<lambda>_ _ _ _. True"] spec_drop [where P = ?P]]) simp_all
  have r: "spec (State_Monad.bind (receive_until kn d ?n deadline) (\<lambda>(moved, payload). if moved \<noteq> int ?n then State_Monad.bind (close_received_fd fd) (\<lambda>_. return None)
      else return (Some (decode_frame_header header\<lparr>fr_payload := Some payload\<rparr>, fd))) :: ('d, 'w, (ksd_frame \<times> int) option) io) ?P" for deadline
    by (rule spec_bind [OF spec_plain [OF plain_receive_until, where P = "\<lambda>_ _ _ _. True"] k]) simp_all
  have b: "spec ((if \<not> kn_alloc kn ?n then State_Monad.bind (set_errno ENOMEM) (\<lambda>_. State_Monad.bind (close_received_fd fd) (\<lambda>_. return None))
      else State_Monad.bind (receive_until kn d ?n deadline) (\<lambda>(moved, payload). if moved \<noteq> int ?n then State_Monad.bind (close_received_fd fd) (\<lambda>_. return None)
        else return (Some (decode_frame_header header\<lparr>fr_payload := Some payload\<rparr>, fd)))) :: ('d, 'w, (ksd_frame \<times> int) option) io) ?P" for deadline
    using m r by simp
  have "spec (State_Monad.bind (socket_deadline kn d False) (\<lambda>deadline. if \<not> kn_alloc kn ?n then State_Monad.bind (set_errno ENOMEM) (\<lambda>_. State_Monad.bind (close_received_fd fd) (\<lambda>_. return None))
      else State_Monad.bind (receive_until kn d ?n deadline) (\<lambda>(moved, payload). if moved \<noteq> int ?n then State_Monad.bind (close_received_fd fd) (\<lambda>_. return None)
        else return (Some (decode_frame_header header\<lparr>fr_payload := Some payload\<rparr>, fd)))) :: ('d, 'w, (ksd_frame \<times> int) option) io) ?P"
    by (rule spec_bind [OF spec_plain [OF plain_socket_deadline, where P = "\<lambda>_ _ _ _. True"] b]) simp_all
  with True v show ?thesis unfolding take_frame_fd_def Let_def by (auto intro: spec_return)
qed

lemma read_fd_public:
  fixes kn :: "'w kernel"
  shows "spec (ksd_frame_read_fd kn d magic major minor maximum True :: ('d, 'w, (ksd_frame \<times> int) option) io) (\<lambda>_ r _ _. \<forall>f fd. r = Some (f, fd) \<longrightarrow> valid_public_header f \<and> d \<ge> 0)"
proof (cases "d < 0")
  case True
  then show ?thesis by (auto simp: ksd_frame_read_fd_def intro: spec_errno)
next
  case False
  have k: "spec ((case x of None \<Rightarrow> return None | Some (header, received_fd) \<Rightarrow> take_frame_fd kn d magic major minor maximum True header received_fd) :: ('d, 'w, (ksd_frame \<times> int) option) io)
      (\<lambda>_ r _ _. \<forall>f fd. r = Some (f, fd) \<longrightarrow> valid_public_header f)" for x
    using take_frame_public by (cases x) (auto intro: spec_return)
  show ?thesis unfolding ksd_frame_read_fd_def if_not_P [OF False]
    by (rule spec_bind [OF spec_plain [OF plain_receive_optional_fd, where P = "\<lambda>_ _ _ _. True"] k]) (use False in auto)
qed

section \<open>Reading the event stream\<close>

text \<open>What POSIX says of a read: it gives at most what was asked for, and nothing on a descriptor that is not open.\<close>

definition sound_reads :: "'w kernel \<Rightarrow> bool" where
  "sound_reads kn \<longleftrightarrow> (\<forall>d n w bs. fst (kn_recv kn d n w) = Inr bs \<longrightarrow> length bs \<le> n \<and> d \<ge> 0)"

definition announced :: "bytes \<Rightarrow> nat" where
  "announced input = unat (ksd_decode_u32 (drop KSD_FRAME_PAYLOAD_LENGTH_OFFSET input))"

text \<open>A frame in the making, and one that is not complete.\<close>

definition within :: "bytes \<Rightarrow> bool" where
  "within input \<longleftrightarrow> length input \<le> 24 \<or> announced input \<le> KSD_CLIENT_MAX_RESPONSE \<and> length input \<le> 24 + announced input"

definition partial :: "bytes \<Rightarrow> bool" where
  "partial input \<longleftrightarrow> length input < 24 \<or> length input < 24 + announced input"

lemma announced_append: "24 \<le> length input \<Longrightarrow> announced (input @ bs) = announced input"
proof -
  assume "24 \<le> length input"
  then show ?thesis by (simp add: announced_def wire_defs ksd_decode_u32_def nth_append)
qed

abbreviation stream_wf :: "ksd_connection \<Rightarrow> bool" where
  "stream_wf c \<equiv> buffer_wf (cn_input c)"

definition frame_in :: "ksd_connection \<Rightarrow> int + ksd_frame \<Rightarrow> ksd_connection \<Rightarrow> net_event list \<Rightarrow> bool" where
  "frame_in d r d' es \<longleftrightarrow> d' = d\<lparr>th_errno := th_errno d', cn_input := cn_input d'\<rparr> \<and> stream_wf d' \<and> partial (buf_data (cn_input d')) \<and> within (buf_data (cn_input d'))
     \<and> came es = (case r of Inl _ \<Rightarrow> [] | Inr f \<Rightarrow> [f]) \<and> handed_over es = [] \<and> (\<forall>f. r = Inr f \<longrightarrow> valid_public_header f \<and> cn_descriptor d \<ge> 0)"

text \<open>What a turn asks for.\<close>

definition turn_needs :: "bytes \<Rightarrow> nat \<Rightarrow> bool" where
  "turn_needs input needed \<longleftrightarrow> length input < 24 \<and> needed = 24
     \<or> length input \<ge> 24 \<and> announced input \<le> KSD_CLIENT_MAX_RESPONSE \<and> needed = 24 + announced input \<and> length input < needed"

lemma turn_needs_partial: "turn_needs input needed \<Longrightarrow> partial input"
  by (auto simp: turn_needs_def partial_def)

lemma turn_needs_within_now: "turn_needs input needed \<Longrightarrow> within input"
  by (auto simp: turn_needs_def within_def)

lemma turn_needs_within: "turn_needs input needed \<Longrightarrow> length bs \<le> needed - length input \<Longrightarrow> within (input @ bs)"
  by (auto simp: turn_needs_def within_def announced_append)

lemma receive_more_in:
  fixes h :: "'w host" and s :: "(ksd_connection, 'w, net_event) run"
  assumes law: "sound_reads (ho_kernel h)" and wf: "stream_wf (rn_data s)" and needs: "turn_needs (buf_data (cn_input (rn_data s))) needed"
    and go: "\<And>t bs. rn_data t = (rn_data s)\<lparr>th_errno := th_errno (rn_data t), cn_input := cn_input (rn_data t)\<rparr> \<Longrightarrow> stream_wf (rn_data t) \<Longrightarrow>
      bs \<noteq> [] \<Longrightarrow> buf_data (cn_input (rn_data t)) = buf_data (cn_input (rn_data s)) @ bs \<Longrightarrow> within (buf_data (cn_input (rn_data t))) \<Longrightarrow>
      cn_descriptor (rn_data s) \<ge> 0 \<Longrightarrow> rn_log t = rn_log s @ [Received bs] \<Longrightarrow> wp go_on Q t"
    and stop: "\<And>t es r. frame_in (rn_data s) (Inl r) (rn_data t) es \<Longrightarrow> rn_log t = rn_log s @ es \<Longrightarrow> Q (Inl r) t"
  shows "wp (receive_more h needed go_on) Q s"
proof -
  let ?c = "rn_data s" and ?input = "buf_data (cn_input (rn_data s))"
  let ?a = "min 8192 (needed - length ?input)"
  have part: "partial ?input" "within ?input" using turn_needs_partial [OF needs] turn_needs_within_now [OF needs] by simp_all
  have p: "spec (system_call (kn_recv (ho_kernel h) (cn_descriptor ?c) ?a) (\<lambda>bs. [Received bs]) :: ('w, bytes option) client)
      (\<lambda>d x d' es. same d d' \<and> (case x of None \<Rightarrow> es = [] | Some bs \<Rightarrow> (length bs \<le> ?a \<and> cn_descriptor ?c \<ge> 0) \<and> es = [Received bs]))"
  proof (rule spec_weaken [OF spec_conj [OF plain.steps_spec [OF plain_system_call] system_call_spec]])
    show "length bs \<le> ?a \<and> cn_descriptor ?c \<ge> 0" if "fst (kn_recv (ho_kernel h) (cn_descriptor ?c) ?a w) = Inr bs" for w bs
      using law that unfolding sound_reads_def by blast
  qed simp_all
  have quit: "Q (Inl r) t" if "rn_data t = ?c\<lparr>th_errno := e\<rparr>" "rn_log t = rn_log s @ es" "came es = []" "handed_over es = []" for r t e es
    using that wf part by (intro stop [of r t es]) (simp_all add: frame_in_def)
  show ?thesis unfolding receive_more_def Let_def wp_bind wp_data
  proof (rule spec_wp [OF p], goal_cases)
    case x: (1 x d w es)
    then obtain e where d: "d = ?c\<lparr>th_errno := e\<rparr>" by (auto simp: same_def)
    show ?case
    proof (cases x)
      case None
      with x d show ?thesis by (auto simp: wp_simps intro!: quit [where es = "[]" and e = e])
    next
      case (Some bs)
      with x have bs: "length bs \<le> ?a" "cn_descriptor ?c \<ge> 0" "es = [Received bs]" by auto
      show ?thesis
      proof (cases "bs = []")
        case True
        then show ?thesis unfolding Some using bs(3) d by (auto simp: wp_simps set_errno_def intro!: quit [where es = "[Received []]" and e = ECONNRESET])
      next
        case False
        show ?thesis
        proof (cases rule: buffer_bytes_cases [OF wf, of "kn_alloc (ho_kernel h)" bs])
          case 1
          then show ?thesis unfolding Some using bs(3) d False by (auto simp: wp_simps set_errno_def intro!: quit [where es = "[Received bs]" and e = ENOMEM])
        next
          case (2 b)
          have "within (?input @ bs)" by (rule turn_needs_within [OF needs]) (use bs(1) in simp)
          then show ?thesis unfolding Some using 2 bs d False by (auto simp: wp_simps intro!: go [where bs = bs])
        qed
      qed
    qed
  qed
qed

lemma frame_in_later:
  assumes "d1 = d\<lparr>th_errno := e, cn_input := b\<rparr>" "frame_in d1 r d' es"
  shows "frame_in d r d' (Received bs # es)"
  using assms by (cases d; cases d1; cases d') (auto simp: frame_in_def)

lemma frame_unpacked:
  "ksd_frame_unpack alloc input magic major minor maximum True = Some frame \<Longrightarrow> valid_public_header frame"
  by (auto simp: ksd_frame_unpack_def Let_def split: if_splits)

lemma event_turns_in:
  fixes h :: "'w host" and s :: "(ksd_connection, 'w, net_event) run"
  assumes law: "sound_reads (ho_kernel h)"
  shows "stream_wf (rn_data s) \<Longrightarrow> within (buf_data (cn_input (rn_data s))) \<Longrightarrow> cn_descriptor (rn_data s) \<ge> 0 \<or> partial (buf_data (cn_input (rn_data s))) \<Longrightarrow>
    KSD_FRAME_HEADER_SIZE + KSD_CLIENT_MAX_RESPONSE + 1 \<le> turns + length (buf_data (cn_input (rn_data s))) \<Longrightarrow>
    wp (event_frame_turns h turns) (\<lambda>r t. \<exists>es. rn_log t = rn_log s @ es \<and> frame_in (rn_data s) r (rn_data t) es) s"
proof (induction turns arbitrary: s)
  case 0
  then show ?case by (auto simp: within_def wire_defs)
next
  case (Suc turns)
  let ?c = "rn_data s" and ?input = "buf_data (cn_input (rn_data s))"
  let ?Q = "\<lambda>r t. \<exists>es. rn_log t = rn_log s @ es \<and> frame_in (rn_data s) r (rn_data t) es"
  have size: "KSD_FRAME_HEADER_SIZE = 24" by (simp add: wire_defs)
  have more: "wp (receive_more h needed (event_frame_turns h turns)) ?Q s" if needs: "turn_needs ?input needed" for needed
  proof (rule receive_more_in [OF law Suc.prems(1) needs])
    fix t :: "(ksd_connection, 'w, net_event) run" and bs
    assume t: "rn_data t = ?c\<lparr>th_errno := th_errno (rn_data t), cn_input := cn_input (rn_data t)\<rparr>" "stream_wf (rn_data t)" "bs \<noteq> []"
      "buf_data (cn_input (rn_data t)) = ?input @ bs" "within (buf_data (cn_input (rn_data t)))" "cn_descriptor ?c \<ge> 0" "rn_log t = rn_log s @ [Received bs]"
    have "cn_descriptor (rn_data t) = cn_descriptor ?c" by (subst t(1)) simp
    moreover have "KSD_FRAME_HEADER_SIZE + KSD_CLIENT_MAX_RESPONSE + 1 \<le> turns + length (buf_data (cn_input (rn_data t)))"
      using Suc.prems(4) t(3) unfolding t(4) by (cases bs) simp_all
    ultimately have "wp (event_frame_turns h turns) (\<lambda>r u. \<exists>es. rn_log u = rn_log t @ es \<and> frame_in (rn_data t) r (rn_data u) es) t"
      using t(2,5,6) by (intro Suc.IH) auto
    then show "wp (event_frame_turns h turns) ?Q t"
      by (rule wp_mono) (use t(1,7) frame_in_later [OF t(1)] in auto)
  qed auto
  show ?case
  proof (cases "length ?input \<ge> 24")
    case False
    then have "turn_needs ?input 24" by (simp add: turn_needs_def)
    from more [OF this] False show ?thesis unfolding event_frame_turns.simps wp_simps Let_def size by simp
  next
    case True
    show ?thesis
    proof (cases "announced ?input > KSD_CLIENT_MAX_RESPONSE")
      case big: True
      with Suc.prems(2) True have "partial ?input" by (auto simp: within_def partial_def)
      with True big Suc.prems(1,2) show ?thesis unfolding event_frame_turns.simps wp_simps Let_def size announced_def
        by (auto simp: wp_simps set_errno_def frame_in_def)
    next
      case fits: False
      show ?thesis
      proof (cases "length ?input = 24 + announced ?input")
        case False
        with Suc.prems(2) True fits have "turn_needs ?input (24 + announced ?input)" by (auto simp: turn_needs_def within_def)
        from more [OF this] True fits False show ?thesis unfolding event_frame_turns.simps wp_simps Let_def size announced_def by simp
      next
        case full: True
        then have up: "cn_descriptor ?c \<ge> 0" using Suc.prems(3) True by (auto simp: partial_def)
        have clear: "buffer_wf ((cn_input ?c)\<lparr>buf_data := []\<rparr>)" using Suc.prems(1) by (simp add: buffer_wf_def)
        from True fits full up clear show ?thesis unfolding event_frame_turns.simps wp_simps Let_def size announced_def
          by (auto simp: wp_simps set_errno_def frame_in_def partial_def within_def dest: frame_unpacked split: option.split)
      qed
    qed
  qed
qed

section \<open>The state of a connection\<close>

text \<open>A queued frame is one the next call can hand over.\<close>

definition queued_ok :: "(nat \<Rightarrow> bool) \<Rightarrow> ksd_frame \<Rightarrow> bool" where
  "queued_ok alloc frame \<longleftrightarrow> fr_opcode frame = KSD_OP_STATE_EVENT \<and> fr_flags frame = KSD_FLAG_EVENT \<and> fr_request_id frame = 0
     \<and> ksd_state_event_decode alloc (payload_bytes frame) \<noteq> None"

definition queue_bytes :: "ksd_frame list \<Rightarrow> nat" where
  "queue_bytes frames = sum_list (map (\<lambda>frame. unat (fr_payload_length frame)) frames)"

text \<open>
  The counters of the queue are what it holds, within their limits; the frame in the making is
  not complete; and the descriptor a user polls is signalled exactly when an event is queued
  or the connection is closed.
\<close>

definition conn_ok :: "(nat \<Rightarrow> bool) \<Rightarrow> ksd_connection \<Rightarrow> bool" where
  "conn_ok alloc c \<longleftrightarrow> cn_queued_count c = length (cn_events c) \<and> length (cn_events c) \<le> KSD_CLIENT_MAX_EVENTS
     \<and> cn_queued_bytes c = queue_bytes (cn_events c) \<and> queue_bytes (cn_events c) \<le> KSD_CLIENT_MAX_EVENT_BYTES
     \<and> list_all (queued_ok alloc) (cn_events c) \<and> buffer_wf (cn_input c) \<and> partial (buf_data (cn_input c))
     \<and> within (buf_data (cn_input c)) \<and> cn_pending_descriptor c \<ge> 0 \<and> (cn_signalled c \<longleftrightarrow> cn_events c \<noteq> [] \<or> cn_descriptor c < 0)"

text \<open>
  One step: events that come are appended behind those queued, events that are handed over are
  taken from the front; only the closing of the connection loses any, and nothing comes after it.
\<close>

definition queue_step :: "(nat \<Rightarrow> bool) \<Rightarrow> ksd_connection \<Rightarrow> ksd_connection \<Rightarrow> net_event list \<Rightarrow> bool" where
  "queue_step alloc d d' es \<longleftrightarrow> (conn_ok alloc d \<longrightarrow> conn_ok alloc d'
     \<and> (\<exists>lost. cn_events d @ state_events es = handed_over es @ cn_events d' @ lost \<and> (lost \<noteq> [] \<longrightarrow> cn_descriptor d' < 0))
     \<and> (cn_descriptor d < 0 \<longrightarrow> cn_descriptor d' < 0 \<and> state_events es = []))"

lemma queue_step_chain:
  assumes "queue_step alloc d d' es" "queue_step alloc d' d'' fs"
  shows "queue_step alloc d d'' (es @ fs)"
  unfolding queue_step_def
proof (intro impI, goal_cases)
  case 1
  with assms obtain l1 l2 where ok: "conn_ok alloc d'" "conn_ok alloc d''"
    and l: "cn_events d @ state_events es = handed_over es @ cn_events d' @ l1" "l1 \<noteq> [] \<longrightarrow> cn_descriptor d' < 0"
      "cn_events d' @ state_events fs = handed_over fs @ cn_events d'' @ l2" "l2 \<noteq> [] \<longrightarrow> cn_descriptor d'' < 0"
    and down: "cn_descriptor d < 0 \<longrightarrow> cn_descriptor d' < 0 \<and> state_events es = []" "cn_descriptor d' < 0 \<longrightarrow> cn_descriptor d'' < 0 \<and> state_events fs = []"
    by (auto simp: queue_step_def)
  have "cn_events d @ state_events (es @ fs) = handed_over (es @ fs) @ cn_events d'' @ l2 @ l1"
  proof (cases "l1 = []")
    case True
    with l show ?thesis by (metis append.assoc append_Nil2 frame_log_simps(14) state_events_simps(2))
  next
    case False
    with l(2) down(2) have "state_events fs = []" by blast
    with l show ?thesis by (metis append.assoc append_Nil2 frame_log_simps(14) state_events_simps(2))
  qed
  moreover have "l2 @ l1 \<noteq> [] \<longrightarrow> cn_descriptor d'' < 0" using l(2,4) down(2) by blast
  ultimately have "\<exists>lost. cn_events d @ state_events (es @ fs) = handed_over (es @ fs) @ cn_events d'' @ lost \<and> (lost \<noteq> [] \<longrightarrow> cn_descriptor d'' < 0)" by blast
  with ok(2) down show ?case by simp
qed

interpretation queue: run_property "queue_step alloc" for alloc
proof
  show "queue_step alloc d d []" for d by (auto simp: queue_step_def)
qed (rule queue_step_chain)

text \<open>Changes that do not touch what the relation is about.\<close>

definition still :: "ksd_connection \<Rightarrow> ksd_connection \<Rightarrow> bool" where
  "still d d' \<longleftrightarrow> cn_events d' = cn_events d \<and> cn_queued_count d' = cn_queued_count d \<and> cn_queued_bytes d' = cn_queued_bytes d
     \<and> cn_input d' = cn_input d \<and> cn_pending_descriptor d' = cn_pending_descriptor d \<and> cn_signalled d' = cn_signalled d
     \<and> cn_descriptor d' = cn_descriptor d"

lemma still_step: "still d d' \<Longrightarrow> came es = [] \<Longrightarrow> handed_over es = [] \<Longrightarrow> queue_step alloc d d' es"
  by (auto simp: still_def queue_step_def conn_ok_def)

lemma same_still: "same d d' \<Longrightarrow> still d d'"
proof -
  assume "same d d'"
  then obtain e where "d' = d\<lparr>th_errno := e\<rparr>" by (auto simp: same_def)
  then show ?thesis by (simp add: still_def)
qed

lemma plain_queue: "plain.steps m \<Longrightarrow> queue.steps alloc m"
  unfolding queue.steps_def by (rule spec_plain) (auto intro: still_step same_still)

lemma queue_update: "(\<And>c. still c (f c)) \<Longrightarrow> queue.steps alloc (update f)"
  by (intro queue.steps_rules still_step) auto

lemma queue_and_on: "queue.steps alloc m \<Longrightarrow> (\<And>x. queue.steps alloc (f x)) \<Longrightarrow> queue.steps alloc (and_on m f)"
  unfolding and_on_def by (intro queue.steps_rules)

section \<open>The steps of the code\<close>

lemma queue_signal: "spec (signal_pending :: ('w, unit) client)
    (\<lambda>d _ d' es. d' = d\<lparr>cn_signalled := (cn_pending_descriptor d \<ge> 0 \<or> cn_signalled d)\<rparr> \<and> came es = [] \<and> handed_over es = [])"
  unfolding signal_pending_def by (rule specI) (auto simp: wp_simps)

lemma queue_reset_error: "queue.steps alloc reset_error"
  unfolding reset_error_def by (rule queue_update) (simp add: still_def)

lemma queue_set_error: "queue.steps alloc (set_error detail e message)"
  unfolding set_error_def by (rule queue_update) (simp add: still_def)

lemma queue_invalid_argument: "queue.steps alloc (invalid_argument message)"
  unfolding invalid_argument_def by (intro queue.steps_rules queue_set_error)

text \<open>A failure closes the connection and signals it.\<close>

lemma fail_spec: "spec (system_failure message :: ('w, u32) client)
    (\<lambda>d _ d' es. cn_descriptor d' < 0 \<and> cn_events d' = cn_events d \<and> came es = [] \<and> handed_over es = [] \<and> (conn_ok alloc d \<longrightarrow> conn_ok alloc d')
       \<and> cn_granted_scopes d' = cn_granted_scopes d)"
  unfolding system_failure_def signal_pending_def set_error_def Let_def
  by (rule specI) (auto simp: wp_simps conn_ok_def)

lemma queue_fail: "queue.steps alloc (system_failure message)"
  unfolding queue.steps_def by (rule spec_weaken [OF fail_spec [of message alloc]]) (auto simp: queue_step_def)

text \<open>A frame that has come but has not been dealt with.\<close>

definition frame_out :: "(nat \<Rightarrow> bool) \<Rightarrow> ksd_frame option \<Rightarrow> ksd_connection \<Rightarrow> ksd_connection \<Rightarrow> net_event list \<Rightarrow> bool" where
  "frame_out alloc r d d' es \<longleftrightarrow> (conn_ok alloc d \<longrightarrow> conn_ok alloc d' \<and> cn_events d' = cn_events d \<and> cn_descriptor d' = cn_descriptor d
     \<and> came es = (case r of None \<Rightarrow> [] | Some f \<Rightarrow> [f]) \<and> handed_over es = [] \<and> (\<forall>f. r = Some f \<longrightarrow> valid_public_header f \<and> cn_descriptor d \<ge> 0))"

text \<open>Every computation only adds to the log.\<close>

interpretation grows: log_property "\<lambda>_. True"
  by standard simp_all

lemma spec_when:
  assumes "grows.keeps m" "\<And>s. C (rn_data s) \<Longrightarrow> wp m (\<lambda>x t. \<exists>es. rn_log t = rn_log s @ es \<and> P (rn_data s) x (rn_data t) es) s"
  shows "spec m (\<lambda>d x d' es. C d \<longrightarrow> P d x d' es)"
proof (rule specI)
  fix s
  show "wp m (\<lambda>x t. \<exists>es. rn_log t = rn_log s @ es \<and> (C (rn_data s) \<longrightarrow> P (rn_data s) x (rn_data t) es)) s"
  proof (cases "C (rn_data s)")
    case True
    then show ?thesis using assms(2) by simp
  next
    case False
    then show ?thesis using assms(1) unfolding grows.keeps_def spec_def by simp
  qed
qed

lemma plain_grows: "plain.steps m \<Longrightarrow> grows.keeps m"
  unfolding grows.keeps_def by (rule spec_plain) simp_all

lemmas grows_errno = plain_grows [OF plain_errno]

lemma grows_receive_more:
  assumes "grows.keeps go_on"
  shows "grows.keeps (receive_more h needed go_on)"
  unfolding receive_more_def by (intro grows.keeps_rules plain_grows [OF plain_system_call] grows_errno assms) simp_all

lemma grows_event_turns: "grows.keeps (event_frame_turns h turns)"
proof (induction turns)
  case 0
  then show ?case by (simp add: grows.keeps_return)
next
  case (Suc turns)
  show ?case unfolding event_frame_turns.simps by (intro grows.keeps_rules grows_errno grows_receive_more Suc.IH) simp_all
qed

lemma receive_event_frame_out:
  fixes h :: "'w host"
  assumes "sound_reads (ho_kernel h)"
  shows "spec (receive_event_frame h) (\<lambda>d r d' es. frame_out alloc (case r of Inl _ \<Rightarrow> None | Inr f \<Rightarrow> Some f) d d' es)"
proof -
  have "spec (receive_event_frame h) (\<lambda>d r d' es. conn_ok alloc d \<longrightarrow> frame_in d r d' es)"
    unfolding receive_event_frame_def
    by (rule spec_when [OF grows_event_turns], rule event_turns_in [OF assms]) (auto simp: conn_ok_def)
  then show ?thesis
  proof (rule spec_weaken, goal_cases)
    case (1 d r d' es)
    show ?case unfolding frame_out_def
    proof
      assume ok: "conn_ok alloc d"
      with 1 have f: "frame_in d r d' es" by simp
      then obtain e b where d': "d' = d\<lparr>th_errno := e, cn_input := b\<rparr>" "buffer_wf b" "partial (buf_data b)" "within (buf_data b)" by (auto simp: frame_in_def)
      from f ok show "conn_ok alloc d' \<and> cn_events d' = cn_events d \<and> cn_descriptor d' = cn_descriptor d
          \<and> came es = (case (case r of Inl _ \<Rightarrow> None | Inr f \<Rightarrow> Some f) of None \<Rightarrow> [] | Some f \<Rightarrow> [f]) \<and> handed_over es = []
          \<and> (\<forall>f. (case r of Inl _ \<Rightarrow> None | Inr f \<Rightarrow> Some f) = Some f \<longrightarrow> valid_public_header f \<and> cn_descriptor d \<ge> 0)"
        by (auto simp: frame_in_def d' conn_ok_def split: sum.splits)
    qed
  qed
qed

lemma frame_out_none: "plain.steps m \<Longrightarrow> spec m (\<lambda>d x d' es. frame_out alloc None d d' es)"
  by (rule spec_plain) (auto simp: frame_out_def conn_ok_def still_def dest!: same_still)

lemma frame_out_chain: "frame_out alloc None d d' es \<Longrightarrow> frame_out alloc r d' d'' fs \<Longrightarrow> frame_out alloc r d d'' (es @ fs)"
  by (auto simp: frame_out_def)

text \<open>The frame of an answer that may also be a failure or the end of patience.\<close>

definition flat :: "'a option option \<Rightarrow> 'a option" where
  "flat r = (case r of Some (Some x) \<Rightarrow> Some x | _ \<Rightarrow> None)"

lemma flat_simps [simp]: "flat None = None" "flat (Some None) = None" "flat (Some (Some x)) = Some x"
  by (simp_all add: flat_def)

lemma frame_out_return: "flat r = None \<Longrightarrow> spec (return r) (\<lambda>d r d' es. frame_out alloc (flat r) d d' es)"
  by (auto simp: frame_out_def intro!: spec_return)

lemma stream_rounds_out:
  fixes h :: "'w host"
  assumes "sound_reads (ho_kernel h)"
  shows "spec (stream_response_rounds h rounds) (\<lambda>d r d' es. frame_out alloc (flat r) d d' es)"
proof (induction rounds)
  case 0
  then show ?case by (simp add: frame_out_return)
next
  case (Suc rounds)
  let ?wait = "State_Monad.bind data (\<lambda>c. State_Monad.bind (ksd_wait_until (ho_kernel h) (cn_descriptor c) False (cn_request_deadline_ms c))
    (\<lambda>ready. if \<not> ready then return (Some None) else stream_response_rounds h rounds)) :: ('w, ksd_frame option option) client"
  have go: "spec (if \<not> ready then return (Some None) else stream_response_rounds h rounds :: ('w, ksd_frame option option) client)
      (\<lambda>d r d' es. frame_out alloc (flat r) d d' es)" for ready
    using Suc.IH by (cases ready) (simp_all add: frame_out_return)
  have ready: "spec (State_Monad.bind (ksd_wait_until (ho_kernel h) (cn_descriptor c) False (cn_request_deadline_ms c))
      (\<lambda>ready. if \<not> ready then return (Some None) else stream_response_rounds h rounds) :: ('w, ksd_frame option option) client)
      (\<lambda>d r d' es. frame_out alloc (flat r) d d' es)" for c
    by (rule spec_bind [OF frame_out_none [OF plain_wait_until] go]) (rule frame_out_chain)
  have w: "spec ?wait (\<lambda>d r d' es. frame_out alloc (flat r) d d' es)"
    by (rule spec_bind [OF frame_out_none [OF plain.steps_data] ready]) (rule frame_out_chain)
  have k: "spec (case a of Inr frame \<Rightarrow> return (Some (Some frame)) | Inl r \<Rightarrow> if r \<noteq> 0 then return (Some None) else ?wait)
      (\<lambda>d r d' es. case a of Inr f \<Rightarrow> r = Some (Some f) \<and> d' = d \<and> es = [] | Inl _ \<Rightarrow> frame_out alloc (flat r) d d' es)" for a
    using w by (cases a) (auto intro: spec_return frame_out_return)
  show ?case unfolding stream_response_rounds.simps
    by (rule spec_bind [OF receive_event_frame_out [OF assms] k]) (auto intro: frame_out_chain split: sum.splits)
qed

lemma receive_frame_out:
  fixes h :: "'w host"
  assumes "sound_reads (ho_kernel h)"
  shows "spec (receive_frame h) (\<lambda>d r d' es. frame_out alloc (map_option fst (flat r)) d d' es)"
proof -
  let ?read = "\<lambda>c. ksd_frame_read_fd (ho_kernel h) (cn_descriptor c) client_magic KSD_PROTOCOL_MAJOR KSD_PROTOCOL_MINOR (of_nat KSD_CLIENT_MAX_RESPONSE) True :: ('w, (ksd_frame \<times> int) option) client"
  let ?note = "\<lambda>answer. State_Monad.bind (note_events (case answer of None \<Rightarrow> [] | Some (frame, _) \<Rightarrow> [Came frame])) (\<lambda>_. return (Some answer)) :: ('w, (ksd_frame \<times> int) option option) client"
  have n: "spec (?note answer) (\<lambda>d r d' es. r = Some answer \<and> d' = d \<and> es = (case answer of None \<Rightarrow> [] | Some (frame, _) \<Rightarrow> [Came frame]))" for answer
    by (rule specI) (simp add: wp_simps)
  have rpc: "spec (State_Monad.bind (?read c) ?note) (\<lambda>d r d' es. cn_descriptor d = cn_descriptor c \<longrightarrow> frame_out alloc (map_option fst (flat r)) d d' es)" for c
    by (rule spec_bind [OF spec_conj [OF plain.steps_spec [OF plain_frame_read_fd] read_fd_public] n])
      (auto simp: frame_out_def conn_ok_def still_def dest!: same_still split: option.splits prod.splits)
  have m: "flat (map_option (map_option (\<lambda>frame. (frame, - 1 :: int))) a) = map_option (\<lambda>frame. (frame, - 1)) (flat a)" for a :: "ksd_frame option option"
    by (simp add: flat_def split: option.splits)
  have g: "spec (return (map_option (map_option (\<lambda>frame. (frame, - 1 :: int))) a) :: ('w, (ksd_frame \<times> int) option option) client)
      (\<lambda>d r d' es. r = map_option (map_option (\<lambda>frame. (frame, - 1))) a \<and> d' = d \<and> es = [])" for a
    by (rule spec_return) simp
  have stream: "spec (State_Monad.bind (receive_stream_response h) (\<lambda>answer. return (map_option (map_option (\<lambda>frame. (frame, - 1 :: int))) answer)))
      (\<lambda>d r d' es. frame_out alloc (map_option fst (flat r)) d d' es)"
    unfolding receive_stream_response_def
    by (rule spec_bind [OF stream_rounds_out [OF assms] g]) (simp add: m option.map_comp comp_def option.map_ident)
  have b: "spec (if cn_role c = ucast KSD_ROLE_RPC then State_Monad.bind (?read c) ?note
      else State_Monad.bind (receive_stream_response h) (\<lambda>answer. return (map_option (map_option (\<lambda>frame. (frame, - 1 :: int))) answer)))
      (\<lambda>d r d' es. d = c \<longrightarrow> frame_out alloc (map_option fst (flat r)) d d' es)" for c
  proof (cases "cn_role c = ucast KSD_ROLE_RPC")
    case True
    show ?thesis unfolding if_P [OF True] by (rule spec_weaken [OF rpc]) auto
  next
    case False
    show ?thesis unfolding if_not_P [OF False] by (rule spec_weaken [OF stream]) auto
  qed
  show ?thesis unfolding receive_frame_def
    by (rule spec_bind [OF spec_data [where P = "\<lambda>d x d' es. x = d \<and> d' = d \<and> es = []"] b]) auto
qed

end
