(* ===== verification/Client_Runs.thy ===== *)
theory Client_Runs
  imports Client_Queue
begin

text \<open>
  The event queue over whole calls of the client library (src/src/client.c) and over any
  sequence of them: every public call is a sequence of the steps of Client\_Queue.
\<close>

section \<open>Events that come before a response\<close>

text \<open>What is done with a frame that has come counts as one step together with its coming.\<close>

lemma frame_then_step:
  assumes "frame_out alloc (Some f) d d' es" "valid_public_header f \<and> cn_descriptor d' \<ge> 0 \<longrightarrow> queue_step alloc d' d'' (Came f # fs)"
  shows "queue_step alloc d d'' (es @ fs)"
  using assms by (auto simp: queue_step_def frame_out_def state_events_def)

lemma no_frame_then_step:
  assumes "frame_out alloc None d d' es" "queue_step alloc d' d'' fs"
  shows "queue_step alloc d d'' (es @ fs)"
  using assms by (auto simp: queue_step_def frame_out_def state_events_def)

lemma other_frame_step: "\<not> is_state_event f \<Longrightarrow> queue_step alloc d d' es \<Longrightarrow> queue_step alloc d d' (Came f # es)"
  by (auto simp: queue_step_def state_events_def)

lemma quiet_before_step:
  assumes "same d d'" "came es = []" "handed_over es = []" "queue_step alloc d' d'' (Came f # fs)"
  shows "queue_step alloc d d'' (Came f # es @ fs)"
  using same_still [OF assms(1)] assms(2-) by (auto simp: queue_step_def state_events_def still_def conn_ok_def)

lemma queue_event_spec:
  fixes h :: "'w host"
  shows "spec (queue_event h f :: ('w, bool) client) (\<lambda>d r d' es. came es = [] \<and> handed_over es = [] \<and> cn_descriptor d' = cn_descriptor d
     \<and> cn_events d' = (if r then cn_events d @ [f] else cn_events d)
     \<and> (conn_ok (kn_alloc (ho_kernel h)) d \<and> valid_public_header f \<and> is_state_event f \<longrightarrow> conn_ok (kn_alloc (ho_kernel h)) d'))"
  unfolding queue_event_def signal_pending_def set_errno_def
  by (rule specI) (auto simp: wp_simps conn_ok_def queue_bytes_def queued_ok_def is_state_event_def KSD_CLIENT_MAX_EVENTS_def
    KSD_CLIENT_MAX_EVENT_BYTES_def split: option.split dest: event_header)

lemma apply_revoked_steps: "queue.steps alloc (apply_revoked_event f)"
  unfolding apply_revoked_event_def by (intro queue.steps_rules queue_update) (simp_all add: still_def)

lemma apply_revoked_spec: "spec (apply_revoked_event f :: ('w, u32 option) client)
    (\<lambda>d r d' es. es = [] \<and> d' = d\<lparr>cn_granted_scopes := cn_granted_scopes d'\<rparr>)"
  unfolding apply_revoked_event_def by (rule specI) (auto simp: wp_simps)

lemma errno_then_fail:
  "spec (State_Monad.bind data (\<lambda>c. State_Monad.bind (if th_errno c \<noteq> ENOBUFS then set_errno EPROTO else return ()) (\<lambda>_.
      State_Monad.bind (system_failure (message c)) (\<lambda>status. return (Some status)))) :: ('w, u32 option) client)
    (\<lambda>d r d' es. r \<noteq> None \<and> cn_descriptor d' < 0 \<and> cn_events d' = cn_events d \<and> came es = [] \<and> handed_over es = [] \<and> (conn_ok alloc d \<longrightarrow> conn_ok alloc d'))"
  unfolding system_failure_def signal_pending_def set_error_def set_errno_def Let_def
  by (rule specI) (auto simp: wp_simps conn_ok_def)

lemma accept_event_step:
  fixes h :: "'w host"
  shows "spec (accept_event h f) (\<lambda>d r d' es. valid_public_header f \<and> fr_flags f AND KSD_FLAG_EVENT \<noteq> 0 \<and> cn_descriptor d \<ge> 0 \<longrightarrow>
     queue_step (kn_alloc (ho_kernel h)) d d' (Came f # es))"
proof -
  let ?alloc = "kn_alloc (ho_kernel h)" and ?event = "valid_public_header f \<and> fr_flags f AND KSD_FLAG_EVENT \<noteq> 0"
  let ?judged = "if fr_opcode f = KSD_OP_STATE_EVENT then queue_event h f
     else State_Monad.bind (apply_revoked_event f) (\<lambda>revoked. return (revoked \<noteq> None)) :: ('w, bool) client"
  have judged: "spec ?judged (\<lambda>d r d' es. came es = [] \<and> handed_over es = [] \<and> cn_descriptor d' = cn_descriptor d
     \<and> cn_events d' = (if r \<and> fr_opcode f = KSD_OP_STATE_EVENT then cn_events d @ [f] else cn_events d) \<and> (conn_ok ?alloc d \<and> ?event \<longrightarrow> conn_ok ?alloc d'))"
  proof (cases "fr_opcode f = KSD_OP_STATE_EVENT")
    case True
    show ?thesis unfolding if_P [OF True] by (rule spec_weaken [OF queue_event_spec]) (use True in \<open>auto simp: is_state_event_def\<close>)
  next
    case False
    have k: "spec (return (revoked \<noteq> None) :: ('w, bool) client) (\<lambda>d r d' es. d' = d \<and> es = [])" for revoked :: "u32 option"
      by (rule spec_return) simp
    show ?thesis unfolding if_not_P [OF False]
    proof (rule spec_bind [OF apply_revoked_spec k], goal_cases)
      case (1 d x d' y d'' es fs)
      then obtain g where "d'' = d\<lparr>cn_granted_scopes := g\<rparr>" "es = []" "fs = []" by auto
      with False show ?case by (simp add: conn_ok_def)
    qed
  qed
  have b: "spec (if valid then return None else State_Monad.bind data (\<lambda>c. State_Monad.bind (if th_errno c \<noteq> ENOBUFS then set_errno EPROTO else return ()) (\<lambda>_.
      State_Monad.bind (system_failure (if th_errno c = ENOBUFS then ''desktop event queue exceeded 256 records or 16 MiB; reconnect and resnapshot''
        else ''desktop service sent an invalid event'')) (\<lambda>status. return (Some status)))) :: ('w, u32 option) client)
    (\<lambda>d r d' es. if valid then d' = d \<and> es = [] else cn_descriptor d' < 0 \<and> cn_events d' = cn_events d \<and> came es = [] \<and> handed_over es = [] \<and> (conn_ok ?alloc d \<longrightarrow> conn_ok ?alloc d'))" for valid
  proof (cases valid)
    case False
    show ?thesis unfolding if_not_P [OF False] by (rule spec_weaken [OF errno_then_fail [where alloc = ?alloc]]) simp
  qed (auto intro: spec_return)
  show ?thesis unfolding accept_event_def
  proof (rule spec_bind [OF judged b], goal_cases)
    case (1 d x d' y d'' es fs)
    then show ?case by (cases x) (auto simp: queue_step_def state_events_def is_state_event_def split: if_splits)
  qed
qed

section \<open>Requests\<close>

lemma queue_response_clear: "queue.steps alloc (response_clear r)"
  unfolding response_clear_def by (intro plain_queue plain_close_received)

lemma queue_errno: "queue.steps alloc (set_errno e)"
  by (intro plain_queue plain_errno)

lemma queue_invalid_response: "queue.steps alloc (invalid_response r message)"
  unfolding invalid_response_def by (intro queue.steps_rules queue_response_clear queue_errno queue_fail)

lemma queue_give_up: "queue.steps alloc (give_up message)"
  unfolding give_up_def by (intro queue.steps_rules queue_fail)

lemma queue_accept_response: "queue.steps alloc (accept_response opcode request_id f fd)"
  unfolding accept_response_def
  by (intro queue.steps_rules queue_invalid_response queue_reset_error queue_set_error queue_update) (simp_all add: still_def)

lemma queue_next_request_id: "queue.steps alloc next_request_id"
  unfolding next_request_id_def by (intro queue.steps_rules queue_update) (simp add: still_def)

text \<open>Receiving a frame and dealing with it.\<close>

lemma receive_and_deal:
  fixes h :: "'w host" and k :: "(ksd_frame \<times> int) option \<Rightarrow> ('w, 'a option) client"
  assumes "sound_reads (ho_kernel h)" and none: "queue.steps alloc (k None)"
    and frame: "\<And>f fd. spec (k (Some (f, fd))) (\<lambda>d r d' es. valid_public_header f \<and> cn_descriptor d \<ge> 0 \<longrightarrow> queue_step alloc d d' (Came f # es))"
  shows "queue.steps alloc (and_on (receive_frame h) k)"
proof -
  have b: "spec (case r of None \<Rightarrow> return None | Some x \<Rightarrow> k x) (\<lambda>d y d' es. case flat r of None \<Rightarrow> queue_step alloc d d' es
      | Some (f, fd) \<Rightarrow> valid_public_header f \<and> cn_descriptor d \<ge> 0 \<longrightarrow> queue_step alloc d d' (Came f # es))" for r
    using queue.steps_spec [OF none] queue.steps_spec [OF queue.steps_return [of alloc None]] frame
    by (cases r; cases "the r") auto
  show ?thesis unfolding queue.steps_def and_on_def
    by (rule spec_bind [OF receive_frame_out [OF assms(1)] b])
      (auto intro: frame_then_step no_frame_then_step split: option.splits)
qed

lemma deal_with_step:
  fixes h :: "'w host"
  assumes go: "queue.steps (kn_alloc (ho_kernel h)) go_on"
  shows "spec (deal_with h opcode request_id go_on (Some (f, fd))) (\<lambda>d r d' es. valid_public_header f \<and> cn_descriptor d \<ge> 0 \<longrightarrow> queue_step (kn_alloc (ho_kernel h)) d d' (Came f # es))"
proof (cases "fr_flags f AND KSD_FLAG_EVENT \<noteq> 0")
  case True
  let ?alloc = "kn_alloc (ho_kernel h)"
  have k: "queue.steps ?alloc (case failed of Some status \<Rightarrow> return (Some (status, empty_response)) | None \<Rightarrow> go_on)" for failed
    by (intro queue.steps_rules go)
  have e: "spec (State_Monad.bind (accept_event h f) (\<lambda>failed. case failed of Some status \<Rightarrow> return (Some (status, empty_response)) | None \<Rightarrow> go_on))
     (\<lambda>d r d' es. valid_public_header f \<and> fr_flags f AND KSD_FLAG_EVENT \<noteq> 0 \<and> cn_descriptor d \<ge> 0 \<longrightarrow> queue_step ?alloc d d' (Came f # es))"
    by (rule spec_bind [OF accept_event_step queue.steps_spec [OF k]]) (use queue_step_chain in fastforce)
  show ?thesis unfolding deal_with_def option.case prod.case if_P [OF True]
    by (rule spec_bind [OF plain.steps_spec [OF plain_close_received] e]) (use True in \<open>auto intro: quiet_before_step dest: same_still simp: still_def\<close>)
next
  case False
  then have "\<not> is_state_event f" by (simp add: is_state_event_def)
  moreover have "queue.steps alloc (State_Monad.bind (accept_response opcode request_id f fd) (\<lambda>answer. return (Some answer)))" for alloc
    by (intro queue.steps_rules queue_accept_response)
  ultimately show ?thesis unfolding deal_with_def option.case prod.case if_not_P [OF False]
    by (intro spec_weaken [OF queue.steps_spec]) (auto intro: other_frame_step)
qed

lemma queue_rounds:
  assumes "sound_reads (ho_kernel h)"
  shows "queue.steps (kn_alloc (ho_kernel h)) (response_rounds h opcode request_id rounds)"
proof (induction rounds)
  case 0
  then show ?case by (simp add: queue.steps_return)
next
  case (Suc rounds)
  have "queue.steps (kn_alloc (ho_kernel h)) (deal_with h opcode request_id (response_rounds h opcode request_id rounds) None)"
    by (simp add: deal_with_def queue_give_up)
  then show ?case unfolding response_rounds.simps
    by (intro queue.steps_rules plain_queue [OF plain_set_remaining] queue_give_up receive_and_deal [OF assms] deal_with_step [OF Suc.IH])
qed

lemma queue_write_each: "queue.steps alloc (write_each h frames)"
proof (induction frames)
  case Nil
  then show ?case by (simp add: queue.steps_return)
next
  case (Cons f frames)
  show ?case unfolding write_each.simps by (intro queue.steps_rules plain_queue [OF plain_set_remaining] plain_queue [OF plain_frame_write] Cons.IH)
qed

lemma queue_write_request: "queue.steps alloc (write_request h opcode payload request_id)"
  unfolding write_request_def by (intro queue.steps_rules queue_errno queue_write_each)

lemma queue_read_response: "sound_reads (ho_kernel h) \<Longrightarrow> queue.steps (kn_alloc (ho_kernel h)) (read_response h opcode request_id)"
  unfolding read_response_def by (rule queue_rounds)

lemma queue_request:
  assumes "sound_reads (ho_kernel h)"
  shows "queue.steps (kn_alloc (ho_kernel h)) (request h opcode payload)"
  unfolding request_def
  by (intro queue.steps_rules queue_invalid_argument queue_next_request_id queue_errno queue_give_up plain_queue [OF plain_milliseconds] queue_update
      plain_queue [OF plain_set_remaining] queue_write_request queue_read_response assms) (simp_all add: still_def)

section \<open>The calls\<close>

lemma queue_refused: "queue.steps alloc (refused message out)"
  unfolding refused_def by (intro queue.steps_rules queue_invalid_argument)

lemma queue_refused_status: "queue.steps alloc (refused_status message)"
  unfolding refused_status_def by (intro queue.steps_rules queue_invalid_argument)

lemma queue_bad_response: "queue.steps alloc (bad_response r message out)"
  unfolding bad_response_def by (intro queue.steps_rules queue_invalid_response)

lemma queue_finish_empty: "queue.steps alloc (finish_empty message answer)"
  unfolding finish_empty_def by (intro queue.steps_rules queue_invalid_response queue_response_clear)

lemma queue_finish_parsed: "queue.steps alloc (finish_parsed parse message out answer)"
  unfolding finish_parsed_def by (intro queue.steps_rules queue_response_clear queue_bad_response)

lemma queue_give_out: "queue.steps alloc (case answer of (status, out) \<Rightarrow> return (Some (status, Some out)))"
  by (intro queue.steps_rules)

lemma queue_finish_authorize: "queue.steps alloc (finish_authorize out answer)"
  unfolding finish_authorize_def by (intro queue.steps_rules queue_response_clear queue_errno queue_fail queue_update) (simp add: still_def)

lemma queue_call: "queue.steps alloc (call f (\<lambda>_. []))"
  by (intro plain_queue plain_call)

lemma queue_list_rounds:
  assumes "sound_reads (ho_kernel h)"
  shows "queue.steps (kn_alloc (ho_kernel h)) (list_rounds h visitor rounds cancelled answer)"
proof (induction rounds arbitrary: cancelled answer)
  case 0
  then show ?case by (simp add: queue.steps_return)
next
  case (Suc rounds)
  show ?case unfolding list_rounds.simps
    by (intro queue.steps_rules queue_errno queue_fail queue_call queue_response_clear queue_and_on queue_read_response assms Suc.IH)
qed

lemma queue_finish_list: "queue.steps alloc (finish_list ended)"
  unfolding finish_list_def by (intro queue.steps_rules queue_set_error queue_response_clear)

lemma queue_map_capture: "queue.steps alloc (map_capture_payload h r)"
  unfolding map_capture_payload_def sealed_capture_descriptor_def by (intro queue.steps_rules queue_call)

lemma queue_finish_capture: "queue.steps alloc (finish_capture h out answer)"
  unfolding finish_capture_def by (intro queue.steps_rules queue_response_clear queue_map_capture queue_bad_response)

lemma queue_finish_work_area: "queue.steps alloc (finish_work_area out answer)"
  unfolding finish_work_area_def by (intro queue.steps_rules queue_response_clear queue_bad_response)

lemmas queue_parts = queue_refused queue_refused_status queue_finish_empty queue_finish_parsed queue_give_out queue_finish_authorize
  queue_list_rounds queue_finish_list queue_finish_capture queue_finish_work_area queue_request queue_set_error

section \<open>The next event\<close>

text \<open>A frame in the hands of the caller: the oldest event that was queued, or one that has just come.\<close>

definition in_hand :: "(nat \<Rightarrow> bool) \<Rightarrow> ksd_frame \<Rightarrow> ksd_connection \<Rightarrow> ksd_connection \<Rightarrow> net_event list \<Rightarrow> bool" where
  "in_hand alloc f d d' es \<longleftrightarrow> (conn_ok alloc d \<longrightarrow> conn_ok alloc d' \<and> handed_over es = []
     \<and> cn_events d @ state_events es = filter is_state_event [f] @ cn_events d'
     \<and> (cn_events d' \<noteq> [] \<or> cn_descriptor d' < 0 \<longrightarrow> queued_ok alloc f)
     \<and> (is_state_event f \<longrightarrow> fr_flags f = KSD_FLAG_EVENT \<and> fr_request_id f = 0)
     \<and> (cn_descriptor d < 0 \<longrightarrow> cn_descriptor d' < 0 \<and> state_events es = []))"

definition taken_step :: "(nat \<Rightarrow> bool) \<Rightarrow> ksd_connection \<Rightarrow> (u32 + ksd_frame) option \<Rightarrow> ksd_connection \<Rightarrow> net_event list \<Rightarrow> bool" where
  "taken_step alloc d r d' es = (case r of Some (Inr f) \<Rightarrow> in_hand alloc f d d' es | _ \<Rightarrow> queue_step alloc d d' es)"

lemma queued_state_event: "queued_ok alloc f \<Longrightarrow> is_state_event f"
  by (simp add: queued_ok_def is_state_event_def KSD_FLAG_EVENT_def)

lemma take_event_spec: "spec (take_event :: ('w, ksd_frame option) client)
    (\<lambda>d r d' es. (case r of None \<Rightarrow> d' = d \<and> es = [] \<and> cn_events d = [] | Some f \<Rightarrow> in_hand alloc f d d' es))"
proof (rule specI, goal_cases)
  case (1 s)
  show ?case
  proof (cases "cn_events (rn_data s)")
    case Nil
    then show ?thesis by (simp add: take_event_def wp_simps)
  next
    case (Cons f rest)
    then show ?thesis
      by (auto simp: take_event_def set_errno_def wp_simps in_hand_def conn_ok_def queue_bytes_def queued_state_event)
         (auto simp: queued_ok_def)
  qed
qed

lemma frame_in_hand: "frame_out alloc (Some f) d d' es \<Longrightarrow> cn_events d = [] \<Longrightarrow> in_hand alloc f d d' es"
  using event_header by (auto simp: frame_out_def in_hand_def state_events_def is_state_event_def)

lemma taken_later: "frame_out alloc None d d' es \<Longrightarrow> taken_step alloc d' r d'' fs \<Longrightarrow> taken_step alloc d r d'' (es @ fs)"
  by (auto simp: taken_step_def in_hand_def state_events_def frame_out_def queue_step_def split: option.splits sum.splits)

lemma taken_status:
  assumes "queue.steps alloc m"
  shows "spec (State_Monad.bind m (\<lambda>x. return (Some (Inl (f x))))) (taken_step alloc)"
proof (rule spec_bind [OF queue.steps_spec [OF assms]])
  show "spec (return (Some (Inl (f x)))) (\<lambda>d r d' es. r = Some (Inl (f x)) \<and> d' = d \<and> es = [])" for x by (rule spec_return) simp
qed (auto simp: taken_step_def)

lemma taken_plain:
  assumes "plain.steps m" "\<And>x. spec (k x) (taken_step alloc)"
  shows "spec (State_Monad.bind m k) (taken_step alloc)"
  by (rule spec_bind [OF frame_out_none [OF assms(1)] assms(2)]) (rule taken_later)

lemma taken_if: "spec m (taken_step alloc) \<Longrightarrow> spec n (taken_step alloc) \<Longrightarrow> spec (if b then m else n) (taken_step alloc)"
  by simp

lemma taken_data:
  assumes "\<And>c. spec (k c) (taken_step alloc)"
  shows "spec (State_Monad.bind data k) (taken_step alloc)"
  by (rule taken_plain [OF plain.steps_data assms])

lemma event_rounds_taken:
  fixes h :: "'w host"
  assumes "sound_reads (ho_kernel h)"
  shows "spec (event_rounds h timeout_ms deadline rounds) (taken_step alloc)"
proof (induction rounds)
  case 0
  then show ?case by (auto simp: taken_step_def queue_step_def intro: spec_return)
next
  case (Suc rounds)
  let ?failed = "\<lambda>message. State_Monad.bind (system_failure message) (\<lambda>status. return (Some (Inl status))) :: ('w, (u32 + ksd_frame) option) client"
  let ?timeout = "State_Monad.bind reset_error (\<lambda>_. return (Some (Inl KSD_STATUS_TIMEOUT))) :: ('w, (u32 + ksd_frame) option) client"
  let ?wait = "\<lambda>c. State_Monad.bind (ksd_monotonic_milliseconds (ho_kernel h)) (\<lambda>now.
      if timeout_ms = 0 \<or> deadline \<noteq> UINT64_MAX \<and> now \<ge> deadline then ?timeout
      else State_Monad.bind (ksd_wait_until (ho_kernel h) (cn_descriptor c) False deadline) (\<lambda>ready.
        if ready then event_rounds h timeout_ms deadline rounds
        else State_Monad.bind data (\<lambda>c. if th_errno c = ETIMEDOUT then ?timeout else ?failed ''desktop event wait failed'')))"
  let ?got = "\<lambda>c received. case received of Inr f \<Rightarrow> return (Some (Inr f))
     | Inl r \<Rightarrow> if r < 0 then ?failed ''desktop event receive failed'' else ?wait c"
  have wait: "spec (?wait c) (taken_step alloc)" for c :: ksd_connection
    by (intro taken_plain [OF plain_milliseconds] taken_if taken_plain [OF plain_wait_until] taken_data taken_status queue_fail queue_reset_error Suc.IH)
  have got: "spec (?got c received) (\<lambda>d r d' es. case received of Inr f \<Rightarrow> r = Some (Inr f) \<and> d' = d \<and> es = [] | Inl _ \<Rightarrow> taken_step alloc d r d' es)" for c :: ksd_connection and received
    by (cases received) (auto intro: spec_return taken_status queue_fail wait)
  have received: "spec (State_Monad.bind (receive_event_frame h) (?got c)) (\<lambda>d r d' es. cn_events d = [] \<longrightarrow> taken_step alloc d r d' es)" for c :: ksd_connection
  proof (rule spec_bind [OF receive_event_frame_out [OF assms, of alloc] got], goal_cases)
    case (1 d x d' y d'' es fs)
    then show ?case by (cases x) (auto simp: taken_later, auto simp: taken_step_def frame_in_hand)
  qed
  have closed: "spec (State_Monad.bind (set_errno ENOTCONN) (\<lambda>_. ?failed ''desktop event connection ended'')) (taken_step alloc)"
    by (rule taken_plain [OF plain_errno taken_status [OF queue_fail]])
  have live: "spec (if cn_descriptor c < 0 then State_Monad.bind (set_errno ENOTCONN) (\<lambda>_. ?failed ''desktop event connection ended'')
      else State_Monad.bind (receive_event_frame h) (?got c)) (\<lambda>d r d' es. cn_events d = [] \<longrightarrow> taken_step alloc d r d' es)" for c :: ksd_connection
    using received [of c] spec_weaken [OF closed, where Q = "\<lambda>d r d' es. cn_events d = [] \<longrightarrow> taken_step alloc d r d' es"] by (cases "cn_descriptor c < 0") auto
  have none: "spec (State_Monad.bind data (\<lambda>c. if cn_descriptor c < 0 then State_Monad.bind (set_errno ENOTCONN) (\<lambda>_. ?failed ''desktop event connection ended'')
      else State_Monad.bind (receive_event_frame h) (?got c))) (\<lambda>d r d' es. cn_events d = [] \<longrightarrow> taken_step alloc d r d' es)"
    by (rule spec_bind [OF spec_data [where P = "\<lambda>d x d' es. d' = d \<and> es = []"] live]) auto
  have k: "spec (case taken of Some f \<Rightarrow> return (Some (Inr f)) | None \<Rightarrow> State_Monad.bind data (\<lambda>c.
      if cn_descriptor c < 0 then State_Monad.bind (set_errno ENOTCONN) (\<lambda>_. ?failed ''desktop event connection ended'')
      else State_Monad.bind (receive_event_frame h) (?got c)))
      (\<lambda>d r d' es. case taken of Some f \<Rightarrow> r = Some (Inr f) \<and> d' = d \<and> es = [] | None \<Rightarrow> cn_events d = [] \<longrightarrow> taken_step alloc d r d' es)" for taken
    using none by (cases taken) (auto intro: spec_return)
  show ?case unfolding event_rounds.simps
    by (rule spec_bind [OF take_event_spec [of alloc] k]) (auto simp: taken_step_def split: option.splits sum.splits)
qed

text \<open>What is done with a frame in hand: it is handed over, or it is lost and the connection closed.\<close>

definition disposed :: "(nat \<Rightarrow> bool) \<Rightarrow> ksd_frame \<Rightarrow> ksd_connection \<Rightarrow> ksd_connection \<Rightarrow> net_event list \<Rightarrow> bool" where
  "disposed alloc f d d' es \<longleftrightarrow> came es = [] \<and> cn_events d' = cn_events d \<and> (conn_ok alloc d \<longrightarrow> conn_ok alloc d')
     \<and> (handed_over es = filter is_state_event [f] \<and> cn_descriptor d' = cn_descriptor d
        \<or> handed_over es = [] \<and> \<not> (fr_flags f = KSD_FLAG_EVENT \<and> fr_request_id f = 0 \<and> queued_ok alloc f) \<and> cn_descriptor d' < 0)"

lemma in_hand_disposed:
  assumes "in_hand alloc f d d' es" "disposed alloc f d' d'' fs"
  shows "queue_step alloc d d'' (es @ fs)"
  using assms by (auto simp: in_hand_def disposed_def queue_step_def queued_ok_def split: if_splits)

definition give_on :: "'w host \<Rightarrow> state_output \<Rightarrow> u32 \<times> ksd_frame option \<times> u32 \<Rightarrow> ('w, (u32 \<times> state_output option) option) client" where
  "give_on h event answer = and_on (give_event h event answer) (\<lambda>(status, event). return (Some (status, Some event)))"

lemma dispose_event:
  fixes h :: "'w host"
  shows "spec (and_on (judge_event KSD_OP_STATE_EVENT (Inr f)) (give_on h event)) (\<lambda>d r d' es. disposed (kn_alloc (ho_kernel h)) f d d' es)"
proof (cases "fr_opcode f = KSD_OP_SESSION_REVOKED")
  case True
  then have "\<not> is_state_event f" by (simp add: is_state_event_def wire_defs)
  with True show ?thesis
    unfolding judge_event_def give_on_def give_event_def and_on_def apply_revoked_event_def system_failure_def signal_pending_def set_error_def set_errno_def reset_error_def Let_def
    by (intro specI) (auto simp: wp_simps disposed_def conn_ok_def wire_defs split: option.splits dest: queued_state_event)
next
  case False
  then show ?thesis
    unfolding judge_event_def give_on_def give_event_def and_on_def apply_revoked_event_def system_failure_def signal_pending_def set_error_def set_errno_def reset_error_def Let_def
    by (intro specI) (auto simp: wp_simps disposed_def conn_ok_def queued_ok_def is_state_event_def wire_defs split: option.splits)
qed

lemma and_on_assoc:
  "and_on (and_on m f) g = and_on m (\<lambda>x. and_on (f x) g)" "and_on (State_Monad.bind n f) g = State_Monad.bind n (\<lambda>x. and_on (f x) g)"
  by (auto simp: and_on_def intro!: arg_cong2 [where f = State_Monad.bind] split: option.splits)

lemma and_on_return: "and_on (return (Some x)) f = f x"
  by (simp add: and_on_def)

lemma queue_give_event:
  "queue.steps (kn_alloc (ho_kernel h)) (and_on (judge_event KSD_OP_STATE_EVENT (Inl status)) (give_on h event))"
proof -
  have "queue.steps (kn_alloc (ho_kernel h)) (give_event h event (status, None, 0))"
    unfolding give_event_def prod.case by (simp add: queue.steps_rules queue_reset_error)
  then show ?thesis unfolding judge_event_def sum.case and_on_return give_on_def by (intro queue_and_on queue_give_out)
qed

lemma queue_state_next:
  fixes h :: "'w host"
  assumes "sound_reads (ho_kernel h)"
  shows "queue.steps (kn_alloc (ho_kernel h)) (ksd_state_next h timeout_ms out)"
proof -
  let ?alloc = "kn_alloc (ho_kernel h)"
  have k: "spec (case r of None \<Rightarrow> return None | Some x \<Rightarrow> and_on (judge_event KSD_OP_STATE_EVENT x) (give_on h event))
      (\<lambda>d y d' es. case r of Some (Inr f) \<Rightarrow> disposed ?alloc f d d' es | _ \<Rightarrow> queue_step ?alloc d d' es)" for r event
    using dispose_event queue.steps_spec [OF queue_give_event] queue.steps_spec [OF queue.steps_return [of ?alloc None]]
    by (cases r; cases "the r") auto
  have "queue.steps ?alloc (and_on (event_rounds h timeout_ms deadline rounds) (\<lambda>x. and_on (judge_event KSD_OP_STATE_EVENT x) (give_on h event)))" for deadline rounds event
    unfolding queue.steps_def and_on_def [of "event_rounds h timeout_ms deadline rounds"]
    by (rule spec_bind [OF event_rounds_taken [OF assms] k])
      (auto simp: taken_step_def intro: in_hand_disposed queue_step_chain split: option.splits sum.splits)
  then have "queue.steps ?alloc (and_on (read_event h timeout_ms KSD_OP_STATE_EVENT) (give_on h event))" for event
    unfolding read_event_def Let_def and_on_assoc by (intro queue.steps_rules plain_queue [OF plain_milliseconds])
  then show ?thesis unfolding ksd_state_next_def give_on_def by (intro queue.steps_rules queue_invalid_argument)
qed

section \<open>Sequences of calls\<close>

text \<open>The public calls on a connection, their results left aside but for whether the call came to its end.\<close>

definition ends :: "('w, 'a option) client \<Rightarrow> ('w, bool) client" where
  "ends m = do { r \<leftarrow> m; return (r \<noteq> None) }"

inductive public_call :: "'w host \<Rightarrow> ('w, bool) client \<Rightarrow> bool" for h where
  authorize: "public_call h (ends (ksd_authorize h mode requested_scopes granted_scopes))"
| ping: "public_call h (ends (ksd_ping h))"
| permissions_list: "public_call h (ends (ksd_permissions_list h visitor))"
| permissions_revoke: "public_call h (ends (ksd_permissions_revoke h revoke))"
| capture_area: "public_call h (ends (ksd_capture_area h x y width height capture))"
| capture_desktop: "public_call h (ends (ksd_capture_desktop h capture))"
| capture_window: "public_call h (ends (ksd_capture_window h window_id include_decoration capture))"
| cursor_position: "public_call h (ends (ksd_cursor_position h position))"
| work_area: "public_call h (ends (ksd_work_area h area))"
| window_list_json: "public_call h (ends (ksd_window_list_json h include_hidden json))"
| window_handles_json: "public_call h (ends (ksd_window_handles_json h json))"
| window_active_json: "public_call h (ends (ksd_window_active_json h json))"
| window_query_json: "public_call h (ends (ksd_window_query_json h handle json))"
| window_children_json: "public_call h (ends (ksd_window_children_json h parent json))"
| window_at_point_json: "public_call h (ends (ksd_window_at_point_json h x y deepest json))"
| display_list_json: "public_call h (ends (ksd_display_list_json h json))"
| keyboard_state_json: "public_call h (ends (ksd_keyboard_state_json h json))"
| keyboard_state_since_json: "public_call h (ends (ksd_keyboard_state_since_json h known_revision json))"
| window_focus: "public_call h (ends (ksd_window_focus h handle))"
| window_raise: "public_call h (ends (ksd_window_raise h handle))"
| window_lower: "public_call h (ends (ksd_window_lower h handle))"
| window_close: "public_call h (ends (ksd_window_close h handle))"
| window_kill: "public_call h (ends (ksd_window_kill h handle))"
| window_move_resize: "public_call h (ends (ksd_window_move_resize h handle x y width height))"
| window_move_resize_xid: "public_call h (ends (ksd_window_move_resize_xid h xid x y width height))"
| window_set_state: "public_call h (ends (ksd_window_set_state h handle state))"
| window_set_opacity: "public_call h (ends (ksd_window_set_opacity h handle opacity))"
| window_set_above: "public_call h (ends (ksd_window_set_above h handle on_top))"
| window_set_decorated: "public_call h (ends (ksd_window_set_decorated h handle decorated))"
| window_set_skip_taskbar: "public_call h (ends (ksd_window_set_skip_taskbar h handle skip))"
| window_set_title: "public_call h (ends (ksd_window_set_title h handle title))"
| window_set_visible: "public_call h (ends (ksd_window_set_visible h handle visible))"
| window_redraw: "public_call h (ends (ksd_window_redraw h handle))"
| window_click: "public_call h (ends (ksd_window_click h handle x y button clicks))"
| window_button: "public_call h (ends (ksd_window_button h handle x y button down))"
| window_focus_child: "public_call h (ends (ksd_window_focus_child h handle))"
| window_reserve: "public_call h (ends (ksd_window_reserve h cookie x y ttl_ms))"
| window_get_reserved: "public_call h (ends (ksd_window_get_reserved h cookie handle))"
| clipboard_mimetypes: "public_call h (ends (ksd_clipboard_mimetypes h mimetypes))"
| clipboard_content: "public_call h (ends (ksd_clipboard_content h mimetype content))"
| clipboard_text: "public_call h (ends (ksd_clipboard_text h string))"
| clipboard_set_content: "public_call h (ends (ksd_clipboard_set_content h mimetype contents))"
| clipboard_set_text: "public_call h (ends (ksd_clipboard_set_text h contents))"
| mouse_move_absolute: "public_call h (ends (ksd_mouse_move_absolute h x y))"
| mouse_move_relative: "public_call h (ends (ksd_mouse_move_relative h dx dy))"
| mouse_button: "public_call h (ends (ksd_mouse_button h button pressed))"
| mouse_scroll: "public_call h (ends (ksd_mouse_scroll h delta vertical))"
| state_subscribe: "public_call h (ends (ksd_state_subscribe h domains))"
| state_next: "public_call h (ends (ksd_state_next h timeout_ms out))"

lemmas call_defs = ksd_authorize_def ksd_ping_def ksd_permissions_list_def ksd_permissions_revoke_def ksd_capture_area_def ksd_capture_desktop_def ksd_capture_window_def ksd_cursor_position_def ksd_work_area_def ksd_window_list_json_def ksd_window_handles_json_def ksd_window_active_json_def ksd_window_query_json_def ksd_window_children_json_def ksd_window_at_point_json_def ksd_display_list_json_def ksd_keyboard_state_json_def ksd_keyboard_state_since_json_def ksd_window_focus_def ksd_window_raise_def ksd_window_lower_def ksd_window_close_def ksd_window_kill_def ksd_window_move_resize_def ksd_window_move_resize_xid_def ksd_window_set_state_def ksd_window_set_opacity_def ksd_window_set_above_def ksd_window_set_decorated_def ksd_window_set_skip_taskbar_def ksd_window_set_title_def ksd_window_set_visible_def ksd_window_redraw_def ksd_window_click_def ksd_window_button_def ksd_window_focus_child_def ksd_window_reserve_def ksd_window_get_reserved_def ksd_clipboard_mimetypes_def ksd_clipboard_content_def ksd_clipboard_text_def ksd_clipboard_set_content_def ksd_clipboard_set_text_def ksd_mouse_move_absolute_def ksd_mouse_move_relative_def ksd_mouse_button_def ksd_mouse_scroll_def ksd_state_subscribe_def
  request_empty_result_def request_capture_def request_string_result_def request_window_json_def request_handle_def request_geometry_def
  request_window_value_def request_pair_def clipboard_write_def

lemma queue_public_call:
  fixes h :: "'w host"
  assumes "public_call h m" "sound_reads (ho_kernel h)"
  shows "queue.steps (kn_alloc (ho_kernel h)) m"
  using assms(1)
  by (cases; simp only:; unfold ends_def call_defs; intro queue.steps_rules queue_and_on queue_parts queue_state_next assms(2))

text \<open>The kernel gives a reader no more than it asks for, and a new descriptor is not negative.\<close>

definition sound_host :: "'w host \<Rightarrow> bool" where
  "sound_host h \<longleftrightarrow> sound_reads (ho_kernel h) \<and> (\<forall>w d. fst (ho_eventfd h w) = Inr d \<longrightarrow> d \<ge> 0)"

text \<open>A connection on which no event has come yet.\<close>

definition fresh :: "(nat \<Rightarrow> bool) \<Rightarrow> ksd_connection \<Rightarrow> net_event list \<Rightarrow> bool" where
  "fresh alloc c es \<longleftrightarrow> conn_ok alloc c \<and> cn_events c = [] \<and> came es = [] \<and> handed_over es = []"

definition blank :: "ksd_connection \<Rightarrow> bool" where
  "blank c \<longleftrightarrow> cn_events c = [] \<and> cn_queued_count c = 0 \<and> cn_queued_bytes c = 0 \<and> \<not> cn_signalled c"

lemma initialize_poll_fresh:
  assumes "sound_host h"
  shows "spec (initialize_poll h) (\<lambda>d r d' es. r \<and> blank d \<and> cn_descriptor d \<ge> 0 \<longrightarrow> fresh alloc d' es \<and> cn_descriptor d' \<ge> 0)"
proof -
  have "\<And>w d w'. ho_eventfd h w = (Inr d, w') \<Longrightarrow> d \<ge> 0" using assms by (metis fst_conv sound_host_def)
  then show ?thesis unfolding initialize_poll_def system_call_def set_errno_def
    by (intro specI) (fastforce simp: wp_simps wp_call fresh_def blank_def conn_ok_def queue_bytes_def partial_def within_def ksd_buffer_init_def buffer_wf_def
      KSD_CLIENT_MAX_EVENTS_def KSD_CLIENT_MAX_EVENT_BYTES_def split: prod.splits sum.splits option.splits)
qed

lemma fail_status: "spec (system_failure message :: ('w, u32) client) (\<lambda>_ r _ _. r \<noteq> KSD_STATUS_OK)"
  unfolding system_failure_def signal_pending_def set_error_def Let_def
  by (rule specI) (auto simp: wp_simps ksd_status_for_system_error_def wire_defs)

lemma plain_connect_socket: "plain.steps (connect_socket h configured timeout_ms)"
  unfolding connect_socket_def default_socket_path_def adopt_socket_def
  by (intro plain.steps_rules plain_errno plain_call plain_system_call plain_set_timeouts) simp_all

text \<open>A connect that succeeds: what came with the greeting is queued, and the connection is well formed.\<close>

definition opened :: "(nat \<Rightarrow> bool) \<Rightarrow> ksd_connection \<Rightarrow> net_event list \<Rightarrow> bool" where
  "opened alloc c es \<longleftrightarrow> conn_ok alloc c \<and> (\<exists>lost. state_events es = handed_over es @ cn_events c @ lost \<and> (lost \<noteq> [] \<longrightarrow> cn_descriptor c < 0))"

definition succeeded :: "(u32 \<times> 'a) option \<Rightarrow> bool" where
  "succeeded r \<longleftrightarrow> (\<exists>x. r = Some (KSD_STATUS_OK, x))"

lemma not_succeeded_return: "status \<noteq> KSD_STATUS_OK \<Longrightarrow> spec (return (Some (status, x))) (\<lambda>d r d' es. succeeded r \<longrightarrow> P d r d' es)"
  by (auto simp: succeeded_def intro: spec_return)

lemma not_succeeded_bind:
  assumes "spec m (\<lambda>_ _ _ _. True)" "\<And>x. spec (k x) (\<lambda>d r d' es. succeeded r \<longrightarrow> False)"
  shows "spec (State_Monad.bind m k) (\<lambda>d r d' es. succeeded r \<longrightarrow> False)"
  by (rule spec_bind [OF assms]) simp

lemma not_succeeded_status:
  assumes "spec m (\<lambda>_ status _ _. status \<noteq> KSD_STATUS_OK)" "\<And>status. status \<noteq> KSD_STATUS_OK \<Longrightarrow> spec (k status) (\<lambda>d r d' es. succeeded r \<longrightarrow> False)"
  shows "spec (State_Monad.bind m k) (\<lambda>d r d' es. succeeded r \<longrightarrow> False)"
  by (rule spec_bind_if [OF assms]) simp_all

lemma never_succeeded: "spec m (\<lambda>d r d' es. succeeded r \<longrightarrow> False) \<Longrightarrow> spec m (\<lambda>d r d' es. succeeded r \<longrightarrow> P d r d' es)"
  by (erule spec_weaken) simp

lemma invalid_response_status: "spec (invalid_response r message :: ('w, u32) client) (\<lambda>_ status _ _. status \<noteq> KSD_STATUS_OK)"
  unfolding invalid_response_def response_clear_def
  by (rule spec_bind [OF spec_plain [OF plain_close_received, where P = "\<lambda>_ _ _ _. True"]
        spec_bind [OF spec_plain [OF plain_errno, where P = "\<lambda>_ _ _ _. True"] fail_status, where Q = "\<lambda>_ status _ _. status \<noteq> KSD_STATUS_OK"]]) simp_all

lemma grows_abandon: "grows.keeps (abandon response)"
  unfolding abandon_def response_clear_def hang_up_def by (intro grows.keeps_rules plain_grows [OF plain_close_received]) simp_all

lemma queue_finish_hello: "spec (finish_hello info answer) (\<lambda>d r d' es. succeeded r \<longrightarrow> queue_step alloc d d' es)"
proof -
  obtain status response where a: "answer = (status, response)" by (cases answer)
  have dropped: "spec (State_Monad.bind (abandon r) (\<lambda>_. return (Some (status, info)))) (\<lambda>d r d' es. succeeded r \<longrightarrow> False)" if "status \<noteq> KSD_STATUS_OK" for status r
    using grows_abandon that unfolding grows.keeps_def by (intro not_succeeded_bind not_succeeded_return)
  have bad: "spec (State_Monad.bind (invalid_response r message) (\<lambda>status. State_Monad.bind (abandon empty_response) (\<lambda>_. return (Some (status, info)))))
      (\<lambda>d r d' es. succeeded r \<longrightarrow> False)" for r message
    by (rule not_succeeded_status [OF invalid_response_status dropped])
  have good: "queue.steps alloc (State_Monad.bind (update (\<lambda>c. c\<lparr>cn_granted_scopes := granted, cn_available_operations := operations, cn_backend := backend, cn_lease_id := lease_id\<rparr>))
      (\<lambda>_. State_Monad.bind (response_clear response) (\<lambda>_. return x)))" for granted operations backend lease_id and x :: "(u32 \<times> ksd_service_info) option"
    by (intro queue.steps_rules queue_update queue_response_clear) (simp add: still_def)
  show ?thesis
  proof (cases "status = KSD_STATUS_OK")
    case False
    show ?thesis unfolding finish_hello_def a prod.case if_P [OF False] by (rule never_succeeded [OF dropped [OF False]])
  next
    case True
    have g: "spec (State_Monad.bind (update (\<lambda>c. c\<lparr>cn_granted_scopes := granted, cn_available_operations := operations, cn_backend := backend, cn_lease_id := lease_id\<rparr>))
        (\<lambda>_. State_Monad.bind (response_clear response) (\<lambda>_. return x))) (\<lambda>d r d' es. succeeded r \<longrightarrow> queue_step alloc d d' es)"
      for granted operations backend lease_id and x :: "(u32 \<times> ksd_service_info) option"
      by (rule spec_weaken [OF queue.steps_spec [OF good]]) simp
    show ?thesis unfolding finish_hello_def a prod.case Let_def using True never_succeeded [OF bad] g by (auto split: option.split)
  qed
qed

lemma queue_step_opened: "fresh alloc d es \<Longrightarrow> queue_step alloc d d' fs \<Longrightarrow> opened alloc d' (es @ fs)"
  by (auto simp: fresh_def queue_step_def opened_def)

lemma grows_drop_events: "grows.keeps (drop_events n)"
proof (induction n)
  case 0
  then show ?case by (simp add: grows.keeps_return)
next
  case (Suc n)
  have "grows.keeps take_event"
    unfolding take_event_def by (auto simp: grows.keeps_rules grows_errno intro!: grows.keeps_bind split: list.split)
  with Suc.IH show ?case unfolding drop_events.simps by (intro grows.keeps_rules)
qed

lemma grows_disconnect: "grows.keeps ksd_disconnect"
  unfolding ksd_disconnect_def hang_up_def by (intro grows.keeps_rules grows_drop_events) simp_all

lemma hello_exchange:
  assumes "sound_host h"
  shows "spec (and_on (request h KSD_OP_HELLO payload) (finish_hello info)) (\<lambda>d r d' es. succeeded r \<longrightarrow> queue_step (kn_alloc (ho_kernel h)) d d' es)"
proof -
  have "sound_reads (ho_kernel h)" using assms by (simp add: sound_host_def)
  note q = queue.steps_spec [OF queue_request [OF this]]
  have k: "spec (case r of None \<Rightarrow> return None | Some x \<Rightarrow> finish_hello info x) (\<lambda>d r d' es. succeeded r \<longrightarrow> queue_step (kn_alloc (ho_kernel h)) d d' es)" for r
    using queue_finish_hello by (cases r) (auto simp: succeeded_def intro: spec_return)
  show ?thesis unfolding and_on_def by (rule spec_bind [OF q k]) (auto intro: queue_step_chain)
qed

text \<open>The part of \<^const>\<open>ksd_connect\<close> that follows the checks of its arguments.\<close>

definition connect_steps :: "'w host \<Rightarrow> ksd_connect_options \<Rightarrow> ksd_service_info \<Rightarrow> int \<Rightarrow> ('w, (u32 \<times> ksd_service_info) option) client" where
  "connect_steps h options info descriptor =
     (if descriptor < 0
      then do {
        status \<leftarrow> system_failure ''could not connect to desktop service'';
        update (\<lambda>c. c\<lparr>cn_present := False\<rparr>);
        return (Some (status, info)) }
      else do {
        polled \<leftarrow> initialize_poll h;
        if \<not> polled
        then do {
          ksd_disconnect;
          c \<leftarrow> data;
          set_error 0 (th_errno c) (Some (ascii ''could not create desktop poll descriptor''));
          return (Some (KSD_STATUS_UNAVAILABLE, info)) }
        else and_on (request h KSD_OP_HELLO (hello_payload options)) (finish_hello info) })"

lemma connect_steps_opened:
  fixes h :: "'w host"
  assumes "sound_host h"
  shows "spec (connect_steps h options info descriptor)
    (\<lambda>d r d' es. succeeded r \<longrightarrow> blank d \<and> cn_descriptor d = descriptor \<longrightarrow> opened (kn_alloc (ho_kernel h)) d' es)"
proof (cases "descriptor < 0")
  case True
  have r: "spec (State_Monad.bind (update (\<lambda>c. c\<lparr>cn_present := False\<rparr>)) (\<lambda>_. return (Some (status, info))) :: ('w, (u32 \<times> ksd_service_info) option) client)
      (\<lambda>d r d' es. succeeded r \<longrightarrow> False)" if "status \<noteq> KSD_STATUS_OK" for status
    by (rule specI) (use that in \<open>simp add: wp_simps succeeded_def\<close>)
  show ?thesis unfolding connect_steps_def if_P [OF True] by (rule never_succeeded [OF not_succeeded_status [OF fail_status r]])
next
  case False
  let ?alloc = "kn_alloc (ho_kernel h)"
  let ?failed = "State_Monad.bind ksd_disconnect (\<lambda>_. State_Monad.bind data (\<lambda>c. State_Monad.bind
     (set_error 0 (th_errno c) (Some (ascii ''could not create desktop poll descriptor''))) (\<lambda>_. return (Some (KSD_STATUS_UNAVAILABLE, info))))) :: ('w, (u32 \<times> ksd_service_info) option) client"
  have e: "spec (State_Monad.bind data (\<lambda>c. State_Monad.bind (set_error 0 (th_errno c) message) (\<lambda>_. return (Some (KSD_STATUS_UNAVAILABLE, info)))) :: ('w, (u32 \<times> ksd_service_info) option) client)
      (\<lambda>d r d' es. succeeded r \<longrightarrow> False)" for message
    unfolding set_error_def by (rule specI) (simp add: wp_simps succeeded_def wire_defs)
  have failed: "spec ?failed (\<lambda>d r d' es. succeeded r \<longrightarrow> False)"
    by (rule not_succeeded_bind [OF grows_disconnect [unfolded grows.keeps_def] e])
  have k: "spec (if \<not> polled then ?failed else and_on (request h KSD_OP_HELLO (hello_payload options)) (finish_hello info))
      (\<lambda>d r d' es. succeeded r \<longrightarrow> polled \<and> queue_step ?alloc d d' es)" for polled
    using never_succeeded [OF failed, of "\<lambda>_ _ _ _. False"] hello_exchange [OF assms] by (cases polled) auto
  show ?thesis unfolding connect_steps_def if_not_P [OF False]
    by (rule spec_bind [OF initialize_poll_fresh [OF assms, of ?alloc] k]) (use False in \<open>auto intro: queue_step_opened\<close>)
qed

lemma opened_later: "same d d' \<Longrightarrow> came es = [] \<Longrightarrow> handed_over es = [] \<Longrightarrow> opened alloc d'' fs \<Longrightarrow> opened alloc d'' (es @ fs)"
  by (simp add: opened_def)

lemma connect_opened:
  fixes h :: "'w host"
  assumes "sound_host h"
  shows "spec (ksd_connect h options vacant info) (\<lambda>d r d' es. succeeded r \<longrightarrow> opened (kn_alloc (ho_kernel h)) d' es)"
proof -
  let ?alloc = "kn_alloc (ho_kernel h)" and ?P = "\<lambda>d r d' es. succeeded r \<longrightarrow> opened (kn_alloc (ho_kernel h)) d' es"
  have refused: "spec (State_Monad.bind (invalid_argument message) (\<lambda>status. return (Some (status, i))) :: ('w, (u32 \<times> ksd_service_info) option) client) ?P" for message i
    unfolding invalid_argument_def set_error_def by (rule specI) (simp add: wp_simps succeeded_def wire_defs)
  have memory: "spec (State_Monad.bind (set_error 0 ENOMEM message) (\<lambda>_. return (Some (KSD_STATUS_RESOURCE_EXHAUSTED, i))) :: ('w, (u32 \<times> ksd_service_info) option) client) ?P" for message i
    unfolding set_error_def by (rule specI) (simp add: wp_simps succeeded_def wire_defs)
  have kept: "spec (State_Monad.bind (update (\<lambda>c. c\<lparr>cn_descriptor := descriptor\<rparr>)) (\<lambda>_. connect_steps h o' i descriptor))
      (\<lambda>d r d' es. succeeded r \<longrightarrow> blank d \<longrightarrow> opened ?alloc d' es)" for o' i descriptor
    by (rule spec_bind [OF spec_update [where P = "\<lambda>d _ d' es. d' = d\<lparr>cn_descriptor := descriptor\<rparr> \<and> es = []"] connect_steps_opened [OF assms]]) (auto simp: blank_def)
  have connected: "spec (State_Monad.bind (connect_socket h path timeout_ms) (\<lambda>descriptor. State_Monad.bind (update (\<lambda>c. c\<lparr>cn_descriptor := descriptor\<rparr>)) (\<lambda>_. connect_steps h o' i descriptor)))
      (\<lambda>d r d' es. succeeded r \<longrightarrow> blank d \<longrightarrow> opened ?alloc d' es)" for o' i path timeout_ms
    by (rule spec_bind [OF plain.steps_spec [OF plain_connect_socket] kept]) (auto simp: blank_def still_def intro: opened_later dest: same_still)
  have made: "spec (State_Monad.bind (update (created_connection o')) (\<lambda>_. State_Monad.bind (connect_socket h path timeout_ms)
      (\<lambda>descriptor. State_Monad.bind (update (\<lambda>c. c\<lparr>cn_descriptor := descriptor\<rparr>)) (\<lambda>_. connect_steps h o' i descriptor)))) ?P" for o' i path timeout_ms
    by (rule spec_bind [OF spec_update [where P = "\<lambda>d _ d' es. d' = created_connection o' d \<and> es = []"] connected]) (auto simp: blank_def created_connection_def)
  show ?thesis unfolding ksd_connect_def connect_steps_def [symmetric]
    by (rule spec_bind [OF spec_data [where P = "\<lambda>d x d' es. es = []"], where R = "\<lambda>_. ?P"]) (auto simp: refused memory made split: option.splits)
qed

text \<open>
  The life of a connection: it is opened, and then calls are made on it one after another.
  Between two calls the program may change \<open>errno\<close> and pass another error structure, and
  the world goes on as it likes.
\<close>

definition between :: "(ksd_connection, 'w, net_event) run \<Rightarrow> ksd_error option \<Rightarrow> int \<Rightarrow> 'w \<Rightarrow> (ksd_connection, 'w, net_event) run" where
  "between t e n w = t\<lparr>rn_data := (rn_data t)\<lparr>cn_error := e, th_errno := n\<rparr>, rn_world := w\<rparr>"

inductive client_run :: "'w host \<Rightarrow> (ksd_connection, 'w, net_event) run \<Rightarrow> (ksd_connection, 'w, net_event) run \<Rightarrow> bool" for h where
  connected: "run_state (ksd_connect h options vacant info) s = (Some (KSD_STATUS_OK, told), t) \<Longrightarrow> client_run h s t"
| called: "client_run h s t \<Longrightarrow> public_call h m \<Longrightarrow> run_state m (between t e n w) = (x, u) \<Longrightarrow> client_run h s u"

lemma opened_step:
  assumes "opened alloc d es" "queue_step alloc (d\<lparr>cn_error := e, th_errno := n\<rparr>) d' fs"
  shows "opened alloc d' (es @ fs)"
proof -
  have s: "still d (d\<lparr>cn_error := e, th_errno := n\<rparr>)" by (simp add: still_def)
  have "queue_step alloc d d' ([] @ fs)" by (rule queue_step_chain [OF still_step [OF s] assms(2)]) simp_all
  then obtain l where ok: "conn_ok alloc d'" and l: "cn_events d @ state_events fs = handed_over fs @ cn_events d' @ l" "l \<noteq> [] \<longrightarrow> cn_descriptor d' < 0"
    and down: "cn_descriptor d < 0 \<longrightarrow> cn_descriptor d' < 0 \<and> state_events fs = []"
    using assms(1) by (auto simp: opened_def queue_step_def)
  obtain m where m: "state_events es = handed_over es @ cn_events d @ m" "m \<noteq> [] \<longrightarrow> cn_descriptor d < 0" using assms(1) by (auto simp: opened_def)
  have "state_events (es @ fs) = handed_over (es @ fs) @ cn_events d' @ l @ m"
  proof (cases "m = []")
    case True
    with l(1) m(1) show ?thesis by simp
  next
    case False
    with m(2) down have "state_events fs = []" by blast
    with l(1) m(1) show ?thesis by simp
  qed
  moreover have "l @ m \<noteq> [] \<longrightarrow> cn_descriptor d' < 0" using l(2) m(2) down by blast
  ultimately show ?thesis using ok by (auto simp: opened_def)
qed

lemma client_run_opened:
  fixes h :: "'w host"
  assumes "client_run h s t" "sound_host h"
  shows "\<exists>es. rn_log t = rn_log s @ es \<and> opened (kn_alloc (ho_kernel h)) (rn_data t) es"
  using assms(1)
proof (induction rule: client_run.induct)
  case (connected options vacant info s told t)
  from spec_run [OF connect_opened [OF assms(2)] this] show ?case by (auto simp: succeeded_def)
next
  case (called s t m e n w x u)
  then obtain es where es: "rn_log t = rn_log s @ es" "opened (kn_alloc (ho_kernel h)) (rn_data t) es" by blast
  have "queue.steps (kn_alloc (ho_kernel h)) m" using called.hyps(2) assms(2) by (intro queue_public_call) (simp_all add: sound_host_def)
  from spec_run [OF queue.steps_spec [OF this] called.hyps(3)] obtain fs where
    fs: "rn_log u = rn_log t @ fs" "queue_step (kn_alloc (ho_kernel h)) ((rn_data t)\<lparr>cn_error := e, th_errno := n\<rparr>) (rn_data u) fs"
    by (auto simp: between_def)
  from opened_step [OF es(2) fs(2)] es(1) fs(1) show ?case by auto
qed

end
