(* ===== verification/Client_Exchange.thy ===== *)
theory Client_Exchange
  imports Client_Runs
begin

text \<open>
  The exchange of a request and its response (src/src/client.c): whose answer a call gets, and
  what becomes of the descriptors that come with answers.
\<close>

section \<open>Computations that neither take in nor close descriptors\<close>

interpretation silent: log_property "\<lambda>es. arrived es = [] \<and> closed es = []"
  by standard simp_all

lemma more_descriptor_simps [simp]:
  "arrived (Sent bs # es) = arrived es" "arrived (Passed fd # es) = arrived es" "arrived (Signalled d # es) = arrived es" "arrived (Drained d # es) = arrived es"
  "arrived (Hung_Up d # es) = arrived es" "arrived (Came f # es) = arrived es" "arrived (Delivered f # es) = arrived es"
  "closed (Sent bs # es) = closed es" "closed (Passed fd # es) = closed es" "closed (Signalled d # es) = closed es" "closed (Drained d # es) = closed es"
  "closed (Hung_Up d # es) = closed es" "closed (Came f # es) = closed es" "closed (Delivered f # es) = closed es"
  by (simp_all add: arrived_def closed_def)

lemma silent_errno: "silent.keeps (set_errno e)"
  unfolding set_errno_def by (intro silent.keeps_rules)

lemma silent_call: "silent.keeps (call f (\<lambda>_. []))"
  by (intro silent.keeps_rules) simp

lemma silent_system_call:
  assumes "\<And>x. arrived (entry x) = [] \<and> closed (entry x) = []"
  shows "silent.keeps (system_call f entry)"
  unfolding system_call_def
proof (rule silent.keeps_bind)
  show "silent.keeps (case a of Inl e \<Rightarrow> State_Monad.bind (set_errno e) (\<lambda>_. return None) | Inr x \<Rightarrow> return (Some x))" for a
    by (cases a) (simp_all add: silent.keeps_bind silent_errno silent.keeps_return)
  show "silent.keeps (call f (\<lambda>answer. case answer of Inl x \<Rightarrow> [] | Inr x \<Rightarrow> entry x))"
    by (rule silent.keeps_call) (use assms in \<open>auto split: sum.split\<close>)
qed

lemma silent_milliseconds: "silent.keeps (ksd_monotonic_milliseconds kn)"
  unfolding ksd_monotonic_milliseconds_def by (intro silent.keeps_rules silent_call)

lemma silent_poll_timeout: "silent.keeps (poll_timeout kn deadline)"
  unfolding poll_timeout_def by (intro silent.keeps_rules silent_errno silent_milliseconds)

lemma silent_poll_end:
  "silent.keeps (case ended of Poll_Failed e \<Rightarrow> State_Monad.bind (set_errno e) (\<lambda>_. return False)
      | Poll_Nothing \<Rightarrow> State_Monad.bind (set_errno ETIMEDOUT) (\<lambda>_. return False) | Poll_Ready broken ready \<Rightarrow> return (\<not> broken \<and> ready))"
  by (cases ended) (simp_all add: silent.keeps_bind silent_errno silent.keeps_return)

lemma silent_wait_rounds: "silent.keeps (wait_rounds kn d writing deadline n)"
  by (induction n) (simp_all only: wait_rounds.simps, (intro silent.keeps_rules silent_poll_timeout silent_poll_end silent_call silent_errno; assumption?)+)

lemma silent_wait_until: "silent.keeps (ksd_wait_until kn d writing deadline)"
  unfolding ksd_wait_until_def by (intro silent.keeps_rules silent_wait_rounds silent_call)

lemma silent_socket_deadline: "silent.keeps (socket_deadline kn d writing)"
  unfolding socket_deadline_def by (intro silent.keeps_rules silent_milliseconds silent_call)

lemma silent_transfer_pass:
  assumes "silent.keeps m"
  shows "silent.keeps (transfer_pass kn d writing deadline m retries)"
  by (induction retries) (simp_all only: transfer_pass.simps, (intro silent.keeps_rules silent_wait_until silent_errno assms; assumption?)+)

lemma silent_send_passes: "silent.keeps (send_passes kn d deadline bs offset passes)"
  by (induction passes arbitrary: offset) (simp_all only: send_passes.simps silent.keeps_return,
    (intro silent.keeps_rules silent_transfer_pass silent_system_call silent_call; (simp; fail)?)+)

lemma silent_frame_write: "silent.keeps (ksd_frame_write kn d frame)"
  unfolding ksd_frame_write_def send_until_def by (intro silent.keeps_rules silent_socket_deadline silent_send_passes silent_errno)

lemma silent_set_timeouts: "silent.keeps (set_timeouts h d timeout)"
  unfolding set_timeouts_def by (intro silent.keeps_rules silent_system_call) simp_all

lemma silent_set_remaining: "silent.keeps (set_remaining_timeout h deadline)"
  unfolding set_remaining_timeout_def by (intro silent.keeps_rules silent_milliseconds silent_errno silent_set_timeouts)

lemma silent_errors: "silent.keeps reset_error" "silent.keeps (set_error detail e message)" "silent.keeps (invalid_argument text)"
  unfolding reset_error_def set_error_def invalid_argument_def by (intro silent.keeps_rules)+

lemma silent_signal: "silent.keeps signal_pending"
  unfolding signal_pending_def by (intro silent.keeps_rules) simp_all

lemma silent_fail: "silent.keeps (system_failure message)"
  unfolding system_failure_def by (intro silent.keeps_rules silent_signal silent_errors) simp_all

lemma silent_write_each: "silent.keeps (write_each h frames)"
  by (induction frames) (simp_all only: write_each.simps silent.keeps_return, (intro silent.keeps_rules silent_set_remaining silent_frame_write; assumption?)+)

lemma silent_write_request: "silent.keeps (write_request h opcode payload request_id)"
  unfolding write_request_def by (intro silent.keeps_rules silent_errno silent_write_each)

lemma silent_receive_more:
  assumes "silent.keeps go_on"
  shows "silent.keeps (receive_more h needed go_on)"
  unfolding receive_more_def by (intro silent.keeps_rules silent_system_call silent_errno assms) simp_all

lemma silent_event_turns: "silent.keeps (event_frame_turns h turns)"
proof (induction turns)
  case 0
  then show ?case by (simp add: silent.keeps_return)
next
  case (Suc turns)
  show ?case unfolding event_frame_turns.simps by (intro silent.keeps_rules silent_errno silent_receive_more Suc.IH) simp_all
qed

lemma silent_sum: "(\<And>x. silent.keeps (f x)) \<Longrightarrow> (\<And>x. silent.keeps (g x)) \<Longrightarrow> silent.keeps (case a of Inl x \<Rightarrow> f x | Inr y \<Rightarrow> g y)"
  by (cases a) simp_all

lemma silent_stream_rounds: "silent.keeps (stream_response_rounds h rounds)"
proof (induction rounds)
  case 0
  then show ?case by (simp add: silent.keeps_return)
next
  case (Suc rounds)
  show ?case unfolding stream_response_rounds.simps receive_event_frame_def
    by (intro silent.keeps_rules silent_sum silent_event_turns silent_wait_until Suc.IH)
qed

lemma silent_accept_event: "silent.keeps (accept_event h f)"
  unfolding accept_event_def queue_event_def apply_revoked_event_def
  by (intro silent.keeps_rules silent_errno silent_signal silent_fail)

lemma silent_and_on: "silent.keeps m \<Longrightarrow> (\<And>x. silent.keeps (f x)) \<Longrightarrow> silent.keeps (and_on m f)"
  unfolding and_on_def by (intro silent.keeps_rules)

lemma spec_if: "(b \<Longrightarrow> spec m P) \<Longrightarrow> (\<not> b \<Longrightarrow> spec n P) \<Longrightarrow> spec (if b then m else n) P"
  by simp

section \<open>Descriptors of responses\<close>

definition response_fd :: "(u32 \<times> response) option \<Rightarrow> int" where
  "response_fd r = (case r of None \<Rightarrow> - 1 | Some (_, response) \<Rightarrow> rs_payload_fd response)"

lemma response_fd_simps [simp]: "response_fd None = - 1" "response_fd (Some (status, response)) = rs_payload_fd response" "rs_payload_fd empty_response = - 1"
  by (simp_all add: response_fd_def empty_response_def)

lemma held_none [simp]: "held (- 1) = {#}"
  by (simp add: held_def)

text \<open>A computation that is given a descriptor closes it or passes it on.\<close>

definition passes_on :: "int \<Rightarrow> int \<Rightarrow> net_event list \<Rightarrow> bool" where
  "passes_on fd fd' es \<longleftrightarrow> mset (arrived es) + held fd = mset (closed es) + held fd'"

lemma passes_on_accounted: "passes_on (- 1) fd es \<longleftrightarrow> accounted fd es"
  by (simp add: passes_on_def accounted_def)

lemma passes_on_join:
  assumes "passes_on fd fd' es" "passes_on fd' fd'' fs"
  shows "passes_on fd fd'' (es @ fs)"
proof -
  have "mset (arrived es) + held fd + mset (arrived fs) = mset (closed es) + (mset (arrived fs) + held fd')" using assms(1) by (simp add: passes_on_def)
  also have "\<dots> = mset (closed es) + (mset (closed fs) + held fd'')" using assms(2) by (simp add: passes_on_def)
  finally show ?thesis by (simp add: passes_on_def ac_simps)
qed

lemma silent_passes_on: "arrived es = [] \<Longrightarrow> closed es = [] \<Longrightarrow> passes_on fd fd es"
  by (simp add: passes_on_def)

lemma spec_silent: "silent.keeps m \<Longrightarrow> spec m (\<lambda>_ _ _ es. passes_on fd fd es)"
  unfolding silent.keeps_def by (erule spec_weaken) (simp add: passes_on_def)

lemma spec_pass_then:
  assumes "spec m (\<lambda>_ _ _ es. passes_on fd fd' es)" "\<And>x. spec (k x) (\<lambda>_ r _ es. passes_on fd' (g r) es)"
  shows "spec (State_Monad.bind m k) (\<lambda>_ r _ es. passes_on fd (g r) es)"
  by (rule spec_bind [OF assms]) (rule passes_on_join)

lemma spec_pass_return: "g x = fd \<Longrightarrow> spec (return x) (\<lambda>_ r _ es. passes_on fd (g r) es)"
  by (rule spec_return) (simp add: passes_on_def)

lemma spec_cleared: "spec (close_received_fd fd) (\<lambda>_ _ _ es. passes_on fd (- 1) es)"
  by (rule spec_weaken [OF spec_close_received]) (simp add: passes_on_def held_def)

lemma invalid_response_passes: "spec (invalid_response response message) (\<lambda>_ _ _ es. passes_on (rs_payload_fd response) (- 1) es)"
  unfolding invalid_response_def response_clear_def
  by (intro spec_pass_then [OF spec_cleared, where g = "\<lambda>_. - 1"] spec_pass_then [OF spec_silent [OF silent_errno], where g = "\<lambda>_. - 1"] spec_silent silent_fail)

lemma accept_response_passes:
  fixes f :: ksd_frame
  shows "spec (accept_response opcode request_id f fd :: ('w, u32 \<times> response) client) (\<lambda>_ r _ es. passes_on fd (rs_payload_fd (snd r)) es)"
proof -
  have bad: "spec (State_Monad.bind (invalid_response response message) (\<lambda>status. return (status, empty_response)) :: ('w, u32 \<times> response) client)
      (\<lambda>_ r _ es. passes_on fd (rs_payload_fd (snd r)) es)" if "rs_payload_fd response = fd" for response message
    using invalid_response_passes [of response message] that by (intro spec_pass_then [where fd' = "- 1"] spec_pass_return [where g = "\<lambda>r. rs_payload_fd (snd r)"]) simp_all
  have good: "spec (return (status, response) :: ('w, u32 \<times> response) client) (\<lambda>_ r _ es. passes_on fd (rs_payload_fd (snd r)) es)" if "rs_payload_fd response = fd" for status response
    using that by (intro spec_pass_return) simp
  have told: "silent.keeps (if b then reset_error else set_error detail e message)" for b detail e message
    by (intro silent.keeps_rules silent_errors)
  have sequence: "spec (State_Monad.bind (update g) (\<lambda>_. return (status, response)) :: ('w, u32 \<times> response) client) (\<lambda>_ r _ es. passes_on fd (rs_payload_fd (snd r)) es)"
    if "rs_payload_fd response = fd" for g status response
    by (rule spec_pass_then [OF spec_silent [OF silent.keeps_update] good [OF that]])
  show ?thesis
  proof (cases "parse_response f opcode request_id")
    case None
    then show ?thesis unfolding accept_response_def Let_def by (simp add: bad)
  next
    case (Some parsed)
    show ?thesis unfolding accept_response_def Let_def Some option.case
      by (rule spec_pass_then [OF spec_silent [OF told]]) (simp add: bad good sequence)
  qed
qed

lemma receive_frame_accounted:
  fixes h :: "'w host"
  assumes "lawful (ho_kernel h)" "lawful_messages (ho_kernel h)"
  shows "spec (receive_frame h) (\<lambda>_ r _ es. passes_on (- 1) (case flat r of None \<Rightarrow> - 1 | Some (_, fd) \<Rightarrow> fd) es)"
proof -
  let ?read = "\<lambda>c. ksd_frame_read_fd (ho_kernel h) (cn_descriptor c) client_magic KSD_PROTOCOL_MAJOR KSD_PROTOCOL_MINOR (of_nat KSD_CLIENT_MAX_RESPONSE) True :: ('w, (ksd_frame \<times> int) option) client"
  let ?note = "\<lambda>answer. State_Monad.bind (note_events (case answer of None \<Rightarrow> [] | Some (frame, _) \<Rightarrow> [Came frame])) (\<lambda>_. return (Some answer)) :: ('w, (ksd_frame \<times> int) option option) client"
  have n: "spec (?note answer) (\<lambda>d r d' es. r = Some answer \<and> arrived es = [] \<and> closed es = [])" for answer
    by (rule specI) (auto simp: wp_simps split: option.split)
  have rpc: "spec (State_Monad.bind (?read c) ?note) (\<lambda>_ r _ es. passes_on (- 1) (case flat r of None \<Rightarrow> - 1 | Some (_, fd) \<Rightarrow> fd) es)" for c
    by (rule spec_bind [OF frame_read_fd_came [OF assms] n]) (auto simp: frame_fd_came_def passes_on_def accounted_def split: option.splits)
  have stream: "spec (State_Monad.bind (receive_stream_response h) (\<lambda>answer. return (map_option (map_option (\<lambda>frame. (frame, - 1))) answer)))
      (\<lambda>_ r _ es. passes_on (- 1) (case flat r of None \<Rightarrow> - 1 | Some (_, fd) \<Rightarrow> fd) es)"
    unfolding receive_stream_response_def
    by (rule spec_pass_then [OF spec_silent [OF silent_stream_rounds]]) (rule spec_pass_return, simp add: flat_def split: option.split)
  show ?thesis unfolding receive_frame_def
    by (rule spec_pass_then [OF spec_silent [OF silent.keeps_data]]) (simp add: rpc stream)
qed

lemma give_up_accounted: "spec (give_up message :: ('w, (u32 \<times> response) option) client) (\<lambda>_ r _ es. passes_on (- 1) (response_fd r) es)"
  unfolding give_up_def by (rule spec_pass_then [OF spec_silent [OF silent_fail]]) (rule spec_pass_return, simp)

lemma deal_with_accounted:
  fixes h :: "'w host"
  assumes go: "spec go_on (\<lambda>_ r _ es. passes_on (- 1) (response_fd r) es)"
  shows "spec (deal_with h opcode request_id go_on answer) (\<lambda>_ r _ es. passes_on (case answer of None \<Rightarrow> - 1 | Some (_, fd) \<Rightarrow> fd) (response_fd r) es)"
proof (cases answer)
  case None
  then show ?thesis by (simp add: deal_with_def give_up_accounted)
next
  case (Some p)
  obtain f fd where p: "p = (f, fd)" by (cases p)
  have k: "spec (case failed of Some status \<Rightarrow> return (Some (status, empty_response)) | None \<Rightarrow> go_on) (\<lambda>_ r _ es. passes_on (- 1) (response_fd r) es)" for failed
    using go by (cases failed) (auto intro: spec_pass_return)
  have event: "spec (State_Monad.bind (close_received_fd fd) (\<lambda>_. State_Monad.bind (accept_event h f) (\<lambda>failed.
      case failed of Some status \<Rightarrow> return (Some (status, empty_response)) | None \<Rightarrow> go_on))) (\<lambda>_ r _ es. passes_on fd (response_fd r) es)"
    by (rule spec_pass_then [OF spec_cleared], rule spec_pass_then [OF spec_silent [OF silent_accept_event]]) (rule k)
  have some: "spec (return (Some answer)) (\<lambda>_ r _ es. r = Some answer \<and> es = [])" for answer :: "u32 \<times> response"
    by (rule spec_return) simp
  have response: "spec (State_Monad.bind (accept_response opcode request_id f fd) (\<lambda>answer. return (Some answer)) :: ('w, (u32 \<times> response) option) client)
      (\<lambda>_ r _ es. passes_on fd (response_fd r) es)"
    by (rule spec_bind [OF accept_response_passes some]) (auto simp: response_fd_def split: prod.splits)
  show ?thesis unfolding deal_with_def Some p option.case prod.case by (rule spec_if [OF event response])
qed

lemma response_rounds_accounted:
  fixes h :: "'w host"
  assumes "lawful (ho_kernel h)" "lawful_messages (ho_kernel h)"
  shows "spec (response_rounds h opcode request_id rounds) (\<lambda>_ r _ es. passes_on (- 1) (response_fd r) es)"
proof (induction rounds)
  case 0
  then show ?case by (simp add: spec_pass_return)
next
  case (Suc rounds)
  have deal: "spec (case r of None \<Rightarrow> return None | Some x \<Rightarrow> deal_with h opcode request_id (response_rounds h opcode request_id rounds) x)
      (\<lambda>_ y _ es. passes_on (case flat r of None \<Rightarrow> - 1 | Some (_, fd) \<Rightarrow> fd) (response_fd y) es)" for r
    using deal_with_accounted [OF Suc.IH, where answer = "the r"] by (cases r) (auto simp: flat_def intro: spec_pass_return split: option.splits)
  have round: "spec (and_on (receive_frame h) (deal_with h opcode request_id (response_rounds h opcode request_id rounds))) (\<lambda>_ r _ es. passes_on (- 1) (response_fd r) es)"
    unfolding and_on_def by (rule spec_bind [OF receive_frame_accounted [OF assms] deal]) (rule passes_on_join)
  show ?case unfolding response_rounds.simps
    by (rule spec_pass_then [OF spec_silent [OF silent.keeps_data]], rule spec_pass_then [OF spec_silent [OF silent_set_remaining]]) (simp add: give_up_accounted round)
qed

lemma spec_silent_then:
  assumes "silent.keeps m" "\<And>x. spec (k x) (\<lambda>_ r _ es. passes_on (- 1) (g r) es)"
  shows "spec (State_Monad.bind m k) (\<lambda>_ r _ es. passes_on (- 1) (g r) es)"
  by (rule spec_pass_then [OF spec_silent [OF assms(1)] assms(2)])

lemma spec_pass_if: "(b \<Longrightarrow> spec m (\<lambda>_ r _ es. passes_on fd (g r) es)) \<Longrightarrow> (\<not> b \<Longrightarrow> spec n (\<lambda>_ r _ es. passes_on fd (g r) es))
    \<Longrightarrow> spec (if b then m else n) (\<lambda>_ r _ es. passes_on fd (g r) es)"
  by simp

lemma request_accounted:
  fixes h :: "'w host"
  assumes "lawful (ho_kernel h)" "lawful_messages (ho_kernel h)"
  shows "spec (request h opcode payload) (\<lambda>_ r _ es. passes_on (- 1) (response_fd r) es)"
proof -
  have id: "silent.keeps next_request_id" unfolding next_request_id_def by (intro silent.keeps_rules)
  have refused: "spec (State_Monad.bind (invalid_argument message) (\<lambda>status. return (Some (status, empty_response))) :: ('w, (u32 \<times> response) option) client)
      (\<lambda>_ r _ es. passes_on (- 1) (response_fd r) es)" for message
    by (rule spec_silent_then [OF silent_errors(3)]) (rule spec_pass_return, simp)
  show ?thesis unfolding request_def read_response_def
    by (intro spec_silent_then [OF silent.keeps_data] spec_silent_then [OF id] spec_silent_then [OF silent_errno] spec_silent_then [OF silent_milliseconds]
        spec_silent_then [OF silent.keeps_update] spec_silent_then [OF silent_set_remaining] spec_silent_then [OF silent_write_request] spec_pass_if refused
        give_up_accounted response_rounds_accounted assms)
qed

section \<open>What the calls do with the descriptor of their answer\<close>

text \<open>A call that comes to its end has closed what arrived; \<open>spent fd r\<close> for one that is given a descriptor.\<close>

definition spent :: "int \<Rightarrow> 'a option \<Rightarrow> net_event list \<Rightarrow> bool" where
  "spent fd r es \<longleftrightarrow> (r \<noteq> None \<longrightarrow> passes_on fd (- 1) es)"

definition spends :: "int \<Rightarrow> ('w, 'a option) client \<Rightarrow> bool" where
  "spends fd m \<longleftrightarrow> spec m (\<lambda>_ r _ es. spent fd r es)"

lemma spends_return: "spends (- 1) (return r)"
  by (simp add: spends_def spent_def spec_return passes_on_def)

lemma spends_bind:
  assumes "spec m (\<lambda>_ _ _ es. passes_on fd fd' es)" "\<And>x. spends fd' (k x)"
  shows "spends fd (State_Monad.bind m k)"
  unfolding spends_def by (rule spec_bind [OF assms(1) assms(2) [unfolded spends_def]]) (auto simp: spent_def intro: passes_on_join)

lemma spends_silent: "silent.keeps m \<Longrightarrow> (\<And>x. spends fd (k x)) \<Longrightarrow> spends fd (State_Monad.bind m k)"
  by (rule spends_bind [OF spec_silent])

lemma spends_clear: "(\<And>x. spends (- 1) (k x)) \<Longrightarrow> spends (rs_payload_fd response) (State_Monad.bind (response_clear response) k)"
  unfolding response_clear_def by (rule spends_bind [OF spec_cleared])

lemma spends_invalid: "(\<And>x. spends (- 1) (k x)) \<Longrightarrow> spends (rs_payload_fd response) (State_Monad.bind (invalid_response response message) k)"
  by (rule spends_bind [OF invalid_response_passes])

lemma spends_if: "(b \<Longrightarrow> spends fd m) \<Longrightarrow> (\<not> b \<Longrightarrow> spends fd n) \<Longrightarrow> spends fd (if b then m else n)"
  by simp

lemma spends_option: "(a = None \<Longrightarrow> spends fd m) \<Longrightarrow> (\<And>x. a = Some x \<Longrightarrow> spends fd (f x)) \<Longrightarrow> spends fd (case a of None \<Rightarrow> m | Some x \<Rightarrow> f x)"
  by (cases a) simp_all

lemma spends_prod: "(\<And>x y. p = (x, y) \<Longrightarrow> spends fd (f x y)) \<Longrightarrow> spends fd (case p of (x, y) \<Rightarrow> f x y)"
  by (cases p) simp

lemma spends_let: "spends fd (f e) \<Longrightarrow> spends fd (let x = e in f x)"
  by (simp add: Let_def)

lemma spends_and_on:
  assumes "spends fd m" "\<And>x. spends (- 1) (f x)"
  shows "spends fd (and_on m f)"
proof -
  have k: "spec (case r of None \<Rightarrow> return None | Some x \<Rightarrow> f x) (\<lambda>_ y _ es. y \<noteq> None \<longrightarrow> r \<noteq> None \<and> passes_on (- 1) (- 1) es)" for r
    using assms(2) by (cases r) (auto simp: spends_def spent_def intro: spec_return)
  show ?thesis unfolding spends_def and_on_def
    by (rule spec_bind [OF assms(1) [unfolded spends_def] k]) (auto simp: spent_def intro: passes_on_join)
qed

text \<open>An exchange that hands its answer to a reader which spends it.\<close>

lemma spends_exchange:
  fixes h :: "'w host"
  assumes "lawful (ho_kernel h)" "lawful_messages (ho_kernel h)" "\<And>status response. spends (rs_payload_fd response) (f (status, response))"
  shows "spends (- 1) (and_on (request h opcode payload) f)"
proof -
  have k: "spec (case r of None \<Rightarrow> return None | Some x \<Rightarrow> f x) (\<lambda>_ y _ es. spent (response_fd r) y es)" for r
    using assms(3) by (cases r) (auto simp: spends_def spent_def intro: spec_return)
  show ?thesis unfolding spends_def and_on_def
    by (rule spec_bind [OF request_accounted [OF assms(1,2)] k]) (auto simp: spent_def intro: passes_on_join)
qed

lemma spends_refused: "spends (- 1) (refused message out)" "spends (- 1) (refused_status message)"
  unfolding refused_def refused_status_def by (intro spends_silent silent_errors spends_return)+

lemma spends_finish_empty: "spends (rs_payload_fd response) (finish_empty message (status, response))"
  unfolding finish_empty_def prod.case by (intro spends_if spends_invalid spends_clear spends_return)

lemma spends_bad: "spends (rs_payload_fd response) (bad_response response message out)"
  unfolding bad_response_def by (intro spends_invalid spends_return)

lemma spends_finish_parsed: "spends (rs_payload_fd response) (finish_parsed parse message out (status, response))"
  unfolding finish_parsed_def prod.case by (intro spends_if spends_option spends_clear spends_return spends_bad)

lemma spends_finish_authorize: "spends (rs_payload_fd response) (finish_authorize out (status, response))"
  unfolding finish_authorize_def prod.case
  by (intro spends_if spends_option spends_silent [OF silent_errno] spends_silent [OF silent_fail] spends_silent [OF silent.keeps_update] spends_clear spends_return)

lemma silent_map_capture: "silent.keeps (map_capture_payload h response)"
  unfolding map_capture_payload_def sealed_capture_descriptor_def by (intro silent.keeps_rules silent_call)

lemma spends_finish_capture: "spends (rs_payload_fd response) (finish_capture h out (status, response))"
proof -
  have m: "silent.keeps (if b then return None else map_capture_payload h response)" for b by (intro silent.keeps_rules silent_map_capture)
  show ?thesis unfolding finish_capture_def prod.case by (intro spends_if spends_silent [OF m] spends_option spends_clear spends_return spends_bad)
qed

lemma spends_finish_work_area: "spends (rs_payload_fd response) (finish_work_area out (status, response))"
  unfolding finish_work_area_def prod.case Let_def by (intro spends_if spends_clear spends_return spends_bad)

text \<open>The listing of permissions ends with one response in hand.\<close>

definition list_fd :: "(u32 \<times> bool \<times> response) option \<Rightarrow> int" where
  "list_fd r = (case r of None \<Rightarrow> - 1 | Some (_, _, response) \<Rightarrow> rs_payload_fd response)"

lemma list_rounds_passes:
  fixes h :: "'w host"
  assumes "lawful (ho_kernel h)" "lawful_messages (ho_kernel h)"
  shows "spec (list_rounds h visitor rounds cancelled (status, response)) (\<lambda>_ r _ es. r \<noteq> None \<longrightarrow> passes_on (rs_payload_fd response) (list_fd r) es)"
proof (induction rounds arbitrary: cancelled status response)
  case 0
  then show ?case by (auto intro: spec_return)
next
  case (Suc rounds)
  let ?P = "\<lambda>_ r _ es. r \<noteq> None \<longrightarrow> passes_on (rs_payload_fd response) (list_fd r) es"
  have stop: "spec (return (Some (status, cancelled, response)) :: ('w, (u32 \<times> bool \<times> response) option) client) ?P" for status
    by (rule spec_return) (simp add: passes_on_def list_fd_def)
  have fail: "spec (State_Monad.bind (set_errno EPROTO) (\<lambda>_. State_Monad.bind (system_failure message) (\<lambda>status. return (Some (status, cancelled, response)))) :: ('w, (u32 \<times> bool \<times> response) option) client) ?P" for message
    by (rule spec_weaken [OF spec_pass_then [OF spec_silent [OF silent_errno] spec_pass_then [OF spec_silent [OF silent_fail] spec_pass_return [where g = list_fd]]]]) (auto simp: list_fd_def)
  have rest: "spec (case r of None \<Rightarrow> return None | Some x \<Rightarrow> list_rounds h visitor rounds c x) (\<lambda>_ y _ es. y \<noteq> None \<longrightarrow> passes_on (response_fd r) (list_fd y) es)" for r c
    using Suc.IH by (cases r) (auto intro: spec_return)
  have again: "spec (and_on (read_response h KSD_OP_PERMISSIONS_LIST request_id) (list_rounds h visitor rounds c)) (\<lambda>_ y _ es. y \<noteq> None \<longrightarrow> passes_on (- 1) (list_fd y) es)" for c request_id
    unfolding and_on_def read_response_def by (rule spec_bind [OF response_rounds_accounted [OF assms] rest]) (auto intro: passes_on_join)
  have clear: "spec (State_Monad.bind (response_clear response) (\<lambda>_. and_on (read_response h KSD_OP_PERMISSIONS_LIST request_id) (list_rounds h visitor rounds c))) ?P" for c request_id
    unfolding response_clear_def by (rule spec_bind [OF spec_cleared again]) (auto intro: passes_on_join)
  have w: "silent.keeps (if b then return False else call (visitor entry) (\<lambda>_. []))" for b entry
    by (intro silent.keeps_rules silent_call)
  have visit: "spec (State_Monad.bind (if cancelled then return False else call (visitor entry) (\<lambda>_. [])) (\<lambda>wanted.
      State_Monad.bind (response_clear response) (\<lambda>_. and_on (read_response h KSD_OP_PERMISSIONS_LIST request_id) (list_rounds h visitor rounds (\<not> wanted))))) ?P" for entry request_id
    by (rule spec_bind [OF spec_silent [OF w] clear]) (auto intro: passes_on_join)
  show ?case unfolding list_rounds.simps prod.case using stop fail visit by (auto split: option.split)
qed

lemma spends_finish_list: "spends (rs_payload_fd response) (finish_list (status, cancelled, response))"
proof -
  have e: "silent.keeps (if b then set_error 0 0 message else return ())" for b message by (intro silent.keeps_rules silent_errors)
  show ?thesis unfolding finish_list_def prod.case by (intro spends_silent [OF e] spends_clear spends_return)
qed

lemma spends_list:
  fixes h :: "'w host"
  assumes "lawful (ho_kernel h)" "lawful_messages (ho_kernel h)"
  shows "spends (rs_payload_fd response) (and_on (list_rounds h visitor rounds cancelled (status, response)) finish_list)"
proof -
  have k: "spec (case r of None \<Rightarrow> return None | Some x \<Rightarrow> finish_list x) (\<lambda>_ y _ es. y \<noteq> None \<longrightarrow> r \<noteq> None \<and> passes_on (list_fd r) (- 1) es)" for r
    using spends_finish_list by (cases r) (auto simp: spends_def spent_def list_fd_def intro: spec_return)
  show ?thesis unfolding spends_def and_on_def by (rule spec_bind [OF list_rounds_passes [OF assms] k]) (auto simp: spent_def intro: passes_on_join)
qed

lemma silent_spends: "silent.keeps m \<Longrightarrow> spends (- 1) m"
  unfolding silent.keeps_def spends_def by (erule spec_weaken) (simp add: spent_def passes_on_def)

lemma silent_take_event: "silent.keeps take_event"
  unfolding take_event_def by (auto simp: silent.keeps_rules silent_errno intro!: silent.keeps_bind split: list.split)

lemma silent_event_rounds: "silent.keeps (event_rounds h timeout_ms deadline rounds)"
proof (induction rounds)
  case 0
  then show ?case by (simp add: silent.keeps_return)
next
  case (Suc rounds)
  show ?case unfolding event_rounds.simps receive_event_frame_def
    by (intro silent.keeps_rules silent_take_event silent_errno silent_fail silent_event_turns silent_sum silent_milliseconds silent_errors silent_wait_until Suc.IH)
qed

lemma silent_read_event: "silent.keeps (read_event h timeout_ms opcode)"
  unfolding read_event_def judge_event_def apply_revoked_event_def
  by (intro silent.keeps_rules silent_and_on silent_milliseconds silent_event_rounds silent_sum silent_errno silent_fail silent_errors)

lemma silent_state_next: "silent.keeps (ksd_state_next h timeout_ms out)"
  unfolding ksd_state_next_def give_event_def
  by (intro silent.keeps_rules silent_and_on silent_read_event silent_errors silent_errno silent_fail) simp_all

lemma spends_ends: "spends (- 1) m \<Longrightarrow> spec (ends m) (\<lambda>_ r _ es. r \<longrightarrow> passes_on (- 1) (- 1) es)"
  unfolding spends_def ends_def
  by (erule spec_bind [OF _ spec_return [where P = "\<lambda>d r d' es. r = (x \<noteq> None) \<and> es = []" for x]]) (auto simp: spent_def)

lemmas spends_calls = spends_silent [OF silent.keeps_data] spends_if spends_option spends_refused spends_finish_empty spends_finish_parsed
  spends_finish_authorize spends_finish_capture spends_finish_work_area spends_and_on spends_prod spends_return spends_silent [OF silent_errors(2)]
  silent_spends [OF silent_state_next]

lemma call_spends:
  fixes h :: "'w host"
  assumes "public_call h m" "lawful (ho_kernel h)" "lawful_messages (ho_kernel h)"
  shows "spec m (\<lambda>_ r _ es. r \<longrightarrow> passes_on (- 1) (- 1) es)"
  using assms(1)
  by (cases; simp only:; intro spends_ends; (unfold call_defs)?) (rule spends_exchange [OF assms(2,3)] spends_list [OF assms(2,3)] | rule spends_calls)+

section \<open>Whose answer a call gets\<close>

definition own :: "u16 \<Rightarrow> u64 \<Rightarrow> ksd_frame \<Rightarrow> bool" where
  "own opcode request_id frame \<longleftrightarrow> fr_opcode frame = opcode \<and> fr_request_id frame = request_id \<and> fr_flags frame AND KSD_FLAG_RESPONSE \<noteq> 0"

lemma parsed_own: "parse_response f opcode request_id = Some parsed \<Longrightarrow> own opcode request_id f"
  by (auto simp: parse_response_def own_def split: if_splits)

definition own_answer :: "u16 \<Rightarrow> u64 \<Rightarrow> (u32 \<times> response) option \<Rightarrow> net_event list \<Rightarrow> bool" where
  "own_answer opcode request_id r es \<longleftrightarrow> (\<forall>response. r = Some (KSD_STATUS_OK, response) \<longrightarrow> own opcode request_id (rs_frame response) \<and> rs_frame response \<in> set (came es))"

lemma own_answer_later: "own_answer opcode request_id r fs \<Longrightarrow> own_answer opcode request_id r (es @ fs)"
  by (auto simp: own_answer_def)

lemma accept_response_own:
  "spec (accept_response opcode request_id f fd :: ('w, u32 \<times> response) client) (\<lambda>_ r _ _. fst r = KSD_STATUS_OK \<longrightarrow> own opcode request_id f \<and> rs_frame (snd r) = f)"
proof -
  let ?P = "\<lambda>_ r _ _. fst r = KSD_STATUS_OK \<longrightarrow> own opcode request_id f \<and> rs_frame (snd r) = f"
  have failed: "spec (return (status, empty_response) :: ('w, u32 \<times> response) client) (\<lambda>_ r _ _. fst r = status)" for status by (rule spec_return) simp
  have bad: "spec (State_Monad.bind (invalid_response r message) (\<lambda>status. return (status, empty_response)) :: ('w, u32 \<times> response) client) ?P" for r message
    by (rule spec_bind [OF invalid_response_status failed]) simp
  show ?thesis
  proof (cases "parse_response f opcode request_id")
    case None
    show ?thesis unfolding accept_response_def Let_def None option.case by (rule bad)
  next
    case (Some parsed)
    have good: "spec (return (status, response) :: ('w, u32 \<times> response) client) ?P" if "rs_frame response = f" for status response
      using parsed_own [OF Some] that by (intro spec_return) simp
    have sequence: "spec (State_Monad.bind (update g) (\<lambda>_. return (status, response)) :: ('w, u32 \<times> response) client) ?P" if "rs_frame response = f" for g status response
      using parsed_own [OF Some] that by (intro specI) (simp add: wp_simps)
    have told: "spec (if b then reset_error else set_error detail e message) (\<lambda>_ _ _ _. True)" for b detail e message
      using silent_errors unfolding silent.keeps_def by (auto intro: spec_weaken)
    show ?thesis unfolding accept_response_def Let_def Some option.case
      by (rule spec_bind [OF told, where R = "\<lambda>_. ?P"]) (simp_all add: bad good sequence)
  qed
qed

lemma event_turns_came: "spec (event_frame_turns h turns) (\<lambda>_ r _ es. \<forall>f. r = Inr f \<longrightarrow> f \<in> set (came es))"
proof (induction turns)
  case 0
  then show ?case by (simp add: spec_return)
next
  case (Suc turns)
  let ?P = "\<lambda>_ r _ es. \<forall>f. r = Inr f \<longrightarrow> f \<in> set (came es)"
  have any: "spec (State_Monad.bind m k) ?P" if "grows.keeps m" "\<And>x. spec (k x) ?P" for m :: "('a, 'b) client" and k
    by (rule spec_bind [OF that(1) [unfolded grows.keeps_def] that(2)]) auto
  have stop: "spec (return (Inl r)) ?P" for r by (rule spec_return) simp
  have found: "spec (State_Monad.bind (note_events [Came f]) (\<lambda>_. return (Inr f))) ?P" for f by (rule specI) (simp add: wp_simps)
  have more: "spec (receive_more h needed (event_frame_turns h turns)) ?P" for needed
    unfolding receive_more_def Let_def
    by (intro any grows.keeps_rules plain_grows [OF plain_system_call]) (auto intro!: any stop Suc.IH grows.keeps_rules grows_errno split: option.split prod.split)
  show ?case unfolding event_frame_turns.simps Let_def
    by (intro any grows.keeps_data) (auto intro!: any stop more found grows.keeps_rules grows_errno split: option.split)
qed

lemma stream_rounds_came:
  fixes h :: "'w host"
  shows "spec (stream_response_rounds h rounds) (\<lambda>_ r _ es. \<forall>f. r = Some (Some f) \<longrightarrow> f \<in> set (came es))"
proof (induction rounds)
  case 0
  then show ?case by (simp add: spec_return)
next
  case (Suc rounds)
  let ?P = "\<lambda>_ r _ es. \<forall>f. r = Some (Some f) \<longrightarrow> f \<in> set (came es)"
  have stop: "spec (return (Some None) :: ('w, ksd_frame option option) client) ?P" by (rule spec_return) simp
  have any: "spec (State_Monad.bind m k) ?P" if "grows.keeps m" "\<And>x. spec (k x) ?P" for m :: "('w, 'b) client" and k
    by (rule spec_bind [OF that(1) [unfolded grows.keeps_def] that(2)]) auto
  have wait: "spec (State_Monad.bind data (\<lambda>c. State_Monad.bind (ksd_wait_until (ho_kernel h) (cn_descriptor c) False (cn_request_deadline_ms c))
      (\<lambda>ready. if \<not> ready then return (Some None) else stream_response_rounds h rounds))) ?P"
    by (intro any grows.keeps_data plain_grows [OF plain_wait_until] spec_if stop Suc.IH)
  have k: "spec (case a of Inr frame \<Rightarrow> return (Some (Some frame)) | Inl r \<Rightarrow> if r \<noteq> 0 then return (Some None)
      else State_Monad.bind data (\<lambda>c. State_Monad.bind (ksd_wait_until (ho_kernel h) (cn_descriptor c) False (cn_request_deadline_ms c))
        (\<lambda>ready. if \<not> ready then return (Some None) else stream_response_rounds h rounds)))
      (\<lambda>d r d' es. case a of Inr frame \<Rightarrow> r = Some (Some frame) \<and> es = [] | Inl _ \<Rightarrow> ?P d r d' es)" for a
    using wait stop by (cases a) (auto intro: spec_return)
  show ?case unfolding stream_response_rounds.simps receive_event_frame_def
    by (rule spec_bind [OF event_turns_came k]) (auto split: sum.splits)
qed

lemma receive_frame_came:
  fixes h :: "'w host"
  shows "spec (receive_frame h) (\<lambda>_ r _ es. \<forall>f fd. r = Some (Some (f, fd)) \<longrightarrow> f \<in> set (came es))"
proof -
  let ?P = "\<lambda>_ r _ es. \<forall>f fd. r = Some (Some (f, fd)) \<longrightarrow> f \<in> set (came es)"
  have n: "spec (State_Monad.bind (note_events (case answer of None \<Rightarrow> [] | Some (frame, _) \<Rightarrow> [Came frame])) (\<lambda>_. return (Some answer)) :: ('w, (ksd_frame \<times> int) option option) client) ?P" for answer
    by (rule specI) (auto simp: wp_simps)
  have rpc: "spec (State_Monad.bind (ksd_frame_read_fd (ho_kernel h) d client_magic KSD_PROTOCOL_MAJOR KSD_PROTOCOL_MINOR (of_nat KSD_CLIENT_MAX_RESPONSE) True)
      (\<lambda>answer. State_Monad.bind (note_events (case answer of None \<Rightarrow> [] | Some (frame, _) \<Rightarrow> [Came frame])) (\<lambda>_. return (Some answer))) :: ('w, (ksd_frame \<times> int) option option) client) ?P" for d
    by (rule spec_bind [OF plain_grows [OF plain_frame_read_fd, unfolded grows.keeps_def] n]) auto
  have k: "spec (return (map_option (map_option (\<lambda>frame. (frame, - 1 :: int))) a) :: ('w, (ksd_frame \<times> int) option option) client)
      (\<lambda>_ r _ es. r = map_option (map_option (\<lambda>frame. (frame, - 1))) a \<and> es = [])" for a
    by (rule spec_return) simp
  have stream: "spec (State_Monad.bind (receive_stream_response h) (\<lambda>answer. return (map_option (map_option (\<lambda>frame. (frame, - 1 :: int))) answer))) ?P"
    unfolding receive_stream_response_def by (rule spec_bind [OF stream_rounds_came k]) auto
  have b: "spec (if c then State_Monad.bind (ksd_frame_read_fd (ho_kernel h) d client_magic KSD_PROTOCOL_MAJOR KSD_PROTOCOL_MINOR (of_nat KSD_CLIENT_MAX_RESPONSE) True)
      (\<lambda>answer. State_Monad.bind (note_events (case answer of None \<Rightarrow> [] | Some (frame, _) \<Rightarrow> [Came frame])) (\<lambda>_. return (Some answer)))
      else State_Monad.bind (receive_stream_response h) (\<lambda>answer. return (map_option (map_option (\<lambda>frame. (frame, - 1 :: int))) answer))) ?P" for c d
    by (rule spec_if [OF rpc stream])
  show ?thesis unfolding receive_frame_def
    by (rule spec_bind [OF grows.keeps_data [unfolded grows.keeps_def] b]) auto
qed

lemma accept_event_status:
  fixes h :: "'w host"
  shows "spec (accept_event h f) (\<lambda>_ r _ _. \<forall>status. r = Some status \<longrightarrow> status \<noteq> KSD_STATUS_OK)"
proof -
  let ?P = "\<lambda>_ r _ _. \<forall>status. r = Some status \<longrightarrow> status \<noteq> KSD_STATUS_OK"
  have judged: "grows.keeps (if b then queue_event h f else State_Monad.bind (apply_revoked_event f) (\<lambda>revoked. return (revoked \<noteq> None)))" for b
    unfolding queue_event_def apply_revoked_event_def signal_pending_def by (intro grows.keeps_rules grows_errno) simp_all
  have failed: "spec (State_Monad.bind data (\<lambda>c. State_Monad.bind (if th_errno c \<noteq> ENOBUFS then set_errno EPROTO else return ()) (\<lambda>_.
      State_Monad.bind (system_failure (message c)) (\<lambda>status. return (Some status)))) :: ('w, u32 option) client) ?P" for message
    unfolding system_failure_def signal_pending_def set_error_def set_errno_def Let_def
    by (rule specI) (auto simp: wp_simps ksd_status_for_system_error_def wire_defs)
  have go_on: "spec (return None :: ('w, u32 option) client) ?P" by (rule spec_return) simp
  show ?thesis unfolding accept_event_def
    by (rule spec_bind [OF judged [unfolded grows.keeps_def] spec_if [OF go_on failed]])
qed

text \<open>The answer in hand is the call's own, and it is the frame that was read or one that came after it.\<close>

definition settles :: "u16 \<Rightarrow> u64 \<Rightarrow> (ksd_frame \<times> int) option \<Rightarrow> (u32 \<times> response) option \<Rightarrow> net_event list \<Rightarrow> bool" where
  "settles opcode request_id answer r es \<longleftrightarrow> own_answer opcode request_id r es
     \<or> (\<exists>f fd response. answer = Some (f, fd) \<and> r = Some (KSD_STATUS_OK, response) \<and> own opcode request_id f \<and> rs_frame response = f)"

lemma give_up_failed: "spec (give_up message :: ('w, (u32 \<times> response) option) client) (\<lambda>_ r _ _. \<forall>response. r \<noteq> Some (KSD_STATUS_OK, response))"
proof -
  have tell: "spec (return (Some (status, empty_response)) :: ('w, (u32 \<times> response) option) client) (\<lambda>_ r _ es. r = Some (status, empty_response))" for status
    by (rule spec_return) simp
  show ?thesis unfolding give_up_def by (rule spec_bind [OF fail_status tell]) simp
qed

lemma give_up_own: "spec (give_up message :: ('w, (u32 \<times> response) option) client) (\<lambda>_ r _ es. own_answer opcode request_id r es)"
  by (rule spec_weaken [OF give_up_failed]) (simp add: own_answer_def)

lemma own_any:
  assumes "grows.keeps m" "\<And>x. spec (k x) (\<lambda>_ r _ es. own_answer opcode request_id r es)"
  shows "spec (State_Monad.bind m k) (\<lambda>_ r _ es. own_answer opcode request_id r es)"
  by (rule spec_bind [OF assms(1) [unfolded grows.keeps_def] assms(2)]) (rule own_answer_later)

lemma deal_with_own:
  fixes h :: "'w host"
  assumes go: "spec go_on (\<lambda>_ r _ es. own_answer opcode request_id r es)"
  shows "spec (deal_with h opcode request_id go_on answer) (\<lambda>_ r _ es. settles opcode request_id answer r es)"
proof (cases answer)
  case None
  show ?thesis unfolding deal_with_def None option.case by (rule spec_weaken [OF give_up_own]) (simp add: settles_def)
next
  case (Some p)
  obtain f fd where p: "p = (f, fd)" by (cases p)
  have k: "spec (case r of Some status \<Rightarrow> return (Some (status, empty_response)) | None \<Rightarrow> go_on)
     (\<lambda>d y d' es. (\<forall>status. r = Some status \<longrightarrow> status \<noteq> KSD_STATUS_OK) \<longrightarrow> own_answer opcode request_id y es)" for r
    using go by (cases r) (auto intro: spec_weaken spec_return simp: own_answer_def)
  have event: "spec (State_Monad.bind (close_received_fd fd) (\<lambda>_. State_Monad.bind (accept_event h f) (\<lambda>failed.
     case failed of Some status \<Rightarrow> return (Some (status, empty_response)) | None \<Rightarrow> go_on))) (\<lambda>_ r _ es. own_answer opcode request_id r es)"
    by (rule own_any [OF plain_grows [OF plain_close_received]], rule spec_bind [OF accept_event_status k]) (auto intro: own_answer_later)
  have some: "spec (return (Some answer) :: ('w, (u32 \<times> response) option) client) (\<lambda>_ r _ es. r = Some answer \<and> es = [])" for answer
    by (rule spec_return) simp
  have response: "spec (State_Monad.bind (accept_response opcode request_id f fd) (\<lambda>answer. return (Some answer)) :: ('w, (u32 \<times> response) option) client)
      (\<lambda>_ r _ es. settles opcode request_id (Some (f, fd)) r es)"
  proof (rule spec_bind [OF accept_response_own some], goal_cases)
    case (1 d x d' y d'' es fs)
    then show ?case by (cases x) (auto simp: settles_def own_answer_def)
  qed
  have event': "spec (State_Monad.bind (close_received_fd fd) (\<lambda>_. State_Monad.bind (accept_event h f) (\<lambda>failed.
     case failed of Some status \<Rightarrow> return (Some (status, empty_response)) | None \<Rightarrow> go_on))) (\<lambda>_ r _ es. settles opcode request_id (Some (f, fd)) r es)"
    by (rule spec_weaken [OF event]) (simp add: settles_def)
  show ?thesis unfolding deal_with_def Some p option.case prod.case by (rule spec_if [OF event' response])
qed

lemma response_rounds_own:
  fixes h :: "'w host"
  shows "spec (response_rounds h opcode request_id rounds) (\<lambda>_ r _ es. own_answer opcode request_id r es)"
proof (induction rounds)
  case 0
  then show ?case by (simp add: spec_return own_answer_def)
next
  case (Suc rounds)
  let ?deal = "deal_with h opcode request_id (response_rounds h opcode request_id rounds)"
  have deal: "spec (case r of None \<Rightarrow> return None | Some x \<Rightarrow> ?deal x) (\<lambda>_ y _ es. case r of None \<Rightarrow> y = None \<and> es = [] | Some x \<Rightarrow> settles opcode request_id x y es)" for r
  proof (cases r)
    case None
    show ?thesis unfolding None option.case by (rule spec_return) simp
  next
    case (Some x)
    show ?thesis unfolding Some option.case by (rule deal_with_own [OF Suc.IH])
  qed
  have round: "spec (and_on (receive_frame h) ?deal) (\<lambda>_ r _ es. own_answer opcode request_id r es)"
    unfolding and_on_def by (rule spec_bind [OF receive_frame_came deal]) (auto simp: settles_def own_answer_def split: option.splits)
  show ?case unfolding response_rounds.simps
    by (intro own_any grows.keeps_data plain_grows [OF plain_set_remaining] spec_if give_up_own round)
qed

section \<open>A request is sent before its answer counts\<close>

lemma request_frames_wf: "list_all frame_wf (request_frames opcode request_id payload)"
proof (induction opcode request_id payload rule: request_frames.induct)
  case (1 opcode request_id payload)
  have "frame_wf (request_frame opcode request_id has_more chunk)" if "length chunk \<le> 4096" for has_more chunk
    using that by (simp add: request_frame_def frame_wf_def unat_of_nat)
  then show ?case using 1 by (subst request_frames.simps) (simp add: wire_defs)
qed

lemma sent_only_came: "set es \<subseteq> range Sent \<Longrightarrow> came es = []"
  by (induction es) auto

lemma system_call_quiet: "quiet.steps (system_call f (\<lambda>_. []))"
proof -
  have ended: "quiet.steps (case a of Inl e \<Rightarrow> State_Monad.bind (set_errno e) (\<lambda>_. return None) | Inr x \<Rightarrow> return (Some x))" for a
    by (cases a) (simp_all add: quiet.steps_bind set_errno_quiet quiet.steps_return)
  show ?thesis unfolding system_call_def by (intro quiet.steps_bind [OF _ ended] quiet.steps_call) (simp split: sum.split)
qed

lemma set_remaining_quiet: "quiet.steps (set_remaining_timeout h deadline)"
  unfolding set_remaining_timeout_def set_timeouts_def Let_def by (intro quiet.steps_rules milliseconds_quiet set_errno_quiet system_call_quiet)

text \<open>What a write that succeeds has put on the wire: whole frames, and nothing was read meanwhile.\<close>

definition put_out :: "ksd_frame list \<Rightarrow> net_event list \<Rightarrow> bool" where
  "put_out frames es \<longleftrightarrow> sent es = concat (map frame_bytes frames) \<and> came es = []"

lemma write_each_sent:
  fixes h :: "'w host"
  assumes "lawful (ho_kernel h)"
  shows "list_all frame_wf frames \<Longrightarrow> spec (write_each h frames) (\<lambda>_ r _ es. r \<longrightarrow> put_out frames es)"
proof (induction frames)
  case Nil
  then show ?case by (simp add: spec_return put_out_def)
next
  case (Cons frame frames)
  have k: "spec (if \<not> written then return False else write_each h frames) (\<lambda>_ r _ es. r \<longrightarrow> written \<and> put_out frames es)" for written
    using Cons by (cases written) (auto intro: spec_return)
  have go: "spec (State_Monad.bind (ksd_frame_write (ho_kernel h) d frame) (\<lambda>written. if \<not> written then return False else write_each h frames))
      (\<lambda>_ r _ es. r \<longrightarrow> put_out (frame # frames) es)" for d
    by (rule spec_bind [OF frame_write_left [OF assms] k]) (use Cons.prems in \<open>auto simp: frame_left_def put_out_def sent_only_came\<close>)
  have failed: "spec (return False :: ('w, bool) client) (\<lambda>_ r _ es. r \<longrightarrow> put_out (frame # frames) es)" by (rule spec_return) simp
  show ?case unfolding write_each.simps
    by (rule spec_bind [OF quiet.steps_data [THEN quiet.steps_spec] spec_bind [OF set_remaining_quiet [THEN quiet.steps_spec] spec_if [OF failed go]]]) auto
qed

text \<open>
  An answer with status OK is the frame that came, after all of the request had left, with the
  opcode and the number of the request.
\<close>

definition answers_request :: "u16 \<Rightarrow> u64 \<Rightarrow> bytes \<Rightarrow> ksd_frame \<Rightarrow> net_event list \<Rightarrow> bool" where
  "answers_request opcode request_id payload frame es \<longleftrightarrow> own opcode request_id frame
     \<and> (\<exists>frames before after. write_request_frames opcode request_id payload = Some frames \<and> es = before @ after
          \<and> put_out frames before \<and> frame \<in> set (came after))"

definition answered :: "u16 \<Rightarrow> u64 \<Rightarrow> bytes \<Rightarrow> (u32 \<times> response) option \<Rightarrow> net_event list \<Rightarrow> bool" where
  "answered opcode request_id payload r es \<longleftrightarrow> (\<forall>response. r = Some (KSD_STATUS_OK, response) \<longrightarrow> answers_request opcode request_id payload (rs_frame response) es)"

lemma write_request_sent:
  fixes h :: "'w host"
  assumes "lawful (ho_kernel h)"
  shows "spec (write_request h opcode payload request_id) (\<lambda>_ r _ es. r \<longrightarrow> (\<exists>frames. write_request_frames opcode request_id payload = Some frames \<and> put_out frames es))"
proof (cases "write_request_frames opcode request_id payload")
  case None
  show ?thesis unfolding write_request_def None option.case by (rule spec_errno) simp
next
  case (Some frames)
  then have "list_all frame_wf frames" using request_frames_wf by (auto simp: write_request_frames_def split: if_splits)
  show ?thesis unfolding write_request_def Some option.case by (rule spec_weaken [OF write_each_sent [OF assms \<open>list_all frame_wf frames\<close>]]) simp
qed

definition following :: "u64 \<Rightarrow> u64" where
  "following n = (if n + 1 = 0 then 1 else n + 1)"

lemma next_request_id_following: "spec (next_request_id :: ('w, u64) client) (\<lambda>d r _ es. r = following (cn_next_request_id d) \<and> es = [])"
  unfolding next_request_id_def by (rule specI) (simp add: wp_simps following_def)

lemma give_up_answered: "spec (give_up message :: ('w, (u32 \<times> response) option) client) (\<lambda>_ r _ es. answered opcode request_id payload r es)"
  by (rule spec_weaken [OF give_up_failed]) (simp add: answered_def)

lemma answered_quiet:
  assumes "quiet.steps m" "\<And>x. spec (k x) (\<lambda>_ r _ es. answered opcode request_id payload r es)"
  shows "spec (State_Monad.bind m k) (\<lambda>_ r _ es. answered opcode request_id payload r es)"
  by (rule spec_bind [OF assms(1) [THEN quiet.steps_spec] assms(2)]) simp

lemma exchange_answered:
  fixes h :: "'w host"
  assumes "lawful (ho_kernel h)"
  shows "spec (State_Monad.bind (write_request h opcode payload request_id) (\<lambda>written. if \<not> written then give_up message else read_response h opcode request_id))
     (\<lambda>_ r _ es. answered opcode request_id payload r es)"
proof -
  have k: "spec (if \<not> written then give_up message else read_response h opcode request_id)
      (\<lambda>_ r _ es. if written then own_answer opcode request_id r es else \<forall>response. r \<noteq> Some (KSD_STATUS_OK, response))" for written
    by (cases written) (simp_all add: read_response_def response_rounds_own give_up_failed)
  show ?thesis
    by (rule spec_bind [OF write_request_sent [OF assms] k]) (auto simp: answered_def answers_request_def own_answer_def split: if_splits)
qed

lemma request_answered:
  fixes h :: "'w host"
  assumes "lawful (ho_kernel h)"
  shows "spec (request h opcode payload) (\<lambda>d r _ es. answered opcode (following (cn_next_request_id d)) payload r es)"
proof -
  have rest: "spec (if c then State_Monad.bind (set_errno e) (\<lambda>_. give_up a)
      else State_Monad.bind (ksd_monotonic_milliseconds (ho_kernel h)) (\<lambda>now. if now = 0 \<or> now > limit then State_Monad.bind (set_errno e') (\<lambda>_. give_up b)
      else State_Monad.bind (update (g now)) (\<lambda>_. State_Monad.bind (set_remaining_timeout h (f now)) (\<lambda>in_time. if \<not> in_time then give_up c'
      else State_Monad.bind (write_request h opcode payload i) (\<lambda>written. if \<not> written then give_up b' else read_response h opcode i)))))
      (\<lambda>_ r _ es. answered opcode i payload r es)" for c e a limit e' b g f c' b' i
    by (intro spec_if answered_quiet set_errno_quiet milliseconds_quiet set_remaining_quiet give_up_answered exchange_answered assms quiet.steps_update) simp
  have go: "spec (State_Monad.bind (next_request_id :: ('w, u64) client) k) (\<lambda>d r _ es. answered opcode (following (cn_next_request_id d)) payload r es)"
    if "\<And>i. spec (k i) (\<lambda>_ r _ es. answered opcode i payload r es)" for k
    by (rule spec_bind [OF next_request_id_following that]) simp
  have same: "spec (data :: ('w, ksd_connection) client) (\<lambda>d r d' es. d' = d \<and> es = [])" by (rule specI) (simp add: wp_simps)
  have both: "spec (if b then State_Monad.bind (invalid_argument message) (\<lambda>status. return (Some (status, empty_response))) else State_Monad.bind next_request_id k)
      (\<lambda>d r _ es. answered opcode (following (cn_next_request_id d)) payload r es)"
    if "\<And>i. spec (k i) (\<lambda>_ r _ es. answered opcode i payload r es)" for b message and k :: "u64 \<Rightarrow> ('w, (u32 \<times> response) option) client"
    by (rule spec_if [OF _ go [OF that]]) (rule specI, auto simp: invalid_argument_def set_error_def wp_simps answered_def wire_defs)
  show ?thesis unfolding request_def by (rule spec_bind [OF same both [OF rest]]) simp
qed

end
