(* ===== verification/Client_Stream.thy ===== *)
theory Client_Stream
  imports Client_Exchange
begin

text \<open>
  What a program that uses the client library (src/src/client.c) can rely on: the events of a
  connection arrive in order and once, the poll descriptor tells the truth, a queued event is
  handed over by the next call, an answer is the answer to the request that was sent, and no
  call leaves a received descriptor open.
\<close>

section \<open>A connection\<close>

text \<open>
  A service whose world is the bytes it still has to send. It answers the greeting, after it
  has sent an event that the client had to queue.
\<close>

definition service_kernel :: "bytes kernel" where
  "service_kernel =
     \<lparr>kn_alloc = (\<lambda>_. True), kn_clock = (\<lambda>w. (Some (5, 0), w)), kn_interruptions = (\<lambda>w. (0, w)), kn_retries = (\<lambda>w. ([], w)),
      kn_poll = (\<lambda>d writing timeout w. (Poll_Ready False True, w)),
      kn_send = (\<lambda>d bs w. (Inr (length bs), w)),
      kn_recv = (\<lambda>d n w. if d < 0 then (Inl EIO, w) else (Inr (take n w), drop n w)),
      kn_write = (\<lambda>d bs w. (Inr (length bs), w)), kn_read = (\<lambda>d n w. (Inr (take n w), drop n w)),
      kn_sendmsg = (\<lambda>d bs fd w. (Inr (length bs), w)),
      kn_recvmsg = (\<lambda>d n w. (Inr \<lparr>rm_bytes = take n w, rm_truncated = False, rm_control = []\<rparr>, drop n w)),
      kn_mkdir = (\<lambda>path w. (False, w)), kn_directory = (\<lambda>path w. (True, w)),
      kn_timeout = (\<lambda>d writing w. (None, w))\<rparr>"

definition service_host :: "bytes host" where
  "service_host =
     \<lparr>ho_kernel = service_kernel, ho_patience = 3, ho_environment = (\<lambda>w. (None, w)), ho_setsockopt = (\<lambda>d writing timeout w. (Inr (), w)),
      ho_socket = (\<lambda>w. (Inr 3, w)), ho_connect = (\<lambda>d path w. (Inr (), w)), ho_peer = (\<lambda>d w. (Inr (Some (0, 0)), w)),
      ho_epoll_create = (\<lambda>w. (Inr 4, w)), ho_eventfd = (\<lambda>w. (Inr 5, w)), ho_epoll_add = (\<lambda>d e w. (Inr (), w)),
      ho_sealed = (\<lambda>d w. (True, w)), ho_regular_size = (\<lambda>d w. (Some 64, w)), ho_mmap = (\<lambda>d n w. (Some (replicate n 0), w))\<rparr>"

lemma service_sound: "sound_host service_host"
  by (auto simp: sound_host_def sound_reads_def service_host_def service_kernel_def split: if_splits)

definition greeting :: ksd_frame where
  "greeting = \<lparr>fr_magic = client_magic, fr_major = KSD_PROTOCOL_MAJOR, fr_minor = KSD_PROTOCOL_MINOR, fr_opcode = KSD_OP_HELLO, fr_flags = KSD_FLAG_RESPONSE,
     fr_payload_length = 40, fr_request_id = 1, fr_payload = Some (replicate 40 0)\<rparr>"

definition new_window :: ksd_state_event where
  "new_window = ksd_state_event_init\<lparr>ev_kind := KSD_STATE_CREATE, ev_domain := KSD_STATE_WINDOWS\<rparr>"

definition pushed :: ksd_frame where
  "pushed = \<lparr>fr_magic = client_magic, fr_major = KSD_PROTOCOL_MAJOR, fr_minor = KSD_PROTOCOL_MINOR, fr_opcode = KSD_OP_STATE_EVENT, fr_flags = KSD_FLAG_EVENT,
     fr_payload_length = 152, fr_request_id = 0, fr_payload = Some (tuple_enc (event_tuple new_window))\<rparr>"

definition start_run :: "bytes \<Rightarrow> (ksd_connection, bytes, net_event) run" where
  "start_run bs = \<lparr>rn_data = \<lparr>th_errno = 0, cn_error = None, cn_present = False, cn_descriptor = - 1, cn_next_request_id = 0, cn_role = 0, cn_granted_scopes = 0,
     cn_available_operations = 0, cn_backend = 0, cn_timeout_ms = 0, cn_request_deadline_ms = 0, cn_poll_descriptor = - 1, cn_pending_descriptor = - 1, cn_lease_id = 0,
     cn_sequence = 0, cn_input = ksd_buffer_init 0, cn_events = [], cn_queued_bytes = 0, cn_queued_count = 0, cn_signalled = False\<rparr>, rn_world = bs, rn_log = []\<rparr>"

lemma start_run_fields: "cn_error (rn_data (start_run bs)) = None" "rn_log (start_run bs) = []" "rn_world (start_run bs) = bs"
  by (simp_all add: start_run_def)

definition service_options :: ksd_connect_options where
  "service_options = ksd_connect_options_init\<lparr>co_socket_path := Some [47, 115]\<rparr>"

lemma service_fields [simp]:
  "ho_kernel service_host = service_kernel" "ho_patience service_host = 3" "kn_retries service_kernel w = ([], w)" "kn_alloc service_kernel = (\<lambda>_. True)"
  "kn_send service_kernel d bs = (\<lambda>w. (Inr (length bs), w))" "0 \<le> d \<Longrightarrow> kn_recv service_kernel d n = (\<lambda>w. (Inr (take n w), drop n w))"
  "kn_recvmsg service_kernel d n = (\<lambda>w. (Inr \<lparr>rm_bytes = take n w, rm_truncated = False, rm_control = []\<rparr>, drop n w))"
  "ho_socket service_host w = (Inr 3, w)" "ho_connect service_host d path w = (Inr (), w)" "ho_peer service_host d w = (Inr (Some (0, 0)), w)"
  "ho_epoll_create service_host w = (Inr 4, w)" "ho_eventfd service_host w = (Inr 5, w)" "ho_epoll_add service_host d e w = (Inr (), w)"
  by (auto simp: service_kernel_def service_host_def)

lemma service_calls:
  "run_state (ksd_monotonic_milliseconds service_kernel) s = (5000, s)"
  "run_state (ksd_wait_until service_kernel d writing UINT64_MAX) s = (True, s)"
  "run_state (socket_deadline service_kernel d writing) s = (UINT64_MAX, s)"
  by (simp_all add: ksd_wait_until_def socket_deadline_def service_kernel_def run_simps poll_timeout_def ksd_monotonic_milliseconds_def)

lemma service_timeouts:
  "run_state (set_timeouts service_host d n) s = (True, s)"
  "run_state (set_remaining_timeout service_host 135000) s = (True, s)"
  by (simp_all add: set_timeouts_def set_remaining_timeout_def service_calls system_call_def service_host_def[unfolded service_kernel_def] run_simps Let_def ksd_monotonic_milliseconds_def)

lemma service_sent: "0 \<le> d \<Longrightarrow> bs \<noteq> [] \<Longrightarrow> run_state (send_until service_kernel d bs UINT64_MAX) s = (int (length bs), s\<lparr>rn_log := rn_log s @ [Sent bs]\<rparr>)"
proof -
  assume "0 \<le> d" "bs \<noteq> []"
  then obtain m where "length bs = Suc m" by (cases bs) auto
  with \<open>0 \<le> d\<close> \<open>bs \<noteq> []\<close> show ?thesis by (cases m) (simp_all add: send_until_def service_calls run_simps system_call_def)
qed

lemma service_received: "0 \<le> d \<Longrightarrow> 0 < n \<Longrightarrow> n \<le> length (rn_world s) \<Longrightarrow> run_state (receive_until service_kernel d n UINT64_MAX) s =
    ((int n, take n (rn_world s)), s\<lparr>rn_world := drop n (rn_world s), rn_log := rn_log s @ [Received (take n (rn_world s))]\<rparr>)"
proof -
  assume a: "0 \<le> d" "0 < n" "n \<le> length (rn_world s)"
  then obtain m where "n = Suc m" by (cases n) auto
  with a show ?thesis by (cases m) (auto simp: receive_until_def service_calls run_simps system_call_def)
qed

lemma service_read:
  assumes "frame_wf f" "frame_header_acceptable f magic major minor maximum True" "0 < unat (fr_payload_length f)"
    and "rn_world s = frame_bytes f @ rest"
  shows "run_state (ksd_frame_read_fd service_kernel 3 magic major minor maximum True) s =
    (Some (f, - 1), s\<lparr>rn_world := rest, rn_log := rn_log s @ [Received (encode_frame_header f), Arrived [], Received (payload_bytes f)]\<rparr>)"
proof -
  have d: "decode_frame_header (encode_frame_header f) = f\<lparr>fr_payload := None\<rparr>" using decode_encode_header [of f "[]"] assms(1) by (simp add: frame_wf_def)
  have n: "length (encode_frame_header f) = 24" using assms(1) length_encode_frame_header [of f] by (simp add: frame_wf_def wire_defs)
  have a: "frame_header_acceptable (f\<lparr>fr_payload := None\<rparr>) magic major minor maximum True"
    using assms(2) by (simp add: frame_header_acceptable_def valid_public_header_payload)
  obtain p where p: "fr_payload f = Some p" "length p = unat (fr_payload_length f)" using assms(1,3) by (auto simp: frame_wf_def split: option.splits)
  have r: "f\<lparr>fr_payload := Some p\<rparr> = f" using p(1) by simp
  show ?thesis using assms p
  by (simp add: ksd_frame_read_fd_def ksd_receive_optional_fd_def take_message_def take_frame_fd_def close_all_def system_call_def run_simps message_rights_def
        malformed_control_def service_calls service_received frame_bytes_def wire_defs n d a payload_bytes_def r Let_def)
qed

lemma service_write:
  assumes "fr_payload f = Some p" "p \<noteq> []" "length p = unat (fr_payload_length f)" "length (fr_magic f) = 4"
  shows "run_state (ksd_frame_write service_kernel 3 f) s = (True, s\<lparr>rn_log := rn_log s @ [Sent (encode_frame_header f), Sent p]\<rparr>)"
proof -
  have n: "length (encode_frame_header f) = 24" using assms(4) length_encode_frame_header [of f] by (simp add: wire_defs)
  then have ne: "encode_frame_header f \<noteq> []" by auto
  have l: "fr_payload_length f \<noteq> 0" using assms(2,3) by (metis length_0_conv unat_0)
  show ?thesis using assms l by (simp add: ksd_frame_write_def service_calls service_sent n ne run_simps payload_bytes_def wire_defs)
qed

definition hello_frame :: ksd_frame where
  "hello_frame = \<lparr>fr_magic = client_magic, fr_major = KSD_PROTOCOL_MAJOR, fr_minor = KSD_PROTOCOL_MINOR, fr_opcode = KSD_OP_HELLO, fr_flags = 0,
     fr_payload_length = 16, fr_request_id = 1, fr_payload = Some (hello_payload service_options)\<rparr>"

lemma options_ok: "valid_connect_options service_options" "valid_service_info_output ksd_service_info_init" "co_socket_path service_options = Some [47, 115]" "co_timeout_ms service_options = 130000"
    "co_role service_options = ucast KSD_ROLE_RPC"
  by code_simp+

lemma hello_length: "length (hello_payload service_options) = 16"
  by (simp add: hello_payload_def)

lemma hello_some: "hello_payload service_options \<noteq> []"
  using hello_length by auto

lemma hello_written: "write_request_frames KSD_OP_HELLO 1 (hello_payload service_options) = Some [hello_frame]"
  by (auto simp: write_request_frames_def request_frames.simps hello_length hello_some request_frame_def hello_frame_def client_magic_def wire_defs)

lemma new_window_ok: "event_ok new_window" "ev_domain new_window = KSD_STATE_WINDOWS"
  by (auto simp: event_ok_def new_window_def event_acceptable_def ksd_state_event_init_def window_ok_def ksd_window_record_init_def text_ok_def wire_defs)

lemma new_window_length: "length (tuple_enc (event_tuple new_window)) = 152"
  by (simp add: length_tuple_enc new_window_def ksd_state_event_init_def window_text_def ksd_window_record_init_def)

lemma pushed_facts: "frame_wf pushed" "frame_header_acceptable pushed client_magic KSD_PROTOCOL_MAJOR KSD_PROTOCOL_MINOR (of_nat KSD_CLIENT_MAX_RESPONSE) True"
  "unat (fr_payload_length pushed) = 152" "fr_flags pushed AND KSD_FLAG_EVENT \<noteq> 0" "fr_opcode pushed = KSD_OP_STATE_EVENT"
  "ksd_state_event_decode (\<lambda>_. True) (payload_bytes pushed) = Some new_window"
  using decode_enc [OF new_window_ok(1)] new_window_length
  by (auto simp: pushed_def frame_wf_def frame_header_acceptable_def valid_public_header_def client_magic_def payload_bytes_def Let_def wire_defs)

lemma greeting_facts: "frame_wf greeting" "frame_header_acceptable greeting client_magic KSD_PROTOCOL_MAJOR KSD_PROTOCOL_MINOR (of_nat KSD_CLIENT_MAX_RESPONSE) True"
  "unat (fr_payload_length greeting) = 40" "fr_flags greeting AND KSD_FLAG_EVENT = 0" "fr_flags greeting AND KSD_FLAG_MORE = 0"
  by (auto simp: greeting_def frame_wf_def frame_header_acceptable_def valid_public_header_def client_magic_def payload_bytes_def Let_def wire_defs)

lemma greeting_parsed:
  "parse_response greeting KSD_OP_HELLO 1 = Some \<lparr>rp_status = KSD_STATUS_OK, rp_detail = 0, rp_tail = replicate 32 0, rp_message = None\<rparr>"
  "parse_hello_tail (replicate 32 0) = Some (0, 0, 0)" "hello_lease_id (replicate 32 0) = 0" "\<not> ksd_state_mutates_windows KSD_OP_HELLO"
  by code_simp+

definition opened_state :: "ksd_connection \<Rightarrow> ksd_connection" where
  "opened_state d = (created_connection service_options d)\<lparr>cn_descriptor := 3, cn_poll_descriptor := 4, cn_pending_descriptor := 5,
     cn_input := ksd_buffer_init (KSD_CLIENT_MAX_RESPONSE + KSD_FRAME_HEADER_SIZE)\<rparr>"

lemma service_connected: "run_state (connect_socket service_host (Some [47, 115]) n) s = (3, s)"
  by (simp add: connect_socket_def adopt_socket_def sizeof_sun_path_def service_timeouts system_call_def run_simps)

lemma service_polled: "run_state (initialize_poll service_host) s =
    (True, s\<lparr>rn_data := (rn_data s)\<lparr>cn_poll_descriptor := 4, cn_pending_descriptor := 5, cn_input := ksd_buffer_init (KSD_CLIENT_MAX_RESPONSE + KSD_FRAME_HEADER_SIZE)\<rparr>\<rparr>)"
  by (simp add: initialize_poll_def system_call_def run_simps)

lemma service_pushed:
  assumes "rn_world s = frame_bytes pushed @ rest" "cn_descriptor (rn_data s) = 3" "cn_role (rn_data s) = ucast KSD_ROLE_RPC"
  shows "run_state (receive_frame service_host) s = (Some (Some (pushed, - 1)),
     s\<lparr>rn_world := rest, rn_log := rn_log s @ [Received (encode_frame_header pushed), Arrived [], Received (payload_bytes pushed), Came pushed]\<rparr>)"
  using assms pushed_facts by (simp add: receive_frame_def run_simps service_read)

lemma service_greeted:
  assumes "rn_world s = frame_bytes greeting @ rest" "cn_descriptor (rn_data s) = 3" "cn_role (rn_data s) = ucast KSD_ROLE_RPC"
  shows "run_state (receive_frame service_host) s = (Some (Some (greeting, - 1)),
     s\<lparr>rn_world := rest, rn_log := rn_log s @ [Received (encode_frame_header greeting), Arrived [], Received (payload_bytes greeting), Came greeting]\<rparr>)"
  using assms greeting_facts by (simp add: receive_frame_def run_simps service_read)

lemma pushed_queued:
  assumes "cn_queued_count (rn_data s) = 0" "cn_queued_bytes (rn_data s) = 0" "cn_events (rn_data s) = []" "cn_pending_descriptor (rn_data s) = 5"
  shows "run_state (accept_event service_host pushed) s = (None, s\<lparr>rn_data := (rn_data s)\<lparr>cn_queued_count := 1, cn_queued_bytes := 152, cn_events := [pushed], cn_signalled := True\<rparr>,
     rn_log := rn_log s @ [Signalled 5]\<rparr>)"
  using assms pushed_facts new_window_ok(2)
  by (simp add: accept_event_def queue_event_def signal_pending_def run_simps KSD_CLIENT_MAX_EVENTS_def KSD_CLIENT_MAX_EVENT_BYTES_def KSD_STATE_WINDOWS_def KSD_STATE_GRANTS_def)

lemma hello_sent: "run_state (ksd_frame_write service_kernel 3 hello_frame) s =
    (True, s\<lparr>rn_log := rn_log s @ [Sent (encode_frame_header hello_frame), Sent (hello_payload service_options)]\<rparr>)"
  by (rule service_write) (simp_all add: hello_frame_def hello_length hello_some client_magic_def)

lemma greeting_taken:
  assumes "cn_error (rn_data s) = None"
  shows "run_state (accept_response KSD_OP_HELLO 1 greeting (- 1)) s =
    ((KSD_STATUS_OK, empty_response\<lparr>rs_frame := greeting, rs_payload_fd := - 1, rs_status := KSD_STATUS_OK, rs_detail := 0, rs_tail := replicate 32 0\<rparr>), s)"
  using assms by (simp add: accept_response_def greeting_parsed reset_error_def cleared_error_def run_simps Let_def)

definition greeting_response :: response where
  "greeting_response = empty_response\<lparr>rs_frame := greeting, rs_payload_fd := - 1, rs_status := KSD_STATUS_OK, rs_detail := 0, rs_tail := replicate 32 0\<rparr>"

lemma service_asked:
  assumes "rn_world s = frame_bytes pushed @ frame_bytes greeting" "rn_data s = opened_state d" "cn_error d = None"
  shows "\<exists>t. run_state (request service_host KSD_OP_HELLO (hello_payload service_options)) s = (Some (KSD_STATUS_OK, greeting_response), t)"
proof -
  have p: "response_rounds h opcode request_id 3 = response_rounds h opcode request_id (Suc (Suc 1))" for h :: "bytes host" and opcode request_id
    by (simp add: numeral_3_eq_3)
  show ?thesis using assms
    by (simp add: request_def read_response_def deal_with_def p and_on_def run_simps next_request_id_def service_calls valid_error_def opened_state_def created_connection_def options_ok
        UINT64_MAX_def service_timeouts write_request_def hello_written hello_sent service_pushed service_greeted pushed_facts greeting_facts close_received_fd_def pushed_queued greeting_taken
        greeting_response_def Let_def)
qed

lemma service_hello:
  assumes "rn_world s = frame_bytes pushed @ frame_bytes greeting" "rn_data s = opened_state d" "cn_error d = None"
  shows "fst (run_state (and_on (request service_host KSD_OP_HELLO (hello_payload service_options)) (finish_hello ksd_service_info_init)) s)
    = Some (KSD_STATUS_OK, ksd_service_info_init\<lparr>si_abi_major := KSD_CLIENT_ABI_MAJOR, si_abi_minor := KSD_CLIENT_ABI_MINOR\<rparr>)"
proof -
  obtain t where t: "run_state (request service_host KSD_OP_HELLO (hello_payload service_options)) s = (Some (KSD_STATUS_OK, greeting_response), t)"
    using service_asked [OF assms] by blast
  show ?thesis
    by (simp add: and_on_def run_simps t greeting_response_def greeting_facts close_received_fd_def finish_hello_def greeting_parsed response_clear_def empty_response_def Let_def
        more_follows_def) (simp add: ksd_service_info_init_def)
qed

lemma service_opened: "fst (run_state (ksd_connect service_host (Some service_options) True (Some ksd_service_info_init)) (start_run (frame_bytes pushed @ frame_bytes greeting)))
    = Some (KSD_STATUS_OK, ksd_service_info_init\<lparr>si_abi_major := KSD_CLIENT_ABI_MAJOR, si_abi_minor := KSD_CLIENT_ABI_MINOR\<rparr>)"
  by (simp add: ksd_connect_def start_run_def run_simps valid_error_def options_ok service_connected service_polled)
    (rule service_hello [where d = "rn_data (start_run [])"], simp_all add: start_run_def opened_state_def created_connection_def options_ok)

definition waiting_run :: "(ksd_connection, bytes, net_event) run" where
  "waiting_run = (start_run [])\<lparr>rn_data := (opened_state (rn_data (start_run [])))\<lparr>cn_events := [pushed], cn_queued_count := 1, cn_queued_bytes := 152, cn_signalled := True\<rparr>\<rparr>"

lemma service_run:
  "client_run service_host (start_run (frame_bytes pushed @ frame_bytes greeting))
     (snd (run_state (ksd_connect service_host (Some service_options) True (Some ksd_service_info_init)) (start_run (frame_bytes pushed @ frame_bytes greeting))))"
proof (rule connected)
  show "run_state (ksd_connect service_host (Some service_options) True (Some ksd_service_info_init)) (start_run (frame_bytes pushed @ frame_bytes greeting)) =
    (Some (KSD_STATUS_OK, ksd_service_info_init\<lparr>si_abi_major := KSD_CLIENT_ABI_MAJOR, si_abi_minor := KSD_CLIENT_ABI_MINOR\<rparr>),
     snd (run_state (ksd_connect service_host (Some service_options) True (Some ksd_service_info_init)) (start_run (frame_bytes pushed @ frame_bytes greeting))))"
    unfolding prod_eq_iff fst_conv snd_conv using service_opened by (rule conjI) (rule refl)
qed

lemma service_lawful: "lawful (ho_kernel service_host)" "lawful_messages (ho_kernel service_host)"
  by (auto simp: lawful_def lawful_messages_def service_kernel_def message_rights_def split: if_splits)

definition greeted_run :: "(ksd_connection, bytes, net_event) run" where
  "greeted_run = (start_run (frame_bytes pushed @ frame_bytes greeting))\<lparr>rn_data := opened_state (rn_data (start_run []))\<rparr>"

lemma greeted_asked: "\<exists>t. run_state (request service_host KSD_OP_HELLO (hello_payload service_options)) greeted_run = (Some (KSD_STATUS_OK, greeting_response), t)"
  by (rule service_asked [where d = "rn_data (start_run [])"]) (simp_all add: greeted_run_def start_run_fields)

definition pong :: ksd_frame where
  "pong = greeting\<lparr>fr_opcode := KSD_OP_PING, fr_payload_length := 8, fr_payload := Some (replicate 8 0)\<rparr>"

lemma pong_facts: "frame_wf pong" "frame_header_acceptable pong client_magic KSD_PROTOCOL_MAJOR KSD_PROTOCOL_MINOR (of_nat KSD_CLIENT_MAX_RESPONSE) True"
  "unat (fr_payload_length pong) = 8" "fr_flags pong AND KSD_FLAG_EVENT = 0" "fr_flags pong AND KSD_FLAG_MORE = 0"
  by (auto simp: pong_def greeting_def frame_wf_def frame_header_acceptable_def valid_public_header_def client_magic_def payload_bytes_def Let_def wire_defs)

lemma pong_parsed:
  "parse_response pong KSD_OP_PING 1 = Some \<lparr>rp_status = KSD_STATUS_OK, rp_detail = 0, rp_tail = [], rp_message = None\<rparr>" "\<not> ksd_state_mutates_windows KSD_OP_PING"
  by code_simp+

definition pinged_run :: "(ksd_connection, bytes, net_event) run" where
  "pinged_run = (start_run (frame_bytes pong))\<lparr>rn_data := opened_state (rn_data (start_run []))\<rparr>"

lemma ping_written: "write_request_frames KSD_OP_PING 1 [] = Some [request_frame KSD_OP_PING 1 False []]"
  by (simp add: write_request_frames_def request_frames.simps)

lemma ping_sent: "run_state (ksd_frame_write service_kernel 3 (request_frame KSD_OP_PING 1 False [])) s =
    (True, s\<lparr>rn_log := rn_log s @ [Sent (encode_frame_header (request_frame KSD_OP_PING 1 False []))]\<rparr>)"
proof -
  have n: "length (encode_frame_header (request_frame KSD_OP_PING 1 False [])) = 24" using length_encode_frame_header [of "request_frame KSD_OP_PING 1 False []"] by (simp add: request_frame_def)
  then have ne: "encode_frame_header (request_frame KSD_OP_PING 1 False []) \<noteq> []" by auto
  show ?thesis using n ne by (simp add: ksd_frame_write_def service_calls service_sent run_simps wire_defs) (simp add: request_frame_def)
qed

lemma service_ponged:
  assumes "rn_world s = frame_bytes pong @ rest" "cn_descriptor (rn_data s) = 3" "cn_role (rn_data s) = ucast KSD_ROLE_RPC"
  shows "run_state (receive_frame service_host) s = (Some (Some (pong, - 1)),
     s\<lparr>rn_world := rest, rn_log := rn_log s @ [Received (encode_frame_header pong), Arrived [], Received (payload_bytes pong), Came pong]\<rparr>)"
  using assms pong_facts by (simp add: receive_frame_def run_simps service_read)

lemma pong_taken:
  assumes "cn_error (rn_data s) = None"
  shows "run_state (accept_response KSD_OP_PING 1 pong (- 1)) s =
    ((KSD_STATUS_OK, empty_response\<lparr>rs_frame := pong, rs_payload_fd := - 1, rs_status := KSD_STATUS_OK, rs_detail := 0, rs_tail := []\<rparr>), s)"
  using assms by (simp add: accept_response_def pong_parsed reset_error_def cleared_error_def run_simps Let_def)

lemma service_pinged:
  assumes "rn_world s = frame_bytes pong" "rn_data s = opened_state d" "cn_error d = None"
  shows "fst (run_state (ksd_ping service_host) s) = Some KSD_STATUS_OK"
proof -
  note p = response_rounds.simps(2) [where rounds = 2, simplified]
  show ?thesis using assms
    by (simp add: ksd_ping_def request_def read_response_def deal_with_def p and_on_def run_simps next_request_id_def service_calls valid_error_def
        opened_state_def created_connection_def options_ok UINT64_MAX_def service_timeouts write_request_def ping_written ping_sent service_ponged [where rest = "[]"] pong_facts
        close_received_fd_def pong_taken finish_empty_def response_clear_def empty_response_def Let_def more_follows_def)
qed

lemma ping_ended: "\<exists>t. run_state (ends (ksd_ping service_host)) pinged_run = (True, t)"
proof -
  have "fst (run_state (ksd_ping service_host) pinged_run) = Some KSD_STATUS_OK"
    by (rule service_pinged [where d = "rn_data (start_run [])"]) (simp_all add: pinged_run_def start_run_fields)
  then show ?thesis by (auto simp: ends_def run_simps split: prod.split)
qed

section \<open>Properties\<close>

text \<open>
  C12: No event is lost, repeated or reordered while a connection lives. Over the opening of a
  connection and any sequence of public calls on it, whatever the kernel and the service do,
  the events handed to the program followed by the events still queued are the state events
  that came from the socket, in the order in which they came; if any are missing at the end,
  the library has closed the connection.
\<close>

theorem client_events_in_order:
  fixes h :: "'w host"
  assumes "sound_host h" "client_run h s t"
  shows "\<exists>es lost. rn_log t = rn_log s @ es \<and> state_events es = handed_over es @ cn_events (rn_data t) @ lost
     \<and> (lost \<noteq> [] \<longrightarrow> cn_descriptor (rn_data t) < 0)"
  using client_run_opened [OF assms(2,1)] by (auto simp: opened_def)

theorem client_events_in_order_witness:
  "\<exists>t es lost. client_run service_host (start_run (frame_bytes pushed @ frame_bytes greeting)) t
     \<and> rn_log t = es \<and> state_events es = handed_over es @ cn_events (rn_data t) @ lost"
proof -
  have "rn_log (start_run bs) = []" for bs by (simp add: start_run_def)
  with client_events_in_order [OF service_sound service_run] service_run show ?thesis by fastforce
qed

text \<open>
  C15: The poll descriptor is ready exactly when there is something to learn. After the
  opening and any sequence of calls, it is signalled if and only if an event is queued or the
  connection is closed; the counters are those of the queue and within 256 events and 16 MiB,
  every queued event can be decoded, and what has been read of the next frame is not a whole
  frame.
\<close>

theorem client_readiness:
  fixes h :: "'w host"
  assumes "sound_host h" "client_run h s t"
  shows "(cn_signalled (rn_data t) \<longleftrightarrow> cn_events (rn_data t) \<noteq> [] \<or> cn_descriptor (rn_data t) < 0)
     \<and> length (cn_events (rn_data t)) = cn_queued_count (rn_data t) \<and> cn_queued_count (rn_data t) \<le> KSD_CLIENT_MAX_EVENTS
     \<and> queue_bytes (cn_events (rn_data t)) = cn_queued_bytes (rn_data t) \<and> cn_queued_bytes (rn_data t) \<le> KSD_CLIENT_MAX_EVENT_BYTES
     \<and> list_all (queued_ok (kn_alloc (ho_kernel h))) (cn_events (rn_data t)) \<and> partial (buf_data (cn_input (rn_data t)))"
  using client_run_opened [OF assms(2,1)] by (auto simp: opened_def conn_ok_def)

theorem client_readiness_witness:
  "\<exists>t. client_run service_host (start_run (frame_bytes pushed @ frame_bytes greeting)) t
     \<and> (cn_signalled (rn_data t) \<longleftrightarrow> cn_events (rn_data t) \<noteq> [] \<or> cn_descriptor (rn_data t) < 0)"
  using client_readiness [OF service_sound service_run] service_run by blast

text \<open>Memory only decides whether an event can be decoded, not what it decodes to.\<close>

definition implies :: "('a \<Rightarrow> 'b option) \<Rightarrow> ('a \<Rightarrow> 'b option) \<Rightarrow> bool" where
  "implies f g \<longleftrightarrow> (\<forall>c r. f c = Some r \<longrightarrow> g c = Some r)"

lemma implies_rules:
  "implies f f" "implies p p' \<Longrightarrow> implies q q' \<Longrightarrow> implies (pair_get p q) (pair_get p' q')"
  "implies (decode_text alloc) (decode_text (\<lambda>_. True))"
proof -
  show "implies (decode_text alloc) (decode_text (\<lambda>_. True))"
    unfolding implies_def decode_text_def by (auto split: Option.bind_splits prod.splits if_splits)
qed (auto simp: implies_def pair_get_def bind_eq_Some_conv)

lemma event_decode_memory:
  assumes "ksd_state_event_decode alloc bs = Some e"
  shows "ksd_state_event_decode (\<lambda>_. True) bs = Some e"
proof -
  have more': "implies (tuple_get alloc) (tuple_get (\<lambda>_. True))" unfolding tuple_get_def by (intro implies_rules)
  obtain r where "tuple_get alloc (ksd_cursor_init bs) = Some r"
    using assms unfolding decode_tuple by (cases "tuple_get alloc (ksd_cursor_init bs)") simp_all
  moreover from this have "tuple_get (\<lambda>_. True) (ksd_cursor_init bs) = Some r" using more' unfolding implies_def by blast
  ultimately show ?thesis using assms unfolding decode_tuple by simp
qed

lemma event_decode_other:
  assumes "ksd_state_event_decode (\<lambda>_. True) bs = Some e" "ksd_state_event_decode alloc bs \<noteq> Some e"
  shows "ksd_state_event_decode alloc bs = None \<and> (\<exists>n. \<not> alloc n)"
proof -
  have "ksd_state_event_decode alloc bs = None"
    using assms event_decode_memory [of alloc bs] by (cases "ksd_state_event_decode alloc bs") auto
  moreover have "alloc \<noteq> (\<lambda>_. True)" using assms by auto
  ultimately show ?thesis by auto
qed

text \<open>
  C16: A queued event is dealt with by the next call, whatever the service does and
  whatever memory there was when it was queued. When a connection is well formed and an event is
  queued, \<^verbatim>\<open>ksd_state_next\<close> takes exactly the oldest event from the queue. If memory can be
  had to decode it once more, the call returns OK with the event its bytes stand for, and the poll
  descriptor stays ready only if more is queued or the connection is closed. Otherwise an allocation was
  refused, the call returns UNAVAILABLE, hands over nothing and leaves the output as it was, the connection
  is closed and the poll descriptor is ready.
\<close>

theorem queued_event_delivered:
  fixes h :: "'w host"
  assumes "conn_ok alloc (rn_data s)" "cn_events (rn_data s) = frame # rest" "cn_present (rn_data s)" "0 < ho_patience h"
    and "valid_error (cn_error (rn_data s))" "so_struct_size out \<ge> sizeof_state_event" "output_clear (so_event out)" "timeout_ms \<le> KSD_MAX_WATCH_TIMEOUT_MS"
  shows "\<exists>event answer t. run_state (ksd_state_next h timeout_ms (Some out)) s = (Some answer, t)
     \<and> ksd_state_event_decode (\<lambda>_. True) (payload_bytes frame) = Some event \<and> cn_events (rn_data t) = rest
     \<and> (if ksd_state_event_decode (kn_alloc (ho_kernel h)) (payload_bytes frame) = Some event
        then answer = (KSD_STATUS_OK, Some \<lparr>so_struct_size = sizeof_state_event, so_event = event\<rparr>)
          \<and> (cn_signalled (rn_data t) \<longleftrightarrow> rest \<noteq> [] \<or> cn_descriptor (rn_data s) < 0)
          \<and> handed_over (drop (length (rn_log s)) (rn_log t)) = [frame]
        else (\<exists>n. \<not> kn_alloc (ho_kernel h) n) \<and> answer = (KSD_STATUS_UNAVAILABLE, Some out)
          \<and> cn_signalled (rn_data t) \<and> cn_descriptor (rn_data t) < 0
          \<and> handed_over (drop (length (rn_log s)) (rn_log t)) = [])"
proof -
  let ?decode = "ksd_state_event_decode (kn_alloc (ho_kernel h)) (payload_bytes frame)"
  have q: "queued_ok alloc frame" and sig: "cn_signalled (rn_data s)" and pending: "cn_pending_descriptor (rn_data s) \<ge> 0"
    using assms(1,2) by (auto simp: conn_ok_def)
  then obtain event where event: "ksd_state_event_decode (\<lambda>_. True) (payload_bytes frame) = Some event"
    using event_decode_memory by (auto simp: queued_ok_def)
  obtain rounds where rounds: "ho_patience h = Suc rounds" using assms(4) by (cases "ho_patience h") auto
  note step = ksd_state_next_def read_event_def rounds ksd_monotonic_milliseconds_def and_on_def take_event_def judge_event_def give_event_def
    reset_error_def set_errno_def queued_ok_def wp_simps wp_call Let_def wire_defs
  show ?thesis
  proof (cases "?decode = Some event")
    case True
    have "wp (ksd_state_next h timeout_ms (Some out)) (\<lambda>r t. r = Some (KSD_STATUS_OK, Some \<lparr>so_struct_size = sizeof_state_event, so_event = event\<rparr>)
       \<and> cn_events (rn_data t) = rest \<and> (cn_signalled (rn_data t) \<longleftrightarrow> rest \<noteq> [] \<or> cn_descriptor (rn_data s) < 0)
       \<and> handed_over (drop (length (rn_log s)) (rn_log t)) = [frame]) s"
      using assms(2,3,5,7) leD [OF assms(6)] leD [OF assms(8)] q sig True by (auto simp: step split: prod.split option.split)
    then show ?thesis using event True by (auto simp: wp_def split: prod.splits)
  next
    case False
    note lost = event_decode_other [OF event False]
    have "wp (ksd_state_next h timeout_ms (Some out)) (\<lambda>r t. r = Some (KSD_STATUS_UNAVAILABLE, Some out)
       \<and> cn_events (rn_data t) = rest \<and> cn_signalled (rn_data t) \<and> cn_descriptor (rn_data t) < 0
       \<and> handed_over (drop (length (rn_log s)) (rn_log t)) = []) s"
      using assms(2,3,5,7) leD [OF assms(6)] leD [OF assms(8)] q sig pending conjunct1 [OF lost]
      by (auto simp: step system_failure_def signal_pending_def set_error_def ksd_status_for_system_error_def errno_defs split: prod.split option.split)
    then show ?thesis using event False conjunct2 [OF lost] by (auto simp: wp_def split: prod.splits)
  qed
qed

theorem queued_event_delivered_witness:
  "\<exists>event t. run_state (ksd_state_next service_host 0 (Some \<lparr>so_struct_size = sizeof_state_event, so_event = ksd_state_event_init\<rparr>)) waiting_run
     = (Some (KSD_STATUS_OK, Some \<lparr>so_struct_size = sizeof_state_event, so_event = event\<rparr>), t) \<and> cn_events (rn_data t) = []
     \<and> handed_over (drop (length (rn_log waiting_run)) (rn_log t)) = [pushed]"
proof -
  have w: "cn_events (rn_data waiting_run) = [pushed]" "cn_present (rn_data waiting_run)" "valid_error (cn_error (rn_data waiting_run))" "output_clear ksd_state_event_init"
    by (simp_all add: waiting_run_def start_run_def opened_state_def created_connection_def valid_error_def output_clear_def ksd_state_event_init_def ksd_window_record_init_def)
  have ok: "conn_ok (kn_alloc (ho_kernel service_host)) (rn_data waiting_run)"
    using pushed_facts by (simp add: waiting_run_def opened_state_def created_connection_def conn_ok_def queue_bytes_def queued_ok_def partial_def within_def ksd_buffer_init_def
        buffer_wf_def KSD_CLIENT_MAX_EVENTS_def KSD_CLIENT_MAX_EVENT_BYTES_def pushed_def)
  have all: "kn_alloc (ho_kernel service_host) = (\<lambda>_. True)" by simp
  show ?thesis using queued_event_delivered [OF ok w(1,2), where h = service_host and out = "\<lparr>so_struct_size = sizeof_state_event, so_event = ksd_state_event_init\<rparr>" and timeout_ms = 0] w unfolding all
    by (auto simp: KSD_MAX_WATCH_TIMEOUT_MS_def)
qed

text \<open>
  C13: A request is answered by its own response. Whenever \<^verbatim>\<open>request\<close> returns OK, whatever
  events and stray frames came in between, the frame it returns is a response with the opcode
  of the request and the number that was the next one of the connection (never zero), and it
  came after every byte of the frames of the request had been sent.
\<close>

theorem request_own_answer:
  fixes h :: "'w host"
  assumes "lawful (ho_kernel h)" "run_state (request h opcode payload) s = (Some (KSD_STATUS_OK, response), t)"
  shows "\<exists>es. rn_log t = rn_log s @ es \<and> answers_request opcode (following (cn_next_request_id (rn_data s))) payload (rs_frame response) es
     \<and> following (cn_next_request_id (rn_data s)) \<noteq> 0"
proof -
  have "following n \<noteq> 0" for n by (simp add: following_def)
  then show ?thesis using spec_run [OF request_answered [OF assms(1)] assms(2)] by (auto simp: answered_def)
qed

theorem request_own_answer_witness:
  "\<exists>t. run_state (request service_host KSD_OP_HELLO (hello_payload service_options)) greeted_run = (Some (KSD_STATUS_OK, greeting_response), t)
     \<and> answers_request KSD_OP_HELLO 1 (hello_payload service_options) greeting (rn_log t)"
proof -
  obtain t where t: "run_state (request service_host KSD_OP_HELLO (hello_payload service_options)) greeted_run = (Some (KSD_STATUS_OK, greeting_response), t)"
    using greeted_asked by blast
  have start: "rn_log greeted_run = []" "cn_next_request_id (rn_data greeted_run) = 0" and frame: "rs_frame greeting_response = greeting"
    by (simp_all add: greeted_run_def start_run_fields opened_state_def created_connection_def greeting_response_def)
  have one: "following 0 = 1" by (simp add: following_def)
  have "answers_request KSD_OP_HELLO 1 (hello_payload service_options) greeting (rn_log t)"
    using request_own_answer [OF service_lawful(1) t] unfolding start frame one append_Nil by blast
  with t show ?thesis by blast
qed

text \<open>
  C14: No public call leaks a descriptor. When a call of the library returns, the descriptors
  that arrived with frames while it ran are exactly the ones it closed, on every path: answers
  that are accepted, refused or of another request, events that carry a descriptor, captures
  that cannot be mapped, and listings that are abandoned.
\<close>

theorem call_descriptors_closed:
  fixes h :: "'w host"
  assumes "public_call h m" "lawful (ho_kernel h)" "lawful_messages (ho_kernel h)" "run_state m s = (True, t)"
  shows "\<exists>es. rn_log t = rn_log s @ es \<and> mset (arrived es) = mset (closed es)"
  using spec_run [OF call_spends [OF assms(1-3)] assms(4)] by (auto simp: passes_on_def)

theorem call_descriptors_closed_witness:
  "\<exists>t es. run_state (ends (ksd_ping service_host)) pinged_run = (True, t) \<and> rn_log t = es \<and> mset (arrived es) = mset (closed es)"
proof -
  obtain t where t: "run_state (ends (ksd_ping service_host)) pinged_run = (True, t)"
    using ping_ended by blast
  have "rn_log pinged_run = []" by (simp add: pinged_run_def start_run_def)
  then obtain es where "rn_log t = es" "mset (arrived es) = mset (closed es)" using call_descriptors_closed [OF public_call.ping service_lawful t] by auto
  with t show ?thesis by blast
qed

end
