(* ===== verification/Hypr_Json.thy ===== *)
theory Hypr_Json
  imports Protocol "HOL-Library.Monad_Syntax"
begin

text \<open>
  The reader of Hyprland's JSON replies in src/src/wayland/wl_hypr.c: clients, the snapshot of
  clients with the active one, keyboards and monitors.

  A cursor is the bytes from where it stands to the end of the reply. A function that fails
  and leaves a cursor that is still used returns the cursor beside the flag; the others return
  \<open>None\<close>. The output buffer of a string is its capacity, with zero for no buffer. The nesting
  limit is the number of levels still allowed: depth 1 of the source is 16 levels here.
\<close>

section \<open>Characters and numbers of the C library\<close>

definition isspace :: "u8 \<Rightarrow> bool" where
  "isspace b \<longleftrightarrow> b = 32 \<or> 9 \<le> b \<and> b \<le> 13"

definition isdigit :: "u8 \<Rightarrow> bool" where
  "isdigit b \<longleftrightarrow> 48 \<le> b \<and> b \<le> 57"

definition isxdigit :: "u8 \<Rightarrow> bool" where
  "isxdigit b \<longleftrightarrow> isdigit b \<or> 65 \<le> b \<and> b \<le> 70 \<or> 97 \<le> b \<and> b \<le> 102"

definition isalnum :: "u8 \<Rightarrow> bool" where
  "isalnum b \<longleftrightarrow> isdigit b \<or> 65 \<le> b \<and> b \<le> 90 \<or> 97 \<le> b \<and> b \<le> 122"

definition digits_int :: "bytes \<Rightarrow> int" where
  "digits_int ds = foldl (\<lambda>n b. n * 10 + (uint b - 48)) 0 ds"

text \<open>
  \<open>strtoll\<close> and \<open>strtol\<close> with base 10: the value and what follows it, or \<open>None\<close> when there are no
  digits or the value is out of range (\<open>ERANGE\<close>).
\<close>

definition strtoll :: "bytes \<Rightarrow> (int \<times> bytes) option" where
  "strtoll s =
     (let t = dropWhile isspace s;
          negative = (t \<noteq> [] \<and> hd t = 45);
          t = (if t \<noteq> [] \<and> (hd t = 45 \<or> hd t = 43) then tl t else t);
          ds = takeWhile isdigit t;
          v = (if negative then - digits_int ds else digits_int ds)
      in if ds = [] \<or> v < - (2 ^ 63) \<or> v > 2 ^ 63 - 1 then None else Some (v, dropWhile isdigit t))"

definition in_int32 :: "int \<Rightarrow> bool" where
  "in_int32 v \<longleftrightarrow> - (2 ^ 31) \<le> v \<and> v \<le> 2 ^ 31 - 1"

section \<open>The cursor\<close>

definition json_space :: "bytes \<Rightarrow> bytes" where
  "json_space s = dropWhile isspace s"

definition json_take :: "u8 \<Rightarrow> bytes \<Rightarrow> bool \<times> bytes" where
  "json_take expected s = (case json_space s of [] \<Rightarrow> (False, []) | b # r \<Rightarrow> if b = expected then (True, r) else (False, b # r))"

definition json_peek :: "u8 \<Rightarrow> bytes \<Rightarrow> bool" where
  "json_peek expected s = (case json_space s of [] \<Rightarrow> False | b # _ \<Rightarrow> b = expected)"

text \<open>\<open>json_take\<close> where its failure ends the parse.\<close>

definition json_expect :: "u8 \<Rightarrow> bytes \<Rightarrow> bytes option" where
  "json_expect expected s = (case json_take expected s of (True, r) \<Rightarrow> Some r | (False, _) \<Rightarrow> None)"

definition keep_value :: "nat \<Rightarrow> u8 \<Rightarrow> bytes \<times> bool \<Rightarrow> bytes \<times> bool" where
  "keep_value capacity v kept =
     (case kept of (out, truncated) \<Rightarrow>
        if capacity = 0 then (out, truncated)
        else if length out + 1 < capacity then (out @ [v], truncated) else (out, True))"

definition plain_escape :: "u8 \<Rightarrow> u8" where
  "plain_escape v = (if v = 110 \<or> v = 116 \<or> v = 114 \<or> v = 98 \<or> v = 102 then 32 else v)"

function string_loop :: "nat \<Rightarrow> bytes \<times> bool \<Rightarrow> bytes \<Rightarrow> ((bytes \<times> bool) \<times> bytes) option" where
  "string_loop capacity kept [] = None"
| "string_loop capacity kept (b # s) =
     (if b = 34 then Some (kept, s)
      else if b = 92 then
        (case s of [] \<Rightarrow> None
         | v # r \<Rightarrow> if v = 117 then if length r < 4 then None else string_loop capacity (keep_value capacity 63 kept) (drop 4 r)
                   else string_loop capacity (keep_value capacity (plain_escape v) kept) r)
      else string_loop capacity (keep_value capacity b kept) s)"
  by pat_completeness auto
termination
  by (relation "measure (\<lambda>(capacity, kept, s). length s)") auto

definition json_string :: "nat \<Rightarrow> bytes \<Rightarrow> (bytes \<times> bool \<times> bytes) option" where
  "json_string capacity s = do {
     s \<leftarrow> json_expect 34 s;
     ((out, truncated), s) \<leftarrow> string_loop capacity ([], False) s;
     Some (cstring out, truncated, s) }"

definition number_char :: "u8 \<Rightarrow> bool" where
  "number_char b \<longleftrightarrow> isdigit b \<or> b = 45 \<or> b = 43 \<or> b = 46 \<or> b = 101 \<or> b = 69"

definition json_integer :: "bytes \<Rightarrow> (int \<times> bytes) option" where
  "json_integer s =
     (let s = json_space s; digits = take 31 (takeWhile number_char s)
      in if digits = [] then None
         else case strtoll digits of None \<Rightarrow> None | Some (v, _) \<Rightarrow> Some (v, drop (length digits) s))"

definition json_literal :: "bytes \<Rightarrow> bytes \<Rightarrow> bool \<times> bytes" where
  "json_literal text s =
     (let s = json_space s in if take (length text) s = text then (True, drop (length text) s) else (False, s))"

definition json_word :: "string \<Rightarrow> bytes \<Rightarrow> bytes option" where
  "json_word name s = (case json_literal (ascii name) s of (True, r) \<Rightarrow> Some r | (False, _) \<Rightarrow> None)"

definition json_boolean :: "bytes \<Rightarrow> (bool \<times> bytes) option" where
  "json_boolean s =
     (case json_literal (ascii ''true'') s of
        (True, r) \<Rightarrow> Some (True, r)
      | (False, s) \<Rightarrow> (case json_literal (ascii ''false'') s of (True, r) \<Rightarrow> Some (False, r) | (False, _) \<Rightarrow> None))"

section \<open>Loops over members\<close>

text \<open>
  \<open>do ... while (json_take(cursor, ','))\<close> with what the body changes. The number of rounds is one
  more than the bytes left, and every round but the last takes a comma.
\<close>

primrec comma_rounds :: "nat \<Rightarrow> ('x \<Rightarrow> bytes \<Rightarrow> ('x \<times> bytes) option) \<Rightarrow> 'x \<Rightarrow> bytes \<Rightarrow> ('x \<times> bytes) option" where
  "comma_rounds 0 step x s = None"
| "comma_rounds (Suc n) step x s =
     (case step x s of None \<Rightarrow> None
      | Some (x', s') \<Rightarrow> (case json_take 44 s' of (True, r) \<Rightarrow> comma_rounds n step x' r | (False, r) \<Rightarrow> Some (x', r)))"

definition do_while_comma :: "('x \<Rightarrow> bytes \<Rightarrow> ('x \<times> bytes) option) \<Rightarrow> 'x \<Rightarrow> bytes \<Rightarrow> ('x \<times> bytes) option" where
  "do_while_comma step x s = comma_rounds (Suc (length s)) step x s"

text \<open>The name of a member and the colon behind it.\<close>

definition json_key :: "nat \<Rightarrow> bytes \<Rightarrow> (bytes \<times> bytes) option" where
  "json_key capacity s = do {
     (key, _, s) \<leftarrow> json_string capacity s;
     s \<leftarrow> json_expect 58 s;
     Some (key, s) }"

text \<open>A bracket, members that a body reads, and the closing bracket; \<open>none\<close> is what an empty pair gives.\<close>

definition json_group :: "u8 \<Rightarrow> u8 \<Rightarrow> 'x option \<Rightarrow> ('x \<Rightarrow> bytes \<Rightarrow> ('x \<times> bytes) option) \<Rightarrow> 'x \<Rightarrow> bytes \<Rightarrow> ('x \<times> bytes) option" where
  "json_group left right none step x s = do {
     s \<leftarrow> json_expect left s;
     case json_take right s of
       (True, s) \<Rightarrow> map_option (\<lambda>x. (x, s)) none
     | (False, s) \<Rightarrow> do {
         (x, s) \<leftarrow> do_while_comma step x s;
         s \<leftarrow> json_expect right s;
         Some (x, s) }}"

definition skip_member :: "(bytes \<Rightarrow> bytes option) \<Rightarrow> unit \<Rightarrow> bytes \<Rightarrow> (unit \<times> bytes) option" where
  "skip_member skip x s = do { (_, s) \<leftarrow> json_key 0 s; s \<leftarrow> skip s; Some ((), s) }"

definition skip_item :: "(bytes \<Rightarrow> bytes option) \<Rightarrow> unit \<Rightarrow> bytes \<Rightarrow> (unit \<times> bytes) option" where
  "skip_item skip x s = do { s \<leftarrow> skip s; Some ((), s) }"

primrec json_skip :: "nat \<Rightarrow> bytes \<Rightarrow> bytes option" where
  "json_skip 0 s = None"
| "json_skip (Suc levels) s =
     (case json_space s of [] \<Rightarrow> None
      | b # r \<Rightarrow>
          if b = 34 then map_option (\<lambda>(_, _, r). r) (json_string 0 (b # r))
          else if b = 123 then map_option snd (json_group 123 125 (Some ()) (skip_member (json_skip levels)) () (b # r))
          else if b = 91 then map_option snd (json_group 91 93 (Some ()) (skip_item (json_skip levels)) () (b # r))
          else if b = 116 then json_word ''true'' (b # r)
          else if b = 102 then json_word ''false'' (b # r)
          else if b = 110 then json_word ''null'' (b # r)
          else map_option snd (json_integer (b # r)))"

definition KSD_HYPR_JSON_DEPTH :: nat where
  "KSD_HYPR_JSON_DEPTH = 16"

text \<open>\<open>json_skip\<close> at a depth of the source.\<close>

definition skip_at :: "nat \<Rightarrow> bytes \<Rightarrow> bytes option" where
  "skip_at depth s = json_skip (Suc KSD_HYPR_JSON_DEPTH - depth) s"

definition json_pair :: "bytes \<Rightarrow> ((int \<times> int) \<times> bytes) option" where
  "json_pair s = do {
     s \<leftarrow> json_expect 91 s;
     (a, s) \<leftarrow> json_integer s;
     s \<leftarrow> json_expect 44 s;
     (b, s) \<leftarrow> json_integer s;
     s \<leftarrow> json_expect 93 s;
     if in_int32 a \<and> in_int32 b then Some ((a, b), s) else None }"

section \<open>Clients\<close>

definition KSD_HYPR_ID_CAPACITY :: nat where
  "KSD_HYPR_ID_CAPACITY = 32"

definition KSD_HYPR_WORKSPACE_CAPACITY :: nat where
  "KSD_HYPR_WORKSPACE_CAPACITY = 64"

definition KSD_HYPR_MAX_CLIENTS :: nat where
  "KSD_HYPR_MAX_CLIENTS = 4096"

record ksd_hypr_client =
  hc_stable_id :: bytes
  hc_address :: bytes
  hc_workspace_name :: bytes
  hc_workspace_id :: int
  hc_pid :: int
  hc_stacking_order :: nat
  hc_x :: int
  hc_y :: int
  hc_width :: int
  hc_height :: int
  hc_fullscreen :: int
  hc_mapped :: bool
  hc_hidden :: bool
  hc_visible :: bool
  hc_floating :: bool
  hc_pinned :: bool
  hc_over_fullscreen :: bool
  hc_active :: bool

definition zero_client :: ksd_hypr_client where
  "zero_client = \<lparr>hc_stable_id = [], hc_address = [], hc_workspace_name = [], hc_workspace_id = 0, hc_pid = 0, hc_stacking_order = 0, hc_x = 0, hc_y = 0,
     hc_width = 0, hc_height = 0, hc_fullscreen = 0, hc_mapped = False, hc_hidden = False, hc_visible = False, hc_floating = False, hc_pinned = False,
     hc_over_fullscreen = False, hc_active = False\<rparr>"

definition workspace_value :: "bytes \<Rightarrow> ksd_hypr_client \<Rightarrow> bytes \<Rightarrow> (ksd_hypr_client \<times> bytes) option" where
  "workspace_value key client s =
     (if key = ascii ''id'' then do { (v, s) \<leftarrow> json_integer s; Some (client\<lparr>hc_workspace_id := v\<rparr>, s) }
      else if key = ascii ''name'' then do {
        (name, truncated, s) \<leftarrow> json_string KSD_HYPR_WORKSPACE_CAPACITY s;
        Some (client\<lparr>hc_workspace_name := (if truncated then [] else name)\<rparr>, s) }
      else do { s \<leftarrow> skip_at 1 s; Some (client, s) })"

definition workspace_member :: "ksd_hypr_client \<Rightarrow> bytes \<Rightarrow> (ksd_hypr_client \<times> bytes) option" where
  "workspace_member client s = do { (key, s) \<leftarrow> json_key 16 s; workspace_value key client s }"

definition json_workspace :: "ksd_hypr_client \<Rightarrow> bytes \<Rightarrow> (ksd_hypr_client \<times> bytes) option" where
  "json_workspace client s = json_group 123 125 (Some client) workspace_member client s"

definition address_valid :: "bytes \<Rightarrow> bool" where
  "address_valid address \<longleftrightarrow> take 2 address = ascii ''0x'' \<and> drop 2 address \<noteq> [] \<and> list_all isxdigit (drop 2 address)"

definition flag_value :: "((bool \<Rightarrow> bool) \<Rightarrow> ksd_hypr_client \<Rightarrow> ksd_hypr_client) \<Rightarrow> ksd_hypr_client \<times> bool \<Rightarrow> bytes \<Rightarrow> ((ksd_hypr_client \<times> bool) \<times> bytes) option" where
  "flag_value field st s = do { (v, s) \<leftarrow> json_boolean s; Some ((field (\<lambda>_. v) (fst st), snd st), s) }"

text \<open>The value of one member of a client; beside the client, whether an identifier was truncated.\<close>

definition client_value :: "bytes \<Rightarrow> ksd_hypr_client \<times> bool \<Rightarrow> bytes \<Rightarrow> ((ksd_hypr_client \<times> bool) \<times> bytes) option" where
  "client_value key st s =
     (if key = ascii ''address'' then do {
        (v, truncated, s) \<leftarrow> json_string KSD_HYPR_ID_CAPACITY s;
        Some (((fst st)\<lparr>hc_address := v\<rparr>, snd st \<or> truncated), s) }
      else if key = ascii ''stableId'' then do {
        (v, truncated, s) \<leftarrow> json_string KSD_HYPR_ID_CAPACITY s;
        Some (((fst st)\<lparr>hc_stable_id := v\<rparr>, snd st \<or> truncated), s) }
      else if key = ascii ''mapped'' then flag_value hc_mapped_update st s
      else if key = ascii ''hidden'' then flag_value hc_hidden_update st s
      else if key = ascii ''visible'' then flag_value hc_visible_update st s
      else if key = ascii ''floating'' then flag_value hc_floating_update st s
      else if key = ascii ''pinned'' then flag_value hc_pinned_update st s
      else if key = ascii ''overFullscreen'' then flag_value hc_over_fullscreen_update st s
      else if key = ascii ''at'' then do { ((a, b), s) \<leftarrow> json_pair s; Some (((fst st)\<lparr>hc_x := a, hc_y := b\<rparr>, snd st), s) }
      else if key = ascii ''size'' then do { ((a, b), s) \<leftarrow> json_pair s; Some (((fst st)\<lparr>hc_width := a, hc_height := b\<rparr>, snd st), s) }
      else if key = ascii ''workspace'' then do { (client, s) \<leftarrow> json_workspace (fst st) s; Some ((client, snd st), s) }
      else if key = ascii ''pid'' then do { (v, s) \<leftarrow> json_integer s; Some (((fst st)\<lparr>hc_pid := v\<rparr>, snd st), s) }
      else if key = ascii ''fullscreen'' then
        if json_peek 116 s \<or> json_peek 102 s
        then do { (v, s) \<leftarrow> json_boolean s; Some (((fst st)\<lparr>hc_fullscreen := (if v then 1 else 0)\<rparr>, snd st), s) }
        else do { (v, s) \<leftarrow> json_integer s; Some (((fst st)\<lparr>hc_fullscreen := (if v > 0 then 1 else 0)\<rparr>, snd st), s) }
      else do { s \<leftarrow> skip_at 1 s; Some (st, s) })"

definition client_member :: "ksd_hypr_client \<times> bool \<Rightarrow> bytes \<Rightarrow> ((ksd_hypr_client \<times> bool) \<times> bytes) option" where
  "client_member st s = do { (key, s) \<leftarrow> json_key 32 s; client_value key st s }"

definition addressable :: "ksd_hypr_client \<times> bool \<Rightarrow> bool" where
  "addressable st \<longleftrightarrow> \<not> snd st \<and> hc_stable_id (fst st) \<noteq> [] \<and> address_valid (hc_address (fst st))"

definition json_client :: "bytes \<Rightarrow> (ksd_hypr_client \<times> bytes) option" where
  "json_client s = do {
     (st, s) \<leftarrow> json_group 123 125 None client_member (zero_client\<lparr>hc_mapped := True, hc_visible := True\<rparr>, False) s;
     if addressable st then Some (fst st, s) else None }"

definition sizeof_hypr_client :: nat where
  "sizeof_hypr_client = 176"

text \<open>The items read so far and the capacity of their array.\<close>

definition clients_item :: "(nat \<Rightarrow> bool) \<Rightarrow> ksd_hypr_client list \<times> nat \<Rightarrow> bytes \<Rightarrow> ((ksd_hypr_client list \<times> nat) \<times> bytes) option" where
  "clients_item alloc st s =
     (case st of (items, capacity) \<Rightarrow>
      case json_client s of
        None \<Rightarrow> map_option (\<lambda>s. (st, s)) (skip_at 1 s)
      | Some (client, s) \<Rightarrow>
          if length items = KSD_HYPR_MAX_CLIENTS then Some (st, s)
          else let grown = (if capacity = 0 then 16 else capacity * 2)
               in if length items = capacity \<and> \<not> alloc (grown * sizeof_hypr_client) then None
                  else Some ((items @ [client\<lparr>hc_stacking_order := length items\<rparr>], if length items = capacity then grown else capacity), s))"

definition json_clients :: "(nat \<Rightarrow> bool) \<Rightarrow> bytes \<Rightarrow> (ksd_hypr_client list \<times> bytes) option" where
  "json_clients alloc s = do { ((items, _), s) \<leftarrow> json_group 91 93 (Some ([], 0)) (clients_item alloc) ([], 0) s; Some (items, s) }"

definition ksd_wayland_hypr_parse_clients :: "(nat \<Rightarrow> bool) \<Rightarrow> bytes option \<Rightarrow> ksd_hypr_client list option" where
  "ksd_wayland_hypr_parse_clients alloc json =
     (case json of None \<Rightarrow> None
      | Some s \<Rightarrow> do { (clients, s) \<leftarrow> json_clients alloc s; if json_space s = [] then Some clients else None })"

text \<open>The active window behind the list, or an empty object when there is none.\<close>

definition active_client :: "bytes \<Rightarrow> (ksd_hypr_client \<times> bytes) option" where
  "active_client s =
     (case json_take 123 s of
        (True, e) \<Rightarrow> (case json_take 125 e of (True, e) \<Rightarrow> Some (zero_client, e) | (False, _) \<Rightarrow> json_client s)
      | (False, _) \<Rightarrow> json_client s)"

definition same_window :: "ksd_hypr_client \<Rightarrow> ksd_hypr_client \<Rightarrow> bool" where
  "same_window a b \<longleftrightarrow> hc_stable_id a = hc_stable_id b \<and> hc_address a = hc_address b"

definition ksd_wayland_hypr_parse_snapshot :: "(nat \<Rightarrow> bool) \<Rightarrow> bytes option \<Rightarrow> ksd_hypr_client list option" where
  "ksd_wayland_hypr_parse_snapshot alloc reply =
     (case reply of None \<Rightarrow> None
      | Some s \<Rightarrow> do {
          (clients, s) \<leftarrow> json_clients alloc s;
          if take 3 s \<noteq> [10, 10, 10] then None
          else do {
            (active, s) \<leftarrow> active_client (drop 3 s);
            if json_space s \<noteq> [] then None
            else Some (map (\<lambda>c. c\<lparr>hc_active := same_window c active\<rparr>) clients) }})"

section \<open>The active workspace\<close>

text \<open>The loop leaves at the first \<open>id\<close>, whether or not its value can be read.\<close>

primrec workspace_rounds :: "nat \<Rightarrow> bytes \<Rightarrow> int option" where
  "workspace_rounds 0 s = None"
| "workspace_rounds (Suc n) s = do {
     (key, s) \<leftarrow> json_key 16 s;
     if key = ascii ''id'' then map_option fst (json_integer s)
     else do {
       s \<leftarrow> skip_at 1 s;
       case json_take 44 s of (True, s) \<Rightarrow> workspace_rounds n s | (False, _) \<Rightarrow> None }}"

definition active_workspace_id :: "bytes \<Rightarrow> int option" where
  "active_workspace_id s = do {
     s \<leftarrow> json_expect 123 s;
     case json_take 125 s of (True, _) \<Rightarrow> None | (False, s) \<Rightarrow> workspace_rounds (Suc (length s)) s }"

section \<open>Keyboards\<close>

record ksd_hypr_layout =
  hl_index :: int
  hl_name :: bytes

definition KSD_HYPR_LAYOUT_NAME_CAPACITY :: nat where
  "KSD_HYPR_LAYOUT_NAME_CAPACITY = 256"

record keyboard_state =
  kb_main :: bool
  kb_layout :: ksd_hypr_layout
  kb_has_index :: bool
  kb_has_name :: bool

definition zero_keyboard :: keyboard_state where
  "zero_keyboard = \<lparr>kb_main = False, kb_layout = \<lparr>hl_index = 0, hl_name = []\<rparr>, kb_has_index = False, kb_has_name = False\<rparr>"

definition keyboard_index :: "keyboard_state \<Rightarrow> int \<Rightarrow> keyboard_state" where
  "keyboard_index k v =
     (if 0 \<le> v \<and> v \<le> 2 ^ 32 - 1 then k\<lparr>kb_has_index := True, kb_layout := (kb_layout k)\<lparr>hl_index := v\<rparr>\<rparr>
      else k\<lparr>kb_has_index := False\<rparr>)"

definition keyboard_value :: "bytes \<Rightarrow> keyboard_state \<Rightarrow> bytes \<Rightarrow> (keyboard_state \<times> bytes) option" where
  "keyboard_value key k s =
     (if key = ascii ''main'' then do { (v, s) \<leftarrow> json_boolean s; Some (k\<lparr>kb_main := v\<rparr>, s) }
      else if key = ascii ''active_layout_index'' then
        if json_peek 34 s then do { s \<leftarrow> skip_at 2 s; Some (k, s) }
        else do { (v, s) \<leftarrow> json_integer s; Some (keyboard_index k v, s) }
      else if key = ascii ''active_keymap'' then do {
        (name, truncated, s) \<leftarrow> json_string KSD_HYPR_LAYOUT_NAME_CAPACITY s;
        Some (k\<lparr>kb_layout := (kb_layout k)\<lparr>hl_name := name\<rparr>, kb_has_name := \<not> truncated \<and> name \<noteq> []\<rparr>, s) }
      else do { s \<leftarrow> skip_at 2 s; Some (k, s) })"

definition keyboard_member :: "keyboard_state \<Rightarrow> bytes \<Rightarrow> (keyboard_state \<times> bytes) option" where
  "keyboard_member k s = do { (key, s) \<leftarrow> json_key 32 s; keyboard_value key k s }"

definition json_keyboard :: "bytes \<Rightarrow> (keyboard_state \<times> bytes) option" where
  "json_keyboard s = json_group 123 125 (Some zero_keyboard) keyboard_member zero_keyboard s"

record layout_state =
  ly_mains :: nat
  ly_complete :: bool
  ly_layout :: ksd_hypr_layout

definition note_keyboard :: "layout_state \<Rightarrow> keyboard_state \<Rightarrow> layout_state" where
  "note_keyboard l k =
     (if kb_main k then \<lparr>ly_mains = Suc (ly_mains l), ly_complete = kb_has_index k \<and> kb_has_name k, ly_layout = kb_layout k\<rparr> else l)"

definition keyboards_item :: "layout_state \<Rightarrow> bytes \<Rightarrow> (layout_state \<times> bytes) option" where
  "keyboards_item l s = do { (k, s) \<leftarrow> json_keyboard s; Some (note_keyboard l k, s) }"

definition devices_value :: "bytes \<Rightarrow> layout_state \<Rightarrow> bytes \<Rightarrow> (layout_state \<times> bytes) option" where
  "devices_value key l s =
     (if key \<noteq> ascii ''keyboards'' then do { s \<leftarrow> skip_at 1 s; Some (l, s) }
      else json_group 91 93 (Some l) keyboards_item l s)"

definition devices_member :: "layout_state \<Rightarrow> bytes \<Rightarrow> (layout_state \<times> bytes) option" where
  "devices_member l s = do { (key, s) \<leftarrow> json_key 32 s; devices_value key l s }"

definition ksd_wayland_hypr_parse_active_layout :: "bytes option \<Rightarrow> ksd_hypr_layout option" where
  "ksd_wayland_hypr_parse_active_layout json =
     (case json of None \<Rightarrow> None
      | Some s \<Rightarrow> do {
          (l, s) \<leftarrow> json_group 123 125 None devices_member \<lparr>ly_mains = 0, ly_complete = False, ly_layout = \<lparr>hl_index = 0, hl_name = []\<rparr>\<rparr> s;
          if ly_mains l = 1 \<and> ly_complete l then Some (ly_layout l) else None })"

section \<open>Monitors\<close>

record ksd_hypr_monitor =
  hm_name :: bytes
  hm_x :: int
  hm_y :: int
  hm_reserved :: "int list"
  hm_focused :: bool

definition KSD_HYPR_MONITOR_NAME_CAPACITY :: nat where
  "KSD_HYPR_MONITOR_NAME_CAPACITY = 64"

definition KSD_HYPR_MAX_MONITORS :: nat where
  "KSD_HYPR_MAX_MONITORS = 64"

definition int32_value :: "bytes \<Rightarrow> (int \<times> bytes) option" where
  "int32_value s = do { (v, s) \<leftarrow> json_integer s; if in_int32 v then Some (v, s) else None }"

definition json_reserved :: "bytes \<Rightarrow> (int list \<times> bytes) option" where
  "json_reserved s = do {
     s \<leftarrow> json_expect 91 s;
     (a, s) \<leftarrow> int32_value s;
     s \<leftarrow> json_expect 44 s;
     (b, s) \<leftarrow> int32_value s;
     s \<leftarrow> json_expect 44 s;
     (c, s) \<leftarrow> int32_value s;
     s \<leftarrow> json_expect 44 s;
     (d, s) \<leftarrow> int32_value s;
     s \<leftarrow> json_expect 93 s;
     Some ([a, b, c, d], s) }"

record monitor_state =
  mo_monitor :: ksd_hypr_monitor
  mo_disabled :: bool
  mo_has_name :: bool
  mo_has_x :: bool
  mo_has_y :: bool
  mo_has_reserved :: bool

definition zero_monitor :: monitor_state where
  "zero_monitor = \<lparr>mo_monitor = \<lparr>hm_name = [], hm_x = 0, hm_y = 0, hm_reserved = [0, 0, 0, 0], hm_focused = False\<rparr>, mo_disabled = False,
     mo_has_name = False, mo_has_x = False, mo_has_y = False, mo_has_reserved = False\<rparr>"

definition monitor_value :: "bytes \<Rightarrow> monitor_state \<Rightarrow> bytes \<Rightarrow> (monitor_state \<times> bytes) option" where
  "monitor_value key m s =
     (if key = ascii ''name'' then do {
        (name, truncated, s) \<leftarrow> json_string KSD_HYPR_MONITOR_NAME_CAPACITY s;
        Some (m\<lparr>mo_monitor := (mo_monitor m)\<lparr>hm_name := name\<rparr>, mo_has_name := \<not> truncated \<and> name \<noteq> []\<rparr>, s) }
      else if key = ascii ''x'' then do { (v, s) \<leftarrow> int32_value s; Some (m\<lparr>mo_monitor := (mo_monitor m)\<lparr>hm_x := v\<rparr>, mo_has_x := True\<rparr>, s) }
      else if key = ascii ''y'' then do { (v, s) \<leftarrow> int32_value s; Some (m\<lparr>mo_monitor := (mo_monitor m)\<lparr>hm_y := v\<rparr>, mo_has_y := True\<rparr>, s) }
      else if key = ascii ''reserved'' then do { (vs, s) \<leftarrow> json_reserved s; Some (m\<lparr>mo_monitor := (mo_monitor m)\<lparr>hm_reserved := vs\<rparr>, mo_has_reserved := True\<rparr>, s) }
      else if key = ascii ''focused'' then do { (v, s) \<leftarrow> json_boolean s; Some (m\<lparr>mo_monitor := (mo_monitor m)\<lparr>hm_focused := v\<rparr>\<rparr>, s) }
      else if key = ascii ''disabled'' then do { (v, s) \<leftarrow> json_boolean s; Some (m\<lparr>mo_disabled := v\<rparr>, s) }
      else do { s \<leftarrow> skip_at 2 s; Some (m, s) })"

definition monitor_member :: "monitor_state \<Rightarrow> bytes \<Rightarrow> (monitor_state \<times> bytes) option" where
  "monitor_member m s = do { (key, s) \<leftarrow> json_key 32 s; monitor_value key m s }"

definition json_monitor :: "bytes \<Rightarrow> (monitor_state \<times> bytes) option" where
  "json_monitor s = json_group 123 125 (Some zero_monitor) monitor_member zero_monitor s"

definition monitor_usable :: "monitor_state \<Rightarrow> bool" where
  "monitor_usable m \<longleftrightarrow> mo_has_name m \<and> mo_has_x m \<and> mo_has_y m \<and> mo_has_reserved m \<and> \<not> mo_disabled m"

definition note_monitor :: "ksd_hypr_monitor list \<Rightarrow> monitor_state \<Rightarrow> ksd_hypr_monitor list" where
  "note_monitor items m = (if monitor_usable m \<and> length items < KSD_HYPR_MAX_MONITORS then items @ [mo_monitor m] else items)"

definition monitors_item :: "ksd_hypr_monitor list \<Rightarrow> bytes \<Rightarrow> (ksd_hypr_monitor list \<times> bytes) option" where
  "monitors_item items s = do { (m, s) \<leftarrow> json_monitor s; Some (note_monitor items m, s) }"

definition sizeof_hypr_monitor :: nat where
  "sizeof_hypr_monitor = 92"

definition ksd_wayland_hypr_parse_monitors :: "(nat \<Rightarrow> bool) \<Rightarrow> bytes option \<Rightarrow> ksd_hypr_monitor list option" where
  "ksd_wayland_hypr_parse_monitors alloc json =
     (case json of None \<Rightarrow> None
      | Some s \<Rightarrow> if alloc (KSD_HYPR_MAX_MONITORS * sizeof_hypr_monitor) then map_option fst (json_group 91 93 (Some []) monitors_item [] s) else None)"

end
