(* ===== verification/Hypr_Spec.thy ===== *)
theory Hypr_Spec
  imports Hypr_Json
begin

text \<open>
  What the reader of Hyprland's replies (src/src/wayland/wl_hypr.c) makes of a JSON document: a
  syntax of documents with all their white space, the text of a document, and the meaning of
  clients, monitors and keyboards on documents. The readers compute the meaning, on every document
  within their limits, whatever order, unknown members and nesting it has.
\<close>

section \<open>Documents\<close>

datatype 'v item = Item bytes (item_value: 'v) (item_after: bytes)
datatype 'v entry = Entry bytes (entry_name: bytes) bytes bytes (entry_value: 'v) (entry_after: bytes)
datatype json = Str bytes | Num bytes | Truth bool | Null | Arr bytes "json item list" | Obj bytes "json entry list"

text \<open>The text up to the white space behind an item.\<close>

primrec item_text :: "bytes item \<Rightarrow> bytes" where
  "item_text (Item a v b) = a @ v"

primrec entry_text :: "bytes entry \<Rightarrow> bytes" where
  "entry_text (Entry a key b c v d) = a @ 34 # key @ 34 # b @ 58 # c @ v"

fun commas :: "bytes \<Rightarrow> bytes list \<Rightarrow> bytes" where
  "commas w [] = w"
| "commas w [t] = t"
| "commas w (t # ts) = t @ 44 # commas w ts"

primrec render :: "json \<Rightarrow> bytes" where
  "render (Str s) = 34 # s @ [34]"
| "render (Num t) = t"
| "render (Truth b) = ascii (if b then ''true'' else ''false'')"
| "render Null = ascii ''null''"
| "render (Arr w xs) = 91 # commas w (map (\<lambda>t. item_text t @ item_after t) (map (map_item render) xs)) @ [93]"
| "render (Obj w xs) = 123 # commas w (map (\<lambda>t. entry_text t @ entry_after t) (map (map_entry render) xs)) @ [125]"

text \<open>The characters of a string with its escapes dropped, or \<open>None\<close> when an escape is cut off or a quote is bare.\<close>

function unescaped :: "bytes \<Rightarrow> bytes option" where
  "unescaped [] = Some []"
| "unescaped (b # s) =
     (if b = 34 then None
      else if b = 92 then
        (case s of [] \<Rightarrow> None
         | v # r \<Rightarrow> if v = 117 then if length r < 4 then None else map_option (Cons 63) (unescaped (drop 4 r))
                   else map_option (Cons (plain_escape v)) (unescaped r))
      else map_option (Cons b) (unescaped s))"
  by pat_completeness auto
termination
  by (relation "measure length") auto

definition spaces :: "bytes \<Rightarrow> bool" where
  "spaces w \<longleftrightarrow> list_all isspace w"

definition number_ok :: "bytes \<Rightarrow> bool" where
  "number_ok t \<longleftrightarrow> t \<noteq> [] \<and> list_all number_char t \<and> length t \<le> 31 \<and> strtoll t \<noteq> None"

primrec item_ok :: "bool item \<Rightarrow> bool" where
  "item_ok (Item a p b) \<longleftrightarrow> spaces a \<and> p \<and> spaces b"

primrec entry_ok :: "bool entry \<Rightarrow> bool" where
  "entry_ok (Entry a key b c p d) \<longleftrightarrow> spaces a \<and> unescaped key \<noteq> None \<and> spaces b \<and> spaces c \<and> p \<and> spaces d"

primrec json_ok :: "json \<Rightarrow> bool" where
  "json_ok (Str s) \<longleftrightarrow> unescaped s \<noteq> None"
| "json_ok (Num t) \<longleftrightarrow> number_ok t"
| "json_ok (Truth b) \<longleftrightarrow> True"
| "json_ok Null \<longleftrightarrow> True"
| "json_ok (Arr w xs) \<longleftrightarrow> spaces w \<and> list_all item_ok (map (map_item json_ok) xs)"
| "json_ok (Obj w xs) \<longleftrightarrow> spaces w \<and> list_all entry_ok (map (map_entry json_ok) xs)"

primrec nesting :: "json \<Rightarrow> nat" where
  "nesting (Str s) = 1"
| "nesting (Num t) = 1"
| "nesting (Truth b) = 1"
| "nesting Null = 1"
| "nesting (Arr w xs) = Suc (foldr max (map item_value (map (map_item nesting) xs)) 0)"
| "nesting (Obj w xs) = Suc (foldr max (map entry_value (map (map_entry nesting) xs)) 0)"

lemma foldr_max_le: "foldr max ns 0 \<le> (m :: nat) \<longleftrightarrow> list_all (\<lambda>n. n \<le> m) ns"
  by (induction ns) auto

section \<open>Characters\<close>

text \<open>What ends a number: anything that is not part of one.\<close>

definition ends :: "bytes \<Rightarrow> bool" where
  "ends rest \<longleftrightarrow> rest = [] \<or> \<not> number_char (hd rest)"

lemma number_char_other:
  assumes "number_char b"
  shows "\<not> isspace b" "b \<noteq> 34" "b \<noteq> 44" "b \<noteq> 58" "b \<noteq> 91" "b \<noteq> 93" "b \<noteq> 116" "b \<noteq> 102" "b \<noteq> 110" "b \<noteq> 123" "b \<noteq> 125"
  using assms by (auto simp: number_char_def isdigit_def isspace_def word_le_nat_alt)

lemma space_number: "isspace b \<Longrightarrow> \<not> number_char b"
  using number_char_other(1) by blast

lemma marks [simp]:
  "\<not> isspace 34" "\<not> isspace 44" "\<not> isspace 58" "\<not> isspace 91" "\<not> isspace 93" "\<not> isspace 116" "\<not> isspace 102" "\<not> isspace 110" "\<not> isspace 123" "\<not> isspace 125"
  "\<not> number_char 34" "\<not> number_char 44" "\<not> number_char 58" "\<not> number_char 91" "\<not> number_char 93" "\<not> number_char 116" "\<not> number_char 102" "\<not> number_char 110"
  "\<not> number_char 123" "\<not> number_char 125"
  by (simp_all add: isspace_def number_char_def isdigit_def)

lemma spaces_simps [simp]: "spaces []" "spaces (b # w) \<longleftrightarrow> isspace b \<and> spaces w"
  by (simp_all add: spaces_def)

lemma ends_simps [simp]: "ends []" "ends (b # r) \<longleftrightarrow> \<not> number_char b"
  by (simp_all add: ends_def)

lemma ends_space: "spaces w \<Longrightarrow> ends r \<Longrightarrow> ends (w @ r)"
  by (cases w) (auto dest: space_number)

lemma json_space_skips [simp]: "spaces w \<Longrightarrow> json_space (w @ s) = json_space s"
  by (induction w) (simp_all add: json_space_def)

lemma json_space_all [simp]: "spaces w \<Longrightarrow> json_space w = []"
  using json_space_skips [of w "[]"] by (simp add: json_space_def)

lemma json_space_stop [simp]: "\<not> isspace b \<Longrightarrow> json_space (b # r) = b # r"
  by (simp add: json_space_def)

lemma json_space_twice [simp]: "json_space (json_space s) = json_space s"
  by (induction s) (simp_all add: json_space_def)

lemma json_take_space [simp]: "json_take c (json_space s) = json_take c s"
  by (simp add: json_take_def)

lemma json_take_skips [simp]: "spaces w \<Longrightarrow> json_take c (w @ s) = json_take c s"
  by (simp add: json_take_def)

lemma json_take_stop [simp]: "\<not> isspace b \<Longrightarrow> json_take c (b # r) = (if b = c then (True, r) else (False, b # r))"
  by (simp add: json_take_def)

lemma json_expect_space [simp]: "json_expect c (json_space s) = json_expect c s"
  by (simp add: json_expect_def)

lemma json_expect_skips [simp]: "spaces w \<Longrightarrow> json_expect c (w @ s) = json_expect c s"
  by (simp add: json_expect_def)

lemma json_expect_stop [simp]: "\<not> isspace b \<Longrightarrow> json_expect c (b # r) = (if b = c then Some r else None)"
  by (simp add: json_expect_def)

lemma json_peek_skips [simp]: "spaces w \<Longrightarrow> json_peek c (w @ s) = json_peek c s"
  by (simp add: json_peek_def)

lemma json_peek_stop [simp]: "\<not> isspace b \<Longrightarrow> json_peek c (b # r) \<longleftrightarrow> b = c"
  by (simp add: json_peek_def)

section \<open>Scalars\<close>

text \<open>The first character of a value tells what it is.\<close>

primrec opens_with :: "json \<Rightarrow> u8 \<Rightarrow> bool" where
  "opens_with (Str s) b \<longleftrightarrow> b = 34"
| "opens_with (Num t) b \<longleftrightarrow> number_char b"
| "opens_with (Truth v) b \<longleftrightarrow> b = (if v then 116 else 102)"
| "opens_with Null b \<longleftrightarrow> b = 110"
| "opens_with (Arr w xs) b \<longleftrightarrow> b = 91"
| "opens_with (Obj w xs) b \<longleftrightarrow> b = 123"

lemma render_starts:
  assumes "json_ok v"
  obtains b r where "render v = b # r" "opens_with v b" "\<not> isspace b"
proof (cases v)
  case (Num t)
  then obtain b r where "t = b # r" "number_char b" using assms by (cases t) (auto simp: number_ok_def)
  then show thesis using Num number_char_other(1) by (intro that [of b r]) auto
next
  case (Truth b)
  then show thesis by (cases b) (auto intro: that simp: ascii_def)
qed (use that in \<open>auto simp: ascii_def\<close>)

lemma string_loop_unescaped:
  "unescaped s = Some vs \<Longrightarrow> string_loop capacity kept (s @ 34 # rest) = Some (fold (keep_value capacity) vs kept, rest)"
proof (induction s arbitrary: vs kept rule: unescaped.induct)
  case (2 b s)
  show ?case
  proof (cases "b = 92")
    case True
    then obtain v r where s: "s = v # r" using "2.prems" by (cases s) auto
    show ?thesis
    proof (cases "v = 117")
      case u: True
      then obtain us where "\<not> length r < 4" "unescaped (drop 4 r) = Some us" "vs = 63 # us" using "2.prems" True s by (auto split: if_splits)
      then show ?thesis using "2.IH"(1) [OF _ True s u] True s u by simp
    next
      case False
      then obtain us where "unescaped r = Some us" "vs = plain_escape v # us" using "2.prems" True s by auto
      then show ?thesis using "2.IH"(2) [OF _ True s False] True s False by simp
    qed
  next
    case False
    then obtain us where "b \<noteq> 34" "unescaped s = Some us" "vs = b # us" using "2.prems" by (auto split: if_splits)
    then show ?thesis using "2.IH"(3) [OF _ False] False by simp
  qed
qed simp

lemma kept_all: "0 < capacity \<Longrightarrow> length out < capacity \<Longrightarrow> fold (keep_value capacity) vs (out, t)
    = (out @ take (capacity - 1 - length out) vs, t \<or> capacity \<le> length out + length vs)"
proof (induction vs arbitrary: out t)
  case (Cons v vs)
  show ?case
  proof (cases "length out + 1 < capacity")
    case True
    define k where "k = capacity - 1 - length (out @ [v])"
    have k: "capacity - 1 - length out = Suc k" using True by (simp add: k_def)
    show ?thesis using True Cons.IH [of "out @ [v]" t, folded k_def] Cons.prems unfolding k by (simp add: keep_value_def)
  next
    case False
    then have "capacity - 1 - length out = 0" by simp
    then show ?thesis using False Cons by (simp add: keep_value_def)
  qed
qed simp

text \<open>What a buffer of that capacity holds of a string, and whether it was too small.\<close>

definition string_value :: "nat \<Rightarrow> bytes \<Rightarrow> bytes \<times> bool" where
  "string_value capacity s = (cstring (take (capacity - 1) (the (unescaped s))), capacity \<le> length (the (unescaped s)))"

definition of_string :: "nat \<Rightarrow> json \<Rightarrow> (bytes \<times> bool) option" where
  "of_string capacity v = (case v of Str s \<Rightarrow> Some (string_value capacity s) | _ \<Rightarrow> None)"

definition of_number :: "json \<Rightarrow> int option" where
  "of_number v = (case v of Num t \<Rightarrow> map_option fst (strtoll t) | _ \<Rightarrow> None)"

definition of_truth :: "json \<Rightarrow> bool option" where
  "of_truth v = (case v of Truth b \<Rightarrow> Some b | _ \<Rightarrow> None)"

lemma string_read:
  assumes "unescaped s \<noteq> None" "0 < capacity" "spaces w"
  shows "json_string capacity (w @ 34 # s @ 34 # rest) = Some (fst (string_value capacity s), snd (string_value capacity s), rest)"
  using assms kept_all [of capacity "[]"] by (auto simp: json_string_def string_loop_unescaped string_value_def)

lemma string_skipped:
  assumes "unescaped s \<noteq> None" "spaces w"
  shows "\<exists>out t. json_string capacity (w @ 34 # s @ 34 # rest) = Some (out, t, rest)"
proof -
  obtain vs where vs: "unescaped s = Some vs" using assms(1) by blast
  obtain out t where "fold (keep_value capacity) vs ([], False) = (out, t)" by fastforce
  with vs assms(2) show ?thesis by (simp add: json_string_def string_loop_unescaped)
qed

lemma read_string:
  assumes "json_ok v" "0 < capacity" "spaces w"
  shows "json_string capacity (w @ render v @ rest) = map_option (\<lambda>(out, t). (out, t, rest)) (of_string capacity v)"
proof (cases v)
  case (Str s)
  then show ?thesis using string_read [of s capacity w rest] assms by (simp add: of_string_def split_beta)
next
  case (Num t)
  obtain b r where "render v = b # r" "opens_with v b" "\<not> isspace b" using render_starts [OF assms(1)] .
  then show ?thesis using assms(3) Num number_char_other(2) [of b] by (auto simp: json_string_def of_string_def)
qed (use assms(3) in \<open>auto simp: json_string_def of_string_def ascii_def\<close>)

lemma takeWhile_number: "list_all number_char t \<Longrightarrow> ends rest \<Longrightarrow> takeWhile number_char (t @ rest) = t"
  by (induction t) (auto simp: ends_def takeWhile_eq_Nil_iff)

lemma read_number:
  assumes "json_ok v" "spaces w" "ends rest"
  shows "json_integer (w @ render v @ rest) = map_option (\<lambda>n. (n, rest)) (of_number v)"
proof -
  obtain b r where b: "render v = b # r" "opens_with v b" "\<not> isspace b" using render_starts [OF assms(1)] .
  show ?thesis
  proof (cases v)
    case (Num t)
    then have t: "takeWhile number_char (t @ rest) = t" "length t \<le> 31" "t \<noteq> []" using assms takeWhile_number by (auto simp: number_ok_def)
    have "json_space (w @ t @ rest) = t @ rest" using b Num assms(2) by simp
    then show ?thesis using Num t by (auto simp: json_integer_def of_number_def Let_def split: option.splits)
  qed (use b assms(2) in \<open>auto simp: json_integer_def of_number_def Let_def\<close>)
qed

lemma read_truth:
  assumes "json_ok v" "spaces w"
  shows "json_boolean (w @ render v @ rest) = map_option (\<lambda>b. (b, rest)) (of_truth v)"
proof -
  obtain b r where b: "render v = b # r" "opens_with v b" "\<not> isspace b" using render_starts [OF assms(1)] .
  show ?thesis
  proof (cases v)
    case (Num t)
    then show ?thesis using b assms(2) number_char_other(7,8) [of b] by (auto simp: json_boolean_def json_literal_def of_truth_def ascii_def Let_def)
  qed (use b assms(2) in \<open>auto simp: json_boolean_def json_literal_def of_truth_def ascii_def Let_def\<close>)
qed

section \<open>Loops\<close>

fun fold_option :: "('x \<Rightarrow> 't \<Rightarrow> 'x option) \<Rightarrow> 'x \<Rightarrow> 't list \<Rightarrow> 'x option" where
  "fold_option F x [] = Some x"
| "fold_option F x (t # ts) = (case F x t of None \<Rightarrow> None | Some x' \<Rightarrow> fold_option F x' ts)"

lemma length_commas: "length ts \<le> Suc (count_list (commas w ts) 44)"
  by (induction w ts rule: commas.induct) auto

lemma count_json_space: "count_list (json_space s) 44 = count_list s 44"
  by (induction s) (auto simp: json_space_def)

lemma rounds_enough: "length ts \<le> Suc (length (json_space (commas w ts @ c # rest)))"
proof -
  have "length ts \<le> Suc (count_list (json_space (commas w ts @ c # rest)) 44)"
    using length_commas [of ts w] by (simp add: count_json_space)
  then show ?thesis using count_le_length [of "json_space (commas w ts @ c # rest)" 44] by linarith
qed

lemma comma_rounds_members:
  assumes "\<And>t x rest. t \<in> set ts \<Longrightarrow> ends rest \<Longrightarrow> step x (pre t @ rest) = map_option (\<lambda>x. (x, rest)) (F x t)"
    and "\<And>t. t \<in> set ts \<Longrightarrow> spaces (post t)" "\<not> isspace c" "c \<noteq> 44" "\<not> number_char c"
  shows "ts \<noteq> [] \<Longrightarrow> length ts \<le> n \<Longrightarrow> comma_rounds n step x (commas w (map (\<lambda>t. pre t @ post t) ts) @ c # rest)
      = map_option (\<lambda>x. (x, c # rest)) (fold_option F x ts)"
  using assms(1,2)
proof (induction ts arbitrary: n x)
  case (Cons t ts)
  obtain m where n: "n = Suc m" using Cons.prems(2) by (cases n) auto
  have e: "ends (post t @ c # rest)" "ends (post t @ 44 # s)" for s using Cons.prems(4) assms(5) by (auto intro: ends_space)
  show ?case
  proof (cases ts)
    case Nil
    then show ?thesis using n e Cons.prems assms(3,4) by (auto split: option.split)
  next
    case (Cons u us)
    have spelt: "commas w (map (\<lambda>t. pre t @ post t) (t # ts)) @ c # rest = pre t @ (post t @ 44 # commas w (map (\<lambda>t. pre t @ post t) ts) @ c # rest)"
      using Cons by simp
    have IH: "comma_rounds m step x (commas w (map (\<lambda>t. pre t @ post t) ts) @ c # rest) = map_option (\<lambda>x. (x, c # rest)) (fold_option F x ts)" for x
      using Cons.IH [of m x] Cons.prems Cons n by simp
    show ?thesis unfolding spelt n using Cons.prems e IH by (auto split: option.split)
  qed
qed simp

text \<open>A body that starts by skipping white space.\<close>

definition skipping :: "('x \<Rightarrow> bytes \<Rightarrow> ('x \<times> bytes) option) \<Rightarrow> bool" where
  "skipping step \<longleftrightarrow> (\<forall>x s. step x (json_space s) = step x s)"

lemma comma_rounds_space: "skipping step \<Longrightarrow> comma_rounds n step x (json_space s) = comma_rounds n step x s"
  by (cases n) (simp_all add: skipping_def)

text \<open>The members begin with something that is not the closing bracket.\<close>

definition begins :: "u8 \<Rightarrow> bytes \<Rightarrow> bool" where
  "begins c s \<longleftrightarrow> (\<exists>b r. json_space s = b # r \<and> b \<noteq> c)"

lemma begins_append: "begins c s \<Longrightarrow> begins c (s @ r)"
  unfolding begins_def json_space_def by (induction s) (auto split: if_splits)

lemma begins_take: "begins c s \<Longrightarrow> json_take c s = (False, json_space s)"
  by (auto simp: begins_def json_take_def)

lemma begins_commas: "ts \<noteq> [] \<Longrightarrow> begins c (pre (hd ts)) \<Longrightarrow> begins c (commas w (map (\<lambda>t. pre t @ post t) ts) @ rest)"
  by (cases ts; cases "tl ts") (auto intro: begins_append)

lemma json_group_members:
  assumes "skipping step" "\<And>t x rest. t \<in> set ts \<Longrightarrow> ends rest \<Longrightarrow> step x (pre t @ rest) = map_option (\<lambda>x. (x, rest)) (F x t)"
    and "\<And>t. t \<in> set ts \<Longrightarrow> spaces (post t)" "\<And>t. t \<in> set ts \<Longrightarrow> begins right (pre t)"
    and "spaces v" "spaces w" "\<not> isspace left" "\<not> isspace right" "right \<noteq> 44" "\<not> number_char right"
  shows "json_group left right none step x (v @ left # commas w (map (\<lambda>t. pre t @ post t) ts) @ right # rest)
     = map_option (\<lambda>x. (x, rest)) (if ts = [] then none else fold_option F x ts)"
proof (cases "ts = []")
  case True
  then show ?thesis using assms by (simp add: json_group_def)
next
  case False
  let ?s = "commas w (map (\<lambda>t. pre t @ post t) ts) @ right # rest"
  have "begins right ?s" using False assms(4) [of "hd ts"] by (intro begins_commas) auto
  then have take: "json_take right ?s = (False, json_space ?s)" by (rule begins_take)
  have enough: "length ts \<le> Suc (length (json_space ?s))" using rounds_enough [of "map (\<lambda>t. pre t @ post t) ts"] by simp
  have "do_while_comma step x (json_space ?s) = map_option (\<lambda>x. (x, right # rest)) (fold_option F x ts)"
    unfolding do_while_comma_def comma_rounds_space [OF assms(1)]
    by (rule comma_rounds_members [OF assms(2,3) assms(8,9,10) False enough]) simp_all
  then show ?thesis using False assms(5,7,8) take by (cases "fold_option F x ts") (simp_all add: json_group_def)
qed

lemma json_group_other:
  assumes "json_ok v" "spaces w" "\<And>b. opens_with v b \<Longrightarrow> b \<noteq> left"
  shows "json_group left right none step x (w @ render v @ rest) = None"
proof -
  obtain b r where "render v = b # r" "opens_with v b" "\<not> isspace b" using render_starts [OF assms(1)] .
  then show ?thesis using assms(2,3) by (auto simp: json_group_def)
qed

lemma not_group:
  assumes "json_ok v" "spaces w"
  shows "(\<forall>u es. v \<noteq> Obj u es) \<Longrightarrow> json_group 123 right none step x (w @ render v @ rest) = None"
    "(\<forall>u xs. v \<noteq> Arr u xs) \<Longrightarrow> json_group 91 right none step x (w @ render v @ rest) = None"
  using number_char_other(5,10) by (intro json_group_other [OF assms]; cases v; auto split: if_splits)+

section \<open>Skipping a value\<close>

lemma json_string_space: "json_string capacity (json_space s) = json_string capacity s"
  by (simp add: json_string_def)

lemma json_key_space: "json_key capacity (json_space s) = json_key capacity s"
  by (simp add: json_key_def json_string_space)

lemma json_skip_space: "json_skip n (json_space s) = json_skip n s"
  by (cases n) simp_all

lemma skipping_skips: "skipping (skip_item (json_skip n))" "skipping (skip_member (json_skip n))"
  by (simp_all add: skipping_def skip_item_def skip_member_def json_skip_space json_key_space)

lemma ok_values:
  "json_ok (Arr w xs) \<Longrightarrow> x \<in> set xs \<Longrightarrow> json_ok (item_value x)" "json_ok (Obj w es) \<Longrightarrow> e \<in> set es \<Longrightarrow> json_ok (entry_value e)"
  by (cases x; auto simp: list_all_iff) (cases e; auto simp: list_all_iff)

lemma nested_values:
  "nesting (Arr w xs) \<le> Suc n \<Longrightarrow> x \<in> set xs \<Longrightarrow> nesting (item_value x) \<le> n" "nesting (Obj w es) \<le> Suc n \<Longrightarrow> e \<in> set es \<Longrightarrow> nesting (entry_value e) \<le> n"
  by (cases x; auto simp: list_all_iff foldr_max_le) (cases e; auto simp: list_all_iff foldr_max_le)

text \<open>The item or member as it stands in the text.\<close>

definition item_pre :: "json item \<Rightarrow> bytes" where
  "item_pre x = item_text (map_item render x)"

definition entry_pre :: "json entry \<Rightarrow> bytes" where
  "entry_pre e = entry_text (map_entry render e)"

lemma render_arr: "render (Arr w xs) = 91 # commas w (map (\<lambda>t. item_pre t @ item_after t) xs) @ [93]"
proof -
  have "item_after (map_item render t) = item_after t" for t by (cases t) simp
  then show ?thesis by (simp add: item_pre_def comp_def)
qed

lemma render_obj: "render (Obj w xs) = 123 # commas w (map (\<lambda>t. entry_pre t @ entry_after t) xs) @ [125]"
proof -
  have "entry_after (map_entry render t) = entry_after t" for t by (cases t) simp
  then show ?thesis by (simp add: entry_pre_def comp_def)
qed

declare render.simps(5,6) [simp del]

lemma item_parts:
  assumes "json_ok (Arr w xs)" "x \<in> set xs"
  obtains a where "item_pre x = a @ render (item_value x)" "spaces a" "spaces (item_after x)" "json_ok (item_value x)"
  using assms by (cases x) (auto simp: item_pre_def list_all_iff)

lemma entry_parts:
  assumes "json_ok (Obj w es)" "e \<in> set es"
  obtains a b c where "entry_pre e = a @ 34 # entry_name e @ 34 # b @ 58 # c @ render (entry_value e)" "spaces a" "spaces b" "spaces c"
    "spaces (entry_after e)" "json_ok (entry_value e)" "unescaped (entry_name e) \<noteq> None"
  using assms by (cases e) (auto simp: entry_pre_def list_all_iff)

lemma after_spaces:
  "json_ok (Arr w xs) \<Longrightarrow> x \<in> set xs \<Longrightarrow> spaces (item_after x)" "json_ok (Obj w es) \<Longrightarrow> e \<in> set es \<Longrightarrow> spaces (entry_after e)"
  by (cases x; auto simp: list_all_iff) (cases e; auto simp: list_all_iff)

lemma item_begins: "json_ok (Arr w xs) \<Longrightarrow> x \<in> set xs \<Longrightarrow> begins 93 (item_pre x)"
proof -
  assume ok: "json_ok (Arr w xs)" "x \<in> set xs"
  obtain a where a: "item_pre x = a @ render (item_value x)" "spaces a" "json_ok (item_value x)" using item_parts [OF ok] by blast
  obtain b r where b: "render (item_value x) = b # r" "opens_with (item_value x) b" "\<not> isspace b" using render_starts [OF a(3)] .
  then have "b \<noteq> 93" using number_char_other(6) by (cases "item_value x") (auto split: if_splits)
  with a b show ?thesis by (simp add: begins_def)
qed

lemma entry_begins: "json_ok (Obj w es) \<Longrightarrow> e \<in> set es \<Longrightarrow> begins 125 (entry_pre e)"
proof -
  assume ok: "json_ok (Obj w es)" "e \<in> set es"
  obtain a b c where "entry_pre e = a @ 34 # entry_name e @ 34 # b @ 58 # c @ render (entry_value e)" "spaces a" using entry_parts [OF ok] by blast
  then show ?thesis by (simp add: begins_def)
qed

lemma key_skipped:
  assumes "unescaped key \<noteq> None" "spaces a" "spaces b"
  shows "\<exists>out. json_key capacity (a @ 34 # key @ 34 # b @ 58 # rest) = Some (out, rest)"
  using string_skipped [OF assms(1,2), of capacity "b @ 58 # rest"] assms(3) by (auto simp: json_key_def)

lemma fold_option_unit: "(\<And>t. t \<in> set ts \<Longrightarrow> F () t = Some ()) \<Longrightarrow> fold_option F () ts = Some ()"
  by (induction ts) auto

lemma skip_array:
  assumes ok: "json_ok (Arr u xs)" and "spaces w"
    and each: "\<And>x w r. x \<in> set xs \<Longrightarrow> json_ok (item_value x) \<Longrightarrow> spaces w \<Longrightarrow> ends r \<Longrightarrow> json_skip m (w @ render (item_value x) @ r) = Some r"
  shows "json_skip (Suc m) (w @ render (Arr u xs) @ rest) = Some rest"
proof -
  have step: "skip_item (json_skip m) () (item_pre x @ r) = map_option (\<lambda>y. (y, r)) (Some ())" if x: "x \<in> set xs" "ends r" for x r
  proof -
    obtain a where a: "item_pre x = a @ render (item_value x)" "spaces a" "json_ok (item_value x)" using item_parts [OF ok x(1)] by blast
    then show ?thesis using each [OF x(1) a(3,2) x(2)] by (simp add: skip_item_def)
  qed
  have "json_group 91 93 (Some ()) (skip_item (json_skip m)) () ([] @ 91 # commas u (map (\<lambda>t. item_pre t @ item_after t) xs) @ 93 # rest)
    = map_option (\<lambda>x. (x, rest)) (if xs = [] then Some () else fold_option (\<lambda>_ _. Some ()) () xs)"
    using ok by (intro json_group_members skipping_skips(1) item_begins [of u xs] after_spaces(1) [of u xs]) (auto simp: step)
  then show ?thesis using assms(2) by (simp add: render_arr fold_option_unit)
qed

lemma skip_object:
  assumes ok: "json_ok (Obj u es)" and "spaces w"
    and each: "\<And>e w r. e \<in> set es \<Longrightarrow> json_ok (entry_value e) \<Longrightarrow> spaces w \<Longrightarrow> ends r \<Longrightarrow> json_skip m (w @ render (entry_value e) @ r) = Some r"
  shows "json_skip (Suc m) (w @ render (Obj u es) @ rest) = Some rest"
proof -
  have step: "skip_member (json_skip m) () (entry_pre e @ r) = map_option (\<lambda>y. (y, r)) (Some ())" if e: "e \<in> set es" "ends r" for e r
  proof -
    obtain a b c where p: "entry_pre e = a @ 34 # entry_name e @ 34 # b @ 58 # c @ render (entry_value e)" "spaces a" "spaces b" "spaces c"
      "spaces (entry_after e)" "json_ok (entry_value e)" "unescaped (entry_name e) \<noteq> None" using entry_parts [OF ok e(1)] .
    obtain out where "json_key 0 (a @ 34 # entry_name e @ 34 # b @ 58 # c @ render (entry_value e) @ r) = Some (out, c @ render (entry_value e) @ r)"
      using key_skipped [OF p(7,2,3), of 0] by blast
    then show ?thesis using each [OF e(1) p(6,4) e(2)] p(1) by (simp add: skip_member_def)
  qed
  have "json_group 123 125 (Some ()) (skip_member (json_skip m)) () ([] @ 123 # commas u (map (\<lambda>t. entry_pre t @ entry_after t) es) @ 125 # rest)
    = map_option (\<lambda>x. (x, rest)) (if es = [] then Some () else fold_option (\<lambda>_ _. Some ()) () es)"
    using ok by (intro json_group_members skipping_skips(2) entry_begins [of u es] after_spaces(2) [of u es]) (auto simp: step)
  then show ?thesis using assms(2) by (simp add: render_obj fold_option_unit)
qed

text \<open>Every well-formed value within the depth is stepped over exactly.\<close>

lemma skip_value:
  "json_ok v \<Longrightarrow> nesting v \<le> n \<Longrightarrow> spaces w \<Longrightarrow> ends rest \<Longrightarrow> json_skip n (w @ render v @ rest) = Some rest"
proof (induction v arbitrary: n w rest)
  case (Arr u xs)
  obtain m where n: "n = Suc m" using Arr.prems(2) by (cases n) auto
  have "item_value x \<in> set_item x" for x :: "json item" by (cases x) simp
  then show ?case unfolding n using Arr.IH nested_values(1) [OF Arr.prems(2) [unfolded n]] Arr.prems(1,3) by (intro skip_array) auto
next
  case (Obj u es)
  obtain m where n: "n = Suc m" using Obj.prems(2) by (cases n) auto
  have "entry_value e \<in> set_entry e" for e :: "json entry" by (cases e) simp
  then show ?case unfolding n using Obj.IH nested_values(2) [OF Obj.prems(2) [unfolded n]] Obj.prems(1,3) by (intro skip_object) auto
next
  case (Num t)
  obtain m where n: "n = Suc m" using Num.prems(2) by (cases n) auto
  obtain b r where b: "t = b # r" "number_char b" "\<not> isspace b" using render_starts [OF Num.prems(1)] by auto
  have "map_option snd (json_integer (t @ rest)) = Some rest"
    using read_number [OF Num.prems(1), of "[]" rest] Num.prems(1,4) by (auto simp: of_number_def number_ok_def)
  then show ?case using n b Num.prems(3) number_char_other [OF b(2)] by simp
next
  case (Str s)
  obtain m where n: "n = Suc m" using Str.prems(2) by (cases n) auto
  show ?case using string_skipped [of s "[]" 0 rest] Str.prems n by auto
next
  case (Truth b)
  obtain m where n: "n = Suc m" using Truth.prems(2) by (cases n) auto
  show ?case using Truth.prems n by (cases b) (simp_all add: json_word_def json_literal_def ascii_def)
next
  case Null
  obtain m where n: "n = Suc m" using Null.prems(2) by (cases n) auto
  show ?case using Null.prems n by (simp add: json_word_def json_literal_def ascii_def)
qed

section \<open>Objects\<close>

text \<open>The meaning of an object: its members in order, each under the part of its name that the buffer holds.\<close>

definition entry_key :: "nat \<Rightarrow> json entry \<Rightarrow> bytes" where
  "entry_key capacity e = fst (string_value capacity (entry_name e))"

definition object_value :: "nat \<Rightarrow> (bytes \<Rightarrow> 'x \<Rightarrow> json \<Rightarrow> 'x option) \<Rightarrow> 'x option \<Rightarrow> 'x \<Rightarrow> json \<Rightarrow> 'x option" where
  "object_value capacity effect none x v =
     (case v of Obj w es \<Rightarrow> if es = [] then none else fold_option (\<lambda>x e. effect (entry_key capacity e) x (entry_value e)) x es | _ \<Rightarrow> None)"

text \<open>A reader of member values computes their effect, on documents of some nesting.\<close>

definition reads_as :: "nat \<Rightarrow> ('x \<Rightarrow> bytes \<Rightarrow> ('x \<times> bytes) option) \<Rightarrow> ('x \<Rightarrow> json \<Rightarrow> 'x option) \<Rightarrow> bool" where
  "reads_as n reader effect \<longleftrightarrow> (\<forall>x v w rest. json_ok v \<longrightarrow> nesting v \<le> n \<longrightarrow> spaces w \<longrightarrow> ends rest
     \<longrightarrow> reader x (w @ render v @ rest) = map_option (\<lambda>x. (x, rest)) (effect x v))"

lemma reads_asD: "reads_as n reader effect \<Longrightarrow> json_ok v \<Longrightarrow> nesting v \<le> n \<Longrightarrow> spaces w \<Longrightarrow> ends rest
    \<Longrightarrow> reader x (w @ render v @ rest) = map_option (\<lambda>x. (x, rest)) (effect x v)"
  by (simp add: reads_as_def)

lemma key_read:
  assumes "unescaped (entry_name e) \<noteq> None" "spaces a" "spaces b" "0 < capacity"
  shows "json_key capacity (a @ 34 # entry_name e @ 34 # b @ 58 # rest) = Some (entry_key capacity e, rest)"
  using string_read [OF assms(1,4,2), of "b @ 58 # rest"] assms(3) by (simp add: json_key_def entry_key_def)

lemma object_read:
  assumes "\<And>key. reads_as n (value_reader key) (effect key)" "0 < capacity"
    and member: "member = (\<lambda>x s. do { (key, s) \<leftarrow> json_key capacity s; value_reader key x s })"
  shows "reads_as (Suc n) (json_group 123 125 none member) (object_value capacity effect none)"
  unfolding reads_as_def
proof (intro allI impI)
  fix x v w rest
  assume v: "json_ok v" "nesting v \<le> Suc n" "spaces w" "ends rest"
  show "json_group 123 125 none member x (w @ render v @ rest) = map_option (\<lambda>x. (x, rest)) (object_value capacity effect none x v)"
  proof (cases "\<exists>u es. v = Obj u es")
    case True
    then obtain u es where Obj: "v = Obj u es" by blast
    have step: "member x (entry_pre e @ r) = map_option (\<lambda>x. (x, r)) (effect (entry_key capacity e) x (entry_value e))" if e: "e \<in> set es" "ends r" for e x r
    proof -
      obtain a b c where p: "entry_pre e = a @ 34 # entry_name e @ 34 # b @ 58 # c @ render (entry_value e)" "spaces a" "spaces b" "spaces c"
        "spaces (entry_after e)" "json_ok (entry_value e)" "unescaped (entry_name e) \<noteq> None" using entry_parts [OF v(1) [unfolded Obj] e(1)] .
      show ?thesis using key_read [OF p(7,2,3) assms(2)] reads_asD [OF assms(1) p(6) nested_values(2) [OF v(2) [unfolded Obj] e(1)] p(4) e(2)] p(1)
        by (simp add: member)
    qed
    have "skipping member" by (simp add: skipping_def member json_key_space)
    then have "json_group 123 125 none member x (w @ 123 # commas u (map (\<lambda>t. entry_pre t @ entry_after t) es) @ 125 # rest)
      = map_option (\<lambda>x. (x, rest)) (if es = [] then none else fold_option (\<lambda>x e. effect (entry_key capacity e) x (entry_value e)) x es)"
      using v(1,3) Obj by (intro json_group_members entry_begins [of u es] after_spaces(2) [of u es]) (auto simp: step)
    then show ?thesis by (simp add: Obj render_obj object_value_def)
  next
    case False
    then have "object_value capacity effect none x v = None" by (cases v) (auto simp: object_value_def)
    then show ?thesis using not_group(1) [OF v(1,3)] False by simp
  qed
qed

text \<open>The meaning of an array, for readers of its items.\<close>

definition array_value :: "('x \<Rightarrow> json \<Rightarrow> 'x option) \<Rightarrow> 'x option \<Rightarrow> 'x \<Rightarrow> json \<Rightarrow> 'x option" where
  "array_value effect none x v = (case v of Arr w xs \<Rightarrow> if xs = [] then none else fold_option effect x (map item_value xs) | _ \<Rightarrow> None)"

lemma fold_option_map: "fold_option F x (map g ts) = fold_option (\<lambda>x t. F x (g t)) x ts"
  by (induction ts arbitrary: x) (auto split: option.split)

lemma array_read:
  assumes "reads_as n reader effect" "skipping reader"
  shows "reads_as (Suc n) (json_group 91 93 none reader) (array_value effect none)"
  unfolding reads_as_def
proof (intro allI impI)
  fix x v w rest
  assume v: "json_ok v" "nesting v \<le> Suc n" "spaces w" "ends rest"
  show "json_group 91 93 none reader x (w @ render v @ rest) = map_option (\<lambda>x. (x, rest)) (array_value effect none x v)"
  proof (cases "\<exists>u xs. v = Arr u xs")
    case True
    then obtain u xs where Arr: "v = Arr u xs" by blast
    have step: "reader x (item_pre t @ r) = map_option (\<lambda>x. (x, r)) (effect x (item_value t))" if t: "t \<in> set xs" "ends r" for t x r
    proof -
      obtain a where "item_pre t = a @ render (item_value t)" "spaces a" "json_ok (item_value t)" using item_parts [OF v(1) [unfolded Arr] t(1)] by blast
      then show ?thesis using reads_asD [OF assms(1) _ nested_values(1) [OF v(2) [unfolded Arr] t(1)] _ t(2)] by simp
    qed
    have "json_group 91 93 none reader x (w @ 91 # commas u (map (\<lambda>t. item_pre t @ item_after t) xs) @ 93 # rest)
      = map_option (\<lambda>x. (x, rest)) (if xs = [] then none else fold_option (\<lambda>x t. effect x (item_value t)) x xs)"
      using v(1,3) Arr assms(2) by (intro json_group_members item_begins [of u xs] after_spaces(1) [of u xs]) (auto simp: step)
    then show ?thesis by (simp add: Arr render_arr array_value_def fold_option_map)
  next
    case False
    then have "array_value effect none x v = None" by (cases v) (auto simp: array_value_def)
    then show ?thesis using not_group(2) [OF v(1,3)] False by simp
  qed
qed

end
