(* ===== verification/Hypr_Windows.thy ===== *)
theory Hypr_Windows
  imports Hypr_Spec
begin

text \<open>
  The meaning of Hyprland's replies about clients, monitors and keyboards, as functions on JSON
  documents, and that the readers of src/src/wayland/wl_hypr.c compute it.
\<close>

section \<open>Members of a client\<close>

lemma skip_at_levels: "skip_at 1 = json_skip 16" "skip_at (Suc 0) = json_skip 16" "skip_at 2 = json_skip 15"
  by (simp_all add: skip_at_def fun_eq_iff KSD_HYPR_JSON_DEPTH_def)

lemma bind_map: "Option.bind (map_option g r) k = (case r of None \<Rightarrow> None | Some x \<Rightarrow> k (g x))"
  by (cases r) simp_all

text \<open>Each way to read a value and put it into a state, on the text of a document.\<close>

lemma bind_read:
  assumes "json_ok v" "spaces w"
  shows bind_string: "0 < n \<Longrightarrow> Option.bind (json_string n (w @ render v @ rest)) (\<lambda>(s, t, r). Some (f s t, r))
      = map_option (\<lambda>x. (x, rest)) (map_option (\<lambda>(s, t). f s t) (of_string n v))"
    and bind_truth: "Option.bind (json_boolean (w @ render v @ rest)) (\<lambda>(b, r). Some (g b, r)) = map_option (\<lambda>x. (x, rest)) (map_option g (of_truth v))"
    and bind_number: "ends rest \<Longrightarrow> Option.bind (json_integer (w @ render v @ rest)) (\<lambda>(n, r). Some (k n, r)) = map_option (\<lambda>x. (x, rest)) (map_option k (of_number v))"
    and bind_skip: "nesting v \<le> 15 \<Longrightarrow> ends rest \<Longrightarrow> Option.bind (skip_at 1 (w @ render v @ rest)) (\<lambda>r. Some (x, r)) = map_option (\<lambda>x. (x, rest)) (Some x)"
    and bind_skip2: "nesting v \<le> 15 \<Longrightarrow> ends rest \<Longrightarrow> Option.bind (skip_at 2 (w @ render v @ rest)) (\<lambda>r. Some (x, r)) = map_option (\<lambda>x. (x, rest)) (Some x)"
  using assms by (simp_all add: read_string read_truth read_number skip_at_levels skip_value bind_map split: option.split prod.split)

definition of_pair :: "json \<Rightarrow> (int \<times> int) option" where
  "of_pair v =
     (case v of Arr w [a, b] \<Rightarrow>
        (case of_number (item_value a) of None \<Rightarrow> None
         | Some x \<Rightarrow> (case of_number (item_value b) of None \<Rightarrow> None | Some y \<Rightarrow> if in_int32 x \<and> in_int32 y then Some (x, y) else None))
      | _ \<Rightarrow> None)"

lemma not_array_expect: "json_ok v \<Longrightarrow> spaces w \<Longrightarrow> (\<And>u xs. v \<noteq> Arr u xs) \<Longrightarrow> json_expect 91 (w @ render v @ rest) = None"
proof -
  assume v: "json_ok v" "spaces w" "\<And>u xs. v \<noteq> Arr u xs"
  obtain b r where b: "render v = b # r" "opens_with v b" "\<not> isspace b" using render_starts [OF v(1)] .
  then have "b \<noteq> 91" using v(3) number_char_other(5) by (cases v) (auto split: if_splits)
  with b v(2) show ?thesis by simp
qed

lemma item_number:
  assumes "json_ok (Arr u xs)" "t \<in> set xs" "ends rest"
  shows "json_integer (item_pre t @ rest) = map_option (\<lambda>n. (n, rest)) (of_number (item_value t))"
proof -
  obtain a where "item_pre t = a @ render (item_value t)" "spaces a" "json_ok (item_value t)" using item_parts [OF assms(1,2)] by blast
  then show ?thesis using read_number assms(3) by simp
qed

lemma no_number: "spaces w \<Longrightarrow> \<not> isspace b \<Longrightarrow> \<not> number_char b \<Longrightarrow> json_integer (w @ b # r) = None"
  by (simp add: json_integer_def)

lemma read_pair:
  assumes "json_ok v" "spaces w" "ends rest"
  shows "json_pair (w @ render v @ rest) = map_option (\<lambda>p. (p, rest)) (of_pair v)"
proof (cases "\<exists>u xs. v = Arr u xs")
  case False
  then have "of_pair v = None" by (cases v) (auto simp: of_pair_def)
  then show ?thesis using not_array_expect [OF assms(1,2)] False by (simp add: json_pair_def)
next
  case True
  then obtain u xs where v: "v = Arr u xs" by blast
  have after: "spaces (item_after t)" if "t \<in> set xs" for t using after_spaces(1) [OF assms(1) [unfolded v] that] .
  have ends: "ends (item_after t @ 44 # s)" "ends (item_after t @ 93 # s)" if "t \<in> set xs" for t s using after [OF that] by (auto intro: ends_space)
  note number = item_number [OF assms(1) [unfolded v]]
  consider "xs = []" | a where "xs = [a]" | a b where "xs = [a, b]" | a b c cs where "xs = a # b # c # cs" by (metis list.exhaust)
  then show ?thesis
  proof cases
    case 1
    then show ?thesis using assms(1,2) v no_number [of u 93 rest] by (simp add: json_pair_def render_arr of_pair_def)
  next
    case 2
    then show ?thesis using assms(2) v after number ends by (auto simp: json_pair_def render_arr of_pair_def bind_map split: option.split)
  next
    case 3
    then show ?thesis using assms(2) v after number ends by (auto simp: json_pair_def render_arr of_pair_def bind_map split: option.split)
  next
    case 4
    have "commas u (map (\<lambda>t. item_pre t @ item_after t) (b # c # cs)) = item_pre b @ item_after b @ 44 # commas u (map (\<lambda>t. item_pre t @ item_after t) (c # cs))" by simp
    then show ?thesis using 4 assms(2) v after number ends by (auto simp: json_pair_def render_arr of_pair_def bind_map split: option.split)
  qed
qed

definition workspace_effect :: "bytes \<Rightarrow> ksd_hypr_client \<Rightarrow> json \<Rightarrow> ksd_hypr_client option" where
  "workspace_effect key client v =
     (if key = ascii ''id'' then map_option (\<lambda>n. client\<lparr>hc_workspace_id := n\<rparr>) (of_number v)
      else if key = ascii ''name'' then map_option (\<lambda>(name, truncated). client\<lparr>hc_workspace_name := (if truncated then [] else name)\<rparr>) (of_string KSD_HYPR_WORKSPACE_CAPACITY v)
      else Some client)"

lemma capacities: "0 < KSD_HYPR_WORKSPACE_CAPACITY" "0 < KSD_HYPR_ID_CAPACITY" "0 < KSD_HYPR_LAYOUT_NAME_CAPACITY" "0 < KSD_HYPR_MONITOR_NAME_CAPACITY"
  by (simp_all add: KSD_HYPR_WORKSPACE_CAPACITY_def KSD_HYPR_ID_CAPACITY_def KSD_HYPR_LAYOUT_NAME_CAPACITY_def KSD_HYPR_MONITOR_NAME_CAPACITY_def)

lemma workspace_reads: "reads_as 15 (workspace_value key) (workspace_effect key)"
  unfolding reads_as_def
proof (intro allI impI)
  fix client v w rest
  assume v: "json_ok v" "nesting v \<le> 15" "spaces w" "ends rest"
  show "workspace_value key client (w @ render v @ rest) = map_option (\<lambda>x. (x, rest)) (workspace_effect key client v)"
    unfolding workspace_value_def workspace_effect_def bind_string [OF v(1,3) capacities(1)] bind_number [OF v(1,3,4)] bind_skip [OF v(1,3,2,4)]
    by (simp only: if_distrib [of "map_option _"])
qed

definition workspace_of :: "ksd_hypr_client \<Rightarrow> json \<Rightarrow> ksd_hypr_client option" where
  "workspace_of client v = object_value 16 workspace_effect (Some client) client v"

lemma read_workspace:
  assumes "json_ok v" "nesting v \<le> 15" "spaces w" "ends rest"
  shows "json_workspace client (w @ render v @ rest) = map_option (\<lambda>c. (c, rest)) (workspace_of client v)"
  unfolding json_workspace_def workspace_of_def
  by (rule reads_asD [OF object_read [OF workspace_reads, of 16]]) (use assms in \<open>auto simp: workspace_member_def fun_eq_iff\<close>)

definition fullscreen_of :: "json \<Rightarrow> int option" where
  "fullscreen_of v = (case v of Truth b \<Rightarrow> Some (if b then 1 else 0) | _ \<Rightarrow> map_option (\<lambda>n. if n > 0 then 1 else 0) (of_number v))"

definition client_effect :: "bytes \<Rightarrow> ksd_hypr_client \<times> bool \<Rightarrow> json \<Rightarrow> (ksd_hypr_client \<times> bool) option" where
  "client_effect key st v =
     (let flag = (\<lambda>field. map_option (\<lambda>b. (field (\<lambda>_. b) (fst st), snd st)) (of_truth v))
      in if key = ascii ''address'' then map_option (\<lambda>(s, truncated). ((fst st)\<lparr>hc_address := s\<rparr>, snd st \<or> truncated)) (of_string KSD_HYPR_ID_CAPACITY v)
         else if key = ascii ''stableId'' then map_option (\<lambda>(s, truncated). ((fst st)\<lparr>hc_stable_id := s\<rparr>, snd st \<or> truncated)) (of_string KSD_HYPR_ID_CAPACITY v)
         else if key = ascii ''mapped'' then flag hc_mapped_update
         else if key = ascii ''hidden'' then flag hc_hidden_update
         else if key = ascii ''visible'' then flag hc_visible_update
         else if key = ascii ''floating'' then flag hc_floating_update
         else if key = ascii ''pinned'' then flag hc_pinned_update
         else if key = ascii ''overFullscreen'' then flag hc_over_fullscreen_update
         else if key = ascii ''at'' then map_option (\<lambda>(a, b). ((fst st)\<lparr>hc_x := a, hc_y := b\<rparr>, snd st)) (of_pair v)
         else if key = ascii ''size'' then map_option (\<lambda>(a, b). ((fst st)\<lparr>hc_width := a, hc_height := b\<rparr>, snd st)) (of_pair v)
         else if key = ascii ''workspace'' then map_option (\<lambda>c. (c, snd st)) (workspace_of (fst st) v)
         else if key = ascii ''pid'' then map_option (\<lambda>n. ((fst st)\<lparr>hc_pid := n\<rparr>, snd st)) (of_number v)
         else if key = ascii ''fullscreen'' then map_option (\<lambda>n. ((fst st)\<lparr>hc_fullscreen := n\<rparr>, snd st)) (fullscreen_of v)
         else Some st)"

lemma bind_pair:
  assumes "json_ok v" "spaces w" "ends rest"
  shows "Option.bind (json_pair (w @ render v @ rest)) (\<lambda>((a, b), r). Some (f a b, r)) = map_option (\<lambda>x. (x, rest)) (map_option (\<lambda>(a, b). f a b) (of_pair v))"
  using assms by (simp add: read_pair bind_map split: option.split prod.split)

lemma bind_workspace:
  assumes "json_ok v" "spaces w" "ends rest" "nesting v \<le> 15"
  shows "Option.bind (json_workspace client (w @ render v @ rest)) (\<lambda>(c, r). Some (f c, r)) = map_option (\<lambda>x. (x, rest)) (map_option f (workspace_of client v))"
  using assms by (simp add: read_workspace bind_map split: option.split)

lemma peek_truth:
  assumes "json_ok v" "spaces w"
  shows "json_peek 116 (w @ render v @ rest) \<or> json_peek 102 (w @ render v @ rest) \<longleftrightarrow> (\<exists>b. v = Truth b)"
proof -
  obtain b r where "render v = b # r" "opens_with v b" "\<not> isspace b" using render_starts [OF assms(1)] .
  then show ?thesis using assms(2) number_char_other(7,8) [of b] by (cases v) auto
qed

lemma read_fullscreen:
  assumes "json_ok v" "spaces w" "ends rest"
  shows "(if json_peek 116 (w @ render v @ rest) \<or> json_peek 102 (w @ render v @ rest)
      then do { (b, s) \<leftarrow> json_boolean (w @ render v @ rest); Some (f (if b then 1 else 0), s) }
      else do { (n, s) \<leftarrow> json_integer (w @ render v @ rest); Some (f (if n > 0 then 1 else (0 :: int)), s) }) = map_option (\<lambda>x. (x, rest)) (map_option f (fullscreen_of v))"
  unfolding peek_truth [OF assms(1,2)] read_truth [OF assms(1,2)] read_number [OF assms]
  by (cases v; cases "of_number v") (auto simp: fullscreen_of_def of_truth_def)

lemma client_reads: "reads_as 15 (client_value key) (client_effect key)"
  unfolding reads_as_def
proof (intro allI impI)
  fix st v w rest
  assume v: "json_ok v" "nesting v \<le> 15" "spaces w" "ends rest"
  show "client_value key st (w @ render v @ rest) = map_option (\<lambda>x. (x, rest)) (client_effect key st v)"
    unfolding client_value_def client_effect_def flag_value_def Let_def
    unfolding read_fullscreen [OF v(1,3,4), where f = "\<lambda>n. ((fst st)\<lparr>hc_fullscreen := n\<rparr>, snd st)"]
    unfolding bind_string [OF v(1,3) capacities(2)] bind_number [OF v(1,3,4)] bind_truth [OF v(1,3)] bind_pair [OF v(1,3,4)] bind_workspace [OF v(1,3,4,2)]
      bind_skip [OF v(1,3,2,4)]
    by (simp only: if_distrib [of "map_option _"])
qed

text \<open>The client that an object describes, if it can be addressed.\<close>

definition client_of :: "json \<Rightarrow> ksd_hypr_client option" where
  "client_of v =
     (case object_value 32 client_effect None (zero_client\<lparr>hc_mapped := True, hc_visible := True\<rparr>, False) v of
        None \<Rightarrow> None | Some st \<Rightarrow> if addressable st then Some (fst st) else None)"

lemma read_client:
  assumes "json_ok v" "nesting v \<le> 16" "spaces w" "ends rest"
  shows "json_client (w @ render v @ rest) = map_option (\<lambda>c. (c, rest)) (client_of v)"
proof -
  have "json_group 123 125 None client_member x (w @ render v @ rest) = map_option (\<lambda>x. (x, rest)) (object_value 32 client_effect None x v)" for x
    by (rule reads_asD [OF object_read [OF client_reads, of 32]]) (use assms in \<open>auto simp: client_member_def fun_eq_iff\<close>)
  then show ?thesis by (auto simp: json_client_def client_of_def split: option.split)
qed

section \<open>The list of clients\<close>

definition note_client :: "ksd_hypr_client list \<times> nat \<Rightarrow> ksd_hypr_client option \<Rightarrow> ksd_hypr_client list \<times> nat" where
  "note_client st c =
     (case c of None \<Rightarrow> st
      | Some client \<Rightarrow>
          if length (fst st) = KSD_HYPR_MAX_CLIENTS then st
          else (fst st @ [client\<lparr>hc_stacking_order := length (fst st)\<rparr>],
                if length (fst st) = snd st then if snd st = 0 then 16 else snd st * 2 else snd st))"

lemma json_integer_space: "json_integer (json_space s) = json_integer s"
  by (simp add: json_integer_def)

lemma skipping_group: "skipping (json_group left right none step)"
  by (simp add: skipping_def json_group_def)

lemma json_client_space: "json_client (json_space s) = json_client s"
  using skipping_group [of 123 125 None client_member] by (simp add: json_client_def skipping_def)

lemma clients_item_reads: "reads_as 16 (clients_item (\<lambda>_. True)) (\<lambda>st v. Some (note_client st (client_of v)))"
  unfolding reads_as_def
proof (intro allI impI)
  fix st v w rest
  assume v: "json_ok v" "nesting v \<le> 16" "spaces w" "ends rest"
  have "skip_at 1 (w @ render v @ rest) = Some rest" unfolding skip_at_levels using v by (rule skip_value)
  then show "clients_item (\<lambda>_. True) st (w @ render v @ rest) = map_option (\<lambda>x. (x, rest)) (Some (note_client st (client_of v)))"
    by (cases "client_of v") (auto simp: clients_item_def read_client [OF v] note_client_def Let_def split: prod.split)
qed

lemma clients_item_skipping: "skipping (clients_item alloc)"
proof -
  have skip: "skip_at 1 (json_space s) = skip_at 1 s" for s by (simp add: skip_at_def json_skip_space)
  show ?thesis unfolding skipping_def clients_item_def json_client_space skip by (intro allI refl)
qed

text \<open>The clients that can be addressed, in the order of the list and numbered in it, up to the limit.\<close>

primrec stacked :: "nat \<Rightarrow> ksd_hypr_client list \<Rightarrow> ksd_hypr_client list" where
  "stacked n [] = []"
| "stacked n (c # cs) = c\<lparr>hc_stacking_order := n\<rparr> # stacked (Suc n) cs"

definition listed_clients :: "json list \<Rightarrow> ksd_hypr_client list" where
  "listed_clients vs = stacked 0 (take KSD_HYPR_MAX_CLIENTS (List.map_filter client_of vs))"

lemma fold_note_client:
  "length (fst st) \<le> KSD_HYPR_MAX_CLIENTS \<Longrightarrow> \<exists>capacity. fold_option (\<lambda>st v. Some (note_client st (client_of v))) st vs
     = Some (fst st @ stacked (length (fst st)) (take (KSD_HYPR_MAX_CLIENTS - length (fst st)) (List.map_filter client_of vs)), capacity)"
proof (induction vs arbitrary: st)
  case Nil
  show ?case by (cases st) (simp add: List.map_filter_def)
next
  case (Cons v vs)
  show ?case
  proof (cases "client_of v")
    case None
    then show ?thesis using Cons.IH [OF Cons.prems] by (simp add: note_client_def List.map_filter_simps)
  next
    case (Some c)
    show ?thesis
    proof (cases "length (fst st) = KSD_HYPR_MAX_CLIENTS")
      case True
      then show ?thesis using Cons.IH [OF Cons.prems] Some by (simp add: note_client_def List.map_filter_simps)
    next
      case False
      define k where "k = KSD_HYPR_MAX_CLIENTS - Suc (length (fst st))"
      have k: "KSD_HYPR_MAX_CLIENTS - length (fst st) = Suc k" using False Cons.prems by (simp add: k_def)
      show ?thesis using False Some Cons.prems Cons.IH [of "note_client st (Some c)"] unfolding k
        by (simp add: note_client_def List.map_filter_simps k_def)
    qed
  qed
qed

definition clients_of :: "json \<Rightarrow> ksd_hypr_client list option" where
  "clients_of v = (case v of Arr w xs \<Rightarrow> Some (listed_clients (map item_value xs)) | _ \<Rightarrow> None)"

lemma read_clients:
  assumes "json_ok v" "nesting v \<le> 17" "spaces w" "ends rest"
  shows "json_clients (\<lambda>_. True) (w @ render v @ rest) = map_option (\<lambda>cs. (cs, rest)) (clients_of v)"
proof -
  have "json_group 91 93 none (clients_item (\<lambda>_. True)) x (w @ render v @ rest)
      = map_option (\<lambda>x. (x, rest)) (array_value (\<lambda>st v. Some (note_client st (client_of v))) none x v)" for none x
    by (rule reads_asD [OF array_read [OF clients_item_reads clients_item_skipping]]) (use assms in simp_all)
  moreover obtain capacity where "\<And>w xs. v = Arr w xs \<Longrightarrow>
      fold_option (\<lambda>st v. Some (note_client st (client_of v))) ([], 0) (map item_value xs) = Some (listed_clients (map item_value xs), capacity)"
    using fold_note_client [of "([], 0)"] by (cases v) (auto simp: listed_clients_def KSD_HYPR_MAX_CLIENTS_def)
  ultimately show ?thesis
    by (cases v) (auto simp: json_clients_def array_value_def clients_of_def listed_clients_def List.map_filter_def)
qed

section \<open>The snapshot\<close>

definition active_of :: "json \<Rightarrow> ksd_hypr_client option" where
  "active_of v = (case v of Obj w [] \<Rightarrow> Some zero_client | _ \<Rightarrow> client_of v)"

lemma read_active:
  assumes "json_ok v" "nesting v \<le> 16" "spaces w" "ends rest"
  shows "active_client (w @ render v @ rest) = map_option (\<lambda>c. (c, rest)) (active_of v)"
proof -
  obtain b r where b: "render v = b # r" "opens_with v b" "\<not> isspace b" using render_starts [OF assms(1)] .
  show ?thesis
  proof (cases v)
    case (Obj u es)
    let ?s = "commas u (map (\<lambda>t. entry_pre t @ entry_after t) es) @ 125 # rest"
    have "json_take 125 ?s = (False, json_space ?s)" if "es \<noteq> []"
      by (rule begins_take, rule begins_commas [OF that], rule entry_begins [OF assms(1) [unfolded Obj]]) (use that in simp)
    then show ?thesis using read_client [OF assms] assms(1,3) Obj by (cases es) (auto simp: active_client_def active_of_def render_obj)
  qed (use b assms read_client [OF assms] number_char_other(10) [of b] in \<open>auto simp: active_client_def active_of_def split: if_splits\<close>)
qed

section \<open>Monitors\<close>

definition of_int32 :: "json \<Rightarrow> int option" where
  "of_int32 v = (case of_number v of None \<Rightarrow> None | Some n \<Rightarrow> if in_int32 n then Some n else None)"

lemma read_int32:
  assumes "json_ok v" "spaces w" "ends rest"
  shows "int32_value (w @ render v @ rest) = map_option (\<lambda>n. (n, rest)) (of_int32 v)"
  using assms by (auto simp: int32_value_def read_number of_int32_def bind_map split: option.split)

lemma bind_int32:
  assumes "json_ok v" "spaces w" "ends rest"
  shows "Option.bind (int32_value (w @ render v @ rest)) (\<lambda>(n, r). Some (f n, r)) = map_option (\<lambda>x. (x, rest)) (map_option f (of_int32 v))"
  using assms by (simp add: read_int32 bind_map split: option.split)

text \<open>The four reserved edges. Where the array has another length, what is read is of no use to the meaning.\<close>

definition of_reserved :: "json \<Rightarrow> int list option" where
  "of_reserved v =
     (case v of Arr w xs \<Rightarrow> if length xs = 4 \<and> list_all (\<lambda>x. of_int32 (item_value x) \<noteq> None) xs then Some (map (\<lambda>x. the (of_int32 (item_value x))) xs) else None
      | _ \<Rightarrow> None)"

lemma item_int32:
  assumes "json_ok (Arr u xs)" "t \<in> set xs" "ends rest"
  shows "int32_value (item_pre t @ rest) = map_option (\<lambda>n. (n, rest)) (of_int32 (item_value t))"
proof -
  obtain a where "item_pre t = a @ render (item_value t)" "spaces a" "json_ok (item_value t)" using item_parts [OF assms(1,2)] by blast
  then show ?thesis using read_int32 assms(3) by simp
qed

lemma no_int32: "spaces w \<Longrightarrow> \<not> isspace b \<Longrightarrow> \<not> number_char b \<Longrightarrow> int32_value (w @ b # r) = None"
  by (simp add: int32_value_def no_number)

lemma read_reserved:
  assumes "json_ok v" "spaces w" "ends rest"
  shows "json_reserved (w @ render v @ rest) = map_option (\<lambda>p. (p, rest)) (of_reserved v)"
proof (cases "\<exists>u xs. v = Arr u xs")
  case False
  then have "of_reserved v = None" by (cases v) (auto simp: of_reserved_def)
  then show ?thesis using not_array_expect [OF assms(1,2)] False by (simp add: json_reserved_def)
next
  case True
  then obtain u xs where v: "v = Arr u xs" by blast
  have after: "spaces (item_after t)" if "t \<in> set xs" for t using after_spaces(1) [OF assms(1) [unfolded v] that] .
  have ends: "ends (item_after t @ 44 # s)" "ends (item_after t @ 93 # s)" if "t \<in> set xs" for t s using after [OF that] by (auto intro: ends_space)
  note number = item_int32 [OF assms(1) [unfolded v]]
  have five: "commas u (map (\<lambda>t. item_pre t @ item_after t) (d # e # es)) = item_pre d @ item_after d @ 44 # commas u (map (\<lambda>t. item_pre t @ item_after t) (e # es))" for d e es
    by simp
  consider "xs = []" | a where "xs = [a]" | a b where "xs = [a, b]" | a b c where "xs = [a, b, c]" | a b c d where "xs = [a, b, c, d]"
    | a b c d e es where "xs = a # b # c # d # e # es" by (metis list.exhaust)
  then show ?thesis
  proof cases
    case 1
    then show ?thesis using assms(1,2) v no_int32 [of u 93 rest] by (simp add: json_reserved_def render_arr of_reserved_def)
  next
    case 6
    then show ?thesis using assms(2) v after number ends five by (auto simp: json_reserved_def render_arr of_reserved_def bind_map split: option.split)
  qed (use assms(2) v after number ends in \<open>auto simp: json_reserved_def render_arr of_reserved_def bind_map split: option.split\<close>)
qed

lemma bind_reserved:
  assumes "json_ok v" "spaces w" "ends rest"
  shows "Option.bind (json_reserved (w @ render v @ rest)) (\<lambda>(n, r). Some (f n, r)) = map_option (\<lambda>x. (x, rest)) (map_option f (of_reserved v))"
  using assms by (simp add: read_reserved bind_map split: option.split)

definition monitor_effect :: "bytes \<Rightarrow> monitor_state \<Rightarrow> json \<Rightarrow> monitor_state option" where
  "monitor_effect key m v =
     (if key = ascii ''name'' then map_option (\<lambda>(name, truncated). m\<lparr>mo_monitor := (mo_monitor m)\<lparr>hm_name := name\<rparr>, mo_has_name := \<not> truncated \<and> name \<noteq> []\<rparr>)
        (of_string KSD_HYPR_MONITOR_NAME_CAPACITY v)
      else if key = ascii ''x'' then map_option (\<lambda>n. m\<lparr>mo_monitor := (mo_monitor m)\<lparr>hm_x := n\<rparr>, mo_has_x := True\<rparr>) (of_int32 v)
      else if key = ascii ''y'' then map_option (\<lambda>n. m\<lparr>mo_monitor := (mo_monitor m)\<lparr>hm_y := n\<rparr>, mo_has_y := True\<rparr>) (of_int32 v)
      else if key = ascii ''reserved'' then map_option (\<lambda>ns. m\<lparr>mo_monitor := (mo_monitor m)\<lparr>hm_reserved := ns\<rparr>, mo_has_reserved := True\<rparr>) (of_reserved v)
      else if key = ascii ''focused'' then map_option (\<lambda>b. m\<lparr>mo_monitor := (mo_monitor m)\<lparr>hm_focused := b\<rparr>\<rparr>) (of_truth v)
      else if key = ascii ''disabled'' then map_option (\<lambda>b. m\<lparr>mo_disabled := b\<rparr>) (of_truth v)
      else Some m)"

lemma monitor_reads: "reads_as 15 (monitor_value key) (monitor_effect key)"
  unfolding reads_as_def
proof (intro allI impI)
  fix m v w rest
  assume v: "json_ok v" "nesting v \<le> 15" "spaces w" "ends rest"
  show "monitor_value key m (w @ render v @ rest) = map_option (\<lambda>x. (x, rest)) (monitor_effect key m v)"
    unfolding monitor_value_def monitor_effect_def bind_string [OF v(1,3) capacities(4)] bind_int32 [OF v(1,3,4)] bind_reserved [OF v(1,3,4)] bind_truth [OF v(1,3)]
      bind_skip2 [OF v(1,3,2,4)]
    by (simp only: if_distrib [of "map_option _"])
qed

definition monitor_of :: "json \<Rightarrow> monitor_state option" where
  "monitor_of v = object_value 32 monitor_effect (Some zero_monitor) zero_monitor v"

lemma monitors_item_reads: "reads_as 16 monitors_item (\<lambda>items v. map_option (note_monitor items) (monitor_of v))"
  unfolding reads_as_def
proof (intro allI impI)
  fix items v w rest
  assume v: "json_ok v" "nesting v \<le> 16" "spaces w" "ends rest"
  have "json_monitor (w @ render v @ rest) = map_option (\<lambda>x. (x, rest)) (monitor_of v)"
    unfolding json_monitor_def monitor_of_def
    by (rule reads_asD [OF object_read [OF monitor_reads, of 32]]) (use v in \<open>auto simp: monitor_member_def fun_eq_iff\<close>)
  then show "monitors_item items (w @ render v @ rest) = map_option (\<lambda>x. (x, rest)) (map_option (note_monitor items) (monitor_of v))"
    by (simp add: monitors_item_def bind_map split: option.split)
qed

lemma monitors_item_skipping: "skipping monitors_item"
  using skipping_group [of 123 125 "Some zero_monitor" monitor_member] by (simp add: skipping_def monitors_item_def json_monitor_def)

text \<open>
  The monitors are the enabled ones that are described completely, in order; one entry that
  cannot be read fails the whole reply. What follows the array is not looked at.
\<close>

theorem hypr_monitors_meaning:
  assumes "json_ok v" "nesting v \<le> 17" "spaces w" "ends rest"
  shows "ksd_wayland_hypr_parse_monitors (\<lambda>_. True) (Some (w @ render v @ rest))
     = array_value (\<lambda>items v. map_option (note_monitor items) (monitor_of v)) (Some []) [] v"
  using reads_asD [OF array_read [OF monitors_item_reads monitors_item_skipping], of v w rest "Some []" "[]"] assms
  by (simp add: ksd_wayland_hypr_parse_monitors_def option.map_comp comp_def option.map_ident)

section \<open>Keyboards\<close>

definition keyboard_effect :: "bytes \<Rightarrow> keyboard_state \<Rightarrow> json \<Rightarrow> keyboard_state option" where
  "keyboard_effect key k v =
     (if key = ascii ''main'' then map_option (\<lambda>b. k\<lparr>kb_main := b\<rparr>) (of_truth v)
      else if key = ascii ''active_layout_index'' then (case v of Str s \<Rightarrow> Some k | _ \<Rightarrow> map_option (keyboard_index k) (of_number v))
      else if key = ascii ''active_keymap'' then map_option (\<lambda>(name, truncated). k\<lparr>kb_layout := (kb_layout k)\<lparr>hl_name := name\<rparr>, kb_has_name := \<not> truncated \<and> name \<noteq> []\<rparr>)
        (of_string KSD_HYPR_LAYOUT_NAME_CAPACITY v)
      else Some k)"

lemma peek_string:
  assumes "json_ok v" "spaces w"
  shows "json_peek 34 (w @ render v @ rest) \<longleftrightarrow> (\<exists>s. v = Str s)"
proof -
  obtain b r where "render v = b # r" "opens_with v b" "\<not> isspace b" using render_starts [OF assms(1)] .
  then show ?thesis using assms(2) number_char_other(2) [of b] by (cases v) auto
qed

lemma keyboard_reads: "reads_as 15 (keyboard_value key) (keyboard_effect key)"
  unfolding reads_as_def
proof (intro allI impI)
  fix k v w rest
  assume v: "json_ok v" "nesting v \<le> 15" "spaces w" "ends rest"
  have index: "(if \<exists>s. v = Str s then map_option (\<lambda>x. (x, rest)) (Some k) else map_option (\<lambda>x. (x, rest)) (map_option (keyboard_index k) (of_number v)))
      = map_option (\<lambda>x. (x, rest)) (case v of Str s \<Rightarrow> Some k | _ \<Rightarrow> map_option (keyboard_index k) (of_number v))" by (cases v) simp_all
  show "keyboard_value key k (w @ render v @ rest) = map_option (\<lambda>x. (x, rest)) (keyboard_effect key k v)"
    unfolding keyboard_value_def keyboard_effect_def bind_string [OF v(1,3) capacities(3)] bind_number [OF v(1,3,4)] bind_truth [OF v(1,3)] bind_skip2 [OF v(1,3,2,4)]
      peek_string [OF v(1,3)] index
    by (simp only: if_distrib [of "map_option _"])
qed

definition keyboard_of :: "json \<Rightarrow> keyboard_state option" where
  "keyboard_of v = object_value 32 keyboard_effect (Some zero_keyboard) zero_keyboard v"

lemma keyboards_item_reads: "reads_as 16 keyboards_item (\<lambda>l v. map_option (note_keyboard l) (keyboard_of v))"
  unfolding reads_as_def
proof (intro allI impI)
  fix l v w rest
  assume v: "json_ok v" "nesting v \<le> 16" "spaces w" "ends rest"
  have "json_keyboard (w @ render v @ rest) = map_option (\<lambda>x. (x, rest)) (keyboard_of v)"
    unfolding json_keyboard_def keyboard_of_def
    by (rule reads_asD [OF object_read [OF keyboard_reads, of 32]]) (use v in \<open>auto simp: keyboard_member_def fun_eq_iff\<close>)
  then show "keyboards_item l (w @ render v @ rest) = map_option (\<lambda>x. (x, rest)) (map_option (note_keyboard l) (keyboard_of v))"
    by (simp add: keyboards_item_def bind_map split: option.split)
qed

lemma keyboards_item_skipping: "skipping keyboards_item"
  using skipping_group [of 123 125 "Some zero_keyboard" keyboard_member] by (simp add: skipping_def keyboards_item_def json_keyboard_def)

definition devices_effect :: "bytes \<Rightarrow> layout_state \<Rightarrow> json \<Rightarrow> layout_state option" where
  "devices_effect key l v =
     (if key \<noteq> ascii ''keyboards'' then Some l else array_value (\<lambda>l v. map_option (note_keyboard l) (keyboard_of v)) (Some l) l v)"

lemma devices_reads: "reads_as 15 (devices_value key) (devices_effect key)"
  unfolding reads_as_def
proof (intro allI impI)
  fix l v w rest
  assume v: "json_ok v" "nesting v \<le> 15" "spaces w" "ends rest"
  have boards: "json_group 91 93 (Some l) keyboards_item l (w @ render v @ rest)
      = map_option (\<lambda>x. (x, rest)) (array_value (\<lambda>l v. map_option (note_keyboard l) (keyboard_of v)) (Some l) l v)"
    by (rule reads_asD [OF array_read [OF keyboards_item_reads keyboards_item_skipping]]) (use v in simp_all)
  show "devices_value key l (w @ render v @ rest) = map_option (\<lambda>x. (x, rest)) (devices_effect key l v)"
    unfolding devices_value_def devices_effect_def bind_skip [OF v(1,3,2,4)] boards by (simp only: if_distrib [of "map_option _"])
qed

text \<open>The active layout is that of the one keyboard marked as the main one, when its index and its name are known.\<close>

definition layout_of :: "json \<Rightarrow> ksd_hypr_layout option" where
  "layout_of v =
     (case object_value 32 devices_effect None \<lparr>ly_mains = 0, ly_complete = False, ly_layout = \<lparr>hl_index = 0, hl_name = []\<rparr>\<rparr> v of None \<Rightarrow> None
      | Some l \<Rightarrow> if ly_mains l = 1 \<and> ly_complete l then Some (ly_layout l) else None)"

theorem hypr_layout_meaning:
  assumes "json_ok v" "nesting v \<le> 16" "spaces w" "ends rest"
  shows "ksd_wayland_hypr_parse_active_layout (Some (w @ render v @ rest)) = layout_of v"
proof -
  have "json_group 123 125 None devices_member x (w @ render v @ rest) = map_option (\<lambda>x. (x, rest)) (object_value 32 devices_effect None x v)" for x
    by (rule reads_asD [OF object_read [OF devices_reads, of 32]]) (use assms in \<open>auto simp: devices_member_def fun_eq_iff\<close>)
  then show ?thesis by (simp add: ksd_wayland_hypr_parse_active_layout_def layout_of_def bind_map split: option.split)
qed

section \<open>The meaning of a snapshot\<close>

text \<open>
  C27: The snapshot of Hyprland's windows is the meaning of its reply. For every reply that is
  the text of two JSON documents with three newlines between them, whatever white space,
  order of members, unknown members and nesting within the depth they have, the reader
  returns exactly the clients of the first document that can be addressed (well-formed
  members, an address and an identifier that fit), in their order and numbered by it, at most
  4096, with the one that the second document describes marked active; it fails exactly when
  the first document is no array or the second is neither empty nor such a client.
\<close>

theorem hypr_snapshot_meaning:
  assumes "json_ok clients" "json_ok active" "nesting clients \<le> 17" "nesting active \<le> 16" "spaces w" "spaces u" "spaces z"
  shows "ksd_wayland_hypr_parse_snapshot (\<lambda>_. True) (Some (w @ render clients @ [10, 10, 10] @ u @ render active @ z))
     = (case (clients_of clients, active_of active) of
          (Some cs, Some a) \<Rightarrow> Some (map (\<lambda>c. c\<lparr>hc_active := same_window c a\<rparr>) cs)
        | _ \<Rightarrow> None)"
proof -
  have ends: "ends z" using ends_space [OF assms(7), of "[]"] by simp
  have newlines: "ends ([10, 10, 10] @ s)" for s by (simp add: number_char_def isdigit_def)
  note first = read_clients [OF assms(1,3,5) newlines]
  note second = read_active [OF assms(2,4,6) ends]
  show ?thesis using first [of "u @ render active @ z"] second assms(7)
    by (cases "clients_of clients"; cases "active_of active") (simp_all add: ksd_wayland_hypr_parse_snapshot_def)
qed

definition sample_client :: json where
  "sample_client = Obj [] [Entry [] (ascii ''address'') [] [32] (Str (ascii ''0x1f'')) [], Entry [10] (ascii ''grouped'') [] [] (Arr [32] []) [],
     Entry [] (ascii ''at'') [] [] (Arr [] [Item [] (Num (ascii ''-5'')) [], Item [32] (Num (ascii ''7'')) []]) [],
     Entry [] (ascii ''stableId'') [] [] (Str (ascii ''a'')) [32]]"

lemma sample_client_facts:
  "json_ok (Arr [] [Item [] sample_client []])" "json_ok sample_client" "nesting (Arr [] [Item [] sample_client []]) \<le> 17" "nesting sample_client \<le> 16"
  "map_option (\<lambda>c. (hc_address c, hc_x c, hc_y c, hc_mapped c)) (client_of sample_client) = Some (ascii ''0x1f'', - 5, 7, True)"
  by code_simp+

theorem hypr_snapshot_meaning_witness:
  "\<exists>cs. ksd_wayland_hypr_parse_snapshot (\<lambda>_. True) (Some (render (Arr [] [Item [] sample_client []]) @ [10, 10, 10] @ render sample_client)) = Some cs
     \<and> map hc_active cs = [True]"
proof -
  obtain c where c: "client_of sample_client = Some c" using sample_client_facts(5) by blast
  then have "clients_of (Arr [] [Item [] sample_client []]) = Some [c\<lparr>hc_stacking_order := 0\<rparr>]"
    by (simp add: clients_of_def listed_clients_def KSD_HYPR_MAX_CLIENTS_def List.map_filter_def)
  moreover have "active_of sample_client = Some c" using c by (simp add: active_of_def sample_client_def)
  ultimately show ?thesis using hypr_snapshot_meaning [OF sample_client_facts(1-4), of "[]" "[]" "[]"] by (simp add: same_window_def)
qed

end
