(* ===== verification/Session_Environ.thy ===== *)
theory Session_Environ
  imports Transport Kwin_Wire
begin

text \<open>
  Variables of the session daemon's environment, read from its file under /proc
  (src/src/session_environ.c). The kernel is that of Transport; opening the file is a parameter.
\<close>

section \<open>Reading the file\<close>

definition KSD_ENVIRON_LIMIT :: nat where
  "KSD_ENVIRON_LIMIT = 64 * 1024"

record 'w session_host =
  sh_kernel :: "'w kernel"
  sh_open :: "bytes \<Rightarrow> 'w \<Rightarrow> (int + int) \<times> 'w"

text \<open>The loop reads until the limit, the end of the file or an error; an interrupted call is repeated.\<close>

primrec environ_passes :: "'w kernel \<Rightarrow> int \<Rightarrow> bytes \<Rightarrow> nat \<Rightarrow> ('d, 'w, bytes) io" where
  "environ_passes kn descriptor environment 0 = return environment"
| "environ_passes kn descriptor environment (Suc passes) =
     (if length environment \<ge> KSD_ENVIRON_LIMIT then return environment
      else do {
        answer \<leftarrow> system_call (kn_read kn descriptor (KSD_ENVIRON_LIMIT - length environment)) (\<lambda>bs. [Received bs]);
        case answer of None \<Rightarrow> return environment
        | Some bs \<Rightarrow> if bs = [] then return environment else environ_passes kn descriptor (environment @ bs) passes })"

definition environ_path :: "int \<Rightarrow> bytes" where
  "environ_path pid = ascii ''/proc/'' @ nat_decimal (nat pid) @ ascii ''/environ''"

definition environ_content :: "'w session_host \<Rightarrow> int \<Rightarrow> ('d, 'w, bytes option) io" where
  "environ_content sh pid = do {
     descriptor \<leftarrow> system_call (sh_open sh (environ_path pid)) (\<lambda>_. []);
     case descriptor of None \<Rightarrow> return None
     | Some d \<Rightarrow> do {
         environment \<leftarrow> environ_passes (sh_kernel sh) d [] KSD_ENVIRON_LIMIT;
         close_fd d;
         return (Some environment) }}"

section \<open>Looking for variables\<close>

definition names_entry :: "bytes \<Rightarrow> bytes \<Rightarrow> bool" where
  "names_entry name entry \<longleftrightarrow> length entry > length name \<and> entry ! length name = 61 \<and> take (length name) entry = name"

definition entry_text_value :: "bytes \<Rightarrow> bytes \<Rightarrow> bytes" where
  "entry_text_value name entry = drop (length name + 1) entry"

function environ_value :: "bytes \<Rightarrow> nat \<Rightarrow> bytes \<Rightarrow> bytes option" where
  "environ_value name capacity environment =
     (if environment = [] then None
      else let entry = takeWhile (\<lambda>b. b \<noteq> 0) environment
        in if length entry = length environment then None
           else if names_entry name entry then
             let v = entry_text_value name entry in if v = [] \<or> length v \<ge> capacity then None else Some v
           else environ_value name capacity (drop (length entry + 1) environment))"
  by pat_completeness auto
termination
  by (relation "measure (\<lambda>(name, capacity, environment). length environment)") auto

declare environ_value.simps [simp del]

definition ksd_session_environ_value :: "'w session_host \<Rightarrow> int \<Rightarrow> bytes \<Rightarrow> nat \<Rightarrow> ('d, 'w, bytes option) io" where
  "ksd_session_environ_value sh pid name capacity =
     (if pid \<le> 0 \<or> length (environ_path pid) \<ge> 64 then return None
      else do {
        content \<leftarrow> environ_content sh pid;
        return (case content of None \<Rightarrow> None | Some environment \<Rightarrow> environ_value name capacity environment) })"

text \<open>Several variables at once: what one entry puts into the destinations, an empty one being unset.\<close>

definition note_variable :: "bytes list \<Rightarrow> nat \<Rightarrow> bytes \<Rightarrow> bytes list \<Rightarrow> bytes list" where
  "note_variable names capacity entry vals =
     (case first_index (\<lambda>name. names_entry name entry) names of None \<Rightarrow> vals
      | Some i \<Rightarrow>
          let v = entry_text_value (names ! i) entry in if v \<noteq> [] \<and> length v < capacity then vals[i := v] else vals)"

function environ_values :: "bytes list \<Rightarrow> nat \<Rightarrow> bytes \<Rightarrow> bytes list \<Rightarrow> bytes list option" where
  "environ_values names capacity environment vals =
     (if environment = [] then Some vals
      else let entry = takeWhile (\<lambda>b. b \<noteq> 0) environment
        in if length entry = length environment then None
           else environ_values names capacity (drop (length entry + 1) environment) (note_variable names capacity entry vals))"
  by pat_completeness auto
termination
  by (relation "measure (\<lambda>(names, capacity, environment, vals). length environment)") auto

declare environ_values.simps [simp del]

definition ksd_session_environ_values :: "'w session_host \<Rightarrow> int \<Rightarrow> bytes list \<Rightarrow> nat \<Rightarrow> ('d, 'w, bytes list option) io" where
  "ksd_session_environ_values sh pid names capacity =
     (if pid \<le> 0 \<or> names = [] \<or> length (environ_path pid) \<ge> 64 \<or> capacity = 0 then return None
      else do {
        content \<leftarrow> environ_content sh pid;
        return (case content of None \<Rightarrow> None | Some environment \<Rightarrow> environ_values names capacity environment (replicate (length names) [])) })"

section \<open>What is found\<close>

text \<open>An environment is entries that end in a zero byte, and perhaps an entry that is cut off.\<close>

definition environ_text :: "bytes list \<Rightarrow> bytes \<Rightarrow> bytes" where
  "environ_text entries part = concat (map (\<lambda>e. e @ [0]) entries) @ part"

lemma entry_taken:
  assumes "0 \<notin> set e"
  shows "takeWhile (\<lambda>b. b \<noteq> 0) (environ_text (e # es) part) = e" "drop (length e + 1) (environ_text (e # es) part) = environ_text es part"
    "environ_text (e # es) part \<noteq> []" "length e \<noteq> length (environ_text (e # es) part)"
  using assms by (simp_all add: environ_text_def)

text \<open>A variable has the value of the first entry that names it, unless the file is cut off before one does.\<close>

theorem environ_value_first:
  assumes "list_all (\<lambda>e. 0 \<notin> set e) entries" "0 \<notin> set part"
  shows "environ_value name capacity (environ_text entries part)
     = (case find (names_entry name) entries of None \<Rightarrow> None
        | Some e \<Rightarrow> if entry_text_value name e = [] \<or> length (entry_text_value name e) \<ge> capacity then None else Some (entry_text_value name e))"
  using assms
proof (induction entries)
  case Nil
  then show ?case by (simp add: environ_value.simps [of _ _ part] environ_text_def)
next
  case (Cons e es)
  then show ?case using entry_taken [of e es part] by (subst environ_value.simps) (simp add: Let_def)
qed

text \<open>Several variables are read from every entry, in order, and only from a file that is not cut off.\<close>

theorem environ_values_all:
  assumes "list_all (\<lambda>e. 0 \<notin> set e) entries" "0 \<notin> set part"
  shows "environ_values names capacity (environ_text entries part) vals
     = (if part = [] then Some (fold (note_variable names capacity) entries vals) else None)"
  using assms
proof (induction entries arbitrary: vals)
  case Nil
  then show ?case by (simp add: environ_values.simps [of _ _ part vals] environ_values.simps [of _ _ "[]" vals] environ_text_def)
next
  case (Cons e es)
  then show ?case using entry_taken [of e es part] by (subst environ_values.simps) (simp add: Let_def)
qed

end
