(* ===== verification/Hypr_Ipc.thy ===== *)
theory Hypr_Ipc
  imports Hypr_Json Session_Environ
begin

text \<open>
  Hyprland's sockets (src/src/wayland/wl_hypr.c): connecting to the instance that the session's
  environment names, requests and their replies, dispatching commands, and the stream of events.
\<close>

section \<open>Connecting\<close>

definition KSD_HYPR_SIGNATURE_CAPACITY :: nat where
  "KSD_HYPR_SIGNATURE_CAPACITY = 128"

definition KSD_HYPR_RESPONSE_CAPACITY :: nat where
  "KSD_HYPR_RESPONSE_CAPACITY = 256"

definition KSD_HYPR_CLIENTS_LIMIT :: nat where
  "KSD_HYPR_CLIENTS_LIMIT = 8 * 1024 * 1024"

definition KSD_HYPR_TIMEOUT_MS :: u64 where
  "KSD_HYPR_TIMEOUT_MS = 500"

definition KSD_HYPR_COMMAND_SOCKET :: bytes where
  "KSD_HYPR_COMMAND_SOCKET = ascii ''.socket.sock''"

definition KSD_HYPR_EVENT_SOCKET :: bytes where
  "KSD_HYPR_EVENT_SOCKET = ascii ''.socket2.sock''"

definition signature_valid :: "bytes \<Rightarrow> bool" where
  "signature_valid signature \<longleftrightarrow> signature \<noteq> [] \<and> length signature < KSD_HYPR_SIGNATURE_CAPACITY \<and> signature \<noteq> ascii ''.'' \<and> signature \<noteq> ascii ''..''
     \<and> list_all (\<lambda>b. isalnum b \<or> b = 45 \<or> b = 95 \<or> b = 46) signature"

text \<open>
  What the kernel says of the sockets: the owner of a socket file that is no link, a new
  descriptor, a connection that is made or pending, the error of a pending one, and the
  process and user at the other end.
\<close>

datatype connect_end = Connected | Pending | Refused

record 'w hypr_host = "'w session_host" +
  hy_uid :: nat
  hy_socket_owner :: "bytes \<Rightarrow> 'w \<Rightarrow> nat option \<times> 'w"
  hy_socket :: "'w \<Rightarrow> (int + int) \<times> 'w"
  hy_connect :: "int \<Rightarrow> bytes \<Rightarrow> 'w \<Rightarrow> connect_end \<times> 'w"
  hy_connect_ok :: "int \<Rightarrow> 'w \<Rightarrow> bool \<times> 'w"
  hy_peer :: "int \<Rightarrow> 'w \<Rightarrow> (int \<times> nat) option \<times> 'w"

text \<open>The thread with the syntax that last worked for a dispatch.\<close>

record hypr_thread = thread +
  hw_prefers_legacy :: bool

type_synonym ('w, 'a) hypr = "(unit hypr_thread_ext, 'w, 'a) io"

definition sizeof_hypr_path :: nat where
  "sizeof_hypr_path = 108"

definition hypr_socket_path :: "'w hypr_host \<Rightarrow> int \<Rightarrow> bytes \<Rightarrow> ('w, bytes option) hypr" where
  "hypr_socket_path h session_pid name = do {
     signature \<leftarrow> ksd_session_environ_value (session_host.truncate h) session_pid (ascii ''HYPRLAND_INSTANCE_SIGNATURE'') KSD_HYPR_SIGNATURE_CAPACITY;
     case signature of None \<Rightarrow> return None
     | Some signature \<Rightarrow>
         let path = ascii ''/run/user/'' @ nat_decimal (hy_uid h) @ ascii ''/hypr/'' @ signature @ [47] @ name
         in return (if signature_valid signature \<and> length path < sizeof_hypr_path then Some path else None) }"

definition hypr_connected :: "'w hypr_host \<Rightarrow> int \<Rightarrow> bytes \<Rightarrow> u64 \<Rightarrow> ('w, bool) hypr" where
  "hypr_connected h descriptor path deadline_ms = do {
     ended \<leftarrow> call (hy_connect h descriptor path) (\<lambda>_. []);
     case ended of
       Connected \<Rightarrow> return True
     | Refused \<Rightarrow> return False
     | Pending \<Rightarrow> do {
         ready \<leftarrow> ksd_wait_until (sh_kernel h) descriptor True deadline_ms;
         if \<not> ready then return False else call (hy_connect_ok h descriptor) (\<lambda>_. []) }}"

text \<open>The descriptor and the process at the other end.\<close>

definition hypr_connect_socket :: "'w hypr_host \<Rightarrow> int \<Rightarrow> bytes \<Rightarrow> u64 \<Rightarrow> ('w, (int \<times> int) option) hypr" where
  "hypr_connect_socket h session_pid name deadline_ms = do {
     path \<leftarrow> hypr_socket_path h session_pid name;
     case path of None \<Rightarrow> return None
     | Some path \<Rightarrow> do {
         owner \<leftarrow> call (hy_socket_owner h path) (\<lambda>_. []);
         if owner \<noteq> Some (hy_uid h) then return None
         else do {
           descriptor \<leftarrow> system_call (hy_socket h) (\<lambda>_. []);
           case descriptor of None \<Rightarrow> return None
           | Some d \<Rightarrow> do {
               connected \<leftarrow> hypr_connected h d path deadline_ms;
               if \<not> connected then do { close_fd d; return None }
               else do {
                 peer \<leftarrow> call (hy_peer h d) (\<lambda>_. []);
                 case peer of None \<Rightarrow> do { close_fd d; return None }
                 | Some (pid, uid) \<Rightarrow> if uid \<noteq> hy_uid h then do { close_fd d; return None } else return (Some (d, pid)) }}}}}"

section \<open>Requests\<close>

text \<open>The capacity for the next read, or \<open>None\<close> when the reply reaches the limit or memory is short.\<close>

definition reply_capacity :: "(nat \<Rightarrow> bool) \<Rightarrow> nat \<Rightarrow> nat \<Rightarrow> nat \<Rightarrow> nat option" where
  "reply_capacity alloc limit capacity used =
     (if used = capacity - 1 then
        if capacity \<ge> limit then None
        else let grown = (if capacity * 4 > limit then limit else capacity * 4) in if alloc grown then Some grown else None
      else Some capacity)"

text \<open>Each pass but the last takes in a byte, so the limit bounds the passes.\<close>

primrec reply_passes :: "'w kernel \<Rightarrow> int \<Rightarrow> nat \<Rightarrow> u64 \<Rightarrow> nat \<Rightarrow> bytes \<Rightarrow> nat \<Rightarrow> ('d, 'w, bytes option) io" where
  "reply_passes kn descriptor limit deadline_ms capacity reply 0 = return None"
| "reply_passes kn descriptor limit deadline_ms capacity reply (Suc passes) =
     (case reply_capacity (kn_alloc kn) limit capacity (length reply) of None \<Rightarrow> return None
      | Some capacity \<Rightarrow> do {
          retries \<leftarrow> call (kn_retries kn) (\<lambda>_. []);
          pass \<leftarrow> transfer_pass kn descriptor False deadline_ms (system_call (kn_recv kn descriptor (capacity - 1 - length reply)) (\<lambda>bs. [Received bs])) retries;
          case pass of
            None \<Rightarrow> return None
          | Some None \<Rightarrow> return None
          | Some (Some bs) \<Rightarrow>
              if bs = [] then return (Some reply) else reply_passes kn descriptor limit deadline_ms capacity (reply @ bs) passes })"

definition hypr_exchange :: "'w kernel \<Rightarrow> int \<Rightarrow> bytes \<Rightarrow> nat \<Rightarrow> u64 \<Rightarrow> ('d, 'w, bytes option) io" where
  "hypr_exchange kn descriptor command limit deadline_ms = do {
     moved \<leftarrow> send_until kn descriptor command deadline_ms;
     if moved \<noteq> int (length command) then return None
     else do {
       reply \<leftarrow> reply_passes kn descriptor limit deadline_ms KSD_HYPR_RESPONSE_CAPACITY [] (Suc limit);
       return (if reply = Some [] then None else reply) }}"

definition hypr_request_alloc :: "'w hypr_host \<Rightarrow> int \<Rightarrow> bytes \<Rightarrow> nat \<Rightarrow> ('w, bytes option) hypr" where
  "hypr_request_alloc h session_pid command limit = do {
     now \<leftarrow> ksd_monotonic_milliseconds (sh_kernel h);
     let deadline_ms = now + KSD_HYPR_TIMEOUT_MS;
     if \<not> kn_alloc (sh_kernel h) KSD_HYPR_RESPONSE_CAPACITY then return None
     else do {
       connection \<leftarrow> hypr_connect_socket h session_pid KSD_HYPR_COMMAND_SOCKET deadline_ms;
       case connection of None \<Rightarrow> return None
       | Some (d, _) \<Rightarrow> do {
           reply \<leftarrow> hypr_exchange (sh_kernel h) d command limit deadline_ms;
           close_fd d;
           return reply }}}"

text \<open>The reply as the C string that the callers read.\<close>

definition hypr_request :: "'w hypr_host \<Rightarrow> int \<Rightarrow> bytes \<Rightarrow> ('w, bytes option) hypr" where
  "hypr_request h session_pid command = do {
     reply \<leftarrow> hypr_request_alloc h session_pid command KSD_HYPR_RESPONSE_CAPACITY;
     return (map_option cstring reply) }"

definition parse_integer :: "bytes \<Rightarrow> (int \<times> bytes) option" where
  "parse_integer s =
     (case strtoll (dropWhile isspace s) of None \<Rightarrow> None
      | Some (v, r) \<Rightarrow> if in_int32 v then Some (v, dropWhile isspace r) else None)"

definition reply_is_ok :: "bytes \<Rightarrow> bool" where
  "reply_is_ok response \<longleftrightarrow> rev (dropWhile isspace (rev (dropWhile isspace response))) = ascii ''ok''"

definition ksd_wayland_hypr_pid :: "'w hypr_host \<Rightarrow> int \<Rightarrow> ('w, int) hypr" where
  "ksd_wayland_hypr_pid h session_pid = do {
     now \<leftarrow> ksd_monotonic_milliseconds (sh_kernel h);
     connection \<leftarrow> hypr_connect_socket h session_pid KSD_HYPR_COMMAND_SOCKET (now + KSD_HYPR_TIMEOUT_MS);
     case connection of None \<Rightarrow> return (- 1) | Some (d, pid) \<Rightarrow> do { close_fd d; return pid }}"

definition cursor_position :: "bytes \<Rightarrow> (int \<times> int) option" where
  "cursor_position response =
     (case parse_integer response of None \<Rightarrow> None
      | Some (x, s) \<Rightarrow>
          if s = [] \<or> hd s \<noteq> 44 then None
          else case parse_integer (tl s) of None \<Rightarrow> None | Some (y, s) \<Rightarrow> if dropWhile isspace s = [] then Some (x, y) else None)"

definition ksd_wayland_hypr_cursor :: "'w hypr_host \<Rightarrow> int \<Rightarrow> ('w, (int \<times> int) option) hypr" where
  "ksd_wayland_hypr_cursor h session_pid = do {
     response \<leftarrow> hypr_request h session_pid (ascii ''cursorpos'');
     return (case response of None \<Rightarrow> None | Some s \<Rightarrow> cursor_position s) }"

definition dispatch_one :: "'w hypr_host \<Rightarrow> int \<Rightarrow> bytes option \<Rightarrow> ('w, bool) hypr" where
  "dispatch_one h session_pid expression =
     (case expression of None \<Rightarrow> return False
      | Some e \<Rightarrow>
          let command = ascii ''dispatch '' @ e
          in if length command \<ge> 512 then return False
             else do { response \<leftarrow> hypr_request h session_pid command; return (case response of None \<Rightarrow> False | Some s \<Rightarrow> reply_is_ok s) })"

definition ksd_wayland_hypr_dispatch :: "'w hypr_host \<Rightarrow> int \<Rightarrow> bytes option \<Rightarrow> bytes option \<Rightarrow> ('w, bool) hypr" where
  "ksd_wayland_hypr_dispatch h session_pid lua legacy = do {
     t \<leftarrow> data;
     ok \<leftarrow> dispatch_one h session_pid (if hw_prefers_legacy t then legacy else lua);
     if ok then return True
     else do {
       ok \<leftarrow> dispatch_one h session_pid (if hw_prefers_legacy t then lua else legacy);
       if \<not> ok then return False
       else do { update (\<lambda>t. t\<lparr>hw_prefers_legacy := \<not> hw_prefers_legacy t\<rparr>); return True }}}"

definition int_text :: "int \<Rightarrow> bytes" where
  "int_text v = (if v < 0 then 45 # nat_decimal (nat (- v)) else nat_decimal (nat v))"

definition ksd_wayland_hypr_move :: "'w hypr_host \<Rightarrow> int \<Rightarrow> int \<Rightarrow> int \<Rightarrow> ('w, bool) hypr" where
  "ksd_wayland_hypr_move h session_pid x y =
     (let lua = ascii ''hl.dsp.cursor.move({ x = '' @ int_text x @ ascii '', y = '' @ int_text y @ ascii '' })'';
          legacy = ascii ''movecursor '' @ int_text x @ [32] @ int_text y
      in if length lua < 96 \<and> length legacy < 64 then ksd_wayland_hypr_dispatch h session_pid (Some lua) (Some legacy) else return False)"

definition ksd_wayland_hypr_clients :: "'w hypr_host \<Rightarrow> int \<Rightarrow> ('w, ksd_hypr_client list option) hypr" where
  "ksd_wayland_hypr_clients h session_pid = do {
     reply \<leftarrow> hypr_request_alloc h session_pid (ascii ''[[BATCH]]j/clients;j/activewindow'') KSD_HYPR_CLIENTS_LIMIT;
     return (case reply of None \<Rightarrow> None | Some s \<Rightarrow> ksd_wayland_hypr_parse_snapshot (kn_alloc (sh_kernel h)) (Some s)) }"

definition ksd_wayland_hypr_active_workspace :: "'w hypr_host \<Rightarrow> int \<Rightarrow> ('w, int option) hypr" where
  "ksd_wayland_hypr_active_workspace h session_pid = do {
     reply \<leftarrow> hypr_request_alloc h session_pid (ascii ''j/activeworkspace'') (64 * 1024);
     return (case reply of None \<Rightarrow> None | Some s \<Rightarrow> active_workspace_id s) }"

definition ksd_wayland_hypr_active_layout :: "'w hypr_host \<Rightarrow> int \<Rightarrow> ('w, ksd_hypr_layout option) hypr" where
  "ksd_wayland_hypr_active_layout h session_pid = do {
     reply \<leftarrow> hypr_request_alloc h session_pid (ascii ''j/devices'') (256 * 1024);
     return (case reply of None \<Rightarrow> None | Some s \<Rightarrow> ksd_wayland_hypr_parse_active_layout (Some s)) }"

definition ksd_wayland_hypr_monitors :: "'w hypr_host \<Rightarrow> int \<Rightarrow> ('w, ksd_hypr_monitor list option) hypr" where
  "ksd_wayland_hypr_monitors h session_pid = do {
     reply \<leftarrow> hypr_request_alloc h session_pid (ascii ''j/monitors'') (1024 * 1024);
     return (case reply of None \<Rightarrow> None | Some s \<Rightarrow> ksd_wayland_hypr_parse_monitors (kn_alloc (sh_kernel h)) (Some s)) }"

definition ksd_wayland_hypr_events_open :: "'w hypr_host \<Rightarrow> int \<Rightarrow> ('w, int) hypr" where
  "ksd_wayland_hypr_events_open h session_pid = do {
     now \<leftarrow> ksd_monotonic_milliseconds (sh_kernel h);
     connection \<leftarrow> hypr_connect_socket h session_pid KSD_HYPR_EVENT_SOCKET (now + KSD_HYPR_TIMEOUT_MS);
     return (case connection of None \<Rightarrow> - 1 | Some (d, _) \<Rightarrow> d) }"

section \<open>The stream of events\<close>

definition KSD_HYPR_EVENT_LINE_CAPACITY :: nat where
  "KSD_HYPR_EVENT_LINE_CAPACITY = 256"

record ksd_hypr_event_reader =
  rd_line :: bytes
  rd_discarding :: bool

definition ksd_wayland_hypr_event_reader_init :: ksd_hypr_event_reader where
  "ksd_wayland_hypr_event_reader_init = \<lparr>rd_line = [], rd_discarding = False\<rparr>"

text \<open>What stands before the first \<open>>>\<close>.\<close>

fun before_arrows :: "bytes \<Rightarrow> bytes option" where
  "before_arrows (a # b # s) = (if a = 62 \<and> b = 62 then Some [] else map_option (Cons a) (before_arrows (b # s)))"
| "before_arrows s = None"

definition emit_line :: "bytes \<Rightarrow> bytes" where
  "emit_line line = (case before_arrows (cstring line) of None \<Rightarrow> [] | Some name \<Rightarrow> name)"

text \<open>One byte: the reader and the name handed to the callback, if a line ends.\<close>

definition feed_byte :: "u8 \<Rightarrow> ksd_hypr_event_reader \<times> bytes list \<Rightarrow> ksd_hypr_event_reader \<times> bytes list" where
  "feed_byte b st =
     (case st of (reader, names) \<Rightarrow>
        if b = 10 then (ksd_wayland_hypr_event_reader_init, names @ [if rd_discarding reader then [] else emit_line (rd_line reader)])
        else if rd_discarding reader then (reader, names)
        else if length (rd_line reader) = KSD_HYPR_EVENT_LINE_CAPACITY - 1 then (reader\<lparr>rd_discarding := True\<rparr>, names)
        else (reader\<lparr>rd_line := rd_line reader @ [b]\<rparr>, names))"

definition ksd_wayland_hypr_event_feed :: "bytes \<Rightarrow> ksd_hypr_event_reader \<times> bytes list \<Rightarrow> ksd_hypr_event_reader \<times> bytes list" where
  "ksd_wayland_hypr_event_feed bytes st = fold feed_byte bytes st"

definition window_events :: "bytes list" where
  "window_events = map ascii [''openwindow'', ''closewindow'', ''windowtitle'', ''windowtitlev2'', ''activewindow'', ''activewindowv2'', ''movewindow'',
     ''movewindowv2'', ''changefloatingmode'', ''fullscreen'', ''pin'', ''workspace'', ''workspacev2'', ''focusedmon'', ''focusedmonv2'', ''activespecial'',
     ''activespecialv2'', ''createworkspace'', ''createworkspacev2'', ''destroyworkspace'', ''destroyworkspacev2'', ''moveworkspace'', ''moveworkspacev2'',
     ''monitoradded'', ''monitoraddedv2'', ''monitorremoved'', ''monitorremovedv2'', ''togglegroup'', ''moveintogroup'', ''moveoutofgroup'', ''configreloaded'']"

definition ksd_wayland_hypr_event_affects_windows :: "bytes option \<Rightarrow> bool" where
  "ksd_wayland_hypr_event_affects_windows name \<longleftrightarrow> (case name of None \<Rightarrow> True | Some n \<Rightarrow> n = [] \<or> n \<in> set window_events)"

section \<open>Lines of the stream\<close>

text \<open>The name of the event on a line; none when the line is too long for the reader.\<close>

definition line_name :: "bytes \<Rightarrow> bytes" where
  "line_name l = (if length l < KSD_HYPR_EVENT_LINE_CAPACITY then emit_line l else [])"

text \<open>The reader in the middle of a line.\<close>

definition holding :: "bytes \<Rightarrow> ksd_hypr_event_reader" where
  "holding l = \<lparr>rd_line = take (KSD_HYPR_EVENT_LINE_CAPACITY - 1) l, rd_discarding = (length l \<ge> KSD_HYPR_EVENT_LINE_CAPACITY)\<rparr>"

lemma feed_line: "10 \<notin> set l \<Longrightarrow> fold feed_byte l (holding p, names) = (holding (p @ l), names)"
proof (induction l arbitrary: p)
  case (Cons b l)
  have "feed_byte b (holding p, names) = (holding (p @ [b]), names)"
    using Cons.prems by (auto simp: feed_byte_def holding_def KSD_HYPR_EVENT_LINE_CAPACITY_def min_def)
  then show ?case using Cons by simp
qed simp

lemma feed_end: "feed_byte 10 (holding l, names) = (holding [], names @ [line_name l])"
  by (simp add: feed_byte_def holding_def line_name_def ksd_wayland_hypr_event_reader_init_def KSD_HYPR_EVENT_LINE_CAPACITY_def)

lemma feed_lines: "list_all (\<lambda>l. 10 \<notin> set l) lines \<Longrightarrow>
    fold feed_byte (concat (map (\<lambda>l. l @ [10]) lines)) (holding [], names) = (holding [], names @ map line_name lines)"
proof (induction lines arbitrary: names)
  case (Cons l lines)
  then show ?case using feed_line [of l "[]" names] feed_end [of l names] by simp
qed simp

lemma feed_chunks: "fold ksd_wayland_hypr_event_feed chunks st = fold feed_byte (concat chunks) st"
  by (induction chunks arbitrary: st) (simp_all add: ksd_wayland_hypr_event_feed_def)

section \<open>Replies\<close>

lemma reply_capacity_room:
  assumes "reply_capacity alloc limit capacity used = Some c" "used < capacity" "capacity \<le> limit"
  shows "used < c" "c \<le> limit" "capacity \<le> c"
  using assms by (auto simp: reply_capacity_def Let_def split: if_splits)

text \<open>A reply is what came, and less than the limit.\<close>

definition replied :: "nat \<Rightarrow> bytes \<Rightarrow> bytes option \<Rightarrow> net_event list \<Rightarrow> bool" where
  "replied limit reply r es \<longleftrightarrow> set es \<subseteq> range Received \<and> (\<forall>whole. r = Some whole \<longrightarrow> whole = reply @ received es \<and> length whole < limit)"

lemma reply_passes_spec:
  fixes kn :: "'w kernel"
  assumes "lawful kn"
  shows "length reply < capacity \<Longrightarrow> capacity \<le> limit \<Longrightarrow>
    spec (reply_passes kn d limit deadline capacity reply passes :: ('d, 'w, bytes option) io) (\<lambda>_ r _ es. replied limit reply r es)"
proof (induction passes arbitrary: reply capacity)
  case 0
  then show ?case by (simp add: spec_return replied_def)
next
  case (Suc passes)
  show ?case
  proof (cases "reply_capacity (kn_alloc kn) limit capacity (length reply)")
    case None
    then show ?thesis by (simp add: spec_return replied_def)
  next
    case (Some c)
    note room = reply_capacity_room [OF Some Suc.prems]
    let ?n = "c - 1 - length reply"
    let ?P = "\<lambda>pass es. case pass of Some (Some bs) \<Rightarrow> length bs \<le> ?n \<and> es = [Received bs] | _ \<Rightarrow> es = []"
    let ?f = "\<lambda>pass. (case pass of None \<Rightarrow> return None | Some None \<Rightarrow> return None
      | Some (Some bs) \<Rightarrow> if bs = [] then return (Some reply) else reply_passes kn d limit deadline c (reply @ bs) passes) :: ('d, 'w, bytes option) io"
    have law: "fst (kn_recv kn d ?n w) = Inr bs \<Longrightarrow> length bs \<le> ?n" for w bs using assms by (simp add: lawful_def)
    have p: "spec (transfer_pass kn d False deadline (system_call (kn_recv kn d ?n) (\<lambda>bs. [Received bs])) k :: ('d, 'w, bytes option option) io) (\<lambda>_ x _ es. ?P x es)" for k
      by (rule pass_call_spec) (rule law)
    have f: "spec (?f pass) (\<lambda>_ r _ es. case pass of Some (Some bs) \<Rightarrow> replied limit (reply @ bs) r es | _ \<Rightarrow> r = None \<and> es = [])" if "?P pass es" for pass es
    proof -
      have "spec (reply_passes kn d limit deadline c (reply @ bs) passes :: ('d, 'w, bytes option) io) (\<lambda>_ r _ es. replied limit (reply @ bs) r es)"
        if "pass = Some (Some bs)" for bs
        by (rule Suc.IH) (use that \<open>?P pass es\<close> room in auto)
      moreover have "pass = None \<or> pass = Some None \<or> (\<exists>bs. pass = Some (Some bs))" by (cases pass) auto
      ultimately show ?thesis using room by (auto intro!: spec_return simp: replied_def)
    qed
    have "spec (State_Monad.bind (transfer_pass kn d False deadline (system_call (kn_recv kn d ?n) (\<lambda>bs. [Received bs])) k) ?f) (\<lambda>_ r _ es. replied limit reply r es)" for k
      by (rule spec_bind_if [OF p f]) (auto simp: replied_def split: option.splits)
    then show ?thesis unfolding reply_passes.simps Some option.case by (intro spec_bind [OF spec_call [where P = "\<lambda>d x d' es. es = []"]]) simp_all
  qed
qed

text \<open>The bound on the passes is never what ends the loop.\<close>

lemma reply_passes_more:
  fixes kn :: "'w kernel"
  assumes "lawful kn"
  shows "length reply < capacity \<Longrightarrow> capacity \<le> limit \<Longrightarrow> limit \<le> length reply + passes \<Longrightarrow>
    run_state (reply_passes kn d limit deadline capacity reply (passes + k) :: ('d, 'w, bytes option) io) s
      = run_state (reply_passes kn d limit deadline capacity reply passes) s"
proof (induction passes arbitrary: reply capacity s)
  case (Suc passes)
  show ?case
  proof (cases "reply_capacity (kn_alloc kn) limit capacity (length reply)")
    case (Some c)
    note room = reply_capacity_room [OF Some Suc.prems(1,2)]
    let ?n = "c - 1 - length reply"
    have law: "fst (kn_recv kn d ?n w) = Inr bs \<Longrightarrow> length bs \<le> ?n" for w bs using assms by (simp add: lawful_def)
    have again: "run_state (reply_passes kn d limit deadline c (reply @ bs) (passes + k)) t = run_state (reply_passes kn d limit deadline c (reply @ bs) passes) t"
      if "run_state (transfer_pass kn d False deadline (system_call (kn_recv kn d ?n) (\<lambda>bs. [Received bs])) retries) u = (Some (Some bs), t)" "bs \<noteq> []"
      for bs retries and t u :: "('d thread_scheme, 'w, net_event) run"
    proof (rule Suc.IH)
      have "length bs \<le> ?n" using spec_run [OF pass_call_spec [where A = "\<lambda>bs. length bs \<le> ?n", OF law] that(1)] by auto
      then show "length (reply @ bs) < c" using room(1) by simp
      show "limit \<le> length (reply @ bs) + passes" using that(2) Suc.prems(3) by (cases bs) simp_all
    qed (rule room(2))
    show ?thesis using again by (auto simp: Some run_simps split: prod.split option.split)
  qed simp
qed simp

text \<open>A request that succeeds has sent the whole command and gives all that came until the other end closed.\<close>

theorem hypr_reply_whole:
  assumes "lawful kn" "KSD_HYPR_RESPONSE_CAPACITY \<le> limit"
  shows "spec (hypr_exchange kn d command limit deadline :: ('d, 'w, bytes option) io)
    (\<lambda>_ r _ es. \<forall>reply. r = Some reply \<longrightarrow> sent es = command \<and> received es = reply \<and> reply \<noteq> [] \<and> length reply < limit)"
proof -
  have replies: "spec (State_Monad.bind (reply_passes kn d limit deadline KSD_HYPR_RESPONSE_CAPACITY [] (Suc limit)) (\<lambda>reply. return (if reply = Some [] then None else reply))
      :: ('d, 'w, bytes option) io) (\<lambda>_ r _ es. \<forall>reply. r = Some reply \<longrightarrow> sent es = [] \<and> received es = reply \<and> reply \<noteq> [] \<and> length reply < limit)"
  proof (rule spec_bind [OF reply_passes_spec [OF assms(1)] spec_return [where P = "\<lambda>d y d' es. y = (if x = Some [] then None else x) \<and> es = []" for x]])
    have "sent es = []" if "set es \<subseteq> range Received" for es using that by (induction es) auto
    then show "\<forall>reply. y = Some reply \<longrightarrow> sent (es @ fs) = [] \<and> received (es @ fs) = reply \<and> reply \<noteq> [] \<and> length reply < limit"
      if "replied limit [] x es" "y = (if x = Some [] then None else x) \<and> fs = []" for x y es and fs :: "net_event list"
      using that by (auto simp: replied_def split: if_splits)
  qed (use assms(2) in \<open>simp_all add: KSD_HYPR_RESPONSE_CAPACITY_def\<close>)
  have none: "spec (return None :: ('d, 'w, bytes option) io) (\<lambda>_ r _ es. r = None)" by (rule spec_return) simp
  have k: "spec (if moved \<noteq> int (length command) then return None
        else State_Monad.bind (reply_passes kn d limit deadline KSD_HYPR_RESPONSE_CAPACITY [] (Suc limit)) (\<lambda>reply. return (if reply = Some [] then None else reply)) :: ('d, 'w, bytes option) io)
      (\<lambda>_ r _ es. \<forall>reply. r = Some reply \<longrightarrow> moved = int (length command) \<and> sent es = [] \<and> received es = reply \<and> reply \<noteq> [] \<and> length reply < limit)" for moved
    using replies none by (cases "moved = int (length command)") (auto intro: spec_weaken)
  have "received es = []" if "set es \<subseteq> range Sent" for es using that by (induction es) auto
  then show ?thesis unfolding hypr_exchange_def by (intro spec_bind [OF send_until_spec [OF assms(1)] k]) (auto simp: delivered_def)
qed

section \<open>The event stream\<close>

text \<open>
  C28: The names of Hyprland's events do not depend on how the stream is cut into reads. For
  every stream of lines and every way to divide it, the callback gets exactly one name for
  each complete line, in order: what stands before the first arrows of the line, or the empty
  name, which counts as a change of the windows, when there are no arrows or the line is
  longer than 255 bytes. What is left of an unfinished line is kept.
\<close>

theorem hypr_event_lines:
  assumes "list_all (\<lambda>l. 10 \<notin> set l) lines" "10 \<notin> set part" "concat chunks = concat (map (\<lambda>l. l @ [10]) lines) @ part"
  shows "fold ksd_wayland_hypr_event_feed chunks (ksd_wayland_hypr_event_reader_init, []) = (holding part, map line_name lines)"
proof -
  have "ksd_wayland_hypr_event_reader_init = holding []" by (simp add: ksd_wayland_hypr_event_reader_init_def holding_def KSD_HYPR_EVENT_LINE_CAPACITY_def)
  then show ?thesis using feed_lines [OF assms(1), of "[]"] feed_line [OF assms(2), of "[]"] by (simp add: feed_chunks assms(3))
qed

theorem hypr_event_lines_witness:
  "fold ksd_wayland_hypr_event_feed [ascii ''openw'', ascii ''indow>>1f'' @ [10] @ ascii ''pi'', ascii ''n>>'' @ [10], ascii ''x'']
     (ksd_wayland_hypr_event_reader_init, []) = (holding (ascii ''x''), [ascii ''openwindow'', ascii ''pin''])"
proof -
  have "map line_name [ascii ''openwindow>>1f'', ascii ''pin>>''] = [ascii ''openwindow'', ascii ''pin'']" by code_simp
  then show ?thesis
    using hypr_event_lines [of "[ascii ''openwindow>>1f'', ascii ''pin>>'']" "ascii ''x''" "[ascii ''openw'', ascii ''indow>>1f'' @ [10] @ ascii ''pi'', ascii ''n>>'' @ [10], ascii ''x'']"]
    by (simp add: ascii_def)
qed

end
