(* ===== verification/Spec2Isabelle.thy ===== *)
theory Spec2Isabelle
  imports Operation_Scope Operation_Result Kwin_Jobs Relay_World Registry Json_Spec Authorization Worker_Wire Operation_Safety Resource_Balance
    Client_Stream Hypr_Windows Hypr_Ipc
begin

text \<open>
  \<^bold>\<open>Verification of keysharp-desktop.\<close> The repository is a desktop access service: client
  programs ask an authority daemon for windows, captures, the clipboard and the pointer; the
  authority decides with a permission store and a consent prompt whether they may, and carries
  the request to whatever serves the session's compositor.

  \<^bold>\<open>The program.\<close> A client library (src/src/client.c) speaks a framed protocol
  (src/src/protocol.h, protocol\_io.c) with the authority (authorityd.c). A session daemon of
  each user registers the user's compositor with the authority (backend.c, the registry of
  authorityd.c). Operations reach the desktop by one of four routes: a relay to the KWin
  script (kwin\_relay.c, with the queue kwin\_jobs.c and the text envelopes kwin\_envelope.c on
  the daemon's side), a relay to a display worker that stays (capture\_worker.c, x11/,
  wayland/), a capture worker for one request (capture\_worker.c, local\_capture.c), or a
  compositor provider on the session bus (provider.c). A client holds a lease, with the
  grants of its application and, when it subscribes, a table of windows whose changes are
  pushed to it as state events (state\_wire.c, authorityd.c).

  \<^bold>\<open>Foundations.\<close>
  \<^item> Prelude, Protocol: words of the C code's widths, bytes, the shared table scan and its
    lemmas, the constants of protocol.h and client.h.
  \<^item> Byte\_Codec, Utf8, Frame: integers, cursors, buffers, the text check, frames and chunked
    requests of protocol\_io.c. The locale \<open>wire_codec\<close> is the contract between a writer and a
    reader; its interpretations give the round trips of every record on the wire.
  \<^item> Slot\_Table: the locale of a fixed array used as a finite map, interpreted for the job
    queue, the relay and the registry.
  \<^item> Effects: a weakest-precondition calculus over the state monad for code that calls its
    surroundings, with a log of what it did. The locale \<open>run_property\<close> is a property that holds
    of doing nothing and is kept by sequencing; one interpretation per invariant gives the
    rules by which it is proved of a whole computation.

  \<^bold>\<open>Components.\<close>
  \<^item> Operation\_Scope (operation\_scope.c), Operation\_Result (operation\_result.c), Budgets
    (worker\_pool.c and the reservations of authorityd.c, as a state machine over all
    interleavings of the connection threads).
  \<^item> Kwin\_Wire, Kwin\_Envelope, Kwin\_Report, Kwin\_Jobs (kwin\_lanes.c, kwin\_peer.c,
    kwin\_envelope.c, kwin\_jobs.c): grammar of the envelopes, life of a job, and what a report
    does, with and without memory. Kwin\_Relay and
    Relay\_World (kwin\_relay.c): the critical sections of a call and what holds under every
    interleaving of callers with the retirement of the relay.
  \<^item> Backend and Registry (backend.c, authorityd.c): what backends serve, the table of session
    daemons as a refinement of a finite map, and ownership of the relays in it.
  \<^item> State\_Wire, State\_Json, Json\_Spec (state\_wire.c): state events, window records and the
    JSON scanner, against an abstract syntax of JSON.
  \<^item> Lease (authorityd.c): the lease, its window table and its event stream; a client that
    replays the stream has the table.
  \<^item> Responses (authorityd.c, client.c): responses from the authority to the client library.
  \<^item> Transport (transport.c, the socket half of protocol\_io.c): waiting, sending, receiving,
    passed descriptors, and frames over a stream socket; every system call is a function of an
    arbitrary world.
  \<^item> Client, Client\_Calls (client.c): the connection of the client library with its event queue
    and poll descriptor, requests and responses, and every public call. Client\_Queue and
    Client\_Runs: the steps that the event queue takes, over the opening of a connection and
    any sequence of public calls (\<open>client_run\<close>). Client\_Exchange: whose answer a request gets,
    and what becomes of the descriptors that come with answers. Client\_Stream: what a program
    can rely on. Events arrive once and in order, the poll descriptor is ready exactly when
    there is something to learn, a queued event is handed over by the next call or, without
    memory for it, the connection is closed, an answer is
    the one to the request that was sent, and no call leaves a received descriptor open.
  \<^item> Worker\_Requests, Capture\_Worker, Worker\_Wire (capture\_worker.c, local\_capture.c,
    x11/x11\_worker.c, wayland/wl\_worker.c): admission of requests, start of a worker, answers.
  \<^item> Session\_Environ (session\_environ.c): variables of the session daemon's environment.
    Hypr\_Json and Hypr\_Ipc (wayland/wl\_hypr.c): the reader of Hyprland's JSON replies, its
    sockets, requests and event stream. Hypr\_Spec and Hypr\_Windows: a syntax of JSON documents
    with all their white space and the meaning of clients, monitors and keyboards on it, which
    the readers compute; a document within the limits is stepped over exactly.
  \<^item> Session, Lease\_Grants, Authorization (authorityd.c): the session, the refresh of its
    grants, prompting, completing a lease, administration of the stored grants.
  \<^item> Operations, State\_Sources, Requests (authorityd.c): executing an operation, the threads
    that watch the desktop, and the connection from its greeting to its end.
  \<^item> Operation\_Safety, Lease\_Custody, Resource\_Balance: the properties of those three over
    whole runs: nothing reaches the desktop without permission, the authority's own window
    queries included, no result after a revocation, no lease beyond
    the store's grants, nothing reserved that is not given back.

  \<^bold>\<open>How code is modelled.\<close> Pure functions are HOL functions; a C function that returns a flag and
  updates through a pointer returns the pair, or an option when the target is only read on
  success. Allocation is a parameter \<open>alloc\<close> that says for each size whether it is granted, for the length of a
  call or a run; the statements that depend on a later allocation (an event decoded again, a body copied) are
  made for every such parameter, refusals included. Words have
  the width of the C type and wrap; counters that the code bounds are natural numbers. C
  strings are their bytes before the terminator. Descriptors are integers, with -1 for none,
  and closing one is recorded. The permission library, the kernel, the clocks and the
  sockets, which are not part of the repository, are the fields of \<open>services\<close> (theory
  Session): each is a function of an arbitrary world that answers and moves the world, so the
  theorems hold for every behaviour of the surroundings, other threads included. A critical
  section under a mutex is one call: what other threads do between two of them is what the
  world does to the shared tables (the registration of a daemon takes the table as the others
  have left it when its acknowledgement fails; the budgets and the relay are machines over all interleavings, in
  which a connection thread holds one reservation of each sort, as the code takes them, and the
  64-bit request id of a relay does not wrap). Where a theorem needs the surroundings to keep to a rule,
  the rule is a hypothesis (\<open>store_honest\<close>: the store reports the grants it has; \<open>backed\<close> leases
  at every lock: the other threads keep the invariant the theorem proves of this one;
  \<open>steady\<close>: the leases a connection locks are its own; \<open>capture_honest\<close>: the permission library
  captures the process it is asked about; \<open>lawful\<close>, \<open>lawful_messages\<close> and \<open>sound_host\<close>: a
  system call moves no more bytes than it was asked to, the descriptors in a message are open
  ones, and a closed descriptor is not read from).

  \<^bold>\<open>Loops.\<close> A loop over data is structural recursion or has a measure. A loop that waits (the
  connection, a watch, a capture, the wait for the window table, the consent prompt) is a
  recursion over the list of outcomes of its waits; the list is arbitrary, so the theorems hold
  for every number of rounds, and its end stands for the deadline or, where the code has none,
  for the moment the surroundings end the loop. The transfers of Transport take one pass for
  each byte wanted, which is proved to be enough. The client's loops that last as long as the
  service sends events take an arbitrary number of rounds and answer \<open>None\<close> when it is used up;
  the theorems hold for every such number.

  \<^bold>\<open>Not modelled.\<close> Process creation (the launching, sandboxing and pipes of
  capture\_worker.c), the GLib main loop and D-Bus glue (provider.c, kwin\_bus.c,
  session\_backend.c), the calls into libxcb, libwayland and PipeWire that carry out operations
  (x11/, wayland/), the opacity of windows (floating point), pixel conversion and PNG encoding (local\_capture.c), the command line
  tools (cli.c, main.c, enable\_extension.c) and the installation checks (install\_mode.c). The
  permission library is a git submodule without sources.
\<close>

end
